(* ===== verification/Prelude.thy ===== *)
theory Prelude
  imports Main "HOL-Library.Word" "HOL-Library.Signed_Division"
    "HOL-Library.List_Lexorder" "HOL-Library.Char_ord" "HOL-Library.Multiset"
begin

text \<open>
  Shared vocabulary of the development.

  \<^item> \<open>rbind\<close> sequences computations of the sum type \<open>'e + 'a\<close>: \<open>Inl\<close> is the
    \<open>Err\<close> of Rust's \<open>Result\<close>, \<open>Inr\<close> its \<open>Ok\<close>, and \<open>rbind\<close> is the \<open>?\<close> operator.
  \<^item> \<open>wrap32\<close>, \<open>wrap64\<close> reduce an integer to the two's complement range of
    \<open>i32\<close>, \<open>i64\<close>; a Rust integer is an \<open>int\<close> and the wrap of each wrapping operation is
    written out.  \<open>smod\<close> of the library is Rust's truncating \<open>%\<close>.
  \<^item> \<open>nth_opt\<close> is the slice method \<open>get\<close>.
  \<^item> \<open>bt_get\<close>, \<open>bt_insert\<close>, \<open>bt_remove\<close> are the \<open>BTreeMap\<close> operations on
    the in-order list of entries, which is what iteration yields; the locale \<open>ordered_map\<close>
    is the contract the rest of the development uses.
\<close>

named_theorems rust_simps \<open>evaluation rules of the modelled standard-library operations\<close>

section \<open>Results\<close>

fun rbind :: "'e + 'a \<Rightarrow> ('a \<Rightarrow> 'e + 'b) \<Rightarrow> 'e + 'b" where
  "rbind (Inl e) f = Inl e"
| "rbind (Inr x) f = f x"

lemma rbind_Inr_iff: "rbind m f = Inr y \<longleftrightarrow> (\<exists>x. m = Inr x \<and> f x = Inr y)"
  by (cases m) auto

lemma rbind_Inl_iff: "rbind m f = Inl e \<longleftrightarrow> m = Inl e \<or> (\<exists>x. m = Inr x \<and> f x = Inl e)"
  by (cases m) auto

lemma rbind_split:
  "P (rbind m f) \<longleftrightarrow> (\<forall>e. m = Inl e \<longrightarrow> P (Inl e)) \<and> (\<forall>x. m = Inr x \<longrightarrow> P (f x))"
  by (cases m) auto

lemma rbind_cong [fundef_cong]:
  "m = m' \<Longrightarrow> (\<And>x. m' = Inr x \<Longrightarrow> f x = g x) \<Longrightarrow> rbind m f = rbind m' g"
  by (cases m') auto

fun is_ok :: "'e + 'a \<Rightarrow> bool" where
  "is_ok (Inl e) = False"
| "is_ok (Inr x) = True"

lemma is_ok_iff: "is_ok m \<longleftrightarrow> (\<exists>x. m = Inr x)"
  by (cases m) auto

text \<open>A loop that stops at the first error, as \<open>for x in xs { step(x)?; }\<close>.\<close>

fun rfold :: "('s \<Rightarrow> 'a \<Rightarrow> 'e + 's) \<Rightarrow> 's \<Rightarrow> 'a list \<Rightarrow> 'e + 's" where
  "rfold f s [] = Inr s"
| "rfold f s (x # xs) = rbind (f s x) (\<lambda>s'. rfold f s' xs)"

lemma rfold_append: "rfold f s (xs @ ys) = rbind (rfold f s xs) (\<lambda>s'. rfold f s' ys)"
  by (induction xs arbitrary: s) (auto split: rbind_split)

lemma rfold_invariant:
  assumes "\<And>s x s'. x \<in> set xs \<Longrightarrow> P s \<Longrightarrow> f s x = Inr s' \<Longrightarrow> P s'"
    and "P s" and "rfold f s xs = Inr t"
  shows "P t"
  using assms
proof (induction xs arbitrary: s)
  case Nil
  then show ?case by simp
next
  case (Cons x xs)
  from Cons.prems(3) obtain s' where s': "f s x = Inr s'" "rfold f s' xs = Inr t"
    by (auto simp: rbind_Inr_iff)
  have "P s'" using Cons.prems(1)[of x s s'] Cons.prems(2) s'(1) by simp
  then show ?case using Cons.IH[of s'] Cons.prems(1) s'(2) by auto
qed

section \<open>Machine integers\<close>

text \<open>The range of \<open>i32\<close> and the reduction of wrapping arithmetic to it.\<close>

definition in_i32 :: "int \<Rightarrow> bool" where
  "in_i32 x \<longleftrightarrow> - (2 ^ 31) \<le> x \<and> x < 2 ^ 31"

definition wrap32 :: "int \<Rightarrow> int" where
  "wrap32 x = signed_take_bit 31 x"

definition wrap64 :: "int \<Rightarrow> int" where
  "wrap64 x = signed_take_bit 63 x"

definition i32_max :: int where
  "i32_max = 2147483647"

definition i32_min :: int where
  "i32_min = - 2147483648"

text \<open>Saturating addition and subtraction of \<open>i32\<close>.\<close>

definition sat32 :: "int \<Rightarrow> int" where
  "sat32 x = (if x > i32_max then i32_max else if x < i32_min then i32_min else x)"

lemma wrap32_id: "in_i32 x \<Longrightarrow> wrap32 x = x"
  by (simp add: in_i32_def wrap32_def signed_take_bit_int_eq_self)

lemma wrap32_in_i32 [simp]: "in_i32 (wrap32 x)"
  using signed_take_bit_int_greater_eq_minus_exp[of 31 x] signed_take_bit_int_less_exp[of 31 x]
  by (simp add: in_i32_def wrap32_def)

lemma wrap32_idem [simp]: "wrap32 (wrap32 x) = wrap32 x"
  by (simp add: wrap32_id)

lemma wrap32_add_left: "wrap32 (wrap32 a + b) = wrap32 (a + b)"
  using signed_take_bit_add[of 31 "signed_take_bit 31 a" b] signed_take_bit_add[of 31 a b]
  by (simp add: wrap32_def)

lemma wrap32_add_right: "wrap32 (a + wrap32 b) = wrap32 (a + b)"
  using wrap32_add_left[of b a] by (simp add: add.commute)

lemma wrap32_diff_left: "wrap32 (wrap32 a - b) = wrap32 (a - b)"
  using signed_take_bit_diff[of 31 "signed_take_bit 31 a" b] signed_take_bit_diff[of 31 a b]
  by (simp add: wrap32_def)

lemma wrap64_id: "- (2 ^ 63) \<le> x \<Longrightarrow> x < 2 ^ 63 \<Longrightarrow> wrap64 x = x"
  by (simp add: wrap64_def signed_take_bit_int_eq_self)

lemma sat32_in_i32 [simp]: "in_i32 (sat32 x)"
  by (simp add: sat32_def in_i32_def i32_max_def i32_min_def)

lemma sat32_id: "in_i32 x \<Longrightarrow> sat32 x = x"
  by (simp add: sat32_def in_i32_def i32_max_def i32_min_def)

lemma in_i32_zero [simp]: "in_i32 0"
  by (simp add: in_i32_def)

section \<open>Slices\<close>

definition nth_opt :: "'a list \<Rightarrow> nat \<Rightarrow> 'a option" where
  "nth_opt xs i = (if i < length xs then Some (xs ! i) else None)"

lemma nth_opt_simps [simp, rust_simps]:
  "nth_opt [] i = None"
  "nth_opt (x # xs) 0 = Some x"
  "nth_opt (x # xs) (Suc i) = nth_opt xs i"
  by (simp_all add: nth_opt_def)

lemma nth_opt_append:
  "nth_opt (xs @ ys) i = (if i < length xs then nth_opt xs i else nth_opt ys (i - length xs))"
  by (auto simp: nth_opt_def nth_append)

lemma nth_opt_Some_iff: "nth_opt xs i = Some x \<longleftrightarrow> i < length xs \<and> xs ! i = x"
  by (auto simp: nth_opt_def)

lemma nth_opt_None_iff: "nth_opt xs i = None \<longleftrightarrow> length xs \<le> i"
  by (auto simp: nth_opt_def)

lemma nth_opt_map: "nth_opt (map f xs) i = map_option f (nth_opt xs i)"
  by (auto simp: nth_opt_def)

text \<open>\<open>position\<close> of an iterator: the first index whose element satisfies the test.\<close>

fun find_index :: "('a \<Rightarrow> bool) \<Rightarrow> 'a list \<Rightarrow> nat option" where
  "find_index p [] = None"
| "find_index p (x # xs) = (if p x then Some 0 else map_option Suc (find_index p xs))"

lemma find_index_Some:
  "find_index p xs = Some i \<Longrightarrow> i < length xs \<and> p (xs ! i) \<and> (\<forall>j<i. \<not> p (xs ! j))"
proof (induction xs arbitrary: i)
  case Nil
  then show ?case by simp
next
  case (Cons x xs)
  show ?case
  proof (cases "p x")
    case True
    with Cons.prems show ?thesis by simp
  next
    case False
    with Cons.prems obtain k where k: "find_index p xs = Some k" "i = Suc k" by auto
    from Cons.IH[OF k(1)] False k(2) show ?thesis by (auto simp: less_Suc_eq_0_disj)
  qed
qed

lemma find_index_None: "find_index p xs = None \<longleftrightarrow> (\<forall>x\<in>set xs. \<not> p x)"
  by (induction xs) auto

text \<open>\<open>dedup\<close> of a vector: drops each element equal to its predecessor.\<close>

fun dedup :: "'a list \<Rightarrow> 'a list" where
  "dedup (x # y # xs) = (if x = y then dedup (y # xs) else x # dedup (y # xs))"
| "dedup xs = xs"

lemma set_dedup [simp]: "set (dedup xs) = set xs"
  by (induction xs rule: dedup.induct) auto

lemma strict_sorted_dedup:
  fixes xs :: "'a::linorder list"
  shows "sorted xs \<Longrightarrow> sorted_wrt (<) (dedup xs)"
proof (induction xs rule: dedup.induct)
  case (1 x y xs)
  then have tail: "sorted_wrt (<) (dedup (y # xs))" by auto
  show ?case
  proof (cases "x = y")
    case True
    with tail show ?thesis by simp
  next
    case False
    with "1.prems" have "\<forall>z\<in>set (y # xs). x < z" by auto
    with tail False show ?thesis by auto
  qed
qed auto

section \<open>Ordered maps\<close>

text \<open>
  A \<open>BTreeMap<K, V>\<close> is the list of its entries in key order.  Iteration, \<open>len\<close>
  and \<open>keys\<close> are those of the list.
\<close>

type_synonym ('k, 'v) btree = "('k \<times> 'v) list"

definition bt_sorted :: "('k::linorder, 'v) btree \<Rightarrow> bool" where
  "bt_sorted m \<longleftrightarrow> sorted_wrt (<) (map fst m)"

fun bt_get :: "('k, 'v) btree \<Rightarrow> 'k \<Rightarrow> 'v option" where
  "bt_get [] k = None"
| "bt_get ((a, v) # m) k = (if a = k then Some v else bt_get m k)"

fun bt_insert :: "'k::linorder \<Rightarrow> 'v \<Rightarrow> ('k, 'v) btree \<Rightarrow> ('k, 'v) btree" where
  "bt_insert k v [] = [(k, v)]"
| "bt_insert k v ((a, w) # m) =
     (if k < a then (k, v) # (a, w) # m
      else if a < k then (a, w) # bt_insert k v m
      else (k, v) # m)"

fun bt_remove :: "'k \<Rightarrow> ('k, 'v) btree \<Rightarrow> ('k, 'v) btree" where
  "bt_remove k [] = []"
| "bt_remove k ((a, w) # m) = (if a = k then m else (a, w) # bt_remove k m)"

definition bt_has :: "('k, 'v) btree \<Rightarrow> 'k \<Rightarrow> bool" where
  "bt_has m k \<longleftrightarrow> bt_get m k \<noteq> None"

lemma bt_get_None_iff: "bt_get m k = None \<longleftrightarrow> k \<notin> fst ` set m"
  by (induction m k rule: bt_get.induct) auto

lemma bt_get_Some_in: "bt_get m k = Some v \<Longrightarrow> (k, v) \<in> set m"
  by (induction m k rule: bt_get.induct) (auto split: if_splits)

lemma bt_sorted_Nil [simp]: "bt_sorted []"
  by (simp add: bt_sorted_def)

lemma bt_sorted_Cons [simp]:
  "bt_sorted ((a, v) # m) \<longleftrightarrow> (\<forall>k\<in>fst ` set m. a < k) \<and> bt_sorted m"
  by (auto simp: bt_sorted_def)

lemma bt_get_in: "bt_sorted m \<Longrightarrow> (k, v) \<in> set m \<Longrightarrow> bt_get m k = Some v"
  by (induction m) (auto, force)

lemma keys_bt_insert [simp]: "fst ` set (bt_insert k v m) = insert k (fst ` set m)"
  by (induction k v m rule: bt_insert.induct) auto

lemma keys_bt_remove: "bt_sorted m \<Longrightarrow> fst ` set (bt_remove k m) = fst ` set m - {k}"
  by (induction k m rule: bt_remove.induct) auto

lemma bt_get_map: "bt_get (map (\<lambda>(k, v). (k, f v)) m) k = map_option f (bt_get m k)"
  by (induction m) auto

lemma bt_get_insert: "bt_get (bt_insert k v m) j = (if j = k then Some v else bt_get m j)"
  by (induction k v m rule: bt_insert.induct) auto

lemma bt_get_below: "bt_sorted ((a, v) # m) \<Longrightarrow> k \<le> a \<Longrightarrow> bt_get m k = None"
  by (force simp: bt_get_None_iff)

lemma bt_get_remove: "bt_sorted m \<Longrightarrow> bt_get (bt_remove k m) j = (if j = k then None else bt_get m j)"
proof (induction k m rule: bt_remove.induct)
  case (1 k)
  then show ?case by simp
next
  case (2 k a w m)
  then show ?case using bt_get_below[OF "2.prems", of a] by auto
qed

lemma bt_sorted_insert [simp]: "bt_sorted m \<Longrightarrow> bt_sorted (bt_insert k v m)"
  by (induction k v m rule: bt_insert.induct) auto

lemma bt_sorted_remove [simp]: "bt_sorted m \<Longrightarrow> bt_sorted (bt_remove k m)"
  by (induction k m rule: bt_remove.induct) (auto simp: keys_bt_remove)

lemma length_bt_insert:
  "bt_sorted m \<Longrightarrow>
   length (bt_insert k v m) = (if bt_get m k = None then Suc (length m) else length m)"
proof (induction k v m rule: bt_insert.induct)
  case (1 k v)
  show ?case by simp
next
  case (2 k v a w m)
  then have "k < a \<Longrightarrow> bt_get m k = None" by (meson bt_get_below less_imp_le)
  with 2 show ?case by auto
qed

text \<open>The contract of an ordered map, and its discharge by the entry-list model.\<close>

locale ordered_map =
  fixes get :: "'m \<Rightarrow> 'k::linorder \<Rightarrow> 'v option"
    and ins :: "'k \<Rightarrow> 'v \<Rightarrow> 'm \<Rightarrow> 'm"
    and del :: "'k \<Rightarrow> 'm \<Rightarrow> 'm"
    and nil :: "'m"
    and entries :: "'m \<Rightarrow> ('k \<times> 'v) list"
    and inv :: "'m \<Rightarrow> bool"
  assumes get_nil: "get nil k = None"
    and inv_nil: "inv nil"
    and get_ins: "inv m \<Longrightarrow> get (ins k v m) j = (if j = k then Some v else get m j)"
    and get_del: "inv m \<Longrightarrow> get (del k m) j = (if j = k then None else get m j)"
    and inv_ins: "inv m \<Longrightarrow> inv (ins k v m)"
    and inv_del: "inv m \<Longrightarrow> inv (del k m)"
    and entries_sorted: "inv m \<Longrightarrow> sorted_wrt (<) (map fst (entries m))"
    and entries_get: "inv m \<Longrightarrow> (k, v) \<in> set (entries m) \<longleftrightarrow> get m k = Some v"
begin

lemma ins_same: "inv m \<Longrightarrow> get (ins k v m) k = Some v"
  by (simp add: get_ins)

lemma ins_other: "inv m \<Longrightarrow> j \<noteq> k \<Longrightarrow> get (ins k v m) j = get m j"
  by (simp add: get_ins)

text \<open>Two maps with the same lookups enumerate the same entries, in the same order.\<close>

lemma entries_unique:
  assumes "inv m" "inv n" and "\<And>k. get m k = get n k"
  shows "entries m = entries n"
proof -
  have s: "set (entries m) = set (entries n)"
    using assms entries_get by (auto simp: set_eq_iff)
  have ks: "map fst (entries m) = map fst (entries n)"
    using entries_sorted[OF assms(1)] entries_sorted[OF assms(2)] s
    by (intro strict_sorted_equal) auto
  have inj: "inj_on fst (set (entries m))"
    using entries_sorted[OF assms(1)] strict_sorted_iff distinct_map by metis
  show ?thesis
  proof (rule map_inj_on[OF ks])
    show "inj_on fst (set (entries m) \<union> set (entries n))" using inj s by simp
  qed
qed

end

interpretation bt: ordered_map bt_get bt_insert bt_remove "[]" "\<lambda>m. m" bt_sorted
proof unfold_locales
  fix m :: "('a, 'b) btree" and k v
  assume "bt_sorted m"
  then show "(k, v) \<in> set m \<longleftrightarrow> bt_get m k = Some v"
    by (auto dest: bt_get_Some_in bt_get_in)
next
  fix m :: "('a, 'b) btree"
  assume "bt_sorted m"
  then show "sorted_wrt (<) (map fst m)" by (simp add: bt_sorted_def)
qed (simp_all add: bt_get_insert bt_get_remove)

lemma bt_ext:
  assumes "bt_sorted m" "bt_sorted n" "\<And>k. bt_get m k = bt_get n k"
  shows "m = n"
  by (rule bt.entries_unique[OF assms])

section \<open>Little-endian bytes\<close>

type_synonym byte = "8 word"

fun le_bytes :: "nat \<Rightarrow> nat \<Rightarrow> byte list" where
  "le_bytes 0 x = []"
| "le_bytes (Suc n) x = of_nat (x mod 256) # le_bytes n (x div 256)"

fun le_value :: "byte list \<Rightarrow> nat" where
  "le_value [] = 0"
| "le_value (b # bs) = unat b + 256 * le_value bs"

lemma length_le_bytes [simp]: "length (le_bytes n x) = n"
  by (induction n arbitrary: x) auto

lemma le_bytes_numeral [simp]:
  "le_bytes (numeral k) x = of_nat (x mod 256) # le_bytes (pred_numeral k) (x div 256)"
  by (simp only: numeral_eq_Suc[of k] le_bytes.simps)

lemma unat_byte_mod [simp]: "unat (of_nat (x mod 256) :: byte) = x mod 256"
  by (simp add: unat_of_nat)

lemma le_value_bytes: "x < 256 ^ n \<Longrightarrow> le_value (le_bytes n x) = x"
proof (induction n arbitrary: x)
  case 0
  then show ?case by simp
next
  case (Suc n)
  then have "x div 256 < 256 ^ n" by (simp add: less_mult_imp_div_less mult.commute)
  with Suc.IH have "le_value (le_bytes n (x div 256)) = x div 256" by blast
  then show ?case by simp
qed

lemma le_value_less: "le_value bs < 256 ^ length bs"
proof (induction bs)
  case Nil
  then show ?case by simp
next
  case (Cons b bs)
  have "unat b < 256" using unsigned_less[of b, where ?'a = nat] by simp
  with Cons show ?case by simp
qed

lemma le_bytes_value: "le_bytes (length bs) (le_value bs) = bs"
proof (induction bs)
  case Nil
  then show ?case by simp
next
  case (Cons b bs)
  have "unat b < 256" using unsigned_less[of b, where ?'a = nat] by simp
  then have "(unat b + 256 * le_value bs) mod 256 = unat b"
    and "(unat b + 256 * le_value bs) div 256 = le_value bs" by simp_all
  with Cons show ?case by simp
qed

end
