(* ===== verification/CoreIds.thy ===== *)
theory CoreIds
  imports Prelude
begin

unbundle bit_operations_syntax

text \<open>
  \<open>klotho-core/src/id.rs\<close>, \<open>tick.rs\<close>, \<open>hash.rs\<close> and \<open>reject.rs\<close>: the packed 128-bit
  \<open>Sigil\<close>, its kind byte, the simulation levels of detail, the saturating clock, 32-byte
  digests and the reject reasons.  A \<open>Sigil\<close> is a 128-bit word, so its derived
  order is the unsigned order of words.
\<close>

section \<open>Kinds and levels of detail\<close>

datatype locus_kind = Actor | Place | Relic | LawKind | Beat | Chorus | Observer

definition locus_kind_as_u8 :: "locus_kind \<Rightarrow> byte" where
  "locus_kind_as_u8 k =
     (case k of Actor \<Rightarrow> 1 | Place \<Rightarrow> 2 | Relic \<Rightarrow> 3 | LawKind \<Rightarrow> 4 | Beat \<Rightarrow> 5
        | Chorus \<Rightarrow> 6 | Observer \<Rightarrow> 7)"

definition locus_kind_from_u8 :: "byte \<Rightarrow> locus_kind option" where
  "locus_kind_from_u8 v =
     (if v = 1 then Some Actor
      else if v = 2 then Some Place
      else if v = 3 then Some Relic
      else if v = 4 then Some LawKind
      else if v = 5 then Some Beat
      else if v = 6 then Some Chorus
      else if v = 7 then Some Observer
      else None)"

lemma locus_kind_round_trip [simp]: "locus_kind_from_u8 (locus_kind_as_u8 k) = Some k"
  by (cases k) (simp_all add: locus_kind_from_u8_def locus_kind_as_u8_def)

lemma locus_kind_from_u8_Some: "locus_kind_from_u8 v = Some k \<Longrightarrow> v = locus_kind_as_u8 k"
  unfolding locus_kind_from_u8_def locus_kind_as_u8_def
  by (fastforce split: if_split_asm)

lemma locus_kind_as_u8_inject: "locus_kind_as_u8 k = locus_kind_as_u8 j \<Longrightarrow> k = j"
  by (metis locus_kind_round_trip option.inject)

datatype sim_lod = Full | Far | Dormant

definition sim_lod_as_u8 :: "sim_lod \<Rightarrow> byte" where
  "sim_lod_as_u8 l = (case l of Full \<Rightarrow> 0 | Far \<Rightarrow> 1 | Dormant \<Rightarrow> 2)"

definition sim_lod_from_u8 :: "byte \<Rightarrow> sim_lod option" where
  "sim_lod_from_u8 v =
     (if v = 0 then Some Full else if v = 1 then Some Far
      else if v = 2 then Some Dormant else None)"

lemma sim_lod_round_trip [simp]: "sim_lod_from_u8 (sim_lod_as_u8 l) = Some l"
  by (cases l) (simp_all add: sim_lod_from_u8_def sim_lod_as_u8_def)

definition sleep_after_ticks :: nat where
  "sleep_after_ticks = 120"

definition is_phys_awake :: "nat \<Rightarrow> bool" where
  "is_phys_awake t \<longleftrightarrow> t < sleep_after_ticks"

section \<open>Sigils\<close>

type_synonym sigil = "128 word"

definition sigil_id_mask :: "128 word" where
  "sigil_id_mask = push_bit 112 1 - 1"

definition sigil_pack_truncated :: "locus_kind \<Rightarrow> byte \<Rightarrow> 128 word \<Rightarrow> sigil" where
  "sigil_pack_truncated k g i =
     (push_bit 120 (ucast (locus_kind_as_u8 k)) OR push_bit 112 (ucast g)) OR (i AND sigil_id_mask)"

definition sigil_pack :: "locus_kind \<Rightarrow> byte \<Rightarrow> 128 word \<Rightarrow> sigil option" where
  "sigil_pack k g i = (if i > sigil_id_mask then None else Some (sigil_pack_truncated k g i))"

definition sigil_kind :: "sigil \<Rightarrow> locus_kind option" where
  "sigil_kind s = locus_kind_from_u8 (ucast (drop_bit 120 s AND 0xff))"

definition sigil_generation :: "sigil \<Rightarrow> byte" where
  "sigil_generation s = ucast (drop_bit 112 s AND 0xff)"

definition sigil_id :: "sigil \<Rightarrow> 128 word" where
  "sigil_id s = s AND sigil_id_mask"

lemma sigil_id_mask_eq: "sigil_id_mask = mask 112"
  by (simp add: sigil_id_mask_def mask_eq_exp_minus_1)

lemma byte_mask_eq: "(0xff :: 128 word) = mask 8"
  by (simp add: mask_eq_exp_minus_1)

lemma sigil_kind_byte: "ucast (drop_bit 120 (sigil_pack_truncated k g i) AND 0xff) = locus_kind_as_u8 k"
  unfolding sigil_pack_truncated_def sigil_id_mask_eq byte_mask_eq
  by (rule bit_word_eqI) (auto simp: bit_simps dest: bit_imp_le_length)

lemma sigil_generation_pack: "sigil_generation (sigil_pack_truncated k g i) = g"
  unfolding sigil_generation_def sigil_pack_truncated_def sigil_id_mask_eq byte_mask_eq
  by (rule bit_word_eqI) (auto simp: bit_simps)

lemma sigil_id_pack_truncated: "sigil_id (sigil_pack_truncated k g i) = i AND sigil_id_mask"
  unfolding sigil_id_def sigil_pack_truncated_def sigil_id_mask_eq
  by (rule bit_word_eqI) (auto simp: bit_simps)

lemma sigil_mask_absorb: "i \<le> sigil_id_mask \<Longrightarrow> i AND sigil_id_mask = i"
  unfolding sigil_id_mask_eq
proof -
  assume "i \<le> mask 112"
  then have "uint i \<le> uint (mask 112 :: 128 word)" by (simp add: word_le_def)
  also have "uint (mask 112 :: 128 word) = 2 ^ 112 - 1" by (simp add: mask_eq_exp_minus_1)
  finally have "take_bit 112 (uint i) = uint i" by (intro take_bit_int_eq_self) auto
  then have "take_bit 112 i = i" by (metis unsigned_take_bit_eq unsigned_word_eqI)
  then show "i AND mask 112 = i" by (simp add: take_bit_eq_mask)
qed

lemma sigil_kind_pack: "sigil_kind (sigil_pack_truncated k g i) = Some k"
  by (simp add: sigil_kind_def sigil_kind_byte)

section \<open>Ticks\<close>

type_synonym tick = nat

definition u64_max :: nat where
  "u64_max = 18446744073709551615"

definition tick_saturating_add :: "tick \<Rightarrow> nat \<Rightarrow> tick" where
  "tick_saturating_add t dt = min (t + dt) u64_max"

definition tick_next :: "tick \<Rightarrow> tick" where
  "tick_next t = tick_saturating_add t 1"

definition tick_diff :: "tick \<Rightarrow> tick \<Rightarrow> nat" where
  "tick_diff a b = a - b"

lemma tick_next_mono: "t \<le> u64_max \<Longrightarrow> t \<le> tick_next t"
  by (simp add: tick_next_def tick_saturating_add_def)

section \<open>Digests\<close>

type_synonym digest = "byte list"

definition hash_bitxor :: "digest \<Rightarrow> digest \<Rightarrow> digest" where
  "hash_bitxor a b = map2 (XOR) a b"

definition hex_digit :: "nat \<Rightarrow> char" where
  "hex_digit n = (if n < 10 then char_of (48 + n) else char_of (87 + n))"

fun hash_to_string :: "digest \<Rightarrow> string" where
  "hash_to_string [] = []"
| "hash_to_string (b # bs) =
     hex_digit (unat b div 16) # hex_digit (unat b mod 16) # hash_to_string bs"

definition hex_val :: "char \<Rightarrow> string + byte" where
  "hex_val c =
     (let b = (of_char c :: nat)
      in if 48 \<le> b \<and> b \<le> 57 then Inr (of_nat (b - 48))
         else if 97 \<le> b \<and> b \<le> 102 then Inr (of_nat (b - 97 + 10))
         else if 65 \<le> b \<and> b \<le> 70 then Inr (of_nat (b - 65 + 10))
         else Inl ''digest contains a non-hex character'')"

fun parse_hex_pairs :: "string \<Rightarrow> string + byte list" where
  "parse_hex_pairs (h # l # s) =
     rbind (hex_val h) (\<lambda>hi. rbind (hex_val l) (\<lambda>lo.
     rbind (parse_hex_pairs s) (\<lambda>bs. Inr ((push_bit 4 hi OR lo) # bs))))"
| "parse_hex_pairs _ = Inr []"

definition parse_hex32 :: "string \<Rightarrow> string + digest" where
  "parse_hex32 s =
     (if length s \<noteq> 64 then Inl ''digest must be 64 hex characters''
      else parse_hex_pairs s)"

lemma hex_val_digit: "n < 16 \<Longrightarrow> hex_val (hex_digit n) = Inr (of_nat n)"
  by (auto simp: hex_val_def hex_digit_def Let_def)

lemma byte_nibbles: "push_bit 4 (of_nat (unat (b :: byte) div 16)) OR of_nat (unat b mod 16) = b"
proof -
  have hi: "(of_nat (unat b div 16) :: byte) = drop_bit 4 b"
    by (simp add: drop_bit_eq_div word_arith_nat_div)
  have lo: "(of_nat (unat b mod 16) :: byte) = take_bit 4 b"
    by (simp add: take_bit_eq_mod word_arith_nat_mod)
  show ?thesis
    unfolding hi lo by (rule bit_word_eqI) (auto simp: bit_simps)
qed

lemma length_hash_to_string: "length (hash_to_string bs) = 2 * length bs"
  by (induction bs) auto

lemma parse_hash_pairs: "parse_hex_pairs (hash_to_string bs) = Inr bs"
proof (induction bs)
  case Nil
  then show ?case by simp
next
  case (Cons b bs)
  have "unat b < 256" using unsigned_less[of b, where ?'a = nat] by simp
  then have "unat b div 16 < 16" by simp
  with Cons show ?case by (simp add: hex_val_digit byte_nibbles)
qed

section \<open>Reject reasons\<close>

datatype reject_reason =
    RLaw nat
  | RMissingAffordance nat
  | RTimingMiss
  | RResource nat
  | RHallucinatedFact
  | RStaleEpoch
  | RUnclaimedAgency
  | RWitnessMismatch
  | RWrongHull
  | RConflict
  | RBudget
  | RTooManyIslands
  | RIslandTooLarge
  | RResidency
  | REpochMismatch

end
