(* ===== verification/CoreRng.thy ===== *)
theory CoreRng
  imports CoreIds
begin

unbundle bit_operations_syntax

text \<open>
  \<open>klotho-core/src/rng.rs\<close>: xoshiro256++ seeded by SplitMix64 from the Canon hash and the
  tick.  All arithmetic is on 64-bit words and wraps as the code's \<open>wrapping_*\<close> calls do.
\<close>

type_synonym u64 = "64 word"
type_synonym rng = "u64 \<times> u64 \<times> u64 \<times> u64"

definition rotl :: "u64 \<Rightarrow> nat \<Rightarrow> u64" where
  "rotl x k = push_bit (k mod 64) x OR drop_bit (64 - k mod 64) x"

definition splitmix64 :: "u64 \<Rightarrow> u64 \<times> u64" where
  "splitmix64 st =
     (let st' = st + 0x9e3779b97f4a7c15;
          z1 = (st' XOR drop_bit 30 st') * 0xbf58476d1ce4e5b9;
          z2 = (z1 XOR drop_bit 27 z1) * 0x94d049bb133111eb
      in (z2 XOR drop_bit 31 z2, st'))"

definition mix_canon_tick :: "digest \<Rightarrow> tick \<Rightarrow> byte list" where
  "mix_canon_tick h t = map2 (XOR) (take 8 h) (le_bytes 8 t) @ drop 8 h"

definition splitmix_seed :: "byte list \<Rightarrow> u64" where
  "splitmix_seed m =
     (let chunk = (\<lambda>i. rotl (of_nat (le_value (take 8 (drop i m)))) (i * 8));
          acc = ((chunk 0 XOR chunk 8) XOR chunk 16) XOR chunk 24
      in if acc = 0 then 0x9e3779b97f4a7c15 else acc)"

definition rng_seed :: "digest \<Rightarrow> tick \<Rightarrow> rng" where
  "rng_seed h t =
     (let sm0 = splitmix_seed (mix_canon_tick h t);
          (a, sm1) = splitmix64 sm0;
          (b, sm2) = splitmix64 sm1;
          (c, sm3) = splitmix64 sm2;
          (d, _) = splitmix64 sm3;
          a' = (if ((a OR b) OR c) OR d = 0 then 0x9e3779b97f4a7c15 else a)
      in (a', b, c, d))"

fun next_u64 :: "rng \<Rightarrow> u64 \<times> rng" where
  "next_u64 (s0, s1, s2, s3) =
     (let result = rotl (s0 + s3) 23 + s0;
          t = push_bit 17 s1;
          s2a = s2 XOR s0;
          s3a = s3 XOR s1;
          s1a = s1 XOR s2a;
          s0a = s0 XOR s3a;
          s2b = s2a XOR t;
          s3b = rotl s3a 45
      in (result, (s0a, s1a, s2b, s3b)))"

definition next_u32 :: "rng \<Rightarrow> 32 word \<times> rng" where
  "next_u32 r = (let (x, r') = next_u64 r in (ucast (drop_bit 32 x), r'))"

definition u64_bytes :: "u64 \<Rightarrow> byte list" where
  "u64_bytes x = le_bytes 8 (unat x)"

function fill_bytes :: "rng \<Rightarrow> nat \<Rightarrow> byte list \<times> rng" where
  "fill_bytes r n =
     (if n = 0 then ([], r)
      else if n < 8 then (let (x, r') = next_u64 r in (take n (u64_bytes x), r'))
      else (let (x, r') = next_u64 r; (bs, r'') = fill_bytes r' (n - 8)
            in (u64_bytes x @ bs, r'')))"
  by pat_completeness auto
termination
  by (relation "measure snd") auto

declare fill_bytes.simps [simp del]

definition gen_thresh :: "nat \<Rightarrow> nat" where
  "gen_thresh upper = u64_max - u64_max mod upper"

partial_function (option) gen_loop :: "rng \<Rightarrow> nat \<Rightarrow> (nat \<times> rng) option" where
  "gen_loop r upper =
     (let (x, r') = next_u64 r
      in if unat x < gen_thresh upper then Some (unat x mod upper, r')
         else gen_loop r' upper)"

definition gen_u32 :: "rng \<Rightarrow> nat \<Rightarrow> (nat \<times> rng) option" where
  "gen_u32 r upper = (if upper \<le> 1 then Some (0, r) else gen_loop r upper)"

section \<open>The all-zero state is never reached\<close>

definition rng_ok :: "rng \<Rightarrow> bool" where
  "rng_ok r \<longleftrightarrow> r \<noteq> (0, 0, 0, 0)"

lemma rotl_eq_0:
  assumes "rotl x k = 0"
  shows "x = 0"
proof (rule bit_word_eqI)
  fix n
  assume n: "n < LENGTH(64)"
  let ?k = "k mod 64"
  have z: "\<not> bit (push_bit ?k x) m" "\<not> bit (drop_bit (64 - ?k) x) m" for m
    using assms by (simp_all add: rotl_def or_eq_0_iff)
  show "bit x n = bit (0 :: u64) n"
  proof (cases "n + ?k < 64")
    case True
    with z(1)[of "n + ?k"] show ?thesis by (simp add: bit_push_bit_iff)
  next
    case False
    with z(2)[of "n - (64 - ?k)"] show ?thesis by (simp add: bit_drop_bit_eq)
  qed
qed

lemma shift_fixed_0:
  fixes x :: u64
  assumes "x = push_bit (Suc k) x"
  shows "x = 0"
proof (rule bit_word_eqI)
  fix n
  show "bit x n = bit (0 :: u64) n"
  proof (induction n rule: less_induct)
    case (less n)
    have "bit x n \<longleftrightarrow> Suc k \<le> n \<and> n < 64 \<and> bit x (n - Suc k)"
      by (subst assms) (simp only: bit_push_bit_iff possible_bit_word, simp)
    then show ?case using less[of "n - Suc k"] by (cases "Suc k \<le> n") auto
  qed
qed

lemma word_xor_eq_0: "(a :: u64) XOR b = 0 \<longleftrightarrow> a = b"
proof
  assume "a XOR b = 0"
  then have "(a XOR b) XOR b = b" by simp
  then show "a = b" by (simp add: xor.assoc)
qed simp

lemma rng_seed_ok: "rng_ok (rng_seed h t)"
  by (auto simp: rng_ok_def rng_seed_def Let_def split: prod.splits)

lemma next_u64_ok: "rng_ok r \<Longrightarrow> rng_ok (snd (next_u64 r))"
proof -
  assume ok: "rng_ok r"
  obtain s0 s1 s2 s3 where fields: "r = (s0, s1, s2, s3)" by (cases r)
  show ?thesis
  proof (rule ccontr)
    assume "\<not> rng_ok (snd (next_u64 r))"
    then have z: "s0 XOR (s3 XOR s1) = 0" "s1 XOR (s2 XOR s0) = 0"
      "(s2 XOR s0) XOR push_bit 17 s1 = 0" "rotl (s3 XOR s1) 45 = 0"
      by (simp_all add: fields rng_ok_def Let_def)
    have "s3 XOR s1 = 0" using rotl_eq_0[OF z(4)] .
    with z(1) have s0: "s0 = 0" and s3: "s3 = s1"
      by (simp_all add: word_xor_eq_0)
    with z(2) have s12: "s1 = s2" by (simp add: word_xor_eq_0)
    with z(3) s0 have "s2 = push_bit (Suc 16) s2" by (simp add: word_xor_eq_0)
    then have "s2 = 0" by (rule shift_fixed_0)
    with s0 s3 s12 ok show False by (simp add: fields rng_ok_def)
  qed
qed

text \<open>The pinned first draw of the code's golden test: hash bytes 0x11 and 0x12 at the ends, tick 42.\<close>

lemma rng_golden_first_draw:
  "fst (next_u64 (rng_seed
     [0x11,0,0,0,0,0,0,0,0,0,0,0,0,0,0,0,0,0,0,0,0,0,0,0,0,0,0,0,0,0,0,0x12] 42))
   = 0x987244ca43d05252"
  by (simp add: rng_seed_def mix_canon_tick_def splitmix_seed_def splitmix64_def rotl_def Let_def)

section \<open>Bounded draws\<close>

lemma length_fill_bytes: "length (fst (fill_bytes r n)) = n"
proof (induction r n rule: fill_bytes.induct)
  case (1 r n)
  show ?case
  proof (cases "n = 0 \<or> n < 8")
    case True
    then show ?thesis
      by (auto simp: fill_bytes.simps[of r n] u64_bytes_def Let_def split: prod.splits)
  next
    case False
    obtain x r' where nx: "next_u64 r = (x, r')" by (cases "next_u64 r") (rule that)
    have "length (fst (fill_bytes r' (n - 8))) = n - 8"
      using "1.IH" False nx by auto
    with False nx show ?thesis
      by (auto simp: fill_bytes.simps[of r n] u64_bytes_def split: prod.splits)
  qed
qed

lemma gen_loop_bound:
  assumes ret: "gen_loop r upper = Some (v, r')" and "0 < upper"
  shows "v < upper"
proof -
  have "0 < upper \<longrightarrow> fst (v, r') < upper"
  proof (rule gen_loop.raw_induct[where P = "\<lambda>r upper y. 0 < upper \<longrightarrow> fst y < upper", OF _ ret])
    fix f :: "rng \<Rightarrow> nat \<Rightarrow> (nat \<times> rng) option" and r upper y
    assume IH: "\<And>r upper y. f r upper = Some y \<Longrightarrow> 0 < upper \<longrightarrow> fst y < upper"
      and eq: "(let (x, r') = next_u64 r in if unat x < gen_thresh upper
                then Some (unat x mod upper, r') else f r' upper) = Some y"
    show "0 < upper \<longrightarrow> fst y < upper"
      using eq by (auto simp: Let_def split: prod.splits if_splits dest: IH)
  qed
  with assms(2) show ?thesis by simp
qed

text \<open>Each residue is hit by the same number of accepted 64-bit draws.\<close>

lemma card_residue:
  fixes m q k :: nat
  assumes "k < m"
  shows "card {x. x < q * m \<and> x mod m = k} = q"
proof -
  have "{x. x < q * m \<and> x mod m = k} = (\<lambda>j. j * m + k) ` {..<q}"
  proof (intro equalityI subsetI)
    fix x assume "x \<in> {x. x < q * m \<and> x mod m = k}"
    then have "x div m < q" and "x = x div m * m + k"
      using less_mult_imp_div_less by auto
    then show "x \<in> (\<lambda>j. j * m + k) ` {..<q}" by blast
  next
    fix x assume "x \<in> (\<lambda>j. j * m + k) ` {..<q}"
    then obtain j where j: "j < q" "x = j * m + k" by auto
    then have "j * m + k < Suc j * m" using assms by simp
    also have "\<dots> \<le> q * m" using j(1) by (intro mult_le_mono1) simp
    finally show "x \<in> {x. x < q * m \<and> x mod m = k}" using j assms by simp
  qed
  moreover have "inj_on (\<lambda>j. j * m + k) {..<q}" using assms by (auto simp: inj_on_def)
  ultimately show ?thesis by (simp add: card_image)
qed

lemma gen_thresh_multiple: "gen_thresh upper = (u64_max div upper) * upper"
  by (simp add: gen_thresh_def minus_mod_eq_div_mult)

end
