(* ===== verification/CoreUnits.thy ===== *)
theory CoreUnits
  imports Prelude
begin

text \<open>
  \<open>klotho-core/src/units.rs\<close>: positions in millimetres (\<open>Mm\<close>), 16.16 velocities
  (\<open>VelFx\<close>) and millidegree yaw (\<open>YawMd\<close>).  Each is a newtype over \<open>i32\<close>,
  modelled by \<open>int\<close> with the wrap of each operation written out.
\<close>

type_synonym mm = int
type_synonym vel_fx = int
type_synonym yaw_md = int

section \<open>Positions and velocities\<close>

definition mm_wrapping_add :: "mm \<Rightarrow> mm \<Rightarrow> mm" where
  "mm_wrapping_add a b = wrap32 (a + b)"

definition mm_wrapping_sub :: "mm \<Rightarrow> mm \<Rightarrow> mm" where
  "mm_wrapping_sub a b = wrap32 (a - b)"

definition vel_scale :: int where
  "vel_scale = 65536"

definition vel_from_mm_per_tick :: "int \<Rightarrow> vel_fx" where
  "vel_from_mm_per_tick m = wrap32 (m * vel_scale)"

definition vel_to_mm_trunc :: "vel_fx \<Rightarrow> mm" where
  "vel_to_mm_trunc v = drop_bit 16 v"

definition vel_wrapping_add :: "vel_fx \<Rightarrow> vel_fx \<Rightarrow> vel_fx" where
  "vel_wrapping_add a b = wrap32 (a + b)"

definition vel_wrapping_mul_i32 :: "vel_fx \<Rightarrow> int \<Rightarrow> vel_fx" where
  "vel_wrapping_mul_i32 v k = wrap32 (v * k)"

definition vel_wrapping_mul :: "vel_fx \<Rightarrow> vel_fx \<Rightarrow> vel_fx" where
  "vel_wrapping_mul a b = wrap32 (drop_bit 16 (wrap64 (a * b)))"

definition mm_displace :: "mm \<Rightarrow> vel_fx \<Rightarrow> mm" where
  "mm_displace p v = mm_wrapping_add p (vel_to_mm_trunc v)"

lemma vel_to_mm_floor: "vel_to_mm_trunc v = v div 65536"
  by (simp add: vel_to_mm_trunc_def drop_bit_eq_div)

lemma vel_whole_round_trip:
  assumes "- 32768 \<le> m" and "m < 32768"
  shows "vel_to_mm_trunc (vel_from_mm_per_tick m) = m"
proof -
  have "wrap32 (m * 65536) = m * 65536"
    using assms by (intro wrap32_id) (simp add: in_i32_def)
  then show ?thesis by (simp add: vel_to_mm_floor vel_from_mm_per_tick_def vel_scale_def)
qed

lemma vel_mul_whole:
  assumes "in_i32 a" and "in_i32 (a * m)" and "- 32768 \<le> m" and "m < 32768"
  shows "vel_wrapping_mul a (vel_from_mm_per_tick m) = a * m"
proof -
  have w: "wrap32 (m * 65536) = m * 65536"
    using assms by (intro wrap32_id) (simp add: in_i32_def)
  have "wrap64 (a * (m * 65536)) = a * m * 65536"
    using assms(2) by (subst wrap64_id) (simp_all add: in_i32_def mult.assoc)
  then show ?thesis
    using assms(2)
    by (simp add: vel_wrapping_mul_def vel_from_mm_per_tick_def vel_scale_def w drop_bit_eq_div
        wrap32_id)
qed

section \<open>Yaw\<close>

definition yaw_full_turn :: int where
  "yaw_full_turn = 360000"

definition yaw_half_turn :: int where
  "yaw_half_turn = 180000"

definition yaw_quarter_turn :: int where
  "yaw_quarter_turn = 90000"

definition yaw_normalize :: "yaw_md \<Rightarrow> yaw_md" where
  "yaw_normalize v =
     (let r = v smod yaw_full_turn in if r < 0 then r + yaw_full_turn else r)"

definition yaw_wrapping_add :: "yaw_md \<Rightarrow> yaw_md \<Rightarrow> yaw_md" where
  "yaw_wrapping_add a b = yaw_normalize (wrap32 (a + b))"

definition yaw_wrapping_sub :: "yaw_md \<Rightarrow> yaw_md \<Rightarrow> yaw_md" where
  "yaw_wrapping_sub a b = yaw_normalize (wrap32 (a - b))"

definition yaw_delta :: "yaw_md \<Rightarrow> yaw_md \<Rightarrow> int" where
  "yaw_delta a b =
     (let d = wrap32 (yaw_normalize b - yaw_normalize a)
      in if d > yaw_half_turn then d - yaw_full_turn
         else if d \<le> - yaw_half_turn then d + yaw_full_turn
         else d)"

lemma yaw_normalize_mod: "yaw_normalize v = v mod 360000"
proof -
  have "v smod 360000 = (if v < 0 then - ((- v) mod 360000) else v mod 360000)"
    by (simp add: signed_modulo_int_def signed_divide_int_def sgn_if minus_div_mult_eq_mod)
  then show ?thesis
    by (auto simp: yaw_normalize_def yaw_full_turn_def zmod_zminus1_eq_if Let_def)
qed

lemma yaw_normalize_range [simp]: "0 \<le> yaw_normalize v" "yaw_normalize v < 360000"
  by (simp_all add: yaw_normalize_mod)

lemma yaw_normalize_idem [simp]: "yaw_normalize (yaw_normalize v) = yaw_normalize v"
  by (simp add: yaw_normalize_mod)

lemma yaw_sum_no_wrap: "\<bar>a\<bar> < 1000000 \<Longrightarrow> \<bar>b\<bar> < 1000000 \<Longrightarrow> wrap32 (a + b) = a + b"
  by (intro wrap32_id) (auto simp: in_i32_def)

lemma yaw_diff_no_wrap: "\<bar>a\<bar> < 1000000 \<Longrightarrow> \<bar>b\<bar> < 1000000 \<Longrightarrow> wrap32 (a - b) = a - b"
  by (intro wrap32_id) (auto simp: in_i32_def)

end
