(* ===== verification/CoreSpace.thy ===== *)
theory CoreSpace
  imports Complex_Main CoreUnits
begin

text \<open>
  \<open>klotho-core/src/space.rs\<close>: integer vectors, closed axis-aligned boxes and the exact
  segment test, and \<open>yaw.rs\<close>: the 16.16 rotation tables.  Coordinates are \<open>i32\<close>
  millimetres.  Fractions \<open>n/d\<close> are compared by the code through \<open>i128\<close> cross
  products, which no \<open>i64\<close> operands overflow, so the model compares over \<open>int\<close>.
\<close>

section \<open>Vectors and boxes\<close>

record ivec3 =
  vx :: int
  vy :: int
  vz :: int

definition ivec3 :: "int \<Rightarrow> int \<Rightarrow> int \<Rightarrow> ivec3" where
  "ivec3 x y z = \<lparr>vx = x, vy = y, vz = z\<rparr>"

definition ivec3_wrapping_add :: "ivec3 \<Rightarrow> ivec3 \<Rightarrow> ivec3" where
  "ivec3_wrapping_add a b = ivec3 (wrap32 (vx a + vx b)) (wrap32 (vy a + vy b)) (wrap32 (vz a + vz b))"

definition ivec3_wrapping_sub :: "ivec3 \<Rightarrow> ivec3 \<Rightarrow> ivec3" where
  "ivec3_wrapping_sub a b = ivec3 (wrap32 (vx a - vx b)) (wrap32 (vy a - vy b)) (wrap32 (vz a - vz b))"

definition ivec3_min :: "ivec3 \<Rightarrow> ivec3 \<Rightarrow> ivec3" where
  "ivec3_min a b = ivec3 (if vx a < vx b then vx a else vx b) (if vy a < vy b then vy a else vy b)
     (if vz a < vz b then vz a else vz b)"

definition ivec3_max :: "ivec3 \<Rightarrow> ivec3 \<Rightarrow> ivec3" where
  "ivec3_max a b = ivec3 (if vx a > vx b then vx a else vx b) (if vy a > vy b then vy a else vy b)
     (if vz a > vz b then vz a else vz b)"

record aabb =
  bmin :: ivec3
  bmax :: ivec3

definition aabb_new :: "ivec3 \<Rightarrow> ivec3 \<Rightarrow> aabb" where
  "aabb_new a b = \<lparr>bmin = a, bmax = b\<rparr>"

definition aabb_sorted :: "ivec3 \<Rightarrow> ivec3 \<Rightarrow> aabb" where
  "aabb_sorted a b = aabb_new (ivec3_min a b) (ivec3_max a b)"

definition aabb_from_point :: "ivec3 \<Rightarrow> aabb" where
  "aabb_from_point p = aabb_new p p"

definition aabb_is_empty :: "aabb \<Rightarrow> bool" where
  "aabb_is_empty b \<longleftrightarrow>
     vx (bmin b) > vx (bmax b) \<or> vy (bmin b) > vy (bmax b) \<or> vz (bmin b) > vz (bmax b)"

definition aabb_intersects :: "aabb \<Rightarrow> aabb \<Rightarrow> bool" where
  "aabb_intersects a b \<longleftrightarrow>
     (if aabb_is_empty a \<or> aabb_is_empty b then False
      else vx (bmin a) \<le> vx (bmax b) \<and> vx (bmin b) \<le> vx (bmax a)
         \<and> vy (bmin a) \<le> vy (bmax b) \<and> vy (bmin b) \<le> vy (bmax a)
         \<and> vz (bmin a) \<le> vz (bmax b) \<and> vz (bmin b) \<le> vz (bmax a))"

definition aabb_contains_point :: "aabb \<Rightarrow> ivec3 \<Rightarrow> bool" where
  "aabb_contains_point b p \<longleftrightarrow>
     (if aabb_is_empty b then False
      else vx (bmin b) \<le> vx p \<and> vx p \<le> vx (bmax b)
         \<and> vy (bmin b) \<le> vy p \<and> vy p \<le> vy (bmax b)
         \<and> vz (bmin b) \<le> vz p \<and> vz p \<le> vz (bmax b))"

definition aabb_union :: "aabb \<Rightarrow> aabb \<Rightarrow> aabb" where
  "aabb_union a b =
     (if aabb_is_empty a \<and> aabb_is_empty b then a
      else if aabb_is_empty a then b
      else if aabb_is_empty b then a
      else aabb_new (ivec3_min (bmin a) (bmin b)) (ivec3_max (bmax a) (bmax b)))"

named_theorems box_simps \<open>unfolding rules of the vector and box operations\<close>

lemmas box_defs [box_simps] = ivec3_def ivec3_min_def ivec3_max_def aabb_new_def aabb_sorted_def
  aabb_from_point_def aabb_is_empty_def aabb_intersects_def aabb_contains_point_def

lemma aabb_nonempty_iff: "\<not> aabb_is_empty b \<longleftrightarrow> (\<exists>p. aabb_contains_point b p)"
proof
  assume "\<not> aabb_is_empty b"
  then have "aabb_contains_point b (bmin b)" by (auto simp: box_simps)
  then show "\<exists>p. aabb_contains_point b p" ..
qed (auto simp: aabb_contains_point_def)

lemma aabb_intersects_point:
  assumes "aabb_intersects a b"
  shows "aabb_contains_point a (ivec3_max (bmin a) (bmin b))"
    and "aabb_contains_point b (ivec3_max (bmin a) (bmin b))"
  using assms by (auto simp: box_simps split: if_splits)

lemma aabb_point_intersects:
  "aabb_contains_point a p \<Longrightarrow> aabb_contains_point b p \<Longrightarrow> aabb_intersects a b"
  by (auto simp: box_simps split: if_splits)

lemma aabb_sorted_nonempty: "\<not> aabb_is_empty (aabb_sorted a b)"
  by (simp add: box_simps)

section \<open>Segment against box\<close>

record slab =
  tmin_n :: int
  tmin_d :: int
  tmax_n :: int
  tmax_d :: int

datatype cmp_ordering = Less | Equal | Greater

definition frac_cmp :: "int \<Rightarrow> int \<Rightarrow> int \<Rightarrow> int \<Rightarrow> cmp_ordering" where
  "frac_cmp an ad bn bd =
     (if an * bd < bn * ad then Less else if an * bd = bn * ad then Equal else Greater)"

definition pos_den :: "int \<Rightarrow> int \<Rightarrow> int \<times> int" where
  "pos_den n d = (if d < 0 then (- n, - d) else (n, d))"

definition clip_axis :: "int \<Rightarrow> int \<Rightarrow> int \<Rightarrow> int \<Rightarrow> slab \<Rightarrow> bool \<times> slab" where
  "clip_axis origin dir lo hi t =
     (if dir = 0 then (origin \<ge> lo \<and> origin \<le> hi, t)
      else
        let (enter_b, exit_b) = (if dir > 0 then (lo, hi) else (hi, lo));
            (en, ed) = pos_den (enter_b - origin) dir;
            (xn, xd) = pos_den (exit_b - origin) dir;
            t1 = (if frac_cmp en ed (tmin_n t) (tmin_d t) = Greater
                  then t\<lparr>tmin_n := en, tmin_d := ed\<rparr> else t);
            t2 = (if frac_cmp xn xd (tmax_n t1) (tmax_d t1) = Less
                  then t1\<lparr>tmax_n := xn, tmax_d := xd\<rparr> else t1)
        in (True, t2))"

definition slab_unit :: slab where
  "slab_unit = \<lparr>tmin_n = 0, tmin_d = 1, tmax_n = 1, tmax_d = 1\<rparr>"

definition segment_hit :: "aabb \<Rightarrow> ivec3 \<Rightarrow> ivec3 \<Rightarrow> (int \<times> int) option" where
  "segment_hit b origin dir =
     (if aabb_is_empty b then None
      else if dir = ivec3 0 0 0 then (if aabb_contains_point b origin then Some (0, 1) else None)
      else
        let (ok1, t1) = clip_axis (vx origin) (vx dir) (vx (bmin b)) (vx (bmax b)) slab_unit in
        if \<not> ok1 then None else
        let (ok2, t2) = clip_axis (vy origin) (vy dir) (vy (bmin b)) (vy (bmax b)) t1 in
        if \<not> ok2 then None else
        let (ok3, t) = clip_axis (vz origin) (vz dir) (vz (bmin b)) (vz (bmax b)) t2 in
        if \<not> ok3 then None else
        if frac_cmp (tmin_n t) (tmin_d t) (tmax_n t) (tmax_d t) = Greater then None
        else if frac_cmp (tmin_n t) (tmin_d t) 1 1 = Greater then None
        else if frac_cmp (tmax_n t) (tmax_d t) 0 1 = Less then None
        else Some (tmin_n t, tmin_d t))"

text \<open>
  The specification: parameter \<open>t\<close> of the segment lies in the box when each coordinate
  \<open>origin + t * dir\<close> does.
\<close>

definition axis_in :: "int \<Rightarrow> int \<Rightarrow> int \<Rightarrow> int \<Rightarrow> rat \<Rightarrow> bool" where
  "axis_in origin dir lo hi t \<longleftrightarrow>
     of_int lo \<le> of_int origin + t * of_int dir \<and> of_int origin + t * of_int dir \<le> of_int hi"

definition segment_in :: "aabb \<Rightarrow> ivec3 \<Rightarrow> ivec3 \<Rightarrow> rat \<Rightarrow> bool" where
  "segment_in b origin dir t \<longleftrightarrow>
     axis_in (vx origin) (vx dir) (vx (bmin b)) (vx (bmax b)) t
     \<and> axis_in (vy origin) (vy dir) (vy (bmin b)) (vy (bmax b)) t
     \<and> axis_in (vz origin) (vz dir) (vz (bmin b)) (vz (bmax b)) t"

definition ratio :: "int \<Rightarrow> int \<Rightarrow> rat" where
  "ratio n d = of_int n / of_int d"

definition slab_ok :: "slab \<Rightarrow> bool" where
  "slab_ok t \<longleftrightarrow> 0 < tmin_d t \<and> 0 < tmax_d t"

definition slab_in :: "slab \<Rightarrow> rat \<Rightarrow> bool" where
  "slab_in s t \<longleftrightarrow> ratio (tmin_n s) (tmin_d s) \<le> t \<and> t \<le> ratio (tmax_n s) (tmax_d s)"

lemma frac_cmp_Greater:
  "0 < ad \<Longrightarrow> 0 < bd \<Longrightarrow> frac_cmp an ad bn bd = Greater \<longleftrightarrow> ratio bn bd < ratio an ad"
  by (auto simp: frac_cmp_def ratio_def divide_less_eq less_divide_eq mult.commute
      simp flip: of_int_mult)

lemma frac_cmp_Less:
  "0 < ad \<Longrightarrow> 0 < bd \<Longrightarrow> frac_cmp an ad bn bd = Less \<longleftrightarrow> ratio an ad < ratio bn bd"
  by (auto simp: frac_cmp_def ratio_def divide_less_eq less_divide_eq mult.commute
      simp flip: of_int_mult)

lemma pos_den_ratio:
  "d \<noteq> 0 \<Longrightarrow> pos_den n d = (n', d') \<Longrightarrow> 0 < d' \<and> ratio n' d' = ratio n d"
  by (auto simp: pos_den_def ratio_def split: if_splits)

lemma axis_in_ratio:
  assumes "dir \<noteq> 0"
  shows "axis_in origin dir lo hi t \<longleftrightarrow>
    (if dir > 0 then ratio (lo - origin) dir \<le> t \<and> t \<le> ratio (hi - origin) dir
     else ratio (hi - origin) dir \<le> t \<and> t \<le> ratio (lo - origin) dir)"
  using assms
  by (auto simp: axis_in_def ratio_def divide_le_eq le_divide_eq algebra_simps)

lemma clip_axis_correct:
  assumes "slab_ok s" and "clip_axis origin dir lo hi s = (ok, s')"
  shows "slab_ok s'" and "ok \<Longrightarrow> slab_in s' t \<longleftrightarrow> slab_in s t \<and> axis_in origin dir lo hi t"
    and "\<not> ok \<Longrightarrow> \<not> axis_in origin dir lo hi t"
proof -
  have "slab_ok s' \<and> (ok \<longrightarrow> slab_in s' t = (slab_in s t \<and> axis_in origin dir lo hi t))
    \<and> (\<not> ok \<longrightarrow> \<not> axis_in origin dir lo hi t)"
  proof (cases "dir = 0")
    case True
    with assms show ?thesis by (auto simp: clip_axis_def axis_in_def)
  next
    case False
    obtain en ed where d1: "pos_den ((if dir > 0 then lo else hi) - origin) dir = (en, ed)"
      by (cases "pos_den ((if dir > 0 then lo else hi) - origin) dir") (rule that)
    obtain xn xd where d2: "pos_den ((if dir > 0 then hi else lo) - origin) dir = (xn, xd)"
      by (cases "pos_den ((if dir > 0 then hi else lo) - origin) dir") (rule that)
    let ?s1 = "if frac_cmp en ed (tmin_n s) (tmin_d s) = Greater
               then s\<lparr>tmin_n := en, tmin_d := ed\<rparr> else s"
    have eq: "ok" "s' = (if frac_cmp xn xd (tmax_n ?s1) (tmax_d ?s1) = Less
                then ?s1\<lparr>tmax_n := xn, tmax_d := xd\<rparr> else ?s1)"
      using assms(2) False d1 d2
      by (auto simp: clip_axis_def Let_def split: prod.splits if_split_asm)
    have e: "0 < ed" "ratio en ed = ratio ((if dir > 0 then lo else hi) - origin) dir"
      and x: "0 < xd" "ratio xn xd = ratio ((if dir > 0 then hi else lo) - origin) dir"
      using pos_den_ratio[OF False d1] pos_den_ratio[OF False d2] by auto
    have ax: "axis_in origin dir lo hi t \<longleftrightarrow> ratio en ed \<le> t \<and> t \<le> ratio xn xd"
      using axis_in_ratio[OF False, of origin lo hi t] by (simp add: e x)
    have s: "0 < tmin_d s" "0 < tmax_d s" using assms(1) by (auto simp: slab_ok_def)
    have "slab_ok s'" using s e(1) x(1) by (auto simp: eq(2) slab_ok_def)
    moreover have "slab_in s' t = (slab_in s t \<and> axis_in origin dir lo hi t)"
      unfolding ax eq(2)
      using frac_cmp_Greater[OF e(1) s(1)] frac_cmp_Less[OF x(1) s(2)]
      by (auto simp: slab_in_def)
    ultimately show ?thesis using eq(1) by simp
  qed
  then show "slab_ok s'" and "ok \<Longrightarrow> slab_in s' t \<longleftrightarrow> slab_in s t \<and> axis_in origin dir lo hi t"
    and "\<not> ok \<Longrightarrow> \<not> axis_in origin dir lo hi t" by auto
qed

text \<open>The whole test: the three clips narrow the unit interval to the parameters inside the box.\<close>

definition clip_all :: "aabb \<Rightarrow> ivec3 \<Rightarrow> ivec3 \<Rightarrow> slab option" where
  "clip_all b origin dir =
     (let (ok1, t1) = clip_axis (vx origin) (vx dir) (vx (bmin b)) (vx (bmax b)) slab_unit;
          (ok2, t2) = clip_axis (vy origin) (vy dir) (vy (bmin b)) (vy (bmax b)) t1;
          (ok3, t3) = clip_axis (vz origin) (vz dir) (vz (bmin b)) (vz (bmax b)) t2
      in if ok1 \<and> ok2 \<and> ok3 then Some t3 else None)"

lemma slab_unit_ok: "slab_ok slab_unit" "slab_in slab_unit t \<longleftrightarrow> 0 \<le> t \<and> t \<le> 1"
  by (simp_all add: slab_ok_def slab_unit_def slab_in_def ratio_def)

lemma clip_all_correct:
  "clip_all b origin dir = Some s \<Longrightarrow>
     slab_ok s \<and> (slab_in s t \<longleftrightarrow> 0 \<le> t \<and> t \<le> 1 \<and> segment_in b origin dir t)"
  "clip_all b origin dir = None \<Longrightarrow> \<not> segment_in b origin dir t"
proof -
  obtain ok1 t1 where 1: "clip_axis (vx origin) (vx dir) (vx (bmin b)) (vx (bmax b)) slab_unit = (ok1, t1)"
    by (metis surj_pair)
  obtain ok2 t2 where 2: "clip_axis (vy origin) (vy dir) (vy (bmin b)) (vy (bmax b)) t1 = (ok2, t2)"
    by (metis surj_pair)
  obtain ok3 t3 where 3: "clip_axis (vz origin) (vz dir) (vz (bmin b)) (vz (bmax b)) t2 = (ok3, t3)"
    by (metis surj_pair)
  note c1 = clip_axis_correct[OF slab_unit_ok(1) 1]
  note c2 = clip_axis_correct[OF c1(1) 2]
  note c3 = clip_axis_correct[OF c2(1) 3]
  have eq: "clip_all b origin dir = (if ok1 \<and> ok2 \<and> ok3 then Some t3 else None)"
    by (simp add: clip_all_def 1 2 3)
  show "clip_all b origin dir = Some s \<Longrightarrow>
     slab_ok s \<and> (slab_in s t \<longleftrightarrow> 0 \<le> t \<and> t \<le> 1 \<and> segment_in b origin dir t)"
    using c1(2)[of t] c2(2)[of t] c3(1) c3(2)[of t]
    by (auto simp: eq segment_in_def slab_unit_ok(2) split: if_splits)
  show "clip_all b origin dir = None \<Longrightarrow> \<not> segment_in b origin dir t"
    using c1(3)[of t] c2(3)[of t] c3(3)[of t]
    by (auto simp: eq segment_in_def split: if_splits)
qed

lemma segment_hit_clip:
  assumes "\<not> aabb_is_empty b" and "dir \<noteq> ivec3 0 0 0"
  shows "segment_hit b origin dir =
    (case clip_all b origin dir of None \<Rightarrow> None
     | Some t \<Rightarrow>
        if frac_cmp (tmin_n t) (tmin_d t) (tmax_n t) (tmax_d t) = Greater then None
        else if frac_cmp (tmin_n t) (tmin_d t) 1 1 = Greater then None
        else if frac_cmp (tmax_n t) (tmax_d t) 0 1 = Less then None
        else Some (tmin_n t, tmin_d t))"
  using assms by (simp add: segment_hit_def clip_all_def Let_def split: prod.splits)

lemma segment_in_zero_dir:
  "segment_in b origin (ivec3 0 0 0) t \<longleftrightarrow> aabb_contains_point b origin"
  by (auto simp: segment_in_def axis_in_def box_simps)

lemma segment_in_nonempty: "segment_in b origin dir t \<Longrightarrow> \<not> aabb_is_empty b"
proof -
  assume "segment_in b origin dir t"
  then have "(of_int (vx (bmin b)) :: rat) \<le> of_int (vx (bmax b))"
    "(of_int (vy (bmin b)) :: rat) \<le> of_int (vy (bmax b))"
    "(of_int (vz (bmin b)) :: rat) \<le> of_int (vz (bmax b))"
    unfolding segment_in_def axis_in_def by (blast intro: order_trans)+
  then show ?thesis by (auto simp: aabb_is_empty_def)
qed

lemma segment_hit_Some:
  assumes "segment_hit b origin dir = Some (n, d)"
  shows "0 < d \<and> 0 \<le> ratio n d \<and> ratio n d \<le> 1 \<and> segment_in b origin dir (ratio n d)
    \<and> (\<forall>t. 0 \<le> t \<and> t \<le> 1 \<and> segment_in b origin dir t \<longrightarrow> ratio n d \<le> t)"
proof (cases "dir = ivec3 0 0 0")
  case True
  with assms show ?thesis
    by (auto simp: segment_hit_def segment_in_zero_dir ratio_def split: if_splits)
next
  case False
  have ne: "\<not> aabb_is_empty b" using assms by (auto simp: segment_hit_def split: if_splits)
  obtain s where s: "clip_all b origin dir = Some s" "n = tmin_n s" "d = tmin_d s"
    "frac_cmp (tmin_n s) (tmin_d s) (tmax_n s) (tmax_d s) \<noteq> Greater"
    using assms by (auto simp: segment_hit_clip[OF ne False] split: option.splits if_splits)
  note c = clip_all_correct(1)[OF s(1)]
  have ok: "0 < tmin_d s" "0 < tmax_d s" using c by (auto simp: slab_ok_def)
  have "ratio n d \<le> ratio (tmax_n s) (tmax_d s)"
    using s(4) frac_cmp_Greater[OF ok] by (simp add: s(2,3) not_less)
  then have "slab_in s (ratio n d)" by (simp add: slab_in_def s(2,3))
  moreover have "slab_in s t \<Longrightarrow> ratio n d \<le> t" for t by (simp add: slab_in_def s(2,3))
  ultimately show ?thesis using c ok(1) s(3) by blast
qed

lemma segment_hit_None:
  assumes "segment_hit b origin dir = None" and "0 \<le> t" and "t \<le> 1"
  shows "\<not> segment_in b origin dir t"
proof (cases "aabb_is_empty b \<or> dir = ivec3 0 0 0")
  case True
  then show ?thesis
    using assms segment_in_nonempty[of b origin dir t]
    by (auto simp: segment_hit_def segment_in_zero_dir split: if_splits)
next
  case False
  then have ne: "\<not> aabb_is_empty b" "dir \<noteq> ivec3 0 0 0" by auto
  show ?thesis
  proof (cases "clip_all b origin dir")
    case None
    then show ?thesis by (rule clip_all_correct(2))
  next
    case (Some s)
    note c = clip_all_correct(1)[OF Some]
    have ok: "0 < tmin_d s" "0 < tmax_d s" using c by (auto simp: slab_ok_def)
    have "ratio (tmax_n s) (tmax_d s) < ratio (tmin_n s) (tmin_d s)
      \<or> 1 < ratio (tmin_n s) (tmin_d s) \<or> ratio (tmax_n s) (tmax_d s) < 0"
      using assms(1) frac_cmp_Greater[OF ok] frac_cmp_Greater[OF ok(1) zero_less_one, of "tmin_n s" 1]
        frac_cmp_Less[OF ok(2) zero_less_one, of "tmax_n s" 0]
      by (auto simp: segment_hit_clip[OF ne] Some ratio_def split: if_splits)
    then have "\<not> slab_in s t" using assms(2,3) by (auto simp: slab_in_def)
    then show ?thesis using c[of t] assms(2,3) by blast
  qed
qed

end
