(* ===== verification/CoreYaw.thy ===== *)
theory CoreYaw
  imports CoreSpace
begin

text \<open>
  \<open>klotho-core/src/yaw.rs\<close>: rotations by a table of 16.16 cosines.  An \<open>i64\<close> intermediate
  never overflows here except in \<open>fx_axis\<close>, where the wrap-around is written out; the casts back
  to \<open>i32\<close> are \<open>wrap32\<close> and the right shifts are division rounding down.
\<close>

section \<open>The table\<close>

definition cos_table :: "int list" where
  "cos_table = [
    65536, 65526, 65496, 65446, 65376, 65287, 65177, 65048, 64898, 64729,
    64540, 64332, 64104, 63856, 63589, 63303, 62997, 62672, 62328, 61966,
    61584, 61183, 60764, 60326, 59870, 59396, 58903, 58393, 57865, 57319,
    56756, 56175, 55578, 54963, 54332, 53684, 53020, 52339, 51643, 50931,
    50203, 49461, 48703, 47930, 47143, 46341, 45525, 44695, 43852, 42995,
    42126, 41243, 40348, 39441, 38521, 37590, 36647, 35693, 34729, 33754,
    32768, 31772, 30767, 29753, 28729, 27697, 26656, 25607, 24550, 23486,
    22415, 21336, 20252, 19161, 18064, 16962, 15855, 14742, 13626, 12505,
    11380, 10252, 9121, 7987, 6850, 5712, 4572, 3430, 2287, 1144,
    0]"

definition shift16 :: "int \<Rightarrow> int" where
  "shift16 x = x div 65536"

definition cos_sin_deg :: "int \<Rightarrow> int \<times> int" where
  "cos_sin_deg deg =
     (let d = deg mod 360; q = d div 90; r = nat (d mod 90) in
      if q = 0 then (cos_table ! r, cos_table ! (90 - r))
      else if q = 1 then (- (cos_table ! (90 - r)), cos_table ! r)
      else if q = 2 then (- (cos_table ! r), - (cos_table ! (90 - r)))
      else (cos_table ! (90 - r), - (cos_table ! r)))"

definition clamp :: "int \<Rightarrow> int \<Rightarrow> int \<Rightarrow> int" where
  "clamp x lo hi = (if x < lo then lo else if x > hi then hi else x)"

definition cos_sin_pitch_deg :: "int \<Rightarrow> int \<times> int" where
  "cos_sin_pitch_deg deg =
     (let d = clamp deg (- 90) 90 in
      if d \<ge> 0 then (cos_table ! nat d, cos_table ! (90 - nat d))
      else (cos_table ! nat (- d), - (cos_table ! (90 - nat (- d)))))"

section \<open>Rotations\<close>

definition rotate_xz :: "ivec3 \<Rightarrow> yaw_md \<Rightarrow> ivec3" where
  "rotate_xz v yaw =
     (let (c, s) = cos_sin_deg (yaw_normalize yaw div 1000)
      in ivec3 (wrap32 (shift16 (vx v * c + vz v * s))) (vy v)
           (wrap32 (shift16 (- vx v * s + vz v * c))))"

definition look_offset :: "yaw_md \<Rightarrow> yaw_md \<Rightarrow> int \<Rightarrow> ivec3" where
  "look_offset yaw pitch range_mm =
     (let pitch_md = clamp pitch (- yaw_quarter_turn) yaw_quarter_turn;
          (c, s) = cos_sin_pitch_deg (pitch_md div 1000);
          y = wrap32 (shift16 (range_mm * s));
          z = wrap32 (shift16 (range_mm * c))
      in rotate_xz (ivec3 0 y z) yaw)"

type_synonym mat3 = "int list list"

definition fx_mul :: "int \<Rightarrow> int \<Rightarrow> int" where
  "fx_mul a b = wrap32 (shift16 (a * b))"

definition mat_mul :: "mat3 \<Rightarrow> mat3 \<Rightarrow> mat3" where
  "mat_mul a b =
     map (\<lambda>i. map (\<lambda>j. wrap32 (wrap32 (fx_mul (a ! i ! 0) (b ! 0 ! j) + fx_mul (a ! i ! 1) (b ! 1 ! j))
        + fx_mul (a ! i ! 2) (b ! 2 ! j))) [0, 1, 2]) [0, 1, 2]"

definition rotation_axes :: "yaw_md \<Rightarrow> yaw_md \<Rightarrow> yaw_md \<Rightarrow> ivec3 \<times> ivec3 \<times> ivec3" where
  "rotation_axes yaw pitch roll =
     (let (cy, sy) = cos_sin_deg (yaw_normalize yaw div 1000);
          (cp, sp) = cos_sin_pitch_deg (clamp (pitch div 1000) (- 90) 90);
          (cr, sr) = cos_sin_deg (yaw_normalize roll div 1000);
          one = cos_table ! 0;
          ry = [[cy, 0, sy], [0, one, 0], [- sy, 0, cy]];
          rx = [[one, 0, 0], [0, cp, sp], [0, - sp, cp]];
          rz = [[cr, - sr, 0], [sr, cr, 0], [0, 0, one]];
          r = mat_mul ry (mat_mul rx rz)
      in (ivec3 (r ! 0 ! 0) (r ! 1 ! 0) (r ! 2 ! 0),
          ivec3 (r ! 0 ! 1) (r ! 1 ! 1) (r ! 2 ! 1),
          ivec3 (r ! 0 ! 2) (r ! 1 ! 2) (r ! 2 ! 2)))"

definition fx_axis :: "int \<Rightarrow> int \<Rightarrow> int \<Rightarrow> int \<Rightarrow> int \<Rightarrow> int \<Rightarrow> int" where
  "fx_axis x ax y ay z az = wrap32 (shift16 (wrap64 (wrap64 (x * ax + y * ay) + z * az)))"

definition apply_axes :: "ivec3 \<Rightarrow> ivec3 \<Rightarrow> ivec3 \<Rightarrow> ivec3 \<Rightarrow> ivec3" where
  "apply_axes v ax ay az =
     ivec3 (fx_axis (vx v) (vx ax) (vy v) (vx ay) (vz v) (vx az))
       (fx_axis (vx v) (vy ax) (vy v) (vy ay) (vz v) (vy az))
       (fx_axis (vx v) (vz ax) (vy v) (vz ay) (vz v) (vz az))"

definition rotate_vec :: "ivec3 \<Rightarrow> yaw_md \<Rightarrow> yaw_md \<Rightarrow> yaw_md \<Rightarrow> ivec3" where
  "rotate_vec v yaw pitch roll =
     (if pitch = 0 \<and> roll = 0 then rotate_xz v yaw
      else let (ax, ay, az) = rotation_axes yaw pitch roll in apply_axes v ax ay az)"

section \<open>The table is a circle\<close>

text \<open>Opposite entries lie on the circle of radius 65536, up to the rounding of the entries.\<close>

lemma cos_table_circle:
  "\<forall>r \<in> set [0..<91]. \<bar>(cos_table ! r)\<^sup>2 + (cos_table ! (90 - r))\<^sup>2 - 65536\<^sup>2\<bar> \<le> 67177"
  by code_simp

lemma cos_table_range: "\<forall>r \<in> set [0..<91]. 0 \<le> cos_table ! r \<and> cos_table ! r \<le> 65536"
  by code_simp

lemma cos_sin_deg_cases:
  obtains r where "r \<le> 90" and "cos_sin_deg d = (cos_table ! r, cos_table ! (90 - r))"
  | r where "r \<le> 90" and "cos_sin_deg d = (- (cos_table ! (90 - r)), cos_table ! r)"
  | r where "r \<le> 90" and "cos_sin_deg d = (- (cos_table ! r), - (cos_table ! (90 - r)))"
  | r where "r \<le> 90" and "cos_sin_deg d = (cos_table ! (90 - r), - (cos_table ! r))"
proof -
  have r: "nat (d mod 360 mod 90) \<le> 90" by (simp add: nat_le_iff)
  then show thesis using that[OF r] unfolding cos_sin_deg_def Let_def by (metis (no_types))
qed

lemma cos_sin_deg_circle:
  assumes "cos_sin_deg d = (c, s)"
  shows "\<bar>c\<^sup>2 + s\<^sup>2 - 65536\<^sup>2\<bar> \<le> 67177 \<and> \<bar>c\<bar> \<le> 65536 \<and> \<bar>s\<bar> \<le> 65536"
proof -
  have t: "\<bar>(cos_table ! r)\<^sup>2 + (cos_table ! (90 - r))\<^sup>2 - 65536\<^sup>2\<bar> \<le> 67177"
    "0 \<le> cos_table ! r" "cos_table ! r \<le> 65536" "0 \<le> cos_table ! (90 - r)" "cos_table ! (90 - r) \<le> 65536"
    if "r \<le> 90" for r
    using that cos_table_circle cos_table_range by (auto simp del: One_nat_def)
  show ?thesis
    by (rule cos_sin_deg_cases[of d]) (use assms t in \<open>auto simp: add.commute\<close>)
qed

lemma cos_sin_quarter: "cos_sin_deg (d + 90) = (- snd (cos_sin_deg d), fst (cos_sin_deg d))"
proof -
  define m q r where "m = d mod 360" and "q = m div 90" and "r = m mod 90"
  have m: "0 \<le> m" "m < 360" and qm: "m = 90 * q + r" and r: "0 \<le> r" "r < 90"
    by (simp_all add: m_def q_def r_def)
  then have q: "q = 0 \<or> q = 1 \<or> q = 2 \<or> q = 3" by linarith
  have "(d + 90) mod 360 = (m + 90) mod 360" unfolding m_def by (simp add: mod_add_left_eq)
  also have "\<dots> = 90 * (if q = 3 then 0 else q + 1) + r"
    using q r unfolding qm by (elim disjE) simp_all
  finally have "(d + 90) mod 360 = 90 * (if q = 3 then 0 else q + 1) + r" .
  then have r': "(d + 90) mod 360 mod 90 = r" and q': "(d + 90) mod 360 div 90 = (if q = 3 then 0 else q + 1)"
    using r by simp_all
  show ?thesis
    unfolding cos_sin_deg_def Let_def q' r' m_def[symmetric] q_def[symmetric] r_def[symmetric]
    using q by (elim disjE) simp_all
qed

lemma shift16_whole [simp]: "shift16 (x * 65536) = x"
  by (simp add: shift16_def)

lemma cos_sin_0 [simp]: "cos_sin_deg 0 = (65536, 0)"
  by (simp add: cos_sin_deg_def cos_table_def)

end
