(* ===== verification/CoreBody.thy ===== *)
theory CoreBody
  imports CoreYaw CoreIds
begin

text \<open>
  The physical configuration of \<open>klotho-core/src/space.rs\<close>, the contact tracks of
  \<open>contact.rs\<close> and the budgets of \<open>budget.rs\<close>.  Fixed-size arrays are lists; unsigned integers
  are \<open>nat\<close>, signed ones \<open>int\<close>.
\<close>

section \<open>Velocities and poses\<close>

record vel3 =
  v3x :: vel_fx
  v3y :: vel_fx
  v3z :: vel_fx

record pose =
  px :: mm
  py :: mm
  pz :: mm
  pyaw :: yaw_md
  ppitch :: yaw_md
  proll :: yaw_md

definition pose_new :: "mm \<Rightarrow> mm \<Rightarrow> mm \<Rightarrow> yaw_md \<Rightarrow> pose" where
  "pose_new x y z w = \<lparr>px = x, py = y, pz = z, pyaw = w, ppitch = 0, proll = 0\<rparr>"

definition pose_translation :: "pose \<Rightarrow> ivec3" where
  "pose_translation p = ivec3 (px p) (py p) (pz p)"

section \<open>Shapes and modes\<close>

datatype shape_kind = OrientedBox | Sphere | Capsule | Convex | Compound | TriangleMesh | Heightfield

datatype body_mode = Dynamic | Kinematic | Static

definition is_oriented_primitive :: "shape_kind \<Rightarrow> bool" where
  "is_oriented_primitive k \<longleftrightarrow> k \<in> {OrientedBox, Sphere, Capsule}"

definition is_dynamic :: "shape_kind \<Rightarrow> bool" where
  "is_dynamic k \<longleftrightarrow> k \<in> {OrientedBox, Sphere, Capsule, Convex, Compound}"

definition is_static_occupancy :: "shape_kind \<Rightarrow> bool" where
  "is_static_occupancy k \<longleftrightarrow> k \<in> {TriangleMesh, Heightfield}"

section \<open>Characters\<close>

record character_physics =
  roots :: "ivec3 list"
  root_count :: nat
  step_mm :: int
  slope_min_y :: int

definition ivec_zero :: ivec3 where
  "ivec_zero = ivec3 0 0 0"

definition root_ok :: "ivec3 \<Rightarrow> bool" where
  "root_ok r \<longleftrightarrow> vx r * vx r + vz r * vz r \<le> 1000000
     \<and> \<bar>vx r\<bar> \<le> 1000 \<and> \<bar>vy r\<bar> \<le> 1000 \<and> \<bar>vz r\<bar> \<le> 1000"

definition character_valid :: "character_physics \<Rightarrow> bool" where
  "character_valid c \<longleftrightarrow> 1 \<le> root_count c \<and> root_count c \<le> 8
     \<and> 0 \<le> step_mm c \<and> step_mm c \<le> 500 \<and> slope_min_y c > 0
     \<and> (\<forall>r \<in> set (take (root_count c) (roots c)). root_ok r)
     \<and> (\<forall>r \<in> set (drop (root_count c) (roots c)). r = ivec_zero)"

definition character_default :: character_physics where
  "character_default = \<lparr>roots = ivec3 0 0 20 # replicate 7 ivec_zero, root_count = 1,
     step_mm = 250, slope_min_y = 23170\<rparr>"

definition character_sample :: "character_physics \<Rightarrow> tick \<Rightarrow> bool \<Rightarrow> yaw_md \<Rightarrow> ivec3" where
  "character_sample c tick moving yaw =
     (if \<not> moving \<or> \<not> character_valid c then ivec_zero
      else rotate_xz (roots c ! (tick mod root_count c)) yaw)"

section \<open>Vehicles\<close>

record vehicle_physics =
  wheels :: "ivec3 list"
  wheel_count :: nat
  veh_rest_mm :: int
  veh_stiffness :: nat
  damper_permille :: nat
  radius_mm :: int
  steer_md :: int
  drive_mm :: int
  brake_mm :: int
  long_friction :: nat
  lat_friction :: nat

definition wheel_ok :: "ivec3 \<Rightarrow> bool" where
  "wheel_ok w \<longleftrightarrow> \<bar>vx w\<bar> \<le> 5000 \<and> \<bar>vy w\<bar> \<le> 2000 \<and> \<bar>vz w\<bar> \<le> 5000"

definition vehicle_valid :: "vehicle_physics \<Rightarrow> bool" where
  "vehicle_valid v \<longleftrightarrow> 2 \<le> wheel_count v \<and> wheel_count v \<le> 4
     \<and> 50 \<le> veh_rest_mm v \<and> veh_rest_mm v \<le> 2000
     \<and> 20 \<le> radius_mm v \<and> radius_mm v \<le> 1000
     \<and> 1 \<le> veh_stiffness v \<and> veh_stiffness v \<le> 2000
     \<and> damper_permille v \<le> 2000
     \<and> 0 \<le> steer_md v \<and> steer_md v \<le> 45000
     \<and> 1 \<le> drive_mm v \<and> drive_mm v \<le> 500
     \<and> 0 \<le> brake_mm v \<and> brake_mm v \<le> 500
     \<and> long_friction v \<le> 2000 \<and> lat_friction v \<le> 2000
     \<and> (\<forall>w \<in> set (take (wheel_count v) (wheels v)). wheel_ok w)
     \<and> (\<forall>w \<in> set (drop (wheel_count v) (wheels v)). w = ivec_zero)"

definition vehicle_default :: vehicle_physics where
  "vehicle_default = \<lparr>wheels = [ivec3 (- 300) 0 500, ivec3 300 0 500, ivec3 (- 300) 0 (- 500), ivec3 300 0 (- 500)],
     wheel_count = 4, veh_rest_mm = 250, veh_stiffness = 1000, damper_permille = 800, radius_mm = 200,
     steer_md = 25000, drive_mm = 40, brake_mm = 40, long_friction = 1000, lat_friction = 1000\<rparr>"

definition trunc_div :: "int \<Rightarrow> int \<Rightarrow> int" where
  "trunc_div a b = a sdiv b"

definition presented_wheel_rate_md :: "vehicle_physics \<Rightarrow> vel3 \<Rightarrow> yaw_md \<Rightarrow> int" where
  "presented_wheel_rate_md v vel yaw =
     (if \<not> vehicle_valid v then 0
      else
        let forward = rotate_xz (ivec3 (vel_to_mm_trunc (v3x vel)) 0 (vel_to_mm_trunc (v3z vel))) (wrap32 (- yaw));
            radius = max (radius_mm v) 1
        in clamp (trunc_div (vz forward * 57296) radius) (- 180000) 180000)"

section \<open>Bodies\<close>

record body_physics =
  body_mode_of :: body_mode
  body_shape :: shape_kind
  character :: "character_physics option"
  vehicle :: "vehicle_physics option"
  mass_grams :: nat
  center_of_mass :: ivec3
  inertia_diag :: "nat list"
  friction_permille :: nat
  restitution_permille :: nat

definition body_default :: body_physics where
  "body_default = \<lparr>body_mode_of = Dynamic, body_shape = OrientedBox, character = None, vehicle = None,
     mass_grams = 0, center_of_mass = ivec_zero, inertia_diag = [0, 0, 0],
     friction_permille = 900, restitution_permille = 0\<rparr>"

definition body_valid :: "body_physics \<Rightarrow> bool" where
  "body_valid b \<longleftrightarrow> friction_permille b \<le> 2000 \<and> restitution_permille b \<le> 1000
     \<and> \<not> (character b \<noteq> None \<and> vehicle b \<noteq> None)
     \<and> (case character b of None \<Rightarrow> True
        | Some c \<Rightarrow> character_valid c \<and> body_shape b = Capsule \<and> body_mode_of b = Dynamic)
     \<and> (case vehicle b of None \<Rightarrow> True
        | Some v \<Rightarrow> vehicle_valid v \<and> is_dynamic (body_shape b) \<and> body_mode_of b = Dynamic)"

section \<open>Constraints\<close>

datatype constraint_kind = Fixed | Hinge | Slider | Spring

record constraint_physics =
  con_kind :: constraint_kind
  con_a :: sigil
  con_b :: sigil
  anchor_a :: ivec3
  anchor_b :: ivec3
  con_axis :: ivec3
  con_rest_mm :: int
  con_stiffness :: nat
  limit_md :: int
  break_impulse :: int
  fragments :: nat
  con_binding :: digest

definition max_collapse_fragments :: nat where
  "max_collapse_fragments = 64"

definition constraint_valid :: "constraint_physics \<Rightarrow> bool" where
  "constraint_valid c \<longleftrightarrow> con_a c \<noteq> 0 \<and> con_b c \<noteq> 0 \<and> con_a c \<noteq> con_b c
     \<and> con_stiffness c \<le> 2000 \<and> limit_md c \<ge> 0 \<and> break_impulse c \<ge> 0
     \<and> fragments c \<le> max_collapse_fragments"

section \<open>Contact tracks\<close>

definition hash_zero :: digest where
  "hash_zero = replicate 32 0"

record contact_socket =
  sock_name :: string
  sock_samples :: "ivec3 list"

record contact_sweep =
  sweep_name :: string
  sweep_socket :: string
  sweep_radius_mm :: int
  sweep_samples :: "(ivec3 \<times> ivec3) list"

record foot_plant =
  plant_socket :: string
  plant_start :: nat
  plant_end :: nat

record contact_track =
  skeleton :: digest
  instrument :: digest
  track_action :: digest
  track_rite :: string
  tick_hz :: nat
  wait_pc :: nat
  track_channel :: nat
  wait_ticks :: nat
  track_roots :: "ivec3 list"
  sockets :: "contact_socket list"
  sweeps :: "contact_sweep list"
  plants :: "foot_plant list"

definition name_byte :: "char \<Rightarrow> bool" where
  "name_byte c \<longleftrightarrow> (let b = (of_char c :: nat) in
     48 \<le> b \<and> b \<le> 57 \<or> 65 \<le> b \<and> b \<le> 90 \<or> 97 \<le> b \<and> b \<le> 122 \<or> b = 95 \<or> b = 46)"

definition track_name :: "string \<Rightarrow> bool" where
  "track_name s \<longleftrightarrow> s \<noteq> [] \<and> length s \<le> 64 \<and> list_all name_byte s"

definition track_point :: "ivec3 \<Rightarrow> bool" where
  "track_point p \<longleftrightarrow> \<bar>vx p\<bar> \<le> 100000 \<and> \<bar>vy p\<bar> \<le> 100000 \<and> \<bar>vz p\<bar> \<le> 100000"

text \<open>\<open>windows2\<close> is \<open>windows(2).all(..)\<close>: every two neighbours of a slice.\<close>

fun windows2 :: "('a \<Rightarrow> 'a \<Rightarrow> bool) \<Rightarrow> 'a list \<Rightarrow> bool" where
  "windows2 f (a # b # xs) = (f a b \<and> windows2 f (b # xs))"
| "windows2 f _ = True"

definition plant_before :: "foot_plant \<Rightarrow> foot_plant \<Rightarrow> bool" where
  "plant_before a b \<longleftrightarrow>
     (plant_socket a < plant_socket b \<or> plant_socket a = plant_socket b \<and> plant_start a < plant_start b)
     \<and> (plant_socket a \<noteq> plant_socket b \<or> plant_end a \<le> plant_start b)"

definition contact_track_valid :: "contact_track \<Rightarrow> bool" where
  "contact_track_valid t \<longleftrightarrow>
     (let n = length (track_roots t) in
      skeleton t \<noteq> hash_zero \<and> instrument t \<noteq> hash_zero \<and> track_action t \<noteq> hash_zero
      \<and> track_name (track_rite t) \<and> (tick_hz t = 30 \<or> tick_hz t = 60)
      \<and> 1 \<le> track_channel t \<and> track_channel t \<le> 4
      \<and> wait_ticks t > 0 \<and> n = wait_ticks t + 1 \<and> n \<le> 65
      \<and> list_all track_point (track_roots t)
      \<and> sockets t \<noteq> [] \<and> length (sockets t) \<le> 8 \<and> sweeps t \<noteq> [] \<and> length (sweeps t) \<le> 8
      \<and> windows2 (\<lambda>a b. sock_name a < sock_name b) (sockets t)
      \<and> windows2 (\<lambda>a b. sweep_name a < sweep_name b) (sweeps t)
      \<and> (\<forall>s \<in> set (sockets t). track_name (sock_name s) \<and> length (sock_samples s) = n
           \<and> list_all track_point (sock_samples s))
      \<and> (\<forall>s \<in> set (sweeps t). track_name (sweep_name s)
           \<and> (\<exists>p \<in> set (sockets t). sock_name p = sweep_socket s)
           \<and> 1 \<le> sweep_radius_mm s \<and> sweep_radius_mm s \<le> 2000 \<and> length (sweep_samples s) = n
           \<and> list_all (\<lambda>(a, b). track_point a \<and> track_point b) (sweep_samples s))
      \<and> length (plants t) \<le> 16
      \<and> (\<forall>p \<in> set (plants t). plant_start p < plant_end p \<and> plant_end p \<le> wait_ticks t
           \<and> (\<exists>s \<in> set (sockets t). sock_name s = plant_socket p))
      \<and> windows2 plant_before (plants t))"

section \<open>Budgets\<close>

record budget =
  us_sim :: nat
  pred_ops :: nat
  rite_steps :: nat
  eval_slo_ticks :: nat
  rewind_ticks :: nat

definition budget_hearth :: budget where
  "budget_hearth = \<lparr>us_sim = 4000, pred_ops = 8192, rite_steps = 2000, eval_slo_ticks = 12, rewind_ticks = 0\<rparr>"

definition budget_aaa_adventure :: budget where
  "budget_aaa_adventure = \<lparr>us_sim = 8000, pred_ops = 65536, rite_steps = 16384, eval_slo_ticks = 6, rewind_ticks = 0\<rparr>"

definition budget_aaa_shooter :: budget where
  "budget_aaa_shooter = \<lparr>us_sim = 5000, pred_ops = 32768, rite_steps = 8192, eval_slo_ticks = 12, rewind_ticks = 12\<rparr>"

section \<open>Ordered slices\<close>

lemma windows2_sorted_wrt: "transp f \<Longrightarrow> windows2 f xs \<longleftrightarrow> sorted_wrt f xs"
  by (induction f xs rule: windows2.induct) (auto dest: transpD)

lemma windows2_distinct:
  fixes f :: "'a \<Rightarrow> 'b::linorder"
  assumes "windows2 (\<lambda>a b. f a < f b) xs"
  shows "distinct (map f xs)"
proof -
  have "transp (\<lambda>a b. f a < f b)" by (auto simp: transp_def)
  with assms have "sorted_wrt (<) (map f xs)" by (simp add: windows2_sorted_wrt sorted_wrt_map)
  then show ?thesis by (simp add: strict_sorted_iff)
qed

lemma plant_before_trans:
  "plant_before a b \<Longrightarrow> plant_before b c \<Longrightarrow> plant_end b > plant_start b \<Longrightarrow> plant_before a c"
  by (auto simp: plant_before_def)

lemma windows2_plants:
  "windows2 plant_before ps \<Longrightarrow> \<forall>p \<in> set ps. plant_start p < plant_end p \<Longrightarrow> sorted_wrt plant_before ps"
proof (induction ps)
  case (Cons a ps)
  show ?case
  proof (cases ps)
    case (Cons b qs)
    with Cons.prems Cons.IH have ab: "plant_before a b" and srt: "sorted_wrt plant_before (b # qs)"
      and "plant_start b < plant_end b" by auto
    then have "\<forall>y \<in> set qs. plant_before a y" using plant_before_trans by fastforce
    with ab srt show ?thesis by (simp add: Cons)
  qed simp
qed simp

section \<open>Bounded steps\<close>

lemma square_bound:
  fixes x z c s :: int
  assumes "x * x + z * z \<le> 1000000" and "c\<^sup>2 + s\<^sup>2 \<le> 65536\<^sup>2 + 67177"
  shows "\<bar>x * c + z * s\<bar> \<le> 1001 * 65536"
proof (rule abs_le_square_iff[THEN iffD2, of _ "1001 * 65536 :: int", simplified abs_mult abs_numeral])
  have "(x * c + z * s)\<^sup>2 + (x * s - z * c)\<^sup>2 = (x * x + z * z) * (c\<^sup>2 + s\<^sup>2)"
    by (simp add: power2_eq_square algebra_simps)
  then have "(x * c + z * s)\<^sup>2 \<le> (x * x + z * z) * (c\<^sup>2 + s\<^sup>2)"
    by (metis le_add_same_cancel1 zero_le_power2)
  also have "\<dots> \<le> 1000000 * (65536\<^sup>2 + 67177)"
    using assms by (intro mult_mono) auto
  also have "\<dots> \<le> (1001 * 65536)\<^sup>2" by simp
  finally show "(x * c + z * s)\<^sup>2 \<le> (1001 * 65536)\<^sup>2" .
qed

lemma shift16_bound: "\<bar>u\<bar> \<le> n * 65536 \<Longrightarrow> \<bar>shift16 u\<bar> \<le> n"
  unfolding shift16_def by (auto simp: abs_le_iff)

lemma rotate_xz_root:
  assumes "root_ok r"
  shows "\<bar>vx (rotate_xz r w)\<bar> \<le> 1001 \<and> \<bar>vy (rotate_xz r w)\<bar> \<le> 1000 \<and> \<bar>vz (rotate_xz r w)\<bar> \<le> 1001"
proof -
  obtain c s where cs: "cos_sin_deg (yaw_normalize w div 1000) = (c, s)" by (metis surj_pair)
  have circ: "c\<^sup>2 + s\<^sup>2 \<le> 65536\<^sup>2 + 67177" "(- s)\<^sup>2 + c\<^sup>2 \<le> 65536\<^sup>2 + 67177"
    using cos_sin_deg_circle[OF cs] by (simp_all add: abs_le_iff)
  have r: "vx r * vx r + vz r * vz r \<le> 1000000" using assms by (simp add: root_ok_def)
  have b1: "\<bar>shift16 (vx r * c + vz r * s)\<bar> \<le> 1001"
    by (rule shift16_bound[OF square_bound[OF r circ(1)]])
  have b2: "\<bar>shift16 (- vx r * s + vz r * c)\<bar> \<le> 1001"
    using shift16_bound[OF square_bound[OF r circ(2)]] by simp
  have "wrap32 u = u" if "\<bar>u\<bar> \<le> 1001" for u
    using that by (intro wrap32_id) (auto simp: in_i32_def)
  then show ?thesis
    using b1 b2 assms by (simp add: rotate_xz_def cs ivec3_def root_ok_def)
qed

section \<open>Defaults\<close>

lemma character_default_valid: "character_valid character_default"
  by (simp add: character_valid_def character_default_def root_ok_def ivec_zero_def ivec3_def)

lemma vehicle_default_valid: "vehicle_valid vehicle_default"
  by (simp add: vehicle_valid_def vehicle_default_def wheel_ok_def ivec3_def)

end
