(* ===== verification/CoreProps.thy ===== *)
theory CoreProps
  imports CoreRng CoreBody
begin

text \<open>
  The properties of \<open>klotho-core\<close>: identifiers, digests, random draws, angles, rotations and the
  integer segment query.
\<close>

text \<open>
  A packed identifier gives back the kind, the generation and the id it was packed from;
  packing refuses exactly the ids that do not fit in 112 bits; and two packed identifiers are
  equal only if all three parts are.
\<close>

theorem sigil_round_trip:
  "case sigil_pack k g i of
     None \<Rightarrow> 2 ^ 112 \<le> unat i
   | Some s \<Rightarrow> unat i < 2 ^ 112 \<and> sigil_kind s = Some k \<and> sigil_generation s = g \<and> sigil_id s = i"
proof -
  have m: "unat sigil_id_mask = 2 ^ 112 - 1" by (simp add: sigil_id_mask_def)
  have "i > sigil_id_mask \<longleftrightarrow> 2 ^ 112 \<le> unat i" by (simp add: word_less_nat_alt m) linarith
  then show ?thesis
    by (auto simp: sigil_pack_def sigil_kind_pack sigil_generation_pack sigil_id_pack_truncated
        sigil_mask_absorb not_less)
qed

text \<open>
  Printing a 32-byte digest and parsing the text gives the digest back.
\<close>

theorem digest_hex_round_trip:
  assumes "length h = 32"
  shows "parse_hex32 (hash_to_string h) = Inr h"
  using assms by (simp add: parse_hex32_def length_hash_to_string parse_hash_pairs)

theorem digest_hex_round_trip_witness:
  "parse_hex32 (hash_to_string (replicate 31 0 @ [0xa7])) = Inr (replicate 31 0 @ [0xa7])"
  by (rule digest_hex_round_trip) simp

text \<open>
  Bounded draws are fair.  \<open>gen_u32\<close> returns the first word below its threshold, reduced
  modulo the bound, and redraws on any other word; a value it returns is below the bound; every
  value below the bound is the residue of the same number of accepted words, and more than half
  of all words are accepted; and the generator's state never becomes the all-zero state it could
  not leave.
\<close>

theorem bounded_draws_fair:
  assumes "1 < upper" and "upper < 2 ^ 32"
  shows "(\<forall>r. gen_u32 r upper = (case next_u64 r of (x, r') \<Rightarrow>
        if unat x < gen_thresh upper then Some (unat x mod upper, r') else gen_u32 r' upper))
    \<and> (\<forall>r v r'. gen_u32 r upper = Some (v, r') \<longrightarrow> v < upper)
    \<and> (\<forall>k < upper. card {x :: nat. x < gen_thresh upper \<and> x mod upper = k} = u64_max div upper)
    \<and> 2 ^ 63 < gen_thresh upper \<and> gen_thresh upper < 2 ^ 64
    \<and> rng_ok (rng_seed h t) \<and> (\<forall>r. rng_ok r \<longrightarrow> rng_ok (snd (next_u64 r)))"
proof (intro conjI allI impI)
  fix r show "gen_u32 r upper = (case next_u64 r of (x, r') \<Rightarrow>
      if unat x < gen_thresh upper then Some (unat x mod upper, r') else gen_u32 r' upper)"
    using assms by (auto simp: gen_u32_def gen_loop.simps[of r] split: prod.split)
next
  fix r v r' assume "gen_u32 r upper = Some (v, r')"
  then show "v < upper" using assms gen_loop_bound by (auto simp: gen_u32_def split: if_splits)
next
  fix k assume "k < upper"
  then show "card {x :: nat. x < gen_thresh upper \<and> x mod upper = k} = u64_max div upper"
    unfolding gen_thresh_multiple by (rule card_residue)
next
  have "u64_max mod upper < upper" using assms(1) by simp
  then show "2 ^ 63 < gen_thresh upper" "gen_thresh upper < 2 ^ 64"
    using assms(2) by (simp_all add: gen_thresh_def u64_max_def)
qed (rule rng_seed_ok next_u64_ok, assumption?)+

theorem bounded_draws_fair_witness:
  "2 ^ 63 < gen_thresh 6 \<and> card {x :: nat. x < gen_thresh 6 \<and> x mod 6 = 5} = 3074457345618258602"
  using bounded_draws_fair[of 6 "[]" 0] by (simp add: u64_max_def)

lemma yaw_delta_eq:
  "yaw_delta a b = (let d = b mod 360000 - a mod 360000 in
     if d > 180000 then d - 360000 else if d \<le> - 180000 then d + 360000 else d)"
proof -
  have "wrap32 (b mod 360000 - a mod 360000) = b mod 360000 - a mod 360000"
    by (rule yaw_diff_no_wrap) (smt (verit) pos_mod_bound pos_mod_sign)+
  then show ?thesis by (simp add: yaw_delta_def yaw_normalize_mod yaw_half_turn_def yaw_full_turn_def Let_def)
qed

lemma yaw_add_small: "\<bar>d\<bar> \<le> 360000 \<Longrightarrow> yaw_wrapping_add (yaw_normalize a) d = (a + d) mod 360000"
proof -
  assume d: "\<bar>d\<bar> \<le> 360000"
  have "wrap32 (a mod 360000 + d) = a mod 360000 + d"
    by (rule yaw_sum_no_wrap) (use d in \<open>smt (verit) pos_mod_bound pos_mod_sign\<close>)+
  then show ?thesis by (simp add: yaw_wrapping_add_def yaw_normalize_mod mod_add_left_eq)
qed

lemma yaw_delta_shortest_mod:
  fixes a b d :: int
  assumes "(a + d) mod 360000 = b mod 360000" and "\<bar>d\<bar> < 180000"
  shows "yaw_delta a b = d"
proof -
  have "(b mod 360000 - a mod 360000) mod 360000 = d mod 360000"
    using assms(1) by (metis add_diff_cancel_left' mod_diff_eq)
  then obtain k where k: "b mod 360000 - a mod 360000 = d + k * 360000"
    by (metis mod_eq_dvd_iff dvd_def mult.commute add.commute diff_add_cancel)
  have "- 360000 < b mod 360000 - a mod 360000" "b mod 360000 - a mod 360000 < 360000"
    by (smt (verit) pos_mod_bound pos_mod_sign)+
  with k assms(2) have "k = 0 \<or> k = 1 \<or> k = - 1" by linarith
  then show ?thesis using k assms(2) by (auto simp: yaw_delta_eq Let_def)
qed

text \<open>
  \<open>YawMd::delta\<close> is the shortest turn: it lies in the half-open half turn, adding it to the
  first yaw gives the second, and no turn of smaller magnitude does.
\<close>

theorem yaw_delta_shortest_turn:
  "- 180000 < yaw_delta a b \<and> yaw_delta a b \<le> 180000
   \<and> yaw_wrapping_add (yaw_normalize a) (yaw_delta a b) = yaw_normalize b
   \<and> (\<forall>d. \<bar>d\<bar> < \<bar>yaw_delta a b\<bar> \<longrightarrow> yaw_wrapping_add (yaw_normalize a) d \<noteq> yaw_normalize b)"
proof -
  have r: "- 180000 < yaw_delta a b" "yaw_delta a b \<le> 180000"
    unfolding yaw_delta_eq Let_def by (smt (verit) pos_mod_bound pos_mod_sign)+
  have "(a mod 360000 + yaw_delta a b) mod 360000 = b mod 360000"
    by (auto simp: yaw_delta_eq Let_def)
  then have reach: "(a + yaw_delta a b) mod 360000 = b mod 360000" by (simp add: mod_add_left_eq)
  have "yaw_wrapping_add (yaw_normalize a) d \<noteq> yaw_normalize b" if "\<bar>d\<bar> < \<bar>yaw_delta a b\<bar>" for d
  proof
    assume eq: "yaw_wrapping_add (yaw_normalize a) d = yaw_normalize b"
    have small: "\<bar>d\<bar> < 180000" using that r by linarith
    then have "yaw_delta a b = d"
      using eq yaw_add_small[of d a] by (intro yaw_delta_shortest_mod) (simp_all add: yaw_normalize_mod)
    then show False using that by simp
  qed
  then show ?thesis using r reach yaw_add_small[of "yaw_delta a b" a] by (auto simp: yaw_normalize_mod)
qed

theorem yaw_delta_shortest_turn_witness:
  "yaw_delta 350000 10000 = 20000 \<and> yaw_wrapping_add (yaw_normalize 350000) 19999 \<noteq> yaw_normalize 10000"
proof -
  have "yaw_delta 350000 10000 = 20000" by (simp add: yaw_delta_eq Let_def)
  then show ?thesis using yaw_delta_shortest_turn[of 350000 10000] by simp
qed

text \<open>
  Quarter turns are exact.  On the four right angles \<open>rotate_xz\<close> permutes and negates the
  ground coordinates without rounding; at every other angle the height is kept and the table's
  cosine and sine satisfy the circle equation to one part in sixty thousand.
\<close>

theorem rotate_xz_quarter_turns:
  assumes "in_i32 x" and "in_i32 (- x)" and "in_i32 z" and "in_i32 (- z)"
  shows "rotate_xz (ivec3 x y z) 0 = ivec3 x y z
    \<and> rotate_xz (ivec3 x y z) 90000 = ivec3 z y (- x)
    \<and> rotate_xz (ivec3 x y z) 180000 = ivec3 (- x) y (- z)
    \<and> rotate_xz (ivec3 x y z) 270000 = ivec3 (- z) y x
    \<and> vy (rotate_xz (ivec3 x y z) w) = y
    \<and> (case cos_sin_deg (yaw_normalize w div 1000) of (c, s) \<Rightarrow>
         \<bar>c\<^sup>2 + s\<^sup>2 - 65536\<^sup>2\<bar> * 60000 \<le> 65536\<^sup>2)"
proof -
  have n: "yaw_normalize 0 div 1000 = 0" "yaw_normalize 90000 div 1000 = 90"
    "yaw_normalize 180000 div 1000 = 180" "yaw_normalize 270000 div 1000 = 270"
    by (simp_all add: yaw_normalize_mod)
  have c: "cos_sin_deg 90 = (0, 65536)" "cos_sin_deg 180 = (- 65536, 0)" "cos_sin_deg 270 = (0, - 65536)"
    by (simp_all add: cos_sin_deg_def cos_table_def)
  have neg: "shift16 (- (u * 65536)) = - u" for u by (metis shift16_whole mult_minus_left)
  obtain cw sw where cs: "cos_sin_deg (yaw_normalize w div 1000) = (cw, sw)" by (metis surj_pair)
  have "\<bar>cw\<^sup>2 + sw\<^sup>2 - 65536\<^sup>2\<bar> * 60000 \<le> 65536\<^sup>2"
    using cos_sin_deg_circle[OF cs] by simp
  then show ?thesis
    using assms by (simp add: rotate_xz_def n c cs neg ivec3_def wrap32_id)
qed

theorem rotate_xz_quarter_turns_witness:
  "rotate_xz (ivec3 3 4 5) 90000 = ivec3 5 4 (- 3) \<and> rotate_xz (ivec3 3 4 5) 180000 = ivec3 (- 3) 4 (- 5)"
  using rotate_xz_quarter_turns[of 3 5 4 0] by (simp add: in_i32_def)

text \<open>
  The integer segment query is exact.  It answers \<open>Some (n, d)\<close> precisely when the closed
  segment meets the closed box, and then n / d, with positive d, is the parameter of the first
  point of the segment inside the box, computed without rounding.
\<close>

theorem segment_hit_first_contact:
  "case segment_hit b origin dir of
     None \<Rightarrow> \<not> (\<exists>t. 0 \<le> t \<and> t \<le> 1 \<and> segment_in b origin dir t)
   | Some (n, d) \<Rightarrow> 0 < d \<and> is_arg_min (\<lambda>t. t) (\<lambda>t. 0 \<le> t \<and> t \<le> 1 \<and> segment_in b origin dir t) (ratio n d)"
proof (cases "segment_hit b origin dir")
  case None
  then show ?thesis using segment_hit_None[OF None] by auto
next
  case (Some x)
  then obtain n d where "segment_hit b origin dir = Some (n, d)" by (cases x) auto
  from segment_hit_Some[OF this] this show ?thesis by (auto simp: is_arg_min_def not_less)
qed

text \<open>
  A driven character takes bounded steps.  Whatever its trajectory, tick and facing, the root
  displacement sampled for one tick is at most 1001 mm along each ground axis and 1000 mm in
  height: an invalid configuration does not move at all, and the table's rounding adds at most one
  millimetre to the validated metre.
\<close>

theorem character_step_bounded:
  assumes "length (roots c) = 8"
  shows "let d = character_sample c t moving w in \<bar>vx d\<bar> \<le> 1001 \<and> \<bar>vy d\<bar> \<le> 1000 \<and> \<bar>vz d\<bar> \<le> 1001"
proof (cases "moving \<and> character_valid c")
  case True
  then have v: "0 < root_count c" "root_count c \<le> 8"
    and ok: "\<forall>r \<in> set (take (root_count c) (roots c)). root_ok r"
    by (auto simp: character_valid_def)
  have lt: "t mod root_count c < root_count c" using v by simp
  then have "roots c ! (t mod root_count c) = take (root_count c) (roots c) ! (t mod root_count c)" by simp
  then have "roots c ! (t mod root_count c) \<in> set (take (root_count c) (roots c))"
    using lt v assms by (metis length_take min.absorb2 nth_mem)
  with ok have "root_ok (roots c ! (t mod root_count c))" by blast
  from rotate_xz_root[OF this, of w] True show ?thesis by (simp add: character_sample_def Let_def)
next
  case False
  then show ?thesis by (auto simp: character_sample_def Let_def ivec_zero_def ivec3_def)
qed

theorem character_step_bounded_witness:
  "character_valid character_default \<and> character_sample character_default 7 True 90000 = ivec3 20 0 0
   \<and> (let d = character_sample character_default 7 True 45000 in \<bar>vx d\<bar> \<le> 1001 \<and> \<bar>vy d\<bar> \<le> 1000 \<and> \<bar>vz d\<bar> \<le> 1001)"
proof -
  have "length (roots character_default) = 8" by (simp add: character_default_def)
  from character_step_bounded[OF this, of 7 True 45000] show ?thesis
    by (simp add: character_default_valid) code_simp
qed

text \<open>
  In a valid contact track the planted intervals of one foot socket never overlap and come in
  time order, every sweep rides on a declared socket, and all tracks have one sample for each tick
  boundary of the wait.
\<close>

theorem contact_track_plants:
  assumes "contact_track_valid t"
  shows "sorted_wrt (\<lambda>p q. plant_socket p = plant_socket q \<longrightarrow> plant_end p \<le> plant_start q) (plants t)
    \<and> distinct (map sock_name (sockets t)) \<and> distinct (map sweep_name (sweeps t))
    \<and> (\<forall>s \<in> set (sweeps t). sweep_socket s \<in> sock_name ` set (sockets t)
         \<and> length (sweep_samples s) = wait_ticks t + 1)"
proof -
  have v: "windows2 plant_before (plants t)" "\<forall>p \<in> set (plants t). plant_start p < plant_end p"
    "windows2 (\<lambda>a b. sock_name a < sock_name b) (sockets t)"
    "windows2 (\<lambda>a b. sweep_name a < sweep_name b) (sweeps t)"
    "\<forall>s \<in> set (sweeps t). (\<exists>p \<in> set (sockets t). sock_name p = sweep_socket s) \<and> length (sweep_samples s) = wait_ticks t + 1"
    using assms by (auto simp: contact_track_valid_def Let_def)
  have "sorted_wrt (\<lambda>p q. plant_socket p = plant_socket q \<longrightarrow> plant_end p \<le> plant_start q) (plants t)"
    by (rule sorted_wrt_mono_rel[OF _ windows2_plants[OF v(1,2)]]) (simp add: plant_before_def)
  moreover have "distinct (map sock_name (sockets t))"
    using v(3) by (rule windows2_distinct)
  moreover have "distinct (map sweep_name (sweeps t))"
    using v(4) by (rule windows2_distinct)
  moreover have "\<forall>s \<in> set (sweeps t). sweep_socket s \<in> sock_name ` set (sockets t)
      \<and> length (sweep_samples s) = wait_ticks t + 1"
    using v(5) by (metis image_eqI)
  ultimately show ?thesis by blast
qed

definition slash_track :: contact_track where
  "slash_track = \<lparr>skeleton = replicate 32 1, instrument = replicate 32 1, track_action = replicate 32 1,
     track_rite = ''slash'', tick_hz = 60, wait_pc = 0, track_channel = 1, wait_ticks = 2,
     track_roots = replicate 3 ivec_zero,
     sockets = [\<lparr>sock_name = ''blade'', sock_samples = replicate 3 ivec_zero\<rparr>],
     sweeps = [\<lparr>sweep_name = ''edge'', sweep_socket = ''blade'', sweep_radius_mm = 40,
       sweep_samples = replicate 3 (ivec_zero, ivec_zero)\<rparr>],
     plants = [\<lparr>plant_socket = ''blade'', plant_start = 0, plant_end = 1\<rparr>,
       \<lparr>plant_socket = ''blade'', plant_start = 1, plant_end = 2\<rparr>]\<rparr>"

theorem contact_track_plants_witness:
  "contact_track_valid slash_track \<and> distinct (map sock_name (sockets slash_track))"
proof -
  have "contact_track_valid slash_track" by code_simp
  then show ?thesis using contact_track_plants by blast
qed

end
