(* ===== verification/IrPred.thy ===== *)
theory IrPred
  imports CoreIds CoreSpace
begin

text \<open>
  The authoring language of \<open>klotho-ir\<close>: closed enumerations (\<open>verb.rs\<close>, \<open>rel.rs\<close>,
  \<open>agency.rs\<close>), slots (\<open>target.rs\<close>), the predicate AST and its shape check
  (\<open>pred.rs\<close>), and the declarations that carry predicates (\<open>decl.rs\<close>).  A \<open>Name\<close> is a
  string; Rust's byte order on strings is the lexicographic order of the library.
\<close>

section \<open>Closed enumerations\<close>

datatype verb = Look | Move | Use | Carry | Drop | Pay | Fire | Time | Open | Talk
  | Investigate | Steer | Reload

fun verb_as_u8 :: "verb \<Rightarrow> nat" where
  "verb_as_u8 Look = 0"
| "verb_as_u8 Move = 1"
| "verb_as_u8 Use = 2"
| "verb_as_u8 Carry = 3"
| "verb_as_u8 Drop = 4"
| "verb_as_u8 Pay = 5"
| "verb_as_u8 Fire = 6"
| "verb_as_u8 Time = 7"
| "verb_as_u8 Open = 8"
| "verb_as_u8 Talk = 9"
| "verb_as_u8 Investigate = 10"
| "verb_as_u8 Steer = 11"
| "verb_as_u8 Reload = 12"

definition verb_from_u8 :: "nat \<Rightarrow> verb option" where
  "verb_from_u8 v = nth_opt [Look, Move, Use, Carry, Drop, Pay, Fire, Time, Open, Talk,
     Investigate, Steer, Reload] v"

lemma verb_round_trip [simp]: "verb_from_u8 (verb_as_u8 v) = Some v"
  by (cases v) (simp_all add: verb_from_u8_def nth_opt_def)

datatype rel = In | OwnedBy | WieldedBy | KeyedBy | Knows | Owes | Fears | PartOf | DerivedFrom
  | LockedBy | Dead | PilotedBy | AttachedTo

fun rel_as_u8 :: "rel \<Rightarrow> nat" where
  "rel_as_u8 In = 0"
| "rel_as_u8 OwnedBy = 1"
| "rel_as_u8 WieldedBy = 2"
| "rel_as_u8 KeyedBy = 3"
| "rel_as_u8 Knows = 4"
| "rel_as_u8 Owes = 5"
| "rel_as_u8 Fears = 6"
| "rel_as_u8 PartOf = 7"
| "rel_as_u8 DerivedFrom = 8"
| "rel_as_u8 LockedBy = 9"
| "rel_as_u8 Dead = 10"
| "rel_as_u8 PilotedBy = 11"
| "rel_as_u8 AttachedTo = 12"

definition rel_from_u8 :: "nat \<Rightarrow> rel option" where
  "rel_from_u8 v = nth_opt [In, OwnedBy, WieldedBy, KeyedBy, Knows, Owes, Fears, PartOf,
     DerivedFrom, LockedBy, Dead, PilotedBy, AttachedTo] v"

fun rel_as_str :: "rel \<Rightarrow> string" where
  "rel_as_str In = ''In''"
| "rel_as_str OwnedBy = ''OwnedBy''"
| "rel_as_str WieldedBy = ''WieldedBy''"
| "rel_as_str KeyedBy = ''KeyedBy''"
| "rel_as_str Knows = ''Knows''"
| "rel_as_str Owes = ''Owes''"
| "rel_as_str Fears = ''Fears''"
| "rel_as_str PartOf = ''PartOf''"
| "rel_as_str DerivedFrom = ''DerivedFrom''"
| "rel_as_str LockedBy = ''LockedBy''"
| "rel_as_str Dead = ''Dead''"
| "rel_as_str PilotedBy = ''PilotedBy''"
| "rel_as_str AttachedTo = ''AttachedTo''"

definition rel_from_name :: "string \<Rightarrow> rel option" where
  "rel_from_name s =
     (if s = ''In'' then Some In
      else if s = ''OwnedBy'' then Some OwnedBy
      else if s = ''WieldedBy'' then Some WieldedBy
      else if s = ''KeyedBy'' then Some KeyedBy
      else if s = ''Knows'' then Some Knows
      else if s = ''Owes'' then Some Owes
      else if s = ''Fears'' then Some Fears
      else if s = ''PartOf'' then Some PartOf
      else if s = ''DerivedFrom'' then Some DerivedFrom
      else if s = ''LockedBy'' then Some LockedBy
      else if s = ''Dead'' then Some Dead
      else if s = ''PilotedBy'' then Some PilotedBy
      else if s = ''AttachedTo'' then Some AttachedTo
      else None)"

lemma rel_round_trip [simp]: "rel_from_u8 (rel_as_u8 r) = Some r"
  by (cases r) (simp_all add: rel_from_u8_def nth_opt_def)

lemma rel_name_round_trip: "rel_from_name (rel_as_str r) = Some r"
  by (cases r) (simp_all add: rel_from_name_def)

lemma rel_as_u8_inject [simp]: "rel_as_u8 r = rel_as_u8 q \<longleftrightarrow> r = q"
  by (metis rel_round_trip option.inject)

datatype channel = Timing | Aim | ResourceSpend | DialogueChoice

fun channel_as_u8 :: "channel \<Rightarrow> nat" where
  "channel_as_u8 Timing = 1"
| "channel_as_u8 Aim = 2"
| "channel_as_u8 ResourceSpend = 3"
| "channel_as_u8 DialogueChoice = 4"

definition channel_from_u8 :: "nat \<Rightarrow> channel option" where
  "channel_from_u8 v =
     (if v = 1 then Some Timing else if v = 2 then Some Aim
      else if v = 3 then Some ResourceSpend else if v = 4 then Some DialogueChoice else None)"

lemma channel_round_trip [simp]: "channel_from_u8 (channel_as_u8 c) = Some c"
  by (cases c) (simp_all add: channel_from_u8_def)

datatype source_kind = SrcPlayer | SrcMind | SrcSpace | SrcMotion | SrcInfer | SrcPhys | SrcResidency

datatype comparison = Lt | Le | Eq | Ge | Gt

text \<open>The errors of parsing and validation (\<open>error.rs\<close>).\<close>

datatype ir_error =
    IrParse string
  | IrSer string
  | EmptyName
  | NestedQuantifier
  | InvalidRiteCap
  | InvalidPhase nat
  | DuplicateChannel
  | InvalidModuleVersion
  | ImportCycle "string list"
  | HashDrift string string string
  | DuplicateModule string
  | MissingModule string
  | TombstoneReuse string
  | AliasCollision string
  | UnboundParameter string
  | DuplicateAnchor string
  | MissingAnchor string
  | DuplicateObjectName string
  | ExportUnknown string
  | ParameterTypeMismatch string
  | UnexpandedPattern string
  | InvalidFeel string string
  | InvalidA11y string string
  | MindProgramCap string string nat nat
  | InvalidMindProgram string
  | UnsafeFarFact string string
  | InvalidPresent string string

text \<open>\<open>Agency::check\<close>: a packet may claim each channel at most once.\<close>

fun agency_check_from :: "channel list \<Rightarrow> channel list \<Rightarrow> ir_error + unit" where
  "agency_check_from seen [] = Inr ()"
| "agency_check_from seen (c # cs) =
     (if c \<in> set seen then Inl DuplicateChannel else agency_check_from (c # seen) cs)"

definition agency_check :: "channel list \<Rightarrow> ir_error + unit" where
  "agency_check cs = agency_check_from [] cs"

lemma agency_check_from_ok:
  "is_ok (agency_check_from seen cs) \<longleftrightarrow> distinct cs \<and> set seen \<inter> set cs = {}"
  by (induction seen cs rule: agency_check_from.induct) auto

section \<open>Predicates\<close>

datatype slot = This | Target | Other | NameSlot string

datatype pred =
    PAffordance slot string
  | PRel slot rel slot
  | PQty slot string comparison int
  | PEqVerb verb
  | PRiteActive string
  | PAabbNear slot slot mm
  | PInWindow string channel
  | PKnows slot string
  | PSourceIs source_kind
  | PAgencyClaimed channel
  | PBurning slot
  | POpaqueClosed slot
  | PSweptHitsOpaqueClosed
  | PIslandAwake slot
  | PSelfIs slot
  | PTargetIs slot
  | POtherIs slot
  | PRayHits slot ivec3 mm byte
  | PSimLodIs slot sim_lod
  | PInPlace slot slot
  | PAnd pred pred
  | POr pred pred
  | PNot pred
  | PExistsRelated slot rel pred
  | PCountRelated slot rel pred comparison int

fun name_check :: "string \<Rightarrow> ir_error + unit" where
  "name_check n = (if n = [] then Inl EmptyName else Inr ())"

fun slot_check :: "slot \<Rightarrow> ir_error + unit" where
  "slot_check (NameSlot n) = name_check n"
| "slot_check _ = Inr ()"

fun pred_check_inner :: "bool \<Rightarrow> pred \<Rightarrow> ir_error + unit" where
  "pred_check_inner q (PAffordance s n) = rbind (slot_check s) (\<lambda>_. name_check n)"
| "pred_check_inner q (PQty s n c v) = rbind (slot_check s) (\<lambda>_. name_check n)"
| "pred_check_inner q (PKnows s n) = rbind (slot_check s) (\<lambda>_. name_check n)"
| "pred_check_inner q (PRel a r b) = rbind (slot_check a) (\<lambda>_. slot_check b)"
| "pred_check_inner q (PAabbNear a b m) = rbind (slot_check a) (\<lambda>_. slot_check b)"
| "pred_check_inner q (PInPlace a b) = rbind (slot_check a) (\<lambda>_. slot_check b)"
| "pred_check_inner q (PRayHits s d m k) = slot_check s"
| "pred_check_inner q (PEqVerb v) = Inr ()"
| "pred_check_inner q (PSourceIs k) = Inr ()"
| "pred_check_inner q (PAgencyClaimed c) = Inr ()"
| "pred_check_inner q PSweptHitsOpaqueClosed = Inr ()"
| "pred_check_inner q (PRiteActive n) = name_check n"
| "pred_check_inner q (PInWindow n c) = name_check n"
| "pred_check_inner q (PBurning s) = slot_check s"
| "pred_check_inner q (POpaqueClosed s) = slot_check s"
| "pred_check_inner q (PIslandAwake s) = slot_check s"
| "pred_check_inner q (PSelfIs s) = slot_check s"
| "pred_check_inner q (PTargetIs s) = slot_check s"
| "pred_check_inner q (POtherIs s) = slot_check s"
| "pred_check_inner q (PSimLodIs s l) = slot_check s"
| "pred_check_inner q (PAnd a b) = rbind (pred_check_inner q a) (\<lambda>_. pred_check_inner q b)"
| "pred_check_inner q (POr a b) = rbind (pred_check_inner q a) (\<lambda>_. pred_check_inner q b)"
| "pred_check_inner q (PNot a) = pred_check_inner q a"
| "pred_check_inner q (PExistsRelated s r p) =
     (if q then Inl NestedQuantifier
      else rbind (slot_check s) (\<lambda>_. pred_check_inner True p))"
| "pred_check_inner q (PCountRelated s r p c n) =
     (if q then Inl NestedQuantifier
      else rbind (slot_check s) (\<lambda>_. pred_check_inner True p))"

definition pred_check :: "pred \<Rightarrow> ir_error + unit" where
  "pred_check p = pred_check_inner False p"

text \<open>
  Quantifier shapes.  \<open>quant_free\<close> is the grammar the check enforces under a quantifier;
  \<open>no_sugar_quant\<close> also excludes \<open>OpaqueClosed\<close>, whose expansion is a quantifier.
\<close>

fun quant_free :: "pred \<Rightarrow> bool" where
  "quant_free (PAnd a b) = (quant_free a \<and> quant_free b)"
| "quant_free (POr a b) = (quant_free a \<and> quant_free b)"
| "quant_free (PNot a) = quant_free a"
| "quant_free (PExistsRelated s r p) = False"
| "quant_free (PCountRelated s r p c n) = False"
| "quant_free p = True"

fun quant_flat :: "pred \<Rightarrow> bool" where
  "quant_flat (PAnd a b) = (quant_flat a \<and> quant_flat b)"
| "quant_flat (POr a b) = (quant_flat a \<and> quant_flat b)"
| "quant_flat (PNot a) = quant_flat a"
| "quant_flat (PExistsRelated s r p) = quant_free p"
| "quant_flat (PCountRelated s r p c n) = quant_free p"
| "quant_flat p = True"

fun mentions_opaque :: "pred \<Rightarrow> bool" where
  "mentions_opaque (POpaqueClosed s) = True"
| "mentions_opaque (PAnd a b) = (mentions_opaque a \<or> mentions_opaque b)"
| "mentions_opaque (POr a b) = (mentions_opaque a \<or> mentions_opaque b)"
| "mentions_opaque (PNot a) = mentions_opaque a"
| "mentions_opaque (PExistsRelated s r p) = mentions_opaque p"
| "mentions_opaque (PCountRelated s r p c n) = mentions_opaque p"
| "mentions_opaque p = False"

text \<open>No \<open>OpaqueClosed\<close> below a quantifier.\<close>

fun opaque_outside :: "pred \<Rightarrow> bool" where
  "opaque_outside (PAnd a b) = (opaque_outside a \<and> opaque_outside b)"
| "opaque_outside (POr a b) = (opaque_outside a \<and> opaque_outside b)"
| "opaque_outside (PNot a) = opaque_outside a"
| "opaque_outside (PExistsRelated s r p) = (\<not> mentions_opaque p)"
| "opaque_outside (PCountRelated s r p c n) = (\<not> mentions_opaque p)"
| "opaque_outside p = True"

lemma check_inner_quant_free: "is_ok (pred_check_inner True p) \<Longrightarrow> quant_free p"
  by (induction p) (auto simp: is_ok_iff rbind_Inr_iff)

lemma pred_check_quant_flat: "is_ok (pred_check p) \<Longrightarrow> quant_flat p"
  unfolding pred_check_def
proof (induction p)
  case (PExistsRelated s r p)
  then show ?case by (auto simp: is_ok_iff rbind_Inr_iff intro!: check_inner_quant_free)
next
  case (PCountRelated s r p c n)
  then show ?case by (auto simp: is_ok_iff rbind_Inr_iff intro!: check_inner_quant_free)
qed (auto simp: is_ok_iff rbind_Inr_iff)

end
