(* ===== verification/IrDecl.thy ===== *)
theory IrDecl
  imports IrPred CoreBody
begin

text \<open>
  The authoring declarations of \<open>klotho-ir/src/decl.rs\<close> and \<open>seed.rs\<close>: laws, affordances, rites,
  beats, the diffs of a document and its seed facts, with their validation.
\<close>

section \<open>Laws and affordances\<close>

record cost_decl =
  cost_res :: string
  cost_amount :: int

definition cost_check :: "cost_decl \<Rightarrow> ir_error + unit" where
  "cost_check c = name_check (cost_res c)"

datatype law_body =
    LbPred pred "cost_decl option"
  | LbRamp string int int int
  | LbSpread string int mm nat int
  | LbConserve string rel
  | LbCap pred nat "(rel \<times> slot) option"

fun law_body_check :: "law_body \<Rightarrow> ir_error + unit" where
  "law_body_check (LbPred must ought) =
     rbind (pred_check must) (\<lambda>_. case ought of Some c \<Rightarrow> cost_check c | None \<Rightarrow> Inr ())"
| "law_body_check (LbRamp res per_tick quantum cap) = name_check res"
| "law_body_check (LbSpread res per_tick near cap_global ignite_at) = name_check res"
| "law_body_check (LbConserve res over) = name_check res"
| "law_body_check (LbCap mark n require_rel) =
     rbind (pred_check mark) (\<lambda>_. case require_rel of Some (r, s) \<Rightarrow> slot_check s | None \<Rightarrow> Inr ())"

record law =
  law_ident :: string
  law_when :: pred
  law_body_of :: law_body

definition law_check :: "law \<Rightarrow> ir_error + unit" where
  "law_check l =
     rbind (name_check (law_ident l)) (\<lambda>_.
     rbind (pred_check (law_when l)) (\<lambda>_. law_body_check (law_body_of l)))"

text \<open>A loop of checks stops at the first error.\<close>

fun check_all :: "('a \<Rightarrow> ir_error + unit) \<Rightarrow> 'a list \<Rightarrow> ir_error + unit" where
  "check_all f [] = Inr ()"
| "check_all f (x # xs) = rbind (f x) (\<lambda>_. check_all f xs)"

record affordance =
  aff_ident :: string
  aff_requires :: "pred list"
  aff_grants :: "string list"
  aff_conflicts :: "string list"

definition affordance_check :: "affordance \<Rightarrow> ir_error + unit" where
  "affordance_check a =
     rbind (name_check (aff_ident a)) (\<lambda>_.
     rbind (check_all pred_check (aff_requires a)) (\<lambda>_.
       check_all name_check (aff_grants a @ aff_conflicts a)))"

section \<open>Rites\<close>

datatype status = Success | Fail

datatype bind_src = BindTarget | BindThis | BindRelated rel

datatype rite_op =
    Halt status
  | Guard pred nat
  | Spend string int nat
  | Wait nat "channel option"
  | Emit string
  | Branch pred nat nat
  | Bind bind_src
  | Setq slot string int
  | RelAdd slot rel slot
  | RelDel slot rel slot
  | Awake slot
  | Complete status
  | Spawn string
  | PhysReq ivec3 ivec3

fun rite_op_check :: "rite_op \<Rightarrow> ir_error + unit" where
  "rite_op_check (Halt s) = Inr ()"
| "rite_op_check (Wait t c) = Inr ()"
| "rite_op_check (Complete s) = Inr ()"
| "rite_op_check (Guard p f) = pred_check p"
| "rite_op_check (Branch p y n) = pred_check p"
| "rite_op_check (Spend n a f) = name_check n"
| "rite_op_check (Emit n) = name_check n"
| "rite_op_check (Spawn n) = name_check n"
| "rite_op_check (Bind b) = Inr ()"
| "rite_op_check (PhysReq l a) = Inr ()"
| "rite_op_check (Setq s n v) = rbind (slot_check s) (\<lambda>_. name_check n)"
| "rite_op_check (RelAdd a r b) = rbind (slot_check a) (\<lambda>_. slot_check b)"
| "rite_op_check (RelDel a r b) = rbind (slot_check a) (\<lambda>_. slot_check b)"
| "rite_op_check (Awake s) = slot_check s"

datatype rite_node = NodeOp rite_op | NodeLabeled nat rite_op

fun rite_node_check :: "rite_node \<Rightarrow> ir_error + unit" where
  "rite_node_check (NodeOp op) = rite_op_check op"
| "rite_node_check (NodeLabeled pc op) = rite_op_check op"

record rite_graph =
  rite_ident :: string
  cap_steps :: nat
  cap_ticks :: nat
  rite_entry :: nat
  rite_nodes :: "rite_node list"

definition rite_graph_check :: "rite_graph \<Rightarrow> ir_error + unit" where
  "rite_graph_check g =
     rbind (name_check (rite_ident g)) (\<lambda>_.
       if cap_steps g = 0 \<or> cap_ticks g = 0 then Inl InvalidRiteCap
       else check_all rite_node_check (rite_nodes g))"

section \<open>Documents\<close>

record beat =
  beat_ident :: string
  beat_notes :: string

definition beat_check :: "beat \<Rightarrow> ir_error + unit" where
  "beat_check b = name_check (beat_ident b)"

datatype canon_diff =
    AddLaw law
  | RetractLaw string string
  | AddAffordance affordance
  | AddRite rite_graph
  | RetractRite string string
  | AddBeat beat

definition retract_check :: "string \<Rightarrow> string \<Rightarrow> ir_error + unit" where
  "retract_check i reason = rbind (name_check i) (\<lambda>_. if reason = [] then Inl EmptyName else Inr ())"

fun canon_diff_check :: "canon_diff \<Rightarrow> ir_error + unit" where
  "canon_diff_check (AddLaw l) = law_check l"
| "canon_diff_check (RetractLaw i reason) = retract_check i reason"
| "canon_diff_check (RetractRite i reason) = retract_check i reason"
| "canon_diff_check (AddAffordance a) = affordance_check a"
| "canon_diff_check (AddRite r) = rite_graph_check r"
| "canon_diff_check (AddBeat b) = beat_check b"

section \<open>Seed facts\<close>

datatype seed_fact =
    SeedLocus string locus_kind
  | SeedRel string rel string
  | SeedQty string string int
  | SeedPhysics string body_physics
  | SeedContactTrack string contact_track
  | SeedPose string pose

fun seed_fact_check :: "seed_fact \<Rightarrow> ir_error + unit" where
  "seed_fact_check (SeedLocus n k) = name_check n"
| "seed_fact_check (SeedRel a r b) = rbind (name_check a) (\<lambda>_. name_check b)"
| "seed_fact_check (SeedQty s res v) = rbind (name_check s) (\<lambda>_. name_check res)"
| "seed_fact_check (SeedPose s p) = name_check s"
| "seed_fact_check (SeedContactTrack s t) = rbind (name_check s) (\<lambda>_.
     if contact_track_valid t then Inr () else Inl (IrParse (''invalid contact track for '' @ s)))"
| "seed_fact_check (SeedPhysics s b) = rbind (name_check s) (\<lambda>_.
     if body_valid b then Inr () else Inl (IrParse (''invalid physical configuration for '' @ s)))"

lemma check_all_ok: "is_ok (check_all f xs) \<longleftrightarrow> (\<forall>x \<in> set xs. is_ok (f x))"
  by (induction xs) (auto simp: is_ok_iff rbind_Inr_iff)

end
