(* ===== verification/CanonCompile.thy ===== *)
theory CanonCompile
  imports IrPred
begin

text \<open>
  \<open>klotho-canon/src/ast.rs\<close> and \<open>compile.rs\<close>: cooked slots and atoms, the predicate
  bytecode, the interner and the compiler.  The interner's maps are ordered maps from names to
  ids.  \<open>debug_assert!\<close> is inactive in release builds and is not modelled; the two
  \<open>unreachable!\<close> arms are the error \<open>CookPanic\<close>.
\<close>

section \<open>Bytecode\<close>

datatype cooked_slot = CThis | CTarget | COther | CPin nat

datatype atom =
    AAffordance cooked_slot nat
  | ARel cooked_slot rel cooked_slot
  | AQty cooked_slot nat comparison int
  | AEqVerb verb
  | ARiteActive nat
  | AAabbNear cooked_slot cooked_slot mm
  | AInWindow nat channel
  | AKnows cooked_slot nat
  | ASourceIs source_kind
  | AAgencyClaimed channel
  | ASweptHitsOpaqueClosed
  | AIslandAwake cooked_slot
  | ASelfIs cooked_slot
  | ATargetIs cooked_slot
  | AOtherIs cooked_slot
  | ARayHits cooked_slot ivec3 mm byte
  | ASimLodIs cooked_slot sim_lod
  | AInPlace cooked_slot cooked_slot

datatype pred_op = OpPushAtom nat | OpAnd | OpOr | OpNot | OpExistsRelated | OpCountRelated | OpHalt

record related_scan =
  scan_of :: cooked_slot
  scan_rel :: rel
  scan_pred :: "pred_op list"
  scan_count :: "(comparison \<times> int) option"

record pred_program =
  prog_chunk :: "pred_op list"
  prog_atoms :: "atom list"
  prog_scans :: "related_scan list"

definition pred_ops_per_eval :: nat where
  "pred_ops_per_eval = 64"

definition related_scan_cap :: nat where
  "related_scan_cap = 64"

definition ignite :: int where
  "ignite = 400"

section \<open>Cook errors and the interner\<close>

datatype cook_error =
    MixedLabeling
  | DuplicatePc nat
  | MissingEntry nat
  | MissingTarget nat nat
  | Unreachable nat
  | FallOff nat
  | Cycle
  | UnboundName string
  | InvalidDoc string
  | DuplicateId string
  | UnknownRetract string
  | PredTooLarge
  | TableFull
  | Contradiction string
  | LockableNeedsKeyOrRite
  | CookPanic

record interner =
  affordances :: "(string, nat) btree"
  resources :: "(string, nat) btree"
  rites :: "(string, nat) btree"
  facts :: "(string, nat) btree"
  pins :: "(string, nat) btree"
  pin_names :: "string list"
  pin_sigils :: "sigil option list"
  strict_pins :: bool

definition interner_new :: interner where
  "interner_new = \<lparr>affordances = [], resources = [], rites = [], facts = [], pins = [],
     pin_names = [], pin_sigils = [], strict_pins = False\<rparr>"

definition u16_id :: "nat \<Rightarrow> cook_error + nat" where
  "u16_id n = (if n < 65536 then Inr n else Inl TableFull)"

definition u8_id :: "nat \<Rightarrow> cook_error + nat" where
  "u8_id n = (if n < 256 then Inr n else Inl TableFull)"

text \<open>The shape the four \<open>intern_*\<close> methods share: look the name up, else take the next id.\<close>

definition intern_in ::
    "(nat \<Rightarrow> cook_error + nat) \<Rightarrow> string \<Rightarrow> (string, nat) btree \<Rightarrow> cook_error + nat \<times> (string, nat) btree" where
  "intern_in mk n m =
     (case bt_get m n of
        Some i \<Rightarrow> Inr (i, m)
      | None \<Rightarrow> rbind (mk (length m)) (\<lambda>i. Inr (i, bt_insert n i m)))"

definition intern_affordance :: "string \<Rightarrow> interner \<Rightarrow> cook_error + nat \<times> interner" where
  "intern_affordance n I =
     rbind (intern_in u16_id n (affordances I)) (\<lambda>(i, m). Inr (i, I\<lparr>affordances := m\<rparr>))"

definition intern_resource :: "string \<Rightarrow> interner \<Rightarrow> cook_error + nat \<times> interner" where
  "intern_resource n I =
     rbind (intern_in u8_id n (resources I)) (\<lambda>(i, m). Inr (i, I\<lparr>resources := m\<rparr>))"

definition intern_rite :: "string \<Rightarrow> interner \<Rightarrow> cook_error + nat \<times> interner" where
  "intern_rite n I =
     rbind (intern_in u16_id n (rites I)) (\<lambda>(i, m). Inr (i, I\<lparr>rites := m\<rparr>))"

definition intern_fact :: "string \<Rightarrow> interner \<Rightarrow> cook_error + nat \<times> interner" where
  "intern_fact n I =
     rbind (intern_in u16_id n (facts I)) (\<lambda>(i, m). Inr (i, I\<lparr>facts := m\<rparr>))"

fun cook_slot :: "slot \<Rightarrow> interner \<Rightarrow> cook_error + cooked_slot \<times> interner" where
  "cook_slot This I = Inr (CThis, I)"
| "cook_slot Target I = Inr (CTarget, I)"
| "cook_slot Other I = Inr (COther, I)"
| "cook_slot (NameSlot n) I =
     (case bt_get (pins I) n of
        Some i \<Rightarrow> Inr (CPin i, I)
      | None \<Rightarrow>
          if strict_pins I then Inl (UnboundName n)
          else rbind (u16_id (length (pin_names I)))
            (\<lambda>i. Inr (CPin i, I\<lparr>pins := bt_insert n i (pins I),
               pin_names := pin_names I @ [n], pin_sigils := pin_sigils I @ [None]\<rparr>)))"

section \<open>Desugaring\<close>

fun desugar :: "pred \<Rightarrow> pred" where
  "desugar (PBurning s) = PQty s ''heat'' Ge ignite"
| "desugar (POpaqueClosed s) =
     PAnd (PAffordance s ''Opaque'') (PExistsRelated s LockedBy (POtherIs Other))"
| "desugar (PAnd a b) = PAnd (desugar a) (desugar b)"
| "desugar (POr a b) = POr (desugar a) (desugar b)"
| "desugar (PNot a) = PNot (desugar a)"
| "desugar (PExistsRelated s r p) = PExistsRelated s r (desugar p)"
| "desugar (PCountRelated s r p c n) = PCountRelated s r (desugar p) c n"
| "desugar p = p"

section \<open>Emission\<close>

definition cook_slot2 ::
    "slot \<Rightarrow> slot \<Rightarrow> (cooked_slot \<Rightarrow> cooked_slot \<Rightarrow> atom) \<Rightarrow> interner \<Rightarrow> cook_error + atom \<times> interner" where
  "cook_slot2 a b k I =
     rbind (cook_slot a I) (\<lambda>(x, I1). rbind (cook_slot b I1) (\<lambda>(y, I2). Inr (k x y, I2)))"

definition cook_slot1 ::
    "slot \<Rightarrow> (cooked_slot \<Rightarrow> atom) \<Rightarrow> interner \<Rightarrow> cook_error + atom \<times> interner" where
  "cook_slot1 s k I = rbind (cook_slot s I) (\<lambda>(x, I1). Inr (k x, I1))"

fun cook_atom :: "pred \<Rightarrow> interner \<Rightarrow> cook_error + atom \<times> interner" where
  "cook_atom (PAffordance s n) I =
     rbind (cook_slot s I) (\<lambda>(x, I1). rbind (intern_affordance n I1) (\<lambda>(i, I2). Inr (AAffordance x i, I2)))"
| "cook_atom (PRel a r b) I = cook_slot2 a b (\<lambda>x y. ARel x r y) I"
| "cook_atom (PQty s n c v) I =
     rbind (cook_slot s I) (\<lambda>(x, I1). rbind (intern_resource n I1) (\<lambda>(i, I2). Inr (AQty x i c v, I2)))"
| "cook_atom (PEqVerb v) I = Inr (AEqVerb v, I)"
| "cook_atom (PRiteActive n) I = rbind (intern_rite n I) (\<lambda>(i, I1). Inr (ARiteActive i, I1))"
| "cook_atom (PAabbNear a b m) I = cook_slot2 a b (\<lambda>x y. AAabbNear x y m) I"
| "cook_atom (PInWindow n ch) I = rbind (intern_rite n I) (\<lambda>(i, I1). Inr (AInWindow i ch, I1))"
| "cook_atom (PKnows s n) I =
     rbind (cook_slot s I) (\<lambda>(x, I1). rbind (intern_fact n I1) (\<lambda>(i, I2). Inr (AKnows x i, I2)))"
| "cook_atom (PSourceIs k) I = Inr (ASourceIs k, I)"
| "cook_atom (PAgencyClaimed ch) I = Inr (AAgencyClaimed ch, I)"
| "cook_atom PSweptHitsOpaqueClosed I = Inr (ASweptHitsOpaqueClosed, I)"
| "cook_atom (PIslandAwake s) I = cook_slot1 s AIslandAwake I"
| "cook_atom (PSelfIs s) I = cook_slot1 s ASelfIs I"
| "cook_atom (PTargetIs s) I = cook_slot1 s ATargetIs I"
| "cook_atom (POtherIs s) I = cook_slot1 s AOtherIs I"
| "cook_atom (PRayHits s d m k) I = cook_slot1 s (\<lambda>x. ARayHits x d m k) I"
| "cook_atom (PSimLodIs s l) I = cook_slot1 s (\<lambda>x. ASimLodIs x l) I"
| "cook_atom (PInPlace a b) I = cook_slot2 a b AInPlace I"
| "cook_atom _ I = Inl CookPanic"

definition intern_atom :: "atom \<Rightarrow> atom list \<Rightarrow> nat \<times> atom list" where
  "intern_atom a atoms =
     (case find_index (\<lambda>x. x = a) atoms of
        Some i \<Rightarrow> (i mod 65536, atoms)
      | None \<Rightarrow> (length atoms mod 65536, atoms @ [a]))"

record emit_state =
  es_intern :: interner
  es_atoms :: "atom list"
  es_scans :: "related_scan list"
  es_ops :: "pred_op list"

definition push_op :: "pred_op \<Rightarrow> emit_state \<Rightarrow> emit_state" where
  "push_op op st = st\<lparr>es_ops := es_ops st @ [op]\<rparr>"

definition check_len :: "pred_op list \<Rightarrow> cook_error + unit" where
  "check_len ops = (if length ops > pred_ops_per_eval then Inl PredTooLarge else Inr ())"

definition emit_atom :: "pred \<Rightarrow> emit_state \<Rightarrow> cook_error + emit_state" where
  "emit_atom p st =
     rbind (cook_atom p (es_intern st)) (\<lambda>(a, I).
       let (i, atoms) = intern_atom a (es_atoms st)
       in Inr (push_op (OpPushAtom i) (st\<lparr>es_intern := I, es_atoms := atoms\<rparr>)))"

text \<open>
  The tail of a quantifier: the nested chunk is closed by \<open>Halt\<close> and length-checked, its own
  scans (the code's \<open>dummy_scans\<close>) are dropped, and the origin slot is cooked last.
\<close>

definition emit_scan ::
    "slot \<Rightarrow> rel \<Rightarrow> (comparison \<times> int) option \<Rightarrow> pred_op \<Rightarrow> emit_state \<Rightarrow> emit_state
      \<Rightarrow> cook_error + emit_state" where
  "emit_scan s r cnt op st nested =
     rbind (check_len (es_ops nested @ [OpHalt])) (\<lambda>_.
     rbind (cook_slot s (es_intern nested)) (\<lambda>(x, I).
       Inr (push_op op \<lparr>es_intern = I, es_atoms = es_atoms nested,
         es_scans = es_scans st @ [\<lparr>scan_of = x, scan_rel = r,
            scan_pred = es_ops nested @ [OpHalt], scan_count = cnt\<rparr>],
         es_ops = es_ops st\<rparr>)))"

fun emit :: "pred \<Rightarrow> emit_state \<Rightarrow> cook_error + emit_state" where
  "emit (PAnd a b) st =
     rbind (emit a st) (\<lambda>st1. rbind (emit b st1) (\<lambda>st2. Inr (push_op OpAnd st2)))"
| "emit (POr a b) st =
     rbind (emit a st) (\<lambda>st1. rbind (emit b st1) (\<lambda>st2. Inr (push_op OpOr st2)))"
| "emit (PNot a) st = rbind (emit a st) (\<lambda>st1. Inr (push_op OpNot st1))"
| "emit (PExistsRelated s r p) st =
     rbind (emit p (st\<lparr>es_scans := [], es_ops := []\<rparr>))
       (\<lambda>nested. emit_scan s r None OpExistsRelated st nested)"
| "emit (PCountRelated s r p c n) st =
     rbind (emit p (st\<lparr>es_scans := [], es_ops := []\<rparr>))
       (\<lambda>nested. emit_scan s r (Some (c, n)) OpCountRelated st nested)"
| "emit (PBurning s) st = Inl CookPanic"
| "emit (POpaqueClosed s) st = Inl CookPanic"
| "emit p st = emit_atom p st"

definition compile_pred_with :: "pred \<Rightarrow> interner \<Rightarrow> cook_error + pred_program \<times> interner" where
  "compile_pred_with p I =
     rbind (emit (desugar p) \<lparr>es_intern = I, es_atoms = [], es_scans = [], es_ops = []\<rparr>) (\<lambda>st.
     rbind (check_len (es_ops st @ [OpHalt])) (\<lambda>_.
       Inr (\<lparr>prog_chunk = es_ops st @ [OpHalt], prog_atoms = es_atoms st,
             prog_scans = es_scans st\<rparr>, es_intern st)))"

definition compile_pred :: "pred \<Rightarrow> cook_error + pred_program" where
  "compile_pred p = rbind (compile_pred_with p interner_new) (\<lambda>(prog, I). Inr prog)"

section \<open>The interner only grows\<close>

text \<open>
  \<open>intern_le I J\<close>: every name of \<open>I\<close> keeps its id in \<open>J\<close>.  Every cooking step extends
  the interner in this sense, so an id fixed by one step stays right for the whole cook.
\<close>

definition map_le_bt :: "(string, nat) btree \<Rightarrow> (string, nat) btree \<Rightarrow> bool" where
  "map_le_bt m n \<longleftrightarrow> (\<forall>k v. bt_get m k = Some v \<longrightarrow> bt_get n k = Some v)"

definition intern_le :: "interner \<Rightarrow> interner \<Rightarrow> bool" where
  "intern_le I J \<longleftrightarrow>
     map_le_bt (affordances I) (affordances J) \<and> map_le_bt (resources I) (resources J)
     \<and> map_le_bt (rites I) (rites J) \<and> map_le_bt (facts I) (facts J)
     \<and> map_le_bt (pins I) (pins J)"

lemma map_le_bt_refl [simp]: "map_le_bt m m"
  by (simp add: map_le_bt_def)

lemma map_le_bt_trans: "map_le_bt a b \<Longrightarrow> map_le_bt b c \<Longrightarrow> map_le_bt a c"
  by (simp add: map_le_bt_def)

lemma map_le_btD: "map_le_bt m n \<Longrightarrow> bt_get m k = Some v \<Longrightarrow> bt_get n k = Some v"
  by (simp add: map_le_bt_def)

lemma intern_le_refl [simp]: "intern_le I I"
  by (simp add: intern_le_def)

lemma intern_le_trans [trans]: "intern_le I J \<Longrightarrow> intern_le J K \<Longrightarrow> intern_le I K"
  by (auto simp: intern_le_def intro: map_le_bt_trans)

lemma intern_in_le:
  assumes "intern_in mk n m = Inr (i, m')"
  shows "map_le_bt m m'" and "bt_get m' n = Some i"
  using assms
  by (auto simp: intern_in_def map_le_bt_def bt_get_insert rbind_Inr_iff split: option.splits)

lemma intern_name_le:
  "intern_affordance n I = Inr (i, I') \<Longrightarrow> intern_le I I' \<and> bt_get (affordances I') n = Some i"
  "intern_resource n I = Inr (i, I') \<Longrightarrow> intern_le I I' \<and> bt_get (resources I') n = Some i"
  "intern_rite n I = Inr (i, I') \<Longrightarrow> intern_le I I' \<and> bt_get (rites I') n = Some i"
  "intern_fact n I = Inr (i, I') \<Longrightarrow> intern_le I I' \<and> bt_get (facts I') n = Some i"
  by (auto simp: intern_affordance_def intern_resource_def intern_rite_def intern_fact_def
      intern_le_def rbind_Inr_iff dest: intern_in_le)

lemma cook_slot_le: "cook_slot s I = Inr (x, I') \<Longrightarrow> intern_le I I'"
  by (cases s) (auto simp: intern_le_def map_le_bt_def bt_get_insert rbind_Inr_iff
      split: option.splits if_splits)

lemma cook_slot_pin: "cook_slot (NameSlot n) I = Inr (x, I') \<Longrightarrow> \<exists>i. x = CPin i \<and> bt_get (pins I') n = Some i"
  by (auto simp: bt_get_insert rbind_Inr_iff split: option.splits if_splits)

text \<open>Dense ids: a table of \<open>n\<close> names uses exactly the ids below \<open>n\<close>, each once.\<close>

definition dense :: "(string, nat) btree \<Rightarrow> bool" where
  "dense m \<longleftrightarrow> bt_sorted m \<and> distinct (map snd m) \<and> set (map snd m) = {..<length m}"

lemma set_bt_insert_new:
  "bt_get m k = None \<Longrightarrow> mset (map snd (bt_insert k v m)) = add_mset v (mset (map snd m))"
  by (induction k v m rule: bt_insert.induct) (auto split: if_splits)

lemma dense_insert:
  assumes "dense m" and "bt_get m k = None"
  shows "dense (bt_insert k (length m) m)"
proof -
  have ms: "mset (map snd (bt_insert k (length m) m)) = mset (map snd m @ [length m])"
    using set_bt_insert_new[OF assms(2)] by simp
  have "distinct (map snd m @ [length m])" "set (map snd m @ [length m]) = {..<Suc (length m)}"
    using assms(1) by (auto simp: dense_def)
  then show ?thesis
    using assms mset_eq_imp_distinct_iff[OF ms] mset_eq_setD[OF ms]
    by (auto simp: dense_def length_bt_insert)
qed

lemma intern_in_dense:
  assumes "dense m" and "intern_in mk n m = Inr (i, m')" and "\<And>k j. mk k = Inr j \<Longrightarrow> j = k"
  shows "dense m'"
  using assms(1,2) assms(3)[of "length m"]
  by (auto simp: intern_in_def rbind_Inr_iff dense_insert split: option.splits)

end
