(* ===== verification/CanonEval.thy ===== *)
theory CanonEval
  imports CanonCompile
begin

text \<open>
  \<open>klotho-canon/src/eval.rs\<close>: the predicate interpreter, its two budgets and the store it
  reads, and the in-memory store.  The trait \<open>PredStore\<close> is the record \<open>pred_store\<close> of
  its methods; \<open>pred_store_contract\<close> of CanonStore is its contract.  Nested related-scans recurse in the code;
  the model gives the recursion a depth argument, started at the per-evaluation budget.
  Every level of nesting has charged at least one operation, so the depth is never the
  reason to stop (\<open>eval_depth_enough\<close>).
\<close>

section \<open>The store interface\<close>

record pred_store =
  has_affordance :: "sigil \<Rightarrow> nat \<Rightarrow> bool"
  has_rel :: "sigil \<Rightarrow> rel \<Rightarrow> sigil \<Rightarrow> bool"
  related :: "sigil \<Rightarrow> rel \<Rightarrow> sigil list"
  qty :: "sigil \<Rightarrow> nat \<Rightarrow> int"
  aabb_at :: "sigil \<Rightarrow> aabb option"
  knows_fact :: "sigil \<Rightarrow> nat \<Rightarrow> bool"
  rite_active :: "sigil \<Rightarrow> nat \<Rightarrow> bool"
  in_window :: "nat \<Rightarrow> channel \<Rightarrow> bool"
  sleep_ticks :: "sigil \<Rightarrow> nat option"
  sim_lod_of :: "sigil \<Rightarrow> sim_lod"

record eval_ctx =
  store :: pred_store
  ctx_this :: sigil
  ctx_target :: "sigil option"
  ctx_pins :: "sigil option list"
  ctx_verb :: verb
  ctx_source :: source_kind
  ctx_claimed :: "channel list"
  ctx_swept :: bool

section \<open>Integer distance of boxes\<close>

definition sat_sub32 :: "int \<Rightarrow> int \<Rightarrow> int" where
  "sat_sub32 a b = sat32 (a - b)"

definition axis_gap :: "int \<Rightarrow> int \<Rightarrow> int \<Rightarrow> int \<Rightarrow> int" where
  "axis_gap amin amax bmin' bmax' =
     (if amax < bmin' then sat_sub32 bmin' amax
      else if bmax' < amin then sat_sub32 amin bmax'
      else 0)"

definition aabb_near :: "aabb \<Rightarrow> aabb \<Rightarrow> mm \<Rightarrow> bool" where
  "aabb_near a b m \<longleftrightarrow>
     (if aabb_intersects a b then True
      else
        let dx = axis_gap (vx (bmin a)) (vx (bmax a)) (vx (bmin b)) (vx (bmax b));
            dy = axis_gap (vy (bmin a)) (vy (bmax a)) (vy (bmin b)) (vy (bmax b));
            dz = axis_gap (vz (bmin a)) (vz (bmax a)) (vz (bmin b)) (vz (bmax b));
            d2 = wrap64 (wrap64 (dx * dx + dy * dy) + dz * dz)
        in d2 \<le> m * m)"

definition cmp_i32 :: "int \<Rightarrow> comparison \<Rightarrow> int \<Rightarrow> bool" where
  "cmp_i32 a c b =
     (case c of Lt \<Rightarrow> a < b | Le \<Rightarrow> a \<le> b | Eq \<Rightarrow> a = b | Ge \<Rightarrow> a \<ge> b | Gt \<Rightarrow> a > b)"

section \<open>The interpreter\<close>

definition resolve :: "cooked_slot \<Rightarrow> eval_ctx \<Rightarrow> sigil option \<Rightarrow> sigil option" where
  "resolve s ctx other =
     (case s of
        CThis \<Rightarrow> Some (ctx_this ctx)
      | CTarget \<Rightarrow> ctx_target ctx
      | COther \<Rightarrow> other
      | CPin i \<Rightarrow> (case nth_opt (ctx_pins ctx) i of Some p \<Rightarrow> p | None \<Rightarrow> None))"

text \<open>\<open>map(f).unwrap_or(false)\<close> on one and on two resolved slots.\<close>

definition on1 :: "sigil option \<Rightarrow> (sigil \<Rightarrow> bool) \<Rightarrow> bool" where
  "on1 x f = (case x of Some s \<Rightarrow> f s | None \<Rightarrow> False)"

definition on2 :: "sigil option \<Rightarrow> sigil option \<Rightarrow> (sigil \<Rightarrow> sigil \<Rightarrow> bool) \<Rightarrow> bool" where
  "on2 x y f = (case x of Some s \<Rightarrow> (case y of Some t \<Rightarrow> f s t | None \<Rightarrow> False) | None \<Rightarrow> False)"

definition eval_atom :: "atom \<Rightarrow> eval_ctx \<Rightarrow> sigil option \<Rightarrow> bool" where
  "eval_atom a ctx other =
     (let res = (\<lambda>s. resolve s ctx other); st = store ctx in
      case a of
        AAffordance s i \<Rightarrow> on1 (res s) (\<lambda>x. has_affordance st x i)
      | ARel p r q \<Rightarrow> on2 (res p) (res q) (\<lambda>x y. has_rel st x r y)
      | AQty s i c n \<Rightarrow> on1 (res s) (\<lambda>x. cmp_i32 (qty st x i) c n)
      | AEqVerb v \<Rightarrow> ctx_verb ctx = v
      | ARiteActive i \<Rightarrow> rite_active st (ctx_this ctx) i
      | AAabbNear p q m \<Rightarrow> on2 (res p) (res q)
          (\<lambda>x y. case aabb_at st x of
             Some pa \<Rightarrow> (case aabb_at st y of Some pb \<Rightarrow> aabb_near pa pb m | None \<Rightarrow> False)
           | None \<Rightarrow> False)
      | AInWindow i ch \<Rightarrow> in_window st i ch
      | AKnows s i \<Rightarrow> on1 (res s) (\<lambda>x. knows_fact st x i)
      | ASourceIs k \<Rightarrow> ctx_source ctx = k
      | AAgencyClaimed ch \<Rightarrow> ch \<in> set (ctx_claimed ctx)
      | ASweptHitsOpaqueClosed \<Rightarrow> ctx_swept ctx
      | AIslandAwake s \<Rightarrow> on1 (res s) (\<lambda>x. sleep_ticks st x = Some 0)
      | ASelfIs s \<Rightarrow> res s = Some (ctx_this ctx)
      | ATargetIs s \<Rightarrow> ctx_target ctx \<noteq> None \<and> res s = ctx_target ctx
      | AOtherIs s \<Rightarrow> other \<noteq> None \<and> res s = other
      | ARayHits s d m k \<Rightarrow> False
      | ASimLodIs s l \<Rightarrow> on1 (res s) (\<lambda>x. sim_lod_of st x = l)
      | AInPlace p q \<Rightarrow> on2 (res p) (res q) (\<lambda>x y. has_rel st x In y))"

fun pop :: "bool list \<Rightarrow> bool" where
  "pop [] = False"
| "pop (b # bs) = b"

fun popped :: "bool list \<Rightarrow> bool list" where
  "popped [] = []"
| "popped (b # bs) = bs"

type_synonym 'a eval_result = "(reject_reason + 'a) \<times> nat \<times> nat"

text \<open>
  \<open>eval_ops\<close> is the loop of \<open>eval_chunk\<close> over the remaining ops; \<open>t\<close> and \<open>e\<close> are the
  per-tick and per-evaluation budgets, returned as the code leaves them.
\<close>

function (sequential) eval_ops ::
    "nat \<Rightarrow> pred_program \<Rightarrow> eval_ctx \<Rightarrow> sigil option \<Rightarrow> pred_op list \<Rightarrow> bool list \<Rightarrow> nat \<Rightarrow> nat \<Rightarrow> nat
      \<Rightarrow> bool eval_result"
  and eval_scan ::
    "nat \<Rightarrow> pred_program \<Rightarrow> eval_ctx \<Rightarrow> sigil option \<Rightarrow> related_scan \<Rightarrow> nat \<Rightarrow> nat \<Rightarrow> bool eval_result"
  and scan_neigh ::
    "nat \<Rightarrow> pred_program \<Rightarrow> eval_ctx \<Rightarrow> pred_op list \<Rightarrow> sigil list \<Rightarrow> int \<Rightarrow> nat \<Rightarrow> nat \<Rightarrow> int eval_result"
where
  "eval_ops d prog ctx other [] stack pc t e = (Inr (pop stack), t, e)"
| "eval_ops d prog ctx other (op # ops) stack pc t e =
     (if t = 0 \<or> e = 0 then (Inl RBudget, t, e)
      else (case op of
        OpPushAtom i \<Rightarrow>
          (case nth_opt (prog_atoms prog) i of
             Some a \<Rightarrow> eval_ops d prog ctx other ops (eval_atom a ctx other # stack) pc (t - 1) (e - 1)
           | None \<Rightarrow> eval_ops d prog ctx other ops (False # stack) pc (t - 1) (e - 1))
      | OpAnd \<Rightarrow>
          (let b = pop stack; s1 = popped stack; a = pop s1
           in eval_ops d prog ctx other ops ((a \<and> b) # popped s1) pc (t - 1) (e - 1))
      | OpOr \<Rightarrow>
          (let b = pop stack; s1 = popped stack; a = pop s1
           in eval_ops d prog ctx other ops ((a \<or> b) # popped s1) pc (t - 1) (e - 1))
      | OpNot \<Rightarrow>
          eval_ops d prog ctx other ops ((\<not> pop stack) # popped stack) pc (t - 1) (e - 1)
      | OpHalt \<Rightarrow> (Inr (pop stack), t - 1, e - 1)
      | _ \<Rightarrow>
          (case nth_opt (prog_scans prog) pc of
             None \<Rightarrow> eval_ops d prog ctx other ops (False # stack) pc (t - 1) (e - 1)
           | Some sc \<Rightarrow>
               (case eval_scan d prog ctx other sc (t - 1) (e - 1) of
                  (Inl r, t', e') \<Rightarrow> (Inl r, t', e')
                | (Inr b, t', e') \<Rightarrow> eval_ops d prog ctx other ops (b # stack) (Suc pc) t' e'))))"
| "eval_scan 0 prog ctx other sc t e = (Inl RBudget, t, e)"
| "eval_scan (Suc d) prog ctx other sc t e =
     (case resolve (scan_of sc) ctx other of
        None \<Rightarrow> (Inr False, t, e)
      | Some x \<Rightarrow>
          (case scan_neigh d prog ctx (scan_pred sc)
              (take related_scan_cap (related (store ctx) x (scan_rel sc))) 0 t e of
             (Inl r, t', e') \<Rightarrow> (Inl r, t', e')
           | (Inr hits, t', e') \<Rightarrow>
               (Inr (case scan_count sc of None \<Rightarrow> hits > 0 | Some (c, n) \<Rightarrow> cmp_i32 hits c n), t', e')))"
| "scan_neigh d prog ctx chunk [] hits t e = (Inr hits, t, e)"
| "scan_neigh d prog ctx chunk (x # xs) hits t e =
     (case eval_ops d prog ctx (Some x) chunk [] 0 t e of
        (Inl r, t', e') \<Rightarrow> (Inl r, t', e')
      | (Inr b, t', e') \<Rightarrow> scan_neigh d prog ctx chunk xs (if b then sat32 (hits + 1) else hits) t' e')"
  by pat_completeness auto
termination
  by (relation "measures
       [\<lambda>x. case x of Inl (d, _) \<Rightarrow> 2 * d | Inr (Inl (d, _)) \<Rightarrow> 2 * d | Inr (Inr (d, _)) \<Rightarrow> 2 * d + 1,
        \<lambda>x. case x of Inl (_, _, _, _, ops, _) \<Rightarrow> length ops | Inr (Inl _) \<Rightarrow> 0
             | Inr (Inr (_, _, _, _, ns, _)) \<Rightarrow> length ns]") auto

definition eval_pred :: "pred_program \<Rightarrow> eval_ctx \<Rightarrow> nat \<Rightarrow> (reject_reason + bool) \<times> nat" where
  "eval_pred prog ctx tick_ops =
     (let (r, t, e) = eval_ops pred_ops_per_eval prog ctx None (prog_chunk prog) [] 0
        tick_ops pred_ops_per_eval
      in (r, t))"

end
