(* ===== verification/CanonCorrect.thy ===== *)
theory CanonCorrect
  imports CanonEval
begin

text \<open>
  The predicate compiler is correct: evaluating the bytecode of a predicate computes its
  denotation, and the operations charged are its cost.  \<open>sem\<close> and \<open>cost\<close> are the
  specification, by recursion on the authoring AST with names read through the interner.
\<close>

section \<open>Denotation and cost\<close>

definition sem_slot :: "interner \<Rightarrow> eval_ctx \<Rightarrow> sigil option \<Rightarrow> slot \<Rightarrow> sigil option" where
  "sem_slot I ctx other s =
     (case s of
        This \<Rightarrow> Some (ctx_this ctx)
      | Target \<Rightarrow> ctx_target ctx
      | Other \<Rightarrow> other
      | NameSlot n \<Rightarrow>
          (case bt_get (pins I) n of
             Some i \<Rightarrow> (case nth_opt (ctx_pins ctx) i of Some p \<Rightarrow> p | None \<Rightarrow> None)
           | None \<Rightarrow> None))"

definition with_id :: "(string, nat) btree \<Rightarrow> string \<Rightarrow> (nat \<Rightarrow> bool) \<Rightarrow> bool" where
  "with_id m n f = (case bt_get m n of Some i \<Rightarrow> f i | None \<Rightarrow> False)"

definition neighbours :: "eval_ctx \<Rightarrow> rel \<Rightarrow> sigil \<Rightarrow> sigil list" where
  "neighbours ctx r x = take related_scan_cap (related (store ctx) x r)"

fun sem :: "interner \<Rightarrow> eval_ctx \<Rightarrow> sigil option \<Rightarrow> pred \<Rightarrow> bool" where
  "sem I ctx oth (PAffordance s n) =
     on1 (sem_slot I ctx oth s) (\<lambda>x. with_id (affordances I) n (has_affordance (store ctx) x))"
| "sem I ctx oth (PRel a r b) =
     on2 (sem_slot I ctx oth a) (sem_slot I ctx oth b) (\<lambda>x y. has_rel (store ctx) x r y)"
| "sem I ctx oth (PQty s n c v) =
     on1 (sem_slot I ctx oth s) (\<lambda>x. with_id (resources I) n (\<lambda>i. cmp_i32 (qty (store ctx) x i) c v))"
| "sem I ctx oth (PEqVerb v) = (ctx_verb ctx = v)"
| "sem I ctx oth (PRiteActive n) = with_id (rites I) n (rite_active (store ctx) (ctx_this ctx))"
| "sem I ctx oth (PAabbNear a b m) =
     on2 (sem_slot I ctx oth a) (sem_slot I ctx oth b)
       (\<lambda>x y. case aabb_at (store ctx) x of
          Some pa \<Rightarrow> (case aabb_at (store ctx) y of Some pb \<Rightarrow> aabb_near pa pb m | None \<Rightarrow> False)
        | None \<Rightarrow> False)"
| "sem I ctx oth (PInWindow n ch) = with_id (rites I) n (\<lambda>i. in_window (store ctx) i ch)"
| "sem I ctx oth (PKnows s n) =
     on1 (sem_slot I ctx oth s) (\<lambda>x. with_id (facts I) n (knows_fact (store ctx) x))"
| "sem I ctx oth (PSourceIs k) = (ctx_source ctx = k)"
| "sem I ctx oth (PAgencyClaimed ch) = (ch \<in> set (ctx_claimed ctx))"
| "sem I ctx oth (PBurning s) =
     on1 (sem_slot I ctx oth s)
       (\<lambda>x. with_id (resources I) ''heat'' (\<lambda>i. qty (store ctx) x i \<ge> ignite))"
| "sem I ctx oth (POpaqueClosed s) =
     on1 (sem_slot I ctx oth s)
       (\<lambda>x. with_id (affordances I) ''Opaque'' (has_affordance (store ctx) x)
          \<and> related (store ctx) x LockedBy \<noteq> [])"
| "sem I ctx oth PSweptHitsOpaqueClosed = ctx_swept ctx"
| "sem I ctx oth (PIslandAwake s) =
     on1 (sem_slot I ctx oth s) (\<lambda>x. sleep_ticks (store ctx) x = Some 0)"
| "sem I ctx oth (PSelfIs s) = (sem_slot I ctx oth s = Some (ctx_this ctx))"
| "sem I ctx oth (PTargetIs s) = (ctx_target ctx \<noteq> None \<and> sem_slot I ctx oth s = ctx_target ctx)"
| "sem I ctx oth (POtherIs s) = (oth \<noteq> None \<and> sem_slot I ctx oth s = oth)"
| "sem I ctx oth (PRayHits s d m k) = False"
| "sem I ctx oth (PSimLodIs s l) =
     on1 (sem_slot I ctx oth s) (\<lambda>x. sim_lod_of (store ctx) x = l)"
| "sem I ctx oth (PInPlace a b) =
     on2 (sem_slot I ctx oth a) (sem_slot I ctx oth b) (\<lambda>x y. has_rel (store ctx) x In y)"
| "sem I ctx oth (PAnd a b) = (sem I ctx oth a \<and> sem I ctx oth b)"
| "sem I ctx oth (POr a b) = (sem I ctx oth a \<or> sem I ctx oth b)"
| "sem I ctx oth (PNot a) = (\<not> sem I ctx oth a)"
| "sem I ctx oth (PExistsRelated s r p) =
     on1 (sem_slot I ctx oth s) (\<lambda>x. \<exists>y \<in> set (neighbours ctx r x). sem I ctx (Some y) p)"
| "sem I ctx oth (PCountRelated s r p c n) =
     on1 (sem_slot I ctx oth s)
       (\<lambda>x. cmp_i32 (int (length (filter (\<lambda>y. sem I ctx (Some y) p) (neighbours ctx r x)))) c n)"

text \<open>Operations charged, the closing \<open>Halt\<close> of the whole program not included.\<close>

definition scan_cost :: "interner \<Rightarrow> eval_ctx \<Rightarrow> sigil option \<Rightarrow> slot \<Rightarrow> rel \<Rightarrow> nat \<Rightarrow> nat" where
  "scan_cost I ctx oth s r k =
     (case sem_slot I ctx oth s of None \<Rightarrow> 1 | Some x \<Rightarrow> 1 + length (neighbours ctx r x) * (k + 1))"

text \<open>The cost of a quantifier-free predicate is its number of nodes.\<close>

fun flat_cost :: "pred \<Rightarrow> nat" where
  "flat_cost (PAnd a b) = flat_cost a + flat_cost b + 1"
| "flat_cost (POr a b) = flat_cost a + flat_cost b + 1"
| "flat_cost (PNot a) = flat_cost a + 1"
| "flat_cost p = 1"

fun cost :: "interner \<Rightarrow> eval_ctx \<Rightarrow> sigil option \<Rightarrow> pred \<Rightarrow> nat" where
  "cost I ctx oth (PAnd a b) = cost I ctx oth a + cost I ctx oth b + 1"
| "cost I ctx oth (POr a b) = cost I ctx oth a + cost I ctx oth b + 1"
| "cost I ctx oth (PNot a) = cost I ctx oth a + 1"
| "cost I ctx oth (PExistsRelated s r p) = scan_cost I ctx oth s r (flat_cost p)"
| "cost I ctx oth (PCountRelated s r p c n) = scan_cost I ctx oth s r (flat_cost p)"
| "cost I ctx oth (POpaqueClosed s) = 2 + scan_cost I ctx oth s LockedBy 1"
| "cost I ctx oth p = 1"

section \<open>Slots and atoms\<close>

lemma cook_slot_sem:
  assumes "cook_slot s I = Inr (x, I')" and "intern_le I' J"
  shows "resolve x ctx oth = sem_slot J ctx oth s"
proof (cases s)
  case (NameSlot n)
  with assms(1) obtain i where "x = CPin i" "bt_get (pins I') n = Some i"
    using cook_slot_pin by blast
  then show ?thesis
    using assms(2) NameSlot by (auto simp: resolve_def sem_slot_def intern_le_def map_le_bt_def)
qed (use assms in \<open>auto simp: resolve_def sem_slot_def\<close>)

lemma cook_atom_le: "cook_atom p I = Inr (a, I') \<Longrightarrow> intern_le I I'"
  by (cases p)
    (auto simp: rbind_Inr_iff cook_slot1_def cook_slot2_def
      dest!: cook_slot_le intern_name_le intro: intern_le_trans)

lemma intern_le_get:
  "intern_le I J \<Longrightarrow> bt_get (affordances I) n = Some i \<Longrightarrow> bt_get (affordances J) n = Some i"
  "intern_le I J \<Longrightarrow> bt_get (resources I) n = Some i \<Longrightarrow> bt_get (resources J) n = Some i"
  "intern_le I J \<Longrightarrow> bt_get (rites I) n = Some i \<Longrightarrow> bt_get (rites J) n = Some i"
  "intern_le I J \<Longrightarrow> bt_get (facts I) n = Some i \<Longrightarrow> bt_get (facts J) n = Some i"
  by (auto simp: intern_le_def map_le_bt_def)

lemma cook_slot1_sem:
  assumes "cook_slot1 s k I = Inr (a, I')" and "intern_le I' J"
  shows "\<exists>x. a = k x \<and> resolve x ctx oth = sem_slot J ctx oth s"
  using assms cook_slot_sem[of s I _ I' J ctx oth] by (auto simp: cook_slot1_def rbind_Inr_iff)

lemma cook_slot2_sem:
  assumes "cook_slot2 s1 s2 k I = Inr (a, I')" and "intern_le I' J"
  shows "\<exists>x y. a = k x y \<and> resolve x ctx oth = sem_slot J ctx oth s1
    \<and> resolve y ctx oth = sem_slot J ctx oth s2"
proof -
  from assms(1) obtain x I1 y where c: "cook_slot s1 I = Inr (x, I1)" "cook_slot s2 I1 = Inr (y, I')"
    "a = k x y"
    by (auto simp: cook_slot2_def rbind_Inr_iff)
  have "intern_le I1 J" using cook_slot_le[OF c(2)] assms(2) intern_le_trans by blast
  then show ?thesis using c cook_slot_sem[OF c(1)] cook_slot_sem[OF c(2) assms(2)] by blast
qed

lemma cook_named_sem:
  assumes "cook_slot s I = Inr (x, I1)" and "intern_le I1 I2" and "intern_le I2 J"
  shows "resolve x ctx oth = sem_slot J ctx oth s"
  using assms cook_slot_sem intern_le_trans by blast

lemma cook_atom_sem:
  assumes "cook_atom p I = Inr (a, I')" and "intern_le I' J"
  shows "eval_atom a ctx oth = sem J ctx oth p"
proof (cases p)
  case (PAffordance s n)
  with assms(1) obtain x I1 i where c: "cook_slot s I = Inr (x, I1)"
    "intern_affordance n I1 = Inr (i, I')" "a = AAffordance x i" by (auto simp: rbind_Inr_iff)
  have "bt_get (affordances J) n = Some i" using intern_name_le(1)[OF c(2)] assms(2) intern_le_get by blast
  moreover have "resolve x ctx oth = sem_slot J ctx oth s"
    using cook_named_sem[OF c(1) _ assms(2)] intern_name_le(1)[OF c(2)] by blast
  ultimately show ?thesis using PAffordance c(3) by (simp add: eval_atom_def with_id_def)
next
  case (PQty s n cmp v)
  with assms(1) obtain x I1 i where c: "cook_slot s I = Inr (x, I1)"
    "intern_resource n I1 = Inr (i, I')" "a = AQty x i cmp v" by (auto simp: rbind_Inr_iff)
  have "bt_get (resources J) n = Some i" using intern_name_le(2)[OF c(2)] assms(2) intern_le_get by blast
  moreover have "resolve x ctx oth = sem_slot J ctx oth s"
    using cook_named_sem[OF c(1) _ assms(2)] intern_name_le(2)[OF c(2)] by blast
  ultimately show ?thesis using PQty c(3) by (simp add: eval_atom_def with_id_def)
next
  case (PKnows s n)
  with assms(1) obtain x I1 i where c: "cook_slot s I = Inr (x, I1)"
    "intern_fact n I1 = Inr (i, I')" "a = AKnows x i" by (auto simp: rbind_Inr_iff)
  have "bt_get (facts J) n = Some i" using intern_name_le(4)[OF c(2)] assms(2) intern_le_get by blast
  moreover have "resolve x ctx oth = sem_slot J ctx oth s"
    using cook_named_sem[OF c(1) _ assms(2)] intern_name_le(4)[OF c(2)] by blast
  ultimately show ?thesis using PKnows c(3) by (simp add: eval_atom_def with_id_def)
next
  case (PRiteActive n)
  with assms(1) obtain i where c: "intern_rite n I = Inr (i, I')" "a = ARiteActive i"
    by (auto simp: rbind_Inr_iff)
  have "bt_get (rites J) n = Some i" using intern_name_le(3)[OF c(1)] assms(2) intern_le_get by blast
  then show ?thesis using PRiteActive c by (simp add: eval_atom_def with_id_def)
next
  case (PInWindow n ch)
  with assms(1) obtain i where c: "intern_rite n I = Inr (i, I')" "a = AInWindow i ch"
    by (auto simp: rbind_Inr_iff)
  have "bt_get (rites J) n = Some i" using intern_name_le(3)[OF c(1)] assms(2) intern_le_get by blast
  then show ?thesis using PInWindow c by (simp add: eval_atom_def with_id_def)
qed (use assms in \<open>auto simp: eval_atom_def Let_def
      dest!: cook_slot1_sem[OF _ assms(2), of _ _ _ _ ctx oth]
      cook_slot2_sem[OF _ assms(2), of _ _ _ _ _ ctx oth]\<close>)

section \<open>Desugaring preserves the denotation and the cost\<close>

lemma sem_desugar: "sem I ctx oth (desugar p) = sem I ctx oth p"
proof (induction p arbitrary: oth)
  case (POpaqueClosed s)
  have "(\<exists>y\<in>set (neighbours ctx LockedBy x). True) \<longleftrightarrow> related (store ctx) x LockedBy \<noteq> []" for x
    by (cases "related (store ctx) x LockedBy") (auto simp: neighbours_def related_scan_cap_def)
  then show ?case by (auto simp: on1_def sem_slot_def split: option.splits)
next
  case (PBurning s)
  show ?case by (simp add: cmp_i32_def)
qed simp_all

lemma flat_cost_desugar: "quant_free p \<Longrightarrow> \<not> mentions_opaque p \<Longrightarrow> flat_cost (desugar p) = flat_cost p"
  by (induction p) auto

lemma cost_desugar:
  "quant_flat p \<Longrightarrow> opaque_outside p \<Longrightarrow> cost I ctx oth (desugar p) = cost I ctx oth p"
  by (induction p) (auto simp: flat_cost_desugar)

lemma quant_free_desugar: "quant_free p \<Longrightarrow> \<not> mentions_opaque p \<Longrightarrow> quant_free (desugar p)"
  by (induction p) auto

lemma quant_flat_desugar: "quant_flat p \<Longrightarrow> opaque_outside p \<Longrightarrow> quant_flat (desugar p)"
  by (induction p) (auto simp: quant_free_desugar)

text \<open>Core predicates: what \<open>desugar\<close> produces and \<open>emit\<close> accepts.\<close>

fun core :: "pred \<Rightarrow> bool" where
  "core (PBurning s) = False"
| "core (POpaqueClosed s) = False"
| "core (PAnd a b) = (core a \<and> core b)"
| "core (POr a b) = (core a \<and> core b)"
| "core (PNot a) = core a"
| "core (PExistsRelated s r p) = core p"
| "core (PCountRelated s r p c n) = core p"
| "core p = True"

lemma core_desugar [simp]: "core (desugar p)"
  by (induction p) auto

section \<open>Charging\<close>

text \<open>
  \<open>charged c t e k\<close> spends \<open>c\<close> operations from both budgets and goes on with \<open>k\<close>, or stops
  with \<open>Budget\<close> when the smaller one runs out on the way.
\<close>

definition charged :: "nat \<Rightarrow> nat \<Rightarrow> nat \<Rightarrow> (nat \<Rightarrow> nat \<Rightarrow> 'a eval_result) \<Rightarrow> 'a eval_result" where
  "charged c t e k =
     (if c \<le> min t e then k (t - c) (e - c) else (Inl RBudget, t - min t e, e - min t e))"

definition eval_then ::
    "'a eval_result \<Rightarrow> ('a \<Rightarrow> nat \<Rightarrow> nat \<Rightarrow> 'b eval_result) \<Rightarrow> 'b eval_result" where
  "eval_then x k = (case x of (Inl r, t, e) \<Rightarrow> (Inl r, t, e) | (Inr v, t, e) \<Rightarrow> k v t e)"

lemma charged_charged: "charged a t e (\<lambda>t e. charged b t e k) = charged (a + b) t e k"
  by (auto simp: charged_def min_def diff_diff_left)

lemma charged_0 [simp]: "charged 0 t e k = k t e"
  by (simp add: charged_def)

lemma eval_then_charged: "eval_then (charged c t e k) f = charged c t e (\<lambda>t e. eval_then (k t e) f)"
  by (simp add: charged_def eval_then_def)

lemma eval_then_Inr [simp]: "eval_then (Inr v, t, e) f = f v t e"
  by (simp add: eval_then_def)

lemma eval_ops_push:
  "eval_ops d prog ctx oth (OpPushAtom i # ops) stack pc t e = charged 1 t e
     (eval_ops d prog ctx oth ops
        ((case nth_opt (prog_atoms prog) i of Some a \<Rightarrow> eval_atom a ctx oth | None \<Rightarrow> False) # stack) pc)"
  by (auto simp: charged_def split: option.splits)

lemma eval_ops_and:
  "eval_ops d prog ctx oth (OpAnd # ops) (b # a # stack) pc t e =
     charged 1 t e (eval_ops d prog ctx oth ops ((a \<and> b) # stack) pc)"
  by (auto simp: charged_def)

lemma eval_ops_or:
  "eval_ops d prog ctx oth (OpOr # ops) (b # a # stack) pc t e =
     charged 1 t e (eval_ops d prog ctx oth ops ((a \<or> b) # stack) pc)"
  by (auto simp: charged_def)

lemma eval_ops_not:
  "eval_ops d prog ctx oth (OpNot # ops) (a # stack) pc t e =
     charged 1 t e (eval_ops d prog ctx oth ops ((\<not> a) # stack) pc)"
  by (auto simp: charged_def)

lemma eval_ops_halt:
  "eval_ops d prog ctx oth (OpHalt # ops) (a # stack) pc t e = charged 1 t e (\<lambda>t e. (Inr a, t, e))"
  by (auto simp: charged_def)

lemma eval_ops_halt_fun:
  "eval_ops d prog ctx oth [OpHalt] [a] pc = (\<lambda>t e. charged 1 t e (\<lambda>t e. (Inr a, t, e)))"
  by (intro ext) (rule eval_ops_halt)

lemma eval_ops_quant:
  assumes "op = OpExistsRelated \<or> op = OpCountRelated" and "nth_opt (prog_scans prog) pc = Some sc"
  shows "eval_ops d prog ctx oth (op # ops) stack pc t e = charged 1 t e (\<lambda>t e.
     eval_then (eval_scan d prog ctx oth sc t e)
       (\<lambda>b. eval_ops d prog ctx oth ops (b # stack) (Suc pc)))"
  using assms by (auto simp: charged_def eval_then_def split: sum.splits prod.splits)

declare eval_ops.simps(2) [simp del]

section \<open>Emitted code runs to the denotation\<close>

definition atoms_le :: "atom list \<Rightarrow> atom list \<Rightarrow> bool" where
  "atoms_le a b \<longleftrightarrow> (\<exists>zs. b = a @ zs)"

lemma atoms_le_refl [simp]: "atoms_le a a"
  by (simp add: atoms_le_def)

lemma atoms_le_trans [trans]: "atoms_le a b \<Longrightarrow> atoms_le b c \<Longrightarrow> atoms_le a c"
  by (auto simp: atoms_le_def)

lemma atoms_le_nth: "atoms_le a b \<Longrightarrow> i < length a \<Longrightarrow> b ! i = a ! i \<and> i < length b"
  by (auto simp: atoms_le_def nth_append)

text \<open>
  \<open>runs p code ns I atoms\<close>: in every program that extends the atoms and holds the scans \<open>ns\<close>
  at the current scan counter, running \<open>code\<close> pushes the denotation of \<open>p\<close> for its cost.
\<close>

definition runs ::
    "pred \<Rightarrow> pred_op list \<Rightarrow> related_scan list \<Rightarrow> interner \<Rightarrow> atom list \<Rightarrow> bool" where
  "runs p code ns I atoms \<longleftrightarrow>
     (\<forall>J prog d ctx oth rest stack pre post t e.
        intern_le I J \<longrightarrow> atoms_le atoms (prog_atoms prog) \<longrightarrow> length (prog_atoms prog) \<le> 65536 \<longrightarrow>
        prog_scans prog = pre @ ns @ post \<longrightarrow> (0 < d \<or> ns = []) \<longrightarrow>
        eval_ops d prog ctx oth (code @ rest) stack (length pre) t e =
          charged (cost J ctx oth p) t e
            (eval_ops d prog ctx oth rest (sem J ctx oth p # stack) (length pre + length ns)))"

lemma runsD:
  assumes "runs p code ns I atoms" "intern_le I J" "atoms_le atoms (prog_atoms prog)"
    "length (prog_atoms prog) \<le> 65536" "prog_scans prog = pre @ ns @ post" "0 < d \<or> ns = []"
  shows "eval_ops d prog ctx oth (code @ rest) stack (length pre) t e =
    charged (cost J ctx oth p) t e
      (eval_ops d prog ctx oth rest (sem J ctx oth p # stack) (length pre + length ns))"
  using assms(1)[unfolded runs_def, rule_format, OF assms(2-6)] .

definition emitted :: "pred \<Rightarrow> emit_state \<Rightarrow> emit_state \<Rightarrow> bool" where
  "emitted p st st' \<longleftrightarrow>
     intern_le (es_intern st) (es_intern st') \<and> atoms_le (es_atoms st) (es_atoms st')
     \<and> (\<exists>code ns. es_ops st' = es_ops st @ code \<and> es_scans st' = es_scans st @ ns
         \<and> (quant_free p \<longrightarrow> ns = [] \<and> length (es_atoms st') \<le> length (es_atoms st) + length code)
         \<and> length (es_atoms st') \<le> length (es_atoms st) + 64 * length code
         \<and> runs p code ns (es_intern st') (es_atoms st'))"

lemma emittedE:
  assumes "emitted p st st'"
  obtains code ns where "intern_le (es_intern st) (es_intern st')"
    "atoms_le (es_atoms st) (es_atoms st')" "es_ops st' = es_ops st @ code"
    "es_scans st' = es_scans st @ ns"
    "quant_free p \<longrightarrow> ns = [] \<and> length (es_atoms st') \<le> length (es_atoms st) + length code"
    "length (es_atoms st') \<le> length (es_atoms st) + 64 * length code"
    "runs p code ns (es_intern st') (es_atoms st')"
  using assms by (auto simp: emitted_def)

lemma es_push_op [simp]:
  "es_intern (push_op op st) = es_intern st" "es_atoms (push_op op st) = es_atoms st"
  "es_scans (push_op op st) = es_scans st" "es_ops (push_op op st) = es_ops st @ [op]"
  by (simp_all add: push_op_def)

lemma intern_atom_spec:
  assumes "intern_atom a atoms = (i, atoms')"
  shows "atoms_le atoms atoms'" and "length atoms' \<le> Suc (length atoms)"
    and "length atoms' \<le> 65536 \<Longrightarrow> i < length atoms' \<and> atoms' ! i = a"
  using assms find_index_Some[of "\<lambda>x. x = a" atoms]
  by (auto simp: intern_atom_def atoms_le_def split: option.splits)

lemma emit_atom_emitted:
  assumes "emit_atom p st = Inr st'" and "quant_free p"
    and "\<And>J ctx oth. cost J ctx oth p = 1"
  shows "emitted p st st'"
proof -
  from assms(1) obtain a I where c1: "cook_atom p (es_intern st) = Inr (a, I)"
    by (auto simp: emit_atom_def rbind_Inr_iff)
  obtain i atoms where c2: "intern_atom a (es_atoms st) = (i, atoms)"
    by (metis surj_pair)
  have c3: "st' = push_op (OpPushAtom i) (st\<lparr>es_intern := I, es_atoms := atoms\<rparr>)"
    using assms(1) by (simp add: emit_atom_def c1 c2)
  note c = c1 c2 c3
  note ia = intern_atom_spec[OF c(2)]
  have "runs p [OpPushAtom i] [] I atoms"
    unfolding runs_def
  proof (intro allI impI)
    fix J and prog :: pred_program and d t e :: nat and ctx oth rest stack pre post
    assume h: "intern_le I J" "atoms_le atoms (prog_atoms prog)" "length (prog_atoms prog) \<le> 65536"
    from h(2,3) have "length atoms \<le> 65536" by (auto simp: atoms_le_def)
    then have "nth_opt (prog_atoms prog) i = Some a"
      using ia(3) atoms_le_nth[OF h(2), of i] by (auto simp: nth_opt_def)
    then show "eval_ops d prog ctx oth ([OpPushAtom i] @ rest) stack (length pre) t e =
        charged (cost J ctx oth p) t e (eval_ops d prog ctx oth rest (sem J ctx oth p # stack)
          (length pre + length ([] :: related_scan list)))"
      using cook_atom_sem[OF c(1) h(1)] by (simp add: eval_ops_push assms(3))
  qed
  then show ?thesis
    using c(3) ia(1,2) cook_atom_le[OF c(1)] by (auto simp: emitted_def)
qed

lemma scan_neigh_run:
  assumes "\<And>y t e. eval_ops d prog ctx (Some y) chunk [] 0 t e = charged k t e (\<lambda>t e. (Inr (f y), t, e))"
  shows "0 \<le> hits \<Longrightarrow> hits + int (length ys) < 2 ^ 31 \<Longrightarrow>
    scan_neigh d prog ctx chunk ys hits t e =
      charged (length ys * k) t e (\<lambda>t e. (Inr (hits + int (length (filter f ys))), t, e))"
proof (induction ys arbitrary: hits t e)
  case Nil
  then show ?case by simp
next
  case (Cons y ys)
  let ?h = "if f y then sat32 (hits + 1) else hits"
  have h: "?h = (if f y then hits + 1 else hits)"
    using Cons.prems by (auto simp: sat32_def i32_max_def i32_min_def)
  have "scan_neigh d prog ctx chunk (y # ys) hits t e
     = eval_then (eval_ops d prog ctx (Some y) chunk [] 0 t e)
         (\<lambda>b. scan_neigh d prog ctx chunk ys (if b then sat32 (hits + 1) else hits))"
    by (simp add: eval_then_def split: prod.splits sum.splits)
  also have "\<dots> = charged k t e (\<lambda>t e. scan_neigh d prog ctx chunk ys ?h t e)"
    by (simp add: assms eval_then_charged)
  also have "\<dots> = charged k t e (\<lambda>t e. charged (length ys * k) t e
       (\<lambda>t e. (Inr (?h + int (length (filter f ys))), t, e)))"
    using Cons.IH[of ?h] Cons.prems h by (simp split: if_splits)
  finally show ?case using h by (simp add: charged_charged algebra_simps)
qed

lemma cost_flat: "quant_free p \<Longrightarrow> core p \<Longrightarrow> cost J ctx oth p = flat_cost p"
  by (induction p) auto

lemma quant_free_flat: "quant_free p \<Longrightarrow> quant_flat p"
  by (induction p) auto

lemma runs_flat_chunk:
  assumes "runs p code [] I atoms" "intern_le I J" "atoms_le atoms (prog_atoms prog)"
    "length (prog_atoms prog) \<le> 65536" "quant_free p" "core p"
  shows "eval_ops d prog ctx (Some y) (code @ [OpHalt]) [] 0 t e =
    charged (flat_cost p + 1) t e (\<lambda>t e. (Inr (sem J ctx (Some y) p), t, e))"
  using runsD[OF assms(1-4), of "[]" "prog_scans prog" d ctx "Some y" "[OpHalt]" "[]" t e]
  by (simp add: eval_ops_halt_fun charged_charged cost_flat[OF assms(5,6)])

text \<open>One quantifier, given that its nested chunk runs to the nested predicate.\<close>

lemma scan_runs:
  assumes p: "quant_free p" "core p"
    and nested: "runs p code [] I0 atoms"
    and slot: "cook_slot s I0 = Inr (x, I)"
    and q: "(q = PExistsRelated s r p \<and> op = OpExistsRelated \<and> cnt = None)
      \<or> (q = PCountRelated s r p c n \<and> op = OpCountRelated \<and> cnt = Some (c, n))"
    and sc: "sc = \<lparr>scan_of = x, scan_rel = r, scan_pred = code @ [OpHalt], scan_count = cnt\<rparr>"
  shows "runs q [op] [sc] I atoms"
  unfolding runs_def
proof (intro allI impI)
  fix J and prog :: pred_program and d t e :: nat and ctx oth rest stack pre post
  assume h: "intern_le I J" "atoms_le atoms (prog_atoms prog)" "length (prog_atoms prog) \<le> 65536"
    "prog_scans prog = pre @ [sc] @ post" "0 < d \<or> [sc] = []"
  from h(5) obtain d' where d: "d = Suc d'" by (cases d) auto
  have I0J: "intern_le I0 J" using cook_slot_le[OF slot] h(1) intern_le_trans by blast
  have res: "resolve x ctx oth = sem_slot J ctx oth s" by (rule cook_slot_sem[OF slot h(1)])
  have nth: "nth_opt (prog_scans prog) (length pre) = Some sc" by (simp add: h(4) nth_opt_def)
  have cost: "cost J ctx oth q = scan_cost J ctx oth s r (flat_cost p)" using q by auto
  let ?k = "eval_ops d prog ctx oth rest (sem J ctx oth q # stack) (Suc (length pre))"
  have step: "eval_ops d prog ctx oth (op # rest) stack (length pre) t e = charged 1 t e (\<lambda>t e.
     eval_then (eval_scan d prog ctx oth sc t e)
       (\<lambda>b. eval_ops d prog ctx oth rest (b # stack) (Suc (length pre))))"
    using q by (intro eval_ops_quant[OF _ nth]) auto
  have scan: "eval_scan d prog ctx oth sc t e =
      charged (scan_cost J ctx oth s r (flat_cost p) - 1) t e (\<lambda>t e. (Inr (sem J ctx oth q), t, e))" for t e
  proof (cases "sem_slot J ctx oth s")
    case None
    then show ?thesis using q by (auto simp: d sc res scan_cost_def on1_def)
  next
    case (Some y)
    let ?ys = "neighbours ctx r y"
    have len: "length ?ys \<le> 64" by (simp add: neighbours_def related_scan_cap_def)
    have "scan_neigh d' prog ctx (code @ [OpHalt]) ?ys 0 t e =
        charged (length ?ys * (flat_cost p + 1)) t e
          (\<lambda>t e. (Inr (0 + int (length (filter (\<lambda>z. sem J ctx (Some z) p) ?ys))), t, e))"
      using len by (intro scan_neigh_run runs_flat_chunk[OF nested I0J h(2,3) p]) auto
    then have "eval_scan d prog ctx oth sc t e = charged (length ?ys * (flat_cost p + 1)) t e
        (\<lambda>t e. (Inr (case cnt of None \<Rightarrow> int (length (filter (\<lambda>z. sem J ctx (Some z) p) ?ys)) > 0
           | Some (c, n) \<Rightarrow> cmp_i32 (int (length (filter (\<lambda>z. sem J ctx (Some z) p) ?ys))) c n), t, e))"
      by (auto simp: d sc res Some neighbours_def[symmetric] charged_def)
    moreover have "(case cnt of None \<Rightarrow> int (length (filter (\<lambda>z. sem J ctx (Some z) p) ?ys)) > 0
           | Some (c, n) \<Rightarrow> cmp_i32 (int (length (filter (\<lambda>z. sem J ctx (Some z) p) ?ys))) c n)
        = sem J ctx oth q"
      using q Some by (auto simp: on1_def filter_empty_conv)
    ultimately show ?thesis by (simp add: scan_cost_def Some)
  qed
  have one: "1 \<le> scan_cost J ctx oth s r (flat_cost p)"
    by (auto simp: scan_cost_def split: option.splits)
  show "eval_ops d prog ctx oth ([op] @ rest) stack (length pre) t e =
      charged (cost J ctx oth q) t e (eval_ops d prog ctx oth rest (sem J ctx oth q # stack)
        (length pre + length [sc]))"
    using one by (simp add: step scan eval_then_charged charged_charged cost)
qed

lemma emit_scan_emitted:
  assumes es: "emit_scan s r cnt op st nested = Inr st'"
    and nested: "emitted p (st\<lparr>es_scans := [], es_ops := []\<rparr>) nested" "quant_free p" "core p"
    and q: "(q = PExistsRelated s r p \<and> op = OpExistsRelated \<and> cnt = None)
      \<or> (q = PCountRelated s r p c n \<and> op = OpCountRelated \<and> cnt = Some (c, n))"
  shows "emitted q st st'"
proof -
  obtain code where n: "intern_le (es_intern st) (es_intern nested)"
    "atoms_le (es_atoms st) (es_atoms nested)" "es_ops nested = code"
    "length (es_atoms nested) \<le> length (es_atoms st) + length code"
    "runs p code [] (es_intern nested) (es_atoms nested)"
    using nested(1,2) by (elim emittedE) auto
  from es obtain x I where c: "length (code @ [OpHalt]) \<le> 64"
    "cook_slot s (es_intern nested) = Inr (x, I)"
    "st' = push_op op \<lparr>es_intern = I, es_atoms = es_atoms nested,
       es_scans = es_scans st @ [\<lparr>scan_of = x, scan_rel = r, scan_pred = code @ [OpHalt], scan_count = cnt\<rparr>],
       es_ops = es_ops st\<rparr>"
    by (auto simp: emit_scan_def check_len_def rbind_Inr_iff n(3) pred_ops_per_eval_def split: if_splits)
  note r = scan_runs[OF nested(2,3) n(5) c(2) q refl]
  show ?thesis
    unfolding emitted_def
    using c(1,3) n(1,2,4) r q intern_le_trans[OF n(1) cook_slot_le[OF c(2)]]
    by (auto intro!: exI[of _ "[op]"])
qed

lemma runs_binop:
  assumes a: "runs a ca na I1 A1" and b: "runs b cb nb I2 A2"
    and le: "intern_le I1 I2" "atoms_le A1 A2"
    and q: "(q = PAnd a b \<and> op = OpAnd) \<or> (q = POr a b \<and> op = OpOr)"
  shows "runs q (ca @ cb @ [op]) (na @ nb) I2 A2"
  unfolding runs_def
proof (intro allI impI)
  fix J and prog :: pred_program and d t e :: nat and ctx oth rest stack pre post
  assume h: "intern_le I2 J" "atoms_le A2 (prog_atoms prog)" "length (prog_atoms prog) \<le> 65536"
    "prog_scans prog = pre @ (na @ nb) @ post" "0 < d \<or> na @ nb = []"
  have "intern_le I1 J" "atoms_le A1 (prog_atoms prog)"
    using le h(1,2) intern_le_trans atoms_le_trans by blast+
  note ra = runsD[OF a this h(3), of pre "nb @ post" d ctx oth "cb @ [op] @ rest" stack t e]
  have rb: "eval_ops d prog ctx oth (cb @ [op] @ rest) (sem J ctx oth a # stack) (length pre + length na) =
      (\<lambda>t e. charged (cost J ctx oth b) t e
        (eval_ops d prog ctx oth ([op] @ rest) (sem J ctx oth b # sem J ctx oth a # stack)
          (length pre + length na + length nb)))"
    using runsD[OF b h(1-3), of "pre @ na" post d ctx oth "[op] @ rest" "sem J ctx oth a # stack"] h(4,5)
    by (intro ext) auto
  have "eval_ops d prog ctx oth ((ca @ cb @ [op]) @ rest) stack (length pre) t e =
      charged (cost J ctx oth a) t e
        (eval_ops d prog ctx oth (cb @ [op] @ rest) (sem J ctx oth a # stack) (length pre + length na))"
    using ra h(4,5) by auto
  also note rb
  also have "eval_ops d prog ctx oth ([op] @ rest) (sem J ctx oth b # sem J ctx oth a # stack)
          (length pre + length na + length nb) =
      (\<lambda>t e. charged 1 t e (eval_ops d prog ctx oth rest (sem J ctx oth q # stack)
          (length pre + length na + length nb)))"
    using q by (intro ext) (auto simp: eval_ops_and eval_ops_or)
  finally show "eval_ops d prog ctx oth ((ca @ cb @ [op]) @ rest) stack (length pre) t e =
      charged (cost J ctx oth q) t e (eval_ops d prog ctx oth rest (sem J ctx oth q # stack)
        (length pre + length (na @ nb)))"
    using q by (auto simp: charged_charged add.assoc)
qed

lemma emitted_binop:
  assumes a: "emitted a st st1" and b: "emitted b st1 st2"
    and q: "(q = PAnd a b \<and> op = OpAnd) \<or> (q = POr a b \<and> op = OpOr)"
  shows "emitted q st (push_op op st2)"
proof -
  obtain ca na where A: "intern_le (es_intern st) (es_intern st1)"
    "atoms_le (es_atoms st) (es_atoms st1)" "es_ops st1 = es_ops st @ ca" "es_scans st1 = es_scans st @ na"
    "quant_free a \<longrightarrow> na = [] \<and> length (es_atoms st1) \<le> length (es_atoms st) + length ca"
    "length (es_atoms st1) \<le> length (es_atoms st) + 64 * length ca" "runs a ca na (es_intern st1) (es_atoms st1)"
    using a by (elim emittedE) (rule that)
  obtain cb nb where B: "intern_le (es_intern st1) (es_intern st2)"
    "atoms_le (es_atoms st1) (es_atoms st2)" "es_ops st2 = es_ops st1 @ cb" "es_scans st2 = es_scans st1 @ nb"
    "quant_free b \<longrightarrow> nb = [] \<and> length (es_atoms st2) \<le> length (es_atoms st1) + length cb"
    "length (es_atoms st2) \<le> length (es_atoms st1) + 64 * length cb" "runs b cb nb (es_intern st2) (es_atoms st2)"
    using b by (elim emittedE) (rule that)
  have "quant_free q \<longleftrightarrow> quant_free a \<and> quant_free b" using q by auto
  then show ?thesis
    unfolding emitted_def
    using intern_le_trans[OF A(1) B(1)] atoms_le_trans[OF A(2) B(2)] A(3-6) B(3-6)
      runs_binop[OF A(7) B(7) B(1,2) q]
    by (intro conjI exI[of _ "ca @ cb @ [op]"] exI[of _ "na @ nb"]) auto
qed

lemma emitted_not:
  assumes "emitted a st st1"
  shows "emitted (PNot a) st (push_op OpNot st1)"
proof -
  obtain ca na where A: "intern_le (es_intern st) (es_intern st1)"
    "atoms_le (es_atoms st) (es_atoms st1)" "es_ops st1 = es_ops st @ ca" "es_scans st1 = es_scans st @ na"
    "quant_free a \<longrightarrow> na = [] \<and> length (es_atoms st1) \<le> length (es_atoms st) + length ca"
    "length (es_atoms st1) \<le> length (es_atoms st) + 64 * length ca" "runs a ca na (es_intern st1) (es_atoms st1)"
    using assms by (elim emittedE) (rule that)
  have "runs (PNot a) (ca @ [OpNot]) na (es_intern st1) (es_atoms st1)"
    unfolding runs_def
  proof (intro allI impI)
    fix J and prog :: pred_program and d t e :: nat and ctx oth rest stack pre post
    assume h: "intern_le (es_intern st1) J" "atoms_le (es_atoms st1) (prog_atoms prog)"
      "length (prog_atoms prog) \<le> 65536" "prog_scans prog = pre @ na @ post" "0 < d \<or> na = []"
    have eq: "eval_ops d prog ctx oth (OpNot # rest) (sem J ctx oth a # stack) (length pre + length na) =
        (\<lambda>t e. charged 1 t e (eval_ops d prog ctx oth rest (sem J ctx oth (PNot a) # stack)
          (length pre + length na)))"
      by (intro ext) (simp add: eval_ops_not)
    show "eval_ops d prog ctx oth ((ca @ [OpNot]) @ rest) stack (length pre) t e =
      charged (cost J ctx oth (PNot a)) t e
        (eval_ops d prog ctx oth rest (sem J ctx oth (PNot a) # stack) (length pre + length na))"
      using runsD[OF A(7) h, of ctx oth "OpNot # rest" stack t e] by (simp add: eq charged_charged)
  qed
  then show ?thesis
    unfolding emitted_def using A(1-6)
    by (intro conjI exI[of _ "ca @ [OpNot]"] exI[of _ na]) auto
qed

lemma emit_correct:
  "emit p st = Inr st' \<Longrightarrow> quant_flat p \<Longrightarrow> core p \<Longrightarrow> emitted p st st'"
proof (induction p arbitrary: st st')
  case (PAnd a b)
  then obtain st1 st2 where "emit a st = Inr st1" "emit b st1 = Inr st2" "st' = push_op OpAnd st2"
    by (auto simp: rbind_Inr_iff)
  with PAnd show ?case using emitted_binop[of a st st1 b st2 "PAnd a b" OpAnd] by auto
next
  case (POr a b)
  then obtain st1 st2 where "emit a st = Inr st1" "emit b st1 = Inr st2" "st' = push_op OpOr st2"
    by (auto simp: rbind_Inr_iff)
  with POr show ?case using emitted_binop[of a st st1 b st2 "POr a b" OpOr] by auto
next
  case (PNot a)
  then show ?case using emitted_not by (auto simp: rbind_Inr_iff)
next
  case (PExistsRelated s r p)
  then obtain nested where "emit p (st\<lparr>es_scans := [], es_ops := []\<rparr>) = Inr nested"
    "emit_scan s r None OpExistsRelated st nested = Inr st'" by (auto simp: rbind_Inr_iff)
  with PExistsRelated show ?case
    using emit_scan_emitted[of s r None OpExistsRelated st nested st' p "PExistsRelated s r p"]
    by (auto simp: quant_free_flat)
next
  case (PCountRelated s r p c n)
  then obtain nested where "emit p (st\<lparr>es_scans := [], es_ops := []\<rparr>) = Inr nested"
    "emit_scan s r (Some (c, n)) OpCountRelated st nested = Inr st'" by (auto simp: rbind_Inr_iff)
  with PCountRelated show ?case
    using emit_scan_emitted[of s r "Some (c, n)" OpCountRelated st nested st' p "PCountRelated s r p c n" c n]
    by (auto simp: quant_free_flat)
qed (auto intro: emit_atom_emitted)

text \<open>The whole program: the exact result and the exact remaining tick budget of an evaluation.\<close>

lemma compile_eval:
  assumes comp: "compile_pred_with p I = Inr (prog, I')" and "quant_flat p" and "opaque_outside p"
    and "intern_le I' J"
  shows "eval_pred prog ctx t =
    (if cost J ctx None p + 1 \<le> min t pred_ops_per_eval
     then (Inr (sem J ctx None p), t - (cost J ctx None p + 1))
     else (Inl RBudget, t - min t pred_ops_per_eval))"
proof -
  from comp obtain st where st: "emit (desugar p) \<lparr>es_intern = I, es_atoms = [], es_scans = [], es_ops = []\<rparr> = Inr st"
    "length (es_ops st) < 64" "I' = es_intern st"
    "prog = \<lparr>prog_chunk = es_ops st @ [OpHalt], prog_atoms = es_atoms st, prog_scans = es_scans st\<rparr>"
    by (auto simp: compile_pred_with_def check_len_def rbind_Inr_iff pred_ops_per_eval_def split: if_splits)
  have em: "emitted (desugar p) \<lparr>es_intern = I, es_atoms = [], es_scans = [], es_ops = []\<rparr> st"
    by (rule emit_correct[OF st(1)]) (simp_all add: quant_flat_desugar assms(2,3))
  then have r: "runs (desugar p) (es_ops st) (es_scans st) I' (es_atoms st)"
    and len: "length (es_atoms st) \<le> 64 * length (es_ops st)"
    using st(3) by (auto elim!: emittedE)
  have "eval_ops 64 prog ctx None (es_ops st @ [OpHalt]) [] 0 t 64 =
      charged (cost J ctx None p + 1) t 64 (\<lambda>t e. (Inr (sem J ctx None p), t, e))"
    using runsD[OF r assms(4), of prog "[]" "[]" 64 ctx None "[OpHalt]" "[]" t 64] st(2,4) len
    by (simp add: eval_ops_halt_fun charged_charged cost_desugar[OF assms(2,3)] sem_desugar)
  then show ?thesis
    by (simp add: eval_pred_def st(4) pred_ops_per_eval_def charged_def)
qed

end
