(* ===== verification/CanonContradict.thy ===== *)
theory CanonContradict
  imports IrDecl CanonCorrect
begin

text \<open>
  \<open>klotho-canon/src/contradict.rs\<close>: the cook-time search for contradictions between laws, on
  predicates read as propositions over opaque atoms, and the admission rule for \<open>Lockable\<close>.
\<close>

section \<open>Admission of locks\<close>

fun mentions_lockable :: "pred \<Rightarrow> bool" where
  "mentions_lockable (PAffordance s n) = (n = ''Lockable'')"
| "mentions_lockable (PAnd a b) = (mentions_lockable a \<or> mentions_lockable b)"
| "mentions_lockable (POr a b) = (mentions_lockable a \<or> mentions_lockable b)"
| "mentions_lockable (PNot a) = mentions_lockable a"
| "mentions_lockable (PExistsRelated s r p) = mentions_lockable p"
| "mentions_lockable (PCountRelated s r p c n) = mentions_lockable p"
| "mentions_lockable p = False"

fun is_wielded :: "pred \<Rightarrow> bool" where
  "is_wielded (PRel a r b) = (r = WieldedBy)"
| "is_wielded p = False"

fun walk_or :: "pred \<Rightarrow> bool \<times> bool \<Rightarrow> bool \<times> bool" where
  "walk_or (POr a b) kr = walk_or b (walk_or a kr)"
| "walk_or (PExistsRelated s r p) (key, rite) = (if r = KeyedBy \<and> is_wielded p then (True, rite) else (key, rite))"
| "walk_or (PRiteActive n) (key, rite) = (key, True)"
| "walk_or p kr = kr"

definition is_key_or_rite :: "pred \<Rightarrow> bool" where
  "is_key_or_rite must = (let (key, rite) = walk_or must (False, False) in key \<and> rite)"

definition has_key_or_rite :: "(string \<times> law) list \<Rightarrow> bool" where
  "has_key_or_rite laws = list_ex (\<lambda>(n, l). mentions_lockable (law_when l)
     \<and> (case law_body_of l of LbPred must ought \<Rightarrow> is_key_or_rite must | _ \<Rightarrow> False)) laws"

section \<open>Propositions\<close>

datatype bprop = Atom nat | And bprop bprop | Or bprop bprop | Not bprop

fun to_prop :: "pred \<Rightarrow> pred list \<Rightarrow> bprop \<times> pred list" where
  "to_prop (PAnd a b) ls = (let (x, l1) = to_prop a ls; (y, l2) = to_prop b l1 in (And x y, l2))"
| "to_prop (POr a b) ls = (let (x, l1) = to_prop a ls; (y, l2) = to_prop b l1 in (Or x y, l2))"
| "to_prop (PNot a) ls = (let (x, l1) = to_prop a ls in (Not x, l1))"
| "to_prop p ls =
     (case find_index (\<lambda>q. q = p) ls of
        Some i \<Rightarrow> (Atom i, ls)
      | None \<Rightarrow> (Atom (length ls), ls @ [p]))"

fun eval_prop :: "bprop \<Rightarrow> nat \<Rightarrow> bool" where
  "eval_prop (Atom i) bits = odd (bits div 2 ^ i)"
| "eval_prop (And a b) bits = (eval_prop a bits \<and> eval_prop b bits)"
| "eval_prop (Or a b) bits = (eval_prop a bits \<or> eval_prop b bits)"
| "eval_prop (Not a) bits = (\<not> eval_prop a bits)"

fun flatten_and :: "bprop \<Rightarrow> bool \<Rightarrow> nat list \<times> nat list \<Rightarrow> nat list \<times> nat list" where
  "flatten_and (And a b) negated pn =
     (if negated then pn else flatten_and b False (flatten_and a False pn))"
| "flatten_and (Not a) negated pn = flatten_and a (\<not> negated) pn"
| "flatten_and (Atom i) negated (pos, neg) = (if negated then (pos, neg @ [i]) else (pos @ [i], neg))"
| "flatten_and (Or a b) negated pn = pn"

definition syntactic_and_conflict :: "bprop \<Rightarrow> bool" where
  "syntactic_and_conflict p =
     (let (pos, neg) = flatten_and p False ([], []) in list_ex (\<lambda>a. a \<in> set neg) pos)"

definition sat_atoms :: nat where
  "sat_atoms = 12"

definition unsat :: "pred \<Rightarrow> bool" where
  "unsat p =
     (let (q, leaves) = to_prop p [] in
      if length leaves > sat_atoms then syntactic_and_conflict q
      else list_all (\<lambda>bits. \<not> eval_prop q bits) [0..<2 ^ length leaves])"

definition equivalent :: "pred \<Rightarrow> pred \<Rightarrow> bool" where
  "equivalent a b = unsat (POr (PAnd a (PNot b)) (PAnd b (PNot a)))"

section \<open>The check\<close>

type_synonym pred_law = "string \<times> pred \<times> pred"

fun collect_laws :: "(string \<times> law) list \<Rightarrow> pred_law list \<Rightarrow> cook_error + pred_law list" where
  "collect_laws [] acc = Inr acc"
| "collect_laws ((n, l) # ls) acc =
     (case law_body_of l of
        LbPred must ought \<Rightarrow>
          if unsat (desugar must) then Inl (Contradiction n)
          else collect_laws ls (acc @ [(n, desugar (law_when l), desugar must)])
      | _ \<Rightarrow> collect_laws ls acc)"

fun conflict_with :: "pred_law \<Rightarrow> pred_law list \<Rightarrow> cook_error + unit" where
  "conflict_with a [] = Inr ()"
| "conflict_with (na, wa, ma) ((nb, wb, mb) # bs) =
     (if equivalent wa wb \<and> unsat (PAnd ma mb) then Inl (Contradiction (na @ ''|'' @ nb))
      else conflict_with (na, wa, ma) bs)"

fun conflict_pairs :: "pred_law list \<Rightarrow> cook_error + unit" where
  "conflict_pairs [] = Inr ()"
| "conflict_pairs (a # as) = rbind (conflict_with a as) (\<lambda>_. conflict_pairs as)"

definition check_fragment :: "(string \<times> law) list \<Rightarrow> bool \<Rightarrow> cook_error + unit" where
  "check_fragment laws has_lockable =
     (if has_lockable \<and> \<not> has_key_or_rite laws then Inl LockableNeedsKeyOrRite
      else rbind (collect_laws laws []) conflict_pairs)"

section \<open>The propositional reading\<close>

fun holds :: "(pred \<Rightarrow> bool) \<Rightarrow> pred \<Rightarrow> bool" where
  "holds v (PAnd a b) = (holds v a \<and> holds v b)"
| "holds v (POr a b) = (holds v a \<or> holds v b)"
| "holds v (PNot a) = (\<not> holds v a)"
| "holds v p = v p"

lemma holds_sem: "holds (sem I ctx oth) p = sem I ctx oth p"
  by (induction p) auto

fun val_prop :: "(nat \<Rightarrow> bool) \<Rightarrow> bprop \<Rightarrow> bool" where
  "val_prop f (Atom i) = f i"
| "val_prop f (And a b) = (val_prop f a \<and> val_prop f b)"
| "val_prop f (Or a b) = (val_prop f a \<or> val_prop f b)"
| "val_prop f (Not a) = (\<not> val_prop f a)"

fun prop_below :: "nat \<Rightarrow> bprop \<Rightarrow> bool" where
  "prop_below n (Atom i) = (i < n)"
| "prop_below n (And a b) = (prop_below n a \<and> prop_below n b)"
| "prop_below n (Or a b) = (prop_below n a \<and> prop_below n b)"
| "prop_below n (Not a) = prop_below n a"

lemma prop_below_mono: "prop_below n p \<Longrightarrow> n \<le> m \<Longrightarrow> prop_below m p"
  by (induction p) auto

lemma val_prop_cong: "prop_below n p \<Longrightarrow> (\<And>i. i < n \<Longrightarrow> f i = g i) \<Longrightarrow> val_prop f p = val_prop g p"
  by (induction p) auto

lemma eval_prop_val: "eval_prop p bits = val_prop (\<lambda>i. odd (bits div 2 ^ i)) p"
  by (induction p) auto

text \<open>\<open>reads ls ls' q p\<close>: over the leaves \<open>ls'\<close>, an extension of \<open>ls\<close>, \<open>q\<close> says what \<open>p\<close> says.\<close>

definition reads :: "pred list \<Rightarrow> pred list \<Rightarrow> bprop \<Rightarrow> pred \<Rightarrow> bool" where
  "reads ls ls' q p \<longleftrightarrow> (\<exists>ext. ls' = ls @ ext) \<and> (distinct ls \<longrightarrow> distinct ls')
     \<and> prop_below (length ls') q \<and> (\<forall>v. val_prop (\<lambda>i. v (ls' ! i)) q = holds v p)"

lemma val_prop_extend:
  "prop_below (length ls) q \<Longrightarrow> val_prop (\<lambda>i. v ((ls @ ext) ! i)) q = val_prop (\<lambda>i. v (ls ! i)) q"
  by (rule val_prop_cong) (auto simp: nth_append)

lemma reads_binary:
  assumes "reads ls l1 x a" and "reads l1 l2 y b"
  shows "reads ls l2 (And x y) (PAnd a b)" and "reads ls l2 (Or x y) (POr a b)"
proof -
  from assms obtain e1 e2 where e: "l1 = ls @ e1" "l2 = l1 @ e2" by (auto simp: reads_def)
  have x: "prop_below (length l1) x" "\<And>v. val_prop (\<lambda>i. v (l1 ! i)) x = holds v a"
    and y: "prop_below (length l2) y" "\<And>v. val_prop (\<lambda>i. v (l2 ! i)) y = holds v b"
    and d: "distinct ls \<longrightarrow> distinct l2"
    using assms by (auto simp: reads_def)
  have "prop_below (length l2) x" using x(1) e by (auto intro: prop_below_mono)
  moreover have "val_prop (\<lambda>i. v (l2 ! i)) x = holds v a" for v
    using val_prop_extend[OF x(1), of v e2] x(2) e(2) by simp
  ultimately show "reads ls l2 (And x y) (PAnd a b)" "reads ls l2 (Or x y) (POr a b)"
    using y d e by (auto simp: reads_def)
qed

lemma reads_leaf:
  assumes "(case find_index (\<lambda>q. q = p) ls of Some i \<Rightarrow> (Atom i, ls) | None \<Rightarrow> (Atom (length ls), ls @ [p])) = (q, ls')"
    and "\<And>v. holds v p = v p"
  shows "reads ls ls' q p"
proof (cases "find_index (\<lambda>q. q = p) ls")
  case None
  then have "p \<notin> set ls" by (auto simp: find_index_None)
  moreover have "q = Atom (length ls)" "ls' = ls @ [p]" using assms(1) None by auto
  ultimately show ?thesis using assms(2) by (simp add: reads_def)
next
  case (Some i)
  moreover have "q = Atom i" "ls' = ls" using assms(1) Some by auto
  ultimately show ?thesis using assms(2) find_index_Some[OF Some] by (simp add: reads_def)
qed

lemma to_prop_reads: "to_prop p ls = (q, ls') \<Longrightarrow> reads ls ls' q p"
proof (induction p arbitrary: ls q ls')
  case (PAnd a b)
  obtain x l1 y l2 where s: "to_prop a ls = (x, l1)" "to_prop b l1 = (y, l2)" by (metis surj_pair)
  with PAnd.prems have "q = And x y" "ls' = l2" by auto
  then show ?case using reads_binary(1) PAnd.IH s by blast
next
  case (POr a b)
  obtain x l1 y l2 where s: "to_prop a ls = (x, l1)" "to_prop b l1 = (y, l2)" by (metis surj_pair)
  with POr.prems have "q = Or x y" "ls' = l2" by auto
  then show ?case using reads_binary(2) POr.IH s by blast
next
  case (PNot a)
  obtain x l1 where s: "to_prop a ls = (x, l1)" by (metis surj_pair)
  with PNot.prems have "q = Not x" "ls' = l1" by auto
  then show ?case using PNot.IH[OF s] by (auto simp: reads_def)
qed (simp only: to_prop.simps, erule reads_leaf, simp)+

section \<open>The searches\<close>

lemma bits_of_valuation: "\<exists>b :: nat. b < 2 ^ n \<and> (\<forall>i < n. odd (b div 2 ^ i) = f i)"
proof (induction n)
  case (Suc n)
  then obtain b :: nat where b: "b < 2 ^ n" "\<forall>i < n. odd (b div 2 ^ i) = f i" by blast
  let ?b = "b + of_bool (f n) * 2 ^ n"
  have "odd (?b div 2 ^ i) = f i" if "i < Suc n" for i
  proof (cases "i = n")
    case True
    then show ?thesis using b(1) by simp
  next
    case False
    with that have i: "i < n" by simp
    then obtain k where k: "n = i + Suc k" by (metis add_Suc_right less_iff_Suc_add)
    have "?b = b + (of_bool (f n) * 2 * 2 ^ k) * 2 ^ i" by (simp add: k power_add)
    then have "?b div 2 ^ i = b div 2 ^ i + of_bool (f n) * 2 * 2 ^ k"
      by (simp only: div_mult_self1 power_not_zero) simp
    then show ?thesis using b(2) i by simp
  qed
  moreover have "?b < 2 ^ Suc n" using b(1) by simp
  ultimately show ?case by blast
qed simp

lemma flatten_and_sound:
  "flatten_and q ng (pos, neg) = (pos', neg') \<Longrightarrow> val_prop f q = (\<not> ng) \<Longrightarrow>
   (\<forall>i \<in> set pos. f i) \<and> (\<forall>i \<in> set neg. \<not> f i) \<Longrightarrow> (\<forall>i \<in> set pos'. f i) \<and> (\<forall>i \<in> set neg'. \<not> f i)"
proof (induction q arbitrary: ng pos neg pos' neg')
  case (And a b)
  show ?case
  proof (cases ng)
    case False
    obtain pos1 neg1 where s: "flatten_and a False (pos, neg) = (pos1, neg1)" by (metis surj_pair)
    have v: "val_prop f a = (\<not> False)" "val_prop f b = (\<not> False)" using And.prems(2) False by simp_all
    have s2: "flatten_and b False (pos1, neg1) = (pos', neg')" using And.prems(1) False s by simp
    show ?thesis by (rule And.IH(2)[OF s2 v(2) And.IH(1)[OF s v(1) And.prems(3)]])
  qed (use And.prems in auto)
next
  case (Not a)
  then show ?case by (metis flatten_and.simps(2) val_prop.simps(4))
qed (auto split: if_splits)

lemma syntactic_conflict_sound: "syntactic_and_conflict q \<Longrightarrow> \<not> val_prop f q"
proof
  assume "syntactic_and_conflict q" "val_prop f q"
  moreover obtain pos neg where "flatten_and q False ([], []) = (pos, neg)" by (metis surj_pair)
  ultimately show False
    using flatten_and_sound[of q False "[]" "[]" pos neg f] by (auto simp: syntactic_and_conflict_def list_ex_iff)
qed

text \<open>A predicate reported unsatisfiable is false under every reading of its atoms.\<close>

lemma unsat_sound:
  assumes "unsat p"
  shows "\<not> holds v p"
proof -
  obtain q ls where t: "to_prop p [] = (q, ls)" by (metis surj_pair)
  note r = to_prop_reads[OF t, unfolded reads_def]
  show ?thesis
  proof (cases "length ls > sat_atoms")
    case True
    with assms t have "syntactic_and_conflict q" by (simp add: unsat_def)
    from syntactic_conflict_sound[OF this] r show ?thesis by metis
  next
    case False
    obtain b :: nat where b: "b < 2 ^ length ls" "\<forall>i < length ls. odd (b div 2 ^ i) = v (ls ! i)"
      using bits_of_valuation[of "length ls" "\<lambda>i. v (ls ! i)"] by auto
    with assms t False have "\<not> eval_prop q b" by (simp add: unsat_def list_all_iff)
    moreover have "eval_prop q b = val_prop (\<lambda>i. v (ls ! i)) q"
      unfolding eval_prop_val using b(2) r by (intro val_prop_cong[of "length ls"]) auto
    ultimately show ?thesis using r by metis
  qed
qed

text \<open>With at most twelve atoms the search is exact.\<close>

definition atom_count :: "pred \<Rightarrow> nat" where
  "atom_count p = length (snd (to_prop p []))"

lemma unsat_complete:
  assumes "\<not> unsat p" and "atom_count p \<le> sat_atoms"
  shows "\<exists>v. holds v p"
proof -
  obtain q ls where t: "to_prop p [] = (q, ls)" by (metis surj_pair)
  note r = to_prop_reads[OF t, unfolded reads_def]
  have n: "\<not> length ls > sat_atoms" using assms(2) t by (simp add: atom_count_def)
  with assms(1) t obtain b where b: "eval_prop q b" by (auto simp: unsat_def list_all_iff)
  define v where "v p = (\<exists>i < length ls. ls ! i = p \<and> odd (b div 2 ^ i))" for p
  have "v (ls ! i) = odd (b div 2 ^ i)" if "i < length ls" for i
    using that r by (auto simp: v_def nth_eq_iff_index_eq)
  then have "val_prop (\<lambda>i. v (ls ! i)) q = eval_prop q b"
    unfolding eval_prop_val using r by (intro val_prop_cong[of "length ls"]) auto
  with b r show ?thesis by metis
qed

lemma equivalent_sound: "equivalent a b \<Longrightarrow> holds v a = holds v b"
  unfolding equivalent_def by (drule unsat_sound[of _ v]) auto

section \<open>The check\<close>

definition pred_law_of :: "(string \<times> law) list \<Rightarrow> pred_law \<Rightarrow> bool" where
  "pred_law_of laws x = (\<exists>l must ought. (fst x, l) \<in> set laws \<and> law_body_of l = LbPred must ought
     \<and> x = (fst x, desugar (law_when l), desugar must))"

lemma collect_laws_ok:
  "collect_laws ls acc = Inr pls \<Longrightarrow> \<exists>new. pls = acc @ new \<and> (\<forall>x \<in> set new. pred_law_of ls x)
     \<and> (\<forall>n l must ought. (n, l) \<in> set ls \<and> law_body_of l = LbPred must ought \<longrightarrow>
          \<not> unsat (desugar must) \<and> (n, desugar (law_when l), desugar must) \<in> set new)"
proof (induction ls acc rule: collect_laws.induct)
  case (2 n l ls acc)
  have weaken: "pred_law_of ls x \<Longrightarrow> pred_law_of ((n, l) # ls) x" for x by (auto simp: pred_law_of_def)
  show ?case
  proof (cases "law_body_of l")
    case (LbPred must ought)
    let ?x = "(n, desugar (law_when l), desugar must)"
    have u: "\<not> unsat (desugar must)" and c: "collect_laws ls (acc @ [?x]) = Inr pls"
      using 2(6) LbPred by (auto split: if_splits)
    from "2.IH"(1)[OF LbPred u c] obtain new where new: "pls = (acc @ [?x]) @ new"
      "\<forall>x \<in> set new. pred_law_of ls x"
      "\<forall>n l must ought. (n, l) \<in> set ls \<and> law_body_of l = LbPred must ought \<longrightarrow>
          \<not> unsat (desugar must) \<and> (n, desugar (law_when l), desugar must) \<in> set new" by blast
    have "pred_law_of ((n, l) # ls) ?x" using LbPred by (auto simp: pred_law_of_def)
    then show ?thesis
      using new(1,2) u LbPred weaken new(3)[rule_format] by (intro exI[of _ "?x # new"]) (auto 0 3)
  qed (use 2 weaken in \<open>fastforce+\<close>)
qed simp

lemma collect_laws_error:
  "collect_laws ls acc = Inl e \<Longrightarrow> \<exists>n l must ought. (n, l) \<in> set ls \<and> law_body_of l = LbPred must ought
     \<and> unsat (desugar must) \<and> e = Contradiction n"
  by (induction ls acc rule: collect_laws.induct) (force split: law_body.splits if_splits)+

lemma conflict_with_error:
  "conflict_with a bs = Inl e \<Longrightarrow> \<exists>b \<in> set bs. equivalent (fst (snd a)) (fst (snd b))
     \<and> unsat (PAnd (snd (snd a)) (snd (snd b))) \<and> e = Contradiction (fst a @ ''|'' @ fst b)"
  by (induction a bs rule: conflict_with.induct) (auto split: if_splits)

lemma conflict_with_ok:
  "conflict_with a bs = Inr u \<Longrightarrow> b \<in> set bs \<Longrightarrow> equivalent (fst (snd a)) (fst (snd b))
   \<Longrightarrow> \<not> unsat (PAnd (snd (snd a)) (snd (snd b)))"
  by (induction a bs rule: conflict_with.induct) (auto split: if_splits)

lemma conflict_pairs_error:
  "conflict_pairs as = Inl e \<Longrightarrow> \<exists>a \<in> set as. \<exists>b \<in> set as. equivalent (fst (snd a)) (fst (snd b))
     \<and> unsat (PAnd (snd (snd a)) (snd (snd b))) \<and> e = Contradiction (fst a @ ''|'' @ fst b)"
  by (induction as) (fastforce simp: rbind_Inl_iff dest: conflict_with_error)+

lemma conflict_pairs_ok:
  "conflict_pairs as = Inr u \<Longrightarrow> i < j \<Longrightarrow> j < length as \<Longrightarrow> equivalent (fst (snd (as ! i))) (fst (snd (as ! j)))
   \<Longrightarrow> \<not> unsat (PAnd (snd (snd (as ! i))) (snd (snd (as ! j))))"
proof (induction as arbitrary: i j)
  case (Cons a as)
  then show ?case
    using conflict_with_ok[of a as _ "as ! (j - 1)"]
    by (cases i; cases j) (auto simp: rbind_Inr_iff)
qed simp

section \<open>Properties\<close>

text \<open>
  C15: A law is rejected only for a real contradiction.  When the fragment check reports one,
  either the named law's \<open>must\<close> is false in every store and context, or the two named laws apply
  in exactly the same situations and their \<open>must\<close>s are never true together.
\<close>

theorem contradiction_sound:
  assumes "check_fragment laws has_lockable = Inl (Contradiction s)"
  shows "(\<exists>l must ought. (s, l) \<in> set laws \<and> law_body_of l = LbPred must ought
       \<and> (\<forall>I ctx oth. \<not> sem I ctx oth must))
    \<or> (\<exists>na la ma oa nb lb mb ob. (na, la) \<in> set laws \<and> (nb, lb) \<in> set laws
       \<and> law_body_of la = LbPred ma oa \<and> law_body_of lb = LbPred mb ob \<and> s = na @ ''|'' @ nb
       \<and> (\<forall>I ctx oth. sem I ctx oth (law_when la) = sem I ctx oth (law_when lb))
       \<and> (\<forall>I ctx oth. \<not> (sem I ctx oth ma \<and> sem I ctx oth mb)))"
proof (cases "collect_laws laws []")
  case (Inl e)
  with assms have "e = Contradiction s" by (simp add: check_fragment_def split: if_splits)
  with collect_laws_error[OF Inl] obtain l must ought where l: "(s, l) \<in> set laws"
    "law_body_of l = LbPred must ought" "unsat (desugar must)" by auto
  have "\<not> sem I ctx oth must" for I ctx oth
    using unsat_sound[OF l(3), of "sem I ctx oth"] by (simp add: holds_sem sem_desugar)
  with l show ?thesis by blast
next
  case (Inr pls)
  with assms have "conflict_pairs pls = Inl (Contradiction s)" by (simp add: check_fragment_def split: if_splits)
  from conflict_pairs_error[OF this] obtain a b where ab: "a \<in> set pls" "b \<in> set pls"
    "equivalent (fst (snd a)) (fst (snd b))" "unsat (PAnd (snd (snd a)) (snd (snd b)))"
    "s = fst a @ ''|'' @ fst b" by auto
  from collect_laws_ok[OF Inr] ab(1,2) have "pred_law_of laws a" "pred_law_of laws b" by auto
  then obtain la ma oa lb mb ob where
    A: "(fst a, la) \<in> set laws" "law_body_of la = LbPred ma oa" "snd a = (desugar (law_when la), desugar ma)"
    and B: "(fst b, lb) \<in> set laws" "law_body_of lb = LbPred mb ob" "snd b = (desugar (law_when lb), desugar mb)"
    unfolding pred_law_of_def by (metis prod.collapse prod.inject)
  have "sem I ctx oth (law_when la) = sem I ctx oth (law_when lb)" for I ctx oth
    using equivalent_sound[OF ab(3), of "sem I ctx oth"] A(3) B(3) by (simp add: holds_sem sem_desugar)
  moreover have "\<not> (sem I ctx oth ma \<and> sem I ctx oth mb)" for I ctx oth
    using unsat_sound[OF ab(4), of "sem I ctx oth"] A(3) B(3) by (simp add: holds_sem sem_desugar)
  ultimately show ?thesis using A(1,2) B(1,2) ab(5) by blast
qed

definition always_never :: "(string \<times> law) list" where
  "always_never = [(''a'', \<lparr>law_ident = ''a'', law_when = PEqVerb Use, law_body_of = LbPred (PRiteActive ''r'') None\<rparr>),
     (''b'', \<lparr>law_ident = ''b'', law_when = PNot (PNot (PEqVerb Use)), law_body_of = LbPred (PNot (PRiteActive ''r'')) None\<rparr>)]"

theorem contradiction_sound_witness:
  "check_fragment always_never False = Inl (Contradiction ''a|b'')
   \<and> (\<exists>na la nb lb. ''a|b'' = na @ ''|'' @ nb \<and> (na, la) \<in> set always_never \<and> (nb, lb) \<in> set always_never)"
proof -
  have c: "check_fragment always_never False = Inl (Contradiction ''a|b'')"
    by (simp add: check_fragment_def always_never_def unsat_def equivalent_def sat_atoms_def Let_def upt_rec)
  have no: "(''a|b'', l) \<notin> set always_never" for l by (simp add: always_never_def)
  from contradiction_sound[OF c] no c show ?thesis by blast
qed

text \<open>
  Accepted laws are consistent.  When the check passes, every admission law whose \<open>must\<close> has at
  most twelve atoms can be met under some reading of the atoms, any two laws at different places
  that always apply together and have at most twelve atoms between them can be met at once, and
  if locks are declared some law admits them by key or by rite.
\<close>

theorem accepted_laws_consistent:
  assumes "check_fragment laws has_lockable = Inr ()"
  shows "(\<forall>n l must ought. (n, l) \<in> set laws \<and> law_body_of l = LbPred must ought
        \<and> atom_count (desugar must) \<le> sat_atoms \<longrightarrow> (\<exists>v. holds v (desugar must)))
    \<and> (\<exists>pls. collect_laws laws [] = Inr pls \<and>
        (\<forall>i j. i < j \<and> j < length pls \<and> equivalent (fst (snd (pls ! i))) (fst (snd (pls ! j)))
           \<and> atom_count (PAnd (snd (snd (pls ! i))) (snd (snd (pls ! j)))) \<le> sat_atoms
           \<longrightarrow> (\<exists>v. holds v (snd (snd (pls ! i))) \<and> holds v (snd (snd (pls ! j))))))
    \<and> (has_lockable \<longrightarrow> has_key_or_rite laws)"
proof -
  obtain pls where c: "collect_laws laws [] = Inr pls" and p: "conflict_pairs pls = Inr ()"
    using assms by (auto simp: check_fragment_def rbind_Inr_iff split: if_splits)
  have "\<exists>v. holds v (desugar must)"
    if "(n, l) \<in> set laws" "law_body_of l = LbPred must ought" "atom_count (desugar must) \<le> sat_atoms" for n l must ought
    using collect_laws_ok[OF c] that by (intro unsat_complete) blast+
  moreover have "\<exists>v. holds v (snd (snd (pls ! i))) \<and> holds v (snd (snd (pls ! j)))"
    if "i < j" "j < length pls" "equivalent (fst (snd (pls ! i))) (fst (snd (pls ! j)))"
      "atom_count (PAnd (snd (snd (pls ! i))) (snd (snd (pls ! j)))) \<le> sat_atoms" for i j
    using unsat_complete[OF conflict_pairs_ok[OF p that(1-3)] that(4)] by simp
  moreover have "has_lockable \<longrightarrow> has_key_or_rite laws"
    using assms by (auto simp: check_fragment_def split: if_splits)
  ultimately show ?thesis using c by blast
qed

definition lock_law :: "(string \<times> law) list" where
  "lock_law = [(''lock.admit'', \<lparr>law_ident = ''lock.admit'',
     law_when = PAnd (PEqVerb Open) (PAffordance Target ''Lockable''),
     law_body_of = LbPred (POr (PExistsRelated Target KeyedBy (PRel Other WieldedBy This)) (PRiteActive ''lockpick'')) None\<rparr>)]"

theorem accepted_laws_consistent_witness:
  "check_fragment lock_law True = Inr () \<and> has_key_or_rite lock_law
   \<and> (\<exists>v. holds v (POr (PExistsRelated Target KeyedBy (PRel Other WieldedBy This)) (PRiteActive ''lockpick'')))"
proof -
  have c: "check_fragment lock_law True = Inr ()"
    by (simp add: check_fragment_def lock_law_def unsat_def has_key_or_rite_def is_key_or_rite_def
        sat_atoms_def Let_def upt_rec)
  have n: "atom_count (desugar (POr (PExistsRelated Target KeyedBy (PRel Other WieldedBy This)) (PRiteActive ''lockpick''))) \<le> sat_atoms"
    by (simp add: atom_count_def sat_atoms_def)
  show ?thesis
    using accepted_laws_consistent[OF c] c n by (fastforce simp: lock_law_def)
qed

end
