(* ===== verification/IrMind.thy ===== *)
theory IrMind
  imports IrDecl
begin

text \<open>
  Compiled mind programs and documents: \<open>klotho-ir/src/mind.rs\<close>, \<open>validate.rs\<close> and the display
  of validation errors (\<open>error.rs\<close>).
\<close>

section \<open>Error text\<close>

fun show_nat :: "nat \<Rightarrow> string" where
  "show_nat n = (if n < 10 then [char_of (48 + n)] else show_nat (n div 10) @ [char_of (48 + n mod 10)])"

declare show_nat.simps [simp del]

fun join_names :: "string list \<Rightarrow> string" where
  "join_names [] = []"
| "join_names [x] = x"
| "join_names (x # xs) = x @ '','' @ join_names xs"

definition call_text :: "string \<Rightarrow> string \<Rightarrow> string" where
  "call_text f x = f @ ''('' @ x @ '')''"

fun ir_error_text :: "ir_error \<Rightarrow> string" where
  "ir_error_text (IrParse s) = call_text ''Parse'' s"
| "ir_error_text (IrSer s) = call_text ''Ser'' s"
| "ir_error_text EmptyName = ''EmptyName''"
| "ir_error_text NestedQuantifier = ''NestedQuantifier''"
| "ir_error_text InvalidRiteCap = ''InvalidRiteCap''"
| "ir_error_text (InvalidPhase p) = call_text ''InvalidPhase'' (show_nat p)"
| "ir_error_text DuplicateChannel = ''DuplicateChannel''"
| "ir_error_text InvalidModuleVersion = ''InvalidModuleVersion''"
| "ir_error_text (ImportCycle ns) = call_text ''ImportCycle'' (join_names ns)"
| "ir_error_text (HashDrift i e a) = call_text ''HashDrift'' (i @ '': expected '' @ e @ '', got '' @ a)"
| "ir_error_text (DuplicateModule s) = call_text ''DuplicateModule'' s"
| "ir_error_text (MissingModule s) = call_text ''MissingModule'' s"
| "ir_error_text (TombstoneReuse s) = call_text ''TombstoneReuse'' s"
| "ir_error_text (AliasCollision s) = call_text ''AliasCollision'' s"
| "ir_error_text (UnboundParameter s) = call_text ''UnboundParameter'' s"
| "ir_error_text (DuplicateAnchor s) = call_text ''DuplicateAnchor'' s"
| "ir_error_text (MissingAnchor s) = call_text ''MissingAnchor'' s"
| "ir_error_text (DuplicateObjectName s) = call_text ''DuplicateObjectName'' s"
| "ir_error_text (ExportUnknown s) = call_text ''ExportUnknown'' s"
| "ir_error_text (ParameterTypeMismatch s) = call_text ''ParameterTypeMismatch'' s"
| "ir_error_text (UnexpandedPattern s) = call_text ''UnexpandedPattern'' s"
| "ir_error_text (InvalidFeel f r) = call_text ''InvalidFeel'' (f @ '': '' @ r)"
| "ir_error_text (InvalidA11y f r) = call_text ''InvalidA11y'' (f @ '': '' @ r)"
| "ir_error_text (MindProgramCap l r a c) =
     call_text ''MindProgramCap'' (l @ ''.'' @ r @ '': '' @ show_nat a @ '' > '' @ show_nat c)"
| "ir_error_text (InvalidMindProgram r) = call_text ''InvalidMindProgram'' r"
| "ir_error_text (UnsafeFarFact l f) = call_text ''UnsafeFarFact'' (l @ ''.'' @ f)"
| "ir_error_text (InvalidPresent f r) = call_text ''InvalidPresent'' (f @ '': '' @ r)"

section \<open>Mind programs\<close>

datatype mind_ref = RefThis | RefPin string | RefRelated rel

fun mind_ref_check :: "mind_ref \<Rightarrow> ir_error + unit" where
  "mind_ref_check (RefPin n) = name_check n"
| "mind_ref_check _ = Inr ()"

datatype mind_query =
    Never
  | Always
  | Related mind_ref rel mind_ref
  | QtyAtLeast mind_ref string int
  | AnyQtyAtLeast string int
  | Near mind_ref mind_ref mm
  | TickModulo nat nat

fun mind_query_check :: "mind_query \<Rightarrow> ir_error + unit" where
  "mind_query_check Never = Inr ()"
| "mind_query_check Always = Inr ()"
| "mind_query_check (Related a r b) = rbind (mind_ref_check a) (\<lambda>_. mind_ref_check b)"
| "mind_query_check (Near a b w) = rbind (mind_ref_check a) (\<lambda>_. mind_ref_check b)"
| "mind_query_check (QtyAtLeast s res m) = rbind (mind_ref_check s) (\<lambda>_. name_check res)"
| "mind_query_check (AnyQtyAtLeast res m) = name_check res"
| "mind_query_check (TickModulo period phase) =
     (if period = 0 \<or> phase \<ge> period then Inl (InvalidMindProgram ''invalid Beat clock'') else Inr ())"

record mind_fact =
  fact_ident :: string
  fact_query :: mind_query
  far_safe :: bool

datatype mind_target = NoTarget | TargetRef mind_ref

fun mind_target_check :: "mind_target \<Rightarrow> ir_error + unit" where
  "mind_target_check NoTarget = Inr ()"
| "mind_target_check (TargetRef r) = mind_ref_check r"

record mind_operator =
  op_ident :: string
  op_requires :: "string list"
  op_sets :: "string list"
  op_clears :: "string list"
  op_cost :: nat
  op_verb :: verb
  op_target :: mind_target

record mind_goal =
  goal_ident :: string
  goal_desired :: "string list"
  goal_utility :: nat

record far_rule =
  far_requires :: "string list"
  far_effects :: "string list"
  far_verb :: verb
  far_target :: mind_target
  far_utility :: nat

record mind_program =
  mp_beat :: "string option"
  mp_facts :: "mind_fact list"
  mp_operators :: "mind_operator list"
  mp_goals :: "mind_goal list"
  mp_far :: "far_rule list"

definition max_mind_facts :: nat where
  "max_mind_facts = 64"

definition max_mind_operators :: nat where
  "max_mind_operators = 32"

definition max_mind_goals :: nat where
  "max_mind_goals = 4"

definition max_far_inputs :: nat where
  "max_far_inputs = 16"

definition mind_invalid :: "string \<Rightarrow> string \<Rightarrow> string \<Rightarrow> ir_error" where
  "mind_invalid locus reason item = InvalidMindProgram (locus @ '': '' @ reason @ '' '' @ item)"

text \<open>\<open>check_refs\<close>: every name is nonempty and names a declared fact.\<close>

definition check_refs :: "string \<Rightarrow> string list \<Rightarrow> string list \<Rightarrow> ir_error + unit" where
  "check_refs locus facts names =
     check_all (\<lambda>n. rbind (name_check n) (\<lambda>_.
       if n \<notin> set facts then Inl (mind_invalid locus ''unknown fact'' n) else Inr ())) names"

definition far_safe_query :: "mind_query \<Rightarrow> bool" where
  "far_safe_query q = (case q of Never \<Rightarrow> True | Always \<Rightarrow> True | TickModulo p f \<Rightarrow> True | _ \<Rightarrow> False)"

definition check_fact :: "string \<Rightarrow> string list \<Rightarrow> mind_fact \<Rightarrow> ir_error + string list" where
  "check_fact locus facts f =
     rbind (name_check (fact_ident f)) (\<lambda>_.
     rbind (mind_query_check (fact_query f)) (\<lambda>_.
       if far_safe f \<and> \<not> far_safe_query (fact_query f) then Inl (UnsafeFarFact locus (fact_ident f))
       else if fact_ident f \<in> set facts then Inl (mind_invalid locus ''duplicate fact'' (fact_ident f))
       else Inr (facts @ [fact_ident f])))"

definition check_operator :: "string \<Rightarrow> string list \<Rightarrow> string list \<Rightarrow> mind_operator \<Rightarrow> ir_error + string list" where
  "check_operator locus facts seen p =
     rbind (name_check (op_ident p)) (\<lambda>_.
       if op_cost p = 0 \<or> op_verb p = Time \<or> op_ident p \<in> set seen
       then Inl (mind_invalid locus ''invalid operator'' (op_ident p))
       else rbind (check_refs locus facts (op_requires p @ op_sets p @ op_clears p)) (\<lambda>_.
            rbind (mind_target_check (op_target p)) (\<lambda>_. Inr (seen @ [op_ident p]))))"

definition check_goal :: "string \<Rightarrow> string list \<Rightarrow> string list \<Rightarrow> mind_goal \<Rightarrow> ir_error + string list" where
  "check_goal locus facts seen g =
     rbind (name_check (goal_ident g)) (\<lambda>_.
       if goal_desired g = [] \<or> goal_ident g \<in> set seen
       then Inl (mind_invalid locus ''invalid goal'' (goal_ident g))
       else rbind (check_refs locus facts (goal_desired g)) (\<lambda>_. Inr (seen @ [goal_ident g])))"

definition far_name_check :: "string \<Rightarrow> mind_fact list \<Rightarrow> string \<Rightarrow> ir_error + unit" where
  "far_name_check locus fs n =
     (if \<not> list_ex (\<lambda>f. fact_ident f = n \<and> far_safe f) fs then Inl (UnsafeFarFact locus n) else Inr ())"

definition check_far :: "string \<Rightarrow> mind_program \<Rightarrow> string list \<Rightarrow> string list \<Rightarrow> far_rule \<Rightarrow> ir_error + string list" where
  "check_far locus p facts inputs row =
     (let names = far_requires row @ far_effects row in
      rbind (check_refs locus facts names) (\<lambda>_.
      rbind (mind_target_check (far_target row)) (\<lambda>_.
        if far_verb row \<notin> {Look, Move, Investigate} \<or> far_target row \<noteq> NoTarget
        then Inl (InvalidMindProgram (locus @ '': Far action must be un-targeted Look, Move, or Investigate''))
        else rbind (check_all (far_name_check locus (mp_facts p)) names) (\<lambda>_. Inr (inputs @ names)))))"

definition mind_program_check :: "mind_program \<Rightarrow> string \<Rightarrow> ir_error + unit" where
  "mind_program_check p locus =
     (if length (mp_facts p) > max_mind_facts
      then Inl (MindProgramCap locus ''facts'' (length (mp_facts p)) max_mind_facts)
      else if length (mp_operators p) > max_mind_operators
      then Inl (MindProgramCap locus ''operators'' (length (mp_operators p)) max_mind_operators)
      else if length (mp_goals p) > max_mind_goals
      then Inl (MindProgramCap locus ''goals'' (length (mp_goals p)) max_mind_goals)
      else if mp_beat p = Some [] then Inl EmptyName
      else
        rbind (rfold (check_fact locus) [] (mp_facts p)) (\<lambda>facts.
        rbind (rfold (check_operator locus facts) [] (mp_operators p)) (\<lambda>_.
        rbind (rfold (check_goal locus facts) [] (mp_goals p)) (\<lambda>_.
        rbind (rfold (check_far locus p facts) [] (mp_far p)) (\<lambda>inputs.
          let k = length (remdups inputs) in
          if k > max_far_inputs then Inl (MindProgramCap locus ''far inputs'' k max_far_inputs)
          else Inr ())))))"

record mind_spec =
  ms_locus :: string
  ms_program :: mind_program
  ms_templates :: "string list"

definition mind_spec_check :: "mind_spec \<Rightarrow> ir_error + unit" where
  "mind_spec_check m = rbind (name_check (ms_locus m)) (\<lambda>_. mind_program_check (ms_program m) (ms_locus m))"

section \<open>Documents\<close>

record style_intent =
  style_notes :: string
  palettes :: "string list"
  kitbash_tags :: "string list"

definition style_check :: "style_intent \<Rightarrow> ir_error + unit" where
  "style_check s = check_all name_check (palettes s @ kitbash_tags s)"

record intent_doc =
  doc_style :: style_intent
  canon_diffs :: "canon_diff list"
  doc_seed :: "seed_fact list"
  doc_minds :: "mind_spec list"

definition validate_doc :: "intent_doc \<Rightarrow> ir_error + unit" where
  "validate_doc d =
     rbind (style_check (doc_style d)) (\<lambda>_.
     rbind (check_all canon_diff_check (canon_diffs d)) (\<lambda>_.
     rbind (check_all seed_fact_check (doc_seed d)) (\<lambda>_.
       check_all mind_spec_check (doc_minds d))))"

end
