(* ===== verification/CanonTables.thy ===== *)
theory CanonTables
  imports IrMind CanonCompile
begin

text \<open>
  \<open>klotho-canon/src/tables.rs\<close> and \<open>epoch.rs\<close>: the cooked tables, their lookups, the interning of
  equal predicates, and the map between the packed ids of two cooked epochs.
\<close>

section \<open>Cooked rows\<close>

record cooked_cost =
  cc_res :: nat
  cc_amount :: int

datatype cooked_law_body =
    CkPred nat "cooked_cost option"
  | CkRamp nat int int int
  | CkSpread nat int mm nat int
  | CkConserve nat rel
  | CkCap nat nat "(rel \<times> cooked_slot) option"

record cooked_law =
  cl_id :: nat
  cl_name :: string
  cl_when :: nat
  cl_body :: cooked_law_body

record cooked_affordance =
  ca_id :: nat
  ca_name :: string
  ca_requires :: "nat list"
  ca_grants :: "string list"
  ca_conflicts :: "nat list"

record cooked_beat =
  cb_id :: string
  cb_notes :: string

record rite_instr =
  ri_pc :: nat
  ri_op :: rite_op

record rite_chunk =
  rc_entry :: nat
  rc_cap_steps :: nat
  rc_cap_ticks :: nat
  rc_instrs :: "rite_instr list"

record cooked_rite =
  cr_id :: nat
  cr_name :: string
  cr_chunk :: rite_chunk
  cr_guards :: "(nat, nat) btree"

record canon =
  cn_laws :: "cooked_law list"
  cn_affordances :: "cooked_affordance list"
  cn_rites :: "cooked_rite list"
  cn_beats :: "cooked_beat list"
  cn_preds :: "pred_program list"
  cn_resources :: "string list"
  cn_facts :: "string list"
  cn_pin_names :: "string list"
  cn_pin_sigils :: "sigil option list"
  cn_physics :: "(sigil, body_physics) btree"
  cn_contact_tracks :: "(sigil, contact_track) btree"
  cn_constraints :: "(sigil, constraint_physics) btree"
  law_by_name :: "(string, nat) btree"
  affordance_by_name :: "(string, nat) btree"
  rite_by_name :: "(string, nat) btree"
  resource_by_name :: "(string, nat) btree"

section \<open>Bindings and lookups\<close>

definition bind_physics :: "sigil \<Rightarrow> body_physics \<Rightarrow> canon \<Rightarrow> bool \<times> canon" where
  "bind_physics locus body c =
     (if \<not> body_valid body then (False, c)
      else (\<not> bt_has (cn_physics c) locus, c\<lparr>cn_physics := bt_insert locus body (cn_physics c)\<rparr>))"

definition body_physics_of :: "canon \<Rightarrow> sigil \<Rightarrow> body_physics option" where
  "body_physics_of c locus = bt_get (cn_physics c) locus"

definition bind_constraint :: "sigil \<Rightarrow> constraint_physics \<Rightarrow> canon \<Rightarrow> bool \<times> canon" where
  "bind_constraint i k c =
     (if \<not> constraint_valid k then (False, c)
      else (\<not> bt_has (cn_constraints c) i, c\<lparr>cn_constraints := bt_insert i k (cn_constraints c)\<rparr>))"

definition constraint_of :: "canon \<Rightarrow> sigil \<Rightarrow> constraint_physics option" where
  "constraint_of c i = bt_get (cn_constraints c) i"

definition canon_pred :: "canon \<Rightarrow> nat \<Rightarrow> pred_program option" where
  "canon_pred c i = nth_opt (cn_preds c) i"

definition canon_law_id :: "canon \<Rightarrow> string \<Rightarrow> nat option" where
  "canon_law_id c n = bt_get (law_by_name c) n"

definition canon_affordance_id :: "canon \<Rightarrow> string \<Rightarrow> nat option" where
  "canon_affordance_id c n = bt_get (affordance_by_name c) n"

definition canon_rite_id :: "canon \<Rightarrow> string \<Rightarrow> nat option" where
  "canon_rite_id c n = bt_get (rite_by_name c) n"

definition canon_resource_id :: "canon \<Rightarrow> string \<Rightarrow> nat option" where
  "canon_resource_id c n = bt_get (resource_by_name c) n"

definition canon_pin :: "canon \<Rightarrow> string \<Rightarrow> sigil option" where
  "canon_pin c n =
     (case find_index (\<lambda>m. m = n) (cn_pin_names c) of
        None \<Rightarrow> None
      | Some i \<Rightarrow> (case nth_opt (cn_pin_sigils c) i of Some s \<Rightarrow> s | None \<Rightarrow> None))"

section \<open>Interning equal predicates\<close>

fun unique_preds :: "pred_program list \<Rightarrow> pred_program list \<Rightarrow> nat list \<Rightarrow> pred_program list \<times> nat list" where
  "unique_preds [] unique remap = (unique, remap)"
| "unique_preds (p # ps) unique remap =
     (case find_index (\<lambda>known. known = p) unique of
        Some i \<Rightarrow> unique_preds ps unique (remap @ [i mod 65536])
      | None \<Rightarrow> unique_preds ps (unique @ [p]) (remap @ [length unique mod 65536]))"

fun remap_body :: "(nat \<Rightarrow> nat) \<Rightarrow> cooked_law_body \<Rightarrow> cooked_law_body" where
  "remap_body f (CkPred must ought) = CkPred (f must) ought"
| "remap_body f (CkCap mark n r) = CkCap (f mark) n r"
| "remap_body f b = b"

definition remap_law :: "(nat \<Rightarrow> nat) \<Rightarrow> cooked_law \<Rightarrow> cooked_law" where
  "remap_law f l = l\<lparr>cl_when := f (cl_when l), cl_body := remap_body f (cl_body l)\<rparr>"

definition remap_affordance :: "(nat \<Rightarrow> nat) \<Rightarrow> cooked_affordance \<Rightarrow> cooked_affordance" where
  "remap_affordance f a = a\<lparr>ca_requires := map f (ca_requires a)\<rparr>"

definition remap_rite :: "(nat \<Rightarrow> nat) \<Rightarrow> cooked_rite \<Rightarrow> cooked_rite" where
  "remap_rite f r = r\<lparr>cr_guards := map (\<lambda>(k, v). (k, f v)) (cr_guards r)\<rparr>"

definition intern_predicates :: "canon \<Rightarrow> nat \<times> canon" where
  "intern_predicates c =
     (let (unique, remap) = unique_preds (cn_preds c) [] []; f = (\<lambda>i. remap ! i)
      in (length (cn_preds c) - length unique,
          c\<lparr>cn_preds := unique, cn_laws := map (remap_law f) (cn_laws c),
            cn_affordances := map (remap_affordance f) (cn_affordances c),
            cn_rites := map (remap_rite f) (cn_rites c)\<rparr>))"

section \<open>Epochs\<close>

record epoch_map =
  em_resources :: "nat option list"
  em_affordances :: "nat option list"
  em_rites :: "nat option list"
  em_facts :: "nat option list"

text \<open>\<open>index_names\<close> collects (name, id) rows; a later row with the same name replaces an earlier one.\<close>

definition index_names :: "(string \<times> nat) list \<Rightarrow> (string, nat) btree" where
  "index_names rows = fold (\<lambda>(n, i). bt_insert n i) rows []"

definition numbered :: "nat \<Rightarrow> string list \<Rightarrow> (string \<times> nat) list" where
  "numbered bound ns = filter (\<lambda>(n, i). i < bound) (zip ns [0..<length ns])"

definition epoch_between :: "canon \<Rightarrow> canon \<Rightarrow> epoch_map" where
  "epoch_between a b =
     (let resource_names = index_names (numbered 256 (cn_resources b));
          affordance_names = index_names (map (\<lambda>x. (ca_name x, ca_id x)) (cn_affordances b));
          rite_names = index_names (map (\<lambda>x. (cr_name x, cr_id x)) (cn_rites b));
          fact_names = index_names (numbered 65536 (cn_facts b))
      in \<lparr>em_resources = map (bt_get resource_names) (cn_resources a),
          em_affordances = map (\<lambda>x. bt_get affordance_names (ca_name x)) (cn_affordances a),
          em_rites = map (\<lambda>x. bt_get rite_names (cr_name x)) (cn_rites a),
          em_facts = map (bt_get fact_names) (cn_facts a)\<rparr>)"

definition flat_get :: "'a option list \<Rightarrow> nat \<Rightarrow> 'a option" where
  "flat_get xs i = (case nth_opt xs i of Some x \<Rightarrow> x | None \<Rightarrow> None)"

definition epoch_resource :: "epoch_map \<Rightarrow> nat \<Rightarrow> nat option" where
  "epoch_resource m old = flat_get (em_resources m) old"

definition epoch_affordance :: "epoch_map \<Rightarrow> nat \<Rightarrow> nat option" where
  "epoch_affordance m old = flat_get (em_affordances m) old"

definition epoch_rite :: "epoch_map \<Rightarrow> nat \<Rightarrow> nat option" where
  "epoch_rite m old = flat_get (em_rites m) old"

definition epoch_fact :: "epoch_map \<Rightarrow> nat \<Rightarrow> nat option" where
  "epoch_fact m old = flat_get (em_facts m) old"

end
