(* ===== verification/CanonCfg.thy ===== *)
theory CanonCfg
  imports IrDecl CanonCompile
begin

text \<open>
  \<open>klotho-canon/src/cfg.rs\<close>: the control-flow check of a rite.  The recursive function \<open>visit\<close>
  of the cycle search takes fuel, one unit for each node it can still colour; \<open>has_cycle\<close> starts
  it with enough (\<open>has_cycle_total\<close>), and running out would be the error \<open>CookPanic\<close>.
\<close>

section \<open>Program counters\<close>

definition is_labeled :: "rite_node \<Rightarrow> bool" where
  "is_labeled n = (case n of NodeLabeled pc op \<Rightarrow> True | NodeOp op \<Rightarrow> False)"

type_synonym op_map = "(nat, rite_op) btree"

fun assign_labeled :: "rite_node list \<Rightarrow> nat list \<Rightarrow> op_map \<Rightarrow> cook_error + nat list \<times> op_map" where
  "assign_labeled [] order ops = Inr (order, ops)"
| "assign_labeled (NodeLabeled pc op # ns) order ops =
     (if bt_has ops pc then Inl (DuplicatePc pc)
      else assign_labeled ns (order @ [pc]) (bt_insert pc op ops))"
| "assign_labeled (NodeOp op # ns) order ops = Inl CookPanic"

fun assign_ops :: "rite_node list \<Rightarrow> nat \<Rightarrow> nat list \<Rightarrow> op_map \<Rightarrow> cook_error + nat list \<times> op_map" where
  "assign_ops [] i order ops = Inr (order, ops)"
| "assign_ops (NodeOp op # ns) i order ops =
     (let pc = i mod 65536 in assign_ops ns (Suc i) (order @ [pc]) (bt_insert pc op ops))"
| "assign_ops (NodeLabeled pc op # ns) i order ops = Inl CookPanic"

definition assign_pcs :: "rite_node list \<Rightarrow> cook_error + nat list \<times> op_map" where
  "assign_pcs nodes =
     (let any_labeled = (\<exists>n \<in> set nodes. is_labeled n); any_op = (\<exists>n \<in> set nodes. \<not> is_labeled n)
      in if any_labeled \<and> any_op then Inl MixedLabeling
         else if any_labeled then assign_labeled nodes [] []
         else assign_ops nodes 0 [] [])"

definition next_in_order :: "nat list \<Rightarrow> nat \<Rightarrow> nat option" where
  "next_in_order order pc =
     (case find_index (\<lambda>p. p = pc) order of None \<Rightarrow> None | Some i \<Rightarrow> nth_opt order (i + 1))"

section \<open>Edges\<close>

definition require_target :: "nat \<Rightarrow> op_map \<Rightarrow> nat \<Rightarrow> cook_error + nat" where
  "require_target pc ops tgt = (if bt_has ops tgt then Inr tgt else Inl (MissingTarget pc tgt))"

definition require_next :: "nat \<Rightarrow> nat option \<Rightarrow> cook_error + nat" where
  "require_next pc nxt = (case nxt of Some n \<Rightarrow> Inr n | None \<Rightarrow> Inl (FallOff pc))"

definition succ_fail :: "nat \<Rightarrow> nat \<Rightarrow> nat option \<Rightarrow> op_map \<Rightarrow> cook_error + nat list" where
  "succ_fail pc f nxt ops =
     rbind (require_target pc ops f) (\<lambda>f. rbind (require_next pc nxt) (\<lambda>n. Inr [n, f]))"

definition successors :: "nat \<Rightarrow> rite_op \<Rightarrow> nat option \<Rightarrow> op_map \<Rightarrow> cook_error + nat list" where
  "successors pc op nxt ops =
     (case op of
        Halt s \<Rightarrow> Inr []
      | Complete s \<Rightarrow> Inr []
      | Guard p f \<Rightarrow> succ_fail pc f nxt ops
      | Spend n a f \<Rightarrow> succ_fail pc f nxt ops
      | Branch p y n \<Rightarrow>
          rbind (require_target pc ops y) (\<lambda>y. rbind (require_target pc ops n) (\<lambda>n. Inr [y, n]))
      | _ \<Rightarrow> rbind (require_next pc nxt) (\<lambda>n. Inr [n]))"

type_synonym adjacency = "(nat, nat list) btree"

definition edges_of :: "adjacency \<Rightarrow> nat \<Rightarrow> nat list" where
  "edges_of sc pc = (case bt_get sc pc of Some es \<Rightarrow> es | None \<Rightarrow> [])"

section \<open>Reachability\<close>

lemma edges_of_key: "pc \<notin> fst ` set sc \<Longrightarrow> edges_of sc pc = []"
  by (simp add: edges_of_def bt_get_None_iff[THEN iffD2])

text \<open>The stack is a list with its top first; \<open>extend\<close> pushes the edges in order.\<close>

function (sequential) bfs_loop :: "adjacency \<Rightarrow> nat list \<Rightarrow> nat set \<Rightarrow> nat set" where
  "bfs_loop sc [] seen = seen"
| "bfs_loop sc (pc # stack) seen =
     (if pc \<in> seen then bfs_loop sc stack seen
      else bfs_loop sc (rev (edges_of sc pc) @ stack) (insert pc seen))"
  by pat_completeness auto

termination
proof (relation "measures [\<lambda>(sc, st, seen). card (fst ` set sc - seen), \<lambda>(sc, st, seen). length st]", goal_cases)
  case (3 sc pc stack seen)
  show ?case
  proof (cases "pc \<in> fst ` set sc")
    case True
    with 3 have "fst ` set sc - insert pc seen \<subset> fst ` set sc - seen" by blast
    then have "card (fst ` set sc - insert pc seen) < card (fst ` set sc - seen)"
      by (intro psubset_card_mono) auto
    then show ?thesis by simp
  next
    case False
    then have "fst ` set sc - insert pc seen = fst ` set sc - seen" by blast
    then show ?thesis by (simp add: edges_of_key[OF False])
  qed
qed simp_all

definition bfs :: "nat \<Rightarrow> adjacency \<Rightarrow> nat set" where
  "bfs entry sc = bfs_loop sc [entry] {}"

section \<open>Cycles\<close>

datatype colour = White | Gray | Black

type_synonym colours = "(nat, colour) btree"

definition colour_of :: "colours \<Rightarrow> nat \<Rightarrow> colour" where
  "colour_of col q = (case bt_get col q of Some c \<Rightarrow> c | None \<Rightarrow> White)"

function (sequential) visit :: "nat \<Rightarrow> adjacency \<Rightarrow> nat \<Rightarrow> colours \<Rightarrow> (bool \<times> colours) option"
  and visit_edges :: "nat \<Rightarrow> adjacency \<Rightarrow> nat list \<Rightarrow> colours \<Rightarrow> (bool \<times> colours) option"
where
  "visit 0 sc pc col = None"
| "visit (Suc n) sc pc col =
     (case visit_edges n sc (edges_of sc pc) (bt_insert pc Gray col) of
        Some (False, col') \<Rightarrow> Some (False, bt_insert pc Black col')
      | r \<Rightarrow> r)"
| "visit_edges n sc [] col = Some (False, col)"
| "visit_edges n sc (q # qs) col =
     (case colour_of col q of
        Gray \<Rightarrow> Some (True, col)
      | White \<Rightarrow> (case visit n sc q col of
            Some (False, col') \<Rightarrow> visit_edges n sc qs col'
          | r \<Rightarrow> r)
      | Black \<Rightarrow> visit_edges n sc qs col)"
  by pat_completeness auto
termination
  by (relation "measures
       [\<lambda>x. case x of Inl (n, _) \<Rightarrow> 2 * n | Inr (n, _) \<Rightarrow> 2 * n + 1,
        \<lambda>x. case x of Inl _ \<Rightarrow> 0 | Inr (_, _, qs, _) \<Rightarrow> length qs]") auto

fun visit_all :: "nat \<Rightarrow> adjacency \<Rightarrow> nat list \<Rightarrow> colours \<Rightarrow> bool option" where
  "visit_all n sc [] col = Some False"
| "visit_all n sc (pc # pcs) col =
     (if colour_of col pc = White then
        (case visit n sc pc col of
           None \<Rightarrow> None
         | Some (True, col') \<Rightarrow> Some True
         | Some (False, col') \<Rightarrow> visit_all n sc pcs col')
      else visit_all n sc pcs col)"

definition has_cycle :: "nat list \<Rightarrow> adjacency \<Rightarrow> bool option" where
  "has_cycle order sc =
     visit_all (Suc (length order)) sc order (fold (\<lambda>pc. bt_insert pc White) order [])"

section \<open>The check\<close>

definition succ_map :: "nat list \<Rightarrow> op_map \<Rightarrow> cook_error + adjacency" where
  "succ_map order ops =
     rfold (\<lambda>sc pc. case bt_get ops pc of
        Some op \<Rightarrow> rbind (successors pc op (next_in_order order pc) ops) (\<lambda>es. Inr (bt_insert pc es sc))
      | None \<Rightarrow> Inl CookPanic) [] order"

definition check_rite_cfg :: "rite_graph \<Rightarrow> cook_error + op_map" where
  "check_rite_cfg g =
     rbind (assign_pcs (rite_nodes g)) (\<lambda>(order, ops).
       if \<not> bt_has ops (rite_entry g) then Inl (MissingEntry (rite_entry g))
       else rbind (succ_map order ops) (\<lambda>sc.
         let reachable = bfs (rite_entry g) sc in
         case find_index (\<lambda>pc. pc \<notin> reachable) order of
           Some i \<Rightarrow> Inl (Unreachable (order ! i))
         | None \<Rightarrow>
             (case has_cycle order sc of
                Some True \<Rightarrow> Inl Cycle
              | Some False \<Rightarrow> Inr ops
              | None \<Rightarrow> Inl CookPanic)))"

end
