(* ===== verification/CanonCook.thy ===== *)
theory CanonCook
  imports CanonTables CanonCfg CanonContradict
begin

text \<open>
  \<open>klotho-canon/src/cook.rs\<close>: from diffs, seed facts and mind programs to the packed tables.  The
  phases of \<open>cook_inner\<close> are the definitions below, in its order; \<open>u16_len\<close> is \<open>u16_id\<close>.  A message
  is built by \<open>format!\<close>; \<open>cook\<close> wraps a validation error as its text.
\<close>

section \<open>Applying diffs\<close>

record draft =
  d_laws :: "(string \<times> law) list"
  d_law_ix :: "(string, nat) btree"
  d_affordances :: "(string \<times> affordance) list"
  d_aff_ix :: "(string, nat) btree"
  d_rites :: "rite_graph list"
  d_rite_ix :: "(string, nat) btree"
  d_beats :: "beat list"
  d_beat_ix :: "(string, nat) btree"

definition draft_new :: draft where
  "draft_new = \<lparr>d_laws = [], d_law_ix = [], d_affordances = [], d_aff_ix = [], d_rites = [],
     d_rite_ix = [], d_beats = [], d_beat_ix = []\<rparr>"

definition remove_at :: "nat \<Rightarrow> 'a list \<Rightarrow> 'a list" where
  "remove_at i xs = take i xs @ drop (Suc i) xs"

definition reindex :: "string list \<Rightarrow> (string, nat) btree" where
  "reindex ns = fold (\<lambda>(n, j). bt_insert n j) (zip ns [0..<length ns]) []"

definition retract_law :: "string \<Rightarrow> draft \<Rightarrow> cook_error + draft" where
  "retract_law i d =
     (case bt_get (d_law_ix d) i of
        None \<Rightarrow> Inl (UnknownRetract i)
      | Some k \<Rightarrow>
          let laws = remove_at k (d_laws d)
          in Inr (d\<lparr>d_laws := laws, d_law_ix := reindex (map fst laws)\<rparr>))"

definition retract_rite :: "string \<Rightarrow> draft \<Rightarrow> cook_error + draft" where
  "retract_rite i d =
     (case bt_get (d_rite_ix d) i of
        None \<Rightarrow> Inl (UnknownRetract i)
      | Some k \<Rightarrow>
          let rites = remove_at k (d_rites d)
          in Inr (d\<lparr>d_rites := rites, d_rite_ix := reindex (map rite_ident rites)\<rparr>))"

fun apply_diff :: "draft \<Rightarrow> canon_diff \<Rightarrow> cook_error + draft" where
  "apply_diff d (AddLaw l) =
     (if bt_has (d_law_ix d) (law_ident l) then Inl (DuplicateId (law_ident l))
      else Inr (d\<lparr>d_law_ix := bt_insert (law_ident l) (length (d_laws d)) (d_law_ix d),
                  d_laws := d_laws d @ [(law_ident l, l)]\<rparr>))"
| "apply_diff d (RetractLaw i reason) = retract_law i d"
| "apply_diff d (AddAffordance a) =
     (if bt_has (d_aff_ix d) (aff_ident a) then Inl (DuplicateId (aff_ident a))
      else Inr (d\<lparr>d_aff_ix := bt_insert (aff_ident a) (length (d_affordances d)) (d_aff_ix d),
                  d_affordances := d_affordances d @ [(aff_ident a, a)]\<rparr>))"
| "apply_diff d (AddRite g) =
     (if bt_has (d_rite_ix d) (rite_ident g) then Inl (DuplicateId (rite_ident g))
      else Inr (d\<lparr>d_rite_ix := bt_insert (rite_ident g) (length (d_rites d)) (d_rite_ix d),
                  d_rites := d_rites d @ [g]\<rparr>))"
| "apply_diff d (RetractRite i reason) = retract_rite i d"
| "apply_diff d (AddBeat b) =
     (if bt_has (d_beat_ix d) (beat_ident b) then Inl (DuplicateId (beat_ident b))
      else Inr (d\<lparr>d_beat_ix := bt_insert (beat_ident b) (length (d_beats d)) (d_beat_ix d),
                  d_beats := d_beats d @ [b]\<rparr>))"

definition draft_apply :: "canon_diff list \<Rightarrow> cook_error + draft" where
  "draft_apply ds = rfold apply_diff draft_new ds"

section \<open>Names and pins\<close>

fun number_names :: "nat \<Rightarrow> string list \<Rightarrow> (string, nat) btree \<Rightarrow> cook_error + (string, nat) btree" where
  "number_names i [] m = Inr m"
| "number_names i (n # ns) m = rbind (u16_id i) (\<lambda>k. number_names (Suc i) ns (bt_insert n k m))"

definition require_pin :: "interner \<Rightarrow> string \<Rightarrow> cook_error + unit" where
  "require_pin I n = (if bt_has (pins I) n then Inr () else Inl (UnboundName n))"

definition alloc_sigil :: "locus_kind \<Rightarrow> 128 word \<Rightarrow> cook_error + sigil \<times> 128 word" where
  "alloc_sigil k nxt =
     (case sigil_pack k 0 nxt of None \<Rightarrow> Inl TableFull | Some s \<Rightarrow> Inr (s, nxt + 1))"

text \<open>One seed locus: a duplicate name fails; otherwise it takes the next pin and a fresh identifier.\<close>

definition pin_locus ::
    "interner \<times> 128 word \<times> string list \<Rightarrow> seed_fact \<Rightarrow> cook_error + interner \<times> 128 word \<times> string list" where
  "pin_locus st s =
     (case s of
        SeedLocus n k \<Rightarrow>
          (case st of (I, nxt, seen) \<Rightarrow>
             if n \<in> set seen then Inl (DuplicateId n)
             else rbind (u16_id (length (pin_names I))) (\<lambda>i.
                  rbind (alloc_sigil k nxt) (\<lambda>(sg, nxt').
                    Inr (I\<lparr>pins := bt_insert n i (pins I), pin_names := pin_names I @ [n],
                           pin_sigils := pin_sigils I @ [Some sg]\<rparr>, nxt', n # seen))))
      | _ \<Rightarrow> Inr st)"

definition require_seed :: "interner \<Rightarrow> seed_fact \<Rightarrow> cook_error + interner" where
  "require_seed I s =
     (case s of
        SeedRel a r b \<Rightarrow> rbind (require_pin I a) (\<lambda>_. rbind (require_pin I b) (\<lambda>_. Inr I))
      | SeedQty a res v \<Rightarrow> rbind (require_pin I a) (\<lambda>_. rbind (intern_resource res I) (\<lambda>(i, J). Inr J))
      | SeedPose a p \<Rightarrow> rbind (require_pin I a) (\<lambda>_. Inr I)
      | SeedPhysics a b \<Rightarrow> rbind (require_pin I a) (\<lambda>_. Inr I)
      | SeedContactTrack a t \<Rightarrow> rbind (require_pin I a) (\<lambda>_. Inr I)
      | SeedLocus n k \<Rightarrow> Inr I)"

definition intern_seed :: "draft \<Rightarrow> seed_fact list \<Rightarrow> cook_error + interner" where
  "intern_seed d seed =
     rbind (number_names 0 (map fst (d_affordances d)) []) (\<lambda>affs.
     rbind (number_names 0 (map rite_ident (d_rites d)) []) (\<lambda>rts.
     rbind (rfold pin_locus (interner_new\<lparr>affordances := affs, rites := rts\<rparr>, 0, []) seed) (\<lambda>(I, _).
       let J = I\<lparr>strict_pins := (seed \<noteq> [])\<rparr>
       in if strict_pins J then rfold require_seed J seed else Inr J)))"

section \<open>Mind programs\<close>

definition cook_mind_ref :: "mind_ref \<Rightarrow> interner \<Rightarrow> cook_error + unit" where
  "cook_mind_ref r I = (case r of RefPin n \<Rightarrow> require_pin I n | _ \<Rightarrow> Inr ())"

definition cook_mind_fact :: "interner \<Rightarrow> mind_fact \<Rightarrow> cook_error + interner" where
  "cook_mind_fact I f =
     (case fact_query f of
        Related a r b \<Rightarrow> rbind (cook_mind_ref a I) (\<lambda>_. rbind (cook_mind_ref b I) (\<lambda>_. Inr I))
      | Near a b w \<Rightarrow> rbind (cook_mind_ref a I) (\<lambda>_. rbind (cook_mind_ref b I) (\<lambda>_. Inr I))
      | QtyAtLeast s res m \<Rightarrow>
          rbind (cook_mind_ref s I) (\<lambda>_. rbind (intern_resource res I) (\<lambda>(i, J). Inr J))
      | AnyQtyAtLeast res m \<Rightarrow> rbind (intern_resource res I) (\<lambda>(i, J). Inr J)
      | _ \<Rightarrow> Inr I)"

definition cook_mind_target :: "interner \<Rightarrow> mind_target \<Rightarrow> cook_error + interner" where
  "cook_mind_target I t = (case t of TargetRef r \<Rightarrow> rbind (cook_mind_ref r I) (\<lambda>_. Inr I) | NoTarget \<Rightarrow> Inr I)"

definition cook_mind_names :: "mind_program \<Rightarrow> interner \<Rightarrow> cook_error + interner" where
  "cook_mind_names p I =
     rbind (rfold cook_mind_fact I (mp_facts p)) (\<lambda>J.
       rfold cook_mind_target J (map op_target (mp_operators p) @ map far_target (mp_far p)))"

definition cook_mind :: "interner \<Rightarrow> mind_spec \<Rightarrow> cook_error + interner" where
  "cook_mind I m = rbind (require_pin I (ms_locus m)) (\<lambda>_. cook_mind_names (ms_program m) I)"

section \<open>Predicates, laws and affordances\<close>

definition push_pred :: "pred_program list \<Rightarrow> pred_program \<Rightarrow> cook_error + nat \<times> pred_program list" where
  "push_pred ps p = rbind (u16_id (length ps)) (\<lambda>i. Inr (i, ps @ [p]))"

type_synonym cook_state = "interner \<times> pred_program list"

definition cook_pred :: "pred \<Rightarrow> cook_state \<Rightarrow> cook_error + nat \<times> cook_state" where
  "cook_pred p st =
     (case st of (I, ps) \<Rightarrow>
        rbind (compile_pred_with p I) (\<lambda>(prog, J).
        rbind (push_pred ps prog) (\<lambda>(i, qs). Inr (i, J, qs))))"

definition cook_resource :: "string \<Rightarrow> cook_state \<Rightarrow> cook_error + nat \<times> cook_state" where
  "cook_resource n st =
     (case st of (I, ps) \<Rightarrow> rbind (intern_resource n I) (\<lambda>(i, J). Inr (i, J, ps)))"

fun cook_body :: "law_body \<Rightarrow> cook_state \<Rightarrow> cook_error + cooked_law_body \<times> cook_state" where
  "cook_body (LbPred must ought) st =
     rbind (cook_pred must st) (\<lambda>(m, st1).
       case ought of
         Some c \<Rightarrow> rbind (cook_resource (cost_res c) st1) (\<lambda>(r, st2).
           Inr (CkPred m (Some \<lparr>cc_res = r, cc_amount = cost_amount c\<rparr>), st2))
       | None \<Rightarrow> Inr (CkPred m None, st1))"
| "cook_body (LbRamp res per_tick quantum cap) st =
     rbind (cook_resource res st) (\<lambda>(r, st1). Inr (CkRamp r per_tick quantum cap, st1))"
| "cook_body (LbSpread res per_tick near cap_global ignite_at) st =
     rbind (cook_resource res st) (\<lambda>(r, st1). Inr (CkSpread r per_tick near cap_global ignite_at, st1))"
| "cook_body (LbConserve res over) st =
     rbind (cook_resource res st) (\<lambda>(r, st1). Inr (CkConserve r over, st1))"
| "cook_body (LbCap mark n require_rel) st =
     rbind (cook_pred mark st) (\<lambda>(m, I, ps).
       case require_rel of
         Some (r, s) \<Rightarrow> rbind (cook_slot s I) (\<lambda>(x, J). Inr (CkCap m n (Some (r, x)), J, ps))
       | None \<Rightarrow> Inr (CkCap m n None, I, ps))"

fun cook_laws ::
    "nat \<Rightarrow> (string \<times> law) list \<Rightarrow> cook_state \<Rightarrow> cooked_law list \<Rightarrow> (string, nat) btree
      \<Rightarrow> cook_error + (cooked_law list \<times> (string, nat) btree) \<times> cook_state" where
  "cook_laws i [] st acc by_name = Inr ((acc, by_name), st)"
| "cook_laws i ((n, l) # ls) st acc by_name =
     rbind (u16_id i) (\<lambda>k.
     rbind (cook_pred (law_when l) st) (\<lambda>(w, st1).
     rbind (cook_body (law_body_of l) st1) (\<lambda>(b, st2).
       cook_laws (Suc i) ls st2 (acc @ [\<lparr>cl_id = k, cl_name = n, cl_when = w, cl_body = b\<rparr>])
         (bt_insert n k by_name))))"

fun cook_each :: "('a \<Rightarrow> 's \<Rightarrow> cook_error + 'b \<times> 's) \<Rightarrow> 'a list \<Rightarrow> 's \<Rightarrow> cook_error + 'b list \<times> 's" where
  "cook_each f [] st = Inr ([], st)"
| "cook_each f (x # xs) st =
     rbind (f x st) (\<lambda>(y, st1). rbind (cook_each f xs st1) (\<lambda>(ys, st2). Inr (y # ys, st2)))"

definition cook_conflict :: "string \<Rightarrow> cook_state \<Rightarrow> cook_error + nat \<times> cook_state" where
  "cook_conflict n st =
     (case st of (I, ps) \<Rightarrow> rbind (intern_affordance n I) (\<lambda>(i, J). Inr (i, J, ps)))"

fun cook_affordances ::
    "nat \<Rightarrow> (string \<times> affordance) list \<Rightarrow> cook_state \<Rightarrow> cooked_affordance list
      \<Rightarrow> cook_error + cooked_affordance list \<times> cook_state" where
  "cook_affordances i [] st acc = Inr (acc, st)"
| "cook_affordances i ((n, a) # as) st acc =
     rbind (u16_id i) (\<lambda>k.
     rbind (cook_each cook_pred (aff_requires a) st) (\<lambda>(rs, st1).
     rbind (cook_each cook_conflict (aff_conflicts a) st1) (\<lambda>(cs, st2).
       cook_affordances (Suc i) as st2 (acc @ [\<lparr>ca_id = k, ca_name = n, ca_requires = rs,
         ca_grants = aff_grants a, ca_conflicts = cs\<rparr>]))))"

section \<open>Rites\<close>

definition node_pc :: "nat \<Rightarrow> rite_node \<Rightarrow> nat \<times> rite_op" where
  "node_pc i node = (case node of NodeOp op \<Rightarrow> (i mod 65536, op) | NodeLabeled pc op \<Rightarrow> (pc, op))"

definition cook_guard :: "nat \<Rightarrow> rite_op \<Rightarrow> (nat, nat) btree \<Rightarrow> cook_state \<Rightarrow> cook_error + (nat, nat) btree \<times> cook_state" where
  "cook_guard pc op guards st =
     (case op of
        Guard p f \<Rightarrow> rbind (cook_pred p st) (\<lambda>(i, st1). Inr (bt_insert pc i guards, st1))
      | Branch p y n \<Rightarrow> rbind (cook_pred p st) (\<lambda>(i, st1). Inr (bt_insert pc i guards, st1))
      | Spend res a f \<Rightarrow> rbind (cook_resource res st) (\<lambda>(i, st1). Inr (guards, st1))
      | Setq s res v \<Rightarrow> rbind (cook_resource res st) (\<lambda>(i, st1). Inr (guards, st1))
      | Spawn n \<Rightarrow> (case st of (I, ps) \<Rightarrow> rbind (intern_fact n I) (\<lambda>(i, J). Inr (guards, J, ps)))
      | _ \<Rightarrow> Inr (guards, st))"

fun cook_nodes ::
    "nat \<Rightarrow> rite_node list \<Rightarrow> cook_state \<Rightarrow> rite_instr list \<Rightarrow> (nat, nat) btree
      \<Rightarrow> cook_error + (rite_instr list \<times> (nat, nat) btree) \<times> cook_state" where
  "cook_nodes i [] st instrs guards = Inr ((instrs, guards), st)"
| "cook_nodes i (node # ns) st instrs guards =
     (let (pc, op) = node_pc i node in
      rbind (cook_guard pc op guards st) (\<lambda>(guards', st1).
        cook_nodes (Suc i) ns st1 (instrs @ [\<lparr>ri_pc = pc, ri_op = op\<rparr>]) guards'))"

definition cook_rite :: "nat \<Rightarrow> rite_graph \<Rightarrow> cook_state \<Rightarrow> cook_error + cooked_rite \<times> cook_state" where
  "cook_rite k g st =
     rbind (check_rite_cfg g) (\<lambda>_.
     rbind (cook_nodes 0 (rite_nodes g) st [] []) (\<lambda>((instrs, guards), st1).
       Inr (\<lparr>cr_id = k, cr_name = rite_ident g,
             cr_chunk = \<lparr>rc_entry = rite_entry g, rc_cap_steps = cap_steps g, rc_cap_ticks = cap_ticks g,
               rc_instrs = instrs\<rparr>, cr_guards = guards\<rparr>, st1)))"

fun cook_rites ::
    "nat \<Rightarrow> rite_graph list \<Rightarrow> cook_state \<Rightarrow> cooked_rite list \<Rightarrow> cook_error + cooked_rite list \<times> cook_state" where
  "cook_rites i [] st acc = Inr (acc, st)"
| "cook_rites i (g # gs) st acc =
     rbind (u16_id i) (\<lambda>k. rbind (cook_rite k g st) (\<lambda>(r, st1). cook_rites (Suc i) gs st1 (acc @ [r])))"

section \<open>Tables\<close>

text \<open>Affordances that are only mentioned get empty rows; then all rows are sorted by id.\<close>

definition with_implicit :: "cooked_affordance list \<Rightarrow> interner \<Rightarrow> cooked_affordance list" where
  "with_implicit as I =
     sort_key ca_id (as @ map (\<lambda>(n, i). \<lparr>ca_id = i, ca_name = n, ca_requires = [], ca_grants = [], ca_conflicts = []\<rparr>)
       (filter (\<lambda>(n, i). n \<notin> ca_name ` set as) (affordances I)))"

definition names_by_id :: "(string, nat) btree \<Rightarrow> string list" where
  "names_by_id m = map snd (sort_key fst (map (\<lambda>(n, i). (i, n)) m))"

definition bind_seed_physics :: "canon \<Rightarrow> seed_fact \<Rightarrow> cook_error + canon" where
  "bind_seed_physics c s =
     (case s of
        SeedPhysics n body \<Rightarrow>
          (case canon_pin c n of
             None \<Rightarrow> Inl (UnboundName n)
           | Some locus \<Rightarrow>
               if character body \<noteq> None \<and> sigil_kind locus \<noteq> Some Actor
               then Inl (InvalidDoc (''character physics requires an Actor: '' @ n))
               else if vehicle body \<noteq> None \<and> sigil_kind locus \<noteq> Some Relic
               then Inl (InvalidDoc (''vehicle physics requires a Relic: '' @ n))
               else (case bind_physics locus body c of (ok, c') \<Rightarrow> if ok then Inr c' else Inl (DuplicateId n)))
      | _ \<Rightarrow> Inr c)"

definition waits_for :: "contact_track \<Rightarrow> rite_instr \<Rightarrow> bool" where
  "waits_for t i = (ri_pc i = wait_pc t \<and>
     (case ri_op i of Wait w (Some ch) \<Rightarrow> w = wait_ticks t \<and> channel_as_u8 ch = track_channel t | _ \<Rightarrow> False))"

definition bind_seed_track :: "canon \<Rightarrow> seed_fact \<Rightarrow> cook_error + canon" where
  "bind_seed_track c s =
     (case s of
        SeedContactTrack n t \<Rightarrow>
          (case canon_pin c n of
             None \<Rightarrow> Inl (UnboundName n)
           | Some actor \<Rightarrow>
               if sigil_kind actor \<noteq> Some Actor \<or> \<not> contact_track_valid t
                 \<or> \<not> (case find (\<lambda>r. cr_name r = track_rite t) (cn_rites c) of
                       Some r \<Rightarrow> list_ex (waits_for t) (rc_instrs (cr_chunk r))
                     | None \<Rightarrow> False)
               then Inl (InvalidDoc (''invalid contact binding for '' @ n))
               else if bt_has (cn_contact_tracks c) actor then Inl (DuplicateId n)
               else Inr (c\<lparr>cn_contact_tracks := bt_insert actor t (cn_contact_tracks c)\<rparr>))
      | _ \<Rightarrow> Inr c)"

section \<open>Cooking\<close>

definition cook_inner :: "canon_diff list \<Rightarrow> seed_fact list \<Rightarrow> mind_spec list \<Rightarrow> cook_error + canon" where
  "cook_inner ds seed minds =
     rbind (draft_apply ds) (\<lambda>d.
     rbind (check_fragment (d_laws d) (list_ex (\<lambda>(n, a). n = ''Lockable'') (d_affordances d))) (\<lambda>_.
     rbind (intern_seed d seed) (\<lambda>I0.
     rbind (rfold cook_mind I0 minds) (\<lambda>I1.
     rbind (cook_laws 0 (d_laws d) (I1, []) [] []) (\<lambda>((laws, laws_by_name), st1).
     rbind (cook_affordances 0 (d_affordances d) st1 []) (\<lambda>(affs, st2).
     rbind (cook_rites 0 (d_rites d) st2 []) (\<lambda>(rts, I, preds).
     rbind (rfold bind_seed_physics
        \<lparr>cn_laws = laws, cn_affordances = with_implicit affs I, cn_rites = rts,
         cn_beats = map (\<lambda>b. \<lparr>cb_id = beat_ident b, cb_notes = beat_notes b\<rparr>) (d_beats d),
         cn_preds = preds, cn_resources = names_by_id (resources I), cn_facts = names_by_id (facts I),
         cn_pin_names = pin_names I, cn_pin_sigils = pin_sigils I, cn_physics = [],
         cn_contact_tracks = [], cn_constraints = [], law_by_name = laws_by_name,
         affordance_by_name = affordances I, rite_by_name = rites I, resource_by_name = resources I\<rparr> seed) (\<lambda>c.
       rfold bind_seed_track c seed))))))))"

definition cook :: "intent_doc \<Rightarrow> cook_error + canon" where
  "cook doc =
     (case validate_doc doc of
        Inl e \<Rightarrow> Inl (InvalidDoc (ir_error_text e))
      | Inr u \<Rightarrow> cook_inner (canon_diffs doc) (doc_seed doc) (doc_minds doc))"

definition cook_diffs :: "canon_diff list \<Rightarrow> cook_error + canon" where
  "cook_diffs ds = cook_inner ds [] []"

end
