(* ===== verification/CanonStore.thy ===== *)
theory CanonStore
  imports CanonCorrect "HOL-Library.Product_Lexorder"
begin

text \<open>
  The contract a \<open>PredStore\<close> gives the interpreter, the in-memory store that meets it, and
  the properties of evaluation: correctness of the compiler, budgets, and the integer distance.
\<close>

section \<open>The contract\<close>

text \<open>
  Every store lists exactly the related loci, each once; a store that also lists them in order gives scans
  that depend on the relation alone.
\<close>

locale pred_store_base =
  fixes view :: "'s \<Rightarrow> pred_store"
    and inv :: "'s \<Rightarrow> bool"
  assumes related_iff: "inv s \<Longrightarrow> b \<in> set (related (view s) a r) \<longleftrightarrow> has_rel (view s) a r b"
    and related_distinct: "inv s \<Longrightarrow> distinct (related (view s) a r)"
begin

text \<open>Below the scan cap a quantifier ranges over exactly the related loci.\<close>

lemma exists_scan:
  assumes "inv s" and "store ctx = view s" and "length (related (view s) x r) \<le> related_scan_cap"
    and "sem_slot I ctx oth sl = Some x"
  shows "sem I ctx oth (PExistsRelated sl r p) \<longleftrightarrow>
    (\<exists>y. has_rel (view s) x r y \<and> sem I ctx (Some y) p)"
  using assms by (auto simp: on1_def neighbours_def related_iff)

lemma count_scan:
  assumes "inv s" and "store ctx = view s" and "length (related (view s) x r) \<le> related_scan_cap"
    and "sem_slot I ctx oth sl = Some x"
  shows "sem I ctx oth (PCountRelated sl r p c n) \<longleftrightarrow>
    cmp_i32 (int (card {y. has_rel (view s) x r y \<and> sem I ctx (Some y) p})) c n"
proof -
  let ?l = "filter (\<lambda>y. sem I ctx (Some y) p) (related (view s) x r)"
  have "distinct ?l"
    using related_distinct[OF assms(1), of x r] by simp
  then have "card (set ?l) = length ?l" by (rule distinct_card)
  moreover have "set ?l = {y. has_rel (view s) x r y \<and> sem I ctx (Some y) p}"
    using related_iff[OF assms(1)] by auto
  ultimately show ?thesis using assms by (simp add: on1_def neighbours_def)
qed

end

locale pred_store_contract = pred_store_base +
  assumes related_strict: "inv s \<Longrightarrow> sorted_wrt (<) (related (view s) a r)"
begin

text \<open>The neighbour list is a function of the relation alone: scans are deterministic.\<close>

lemma related_determined:
  assumes "inv s" "inv s'" "\<And>b. has_rel (view s) a r b = has_rel (view s') a r b"
  shows "related (view s) a r = related (view s') a r"
  using assms related_iff related_strict
  by (intro strict_sorted_equal) auto

end

section \<open>The in-memory store\<close>

record mem_store =
  ms_afford :: "(sigil \<times> nat, unit) btree"
  ms_rels :: "(sigil \<times> rel \<times> sigil) list"
  ms_qty :: "(sigil \<times> nat, int) btree"
  ms_aabbs :: "(sigil, aabb) btree"
  ms_knows :: "(sigil \<times> nat, unit) btree"
  ms_rites :: "(sigil \<times> nat, unit) btree"
  ms_windows :: "(nat \<times> channel) list"
  ms_sleep :: "(sigil, nat) btree"
  ms_lod :: "(sigil, sim_lod) btree"

definition mem_new :: mem_store where
  "mem_new = \<lparr>ms_afford = [], ms_rels = [], ms_qty = [], ms_aabbs = [], ms_knows = [],
     ms_rites = [], ms_windows = [], ms_sleep = [], ms_lod = []\<rparr>"

definition bt_flag :: "'k::linorder \<Rightarrow> bool \<Rightarrow> ('k, unit) btree \<Rightarrow> ('k, unit) btree" where
  "bt_flag k on m = (if on then bt_insert k () m else bt_remove k m)"

definition mem_set_affordance :: "sigil \<Rightarrow> nat \<Rightarrow> bool \<Rightarrow> mem_store \<Rightarrow> mem_store" where
  "mem_set_affordance s a on m = m\<lparr>ms_afford := bt_flag (s, a) on (ms_afford m)\<rparr>"

definition mem_add_rel :: "sigil \<Rightarrow> rel \<Rightarrow> sigil \<Rightarrow> mem_store \<Rightarrow> mem_store" where
  "mem_add_rel a r b m =
     (if (a, r, b) \<in> set (ms_rels m) then m else m\<lparr>ms_rels := ms_rels m @ [(a, r, b)]\<rparr>)"

definition mem_set_qty :: "sigil \<Rightarrow> nat \<Rightarrow> int \<Rightarrow> mem_store \<Rightarrow> mem_store" where
  "mem_set_qty s r v m = m\<lparr>ms_qty := bt_insert (s, r) v (ms_qty m)\<rparr>"

definition mem_set_aabb :: "sigil \<Rightarrow> aabb \<Rightarrow> mem_store \<Rightarrow> mem_store" where
  "mem_set_aabb s b m = m\<lparr>ms_aabbs := bt_insert s b (ms_aabbs m)\<rparr>"

definition mem_set_knows :: "sigil \<Rightarrow> nat \<Rightarrow> bool \<Rightarrow> mem_store \<Rightarrow> mem_store" where
  "mem_set_knows s f on m = m\<lparr>ms_knows := bt_flag (s, f) on (ms_knows m)\<rparr>"

definition mem_set_rite_active :: "sigil \<Rightarrow> nat \<Rightarrow> bool \<Rightarrow> mem_store \<Rightarrow> mem_store" where
  "mem_set_rite_active s r on m = m\<lparr>ms_rites := bt_flag (s, r) on (ms_rites m)\<rparr>"

definition mem_set_window :: "nat \<Rightarrow> channel \<Rightarrow> bool \<Rightarrow> mem_store \<Rightarrow> mem_store" where
  "mem_set_window r ch on m =
     (if on \<and> (r, ch) \<notin> set (ms_windows m) then m\<lparr>ms_windows := ms_windows m @ [(r, ch)]\<rparr>
      else if \<not> on then m\<lparr>ms_windows := filter (\<lambda>w. w \<noteq> (r, ch)) (ms_windows m)\<rparr>
      else m)"

definition mem_set_sleep :: "sigil \<Rightarrow> nat \<Rightarrow> mem_store \<Rightarrow> mem_store" where
  "mem_set_sleep s t m = m\<lparr>ms_sleep := bt_insert s t (ms_sleep m)\<rparr>"

definition mem_set_sim_lod :: "sigil \<Rightarrow> sim_lod \<Rightarrow> mem_store \<Rightarrow> mem_store" where
  "mem_set_sim_lod s l m = m\<lparr>ms_lod := bt_insert s l (ms_lod m)\<rparr>"

definition mem_related :: "mem_store \<Rightarrow> sigil \<Rightarrow> rel \<Rightarrow> sigil list" where
  "mem_related m a r =
     dedup (sort (map (\<lambda>(s, q, b). b) (filter (\<lambda>(s, q, b). s = a \<and> q = r) (ms_rels m))))"

definition mem_view :: "mem_store \<Rightarrow> pred_store" where
  "mem_view m = \<lparr>
     has_affordance = (\<lambda>s a. bt_has (ms_afford m) (s, a)),
     has_rel = (\<lambda>a r b. (a, r, b) \<in> set (ms_rels m)),
     related = mem_related m,
     qty = (\<lambda>s r. case bt_get (ms_qty m) (s, r) of Some v \<Rightarrow> v | None \<Rightarrow> 0),
     aabb_at = bt_get (ms_aabbs m),
     knows_fact = (\<lambda>s f. bt_has (ms_knows m) (s, f)),
     rite_active = (\<lambda>s r. bt_has (ms_rites m) (s, r)),
     in_window = (\<lambda>r ch. (r, ch) \<in> set (ms_windows m)),
     sleep_ticks = bt_get (ms_sleep m),
     sim_lod_of = (\<lambda>s. case bt_get (ms_lod m) s of Some l \<Rightarrow> l | None \<Rightarrow> Full)\<rparr>"

definition mem_ok :: "mem_store \<Rightarrow> bool" where
  "mem_ok m \<longleftrightarrow> bt_sorted (ms_afford m) \<and> distinct (ms_rels m) \<and> bt_sorted (ms_qty m)
     \<and> bt_sorted (ms_aabbs m) \<and> bt_sorted (ms_knows m) \<and> bt_sorted (ms_rites m)
     \<and> distinct (ms_windows m) \<and> bt_sorted (ms_sleep m) \<and> bt_sorted (ms_lod m)"

interpretation mem: pred_store_contract mem_view mem_ok
proof unfold_locales
  fix m a r b
  show "b \<in> set (related (mem_view m) a r) \<longleftrightarrow> has_rel (mem_view m) a r b"
    by (force simp: mem_view_def mem_related_def)
next
  fix m a r
  show "distinct (related (mem_view m) a r)"
    by (simp add: mem_view_def mem_related_def strict_sorted_dedup[THEN strict_sorted_iff[THEN iffD1]])
next
  fix m a r
  show "sorted_wrt (<) (related (mem_view m) a r)"
    by (simp add: mem_view_def mem_related_def strict_sorted_dedup)
qed

lemma bt_flag_has: "bt_sorted m \<Longrightarrow> bt_has (bt_flag k on m) j \<longleftrightarrow> (if j = k then on else bt_has m j)"
  by (simp add: bt_flag_def bt_has_def bt_get_insert bt_get_remove)

lemma bt_flag_sorted [simp]: "bt_sorted m \<Longrightarrow> bt_sorted (bt_flag k on m)"
  by (simp add: bt_flag_def)

lemma mem_ok_ops:
  assumes "mem_ok m"
  shows "mem_ok (mem_set_affordance s a on m)" "mem_ok (mem_add_rel s r b m)"
    "mem_ok (mem_set_qty s a v m)" "mem_ok (mem_set_aabb s bx m)" "mem_ok (mem_set_knows s a on m)"
    "mem_ok (mem_set_rite_active s a on m)" "mem_ok (mem_set_window a ch on m)"
    "mem_ok (mem_set_sleep s t m)" "mem_ok (mem_set_sim_lod s l m)"
  using assms
  by (auto simp: mem_ok_def mem_set_affordance_def mem_add_rel_def mem_set_qty_def mem_set_aabb_def
      mem_set_knows_def mem_set_rite_active_def mem_set_window_def mem_set_sleep_def mem_set_sim_lod_def)

section \<open>Budgets\<close>

definition bounded :: "bool \<Rightarrow> nat \<Rightarrow> nat \<Rightarrow> 'a eval_result \<Rightarrow> bool" where
  "bounded k t e x \<longleftrightarrow>
     (case x of (r, t', e') \<Rightarrow> t' \<le> t \<and> e' \<le> e \<and> t - t' = e - e' \<and>
        (k \<longrightarrow> (\<forall>y. r = Inl y \<longrightarrow> y = RBudget \<and> (t' = 0 \<or> e' = 0))))"

lemma bounded_Inr [simp]: "bounded k t e (Inr v, t, e)"
  by (simp add: bounded_def)

lemma bounded_step: "0 < t \<Longrightarrow> 0 < e \<Longrightarrow> bounded k (t - 1) (e - 1) x \<Longrightarrow> bounded k t e x"
  by (auto simp: bounded_def split: prod.splits)

lemma bounded_then:
  assumes "bounded k t e x"
    and "\<And>v t' e'. x = (Inr v, t', e') \<Longrightarrow> e' \<le> e \<Longrightarrow> bounded k t' e' (f v t' e')"
  shows "bounded k t e (eval_then x f)"
proof (cases x)
  case (fields r t' e')
  show ?thesis
  proof (cases r)
    case (Inl y)
    with assms(1) fields show ?thesis by (simp add: bounded_def eval_then_def)
  next
    case (Inr v)
    with fields assms(1) have "bounded k t' e' (f v t' e')" "t' \<le> t" "e' \<le> e" "t - t' = e - e'"
      using assms(2)[of v t' e'] by (auto simp: bounded_def)
    then show ?thesis using fields Inr by (auto simp: bounded_def eval_then_def split: prod.splits)
  qed
qed

lemma eval_ops_step:
  assumes "0 < t" and "0 < e"
  shows "eval_ops d prog ctx oth (op # ops) stack pc t e =
    (case op of
       OpPushAtom i \<Rightarrow> eval_ops d prog ctx oth ops
         ((case nth_opt (prog_atoms prog) i of Some a \<Rightarrow> eval_atom a ctx oth | None \<Rightarrow> False) # stack) pc (t - 1) (e - 1)
     | OpAnd \<Rightarrow> eval_ops d prog ctx oth ops
         ((pop (popped stack) \<and> pop stack) # popped (popped stack)) pc (t - 1) (e - 1)
     | OpOr \<Rightarrow> eval_ops d prog ctx oth ops
         ((pop (popped stack) \<or> pop stack) # popped (popped stack)) pc (t - 1) (e - 1)
     | OpNot \<Rightarrow> eval_ops d prog ctx oth ops ((\<not> pop stack) # popped stack) pc (t - 1) (e - 1)
     | OpHalt \<Rightarrow> (Inr (pop stack), t - 1, e - 1)
     | _ \<Rightarrow> (case nth_opt (prog_scans prog) pc of
          None \<Rightarrow> eval_ops d prog ctx oth ops (False # stack) pc (t - 1) (e - 1)
        | Some sc \<Rightarrow> eval_then (eval_scan d prog ctx oth sc (t - 1) (e - 1))
            (\<lambda>b. eval_ops d prog ctx oth ops (b # stack) (Suc pc))))"
  using assms
  by (auto simp: eval_ops.simps(2) eval_then_def Let_def split: pred_op.splits option.splits prod.splits sum.splits)

lemma scan_neigh_step:
  "scan_neigh d prog ctx chunk (x # xs) hits t e =
     eval_then (eval_ops d prog ctx (Some x) chunk [] 0 t e)
       (\<lambda>b. scan_neigh d prog ctx chunk xs (if b then sat32 (hits + 1) else hits))"
  by (simp add: eval_then_def split: prod.splits sum.splits)

lemma eval_scan_step:
  "eval_scan (Suc d) prog ctx oth sc t e =
     (case resolve (scan_of sc) ctx oth of
        None \<Rightarrow> (Inr False, t, e)
      | Some x \<Rightarrow> eval_then
          (scan_neigh d prog ctx (scan_pred sc)
             (take related_scan_cap (related (store ctx) x (scan_rel sc))) 0 t e)
          (\<lambda>hits t e. (Inr (case scan_count sc of None \<Rightarrow> hits > 0 | Some (c, n) \<Rightarrow> cmp_i32 hits c n), t, e)))"
  by (auto simp: eval_then_def split: option.splits prod.splits sum.splits)

text \<open>
  An evaluation spends the two budgets in step and fails only when one of them is empty.  By
  induction on the depth: below it, on the ops of a chunk and on the neighbours of a scan.
\<close>

lemma eval_ops_bounded_if:
  assumes scan: "\<And>oth sc t e. bounded (k \<and> e < d) t e (eval_scan d prog ctx oth sc t e)"
  shows "bounded (k \<and> e \<le> d) t e (eval_ops d prog ctx oth ops stack pc t e)"
proof (induction ops arbitrary: stack pc t e)
  case Nil
  show ?case by simp
next
  case (Cons op ops)
  show ?case
  proof (cases "t = 0 \<or> e = 0")
    case True
    then show ?thesis by (auto simp: eval_ops.simps(2) bounded_def)
  next
    case False
    then have pos: "0 < t" "0 < e" by auto
    have mono: "bounded (k \<and> e - 1 \<le> d) t' e' x \<Longrightarrow> bounded (k \<and> e \<le> d) t' e' x" for t' e' and x :: "bool eval_result"
      by (auto simp: bounded_def split: prod.splits)
    have IH: "bounded (k \<and> e \<le> d) (t - 1) (e - 1) (eval_ops d prog ctx oth ops st pc' (t - 1) (e - 1))" for st pc'
      by (rule mono[OF Cons.IH])
    have quant: "bounded (k \<and> e \<le> d) (t - 1) (e - 1)
        (eval_then (eval_scan d prog ctx oth sc (t - 1) (e - 1))
          (\<lambda>b. eval_ops d prog ctx oth ops (b # stack) (Suc pc)))" for sc
    proof (rule bounded_then)
      show "bounded (k \<and> e \<le> d) (t - 1) (e - 1) (eval_scan d prog ctx oth sc (t - 1) (e - 1))"
        using scan[of "e - 1" "t - 1" oth sc] pos by (auto simp: bounded_def split: prod.splits)
      fix v t' e'
      assume "e' \<le> e - 1"
      then show "bounded (k \<and> e \<le> d) t' e' (eval_ops d prog ctx oth ops (v # stack) (Suc pc) t' e')"
        using Cons.IH[of e' t' "v # stack" "Suc pc"] by (auto simp: bounded_def split: prod.splits)
    qed
    have opt: "bounded (k \<and> e \<le> d) (t - 1) (e - 1)
        (case nth_opt (prog_scans prog) pc of
           None \<Rightarrow> eval_ops d prog ctx oth ops (False # stack) pc (t - 1) (e - 1)
         | Some sc \<Rightarrow> eval_then (eval_scan d prog ctx oth sc (t - 1) (e - 1))
             (\<lambda>b. eval_ops d prog ctx oth ops (b # stack) (Suc pc)))"
      by (cases "nth_opt (prog_scans prog) pc") (simp_all only: option.case IH quant)
    show ?thesis
      by (intro bounded_step[OF pos], unfold eval_ops_step[OF pos], cases op)
        (simp_all only: pred_op.case IH opt bounded_Inr)
  qed
qed

lemma scan_neigh_bounded_if:
  assumes "\<And>oth chunk t e. bounded (k \<and> e \<le> d) t e (eval_ops d prog ctx oth chunk [] 0 t e)"
  shows "bounded (k \<and> e \<le> d) t e (scan_neigh d prog ctx chunk ns hits t e)"
proof (induction ns arbitrary: hits t e)
  case Nil
  show ?case by simp
next
  case (Cons x xs)
  show ?case
    unfolding scan_neigh_step
  proof (rule bounded_then[OF assms])
    fix v t' e'
    assume "e' \<le> e"
    then show "bounded (k \<and> e \<le> d) t' e' (scan_neigh d prog ctx chunk xs
        (if v then sat32 (hits + 1) else hits) t' e')"
      using Cons.IH[of e' t' "if v then sat32 (hits + 1) else hits"]
      by (auto simp: bounded_def split: prod.splits)
  qed
qed

lemma eval_scan_bounded: "bounded (k \<and> e < d) t e (eval_scan d prog ctx oth sc t e)"
proof (induction d arbitrary: oth sc t e)
  case 0
  show ?case by (simp add: bounded_def)
next
  case (Suc d)
  have "bounded (k \<and> e < Suc d) t e (scan_neigh d prog ctx chunk ns hits t e)" for chunk ns hits
    using scan_neigh_bounded_if[OF eval_ops_bounded_if[OF Suc.IH], of e t chunk ns hits]
    by (simp add: less_Suc_eq_le)
  then show ?case
    unfolding eval_scan_step
    by (auto simp: less_Suc_eq_le intro!: bounded_then split: option.splits)
qed

lemma eval_ops_bounded: "bounded (k \<and> e \<le> d) t e (eval_ops d prog ctx oth ops stack pc t e)"
  by (rule eval_ops_bounded_if) (rule eval_scan_bounded)

lemma eval_pred_bounded:
  assumes "eval_pred prog ctx t = (r, t')"
  shows "t' \<le> t \<and> t - t' \<le> pred_ops_per_eval
    \<and> (\<forall>x. r = Inl x \<longrightarrow> x = RBudget \<and> (t' = 0 \<or> t - t' = pred_ops_per_eval))"
proof -
  obtain e' where eq: "eval_ops pred_ops_per_eval prog ctx None (prog_chunk prog) [] 0 t pred_ops_per_eval = (r, t', e')"
    using assms by (auto simp: eval_pred_def split: prod.splits)
  have "bounded True t pred_ops_per_eval (r, t', e')"
    using eval_ops_bounded[of True pred_ops_per_eval pred_ops_per_eval t prog ctx None "prog_chunk prog" "[]" 0]
    unfolding eq by simp
  then have b: "t' \<le> t" "e' \<le> pred_ops_per_eval" "t - t' = pred_ops_per_eval - e'"
    "\<And>y. r = Inl y \<Longrightarrow> y = RBudget \<and> (t' = 0 \<or> e' = 0)"
    by (simp_all add: bounded_def)
  show ?thesis using b(1-3) b(4) by (metis diff_le_self diff_zero)
qed

section \<open>The depth argument\<close>

lemma eval_result_le: "eval_scan d prog ctx oth sc t e = (r, t', e') \<Longrightarrow> e' \<le> e"
  using eval_scan_bounded[of False e d t prog ctx oth sc] by (simp add: bounded_def)

lemma eval_ops_result_le: "eval_ops d prog ctx oth ops stack pc t e = (r, t', e') \<Longrightarrow> e' \<le> e"
  using eval_ops_bounded[of False e d t prog ctx oth ops stack pc] by (simp add: bounded_def)

lemma eval_then_cong:
  assumes "x = y" and "\<And>v t' e'. y = (Inr v, t', e') \<Longrightarrow> f v t' e' = g v t' e'"
  shows "eval_then x f = eval_then y g"
  using assms by (auto simp: eval_then_def split: prod.splits sum.splits)

lemma eval_ops_depth_if:
  assumes scan: "\<And>oth sc t e. e < d \<Longrightarrow> eval_scan d' prog ctx oth sc t e = eval_scan d prog ctx oth sc t e"
  shows "e \<le> d \<Longrightarrow> eval_ops d' prog ctx oth ops stack pc t e = eval_ops d prog ctx oth ops stack pc t e"
proof (induction ops arbitrary: stack pc t e)
  case Nil
  show ?case by simp
next
  case (Cons op ops)
  show ?case
  proof (cases "t = 0 \<or> e = 0")
    case True
    then show ?thesis by (auto simp: eval_ops.simps(2))
  next
    case False
    then have pos: "0 < t" "0 < e" by auto
    have IH: "e' \<le> e \<Longrightarrow> eval_ops d' prog ctx oth ops st pc' t' e' = eval_ops d prog ctx oth ops st pc' t' e'"
      for st pc' t' e' using Cons.IH Cons.prems by simp
    have sc: "eval_scan d' prog ctx oth sc (t - 1) (e - 1) = eval_scan d prog ctx oth sc (t - 1) (e - 1)" for sc
      using scan Cons.prems pos by simp
    have "eval_then (eval_scan d' prog ctx oth sc (t - 1) (e - 1))
        (\<lambda>b. eval_ops d' prog ctx oth ops (b # stack) (Suc pc)) =
      eval_then (eval_scan d prog ctx oth sc (t - 1) (e - 1))
        (\<lambda>b. eval_ops d prog ctx oth ops (b # stack) (Suc pc))" for sc
      by (rule eval_then_cong[OF sc]) (auto dest!: eval_result_le intro!: IH)
    then show ?thesis
      unfolding eval_ops_step[OF pos] by (cases op) (auto simp: IH split: option.splits)
  qed
qed

lemma scan_neigh_depth_if:
  assumes ops: "\<And>oth chunk t e. e \<le> d \<Longrightarrow>
      eval_ops d' prog ctx oth chunk [] 0 t e = eval_ops d prog ctx oth chunk [] 0 t e"
  shows "e \<le> d \<Longrightarrow> scan_neigh d' prog ctx chunk ns hits t e = scan_neigh d prog ctx chunk ns hits t e"
proof (induction ns arbitrary: hits t e)
  case (Cons x xs)
  show ?case
    unfolding scan_neigh_step using Cons
    by (intro eval_then_cong ops) (auto dest!: eval_ops_result_le)
qed simp

lemma eval_scan_depth: "e < d \<Longrightarrow> d \<le> d' \<Longrightarrow>
    eval_scan d' prog ctx oth sc t e = eval_scan d prog ctx oth sc t e"
proof (induction d arbitrary: d' oth sc t e)
  case (Suc d)
  then obtain d1 where d1: "d' = Suc d1" "d \<le> d1" by (cases d') auto
  have "scan_neigh d1 prog ctx chunk ns hits t e = scan_neigh d prog ctx chunk ns hits t e" for chunk ns hits
    using Suc.prems d1(2) by (intro scan_neigh_depth_if[OF eval_ops_depth_if[OF Suc.IH]]) auto
  then show ?case unfolding d1(1) eval_scan_step by (simp split: option.split)
qed simp

text \<open>Any depth of at least the remaining budget gives the same evaluation.\<close>

lemma eval_depth_enough:
  assumes "e \<le> d"
  shows "eval_ops d prog ctx oth ops stack pc t e = eval_ops e prog ctx oth ops stack pc t e"
  using assms by (intro eval_ops_depth_if) (auto intro: eval_scan_depth)

end
