(* ===== verification/CanonProps.thy ===== *)
theory CanonProps
  imports CanonStore
begin

text \<open>
  The properties of the predicate language: what compilation returns and leaves in the
  interner, what evaluation computes and charges, the integer distance of \<open>AabbNear\<close>,
  and the one shape of predicate the compiler mistranslates.
\<close>

section \<open>The compiler never panics\<close>

definition cook_fails :: "cook_error \<Rightarrow> bool" where
  "cook_fails e \<longleftrightarrow> e = TableFull \<or> e = PredTooLarge \<or> (\<exists>n. e = UnboundName n)"

lemma rbind_fails:
  assumes "rbind m f = Inl e" and "\<And>e. m = Inl e \<Longrightarrow> P e" and "\<And>x e. m = Inr x \<Longrightarrow> f x = Inl e \<Longrightarrow> P e"
  shows "P e"
  using assms by (auto simp: rbind_Inl_iff)

lemma intern_in_fails:
  "intern_in u16_id n m = Inl e \<Longrightarrow> e = TableFull"
  "intern_in u8_id n m = Inl e \<Longrightarrow> e = TableFull"
  by (auto simp: intern_in_def rbind_Inl_iff u16_id_def u8_id_def split: option.splits if_splits)

lemma intern_name_fails:
  "intern_affordance n I = Inl e \<Longrightarrow> cook_fails e"
  "intern_resource n I = Inl e \<Longrightarrow> cook_fails e"
  "intern_rite n I = Inl e \<Longrightarrow> cook_fails e"
  "intern_fact n I = Inl e \<Longrightarrow> cook_fails e"
  by (auto simp: intern_affordance_def intern_resource_def intern_rite_def intern_fact_def
      rbind_Inl_iff cook_fails_def dest: intern_in_fails)

lemma cook_slot_fails: "cook_slot s I = Inl e \<Longrightarrow> cook_fails e"
  by (cases s) (auto simp: rbind_Inl_iff u16_id_def cook_fails_def split: option.splits if_splits)

lemma check_len_fails: "check_len ops = Inl e \<Longrightarrow> cook_fails e"
  by (auto simp: check_len_def cook_fails_def split: if_splits)

fun leaf :: "pred \<Rightarrow> bool" where
  "leaf (PBurning s) = False"
| "leaf (POpaqueClosed s) = False"
| "leaf (PAnd a b) = False"
| "leaf (POr a b) = False"
| "leaf (PNot a) = False"
| "leaf (PExistsRelated s r p) = False"
| "leaf (PCountRelated s r p c n) = False"
| "leaf p = True"

lemma cook_atom_fails: "leaf p \<Longrightarrow> cook_atom p I = Inl e \<Longrightarrow> cook_fails e"
  by (cases p) (auto simp: rbind_Inl_iff cook_slot1_def cook_slot2_def
      dest: cook_slot_fails intern_name_fails)

lemma emit_atom_fails: "leaf p \<Longrightarrow> emit_atom p st = Inl e \<Longrightarrow> cook_fails e"
  by (auto simp: emit_atom_def rbind_Inl_iff split: prod.splits dest: cook_atom_fails)

lemma emit_scan_fails: "emit_scan s r c op st nested = Inl e \<Longrightarrow> cook_fails e"
  by (auto simp: emit_scan_def rbind_Inl_iff dest: check_len_fails cook_slot_fails)

lemma emit_fails: "core p \<Longrightarrow> emit p st = Inl e \<Longrightarrow> cook_fails e"
  by (induction p arbitrary: st e) (auto simp: rbind_Inl_iff dest: emit_atom_fails[rotated] emit_scan_fails)

lemma compile_fails: "compile_pred_with p I = Inl e \<Longrightarrow> cook_fails e"
  by (auto simp: compile_pred_with_def rbind_Inl_iff dest: check_len_fails emit_fails[rotated])

section \<open>The interner stays dense\<close>

definition interner_ok :: "interner \<Rightarrow> bool" where
  "interner_ok I \<longleftrightarrow> dense (affordances I) \<and> dense (resources I) \<and> dense (rites I) \<and> dense (facts I)
     \<and> dense (pins I) \<and> length (pin_names I) = length (pins I) \<and> length (pin_sigils I) = length (pins I)
     \<and> (\<forall>n i. bt_get (pins I) n = Some i \<longrightarrow> nth_opt (pin_names I) i = Some n)"

lemma u_id_val: "u16_id k = Inr j \<Longrightarrow> j = k" "u8_id k = Inr j \<Longrightarrow> j = k"
  by (auto simp: u16_id_def u8_id_def split: if_splits)

lemma intern_name_ok:
  assumes "interner_ok I"
  shows "intern_affordance n I = Inr (i, I') \<Longrightarrow> interner_ok I'"
    "intern_resource n I = Inr (i, I') \<Longrightarrow> interner_ok I'"
    "intern_rite n I = Inr (i, I') \<Longrightarrow> interner_ok I'"
    "intern_fact n I = Inr (i, I') \<Longrightarrow> interner_ok I'"
  using assms
  by (auto simp: intern_affordance_def intern_resource_def intern_rite_def intern_fact_def
      rbind_Inr_iff interner_ok_def dest: u_id_val intro: intern_in_dense)

lemma pin_ok:
  assumes ok: "interner_ok I" and None: "bt_get (pins I) n = None"
  shows "interner_ok (I\<lparr>pins := bt_insert n (length (pin_names I)) (pins I),
    pin_names := pin_names I @ [n], pin_sigils := pin_sigils I @ [s]\<rparr>)"
proof -
  have lt: "i < length (pins I)" if "bt_get (pins I) m = Some i" for m i
  proof -
    have "i \<in> set (map snd (pins I))" using bt_get_Some_in[OF that] by force
    then show ?thesis using ok by (simp add: interner_ok_def dense_def)
  qed
  have len: "length (bt_insert n (length (pins I)) (pins I)) = Suc (length (pins I))"
    using None ok by (simp add: length_bt_insert interner_ok_def dense_def)
  have "length (pin_names I) = length (pins I)" using ok by (simp add: interner_ok_def)
  then show ?thesis
    using ok None lt len
    by (auto simp: interner_ok_def dense_insert bt_get_insert nth_opt_def nth_append less_Suc_eq split: if_splits)
qed

lemma cook_slot_ok:
  assumes "cook_slot s I = Inr (x, I')" and "interner_ok I"
  shows "interner_ok I'"
proof (cases s)
  case (NameSlot n)
  with assms pin_ok[of I n None] show ?thesis
    by (auto simp: rbind_Inr_iff dest: u_id_val split: option.splits if_splits)
qed (use assms in auto)

lemma cook_atom_ok: "cook_atom p I = Inr (a, I') \<Longrightarrow> interner_ok I \<Longrightarrow> interner_ok I'"
  by (cases p) (auto simp: rbind_Inr_iff cook_slot1_def cook_slot2_def
      dest: cook_slot_ok intern_name_ok)

lemma emit_atom_ok: "emit_atom p st = Inr st' \<Longrightarrow> interner_ok (es_intern st) \<Longrightarrow> interner_ok (es_intern st')"
  by (auto simp: emit_atom_def rbind_Inr_iff push_op_def case_prod_beta Let_def dest: cook_atom_ok)

lemma emit_scan_ok:
  "emit_scan s r c op st nested = Inr st' \<Longrightarrow> interner_ok (es_intern nested) \<Longrightarrow> interner_ok (es_intern st')"
  by (auto simp: emit_scan_def rbind_Inr_iff push_op_def dest: cook_slot_ok)

lemma emit_ok: "emit p st = Inr st' \<Longrightarrow> interner_ok (es_intern st) \<Longrightarrow> interner_ok (es_intern st')"
  by (induction p arbitrary: st st')
    (fastforce simp: rbind_Inr_iff push_op_def dest: emit_atom_ok emit_scan_ok)+

lemma emit_atom_le: "emit_atom p st = Inr st' \<Longrightarrow> intern_le (es_intern st) (es_intern st')"
  by (auto simp: emit_atom_def rbind_Inr_iff push_op_def case_prod_beta Let_def dest: cook_atom_le)

lemma emit_scan_le:
  "emit_scan s r c op st nested = Inr st' \<Longrightarrow> intern_le (es_intern nested) (es_intern st')"
  by (auto simp: emit_scan_def rbind_Inr_iff push_op_def dest: cook_slot_le)

lemma emit_le: "emit p st = Inr st' \<Longrightarrow> intern_le (es_intern st) (es_intern st')"
  by (induction p arbitrary: st st')
    (fastforce simp: rbind_Inr_iff push_op_def dest: emit_atom_le emit_scan_le intro: intern_le_trans)+

lemma interner_new_ok [simp]: "interner_ok interner_new"
  by (simp add: interner_ok_def interner_new_def dense_def)

section \<open>Distance of boxes\<close>

text \<open>\<open>dist2\<close> is the specification of \<open>aabb_near\<close>: the squared Euclidean distance of two points.\<close>

definition dist2 :: "ivec3 \<Rightarrow> ivec3 \<Rightarrow> int" where
  "dist2 p q = (vx p - vx q)\<^sup>2 + (vy p - vy q)\<^sup>2 + (vz p - vz q)\<^sup>2"

definition coords_below :: "int \<Rightarrow> aabb \<Rightarrow> bool" where
  "coords_below n b \<longleftrightarrow> (\<forall>c \<in> {vx (bmin b), vy (bmin b), vz (bmin b), vx (bmax b), vy (bmax b), vz (bmax b)}.
     \<bar>c\<bar> \<le> n)"

lemma axis_gap_le:
  assumes "al \<le> ah" "bl \<le> bh" "\<bar>al\<bar> \<le> 2^29" "\<bar>ah\<bar> \<le> 2^29" "\<bar>bl\<bar> \<le> 2^29" "\<bar>bh\<bar> \<le> 2^29"
  shows "0 \<le> axis_gap al ah bl bh \<and> axis_gap al ah bl bh \<le> 2^30"
    and "al \<le> x \<Longrightarrow> x \<le> ah \<Longrightarrow> bl \<le> y \<Longrightarrow> y \<le> bh \<Longrightarrow> axis_gap al ah bl bh \<le> \<bar>x - y\<bar>"
    and "\<exists>x y. al \<le> x \<and> x \<le> ah \<and> bl \<le> y \<and> y \<le> bh \<and> \<bar>x - y\<bar> = axis_gap al ah bl bh"
proof -
  have gap: "axis_gap al ah bl bh = (if ah < bl then bl - ah else if bh < al then al - bh else 0)"
    using assms by (auto simp: axis_gap_def sat_sub32_def sat32_def i32_max_def i32_min_def)
  show "0 \<le> axis_gap al ah bl bh \<and> axis_gap al ah bl bh \<le> 2^30"
    using assms by (auto simp: gap)
  show "al \<le> x \<Longrightarrow> x \<le> ah \<Longrightarrow> bl \<le> y \<Longrightarrow> y \<le> bh \<Longrightarrow> axis_gap al ah bl bh \<le> \<bar>x - y\<bar>"
    by (auto simp: gap)
  show "\<exists>x y. al \<le> x \<and> x \<le> ah \<and> bl \<le> y \<and> y \<le> bh \<and> \<bar>x - y\<bar> = axis_gap al ah bl bh"
  proof (cases "ah < bl \<or> bh < al")
    case True
    then show ?thesis using assms(1,2)
      by (intro exI[of _ "if ah < bl then ah else al"] exI[of _ "if ah < bl then bl else bh"]) (auto simp: gap)
  next
    case False
    then show ?thesis using assms(1,2)
      by (intro exI[of _ "max al bl"]) (auto simp: gap intro!: exI[of _ "max al bl"])
  qed
qed

lemma square_sum_le:
  fixes x y z a b c :: int
  assumes "0 \<le> x" "0 \<le> y" "0 \<le> z" "x \<le> \<bar>a\<bar>" "y \<le> \<bar>b\<bar>" "z \<le> \<bar>c\<bar>"
  shows "x * x + y * y + z * z \<le> a\<^sup>2 + b\<^sup>2 + c\<^sup>2"
proof -
  have "u * u \<le> v\<^sup>2" if "0 \<le> u" "u \<le> \<bar>v\<bar>" for u v :: int
    using that power_mono[of u "\<bar>v\<bar>" 2] by (simp add: power2_eq_square)
  then show ?thesis using assms by (smt (verit))
qed

lemma wrap64_sum3:
  assumes "0 \<le> x \<and> x \<le> 2^60" "0 \<le> y \<and> y \<le> 2^60" "0 \<le> z \<and> z \<le> 2^60"
  shows "wrap64 (wrap64 (x + y) + z) = x + y + z"
  using assms by (simp add: wrap64_id)

lemma aabb_near_dist:
  assumes "\<not> aabb_is_empty a" "\<not> aabb_is_empty b" "coords_below (2^29) a" "coords_below (2^29) b"
  shows "aabb_near a b m \<longleftrightarrow>
    (\<exists>p q. aabb_contains_point a p \<and> aabb_contains_point b q \<and> dist2 p q \<le> m * m)"
proof -
  let ?gx = "axis_gap (vx (bmin a)) (vx (bmax a)) (vx (bmin b)) (vx (bmax b))"
  let ?gy = "axis_gap (vy (bmin a)) (vy (bmax a)) (vy (bmin b)) (vy (bmax b))"
  let ?gz = "axis_gap (vz (bmin a)) (vz (bmax a)) (vz (bmin b)) (vz (bmax b))"
  have ne: "vx (bmin a) \<le> vx (bmax a)" "vy (bmin a) \<le> vy (bmax a)" "vz (bmin a) \<le> vz (bmax a)"
    "vx (bmin b) \<le> vx (bmax b)" "vy (bmin b) \<le> vy (bmax b)" "vz (bmin b) \<le> vz (bmax b)"
    using assms(1,2) by (auto simp: aabb_is_empty_def)
  have co: "\<bar>vx (bmin a)\<bar> \<le> 2^29" "\<bar>vy (bmin a)\<bar> \<le> 2^29" "\<bar>vz (bmin a)\<bar> \<le> 2^29"
    "\<bar>vx (bmax a)\<bar> \<le> 2^29" "\<bar>vy (bmax a)\<bar> \<le> 2^29" "\<bar>vz (bmax a)\<bar> \<le> 2^29"
    "\<bar>vx (bmin b)\<bar> \<le> 2^29" "\<bar>vy (bmin b)\<bar> \<le> 2^29" "\<bar>vz (bmin b)\<bar> \<le> 2^29"
    "\<bar>vx (bmax b)\<bar> \<le> 2^29" "\<bar>vy (bmax b)\<bar> \<le> 2^29" "\<bar>vz (bmax b)\<bar> \<le> 2^29"
    using assms(3,4) by (simp_all add: coords_below_def)
  note gx = axis_gap_le[OF ne(1) ne(4) co(1) co(4) co(7) co(10)]
  note gy = axis_gap_le[OF ne(2) ne(5) co(2) co(5) co(8) co(11)]
  note gz = axis_gap_le[OF ne(3) ne(6) co(3) co(6) co(9) co(12)]
  have sq: "0 \<le> g * g \<and> g * g \<le> 2^60" if "0 \<le> g \<and> g \<le> 2^30" for g :: int
    using that mult_mono[of g "2^30" g "2^30"] by simp
  have near: "aabb_near a b m \<longleftrightarrow> aabb_intersects a b \<or> ?gx * ?gx + ?gy * ?gy + ?gz * ?gz \<le> m * m"
    using wrap64_sum3[OF sq[OF gx(1)] sq[OF gy(1)] sq[OF gz(1)]] by (simp add: aabb_near_def Let_def)
  obtain px qx where x: "vx (bmin a) \<le> px" "px \<le> vx (bmax a)" "vx (bmin b) \<le> qx" "qx \<le> vx (bmax b)"
    "\<bar>px - qx\<bar> = ?gx" using gx(3) by blast
  obtain py qy where y: "vy (bmin a) \<le> py" "py \<le> vy (bmax a)" "vy (bmin b) \<le> qy" "qy \<le> vy (bmax b)"
    "\<bar>py - qy\<bar> = ?gy" using gy(3) by blast
  obtain pz qz where z: "vz (bmin a) \<le> pz" "pz \<le> vz (bmax a)" "vz (bmin b) \<le> qz" "qz \<le> vz (bmax b)"
    "\<bar>pz - qz\<bar> = ?gz" using gz(3) by blast
  have lower: "?gx * ?gx + ?gy * ?gy + ?gz * ?gz \<le> dist2 p q"
    if "aabb_contains_point a p" "aabb_contains_point b q" for p q
    using that gx(1,2) gy(1,2) gz(1,2) unfolding dist2_def
    by (intro square_sum_le) (auto simp: aabb_contains_point_def split: if_splits)
  have sq_eq: "u\<^sup>2 = g * g" if "\<bar>u\<bar> = g" for u g :: int
    using that by (auto simp: power2_eq_square)
  have attained: "\<exists>p q. aabb_contains_point a p \<and> aabb_contains_point b q
      \<and> dist2 p q = ?gx * ?gx + ?gy * ?gy + ?gz * ?gz"
  proof (intro exI conjI)
    show "aabb_contains_point a (ivec3 px py pz)" "aabb_contains_point b (ivec3 qx qy qz)"
      using x y z assms(1,2) by (simp_all add: aabb_contains_point_def ivec3_def)
    show "dist2 (ivec3 px py pz) (ivec3 qx qy qz) = ?gx * ?gx + ?gy * ?gy + ?gz * ?gz"
      unfolding dist2_def using sq_eq[OF x(5)] sq_eq[OF y(5)] sq_eq[OF z(5)] by (simp add: ivec3_def)
  qed
  have inter: "\<exists>p q. aabb_contains_point a p \<and> aabb_contains_point b q \<and> dist2 p q \<le> m * m"
    if "aabb_intersects a b"
    using aabb_intersects_point[OF that]
    by (intro exI[of _ "ivec3_max (bmin a) (bmin b)"] conjI) (simp_all add: dist2_def)
  show ?thesis using near lower attained inter by (metis order_trans)
qed
section \<open>A sugared quantifier below a quantifier\<close>

definition opaque_below :: "rel \<Rightarrow> pred" where
  "opaque_below r = PExistsRelated This r (POpaqueClosed Other)"

definition opaque_chunk :: "pred_op list" where
  "opaque_chunk = [OpPushAtom 0, OpExistsRelated, OpAnd, OpHalt]"

lemma opaque_below_code:
  assumes "compile_pred_with (opaque_below r) I = Inr (prog, I')"
  shows "prog_chunk prog = [OpExistsRelated, OpHalt] \<and> prog_scans prog =
    [\<lparr>scan_of = CThis, scan_rel = r, scan_pred = opaque_chunk, scan_count = None\<rparr>]"
  using assms
  by (auto simp: compile_pred_with_def opaque_below_def opaque_chunk_def rbind_Inr_iff emit_atom_def
      emit_scan_def push_op_def intern_atom_def intern_affordance_def case_prod_beta Let_def)

definition spent :: "nat \<Rightarrow> nat \<Rightarrow> 'a eval_result" where
  "spent t e = (Inl RBudget, t - min t e, e - min t e)"

lemma spent_step: "0 < t \<Longrightarrow> 0 < e \<Longrightarrow> spent (t - 1) (e - 1) = spent t e"
  by (auto simp: spent_def)

lemma opaque_chunk_spends:
  assumes sc: "prog_scans prog = [\<lparr>scan_of = CThis, scan_rel = r, scan_pred = opaque_chunk, scan_count = None\<rparr>]"
    and nb: "related (store ctx) (ctx_this ctx) r = y # ys"
  shows "e \<le> d \<Longrightarrow> eval_ops d prog ctx oth opaque_chunk [] 0 t e = spent t e"
proof (induction e arbitrary: d oth t rule: less_induct)
  case (less e)
  show ?case
  proof (cases "t = 0 \<or> e = 0")
    case True
    then show ?thesis by (auto simp: opaque_chunk_def spent_def eval_ops.simps(2))
  next
    case False
    then have pos: "0 < t" "0 < e" by auto
    let ?rest = "[OpExistsRelated, OpAnd, OpHalt]"
    have one: "eval_ops d prog ctx oth opaque_chunk [] 0 t e =
        eval_ops d prog ctx oth ?rest [case nth_opt (prog_atoms prog) 0 of Some a \<Rightarrow> eval_atom a ctx oth | None \<Rightarrow> False] 0 (t - 1) (e - 1)"
      by (simp add: opaque_chunk_def eval_ops_step[OF pos])
    show ?thesis
    proof (cases "t - 1 = 0 \<or> e - 1 = 0")
      case True
      then show ?thesis using pos by (auto simp: one spent_def eval_ops.simps(2))
    next
      case False
      then have pos1: "0 < t - 1" "0 < e - 1" by auto
      obtain d' where d: "d = Suc d'" using less.prems pos by (cases d) auto
      have "eval_ops d' prog ctx (Some y) opaque_chunk [] 0 (t - 2) (e - 2) = spent (t - 2) (e - 2)"
        using less.prems pos1 d by (intro less.IH) auto
      then show ?thesis
        unfolding one eval_ops_step[OF pos1]
        using pos1 spent_step[OF pos, where 'a = bool] spent_step[OF pos1, where 'a = bool]
        by (simp add: sc d eval_scan_step resolve_def nb related_scan_cap_def
            scan_neigh_step eval_then_def spent_def numeral_2_eq_2)
    qed
  qed
qed

section \<open>Properties\<close>

named_theorems canon_run \<open>definitions a concrete compilation or evaluation unfolds\<close>

lemmas canon_run_defs [canon_run] = compile_pred_with_def interner_new_def check_len_def pred_check_def
  push_op_def emit_atom_def emit_scan_def pred_ops_per_eval_def intern_affordance_def
  intern_resource_def intern_rite_def intern_fact_def intern_in_def u16_id_def u8_id_def
  intern_atom_def cook_slot1_def cook_slot2_def eval_pred_def eval_ops.simps(2) eval_atom_def
  resolve_def sem_slot_def on1_def on2_def with_id_def neighbours_def related_scan_cap_def
  cmp_i32_def scan_cost_def Let_def

lemmas mem_run_defs [canon_run] = mem_related_def mem_add_rel_def mem_set_affordance_def
  mem_set_qty_def bt_flag_def bt_has_def mem_new_def mem_view_def


definition ctx_of :: "pred_store \<Rightarrow> sigil \<Rightarrow> eval_ctx" where
  "ctx_of st s = \<lparr>store = st, ctx_this = s, ctx_target = None, ctx_pins = [], ctx_verb = Use,
     ctx_source = SrcPlayer, ctx_claimed = [], ctx_swept = False\<rparr>"

definition two_rooms :: mem_store where
  "two_rooms = mem_set_affordance 2 0 True (mem_add_rel 2 LockedBy 3 (mem_add_rel 1 In 2 mem_new))"

definition lit_room :: pred where
  "lit_room = PAnd (PNot (PAffordance This ''Dark'')) (PCountRelated This In (PQty Other ''heat'' Ge 400) Ge 1)"

declare ctx_of_def [canon_run] two_rooms_def [canon_run] lit_room_def [canon_run]

text \<open>
  C3: The predicate compiler is correct.  For a predicate the IR check accepts, with no
  \<open>OpaqueClosed\<close> below a quantifier, running its bytecode in any store and context returns
  exactly the predicate's denotation and takes exactly its cost from the tick budget; when the
  cost does not fit in the tick budget or the 64 operations of one evaluation, the result is
  \<open>Budget\<close> and the smaller budget is used up.
\<close>

theorem compiled_predicate_correct:
  assumes "pred_check p = Inr ()" and "opaque_outside p"
    and "compile_pred_with p I = Inr (prog, I')" and "intern_le I' J"
  shows "eval_pred prog ctx t =
    (if cost J ctx None p + 1 \<le> min t pred_ops_per_eval
     then (Inr (sem J ctx None p), t - (cost J ctx None p + 1))
     else (Inl RBudget, t - min t pred_ops_per_eval))"
  using assms by (intro compile_eval pred_check_quant_flat) simp_all

theorem compiled_predicate_correct_witness:
  "\<exists>prog I'. compile_pred_with lit_room interner_new = Inr (prog, I')
    \<and> eval_pred prog (ctx_of (mem_view (mem_set_qty 2 1 500 two_rooms)) 1) 10 = (Inr False, 3)
    \<and> eval_pred prog (ctx_of (mem_view (mem_set_qty 2 0 500 two_rooms)) 1) 10 = (Inr True, 3)
    \<and> eval_pred prog (ctx_of (mem_view two_rooms) 1) 5 = (Inl RBudget, 0)"
proof -
  obtain prog I' where c: "compile_pred_with lit_room interner_new = Inr (prog, I')"
    and I': "resources I' = [(''heat'', 0)]" "affordances I' = [(''Dark'', 0)]"
    by (simp add: canon_run)
  have ok: "pred_check lit_room = Inr ()" "opaque_outside lit_room" by (simp_all add: canon_run)
  note run = compiled_predicate_correct[OF ok c intern_le_refl]
  show ?thesis by (intro exI[of _ prog] exI[of _ I']) (simp add: c run, simp add: canon_run I')
qed

text \<open>
  Compilation is total and clean.  Whatever predicate is compiled, it never reaches the
  compiler's unreachable arms: it fails only with a full table, an over-long chunk or, under
  strict pins, an unbound name; and when it succeeds every name keeps the id it had and the
  interner's tables stay dense (a table of n names uses exactly the ids below n).
\<close>

theorem compile_outcome:
  assumes "interner_ok I"
  shows "case compile_pred_with p I of
     Inl e \<Rightarrow> e = TableFull \<or> e = PredTooLarge \<or> (\<exists>n. e = UnboundName n)
   | Inr (prog, I') \<Rightarrow> interner_ok I' \<and> intern_le I I' \<and> length (prog_chunk prog) \<le> pred_ops_per_eval"
proof (cases "compile_pred_with p I")
  case (Inl e)
  then show ?thesis using compile_fails[of p I e] by (simp add: cook_fails_def)
next
  case (Inr x)
  then obtain st where st: "emit (desugar p) \<lparr>es_intern = I, es_atoms = [], es_scans = [], es_ops = []\<rparr> = Inr st"
    "length (es_ops st @ [OpHalt]) \<le> pred_ops_per_eval"
    "x = (\<lparr>prog_chunk = es_ops st @ [OpHalt], prog_atoms = es_atoms st, prog_scans = es_scans st\<rparr>, es_intern st)"
    by (auto simp: compile_pred_with_def check_len_def rbind_Inr_iff split: if_splits)
  then show ?thesis using emit_ok[OF st(1)] emit_le[OF st(1)] assms Inr by simp
qed

theorem compile_outcome_witness:
  "case compile_pred_with lit_room interner_new of
     Inl e \<Rightarrow> e = TableFull \<or> e = PredTooLarge \<or> (\<exists>n. e = UnboundName n)
   | Inr (prog, I') \<Rightarrow> interner_ok I' \<and> intern_le interner_new I' \<and> length (prog_chunk prog) \<le> pred_ops_per_eval"
  by (rule compile_outcome) simp

text \<open>
  Evaluation is bounded for every program, compiled or not: it returns, it takes at most 64
  operations and at most what is left in the tick, and its only error is \<open>Budget\<close>, raised
  exactly when one of the two budgets is used up.
\<close>

theorem evaluation_bounded:
  "case eval_pred prog ctx t of (r, t') \<Rightarrow>
     t' \<le> t \<and> t - t' \<le> pred_ops_per_eval \<and>
     (case r of Inl e \<Rightarrow> e = RBudget \<and> t - t' = min t pred_ops_per_eval | Inr b \<Rightarrow> True)"
proof -
  obtain r t' where "eval_pred prog ctx t = (r, t')" by (metis surj_pair)
  then show ?thesis using eval_pred_bounded[of prog ctx t r t'] by (cases r) (auto simp: min_def)
qed

text \<open>
  The predicate \<open>ExistsRelated(This, r, OpaqueClosed(Other))\<close> passes the IR check, compiles,
  and then can never be decided once its subject has a neighbour: the scan of the expanded
  \<open>OpaqueClosed\<close> is dropped by the compiler, its op finds the outer scan in its place, and the
  evaluation recurses until the budget is gone.
\<close>

theorem opaque_below_quantifier_spends_budget:
  assumes comp: "compile_pred_with (opaque_below r) I = Inr (prog, I')"
    and nb: "related (store ctx) (ctx_this ctx) r \<noteq> []"
  shows "pred_check (opaque_below r) = Inr () \<and> eval_pred prog ctx t = (Inl RBudget, t - min t pred_ops_per_eval)"
proof
  show "pred_check (opaque_below r) = Inr ()" by (simp add: pred_check_def opaque_below_def)
  obtain y ys where nb': "related (store ctx) (ctx_this ctx) r = y # ys" using nb by (cases "related (store ctx) (ctx_this ctx) r") auto
  note code = opaque_below_code[OF comp]
  have "eval_ops 64 prog ctx None [OpExistsRelated, OpHalt] [] 0 t 64 = spent t 64"
  proof (cases "t = 0")
    case True
    then show ?thesis by (simp add: spent_def eval_ops.simps(2))
  next
    case False
    then have pos: "0 < t" "0 < (64::nat)" by auto
    have "eval_ops 63 prog ctx (Some y) opaque_chunk [] 0 (t - 1) 63 = spent (t - 1) 63"
      using opaque_chunk_spends[OF conjunct2[OF code] nb'] by simp
    then show ?thesis
      using eval_scan_step[of 63 prog ctx None] spent_step[OF pos, where 'a = bool]
      by (simp add: eval_ops_step[OF pos] code resolve_def nb' related_scan_cap_def
            scan_neigh_step eval_then_def spent_def)
  qed
  then show "eval_pred prog ctx t = (Inl RBudget, t - min t pred_ops_per_eval)"
    by (simp add: eval_pred_def pred_ops_per_eval_def code spent_def)
qed


theorem opaque_below_quantifier_spends_budget_witness:
  "\<exists>prog I'. compile_pred_with (opaque_below In) interner_new = Inr (prog, I')
    \<and> sem I' (ctx_of (mem_view two_rooms) 1) None (opaque_below In)
    \<and> eval_pred prog (ctx_of (mem_view two_rooms) 1) 1000 = (Inl RBudget, 936)"
proof -
  obtain prog I' where c: "compile_pred_with (opaque_below In) interner_new = Inr (prog, I')"
    and I': "affordances I' = [(''Opaque'', 0)]"
    by (simp add: canon_run opaque_below_def)
  have nb: "related (store (ctx_of (mem_view two_rooms) 1)) (ctx_this (ctx_of (mem_view two_rooms) 1)) In \<noteq> []"
    by (simp add: canon_run)
  have "sem I' (ctx_of (mem_view two_rooms) 1) None (opaque_below In)"
    by (simp add: canon_run opaque_below_def I')
  then show ?thesis
    using c opaque_below_quantifier_spends_budget[OF c nb, of 1000] by (auto simp: pred_ops_per_eval_def)
qed

text \<open>
  On nonempty hulls within half a million metres of the origin, \<open>AabbNear\<close> is exact: it
  holds if and only if the two boxes have points whose Euclidean distance is at most the
  magnitude of the bound; saturation and 64-bit wrap-around never show.
\<close>

theorem aabb_near_iff_distance:
  assumes "\<not> aabb_is_empty a" and "\<not> aabb_is_empty b"
    and "coords_below (2 ^ 29) a" and "coords_below (2 ^ 29) b"
  shows "aabb_near a b m \<longleftrightarrow>
    (\<exists>p q. aabb_contains_point a p \<and> aabb_contains_point b q \<and> dist2 p q \<le> m * m)"
  using assms by (rule aabb_near_dist)

definition unit_box :: "int \<Rightarrow> aabb" where
  "unit_box x = aabb_new (ivec3 x x x) (ivec3 (x + 1000) (x + 1000) (x + 1000))"

theorem aabb_near_iff_distance_witness:
  "\<not> aabb_near (unit_box 0) (unit_box 4000) 5196 \<and> aabb_near (unit_box 0) (unit_box 4000) 5197
   \<and> (\<exists>p q. aabb_contains_point (unit_box 0) p \<and> aabb_contains_point (unit_box 4000) q \<and> dist2 p q \<le> 5197 * 5197)"
proof -
  have n: "\<not> aabb_is_empty (unit_box 0)" "\<not> aabb_is_empty (unit_box 4000)"
    "coords_below (2 ^ 29) (unit_box 0)" "coords_below (2 ^ 29) (unit_box 4000)" by code_simp+
  have "\<not> aabb_near (unit_box 0) (unit_box 4000) 5196 \<and> aabb_near (unit_box 0) (unit_box 4000) 5197"
    by code_simp
  then show ?thesis using aabb_near_iff_distance[OF n] by blast
qed

text \<open>
  Beyond that range \<open>AabbNear\<close> is wrong: the sum of the three squared gaps overflows 64
  bits, and two hulls three thousand kilometres apart are reported within 0 mm.
\<close>

theorem aabb_near_overflows:
  "let a = aabb_from_point (ivec3 (- (2 ^ 30)) (- (2 ^ 30)) (- (2 ^ 30)));
       b = aabb_from_point (ivec3 (2 ^ 30) (2 ^ 30) (2 ^ 30))
   in \<not> aabb_is_empty a \<and> \<not> aabb_is_empty b \<and> aabb_near a b 0 \<and> \<not> aabb_intersects a b"
  by code_simp

text \<open>
  Over the in-memory store a quantifier ranges over exactly the related loci: while a locus
  has at most 64 neighbours, \<open>ExistsRelated\<close> holds if and only if some related locus satisfies
  the body, and \<open>CountRelated\<close> compares the number of related loci that satisfy it, each counted
  once however the relation was built up.
\<close>

theorem quantifiers_over_mem_store:
  assumes "mem_ok m" and "store ctx = mem_view m" and "sem_slot I ctx oth sl = Some x"
    and "length (mem_related m x r) \<le> related_scan_cap"
  shows "(sem I ctx oth (PExistsRelated sl r p) \<longleftrightarrow>
      (\<exists>y. (x, r, y) \<in> set (ms_rels m) \<and> sem I ctx (Some y) p))
    \<and> (sem I ctx oth (PCountRelated sl r p c n) \<longleftrightarrow>
      cmp_i32 (int (card {y. (x, r, y) \<in> set (ms_rels m) \<and> sem I ctx (Some y) p})) c n)"
proof -
  have "related (mem_view m) = mem_related m" "has_rel (mem_view m) = (\<lambda>a r b. (a, r, b) \<in> set (ms_rels m))"
    by (simp_all add: mem_view_def)
  then show ?thesis
    using mem.exists_scan[OF assms(1,2) _ assms(3), of r p] mem.count_scan[OF assms(1,2) _ assms(3), of r p c n] assms(4)
    by simp
qed

theorem quantifiers_over_mem_store_witness:
  "sem interner_new (ctx_of (mem_view two_rooms) 1) None (PExistsRelated This In (PSelfIs This))
   \<longleftrightarrow> (\<exists>y. (1, In, y) \<in> set (ms_rels two_rooms)
        \<and> sem interner_new (ctx_of (mem_view two_rooms) 1) (Some y) (PSelfIs This))"
proof -
  have ok: "mem_ok two_rooms"
    unfolding two_rooms_def by (intro mem_ok_ops) (simp add: mem_ok_def mem_new_def)
  show ?thesis
    by (rule quantifiers_over_mem_store[OF ok, THEN conjunct1]) (simp_all add: canon_run)
qed

end
