(* ===== verification/CanonCookProps.thy ===== *)
theory CanonCookProps
  imports CanonCook CanonProps
begin

text \<open>
  Cooking keeps meaning: every predicate index in the tables denotes the authored predicate it came
  from, read through the tables' own names; ids are indices; and pins are exactly the seed loci.
\<close>

section \<open>What every phase keeps\<close>

text \<open>
  \<open>cook_le\<close>: names keep their ids, predicates keep their indices, the interner stays dense, and
  under strict pins no pin is added.
\<close>

definition pins_of :: "interner \<Rightarrow> (string, nat) btree \<times> string list \<times> sigil option list" where
  "pins_of I = (pins I, pin_names I, pin_sigils I)"

definition intern_grows :: "interner \<Rightarrow> interner \<Rightarrow> bool" where
  "intern_grows I J \<longleftrightarrow> intern_le I J \<and> (interner_ok I \<longrightarrow> interner_ok J)
     \<and> strict_pins J = strict_pins I \<and> (strict_pins I \<longrightarrow> pins_of J = pins_of I)"

definition cook_le :: "cook_state \<Rightarrow> cook_state \<Rightarrow> bool" where
  "cook_le st st' \<longleftrightarrow> intern_grows (fst st) (fst st') \<and> (\<exists>ext. snd st' = snd st @ ext)"

lemma intern_grows_refl [simp]: "intern_grows I I"
  by (simp add: intern_grows_def)

lemma intern_grows_trans: "intern_grows I J \<Longrightarrow> intern_grows J K \<Longrightarrow> intern_grows I K"
  unfolding intern_grows_def using intern_le_trans by metis

lemma cook_le_refl [simp]: "cook_le st st"
  by (simp add: cook_le_def)

lemma cook_le_trans: "cook_le a b \<Longrightarrow> cook_le b c \<Longrightarrow> cook_le a c"
  unfolding cook_le_def using intern_grows_trans by (metis append.assoc)

lemma intern_name_pins:
  "intern_affordance n I = Inr (i, J) \<Longrightarrow> pins_of J = pins_of I \<and> strict_pins J = strict_pins I"
  "intern_resource n I = Inr (i, J) \<Longrightarrow> pins_of J = pins_of I \<and> strict_pins J = strict_pins I"
  "intern_rite n I = Inr (i, J) \<Longrightarrow> pins_of J = pins_of I \<and> strict_pins J = strict_pins I"
  "intern_fact n I = Inr (i, J) \<Longrightarrow> pins_of J = pins_of I \<and> strict_pins J = strict_pins I"
  by (auto simp: intern_affordance_def intern_resource_def intern_rite_def intern_fact_def
      rbind_Inr_iff pins_of_def)

lemma intern_name_grows:
  "intern_affordance n I = Inr (i, J) \<Longrightarrow> intern_grows I J"
  "intern_resource n I = Inr (i, J) \<Longrightarrow> intern_grows I J"
  "intern_rite n I = Inr (i, J) \<Longrightarrow> intern_grows I J"
  "intern_fact n I = Inr (i, J) \<Longrightarrow> intern_grows I J"
  by (auto simp: intern_grows_def dest: intern_name_le intern_name_ok intern_name_pins)

lemma cook_slot_grows: "cook_slot s I = Inr (x, J) \<Longrightarrow> intern_grows I J"
proof -
  assume a: "cook_slot s I = Inr (x, J)"
  have "strict_pins J = strict_pins I \<and> (strict_pins I \<longrightarrow> pins_of J = pins_of I)"
    using a by (cases s) (auto simp: rbind_Inr_iff split: option.splits if_splits)
  then show ?thesis using cook_slot_le[OF a] cook_slot_ok[OF a] by (simp add: intern_grows_def)
qed

lemma cook_atom_grows: "cook_atom p I = Inr (a, J) \<Longrightarrow> intern_grows I J"
  by (cases p) (auto simp: rbind_Inr_iff cook_slot1_def cook_slot2_def
      dest!: cook_slot_grows intern_name_grows intro: intern_grows_trans)

lemma emit_atom_grows: "emit_atom p st = Inr st' \<Longrightarrow> intern_grows (es_intern st) (es_intern st')"
  by (auto simp: emit_atom_def rbind_Inr_iff push_op_def case_prod_beta Let_def dest: cook_atom_grows)

lemma emit_scan_grows:
  "emit_scan s r c op st nested = Inr st' \<Longrightarrow> intern_grows (es_intern nested) (es_intern st')"
  by (auto simp: emit_scan_def rbind_Inr_iff push_op_def dest: cook_slot_grows)

lemma emit_grows: "emit p st = Inr st' \<Longrightarrow> intern_grows (es_intern st) (es_intern st')"
  by (induction p arbitrary: st st')
    (fastforce simp: rbind_Inr_iff push_op_def dest: emit_atom_grows emit_scan_grows intro: intern_grows_trans)+

lemma compile_grows: "compile_pred_with p I = Inr (prog, J) \<Longrightarrow> intern_grows I J"
  by (auto simp: compile_pred_with_def rbind_Inr_iff dest: emit_grows)

text \<open>\<open>denotes st i p\<close>: index \<open>i\<close> holds a compilation of \<open>p\<close> whose names are those of \<open>st\<close>.\<close>

definition denotes :: "cook_state \<Rightarrow> nat \<Rightarrow> pred \<Rightarrow> bool" where
  "denotes st i p \<longleftrightarrow> i < length (snd st) \<and>
     (\<exists>I J. compile_pred_with p I = Inr (snd st ! i, J) \<and> intern_le J (fst st))"

lemma denotes_mono: "denotes st i p \<Longrightarrow> cook_le st st' \<Longrightarrow> denotes st' i p"
proof -
  assume d: "denotes st i p" and le: "cook_le st st'"
  then obtain I J where c: "i < length (snd st)" "compile_pred_with p I = Inr (snd st ! i, J)" "intern_le J (fst st)"
    by (auto simp: denotes_def)
  obtain ext where "snd st' = snd st @ ext" "intern_le (fst st) (fst st')"
    using le by (auto simp: cook_le_def intern_grows_def)
  then have "i < length (snd st')" "snd st' ! i = snd st ! i" "intern_le J (fst st')"
    using c intern_le_trans by (auto simp: nth_append)
  then show ?thesis using c(2) unfolding denotes_def by metis
qed

lemma cook_pred_step: "cook_pred p st = Inr (i, st') \<Longrightarrow> cook_le st st' \<and> denotes st' i p"
  by (cases st) (auto simp: cook_pred_def push_pred_def rbind_Inr_iff cook_le_def denotes_def u16_id_def
      dest: compile_grows intro: exI[of _ "fst st"] split: if_splits)

definition names_resource :: "cook_state \<Rightarrow> nat \<Rightarrow> string \<Rightarrow> bool" where
  "names_resource st r n \<longleftrightarrow> bt_get (resources (fst st)) n = Some r"

lemma names_resource_mono: "names_resource st r n \<Longrightarrow> cook_le st st' \<Longrightarrow> names_resource st' r n"
  by (auto simp: names_resource_def cook_le_def intern_grows_def intern_le_get)

lemma cook_resource_step: "cook_resource n st = Inr (r, st') \<Longrightarrow> cook_le st st' \<and> names_resource st' r n"
  by (cases st) (auto simp: cook_resource_def rbind_Inr_iff cook_le_def names_resource_def
      dest: intern_name_grows intern_name_le)

text \<open>A cooked body is its authored body with predicates, resources and slots resolved.\<close>

fun body_cooked :: "cook_state \<Rightarrow> law_body \<Rightarrow> cooked_law_body \<Rightarrow> bool" where
  "body_cooked st (LbPred must ought) (CkPred m o') = (denotes st m must \<and>
     (case (ought, o') of (None, None) \<Rightarrow> True
      | (Some c, Some k) \<Rightarrow> names_resource st (cc_res k) (cost_res c) \<and> cc_amount k = cost_amount c
      | _ \<Rightarrow> False))"
| "body_cooked st (LbRamp res p q c) (CkRamp r p' q' c') = (names_resource st r res \<and> p' = p \<and> q' = q \<and> c' = c)"
| "body_cooked st (LbSpread res p d g i) (CkSpread r p' d' g' i') =
     (names_resource st r res \<and> p' = p \<and> d' = d \<and> g' = g \<and> i' = i)"
| "body_cooked st (LbConserve res ov) (CkConserve r ov') = (names_resource st r res \<and> ov' = ov)"
| "body_cooked st (LbCap mark n rq) (CkCap m n' rq') = (denotes st m mark \<and> n' = n \<and>
     (case (rq, rq') of (None, None) \<Rightarrow> True
      | (Some (r, s), Some (r', x)) \<Rightarrow> r' = r \<and> (\<exists>I J. cook_slot s I = Inr (x, J) \<and> intern_le J (fst st))
      | _ \<Rightarrow> False))"
| "body_cooked st _ _ = False"

lemma body_cooked_mono: "body_cooked st b c \<Longrightarrow> cook_le st st' \<Longrightarrow> body_cooked st' b c"
proof (induction st b c rule: body_cooked.induct)
  case (5 st mark n rq m n' rq')
  moreover have "intern_le J (fst st) \<Longrightarrow> intern_le J (fst st')" for J
    using 5(2) intern_le_trans by (auto simp: cook_le_def intern_grows_def)
  ultimately show ?case by (auto split: option.splits prod.splits dest: denotes_mono) blast+
qed (auto split: option.splits dest: denotes_mono names_resource_mono)

lemma cook_body_step: "cook_body b st = Inr (c, st') \<Longrightarrow> cook_le st st' \<and> body_cooked st' b c"
proof (cases b)
  case (LbPred must ought)
  assume a: "cook_body b st = Inr (c, st')"
  then obtain m st1 where m: "cook_pred must st = Inr (m, st1)" using LbPred by (auto simp: rbind_Inr_iff)
  note p = cook_pred_step[OF m]
  show ?thesis
  proof (cases ought)
    case None
    with a LbPred m have "c = CkPred m None" "st' = st1" by auto
    then show ?thesis using LbPred None p by simp
  next
    case (Some k)
    with a LbPred m obtain r where r: "cook_resource (cost_res k) st1 = Inr (r, st')"
      "c = CkPred m (Some \<lparr>cc_res = r, cc_amount = cost_amount k\<rparr>)" by (auto simp: rbind_Inr_iff)
    note q = cook_resource_step[OF r(1)]
    have "cook_le st st'" "denotes st' m must" using p q cook_le_trans denotes_mono by blast+
    then show ?thesis using q Some LbPred r(2) by simp
  qed
next
  case (LbCap mark n rq)
  assume a: "cook_body b st = Inr (c, st')"
  then obtain m I ps where m: "cook_pred mark st = Inr (m, I, ps)" using LbCap by (auto simp: rbind_Inr_iff)
  note p = cook_pred_step[OF m]
  show ?thesis
  proof (cases rq)
    case None
    with a LbCap m have "c = CkCap m n None" "st' = (I, ps)" by auto
    then show ?thesis using LbCap None p by simp
  next
    case (Some rs)
    with a LbCap m obtain x J where r: "cook_slot (snd rs) I = Inr (x, J)" "st' = (J, ps)"
      "c = CkCap m n (Some (fst rs, x))" by (auto simp: rbind_Inr_iff split: prod.splits)
    have q: "cook_le (I, ps) st'" using cook_slot_grows[OF r(1)] by (simp add: cook_le_def r(2))
    have "cook_le st st'" "denotes st' m mark" using p q cook_le_trans denotes_mono by blast+
    moreover have "\<exists>I' J'. cook_slot (snd rs) I' = Inr (x, J') \<and> intern_le J' (fst st')"
      using r(1,2) by (intro exI[of _ I] exI[of _ J]) simp
    ultimately show ?thesis using Some LbCap r(3) by (cases rs) simp
  qed
qed (auto simp: rbind_Inr_iff dest: cook_resource_step)

section \<open>The phases\<close>

definition law_cooked :: "cook_state \<Rightarrow> string \<times> law \<Rightarrow> cooked_law \<Rightarrow> bool" where
  "law_cooked st nl c \<longleftrightarrow> cl_name c = fst nl \<and> denotes st (cl_when c) (law_when (snd nl))
     \<and> body_cooked st (law_body_of (snd nl)) (cl_body c)"

lemma law_cooked_mono: "law_cooked st nl c \<Longrightarrow> cook_le st st' \<Longrightarrow> law_cooked st' nl c"
  unfolding law_cooked_def using denotes_mono body_cooked_mono by blast

lemma cook_laws_step:
  "cook_laws i ls st acc by = Inr ((laws, by'), st') \<Longrightarrow> cook_le st st' \<and>
   (\<exists>new. laws = acc @ new \<and> list_all2 (law_cooked st') ls new \<and> map cl_id new = [i..<i + length ls])"
proof (induction i ls st acc "by" rule: cook_laws.induct)
  case (2 i n l ls st acc "by")
  have "u16_id i = Inr i" using "2.prems" by (cases "u16_id i") (auto dest: u_id_val)
  moreover obtain w st1 where "cook_pred (law_when l) st = Inr (w, st1)"
    using "2.prems" by (auto simp: rbind_Inr_iff)
  moreover obtain b st2 where "cook_body (law_body_of l) st1 = Inr (b, st2)"
    using "2.prems" calculation by (auto simp: rbind_Inr_iff)
  ultimately have s: "u16_id i = Inr i" "cook_pred (law_when l) st = Inr (w, st1)"
    "cook_body (law_body_of l) st1 = Inr (b, st2)"
    "cook_laws (Suc i) ls st2 (acc @ [\<lparr>cl_id = i, cl_name = n, cl_when = w, cl_body = b\<rparr>]) (bt_insert n i by)
       = Inr ((laws, by'), st')"
    using "2.prems" by simp_all
  obtain new where le: "cook_le st2 st'"
    and new: "laws = (acc @ [\<lparr>cl_id = i, cl_name = n, cl_when = w, cl_body = b\<rparr>]) @ new"
      "list_all2 (law_cooked st') ls new" "map cl_id new = [Suc i..<Suc i + length ls]"
    using "2.IH"[OF s(1) s(2) refl s(3) refl s(4)] by blast
  note w = cook_pred_step[OF s(2)] and b = cook_body_step[OF s(3)]
  have "denotes st2 w (law_when l)" using w b denotes_mono by blast
  then have "law_cooked st2 (n, l) \<lparr>cl_id = i, cl_name = n, cl_when = w, cl_body = b\<rparr>"
    using b by (simp add: law_cooked_def)
  note law_cooked_mono[OF this le]
  moreover have "cook_le st st'" using w b le cook_le_trans by blast
  ultimately show ?case
    using new by (intro conjI exI[of _ "\<lparr>cl_id = i, cl_name = n, cl_when = w, cl_body = b\<rparr> # new"])
      (simp_all add: upt_conv_Cons del: upt_Suc)
qed simp


lemma cook_laws_names:
  "cook_laws i ls st acc by = Inr ((laws, by'), st') \<Longrightarrow> distinct (map fst ls) \<Longrightarrow>
   bt_get by' n = (case find_index (\<lambda>x. x = n) (map fst ls) of Some k \<Rightarrow> Some (i + k) | None \<Rightarrow> bt_get by n)"
proof (induction i ls st acc "by" rule: cook_laws.induct)
  case (2 i a l ls st acc "by")
  have u: "u16_id i = Inr i" using "2.prems"(1) by (cases "u16_id i") (auto dest: u_id_val)
  obtain w st1 where w: "cook_pred (law_when l) st = Inr (w, st1)" using "2.prems"(1) by (auto simp: rbind_Inr_iff)
  obtain b st2 where b: "cook_body (law_body_of l) st1 = Inr (b, st2)"
    using "2.prems"(1) u w by (auto simp: rbind_Inr_iff)
  have tail: "cook_laws (Suc i) ls st2 (acc @ [\<lparr>cl_id = i, cl_name = a, cl_when = w, cl_body = b\<rparr>]) (bt_insert a i by)
       = Inr ((laws, by'), st')" using "2.prems"(1) u w b by simp
  have d: "distinct (map fst ls)" using "2.prems"(2) by simp
  note IH = "2.IH"[OF u w refl b refl tail d]
  show ?case
  proof (cases "a = n")
    case True
    then have "find_index (\<lambda>x. x = n) (map fst ls) = None" using "2.prems"(2) by (auto simp: find_index_None)
    then show ?thesis using IH True by (simp add: bt_get_insert)
  next
    case False
    then show ?thesis using IH by (simp add: bt_get_insert split: option.splits)
  qed
qed simp

lemma cook_each_step:
  assumes "\<And>x s y s'. f x s = Inr (y, s') \<Longrightarrow> cook_le s s' \<and> P s' x y"
    and "\<And>s s' x y. P s x y \<Longrightarrow> cook_le s s' \<Longrightarrow> P s' x y"
  shows "cook_each f xs st = Inr (ys, st') \<Longrightarrow> cook_le st st' \<and> list_all2 (P st') xs ys"
proof (induction xs arbitrary: st ys)
  case (Cons x xs)
  then obtain y st1 ys' where s: "f x st = Inr (y, st1)" "cook_each f xs st1 = Inr (ys', st')" "ys = y # ys'"
    by (auto simp: rbind_Inr_iff)
  with assms(1)[OF s(1)] Cons.IH[OF s(2)] show ?case
    using assms(2) cook_le_trans by (metis list.rel_intros(2))
qed simp

definition names_affordance :: "cook_state \<Rightarrow> string \<Rightarrow> nat \<Rightarrow> bool" where
  "names_affordance st n i \<longleftrightarrow> bt_get (affordances (fst st)) n = Some i"

lemma names_affordance_mono: "names_affordance st n i \<Longrightarrow> cook_le st st' \<Longrightarrow> names_affordance st' n i"
  by (auto simp: names_affordance_def cook_le_def intern_grows_def intern_le_get)

lemma cook_conflict_step: "cook_conflict n st = Inr (i, st') \<Longrightarrow> cook_le st st' \<and> names_affordance st' n i"
  by (cases st) (auto simp: cook_conflict_def rbind_Inr_iff cook_le_def names_affordance_def
      dest: intern_name_grows intern_name_le)

definition affordance_cooked :: "cook_state \<Rightarrow> string \<times> affordance \<Rightarrow> cooked_affordance \<Rightarrow> bool" where
  "affordance_cooked st na c \<longleftrightarrow> ca_name c = fst na \<and> ca_grants c = aff_grants (snd na)
     \<and> list_all2 (\<lambda>p i. denotes st i p) (aff_requires (snd na)) (ca_requires c)
     \<and> list_all2 (names_affordance st) (aff_conflicts (snd na)) (ca_conflicts c)"

lemma affordance_cooked_mono: "affordance_cooked st na c \<Longrightarrow> cook_le st st' \<Longrightarrow> affordance_cooked st' na c"
  unfolding affordance_cooked_def
  by (auto elim!: list_all2_mono dest: denotes_mono names_affordance_mono)

lemma cook_affordances_step:
  "cook_affordances i as st acc = Inr (affs, st') \<Longrightarrow> cook_le st st' \<and>
   (\<exists>new. affs = acc @ new \<and> list_all2 (affordance_cooked st') as new \<and> map ca_id new = [i..<i + length as])"
proof (induction i as st acc rule: cook_affordances.induct)
  case (2 i n a as st acc)
  have u: "u16_id i = Inr i" using "2.prems" by (cases "u16_id i") (auto dest: u_id_val)
  then obtain rs st1 where r: "cook_each cook_pred (aff_requires a) st = Inr (rs, st1)"
    using "2.prems" by (auto simp: rbind_Inr_iff)
  then obtain cs st2 where c: "cook_each cook_conflict (aff_conflicts a) st1 = Inr (cs, st2)"
    using "2.prems" u by (auto simp: rbind_Inr_iff)
  let ?c = "\<lparr>ca_id = i, ca_name = n, ca_requires = rs, ca_grants = aff_grants a, ca_conflicts = cs\<rparr>"
  have tail: "cook_affordances (Suc i) as st2 (acc @ [?c]) = Inr (affs, st')" using "2.prems" u r c by simp
  from "2.IH"[OF u r refl c refl tail] obtain new where le: "cook_le st2 st'"
    and new: "affs = (acc @ [?c]) @ new" "list_all2 (affordance_cooked st') as new"
      "map ca_id new = [Suc i..<Suc i + length as]" by blast
  have R: "cook_le st st1" "list_all2 (\<lambda>p i. denotes st1 i p) (aff_requires a) rs"
    using cook_each_step[of cook_pred "\<lambda>s p i. denotes s i p", OF cook_pred_step denotes_mono r] by auto
  have C: "cook_le st1 st2" "list_all2 (names_affordance st2) (aff_conflicts a) cs"
    using cook_each_step[of cook_conflict names_affordance, OF cook_conflict_step names_affordance_mono c] by auto
  have "affordance_cooked st2 (n, a) ?c"
    using C(2) list_all2_mono[OF R(2)] denotes_mono[OF _ C(1)] by (simp add: affordance_cooked_def)
  note affordance_cooked_mono[OF this le]
  moreover have "cook_le st st'" using R(1) C(1) le cook_le_trans by blast
  ultimately show ?case
    using new by (intro conjI exI[of _ "?c # new"]) (simp_all add: upt_conv_Cons del: upt_Suc)
qed simp

text \<open>A guard or branch at a program counter is compiled under that counter.\<close>

definition op_guard :: "rite_op \<Rightarrow> pred option" where
  "op_guard op = (case op of Guard p f \<Rightarrow> Some p | Branch p y n \<Rightarrow> Some p | _ \<Rightarrow> None)"

definition guards_ok :: "cook_state \<Rightarrow> rite_instr list \<Rightarrow> (nat, nat) btree \<Rightarrow> bool" where
  "guards_ok st instrs gs \<longleftrightarrow> (\<forall>x \<in> set instrs. \<forall>p. op_guard (ri_op x) = Some p \<longrightarrow>
     (\<exists>i. bt_get gs (ri_pc x) = Some i \<and> denotes st i p))"

lemma guards_ok_mono: "guards_ok st instrs gs \<Longrightarrow> cook_le st st' \<Longrightarrow> guards_ok st' instrs gs"
  unfolding guards_ok_def using denotes_mono by blast

lemma cook_guard_step:
  assumes "cook_guard pc op gs st = Inr (gs', st')"
  shows "cook_le st st' \<and> (case op_guard op of
      Some p \<Rightarrow> \<exists>i. gs' = bt_insert pc i gs \<and> denotes st' i p | None \<Rightarrow> gs' = gs)"
proof (cases op)
  case (Spawn n)
  with assms show ?thesis
    by (cases st) (auto simp: cook_guard_def op_guard_def rbind_Inr_iff cook_le_def dest: intern_name_grows)
qed (use assms in \<open>auto simp: cook_guard_def op_guard_def rbind_Inr_iff dest: cook_pred_step cook_resource_step\<close>)

lemma cook_nodes_le:
  "cook_nodes i ns st instrs gs = Inr ((instrs', gs'), st') \<Longrightarrow> cook_le st st'
   \<and> map (\<lambda>x. (ri_pc x, ri_op x)) instrs' = map (\<lambda>x. (ri_pc x, ri_op x)) instrs @ map2 node_pc [i..<i + length ns] ns"
proof (induction i ns st instrs gs rule: cook_nodes.induct)
  case (2 i node ns st instrs gs)
  obtain pc op where n: "node_pc i node = (pc, op)" by (metis surj_pair)
  then obtain gs1 st1 where g: "cook_guard pc op gs st = Inr (gs1, st1)"
    using "2.prems"(1) by (auto simp: rbind_Inr_iff)
  have tail: "cook_nodes (Suc i) ns st1 (instrs @ [\<lparr>ri_pc = pc, ri_op = op\<rparr>]) gs1 = Inr ((instrs', gs'), st')"
    using "2.prems"(1) n g by simp
  note IH = "2.IH"[OF n[symmetric] refl g refl tail]
  have "cook_le st st'" using IH cook_guard_step[OF g] cook_le_trans by blast
  moreover have "[i..<i + length (node # ns)] = i # [Suc i..<Suc i + length ns]" by (simp add: upt_conv_Cons del: upt_Suc)
  ultimately show ?case using IH by (simp add: n del: upt_Suc)
qed simp

lemma cook_nodes_guards:
  "cook_nodes i ns st instrs gs = Inr ((instrs', gs'), st') \<Longrightarrow> guards_ok st instrs gs \<Longrightarrow>
   distinct (map ri_pc instrs @ map fst (map2 node_pc [i..<i + length ns] ns)) \<Longrightarrow> guards_ok st' instrs' gs'"
proof (induction i ns st instrs gs rule: cook_nodes.induct)
  case (2 i node ns st instrs gs)
  obtain pc op where n: "node_pc i node = (pc, op)" by (metis surj_pair)
  then obtain gs1 st1 where g: "cook_guard pc op gs st = Inr (gs1, st1)"
    using "2.prems"(1) by (auto simp: rbind_Inr_iff)
  let ?x = "\<lparr>ri_pc = pc, ri_op = op\<rparr>"
  have tail: "cook_nodes (Suc i) ns st1 (instrs @ [?x]) gs1 = Inr ((instrs', gs'), st')"
    using "2.prems"(1) n g by simp
  note G = cook_guard_step[OF g]
  have up: "[i..<i + length (node # ns)] = i # [Suc i..<Suc i + length ns]" by (simp add: upt_conv_Cons del: upt_Suc)
  have d: "distinct (map ri_pc instrs @ pc # map fst (map2 node_pc [Suc i..<Suc i + length ns] ns))"
    using "2.prems"(3) unfolding up by (simp add: n)
  have "guards_ok st1 instrs gs" using guards_ok_mono[OF "2.prems"(2)] G by blast
  then have g1: "guards_ok st1 (instrs @ [?x]) gs1"
    using G d by (auto simp: guards_ok_def bt_get_insert image_iff split: option.splits)
  have d1: "distinct (map ri_pc (instrs @ [?x]) @ map fst (map2 node_pc [Suc i..<Suc i + length ns] ns))"
    using d by auto
  show ?case by (rule "2.IH"[OF n[symmetric] refl g refl tail g1 d1])
qed simp

definition rite_cooked :: "cook_state \<Rightarrow> rite_graph \<Rightarrow> cooked_rite \<Rightarrow> bool" where
  "rite_cooked st g c \<longleftrightarrow> cr_name c = rite_ident g \<and> is_ok (check_rite_cfg g)
     \<and> rc_entry (cr_chunk c) = rite_entry g \<and> rc_cap_steps (cr_chunk c) = cap_steps g
     \<and> rc_cap_ticks (cr_chunk c) = cap_ticks g
     \<and> map (\<lambda>x. (ri_pc x, ri_op x)) (rc_instrs (cr_chunk c)) = map2 node_pc [0..<length (rite_nodes g)] (rite_nodes g)
     \<and> (distinct (map ri_pc (rc_instrs (cr_chunk c))) \<longrightarrow> guards_ok st (rc_instrs (cr_chunk c)) (cr_guards c))"

lemma rite_cooked_mono: "rite_cooked st g c \<Longrightarrow> cook_le st st' \<Longrightarrow> rite_cooked st' g c"
  unfolding rite_cooked_def using guards_ok_mono by blast

lemma cook_rite_step:
  assumes "cook_rite k g st = Inr (c, st')"
  shows "cook_le st st' \<and> rite_cooked st' g c \<and> cr_id c = k"
proof -
  obtain ops instrs gs where o: "check_rite_cfg g = Inr ops"
    "cook_nodes 0 (rite_nodes g) st [] [] = Inr ((instrs, gs), st')"
    "c = \<lparr>cr_id = k, cr_name = rite_ident g, cr_chunk = \<lparr>rc_entry = rite_entry g,
       rc_cap_steps = cap_steps g, rc_cap_ticks = cap_ticks g, rc_instrs = instrs\<rparr>, cr_guards = gs\<rparr>"
    using assms by (auto simp: cook_rite_def rbind_Inr_iff)
  note le = cook_nodes_le[OF o(2)]
  have pcs: "map ri_pc instrs = map fst (map2 node_pc [0..<length (rite_nodes g)] (rite_nodes g))"
    using arg_cong[OF conjunct2[OF le], of "map fst"] by (simp add: comp_def)
  have "guards_ok st' instrs gs" if "distinct (map ri_pc instrs)"
    using cook_nodes_guards[OF o(2)] that unfolding pcs by (simp add: guards_ok_def)
  then show ?thesis using le o(1,3) by (simp add: rite_cooked_def is_ok_iff)
qed

lemma cook_rites_step:
  "cook_rites i gs st acc = Inr (rts, st') \<Longrightarrow> cook_le st st' \<and>
   (\<exists>new. rts = acc @ new \<and> list_all2 (rite_cooked st') gs new \<and> map cr_id new = [i..<i + length gs])"
proof (induction i gs st acc rule: cook_rites.induct)
  case (2 i g gs st acc)
  have u: "u16_id i = Inr i" using "2.prems" by (cases "u16_id i") (auto dest: u_id_val)
  then obtain r st1 where r: "cook_rite i g st = Inr (r, st1)"
    using "2.prems" by (auto simp: rbind_Inr_iff)
  have tail: "cook_rites (Suc i) gs st1 (acc @ [r]) = Inr (rts, st')" using "2.prems" u r by simp
  from "2.IH"[OF u r refl tail] obtain new where le: "cook_le st1 st'"
    and new: "rts = (acc @ [r]) @ new" "list_all2 (rite_cooked st') gs new"
      "map cr_id new = [Suc i..<Suc i + length gs]" by blast
  note R = cook_rite_step[OF r]
  have "cook_le st st'" "rite_cooked st' g r" using R le cook_le_trans rite_cooked_mono by blast+
  then show ?case
    using new R by (intro conjI exI[of _ "r # new"]) (simp_all add: upt_conv_Cons del: upt_Suc)
qed simp

section \<open>Drafts\<close>

text \<open>\<open>indexes m ns\<close>: the names are distinct and \<open>m\<close> maps each to its position.\<close>

definition indexes :: "(string, nat) btree \<Rightarrow> string list \<Rightarrow> bool" where
  "indexes m ns \<longleftrightarrow> distinct ns \<and> (\<forall>n. bt_get m n = find_index (\<lambda>x. x = n) ns)"

definition draft_ok :: "draft \<Rightarrow> bool" where
  "draft_ok d \<longleftrightarrow>
    indexes (d_law_ix d) (map fst (d_laws d)) \<and> indexes (d_aff_ix d) (map fst (d_affordances d))
    \<and> indexes (d_rite_ix d) (map rite_ident (d_rites d)) \<and> indexes (d_beat_ix d) (map beat_ident (d_beats d))"

lemma find_index_append:
  "find_index p (xs @ ys) = (case find_index p xs of Some i \<Rightarrow> Some i
     | None \<Rightarrow> map_option (\<lambda>i. length xs + i) (find_index p ys))"
proof (induction xs)
  case Nil
  show ?case by (cases "find_index p ys") simp_all
next
  case (Cons x xs)
  then show ?case by (cases "find_index p xs"; cases "find_index p ys") simp_all
qed

lemma indexes_add:
  assumes "indexes m ns" and "\<not> bt_has m n"
  shows "indexes (bt_insert n (length ns) m) (ns @ [n])"
proof -
  have "find_index (\<lambda>x. x = n) ns = None" using assms by (simp add: bt_has_def indexes_def)
  moreover from this have "n \<notin> set ns" by (auto simp: find_index_None)
  ultimately show ?thesis
    using assms(1) by (simp add: indexes_def bt_get_insert find_index_append split: option.split)
qed

lemma reindex_get:
  "distinct ns \<Longrightarrow> bt_get (fold (\<lambda>(n, j). bt_insert n j) (zip ns [i..<i + length ns]) m) n =
     (case find_index (\<lambda>x. x = n) ns of Some k \<Rightarrow> Some (i + k) | None \<Rightarrow> bt_get m n)"
proof (induction ns arbitrary: i m)
  case (Cons a ns)
  have up: "[i..<i + length (a # ns)] = i # [Suc i..<Suc i + length ns]" by (simp add: upt_conv_Cons del: upt_Suc)
  have d: "distinct ns" using Cons.prems by simp
  have ih: "bt_get (fold (\<lambda>(n, j). bt_insert n j) (zip (a # ns) [i..<i + length (a # ns)]) m) n =
     (case find_index (\<lambda>x. x = n) ns of Some k \<Rightarrow> Some (Suc i + k) | None \<Rightarrow> bt_get (bt_insert a i m) n)"
    unfolding up using Cons.IH[OF d, of "Suc i" "bt_insert a i m"] by (simp del: upt_Suc)
  show ?case
  proof (cases "a = n")
    case True
    then have "find_index (\<lambda>x. x = n) ns = None" using Cons.prems by (auto simp: find_index_None)
    then show ?thesis unfolding ih by (simp add: True bt_get_insert)
  next
    case False
    then show ?thesis unfolding ih by (simp add: bt_get_insert split: option.split)
  qed
qed simp

lemma reindex_indexes:
  assumes "distinct ns"
  shows "indexes (reindex ns) ns"
proof -
  have "bt_get (reindex ns) n = find_index (\<lambda>x. x = n) ns" for n
    using reindex_get[OF assms, of 0 "[]" n] by (simp add: reindex_def split: option.splits)
  with assms show ?thesis by (simp add: indexes_def)
qed

lemma map_remove_at: "map f (remove_at k xs) = remove_at k (map f xs)"
  by (simp add: remove_at_def take_map drop_map)

lemma distinct_remove_at:
  assumes "distinct xs"
  shows "distinct (remove_at k xs)"
proof -
  have "set (take k xs) \<inter> set (drop k xs) = {}"
    using assms by (metis append_take_drop_id distinct_append)
  moreover have "set (drop (Suc k) xs) \<subseteq> set (drop k xs)" by (simp add: set_drop_subset_set_drop)
  ultimately show ?thesis using assms by (auto simp: remove_at_def)
qed

lemma indexes_remove: "indexes m ns \<Longrightarrow> indexes (reindex (remove_at k ns)) (remove_at k ns)"
  by (rule reindex_indexes[OF distinct_remove_at]) (simp add: indexes_def)

lemma apply_diff_ok:
  assumes "apply_diff d x = Inr d'" and ok: "draft_ok d"
  shows "draft_ok d'"
proof (cases x)
  case (RetractLaw i reason)
  with assms(1) obtain k where "d' = d\<lparr>d_laws := remove_at k (d_laws d),
      d_law_ix := reindex (map fst (remove_at k (d_laws d)))\<rparr>"
    by (auto simp: retract_law_def Let_def split: option.splits)
  with ok show ?thesis
    using indexes_remove[of "d_law_ix d"] indexes_remove[of "d_rite_ix d"] by (auto simp: draft_ok_def map_remove_at)
next
  case (RetractRite i reason)
  with assms(1) obtain k where "d' = d\<lparr>d_rites := remove_at k (d_rites d),
      d_rite_ix := reindex (map rite_ident (remove_at k (d_rites d)))\<rparr>"
    by (auto simp: retract_rite_def Let_def split: option.splits)
  with ok show ?thesis
    using indexes_remove[of "d_law_ix d"] indexes_remove[of "d_rite_ix d"] by (auto simp: draft_ok_def map_remove_at)
next
  case (AddLaw l)
  with assms ok indexes_add[of "d_law_ix d" "map fst (d_laws d)" "law_ident l"]
  show ?thesis by (auto simp: draft_ok_def split: if_splits)
next
  case (AddAffordance l)
  with assms ok indexes_add[of "d_aff_ix d" "map fst (d_affordances d)" "aff_ident l"]
  show ?thesis by (auto simp: draft_ok_def split: if_splits)
next
  case (AddRite l)
  with assms ok indexes_add[of "d_rite_ix d" "map rite_ident (d_rites d)" "rite_ident l"]
  show ?thesis by (auto simp: draft_ok_def split: if_splits)
next
  case (AddBeat l)
  with assms ok indexes_add[of "d_beat_ix d" "map beat_ident (d_beats d)" "beat_ident l"]
  show ?thesis by (auto simp: draft_ok_def split: if_splits)
qed

lemma draft_apply_ok: "draft_apply ds = Inr d \<Longrightarrow> draft_ok d"
  unfolding draft_apply_def
  by (erule rfold_invariant[where P = draft_ok, rotated 2])
    (erule apply_diff_ok, assumption, simp add: draft_ok_def draft_new_def indexes_def)

section \<open>Numbering\<close>

lemma number_names_dense:
  "number_names i ns m = Inr m' \<Longrightarrow> dense m \<Longrightarrow> length m = i \<Longrightarrow> distinct ns \<Longrightarrow>
   (\<forall>n \<in> set ns. bt_get m n = None) \<Longrightarrow> dense m' \<and>
   (\<forall>n. bt_get m' n = (case find_index (\<lambda>x. x = n) ns of Some k \<Rightarrow> Some (i + k) | None \<Rightarrow> bt_get m n))"
proof (induction i ns m rule: number_names.induct)
  case (2 i a ns m)
  then have n: "number_names (Suc i) ns (bt_insert a i m) = Inr m'" and u: "u16_id i = Inr i"
    by (auto simp: rbind_Inr_iff dest: u_id_val)
  have a: "bt_get m a = None" "a \<notin> set ns" using "2.prems" by auto
  have d: "dense (bt_insert a i m)" "length (bt_insert a i m) = Suc i"
    using dense_insert[OF "2.prems"(2) a(1)] a(1) "2.prems"(2,3) by (simp_all add: length_bt_insert dense_def)
  have "\<forall>n \<in> set ns. bt_get (bt_insert a i m) n = None" using "2.prems"(5) a by (auto simp: bt_get_insert)
  note IH = "2.IH"[OF u n d] this
  have "find_index (\<lambda>x. x = a) ns = None" using a(2) by (auto simp: find_index_None)
  then have "bt_get m' x = (case find_index (\<lambda>y. y = x) (a # ns) of Some k \<Rightarrow> Some (i + k) | None \<Rightarrow> bt_get m x)" for x
    using IH "2.prems"(4) by (cases "a = x") (auto simp: bt_get_insert split: option.split)
  then show ?case using IH "2.prems"(4) by simp
qed simp

lemma number_names_index:
  assumes "number_names 0 ns [] = Inr m" and "distinct ns"
  shows "dense m" "bt_get m n = find_index (\<lambda>x. x = n) ns"
  using number_names_dense[OF assms(1)] assms(2) by (auto simp: dense_def split: option.splits)

section \<open>Seed pins\<close>

fun loci :: "seed_fact list \<Rightarrow> (string \<times> locus_kind) list" where
  "loci [] = []"
| "loci (SeedLocus n k # ss) = (n, k) # loci ss"
| "loci (s # ss) = loci ss"

definition seed_sigils :: "nat \<Rightarrow> (string \<times> locus_kind) list \<Rightarrow> sigil option list" where
  "seed_sigils i ls = map2 (\<lambda>(n, k) j. Some (sigil_pack_truncated k 0 (of_nat j))) ls [i..<i + length ls]"

lemma seed_sigils_simps [simp]:
  "seed_sigils i [] = []"
  "seed_sigils i ((n, k) # ls) = Some (sigil_pack_truncated k 0 (of_nat i)) # seed_sigils (Suc i) ls"
  by (simp_all add: seed_sigils_def upt_conv_Cons del: upt_Suc)

lemma pin_loci:
  "rfold pin_locus (I, of_nat (length (pin_names I)), seen) seed = Inr (J, nxt, seen') \<Longrightarrow> interner_ok I \<Longrightarrow>
   set seen = set (pin_names I) \<Longrightarrow> distinct (pin_names I) \<Longrightarrow> length (pin_names I) \<le> 65536 \<Longrightarrow> interner_ok J
   \<and> length (pin_names I) + length (loci seed) \<le> 65536
   \<and> pin_names J = pin_names I @ map fst (loci seed) \<and> distinct (pin_names I @ map fst (loci seed))
   \<and> pin_sigils J = pin_sigils I @ seed_sigils (length (pin_names I)) (loci seed)
   \<and> affordances J = affordances I \<and> rites J = rites I"
proof (induction seed arbitrary: I seen)
  case (Cons s seed)
  show ?case
  proof (cases "\<exists>n k. s = SeedLocus n k")
    case False
    then have "pin_locus st s = Inr st" "loci (s # seed) = loci seed" for st
      by (cases s; simp add: pin_locus_def)+
    then have "rfold pin_locus (I, of_nat (length (pin_names I)), seen) seed = Inr (J, nxt, seen')"
      using Cons.prems(1) by simp
    from Cons.IH[OF this Cons.prems(2-5)] show ?thesis unfolding \<open>loci (s # seed) = loci seed\<close> .
  next
    case True
    then obtain n k where s: "s = SeedLocus n k" by blast
    let ?i = "length (pin_names I)"
    let ?I = "I\<lparr>pins := bt_insert n ?i (pins I), pin_names := pin_names I @ [n],
      pin_sigils := pin_sigils I @ [Some (sigil_pack_truncated k 0 (of_nat ?i))]\<rparr>"
    obtain st where st: "pin_locus (I, of_nat ?i, seen) s = Inr st" "rfold pin_locus st seed = Inr (J, nxt, seen')"
      using Cons.prems(1) by (auto simp: rbind_Inr_iff)
    have new: "n \<notin> set (pin_names I)" "?i < 65536" and "st = (?I, of_nat (length (pin_names ?I)), n # seen)"
      using st(1) Cons.prems(3) unfolding s
      by (auto simp: pin_locus_def rbind_Inr_iff alloc_sigil_def sigil_pack_def u16_id_def add.commute
          split: if_splits option.splits)
    with st(2) have tail: "rfold pin_locus (?I, of_nat (length (pin_names ?I)), n # seen) seed = Inr (J, nxt, seen')"
      by blast
    have "bt_get (pins I) n = None"
      using Cons.prems(2) new by (cases "bt_get (pins I) n") (auto simp: interner_ok_def nth_opt_Some_iff, metis nth_mem)
    from Cons.IH[OF tail pin_ok[OF Cons.prems(2) this]] show ?thesis
      using new Cons.prems(3,4) by (simp add: s)
  qed
qed simp

lemma require_seed_grows: "require_seed I s = Inr J \<Longrightarrow> intern_grows I J"
  by (cases s) (auto simp: require_seed_def require_pin_def rbind_Inr_iff dest: intern_name_grows split: if_splits)

lemma cook_mind_fact_grows: "cook_mind_fact I f = Inr J \<Longrightarrow> intern_grows I J"
  by (cases "fact_query f") (auto simp: cook_mind_fact_def rbind_Inr_iff dest: intern_name_grows)

lemma cook_mind_target_grows: "cook_mind_target I t = Inr J \<Longrightarrow> intern_grows I J"
  by (cases t) (auto simp: cook_mind_target_def rbind_Inr_iff)

lemma rfold_grows:
  "(\<And>I x J. f I x = Inr J \<Longrightarrow> intern_grows I J) \<Longrightarrow> rfold f I xs = Inr J \<Longrightarrow> intern_grows I J"
  by (erule rfold_invariant[where P = "intern_grows I", rotated 2]) (auto intro: intern_grows_trans)

lemma cook_mind_grows:
  assumes "cook_mind I m = Inr J"
  shows "intern_grows I J"
proof -
  obtain K where k: "rfold cook_mind_fact I (mp_facts (ms_program m)) = Inr K"
    "rfold cook_mind_target K (map op_target (mp_operators (ms_program m)) @ map far_target (mp_far (ms_program m))) = Inr J"
    using assms by (auto simp: cook_mind_def cook_mind_names_def rbind_Inr_iff)
  show ?thesis
    by (rule intern_grows_trans[OF rfold_grows[OF cook_mind_fact_grows k(1)] rfold_grows[OF cook_mind_target_grows k(2)]])
qed

lemma intern_seed_step:
  assumes "intern_seed d seed = Inr I" and "draft_ok d"
  shows "interner_ok I" and "strict_pins I \<longleftrightarrow> seed \<noteq> []" and "distinct (map fst (loci seed))" and "length (loci seed) \<le> 65536"
    and "pins_of I = (pins I, map fst (loci seed), seed_sigils 0 (loci seed))"
    and "bt_get (affordances I) n = find_index (\<lambda>x. x = n) (map fst (d_affordances d))"
    and "bt_get (rites I) n = find_index (\<lambda>x. x = n) (map rite_ident (d_rites d))"
proof -
  obtain affs rts st where a: "number_names 0 (map fst (d_affordances d)) [] = Inr affs"
    and r: "number_names 0 (map rite_ident (d_rites d)) [] = Inr rts"
    and p0: "rfold pin_locus (interner_new\<lparr>affordances := affs, rites := rts\<rparr>, 0, []) seed = Inr st"
    and q0: "(let J = (fst st)\<lparr>strict_pins := (seed \<noteq> [])\<rparr>
             in if strict_pins J then rfold require_seed J seed else Inr J) = Inr I"
    using assms(1) unfolding intern_seed_def rbind_Inr_iff case_prod_beta by blast
  obtain J nxt seen where st: "st = (J, nxt, seen)" by (metis surj_pair)
  note p = p0[unfolded st]
  have q: "(if seed \<noteq> [] then rfold require_seed (J\<lparr>strict_pins := True\<rparr>) seed
             else Inr (J\<lparr>strict_pins := False\<rparr>)) = Inr I"
    using q0 by (simp add: st Let_def split: if_splits)
  have d: "distinct (map fst (d_affordances d))" "distinct (map rite_ident (d_rites d))"
    using assms(2) by (simp_all add: draft_ok_def indexes_def)
  let ?I = "interner_new\<lparr>affordances := affs, rites := rts\<rparr>"
  have I: "interner_ok ?I" "pin_names ?I = []" "pin_sigils ?I = []" "affordances ?I = affs" "rites ?I = rts"
    using number_names_index(1)[OF a d(1)] number_names_index(1)[OF r d(2)]
    by (simp_all add: interner_ok_def interner_new_def dense_def)
  have P: "interner_ok J \<and> length (loci seed) \<le> 65536 \<and> pin_names J = map fst (loci seed) \<and> distinct (map fst (loci seed))
     \<and> pin_sigils J = seed_sigils 0 (loci seed) \<and> affordances J = affs \<and> rites J = rts"
    using pin_loci[of ?I "[]" seed J nxt seen, unfolded I(2-5)] p I(1) by simp
  let ?J = "J\<lparr>strict_pins := (seed \<noteq> [])\<rparr>"
  have "interner_ok J" using P by blast
  then have "interner_ok ?J" by (simp add: interner_ok_def)
  have g: "intern_grows ?J I"
  proof (cases "seed = []")
    case False
    with q have "rfold require_seed ?J seed = Inr I" by simp
    then show ?thesis by (rule rfold_grows[rotated]) (rule require_seed_grows)
  qed (use q in simp)
  show "interner_ok I" "strict_pins I \<longleftrightarrow> seed \<noteq> []" "distinct (map fst (loci seed))"
    using g \<open>interner_ok ?J\<close> P by (simp_all add: intern_grows_def)
  show "length (loci seed) \<le> 65536" using P by blast
  show "pins_of I = (pins I, map fst (loci seed), seed_sigils 0 (loci seed))"
    using g q P by (auto simp: intern_grows_def pins_of_def split: if_splits)
  have "affordances I = affs \<and> rites I = rts"
  proof (cases "seed = []")
    case True
    then show ?thesis using q P by auto
  next
    case False
    have "rfold require_seed (J\<lparr>strict_pins := True\<rparr>) seed = Inr I" using q False by simp
    then show ?thesis
    proof (rule rfold_invariant[where P = "\<lambda>K. affordances K = affs \<and> rites K = rts", rotated 2])
      fix K x K'
      assume "affordances K = affs \<and> rites K = rts" "require_seed K x = Inr K'"
      then show "affordances K' = affs \<and> rites K' = rts"
        by (cases x) (auto simp: require_seed_def require_pin_def intern_resource_def rbind_Inr_iff split: if_splits)
    qed (use P in simp)
  qed
  then show "bt_get (affordances I) n = find_index (\<lambda>x. x = n) (map fst (d_affordances d))"
    "bt_get (rites I) n = find_index (\<lambda>x. x = n) (map rite_ident (d_rites d))"
    using number_names_index(2)[OF a d(1)] number_names_index(2)[OF r d(2)] by simp_all
qed

section \<open>Binding the seed leaves the tables alone\<close>

definition bindings_only :: "canon \<Rightarrow> canon \<Rightarrow> bool" where
  "bindings_only c c' \<longleftrightarrow>
     c'\<lparr>cn_physics := [], cn_contact_tracks := [], cn_constraints := []\<rparr>
     = c\<lparr>cn_physics := [], cn_contact_tracks := [], cn_constraints := []\<rparr>"

lemma bindings_only_refl [simp]: "bindings_only c c"
  by (simp add: bindings_only_def)

lemma bindings_only_trans: "bindings_only a b \<Longrightarrow> bindings_only b c \<Longrightarrow> bindings_only a c"
  by (simp add: bindings_only_def)

lemma bind_seed_only:
  "bind_seed_physics c s = Inr c' \<Longrightarrow> bindings_only c c'"
  "bind_seed_track c s = Inr c' \<Longrightarrow> bindings_only c c'"
  by (cases s; auto simp: bind_seed_physics_def bind_seed_track_def bind_physics_def bindings_only_def
      split: option.splits if_splits)+

lemma bind_seeds_only:
  "rfold bind_seed_physics c ss = Inr c' \<Longrightarrow> bindings_only c c'"
  "rfold bind_seed_track c ss = Inr c' \<Longrightarrow> bindings_only c c'"
  by (rule rfold_invariant[where P = "bindings_only c"]; auto intro: bindings_only_trans bind_seed_only)+

section \<open>The whole cook\<close>

text \<open>What the tables hold, for the surviving draft \<open>d\<close> and the final interner \<open>J\<close>.\<close>

definition tables_of :: "draft \<Rightarrow> interner \<Rightarrow> cooked_affordance list \<Rightarrow> canon \<Rightarrow> bool" where
  "tables_of d J affs c \<longleftrightarrow>
     (list_all2 (law_cooked (J, cn_preds c)) (d_laws d) (cn_laws c) \<and> map cl_id (cn_laws c) = [0..<length (d_laws d)]
        \<and> (\<forall>n. bt_get (law_by_name c) n = find_index (\<lambda>x. x = n) (map fst (d_laws d))))
   \<and> (list_all2 (affordance_cooked (J, cn_preds c)) (d_affordances d) affs \<and> map ca_id affs = [0..<length (d_affordances d)]
        \<and> cn_affordances c = with_implicit affs J)
   \<and> (list_all2 (rite_cooked (J, cn_preds c)) (d_rites d) (cn_rites c) \<and> map cr_id (cn_rites c) = [0..<length (d_rites d)])
   \<and> (affordance_by_name c = affordances J \<and> rite_by_name c = rites J \<and> resource_by_name c = resources J
        \<and> cn_resources c = names_by_id (resources J) \<and> cn_facts c = names_by_id (facts J)
        \<and> cn_pin_names c = pin_names J \<and> cn_pin_sigils c = pin_sigils J)"

lemma tables_of_bindings: "tables_of d J affs c \<Longrightarrow> bindings_only c c' \<Longrightarrow> tables_of d J affs c'"
  by (cases c; cases c') (simp add: tables_of_def bindings_only_def)

definition pinned :: "seed_fact list \<Rightarrow> interner \<Rightarrow> bool" where
  "pinned seed J \<longleftrightarrow> distinct (map fst (loci seed)) \<and> length (loci seed) \<le> 65536 \<and>
     (seed \<noteq> [] \<longrightarrow> pin_names J = map fst (loci seed) \<and> pin_sigils J = seed_sigils 0 (loci seed))"

lemma cook_inner_step:
  assumes "cook_inner ds seed minds = Inr c"
  shows "\<exists>d I J affs. draft_apply ds = Inr d \<and> draft_ok d
    \<and> check_fragment (d_laws d) (list_ex (\<lambda>(n, a). n = ''Lockable'') (d_affordances d)) = Inr ()
    \<and> intern_seed d seed = Inr I \<and> intern_grows I J \<and> pinned seed J \<and> tables_of d J affs c"
proof -
  obtain d where d: "draft_apply ds = Inr d"
    and f: "check_fragment (d_laws d) (list_ex (\<lambda>(n, a). n = ''Lockable'') (d_affordances d)) = Inr ()"
    using assms by (auto simp: cook_inner_def rbind_Inr_iff)
  obtain I0 where i0: "intern_seed d seed = Inr I0" using assms d f by (auto simp: cook_inner_def rbind_Inr_iff)
  obtain I1 where i1: "rfold cook_mind I0 minds = Inr I1"
    using assms d f i0 by (auto simp: cook_inner_def rbind_Inr_iff)
  obtain laws by_name st1 where l: "cook_laws 0 (d_laws d) (I1, []) [] [] = Inr ((laws, by_name), st1)"
    using assms d f i0 i1 by (auto simp: cook_inner_def rbind_Inr_iff)
  obtain affs st2 where a: "cook_affordances 0 (d_affordances d) st1 [] = Inr (affs, st2)"
    using assms d f i0 i1 l by (auto simp: cook_inner_def rbind_Inr_iff)
  obtain rts J preds where r: "cook_rites 0 (d_rites d) st2 [] = Inr (rts, J, preds)"
    using assms d f i0 i1 l a by (auto simp: cook_inner_def rbind_Inr_iff)
  let ?c = "\<lparr>cn_laws = laws, cn_affordances = with_implicit affs J, cn_rites = rts,
         cn_beats = map (\<lambda>b. \<lparr>cb_id = beat_ident b, cb_notes = beat_notes b\<rparr>) (d_beats d),
         cn_preds = preds, cn_resources = names_by_id (resources J), cn_facts = names_by_id (facts J),
         cn_pin_names = pin_names J, cn_pin_sigils = pin_sigils J, cn_physics = [],
         cn_contact_tracks = [], cn_constraints = [], law_by_name = by_name,
         affordance_by_name = affordances J, rite_by_name = rites J, resource_by_name = resources J\<rparr>"
  obtain c1 where c1: "rfold bind_seed_physics ?c seed = Inr c1" "rfold bind_seed_track c1 seed = Inr c"
    using assms d f i0 i1 l a r by (auto simp: cook_inner_def rbind_Inr_iff)
  have b: "bindings_only ?c c" by (rule bindings_only_trans[OF bind_seeds_only(1)[OF c1(1)] bind_seeds_only(2)[OF c1(2)]])
  note L = cook_laws_step[OF l] and A = cook_affordances_step[OF a] and R = cook_rites_step[OF r]
  have le2: "cook_le st2 (J, preds)" and le1: "cook_le st1 (J, preds)" and le0: "cook_le (I1, []) (J, preds)"
    using L A R cook_le_trans by blast+
  have laws: "list_all2 (law_cooked (J, preds)) (d_laws d) laws" "map cl_id laws = [0..<length (d_laws d)]"
    using L list_all2_mono[of "law_cooked st1" "d_laws d" laws] law_cooked_mono[OF _ le1] by auto
  have affs: "list_all2 (affordance_cooked (J, preds)) (d_affordances d) affs"
      "map ca_id affs = [0..<length (d_affordances d)]"
    using A list_all2_mono[of "affordance_cooked st2" "d_affordances d" affs] affordance_cooked_mono[OF _ le2] by auto
  have dok: "draft_ok d" by (rule draft_apply_ok[OF d])
  have "bt_get by_name n = find_index (\<lambda>x. x = n) (map fst (d_laws d))" for n
    using cook_laws_names[OF l, of n] dok by (simp add: draft_ok_def indexes_def split: option.splits)
  then have "tables_of d J affs ?c" using laws affs R by (simp add: tables_of_def)
  then have t: "tables_of d J affs c" using b by (rule tables_of_bindings)
  have g: "intern_grows I0 J"
    using intern_grows_trans[OF rfold_grows[OF cook_mind_grows i1]] le0 by (simp add: cook_le_def)
  note S = intern_seed_step[OF i0 dok]
  have "pinned seed J" using g S(2-5) by (auto simp: pinned_def intern_grows_def pins_of_def)
  then show ?thesis using d dok f i0 g t by blast
qed

section \<open>Identifiers\<close>

text \<open>Sorting rows whose keys are exactly \<open>0..<n\<close> puts row \<open>i\<close> at position \<open>i\<close>.\<close>

lemma sorted_keys_upt:
  assumes "mset (map k xs) = mset [0..<length xs]"
  shows "map k (sort_key k xs) = [0..<length xs]"
proof -
  have "sorted (map k (sort_key k xs))" by simp
  moreover have "mset (map k (sort_key k xs)) = mset [0..<length xs]" using assms by simp
  ultimately show ?thesis by (metis properties_for_sort sorted_sort_id sorted_upt)
qed

lemma dense_mset: "dense m \<Longrightarrow> mset (map snd m) = mset [0..<length m]"
  by (rule set_eq_iff_mset_eq_distinct[THEN iffD1]) (auto simp: dense_def atLeast0LessThan)

lemma dense_at:
  assumes "dense m" and "bt_get m n = Some i"
  shows "i < length m"
proof -
  have "i \<in> set (map snd m)" using bt_get_Some_in[OF assms(2)] by force
  then show ?thesis using assms(1) by (simp add: dense_def)
qed

lemma dense_names:
  assumes "dense m"
  shows "nth_opt (names_by_id m) i = Some n \<longleftrightarrow> bt_get m n = Some i"
proof -
  let ?rows = "sort_key fst (map (\<lambda>(n, i). (i, n)) m)"
  have "mset (map fst (map (\<lambda>(n, i). (i, n)) m)) = mset [0..<length m]"
    using dense_mset[OF assms] by (simp add: comp_def case_prod_beta)
  then have ids: "map fst ?rows = [0..<length m]"
    using sorted_keys_upt[of fst "map (\<lambda>(n, i). (i, n)) m"] by simp
  have len: "length ?rows = length m" by simp
  have row: "fst (?rows ! j) = j" if "j < length m" for j
    using that arg_cong[OF ids, of "\<lambda>xs. xs ! j"] by simp
  have s: "bt_sorted m" using assms by (simp add: dense_def)
  show ?thesis
  proof
    assume "nth_opt (names_by_id m) i = Some n"
    then have i: "i < length m" "snd (?rows ! i) = n" by (auto simp: names_by_id_def nth_opt_Some_iff)
    then have "(i, n) \<in> set ?rows" using row[OF i(1)] len nth_mem by (metis prod.collapse)
    then show "bt_get m n = Some i" using bt_get_in[OF s] by auto
  next
    assume g: "bt_get m n = Some i"
    then have "(i, n) \<in> set ?rows" using bt_get_Some_in[OF g] by force
    then obtain j where "j < length m" "?rows ! j = (i, n)" by (metis in_set_conv_nth len)
    then show "nth_opt (names_by_id m) i = Some n"
      using row[of j] by (auto simp: names_by_id_def nth_opt_Some_iff)
  qed
qed

lemma implicit_rows:
  assumes d: "dense m" and n: "distinct (map ca_name affs)"
    and get: "\<And>a. a \<in> set affs \<Longrightarrow> bt_get m (ca_name a) = Some (ca_id a)" and I: "affordances I = m"
  shows "map ca_id (with_implicit affs I) = [0..<length m]"
    and "a \<in> set (with_implicit affs I) \<Longrightarrow> bt_get m (ca_name a) = Some (ca_id a)"
    and "length (with_implicit affs I) = length m"
proof -
  let ?new = "map (\<lambda>(n, i). \<lparr>ca_id = i, ca_name = n, ca_requires = [], ca_grants = [], ca_conflicts = []\<rparr>)
    (filter (\<lambda>(n, i). n \<notin> ca_name ` set affs) m)"
  let ?key = "\<lambda>a. (ca_name a, ca_id a)"
  have s: "bt_sorted m" using d by (simp add: dense_def)
  have key: "map ?key ?new = filter (\<lambda>(n, i). n \<notin> ca_name ` set affs) m"
    by (simp add: comp_def case_prod_beta)
  have dm: "distinct m" using d by (simp add: dense_def distinct_map)
  have "distinct (map ?key affs)" using n by (simp add: distinct_map inj_on_def)
  then have dk: "distinct (map ?key (affs @ ?new))"
    unfolding map_append key distinct_append using dm by auto
  have "(x, i) \<in> set (map ?key (affs @ ?new)) \<longleftrightarrow> (x, i) \<in> set m" for x i
  proof -
    have "(x, i) \<in> set m" if "(x, i) \<in> set (map ?key affs)" using that get bt_get_Some_in by fastforce
    moreover have "(x, i) \<in> set (map ?key affs)" if "(x, i) \<in> set m" "x \<in> ca_name ` set affs"
      using that get bt_get_in[OF s that(1)] by force
    ultimately show ?thesis unfolding map_append key by auto
  qed
  then have ms: "mset (map ?key (affs @ ?new)) = mset m"
    by (intro set_eq_iff_mset_eq_distinct[THEN iffD1] dk dm) auto
  have len: "length (affs @ ?new) = length m" using mset_eq_length[OF ms] by (simp only: length_map)
  have "mset (map ca_id (affs @ ?new)) = image_mset snd (mset (map ?key (affs @ ?new)))"
    by (simp add: image_mset.compositionality comp_def)
  then have "mset (map ca_id (affs @ ?new)) = mset [0..<length (affs @ ?new)]"
    unfolding ms len using dense_mset[OF d] by simp
  from sorted_keys_upt[OF this] show "map ca_id (with_implicit affs I) = [0..<length m]"
    unfolding with_implicit_def I len .
  show "length (with_implicit affs I) = length m" using len unfolding with_implicit_def I by simp
  assume "a \<in> set (with_implicit affs I)"
  then have "a \<in> set (affs @ ?new)" unfolding with_implicit_def I set_sort .
  then have "?key a \<in> set (map ?key (affs @ ?new))" unfolding set_map by (rule imageI)
  then have "?key a \<in> set m" using mset_eq_setD[OF ms] by metis
  then show "bt_get m (ca_name a) = Some (ca_id a)" using bt_get_in[OF s] by simp
qed

lemma find_index_distinct: "distinct ns \<Longrightarrow> k < length ns \<Longrightarrow> find_index (\<lambda>x. x = ns ! k) ns = Some k"
  using find_index_Some[of "\<lambda>x. x = ns ! k" ns] find_index_None[of "\<lambda>x. x = ns ! k" ns]
  by (cases "find_index (\<lambda>x. x = ns ! k) ns") (auto simp: nth_eq_iff_index_eq)

lemma declared_ids:
  assumes "list_all2 (affordance_cooked st) das affs" and "map ca_id affs = [0..<length das]"
    and "distinct (map fst das)"
  shows "map ca_name affs = map fst das"
    and "a \<in> set affs \<Longrightarrow> find_index (\<lambda>x. x = ca_name a) (map fst das) = Some (ca_id a)"
proof -
  show n: "map ca_name affs = map fst das"
    using assms(1) by (induction rule: list_all2_induct) (auto simp: affordance_cooked_def)
  assume "a \<in> set affs"
  then obtain k where k: "k < length affs" "a = affs ! k" by (auto simp: in_set_conv_nth)
  have len: "length das = length affs" using assms(1) by (simp add: list_all2_lengthD)
  have "ca_id a = k" using arg_cong[OF assms(2), of "\<lambda>xs. xs ! k"] k len by simp
  moreover have "ca_name a = map fst das ! k" using arg_cong[OF n, of "\<lambda>xs. xs ! k"] k by simp
  ultimately show "find_index (\<lambda>x. x = ca_name a) (map fst das) = Some (ca_id a)"
    using find_index_distinct[OF assms(3), of k] k len by simp
qed

text \<open>Rows of the final affordance table: positions are ids, and lookups by name find them.\<close>

lemma cooked_affordance_rows:
  assumes ok: "draft_ok d" and i0: "intern_seed d seed = Inr I" and g: "intern_grows I J" and t: "tables_of d J affs c"
  shows "map ca_id (cn_affordances c) = [0..<length (cn_affordances c)]"
    and "a \<in> set (cn_affordances c) \<Longrightarrow> canon_affordance_id c (ca_name a) = Some (ca_id a)"
    and "canon_affordance_id c n = Some i \<Longrightarrow> i < length (cn_affordances c)"
    and "set affs \<subseteq> set (cn_affordances c)"
proof -
  note S = intern_seed_step[OF i0 ok]
  have d: "distinct (map fst (d_affordances d))" using ok by (simp add: draft_ok_def indexes_def)
  have dn: "dense (affordances J)" using g S(1) by (simp add: intern_grows_def interner_ok_def)
  note D = declared_ids[of "(J, cn_preds c)" "d_affordances d" affs, OF _ _ d]
  have t': "list_all2 (affordance_cooked (J, cn_preds c)) (d_affordances d) affs"
    "map ca_id affs = [0..<length (d_affordances d)]" "cn_affordances c = with_implicit affs J"
    "affordance_by_name c = affordances J" using t by (simp_all add: tables_of_def)
  have dist: "distinct (map ca_name affs)" using D(1)[OF t'(1,2)] d by simp
  have "bt_get (affordances J) (ca_name a) = Some (ca_id a)" if "a \<in> set affs" for a
    using D(2)[OF t'(1,2) that] S(6)[of "ca_name a"] g by (auto simp: intern_grows_def intern_le_def map_le_bt_def)
  note R = implicit_rows[OF dn dist this refl]
  show "map ca_id (cn_affordances c) = [0..<length (cn_affordances c)]" using R(1,3) by (simp add: t')
  show "canon_affordance_id c (ca_name a) = Some (ca_id a)" if "a \<in> set (cn_affordances c)"
    using R(2)[of a] that by (simp add: t' canon_affordance_id_def)
  show "i < length (cn_affordances c)" if "canon_affordance_id c n = Some i"
    using dense_at[OF dn, of n i] that R(3) by (simp add: t' canon_affordance_id_def)
  show "set affs \<subseteq> set (cn_affordances c)" by (simp add: t' with_implicit_def)
qed

section \<open>What survives was checked\<close>

definition from_diffs :: "canon_diff list \<Rightarrow> draft \<Rightarrow> bool" where
  "from_diffs ds d \<longleftrightarrow>
     (\<forall>(n, l) \<in> set (d_laws d). AddLaw l \<in> set ds \<and> n = law_ident l)
   \<and> (\<forall>(n, a) \<in> set (d_affordances d). AddAffordance a \<in> set ds \<and> n = aff_ident a)
   \<and> (\<forall>g \<in> set (d_rites d). AddRite g \<in> set ds)"

lemma set_remove_at: "set (remove_at k xs) \<subseteq> set xs"
  unfolding remove_at_def using set_take_subset[of k xs] set_drop_subset[of "Suc k" xs] by auto

lemma draft_from_diffs: "draft_apply ds = Inr d \<Longrightarrow> from_diffs ds d"
  unfolding draft_apply_def
proof (erule rfold_invariant[where P = "from_diffs ds", rotated 2])
  fix s x s'
  assume a: "x \<in> set ds" "from_diffs ds s" "apply_diff s x = Inr s'"
  have rm: "y \<in> set (remove_at k ys) \<Longrightarrow> y \<in> set ys" for k y and ys :: "'b list"
    using set_remove_at by fast
  show "from_diffs ds s'"
  proof (cases x)
    case (RetractLaw i reason)
    with a(3) obtain k j where "s' = s\<lparr>d_laws := remove_at k (d_laws s), d_law_ix := j\<rparr>"
      by (auto simp: retract_law_def Let_def split: option.splits)
    with a(2) show ?thesis by (auto simp: from_diffs_def dest!: rm)
  next
    case (RetractRite i reason)
    with a(3) obtain k j where "s' = s\<lparr>d_rites := remove_at k (d_rites s), d_rite_ix := j\<rparr>"
      by (auto simp: retract_rite_def Let_def split: option.splits)
    with a(2) show ?thesis by (auto simp: from_diffs_def dest!: rm)
  qed (use a in \<open>auto simp: from_diffs_def split: if_splits\<close>)
qed (simp add: from_diffs_def draft_new_def)

lemma assign_labeled_pcs:
  "assign_labeled ns order ops = Inr (order', ops') \<Longrightarrow> set order \<subseteq> fst ` set ops \<Longrightarrow> distinct order \<Longrightarrow>
   distinct order' \<and> order' = order @ map fst (map2 node_pc [i..<i + length ns] ns)"
proof (induction ns order ops arbitrary: i rule: assign_labeled.induct)
  case (2 pc op ns order ops)
  have n: "\<not> bt_has ops pc" "assign_labeled ns (order @ [pc]) (bt_insert pc op ops) = Inr (order', ops')"
    using "2.prems"(1) by (auto split: if_splits)
  have "pc \<notin> set order" using n(1) "2.prems"(2) by (auto simp: bt_has_def bt_get_None_iff)
  moreover have up: "[i..<i + length (NodeLabeled pc op # ns)] = i # [Suc i..<Suc i + length ns]"
    by (simp add: upt_conv_Cons del: upt_Suc)
  ultimately show ?case
    using "2.IH"[OF n, of "Suc i"] "2.prems"(2,3) unfolding up by (auto simp: node_pc_def simp del: upt_Suc)
qed simp_all

lemma cfg_pcs_distinct:
  assumes "check_rite_cfg g = Inr ops" and "length (rite_nodes g) \<le> 65536"
  shows "distinct (map fst (map2 node_pc [0..<length (rite_nodes g)] (rite_nodes g)))"
proof (cases "\<exists>n \<in> set (rite_nodes g). is_labeled n")
  case True
  with assms(1) obtain order where "assign_labeled (rite_nodes g) [] [] = Inr (order, ops)"
    by (auto simp: check_rite_cfg_def assign_pcs_def rbind_Inr_iff Let_def split: if_splits option.splits bool.splits)
  from assign_labeled_pcs[OF this, of 0] show ?thesis by simp metis
next
  case False
  have "map fst (map2 node_pc [0..<length (rite_nodes g)] (rite_nodes g)) = [0..<length (rite_nodes g)]"
  proof (rule nth_equalityI)
    fix i assume "i < length (map fst (map2 node_pc [0..<length (rite_nodes g)] (rite_nodes g)))"
    then have i: "i < length (rite_nodes g)" by simp
    then have "\<not> is_labeled (rite_nodes g ! i)" using False by simp
    then show "map fst (map2 node_pc [0..<length (rite_nodes g)] (rite_nodes g)) ! i = [0..<length (rite_nodes g)] ! i"
      using i assms(2) by (cases "rite_nodes g ! i") (auto simp: node_pc_def is_labeled_def)
  qed simp
  then show ?thesis by simp
qed

end
