(* ===== verification/CanonCfgProps.thy ===== *)
theory CanonCfgProps
  imports CanonCfg
begin

text \<open>
  The control-flow check of a rite is exact: reachability and the cycle search decide what they
  name, the check accepts exactly the well-formed, connected, acyclic graphs, and so every run of
  an accepted rite ends at a halting op within as many steps as it has ops.
\<close>

section \<open>Reachability is exact\<close>

definition edge_rel :: "adjacency \<Rightarrow> (nat \<times> nat) set" where
  "edge_rel sc = {(p, q). q \<in> set (edges_of sc p)}"

lemma bfs_loop_reach:
  "\<forall>p \<in> seen. set (edges_of sc p) \<subseteq> seen \<union> set st \<Longrightarrow>
   bfs_loop sc st seen = (edge_rel sc)\<^sup>* `` (seen \<union> set st)"
proof (induction sc st seen rule: bfs_loop.induct)
  case (1 sc seen)
  then have "edge_rel sc `` seen \<subseteq> seen" by (auto simp: edge_rel_def)
  then show ?case by (simp add: Image_closed_trancl)
next
  case (2 sc pc stack seen)
  show ?case
  proof (cases "pc \<in> seen")
    case True
    with 2 show ?thesis by (auto simp: insert_absorb)
  next
    case False
    let ?S = "insert pc seen \<union> set (rev (edges_of sc pc) @ stack)"
    have "?S = (seen \<union> set (pc # stack)) \<union> edge_rel sc `` {pc}" by (auto simp: edge_rel_def)
    moreover have "(edge_rel sc)\<^sup>* `` (A \<union> edge_rel sc `` {pc}) = (edge_rel sc)\<^sup>* `` A" if "pc \<in> A" for A
      using that by (auto intro: converse_rtrancl_into_rtrancl)
    ultimately have "(edge_rel sc)\<^sup>* `` ?S = (edge_rel sc)\<^sup>* `` (seen \<union> set (pc # stack))"
      by (metis UnI2 list.set_intros(1))
    moreover have "bfs_loop sc (rev (edges_of sc pc) @ stack) (insert pc seen) = (edge_rel sc)\<^sup>* `` ?S"
      using 2(3) by (intro "2.IH"(2)[OF False]) auto
    ultimately show ?thesis using False by simp
  qed
qed

lemma bfs_reach: "bfs entry sc = (edge_rel sc)\<^sup>* `` {entry}"
  unfolding bfs_def by (subst bfs_loop_reach) auto

section \<open>The cycle search\<close>

definition coloured :: "colours \<Rightarrow> colour \<Rightarrow> nat set" where
  "coloured col c = {q. colour_of col q = c}"

lemma colour_of_insert: "colour_of (bt_insert pc c col) q = (if q = pc then c else colour_of col q)"
  by (simp add: colour_of_def bt_get_insert)

lemma coloured_insert:
  "coloured (bt_insert pc c col) d = (if c = d then insert pc (coloured col d) else coloured col d - {pc})"
  by (auto simp: coloured_def colour_of_insert)

text \<open>Black nodes are closed under edges and carry no cycle.\<close>

definition dfs_inv :: "adjacency \<Rightarrow> colours \<Rightarrow> bool" where
  "dfs_inv sc col \<longleftrightarrow> edge_rel sc `` coloured col Black \<subseteq> coloured col Black
     \<and> acyclic (edge_rel sc \<inter> coloured col Black \<times> UNIV)"

definition dfs_post :: "adjacency \<Rightarrow> colours \<Rightarrow> colours \<Rightarrow> bool" where
  "dfs_post sc col col' \<longleftrightarrow> dfs_inv sc col' \<and> coloured col' Gray = coloured col Gray
     \<and> coloured col Black \<subseteq> coloured col' Black"

lemma acyclic_add_source:
  assumes "acyclic (E \<inter> B \<times> UNIV)" and "E `` B \<subseteq> B" and "E `` {p} \<subseteq> B" and "p \<notin> B"
  shows "acyclic (E \<inter> insert p B \<times> UNIV)"
proof -
  have "x \<in> B \<Longrightarrow> (x, y) \<in> (E \<inter> insert p B \<times> UNIV)\<^sup>+ \<Longrightarrow> y \<in> B \<and> (x, y) \<in> (E \<inter> B \<times> UNIV)\<^sup>+" for x y
    by (erule trancl_induct) (use assms(2,4) in \<open>auto intro: trancl.trancl_into_trancl\<close>)
  moreover have "(p, y) \<in> (E \<inter> insert p B \<times> UNIV)\<^sup>+ \<Longrightarrow> y \<in> B" for y
    by (erule trancl_induct) (use assms(2-4) in auto)
  moreover have "(x, y) \<in> (E \<inter> insert p B \<times> UNIV)\<^sup>+ \<Longrightarrow> x \<in> insert p B" for x y
    by (induction rule: trancl_induct) auto
  ultimately show ?thesis using assms(1,4) unfolding acyclic_def by (metis insert_iff)
qed

lemma dfs_blacken:
  assumes "dfs_inv sc col" and "set (edges_of sc pc) \<subseteq> coloured col Black" and "colour_of col pc = Gray"
  shows "dfs_inv sc (bt_insert pc Black col)"
proof -
  have "pc \<notin> coloured col Black" using assms(3) by (simp add: coloured_def)
  moreover have "edge_rel sc `` {pc} \<subseteq> coloured col Black" using assms(2) by (auto simp: edge_rel_def)
  ultimately show ?thesis
    using assms(1) acyclic_add_source[of "edge_rel sc" "coloured col Black" pc]
    by (auto simp: dfs_inv_def coloured_insert)
qed

lemma visit_correct:
  "visit n sc pc col = Some (r, col') \<Longrightarrow> dfs_inv sc col \<Longrightarrow> colour_of col pc = White
   \<Longrightarrow> \<forall>g \<in> coloured col Gray. (g, pc) \<in> (edge_rel sc)\<^sup>*
   \<Longrightarrow> if r then \<not> acyclic (edge_rel sc) else dfs_post sc col col' \<and> pc \<in> coloured col' Black"
  "visit_edges n sc qs col = Some (r, col') \<Longrightarrow> dfs_inv sc col \<Longrightarrow> set qs \<subseteq> set (edges_of sc p)
   \<Longrightarrow> \<forall>g \<in> coloured col Gray. (g, p) \<in> (edge_rel sc)\<^sup>*
   \<Longrightarrow> if r then \<not> acyclic (edge_rel sc) else dfs_post sc col col' \<and> set qs \<subseteq> coloured col' Black"
proof (induction n sc pc col and n sc qs col arbitrary: r col' and p r col' rule: visit_visit_edges.induct)
  case (2 n sc pc col)
  let ?col = "bt_insert pc Gray col"
  obtain r1 col1 where v: "visit_edges n sc (edges_of sc pc) ?col = Some (r1, col1)"
    using 2(2) by (auto split: option.splits prod.splits bool.splits)
  have black: "coloured ?col Black = coloured col Black"
    using 2(4) by (auto simp: coloured_insert) (auto simp: coloured_def)
  have "if r1 then \<not> acyclic (edge_rel sc) else dfs_post sc ?col col1 \<and> set (edges_of sc pc) \<subseteq> coloured col1 Black"
  proof (rule "2.IH"[OF v])
    show "dfs_inv sc ?col" using 2(3) by (simp only: dfs_inv_def black)
    show "\<forall>g \<in> coloured ?col Gray. (g, pc) \<in> (edge_rel sc)\<^sup>*" using 2(5) by (auto simp: coloured_insert)
  qed simp
  moreover have "r = r1 \<and> col' = (if r1 then col1 else bt_insert pc Black col1)"
    using 2(2) v by (auto split: bool.splits)
  moreover have "pc \<notin> coloured col Gray" using 2(4) by (simp add: coloured_def)
  ultimately show ?case
    using dfs_blacken[of sc col1 pc]
    by (auto simp: dfs_post_def coloured_insert black) (auto simp: coloured_def)
next
  case (4 n sc q qs col)
  have pq: "(p, q) \<in> edge_rel sc" using 4(6) by (auto simp: edge_rel_def)
  show ?case
  proof (cases "colour_of col q")
    case White
    obtain r1 col1 where v: "visit n sc q col = Some (r1, col1)"
      using 4(4) White by (auto split: option.splits prod.splits bool.splits)
    have h: "if r1 then \<not> acyclic (edge_rel sc) else dfs_post sc col col1 \<and> q \<in> coloured col1 Black"
      using 4(5,7) pq by (intro "4.IH"(1)[OF White v] White) (auto intro: rtrancl_into_rtrancl)
    show ?thesis
    proof (cases r1)
      case True
      with h 4(4) White v show ?thesis by auto
    next
      case False
      with 4(4) White v have v2: "visit_edges n sc qs col1 = Some (r, col')" by simp
      have "if r then \<not> acyclic (edge_rel sc) else dfs_post sc col1 col' \<and> set qs \<subseteq> coloured col' Black"
        using h False 4(6,7) by (intro "4.IH"(2)[OF White v refl _ v2]) (auto simp: dfs_post_def False)
      then show ?thesis using h False unfolding dfs_post_def by (auto split: if_splits dest: subsetD)
    qed
  next
    case Gray
    then have "(q, p) \<in> (edge_rel sc)\<^sup>*" using 4(7) by (simp add: coloured_def)
    with pq have "(p, p) \<in> (edge_rel sc)\<^sup>+" by (rule rtrancl_into_trancl2)
    then show ?thesis using 4(4) Gray by (auto simp: acyclic_def)
  next
    case Black
    with 4(4) have "visit_edges n sc qs col = Some (r, col')" by simp
    then have "if r then \<not> acyclic (edge_rel sc) else dfs_post sc col col' \<and> set qs \<subseteq> coloured col' Black"
      using 4(5,6,7) by (intro "4.IH"(3)[OF Black]) auto
    then show ?thesis using Black by (auto simp: dfs_post_def coloured_def)
  qed
qed (auto simp: dfs_post_def)


text \<open>Fuel: the nodes still to be coloured white to gray bound the depth of the recursion.\<close>

definition whites :: "nat set \<Rightarrow> colours \<Rightarrow> nat set" where
  "whites N col = {q \<in> N. colour_of col q = White}"

lemma visit_whites:
  "visit n sc pc col = Some (r, col') \<Longrightarrow> colour_of col pc = White \<Longrightarrow> whites N col' \<subseteq> whites N col"
  "visit_edges n sc qs col = Some (r, col') \<Longrightarrow> whites N col' \<subseteq> whites N col"
proof (induction n sc pc col and n sc qs col arbitrary: r col' and r col' rule: visit_visit_edges.induct)
  case (2 n sc pc col)
  then show ?case
    by (auto simp: whites_def colour_of_insert subset_iff split: option.splits prod.splits bool.splits if_splits)
next
  case (4 n sc q qs col)
  then show ?case
    by (auto split: colour.splits option.splits prod.splits bool.splits) blast+
qed auto

lemma visit_fuel:
  assumes "finite N" and "\<forall>p \<in> N. set (edges_of sc p) \<subseteq> N"
  shows "pc \<in> N \<Longrightarrow> colour_of col pc = White \<Longrightarrow> card (whites N col) \<le> n \<Longrightarrow> visit n sc pc col \<noteq> None"
    "set qs \<subseteq> N \<Longrightarrow> card (whites N col) \<le> n \<Longrightarrow> visit_edges n sc qs col \<noteq> None"
  using assms(2)
proof (induction n sc pc col and n sc qs col rule: visit_visit_edges.induct)
  case (1 sc pc col)
  then show ?case using assms(1) by (auto simp: whites_def)
next
  case (2 n sc pc col)
  have "whites N (bt_insert pc Gray col) = whites N col - {pc}" "pc \<in> whites N col"
    using 2 by (auto simp: whites_def colour_of_insert)
  then have "card (whites N (bt_insert pc Gray col)) \<le> n"
    using 2(4) assms(1) by (simp add: whites_def card_Diff_singleton)
  moreover have "set (edges_of sc pc) \<subseteq> N" using 2 by blast
  ultimately have "visit_edges n sc (edges_of sc pc) (bt_insert pc Gray col) \<noteq> None" using 2 by blast
  then show ?case by (auto split: bool.splits)
next
  case (4 n sc q qs col)
  show ?case
  proof (cases "colour_of col q")
    case White
    then have "visit n sc q col \<noteq> None" using 4 by simp
    then obtain r1 col1 where v: "visit n sc q col = Some (r1, col1)" by auto
    have "card (whites N col1) \<le> n"
      using card_mono[OF _ visit_whites(1)[OF v White, of N]] assms(1) 4(5) by (simp add: whites_def)
    then show ?thesis using 4 White v by (auto split: bool.splits)
  qed (use 4 in auto)
qed simp_all

lemma visit_all_correct:
  "visit_all n sc pcs col = Some r \<Longrightarrow> dfs_inv sc col \<Longrightarrow> coloured col Gray = {}
   \<Longrightarrow> if r then \<not> acyclic (edge_rel sc)
      else \<exists>col'. dfs_inv sc col' \<and> set pcs \<subseteq> coloured col' Black \<and> coloured col Black \<subseteq> coloured col' Black"
proof (induction pcs arbitrary: col)
  case Nil
  then show ?case by auto
next
  case (Cons pc pcs)
  show ?case
  proof (cases "colour_of col pc = White")
    case True
    with Cons.prems(1) obtain r1 col1 where v: "visit n sc pc col = Some (r1, col1)"
      by (auto split: option.splits)
    have h: "if r1 then \<not> acyclic (edge_rel sc) else dfs_post sc col col1 \<and> pc \<in> coloured col1 Black"
      using Cons.prems(2,3) by (intro visit_correct(1)[OF v _ True]) auto
    show ?thesis
    proof (cases r1)
      case True
      with h v Cons.prems(1) \<open>colour_of col pc = White\<close> show ?thesis by auto
    next
      case False
      with v Cons.prems(1) True have "visit_all n sc pcs col1 = Some r" by simp
      moreover have p: "dfs_inv sc col1" "coloured col1 Gray = {}" "pc \<in> coloured col1 Black"
        "coloured col Black \<subseteq> coloured col1 Black"
        using h False Cons.prems(3) by (simp_all add: dfs_post_def)
      ultimately have IH: "if r then \<not> acyclic (edge_rel sc)
          else \<exists>col'. dfs_inv sc col' \<and> set pcs \<subseteq> coloured col' Black \<and> coloured col1 Black \<subseteq> coloured col' Black"
        using Cons.IH by blast
      show ?thesis
      proof (cases r)
        case False
        with IH obtain col' where "dfs_inv sc col'" "set pcs \<subseteq> coloured col' Black"
          "coloured col1 Black \<subseteq> coloured col' Black" by auto
        with p(3,4) False show ?thesis by auto
      qed (use IH in simp)
    qed
  next
    case False
    then have "pc \<in> coloured col Black"
      using Cons.prems(3) by (cases "colour_of col pc") (auto simp: coloured_def)
    moreover have "if r then \<not> acyclic (edge_rel sc)
        else \<exists>col'. dfs_inv sc col' \<and> set pcs \<subseteq> coloured col' Black \<and> coloured col Black \<subseteq> coloured col' Black"
      using False Cons.IH[of col] Cons.prems by simp
    ultimately show ?thesis by (cases r) auto
  qed
qed

lemma visit_all_total:
  assumes "finite N" and "\<forall>p \<in> N. set (edges_of sc p) \<subseteq> N"
  shows "set pcs \<subseteq> N \<Longrightarrow> card (whites N col) \<le> n \<Longrightarrow> visit_all n sc pcs col \<noteq> None"
proof (induction pcs arbitrary: col)
  case (Cons pc pcs)
  show ?case
  proof (cases "colour_of col pc = White")
    case True
    then obtain r1 col1 where v: "visit n sc pc col = Some (r1, col1)"
      using visit_fuel(1)[OF assms, of pc col n] Cons.prems by auto
    have "card (whites N col1) \<le> n"
      using card_mono[OF _ visit_whites(1)[OF v True, of N]] assms(1) Cons.prems(2) by (simp add: whites_def)
    then show ?thesis using v True Cons by (auto split: bool.splits)
  qed (use Cons in auto)
qed simp

lemma all_white: "colour_of (fold (\<lambda>pc. bt_insert pc White) order col) q = White
    \<longleftrightarrow> q \<in> set order \<or> colour_of col q = White"
  by (induction order arbitrary: col) (auto simp: colour_of_insert)

text \<open>
  On a graph whose edges stay inside \<open>order\<close> the search answers, and answers correctly.
\<close>

lemma has_cycle_correct:
  assumes "\<forall>p. set (edges_of sc p) \<subseteq> set order"
  shows "has_cycle order sc = Some (\<not> acyclic (edge_rel sc))"
proof -
  let ?col = "fold (\<lambda>pc. bt_insert pc White) order []"
  have white: "colour_of ?col q = White" for q
    using all_white[of order "[]" q] by (simp add: colour_of_def)
  then have none: "coloured ?col Black = {}" "coloured ?col Gray = {}" by (simp_all add: coloured_def)
  have "card (whites (set order) ?col) \<le> Suc (length order)"
    using card_length[of order] white by (simp add: whites_def)
  then have "has_cycle order sc \<noteq> None"
    unfolding has_cycle_def using assms by (intro visit_all_total[of "set order"]) auto
  then obtain r where r: "has_cycle order sc = Some r" by auto
  have inv: "dfs_inv sc ?col" by (simp add: dfs_inv_def none acyclic_def)
  note v = visit_all_correct[OF r[unfolded has_cycle_def] inv none(2)]
  have "acyclic (edge_rel sc)" if "\<not> r"
  proof -
    from v that obtain col' where c: "dfs_inv sc col'" "set order \<subseteq> coloured col' Black" by auto
    have inside: "(x, y) \<in> (edge_rel sc)\<^sup>+ \<Longrightarrow> x \<in> coloured col' Black \<Longrightarrow>
        (x, y) \<in> (edge_rel sc \<inter> coloured col' Black \<times> UNIV)\<^sup>+ \<and> y \<in> coloured col' Black" for x y
      by (induction rule: trancl_induct) (use c(1) in \<open>auto simp: dfs_inv_def intro: trancl_into_trancl\<close>)
    have node: "(x, x) \<in> (edge_rel sc)\<^sup>+ \<Longrightarrow> x \<in> set order" for x
    proof -
      assume "(x, x) \<in> (edge_rel sc)\<^sup>+"
      then obtain z where "(z, x) \<in> edge_rel sc" by (metis tranclD2)
      then show "x \<in> set order" using assms by (auto simp: edge_rel_def)
    qed
    have "(x, x) \<notin> (edge_rel sc)\<^sup>+" for x
    proof
      assume x: "(x, x) \<in> (edge_rel sc)\<^sup>+"
      have "(x, x) \<in> (edge_rel sc \<inter> coloured col' Black \<times> UNIV)\<^sup>+"
        using inside[OF x] node[OF x] c(2) by blast
      then show False using c(1) by (simp add: dfs_inv_def acyclic_def)
    qed
    then show ?thesis by (simp add: acyclic_def)
  qed
  with v r show ?thesis by (cases r) auto
qed

section \<open>Program counters and edges\<close>

lemma assign_labeled_keys:
  "assign_labeled ns order ops = Inr (order', ops') \<Longrightarrow> fst ` set ops = set order \<Longrightarrow> bt_sorted ops
   \<Longrightarrow> fst ` set ops' = set order' \<and> bt_sorted ops'"
  by (induction ns order ops rule: assign_labeled.induct) (auto split: if_splits)

lemma assign_ops_keys:
  "assign_ops ns i order ops = Inr (order', ops') \<Longrightarrow> fst ` set ops = set order \<Longrightarrow> bt_sorted ops
   \<Longrightarrow> fst ` set ops' = set order' \<and> bt_sorted ops'"
  by (induction ns i order ops rule: assign_ops.induct) (auto simp: Let_def)

lemma assign_pcs_keys:
  "assign_pcs ns = Inr (order, ops) \<Longrightarrow> fst ` set ops = set order \<and> bt_sorted ops"
  by (auto simp: assign_pcs_def Let_def split: if_splits dest!: assign_labeled_keys assign_ops_keys)

lemma assign_labeled_error:
  "assign_labeled ns order ops = Inl e \<Longrightarrow> \<forall>n \<in> set ns. is_labeled n \<Longrightarrow> \<exists>pc. e = DuplicatePc pc"
  by (induction ns order ops rule: assign_labeled.induct) (auto simp: is_labeled_def split: if_splits)

lemma assign_ops_error:
  "assign_ops ns i order ops = Inl e \<Longrightarrow> \<forall>n \<in> set ns. \<not> is_labeled n \<Longrightarrow> False"
  by (induction ns i order ops rule: assign_ops.induct) (auto simp: is_labeled_def Let_def)

lemma assign_pcs_error:
  "assign_pcs ns = Inl e \<Longrightarrow> e = MixedLabeling \<or> (\<exists>pc. e = DuplicatePc pc)"
  by (auto simp: assign_pcs_def Let_def split: if_splits dest: assign_labeled_error assign_ops_error)

lemma bt_has_key: "bt_has m k \<longleftrightarrow> k \<in> fst ` set m"
  by (auto simp: bt_has_def bt_get_None_iff)

lemma next_in_order_mem: "next_in_order order pc = Some q \<Longrightarrow> q \<in> set order"
  by (auto simp: next_in_order_def nth_opt_def split: option.splits if_splits)

lemma successors_closed:
  assumes "successors pc op (next_in_order order pc) ops = Inr es" and "fst ` set ops = set order"
  shows "set es \<subseteq> set order"
  using assms next_in_order_mem[of order pc]
  by (auto simp: successors_def succ_fail_def require_target_def require_next_def rbind_Inr_iff bt_has_key
      split: rite_op.splits option.splits if_splits)

lemma successors_nil:
  "successors pc op nxt ops = Inr [] \<Longrightarrow> (\<exists>s. op = Halt s \<or> op = Complete s)"
  by (auto simp: successors_def succ_fail_def rbind_Inr_iff split: rite_op.splits)

lemma successors_error:
  "successors pc op nxt ops = Inl e \<Longrightarrow> (\<exists>q. e = MissingTarget pc q \<and> \<not> bt_has ops q) \<or> e = FallOff pc \<and> nxt = None"
  by (auto simp: successors_def succ_fail_def require_target_def require_next_def rbind_Inl_iff
      split: rite_op.splits option.splits if_splits)

text \<open>The control flow of a rite: its edges as the check computes them.\<close>

definition flow_edges :: "nat list \<Rightarrow> op_map \<Rightarrow> nat \<Rightarrow> cook_error + nat list" where
  "flow_edges order ops p =
     (case bt_get ops p of
        Some op \<Rightarrow> successors p op (next_in_order order p) ops
      | None \<Rightarrow> Inl CookPanic)"

definition flow :: "nat list \<Rightarrow> op_map \<Rightarrow> (nat \<times> nat) set" where
  "flow order ops = {(p, q). p \<in> set order \<and> (\<exists>es. flow_edges order ops p = Inr es \<and> q \<in> set es)}"

lemma succ_map_rfold:
  "succ_map order ops = rfold (\<lambda>sc pc. rbind (flow_edges order ops pc) (\<lambda>es. Inr (bt_insert pc es sc))) [] order"
proof -
  have "(\<lambda>sc pc. case bt_get ops pc of
        Some op \<Rightarrow> rbind (successors pc op (next_in_order order pc) ops) (\<lambda>es. Inr (bt_insert pc es sc))
      | None \<Rightarrow> Inl CookPanic) = (\<lambda>sc pc. rbind (flow_edges order ops pc) (\<lambda>es. Inr (bt_insert pc es sc)))"
    by (intro ext) (simp add: flow_edges_def split: option.split)
  then show ?thesis by (simp only: succ_map_def)
qed

lemma succ_fold_get:
  "rfold (\<lambda>sc pc. rbind (f pc) (\<lambda>es. Inr (bt_insert pc es sc))) sc0 pcs = Inr sc \<Longrightarrow>
   (\<forall>p \<in> set pcs. is_ok (f p)) \<and>
   bt_get sc p = (if p \<in> set pcs then (case f p of Inr es \<Rightarrow> Some es | Inl e \<Rightarrow> None) else bt_get sc0 p)"
proof (induction pcs arbitrary: sc0)
  case (Cons a pcs)
  then obtain es where es: "f a = Inr es" and r: "rfold (\<lambda>sc pc. rbind (f pc) (\<lambda>es. Inr (bt_insert pc es sc))) (bt_insert a es sc0) pcs = Inr sc"
    by (auto simp: rbind_Inr_iff)
  from Cons.IH[OF r] es show ?case by (auto simp: bt_get_insert is_ok_iff)
qed simp

lemma succ_fold_ok:
  "\<forall>p \<in> set pcs. is_ok (f p) \<Longrightarrow> is_ok (rfold (\<lambda>sc pc. rbind (f pc) (\<lambda>es. Inr (bt_insert pc es sc))) sc0 pcs)"
  by (induction pcs arbitrary: sc0) (auto simp: is_ok_iff)

lemma succ_fold_error:
  "rfold (\<lambda>sc pc. rbind (f pc) (\<lambda>es. Inr (bt_insert pc es sc))) sc0 pcs = Inl e \<Longrightarrow> \<exists>p \<in> set pcs. f p = Inl e"
  by (induction pcs arbitrary: sc0) (auto simp: rbind_Inl_iff)

lemma succ_map_ok_iff: "is_ok (succ_map order ops) \<longleftrightarrow> (\<forall>p \<in> set order. is_ok (flow_edges order ops p))"
proof
  assume "is_ok (succ_map order ops)"
  then obtain sc where "succ_map order ops = Inr sc" by (auto simp: is_ok_iff)
  then show "\<forall>p \<in> set order. is_ok (flow_edges order ops p)"
    unfolding succ_map_rfold by (rule succ_fold_get[THEN conjunct1])
qed (simp add: succ_map_rfold succ_fold_ok)

lemma succ_map_flow:
  assumes "succ_map order ops = Inr sc"
  shows "edge_rel sc = flow order ops"
proof -
  have g: "bt_get sc p = (if p \<in> set order then (case flow_edges order ops p of Inr es \<Rightarrow> Some es | Inl e \<Rightarrow> None) else None)" for p
    using succ_fold_get[OF assms[unfolded succ_map_rfold], of p] by simp
  have "(p, q) \<in> edge_rel sc \<longleftrightarrow> (p, q) \<in> flow order ops" for p q
    by (cases "p \<in> set order"; cases "flow_edges order ops p")
      (simp_all add: edge_rel_def edges_of_def g flow_def)
  then show ?thesis by auto
qed

lemma flow_closed:
  assumes "fst ` set ops = set order" and "(p, q) \<in> flow order ops"
  shows "p \<in> set order \<and> q \<in> set order"
  using assms successors_closed by (fastforce simp: flow_def flow_edges_def split: option.splits)

text \<open>The check accepts exactly the graphs that are well-formed, connected and acyclic.\<close>

lemma check_rite_cfg_cases:
  assumes a: "assign_pcs (rite_nodes g) = Inr (order, ops)" and e: "bt_has ops (rite_entry g)"
    and s: "succ_map order ops = Inr sc"
  shows "check_rite_cfg g =
    (case find_index (\<lambda>p. (rite_entry g, p) \<notin> (flow order ops)\<^sup>*) order of
       Some i \<Rightarrow> Inl (Unreachable (order ! i))
     | None \<Rightarrow> if acyclic (flow order ops) then Inr ops else Inl Cycle)"
proof -
  have "\<forall>p. set (edges_of sc p) \<subseteq> set order"
    using flow_closed[OF conjunct1[OF assign_pcs_keys[OF a]]] succ_map_flow[OF s]
    by (fastforce simp: edge_rel_def)
  then have "has_cycle order sc = Some (\<not> acyclic (flow order ops))"
    using has_cycle_correct succ_map_flow[OF s] by simp
  then show ?thesis
    using assms by (simp add: check_rite_cfg_def bfs_reach succ_map_flow[OF s] Let_def split: option.split)
qed

lemma check_rite_cfg_iff:
  "check_rite_cfg g = Inr ops \<longleftrightarrow> (\<exists>order. assign_pcs (rite_nodes g) = Inr (order, ops)
     \<and> rite_entry g \<in> set order \<and> (\<forall>p \<in> set order. is_ok (flow_edges order ops p))
     \<and> (\<forall>p \<in> set order. (rite_entry g, p) \<in> (flow order ops)\<^sup>*) \<and> acyclic (flow order ops))"
  (is "?l \<longleftrightarrow> ?r")
proof
  assume l: ?l
  then obtain order ops' sc where a: "assign_pcs (rite_nodes g) = Inr (order, ops')"
    and e: "bt_has ops' (rite_entry g)" and s: "succ_map order ops' = Inr sc"
    by (auto simp: check_rite_cfg_def rbind_Inr_iff split: if_splits)
  from l check_rite_cfg_cases[OF a e s] a e show ?r
    using assign_pcs_keys[OF a] succ_map_ok_iff[of order ops'] s
    by (auto simp: find_index_None bt_has_key is_ok_iff split: option.splits if_splits)
next
  assume ?r
  then obtain order where a: "assign_pcs (rite_nodes g) = Inr (order, ops)" and e: "rite_entry g \<in> set order"
    and ok: "\<forall>p \<in> set order. is_ok (flow_edges order ops p)"
    and rest: "\<forall>p \<in> set order. (rite_entry g, p) \<in> (flow order ops)\<^sup>*" "acyclic (flow order ops)" by blast
  have "is_ok (succ_map order ops)" using ok succ_map_ok_iff by blast
  then obtain sc where s: "succ_map order ops = Inr sc" by (auto simp: is_ok_iff)
  have "bt_has ops (rite_entry g)" using e assign_pcs_keys[OF a] by (simp add: bt_has_key)
  from check_rite_cfg_cases[OF a this s] rest show ?l
    by (simp add: find_index_None[THEN iffD2])
qed

lemma check_rite_cfg_error:
  assumes "check_rite_cfg g = Inl e"
  shows "e = MixedLabeling \<or> (\<exists>pc. e = DuplicatePc pc) \<or> e = MissingEntry (rite_entry g)
    \<or> (\<exists>order ops. assign_pcs (rite_nodes g) = Inr (order, ops) \<and>
        ((\<exists>p q. e = MissingTarget p q \<and> p \<in> set order \<and> q \<notin> set order)
         \<or> (\<exists>p. e = FallOff p \<and> p \<in> set order \<and> next_in_order order p = None)
         \<or> (\<exists>p. e = Unreachable p \<and> p \<in> set order \<and> (rite_entry g, p) \<notin> (flow order ops)\<^sup>*)
         \<or> e = Cycle \<and> \<not> acyclic (flow order ops)))"
proof (cases "assign_pcs (rite_nodes g)")
  case (Inl e')
  then show ?thesis using assms assign_pcs_error by (auto simp: check_rite_cfg_def)
next
  case (Inr x)
  then obtain order ops where a: "assign_pcs (rite_nodes g) = Inr (order, ops)" by (cases x) auto
  note k = conjunct1[OF assign_pcs_keys[OF a]]
  show ?thesis
  proof (cases "bt_has ops (rite_entry g)")
    case False
    then show ?thesis using assms a by (simp add: check_rite_cfg_def)
  next
    case True
    show ?thesis
    proof (cases "succ_map order ops")
      case (Inl e')
      then have "e' = e" using assms a True by (simp add: check_rite_cfg_def)
      with Inl obtain p where p: "p \<in> set order" "flow_edges order ops p = Inl e"
        using succ_fold_error[of "flow_edges order ops" "[]" order e] by (auto simp: succ_map_rfold)
      obtain op where "bt_get ops p = Some op"
        using p(1) k by (metis bt_get_None_iff option.exhaust)
      with p(2) have "successors p op (next_in_order order p) ops = Inl e" by (simp add: flow_edges_def)
      from successors_error[OF this] have "(\<exists>q. e = MissingTarget p q \<and> q \<notin> set order)
          \<or> e = FallOff p \<and> next_in_order order p = None"
        by (simp add: bt_has_key k)
      with a p(1) show ?thesis by blast
    next
      case (Inr sc)
      show ?thesis
      proof (cases "find_index (\<lambda>p. (rite_entry g, p) \<notin> (flow order ops)\<^sup>*) order")
        case None
        with check_rite_cfg_cases[OF a True Inr] assms have "e = Cycle \<and> \<not> acyclic (flow order ops)"
          by (simp split: if_splits)
        with a show ?thesis by blast
      next
        case (Some i)
        with check_rite_cfg_cases[OF a True Inr] assms have "e = Unreachable (order ! i)" by simp
        with a find_index_Some[OF Some] show ?thesis by (metis nth_mem)
      qed
    qed
  qed
qed

section \<open>Runs\<close>

lemma successively_trancl: "successively (\<lambda>p q. (p, q) \<in> r) ps \<Longrightarrow> sorted_wrt (\<lambda>p q. (p, q) \<in> r\<^sup>+) ps"
proof (induction ps)
  case (Cons p ps)
  then show ?case
    by (cases ps) (auto simp: successively_Cons intro: trancl_into_trancl2)
qed simp

lemma acyclic_path_distinct: "acyclic r \<Longrightarrow> successively (\<lambda>p q. (p, q) \<in> r) ps \<Longrightarrow> distinct ps"
  by (auto dest!: successively_trancl simp: acyclic_def distinct_conv_nth sorted_wrt_iff_nth_less)
    (metis linorder_neqE_nat)

lemma path_in_order:
  assumes "fst ` set ops = set order" and "p \<in> set order" and "successively (\<lambda>p q. (p, q) \<in> flow order ops) (p # ps)"
  shows "set (p # ps) \<subseteq> set order"
  using assms(2,3)
proof (induction ps arbitrary: p)
  case (Cons q ps)
  then show ?case using flow_closed[OF assms(1), of p q] by auto
qed simp

lemma length_assigned: "assign_pcs ns = Inr (order, ops) \<Longrightarrow> distinct (map fst ops)"
  using assign_pcs_keys[of ns order ops] by (simp add: bt_sorted_def strict_sorted_iff)

section \<open>Properties\<close>

text \<open>
  C8: The check of a rite's control flow is sound and complete.  It accepts a graph, returning its
  ops, if and only if the program counters are assigned without conflict, the entry exists, every
  op has its targets and its next op, every op is reachable from the entry, and no run can come
  back to an op it has left.
\<close>

theorem rite_check_iff:
  "check_rite_cfg g = Inr ops \<longleftrightarrow> (\<exists>order. assign_pcs (rite_nodes g) = Inr (order, ops)
     \<and> rite_entry g \<in> set order \<and> (\<forall>p \<in> set order. is_ok (flow_edges order ops p))
     \<and> (\<forall>p \<in> set order. (rite_entry g, p) \<in> (flow order ops)\<^sup>*) \<and> acyclic (flow order ops))"
  by (rule check_rite_cfg_iff)

definition lockpick :: rite_graph where
  "lockpick = \<lparr>rite_ident = ''lockpick'', cap_steps = 32, cap_ticks = 180, rite_entry = 0, rite_nodes =
     [NodeOp (Guard (PAffordance Target ''Lockable'') 4), NodeOp (Wait 30 (Some Timing)),
      NodeOp (Spend ''picks'' 1 4), NodeOp (Complete Success), NodeOp (Complete Fail)]\<rparr>"

definition lockpick_ops :: op_map where
  "lockpick_ops = [(0, Guard (PAffordance Target ''Lockable'') 4), (1, Wait 30 (Some Timing)),
     (2, Spend ''picks'' 1 4), (3, Complete Success), (4, Complete Fail)]"

named_theorems cfg_run \<open>definitions the check of a concrete rite unfolds\<close>

lemmas cfg_run_defs [cfg_run] = check_rite_cfg_def assign_pcs_def is_labeled_def bt_has_def succ_map_def
  successors_def succ_fail_def require_target_def require_next_def next_in_order_def nth_opt_def
  bfs_def edges_of_def has_cycle_def colour_of_def flow_edges_def Let_def

lemma lockpick_accepted: "check_rite_cfg lockpick = Inr lockpick_ops"
  by (simp add: cfg_run lockpick_def lockpick_ops_def)

theorem rite_check_iff_witness:
  "\<exists>order. assign_pcs (rite_nodes lockpick) = Inr (order, lockpick_ops) \<and> acyclic (flow order lockpick_ops)"
  using lockpick_accepted rite_check_iff by blast

text \<open>
  Every rejection is justified and the check never gets stuck.  Each error names a real defect
  of the graph: a target that is missing, an op that falls off the end, an op no run reaches, or
  an actual cycle; the search's fuel and the unreachable arms are never the cause.
\<close>

theorem rite_check_error:
  assumes "check_rite_cfg g = Inl e"
  shows "e = MixedLabeling \<or> (\<exists>pc. e = DuplicatePc pc) \<or> e = MissingEntry (rite_entry g)
    \<or> (\<exists>order ops. assign_pcs (rite_nodes g) = Inr (order, ops) \<and>
        ((\<exists>p q. e = MissingTarget p q \<and> p \<in> set order \<and> q \<notin> set order)
         \<or> (\<exists>p. e = FallOff p \<and> p \<in> set order \<and> next_in_order order p = None)
         \<or> (\<exists>p. e = Unreachable p \<and> p \<in> set order \<and> (rite_entry g, p) \<notin> (flow order ops)\<^sup>*)
         \<or> e = Cycle \<and> \<not> acyclic (flow order ops)))"
  using assms by (rule check_rite_cfg_error)

definition spinner :: rite_graph where
  "spinner = \<lparr>rite_ident = ''spinner'', cap_steps = 32, cap_ticks = 180, rite_entry = 0, rite_nodes =
     [NodeOp (Emit ''tick''), NodeOp (Branch (PEqVerb Use) 0 2), NodeOp (Halt Success)]\<rparr>"

theorem rite_check_error_witness:
  "check_rite_cfg spinner = Inl Cycle
   \<and> (\<exists>order ops. assign_pcs (rite_nodes spinner) = Inr (order, ops) \<and> \<not> acyclic (flow order ops))"
proof -
  have c: "check_rite_cfg spinner = Inl Cycle" by (simp add: cfg_run spinner_def)
  then show ?thesis using rite_check_error[OF c] by auto
qed

text \<open>
  C6: Runs of an accepted rite are bounded.  A run that starts at the entry never visits an op
  twice, so it takes at most as many steps as the rite has ops, and it can only stop at a \<open>Halt\<close>
  or a \<open>Complete\<close>.
\<close>

theorem accepted_rite_terminates:
  assumes "check_rite_cfg g = Inr ops" and "assign_pcs (rite_nodes g) = Inr (order, ops)"
    and "successively (\<lambda>p q. (p, q) \<in> flow order ops) (rite_entry g # ps)"
  shows "distinct (rite_entry g # ps) \<and> length (rite_entry g # ps) \<le> length ops
    \<and> ((\<exists>q. (last (rite_entry g # ps), q) \<in> flow order ops)
       \<or> (\<exists>s. bt_get ops (last (rite_entry g # ps)) = Some (Halt s)
           \<or> bt_get ops (last (rite_entry g # ps)) = Some (Complete s)))"
proof -
  let ?ps = "rite_entry g # ps"
  from assms(1,2) have e: "rite_entry g \<in> set order" and ok: "\<forall>p \<in> set order. is_ok (flow_edges order ops p)"
    and ac: "acyclic (flow order ops)"
    unfolding check_rite_cfg_iff by auto
  note keys = conjunct1[OF assign_pcs_keys[OF assms(2)]]
  have d: "distinct ?ps" by (rule acyclic_path_distinct[OF ac assms(3)])
  have sub: "set ?ps \<subseteq> set order" by (rule path_in_order[OF keys e assms(3)])
  have "length ?ps = card (set ?ps)" using d by (rule distinct_card[symmetric])
  also have "\<dots> \<le> card (fst ` set ops)" using sub keys by (intro card_mono) auto
  also have "\<dots> \<le> length ops" by (metis card_length length_map set_map)
  finally have len: "length ?ps \<le> length ops" .
  let ?l = "last ?ps"
  have l: "?l \<in> set order" using sub last_in_set[of ?ps] by blast
  then obtain op es where op: "bt_get ops ?l = Some op" "successors ?l op (next_in_order order ?l) ops = Inr es"
    using ok by (auto simp: is_ok_iff flow_edges_def split: option.splits)
  have "(\<exists>q. (?l, q) \<in> flow order ops) \<or> (\<exists>s. op = Halt s \<or> op = Complete s)"
  proof (cases es)
    case Nil
    then show ?thesis using successors_nil op(2) by blast
  next
    case (Cons q qs)
    then have "(?l, q) \<in> flow order ops" using l op by (auto simp: flow_def flow_edges_def)
    then show ?thesis by blast
  qed
  with d len op(1) show ?thesis by auto
qed

theorem accepted_rite_terminates_witness:
  "distinct [0, 1, 2, 3 :: nat] \<and> length [0, 1, 2, 3 :: nat] \<le> length lockpick_ops
   \<and> successively (\<lambda>p q. (p, q) \<in> flow [0, 1, 2, 3, 4] lockpick_ops) [0, 1, 2, 3]"
proof -
  have a: "assign_pcs (rite_nodes lockpick) = Inr ([0, 1, 2, 3, 4], lockpick_ops)"
    by (simp add: cfg_run lockpick_def lockpick_ops_def)
  have s: "flow_edges [0, 1, 2, 3, 4] lockpick_ops 0 = Inr [1, 4]" "flow_edges [0, 1, 2, 3, 4] lockpick_ops 1 = Inr [2]"
    "flow_edges [0, 1, 2, 3, 4] lockpick_ops 2 = Inr [3, 4]"
    by (simp_all add: cfg_run lockpick_ops_def)
  have r: "successively (\<lambda>p q. (p, q) \<in> flow [0, 1, 2, 3, 4] lockpick_ops) (rite_entry lockpick # [1, 2, 3])"
    using s by (simp add: flow_def lockpick_def)
  show ?thesis
    using accepted_rite_terminates[OF lockpick_accepted a r] r by (simp add: lockpick_def)
qed

end
