(* ===== verification/CanonCooked.thy ===== *)
theory CanonCooked
  imports CanonCookProps CanonCfgProps
begin

text \<open>
  The cooked tables as their readers see them: every predicate row decides its authored
  predicate, ids are positions, pins are the seed loci, interning predicates and changing
  epochs keep what the ids name.
\<close>

section \<open>Decided predicates\<close>

text \<open>
  \<open>decides c J i p\<close>: the program at index \<open>i\<close> of the tables decides \<open>p\<close>, in every context and for
  every remaining tick budget.  An \<open>OpaqueClosed\<close> below a quantifier is excluded.
\<close>

definition decides :: "canon \<Rightarrow> interner \<Rightarrow> nat \<Rightarrow> pred \<Rightarrow> bool" where
  "decides c J i p \<longleftrightarrow> (opaque_outside p \<longrightarrow>
     (\<exists>prog. canon_pred c i = Some prog \<and> (\<forall>ctx t. eval_pred prog ctx t =
        (if cost J ctx None p + 1 \<le> min t pred_ops_per_eval
         then (Inr (sem J ctx None p), t - (cost J ctx None p + 1))
         else (Inl RBudget, t - min t pred_ops_per_eval)))))"

lemma denotes_decides:
  assumes "denotes (J, cn_preds c) i p" and "is_ok (pred_check p)"
  shows "decides c J i p"
proof -
  obtain I K where c: "i < length (cn_preds c)" "compile_pred_with p I = Inr (cn_preds c ! i, K)" "intern_le K J"
    using assms(1) by (auto simp: denotes_def)
  have "canon_pred c i = Some (cn_preds c ! i)" using c(1) by (simp add: canon_pred_def nth_opt_def)
  then show ?thesis
    unfolding decides_def using compile_eval[OF c(2) pred_check_quant_flat[OF assms(2)] _ c(3)] by blast
qed

text \<open>The interner \<open>J\<close> is the tables' own: its maps are the by-name tables and the name lists.\<close>

definition names_of :: "canon \<Rightarrow> interner \<Rightarrow> bool" where
  "names_of c J \<longleftrightarrow> interner_ok J \<and> affordance_by_name c = affordances J \<and> rite_by_name c = rites J
     \<and> resource_by_name c = resources J \<and> cn_facts c = names_by_id (facts J) \<and> cn_pin_names c = pin_names J"

fun body_pred :: "law_body \<Rightarrow> pred option" where
  "body_pred (LbPred must ought) = Some must"
| "body_pred (LbCap mark n rq) = Some mark"
| "body_pred b = None"

fun cooked_body_pred :: "cooked_law_body \<Rightarrow> nat option" where
  "cooked_body_pred (CkPred must ought) = Some must"
| "cooked_body_pred (CkCap mark n rq) = Some mark"
| "cooked_body_pred b = None"

lemma body_cooked_pred: "body_cooked st b k \<Longrightarrow> body_pred b = Some p \<Longrightarrow>
    \<exists>i. cooked_body_pred k = Some i \<and> denotes st i p"
  by (induction st b k rule: body_cooked.induct) auto

definition law_decided :: "canon \<Rightarrow> interner \<Rightarrow> string \<times> law \<Rightarrow> cooked_law \<Rightarrow> bool" where
  "law_decided c J nl row \<longleftrightarrow> cl_name row = fst nl \<and> decides c J (cl_when row) (law_when (snd nl))
     \<and> (\<forall>p. body_pred (law_body_of (snd nl)) = Some p \<longrightarrow>
          (\<exists>i. cooked_body_pred (cl_body row) = Some i \<and> decides c J i p))"

definition affordance_decided :: "canon \<Rightarrow> interner \<Rightarrow> string \<times> affordance \<Rightarrow> bool" where
  "affordance_decided c J na \<longleftrightarrow> (\<exists>i row. canon_affordance_id c (fst na) = Some i
     \<and> nth_opt (cn_affordances c) i = Some row \<and> ca_id row = i \<and> ca_name row = fst na
     \<and> ca_grants row = aff_grants (snd na)
     \<and> list_all2 (\<lambda>p j. decides c J j p) (aff_requires (snd na)) (ca_requires row)
     \<and> list_all2 (\<lambda>n j. canon_affordance_id c n = Some j) (aff_conflicts (snd na)) (ca_conflicts row))"

definition rite_decided :: "canon \<Rightarrow> interner \<Rightarrow> rite_graph \<Rightarrow> cooked_rite \<Rightarrow> bool" where
  "rite_decided c J g row \<longleftrightarrow> cr_name row = rite_ident g \<and> is_ok (check_rite_cfg g)
     \<and> (length (rite_nodes g) \<le> 65536 \<longrightarrow> (\<forall>x \<in> set (rc_instrs (cr_chunk row)). \<forall>p. op_guard (ri_op x) = Some p \<longrightarrow>
          (\<exists>i. bt_get (cr_guards row) (ri_pc x) = Some i \<and> decides c J i p)))"

lemma law_decided_cooked:
  assumes "law_cooked (J, cn_preds c) nl row" and "is_ok (law_check (snd nl))"
  shows "law_decided c J nl row"
proof -
  have w: "is_ok (pred_check (law_when (snd nl)))" using assms(2) by (auto simp: law_check_def is_ok_iff rbind_Inr_iff)
  have b: "is_ok (pred_check p)" if "body_pred (law_body_of (snd nl)) = Some p" for p
    using assms(2) that by (cases "law_body_of (snd nl)") (auto simp: law_check_def is_ok_iff rbind_Inr_iff)
  show ?thesis
    using assms(1) w b denotes_decides[of J c]
    by (auto simp: law_decided_def law_cooked_def dest!: body_cooked_pred)
qed

lemma rite_decided_cooked:
  assumes "rite_cooked (J, cn_preds c) g row" and "is_ok (rite_graph_check g)"
  shows "rite_decided c J g row"
proof -
  let ?instr = "\<lambda>(pc, op). \<lparr>ri_pc = pc, ri_op = op\<rparr>"
  have "rc_instrs (cr_chunk row) = map ?instr (map (\<lambda>x. (ri_pc x, ri_op x)) (rc_instrs (cr_chunk row)))"
    by (simp add: comp_def map_idI)
  also have "\<dots> = map ?instr (map2 node_pc [0..<length (rite_nodes g)] (rite_nodes g))"
    by (rule arg_cong[of _ _ "map ?instr"]) (use assms(1) in \<open>simp add: rite_cooked_def\<close>)
  finally have ops: "rc_instrs (cr_chunk row) = map ?instr (map2 node_pc [0..<length (rite_nodes g)] (rite_nodes g))" .
  have chk: "is_ok (pred_check p)" if "x \<in> set (rc_instrs (cr_chunk row))" "op_guard (ri_op x) = Some p" for x p
  proof -
    note xs = that(1)
    obtain i :: nat and node where z: "(i, node) \<in> set (zip [0..<length (rite_nodes g)] (rite_nodes g))"
      and x: "x = ?instr (node_pc i node)"
      using xs unfolding ops by auto
    have n: "node \<in> set (rite_nodes g)" "ri_op x = snd (node_pc i node)"
      using set_zip_rightD[OF z] by (simp_all add: x case_prod_beta)
    then have "is_ok (rite_node_check node)"
      using assms(2) check_all_ok[of rite_node_check] by (auto simp: rite_graph_check_def is_ok_iff rbind_Inr_iff split: if_splits)
    then have "is_ok (rite_op_check (ri_op x))" using n(2) by (cases node) (simp_all add: node_pc_def)
    then show ?thesis using that(2) by (cases "ri_op x") (auto simp: op_guard_def)
  qed
  have "guards_ok (J, cn_preds c) (rc_instrs (cr_chunk row)) (cr_guards row)" if "length (rite_nodes g) \<le> 65536"
  proof -
    obtain o' where "check_rite_cfg g = Inr o'" using assms(1) by (auto simp: rite_cooked_def is_ok_iff)
    then have "distinct (map ri_pc (rc_instrs (cr_chunk row)))"
      using cfg_pcs_distinct[OF _ that] unfolding ops by (simp add: comp_def case_prod_beta)
    then show ?thesis using assms(1) by (simp add: rite_cooked_def)
  qed
  then show ?thesis
    using assms(1) chk denotes_decides[of J c] unfolding rite_decided_def rite_cooked_def guards_ok_def by blast
qed

lemma cook_cases:
  assumes "cook doc = Inr c"
  shows "is_ok (validate_doc doc)" and "cook_inner (canon_diffs doc) (doc_seed doc) (doc_minds doc) = Inr c"
  using assms by (auto simp: cook_def is_ok_iff split: sum.splits)

lemma validated_diff: "is_ok (validate_doc doc) \<Longrightarrow> x \<in> set (canon_diffs doc) \<Longrightarrow> is_ok (canon_diff_check x)"
  using check_all_ok[of canon_diff_check "canon_diffs doc"] by (auto simp: validate_doc_def is_ok_iff rbind_Inr_iff)

lemma affordance_decided_row:
  assumes t: "tables_of d J affs c" and rows: "map ca_id (cn_affordances c) = [0..<length (cn_affordances c)]"
    "\<And>a. a \<in> set (cn_affordances c) \<Longrightarrow> canon_affordance_id c (ca_name a) = Some (ca_id a)"
    "set affs \<subseteq> set (cn_affordances c)"
    and na: "na \<in> set (d_affordances d)" and chk: "is_ok (affordance_check (snd na))"
  shows "affordance_decided c J na"
proof -
  have l: "list_all2 (affordance_cooked (J, cn_preds c)) (d_affordances d) affs" using t by (simp add: tables_of_def)
  obtain row where r: "row \<in> set affs" "affordance_cooked (J, cn_preds c) na row"
    using list_all2_nthD[OF l] list_all2_lengthD[OF l] na by (metis in_set_conv_nth)
  then have mem: "row \<in> set (cn_affordances c)" using rows(3) by blast
  then obtain i where i: "i < length (cn_affordances c)" "cn_affordances c ! i = row" by (auto simp: in_set_conv_nth)
  have "ca_id row = i" using arg_cong[OF rows(1), of "\<lambda>xs. xs ! i"] i by simp
  moreover have "list_all2 (\<lambda>p j. decides c J j p) (aff_requires (snd na)) (ca_requires row)"
  proof (rule list_all2_all_nthI)
    have l: "list_all2 (\<lambda>p j. denotes (J, cn_preds c) j p) (aff_requires (snd na)) (ca_requires row)"
      using r(2) by (simp add: affordance_cooked_def)
    show "length (aff_requires (snd na)) = length (ca_requires row)" using l by (rule list_all2_lengthD)
    fix k assume k: "k < length (aff_requires (snd na))"
    have "is_ok (pred_check (aff_requires (snd na) ! k))"
      using chk check_all_ok[of pred_check "aff_requires (snd na)"] k
      by (auto simp: affordance_check_def is_ok_iff rbind_Inr_iff)
    with list_all2_nthD[OF l k] show "decides c J (ca_requires row ! k) (aff_requires (snd na) ! k)"
      by (rule denotes_decides)
  qed
  moreover have "list_all2 (\<lambda>n j. canon_affordance_id c n = Some j) (aff_conflicts (snd na)) (ca_conflicts row)"
    using r(2) t unfolding affordance_cooked_def tables_of_def by (auto elim!: list_all2_mono simp: names_affordance_def canon_affordance_id_def)
  ultimately show ?thesis
    using r(2) i rows(2)[OF mem] by (auto simp: affordance_decided_def affordance_cooked_def nth_opt_def)
qed

lemma find_index_nth: "distinct ns \<Longrightarrow> find_index (\<lambda>x. x = n) ns = Some i \<longleftrightarrow> nth_opt ns i = Some n"
  using find_index_Some[of "\<lambda>x. x = n" ns i] find_index_distinct[of ns i] by (auto simp: nth_opt_Some_iff)

lemma dense_inj: "dense m \<Longrightarrow> bt_get m n = Some i \<Longrightarrow> bt_get m n' = Some i \<Longrightarrow> n = n'"
  using dense_names[of m i n] dense_names[of m i n'] by simp

section \<open>Concrete documents\<close>

named_theorems cook_run \<open>definitions the cook of a concrete document unfolds\<close>

lemmas cook_run_defs [cook_run] = cook_def validate_doc_def style_check_def law_check_def affordance_check_def
  rite_graph_check_def cook_inner_def draft_apply_def draft_new_def bt_has_def check_fragment_def Let_def unsat_def
  sat_atoms_def upt_rec intern_seed_def pin_locus_def require_seed_def alloc_sigil_def sigil_pack_def
  sigil_id_mask_def cook_pred_def push_pred_def cook_resource_def cook_conflict_def
  cook_rite_def cook_guard_def node_pc_def bind_seed_physics_def bind_seed_track_def with_implicit_def
  names_by_id_def canon_pin_def canon_rite_id_def canon_affordance_id_def canon_law_id_def canon_resource_id_def

definition key_law :: law where
  "key_law = \<lparr>law_ident = ''keyed'', law_when = PEqVerb Use,
     law_body_of = LbPred (PRel Target KeyedBy (NameSlot ''brass'')) None\<rparr>"

definition door_doc :: intent_doc where
  "door_doc = \<lparr>doc_style = \<lparr>style_notes = ''x'', palettes = [], kitbash_tags = []\<rparr>,
     canon_diffs = [AddLaw key_law,
       AddAffordance \<lparr>aff_ident = ''Door'', aff_requires = [PQty This ''hp'' Ge 1], aff_grants = [], aff_conflicts = [''Wall'']\<rparr>],
     doc_seed = [SeedLocus ''hero'' Actor, SeedLocus ''brass'' Relic], doc_minds = []\<rparr>"


text \<open>A rite that writes to an unbound name, and a law that mentions an undeclared rite.\<close>

definition ghost_doc :: intent_doc where
  "ghost_doc = \<lparr>doc_style = \<lparr>style_notes = ''x'', palettes = [], kitbash_tags = []\<rparr>,
     canon_diffs = [AddRite \<lparr>rite_ident = ''haunt'', cap_steps = 4, cap_ticks = 4, rite_entry = 0,
       rite_nodes = [NodeOp (Setq (NameSlot ''ghost'') ''hp'' 1), NodeOp (Halt Success)]\<rparr>],
     doc_seed = [SeedLocus ''hero'' Actor], doc_minds = []\<rparr>"

definition ghost_rite_doc :: intent_doc where
  "ghost_rite_doc = \<lparr>doc_style = \<lparr>style_notes = ''x'', palettes = [], kitbash_tags = []\<rparr>,
     canon_diffs = [AddLaw \<lparr>law_ident = ''l'', law_when = PRiteActive ''ghost'', law_body_of = LbConserve ''hp'' In\<rparr>],
     doc_seed = [], doc_minds = []\<rparr>"

section \<open>Properties\<close>

text \<open>
  C1: Cooking is correct.  When a document cooks, its diffs apply, and the tables answer for what
  survives: row i of the law table carries the name of the i-th surviving law, its \<open>when\<close> program
  and the program of its body decide the authored predicates; every surviving affordance is found
  under its id with its authored requirements decided and its conflicts resolved; every surviving
  rite has passed the control-flow check and the guard stored at each of its guarded instructions
  decides the authored guard.  The names are read through the tables' own name maps.  Two conditions:
  a program is said to decide its predicate only when \<open>OpaqueClosed\<close> does not occur below a quantifier
  (\<open>decides\<close> asks \<open>opaque_outside\<close>; below one the compiled program drops the inner scan and is refused
  for its budget), and guards are spoken for in rites of at most 65536 nodes (\<open>rite_decided\<close>).
\<close>

theorem cooked_predicates_decide:
  assumes "cook doc = Inr c"
  shows "\<exists>d J. draft_apply (canon_diffs doc) = Inr d \<and> names_of c J
    \<and> list_all2 (law_decided c J) (d_laws d) (cn_laws c)
    \<and> (\<forall>na \<in> set (d_affordances d). affordance_decided c J na)
    \<and> list_all2 (rite_decided c J) (d_rites d) (cn_rites c)"
proof -
  note v = cook_cases[OF assms]
  obtain d I J affs where s: "draft_apply (canon_diffs doc) = Inr d" "draft_ok d" "intern_seed d (doc_seed doc) = Inr I"
    "intern_grows I J" "tables_of d J affs c"
    using cook_inner_step[OF v(2)] by blast
  note from_doc = draft_from_diffs[OF s(1)]
  have checked: "\<forall>nl \<in> set (d_laws d). is_ok (law_check (snd nl))"
    "\<forall>na \<in> set (d_affordances d). is_ok (affordance_check (snd na))"
    "\<forall>g \<in> set (d_rites d). is_ok (rite_graph_check g)"
    using from_doc validated_diff[OF v(1)] unfolding from_diffs_def by fastforce+
  have "names_of c J"
    using s(5) s(4) intern_seed_step(1)[OF s(3,2)] by (simp add: names_of_def tables_of_def intern_grows_def)
  moreover have "list_all2 (law_decided c J) (d_laws d) (cn_laws c)"
    using s(5) checked(1) law_decided_cooked by (auto simp: tables_of_def list_all2_conv_all_nth)
  moreover have "list_all2 (rite_decided c J) (d_rites d) (cn_rites c)"
    using s(5) checked(3) rite_decided_cooked by (auto simp: tables_of_def list_all2_conv_all_nth)
  moreover have "\<forall>na \<in> set (d_affordances d). affordance_decided c J na"
    using affordance_decided_row[OF s(5) cooked_affordance_rows(1,2,4)[OF s(2-5)]] checked(2) by blast
  ultimately show ?thesis using s(1) by blast
qed

theorem cooked_predicates_decide_witness:
  "\<exists>c d J row. cook door_doc = Inr c \<and> draft_apply (canon_diffs door_doc) = Inr d \<and> names_of c J
    \<and> cn_laws c = [row] \<and> decides c J (cl_when row) (PEqVerb Use) \<and> affordance_by_name c = [(''Door'', 0), (''Wall'', 1)]"
proof -
  obtain c where c: "cook door_doc = Inr c" "affordance_by_name c = [(''Door'', 0), (''Wall'', 1)]"
    by (simp add: door_doc_def key_law_def cook_run canon_run)
  obtain d J where d: "draft_apply (canon_diffs door_doc) = Inr d" "names_of c J"
    "list_all2 (law_decided c J) (d_laws d) (cn_laws c)"
    using cooked_predicates_decide[OF c(1)] by blast
  have "d_laws d = [(''keyed'', key_law)]"
    using d(1) by (auto simp: door_doc_def draft_apply_def draft_new_def bt_has_def key_law_def)
  then obtain row where "cn_laws c = [row]" "decides c J (cl_when row) (law_when key_law)"
    using d(3) by (auto simp: list_all2_Cons1 law_decided_def)
  then show ?thesis using c d by (auto simp: key_law_def)
qed

lemma cooked_ids:
  assumes "cook doc = Inr c"
  shows "map cl_id (cn_laws c) = [0..<length (cn_laws c)]
      \<and> (\<forall>n i. canon_law_id c n = Some i \<longleftrightarrow> nth_opt (map cl_name (cn_laws c)) i = Some n)
    \<and> map ca_id (cn_affordances c) = [0..<length (cn_affordances c)]
      \<and> (\<forall>n i. canon_affordance_id c n = Some i \<longleftrightarrow> nth_opt (map ca_name (cn_affordances c)) i = Some n)
    \<and> (\<forall>n i. canon_resource_id c n = Some i \<longleftrightarrow> nth_opt (cn_resources c) i = Some n)
    \<and> map cr_id (cn_rites c) = [0..<length (cn_rites c)]
      \<and> (\<forall>n i. nth_opt (map cr_name (cn_rites c)) i = Some n \<longrightarrow> canon_rite_id c n = Some i)"
proof -
  obtain d I J affs where s: "draft_ok d" "intern_seed d (doc_seed doc) = Inr I"
    "intern_grows I J" "tables_of d J affs c"
    using cook_inner_step[OF cook_cases(2)[OF assms]] by blast
  note R = cooked_affordance_rows[OF s]
  have ok: "interner_ok J" using intern_seed_step(1)[OF s(2,1)] s(3) by (simp add: intern_grows_def)
  have d: "distinct (map fst (d_laws d))" "distinct (map rite_ident (d_rites d))"
    using s(1) by (simp_all add: draft_ok_def indexes_def)
  have ln: "map cl_name (cn_laws c) = map fst (d_laws d)" and rn: "map cr_name (cn_rites c) = map rite_ident (d_rites d)"
    using s(4) by (auto simp: tables_of_def law_cooked_def rite_cooked_def list_all2_conv_all_nth intro!: nth_equalityI)
  have laws: "canon_law_id c n = Some i \<longleftrightarrow> nth_opt (map cl_name (cn_laws c)) i = Some n" for n i
    using s(4) find_index_nth[OF d(1)] by (simp add: canon_law_id_def tables_of_def ln)
  have res: "canon_resource_id c n = Some i \<longleftrightarrow> nth_opt (cn_resources c) i = Some n" for n i
    using s(4) dense_names[of "resources J" i n] ok by (auto simp: canon_resource_id_def tables_of_def interner_ok_def)
  have rts: "canon_rite_id c n = Some i" if "nth_opt (map cr_name (cn_rites c)) i = Some n" for n i
  proof -
    have "bt_get (rites I) n = Some i"
      using that intern_seed_step(7)[OF s(2,1), of n] find_index_nth[OF d(2)] by (simp add: rn)
    then show ?thesis using s(3,4) by (auto simp: canon_rite_id_def tables_of_def intern_grows_def intern_le_def map_le_bt_def)
  qed
  have aff: "canon_affordance_id c n = Some i \<longleftrightarrow> nth_opt (map ca_name (cn_affordances c)) i = Some n" for n i
  proof -
    have row: "canon_affordance_id c (ca_name (cn_affordances c ! i)) = Some i" if "i < length (cn_affordances c)"
      using R(2)[OF nth_mem[OF that]] arg_cong[OF R(1), of "\<lambda>xs. xs ! i"] that by simp
    have "dense (affordances J)" "affordance_by_name c = affordances J"
      using ok s(4) by (simp_all add: interner_ok_def tables_of_def)
    then have "ca_name (cn_affordances c ! i) = n" if "canon_affordance_id c n = Some i"
      using that row[OF R(3)[OF that]] dense_inj by (metis canon_affordance_id_def)
    then show ?thesis using row R(3) by (auto simp: nth_opt_Some_iff)
  qed
  have "map cl_id (cn_laws c) = [0..<length (cn_laws c)]" "map cr_id (cn_rites c) = [0..<length (cn_rites c)]"
    using s(4) by (auto simp: tables_of_def dest: list_all2_lengthD)
  then show ?thesis using R(1) laws res rts aff by blast
qed

text \<open>
  C18: Ids are positions.  In cooked tables a law, an affordance or a resource is found by name under
  exactly the id that is its position in its table; every row carries its position as its id; and a
  rite row is found by its name under its position.
\<close>

theorem cooked_ids_are_positions:
  assumes "cook doc = Inr c"
  shows "map cl_id (cn_laws c) = [0..<length (cn_laws c)]
      \<and> (\<forall>n i. canon_law_id c n = Some i \<longleftrightarrow> nth_opt (map cl_name (cn_laws c)) i = Some n)
    \<and> map ca_id (cn_affordances c) = [0..<length (cn_affordances c)]
      \<and> (\<forall>n i. canon_affordance_id c n = Some i \<longleftrightarrow> nth_opt (map ca_name (cn_affordances c)) i = Some n)
    \<and> (\<forall>n i. canon_resource_id c n = Some i \<longleftrightarrow> nth_opt (cn_resources c) i = Some n)
    \<and> map cr_id (cn_rites c) = [0..<length (cn_rites c)]
      \<and> (\<forall>n i. nth_opt (map cr_name (cn_rites c)) i = Some n \<longrightarrow> canon_rite_id c n = Some i)"
  using assms by (rule cooked_ids)

theorem cooked_ids_are_positions_witness:
  "\<exists>c. cook door_doc = Inr c \<and> canon_affordance_id c ''Wall'' = Some 1 \<and> nth_opt (map ca_name (cn_affordances c)) 1 = Some ''Wall''"
proof -
  obtain c where c: "cook door_doc = Inr c" "canon_affordance_id c ''Wall'' = Some 1"
    by (simp add: door_doc_def key_law_def cook_run canon_run)
  with cooked_ids_are_positions[OF c(1)] show ?thesis by blast
qed

text \<open>
  Pins are the seed loci.  When a document with a seed cooks, its pins are exactly its seed loci
  in order: every seed locus is bound to a sigil of its authored kind, two names never share a sigil,
  and no other name is bound, whatever names the laws, minds and affordances mention.
\<close>

theorem pins_are_seed_loci:
  assumes "cook doc = Inr c" and "doc_seed doc \<noteq> []"
  shows "cn_pin_names c = map fst (loci (doc_seed doc))
    \<and> (\<forall>(n, k) \<in> set (loci (doc_seed doc)). \<exists>s. canon_pin c n = Some s \<and> sigil_kind s = Some k)
    \<and> (\<forall>n m s. canon_pin c n = Some s \<and> canon_pin c m = Some s \<longrightarrow> n = m)
    \<and> (\<forall>n. n \<notin> fst ` set (loci (doc_seed doc)) \<longrightarrow> canon_pin c n = None)"
proof -
  let ?ls = "loci (doc_seed doc)"
  obtain d I J affs where s: "pinned (doc_seed doc) J" "tables_of d J affs c"
    using cook_inner_step[OF cook_cases(2)[OF assms(1)]] by blast
  then have names: "cn_pin_names c = map fst ?ls" and sigils: "cn_pin_sigils c = seed_sigils 0 ?ls"
    and dist: "distinct (map fst ?ls)" and len: "length ?ls \<le> 65536"
    using assms(2) by (auto simp: pinned_def tables_of_def)
  have at: "canon_pin c (fst (?ls ! i)) = Some (sigil_pack_truncated (snd (?ls ! i)) 0 (of_nat i))" if "i < length ?ls" for i
    using find_index_distinct[OF dist, of i] that
    by (simp add: canon_pin_def names sigils seed_sigils_def nth_opt_def split: prod.splits)
  have id: "sigil_id (sigil_pack_truncated k 0 (of_nat i)) = of_nat i" if "i < length ?ls" for i k
  proof -
    have "of_nat i \<le> (sigil_id_mask :: 128 word)"
      using that len by (simp add: word_le_nat_alt sigil_id_mask_def unat_of_nat)
    then show ?thesis by (simp add: sigil_id_pack_truncated sigil_mask_absorb)
  qed
  have none: "canon_pin c n = None" if "n \<notin> fst ` set ?ls" for n
  proof -
    have "find_index (\<lambda>m. m = n) (map fst ?ls) = None" using that by (auto simp: find_index_None)
    then show ?thesis by (simp add: canon_pin_def names)
  qed
  have ix: "\<exists>i < length ?ls. fst (?ls ! i) = n" if "canon_pin c n = Some x" for n x
  proof -
    have "n \<in> set (map fst ?ls)" using none[of n] that by (cases "n \<in> fst ` set ?ls") simp_all
    then show ?thesis unfolding in_set_conv_nth by (metis length_map nth_map)
  qed
  have "n = m" if p: "canon_pin c n = Some x" "canon_pin c m = Some x" for n m x
  proof -
    obtain i j where ij: "i < length ?ls" "fst (?ls ! i) = n" "j < length ?ls" "fst (?ls ! j) = m"
      using ix p by metis
    then have "of_nat i = (of_nat j :: 128 word)" using at[of i] at[of j] p id by (metis option.inject)
    then have "unat (of_nat i :: 128 word) = unat (of_nat j :: 128 word)" by simp
    then have "i = j" using ij len by (simp add: unat_of_nat)
    with ij show ?thesis by simp
  qed
  moreover have "\<exists>x. canon_pin c n = Some x \<and> sigil_kind x = Some k" if "(n, k) \<in> set ?ls" for n k
  proof -
    note mem = that
    obtain i where i: "i < length ?ls" "?ls ! i = (n, k)" using mem by (auto simp: in_set_conv_nth)
    show ?thesis using at[OF i(1)] i(2) by (simp add: sigil_kind_pack)
  qed
  ultimately show ?thesis using names none by blast
qed


theorem pins_are_seed_loci_witness:
  "\<exists>c s. cook door_doc = Inr c \<and> canon_pin c ''brass'' = Some s \<and> sigil_kind s = Some Relic \<and> canon_pin c ''key'' = None"
proof -
  obtain c where c: "cook door_doc = Inr c" by (simp add: door_doc_def key_law_def cook_run canon_run)
  have ls: "loci (doc_seed door_doc) = [(''hero'', Actor), (''brass'', Relic)]" "doc_seed door_doc \<noteq> []"
    by (simp_all add: door_doc_def)
  from pins_are_seed_loci[OF c ls(2)] show ?thesis using c by (auto simp: ls)
qed

text \<open>
  The comment of \<open>cook\<close> says that unbound \<open>Name\<close> slots fail.  They do in laws and affordances
  of a seeded document; the slots of rite ops are not resolved when the rite is cooked, so a rite
  that writes to a name no seed binds cooks, and its name stays unbound.
\<close>

theorem unbound_rite_slot_cooks:
  "\<exists>c. cook ghost_doc = Inr c \<and> canon_pin c ''ghost'' = None
     \<and> (\<exists>r x. cn_rites c = [r] \<and> rc_instrs (cr_chunk r) = [x, \<lparr>ri_pc = 1, ri_op = Halt Success\<rparr>]
          \<and> ri_op x = Setq (NameSlot ''ghost'') ''hp'' 1)"
  by (simp add: ghost_doc_def cook_run canon_run cfg_run)

text \<open>
  A law may mention a rite that no diff declares.  A mentioned affordance gets an empty row in its
  table, a mentioned rite does not: its name has an id and the id has no row.
\<close>

theorem undeclared_rite_has_no_row:
  "\<exists>c. cook ghost_rite_doc = Inr c \<and> canon_rite_id c ''ghost'' = Some 0 \<and> cn_rites c = []"
  by (simp add: ghost_rite_doc_def cook_run canon_run)

section \<open>Interning equal predicates\<close>

lemma unique_preds_step:
  "unique_preds ps u r = (u', r') \<Longrightarrow> length u + length ps \<le> 65536 \<Longrightarrow> distinct u \<Longrightarrow>
   (\<exists>ext. u' = u @ ext) \<and> distinct u' \<and> length u' \<le> length u + length ps
   \<and> (\<exists>new. r' = r @ new \<and> list_all2 (\<lambda>p i. nth_opt u' i = Some p) ps new)"
proof (induction ps u r rule: unique_preds.induct)
  case (2 p ps u r)
  show ?case
  proof (cases "find_index (\<lambda>known. known = p) u")
    case (Some i)
    have i: "i < length u" "u ! i = p" using find_index_Some[OF Some] by auto
    have m: "i mod 65536 = i" using i(1) "2.prems"(2) by simp
    have "unique_preds ps u (r @ [i]) = (u', r')" using "2.prems"(1) Some m by simp
    with "2.IH"(2)[OF Some] m "2.prems"(2,3) obtain ext new where
      h: "u' = u @ ext" "distinct u'" "length u' \<le> length u + length ps" "r' = (r @ [i]) @ new"
        "list_all2 (\<lambda>p i. nth_opt u' i = Some p) ps new" by auto
    have "nth_opt u' i = Some p" using i h(1) by (simp add: nth_opt_def nth_append)
    then show ?thesis using h by (intro conjI exI[of _ ext] exI[of _ "i # new"]) auto
  next
    case None
    have m: "length u mod 65536 = length u" using "2.prems"(2) by simp
    have "unique_preds ps (u @ [p]) (r @ [length u]) = (u', r')" using "2.prems"(1) None m by simp
    moreover have "p \<notin> set u" using None by (auto simp: find_index_None)
    ultimately obtain ext new where
      h: "u' = (u @ [p]) @ ext" "distinct u'" "length u' \<le> Suc (length u + length ps)"
        "r' = (r @ [length u]) @ new" "list_all2 (\<lambda>p i. nth_opt u' i = Some p) ps new"
      using "2.IH"(1)[OF None] m "2.prems"(2,3) by auto
    have "nth_opt u' (length u) = Some p" using h(1) by (simp add: nth_opt_def nth_append)
    then show ?thesis using h by (intro conjI exI[of _ "p # ext"] exI[of _ "length u # new"]) auto
  qed
qed simp

text \<open>\<open>in_table c i\<close>: the predicate id \<open>i\<close> has a row.\<close>

definition preds_in :: "canon \<Rightarrow> bool" where
  "preds_in c \<longleftrightarrow>
     (\<forall>l \<in> set (cn_laws c). cl_when l < length (cn_preds c)
        \<and> (\<forall>i. cooked_body_pred (cl_body l) = Some i \<longrightarrow> i < length (cn_preds c)))
   \<and> (\<forall>a \<in> set (cn_affordances c). \<forall>i \<in> set (ca_requires a). i < length (cn_preds c))
   \<and> (\<forall>r \<in> set (cn_rites c). \<forall>i \<in> snd ` set (cr_guards r). i < length (cn_preds c))"

text \<open>
  Interning equal predicates changes no meaning.  Afterwards no two predicate rows are equal, the
  number saved is reported, and every predicate a law, an affordance or a rite guard refers to is the
  program it referred to before.
\<close>

theorem intern_predicates_sound:
  assumes "intern_predicates c = (saved, c')" and "length (cn_preds c) \<le> 65536" and "preds_in c"
  shows "distinct (cn_preds c') \<and> saved + length (cn_preds c') = length (cn_preds c)
    \<and> list_all2 (\<lambda>l l'. cl_id l' = cl_id l \<and> cl_name l' = cl_name l \<and> canon_pred c' (cl_when l') = canon_pred c (cl_when l)
        \<and> map_option (canon_pred c') (cooked_body_pred (cl_body l')) = map_option (canon_pred c) (cooked_body_pred (cl_body l)))
        (cn_laws c) (cn_laws c')
    \<and> list_all2 (\<lambda>a a'. ca_id a' = ca_id a \<and> ca_name a' = ca_name a
        \<and> map (canon_pred c') (ca_requires a') = map (canon_pred c) (ca_requires a)) (cn_affordances c) (cn_affordances c')
    \<and> list_all2 (\<lambda>r r'. cr_id r' = cr_id r \<and> cr_chunk r' = cr_chunk r
        \<and> (\<forall>pc. map_option (canon_pred c') (bt_get (cr_guards r') pc) = map_option (canon_pred c) (bt_get (cr_guards r) pc)))
        (cn_rites c) (cn_rites c')"
proof -
  obtain u r where u: "unique_preds (cn_preds c) [] [] = (u, r)" by (metis surj_pair)
  let ?f = "\<lambda>i. r ! i"
  have c': "saved = length (cn_preds c) - length u" "c' = c\<lparr>cn_preds := u, cn_laws := map (remap_law ?f) (cn_laws c),
      cn_affordances := map (remap_affordance ?f) (cn_affordances c), cn_rites := map (remap_rite ?f) (cn_rites c)\<rparr>"
    using assms(1) by (simp_all add: intern_predicates_def u Let_def)
  have U: "distinct u" "length u \<le> length (cn_preds c)" "list_all2 (\<lambda>p i. nth_opt u i = Some p) (cn_preds c) r"
    using unique_preds_step[OF u] assms(2) by auto
  have at: "canon_pred c' (?f i) = canon_pred c i" if "i < length (cn_preds c)" for i
    using list_all2_nthD[OF U(3) that] that by (simp add: canon_pred_def c'(2) nth_opt_def)
  have laws: "list_all2 (\<lambda>l l'. cl_id l' = cl_id l \<and> cl_name l' = cl_name l \<and> canon_pred c' (cl_when l') = canon_pred c (cl_when l)
        \<and> map_option (canon_pred c') (cooked_body_pred (cl_body l')) = map_option (canon_pred c) (cooked_body_pred (cl_body l)))
        (cn_laws c) (map (remap_law ?f) (cn_laws c))"
  proof (rule list_all2_all_nthI, goal_cases)
    case (2 k)
    let ?l = "cn_laws c ! k"
    have i: "cl_when ?l < length (cn_preds c)" "\<forall>i. cooked_body_pred (cl_body ?l) = Some i \<longrightarrow> i < length (cn_preds c)"
      using assms(3) nth_mem[OF 2] by (simp_all add: preds_in_def)
    have "cooked_body_pred (remap_body ?f b) = map_option ?f (cooked_body_pred b)" for b by (cases b) simp_all
    then show ?case using 2 i at by (cases "cooked_body_pred (cl_body ?l)") (simp_all add: remap_law_def)
  qed simp
  have affs: "list_all2 (\<lambda>a a'. ca_id a' = ca_id a \<and> ca_name a' = ca_name a
        \<and> map (canon_pred c') (ca_requires a') = map (canon_pred c) (ca_requires a)) (cn_affordances c)
        (map (remap_affordance ?f) (cn_affordances c))"
  proof (rule list_all2_all_nthI, goal_cases)
    case (2 k)
    have "\<forall>i \<in> set (ca_requires (cn_affordances c ! k)). i < length (cn_preds c)"
      using assms(3) nth_mem[OF 2] by (simp add: preds_in_def)
    then show ?case using 2 at by (simp add: remap_affordance_def)
  qed simp
  have rts: "list_all2 (\<lambda>r r'. cr_id r' = cr_id r \<and> cr_chunk r' = cr_chunk r
        \<and> (\<forall>pc. map_option (canon_pred c') (bt_get (cr_guards r') pc) = map_option (canon_pred c) (bt_get (cr_guards r) pc)))
        (cn_rites c) (map (remap_rite ?f) (cn_rites c))"
  proof (rule list_all2_all_nthI, goal_cases)
    case (2 k)
    let ?g = "cr_guards (cn_rites c ! k)"
    have g: "\<forall>i \<in> snd ` set ?g. i < length (cn_preds c)"
      using assms(3) nth_mem[OF 2] by (simp add: preds_in_def)
    have "map_option (canon_pred c') (map_option ?f (bt_get ?g pc)) = map_option (canon_pred c) (bt_get ?g pc)" for pc
    proof (cases "bt_get ?g pc")
      case (Some i)
      then have "i \<in> snd ` set ?g" using bt_get_Some_in by force
      with g have "i < length (cn_preds c)" by blast
      then show ?thesis using Some at by simp
    qed simp
    then show ?case using 2 by (simp add: remap_rite_def bt_get_map)
  qed simp
  show ?thesis using U(1,2) laws affs rts by (simp add: c')
qed

definition twin_canon :: canon where
  "twin_canon =
     \<lparr>cn_laws = [\<lparr>cl_id = 0, cl_name = ''l'', cl_when = 1, cl_body = CkCap 2 1 None\<rparr>], cn_affordances = [],
      cn_rites = [], cn_beats = [],
      cn_preds = [\<lparr>prog_chunk = [OpHalt], prog_atoms = [], prog_scans = []\<rparr>,
        \<lparr>prog_chunk = [OpHalt], prog_atoms = [], prog_scans = []\<rparr>,
        \<lparr>prog_chunk = [OpNot, OpHalt], prog_atoms = [], prog_scans = []\<rparr>],
      cn_resources = [], cn_facts = [], cn_pin_names = [], cn_pin_sigils = [], cn_physics = [],
      cn_contact_tracks = [], cn_constraints = [], law_by_name = [], affordance_by_name = [],
      rite_by_name = [], resource_by_name = []\<rparr>"

theorem intern_predicates_sound_witness:
  "\<exists>c'. intern_predicates twin_canon = (1, c') \<and> map cl_when (cn_laws c') = [0]
     \<and> distinct (cn_preds c') \<and> canon_pred c' 0 = canon_pred twin_canon 1"
proof -
  let ?c = "snd (intern_predicates twin_canon)"
  have u: "unique_preds (cn_preds twin_canon) [] [] = ([\<lparr>prog_chunk = [OpHalt], prog_atoms = [], prog_scans = []\<rparr>,
        \<lparr>prog_chunk = [OpNot, OpHalt], prog_atoms = [], prog_scans = []\<rparr>], [0, 0, 1])"
    by (simp add: twin_canon_def)
  have c: "intern_predicates twin_canon = (1, ?c)"
    unfolding intern_predicates_def u by (simp add: twin_canon_def)
  have w: "map cl_when (cn_laws ?c) = [0]"
    unfolding intern_predicates_def u by (simp add: twin_canon_def Let_def remap_law_def)
  have "cn_preds ?c = [\<lparr>prog_chunk = [OpHalt], prog_atoms = [], prog_scans = []\<rparr>,
        \<lparr>prog_chunk = [OpNot, OpHalt], prog_atoms = [], prog_scans = []\<rparr>]"
    unfolding intern_predicates_def u by (simp add: Let_def)
  then have p: "canon_pred ?c 0 = canon_pred twin_canon 1"
    by (simp add: canon_pred_def twin_canon_def nth_opt_def)
  have ok: "length (cn_preds twin_canon) \<le> 65536" "preds_in twin_canon"
    by (simp_all add: twin_canon_def preds_in_def)
  have "distinct (cn_preds ?c)" by (rule conjunct1[OF intern_predicates_sound[OF c ok]])
  with c w p show ?thesis by (intro exI[of _ ?c] conjI)
qed

section \<open>Epochs\<close>


lemma fold_insert_get:
  "distinct (map fst rows) \<Longrightarrow> bt_get (fold (\<lambda>(n, i). bt_insert n i) rows m) n =
     (case map_of rows n of Some i \<Rightarrow> Some i | None \<Rightarrow> bt_get m n)"
proof (induction rows arbitrary: m)
  case (Cons a rows)
  obtain x i where a: "a = (x, i)" by (metis surj_pair)
  have d: "distinct (map fst rows)" using Cons.prems by simp
  show ?case
  proof (cases "x = n")
    case True
    then have "map_of rows n = None" using Cons.prems a by (auto simp: map_of_eq_None_iff)
    then show ?thesis using Cons.IH[OF d] True by (simp add: a bt_get_insert)
  next
    case False
    then show ?thesis using Cons.IH[OF d] by (simp add: a bt_get_insert split: option.split)
  qed
qed simp

lemma index_names_iff:
  assumes "distinct (map fst rows)"
  shows "bt_get (index_names rows) n = Some i \<longleftrightarrow> (n, i) \<in> set rows"
  using fold_insert_get[OF assms, of "[]" n] map_of_eq_Some_iff[OF assms, of n i]
  by (simp add: index_names_def split: option.splits)

lemma numbered_iff:
  assumes "distinct ns"
  shows "bt_get (index_names (numbered b ns)) n = Some i \<longleftrightarrow> nth_opt ns i = Some n \<and> i < b"
proof -
  have "distinct (map fst (zip ns [0..<length ns]))" using assms by simp
  then have "distinct (map fst (numbered b ns))"
    unfolding numbered_def by (metis distinct_map_filter)
  then show ?thesis
    by (auto simp: index_names_iff numbered_def in_set_zip nth_opt_Some_iff)
qed

lemma flat_get_map: "flat_get (map f xs) i = Some j \<longleftrightarrow> (\<exists>x. nth_opt xs i = Some x \<and> f x = Some j)"
  by (auto simp: flat_get_def nth_opt_map split: option.splits)

lemma positions_distinct:
  "(\<And>n i. g n = Some i \<longleftrightarrow> nth_opt ns i = Some n) \<Longrightarrow> distinct ns"
  unfolding distinct_conv_nth by (metis nth_opt_Some_iff option.inject)

lemma rows_by_name:
  assumes "distinct (map g xs)" and "map h xs = [0..<length xs]"
  shows "bt_get (index_names (map (\<lambda>x. (g x, h x)) xs)) n = Some j \<longleftrightarrow> nth_opt (map g xs) j = Some n"
proof -
  have h: "h (xs ! k) = k" if "k < length xs" for k using arg_cong[OF assms(2), of "\<lambda>ys. ys ! k"] that by simp
  have "distinct (map fst (map (\<lambda>x. (g x, h x)) xs))" using assms(1) by (simp add: comp_def)
  note index_names_iff[OF this, of n j]
  moreover have "(n, j) \<in> set (map (\<lambda>x. (g x, h x)) xs) \<longleftrightarrow> nth_opt (map g xs) j = Some n"
  proof
    assume "nth_opt (map g xs) j = Some n"
    then have j: "j < length xs" "g (xs ! j) = n" by (auto simp: nth_opt_Some_iff)
    then have "(n, j) = (g (xs ! j), h (xs ! j))" using h by simp
    then show "(n, j) \<in> set (map (\<lambda>x. (g x, h x)) xs)"
      unfolding set_map using j(1) by (intro image_eqI[of _ _ "xs ! j"]) simp_all
  qed (use h in \<open>auto simp: in_set_conv_nth nth_opt_Some_iff\<close>)
  ultimately show ?thesis by simp
qed

text \<open>
  Epochs keep names.  Between any old tables and newly cooked ones, an old id is mapped to a new id
  exactly when the row at the new id carries the name of the row at the old id.  Resource ids that no
  longer fit a byte and fact ids that no longer fit two are dropped.
\<close>

theorem epoch_keeps_names:
  assumes "cook doc = Inr b"
  shows "(epoch_resource (epoch_between a b) i = Some j \<longleftrightarrow>
            j < 256 \<and> (\<exists>n. nth_opt (cn_resources a) i = Some n \<and> nth_opt (cn_resources b) j = Some n))
    \<and> (epoch_affordance (epoch_between a b) i = Some j \<longleftrightarrow>
            (\<exists>n. nth_opt (map ca_name (cn_affordances a)) i = Some n \<and> nth_opt (map ca_name (cn_affordances b)) j = Some n))
    \<and> (epoch_rite (epoch_between a b) i = Some j \<longleftrightarrow>
            (\<exists>n. nth_opt (map cr_name (cn_rites a)) i = Some n \<and> nth_opt (map cr_name (cn_rites b)) j = Some n))
    \<and> (epoch_fact (epoch_between a b) i = Some j \<longleftrightarrow>
            j < 65536 \<and> (\<exists>n. nth_opt (cn_facts a) i = Some n \<and> nth_opt (cn_facts b) j = Some n))"
proof -
  obtain d I J affs where s: "draft_ok d" "intern_seed d (doc_seed doc) = Inr I"
    "intern_grows I J" "tables_of d J affs b"
    using cook_inner_step[OF cook_cases(2)[OF assms]] by blast
  have ok: "interner_ok J" using intern_seed_step(1)[OF s(2,1)] s(3) by (simp add: intern_grows_def)
  then have dn: "dense (resources J)" "dense (facts J)" by (simp_all add: interner_ok_def)
  have c: "cn_resources b = names_by_id (resources J)" "cn_facts b = names_by_id (facts J)"
    using s(4) by (simp_all add: tables_of_def)
  have res: "distinct (cn_resources b)" and fct: "distinct (cn_facts b)"
    unfolding c by (rule positions_distinct[OF dense_names[symmetric]], rule dn)+
  note ids = cooked_ids[OF assms]
  have aff: "distinct (map ca_name (cn_affordances b))"
    by (rule positions_distinct[of "canon_affordance_id b"]) (use ids in blast)
  have rts: "distinct (map cr_name (cn_rites b))"
    unfolding distinct_conv_nth using ids by (metis nth_opt_Some_iff option.inject)
  note A = rows_by_name[OF aff conjunct1[OF conjunct2[OF conjunct2[OF ids]]]]
  have rid: "map cr_id (cn_rites b) = [0..<length (cn_rites b)]" using ids by blast
  show ?thesis
    unfolding epoch_resource_def epoch_affordance_def epoch_rite_def epoch_fact_def epoch_between_def Let_def
      epoch_map.simps flat_get_map numbered_iff[OF res] numbered_iff[OF fct] A rows_by_name[OF rts rid]
    by (auto simp: nth_opt_map)
qed

theorem epoch_keeps_names_witness:
  "\<exists>b. cook door_doc = Inr b \<and> epoch_affordance (epoch_between b b) 1 = Some 1"
proof -
  obtain b where b: "cook door_doc = Inr b" "nth_opt (map ca_name (cn_affordances b)) 1 = Some ''Wall''"
    by (simp add: door_doc_def key_law_def cook_run canon_run)
  then show ?thesis using epoch_keeps_names[OF b(1), of b 1 1] by blast
qed

end
