(* ===== verification/Codec.thy ===== *)
theory Codec
  imports CoreBody
begin

text \<open>
  Little-endian byte codecs.  The crates that write bytes each have a private \<open>Buf\<close> and \<open>Reader\<close>;
  the shapes they share are here: a writer appends bytes, a reader is given the unread suffix of its
  input and returns a value and what is left, or its crate's error.  \<open>codec\<close> is the contract of a
  writer and its reader; the primitive ones are interpreted below and composite ones are derived
  inside the locale.
\<close>

named_theorems codec_simps \<open>reading back what a writer wrote\<close>
named_theorems codec_dests \<open>what a successful read says about its input\<close>

section \<open>Readers\<close>

type_synonym ('e, 'a) reader = "byte list \<Rightarrow> 'e + 'a \<times> byte list"

definition andthen :: "('e, 'a) reader \<Rightarrow> ('a \<Rightarrow> ('e, 'b) reader) \<Rightarrow> ('e, 'b) reader" where
  "andthen r f bs = rbind (r bs) (\<lambda>(x, rest). f x rest)"

definition give :: "'a \<Rightarrow> ('e, 'a) reader" where
  "give x bs = Inr (x, bs)"

definition refuse :: "'e \<Rightarrow> ('e, 'a) reader" where
  "refuse e bs = Inl e"

definition take_bytes :: "'e \<Rightarrow> nat \<Rightarrow> ('e, byte list) reader" where
  "take_bytes e n bs = (if length bs < n then Inl e else Inr (take n bs, drop n bs))"

definition put_uint :: "nat \<Rightarrow> nat \<Rightarrow> byte list" where
  "put_uint n x = le_bytes n x"

definition get_uint :: "nat \<Rightarrow> 'e \<Rightarrow> ('e, nat) reader" where
  "get_uint n e = andthen (take_bytes e n) (\<lambda>b. give (le_value b))"

definition put_u8 :: "nat \<Rightarrow> byte list" where
  "put_u8 x = put_uint 1 x"

definition get_u8 :: "'e \<Rightarrow> ('e, nat) reader" where
  "get_u8 e = get_uint 1 e"

definition put_u16 :: "nat \<Rightarrow> byte list" where
  "put_u16 x = put_uint 2 x"

definition get_u16 :: "'e \<Rightarrow> ('e, nat) reader" where
  "get_u16 e = get_uint 2 e"

definition put_u32 :: "nat \<Rightarrow> byte list" where
  "put_u32 x = put_uint 4 x"

definition get_u32 :: "'e \<Rightarrow> ('e, nat) reader" where
  "get_u32 e = get_uint 4 e"

definition put_u64 :: "nat \<Rightarrow> byte list" where
  "put_u64 x = put_uint 8 x"

definition get_u64 :: "'e \<Rightarrow> ('e, nat) reader" where
  "get_u64 e = get_uint 8 e"

definition put_i32 :: "int \<Rightarrow> byte list" where
  "put_i32 x = put_uint 4 (nat (x mod 2 ^ 32))"

definition get_i32 :: "'e \<Rightarrow> ('e, int) reader" where
  "get_i32 e = andthen (take_bytes e 4) (\<lambda>b. give (wrap32 (int (le_value b))))"

definition put_i16 :: "int \<Rightarrow> byte list" where
  "put_i16 x = put_uint 2 (nat (x mod 2 ^ 16))"

definition get_i16 :: "'e \<Rightarrow> ('e, int) reader" where
  "get_i16 e = andthen (take_bytes e 2) (\<lambda>b. give (signed_take_bit 15 (int (le_value b))))"

definition put_sigil :: "sigil \<Rightarrow> byte list" where
  "put_sigil s = put_uint 16 (unat s)"

definition get_sigil :: "'e \<Rightarrow> ('e, sigil) reader" where
  "get_sigil e = andthen (take_bytes e 16) (\<lambda>b. give (word_of_nat (le_value b)))"

definition put_opt_sigil :: "sigil option \<Rightarrow> byte list" where
  "put_opt_sigil s = (case s of None \<Rightarrow> [0] | Some v \<Rightarrow> 1 # put_sigil v)"

definition get_opt_sigil :: "'e \<Rightarrow> ('e, sigil option) reader" where
  "get_opt_sigil e = andthen (get_u8 e) (\<lambda>t.
     if t = 0 then give None
     else if t = 1 then andthen (get_sigil e) (\<lambda>s. give (Some s))
     else refuse e)"

fun get_n :: "nat \<Rightarrow> ('e, 'a) reader \<Rightarrow> ('e, 'a list) reader" where
  "get_n 0 r = give []"
| "get_n (Suc n) r = andthen r (\<lambda>x. andthen (get_n n r) (\<lambda>xs. give (x # xs)))"

text \<open>A tag byte before a value that may be missing, and a boolean byte; a third tag is refused.\<close>

definition put_option :: "('a \<Rightarrow> byte list) \<Rightarrow> 'a option \<Rightarrow> byte list" where
  "put_option put x = (case x of None \<Rightarrow> put_u8 0 | Some v \<Rightarrow> put_u8 1 @ put v)"

definition get_option :: "'e \<Rightarrow> 'e \<Rightarrow> ('e, 'a) reader \<Rightarrow> ('e, 'a option) reader" where
  "get_option e tag r = andthen (get_u8 e) (\<lambda>t.
     if t = 0 then give None else if t = 1 then andthen r (\<lambda>v. give (Some v)) else refuse tag)"

definition put_bool :: "bool \<Rightarrow> byte list" where
  "put_bool b = put_u8 (if b then 1 else 0)"

definition get_bool :: "'e \<Rightarrow> 'e \<Rightarrow> ('e, bool) reader" where
  "get_bool e tag = andthen (get_u8 e) (\<lambda>t. if t = 0 then give False else if t = 1 then give True else refuse tag)"

text \<open>\<open>count_capped\<close>: a count is refused when the elements it announces cannot fit what is left.\<close>

definition get_count :: "'e \<Rightarrow> nat \<Rightarrow> ('e, nat) reader" where
  "get_count e elem = andthen (get_u32 e) (\<lambda>n bs.
     if elem = 0 \<or> n > length bs div elem then Inl e else Inr (n, bs))"

section \<open>Writers and readers\<close>

text \<open>
  A writer \<open>put\<close> and a reader \<open>get\<close> agree on the values in \<open>ok\<close>: what is written is read back with
  the rest untouched, and whatever is read was written that way.
\<close>

locale codec =
  fixes ok :: "'a \<Rightarrow> bool" and put :: "'a \<Rightarrow> byte list" and get :: "('e, 'a) reader"
  assumes get_put: "ok x \<Longrightarrow> get (put x @ rest) = Inr (x, rest)"
    and get_sound: "get bs = Inr (x, rest) \<Longrightarrow> ok x \<and> bs = put x @ rest"
begin

lemma put_inj:
  assumes "ok x" "ok y" "put x @ a = put y @ b"
  shows "x = y \<and> a = b"
proof -
  have "get (put y @ b) = Inr (x, a)" using get_put[OF assms(1), of a] assms(3) by metis
  with get_put[OF assms(2), of b] show ?thesis by simp
qed

lemma get_n_put:
  "\<forall>x \<in> set xs. ok x \<Longrightarrow> get_n (length xs) get (concat (map put xs) @ rest) = Inr (xs, rest)"
  by (induction xs) (simp_all add: andthen_def give_def get_put)

lemma get_put_end: "ok x \<Longrightarrow> get (put x) = Inr (x, [])"
  using get_put[of x "[]"] by simp

lemma get_n_put_end: "\<forall>x \<in> set xs. ok x \<Longrightarrow> get_n (length xs) get (concat (map put xs)) = Inr (xs, [])"
  using get_n_put[of xs "[]"] by simp

lemma get_n_sound:
  "get_n n get bs = Inr (xs, rest) \<Longrightarrow> (\<forall>x \<in> set xs. ok x) \<and> length xs = n \<and> bs = concat (map put xs) @ rest"
proof (induction n arbitrary: bs xs)
  case (Suc n)
  then obtain x bs1 ys where g: "get bs = Inr (x, bs1)" "get_n n get bs1 = Inr (ys, rest)" "xs = x # ys"
    by (auto simp: andthen_def give_def rbind_Inr_iff)
  from get_sound[OF g(1)] Suc.IH[OF g(2)] show ?case by (simp add: g(3))
qed (simp add: give_def)

end

lemma andthen_Inr_iff:
  "andthen r f bs = Inr y \<longleftrightarrow> (\<exists>x mid. r bs = Inr (x, mid) \<and> f x mid = Inr y)"
  by (auto simp: andthen_def rbind_Inr_iff)

lemma take_bytes_append: "length b = n \<Longrightarrow> take_bytes e n (b @ rest) = Inr (b, rest)"
  by (simp add: take_bytes_def)

lemma take_bytes_sound: "take_bytes e n bs = Inr (b, rest) \<Longrightarrow> length b = n \<and> bs = b @ rest"
  by (auto simp: take_bytes_def split: if_splits)

lemma length_put_uint [simp]: "length (put_uint n x) = n"
  by (simp add: put_uint_def)

lemma le_value_put: "x < 256 ^ n \<Longrightarrow> le_value (put_uint n x) = x"
  by (simp add: put_uint_def le_value_bytes)

lemma put_uint_value: "length b = n \<Longrightarrow> put_uint n (le_value b) = b"
  using le_bytes_value[of b] by (simp add: put_uint_def)

lemma get_uint_put: "x < 256 ^ n \<Longrightarrow> get_uint n e (put_uint n x @ rest) = Inr (x, rest)"
  by (simp add: get_uint_def andthen_def give_def take_bytes_append le_value_put)

lemma get_uint_sound: "get_uint n e bs = Inr (x, rest) \<Longrightarrow> x < 256 ^ n \<and> bs = put_uint n x @ rest"
proof -
  assume "get_uint n e bs = Inr (x, rest)"
  then obtain b where b: "take_bytes e n bs = Inr (b, rest)" "x = le_value b"
    by (auto simp: get_uint_def andthen_Inr_iff give_def)
  from take_bytes_sound[OF b(1)] show ?thesis
    using le_bytes_value[of b] le_value_less[of b] b(2) by (auto simp: put_uint_def)
qed

interpretation c_u8: codec "\<lambda>x. x < 256" put_u8 "get_u8 e"
  by unfold_locales (auto simp: put_u8_def get_u8_def get_uint_put dest: get_uint_sound)

interpretation c_u16: codec "\<lambda>x. x < 65536" put_u16 "get_u16 e"
  by unfold_locales (auto simp: put_u16_def get_u16_def get_uint_put dest: get_uint_sound)

interpretation c_u32: codec "\<lambda>x. x < 2 ^ 32" put_u32 "get_u32 e"
  by unfold_locales (auto simp: put_u32_def get_u32_def get_uint_put dest: get_uint_sound)

interpretation c_u64: codec "\<lambda>x. x < 2 ^ 64" put_u64 "get_u64 e"
  by unfold_locales (auto simp: put_u64_def get_u64_def get_uint_put dest: get_uint_sound)

lemma i32_bytes: "in_i32 x \<Longrightarrow> wrap32 (x mod 4294967296) = x"
  using signed_take_bit_take_bit[of 31 32 x] wrap32_id[of x] by (simp add: wrap32_def take_bit_eq_mod)

interpretation c_i32: codec in_i32 put_i32 "get_i32 e"
proof unfold_locales
  fix x rest assume "in_i32 x"
  moreover have "nat (x mod 2 ^ 32) < 256 ^ 4" by (simp add: nat_less_iff)
  note le_value_put[OF this]
  ultimately show "get_i32 e (put_i32 x @ rest) = Inr (x, rest)"
    by (simp add: get_i32_def andthen_def give_def put_i32_def take_bytes_append i32_bytes)
next
  fix bs x rest assume "get_i32 e bs = Inr (x, rest)"
  then obtain b where b: "take_bytes e 4 bs = Inr (b, rest)" "x = wrap32 (int (le_value b))"
    by (auto simp: get_i32_def andthen_Inr_iff give_def)
  note t = take_bytes_sound[OF b(1)]
  have "int (le_value b) < 2 ^ 32" using le_value_less[of b] t by simp
  then have "nat (x mod 2 ^ 32) = le_value b"
    using take_bit_signed_take_bit[of 32 31 "int (le_value b)"] by (simp add: b(2) wrap32_def take_bit_eq_mod)
  then show "in_i32 x \<and> bs = put_i32 x @ rest"
    using t b(2) by (simp add: put_i32_def put_uint_value)
qed

definition in_i16 :: "int \<Rightarrow> bool" where
  "in_i16 x \<longleftrightarrow> - 32768 \<le> x \<and> x < 32768"

lemma i16_bytes: "in_i16 x \<Longrightarrow> signed_take_bit 15 (x mod 65536) = x"
  using signed_take_bit_take_bit[of 15 16 x] signed_take_bit_int_eq_self[of 15 x] by (simp add: in_i16_def take_bit_eq_mod)

interpretation c_i16: codec in_i16 put_i16 "get_i16 e"
proof unfold_locales
  fix x rest assume "in_i16 x"
  moreover have "nat (x mod 2 ^ 16) < 256 ^ 2" by (simp add: nat_less_iff)
  note le_value_put[OF this]
  ultimately show "get_i16 e (put_i16 x @ rest) = Inr (x, rest)"
    by (simp add: get_i16_def andthen_def give_def put_i16_def take_bytes_append i16_bytes)
next
  fix bs x rest assume "get_i16 e bs = Inr (x, rest)"
  then obtain b where b: "take_bytes e 2 bs = Inr (b, rest)" "x = signed_take_bit 15 (int (le_value b))"
    by (auto simp: get_i16_def andthen_Inr_iff give_def)
  note t = take_bytes_sound[OF b(1)]
  have v: "int (le_value b) < 2 ^ 16" using le_value_less[of b] t by simp
  then have "nat (x mod 2 ^ 16) = le_value b"
    using take_bit_signed_take_bit[of 16 15 "int (le_value b)"] by (simp add: b(2) take_bit_eq_mod)
  moreover have "in_i16 x"
    using signed_take_bit_int_greater_eq_minus_exp[of 15 "int (le_value b)"] signed_take_bit_int_less_exp[of 15 "int (le_value b)"]
    by (simp add: in_i16_def b(2))
  ultimately show "in_i16 x \<and> bs = put_i16 x @ rest" using t by (simp add: put_i16_def put_uint_value)
qed

interpretation c_sigil: codec "\<lambda>_. True" put_sigil "get_sigil e"
proof unfold_locales
  fix x :: sigil and rest
  have "unat x < 2 ^ LENGTH(128)" by (rule unsigned_less)
  then have "unat x < 256 ^ 16" by (simp del: unsigned_less)
  then show "get_sigil e (put_sigil x @ rest) = Inr (x, rest)"
    by (simp add: get_sigil_def andthen_def give_def put_sigil_def take_bytes_append le_value_put)
next
  fix bs x rest assume "get_sigil e bs = Inr (x, rest)"
  then obtain b where b: "take_bytes e 16 bs = Inr (b, rest)" "x = word_of_nat (le_value b)"
    by (auto simp: get_sigil_def andthen_Inr_iff give_def)
  note t = take_bytes_sound[OF b(1)]
  have "le_value b < 2 ^ 128" using le_value_less[of b] t by simp
  then have "unat x = le_value b" by (simp add: b(2) unat_of_nat)
  then show "True \<and> bs = put_sigil x @ rest"
    using t by (simp add: put_sigil_def put_uint_value)
qed

interpretation c_opt_sigil: codec "\<lambda>_. True" put_opt_sigil "get_opt_sigil e"
proof unfold_locales
  fix x rest
  have t: "get_u8 e (0 # r) = Inr (0, r)" "get_u8 e (1 # r) = Inr (1, r)" for r
    using c_u8.get_put[of 0 e r] c_u8.get_put[of 1 e r] by (simp_all add: put_u8_def put_uint_def)
  show "get_opt_sigil e (put_opt_sigil x @ rest) = Inr (x, rest)"
    by (cases x) (simp_all add: get_opt_sigil_def put_opt_sigil_def andthen_def give_def t c_sigil.get_put)
next
  fix bs x rest assume "get_opt_sigil e bs = Inr (x, rest)"
  then show "True \<and> bs = put_opt_sigil x @ rest"
    by (auto simp: put_u8_def put_uint_def get_opt_sigil_def andthen_Inr_iff give_def refuse_def put_opt_sigil_def split: if_splits
        dest!: c_u8.get_sound c_sigil.get_sound)
qed

interpretation c_bool: codec "\<lambda>_. True" put_bool "get_bool e tag"
  by unfold_locales
    (auto simp: put_bool_def get_bool_def andthen_def rbind_Inr_iff give_def refuse_def c_u8.get_put split: if_splits dest!: c_u8.get_sound)

context codec begin

lemma option_codec: "codec (case_option True ok) (put_option put) (get_option e tag get)"
proof unfold_locales
  fix x rest assume "case_option True ok x"
  then show "get_option e tag get (put_option put x @ rest) = Inr (x, rest)"
    by (cases x) (simp_all add: put_option_def get_option_def andthen_def give_def c_u8.get_put get_put)
next
  fix bs x rest assume "get_option e tag get bs = Inr (x, rest)"
  then show "case_option True ok x \<and> bs = put_option put x @ rest"
    by (auto simp: put_option_def get_option_def andthen_Inr_iff give_def refuse_def split: if_splits dest!: c_u8.get_sound get_sound)
qed

end

lemma get_count_put:
  "n < 2 ^ 32 \<Longrightarrow> 0 < k \<Longrightarrow> n * k \<le> length rest \<Longrightarrow> get_count e k (put_u32 n @ rest) = Inr (n, rest)"
  by (simp add: get_count_def andthen_def c_u32.get_put not_less less_eq_div_iff_mult_less_eq)

lemma get_count_sound:
  "get_count e k bs = Inr (n, rest) \<Longrightarrow> n < 2 ^ 32 \<and> n * k \<le> length rest \<and> bs = put_u32 n @ rest"
  by (cases "k = 0") (auto simp: get_count_def andthen_Inr_iff not_less less_eq_div_iff_mult_less_eq 
      split: if_splits dest!: c_u32.get_sound)

lemmas codec_put [codec_simps] = c_u8.get_put c_u16.get_put c_u32.get_put c_u64.get_put c_i32.get_put c_i16.get_put c_i16.get_n_put
  c_sigil.get_put c_opt_sigil.get_put c_u16.get_n_put c_i32.get_n_put c_sigil.get_n_put get_count_put take_bytes_append

lemmas codec_put_end [codec_simps] = c_u8.get_put_end c_u16.get_put_end c_u32.get_put_end c_u64.get_put_end
  c_i32.get_put_end c_i16.get_put_end c_sigil.get_put_end c_opt_sigil.get_put_end c_u16.get_n_put_end

lemmas codec_sound [codec_dests] = c_u8.get_sound c_u16.get_sound c_u32.get_sound c_u64.get_sound c_i32.get_sound
  c_sigil.get_sound c_opt_sigil.get_sound c_u16.get_n_sound c_i32.get_n_sound c_sigil.get_n_sound get_count_sound
  take_bytes_sound c_i16.get_sound c_i16.get_n_sound

lemma length_put [simp]: "length (put_i32 x) = 4" "length (put_sigil s) = 16" "length (put_u8 n) = 1"
  "length (put_u16 n) = 2" "length (put_u32 n) = 4" "length (put_u64 n) = 8"
  by (simp_all add: put_i32_def put_sigil_def put_u8_def put_u16_def put_u32_def put_u64_def)

lemma length_concat_same: "\<forall>x \<in> set xs. length (f x) = k \<Longrightarrow> length (concat (map f xs)) = length xs * k"
  by (induction xs) simp_all

end
