(* ===== verification/TraceEvent.thy ===== *)
theory TraceEvent
  imports Codec
begin

text \<open>
  \<open>klotho-trace/src/event.rs\<close>, \<open>encode.rs\<close>: admitted events, their frozen little-endian encoding and
  its decoder.  The decoder's cursor is the unread suffix of its input, so \<open>remaining\<close> is its length.
  \<open>event_ok\<close> says that every field is in the range of its Rust type and that a snapshot's columns
  have equal lengths that fit \<open>u32\<close>.
\<close>

section \<open>Events\<close>

datatype proposal_kind = PkPlayer | PkMind | PkSpace | PkMotion | PkInfer | PkPhys | PkResidency

definition proposal_kind_as_u8 :: "proposal_kind \<Rightarrow> nat" where
  "proposal_kind_as_u8 k =
     (case k of PkPlayer \<Rightarrow> 1 | PkMind \<Rightarrow> 2 | PkSpace \<Rightarrow> 3 | PkMotion \<Rightarrow> 4 | PkInfer \<Rightarrow> 5 | PkPhys \<Rightarrow> 6 | PkResidency \<Rightarrow> 7)"

definition proposal_kind_from_u8 :: "nat \<Rightarrow> proposal_kind option" where
  "proposal_kind_from_u8 v =
     (if v = 1 then Some PkPlayer else if v = 2 then Some PkMind else if v = 3 then Some PkSpace
      else if v = 4 then Some PkMotion else if v = 5 then Some PkInfer else if v = 6 then Some PkPhys
      else if v = 7 then Some PkResidency else None)"

datatype pose_reason = PrInteract | PrLand | PrPick | PrDrop | PrHinge

definition pose_reason_as_u8 :: "pose_reason \<Rightarrow> nat" where
  "pose_reason_as_u8 r = (case r of PrInteract \<Rightarrow> 1 | PrLand \<Rightarrow> 2 | PrPick \<Rightarrow> 3 | PrDrop \<Rightarrow> 4 | PrHinge \<Rightarrow> 5)"

definition pose_reason_from_u8 :: "nat \<Rightarrow> pose_reason option" where
  "pose_reason_from_u8 v =
     (if v = 1 then Some PrInteract else if v = 2 then Some PrLand else if v = 3 then Some PrPick
      else if v = 4 then Some PrDrop else if v = 5 then Some PrHinge else None)"

datatype rite_end = ReSuccess | ReFail | ReFailBudget | ReEvicted

definition rite_end_as_u8 :: "rite_end \<Rightarrow> nat" where
  "rite_end_as_u8 e = (case e of ReSuccess \<Rightarrow> 0 | ReFail \<Rightarrow> 1 | ReFailBudget \<Rightarrow> 2 | ReEvicted \<Rightarrow> 3)"

definition rite_end_from_u8 :: "nat \<Rightarrow> rite_end option" where
  "rite_end_from_u8 v =
     (if v = 0 then Some ReSuccess else if v = 1 then Some ReFail else if v = 2 then Some ReFailBudget
      else if v = 3 then Some ReEvicted else None)"

record island_snap =
  is_island :: nat
  is_members :: "sigil list"
  is_poses :: "pose list"
  is_vels :: "vel3 list"
  is_yaw_rates :: "int list"
  is_sleep :: "nat list"

datatype trace_error = SnapLen | BadEvent

definition island_snap_new ::
    "nat \<Rightarrow> sigil list \<Rightarrow> pose list \<Rightarrow> vel3 list \<Rightarrow> int list \<Rightarrow> nat list \<Rightarrow> trace_error + island_snap" where
  "island_snap_new i ms ps vs ys ts =
     (let n = length ms in
      if length ps \<noteq> n \<or> length vs \<noteq> n \<or> length ys \<noteq> n \<or> length ts \<noteq> n then Inl SnapLen
      else Inr \<lparr>is_island = i, is_members = ms, is_poses = ps, is_vels = vs, is_yaw_rates = ys, is_sleep = ts\<rparr>)"

datatype trace_body =
    RiteBegan sigil nat "sigil option"
  | RiteAdvanced sigil nat nat nat
  | RiteEnded sigil nat rite_end
  | QtyChanged sigil nat int int
  | IslandSnap island_snap
  | PoseCommitted sigil pose pose_reason
  | SaveRequested
  | Learned sigil nat
  | RelAdded sigil nat sigil
  | RelDeleted sigil nat sigil
  | Emitted nat sigil "sigil option"
  | MotionActionAuthorized sigil nat nat nat
  | ConstraintBroken sigil sigil sigil int nat
  | MotionContactAdmitted sigil digest sigil nat nat nat nat
  | Uttered sigil "nat list"
  | PlaceLoaded sigil nat
  | PlaceEvicted sigil
  | Spawned nat sigil pose
  | Despawned sigil nat

record trace_event =
  ev_tick :: tick
  ev_body :: trace_body

section \<open>Ranges\<close>

definition pose_ok :: "pose \<Rightarrow> bool" where
  "pose_ok p \<longleftrightarrow> in_i32 (px p) \<and> in_i32 (py p) \<and> in_i32 (pz p) \<and> in_i32 (pyaw p) \<and> in_i32 (ppitch p) \<and> in_i32 (proll p)"

definition vel_ok :: "vel3 \<Rightarrow> bool" where
  "vel_ok v \<longleftrightarrow> in_i32 (v3x v) \<and> in_i32 (v3y v) \<and> in_i32 (v3z v)"

definition u16_ok :: "nat \<Rightarrow> bool" where
  "u16_ok n \<longleftrightarrow> n < 65536"

definition u8_ok :: "nat \<Rightarrow> bool" where
  "u8_ok n \<longleftrightarrow> n < 256"

definition u64_ok :: "nat \<Rightarrow> bool" where
  "u64_ok n \<longleftrightarrow> n < 2 ^ 64"

definition u32_ok :: "nat \<Rightarrow> bool" where
  "u32_ok n \<longleftrightarrow> n < 2 ^ 32"

definition snap_ok :: "island_snap \<Rightarrow> bool" where
  "snap_ok s \<longleftrightarrow> u16_ok (is_island s) \<and> u32_ok (length (is_members s))
     \<and> length (is_poses s) = length (is_members s) \<and> length (is_vels s) = length (is_members s)
     \<and> length (is_yaw_rates s) = length (is_members s) \<and> length (is_sleep s) = length (is_members s)
     \<and> list_all pose_ok (is_poses s) \<and> list_all vel_ok (is_vels s) \<and> list_all in_i32 (is_yaw_rates s)
     \<and> list_all u16_ok (is_sleep s)"

fun body_ok :: "trace_body \<Rightarrow> bool" where
  "body_ok (RiteBegan a r t) = u16_ok r"
| "body_ok (RiteAdvanced a r pc w) = (u16_ok r \<and> u16_ok pc \<and> u16_ok w)"
| "body_ok (RiteEnded a r s) = u16_ok r"
| "body_ok (QtyChanged i r t q) = (u8_ok r \<and> in_i32 t \<and> in_i32 q)"
| "body_ok (IslandSnap s) = snap_ok s"
| "body_ok (PoseCommitted s p r) = pose_ok p"
| "body_ok SaveRequested = True"
| "body_ok (Learned m f) = u16_ok f"
| "body_ok (RelAdded a r b) = u8_ok r"
| "body_ok (RelDeleted a r b) = u8_ok r"
| "body_ok (Emitted k a b) = u16_ok k"
| "body_ok (MotionActionAuthorized a r i c) = (u16_ok r \<and> u64_ok i \<and> u8_ok c)"
| "body_ok (ConstraintBroken c a b i f) = (in_i32 i \<and> u8_ok f)"
| "body_ok (MotionContactAdmitted a ins t r i c b) =
     (length ins = 32 \<and> u16_ok r \<and> u64_ok i \<and> u8_ok c \<and> u16_ok b)"
| "body_ok (Uttered s fs) = (u32_ok (length fs) \<and> list_all u16_ok fs)"
| "body_ok (PlaceLoaded p n) = u32_ok n"
| "body_ok (PlaceEvicted p) = True"
| "body_ok (Spawned t s p) = (u16_ok t \<and> pose_ok p)"
| "body_ok (Despawned s g) = u8_ok g"

definition event_ok :: "trace_event \<Rightarrow> bool" where
  "event_ok e \<longleftrightarrow> u64_ok (ev_tick e) \<and> body_ok (ev_body e)"

section \<open>Encoding\<close>

definition encode_pose :: "pose \<Rightarrow> byte list" where
  "encode_pose p = put_i32 (px p) @ put_i32 (pz p) @ put_i32 (py p) @ put_i32 (pyaw p) @ put_i32 (ppitch p) @ put_i32 (proll p)"

definition encode_vel :: "vel3 \<Rightarrow> byte list" where
  "encode_vel v = put_i32 (v3x v) @ put_i32 (v3y v) @ put_i32 (v3z v)"

definition encode_snap :: "island_snap \<Rightarrow> byte list" where
  "encode_snap s =
     put_u16 (is_island s) @ put_u32 (length (is_members s)) @ concat (map put_sigil (is_members s))
     @ concat (map encode_pose (is_poses s)) @ concat (map encode_vel (is_vels s))
     @ concat (map put_i32 (is_yaw_rates s)) @ concat (map put_u16 (is_sleep s))"

fun encode_body :: "trace_body \<Rightarrow> byte list" where
  "encode_body (RiteBegan a r t) = put_u8 1 @ put_sigil a @ put_u16 r @ put_opt_sigil t"
| "encode_body (RiteAdvanced a r pc w) = put_u8 2 @ put_sigil a @ put_u16 r @ put_u16 pc @ put_u16 w"
| "encode_body (RiteEnded a r s) = put_u8 3 @ put_sigil a @ put_u16 r @ put_u8 (rite_end_as_u8 s)"
| "encode_body (QtyChanged i r t q) = put_u8 4 @ put_sigil i @ put_u8 r @ put_i32 t @ put_i32 q"
| "encode_body (IslandSnap s) = put_u8 5 @ encode_snap s"
| "encode_body (PoseCommitted s p r) =
     put_u8 6 @ put_sigil s @ put_i32 (px p) @ put_i32 (pz p) @ put_i32 (pyaw p)
     @ put_i32 (py p) @ put_i32 (ppitch p) @ put_i32 (proll p) @ put_u8 (pose_reason_as_u8 r)"
| "encode_body SaveRequested = put_u8 7"
| "encode_body (Learned m f) = put_u8 8 @ put_sigil m @ put_u16 f"
| "encode_body (RelAdded a r b) = put_u8 9 @ put_sigil a @ put_u8 r @ put_sigil b"
| "encode_body (RelDeleted a r b) = put_u8 10 @ put_sigil a @ put_u8 r @ put_sigil b"
| "encode_body (Emitted k a b) = put_u8 11 @ put_u16 k @ put_sigil a @ put_opt_sigil b"
| "encode_body (ConstraintBroken c a b i f) =
     put_u8 19 @ put_sigil c @ put_sigil a @ put_sigil b @ put_i32 i @ put_u8 f"
| "encode_body (MotionActionAuthorized a r i c) = put_u8 18 @ put_sigil a @ put_u16 r @ put_u64 i @ put_u8 c"
| "encode_body (MotionContactAdmitted a ins t r i c b) =
     put_u8 17 @ put_sigil a @ ins @ put_sigil t @ put_u16 r @ put_u64 i @ put_u8 c @ put_u16 b"
| "encode_body (Uttered s fs) = put_u8 12 @ put_sigil s @ put_u32 (length fs) @ concat (map put_u16 fs)"
| "encode_body (PlaceLoaded p n) = put_u8 13 @ put_sigil p @ put_u32 n"
| "encode_body (PlaceEvicted p) = put_u8 14 @ put_sigil p"
| "encode_body (Spawned t s p) = put_u8 15 @ put_u16 t @ put_sigil s @ encode_pose p"
| "encode_body (Despawned s g) = put_u8 16 @ put_sigil s @ put_u8 g"

definition event_version :: nat where
  "event_version = 1"

definition encode_event :: "trace_event \<Rightarrow> byte list" where
  "encode_event e = put_u8 event_version @ put_u64 (ev_tick e) @ encode_body (ev_body e)"

section \<open>Decoding\<close>

abbreviation bad :: "(trace_error, 'a) reader" where
  "bad \<equiv> refuse BadEvent"

definition need :: "'a option \<Rightarrow> (trace_error, 'a) reader" where
  "need x = (case x of Some y \<Rightarrow> give y | None \<Rightarrow> bad)"

definition decode_pose :: "bool \<Rightarrow> (trace_error, pose) reader" where
  "decode_pose wide =
     andthen (get_i32 BadEvent) (\<lambda>x. andthen (get_i32 BadEvent) (\<lambda>z.
     andthen (get_i32 BadEvent) (\<lambda>y. andthen (get_i32 BadEvent) (\<lambda>yaw.
     andthen (if wide then andthen (get_i32 BadEvent) (\<lambda>p. andthen (get_i32 BadEvent) (\<lambda>r. give (p, r)))
              else give (0, 0)) (\<lambda>(p, r).
       give \<lparr>px = x, py = y, pz = z, pyaw = yaw, ppitch = p, proll = r\<rparr>)))))"

definition decode_vel :: "bool \<Rightarrow> (trace_error, vel3) reader" where
  "decode_vel wide =
     andthen (get_i32 BadEvent) (\<lambda>x.
       if wide then andthen (get_i32 BadEvent) (\<lambda>y. andthen (get_i32 BadEvent) (\<lambda>z.
         give \<lparr>v3x = x, v3y = y, v3z = z\<rparr>))
       else andthen (get_i32 BadEvent) (\<lambda>z. give \<lparr>v3x = x, v3y = 0, v3z = z\<rparr>))"

definition snap_layout :: "nat \<Rightarrow> nat \<Rightarrow> trace_error + bool \<times> bool" where
  "snap_layout remaining n =
     (if n = 0 then (if remaining = 0 then Inr (True, True) else Inl BadEvent)
      else if remaining mod n \<noteq> 0 then Inl BadEvent
      else if remaining div n = 30 then Inr (False, False)
      else if remaining div n = 42 then Inr (True, True)
      else Inl BadEvent)"

definition decode_snap :: "(trace_error, island_snap) reader" where
  "decode_snap =
     andthen (get_u16 BadEvent) (\<lambda>island.
     andthen (get_count BadEvent (16 + 16 + 8 + 4 + 2)) (\<lambda>n.
     andthen (get_n n (get_sigil BadEvent)) (\<lambda>members rest.
     rbind (snap_layout (length rest) n) (\<lambda>(wp, wv).
     andthen (get_n n (decode_pose wp)) (\<lambda>poses.
     andthen (get_n n (decode_vel wv)) (\<lambda>vels.
     andthen (get_n n (get_i32 BadEvent)) (\<lambda>yaws.
     andthen (get_n n (get_u16 BadEvent)) (\<lambda>sleeps rest'.
       rbind (island_snap_new island members poses vels yaws sleeps) (\<lambda>s. Inr (s, rest'))))))
     rest))))"

definition decode_committed :: "(trace_error, trace_body) reader" where
  "decode_committed =
     andthen (get_sigil BadEvent) (\<lambda>s.
     andthen (get_i32 BadEvent) (\<lambda>x. andthen (get_i32 BadEvent) (\<lambda>z. andthen (get_i32 BadEvent) (\<lambda>yaw.
     andthen (\<lambda>rest.
        (if length rest = 13 then andthen (get_i32 BadEvent) (\<lambda>y. andthen (get_i32 BadEvent) (\<lambda>p.
            andthen (get_i32 BadEvent) (\<lambda>r. give (y, p, r))))
         else if length rest = 1 then give (0, 0, 0) else bad) rest) (\<lambda>(y, p, r).
     andthen (get_u8 BadEvent) (\<lambda>t. andthen (need (pose_reason_from_u8 t)) (\<lambda>reason.
       give (PoseCommitted s \<lparr>px = x, py = y, pz = z, pyaw = yaw, ppitch = p, proll = r\<rparr> reason))))))))"

definition decode_body :: "nat \<Rightarrow> (trace_error, trace_body) reader" where
  "decode_body tag =
    (if tag = 1 then andthen (get_sigil BadEvent) (\<lambda>a. andthen (get_u16 BadEvent) (\<lambda>r.
       andthen (get_opt_sigil BadEvent) (\<lambda>t. give (RiteBegan a r t))))
     else if tag = 2 then andthen (get_sigil BadEvent) (\<lambda>a. andthen (get_u16 BadEvent) (\<lambda>r.
       andthen (get_u16 BadEvent) (\<lambda>pc. andthen (get_u16 BadEvent) (\<lambda>w. give (RiteAdvanced a r pc w)))))
     else if tag = 3 then andthen (get_sigil BadEvent) (\<lambda>a. andthen (get_u16 BadEvent) (\<lambda>r.
       andthen (get_u8 BadEvent) (\<lambda>t. andthen (need (rite_end_from_u8 t)) (\<lambda>s. give (RiteEnded a r s)))))
     else if tag = 4 then andthen (get_sigil BadEvent) (\<lambda>i. andthen (get_u8 BadEvent) (\<lambda>r.
       andthen (get_i32 BadEvent) (\<lambda>t. andthen (get_i32 BadEvent) (\<lambda>q. give (QtyChanged i r t q)))))
     else if tag = 5 then andthen decode_snap (\<lambda>s. give (IslandSnap s))
     else if tag = 6 then decode_committed
     else if tag = 7 then give SaveRequested
     else if tag = 8 then andthen (get_sigil BadEvent) (\<lambda>m. andthen (get_u16 BadEvent) (\<lambda>f. give (Learned m f)))
     else if tag = 9 then andthen (get_sigil BadEvent) (\<lambda>a. andthen (get_u8 BadEvent) (\<lambda>r.
       andthen (get_sigil BadEvent) (\<lambda>b. give (RelAdded a r b))))
     else if tag = 10 then andthen (get_sigil BadEvent) (\<lambda>a. andthen (get_u8 BadEvent) (\<lambda>r.
       andthen (get_sigil BadEvent) (\<lambda>b. give (RelDeleted a r b))))
     else if tag = 11 then andthen (get_u16 BadEvent) (\<lambda>k. andthen (get_sigil BadEvent) (\<lambda>a.
       andthen (get_opt_sigil BadEvent) (\<lambda>b. give (Emitted k a b))))
     else if tag = 19 then andthen (get_sigil BadEvent) (\<lambda>c. andthen (get_sigil BadEvent) (\<lambda>a.
       andthen (get_sigil BadEvent) (\<lambda>b. andthen (get_i32 BadEvent) (\<lambda>i.
       andthen (get_u8 BadEvent) (\<lambda>f. give (ConstraintBroken c a b i f))))))
     else if tag = 18 then andthen (get_sigil BadEvent) (\<lambda>a. andthen (get_u16 BadEvent) (\<lambda>r.
       andthen (get_u64 BadEvent) (\<lambda>i. andthen (get_u8 BadEvent) (\<lambda>c. give (MotionActionAuthorized a r i c)))))
     else if tag = 17 then andthen (get_sigil BadEvent) (\<lambda>a. andthen (take_bytes BadEvent 32) (\<lambda>ins.
       andthen (get_sigil BadEvent) (\<lambda>t. andthen (get_u16 BadEvent) (\<lambda>r. andthen (get_u64 BadEvent) (\<lambda>i.
       andthen (get_u8 BadEvent) (\<lambda>c. andthen (get_u16 BadEvent) (\<lambda>b.
         give (MotionContactAdmitted a ins t r i c b))))))))
     else if tag = 12 then andthen (get_sigil BadEvent) (\<lambda>s. andthen (get_count BadEvent 2) (\<lambda>n.
       andthen (get_n n (get_u16 BadEvent)) (\<lambda>fs. give (Uttered s fs))))
     else if tag = 13 then andthen (get_sigil BadEvent) (\<lambda>p. andthen (get_u32 BadEvent) (\<lambda>n. give (PlaceLoaded p n)))
     else if tag = 14 then andthen (get_sigil BadEvent) (\<lambda>p. give (PlaceEvicted p))
     else if tag = 15 then andthen (get_u16 BadEvent) (\<lambda>t. andthen (get_sigil BadEvent) (\<lambda>s.
       andthen (decode_pose True) (\<lambda>p. give (Spawned t s p))))
     else if tag = 16 then andthen (get_sigil BadEvent) (\<lambda>s. andthen (get_u8 BadEvent) (\<lambda>g. give (Despawned s g)))
     else bad)"

definition decode_event :: "byte list \<Rightarrow> trace_error + trace_event" where
  "decode_event bs =
     rbind (andthen (get_u8 BadEvent) (\<lambda>ver.
              if ver \<noteq> event_version then bad
              else andthen (get_u64 BadEvent) (\<lambda>tick. andthen (get_u8 BadEvent) (\<lambda>tag.
                andthen (decode_body tag) (\<lambda>body. give \<lparr>ev_tick = tick, ev_body = body\<rparr>)))) bs)
       (\<lambda>(e, rest). if rest \<noteq> [] then Inl BadEvent else Inr e)"

end
