(* ===== verification/TraceProps.thy ===== *)
theory TraceProps
  imports TraceEvent
begin

text \<open>
  The event encoding is a codec up to the rows of the first layout: every admitted event is read
  back, and whatever is read is in range and, unless its row is an old and shorter one, was written
  by the encoder.
\<close>

section \<open>Enumerations\<close>

lemma enum_codes [simp]:
  "rite_end_from_u8 (rite_end_as_u8 r) = Some r" "pose_reason_from_u8 (pose_reason_as_u8 p) = Some p"
  "rite_end_as_u8 r < 256" "pose_reason_as_u8 p < 256"
  by (cases r; cases p; simp add: rite_end_from_u8_def rite_end_as_u8_def pose_reason_from_u8_def pose_reason_as_u8_def)+

lemma enum_sound:
  "rite_end_from_u8 v = Some r \<Longrightarrow> v = rite_end_as_u8 r" "pose_reason_from_u8 v = Some p \<Longrightarrow> v = pose_reason_as_u8 p"
  by (auto simp: rite_end_from_u8_def rite_end_as_u8_def pose_reason_from_u8_def pose_reason_as_u8_def split: if_splits)

section \<open>Rows\<close>

lemmas range_defs = u8_ok_def u16_ok_def u32_ok_def u64_ok_def

interpretation c_pose: codec pose_ok encode_pose "decode_pose True"
proof unfold_locales
  fix p rest assume "pose_ok p"
  then show "decode_pose True (encode_pose p @ rest) = Inr (p, rest)"
    by (simp add: pose_ok_def encode_pose_def decode_pose_def andthen_def give_def codec_simps)
next
  fix bs p rest assume "decode_pose True bs = Inr (p, rest)"
  then show "pose_ok p \<and> bs = encode_pose p @ rest"
    by (auto simp: decode_pose_def andthen_Inr_iff give_def pose_ok_def encode_pose_def dest!: codec_dests)
qed

interpretation c_vel: codec vel_ok encode_vel "decode_vel True"
proof unfold_locales
  fix p rest assume "vel_ok p"
  then show "decode_vel True (encode_vel p @ rest) = Inr (p, rest)"
    by (simp add: vel_ok_def encode_vel_def decode_vel_def andthen_def give_def codec_simps)
next
  fix bs p rest assume "decode_vel True bs = Inr (p, rest)"
  then show "vel_ok p \<and> bs = encode_vel p @ rest"
    by (auto simp: decode_vel_def andthen_Inr_iff give_def vel_ok_def encode_vel_def dest!: codec_dests)
qed

lemma length_rows [simp]: "length (encode_pose p) = 24" "length (encode_vel v) = 12"
  by (simp_all add: encode_pose_def encode_vel_def)

lemma snap_columns_length:
  assumes "snap_ok s"
  shows "length (concat (map put_sigil (is_members s))) = length (is_members s) * 16"
    "length (concat (map encode_pose (is_poses s)) @ concat (map encode_vel (is_vels s))
      @ concat (map put_i32 (is_yaw_rates s)) @ concat (map put_u16 (is_sleep s))) = length (is_members s) * 42"
  using assms by (simp_all add: snap_ok_def length_concat_same[where k = 16] length_concat_same[where k = 24]
      length_concat_same[where k = 12] length_concat_same[where k = 4] length_concat_same[where k = 2])

lemma snap_read:
  assumes "snap_ok s"
  shows "decode_snap (encode_snap s) = Inr (s, [])"
proof -
  let ?n = "length (is_members s)"
  let ?tail = "concat (map encode_pose (is_poses s)) @ concat (map encode_vel (is_vels s))
      @ concat (map put_i32 (is_yaw_rates s)) @ concat (map put_u16 (is_sleep s))"
  note len = snap_columns_length[OF assms]
  have layout: "snap_layout (length ?tail) ?n = Inr (True, True)" unfolding len(2) by (simp add: snap_layout_def)
  have c: "length (is_poses s) = ?n" "length (is_vels s) = ?n" "length (is_yaw_rates s) = ?n" "length (is_sleep s) = ?n"
    and ok: "\<forall>p \<in> set (is_poses s). pose_ok p" "\<forall>v \<in> set (is_vels s). vel_ok v" "\<forall>y \<in> set (is_yaw_rates s). in_i32 y"
      "\<forall>t \<in> set (is_sleep s). t < 65536" and n: "?n < 2 ^ 32" "is_island s < 65536"
    using assms by (simp_all add: snap_ok_def list_all_iff range_defs)
  have poses: "get_n ?n (decode_pose True) (concat (map encode_pose (is_poses s)) @ r) = Inr (is_poses s, r)" for r
    using c_pose.get_n_put[OF ok(1)] c(1) by simp
  have vels: "get_n ?n (decode_vel True) (concat (map encode_vel (is_vels s)) @ r) = Inr (is_vels s, r)" for r
    using c_vel.get_n_put[OF ok(2)] c(2) by simp
  have yaws: "get_n ?n (get_i32 BadEvent) (concat (map put_i32 (is_yaw_rates s)) @ r) = Inr (is_yaw_rates s, r)" for r
    using c_i32.get_n_put[OF ok(3)] c(3) by simp
  have sleeps: "get_n ?n (get_u16 BadEvent) (concat (map put_u16 (is_sleep s))) = Inr (is_sleep s, [])"
    using c_u16.get_n_put_end[OF ok(4)] c(4) by simp
  have mem: "get_n ?n (get_sigil BadEvent) (concat (map put_sigil (is_members s)) @ ?tail) = Inr (is_members s, ?tail)"
    by (rule c_sigil.get_n_put) simp
  have count: "get_count BadEvent (16 + 16 + 8 + 4 + 2) (put_u32 ?n @ concat (map put_sigil (is_members s)) @ ?tail)
      = Inr (?n, concat (map put_sigil (is_members s)) @ ?tail)"
    by (rule get_count_put) (use n(1) len in simp_all)
  have build: "island_snap_new (is_island s) (is_members s) (is_poses s) (is_vels s) (is_yaw_rates s) (is_sleep s) = Inr s"
    using c by (simp add: island_snap_new_def)
  show ?thesis
    unfolding encode_snap_def decode_snap_def andthen_def c_u16.get_put[OF n(2)] rbind.simps prod.case count mem layout
      poses vels yaws sleeps build ..
qed

lemma committed_read:
  assumes "pose_ok p"
  shows "decode_committed (put_sigil s @ put_i32 (px p) @ put_i32 (pz p) @ put_i32 (pyaw p)
     @ put_i32 (py p) @ put_i32 (ppitch p) @ put_i32 (proll p) @ put_u8 (pose_reason_as_u8 r))
     = Inr (PoseCommitted s p r, [])"
  using assms
  by (simp add: decode_committed_def andthen_def give_def need_def pose_ok_def codec_simps)

lemmas decode_run = decode_body_def andthen_def give_def need_def range_defs list_all_iff

lemma body_read: "body_ok b \<Longrightarrow> andthen (get_u8 BadEvent) decode_body (encode_body b) = Inr (b, [])"
proof (cases b)
  case (IslandSnap s)
  assume "body_ok b"
  then show ?thesis using IslandSnap snap_read[of s] by (simp add: decode_run codec_simps)
next
  case (PoseCommitted s p r)
  assume "body_ok b"
  then show ?thesis using PoseCommitted committed_read[of p s r] by (simp add: decode_run codec_simps)
next
  case (Spawned t s p)
  assume "body_ok b"
  then show ?thesis using Spawned by (simp add: decode_run codec_simps c_pose.get_put_end)
next
  case (Uttered s fs)
  assume "body_ok b"
  then have "n = length fs \<Longrightarrow> get_count BadEvent 2 (put_u32 n @ concat (map put_u16 fs)) = Inr (n, concat (map put_u16 fs))" for n
    using Uttered by (intro get_count_put) (simp_all add: range_defs length_concat_same[where k = 2])
  then show ?thesis using Uttered \<open>body_ok b\<close> by (simp add: decode_run codec_simps)
qed (simp_all add: decode_run codec_simps)

lemma event_decodes:
  assumes "event_ok e"
  shows "decode_event (encode_event e) = Inr e"
proof -
  have "get_u64 BadEvent (put_u64 (ev_tick e) @ r) = Inr (ev_tick e, r)" for r
    using assms by (simp add: event_ok_def range_defs codec_simps)
  moreover have "andthen (get_u8 BadEvent) (\<lambda>tag. andthen (decode_body tag) (\<lambda>body. give \<lparr>ev_tick = t, ev_body = body\<rparr>))
      (encode_body (ev_body e)) = Inr (\<lparr>ev_tick = t, ev_body = ev_body e\<rparr>, [])" for t
    using body_read[of "ev_body e"] assms by (auto simp: event_ok_def andthen_Inr_iff give_def)
  ultimately show ?thesis
    by (simp add: decode_event_def encode_event_def event_version_def andthen_def[of "get_u8 BadEvent" "\<lambda>ver. if _ ver then _ ver else _ ver"]
       andthen_def[of "get_u64 BadEvent"] codec_simps)
qed

text \<open>
  C22: Every admitted event survives its encoding.  Decoding the canonical bytes of an event whose fields
  fit their types, with equal snapshot columns, gives the event back.
\<close>

theorem event_round_trip:
  assumes "event_ok e"
  shows "decode_event (encode_event e) = Inr e"
  using assms by (rule event_decodes)

definition duel_snap :: trace_event where
  "duel_snap = \<lparr>ev_tick = 60, ev_body = IslandSnap \<lparr>is_island = 4, is_members = [7, 9],
     is_poses = [pose_new 10 (- 5) 20 7, pose_new 0 0 0 0], is_vels = [\<lparr>v3x = 1, v3y = 0, v3z = - 1\<rparr>, \<lparr>v3x = 0, v3y = 0, v3z = 0\<rparr>],
     is_yaw_rates = [0, 90], is_sleep = [0, 3]\<rparr>\<rparr>"

theorem event_round_trip_witness: "decode_event (encode_event duel_snap) = Inr duel_snap"
  by (rule event_round_trip)
    (simp add: duel_snap_def event_ok_def snap_ok_def range_defs pose_ok_def pose_new_def vel_ok_def in_i32_def)

section \<open>What decoding accepts\<close>

lemma get_n_rows:
  assumes "\<And>bs x rest. r bs = Inr (x, rest) \<Longrightarrow> P x \<and> length bs = length rest + k"
  shows "get_n n r bs = Inr (xs, rest) \<Longrightarrow> list_all P xs \<and> length xs = n \<and> length bs = length rest + n * k"
proof (induction n arbitrary: bs xs)
  case (Suc n)
  then obtain x mid ys where g: "r bs = Inr (x, mid)" "get_n n r mid = Inr (ys, rest)" "xs = x # ys"
    by (auto simp: andthen_Inr_iff give_def)
  with assms[OF g(1)] Suc.IH[OF g(2)] show ?case by simp
qed (simp add: give_def)

lemma narrow_rows:
  "decode_pose False bs = Inr (p, rest) \<Longrightarrow> pose_ok p \<and> length bs = length rest + 16"
  "decode_vel False bs = Inr (v, rest) \<Longrightarrow> vel_ok v \<and> length bs = length rest + 8"
  by (auto simp: decode_pose_def decode_vel_def andthen_Inr_iff give_def pose_ok_def vel_ok_def dest!: codec_dests)

lemma snap_layout_cases:
  "snap_layout m n = Inr (wp, wv) \<Longrightarrow> wp = wv \<and> m = n * (if wp then 42 else 30)"
  using mult_div_mod_eq[of n m] by (auto simp: snap_layout_def split: if_splits)

lemma decode_snap_sound:
  assumes "decode_snap bs = Inr (s, [])"
  shows "snap_ok s \<and> (bs = encode_snap s \<or> length bs < length (encode_snap s))"
proof -
  obtain i b1 n b2 ms b3 w ps b4 vs b5 ys b6 ts where
    i: "get_u16 BadEvent bs = Inr (i, b1)" and n: "get_count BadEvent (16 + 16 + 8 + 4 + 2) b1 = Inr (n, b2)"
    and ms: "get_n n (get_sigil BadEvent) b2 = Inr (ms, b3)" and w: "snap_layout (length b3) n = Inr w"
    and ps: "get_n n (decode_pose (fst w)) b3 = Inr (ps, b4)" and vs: "get_n n (decode_vel (snd w)) b4 = Inr (vs, b5)"
    and ys: "get_n n (get_i32 BadEvent) b5 = Inr (ys, b6)" and ts: "get_n n (get_u16 BadEvent) b6 = Inr (ts, [])"
    and s: "island_snap_new i ms ps vs ys ts = Inr s"
    using assms by (auto simp: decode_snap_def andthen_Inr_iff rbind_Inr_iff)
  have L: "fst w = snd w" "length b3 = n * (if fst w then 42 else 30)"
    using snap_layout_cases[of "length b3" n "fst w" "snd w"] w by simp_all
  have s': "s = \<lparr>is_island = i, is_members = ms, is_poses = ps, is_vels = vs, is_yaw_rates = ys, is_sleep = ts\<rparr>"
    using s by (auto simp: island_snap_new_def Let_def split: if_splits)
  have len: "length ms = n" "length ys = n" "length ts = n"
    using codec_dests(10)[OF ms] codec_dests(9)[OF ys] codec_dests(8)[OF ts] by simp_all
  have heads: "i < 65536" "n < 2 ^ 32" "bs = put_u16 i @ put_u32 n @ concat (map put_sigil ms) @ b3"
    using codec_dests(2)[OF i] get_count_sound[OF n] codec_dests(10)[OF ms] by auto
  have tails: "\<forall>y \<in> set ys. in_i32 y" "\<forall>t \<in> set ts. t < 65536" "b5 = concat (map put_i32 ys) @ concat (map put_u16 ts)"
    using codec_dests(9)[OF ys] codec_dests(8)[OF ts] by auto
  show ?thesis
  proof (cases "fst w")
    case True
    then have wide: "get_n n (decode_pose True) b3 = Inr (ps, b4)" "get_n n (decode_vel True) b4 = Inr (vs, b5)"
      using ps vs L(1) by simp_all
    from c_pose.get_n_sound[OF wide(1)] c_vel.get_n_sound[OF wide(2)] show ?thesis
      using heads tails len by (auto simp: s' snap_ok_def range_defs list_all_iff encode_snap_def)
  next
    case False
    then have narrow: "get_n n (decode_pose False) b3 = Inr (ps, b4)" "get_n n (decode_vel False) b4 = Inr (vs, b5)"
      using ps vs L(1) by simp_all
    have P: "list_all pose_ok ps \<and> length ps = n \<and> length b3 = length b4 + n * 16"
      by (rule get_n_rows[OF _ narrow(1)]) (rule narrow_rows)
    have V: "list_all vel_ok vs \<and> length vs = n \<and> length b4 = length b5 + n * 8"
      by (rule get_n_rows[OF _ narrow(2)]) (rule narrow_rows)
    have ok: "snap_ok s"
      using heads tails len P V by (simp add: s' snap_ok_def range_defs list_all_iff)
    have e: "length (encode_snap s) = 6 + (n * 16 + n * 42)"
      using snap_columns_length[OF ok] len by (simp add: encode_snap_def s')
    show ?thesis
    proof (cases "n = 0")
      case True
      then show ?thesis using heads tails len P V ok by (simp add: s' encode_snap_def)
    next
      case False
      moreover have "length bs = 6 + n * 16 + n * 30"
        using heads(3) L(2) \<open>\<not> fst w\<close> len by (simp add: length_concat_same[where k = 16])
      ultimately show ?thesis using ok e by simp
    qed
  qed
qed

lemma decode_committed_sound:
  assumes "decode_committed bs = Inr (b, [])"
  shows "body_ok b \<and> (put_u8 6 @ bs = encode_body b \<or> length (put_u8 6 @ bs) < length (encode_body b))"
  using assms
  by (auto simp: decode_committed_def andthen_Inr_iff give_def refuse_def need_def pose_ok_def range_defs
      split: if_splits option.splits dest!: codec_dests enum_sound)

lemma decode_body_sound:
  assumes "decode_body tag bs = Inr (b, [])"
  shows "body_ok b \<and> (put_u8 tag @ bs = encode_body b \<or> length (put_u8 tag @ bs) < length (encode_body b))"
proof -
  consider (snap) "tag = 5" | (pose) "tag = 6" | (spawn) "tag = 15" | (other) "tag \<noteq> 5 \<and> tag \<noteq> 6 \<and> tag \<noteq> 15" by blast
  then show ?thesis
  proof cases
    case snap
    with assms obtain s where "decode_snap bs = Inr (s, [])" "b = IslandSnap s"
      by (auto simp: decode_body_def andthen_Inr_iff give_def)
    with decode_snap_sound[of bs s] show ?thesis by (auto simp: snap)
  next
    case pose
    with assms have "decode_committed bs = Inr (b, [])" by (simp add: decode_body_def)
    with decode_committed_sound[of bs b] show ?thesis by (simp add: pose)
  next
    case spawn
    with assms show ?thesis
      by (auto simp: decode_body_def andthen_Inr_iff give_def range_defs dest!: codec_dests c_pose.get_sound)
  next
    case other
    with assms show ?thesis
      by (auto simp: decode_body_def andthen_Inr_iff give_def refuse_def need_def range_defs list_all_iff
          split: if_splits option.splits dest!: codec_dests enum_sound)
  qed
qed

text \<open>
  Decoding accepts only canonical bytes, up to the rows of the first layout.  Whatever decodes is an
  event whose fields fit their types, and its canonical encoding is the input itself, except for an
  input with rows of the first layout, which is strictly shorter than the canonical encoding.
\<close>

theorem decoded_event_canonical:
  assumes "decode_event bs = Inr e"
  shows "event_ok e \<and> (bs = encode_event e \<or> length bs < length (encode_event e))"
proof -
  obtain b1 t b2 tag b3 b where "get_u8 BadEvent bs = Inr (event_version, b1)" "get_u64 BadEvent b1 = Inr (t, b2)"
    "get_u8 BadEvent b2 = Inr (tag, b3)" "decode_body tag b3 = Inr (b, [])" "e = \<lparr>ev_tick = t, ev_body = b\<rparr>"
    using assms by (auto simp: decode_event_def rbind_Inr_iff andthen_Inr_iff refuse_def give_def split: if_splits)
  with decode_body_sound[of tag b3 b] show ?thesis
    by (auto simp: event_ok_def encode_event_def range_defs dest!: codec_dests)
qed

text \<open>A pose row of the first layout: no height, pitch or roll.\<close>

definition old_pose_row :: "byte list" where
  "old_pose_row = put_u8 1 @ put_u64 0 @ put_u8 6 @ put_sigil 5 @ put_i32 10 @ put_i32 20 @ put_i32 7 @ put_u8 2"

theorem decoded_event_canonical_witness:
  "\<exists>e. decode_event old_pose_row = Inr e \<and> event_ok e \<and> length old_pose_row < length (encode_event e)"
proof -
  have "decode_event old_pose_row
      = Inr \<lparr>ev_tick = 0, ev_body = PoseCommitted 5 \<lparr>px = 10, py = 0, pz = 20, pyaw = 7, ppitch = 0, proll = 0\<rparr> PrLand\<rparr>"
    by (simp add: old_pose_row_def decode_event_def decode_committed_def decode_run event_version_def codec_simps
        in_i32_def pose_reason_from_u8_def)
  from decoded_event_canonical[OF this] this show ?thesis
    by (auto simp: old_pose_row_def encode_event_def)
qed

end
