(* ===== verification/TraceLog.thy ===== *)
theory TraceLog
  imports TraceProps
begin

text \<open>
  \<open>klotho-trace/src/log.rs\<close> and \<open>delta.rs\<close>: the append-only log and its prefix hash.  \<open>hash_bytes\<close> is blake3, which is not
  in the repository: it is the parameter \<open>H\<close>.  What the properties need of it is named where they
  need it: digests of 32 bytes, and no collision among the strings the compared logs hash.
\<close>

section \<open>The log\<close>

definition genesis_domain :: "byte list" where
  "genesis_domain = map of_char ''klotho-trace/v1''"

definition genesis_hash :: "(byte list \<Rightarrow> digest) \<Rightarrow> digest" where
  "genesis_hash H = H genesis_domain"

definition mix :: "(byte list \<Rightarrow> digest) \<Rightarrow> digest \<Rightarrow> trace_event \<Rightarrow> digest" where
  "mix H p e = H (p @ encode_event e)"

definition fold_prefix :: "(byte list \<Rightarrow> digest) \<Rightarrow> digest \<Rightarrow> trace_event list \<Rightarrow> digest" where
  "fold_prefix H start es = foldl (mix H) start es"

record trace_log =
  tl_events :: "trace_event list"
  tl_prefix :: digest

definition log_new :: "(byte list \<Rightarrow> digest) \<Rightarrow> trace_log" where
  "log_new H = \<lparr>tl_events = [], tl_prefix = genesis_hash H\<rparr>"

definition log_from_events :: "(byte list \<Rightarrow> digest) \<Rightarrow> trace_event list \<Rightarrow> trace_log" where
  "log_from_events H es = \<lparr>tl_events = es, tl_prefix = fold_prefix H (genesis_hash H) es\<rparr>"

definition log_append :: "(byte list \<Rightarrow> digest) \<Rightarrow> trace_event \<Rightarrow> trace_log \<Rightarrow> trace_log" where
  "log_append H e l = \<lparr>tl_events = tl_events l @ [e], tl_prefix = mix H (tl_prefix l) e\<rparr>"

definition log_prefix_at :: "(byte list \<Rightarrow> digest) \<Rightarrow> nat \<Rightarrow> trace_log \<Rightarrow> digest" where
  "log_prefix_at H n l = fold_prefix H (genesis_hash H) (take (min n (length (tl_events l))) (tl_events l))"

definition replay_suffix :: "(byte list \<Rightarrow> digest) \<Rightarrow> digest \<Rightarrow> trace_event list \<Rightarrow> digest" where
  "replay_suffix H start suffix = fold_prefix H start suffix"

text \<open>The loop of \<open>replay_eq\<close>: None is its early \<open>Ok(false)\<close>.\<close>

fun replay_copy ::
    "(byte list \<Rightarrow> digest) \<Rightarrow> trace_event list \<Rightarrow> trace_log \<Rightarrow> trace_error + trace_log option" where
  "replay_copy H [] copy = Inr (Some copy)"
| "replay_copy H (e # es) copy =
     rbind (decode_event (encode_event e)) (\<lambda>back.
       if back \<noteq> e then Inr None else replay_copy H es (log_append H back copy))"

definition replay_eq :: "(byte list \<Rightarrow> digest) \<Rightarrow> trace_log \<Rightarrow> trace_error + bool" where
  "replay_eq H l =
     rbind (replay_copy H (tl_events l) (log_new H)) (\<lambda>r.
       case r of None \<Rightarrow> Inr False
       | Some copy \<Rightarrow> Inr (tl_prefix copy = tl_prefix l \<and> tl_events copy = tl_events l))"

text \<open>Per-tick output.  Rejects are not part of the prefix.\<close>

record trace_delta =
  td_tick :: tick
  td_events :: "trace_event list"
  td_rejects :: "(proposal_kind \<times> reject_reason) list"
  td_snap_bytes :: nat

definition delta_empty :: "tick \<Rightarrow> trace_delta" where
  "delta_empty t = \<lparr>td_tick = t, td_events = [], td_rejects = [], td_snap_bytes = 0\<rparr>"

section \<open>The prefix folds\<close>

lemma fold_prefix_simps [simp]:
  "fold_prefix H s [] = s" "fold_prefix H s (e # es) = fold_prefix H (mix H s e) es"
  "fold_prefix H s (es @ fs) = fold_prefix H (fold_prefix H s es) fs"
  by (simp_all add: fold_prefix_def)

definition log_ok :: "(byte list \<Rightarrow> digest) \<Rightarrow> trace_log \<Rightarrow> bool" where
  "log_ok H l \<longleftrightarrow> tl_prefix l = fold_prefix H (genesis_hash H) (tl_events l)"

text \<open>The logs a program can hold: \<open>events\<close> is private, so they come from the constructors and \<open>append\<close>.\<close>

inductive log_reachable :: "(byte list \<Rightarrow> digest) \<Rightarrow> trace_log \<Rightarrow> bool" for H where
  Rnew: "log_reachable H (log_new H)"
| Rfrom: "log_reachable H (log_from_events H es)"
| Rappend: "log_reachable H l \<Longrightarrow> log_reachable H (log_append H e l)"

lemma log_reachable_ok: "log_reachable H l \<Longrightarrow> log_ok H l"
  by (induction rule: log_reachable.induct)
    (simp_all add: log_ok_def log_new_def log_from_events_def log_append_def)

lemma replay_copy_all:
  "\<forall>e \<in> set es. decode_event (encode_event e) = Inr e \<Longrightarrow>
   replay_copy H es l = Inr (Some (foldl (\<lambda>l e. log_append H e l) l es))"
  by (induction es arbitrary: l) auto

lemma foldl_append:
  "foldl (\<lambda>l e. log_append H e l) l es = \<lparr>tl_events = tl_events l @ es, tl_prefix = fold_prefix H (tl_prefix l) es\<rparr>"
  by (induction es arbitrary: l) (simp_all add: log_append_def)

text \<open>The strings a log hashes.\<close>

definition hashed :: "(byte list \<Rightarrow> digest) \<Rightarrow> trace_event list \<Rightarrow> byte list set" where
  "hashed H es = insert genesis_domain
     ((\<lambda>i. fold_prefix H (genesis_hash H) (take i es) @ encode_event (es ! i)) ` {..<length es})"

lemma hashed_snoc:
  "hashed H (es @ [e]) = insert (fold_prefix H (genesis_hash H) es @ encode_event e) (hashed H es)"
proof -
  have "(\<lambda>i. fold_prefix H (genesis_hash H) (take i (es @ [e])) @ encode_event ((es @ [e]) ! i)) ` {..<length es}
      = (\<lambda>i. fold_prefix H (genesis_hash H) (take i es) @ encode_event (es ! i)) ` {..<length es}"
    by (rule image_cong) (simp_all add: nth_append)
  then show ?thesis by (simp add: hashed_def lessThan_Suc insert_commute)
qed

lemma not_genesis_domain: "32 \<le> length p \<Longrightarrow> genesis_domain \<noteq> p @ x"
proof
  assume l: "32 \<le> length p" and d: "genesis_domain = p @ x"
  have "length genesis_domain = 15" by (simp add: genesis_domain_def)
  then have "length p + length x = 15" unfolding d by simp
  with l show False by linarith
qed

lemma encode_event_inj:
  "decode_event (encode_event e) = Inr e \<Longrightarrow> decode_event (encode_event f) = Inr f \<Longrightarrow> encode_event e = encode_event f \<Longrightarrow> e = f"
  by (metis sum.inject(2))

lemma prefix_commits:
  assumes "\<And>x. length (H x) = 32"
  shows "inj_on H (hashed H es \<union> hashed H fs) \<Longrightarrow>
    \<forall>e \<in> set es \<union> set fs. decode_event (encode_event e) = Inr e \<Longrightarrow>
    fold_prefix H (genesis_hash H) es = fold_prefix H (genesis_hash H) fs \<Longrightarrow> es = fs"
proof (induction es arbitrary: fs rule: rev_induct)
  case Nil
  show ?case
  proof (cases fs rule: rev_cases)
    case (snoc gs f)
    have "H genesis_domain = H (fold_prefix H (genesis_hash H) gs @ encode_event f)"
      using Nil.prems(3) by (simp add: snoc mix_def genesis_hash_def)
    then have "genesis_domain = fold_prefix H (genesis_hash H) gs @ encode_event f"
      by (rule inj_onD[OF Nil.prems(1)]) (simp_all add: snoc hashed_snoc, simp add: hashed_def)
    moreover have "32 \<le> length (fold_prefix H (genesis_hash H) gs)"
      using assms by (cases gs rule: rev_cases) (simp_all add: genesis_hash_def mix_def)
    ultimately show ?thesis using not_genesis_domain by blast
  qed simp
next
  case (snoc e es)
  show ?case
  proof (cases fs rule: rev_cases)
    case Nil
    have "H genesis_domain = H (fold_prefix H (genesis_hash H) es @ encode_event e)"
      using snoc.prems(3) by (simp add: Nil mix_def genesis_hash_def)
    then have "genesis_domain = fold_prefix H (genesis_hash H) es @ encode_event e"
      by (rule inj_onD[OF snoc.prems(1)]) (simp_all add: Nil hashed_snoc, simp add: hashed_def)
    moreover have "32 \<le> length (fold_prefix H (genesis_hash H) es)"
      using assms by (cases es rule: rev_cases) (simp_all add: genesis_hash_def mix_def)
    ultimately show ?thesis using not_genesis_domain by blast
  next
    case fs: (snoc gs f)
    let ?p = "fold_prefix H (genesis_hash H)"
    have "H (?p es @ encode_event e) = H (?p gs @ encode_event f)"
      using snoc.prems(3) by (simp add: fs mix_def)
    then have eq: "?p es @ encode_event e = ?p gs @ encode_event f"
      by (rule inj_onD[OF snoc.prems(1)]) (simp_all add: fs hashed_snoc)
    have len: "length (?p xs) = 32" for xs
      using assms by (cases xs rule: rev_cases) (simp_all add: genesis_hash_def mix_def)
    have p: "?p es = ?p gs" and e: "encode_event e = encode_event f"
      using eq len[of es] len[of gs] append_eq_append_conv by metis+
    have "inj_on H (hashed H es \<union> hashed H gs)"
      by (rule inj_on_subset[OF snoc.prems(1)]) (auto simp: fs hashed_snoc)
    moreover have "\<forall>e \<in> set es \<union> set gs. decode_event (encode_event e) = Inr e" using snoc.prems(2) by (simp add: fs)
    ultimately have "es = gs" using p by (rule snoc.IH)
    moreover have "e = f" by (rule encode_event_inj[OF _ _ e]) (use snoc.prems(2) in \<open>simp_all add: fs\<close>)
    ultimately show ?thesis by (simp add: fs)
  qed
qed

section \<open>Properties\<close>

text \<open>
  The log is its own certificate.  Every log a program can hold carries the fold of its events from
  genesis; replaying the events after any checkpoint onto the checkpoint's prefix gives the log's
  prefix; and the self-check \<open>replay_eq\<close> answers yes when the events fit their types.
\<close>

theorem log_prefix_replays:
  assumes "log_reachable H l"
  shows "tl_prefix l = fold_prefix H (genesis_hash H) (tl_events l)
    \<and> replay_suffix H (log_prefix_at H n l) (drop n (tl_events l)) = tl_prefix l
    \<and> (list_all event_ok (tl_events l) \<longrightarrow> replay_eq H l = Inr True)"
proof -
  note ok = log_reachable_ok[OF assms, unfolded log_ok_def]
  have "fold_prefix H (fold_prefix H (genesis_hash H) (take n (tl_events l))) (drop n (tl_events l)) = tl_prefix l" for n
    using ok fold_prefix_simps(3) by (metis append_take_drop_id)
  moreover have "replay_eq H l = Inr True" if e: "list_all event_ok (tl_events l)"
  proof -
    have "\<forall>e \<in> set (tl_events l). decode_event (encode_event e) = Inr e"
      using e event_decodes by (simp add: list_all_iff)
    then show ?thesis
      using ok by (simp add: replay_eq_def replay_copy_all foldl_append log_new_def)
  qed
  moreover have "drop n (tl_events l) = drop (min n (length (tl_events l))) (tl_events l)" by (simp add: min_def)
  ultimately show ?thesis using ok unfolding replay_suffix_def log_prefix_at_def by metis
qed

definition length_hash :: "byte list \<Rightarrow> digest" where
  "length_hash x = put_uint 32 (length x)"

definition save_event :: "nat \<Rightarrow> trace_event" where
  "save_event t = \<lparr>ev_tick = t, ev_body = SaveRequested\<rparr>"

lemma length_hash_inj:
  "inj_on length_hash (hashed length_hash [save_event 3] \<union> hashed length_hash [save_event 3])"
proof -
  have "length_hash genesis_domain \<noteq> length_hash (genesis_hash length_hash @ encode_event (save_event 3))"
    by (simp add: length_hash_def put_uint_def genesis_domain_def genesis_hash_def encode_event_def save_event_def)
  moreover have "hashed length_hash [save_event 3]
      = {genesis_domain, genesis_hash length_hash @ encode_event (save_event 3)}"
    by (auto simp: hashed_def lessThan_Suc)
  moreover have "x = y" if "length_hash x = length_hash y" "x \<in> {a, b}" "y \<in> {a, b}" "length_hash a \<noteq> length_hash b" for a b x y
    using that by auto
  ultimately show ?thesis by (simp only: inj_on_def Un_absorb) blast
qed

theorem log_prefix_replays_witness:
  "let l = log_append length_hash (save_event 3) (log_append length_hash duel_snap (log_new length_hash))
   in replay_eq length_hash l = Inr True
     \<and> replay_suffix length_hash (log_prefix_at length_hash 1 l) [save_event 3] = tl_prefix l"
proof -
  let ?l = "log_append length_hash (save_event 3) (log_append length_hash duel_snap (log_new length_hash))"
  have r: "log_reachable length_hash ?l" by (intro Rappend Rnew)
  have e: "tl_events ?l = [duel_snap, save_event 3]" by (simp add: log_append_def log_new_def)
  have "list_all event_ok [duel_snap, save_event 3]"
    by (simp add: save_event_def duel_snap_def event_ok_def snap_ok_def range_defs pose_ok_def pose_new_def vel_ok_def in_i32_def)
  then have ok: "list_all event_ok (tl_events ?l)" unfolding e .
  have d: "drop 1 (tl_events ?l) = [save_event 3]" unfolding e by simp
  show ?thesis using log_prefix_replays[OF r, of 1] ok unfolding d Let_def by blast
qed

text \<open>
  C26: The prefix hash commits to the whole history.  With 32-byte digests and no collision among the
  strings two logs hash, two logs of well-formed events with the same prefix hash hold the same
  events in the same order; in particular neither is an extension of the other.
\<close>

theorem prefix_hash_commits:
  assumes "log_reachable H a" and "log_reachable H b" and "\<And>x. length (H x) = 32"
    and "list_all event_ok (tl_events a)" and "list_all event_ok (tl_events b)"
    and "inj_on H (hashed H (tl_events a) \<union> hashed H (tl_events b))"
    and "tl_prefix a = tl_prefix b"
  shows "a = b"
proof -
  have "tl_events a = tl_events b"
    using assms(4,5,7) event_decodes log_reachable_ok[OF assms(1)] log_reachable_ok[OF assms(2)]
    by (intro prefix_commits[OF assms(3) assms(6)]) (auto simp: list_all_iff log_ok_def)
  with assms(7) show ?thesis by simp
qed

theorem prefix_hash_commits_witness:
  "let l = log_append length_hash (save_event 3) (log_new length_hash)
   in log_from_events length_hash [save_event 3] = l"
proof -
  let ?l = "log_append length_hash (save_event 3) (log_new length_hash)"
  let ?m = "log_from_events length_hash [save_event 3]"
  have h: "length (length_hash x) = 32" for x by (simp add: length_hash_def)
  have e: "tl_events ?l = [save_event 3]" "tl_events ?m = [save_event 3]"
    by (simp_all add: log_append_def log_new_def log_from_events_def)
  have ok: "list_all event_ok [save_event 3]" by (simp add: save_event_def event_ok_def range_defs)
  have "?m = ?l"
    using ok length_hash_inj by (intro prefix_hash_commits[OF Rfrom Rappend[OF Rnew] h]) (simp_all add: e, simp add: log_from_events_def log_append_def log_new_def)
  then show ?thesis by simp
qed

end
