(* ===== verification/IrIntent.thy ===== *)
theory IrIntent
  imports IrPred CoreIds
begin

text \<open>
  \<open>klotho-ir\<close>'s player packet: \<open>target.rs\<close>, \<open>analog.rs\<close>, \<open>agency.rs\<close> and \<open>player.rs\<close>.
\<close>

datatype intent_target = NoIntent | AtSigil sigil | AtName string

record analog =
  an_phase :: nat
  an_stick_x :: int
  an_stick_z :: int
  an_look_yaw :: int
  an_look_pitch :: int

record player_intent =
  pi_player :: nat
  pi_at :: tick
  pi_verb :: verb
  pi_target :: intent_target
  pi_analog :: analog
  pi_claimed :: "channel list"

fun target_check :: "intent_target \<Rightarrow> ir_error + unit" where
  "target_check (AtName n) = name_check n"
| "target_check _ = Inr ()"

definition analog_check :: "analog \<Rightarrow> ir_error + unit" where
  "analog_check a = (if an_phase a > 1000 then Inl (InvalidPhase (an_phase a)) else Inr ())"

definition intent_validate :: "player_intent \<Rightarrow> ir_error + unit" where
  "intent_validate p =
     rbind (target_check (pi_target p)) (\<lambda>_. rbind (analog_check (pi_analog p)) (\<lambda>_. agency_check (pi_claimed p)))"

lemma intent_validate_ok:
  "is_ok (intent_validate p) \<longleftrightarrow> pi_target p \<noteq> AtName [] \<and> an_phase (pi_analog p) \<le> 1000 \<and> distinct (pi_claimed p)"
  by (cases "pi_target p")
    (auto simp: intent_validate_def analog_check_def agency_check_def agency_check_from_ok)

end
