(* ===== verification/WorldCow.thy ===== *)
theory WorldCow
  imports CoreIds
begin

text \<open>
  \<open>klotho-world/src/cow.rs\<close>: a column is a vector of chunks of 256 rows, so that a published snapshot
  shares the chunks a later write does not touch.  Sharing is not modelled (the chunks are immutable
  values here); what is shown is that the chunked column is the plain vector: every operation refines
  the list operation, which is what the projection's columns are from here on.  A panic (an index out
  of range, an \<open>expect\<close>) is the value None.
\<close>

section \<open>The chunked column\<close>

definition cow_chunk :: nat where
  "cow_chunk = 256"

record 'a cow =
  cw_chunks :: "'a list list"
  cw_len :: nat

definition cow_new :: "'a cow" where
  "cow_new = \<lparr>cw_chunks = [], cw_len = 0\<rparr>"

definition cow_push :: "'a \<Rightarrow> 'a cow \<Rightarrow> 'a cow option" where
  "cow_push v c =
     (let k = cw_len c div cow_chunk; cs = cw_chunks c in
      if k = length cs then Some \<lparr>cw_chunks = cs @ [[v]], cw_len = cw_len c + 1\<rparr>
      else if k < length cs then Some \<lparr>cw_chunks = cs[k := cs ! k @ [v]], cw_len = cw_len c + 1\<rparr>
      else None)"

definition cow_get :: "'a cow \<Rightarrow> nat \<Rightarrow> 'a option" where
  "cow_get c i =
     (if cw_len c \<le> i then None
      else case nth_opt (cw_chunks c) (i div cow_chunk) of
        None \<Rightarrow> None
      | Some ch \<Rightarrow> nth_opt ch (i mod cow_chunk))"

definition cow_set :: "nat \<Rightarrow> 'a \<Rightarrow> 'a cow \<Rightarrow> 'a cow option" where
  "cow_set i v c =
     (case cow_get c i of
        None \<Rightarrow> None
      | Some _ \<Rightarrow> Some (c\<lparr>cw_chunks := (cw_chunks c)[i div cow_chunk :=
                      (cw_chunks c ! (i div cow_chunk))[i mod cow_chunk := v]]\<rparr>))"

definition cow_swap :: "nat \<Rightarrow> nat \<Rightarrow> 'a cow \<Rightarrow> 'a cow option" where
  "cow_swap a b c =
     (if a = b then Some c
      else case (cow_get c a, cow_get c b) of
        (Some av, Some bv) \<Rightarrow> Option.bind (cow_set a bv c) (cow_set b av)
      | _ \<Rightarrow> None)"

text \<open>The inner None of the result is the early \<open>return None\<close>, the outer one a panic.\<close>

definition cow_pop :: "'a cow \<Rightarrow> ('a option \<times> 'a cow) option" where
  "cow_pop c =
     (if cw_len c = 0 then Some (None, c)
      else let last = cw_len c - 1; k = last div cow_chunk; cs = cw_chunks c in
        if length cs \<le> k then None
        else if cs ! k = [] then Some (None, c)
        else let ch = butlast (cs ! k); cs' = cs[k := ch] in
          Some (Some (List.last (cs ! k)),
                \<lparr>cw_chunks = (if ch = [] then butlast cs' else cs'), cw_len = cw_len c - 1\<rparr>))"

section \<open>The plain vector\<close>

function chop :: "'a list \<Rightarrow> 'a list list" where
  "chop xs = (if xs = [] then [] else take cow_chunk xs # chop (drop cow_chunk xs))"
  by auto
termination by (relation "measure length") (auto simp: cow_chunk_def)

declare chop.simps [simp del]

lemma chop_Nil [simp]: "chop [] = []"
  by (simp add: chop.simps)

lemma chop_nonempty: "xs \<noteq> [] \<Longrightarrow> chop xs = take cow_chunk xs # chop (drop cow_chunk xs)"
  by (simp add: chop.simps[of xs])

lemma cow_chunk_pos [simp]: "0 < cow_chunk" "cow_chunk \<noteq> 0"
  by (simp_all add: cow_chunk_def)

definition cow_ok :: "'a list \<Rightarrow> 'a cow \<Rightarrow> bool" where
  "cow_ok xs c \<longleftrightarrow> cw_chunks c = chop xs \<and> cw_len c = length xs"

lemma chop_nth: "nth_opt (chop xs) k
    = (if k * cow_chunk < length xs then Some (take cow_chunk (drop (k * cow_chunk) xs)) else None)"
proof (induction k arbitrary: xs)
  case 0
  show ?case by (cases "xs = []") (simp_all add: chop_nonempty)
next
  case (Suc k)
  show ?case
  proof (cases "xs = []")
    case False
    then show ?thesis using Suc[of "drop cow_chunk xs"]
      by (auto simp: chop_nonempty add.commute less_diff_conv)
  qed simp
qed

lemma length_chop:
  "length (chop xs) = length xs div cow_chunk + (if length xs mod cow_chunk = 0 then 0 else 1)"
proof (induction xs rule: chop.induct)
  case (1 xs)
  show ?case
  proof (cases "length xs < cow_chunk")
    case True
    then show ?thesis by (cases "xs = []") (simp_all add: chop_nonempty)
  next
    case False
    then have "xs \<noteq> []" by (auto simp: cow_chunk_def)
    with 1 False show ?thesis by (simp add: chop_nonempty le_div_geq le_mod_geq)
  qed
qed

lemma chop_append:
  "chop (xs @ [v]) =
     (let k = length xs div cow_chunk in
      if length xs mod cow_chunk = 0 then chop xs @ [[v]] else (chop xs)[k := chop xs ! k @ [v]])"
proof (induction xs rule: chop.induct)
  case (1 xs)
  show ?case
  proof (cases "xs = []")
    case True
    then show ?thesis by (simp add: chop.simps cow_chunk_def)
  next
    case ne: False
    note IH = 1[OF ne]
    show ?thesis
    proof (cases "length xs < cow_chunk")
      case True
      then have "chop xs = [xs]" "chop (xs @ [v]) = [xs @ [v]]"
        using ne by (simp_all add: chop_nonempty)
      then show ?thesis using True ne by simp
    next
      case False
      then have "chop (xs @ [v]) = take cow_chunk xs # chop (drop cow_chunk xs @ [v])"
        by (simp add: chop_nonempty)
      moreover have "length xs div cow_chunk = Suc (length (drop cow_chunk xs) div cow_chunk)"
        "length xs mod cow_chunk = length (drop cow_chunk xs) mod cow_chunk"
        using False by (simp_all add: le_div_geq le_mod_geq)
      ultimately show ?thesis using IH ne by (simp add: chop_nonempty Let_def)
    qed
  qed
qed

lemma chop_eq_Nil [simp]: "chop xs = [] \<longleftrightarrow> xs = []"
  by (cases "xs = []") (simp_all add: chop_nonempty)

section \<open>The operations are those of the vector\<close>

lemma cow_get_eq: "cow_ok xs c \<Longrightarrow> cow_get c i = nth_opt xs i"
proof -
  assume ok: "cow_ok xs c"
  show ?thesis
  proof (cases "i < length xs")
    case True
    let ?d = "drop (i div cow_chunk * cow_chunk) xs"
    have i: "i div cow_chunk * cow_chunk + i mod cow_chunk = i" by simp
    have split: "a < n \<and> b < n - a" if "a + b < n" for a b n :: nat using that by linarith
    have l: "i div cow_chunk * cow_chunk < length xs" "i mod cow_chunk < length ?d"
      using split[of "i div cow_chunk * cow_chunk" "i mod cow_chunk" "length xs"] i True by simp_all
    have "?d ! (i mod cow_chunk) = xs ! i" using i l(1) by (simp only: nth_drop less_imp_le)
    moreover have "cow_get c i = nth_opt (take cow_chunk ?d) (i mod cow_chunk)"
      using ok True l(1) by (simp add: cow_get_def cow_ok_def chop_nth)
    ultimately show ?thesis using True l by (simp add: nth_opt_def)
  next
    case False
    then show ?thesis using ok by (simp add: cow_get_def cow_ok_def nth_opt_def)
  qed
qed

lemma cow_new_ok: "cow_ok [] cow_new"
  by (simp add: cow_ok_def cow_new_def)

lemma cow_push_ok: "cow_ok xs c \<Longrightarrow> \<exists>c'. cow_push v c = Some c' \<and> cow_ok (xs @ [v]) c'"
proof -
  assume ok: "cow_ok xs c"
  show ?thesis
    using ok by (simp add: cow_push_def cow_ok_def chop_append length_chop Let_def)
qed

lemma chop_update: "i < length xs \<Longrightarrow>
  chop (xs[i := v]) = (chop xs)[i div cow_chunk := (chop xs ! (i div cow_chunk))[i mod cow_chunk := v]]"
proof (induction xs arbitrary: i rule: chop.induct)
  case (1 xs)
  then have ne: "xs \<noteq> []" by auto
  show ?case
  proof (cases "i < cow_chunk")
    case True
    then show ?thesis using ne by (simp add: chop_nonempty drop_update_cancel take_update_swap)
  next
    case False
    then have d: "i div cow_chunk = Suc ((i - cow_chunk) div cow_chunk)" "i mod cow_chunk = (i - cow_chunk) mod cow_chunk"
      by (simp_all add: le_div_geq le_mod_geq)
    have "i - cow_chunk < length (drop cow_chunk xs)" using 1 False by auto
    from 1(1)[OF ne this] show ?thesis
      using False ne by (simp add: chop_nonempty d drop_update_swap)
  qed
qed

lemma cow_set_ok: "cow_ok xs c \<Longrightarrow> i < length xs \<Longrightarrow> \<exists>c'. cow_set i v c = Some c' \<and> cow_ok (xs[i := v]) c'"
  using cow_get_eq[of xs c i] by (auto simp: cow_set_def nth_opt_def cow_ok_def chop_update)

lemma cow_swap_ok:
  "cow_ok xs c \<Longrightarrow> a < length xs \<Longrightarrow> b < length xs \<Longrightarrow>
   \<exists>c'. cow_swap a b c = Some c' \<and> cow_ok (xs[a := xs ! b, b := xs ! a]) c'"
proof -
  assume ok: "cow_ok xs c" and ab: "a < length xs" "b < length xs"
  obtain c1 where c1: "cow_set a (xs ! b) c = Some c1" "cow_ok (xs[a := xs ! b]) c1"
    using cow_set_ok[OF ok ab(1)] by blast
  obtain c2 where "cow_set b (xs ! a) c1 = Some c2" "cow_ok (xs[a := xs ! b, b := xs ! a]) c2"
    using cow_set_ok[OF c1(2)] ab by fastforce
  then show ?thesis
    using ok ab c1 cow_get_eq[OF ok] by (auto simp: cow_swap_def nth_opt_def)
qed

lemma cow_pop_ok:
  assumes ok: "cow_ok xs c"
  shows "\<exists>c'. cow_pop c = Some (if xs = [] then None else Some (List.last xs), c') \<and> cow_ok (butlast xs) c'"
proof (cases xs rule: rev_cases)
  case Nil
  then show ?thesis using ok by (simp add: cow_pop_def cow_ok_def)
next
  case (snoc ys v)
  let ?k = "length ys div cow_chunk"
  have c: "cw_len c = Suc (length ys)" "cw_chunks c = chop (ys @ [v])" using ok by (simp_all add: cow_ok_def snoc)
  show ?thesis
  proof (cases "length ys mod cow_chunk = 0")
    case True
    then have k: "length (chop ys) = ?k" by (simp add: length_chop)
    have "chop (ys @ [v]) = chop ys @ [[v]]" using True by (simp add: chop_append)
    moreover have "(chop ys @ [[v]]) ! ?k = [v]" unfolding k[symmetric] by simp
    moreover have "butlast ((chop ys @ [[v]])[?k := []]) = chop ys" unfolding k[symmetric] by simp
    ultimately show ?thesis using c k by (simp add: cow_pop_def cow_ok_def snoc Let_def)
  next
    case False
    then have a: "chop (ys @ [v]) = (chop ys)[?k := chop ys ! ?k @ [v]]" by (simp add: chop_append Let_def)
    have e: "?k * cow_chunk + length ys mod cow_chunk = length ys" by simp
    then have lt: "?k * cow_chunk < length ys" using False by linarith
    then have "nth_opt (chop ys) ?k = Some (take cow_chunk (drop (?k * cow_chunk) ys))" by (simp add: chop_nth)
    then have k: "?k < length (chop ys)" and ne: "chop ys ! ?k \<noteq> []"
      using lt by (auto simp: nth_opt_Some_iff)
    show ?thesis using c a k ne by (simp add: cow_pop_def cow_ok_def snoc Let_def nth_append)
  qed
qed

section \<open>The contract of a column\<close>

text \<open>
  What the projection asks of a column: it stands for a list, reads are those of the list, no write in
  range panics, and each write stands for the list operation.
\<close>

locale column =
  fixes rep :: "'a list \<Rightarrow> 'c \<Rightarrow> bool"
    and empty :: 'c
    and get :: "'c \<Rightarrow> nat \<Rightarrow> 'a option"
    and push :: "'a \<Rightarrow> 'c \<Rightarrow> 'c option"
    and put :: "nat \<Rightarrow> 'a \<Rightarrow> 'c \<Rightarrow> 'c option"
    and swap :: "nat \<Rightarrow> nat \<Rightarrow> 'c \<Rightarrow> 'c option"
    and pop :: "'c \<Rightarrow> ('a option \<times> 'c) option"
  assumes rep_empty: "rep [] empty"
    and rep_get: "rep xs c \<Longrightarrow> get c i = nth_opt xs i"
    and rep_push: "rep xs c \<Longrightarrow> \<exists>c'. push v c = Some c' \<and> rep (xs @ [v]) c'"
    and rep_put: "rep xs c \<Longrightarrow> i < length xs \<Longrightarrow> \<exists>c'. put i v c = Some c' \<and> rep (xs[i := v]) c'"
    and rep_swap: "rep xs c \<Longrightarrow> a < length xs \<Longrightarrow> b < length xs \<Longrightarrow>
      \<exists>c'. swap a b c = Some c' \<and> rep (xs[a := xs ! b, b := xs ! a]) c'"
    and rep_pop: "rep xs c \<Longrightarrow>
      \<exists>c'. pop c = Some (if xs = [] then None else Some (List.last xs), c') \<and> rep (butlast xs) c'"
begin

text \<open>The step the projection takes when a locus leaves: its row is swapped with the last and popped.\<close>

lemma swap_remove:
  assumes "rep xs c" and "i < length xs"
  shows "\<exists>c1 c2. swap i (length xs - 1) c = Some c1 \<and> pop c1 = Some (Some (xs ! i), c2)
    \<and> rep (butlast (xs[i := List.last xs])) c2"
proof -
  let ?ys = "xs[i := xs ! (length xs - 1), length xs - 1 := xs ! i]"
  have ne: "xs \<noteq> []" using assms(2) by auto
  obtain c1 where c1: "swap i (length xs - 1) c = Some c1" "rep ?ys c1"
    using rep_swap[OF assms(1,2), of "length xs - 1"] ne by auto
  obtain c2 where c2: "pop c1 = Some (if ?ys = [] then None else Some (List.last ?ys), c2)" "rep (butlast ?ys) c2"
    using rep_pop[OF c1(2)] by blast
  have "List.last ?ys = xs ! i" using ne assms(2) by (simp add: last_conv_nth)
  moreover have "butlast ?ys = butlast (xs[i := List.last xs])"
    using ne by (simp add: last_conv_nth butlast_list_update)
  ultimately show ?thesis using c1(1) c2 ne by auto
qed

end

interpretation cow: column cow_ok cow_new cow_get cow_push cow_set cow_swap cow_pop
  by unfold_locales (fact cow_new_ok cow_get_eq cow_push_ok cow_set_ok cow_swap_ok cow_pop_ok)+

text \<open>
  C30: The chunked column is a vector.  Reads are those of the vector it stands for, out of range
  included; a push across a chunk boundary or inside a chunk appends; and swapping a row with the last
  one and popping, as the projection does when a locus leaves, never panics, returns that row and leaves
  the vector with the last row moved into its place.
\<close>

theorem column_refines_vector:
  assumes "cow_ok xs c"
  shows "cow_get c i = nth_opt xs i
    \<and> (\<exists>c'. cow_push v c = Some c' \<and> cow_ok (xs @ [v]) c')
    \<and> (i < length xs \<longrightarrow> (\<exists>c1 c2. cow_swap i (length xs - 1) c = Some c1
        \<and> cow_pop c1 = Some (Some (xs ! i), c2) \<and> cow_ok (butlast (xs[i := List.last xs])) c2))"
  using cow.rep_get[OF assms, of i] cow.rep_push[OF assms, of v] cow.swap_remove[OF assms, of i] by simp

theorem column_refines_vector_witness:
  "\<exists>c c'. cow_push 7 cow_new = Some c \<and> cow_push 9 c = Some c' \<and> cow_get c' 1 = Some (9::nat) \<and> cow_get c' 2 = None
    \<and> (\<exists>c1 c2. cow_swap 0 1 c' = Some c1 \<and> cow_pop c1 = Some (Some 7, c2) \<and> cow_ok [9] c2)"
proof -
  obtain c where c: "cow_push 7 cow_new = Some c" "cow_ok [7::nat] c"
    using column_refines_vector[OF cow_new_ok, of 0 "7::nat"] by auto
  obtain c' where c': "cow_push 9 c = Some c'" "cow_ok [7, 9::nat] c'"
    using column_refines_vector[OF c(2), of 0 9] by auto
  show ?thesis
    using c(1) c'(1) column_refines_vector[OF c'(2), of 0] column_refines_vector[OF c'(2), of 1]
      column_refines_vector[OF c'(2), of 2]
    by (simp add: nth_opt_def)
qed

end
