(* ===== verification/WorldGrid.thy ===== *)
theory WorldGrid
  imports WorldCow CoreSpace "HOL-Library.Product_Lexorder"
begin

text \<open>
  \<open>klotho-world/src/grid.rs\<close>: the kernel's spatial index.  A \<open>GridIndex\<close> files each hull under the XZ
  cells it covers; a \<open>PlaceIndex\<close> keeps one grid per Place, one for unplaced loci, and a coarse
  box per Place.  The abstract specification of a grid is a map from packed index to box and tag
  (\<open>grid_rel\<close>), that of a place index a map to box, tag and Place (\<open>pix_rel\<close>).
\<close>

text \<open>\<open>get(i).copied().unwrap_or(d)\<close> of a column.\<close>

definition nth_or :: "'a \<Rightarrow> 'a list \<Rightarrow> nat \<Rightarrow> 'a" where
  "nth_or d xs i = (if i < length xs then xs ! i else d)"

lemma nth_or_simps [simp]:
  "nth_or d [] i = d" "nth_or d (xs @ replicate n d) i = nth_or d xs i"
  "i < length xs \<Longrightarrow> nth_or d (xs[i := x]) j = (if j = i then x else nth_or d xs j)"
  "length xs \<le> i \<Longrightarrow> nth_or d xs i = d"
  by (auto simp: nth_or_def nth_append)

section \<open>The grid of one Place\<close>

type_synonym packed_ix = nat
type_synonym cell = "int \<times> int"

definition max_loci_process :: nat where
  "max_loci_process = 200000"

definition max_loci_hearth :: nat where
  "max_loci_hearth = 4096"

definition packed_in_range :: "packed_ix \<Rightarrow> bool" where
  "packed_in_range ix \<longleftrightarrow> ix < max_loci_process"

definition cell_mm :: int where
  "cell_mm = 1024"

definition cells_of :: "aabb \<Rightarrow> cell list" where
  "cells_of b =
     concat (map (\<lambda>x. map (\<lambda>z. (x, z)) [vz (bmin b) div cell_mm .. vz (bmax b) div cell_mm])
       [vx (bmin b) div cell_mm .. vx (bmax b) div cell_mm])"

definition world_aabb :: "aabb \<Rightarrow> ivec3 \<Rightarrow> aabb" where
  "world_aabb b t = aabb_new (ivec3_wrapping_add (bmin b) t) (ivec3_wrapping_add (bmax b) t)"

record grid_index =
  gi_cells :: "(cell, (packed_ix, bool) btree) btree"
  gi_occupied :: "cell list list"

definition grid_new :: grid_index where
  "grid_new = \<lparr>gi_cells = [], gi_occupied = []\<rparr>"

definition grid_ensure :: "packed_ix \<Rightarrow> grid_index \<Rightarrow> grid_index" where
  "grid_ensure ix g =
     (if \<not> packed_in_range ix then g
      else g\<lparr>gi_occupied := gi_occupied g @ replicate (ix + 1 - length (gi_occupied g)) []\<rparr>)"

definition cell_drop :: "packed_ix \<Rightarrow> cell \<Rightarrow> (cell, (packed_ix, bool) btree) btree
    \<Rightarrow> (cell, (packed_ix, bool) btree) btree" where
  "cell_drop ix c m =
     (case bt_get m c of
        None \<Rightarrow> m
      | Some b \<Rightarrow> let b' = bt_remove ix b in if b' = [] then bt_remove c m else bt_insert c b' m)"

definition cell_add :: "packed_ix \<Rightarrow> bool \<Rightarrow> cell \<Rightarrow> (cell, (packed_ix, bool) btree) btree
    \<Rightarrow> (cell, (packed_ix, bool) btree) btree" where
  "cell_add ix oc c m =
     bt_insert c (bt_insert ix oc (case bt_get m c of None \<Rightarrow> [] | Some b \<Rightarrow> b)) m"

definition grid_unindex :: "packed_ix \<Rightarrow> grid_index \<Rightarrow> grid_index" where
  "grid_unindex ix g =
     (if length (gi_occupied g) \<le> ix then g
      else g\<lparr>gi_cells := fold (cell_drop ix) (gi_occupied g ! ix) (gi_cells g),
             gi_occupied := (gi_occupied g)[ix := []]\<rparr>)"

definition grid_index_hull :: "packed_ix \<Rightarrow> aabb \<Rightarrow> bool \<Rightarrow> grid_index \<Rightarrow> grid_index" where
  "grid_index_hull ix world oc g =
     (if \<not> packed_in_range ix then g
      else let g = grid_unindex ix g in
        if aabb_is_empty world then g
        else let g = grid_ensure ix g; cs = cells_of world in
          g\<lparr>gi_cells := fold (cell_add ix oc) cs (gi_cells g), gi_occupied := (gi_occupied g)[ix := cs]\<rparr>)"

definition grid_rebuild :: "(packed_ix \<times> aabb \<times> bool) list \<Rightarrow> grid_index \<Rightarrow> grid_index" where
  "grid_rebuild items g = fold (\<lambda>(ix, b, oc). grid_index_hull ix b oc) items (g\<lparr>gi_cells := [], gi_occupied := []\<rparr>)"

definition grid_candidates :: "grid_index \<Rightarrow> aabb \<Rightarrow> bool \<Rightarrow> (packed_ix, unit) btree" where
  "grid_candidates g swept only =
     (if aabb_is_empty swept then []
      else fold (\<lambda>c out. case bt_get (gi_cells g) c of
             None \<Rightarrow> out
           | Some b \<Rightarrow> fold (\<lambda>(ix, oc) out. if \<not> only \<or> oc then bt_insert ix () out else out) b out)
         (cells_of swept) [])"

section \<open>The index over Places\<close>

record place_index =
  pi_unplaced :: grid_index
  pi_places :: "(sigil, grid_index) btree"
  pi_bounds :: "(sigil, aabb) btree"
  pi_hulls :: "(sigil, (packed_ix, aabb) btree) btree"
  pi_home :: "sigil option list"

definition pix_new :: place_index where
  "pix_new = \<lparr>pi_unplaced = grid_new, pi_places = [], pi_bounds = [], pi_hulls = [], pi_home = []\<rparr>"

definition pix_ensure :: "packed_ix \<Rightarrow> place_index \<Rightarrow> place_index" where
  "pix_ensure ix p =
     (if \<not> packed_in_range ix then p
      else p\<lparr>pi_home := pi_home p @ replicate (ix + 1 - length (pi_home p)) None\<rparr>)"

text \<open>The union of the boxes of a Place, in iteration order.\<close>

definition hull_union :: "(packed_ix, aabb) btree \<Rightarrow> aabb option" where
  "hull_union h = fold (\<lambda>(_, b) u. Some (case u of None \<Rightarrow> b | Some prev \<Rightarrow> aabb_union prev b)) h None"

definition set_place_bounds :: "sigil \<Rightarrow> place_index \<Rightarrow> place_index" where
  "set_place_bounds place p =
     (case Option.bind (bt_get (pi_hulls p) place) hull_union of
        Some b \<Rightarrow> p\<lparr>pi_bounds := bt_insert place b (pi_bounds p)\<rparr>
      | None \<Rightarrow> p\<lparr>pi_hulls := bt_remove place (pi_hulls p),
                   pi_places := bt_remove place (pi_places p),
                   pi_bounds := bt_remove place (pi_bounds p)\<rparr>)"

definition forget_place_hull :: "sigil \<Rightarrow> packed_ix \<Rightarrow> place_index \<Rightarrow> place_index" where
  "forget_place_hull place ix p =
     set_place_bounds place
       (case bt_get (pi_hulls p) place of
          None \<Rightarrow> p
        | Some h \<Rightarrow> p\<lparr>pi_hulls := bt_insert place (bt_remove ix h) (pi_hulls p)\<rparr>)"

definition pix_unindex :: "packed_ix \<Rightarrow> place_index \<Rightarrow> place_index" where
  "pix_unindex ix p =
     (if length (pi_home p) \<le> ix then p
      else let prev = pi_home p ! ix; p = p\<lparr>pi_home := (pi_home p)[ix := None]\<rparr> in
        case prev of
          Some pl \<Rightarrow>
            forget_place_hull pl ix
              (case bt_get (pi_places p) pl of
                 None \<Rightarrow> p
               | Some g \<Rightarrow> p\<lparr>pi_places := bt_insert pl (grid_unindex ix g) (pi_places p)\<rparr>)
        | None \<Rightarrow> p\<lparr>pi_unplaced := grid_unindex ix (pi_unplaced p)\<rparr>)"

definition pix_index :: "packed_ix \<Rightarrow> aabb \<Rightarrow> bool \<Rightarrow> sigil option \<Rightarrow> place_index \<Rightarrow> place_index" where
  "pix_index ix world oc place p =
     (if \<not> packed_in_range ix then p
      else let p = pix_unindex ix p in
        if aabb_is_empty world then p
        else let p = pix_ensure ix p in
          case place of
            Some pl \<Rightarrow>
              let g = (case bt_get (pi_places p) pl of None \<Rightarrow> grid_new | Some g \<Rightarrow> g);
                  h = (case bt_get (pi_hulls p) pl of None \<Rightarrow> [] | Some h \<Rightarrow> h);
                  b = (case bt_get (pi_bounds p) pl of None \<Rightarrow> world | Some b \<Rightarrow> aabb_union b world) in
              p\<lparr>pi_places := bt_insert pl (grid_index_hull ix world oc g) (pi_places p),
                pi_hulls := bt_insert pl (bt_insert ix world h) (pi_hulls p),
                pi_bounds := bt_insert pl b (pi_bounds p),
                pi_home := (pi_home p)[ix := Some pl]\<rparr>
          | None \<Rightarrow> p\<lparr>pi_unplaced := grid_index_hull ix world oc (pi_unplaced p),
                       pi_home := (pi_home p)[ix := None]\<rparr>)"

definition pix_rebuild :: "(packed_ix \<times> aabb \<times> bool \<times> sigil option) list \<Rightarrow> place_index" where
  "pix_rebuild items = fold (\<lambda>(ix, b, oc, pl). pix_index ix b oc pl) items pix_new"

definition pix_candidates :: "place_index \<Rightarrow> aabb \<Rightarrow> bool \<Rightarrow> (packed_ix, unit) btree" where
  "pix_candidates p swept only =
     fold (\<lambda>(pl, bounds) out.
       if aabb_intersects bounds swept
       then case bt_get (pi_places p) pl of
           None \<Rightarrow> out
         | Some g \<Rightarrow> fold (\<lambda>(ix, u) out. bt_insert ix u out) (grid_candidates g swept only) out
       else out)
     (pi_bounds p) (grid_candidates (pi_unplaced p) swept only)"

end
