(* ===== verification/WorldProj.thy ===== *)
theory WorldProj
  imports WorldGrid TraceEvent CanonStore CanonTables
begin

text \<open>
  \<open>klotho-world/src/proj.rs\<close>: the projection, a structure of parallel columns indexed by a dense packed
  row, plus maps keyed by that row.  The columns are \<open>CowCol\<close>s, which \<open>WorldCow\<close> shows to be
  vectors, and are lists here; a write to a column at a row that does not exist panics in Rust and
  leaves the list unchanged here, and the invariant of \<open>WorldProjInv\<close> excludes it.  \<open>u32\<close> row
  indices are \<open>nat\<close>: the row cap is \<open>200000\<close>.
\<close>

section \<open>Rows\<close>

datatype world_error = LocusCap | UnknownLocus | PlaceSnap

record phys_request =
  pr_lin :: ivec3
  pr_ang :: ivec3

record constraint_state =
  cs_impulse :: int
  cs_broken :: bool

type_synonym support = "int \<times> int \<times> int \<times> int"
type_synonym blob_id = digest

record rite_machine =
  rm_started_at :: tick
  rm_wait_at :: tick
  rm_contact_hit :: bool
  rm_contact_agency :: nat
  rm_pc :: nat
  rm_wait_left :: nat
  rm_target :: "sigil option"
  rm_wait_ch :: "channel option"

text \<open>Zero or more neighbours; a single one is stored inline.\<close>

record neighbors =
  nb_one :: "sigil option"
  nb_more :: "sigil list"

definition nb_default :: neighbors where
  "nb_default = \<lparr>nb_one = None, nb_more = []\<rparr>"

definition nb_slice :: "neighbors \<Rightarrow> sigil list" where
  "nb_slice n = (if nb_more n = [] then (case nb_one n of None \<Rightarrow> [] | Some s \<Rightarrow> [s]) else nb_more n)"

definition nb_len :: "neighbors \<Rightarrow> nat" where
  "nb_len n = (if nb_more n = [] then (if nb_one n = None then 0 else 1) else length (nb_more n))"

definition nb_is_empty :: "neighbors \<Rightarrow> bool" where
  "nb_is_empty n \<longleftrightarrow> nb_len n = 0"

definition nb_push :: "sigil \<Rightarrow> neighbors \<Rightarrow> neighbors" where
  "nb_push s n =
     (if nb_more n \<noteq> [] then n\<lparr>nb_more := nb_more n @ [s]\<rparr>
      else case nb_one n of
        None \<Rightarrow> n\<lparr>nb_one := Some s\<rparr>
      | Some first \<Rightarrow> n\<lparr>nb_more := [first, s], nb_one := None\<rparr>)"

definition nb_retain :: "(sigil \<Rightarrow> bool) \<Rightarrow> neighbors \<Rightarrow> neighbors" where
  "nb_retain f n =
     (if nb_more n \<noteq> [] then
        let m = filter f (nb_more n) in
          if length m = 1 then n\<lparr>nb_one := Some (hd m), nb_more := []\<rparr> else n\<lparr>nb_more := m\<rparr>
      else case nb_one n of
        None \<Rightarrow> n
      | Some s \<Rightarrow> if f s then n else n\<lparr>nb_one := None\<rparr>)"

definition vel_zero :: vel3 where
  "vel_zero = \<lparr>v3x = 0, v3y = 0, v3z = 0\<rparr>"

record projection =
  p_locus_cap :: nat
  p_by_sigil :: "(sigil, packed_ix) btree"
  p_sigils :: "sigil list"
  p_kinds :: "locus_kind list"
  p_afford :: "64 word list"
  p_hull :: "aabb option list"
  p_hull_id :: "blob_id list"
  p_pose :: "pose option list"
  p_vel :: "vel3 list"
  p_yaw_rate :: "int list"
  p_pitch_rate :: "int list"
  p_roll_rate :: "int list"
  p_island :: "nat list"
  p_sleep :: "nat list"
  p_lod :: "sim_lod list"
  p_in_place :: "sigil option list"
  p_support :: "support option list"
  p_attach :: "ivec3 option list"
  p_rels :: "(packed_ix \<times> nat, neighbors) btree"
  p_qty :: "(packed_ix \<times> nat, int) btree"
  p_phys :: "(packed_ix, phys_request) btree"
  p_constraints :: "(sigil, constraint_state) btree"
  p_rites :: "(packed_ix \<times> nat, rite_machine) btree"
  p_knows :: "(packed_ix \<times> nat, unit) btree"
  p_space :: place_index
  p_opaque :: "nat option"

definition proj_with_cap :: "nat option \<Rightarrow> nat \<Rightarrow> projection" where
  "proj_with_cap opaque cap =
     \<lparr>p_locus_cap = min cap max_loci_process, p_by_sigil = [], p_sigils = [], p_kinds = [], p_afford = [],
      p_hull = [], p_hull_id = [], p_pose = [], p_vel = [], p_yaw_rate = [], p_pitch_rate = [], p_roll_rate = [],
      p_island = [], p_sleep = [], p_lod = [], p_in_place = [], p_support = [], p_attach = [],
      p_rels = [], p_qty = [], p_phys = [], p_constraints = [], p_rites = [], p_knows = [],
      p_space = pix_new, p_opaque = opaque\<rparr>"

definition proj_new :: "nat option \<Rightarrow> projection" where
  "proj_new opaque = proj_with_cap opaque max_loci_hearth"

section \<open>Reading\<close>

definition proj_packed :: "projection \<Rightarrow> sigil \<Rightarrow> packed_ix option" where
  "proj_packed p s = bt_get (p_by_sigil p) s"

definition proj_sigil :: "projection \<Rightarrow> packed_ix \<Rightarrow> sigil option" where
  "proj_sigil p i = nth_opt (p_sigils p) i"

definition proj_len :: "projection \<Rightarrow> nat" where
  "proj_len p = length (p_sigils p)"

definition world_hull :: "projection \<Rightarrow> packed_ix \<Rightarrow> aabb option" where
  "world_hull p i =
     (case (nth_or None (p_hull p) i, nth_or None (p_pose p) i) of
        (Some local, Some q) \<Rightarrow> Some (world_aabb local (pose_translation q))
      | _ \<Rightarrow> None)"

definition opaque_closed_ix :: "projection \<Rightarrow> packed_ix \<Rightarrow> bool" where
  "opaque_closed_ix p i =
     (case p_opaque p of
        None \<Rightarrow> False
      | Some a \<Rightarrow> a < 64 \<and> bit (nth_or 0 (p_afford p) i) a
          \<and> (case bt_get (p_rels p) (i, rel_as_u8 LockedBy) of None \<Rightarrow> False | Some v \<Rightarrow> \<not> nb_is_empty v))"

definition place_for :: "projection \<Rightarrow> packed_ix \<Rightarrow> sigil option" where
  "place_for p i =
     (case nth_opt (p_sigils p) i of
        None \<Rightarrow> None
      | Some s \<Rightarrow> if nth_opt (p_kinds p) i = Some Place then Some s else nth_or None (p_in_place p) i)"

definition related_slice :: "projection \<Rightarrow> sigil \<Rightarrow> rel \<Rightarrow> sigil list" where
  "related_slice p a r =
     (case proj_packed p a of
        None \<Rightarrow> []
      | Some i \<Rightarrow>
          if r = In then (case nth_or None (p_in_place p) i of None \<Rightarrow> [] | Some b \<Rightarrow> [b])
          else (case bt_get (p_rels p) (i, rel_as_u8 r) of None \<Rightarrow> [] | Some n \<Rightarrow> nb_slice n))"

definition proj_has_rel :: "projection \<Rightarrow> sigil \<Rightarrow> rel \<Rightarrow> sigil \<Rightarrow> bool" where
  "proj_has_rel p a r b \<longleftrightarrow> b \<in> set (related_slice p a r)"

definition proj_has_affordance :: "projection \<Rightarrow> sigil \<Rightarrow> nat \<Rightarrow> bool" where
  "proj_has_affordance p s a =
     (case proj_packed p s of None \<Rightarrow> False | Some i \<Rightarrow> a < 64 \<and> bit (nth_or 0 (p_afford p) i) a)"

definition proj_qty :: "projection \<Rightarrow> sigil \<Rightarrow> nat \<Rightarrow> int" where
  "proj_qty p s r =
     (case proj_packed p s of
        None \<Rightarrow> 0
      | Some i \<Rightarrow> (case bt_get (p_qty p) (i, r) of None \<Rightarrow> 0 | Some v \<Rightarrow> v))"

definition proj_pose :: "projection \<Rightarrow> sigil \<Rightarrow> pose option" where
  "proj_pose p s = Option.bind (proj_packed p s) (nth_or None (p_pose p))"

definition proj_vel :: "projection \<Rightarrow> sigil \<Rightarrow> (vel3 \<times> int) option" where
  "proj_vel p s = map_option (\<lambda>i. (nth_or vel_zero (p_vel p) i, nth_or 0 (p_yaw_rate p) i)) (proj_packed p s)"

definition proj_rates :: "projection \<Rightarrow> sigil \<Rightarrow> (int \<times> int \<times> int) option" where
  "proj_rates p s = map_option (\<lambda>i. (nth_or 0 (p_yaw_rate p) i, nth_or 0 (p_pitch_rate p) i, nth_or 0 (p_roll_rate p) i))
     (proj_packed p s)"

definition proj_support :: "projection \<Rightarrow> sigil \<Rightarrow> support option" where
  "proj_support p s = Option.bind (proj_packed p s) (nth_or None (p_support p))"

definition proj_attach_local :: "projection \<Rightarrow> sigil \<Rightarrow> ivec3 option" where
  "proj_attach_local p s = Option.bind (proj_packed p s) (nth_or None (p_attach p))"

definition attach_parent :: "projection \<Rightarrow> sigil \<Rightarrow> sigil option" where
  "attach_parent p s = nth_opt (related_slice p s PilotedBy @ related_slice p s AttachedTo) 0"

definition proj_island :: "projection \<Rightarrow> sigil \<Rightarrow> (nat \<times> nat) option" where
  "proj_island p s = map_option (\<lambda>i. (nth_or 0 (p_island p) i, nth_or 0 (p_sleep p) i)) (proj_packed p s)"

definition proj_sim_lod :: "projection \<Rightarrow> sigil \<Rightarrow> sim_lod" where
  "proj_sim_lod p s = (case proj_packed p s of None \<Rightarrow> Full | Some i \<Rightarrow> nth_or Full (p_lod p) i)"

definition proj_hull :: "projection \<Rightarrow> sigil \<Rightarrow> aabb option" where
  "proj_hull p s = Option.bind (proj_packed p s) (nth_or None (p_hull p))"

definition proj_hull_id :: "projection \<Rightarrow> sigil \<Rightarrow> blob_id option" where
  "proj_hull_id p s = Option.bind (proj_packed p s) (nth_opt (p_hull_id p))"

definition proj_kind :: "projection \<Rightarrow> sigil \<Rightarrow> locus_kind option" where
  "proj_kind p s = Option.bind (proj_packed p s) (nth_opt (p_kinds p))"

definition proj_phys_req :: "projection \<Rightarrow> sigil \<Rightarrow> phys_request option" where
  "proj_phys_req p s = Option.bind (proj_packed p s) (bt_get (p_phys p))"

definition proj_knows :: "projection \<Rightarrow> sigil \<Rightarrow> nat \<Rightarrow> bool" where
  "proj_knows p m f = (case proj_packed p m of None \<Rightarrow> False | Some i \<Rightarrow> bt_has (p_knows p) (i, f))"

definition proj_rite :: "projection \<Rightarrow> sigil \<Rightarrow> nat \<Rightarrow> rite_machine option" where
  "proj_rite p a r = Option.bind (proj_packed p a) (\<lambda>i. bt_get (p_rites p) (i, r))"

text \<open>Rites of an actor, in id order: the map is sorted by row, then by rite.\<close>

definition rites_of :: "projection \<Rightarrow> sigil \<Rightarrow> (nat \<times> rite_machine) list" where
  "rites_of p a =
     (case proj_packed p a of
        None \<Rightarrow> []
      | Some i \<Rightarrow> map (\<lambda>(k, m). (snd k, m)) (filter (\<lambda>(k, m). fst k = i) (p_rites p)))"

definition first_rite :: "projection \<Rightarrow> sigil \<Rightarrow> (nat \<times> rite_machine) option" where
  "first_rite p a = nth_opt (rites_of p a) 0"

definition opaque_closed :: "projection \<Rightarrow> sigil \<Rightarrow> bool" where
  "opaque_closed p s = (case proj_packed p s of None \<Rightarrow> False | Some i \<Rightarrow> opaque_closed_ix p i)"

definition posed_hull :: "projection \<Rightarrow> sigil \<Rightarrow> aabb option" where
  "posed_hull p s = Option.bind (proj_packed p s) (world_hull p)"

definition with_affordance :: "projection \<Rightarrow> nat \<Rightarrow> sigil list" where
  "with_affordance p a = filter (\<lambda>s. proj_has_affordance p s a) (p_sigils p)"

section \<open>The spatial index\<close>

definition rebuild_space_ix :: "projection \<Rightarrow> projection" where
  "rebuild_space_ix p = p\<lparr>p_space := pix_rebuild
     (List.map_filter (\<lambda>i. map_option (\<lambda>b. (i, b, opaque_closed_ix p i, place_for p i)) (world_hull p i))
       [0..<length (p_sigils p)])\<rparr>"

definition reindex_ix :: "packed_ix \<Rightarrow> projection \<Rightarrow> projection" where
  "reindex_ix i p = p\<lparr>p_space :=
     (case world_hull p i of
        Some b \<Rightarrow> pix_index i b (opaque_closed_ix p i) (place_for p i) (p_space p)
      | None \<Rightarrow> pix_unindex i (p_space p))\<rparr>"

section \<open>Writing\<close>

definition insert_locus_at_end :: "sigil \<Rightarrow> locus_kind \<Rightarrow> projection \<Rightarrow> world_error + packed_ix \<times> projection" where
  "insert_locus_at_end s kind p =
     (case proj_packed p s of
        Some i \<Rightarrow> Inr (i, p)
      | None \<Rightarrow>
          if p_locus_cap p \<le> length (p_sigils p) then Inl LocusCap
          else let i = length (p_sigils p) in
            Inr (i, p\<lparr>p_by_sigil := bt_insert s i (p_by_sigil p), p_sigils := p_sigils p @ [s], p_kinds := p_kinds p @ [kind],
              p_afford := p_afford p @ [0], p_hull := p_hull p @ [None], p_hull_id := p_hull_id p @ [hash_zero],
              p_pose := p_pose p @ [None], p_vel := p_vel p @ [vel_zero], p_yaw_rate := p_yaw_rate p @ [0],
              p_pitch_rate := p_pitch_rate p @ [0], p_roll_rate := p_roll_rate p @ [0], p_island := p_island p @ [0],
              p_sleep := p_sleep p @ [0], p_lod := p_lod p @ [Full], p_in_place := p_in_place p @ [None],
              p_support := p_support p @ [None], p_attach := p_attach p @ [None]\<rparr>))"

definition insert_locus :: "sigil \<Rightarrow> locus_kind \<Rightarrow> projection \<Rightarrow> world_error + packed_ix \<times> projection" where
  "insert_locus s kind p =
     rbind (insert_locus_at_end s kind p) (\<lambda>(i, p). Inr (i, p\<lparr>p_space := pix_ensure i (p_space p)\<rparr>))"

definition require :: "projection \<Rightarrow> sigil \<Rightarrow> world_error + packed_ix" where
  "require p s = (case proj_packed p s of None \<Rightarrow> Inl UnknownLocus | Some i \<Rightarrow> Inr i)"

definition set_affordance :: "sigil \<Rightarrow> nat \<Rightarrow> bool \<Rightarrow> projection \<Rightarrow> world_error + projection" where
  "set_affordance s a on p =
     rbind (require p s) (\<lambda>i. Inr (reindex_ix i
       (if a < 64
        then p\<lparr>p_afford := (p_afford p)[i := if on then set_bit a (p_afford p ! i) else unset_bit a (p_afford p ! i)]\<rparr>
        else p)))"

definition set_hull :: "sigil \<Rightarrow> aabb \<Rightarrow> blob_id \<Rightarrow> projection \<Rightarrow> world_error + projection" where
  "set_hull s local bid p =
     rbind (require p s) (\<lambda>i. Inr (reindex_ix i (p\<lparr>p_hull := (p_hull p)[i := Some local], p_hull_id := (p_hull_id p)[i := bid]\<rparr>)))"

definition set_pose :: "sigil \<Rightarrow> pose \<Rightarrow> projection \<Rightarrow> world_error + projection" where
  "set_pose s q p = rbind (require p s) (\<lambda>i. Inr (reindex_ix i (p\<lparr>p_pose := (p_pose p)[i := Some q]\<rparr>)))"

definition set_vel :: "sigil \<Rightarrow> vel3 \<Rightarrow> int \<Rightarrow> projection \<Rightarrow> world_error + projection" where
  "set_vel s v yaw p = rbind (require p s) (\<lambda>i. Inr (p\<lparr>p_vel := (p_vel p)[i := v], p_yaw_rate := (p_yaw_rate p)[i := yaw]\<rparr>))"

definition set_rates :: "sigil \<Rightarrow> int \<Rightarrow> int \<Rightarrow> int \<Rightarrow> projection \<Rightarrow> world_error + projection" where
  "set_rates s yaw pitch roll p = rbind (require p s) (\<lambda>i.
     Inr (p\<lparr>p_yaw_rate := (p_yaw_rate p)[i := yaw], p_pitch_rate := (p_pitch_rate p)[i := pitch], p_roll_rate := (p_roll_rate p)[i := roll]\<rparr>))"

definition set_support :: "sigil \<Rightarrow> support option \<Rightarrow> projection \<Rightarrow> world_error + projection" where
  "set_support s v p = rbind (require p s) (\<lambda>i. Inr (p\<lparr>p_support := (p_support p)[i := v]\<rparr>))"

definition set_attach_local :: "sigil \<Rightarrow> ivec3 option \<Rightarrow> projection \<Rightarrow> world_error + projection" where
  "set_attach_local s v p = rbind (require p s) (\<lambda>i. Inr (p\<lparr>p_attach := (p_attach p)[i := v]\<rparr>))"

definition set_island :: "sigil \<Rightarrow> nat \<Rightarrow> nat \<Rightarrow> projection \<Rightarrow> world_error + projection" where
  "set_island s island sleep p = rbind (require p s) (\<lambda>i.
     Inr (p\<lparr>p_island := (p_island p)[i := island], p_sleep := (p_sleep p)[i := sleep]\<rparr>))"

definition set_sim_lod :: "sigil \<Rightarrow> sim_lod \<Rightarrow> projection \<Rightarrow> world_error + projection" where
  "set_sim_lod s l p = rbind (require p s) (\<lambda>i. Inr (p\<lparr>p_lod := (p_lod p)[i := l]\<rparr>))"

definition set_qty :: "sigil \<Rightarrow> nat \<Rightarrow> int \<Rightarrow> projection \<Rightarrow> world_error + projection" where
  "set_qty s r v p = rbind (require p s) (\<lambda>i. Inr (p\<lparr>p_qty := bt_insert (i, r) v (p_qty p)\<rparr>))"

definition set_phys_req :: "sigil \<Rightarrow> phys_request \<Rightarrow> projection \<Rightarrow> world_error + projection" where
  "set_phys_req s q p = rbind (require p s) (\<lambda>i. Inr (p\<lparr>p_phys := bt_insert i q (p_phys p)\<rparr>))"

definition clear_phys_req :: "sigil \<Rightarrow> projection \<Rightarrow> world_error + projection" where
  "clear_phys_req s p = rbind (require p s) (\<lambda>i. Inr (p\<lparr>p_phys := bt_remove i (p_phys p)\<rparr>))"

definition set_constraint_state :: "sigil \<Rightarrow> constraint_state \<Rightarrow> projection \<Rightarrow> projection" where
  "set_constraint_state c st p = p\<lparr>p_constraints := bt_insert c st (p_constraints p)\<rparr>"

definition constraint_state_of :: "projection \<Rightarrow> sigil \<Rightarrow> constraint_state option" where
  "constraint_state_of p c = bt_get (p_constraints p) c"

definition restore_constraint_states :: "(sigil \<times> constraint_state) list \<Rightarrow> projection \<Rightarrow> projection" where
  "restore_constraint_states rows p = p\<lparr>p_constraints := fold (\<lambda>(c, st) m. bt_insert c st m) rows []\<rparr>"

definition put_rite :: "sigil \<Rightarrow> nat \<Rightarrow> rite_machine \<Rightarrow> projection \<Rightarrow> projection" where
  "put_rite a r m p =
     (case proj_packed p a of None \<Rightarrow> p | Some i \<Rightarrow> p\<lparr>p_rites := bt_insert (i, r) m (p_rites p)\<rparr>)"

section \<open>Relations\<close>

definition add_rel_raw :: "sigil \<Rightarrow> rel \<Rightarrow> sigil \<Rightarrow> projection \<Rightarrow> world_error + packed_ix \<times> projection" where
  "add_rel_raw a r b p =
     rbind (require p a) (\<lambda>i.
       if r = In then Inr (i, p\<lparr>p_in_place := (p_in_place p)[i := Some b]\<rparr>)
       else let k = (i, rel_as_u8 r); n = (case bt_get (p_rels p) k of None \<Rightarrow> nb_default | Some n \<Rightarrow> n) in
         Inr (i, p\<lparr>p_rels := bt_insert k (if b \<in> set (nb_slice n) then n else nb_push b n) (p_rels p)\<rparr>))"

definition default_attach_local :: "pose option \<Rightarrow> pose option \<Rightarrow> ivec3 option" where
  "default_attach_local child parent =
     (case (child, parent) of
        (Some c, Some q) \<Rightarrow>
          Some (rotate_xz (ivec3 (wrap32 (px c - px q)) (wrap32 (py c - py q)) (wrap32 (pz c - pz q))) (yaw_wrapping_sub 0 (pyaw q)))
      | _ \<Rightarrow> None)"

definition default_attach :: "packed_ix \<Rightarrow> sigil \<Rightarrow> rel \<Rightarrow> sigil \<Rightarrow> projection \<Rightarrow> projection" where
  "default_attach i a r b p =
     (if (r = AttachedTo \<or> r = PilotedBy) \<and> nth_or None (p_attach p) i = None
      then (case default_attach_local (proj_pose p a) (proj_pose p b) of
              Some l \<Rightarrow> p\<lparr>p_attach := (p_attach p)[i := Some l]\<rparr> | None \<Rightarrow> p)
      else p)"

definition add_rel :: "sigil \<Rightarrow> rel \<Rightarrow> sigil \<Rightarrow> projection \<Rightarrow> world_error + projection" where
  "add_rel a r b p =
     rbind (add_rel_raw a r b p) (\<lambda>(i, p).
       let p = default_attach i a r b p in
       Inr (if r = LockedBy \<or> r = In then reindex_ix i p else p))"

definition drop_edge :: "packed_ix \<Rightarrow> rel \<Rightarrow> sigil \<Rightarrow> projection \<Rightarrow> projection" where
  "drop_edge i r b p =
     (case bt_get (p_rels p) (i, rel_as_u8 r) of
        None \<Rightarrow> p
      | Some n \<Rightarrow> p\<lparr>p_rels := bt_insert (i, rel_as_u8 r) (nb_retain (\<lambda>x. x \<noteq> b) n) (p_rels p)\<rparr>)"

definition detach :: "packed_ix \<Rightarrow> sigil \<Rightarrow> rel \<Rightarrow> projection \<Rightarrow> projection" where
  "detach i a r p =
     (if (r = AttachedTo \<or> r = PilotedBy) \<and> related_slice p a AttachedTo @ related_slice p a PilotedBy = []
      then p\<lparr>p_attach := (p_attach p)[i := None]\<rparr> else p)"

definition del_rel :: "sigil \<Rightarrow> rel \<Rightarrow> sigil \<Rightarrow> projection \<Rightarrow> world_error + projection" where
  "del_rel a r b p =
     rbind (require p a) (\<lambda>i.
       if r = In then
         Inr (reindex_ix i (if nth_or None (p_in_place p) i = Some b then p\<lparr>p_in_place := (p_in_place p)[i := None]\<rparr> else p))
       else
         let p = detach i a r (drop_edge i r b p) in
         Inr (if r = LockedBy then reindex_ix i p else p))"

section \<open>Events\<close>

definition machine_began :: "tick \<Rightarrow> sigil option \<Rightarrow> rite_machine" where
  "machine_began t target =
     \<lparr>rm_started_at = t, rm_wait_at = t, rm_contact_hit = False, rm_contact_agency = 0, rm_pc = 0, rm_wait_left = 0,
      rm_target = target, rm_wait_ch = None\<rparr>"

definition machine_advanced :: "tick \<Rightarrow> nat \<Rightarrow> nat \<Rightarrow> rite_machine \<Rightarrow> rite_machine" where
  "machine_advanced t pc wait m =
     (let m = (if rm_pc m \<noteq> pc \<or> rm_wait_left m = 0 \<or> wait > rm_wait_left m then m\<lparr>rm_wait_at := t\<rparr> else m)
      in m\<lparr>rm_pc := pc, rm_wait_left := wait\<rparr>)"

text \<open>\<open>rites.get_mut(&(i, rite))\<close> of a packed actor.\<close>

definition update_rite :: "sigil \<Rightarrow> nat \<Rightarrow> (rite_machine \<Rightarrow> rite_machine) \<Rightarrow> projection \<Rightarrow> projection" where
  "update_rite a r f p =
     (case proj_packed p a of
        None \<Rightarrow> p
      | Some i \<Rightarrow> (case bt_get (p_rites p) (i, r) of
            None \<Rightarrow> p
          | Some m \<Rightarrow> p\<lparr>p_rites := bt_insert (i, r) (f m) (p_rites p)\<rparr>))"

definition ensure_locus :: "sigil \<Rightarrow> projection \<Rightarrow> world_error + packed_ix \<times> projection" where
  "ensure_locus s p = (case proj_packed p s of Some i \<Rightarrow> Inr (i, p) | None \<Rightarrow> insert_locus s Relic p)"

text \<open>\<open>if let Some(v) = x\<close> around a write.\<close>

definition when_some :: "'a option \<Rightarrow> ('a \<Rightarrow> projection \<Rightarrow> projection) \<Rightarrow> projection \<Rightarrow> projection" where
  "when_some x f p = (case x of None \<Rightarrow> p | Some v \<Rightarrow> f v p)"

text \<open>One member of an island snapshot; a column that is too short leaves its value.\<close>

definition apply_member :: "island_snap \<Rightarrow> nat \<times> sigil \<Rightarrow> projection \<Rightarrow> projection" where
  "apply_member snap km p =
     (case ensure_locus (snd km) p of
        Inl _ \<Rightarrow> p
      | Inr (i, p) \<Rightarrow>
          let k = fst km;
              p = when_some (nth_opt (is_poses snap) k) (\<lambda>q p. p\<lparr>p_pose := (p_pose p)[i := Some q]\<rparr>) p;
              p = when_some (nth_opt (is_vels snap) k) (\<lambda>v p. p\<lparr>p_vel := (p_vel p)[i := v]\<rparr>) p;
              p = when_some (nth_opt (is_yaw_rates snap) k) (\<lambda>y p. p\<lparr>p_yaw_rate := (p_yaw_rate p)[i := y]\<rparr>) p;
              p = when_some (nth_opt (is_sleep snap) k) (\<lambda>t p. p\<lparr>p_sleep := (p_sleep p)[i := t]\<rparr>) p
          in reindex_ix i (p\<lparr>p_island := (p_island p)[i := is_island snap]\<rparr>))"

definition ignore_error :: "projection \<Rightarrow> world_error + projection \<Rightarrow> projection" where
  "ignore_error p r = (case r of Inl _ \<Rightarrow> p | Inr q \<Rightarrow> q)"

fun apply_body :: "tick \<Rightarrow> trace_body \<Rightarrow> projection \<Rightarrow> projection" where
  "apply_body t (RiteBegan a r target) p = put_rite a r (machine_began t target) p"
| "apply_body t (RiteAdvanced a r pc wait) p = update_rite a r (machine_advanced t pc wait) p"
| "apply_body t (RiteEnded a r st) p =
     (case proj_packed p a of None \<Rightarrow> p | Some i \<Rightarrow> p\<lparr>p_rites := bt_remove (i, r) (p_rites p)\<rparr>)"
| "apply_body t (QtyChanged s r v q) p = ignore_error p (set_qty s r v p)"
| "apply_body t (IslandSnap snap) p = fold (apply_member snap) (enumerate 0 (is_members snap)) p"
| "apply_body t (PoseCommitted s q r) p =
     (case proj_packed p s of None \<Rightarrow> p | Some i \<Rightarrow> reindex_ix i (p\<lparr>p_pose := (p_pose p)[i := Some q]\<rparr>))"
| "apply_body t (Spawned tm s q) p =
     (case insert_locus s Relic p of Inl _ \<Rightarrow> p | Inr (i, p) \<Rightarrow> ignore_error p (set_pose s q p))"
| "apply_body t (MotionActionAuthorized a r inst ch) p =
     update_rite a r (\<lambda>m. if rm_started_at m = inst then m\<lparr>rm_contact_agency := ch\<rparr> else m) p"
| "apply_body t (MotionContactAdmitted a ins target r inst ch bd) p =
     update_rite a r (\<lambda>m. if rm_started_at m = inst \<and> rm_target m = Some target then m\<lparr>rm_contact_hit := True\<rparr> else m) p"
| "apply_body t (Learned m f) p =
     (case proj_packed p m of None \<Rightarrow> p | Some i \<Rightarrow> p\<lparr>p_knows := bt_insert (i, f) () (p_knows p)\<rparr>)"
| "apply_body t (RelAdded a r b) p =
     (case rel_from_u8 r of None \<Rightarrow> p | Some rel \<Rightarrow> ignore_error p (add_rel a rel b p))"
| "apply_body t (RelDeleted a r b) p =
     (case rel_from_u8 r of None \<Rightarrow> p | Some rel \<Rightarrow> ignore_error p (del_rel a rel b p))"
| "apply_body t SaveRequested p = p"
| "apply_body t (Emitted k a b) p = p"
| "apply_body t (Uttered s fs) p = p"
| "apply_body t (PlaceLoaded pl n) p = p"
| "apply_body t (PlaceEvicted pl) p = p"
| "apply_body t (Despawned s g) p = p"
| "apply_body t (ConstraintBroken c a b i f) p = p"

definition apply_event :: "trace_event \<Rightarrow> projection \<Rightarrow> projection" where
  "apply_event e p = apply_body (ev_tick e) (ev_body e) p"

section \<open>Removing loci\<close>

definition rekey :: "packed_ix \<Rightarrow> packed_ix \<Rightarrow> (packed_ix \<times> nat, 'v) btree \<Rightarrow> (packed_ix \<times> nat, 'v) btree" where
  "rekey from to m =
     fold (\<lambda>k m. case bt_get m k of None \<Rightarrow> m | Some v \<Rightarrow> bt_insert (to, snd k) v (bt_remove k m))
       (filter (\<lambda>k. fst k = from) (map fst m)) m"

definition remap_packed :: "packed_ix \<Rightarrow> packed_ix \<Rightarrow> projection \<Rightarrow> projection" where
  "remap_packed from to p =
     p\<lparr>p_rels := rekey from to (p_rels p), p_qty := rekey from to (p_qty p),
       p_phys := (case bt_get (p_phys p) from of None \<Rightarrow> p_phys p | Some q \<Rightarrow> bt_insert to q (bt_remove from (p_phys p))),
       p_rites := rekey from to (p_rites p), p_knows := rekey from to (p_knows p)\<rparr>"

definition swap_rows :: "packed_ix \<Rightarrow> packed_ix \<Rightarrow> 'a list \<Rightarrow> 'a list" where
  "swap_rows a b xs = xs[a := xs ! b, b := xs ! a]"

definition swap_packed :: "packed_ix \<Rightarrow> packed_ix \<Rightarrow> projection \<Rightarrow> projection" where
  "swap_packed a b p =
     p\<lparr>p_sigils := swap_rows a b (p_sigils p), p_kinds := swap_rows a b (p_kinds p), p_afford := swap_rows a b (p_afford p),
       p_hull := swap_rows a b (p_hull p), p_hull_id := swap_rows a b (p_hull_id p), p_pose := swap_rows a b (p_pose p),
       p_vel := swap_rows a b (p_vel p), p_yaw_rate := swap_rows a b (p_yaw_rate p), p_pitch_rate := swap_rows a b (p_pitch_rate p),
       p_roll_rate := swap_rows a b (p_roll_rate p), p_island := swap_rows a b (p_island p), p_sleep := swap_rows a b (p_sleep p),
       p_lod := swap_rows a b (p_lod p), p_in_place := swap_rows a b (p_in_place p), p_support := swap_rows a b (p_support p),
       p_attach := swap_rows a b (p_attach p)\<rparr>"

definition pop_packed :: "projection \<Rightarrow> projection" where
  "pop_packed p =
     p\<lparr>p_sigils := butlast (p_sigils p), p_kinds := butlast (p_kinds p), p_afford := butlast (p_afford p),
       p_hull := butlast (p_hull p), p_hull_id := butlast (p_hull_id p), p_pose := butlast (p_pose p),
       p_vel := butlast (p_vel p), p_yaw_rate := butlast (p_yaw_rate p), p_pitch_rate := butlast (p_pitch_rate p),
       p_roll_rate := butlast (p_roll_rate p), p_island := butlast (p_island p), p_sleep := butlast (p_sleep p),
       p_lod := butlast (p_lod p), p_in_place := butlast (p_in_place p), p_support := butlast (p_support p),
       p_attach := butlast (p_attach p)\<rparr>"

definition strip_packed_maps :: "packed_ix list \<Rightarrow> projection \<Rightarrow> projection" where
  "strip_packed_maps ixs p =
     p\<lparr>p_rels := filter (\<lambda>(k, v). fst k \<notin> set ixs) (p_rels p), p_qty := filter (\<lambda>(k, v). fst k \<notin> set ixs) (p_qty p),
       p_phys := filter (\<lambda>(k, v). k \<notin> set ixs) (p_phys p), p_rites := filter (\<lambda>(k, v). fst k \<notin> set ixs) (p_rites p),
       p_knows := filter (\<lambda>(k, v). fst k \<notin> set ixs) (p_knows p)\<rparr>"

definition drop_packed_maps :: "packed_ix \<Rightarrow> projection \<Rightarrow> projection" where
  "drop_packed_maps i = strip_packed_maps [i]"

definition scrub_incoming_set :: "sigil list \<Rightarrow> projection \<Rightarrow> projection" where
  "scrub_incoming_set gone p =
     p\<lparr>p_rels := map (\<lambda>(k, n). (k, nb_retain (\<lambda>x. x \<notin> set gone) n)) (p_rels p),
       p_in_place := map (\<lambda>q. case q of Some s \<Rightarrow> if s \<in> set gone then None else q | None \<Rightarrow> q) (p_in_place p)\<rparr>"

definition swap_out_locus :: "sigil \<Rightarrow> projection \<Rightarrow> world_error + projection" where
  "swap_out_locus s p =
     rbind (require p s) (\<lambda>i.
       let last = length (p_sigils p) - 1;
           p = (if i \<noteq> last
                then let q = remap_packed last i (swap_packed i last p) in
                  q\<lparr>p_by_sigil := bt_insert (p_sigils q ! i) i (p_by_sigil q)\<rparr>
                else p);
           p = pop_packed p
       in Inr (p\<lparr>p_by_sigil := bt_remove s (p_by_sigil p)\<rparr>))"

text \<open>The set of the dropped sigils iterates in order; the rows are then removed from the highest down.\<close>

definition drop_loci :: "sigil list \<Rightarrow> projection \<Rightarrow> world_error + projection" where
  "drop_loci gone p =
     rbind (rfold (\<lambda>ixs s. rbind (require p s) (\<lambda>i. Inr (ixs @ [i]))) [] gone) (\<lambda>ixs.
       let sigs = remdups (sort gone);
           p = scrub_incoming_set sigs (strip_packed_maps ixs p);
           ordered = sort_key (\<lambda>(i, s). - int i) (List.map_filter (\<lambda>s. map_option (\<lambda>i. (i, s)) (proj_packed p s)) sigs)
       in rfold (\<lambda>p (i, s). swap_out_locus s p) p ordered)"

definition remove_locus :: "sigil \<Rightarrow> projection \<Rightarrow> world_error + projection" where
  "remove_locus s p = drop_loci [s] p"

section \<open>Leaving a Place\<close>

definition place_members :: "projection \<Rightarrow> sigil \<Rightarrow> sigil list" where
  "place_members p place = filter (\<lambda>s. s \<noteq> place \<and> proj_has_rel p s In place) (p_sigils p)"

definition is_migrating :: "projection \<Rightarrow> sigil \<Rightarrow> sigil list \<Rightarrow> bool" where
  "is_migrating p s in_place \<longleftrightarrow>
     (\<exists>host \<in> set (related_slice p s AttachedTo @ related_slice p s PilotedBy). host \<notin> set in_place)"

record place_evict_plan =
  ep_drop :: "sigil list"
  ep_rites :: "(sigil \<times> nat) list"

definition plan_place_evict :: "projection \<Rightarrow> sigil \<Rightarrow> world_error + place_evict_plan" where
  "plan_place_evict p place =
     rbind (require p place) (\<lambda>_.
       let members = place_members p place;
           gone = filter (\<lambda>s. \<not> is_migrating p s (place # members)) members
       in Inr \<lparr>ep_drop = gone, ep_rites = concat (map (\<lambda>s. map (\<lambda>(r, m). (s, r)) (rites_of p s)) gone)\<rparr>)"

end
