(* ===== verification/WorldGridProps.thy ===== *)
theory WorldGridProps
  imports WorldGrid
begin

text \<open>
  The spatial index is its specification: a grid is the map it was built from, a place index the map
  of every indexed hull, whatever the order of the updates, and no hull that meets a query box is missing
  from the candidates.
\<close>

section \<open>Cells\<close>

definition cell_look :: "(cell, (packed_ix, bool) btree) btree \<Rightarrow> cell \<Rightarrow> packed_ix \<Rightarrow> bool option" where
  "cell_look m c ix = Option.bind (bt_get m c) (\<lambda>b. bt_get b ix)"

definition cells_ok :: "(cell, (packed_ix, bool) btree) btree \<Rightarrow> bool" where
  "cells_ok m \<longleftrightarrow> bt_sorted m \<and> (\<forall>c b. bt_get m c = Some b \<longrightarrow> bt_sorted b \<and> b \<noteq> [])"

lemma cell_drop_ok: "cells_ok m \<Longrightarrow> cells_ok (cell_drop ix c m)"
  by (auto simp: cells_ok_def cell_drop_def bt_get_insert bt_get_remove Let_def split: option.split if_splits)

lemma bt_insert_ne [simp]: "bt_insert k v m \<noteq> []"
  by (cases m) (auto split: if_splits)

lemma cell_add_ok: "cells_ok m \<Longrightarrow> cells_ok (cell_add ix oc c m)"
  by (auto simp: cells_ok_def cell_add_def bt_get_insert split: option.split if_splits)

lemma cells_okD: "cells_ok m \<Longrightarrow> bt_get m c = Some b \<Longrightarrow> bt_sorted b" "cells_ok m \<Longrightarrow> bt_get m c = Some b \<Longrightarrow> b \<noteq> []"
  "cells_ok m \<Longrightarrow> bt_sorted m"
  unfolding cells_ok_def by blast+

lemma cell_drop_look:
  assumes "cells_ok m"
  shows "cell_look (cell_drop ix c m) c' i = (if c' = c \<and> i = ix then None else cell_look m c' i)"
proof (cases "bt_get m c")
  case None
  then show ?thesis by (simp add: cell_drop_def cell_look_def)
next
  case (Some b)
  have "bt_get (bt_remove ix b) j = (if j = ix then None else bt_get b j)" for j
    using bt_get_remove cells_okD(1)[OF assms Some] by blast
  moreover from this have "bt_get b j = None" if "bt_remove ix b = []" "j \<noteq> ix" for j
    using that by (metis bt_get.simps(1))
  ultimately show ?thesis
    using Some cells_okD(3)[OF assms] by (simp add: cell_drop_def cell_look_def bt_get_insert bt_get_remove Let_def)
qed

lemma cell_add_look:
  "cell_look (cell_add ix oc c m) c' i = (if c' = c \<and> i = ix then Some oc else cell_look m c' i)"
  by (auto simp: cell_add_def cell_look_def bt_get_insert split: option.split)

lemma cells_drop:
  "cells_ok m \<Longrightarrow> cells_ok (fold (cell_drop ix) cs m)
    \<and> cell_look (fold (cell_drop ix) cs m) c i = (if c \<in> set cs \<and> i = ix then None else cell_look m c i)"
  by (induction cs arbitrary: m) (auto simp: cell_drop_ok cell_drop_look)

lemma cells_add:
  "cells_ok m \<Longrightarrow> cells_ok (fold (cell_add ix oc) cs m)
    \<and> cell_look (fold (cell_add ix oc) cs m) c i = (if c \<in> set cs \<and> i = ix then Some oc else cell_look m c i)"
  by (induction cs arbitrary: m) (auto simp: cell_add_ok cell_add_look)

section \<open>One grid\<close>

type_synonym grid_spec = "packed_ix \<Rightarrow> (aabb \<times> bool) option"

definition spec_cells :: "grid_spec \<Rightarrow> packed_ix \<Rightarrow> cell list" where
  "spec_cells G ix = (case G ix of None \<Rightarrow> [] | Some (b, _) \<Rightarrow> cells_of b)"

definition spec_look :: "grid_spec \<Rightarrow> cell \<Rightarrow> packed_ix \<Rightarrow> bool option" where
  "spec_look G c ix = (case G ix of None \<Rightarrow> None | Some (b, oc) \<Rightarrow> if c \<in> set (cells_of b) then Some oc else None)"

lemma spec_simps [simp]:
  "spec_cells (G(ix := None)) i = (if i = ix then [] else spec_cells G i)"
  "spec_cells (G(ix := Some (b, oc))) i = (if i = ix then cells_of b else spec_cells G i)"
  "spec_look (G(ix := None)) c i = (if i = ix then None else spec_look G c i)"
  "spec_look (G(ix := Some (b, oc))) c i =
     (if i = ix then if c \<in> set (cells_of b) then Some oc else None else spec_look G c i)"
  by (simp_all add: spec_cells_def spec_look_def)

lemma spec_look_cells: "c \<notin> set (spec_cells G ix) \<Longrightarrow> spec_look G c ix = None"
  by (auto simp: spec_cells_def spec_look_def split: option.splits)

lemma spec_look_Some: "spec_look G c i = Some oc \<longleftrightarrow> (\<exists>b. G i = Some (b, oc) \<and> c \<in> set (cells_of b))"
  by (simp add: spec_look_def split: option.split)

definition grid_rel :: "grid_index \<Rightarrow> grid_spec \<Rightarrow> bool" where
  "grid_rel g G \<longleftrightarrow>
     cells_ok (gi_cells g) \<and> cell_look (gi_cells g) = spec_look G \<and> nth_or [] (gi_occupied g) = spec_cells G"

lemma grid_new_rel: "grid_rel grid_new (\<lambda>_. None)"
  by (simp add: grid_rel_def grid_new_def cells_ok_def cell_look_def spec_cells_def spec_look_def fun_eq_iff)

lemma grid_unindex_rel:
  assumes "grid_rel g G"
  shows "grid_rel (grid_unindex ix g) (G(ix := None))"
proof -
  have ok: "cells_ok (gi_cells g)" and lk: "cell_look (gi_cells g) = spec_look G" and oc: "nth_or [] (gi_occupied g) = spec_cells G"
    using assms by (simp_all add: grid_rel_def)
  show ?thesis
  proof (cases "length (gi_occupied g) \<le> ix")
    case True
    then have "spec_cells G ix = []" unfolding oc[symmetric] by simp
    then have "spec_look G c ix = None" for c by (simp add: spec_look_cells)
    then show ?thesis using ok lk oc True \<open>spec_cells G ix = []\<close>
      by (simp add: grid_rel_def grid_unindex_def fun_eq_iff)
  next
    case False
    have cs: "gi_occupied g ! ix = spec_cells G ix" unfolding oc[symmetric] using False by (simp add: nth_or_def)
    note d = cells_drop[OF ok, of ix "spec_cells G ix"]
    have "cell_look (fold (cell_drop ix) (spec_cells G ix) (gi_cells g)) c i = spec_look (G(ix := None)) c i" for c i
      using d[of c i] spec_look_cells[of c G ix] by (simp add: lk)
    then show ?thesis using d oc False by (simp add: grid_rel_def grid_unindex_def cs fun_eq_iff)
  qed
qed

lemma grid_ensure_simps:
  assumes "packed_in_range ix"
  shows "gi_cells (grid_ensure ix g) = gi_cells g" "nth_or [] (gi_occupied (grid_ensure ix g)) = nth_or [] (gi_occupied g)"
    "ix < length (gi_occupied (grid_ensure ix g))"
  using assms by (auto simp: grid_ensure_def fun_eq_iff)

lemma grid_index_rel:
  assumes "grid_rel g G" and "packed_in_range ix"
  shows "grid_rel (grid_index_hull ix b oc g) (G(ix := if aabb_is_empty b then None else Some (b, oc)))"
proof -
  have r: "grid_rel (grid_unindex ix g) (G(ix := None))" by (rule grid_unindex_rel[OF assms(1)])
  show ?thesis
  proof (cases "aabb_is_empty b")
    case True
    then show ?thesis using r assms(2) by (simp add: grid_index_hull_def)
  next
    case False
    have ok: "cells_ok (gi_cells (grid_unindex ix g))" and lk: "cell_look (gi_cells (grid_unindex ix g)) = spec_look (G(ix := None))"
      and oc: "nth_or [] (gi_occupied (grid_unindex ix g)) = spec_cells (G(ix := None))"
      using r by (simp_all add: grid_rel_def)
    show ?thesis
      using False assms(2) cells_add[OF ok, of ix oc "cells_of b"] lk oc
      by (simp add: grid_rel_def grid_index_hull_def Let_def grid_ensure_simps fun_eq_iff)
  qed
qed

text \<open>The cells are determined by the specification: an index rebuilt from scratch has the same ones.\<close>

lemma grid_cells_unique:
  assumes "grid_rel g G" "grid_rel g' G"
  shows "gi_cells g = gi_cells g'"
proof -
  have ok: "cells_ok (gi_cells g)" "cells_ok (gi_cells g')" using assms by (simp_all add: grid_rel_def)
  have lk: "cell_look (gi_cells g) = cell_look (gi_cells g')" using assms by (simp add: grid_rel_def)
  have e: "bt_get (gi_cells g) c = bt_get (gi_cells g') c" for c
  proof -
    have l: "Option.bind (bt_get (gi_cells g) c) (\<lambda>b. bt_get b i) = Option.bind (bt_get (gi_cells g') c) (\<lambda>b. bt_get b i)" for i
      using fun_cong[OF fun_cong[OF lk], of c i] by (simp add: cell_look_def)
    have ne: "\<exists>i. bt_get b i \<noteq> None" if "b \<noteq> []" for b :: "(packed_ix, bool) btree"
      using that by (cases b) auto
    show ?thesis
    proof (cases "bt_get (gi_cells g) c")
      case None
      then have n: "Option.bind (bt_get (gi_cells g') c) (\<lambda>b. bt_get b i) = None" for i using l by simp
      have "bt_get (gi_cells g') c \<noteq> Some b" for b
        using n ne[of b] cells_okD(2)[OF ok(2), of c b] by fastforce
      then show ?thesis using None by (cases "bt_get (gi_cells g') c") auto
    next
      case (Some b)
      then obtain i where i: "bt_get b i \<noteq> None" using ne cells_okD(2)[OF ok(1)] by blast
      then obtain b' where b': "bt_get (gi_cells g') c = Some b'"
        using l[of i] Some by (cases "bt_get (gi_cells g') c") auto
      have "b = b'"
        by (rule bt_ext) (use l Some b' cells_okD(1)[OF ok(1) Some] cells_okD(1)[OF ok(2) b'] in simp_all)
      then show ?thesis using Some b' by simp
    qed
  qed
  show ?thesis by (rule bt_ext) (use ok e in \<open>simp_all add: cells_ok_def\<close>)
qed

section \<open>Candidates of one grid\<close>

lemma set_cells_of:
  "set (cells_of b) = {vx (bmin b) div cell_mm .. vx (bmax b) div cell_mm} \<times> {vz (bmin b) div cell_mm .. vz (bmax b) div cell_mm}"
  by (auto simp: cells_of_def)

definition cells_meet :: "aabb \<Rightarrow> aabb \<Rightarrow> bool" where
  "cells_meet a b \<longleftrightarrow> set (cells_of a) \<inter> set (cells_of b) \<noteq> {}"

lemma intersects_cells_meet: "aabb_intersects a b \<Longrightarrow> cells_meet a b"
proof -
  assume i: "aabb_intersects a b"
  have m: "x \<le> y \<Longrightarrow> x div cell_mm \<le> y div cell_mm" for x y by (simp add: cell_mm_def zdiv_mono1)
  let ?x = "max (vx (bmin a)) (vx (bmin b)) div cell_mm" and ?z = "max (vz (bmin a)) (vz (bmin b)) div cell_mm"
  have "(?x, ?z) \<in> set (cells_of a) \<inter> set (cells_of b)"
    using i by (auto simp: set_cells_of aabb_intersects_def aabb_is_empty_def intro!: m split: if_splits)
  then show ?thesis unfolding cells_meet_def by blast
qed

lemma file_bucket:
  "bt_get (fold (\<lambda>(ix, oc) out. if \<not> only \<or> oc then bt_insert ix () out else out) b out) i \<noteq> None
   \<longleftrightarrow> bt_get out i \<noteq> None \<or> (\<exists>oc. (i, oc) \<in> set b \<and> (only \<longrightarrow> oc))"
proof (induction b arbitrary: out)
  case (Cons p b)
  obtain ix oc where "p = (ix, oc)" by (cases p)
  let ?o = "if \<not> only \<or> oc then bt_insert ix () out else out"
  have "bt_get ?o i \<noteq> None \<longleftrightarrow> bt_get out i \<noteq> None \<or> i = ix \<and> (only \<longrightarrow> oc)" by (simp add: bt_get_insert)
  then show ?case
    by (simp only: \<open>p = (ix, oc)\<close> fold.simps comp_apply prod.case Cons list.set insert_iff prod.inject) blast
qed simp

lemma bt_get_mem: "bt_sorted m \<Longrightarrow> (k, v) \<in> set m \<longleftrightarrow> bt_get m k = Some v"
  by (auto dest: bt_get_Some_in bt_get_in)

lemma file_cells:
  assumes "cells_ok m"
  shows "bt_get (fold (\<lambda>c out. case bt_get m c of
             None \<Rightarrow> out
           | Some b \<Rightarrow> fold (\<lambda>(ix, oc) out. if \<not> only \<or> oc then bt_insert ix () out else out) b out) cs out) i \<noteq> None
   \<longleftrightarrow> bt_get out i \<noteq> None \<or> (\<exists>c \<in> set cs. \<exists>oc. cell_look m c i = Some oc \<and> (only \<longrightarrow> oc))"
proof (induction cs arbitrary: out)
  case (Cons c cs)
  show ?case
  proof (cases "bt_get m c")
    case None
    then have "cell_look m c i = None" by (simp add: cell_look_def)
    then show ?thesis by (simp only: fold.simps comp_apply None option.case Cons) simp
  next
    case (Some b)
    have b: "(i, oc) \<in> set b \<longleftrightarrow> cell_look m c i = Some oc" for oc
      using bt_get_mem[OF cells_okD(1)[OF assms Some]] Some by (simp add: cell_look_def)
    show ?thesis
      by (simp only: fold.simps comp_apply Some option.case Cons file_bucket b) auto
  qed
qed simp

lemma grid_candidates_iff:
  assumes "grid_rel g G"
  shows "bt_get (grid_candidates g swept only) i \<noteq> None
    \<longleftrightarrow> (\<exists>b oc. G i = Some (b, oc) \<and> (only \<longrightarrow> oc) \<and> \<not> aabb_is_empty swept \<and> cells_meet b swept)"
proof (cases "aabb_is_empty swept")
  case True
  then show ?thesis by (simp add: grid_candidates_def)
next
  case False
  have ok: "cells_ok (gi_cells g)" and lk: "cell_look (gi_cells g) = spec_look G" using assms by (simp_all add: grid_rel_def)
  have "bt_get (grid_candidates g swept only) i \<noteq> None
      \<longleftrightarrow> (\<exists>c \<in> set (cells_of swept). \<exists>oc. spec_look G c i = Some oc \<and> (only \<longrightarrow> oc))"
    using file_cells[OF ok, of only "cells_of swept" "[]" i] False by (simp add: grid_candidates_def lk)
  also have "\<dots> \<longleftrightarrow> (\<exists>b oc. G i = Some (b, oc) \<and> (only \<longrightarrow> oc) \<and> cells_meet b swept)"
    unfolding spec_look_Some cells_meet_def by blast
  finally show ?thesis using False by simp
qed

section \<open>The coarse box\<close>

definition bound_of :: "aabb set \<Rightarrow> aabb \<Rightarrow> bool" where
  "bound_of S b \<longleftrightarrow>
     vx (bmin b) = Min ((\<lambda>a. vx (bmin a)) ` S) \<and> vx (bmax b) = Max ((\<lambda>a. vx (bmax a)) ` S)
     \<and> vy (bmin b) = Min ((\<lambda>a. vy (bmin a)) ` S) \<and> vy (bmax b) = Max ((\<lambda>a. vy (bmax a)) ` S)
     \<and> vz (bmin b) = Min ((\<lambda>a. vz (bmin a)) ` S) \<and> vz (bmax b) = Max ((\<lambda>a. vz (bmax a)) ` S)"

lemma bound_unique: "bound_of S b \<Longrightarrow> bound_of S b' \<Longrightarrow> b = b'"
  by (simp add: bound_of_def)

lemma bound_single: "bound_of {a} a"
  by (simp add: bound_of_def)

lemma bound_covers:
  assumes "bound_of S b" "finite S" "a \<in> S"
  shows "vx (bmin b) \<le> vx (bmin a) \<and> vx (bmax a) \<le> vx (bmax b) \<and> vy (bmin b) \<le> vy (bmin a) \<and> vy (bmax a) \<le> vy (bmax b)
    \<and> vz (bmin b) \<le> vz (bmin a) \<and> vz (bmax a) \<le> vz (bmax b)"
  using assms by (auto simp: bound_of_def)

lemma bound_nonempty:
  assumes "bound_of S b" "finite S" "a \<in> S" "\<not> aabb_is_empty a"
  shows "\<not> aabb_is_empty b"
  using bound_covers[OF assms(1-3)] assms(4) by (auto simp: aabb_is_empty_def)

lemma ivec3_min_max:
  "vx (ivec3_min a b) = min (vx a) (vx b)" "vy (ivec3_min a b) = min (vy a) (vy b)" "vz (ivec3_min a b) = min (vz a) (vz b)"
  "vx (ivec3_max a b) = max (vx a) (vx b)" "vy (ivec3_max a b) = max (vy a) (vy b)" "vz (ivec3_max a b) = max (vz a) (vz b)"
  by (simp_all add: ivec3_min_def ivec3_max_def ivec3_def)

lemma bound_insert:
  assumes "bound_of S b" "finite S" "S \<noteq> {}" "\<forall>a \<in> S. \<not> aabb_is_empty a" "\<not> aabb_is_empty a"
  shows "bound_of (insert a S) (aabb_union b a)"
proof -
  have "\<not> aabb_is_empty b" using bound_nonempty assms by blast
  then have "aabb_union b a = aabb_new (ivec3_min (bmin b) (bmin a)) (ivec3_max (bmax b) (bmax a))"
    using assms(5) by (simp add: aabb_union_def)
  then show ?thesis
    using assms(1-3) by (simp add: bound_of_def aabb_new_def ivec3_min_max min.commute max.commute)
qed

lemma bound_intersects:
  assumes "bound_of S b" "finite S" "a \<in> S" "aabb_intersects a w"
  shows "aabb_intersects b w"
proof -
  have e: "\<not> aabb_is_empty a" "\<not> aabb_is_empty w" using assms(4) by (auto simp: aabb_intersects_def)
  then have "\<not> aabb_is_empty b" using bound_nonempty[OF assms(1-3)] by simp
  then show ?thesis
    using bound_covers[OF assms(1-3)] assms(4) e by (simp add: aabb_intersects_def)
qed

lemma hull_union_bound:
  assumes "h \<noteq> []" "\<forall>a \<in> snd ` set h. \<not> aabb_is_empty a"
  shows "\<exists>b. hull_union h = Some b \<and> bound_of (snd ` set h) b"
proof -
  have g: "\<exists>b'. fold (\<lambda>(_, b) u. Some (case u of None \<Rightarrow> b | Some prev \<Rightarrow> aabb_union prev b)) t (Some b) = Some b'
      \<and> bound_of (S \<union> snd ` set t) b'"
    if "bound_of S b" "finite S" "S \<noteq> {}" "\<forall>a \<in> S \<union> snd ` set t. \<not> aabb_is_empty a" for t S b
    using that
  proof (induction t arbitrary: S b)
    case (Cons p t)
    have "bound_of (insert (snd p) S) (aabb_union b (snd p))" using Cons.prems by (intro bound_insert) auto
    from Cons.IH[OF this] Cons.prems show ?case by (auto simp: case_prod_beta)
  qed simp
  obtain p t where h: "h = p # t" using assms(1) by (cases h) auto
  show ?thesis using g[OF bound_single[of "snd p"], of t] assms(2) by (auto simp: hull_union_def h case_prod_beta)
qed

section \<open>The place index\<close>

type_synonym place_spec = "packed_ix \<Rightarrow> (aabb \<times> bool \<times> sigil option) option"

definition at_place :: "place_spec \<Rightarrow> sigil option \<Rightarrow> grid_spec" where
  "at_place M pl ix = (case M ix of None \<Rightarrow> None | Some (b, oc, q) \<Rightarrow> if q = pl then Some (b, oc) else None)"

definition home_of :: "place_spec \<Rightarrow> packed_ix \<Rightarrow> sigil option" where
  "home_of M ix = (case M ix of None \<Rightarrow> None | Some (_, _, q) \<Rightarrow> q)"

lemma at_place_simps [simp]:
  "at_place (M(ix := None)) pl = (at_place M pl)(ix := None)"
  "at_place (M(ix := Some (b, oc, q))) pl = (at_place M pl)(ix := if q = pl then Some (b, oc) else None)"
  by (auto simp: at_place_def fun_eq_iff)

lemma home_of_simps [simp]:
  "home_of (M(ix := None)) = (home_of M)(ix := None)" "home_of (M(ix := Some (b, oc, q))) = (home_of M)(ix := q)"
  by (auto simp: home_of_def fun_eq_iff)

lemma at_place_Some: "at_place M pl i = Some (b, oc) \<longleftrightarrow> M i = Some (b, oc, pl)"
  by (auto simp: at_place_def split: option.splits)

lemma at_other_place: "home_of M ix \<noteq> pl \<Longrightarrow> (at_place M pl)(ix := None) = at_place M pl"
  by (auto simp: at_place_def home_of_def fun_eq_iff split: option.splits if_splits)

text \<open>What the index holds of one Place.\<close>

definition place_rel :: "place_index \<Rightarrow> sigil \<Rightarrow> grid_spec \<Rightarrow> bool" where
  "place_rel p pl G \<longleftrightarrow>
     (if G = (\<lambda>_. None)
      then bt_get (pi_places p) pl = None \<and> bt_get (pi_hulls p) pl = None \<and> bt_get (pi_bounds p) pl = None
      else \<exists>g h b. bt_get (pi_places p) pl = Some g \<and> bt_get (pi_hulls p) pl = Some h \<and> bt_get (pi_bounds p) pl = Some b
        \<and> grid_rel g G \<and> bt_sorted h \<and> bt_get h = (\<lambda>i. map_option fst (G i)) \<and> bound_of (fst ` ran G) b)"

definition homes_rel :: "sigil option list \<Rightarrow> place_spec \<Rightarrow> bool" where
  "homes_rel hs M \<longleftrightarrow> nth_or None hs = home_of M \<and> dom M \<subseteq> {..<length hs}"

definition pix_rel :: "place_index \<Rightarrow> place_spec \<Rightarrow> bool" where
  "pix_rel p M \<longleftrightarrow>
     bt_sorted (pi_places p) \<and> bt_sorted (pi_hulls p) \<and> bt_sorted (pi_bounds p)
     \<and> grid_rel (pi_unplaced p) (at_place M None)
     \<and> (\<forall>pl. place_rel p pl (at_place M (Some pl)))
     \<and> homes_rel (pi_home p) M
     \<and> (\<forall>ix b oc pl. M ix = Some (b, oc, pl) \<longrightarrow> \<not> aabb_is_empty b)"

lemma place_rel_cong:
  "pi_places p = pi_places p' \<Longrightarrow> pi_hulls p = pi_hulls p' \<Longrightarrow> pi_bounds p = pi_bounds p' \<Longrightarrow> place_rel p = place_rel p'"
  by (simp add: place_rel_def fun_eq_iff)

lemma pix_rel_nonempty: "pix_rel p M \<Longrightarrow> M i = Some (b, oc, pl) \<Longrightarrow> \<not> aabb_is_empty b"
  unfolding pix_rel_def by blast

lemma pix_new_rel: "pix_rel pix_new (\<lambda>_. None)"
proof -
  have "at_place (\<lambda>_. None) pl = (\<lambda>_. None)" for pl by (simp add: at_place_def fun_eq_iff)
  moreover have "home_of (\<lambda>_. None) = (\<lambda>_. None)" "nth_or None [] = (\<lambda>_. None)" by (simp_all add: home_of_def fun_eq_iff)
  ultimately show ?thesis
    using grid_new_rel by (simp add: pix_rel_def pix_new_def place_rel_def homes_rel_def)
qed

lemma hulls_ran:
  assumes "bt_sorted h" "bt_get h = (\<lambda>i. map_option fst (G i))"
  shows "snd ` set h = fst ` ran G" "h = [] \<longleftrightarrow> G = (\<lambda>_. None)"
proof -
  have m: "(i, b) \<in> set h \<longleftrightarrow> map_option fst (G i) = Some b" for i b
    using bt_get_mem[OF assms(1), of i b] assms(2) by simp
  show "snd ` set h = fst ` ran G"
  proof (rule set_eqI, rule iffI)
    fix b assume "b \<in> snd ` set h"
    then obtain i where "(i, b) \<in> set h" by force
    then obtain oc where "G i = Some (b, oc)" unfolding m by auto
    then show "b \<in> fst ` ran G" by (force simp: ran_def)
  next
    fix b assume "b \<in> fst ` ran G"
    then obtain i oc where "G i = Some (b, oc)" by (auto simp: ran_def)
    then have "(i, b) \<in> set h" unfolding m by simp
    then show "b \<in> snd ` set h" by force
  qed
  show "h = [] \<longleftrightarrow> G = (\<lambda>_. None)"
  proof
    assume "h = []"
    then have "map_option fst (G i) = None" for i using fun_cong[OF assms(2), of i] by simp
    then show "G = (\<lambda>_. None)" by (simp add: fun_eq_iff)
  next
    assume "G = (\<lambda>_. None)"
    then have "(i, b) \<notin> set h" for i b using m by simp
    then show "h = []" by (cases h) auto
  qed
qed

text \<open>\<open>forget_place_hull\<close> after the grid of the Place has dropped the row.\<close>

lemma forget_hull:
  assumes G: "bt_get (pi_places p) pl = Some g" "grid_rel g G'" "bt_get (pi_hulls p) pl = Some h" "bt_sorted h"
      "bt_get (bt_remove ix h) = (\<lambda>i. map_option fst (G' i))"
    and ne: "\<forall>b \<in> fst ` ran G'. \<not> aabb_is_empty b"
    and st: "bt_sorted (pi_places p)" "bt_sorted (pi_hulls p)" "bt_sorted (pi_bounds p)"
  shows "place_rel (forget_place_hull pl ix p) pl G'"
    and "q \<noteq> pl \<Longrightarrow> place_rel (forget_place_hull pl ix p) q G = place_rel p q G"
    and "bt_sorted (pi_places (forget_place_hull pl ix p)) \<and> bt_sorted (pi_hulls (forget_place_hull pl ix p))
      \<and> bt_sorted (pi_bounds (forget_place_hull pl ix p))"
    and "pi_unplaced (forget_place_hull pl ix p) = pi_unplaced p \<and> pi_home (forget_place_hull pl ix p) = pi_home p"
proof -
  let ?h = "bt_remove ix h"
  note hr = hulls_ran[OF bt_sorted_remove[OF G(4)] G(5)]
  have f: "forget_place_hull pl ix p = set_place_bounds pl (p\<lparr>pi_hulls := bt_insert pl ?h (pi_hulls p)\<rparr>)"
    using G(3) by (simp add: forget_place_hull_def)
  consider (gone) "?h = []" "hull_union ?h = None"
    | (kept) b where "?h \<noteq> []" "hull_union ?h = Some b" "bound_of (fst ` ran G') b"
    using hull_union_bound[of ?h] ne hr(1) by (cases "?h = []") (auto simp: hull_union_def)
  note c = this
  show "place_rel (forget_place_hull pl ix p) pl G'"
    by (rule c) (use G st hr(2) in \<open>simp_all add: f set_place_bounds_def place_rel_def bt_get_insert bt_get_remove\<close>)
  show "place_rel (forget_place_hull pl ix p) q G = place_rel p q G" if "q \<noteq> pl"
    by (rule c) (use that st in \<open>simp_all add: f set_place_bounds_def place_rel_def bt_get_insert bt_get_remove\<close>)
  show "bt_sorted (pi_places (forget_place_hull pl ix p)) \<and> bt_sorted (pi_hulls (forget_place_hull pl ix p))
      \<and> bt_sorted (pi_bounds (forget_place_hull pl ix p))"
    by (rule c) (use st in \<open>simp_all add: f set_place_bounds_def bt_get_insert\<close>)
  show "pi_unplaced (forget_place_hull pl ix p) = pi_unplaced p \<and> pi_home (forget_place_hull pl ix p) = pi_home p"
    by (rule c) (simp_all add: f set_place_bounds_def bt_get_insert)
qed

lemma homes_unindex: "homes_rel hs M \<Longrightarrow> ix < length hs \<Longrightarrow> homes_rel (hs[ix := None]) (M(ix := None))"
  by (auto simp: homes_rel_def fun_eq_iff)

lemma pix_unindex_rel:
  assumes "pix_rel p M"
  shows "pix_rel (pix_unindex ix p) (M(ix := None))"
proof (cases "length (pi_home p) \<le> ix")
  case True
  moreover have "dom M \<subseteq> {..<length (pi_home p)}" using assms by (simp add: pix_rel_def homes_rel_def)
  ultimately have "M ix = None" by (meson domIff lessThan_iff not_le subsetD)
  then have "M(ix := None) = M" by (simp add: fun_eq_iff)
  then show ?thesis using True assms by (simp add: pix_unindex_def)
next
  case False
  let ?p = "p\<lparr>pi_home := (pi_home p)[ix := None]\<rparr>"
  have st: "bt_sorted (pi_places p)" "bt_sorted (pi_hulls p)" "bt_sorted (pi_bounds p)"
    and un: "grid_rel (pi_unplaced p) (at_place M None)" and pl: "\<And>pl. place_rel p pl (at_place M (Some pl))"
    and hm: "homes_rel (pi_home p) M" and ne: "\<forall>ix b oc pl. M ix = Some (b, oc, pl) \<longrightarrow> \<not> aabb_is_empty b"
    using assms by (simp_all add: pix_rel_def)
  have hm': "homes_rel ((pi_home p)[ix := None]) (M(ix := None))" using homes_unindex[OF hm] False by simp
  have prev: "pi_home p ! ix = home_of M ix" using hm False by (auto simp: homes_rel_def nth_or_def dest: fun_cong[of _ _ ix])
  show ?thesis
  proof (cases "home_of M ix")
    case None
    have e: "place_rel (?p\<lparr>pi_unplaced := u\<rparr>) q G = place_rel p q G" for u q G by (simp add: place_rel_def)
    have "pix_unindex ix p = ?p\<lparr>pi_unplaced := grid_unindex ix (pi_unplaced p)\<rparr>"
      using False prev None by (simp add: pix_unindex_def)
    then show ?thesis
      using st pl hm' ne grid_unindex_rel[OF un, of ix] None at_other_place[of M ix "Some q" for q]
      by (simp add: pix_rel_def e)
  next
    case (Some q)
    then obtain b0 oc0 where M: "M ix = Some (b0, oc0, Some q)" by (auto simp: home_of_def split: option.splits)
    let ?G = "at_place M (Some q)"
    have "?G ix = Some (b0, oc0)" by (simp add: at_place_def M)
    then have "?G \<noteq> (\<lambda>_. None)" by (metis option.distinct(1))
    then obtain g h b where g: "bt_get (pi_places p) q = Some g" "bt_get (pi_hulls p) q = Some h" "grid_rel g ?G" "bt_sorted h"
      "bt_get h = (\<lambda>i. map_option fst (?G i))"
      using pl[of q] by (auto simp: place_rel_def)
    let ?r = "?p\<lparr>pi_places := bt_insert q (grid_unindex ix g) (pi_places p)\<rparr>"
    have u: "pix_unindex ix p = forget_place_hull q ix ?r"
      using False prev Some g(1) by (simp add: pix_unindex_def)
    have h: "bt_get (bt_remove ix h) = (\<lambda>i. map_option fst ((?G(ix := None)) i))"
      using bt_get_remove[OF g(4)] g(5) by (simp add: fun_eq_iff)
    have ne': "\<forall>b \<in> fst ` ran (?G(ix := None)). \<not> aabb_is_empty b"
    proof
      fix b assume "b \<in> fst ` ran (?G(ix := None))"
      then obtain i oc where "(?G(ix := None)) i = Some (b, oc)" by (auto simp: ran_def)
      then have "M i = Some (b, oc, Some q)" by (auto simp: at_place_Some split: if_splits)
      then show "\<not> aabb_is_empty b" using ne by blast
    qed
    note F = forget_hull[of ?r q "grid_unindex ix g" "?G(ix := None)" h ix, OF _ grid_unindex_rel[OF g(3)] _ g(4) h ne']
    have e: "place_rel ?r q' G = place_rel p q' G" if "q' \<noteq> q" for q' G using that by (simp add: place_rel_def bt_get_insert)
    have "place_rel (pix_unindex ix p) q' (at_place (M(ix := None)) (Some q'))" for q'
    proof (cases "q' = q")
      case True
      then show ?thesis using F(1) st g(2) by (simp add: u bt_get_insert)
    next
      case ne: False
      then have "at_place (M(ix := None)) (Some q') = at_place M (Some q')" using Some at_other_place[of M ix "Some q'"] by simp
      then show ?thesis using F(2)[of q'] st g(2) ne e[of q'] pl[of q'] by (simp add: u bt_get_insert)
    qed
    then show ?thesis
      using F(3,4) st g(2) un hm' ne Some at_other_place[of M ix None]
      by (simp add: pix_rel_def u bt_get_insert)
  qed
qed

lemma homes_index:
  assumes "homes_rel hs M" "packed_in_range ix"
  shows "homes_rel ((hs @ replicate (ix + 1 - length hs) None)[ix := q]) (M(ix := Some (b, oc, q)))"
  using assms by (auto simp: homes_rel_def fun_eq_iff)

lemma pix_index_rel:
  assumes "pix_rel p M" "packed_in_range ix"
  shows "pix_rel (pix_index ix b oc q p) (M(ix := if aabb_is_empty b then None else Some (b, oc, q)))"
proof (cases "aabb_is_empty b")
  case True
  then show ?thesis using pix_unindex_rel[OF assms(1)] assms(2) by (simp add: pix_index_def)
next
  case ne: False
  let ?M = "M(ix := None)"
  define p0 where "p0 = pix_ensure ix (pix_unindex ix p)"
  have u: "pix_rel (pix_unindex ix p) ?M" by (rule pix_unindex_rel[OF assms(1)])
  have p0: "pi_unplaced p0 = pi_unplaced (pix_unindex ix p)" "pi_places p0 = pi_places (pix_unindex ix p)"
    "pi_hulls p0 = pi_hulls (pix_unindex ix p)" "pi_bounds p0 = pi_bounds (pix_unindex ix p)"
    using assms(2) by (simp_all add: p0_def pix_ensure_def)
  have st: "bt_sorted (pi_places p0)" "bt_sorted (pi_hulls p0)" "bt_sorted (pi_bounds p0)"
    and un: "grid_rel (pi_unplaced p0) (at_place ?M None)" and pl: "\<And>pl. place_rel p0 pl (at_place ?M (Some pl))"
    using u place_rel_cong[OF p0(2-4)] by (simp_all add: pix_rel_def p0)
  note nem = pix_rel_nonempty[OF u]
  have hm: "homes_rel ((pi_home p0)[ix := q]) (M(ix := Some (b, oc, q)))"
    using u homes_index[of "pi_home (pix_unindex ix p)" ?M ix q b oc] assms(2)
    by (simp add: pix_rel_def p0_def pix_ensure_def)
  have nem': "\<not> aabb_is_empty b'" if "(M(ix := Some (b, oc, q))) i = Some (b', oc', pl)" for i b' oc' pl
    using that ne nem[of i b' oc' pl] by (auto split: if_splits)
  show ?thesis
  proof (cases q)
    case None
    have e: "place_rel (p0\<lparr>pi_unplaced := u, pi_home := h\<rparr>) r G = place_rel p0 r G" for u h r G by (simp add: place_rel_def)
    show ?thesis
      using ne assms(2) st pl hm nem' grid_index_rel[OF un assms(2), of b oc] None
      by (simp add: pix_index_def p0_def[symmetric] pix_rel_def e)
  next
    case (Some r)
    let ?G = "at_place ?M (Some r)"
    define g where "g = (case bt_get (pi_places p0) r of None \<Rightarrow> grid_new | Some g \<Rightarrow> g)"
    define h where "h = (case bt_get (pi_hulls p0) r of None \<Rightarrow> [] | Some h \<Rightarrow> h)"
    define c where "c = (case bt_get (pi_bounds p0) r of None \<Rightarrow> b | Some c \<Rightarrow> aabb_union c b)"
    have gh: "grid_rel g ?G \<and> bt_sorted h \<and> bt_get h = (\<lambda>i. map_option fst (?G i)) \<and> bound_of (insert b (fst ` ran ?G)) c"
    proof (cases "?G = (\<lambda>_. None)")
      case True
      then show ?thesis
        using pl[of r] grid_new_rel bound_single[of b] unfolding True by (simp add: place_rel_def g_def h_def c_def fun_eq_iff)
    next
      case False
      then obtain g' h' c' where G: "bt_get (pi_places p0) r = Some g'" "bt_get (pi_hulls p0) r = Some h'" "bt_get (pi_bounds p0) r = Some c'"
        "grid_rel g' ?G" "bt_sorted h'" "bt_get h' = (\<lambda>i. map_option fst (?G i))" "bound_of (fst ` ran ?G) c'"
        using pl[of r] by (auto simp: place_rel_def)
      have fin: "finite (fst ` ran ?G)" unfolding hulls_ran(1)[OF G(5,6), symmetric] by simp
      obtain i x where "?G i = Some x" using False by (metis not_None_eq)
      then have "ran ?G \<noteq> {}" unfolding ran_def by blast
      moreover have "\<forall>a \<in> fst ` ran ?G. \<not> aabb_is_empty a"
      proof
        fix a assume "a \<in> fst ` ran ?G"
        then obtain i oc where "?G i = Some (a, oc)" by (auto simp: ran_def)
        then show "\<not> aabb_is_empty a" unfolding at_place_Some by (rule nem)
      qed
      ultimately have "bound_of (insert b (fst ` ran ?G)) (aabb_union c' b)"
        using G(7) fin ne by (intro bound_insert) auto
      then show ?thesis using G by (simp add: g_def h_def c_def)
    qed
    have ran: "fst ` ran (?G(ix := Some (b, oc))) = insert b (fst ` ran ?G)"
      by (subst ran_map_upd) simp_all
    define p1 where "p1 = p0\<lparr>pi_places := bt_insert r (grid_index_hull ix b oc g) (pi_places p0),
      pi_hulls := bt_insert r (bt_insert ix b h) (pi_hulls p0), pi_bounds := bt_insert r c (pi_bounds p0),
      pi_home := (pi_home p0)[ix := q]\<rparr>"
    have "place_rel p1 r (?G(ix := Some (b, oc)))"
      using gh grid_index_rel[of g ?G ix b oc] ne assms(2) ran
      by (auto simp: place_rel_def p1_def bt_get_insert fun_eq_iff)
    moreover have "place_rel p1 r' G = place_rel p0 r' G" if "r' \<noteq> r" for r' G
      using that by (simp add: place_rel_def p1_def bt_get_insert)
    moreover have "at_place (M(ix := Some (b, oc, q))) (Some r') = (if r' = r then ?G(ix := Some (b, oc)) else at_place ?M (Some r'))" for r'
      using Some by (auto simp: fun_eq_iff)
    ultimately have "place_rel p1 r' (at_place (M(ix := Some (b, oc, q))) (Some r'))" for r' using pl by simp
    moreover have "pix_index ix b oc q p = p1"
      using ne assms(2) Some by (simp add: pix_index_def p0_def[symmetric] p1_def g_def h_def c_def Let_def)
    ultimately show ?thesis
      using st un hm nem' ne Some by (simp add: pix_rel_def p1_def)
  qed
qed

section \<open>Candidates of the place index\<close>

lemma merge_candidates:
  fixes l out :: "(packed_ix, unit) btree"
  shows "bt_get (fold (\<lambda>(ix, u) out. bt_insert ix u out) l out) i \<noteq> None \<longleftrightarrow> bt_get out i \<noteq> None \<or> bt_get l i \<noteq> None"
proof (induction l arbitrary: out)
  case (Cons p l)
  obtain ix u where p: "p = (ix, u)" by (cases p)
  show ?case by (simp only: p fold.simps comp_apply prod.case Cons) (simp add: bt_get_insert)
qed simp

lemma sorted_fold_insert: "bt_sorted out \<Longrightarrow> bt_sorted (fold (\<lambda>(ix, u) out. bt_insert ix u out) l out)"
  by (induction l arbitrary: out) auto

lemma sorted_fold_bucket:
  "bt_sorted out \<Longrightarrow> bt_sorted (fold (\<lambda>(ix, oc) out. if P oc then bt_insert ix () out else out) l out)"
  by (induction l arbitrary: out) auto

lemma sorted_grid_candidates: "bt_sorted (grid_candidates g swept only)"
proof -
  have "bt_sorted out \<Longrightarrow> bt_sorted (fold (\<lambda>c out. case bt_get m c of
             None \<Rightarrow> out
           | Some b \<Rightarrow> fold (\<lambda>(ix, oc) out. if \<not> only \<or> oc then bt_insert ix () out else out) b out) cs out)" for m :: "(cell, (packed_ix, bool) btree) btree" and cs out
    by (induction cs arbitrary: out) (auto simp: sorted_fold_bucket split: option.split)
  then show ?thesis by (simp add: grid_candidates_def)
qed

definition add_place :: "place_index \<Rightarrow> aabb \<Rightarrow> bool \<Rightarrow> sigil \<times> aabb \<Rightarrow> (packed_ix, unit) btree \<Rightarrow> (packed_ix, unit) btree" where
  "add_place p swept only e out =
     (if aabb_intersects (snd e) swept
      then case bt_get (pi_places p) (fst e) of
          None \<Rightarrow> out
        | Some g \<Rightarrow> fold (\<lambda>(ix, u) out. bt_insert ix u out) (grid_candidates g swept only) out
      else out)"

lemma pix_candidates_eq:
  "pix_candidates p swept only = fold (add_place p swept only) (pi_bounds p) (grid_candidates (pi_unplaced p) swept only)"
proof -
  have "(\<lambda>(pl, bounds) out. if aabb_intersects bounds swept
      then case bt_get (pi_places p) pl of None \<Rightarrow> out
         | Some g \<Rightarrow> fold (\<lambda>(ix, u) out. bt_insert ix u out) (grid_candidates g swept only) out
      else out) = add_place p swept only"
    by (auto simp: add_place_def fun_eq_iff)
  then show ?thesis by (simp add: pix_candidates_def)
qed

lemma add_place_get:
  "bt_get (add_place p swept only e out) i \<noteq> None \<longleftrightarrow> bt_get out i \<noteq> None
    \<or> aabb_intersects (snd e) swept \<and> (\<exists>g. bt_get (pi_places p) (fst e) = Some g \<and> bt_get (grid_candidates g swept only) i \<noteq> None)"
  by (cases "bt_get (pi_places p) (fst e)") (simp_all add: add_place_def merge_candidates del: not_None_eq)

lemma fold_add_place_get:
  "bt_get (fold (add_place p swept only) es out) i \<noteq> None \<longleftrightarrow> bt_get out i \<noteq> None
    \<or> (\<exists>e \<in> set es. aabb_intersects (snd e) swept
        \<and> (\<exists>g. bt_get (pi_places p) (fst e) = Some g \<and> bt_get (grid_candidates g swept only) i \<noteq> None))"
proof (induction es arbitrary: out)
  case (Cons e es)
  show ?case by (simp only: fold.simps comp_apply Cons add_place_get) auto
qed simp

lemma sorted_pix_candidates: "bt_sorted (pix_candidates p swept only)"
proof -
  have "bt_sorted out \<Longrightarrow> bt_sorted (fold (add_place p swept only) es out)" for es out
    by (induction es arbitrary: out) (auto simp: add_place_def sorted_fold_insert split: option.split)
  then show ?thesis by (simp add: pix_candidates_eq sorted_grid_candidates)
qed

text \<open>The boxes of a Place, and what the index answers, in terms of the specification.\<close>

definition place_boxes :: "place_spec \<Rightarrow> sigil \<Rightarrow> aabb set" where
  "place_boxes M pl = {b. \<exists>i oc. M i = Some (b, oc, Some pl)}"

lemma place_boxes_ran: "place_boxes M pl = fst ` ran (at_place M (Some pl))"
proof (rule set_eqI, rule iffI)
  fix b assume "b \<in> place_boxes M pl"
  then obtain i oc where "at_place M (Some pl) i = Some (b, oc)" by (auto simp: place_boxes_def at_place_Some)
  then show "b \<in> fst ` ran (at_place M (Some pl))" by (force simp: ran_def)
next
  fix b assume "b \<in> fst ` ran (at_place M (Some pl))"
  then obtain i oc where "at_place M (Some pl) i = Some (b, oc)" by (auto simp: ran_def)
  then show "b \<in> place_boxes M pl" by (auto simp: place_boxes_def at_place_Some)
qed

definition near_place :: "place_spec \<Rightarrow> sigil option \<Rightarrow> aabb \<Rightarrow> bool" where
  "near_place M q swept = (case q of None \<Rightarrow> True
     | Some pl \<Rightarrow> \<exists>c. bound_of (place_boxes M pl) c \<and> aabb_intersects c swept)"

definition answers :: "place_spec \<Rightarrow> aabb \<Rightarrow> bool \<Rightarrow> packed_ix \<Rightarrow> bool" where
  "answers M swept only i \<longleftrightarrow> (\<exists>b oc q. M i = Some (b, oc, q) \<and> (only \<longrightarrow> oc) \<and> \<not> aabb_is_empty swept
     \<and> cells_meet b swept \<and> near_place M q swept)"

lemma place_relD:
  assumes "place_rel p pl G" "G i = Some x"
  obtains g h b where "bt_get (pi_places p) pl = Some g" "bt_get (pi_hulls p) pl = Some h" "bt_get (pi_bounds p) pl = Some b"
    "grid_rel g G" "bt_sorted h" "bt_get h = (\<lambda>i. map_option fst (G i))" "bound_of (fst ` ran G) b"
proof -
  have "G \<noteq> (\<lambda>_. None)" using assms(2) by auto
  then show ?thesis using assms(1) that by (auto simp: place_rel_def)
qed

lemma pix_candidates_iff:
  assumes "pix_rel p M"
  shows "bt_get (pix_candidates p swept only) i \<noteq> None \<longleftrightarrow> answers M swept only i"
proof -
  have un: "grid_rel (pi_unplaced p) (at_place M None)" and pl: "\<And>pl. place_rel p pl (at_place M (Some pl))"
    and st: "bt_sorted (pi_bounds p)"
    using assms by (simp_all add: pix_rel_def)
  have in_place: "(\<exists>c. (pl, c) \<in> set (pi_bounds p) \<and> aabb_intersects c swept
        \<and> (\<exists>g. bt_get (pi_places p) pl = Some g \<and> bt_get (grid_candidates g swept only) i \<noteq> None))
      \<longleftrightarrow> (\<exists>b oc. M i = Some (b, oc, Some pl) \<and> (only \<longrightarrow> oc) \<and> \<not> aabb_is_empty swept \<and> cells_meet b swept
        \<and> near_place M (Some pl) swept)" (is "?L \<longleftrightarrow> ?R") for pl
  proof
    assume ?L
    then obtain c g where c: "bt_get (pi_bounds p) pl = Some c" "aabb_intersects c swept" "bt_get (pi_places p) pl = Some g"
      "bt_get (grid_candidates g swept only) i \<noteq> None"
      using bt_get_mem[OF st] by blast
    then have "at_place M (Some pl) \<noteq> (\<lambda>_. None)" using pl[of pl] by (auto simp: place_rel_def)
    then have g: "grid_rel g (at_place M (Some pl))" "bound_of (place_boxes M pl) c"
      using pl[of pl] c unfolding place_boxes_ran by (auto simp: place_rel_def)
    then show ?R
      using c(2,4) grid_candidates_iff[OF g(1)] unfolding at_place_Some near_place_def option.case by blast
  next
    assume ?R
    then obtain b oc c where b: "M i = Some (b, oc, Some pl)" "only \<longrightarrow> oc" "\<not> aabb_is_empty swept" "cells_meet b swept"
      "bound_of (place_boxes M pl) c" "aabb_intersects c swept"
      by (auto simp: near_place_def)
    have i: "at_place M (Some pl) i = Some (b, oc)" using b(1) by (simp add: at_place_Some)
    from pl[of pl] i obtain g h c' where g: "bt_get (pi_places p) pl = Some g" "bt_get (pi_bounds p) pl = Some c'"
      "grid_rel g (at_place M (Some pl))" "bound_of (place_boxes M pl) c'"
      unfolding place_boxes_ran by (rule place_relD)
    have "c' = c" by (rule bound_unique[OF g(4) b(5)])
    then have "(pl, c) \<in> set (pi_bounds p)" using bt_get_Some_in[OF g(2)] by simp
    moreover have "bt_get (grid_candidates g swept only) i \<noteq> None"
      unfolding grid_candidates_iff[OF g(3)] using b(2-4) i by blast
    ultimately show ?L using g(1) b(6) by blast
  qed
  have "bt_get (pix_candidates p swept only) i \<noteq> None \<longleftrightarrow>
      bt_get (grid_candidates (pi_unplaced p) swept only) i \<noteq> None
      \<or> (\<exists>pl c. (pl, c) \<in> set (pi_bounds p) \<and> aabb_intersects c swept
        \<and> (\<exists>g. bt_get (pi_places p) pl = Some g \<and> bt_get (grid_candidates g swept only) i \<noteq> None))"
    unfolding pix_candidates_eq fold_add_place_get by force
  also have "\<dots> \<longleftrightarrow> (\<exists>b oc. M i = Some (b, oc, None) \<and> (only \<longrightarrow> oc) \<and> \<not> aabb_is_empty swept \<and> cells_meet b swept)
      \<or> (\<exists>pl b oc. M i = Some (b, oc, Some pl) \<and> (only \<longrightarrow> oc) \<and> \<not> aabb_is_empty swept \<and> cells_meet b swept
        \<and> near_place M (Some pl) swept)"
    unfolding in_place[symmetric] grid_candidates_iff[OF un] at_place_Some by blast
  also have "\<dots> \<longleftrightarrow> answers M swept only i"
  proof (cases "M i")
    case (Some x)
    obtain b oc q where "x = (b, oc, q)" by (cases x)
    then show ?thesis using Some by (cases q) (simp_all add: answers_def near_place_def)
  qed (simp add: answers_def)
  finally show ?thesis .
qed

lemma near_own_place:
  assumes "pix_rel p M" "M i = Some (b, oc, q)" "aabb_intersects b swept"
  shows "near_place M q swept"
proof (cases q)
  case (Some pl)
  have i: "at_place M (Some pl) i = Some (b, oc)" using assms(2) Some by (simp add: at_place_Some)
  have "place_rel p pl (at_place M (Some pl))" using assms(1) by (simp add: pix_rel_def)
  from this i obtain g h c where h: "bt_sorted h" "bt_get h = (\<lambda>i. map_option fst (at_place M (Some pl) i))"
      and c: "bound_of (fst ` ran (at_place M (Some pl))) c"
    by (rule place_relD)
  have "finite (fst ` ran (at_place M (Some pl)))" unfolding hulls_ran(1)[OF h, symmetric] by simp
  moreover have "b \<in> fst ` ran (at_place M (Some pl))" using i by (force simp: ran_def)
  ultimately show ?thesis
    using c bound_intersects assms(3) unfolding near_place_def Some option.case place_boxes_ran by blast
qed (simp add: near_place_def)

text \<open>Rebuilding from a list of rows.\<close>

definition spec_index :: "packed_ix \<Rightarrow> aabb \<Rightarrow> bool \<Rightarrow> sigil option \<Rightarrow> place_spec \<Rightarrow> place_spec" where
  "spec_index ix b oc q M = M(ix := if aabb_is_empty b then None else Some (b, oc, q))"

definition spec_of :: "(packed_ix \<times> aabb \<times> bool \<times> sigil option) list \<Rightarrow> place_spec" where
  "spec_of items = fold (\<lambda>(ix, b, oc, q). spec_index ix b oc q) items (\<lambda>_. None)"

lemma pix_rebuild_rel:
  assumes "\<forall>(ix, r) \<in> set items. packed_in_range ix"
  shows "pix_rel (pix_rebuild items) (spec_of items)"
proof -
  have "pix_rel p M \<Longrightarrow> \<forall>(ix, r) \<in> set items. packed_in_range ix \<Longrightarrow>
      pix_rel (fold (\<lambda>(ix, b, oc, pl). pix_index ix b oc pl) items p)
        (fold (\<lambda>(ix, b, oc, q). spec_index ix b oc q) items M)" for p M items
    by (induction items arbitrary: p M) (auto simp: pix_index_rel spec_index_def)
  then show ?thesis using assms pix_new_rel by (simp add: pix_rebuild_def spec_of_def)
qed

lemma spec_of_distinct:
  assumes "distinct (map fst items)"
  shows "spec_of items i = (case map_of items i of
     Some (b, oc, q) \<Rightarrow> if aabb_is_empty b then None else Some (b, oc, q) | None \<Rightarrow> None)"
proof -
  have "distinct (map fst items) \<Longrightarrow> fold (\<lambda>(ix, b, oc, q). spec_index ix b oc q) items M i
      = (case map_of items i of Some (b, oc, q) \<Rightarrow> if aabb_is_empty b then None else Some (b, oc, q) | None \<Rightarrow> M i)" for M
  proof (induction items arbitrary: M)
    case (Cons e items)
    obtain ix b oc q where e: "e = (ix, b, oc, q)" by (cases e)
    have "i = ix \<Longrightarrow> map_of items i = None" using Cons.prems e by (simp add: map_of_eq_None_iff)
    then show ?case using Cons by (auto simp: e spec_index_def split: option.split)
  qed simp
  then show ?thesis using assms by (simp add: spec_of_def)
qed

section \<open>Properties\<close>

text \<open>The indexes a program can reach, with the hulls they stand for.\<close>

inductive indexed :: "place_index \<Rightarrow> place_spec \<Rightarrow> bool" where
  Inew: "indexed pix_new (\<lambda>_. None)"
| Iindex: "indexed p M \<Longrightarrow> packed_in_range ix \<Longrightarrow> indexed (pix_index ix b oc q p) (spec_index ix b oc q M)"
| Iunindex: "indexed p M \<Longrightarrow> indexed (pix_unindex ix p) (M(ix := None))"
| Irebuild: "\<forall>(ix, r) \<in> set items. packed_in_range ix \<Longrightarrow> indexed (pix_rebuild items) (spec_of items)"

lemma indexed_rel: "indexed p M \<Longrightarrow> pix_rel p M"
proof (induction rule: indexed.induct)
  case (Iindex p M ix b oc q)
  then show ?case unfolding spec_index_def using pix_index_rel by blast
next
  case (Irebuild items)
  then show ?case by (rule pix_rebuild_rel)
qed (rule pix_new_rel, erule pix_unindex_rel)

lemma candidates_determined:
  assumes "pix_rel p M" "pix_rel q M"
  shows "pix_candidates p swept only = pix_candidates q swept only"
proof (rule bt_ext[OF sorted_pix_candidates sorted_pix_candidates])
  fix k
  have "bt_get (pix_candidates p swept only) k \<noteq> None \<longleftrightarrow> bt_get (pix_candidates q swept only) k \<noteq> None"
    unfolding pix_candidates_iff[OF assms(1)] pix_candidates_iff[OF assms(2)] ..
  then show "bt_get (pix_candidates p swept only) k = bt_get (pix_candidates q swept only) k"
    by (cases "bt_get (pix_candidates p swept only) k"; cases "bt_get (pix_candidates q swept only) k") simp_all
qed

text \<open>
  C28: The broad phase is exact about its cells and misses nothing.  After any sequence of insertions,
  removals and rebuilds, the candidates of a query box are the rows filed under a cell the box covers
  (in the unplaced grid, or in a Place whose coarse box the query meets); every indexed hull that
  meets the box is among them; and the answer depends on the hulls alone, not on the order of
  the updates.
\<close>

theorem candidates_exact:
  assumes "indexed p M"
  shows "(bt_get (pix_candidates p swept only) i \<noteq> None \<longleftrightarrow> answers M swept only i)
    \<and> (M i = Some (b, oc, q) \<and> (only \<longrightarrow> oc) \<and> aabb_intersects b swept \<longrightarrow> bt_get (pix_candidates p swept only) i \<noteq> None)
    \<and> (indexed p' M \<longrightarrow> pix_candidates p' swept only = pix_candidates p swept only)"
proof -
  note r = indexed_rel[OF assms]
  have "answers M swept only i" if "M i = Some (b, oc, q)" "only \<longrightarrow> oc" "aabb_intersects b swept"
    using that near_own_place[OF r that(1,3)] intersects_cells_meet[OF that(3)]
    by (auto simp: answers_def aabb_intersects_def)
  moreover have "pix_candidates p' swept only = pix_candidates p swept only" if "indexed p' M"
    by (rule candidates_determined[OF indexed_rel[OF that] r])
  ultimately show ?thesis using pix_candidates_iff[OF r] by blast
qed

definition door_box :: aabb where
  "door_box = aabb_new (ivec3 0 0 0) (ivec3 2000 2000 500)"

definition beam_box :: aabb where
  "beam_box = aabb_new (ivec3 1500 100 (-4000)) (ivec3 1600 200 4000)"

theorem candidates_exact_witness:
  "bt_get (pix_candidates (pix_index 3 door_box True (Some 7) (pix_index 0 beam_box False None pix_new)) beam_box True) 3 \<noteq> None
   \<and> bt_get (pix_candidates (pix_index 3 door_box True (Some 7) (pix_index 0 beam_box False None pix_new)) beam_box True) 0 = None"
proof -
  let ?p = "pix_index 3 door_box True (Some 7) (pix_index 0 beam_box False None pix_new)"
  let ?M = "spec_index 3 door_box True (Some 7) (spec_index 0 beam_box False None (\<lambda>_. None))"
  have x: "indexed ?p ?M" by (intro indexed.intros) (simp_all add: packed_in_range_def max_loci_process_def)
  have M: "?M 3 = Some (door_box, True, Some 7)" "?M 0 = Some (beam_box, False, None)"
    by (simp_all add: spec_index_def aabb_is_empty_def door_box_def beam_box_def aabb_new_def ivec3_def)
  have "aabb_intersects door_box beam_box"
    by (simp add: aabb_intersects_def aabb_is_empty_def door_box_def beam_box_def aabb_new_def ivec3_def)
  then have "bt_get (pix_candidates ?p beam_box True) 3 \<noteq> None"
    using candidates_exact[OF x, of beam_box True 3] M(1) by blast
  moreover have "\<not> answers ?M beam_box True 0" unfolding answers_def M(2) by simp
  then have "bt_get (pix_candidates ?p beam_box True) 0 = None"
    using candidates_exact[OF x, of beam_box True 0] by blast
  ultimately show ?thesis by blast
qed

end
