(* ===== verification/WorldProjInv.thy ===== *)
theory WorldProjInv
  imports WorldProj WorldGridProps
begin

text \<open>
  The projection's invariant, its abstract view as a map from sigils to rows, and what each write does to
  both.  Two invariants are kept: the columns and maps agree on the rows (\<open>proj_ok\<close>), and the spatial
  index is the one a rebuild would give (\<open>space_ok\<close>).
\<close>

section \<open>Neighbours\<close>

definition nb_ok :: "neighbors \<Rightarrow> bool" where
  "nb_ok n \<longleftrightarrow> (nb_more n \<noteq> [] \<longrightarrow> nb_one n = None) \<and> distinct (nb_slice n)"

lemma nb_default_simps [simp]: "nb_slice nb_default = []" "nb_ok nb_default"
  by (simp_all add: nb_default_def nb_slice_def nb_ok_def)

lemma nb_empty_iff: "nb_is_empty n \<longleftrightarrow> nb_slice n = []"
  by (auto simp: nb_is_empty_def nb_len_def nb_slice_def split: option.split)

lemma nb_push_slice: "nb_ok n \<Longrightarrow> nb_slice (nb_push s n) = nb_slice n @ [s]"
  by (auto simp: nb_ok_def nb_push_def nb_slice_def split: option.splits)

lemma nb_push_ok: "nb_ok n \<Longrightarrow> s \<notin> set (nb_slice n) \<Longrightarrow> nb_ok (nb_push s n)"
  using nb_push_slice[of n s] by (auto simp: nb_ok_def nb_push_def split: option.splits)

lemma nb_retain_slice: "nb_ok n \<Longrightarrow> nb_slice (nb_retain f n) = filter f (nb_slice n)"
proof -
  assume ok: "nb_ok n"
  have "m = [] \<or> m = [x] \<or> length m \<noteq> 1" if "x = hd m" for m and x :: sigil
    using that by (cases m) auto
  then show ?thesis
    using ok by (auto simp: nb_ok_def nb_retain_def nb_slice_def Let_def length_Suc_conv split: option.splits)
qed

lemma nb_retain_ok: "nb_ok n \<Longrightarrow> nb_ok (nb_retain f n)"
  using nb_retain_slice[of n f] by (auto simp: nb_ok_def nb_retain_def Let_def split: option.splits)

text \<open>A stored edge list: its key is the code of a relation other than \<open>In\<close>, which has a column of its own.\<close>

definition edge_ok :: "nat \<Rightarrow> neighbors \<Rightarrow> bool" where
  "edge_ok k n \<longleftrightarrow> nb_ok n \<and> (\<exists>r. r \<noteq> In \<and> k = rel_as_u8 r)"

section \<open>The abstract row\<close>

record locus_row =
  lr_kind :: locus_kind
  lr_afford :: "64 word"
  lr_hull :: "aabb option"
  lr_hull_id :: blob_id
  lr_pose :: "pose option"
  lr_vel :: vel3
  lr_yaw :: int
  lr_pitch :: int
  lr_roll :: int
  lr_island :: nat
  lr_sleep :: nat
  lr_lod :: sim_lod
  lr_in_place :: "sigil option"
  lr_support :: "support option"
  lr_attach :: "ivec3 option"
  lr_rels :: "nat \<Rightarrow> sigil list option"
  lr_qty :: "nat \<Rightarrow> int option"
  lr_phys :: "phys_request option"
  lr_rites :: "nat \<Rightarrow> rite_machine option"
  lr_knows :: "nat \<Rightarrow> bool"

definition row_view :: "projection \<Rightarrow> packed_ix \<Rightarrow> locus_row" where
  "row_view p i =
     \<lparr>lr_kind = p_kinds p ! i, lr_afford = p_afford p ! i, lr_hull = p_hull p ! i, lr_hull_id = p_hull_id p ! i,
      lr_pose = p_pose p ! i, lr_vel = p_vel p ! i, lr_yaw = p_yaw_rate p ! i, lr_pitch = p_pitch_rate p ! i,
      lr_roll = p_roll_rate p ! i, lr_island = p_island p ! i, lr_sleep = p_sleep p ! i, lr_lod = p_lod p ! i,
      lr_in_place = p_in_place p ! i, lr_support = p_support p ! i, lr_attach = p_attach p ! i,
      lr_rels = (\<lambda>r. map_option nb_slice (bt_get (p_rels p) (i, r))), lr_qty = (\<lambda>r. bt_get (p_qty p) (i, r)),
      lr_phys = bt_get (p_phys p) i, lr_rites = (\<lambda>r. bt_get (p_rites p) (i, r)), lr_knows = (\<lambda>f. bt_has (p_knows p) (i, f))\<rparr>"

definition proj_view :: "projection \<Rightarrow> sigil \<Rightarrow> locus_row option" where
  "proj_view p s = map_option (row_view p) (proj_packed p s)"

section \<open>The invariant\<close>

definition cols_ok :: "projection \<Rightarrow> bool" where
  "cols_ok p \<longleftrightarrow> (let n = length (p_sigils p) in
     length (p_kinds p) = n \<and> length (p_afford p) = n \<and> length (p_hull p) = n \<and> length (p_hull_id p) = n
     \<and> length (p_pose p) = n \<and> length (p_vel p) = n \<and> length (p_yaw_rate p) = n \<and> length (p_pitch_rate p) = n
     \<and> length (p_roll_rate p) = n \<and> length (p_island p) = n \<and> length (p_sleep p) = n \<and> length (p_lod p) = n
     \<and> length (p_in_place p) = n \<and> length (p_support p) = n \<and> length (p_attach p) = n)"

definition maps_sorted :: "projection \<Rightarrow> bool" where
  "maps_sorted p \<longleftrightarrow> bt_sorted (p_rels p) \<and> bt_sorted (p_qty p) \<and> bt_sorted (p_phys p) \<and> bt_sorted (p_constraints p)
     \<and> bt_sorted (p_rites p) \<and> bt_sorted (p_knows p)"

definition row_bare :: "projection \<Rightarrow> packed_ix \<Rightarrow> bool" where
  "row_bare p i \<longleftrightarrow> (\<forall>x. bt_get (p_rels p) (i, x) = None \<and> bt_get (p_qty p) (i, x) = None
     \<and> bt_get (p_rites p) (i, x) = None \<and> bt_get (p_knows p) (i, x) = None) \<and> bt_get (p_phys p) i = None"

definition ids_ok :: "projection \<Rightarrow> bool" where
  "ids_ok p \<longleftrightarrow> bt_sorted (p_by_sigil p) \<and> (\<forall>s i. bt_get (p_by_sigil p) s = Some i \<longleftrightarrow> nth_opt (p_sigils p) i = Some s)"

definition proj_ok :: "projection \<Rightarrow> bool" where
  "proj_ok p \<longleftrightarrow> cols_ok p \<and> ids_ok p \<and> maps_sorted p
     \<and> length (p_sigils p) \<le> p_locus_cap p \<and> p_locus_cap p \<le> max_loci_process
     \<and> (\<forall>i \<ge> length (p_sigils p). row_bare p i)
     \<and> (\<forall>i r n. bt_get (p_rels p) (i, r) = Some n \<longrightarrow> edge_ok r n)"

definition space_entry :: "projection \<Rightarrow> place_spec" where
  "space_entry p i =
     (case world_hull p i of
        None \<Rightarrow> None
      | Some b \<Rightarrow> if aabb_is_empty b then None else Some (b, opaque_closed_ix p i, place_for p i))"

definition space_ok :: "projection \<Rightarrow> bool" where
  "space_ok p \<longleftrightarrow> pix_rel (p_space p) (space_entry p)"

lemma packed_range: "proj_ok p \<Longrightarrow> proj_packed p s = Some i \<Longrightarrow> i < length (p_sigils p) \<and> p_sigils p ! i = s"
  by (simp add: proj_ok_def ids_ok_def proj_packed_def nth_opt_Some_iff)

lemma row_in_range: "proj_ok p \<Longrightarrow> i < length (p_sigils p) \<Longrightarrow> packed_in_range i"
  by (simp add: proj_ok_def packed_in_range_def)

lemma proj_new_ok: "proj_ok (proj_with_cap opaque cap) \<and> space_ok (proj_with_cap opaque cap)"
proof -
  have "space_entry (proj_with_cap opaque cap) = (\<lambda>_. None)"
    by (simp add: space_entry_def world_hull_def proj_with_cap_def fun_eq_iff)
  then show ?thesis
    using pix_new_rel
    by (simp add: proj_ok_def space_ok_def cols_ok_def ids_ok_def maps_sorted_def row_bare_def proj_with_cap_def)
qed

section \<open>The spatial index follows the rows\<close>

lemma space_entry_cong:
  assumes "nth_or None (p_hull p) i = nth_or None (p_hull q) i" "nth_or None (p_pose p) i = nth_or None (p_pose q) i"
    "nth_or 0 (p_afford p) i = nth_or 0 (p_afford q) i"
    "bt_get (p_rels p) (i, rel_as_u8 LockedBy) = bt_get (p_rels q) (i, rel_as_u8 LockedBy)"
    "nth_opt (p_sigils p) i = nth_opt (p_sigils q) i" "nth_opt (p_kinds p) i = nth_opt (p_kinds q) i"
    "nth_or None (p_in_place p) i = nth_or None (p_in_place q) i" "p_opaque p = p_opaque q"
  shows "space_entry p i = space_entry q i"
proof -
  have "world_hull p i = world_hull q i" "opaque_closed_ix p i = opaque_closed_ix q i" "place_for p i = place_for q i"
    using assms by (simp_all add: world_hull_def opaque_closed_ix_def place_for_def cong: option.case_cong if_cong)
  then show ?thesis by (simp add: space_entry_def cong: option.case_cong if_cong)
qed

lemma space_irrelevant [simp]:
  "world_hull (p\<lparr>p_space := x\<rparr>) = world_hull p" "opaque_closed_ix (p\<lparr>p_space := x\<rparr>) = opaque_closed_ix p"
  "place_for (p\<lparr>p_space := x\<rparr>) = place_for p" "row_view (p\<lparr>p_space := x\<rparr>) = row_view p"
  "proj_packed (p\<lparr>p_space := x\<rparr>) = proj_packed p" "cols_ok (p\<lparr>p_space := x\<rparr>) = cols_ok p"
  "ids_ok (p\<lparr>p_space := x\<rparr>) = ids_ok p" "maps_sorted (p\<lparr>p_space := x\<rparr>) = maps_sorted p" "row_bare (p\<lparr>p_space := x\<rparr>) = row_bare p"
  by (simp_all add: world_hull_def opaque_closed_ix_def place_for_def row_view_def proj_packed_def cols_ok_def ids_ok_def
      maps_sorted_def row_bare_def fun_eq_iff Let_def cong: option.case_cong if_cong)

lemma space_irrelevant_more [simp]:
  "space_entry (p\<lparr>p_space := x\<rparr>) = space_entry p" "proj_view (p\<lparr>p_space := x\<rparr>) = proj_view p"
  "proj_ok (p\<lparr>p_space := x\<rparr>) = proj_ok p"
  by (simp_all add: space_entry_def proj_view_def proj_ok_def fun_eq_iff cong: option.case_cong if_cong)

lemma reindex_simps [simp]:
  "p_sigils (reindex_ix i p) = p_sigils p" "space_entry (reindex_ix i p) = space_entry p"
  "proj_ok (reindex_ix i p) = proj_ok p" "proj_view (reindex_ix i p) = proj_view p"
  by (simp_all add: reindex_ix_def)

lemma reindex_space:
  assumes "pix_rel (p_space p) M" "packed_in_range i" "\<And>j. j \<noteq> i \<Longrightarrow> space_entry p j = M j"
  shows "space_ok (reindex_ix i p)"
proof -
  have e: "space_entry p = M(i := space_entry p i)" using assms(3) by (auto simp: fun_eq_iff)
  have "pix_rel (p_space (reindex_ix i p)) (M(i := space_entry p i))"
  proof (cases "world_hull p i")
    case None
    then show ?thesis using pix_unindex_rel[OF assms(1), of i] by (simp add: reindex_ix_def space_entry_def)
  next
    case (Some b)
    then show ?thesis
      using pix_index_rel[OF assms(1,2), of b "opaque_closed_ix p i" "place_for p i"]
      by (simp add: reindex_ix_def space_entry_def)
  qed
  then show ?thesis using e by (simp add: space_ok_def)
qed

lemma rebuild_space:
  assumes "proj_ok p"
  shows "space_ok (rebuild_space_ix p)" "proj_ok (rebuild_space_ix p)" "proj_view (rebuild_space_ix p) = proj_view p"
proof -
  let ?f = "\<lambda>i. map_option (\<lambda>b. (i, b, opaque_closed_ix p i, place_for p i)) (world_hull p i)"
  let ?items = "List.map_filter ?f [0..<length (p_sigils p)]"
  have items: "e \<in> set ?items \<longleftrightarrow> (\<exists>i b. i < length (p_sigils p) \<and> world_hull p i = Some b
      \<and> e = (i, b, opaque_closed_ix p i, place_for p i))" for e
    by (force simp: map_filter_def)
  have r: "\<forall>(ix, r) \<in> set ?items. packed_in_range ix" using items row_in_range[OF assms] by auto
  have d: "distinct (map fst (List.map_filter ?f xs))" if "distinct xs" for xs
    using that by (induction xs) (auto simp: map_filter_def split: option.splits)
  have h: "world_hull p i = None" if "length (p_sigils p) \<le> i" for i
    using that assms by (simp add: proj_ok_def cols_ok_def world_hull_def Let_def)
  have "spec_of ?items i = space_entry p i" for i
  proof (cases "i < length (p_sigils p) \<and> world_hull p i \<noteq> None")
    case True
    then obtain b where b: "world_hull p i = Some b" by blast
    then have "(i, b, opaque_closed_ix p i, place_for p i) \<in> set ?items" using True items by blast
    then have "map_of ?items i = Some (b, opaque_closed_ix p i, place_for p i)"
      using d[of "[0..<length (p_sigils p)]"] by (intro map_of_is_SomeI) simp_all
    then show ?thesis using spec_of_distinct[OF d[of "[0..<length (p_sigils p)]"], of i] b by (simp add: space_entry_def)
  next
    case False
    then have "i \<notin> fst ` set ?items" using items by force
    then have "map_of ?items i = None" by (simp add: map_of_eq_None_iff)
    moreover have "world_hull p i = None" using False h not_le by blast
    ultimately show ?thesis using spec_of_distinct[OF d[of "[0..<length (p_sigils p)]"], of i] by (simp add: space_entry_def)
  qed
  then have "spec_of ?items = space_entry p" by blast
  moreover have "space_entry (rebuild_space_ix p) = space_entry p" by (simp add: rebuild_space_ix_def)
  ultimately show "space_ok (rebuild_space_ix p)"
    using pix_rebuild_rel[OF r] by (simp add: space_ok_def rebuild_space_ix_def)
  show "proj_ok (rebuild_space_ix p)" "proj_view (rebuild_space_ix p) = proj_view p"
    using assms by (simp_all add: rebuild_space_ix_def)
qed

section \<open>Writes to one row\<close>

text \<open>\<open>q\<close> differs from \<open>p\<close> in the row \<open>i\<close> only, the spatial index apart.\<close>

definition writes_row :: "projection \<Rightarrow> packed_ix \<Rightarrow> projection \<Rightarrow> bool" where
  "writes_row p i q \<longleftrightarrow>
     p_by_sigil q = p_by_sigil p \<and> p_sigils q = p_sigils p \<and> p_locus_cap q = p_locus_cap p \<and> p_opaque q = p_opaque p
     \<and> p_space q = p_space p \<and> (cols_ok p \<longrightarrow> cols_ok q) \<and> (maps_sorted p \<longrightarrow> maps_sorted q)
     \<and> (\<forall>j. j \<noteq> i \<longrightarrow> row_view q j = row_view p j \<and> space_entry q j = space_entry p j \<and> (row_bare p j \<longrightarrow> row_bare q j)
         \<and> (\<forall>r. bt_get (p_rels q) (j, r) = bt_get (p_rels p) (j, r)))
     \<and> (\<forall>r n. (\<forall>r n. bt_get (p_rels p) (i, r) = Some n \<longrightarrow> edge_ok r n) \<longrightarrow> bt_get (p_rels q) (i, r) = Some n \<longrightarrow> edge_ok r n)"

lemma writes_refl: "writes_row p i p"
  by (auto simp: writes_row_def)

lemma writes_trans:
  assumes "writes_row p i q" "writes_row q i r"
  shows "writes_row p i r"
  unfolding writes_row_def
proof (intro conjI allI impI)
  fix x n
  assume "\<forall>r n. bt_get (p_rels p) (i, r) = Some n \<longrightarrow> edge_ok r n" "bt_get (p_rels r) (i, x) = Some n"
  then show "edge_ok x n" using assms unfolding writes_row_def by blast
qed (use assms in \<open>simp_all add: writes_row_def\<close>)

lemma writes_ok:
  assumes "writes_row p i q" "proj_ok p" "i < length (p_sigils p)"
  shows "proj_ok q"
  unfolding proj_ok_def
proof (intro conjI allI impI)
  fix j assume "length (p_sigils q) \<le> j"
  then show "row_bare q j" using assms by (auto simp: writes_row_def proj_ok_def)
next
  fix j r n assume n: "bt_get (p_rels q) (j, r) = Some n"
  show "edge_ok r n"
  proof (cases "j = i")
    case True
    then show ?thesis using n assms(1,2) unfolding writes_row_def proj_ok_def by blast
  next
    case False
    then have "bt_get (p_rels p) (j, r) = Some n" using n assms(1) by (simp add: writes_row_def)
    then show ?thesis using assms(2) unfolding proj_ok_def by blast
  qed
qed (use assms in \<open>simp_all add: writes_row_def proj_ok_def ids_ok_def\<close>)

lemma writes_view:
  assumes "writes_row p i q" "proj_ok p" "proj_packed p s = Some i"
  shows "proj_view q = (proj_view p)(s := Some (row_view q i))"
proof
  fix t
  have b: "p_by_sigil q = p_by_sigil p" using assms(1) by (simp add: writes_row_def)
  show "proj_view q t = ((proj_view p)(s := Some (row_view q i))) t"
  proof (cases "proj_packed p t")
    case None
    then show ?thesis using assms(3) b by (auto simp: proj_view_def proj_packed_def)
  next
    case (Some j)
    have "j = i \<longleftrightarrow> t = s" using packed_range[OF assms(2)] Some assms(3) by auto
    then show ?thesis using Some assms(1,3) b by (auto simp: proj_view_def proj_packed_def writes_row_def)
  qed
qed

text \<open>A write that leaves the row's box, tag and Place as they are keeps the index right; any other is reindexed.\<close>

lemma writes_space_same:
  assumes "writes_row p i q" "space_ok p" "space_entry q i = space_entry p i"
  shows "space_ok q"
proof -
  have "space_entry q j = space_entry p j" for j using assms by (cases "j = i") (simp_all add: writes_row_def)
  then have "space_entry q = space_entry p" by blast
  then show ?thesis using assms(1,2) by (simp add: space_ok_def writes_row_def)
qed

lemma writes_space_reindex:
  assumes "writes_row p i q" "space_ok p" "packed_in_range i"
  shows "space_ok (reindex_ix i q)"
  by (rule reindex_space[of _ "space_entry p"]) (use assms in \<open>simp_all add: writes_row_def space_ok_def\<close>)

lemmas row_simps = writes_row_def cols_ok_def maps_sorted_def row_view_def row_bare_def Let_def bt_get_insert bt_get_remove bt_has_def

lemma nth_or_update [simp]: "i \<noteq> j \<Longrightarrow> nth_or d (xs[i := x]) j = nth_or d xs j"
  by (simp add: nth_or_def)

lemma writes_cols:
  "writes_row p i (p\<lparr>p_afford := (p_afford p)[i := a]\<rparr>)"
  "writes_row p i (p\<lparr>p_hull := (p_hull p)[i := h], p_hull_id := (p_hull_id p)[i := b]\<rparr>)"
  "writes_row p i (p\<lparr>p_pose := (p_pose p)[i := q]\<rparr>)"
  "writes_row p i (p\<lparr>p_vel := (p_vel p)[i := v]\<rparr>)"
  "writes_row p i (p\<lparr>p_yaw_rate := (p_yaw_rate p)[i := y]\<rparr>)"
  "writes_row p i (p\<lparr>p_pitch_rate := (p_pitch_rate p)[i := y]\<rparr>)"
  "writes_row p i (p\<lparr>p_roll_rate := (p_roll_rate p)[i := y]\<rparr>)"
  "writes_row p i (p\<lparr>p_support := (p_support p)[i := u]\<rparr>)"
  "writes_row p i (p\<lparr>p_attach := (p_attach p)[i := l]\<rparr>)"
  "writes_row p i (p\<lparr>p_island := (p_island p)[i := n]\<rparr>)"
  "writes_row p i (p\<lparr>p_sleep := (p_sleep p)[i := n]\<rparr>)"
  "writes_row p i (p\<lparr>p_lod := (p_lod p)[i := lod]\<rparr>)"
  "writes_row p i (p\<lparr>p_in_place := (p_in_place p)[i := pl]\<rparr>)"
  by (auto simp: row_simps intro!: space_entry_cong)

lemma writes_maps:
  "writes_row p i (p\<lparr>p_qty := bt_insert (i, r) v (p_qty p)\<rparr>)"
  "writes_row p i (p\<lparr>p_phys := bt_insert i w (p_phys p)\<rparr>)"
  "writes_row p i (p\<lparr>p_rites := bt_insert (i, r) m (p_rites p)\<rparr>)"
  "writes_row p i (p\<lparr>p_knows := bt_insert (i, f) u (p_knows p)\<rparr>)"
  "edge_ok r n \<Longrightarrow> writes_row p i (p\<lparr>p_rels := bt_insert (i, r) n (p_rels p)\<rparr>)"
  by (auto simp: row_simps intro!: space_entry_cong split: if_splits)

lemma writes_removes:
  assumes "maps_sorted p"
  shows "writes_row p i (p\<lparr>p_phys := bt_remove i (p_phys p)\<rparr>)"
    "writes_row p i (p\<lparr>p_rites := bt_remove (i, r) (p_rites p)\<rparr>)"
  using assms by (auto simp: row_simps intro!: space_entry_cong)

text \<open>Writes of columns and maps the index does not read.\<close>

lemma space_entry_quiet [simp]:
  "space_entry (p\<lparr>p_hull_id := a1\<rparr>) = space_entry p"
  "space_entry (p\<lparr>p_vel := a2\<rparr>) = space_entry p"
  "space_entry (p\<lparr>p_yaw_rate := a3\<rparr>) = space_entry p"
  "space_entry (p\<lparr>p_pitch_rate := a4\<rparr>) = space_entry p"
  "space_entry (p\<lparr>p_roll_rate := a5\<rparr>) = space_entry p"
  "space_entry (p\<lparr>p_support := a6\<rparr>) = space_entry p"
  "space_entry (p\<lparr>p_attach := a7\<rparr>) = space_entry p"
  "space_entry (p\<lparr>p_island := a8\<rparr>) = space_entry p"
  "space_entry (p\<lparr>p_sleep := a9\<rparr>) = space_entry p"
  "space_entry (p\<lparr>p_lod := a10\<rparr>) = space_entry p"
  "space_entry (p\<lparr>p_qty := a11\<rparr>) = space_entry p"
  "space_entry (p\<lparr>p_phys := a12\<rparr>) = space_entry p"
  "space_entry (p\<lparr>p_rites := a13\<rparr>) = space_entry p"
  "space_entry (p\<lparr>p_knows := a14\<rparr>) = space_entry p"
  "space_entry (p\<lparr>p_constraints := a15\<rparr>) = space_entry p"
  by (auto simp: fun_eq_iff intro!: space_entry_cong)

lemma space_entry_rels: "r \<noteq> LockedBy \<Longrightarrow>
  space_entry (p\<lparr>p_rels := bt_insert (i, rel_as_u8 r) n (p_rels p)\<rparr>) j = space_entry p j"
proof -
  assume "r \<noteq> LockedBy"
  then have "rel_as_u8 r \<noteq> rel_as_u8 LockedBy" by (simp only: rel_as_u8_inject) simp
  then show ?thesis by (intro space_entry_cong) (auto simp: bt_get_insert)
qed

section \<open>The writes keep both invariants\<close>

definition kept :: "projection \<Rightarrow> bool" where
  "kept p \<longleftrightarrow> proj_ok p \<and> space_ok p"

lemma keptD: "kept p \<Longrightarrow> proj_ok p" "kept p \<Longrightarrow> space_ok p"
  by (simp_all add: kept_def)

lemma kept_packed: "kept p \<Longrightarrow> proj_packed p s = Some i \<Longrightarrow> i < length (p_sigils p)"
  using packed_range by (simp add: kept_def)

lemma kept_quiet:
  "kept p \<Longrightarrow> writes_row p i q \<Longrightarrow> i < length (p_sigils p) \<Longrightarrow> space_entry q i = space_entry p i \<Longrightarrow> kept q"
  unfolding kept_def using writes_ok writes_space_same by blast

lemma kept_reindex:
  "kept p \<Longrightarrow> writes_row p i q \<Longrightarrow> i < length (p_sigils p) \<Longrightarrow> kept (reindex_ix i q)"
  unfolding kept_def using writes_ok writes_space_reindex row_in_range by auto

lemma require_Inr: "require p s = Inr i \<longleftrightarrow> proj_packed p s = Some i"
  by (simp add: require_def split: option.split)

named_theorems write_defs \<open>definitions of the row writes\<close>

lemmas [write_defs] = set_affordance_def set_hull_def set_pose_def set_vel_def set_rates_def set_support_def set_attach_local_def
  set_island_def set_sim_lod_def set_qty_def set_phys_req_def clear_phys_req_def

lemma quiet_writes_kept:
  assumes "kept p"
  shows "set_vel s v y p = Inr q \<Longrightarrow> kept q" "set_rates s a b c p = Inr q \<Longrightarrow> kept q" "set_support s u p = Inr q \<Longrightarrow> kept q"
    "set_attach_local s l p = Inr q \<Longrightarrow> kept q" "set_island s n m p = Inr q \<Longrightarrow> kept q" "set_sim_lod s d p = Inr q \<Longrightarrow> kept q"
    "set_qty s r w p = Inr q \<Longrightarrow> kept q" "set_phys_req s x p = Inr q \<Longrightarrow> kept q" "clear_phys_req s p = Inr q \<Longrightarrow> kept q"
proof -
  note k = kept_quiet[OF assms _ kept_packed[OF assms]]
  have maps: "maps_sorted p" using assms by (simp add: kept_def proj_ok_def)
  show "clear_phys_req s p = Inr q \<Longrightarrow> kept q"
    using writes_removes(1)[OF maps] by (auto simp: write_defs rbind_Inr_iff require_Inr intro!: k)
  show "set_vel s v y p = Inr q \<Longrightarrow> kept q"
    using writes_trans[OF writes_cols(4) writes_cols(5)]
    by (auto simp: write_defs rbind_Inr_iff require_Inr intro!: k)
  show "set_rates s a b c p = Inr q \<Longrightarrow> kept q"
    using writes_trans[OF writes_trans[OF writes_cols(5) writes_cols(6)] writes_cols(7)]
    by (auto simp: write_defs rbind_Inr_iff require_Inr intro!: k)
  show "set_island s n m p = Inr q \<Longrightarrow> kept q"
    using writes_trans[OF writes_cols(10) writes_cols(11)]
    by (auto simp: write_defs rbind_Inr_iff require_Inr intro!: k)
qed (auto simp: write_defs rbind_Inr_iff require_Inr intro!: kept_quiet[OF assms _ kept_packed[OF assms]] writes_cols writes_maps
    )

lemma indexed_writes_kept:
  assumes "kept p"
  shows "set_affordance s a on p = Inr q \<Longrightarrow> kept q" "set_hull s h b p = Inr q \<Longrightarrow> kept q" "set_pose s w p = Inr q \<Longrightarrow> kept q"
proof -
  note k = kept_reindex[OF assms _ kept_packed[OF assms]]
  show "set_affordance s a on p = Inr q \<Longrightarrow> kept q"
    using k writes_cols(1) writes_refl by (auto simp: write_defs rbind_Inr_iff require_Inr)
  show "set_hull s h b p = Inr q \<Longrightarrow> kept q"
    using k writes_cols(2) by (auto simp: write_defs rbind_Inr_iff require_Inr)
  show "set_pose s w p = Inr q \<Longrightarrow> kept q"
    using k writes_cols(3) by (auto simp: write_defs rbind_Inr_iff require_Inr)
qed

lemma constraints_irrelevant:
  "row_view (p\<lparr>p_constraints := m\<rparr>) = row_view p" "proj_packed (p\<lparr>p_constraints := m\<rparr>) = proj_packed p"
  "cols_ok (p\<lparr>p_constraints := m\<rparr>) = cols_ok p" "ids_ok (p\<lparr>p_constraints := m\<rparr>) = ids_ok p"
  "row_bare (p\<lparr>p_constraints := m\<rparr>) = row_bare p"
  by (simp_all add: row_view_def proj_packed_def cols_ok_def ids_ok_def row_bare_def fun_eq_iff Let_def)

lemma kept_constraints: "kept p \<Longrightarrow> bt_sorted m \<Longrightarrow> kept (p\<lparr>p_constraints := m\<rparr>)"
  by (simp add: kept_def space_ok_def proj_ok_def constraints_irrelevant maps_sorted_def)

lemma constraint_writes_kept:
  assumes "kept p"
  shows "kept (set_constraint_state c st p)" "kept (restore_constraint_states rows p)"
proof -
  have "bt_sorted (fold (\<lambda>(c, st) m. bt_insert c st m) rows m)" if "bt_sorted m" for m :: "(sigil, constraint_state) btree"
    using that by (induction rows arbitrary: m) auto
  moreover have "bt_sorted (p_constraints p)" using assms by (simp add: kept_def proj_ok_def maps_sorted_def)
  ultimately show "kept (set_constraint_state c st p)" "kept (restore_constraint_states rows p)"
    using kept_constraints[OF assms] by (simp_all add: set_constraint_state_def restore_constraint_states_def)
qed

lemma rite_writes_kept:
  assumes "kept p"
  shows "kept (put_rite a r m p)" "kept (update_rite a r f p)"
  using kept_quiet[OF assms writes_maps(3) kept_packed[OF assms]] assms
  by (auto simp: put_rite_def update_rite_def split: option.split)

lemma edge_push_ok:
  "r \<noteq> In \<Longrightarrow> n = nb_default \<or> edge_ok (rel_as_u8 r) n \<Longrightarrow>
   edge_ok (rel_as_u8 r) (if b \<in> set (nb_slice n) then n else nb_push b n)"
  using nb_push_ok nb_default_simps(2) by (auto simp: edge_ok_def)

lemma edge_retain_ok: "edge_ok k n \<Longrightarrow> edge_ok k (nb_retain f n)"
  by (simp add: edge_ok_def nb_retain_ok)

lemma proj_edge_ok: "proj_ok p \<Longrightarrow> bt_get (p_rels p) (i, r) = Some n \<Longrightarrow> edge_ok r n"
  unfolding proj_ok_def by blast

lemma add_rel_raw_writes:
  assumes "proj_ok p" "add_rel_raw a r b p = Inr (i, q)"
  shows "proj_packed p a = Some i \<and> writes_row p i q \<and> (r \<noteq> In \<and> r \<noteq> LockedBy \<longrightarrow> space_entry q i = space_entry p i)"
proof -
  have i: "proj_packed p a = Some i" using assms(2) by (auto simp: add_rel_raw_def rbind_Inr_iff require_Inr Let_def split: if_splits)
  define k where "k = (i, rel_as_u8 r)"
  define n where "n = (case bt_get (p_rels p) k of None \<Rightarrow> nb_default | Some n \<Rightarrow> n)"
  have "n = nb_default \<or> edge_ok (rel_as_u8 r) n"
    using proj_edge_ok[OF assms(1), of i "rel_as_u8 r"] unfolding n_def k_def by (auto split: option.split)
  then have ok: "edge_ok (rel_as_u8 r) (if b \<in> set (nb_slice n) then n else nb_push b n)" if "r \<noteq> In"
    using edge_push_ok[OF that] by blast
  have q: "q = (if r = In then p\<lparr>p_in_place := (p_in_place p)[i := Some b]\<rparr>
      else p\<lparr>p_rels := bt_insert k (if b \<in> set (nb_slice n) then n else nb_push b n) (p_rels p)\<rparr>)"
    using assms(2) i by (auto simp: add_rel_raw_def require_def k_def n_def Let_def split: if_splits)
  show ?thesis
    using i writes_cols(13) writes_maps(5)[OF ok] space_entry_rels by (simp add: q k_def)
qed

lemma add_rel_kept:
  assumes "kept p" "add_rel a r b p = Inr q"
  shows "kept q"
proof -
  obtain i p1 where r: "add_rel_raw a r b p = Inr (i, p1)" using assms(2) by (auto simp: add_rel_def rbind_Inr_iff)
  note w = add_rel_raw_writes[OF keptD(1)[OF assms(1)] r]
  define p2 where "p2 = default_attach i a r b p1"
  have "writes_row p1 i p2 \<and> space_entry p2 = space_entry p1"
    using writes_refl writes_cols(9) by (simp add: p2_def default_attach_def split: option.split)
  then have w2: "writes_row p i p2" "r \<noteq> In \<and> r \<noteq> LockedBy \<longrightarrow> space_entry p2 i = space_entry p i"
    using w writes_trans by auto
  have q: "q = (if r = LockedBy \<or> r = In then reindex_ix i p2 else p2)"
    using assms(2) unfolding add_rel_def r p2_def by (auto simp: Let_def)
  have "i < length (p_sigils p)" using w kept_packed[OF assms(1)] by blast
  then show ?thesis using w2 kept_reindex[OF assms(1) w2(1)] kept_quiet[OF assms(1) w2(1)] by (auto simp: q)
qed

lemma del_rel_kept:
  assumes "kept p" "del_rel a r b p = Inr q"
  shows "kept q"
proof -
  obtain i where i: "proj_packed p a = Some i" using assms(2) by (auto simp: del_rel_def rbind_Inr_iff require_Inr)
  have lt: "i < length (p_sigils p)" using i kept_packed[OF assms(1)] by blast
  show ?thesis
  proof (cases "r = In")
    case True
    then have "q = reindex_ix i (if nth_or None (p_in_place p) i = Some b then p\<lparr>p_in_place := (p_in_place p)[i := None]\<rparr> else p)"
      using assms(2) i by (simp add: del_rel_def require_def)
    then show ?thesis using kept_reindex[OF assms(1) _ lt] writes_refl writes_cols(13) by simp
  next
    case False
    define p1 where "p1 = drop_edge i r b p"
    define p2 where "p2 = detach i a r p1"
    have q: "q = (if r = LockedBy then reindex_ix i p2 else p2)"
      using assms(2) i False unfolding p2_def p1_def by (simp add: del_rel_def require_def Let_def)
    have "edge_ok (rel_as_u8 r) (nb_retain (\<lambda>x. x \<noteq> b) n)" if "bt_get (p_rels p) (i, rel_as_u8 r) = Some n" for n
      using edge_retain_ok proj_edge_ok[OF keptD(1)[OF assms(1)] that] by blast
    then have "writes_row p i p1 \<and> (r \<noteq> LockedBy \<longrightarrow> space_entry p1 i = space_entry p i)"
      using writes_refl writes_maps(5) space_entry_rels by (auto simp: p1_def drop_edge_def split: option.split)
    moreover have "writes_row p1 i p2 \<and> space_entry p2 = space_entry p1"
      using writes_refl writes_cols(9) by (simp add: p2_def detach_def)
    ultimately have "writes_row p i p2" "r \<noteq> LockedBy \<longrightarrow> space_entry p2 i = space_entry p i"
      using writes_trans by auto
    then show ?thesis using kept_reindex[OF assms(1) _ lt] kept_quiet[OF assms(1) _ lt] by (auto simp: q)
  qed
qed

section \<open>New rows\<close>

lemma nth_or_snoc [simp]: "nth_or d (xs @ [d]) j = nth_or d xs j"
  using nth_or_simps(2)[of d xs 1 j] by simp

lemma nth_opt_snoc: "j \<noteq> length xs \<Longrightarrow> nth_opt (xs @ [x]) j = nth_opt xs j"
  by (auto simp: nth_opt_def nth_append)

lemma pix_ensure_rel: "pix_rel p M \<Longrightarrow> pix_rel (pix_ensure i p) M"
proof -
  assume r: "pix_rel p M"
  have "place_rel (pix_ensure i p) = place_rel p" by (rule place_rel_cong) (simp_all add: pix_ensure_def)
  then show ?thesis using r by (auto simp: pix_rel_def pix_ensure_def homes_rel_def)
qed

definition fresh_row :: "locus_kind \<Rightarrow> locus_row" where
  "fresh_row kind =
     \<lparr>lr_kind = kind, lr_afford = 0, lr_hull = None, lr_hull_id = hash_zero, lr_pose = None, lr_vel = vel_zero, lr_yaw = 0,
      lr_pitch = 0, lr_roll = 0, lr_island = 0, lr_sleep = 0, lr_lod = Full, lr_in_place = None, lr_support = None,
      lr_attach = None, lr_rels = (\<lambda>_. None), lr_qty = (\<lambda>_. None), lr_phys = None, lr_rites = (\<lambda>_. None),
      lr_knows = (\<lambda>_. False)\<rparr>"

lemma insert_at_end_ok:
  assumes ok: "proj_ok p" and "proj_packed p s = None" "insert_locus_at_end s kind p = Inr (i, q)"
  shows "i = length (p_sigils p) \<and> p_sigils q = p_sigils p @ [s] \<and> proj_ok q \<and> space_entry q = space_entry p \<and> p_space q = p_space p
    \<and> proj_view q = (proj_view p)(s := Some (fresh_row kind)) \<and> proj_packed q s = Some i"
proof -
  let ?n = "length (p_sigils p)"
  have q: "i = ?n" "\<not> p_locus_cap p \<le> ?n" "p_sigils q = p_sigils p @ [s]" "p_by_sigil q = bt_insert s ?n (p_by_sigil p)"
    "p_space q = p_space p" "p_rels q = p_rels p" "p_qty q = p_qty p" "p_phys q = p_phys p" "p_rites q = p_rites p" "p_knows q = p_knows p"
    "p_constraints q = p_constraints p" "p_locus_cap q = p_locus_cap p" "p_opaque q = p_opaque p"
    "p_kinds q = p_kinds p @ [kind]" "p_afford q = p_afford p @ [0]" "p_hull q = p_hull p @ [None]" "p_hull_id q = p_hull_id p @ [hash_zero]"
    "p_pose q = p_pose p @ [None]" "p_vel q = p_vel p @ [vel_zero]" "p_yaw_rate q = p_yaw_rate p @ [0]" "p_pitch_rate q = p_pitch_rate p @ [0]"
    "p_roll_rate q = p_roll_rate p @ [0]" "p_island q = p_island p @ [0]" "p_sleep q = p_sleep p @ [0]" "p_lod q = p_lod p @ [Full]"
    "p_in_place q = p_in_place p @ [None]" "p_support q = p_support p @ [None]" "p_attach q = p_attach p @ [None]"
    using assms(2,3) by (auto simp: insert_locus_at_end_def Let_def split: if_splits)
  have co: "cols_ok p" and ids: "ids_ok p" and bare: "row_bare p ?n" using ok by (simp_all add: proj_ok_def)
  have co': "cols_ok q" using co by (simp add: cols_ok_def q Let_def)
  have "s \<notin> set (p_sigils p)"
  proof
    assume "s \<in> set (p_sigils p)"
    then obtain j where "nth_opt (p_sigils p) j = Some s" by (auto simp: in_set_conv_nth nth_opt_Some_iff)
    then have "bt_get (p_by_sigil p) s = Some j" using ids unfolding ids_ok_def by blast
    then show False using assms(2) by (simp add: proj_packed_def)
  qed
  then have ids': "ids_ok q"
    using ids assms(2)
    by (auto simp: ids_ok_def q bt_get_insert nth_opt_def nth_append proj_packed_def split: if_splits)
  have bare': "row_bare q j = row_bare p j" for j by (simp add: row_bare_def q)
  have "maps_sorted q = maps_sorted p" by (simp add: maps_sorted_def q)
  moreover have "(\<forall>i r n. bt_get (p_rels q) (i, r) = Some n \<longrightarrow> edge_ok r n)" using ok unfolding q proj_ok_def by blast
  ultimately have okq: "proj_ok q" using ok co' ids' q(2) by (auto simp: proj_ok_def bare' q(3,12))
  have sp: "space_entry q j = space_entry p j" for j
  proof (cases "j < ?n")
    case True
    moreover have "length (p_kinds p) = ?n" using co by (simp add: cols_ok_def Let_def)
    ultimately have "j \<noteq> length (p_sigils p)" "j \<noteq> length (p_kinds p)" by simp_all
    then show ?thesis by (intro space_entry_cong) (simp_all only: q(3,6,13,14,15,16,18,26) nth_or_snoc nth_opt_snoc not_False_eq_True)
  next
    case False
    moreover have "length (p_pose p) = ?n" using co by (simp add: cols_ok_def Let_def)
    ultimately have "nth_or None (p_pose p) j = None" by simp
    then show ?thesis by (simp add: space_entry_def world_hull_def q split: option.split)
  qed
  then have sp: "space_entry q = space_entry p" by blast
  have row: "row_view q j = row_view p j" if "j < ?n" for j
    using that co by (simp add: row_view_def q nth_append cols_ok_def Let_def)
  have new: "row_view q ?n = fresh_row kind"
    using co bare by (simp add: row_view_def q nth_append cols_ok_def Let_def fresh_row_def row_bare_def bt_has_def fun_eq_iff)
  have "proj_view q t = ((proj_view p)(s := Some (fresh_row kind))) t" for t
  proof (cases "t = s")
    case True
    then show ?thesis using new by (simp add: proj_view_def proj_packed_def q bt_get_insert)
  next
    case False
    then show ?thesis using row packed_range[OF ok, of t]
      by (cases "proj_packed p t") (simp_all add: proj_view_def proj_packed_def q bt_get_insert)
  qed
  then have "proj_view q = (proj_view p)(s := Some (fresh_row kind))" by blast
  moreover have "proj_packed q s = Some i" by (simp add: proj_packed_def q bt_get_insert)
  ultimately show ?thesis using okq sp q(1,3,5) by simp
qed

lemma insert_at_end_new:
  assumes "kept p" "proj_packed p s = None" "insert_locus_at_end s kind p = Inr (i, q)"
  shows "i = length (p_sigils p) \<and> p_sigils q = p_sigils p @ [s] \<and> kept q
    \<and> proj_view q = (proj_view p)(s := Some (fresh_row kind)) \<and> proj_packed q s = Some i"
  using insert_at_end_ok[OF keptD(1)[OF assms(1)] assms(2,3)] keptD(2)[OF assms(1)] by (auto simp: kept_def space_ok_def)


lemma kept_ensure: "kept p \<Longrightarrow> kept (p\<lparr>p_space := pix_ensure i (p_space p)\<rparr>)"
  by (simp add: kept_def space_ok_def pix_ensure_rel)

lemma insert_locus_kept:
  assumes "kept p" "insert_locus s kind p = Inr (i, q)"
  shows "kept q \<and> proj_packed q s = Some i
    \<and> proj_view q = (if proj_packed p s = None then (proj_view p)(s := Some (fresh_row kind)) else proj_view p)"
proof -
  obtain q0 where q0: "insert_locus_at_end s kind p = Inr (i, q0)" "q = q0\<lparr>p_space := pix_ensure i (p_space q0)\<rparr>"
    using assms(2) by (auto simp: insert_locus_def rbind_Inr_iff)
  show ?thesis
  proof (cases "proj_packed p s")
    case None
    then show ?thesis using insert_at_end_new[OF assms(1) None q0(1)] kept_ensure q0(2) by simp
  next
    case (Some j)
    then have "q0 = p" "i = j" using q0(1) by (simp_all add: insert_locus_at_end_def)
    then show ?thesis using Some assms(1) kept_ensure q0(2) by simp
  qed
qed

section \<open>Events\<close>

lemma kept_ignore: "kept p \<Longrightarrow> (\<And>q. r = Inr q \<Longrightarrow> kept q) \<Longrightarrow> kept (ignore_error p r)"
  by (cases r) (simp_all add: ignore_error_def)

lemma ensure_locus_kept: "kept p \<Longrightarrow> ensure_locus s p = Inr (i, q) \<Longrightarrow> kept q \<and> proj_packed q s = Some i"
  using insert_locus_kept by (auto simp: ensure_locus_def split: option.splits)

lemma writes_when: "writes_row p i q \<Longrightarrow> (\<And>v. writes_row q i (f v q)) \<Longrightarrow> writes_row p i (when_some x f q)"
  using writes_trans by (auto simp: when_some_def split: option.split)

lemma apply_member_kept:
  assumes "kept p"
  shows "kept (apply_member snap km p)"
proof (cases "ensure_locus (snd km) p")
  case (Inl e)
  then show ?thesis using assms by (simp add: apply_member_def)
next
  case (Inr iq)
  obtain i q where iq: "iq = (i, q)" by (cases iq)
  have k: "kept q" "proj_packed q (snd km) = Some i" using ensure_locus_kept[OF assms] Inr iq by simp_all
  show ?thesis
    unfolding apply_member_def Inr iq sum.case prod.case Let_def
    by (rule kept_reindex[OF k(1) writes_trans[OF _ writes_cols(10)] kept_packed[OF k]])
      (intro writes_when writes_refl writes_cols)
qed

lemma apply_event_kept:
  assumes "kept p"
  shows "kept (apply_event e p)"
proof -
  have maps: "maps_sorted p" using assms by (simp add: kept_def proj_ok_def)
  note quiet = kept_quiet[OF assms _ kept_packed[OF assms]]
  have snap: "kept (fold (apply_member s) kms q)" if "kept q" for s kms q
    using that by (induction kms arbitrary: q) (simp_all add: apply_member_kept)
  show ?thesis
  proof (cases "ev_body e")
    case (RiteEnded a r st)
    then show ?thesis using assms quiet[OF writes_removes(2)[OF maps]]
      by (simp add: apply_event_def split: option.split)
  next
    case (PoseCommitted s w r)
    then show ?thesis using assms kept_reindex[OF assms writes_cols(3) kept_packed[OF assms]]
      by (simp add: apply_event_def split: option.split)
  next
    case (Spawned tm s w)
    show ?thesis
    proof (cases "insert_locus s Relic p")
      case (Inr iq)
      obtain i q where "iq = (i, q)" by (cases iq)
      then have "kept q" using insert_locus_kept[OF assms] Inr by blast
      then show ?thesis using Spawned Inr \<open>iq = (i, q)\<close> kept_ignore indexed_writes_kept(3) by (simp add: apply_event_def)
    qed (use Spawned assms in \<open>simp add: apply_event_def\<close>)
  next
    case (Learned m f)
    then show ?thesis using assms quiet[OF writes_maps(4)] by (simp add: apply_event_def split: option.split)
  next
    case (QtyChanged s r v q)
    then show ?thesis using assms quiet_writes_kept(7)[OF assms] kept_ignore by (simp add: apply_event_def)
  next
    case (RelAdded a r b)
    then show ?thesis using assms add_rel_kept[OF assms] kept_ignore by (simp add: apply_event_def split: option.split)
  next
    case (RelDeleted a r b)
    then show ?thesis using assms del_rel_kept[OF assms] kept_ignore by (simp add: apply_event_def split: option.split)
  qed (use assms snap rite_writes_kept[OF assms] in \<open>simp_all add: apply_event_def\<close>)
qed

end
