(* ===== verification/WorldDrop.thy ===== *)
theory WorldDrop
  imports WorldProjInv
begin

text \<open>
  Removing loci.  The code swaps the last row into the gap and renames the keys of every map; seen from
  outside, a set of sigils disappears, the other rows lose their edges into it, and nothing else changes.
\<close>

section \<open>Maps keyed by rows\<close>

lemma bt_get_filter: "bt_get (filter (\<lambda>(k, v). P k) m) k = (if P k then bt_get m k else None)"
  by (induction m) auto

lemma bt_sorted_filter: "bt_sorted m \<Longrightarrow> bt_sorted (filter P m)"
  by (induction m) auto

lemma bt_sorted_map: "bt_sorted (map (\<lambda>(k, v). (k, f v)) m) = bt_sorted m"
  by (simp add: bt_sorted_def comp_def case_prod_beta)

lemma rekey_keys:
  assumes "bt_sorted m" "a \<noteq> b" "distinct ks" "\<forall>k \<in> set ks. fst k = a \<and> bt_get m k \<noteq> None"
  shows "bt_sorted (fold (\<lambda>k m. case bt_get m k of None \<Rightarrow> m | Some v \<Rightarrow> bt_insert (b, snd k) v (bt_remove k m)) ks m)
    \<and> bt_get (fold (\<lambda>k m. case bt_get m k of None \<Rightarrow> m | Some v \<Rightarrow> bt_insert (b, snd k) v (bt_remove k m)) ks m) (j, x)
      = (if (a, x) \<in> set ks \<and> j = b then bt_get m (a, x) else if (a, x) \<in> set ks \<and> j = a then None else bt_get m (j, x))"
  using assms
proof (induction ks arbitrary: m)
  case (Cons k ks)
  obtain y where k: "k = (a, y)" using Cons.prems(4) by (cases k) auto
  obtain v where v: "bt_get m (a, y) = Some v" using Cons.prems(4) k by auto
  let ?m = "bt_insert (b, y) v (bt_remove (a, y) m)"
  have s: "bt_sorted ?m" using Cons.prems(1) by simp
  have g: "bt_get ?m (i, z) = (if i = b \<and> z = y then Some v else if i = a \<and> z = y then None else bt_get m (i, z))" for i z
    using Cons.prems(1) by (auto simp: bt_get_insert bt_get_remove)
  have ks: "\<forall>k \<in> set ks. fst k = a \<and> bt_get ?m k \<noteq> None"
    using Cons.prems(2-4) k by (auto simp: bt_get_insert bt_get_remove[OF Cons.prems(1)])
  have y: "(a, y) \<notin> set ks" using Cons.prems(3) k by simp
  show ?case
    using Cons.IH[OF s Cons.prems(2) _ ks] Cons.prems(2,3) y v unfolding k by (auto simp: g)
qed simp

lemma rekey_spec:
  assumes "bt_sorted m" "a \<noteq> b" "\<And>x. bt_get m (b, x) = None"
  shows "bt_sorted (rekey a b m)"
    "bt_get (rekey a b m) (j, x) = (if j = b then bt_get m (a, x) else if j = a then None else bt_get m (j, x))"
proof -
  let ?ks = "filter (\<lambda>k. fst k = a) (map fst m)"
  have d: "distinct ?ks" using assms(1) by (simp add: bt_sorted_def strict_sorted_iff)
  have dom: "\<forall>k \<in> set ?ks. fst k = a \<and> bt_get m k \<noteq> None" by (auto simp: bt_get_None_iff)
  have ks: "(a, x) \<in> set ?ks \<longleftrightarrow> bt_get m (a, x) \<noteq> None" by (auto simp: bt_get_None_iff)
  note r = rekey_keys[OF assms(1,2) d dom, folded rekey_def]
  show "bt_sorted (rekey a b m)" using r by blast
  show "bt_get (rekey a b m) (j, x) = (if j = b then bt_get m (a, x) else if j = a then None else bt_get m (j, x))"
    using r[of j x] assms(3) ks by auto
qed

section \<open>One row leaves\<close>

definition bare_view :: "locus_row \<Rightarrow> bool" where
  "bare_view v \<longleftrightarrow> (\<forall>x. lr_rels v x = None \<and> lr_qty v x = None \<and> lr_rites v x = None \<and> \<not> lr_knows v x) \<and> lr_phys v = None"

lemma bare_row_view: "bare_view (row_view p i) \<longleftrightarrow> row_bare p i"
proof -
  have "x \<noteq> Some () \<longleftrightarrow> x = None" for x by (cases x) simp_all
  then show ?thesis by (simp add: bare_view_def row_view_def row_bare_def bt_has_def)
qed

lemma nth_swap_pop:
  assumes "i < length xs" "j < length xs - 1"
  shows "butlast (swap_rows i (length xs - 1) xs) ! j = xs ! (if j = i then length xs - 1 else j)"
  using assms by (simp add: swap_rows_def nth_butlast nth_list_update)

lemma length_swap_pop [simp]: "length (swap_rows i j xs) = length xs"
  by (simp add: swap_rows_def)

lemma remap_phys:
  assumes "bt_sorted m" "a \<noteq> b" "bt_get m b = None"
  shows "bt_sorted (case bt_get m a of None \<Rightarrow> m | Some q \<Rightarrow> bt_insert b q (bt_remove a m))"
    "bt_get (case bt_get m a of None \<Rightarrow> m | Some q \<Rightarrow> bt_insert b q (bt_remove a m)) j
      = (if j = b then bt_get m a else if j = a then None else bt_get m j)"
  using assms by (auto simp: bt_get_insert bt_get_remove split: option.split)

text \<open>After the swap and the pop, the row \<open>j\<close> is the old row \<open>src j\<close>.\<close>

lemma swap_out_rows:
  assumes ok: "proj_ok p" and s: "proj_packed p s = Some i" and bare: "row_bare p i" and q: "swap_out_locus s p = Inr q"
  defines "lst \<equiv> length (p_sigils p) - 1"
  defines "src \<equiv> \<lambda>j. if j = i then lst else j"
  shows "length (p_sigils q) = lst" "cols_ok q" "maps_sorted q" "p_locus_cap q = p_locus_cap p"
    "\<And>j. j < lst \<Longrightarrow> p_sigils q ! j = p_sigils p ! src j"
    "\<And>j. j < lst \<Longrightarrow> row_view q j = row_view p (src j)"
    "\<And>j. lst \<le> j \<Longrightarrow> row_bare q j"
    "\<And>j r n. bt_get (p_rels q) (j, r) = Some n \<Longrightarrow> edge_ok r n"
    "p_by_sigil q = bt_remove s (if i \<noteq> lst then bt_insert (p_sigils p ! lst) i (p_by_sigil p) else p_by_sigil p)"
proof -
  have i: "i < length (p_sigils p)" "p_sigils p ! i = s" using packed_range[OF ok s] by simp_all
  have co: "cols_ok p" and ms: "maps_sorted p" using ok by (simp_all add: proj_ok_def)
  have nb: "\<And>j r n. bt_get (p_rels p) (j, r) = Some n \<Longrightarrow> edge_ok r n" using ok unfolding proj_ok_def by blast
  have bl: "row_bare p j" if "length (p_sigils p) \<le> j" for j using ok that by (simp add: proj_ok_def)
  have sb: "bt_sorted (p_rels p)" "bt_sorted (p_qty p)" "bt_sorted (p_phys p)" "bt_sorted (p_rites p)" "bt_sorted (p_knows p)" "bt_sorted (p_constraints p)"
    using ms by (simp_all add: maps_sorted_def)
  define p1 where "p1 = (if i \<noteq> lst then let q = remap_packed lst i (swap_packed i lst p) in
      q\<lparr>p_by_sigil := bt_insert (p_sigils q ! i) i (p_by_sigil q)\<rparr> else p)"
  have q': "q = pop_packed p1\<lparr>p_by_sigil := bt_remove s (p_by_sigil p1)\<rparr>"
  proof -
    have "swap_out_locus s p = Inr (pop_packed p1\<lparr>p_by_sigil := bt_remove s (p_by_sigil (pop_packed p1))\<rparr>)"
      by (simp only: swap_out_locus_def require_def s option.case rbind.simps Let_def p1_def lst_def)
    then show ?thesis using q by (simp add: pop_packed_def)
  qed
  have "length (p_sigils q) = lst \<and> cols_ok q \<and> maps_sorted q \<and> p_locus_cap q = p_locus_cap p
    \<and> (\<forall>j<lst. p_sigils q ! j = p_sigils p ! src j)
    \<and> (\<forall>j<lst. row_view q j = row_view p (src j))
    \<and> (\<forall>j\<ge>lst. row_bare q j)
    \<and> (\<forall>j r n. bt_get (p_rels q) (j, r) = Some n \<longrightarrow> edge_ok r n)
    \<and> p_by_sigil q = bt_remove s (if i \<noteq> lst then bt_insert (p_sigils p ! lst) i (p_by_sigil p) else p_by_sigil p)"
  proof (cases "i = lst")
    case True
    then have p1: "p1 = p" by (simp add: p1_def)
    have len: "length (p_sigils p) = Suc lst" using i(1) by (simp add: lst_def)
    have "row_bare q j" if "lst \<le> j" for j
    proof -
      have "row_bare p j" using that bare bl True len by (cases "j = lst") auto
      then show ?thesis by (simp add: q' p1 pop_packed_def row_bare_def)
    qed
    moreover have "row_view q j = row_view p j" if "j < lst" for j
      using that co len by (simp add: q' p1 pop_packed_def row_view_def nth_butlast cols_ok_def Let_def)
    moreover have "cols_ok q" using co by (simp add: q' p1 pop_packed_def cols_ok_def Let_def)
    ultimately show ?thesis
      using True len ms nb by (auto simp: q' p1 pop_packed_def maps_sorted_def src_def nth_butlast)
  next
    case False
    have len: "length (p_sigils p) = Suc lst" "i < lst" using i(1) False by (simp_all add: lst_def)
    define p0 where "p0 = remap_packed lst i (swap_packed i lst p)"
    have none: "bt_get (p_rels p) (i, x) = None" "bt_get (p_qty p) (i, x) = None" "bt_get (p_phys p) i = None"
        "bt_get (p_rites p) (i, x) = None" "bt_get (p_knows p) (i, x) = None" for x
      using bare by (simp_all add: row_bare_def)
    have li: "lst \<noteq> i" using False by simp
    note R = rekey_spec[OF sb(1) li none(1)] rekey_spec[OF sb(2) li none(2)] rekey_spec[OF sb(4) li none(4)]
      rekey_spec[OF sb(5) li none(5)] remap_phys[OF sb(3) li none(3)]
    have m: "p_rels q = rekey lst i (p_rels p)" "p_qty q = rekey lst i (p_qty p)" "p_rites q = rekey lst i (p_rites p)"
      "p_knows q = rekey lst i (p_knows p)" "p_constraints q = p_constraints p" "p_locus_cap q = p_locus_cap p"
      "p_phys q = (case bt_get (p_phys p) lst of None \<Rightarrow> p_phys p | Some w \<Rightarrow> bt_insert i w (bt_remove lst (p_phys p)))"
      using False by (simp_all add: q' p1_def Let_def pop_packed_def remap_packed_def swap_packed_def cong: option.case_cong)
    have c: "p_sigils q = butlast (swap_rows i lst (p_sigils p))" "p_kinds q = butlast (swap_rows i lst (p_kinds p))"
      "p_afford q = butlast (swap_rows i lst (p_afford p))" "p_hull q = butlast (swap_rows i lst (p_hull p))"
      "p_hull_id q = butlast (swap_rows i lst (p_hull_id p))" "p_pose q = butlast (swap_rows i lst (p_pose p))"
      "p_vel q = butlast (swap_rows i lst (p_vel p))" "p_yaw_rate q = butlast (swap_rows i lst (p_yaw_rate p))"
      "p_pitch_rate q = butlast (swap_rows i lst (p_pitch_rate p))" "p_roll_rate q = butlast (swap_rows i lst (p_roll_rate p))"
      "p_island q = butlast (swap_rows i lst (p_island p))" "p_sleep q = butlast (swap_rows i lst (p_sleep p))"
      "p_lod q = butlast (swap_rows i lst (p_lod p))" "p_in_place q = butlast (swap_rows i lst (p_in_place p))"
      "p_support q = butlast (swap_rows i lst (p_support p))" "p_attach q = butlast (swap_rows i lst (p_attach p))"
      using False by (simp_all add: q' p1_def Let_def pop_packed_def remap_packed_def swap_packed_def)
    have nth: "butlast (swap_rows i lst xs) ! j = xs ! src j" if "j < lst" "length xs = length (p_sigils p)" for xs :: "'x list" and j
      using nth_swap_pop[of i xs j] that len i(1) by (simp add: src_def)
    have cl: "length (p_kinds p) = length (p_sigils p)" "length (p_afford p) = length (p_sigils p)" "length (p_hull p) = length (p_sigils p)"
      "length (p_hull_id p) = length (p_sigils p)" "length (p_pose p) = length (p_sigils p)" "length (p_vel p) = length (p_sigils p)"
      "length (p_yaw_rate p) = length (p_sigils p)" "length (p_pitch_rate p) = length (p_sigils p)" "length (p_roll_rate p) = length (p_sigils p)"
      "length (p_island p) = length (p_sigils p)" "length (p_sleep p) = length (p_sigils p)" "length (p_lod p) = length (p_sigils p)"
      "length (p_in_place p) = length (p_sigils p)" "length (p_support p) = length (p_sigils p)" "length (p_attach p) = length (p_sigils p)"
      using co by (simp_all add: cols_ok_def Let_def)
    have "row_view q j = row_view p (src j)" if j: "j < lst" for j
    proof -
      have g: "bt_get (p_rels q) (j, x) = bt_get (p_rels p) (src j, x)" "bt_get (p_qty q) (j, x) = bt_get (p_qty p) (src j, x)"
        "bt_get (p_phys q) j = bt_get (p_phys p) (src j)" "bt_get (p_rites q) (j, x) = bt_get (p_rites p) (src j, x)"
        "bt_get (p_knows q) (j, x) = bt_get (p_knows p) (src j, x)" for x
        unfolding m R using j by (simp_all add: src_def)
      show ?thesis
        unfolding row_view_def bt_has_def g c nth[OF j] by (simp only: nth[OF j] cl)
    qed
    moreover have "row_bare q j" if "lst \<le> j" for j
    proof -
      have "row_bare p j" if "j \<noteq> lst" using bl[of j] len that \<open>lst \<le> j\<close> by simp
      then show ?thesis using that len(2) unfolding row_bare_def m R by auto
    qed
    moreover have "edge_ok r n" if "bt_get (p_rels q) (j, r) = Some n" for j r n
      using that nb unfolding m R by (auto split: if_splits)
    moreover have "cols_ok q" unfolding cols_ok_def c by (simp add: cl)
    moreover have "maps_sorted q" unfolding maps_sorted_def m using R sb by simp
    moreover have "p_by_sigil q = bt_remove s (bt_insert (p_sigils p ! lst) i (p_by_sigil p))"
      using len i(1) False by (simp add: q' p1_def Let_def pop_packed_def remap_packed_def swap_packed_def swap_rows_def nth_list_update)
    ultimately show ?thesis using len False m(6) nth[of _ "p_sigils p"] by (simp add: c(1))
  qed
  then show "length (p_sigils q) = lst" "cols_ok q" "maps_sorted q" "p_locus_cap q = p_locus_cap p"
    "\<And>j. j < lst \<Longrightarrow> p_sigils q ! j = p_sigils p ! src j"
    "\<And>j. j < lst \<Longrightarrow> row_view q j = row_view p (src j)"
    "\<And>j. lst \<le> j \<Longrightarrow> row_bare q j"
    "\<And>j r n. bt_get (p_rels q) (j, r) = Some n \<Longrightarrow> edge_ok r n"
    "p_by_sigil q = bt_remove s (if i \<noteq> lst then bt_insert (p_sigils p ! lst) i (p_by_sigil p) else p_by_sigil p)"
    by blast+
qed

lemma swap_out_ok:
  assumes ok: "proj_ok p" and s: "proj_packed p s = Some i" and bare: "row_bare p i"
  shows "\<exists>q. swap_out_locus s p = Inr q \<and> proj_ok q \<and> p_locus_cap q = p_locus_cap p \<and> proj_view q = (proj_view p)(s := None)"
proof -
  obtain q where q: "swap_out_locus s p = Inr q" by (simp add: swap_out_locus_def require_def s Let_def)
  define lst where "lst = length (p_sigils p) - 1"
  define src where "src = (\<lambda>j. if j = i then lst else j)"
  note R = swap_out_rows[OF ok s bare q, folded lst_def, folded src_def]
  have i: "i < length (p_sigils p)" "p_sigils p ! i = s" using packed_range[OF ok s] by simp_all
  have n: "length (p_sigils p) = Suc lst" using i(1) by (simp add: lst_def)
  have K: "bt_get (p_by_sigil p) t = Some j \<longleftrightarrow> j \<le> lst \<and> p_sigils p ! j = t" for t j
    using ok n by (auto simp: proj_ok_def ids_ok_def nth_opt_Some_iff)
  have sb: "bt_sorted (p_by_sigil p)" using ok by (simp add: proj_ok_def ids_ok_def)
  have inj: "j = k" if "j \<le> lst" "k \<le> lst" "p_sigils p ! j = p_sigils p ! k" for j k
    using K[of "p_sigils p ! j" j] K[of "p_sigils p ! j" k] that by simp
  have srt: "bt_sorted (p_by_sigil q)" using R(9) sb by simp
  have G: "bt_get (p_by_sigil q) t = (if t = s then None else if i \<noteq> lst \<and> t = p_sigils p ! lst then Some i
      else bt_get (p_by_sigil p) t)" for t
    using sb by (simp add: R(9) bt_get_insert bt_get_remove)
  have B: "bt_get (p_by_sigil q) t = Some j \<longleftrightarrow> j < lst \<and> p_sigils p ! src j = t" for t j
  proof (cases "t = s")
    case True
    have "p_sigils p ! src j \<noteq> s" if "j < lst"
      using inj[of "src j" i] that i n by (auto simp: src_def split: if_splits)
    then show ?thesis using True by (auto simp: G)
  next
    case False
    show ?thesis
    proof (cases "i \<noteq> lst \<and> t = p_sigils p ! lst")
      case True
      have "j < lst \<and> p_sigils p ! src j = t \<longleftrightarrow> j = i"
        using True inj[of j lst] i n by (auto simp: src_def)
      then show ?thesis using True False by (auto simp: G)
    next
      case other: False
      have "j \<le> lst \<and> p_sigils p ! j = t \<longleftrightarrow> j < lst \<and> p_sigils p ! src j = t"
        using other False i by (auto simp: src_def le_less)
      then show ?thesis using other False K[of t j] by (auto simp: G)
    qed
  qed
  have ids: "ids_ok q"
    unfolding ids_ok_def nth_opt_Some_iff R(1) using srt B R(5) by (auto simp: src_def)
  have "proj_ok q"
    unfolding proj_ok_def
  proof (intro conjI allI impI)
    show "length (p_sigils q) \<le> p_locus_cap q" "p_locus_cap q \<le> max_loci_process"
      using ok R(1,4) n by (simp_all add: proj_ok_def)
  qed (use R ids in simp_all)
  moreover have "proj_view q t = ((proj_view p)(s := None)) t" for t
  proof (cases "bt_get (p_by_sigil q) t")
    case None
    then show ?thesis by (auto simp: proj_view_def proj_packed_def G split: if_splits)
  next
    case (Some j)
    then have j: "j < lst" "p_sigils p ! src j = t" using B by auto
    then have "bt_get (p_by_sigil p) t = Some (src j)" using K[of t "src j"] by (simp add: src_def)
    moreover have "t \<noteq> s" using Some by (auto simp: G)
    ultimately show ?thesis using Some R(6)[OF j(1)] by (simp add: proj_view_def proj_packed_def src_def)
  qed
  ultimately show ?thesis using q R(4) by blast
qed

section \<open>A set of loci leaves\<close>

definition scrub :: "sigil set \<Rightarrow> locus_row \<Rightarrow> locus_row" where
  "scrub D v = v\<lparr>lr_rels := (\<lambda>r. map_option (filter (\<lambda>x. x \<notin> D)) (lr_rels v r)),
     lr_in_place := (case lr_in_place v of Some s \<Rightarrow> if s \<in> D then None else Some s | None \<Rightarrow> None)\<rparr>"

definition without :: "sigil set \<Rightarrow> (sigil \<Rightarrow> locus_row option) \<Rightarrow> sigil \<Rightarrow> locus_row option" where
  "without D V s = (if s \<in> D then None else map_option (scrub D) (V s))"

definition stripped :: "packed_ix list \<Rightarrow> sigil list \<Rightarrow> projection \<Rightarrow> projection" where
  "stripped ixs sigs p = scrub_incoming_set sigs (strip_packed_maps ixs p)"

lemma stripped_simps:
  "p_sigils (stripped ixs sigs p) = p_sigils p" "p_by_sigil (stripped ixs sigs p) = p_by_sigil p"
  "p_locus_cap (stripped ixs sigs p) = p_locus_cap p"
  "bt_get (p_rels (stripped ixs sigs p)) k = (if fst k \<in> set ixs then None
     else map_option (nb_retain (\<lambda>x. x \<notin> set sigs)) (bt_get (p_rels p) k))"
  "bt_get (p_qty (stripped ixs sigs p)) k = (if fst k \<in> set ixs then None else bt_get (p_qty p) k)"
  "bt_get (p_phys (stripped ixs sigs p)) i = (if i \<in> set ixs then None else bt_get (p_phys p) i)"
  "bt_get (p_rites (stripped ixs sigs p)) k = (if fst k \<in> set ixs then None else bt_get (p_rites p) k)"
  "bt_get (p_knows (stripped ixs sigs p)) k = (if fst k \<in> set ixs then None else bt_get (p_knows p) k)"
  by (simp_all add: stripped_def scrub_incoming_set_def strip_packed_maps_def bt_get_map
      bt_get_filter[where P = "\<lambda>k. fst k \<notin> set ixs"] bt_get_filter[where P = "\<lambda>k. k \<notin> set ixs"])

lemma stripped_cols:
  "p_kinds (stripped ixs sigs p) = p_kinds p" "p_afford (stripped ixs sigs p) = p_afford p" "p_hull (stripped ixs sigs p) = p_hull p"
  "p_hull_id (stripped ixs sigs p) = p_hull_id p" "p_pose (stripped ixs sigs p) = p_pose p" "p_vel (stripped ixs sigs p) = p_vel p"
  "p_yaw_rate (stripped ixs sigs p) = p_yaw_rate p" "p_pitch_rate (stripped ixs sigs p) = p_pitch_rate p"
  "p_roll_rate (stripped ixs sigs p) = p_roll_rate p" "p_island (stripped ixs sigs p) = p_island p" "p_sleep (stripped ixs sigs p) = p_sleep p"
  "p_lod (stripped ixs sigs p) = p_lod p" "p_support (stripped ixs sigs p) = p_support p" "p_attach (stripped ixs sigs p) = p_attach p"
  by (simp_all add: stripped_def scrub_incoming_set_def strip_packed_maps_def)

lemma stripped_ok: "proj_ok p \<Longrightarrow> proj_ok (stripped ixs sigs p)"
proof -
  assume ok: "proj_ok p"
  have nb: "edge_ok r n" if "bt_get (p_rels p) (i, r) = Some n" for i r n using ok that unfolding proj_ok_def by blast
  have "maps_sorted (stripped ixs sigs p)"
    using ok by (simp add: proj_ok_def maps_sorted_def stripped_def scrub_incoming_set_def strip_packed_maps_def bt_sorted_map bt_sorted_filter)
  moreover have "cols_ok (stripped ixs sigs p)"
    using ok by (simp add: proj_ok_def cols_ok_def stripped_def scrub_incoming_set_def strip_packed_maps_def Let_def)
  moreover have "edge_ok r n" if "bt_get (p_rels (stripped ixs sigs p)) (i, r) = Some n" for i r n
    using that nb edge_retain_ok by (auto simp: stripped_simps split: if_splits)
  moreover have "row_bare (stripped ixs sigs p) i" if "row_bare p i" for i
    using that by (simp add: row_bare_def stripped_simps)
  ultimately show ?thesis using ok by (simp add: proj_ok_def stripped_simps ids_ok_def)
qed

lemma stripped_view:
  assumes "proj_ok p" "i < length (p_sigils p)"
  shows "i \<notin> set ixs \<Longrightarrow> row_view (stripped ixs sigs p) i = scrub (set sigs) (row_view p i)"
    and "i \<in> set ixs \<Longrightarrow> row_bare (stripped ixs sigs p) i"
proof -
  have nb: "edge_ok r n" if "bt_get (p_rels p) (i, r) = Some n" for i r n using assms(1) that unfolding proj_ok_def by blast
  have co: "length (p_in_place p) = length (p_sigils p)" using assms(1) by (simp add: proj_ok_def cols_ok_def Let_def)
  show "row_bare (stripped ixs sigs p) i" if "i \<in> set ixs" using that by (simp add: row_bare_def stripped_simps)
  show "row_view (stripped ixs sigs p) i = scrub (set sigs) (row_view p i)" if i: "i \<notin> set ixs"
  proof -
    have r: "map_option nb_slice (bt_get (p_rels (stripped ixs sigs p)) (i, r))
        = map_option (filter (\<lambda>x. x \<notin> set sigs)) (map_option nb_slice (bt_get (p_rels p) (i, r)))" for r
      using i nb[of i r] nb_retain_slice unfolding edge_ok_def by (cases "bt_get (p_rels p) (i, r)") (simp_all add: stripped_simps)
    have c: "p_in_place (stripped ixs sigs p) ! i
        = (case p_in_place p ! i of Some s \<Rightarrow> if s \<in> set sigs then None else Some s | None \<Rightarrow> None)"
      using assms(2) co by (auto simp: stripped_def scrub_incoming_set_def strip_packed_maps_def split: option.split)
    show ?thesis
      unfolding row_view_def r c bt_has_def stripped_simps(5-8) stripped_cols fst_conv
      using i by (simp add: scrub_def)
  qed
qed

lemma rfold_require:
  "rfold (\<lambda>ixs s. rbind (require p s) (\<lambda>i. Inr (ixs @ [i]))) acc ss
   = (if \<forall>s \<in> set ss. proj_packed p s \<noteq> None then Inr (acc @ map (\<lambda>s. the (proj_packed p s)) ss) else Inl UnknownLocus)"
  by (induction ss arbitrary: acc) (auto simp: require_def split: option.splits)

lemma swap_out_all:
  assumes "proj_ok p" "distinct (map snd es)"
    and "\<forall>s \<in> snd ` set es. \<exists>v. proj_view p s = Some v \<and> bare_view v"
  shows "\<exists>q. rfold (\<lambda>p (i, s). swap_out_locus s p) p es = Inr q \<and> proj_ok q \<and> p_locus_cap q = p_locus_cap p
    \<and> proj_view q = (\<lambda>s. if s \<in> snd ` set es then None else proj_view p s)"
  using assms
proof (induction es arbitrary: p)
  case (Cons e es)
  obtain i0 s where e: "e = (i0, s)" by (cases e)
  obtain i where i: "proj_packed p s = Some i" "row_bare p i"
    using Cons.prems(3) e bare_row_view by (auto simp: proj_view_def)
  obtain p1 where p1: "swap_out_locus s p = Inr p1" "proj_ok p1" "proj_view p1 = (proj_view p)(s := None)" "p_locus_cap p1 = p_locus_cap p"
    using swap_out_ok[OF Cons.prems(1) i] by blast
  have "s \<notin> snd ` set es" using Cons.prems(2) e by simp
  then obtain q where "rfold (\<lambda>p (i, s). swap_out_locus s p) p1 es = Inr q" "proj_ok q" "p_locus_cap q = p_locus_cap p1"
    "proj_view q = (\<lambda>t. if t \<in> snd ` set es then None else proj_view p1 t)"
    using Cons.IH[OF p1(2)] Cons.prems(2,3) e p1(3) by force
  then show ?case using p1 e by (auto simp: fun_eq_iff)
qed simp

lemma drop_loci_ok:
  assumes ok: "proj_ok p"
  shows "if \<forall>s \<in> set gone. proj_packed p s \<noteq> None
    then \<exists>q. drop_loci gone p = Inr q \<and> proj_ok q \<and> p_locus_cap q = p_locus_cap p \<and> proj_view q = without (set gone) (proj_view p)
    else drop_loci gone p = Inl UnknownLocus"
proof (cases "\<forall>s \<in> set gone. proj_packed p s \<noteq> None")
  case True
  define ixs where "ixs = map (\<lambda>s. the (proj_packed p s)) gone"
  define sigs where "sigs = remdups (sort gone)"
  define p1 where "p1 = stripped ixs sigs p"
  define es where "es = sort_key (\<lambda>(i, s). - int i) (List.map_filter (\<lambda>s. map_option (\<lambda>i. (i, s)) (proj_packed p1 s)) sigs)"
  have d: "drop_loci gone p = rfold (\<lambda>p (i, s). swap_out_locus s p) p1 es"
    using True by (simp add: drop_loci_def rfold_require ixs_def sigs_def p1_def es_def stripped_def Let_def)
  have pk: "proj_packed p1 s = proj_packed p s" for s by (simp add: p1_def proj_packed_def stripped_simps)
  have set: "set sigs = set gone" by (simp add: sigs_def)
  have mf: "map snd (List.map_filter (\<lambda>s. map_option (\<lambda>i. (i, s)) (proj_packed p1 s)) xs) = xs" if "set xs \<subseteq> set gone" for xs
    using that True by (induction xs) (auto simp: map_filter_simps pk)
  have "mset (map snd es) = mset (map snd (List.map_filter (\<lambda>s. map_option (\<lambda>i. (i, s)) (proj_packed p1 s)) sigs))"
    unfolding es_def mset_map mset_sort ..
  then have ms: "mset (map snd es) = mset sigs" using mf[of sigs] set by simp
  have dist: "distinct (map snd es)" using ms distinct_remdups by (metis sigs_def mset_eq_imp_distinct_iff)
  have snds: "snd ` set es = set gone" using ms set by (metis set_map mset_eq_setD)
  have ixs: "i \<in> set ixs \<longleftrightarrow> s \<in> set gone" if "proj_packed p s = Some i" for s i
  proof
    assume "i \<in> set ixs"
    then obtain t where "t \<in> set gone" "the (proj_packed p t) = i" by (auto simp: ixs_def)
    then have "proj_packed p t = Some i" using True by (metis option.collapse)
    then have "t = s" using that packed_range[OF ok] by blast
    then show "s \<in> set gone" using \<open>t \<in> set gone\<close> by simp
  next
    assume "s \<in> set gone"
    then show "i \<in> set ixs" using that by (force simp: ixs_def)
  qed
  have view: "proj_view p1 s = map_option (scrub (set gone)) (proj_view p s)" if "s \<notin> set gone" for s
  proof (cases "proj_packed p s")
    case (Some i)
    then have "i \<notin> set ixs" using ixs that by blast
    then show ?thesis using Some stripped_view(1)[OF ok, of i ixs sigs] packed_range[OF ok Some] set
      by (simp add: proj_view_def pk) (simp add: p1_def)
  qed (simp add: proj_view_def pk)
  have bare: "\<exists>v. proj_view p1 s = Some v \<and> bare_view v" if "s \<in> set gone" for s
  proof -
    obtain i where i: "proj_packed p s = Some i" using True \<open>s \<in> set gone\<close> by blast
    then have "row_bare p1 i" using stripped_view(2)[OF ok, of i ixs sigs] ixs that packed_range[OF ok i] by (simp add: p1_def)
    then show ?thesis using i bare_row_view by (simp add: proj_view_def pk)
  qed
  have "proj_ok p1" using stripped_ok[OF ok] by (simp add: p1_def)
  moreover have "\<forall>s \<in> snd ` set es. \<exists>v. proj_view p1 s = Some v \<and> bare_view v" using bare snds by simp
  ultimately obtain q where "drop_loci gone p = Inr q" "proj_ok q" "p_locus_cap q = p_locus_cap p1"
    "proj_view q = (\<lambda>s. if s \<in> set gone then None else proj_view p1 s)"
    using swap_out_all[OF _ dist] unfolding d snds by blast
  moreover have "(\<lambda>s. if s \<in> set gone then None else proj_view p1 s) = without (set gone) (proj_view p)"
    using view by (simp add: without_def fun_eq_iff)
  ultimately show ?thesis using True by (simp add: p1_def stripped_simps)
next
  case False
  then show ?thesis by (auto simp: drop_loci_def rfold_require)
qed

end
