(* ===== verification/WorldPlace.thy ===== *)
theory WorldPlace
  imports WorldDrop
begin

text \<open>
  \<open>klotho-world/src/snap.rs\<close> and the parts of \<open>proj.rs\<close> that move a Place: capturing its rows, loading a
  captured Place in one step, evicting it, and the remap of the projection at an epoch boundary.
\<close>

section \<open>Capture\<close>

record place_row =
  pw_sigil :: sigil
  pw_kind :: locus_kind
  pw_pose :: "pose option"
  pw_vel :: vel3
  pw_yaw_rate :: int
  pw_pitch_rate :: int
  pw_roll_rate :: int
  pw_hull :: "aabb option"
  pw_hull_id :: blob_id
  pw_afford :: "64 word"
  pw_qty :: "(nat \<times> int) list"
  pw_rels :: "(rel \<times> sigil) list"
  pw_island :: nat
  pw_sleep :: nat
  pw_lod :: sim_lod
  pw_phys :: "phys_request option"
  pw_support :: "support option"
  pw_attach :: "ivec3 option"
  pw_rites :: "(nat \<times> rite_machine) list"
  pw_knows :: "nat list"

record place_snap =
  ps_place :: sigil
  ps_canon_hash :: digest
  ps_prefix :: digest
  ps_rows :: "place_row list"

definition max_place_rows :: nat where
  "max_place_rows = 100000"

definition place_row_new :: "sigil \<Rightarrow> locus_kind \<Rightarrow> place_row" where
  "place_row_new s k =
     \<lparr>pw_sigil = s, pw_kind = k, pw_pose = None, pw_vel = vel_zero, pw_yaw_rate = 0, pw_pitch_rate = 0, pw_roll_rate = 0,
      pw_hull = None, pw_hull_id = hash_zero, pw_afford = 0, pw_qty = [], pw_rels = [], pw_island = 0, pw_sleep = 0,
      pw_lod = Full, pw_phys = None, pw_support = None, pw_attach = None, pw_rites = [], pw_knows = []\<rparr>"

text \<open>The entries of a map at one row, in key order.\<close>

definition at_row :: "packed_ix \<Rightarrow> (packed_ix \<times> nat, 'v) btree \<Rightarrow> (nat \<times> 'v) list" where
  "at_row i m = map (\<lambda>(k, v). (snd k, v)) (filter (\<lambda>(k, v). fst k = i) m)"

definition captured_rels :: "projection \<Rightarrow> packed_ix \<Rightarrow> (rel \<times> sigil) list" where
  "captured_rels p i =
     concat (map (\<lambda>(k, n). case rel_from_u8 k of None \<Rightarrow> [] | Some r \<Rightarrow> map (Pair r) (nb_slice n)) (at_row i (p_rels p)))
     @ (case nth_or None (p_in_place p) i of None \<Rightarrow> [] | Some b \<Rightarrow> [(In, b)])"

definition capture_row :: "projection \<Rightarrow> sigil \<Rightarrow> place_row option" where
  "capture_row p s =
     Option.bind (proj_packed p s) (\<lambda>i. Option.bind (nth_opt (p_kinds p) i) (\<lambda>kind.
       Some \<lparr>pw_sigil = s, pw_kind = kind, pw_pose = nth_or None (p_pose p) i, pw_vel = nth_or vel_zero (p_vel p) i,
         pw_yaw_rate = nth_or 0 (p_yaw_rate p) i, pw_pitch_rate = nth_or 0 (p_pitch_rate p) i,
         pw_roll_rate = nth_or 0 (p_roll_rate p) i, pw_hull = nth_or None (p_hull p) i,
         pw_hull_id = nth_or hash_zero (p_hull_id p) i, pw_afford = nth_or 0 (p_afford p) i,
         pw_qty = at_row i (p_qty p), pw_rels = captured_rels p i, pw_island = nth_or 0 (p_island p) i,
         pw_sleep = nth_or 0 (p_sleep p) i, pw_lod = nth_or Full (p_lod p) i, pw_phys = bt_get (p_phys p) i,
         pw_support = nth_or None (p_support p) i, pw_attach = nth_or None (p_attach p) i,
         pw_rites = rites_of p s, pw_knows = map fst (at_row i (p_knows p))\<rparr>))"

fun capture_rows :: "projection \<Rightarrow> sigil list \<Rightarrow> place_row list option" where
  "capture_rows p [] = Some []"
| "capture_rows p (s # ss) = Option.bind (capture_row p s) (\<lambda>r. Option.bind (capture_rows p ss) (\<lambda>rs. Some (r # rs)))"

definition capture_place :: "projection \<Rightarrow> sigil \<Rightarrow> digest \<Rightarrow> digest \<Rightarrow> place_snap option" where
  "capture_place p place ch pre =
     Option.bind (proj_packed p place) (\<lambda>_. Option.bind (capture_rows p (place # place_members p place)) (\<lambda>rows.
       Some \<lparr>ps_place = place, ps_canon_hash = ch, ps_prefix = pre, ps_rows = rows\<rparr>))"

section \<open>Load\<close>

text \<open>\<open>row_in_place\<close>: at most one \<open>In\<close>.\<close>

definition row_in_place :: "(rel \<times> sigil) list \<Rightarrow> world_error + sigil option" where
  "row_in_place rels =
     rfold (\<lambda>found (r, b). if r \<noteq> In then Inr found else if found \<noteq> None then Inl PlaceSnap else Inr (Some b)) None rels"

definition insert_row_maps :: "packed_ix \<Rightarrow> place_row \<Rightarrow> projection \<Rightarrow> projection" where
  "insert_row_maps i row p =
     p\<lparr>p_qty := fold (\<lambda>(r, v) m. bt_insert (i, r) v m) (pw_qty row) (p_qty p),
       p_phys := (case pw_phys row of None \<Rightarrow> p_phys p | Some q \<Rightarrow> bt_insert i q (p_phys p)),
       p_knows := fold (\<lambda>f m. bt_insert (i, f) () m) (pw_knows row) (p_knows p),
       p_rites := fold (\<lambda>(r, m') m. bt_insert (i, r) m' m) (pw_rites row) (p_rites p)\<rparr>"

definition in_place_of :: "place_row \<Rightarrow> sigil option" where
  "in_place_of row = (case row_in_place (pw_rels row) of Inl _ \<Rightarrow> None | Inr x \<Rightarrow> x)"

definition write_snap_row :: "packed_ix \<Rightarrow> place_row \<Rightarrow> projection \<Rightarrow> projection" where
  "write_snap_row i row p =
     (let p = drop_packed_maps i p in
      insert_row_maps i row
        (p\<lparr>p_kinds := (p_kinds p)[i := pw_kind row], p_afford := (p_afford p)[i := pw_afford row],
           p_vel := (p_vel p)[i := pw_vel row], p_yaw_rate := (p_yaw_rate p)[i := pw_yaw_rate row],
           p_pitch_rate := (p_pitch_rate p)[i := pw_pitch_rate row], p_roll_rate := (p_roll_rate p)[i := pw_roll_rate row],
           p_support := (p_support p)[i := pw_support row], p_attach := (p_attach p)[i := pw_attach row],
           p_island := (p_island p)[i := pw_island row], p_sleep := (p_sleep p)[i := pw_sleep row],
           p_lod := (p_lod p)[i := pw_lod row], p_pose := (p_pose p)[i := pw_pose row],
           p_hull := (p_hull p)[i := pw_hull row], p_hull_id := (p_hull_id p)[i := pw_hull_id row],
           p_in_place := (p_in_place p)[i := in_place_of row]\<rparr>))"

definition push_snap_row :: "place_row \<Rightarrow> projection \<Rightarrow> projection" where
  "push_snap_row row p =
     (let i = length (p_sigils p) in
      insert_row_maps i row
        (p\<lparr>p_by_sigil := bt_insert (pw_sigil row) i (p_by_sigil p), p_sigils := p_sigils p @ [pw_sigil row],
           p_kinds := p_kinds p @ [pw_kind row], p_afford := p_afford p @ [pw_afford row], p_hull := p_hull p @ [pw_hull row],
           p_hull_id := p_hull_id p @ [pw_hull_id row], p_pose := p_pose p @ [pw_pose row], p_vel := p_vel p @ [pw_vel row],
           p_yaw_rate := p_yaw_rate p @ [pw_yaw_rate row], p_pitch_rate := p_pitch_rate p @ [pw_pitch_rate row],
           p_roll_rate := p_roll_rate p @ [pw_roll_rate row], p_island := p_island p @ [pw_island row],
           p_sleep := p_sleep p @ [pw_sleep row], p_lod := p_lod p @ [pw_lod row], p_in_place := p_in_place p @ [in_place_of row],
           p_support := p_support p @ [pw_support row], p_attach := p_attach p @ [pw_attach row]\<rparr>))"

definition append_snap_rows :: "(place_row \<times> packed_ix option) list \<Rightarrow> projection \<Rightarrow> projection" where
  "append_snap_rows rows p =
     fold (\<lambda>(row, existing) p. case existing of Some i \<Rightarrow> write_snap_row i row p | None \<Rightarrow> push_snap_row row p) rows p"

definition add_row_rels :: "place_row \<Rightarrow> projection \<Rightarrow> world_error + projection" where
  "add_row_rels row p =
     rfold (\<lambda>p (r, b). if r = In then Inr p else rbind (add_rel_raw (pw_sigil row) r b p) (\<lambda>(i, p). Inr p)) p (pw_rels row)"

definition apply_place_snap :: "place_snap \<Rightarrow> projection \<Rightarrow> world_error + nat \<times> projection" where
  "apply_place_snap snap p =
     (let rows = ps_rows snap in
      if length rows > max_place_rows then Inl PlaceSnap
      else if \<not> windows2 (\<noteq>) (sort (map pw_sigil rows)) then Inl PlaceSnap
      else rbind (rfold (\<lambda>(n, packed) row. rbind (row_in_place (pw_rels row)) (\<lambda>_.
             let existing = proj_packed p (pw_sigil row) in
             Inr (if existing = None then n + 1 else n, packed @ [existing]))) (0, []) rows) (\<lambda>(new_rows, packed).
        if length (p_sigils p) + new_rows > p_locus_cap p then Inl LocusCap
        else rbind (rfold (\<lambda>p row. add_row_rels row p) (append_snap_rows (zip rows packed) p) rows) (\<lambda>p.
          Inr (length rows, rebuild_space_ix p))))"

section \<open>Evict\<close>

definition evict_place :: "sigil \<Rightarrow> projection \<Rightarrow> world_error + projection" where
  "evict_place place p =
     rbind (plan_place_evict p place) (\<lambda>plan. rbind (drop_loci (ep_drop plan) p) (\<lambda>p. Inr (rebuild_space_ix p)))"

section \<open>Epochs\<close>

text \<open>\<open>remap_epoch\<close>: every column that holds Canon ids; the result lists the rites that cannot resume.\<close>

definition remap_bits :: "epoch_map \<Rightarrow> 64 word \<Rightarrow> 64 word" where
  "remap_bits em old =
     fold (\<lambda>b new. if bit old b then (case epoch_affordance em b of
               Some a \<Rightarrow> if a < 64 then set_bit a new else new | None \<Rightarrow> new) else new) [0..<64] 0"

definition rite_resumable :: "canon \<Rightarrow> nat \<Rightarrow> rite_machine \<Rightarrow> bool" where
  "rite_resumable c r m =
     (case nth_opt (cn_rites c) r of
        None \<Rightarrow> False
      | Some rt \<Rightarrow> \<exists>ins \<in> set (rc_instrs (cr_chunk rt)). ri_pc ins = rm_pc m)"

definition remap_machine :: "epoch_map \<Rightarrow> canon \<Rightarrow> projection \<Rightarrow> (packed_ix \<times> nat) \<times> rite_machine
    \<Rightarrow> (sigil \<times> nat) list \<times> (packed_ix \<times> nat, rite_machine) btree \<Rightarrow> (sigil \<times> nat) list \<times> (packed_ix \<times> nat, rite_machine) btree" where
  "remap_machine em c p e acc =
     (let ((i, old), m) = e; (evicted, rites) = acc;
          gone = (case proj_sigil p i of None \<Rightarrow> evicted | Some a \<Rightarrow> evicted @ [(a, old)]) in
      case epoch_rite em old of
        None \<Rightarrow> (gone, rites)
      | Some r \<Rightarrow> if rite_resumable c r m then (evicted, bt_insert (i, r) m rites) else (gone, rites))"

definition remap_epoch :: "epoch_map \<Rightarrow> canon \<Rightarrow> projection \<Rightarrow> projection \<times> (sigil \<times> nat) list" where
  "remap_epoch em c p =
     (let qty = fold (\<lambda>((i, old), v) m. case epoch_resource em old of Some r \<Rightarrow> bt_insert (i, r) v m | None \<Rightarrow> m) (p_qty p) [];
          (evicted, rites) = fold (remap_machine em c p) (p_rites p) ([], []);
          knows = fold (\<lambda>((i, old), u) m. case epoch_fact em old of Some f \<Rightarrow> bt_insert (i, f) () m | None \<Rightarrow> m) (p_knows p) []
      in (rebuild_space_ix (p\<lparr>p_afford := map (remap_bits em) (p_afford p), p_qty := qty, p_rites := rites, p_knows := knows,
            p_opaque := canon_affordance_id c ''Opaque''\<rparr>), evicted))"

end
