(* ===== verification/WorldState.thy ===== *)
theory WorldState
  imports IrIntent WorldPlace TraceLog
begin

text \<open>
  The world: \<open>klotho-world/src/world.rs\<close> (the sources, the snapshots, resuming), \<open>mutate.rs\<close> (the write
  handle), \<open>spec.rs\<close> (a speculative projection with the events it has queued), \<open>heap.rs\<close> (the intents of
  the tick) and \<open>rewind.rs\<close> (the ring of recent snapshots).  \<open>Arc\<close> sharing is invisible and left out; blake3 is the
  parameter \<open>H\<close>, as in \<open>TraceLog\<close>.
\<close>

section \<open>World and snapshots\<close>

record world_snapshot =
  sn_epoch :: nat
  sn_tick :: tick
  sn_canon_hash :: digest
  sn_prefix :: digest
  sn_blob :: projection
  sn_canon :: canon

record world =
  wd_canon :: canon
  wd_canon_hash :: digest
  wd_trace :: trace_log
  wd_view :: projection
  wd_intents :: "player_intent list"
  wd_epoch :: nat
  wd_tick :: tick
  wd_snaps :: "world_snapshot option list"
  wd_snap_i :: nat

datatype resume_error = ResumeCanonMismatch | ResumeTraceMismatch

definition world_with_cap :: "(byte list \<Rightarrow> digest) \<Rightarrow> canon \<Rightarrow> digest \<Rightarrow> nat \<Rightarrow> world" where
  "world_with_cap H c ch cap =
     \<lparr>wd_canon = c, wd_canon_hash = ch, wd_trace = log_new H, wd_view = proj_with_cap (canon_affordance_id c ''Opaque'') cap,
      wd_intents = [], wd_epoch = 0, wd_tick = 0, wd_snaps = [None, None], wd_snap_i = 0\<rparr>"

definition world_new :: "(byte list \<Rightarrow> digest) \<Rightarrow> canon \<Rightarrow> digest \<Rightarrow> world" where
  "world_new H c ch = world_with_cap H c ch max_loci_hearth"

definition resume :: "canon \<Rightarrow> digest \<Rightarrow> world_snapshot \<Rightarrow> trace_log \<Rightarrow> resume_error + world" where
  "resume c ch snap l =
     (if ch \<noteq> sn_canon_hash snap then Inl ResumeCanonMismatch
      else if tl_prefix l \<noteq> sn_prefix snap \<or> (\<exists>e \<in> set (tl_events l). ev_tick e > sn_tick snap) then Inl ResumeTraceMismatch
      else Inr \<lparr>wd_canon = c, wd_canon_hash = ch, wd_trace = l, wd_view = sn_blob snap, wd_intents = [],
        wd_epoch = sn_epoch snap, wd_tick = sn_tick snap, wd_snaps = [None, None], wd_snap_i = 0\<rparr>)"

definition snapshot_of :: "world \<Rightarrow> world_snapshot" where
  "snapshot_of w =
     \<lparr>sn_epoch = wd_epoch w, sn_tick = wd_tick w, sn_canon_hash = wd_canon_hash w, sn_prefix = tl_prefix (wd_trace w),
      sn_blob = wd_view w, sn_canon = wd_canon w\<rparr>"

definition take_snapshot :: "world \<Rightarrow> world_snapshot \<times> world" where
  "take_snapshot w =
     (let i = 1 - wd_snap_i w; snap = snapshot_of w in
      (snap, w\<lparr>wd_snaps := (wd_snaps w)[i := Some snap], wd_snap_i := i\<rparr>))"

definition replace_canon :: "canon \<Rightarrow> digest \<Rightarrow> nat \<Rightarrow> world \<Rightarrow> world" where
  "replace_canon c ch ep w =
     w\<lparr>wd_canon := c, wd_canon_hash := ch, wd_epoch := ep, wd_snaps := [None, None], wd_snap_i := 0\<rparr>"

text \<open>\<open>WorldSnapshot::replay_suffix\<close>\<close>

definition snap_replay :: "(byte list \<Rightarrow> digest) \<Rightarrow> trace_event list \<Rightarrow> world_snapshot \<Rightarrow> world_snapshot" where
  "snap_replay H suffix s =
     (let (p, t) = fold (\<lambda>e (p, t). (apply_event e p, max t (ev_tick e))) suffix (sn_blob s, sn_tick s) in
      s\<lparr>sn_tick := t, sn_prefix := fold_prefix H (sn_prefix s) suffix, sn_blob := rebuild_space_ix p\<rparr>)"

text \<open>\<open>Canon::default()\<close>\<close>

definition canon_default :: canon where
  "canon_default =
     \<lparr>cn_laws = [], cn_affordances = [], cn_rites = [], cn_beats = [], cn_preds = [], cn_resources = [], cn_facts = [],
      cn_pin_names = [], cn_pin_sigils = [], cn_physics = [], cn_contact_tracks = [], cn_constraints = [],
      law_by_name = [], affordance_by_name = [], rite_by_name = [], resource_by_name = []\<rparr>"

section \<open>Speculation\<close>

record spec_delta =
  sd_proj :: projection
  sd_written :: "(sigil, unit) btree"
  sd_events :: "trace_event list"
  sd_epoch :: nat
  sd_tick :: tick

text \<open>The loci an event is recorded to write.\<close>

fun event_writes :: "trace_body \<Rightarrow> sigil list" where
  "event_writes (MotionActionAuthorized a r i c) = [a]"
| "event_writes (MotionContactAdmitted a ins t r i c b) = [a]"
| "event_writes (RiteBegan a r t) = [a]"
| "event_writes (RiteAdvanced a r pc w) = [a]"
| "event_writes (RiteEnded a r st) = [a]"
| "event_writes (ConstraintBroken c a b i f) = [a, b]"
| "event_writes (QtyChanged s r v q) = [s]"
| "event_writes (RelAdded a r b) = [a, b]"
| "event_writes (RelDeleted a r b) = [a, b]"
| "event_writes (Spawned k s q) = [s]"
| "event_writes _ = []"

definition mark_written :: "sigil list \<Rightarrow> spec_delta \<Rightarrow> spec_delta" where
  "mark_written ss sd = sd\<lparr>sd_written := fold (\<lambda>s m. bt_insert s () m) ss (sd_written sd)\<rparr>"

definition spec_push :: "trace_event \<Rightarrow> spec_delta \<Rightarrow> spec_delta" where
  "spec_push e sd =
     (let sd = mark_written (event_writes (ev_body e)) sd
      in sd\<lparr>sd_proj := apply_event e (sd_proj sd), sd_events := sd_events sd @ [e]\<rparr>)"

text \<open>A column write: the locus is marked first, so a refused write still counts it.\<close>

definition spec_write :: "sigil list \<Rightarrow> (projection \<Rightarrow> world_error + projection) \<Rightarrow> spec_delta \<Rightarrow> (world_error + unit) \<times> spec_delta" where
  "spec_write ss f sd =
     (let sd = mark_written ss sd in
      case f (sd_proj sd) of Inl e \<Rightarrow> (Inl e, sd) | Inr p \<Rightarrow> (Inr (), sd\<lparr>sd_proj := p\<rparr>))"

definition spec_set_pose :: "sigil \<Rightarrow> pose \<Rightarrow> spec_delta \<Rightarrow> (world_error + unit) \<times> spec_delta" where
  "spec_set_pose s q = spec_write [s] (set_pose s q)"

definition spec_set_vel :: "sigil \<Rightarrow> vel3 \<Rightarrow> int \<Rightarrow> spec_delta \<Rightarrow> (world_error + unit) \<times> spec_delta" where
  "spec_set_vel s v y = spec_write [s] (set_vel s v y)"

definition spec_set_rates :: "sigil \<Rightarrow> int \<Rightarrow> int \<Rightarrow> int \<Rightarrow> spec_delta \<Rightarrow> (world_error + unit) \<times> spec_delta" where
  "spec_set_rates s y p r = spec_write [s] (set_rates s y p r)"

definition spec_set_support :: "sigil \<Rightarrow> support option \<Rightarrow> spec_delta \<Rightarrow> (world_error + unit) \<times> spec_delta" where
  "spec_set_support s v = spec_write [s] (set_support s v)"

definition spec_set_attach_local :: "sigil \<Rightarrow> ivec3 option \<Rightarrow> spec_delta \<Rightarrow> (world_error + unit) \<times> spec_delta" where
  "spec_set_attach_local s l = spec_write [s] (set_attach_local s l)"

definition spec_set_island :: "sigil \<Rightarrow> nat \<Rightarrow> nat \<Rightarrow> spec_delta \<Rightarrow> (world_error + unit) \<times> spec_delta" where
  "spec_set_island s i t = spec_write [s] (set_island s i t)"

definition spec_set_qty :: "sigil \<Rightarrow> nat \<Rightarrow> int \<Rightarrow> spec_delta \<Rightarrow> (world_error + unit) \<times> spec_delta" where
  "spec_set_qty s r v = spec_write [s] (set_qty s r v)"

definition spec_set_affordance :: "sigil \<Rightarrow> nat \<Rightarrow> bool \<Rightarrow> spec_delta \<Rightarrow> (world_error + unit) \<times> spec_delta" where
  "spec_set_affordance s a on = spec_write [s] (set_affordance s a on)"

definition spec_set_phys_req :: "sigil \<Rightarrow> phys_request \<Rightarrow> spec_delta \<Rightarrow> (world_error + unit) \<times> spec_delta" where
  "spec_set_phys_req s q = spec_write [s] (set_phys_req s q)"

definition spec_clear_phys_req :: "sigil \<Rightarrow> spec_delta \<Rightarrow> (world_error + unit) \<times> spec_delta" where
  "spec_clear_phys_req s = spec_write [s] (clear_phys_req s)"

definition spec_set_hull :: "sigil \<Rightarrow> aabb \<Rightarrow> blob_id \<Rightarrow> spec_delta \<Rightarrow> (world_error + unit) \<times> spec_delta" where
  "spec_set_hull s h b = spec_write [s] (set_hull s h b)"

definition spec_add_rel :: "sigil \<Rightarrow> rel \<Rightarrow> sigil \<Rightarrow> spec_delta \<Rightarrow> (world_error + unit) \<times> spec_delta" where
  "spec_add_rel a r b = spec_write [a, b] (add_rel a r b)"

definition spec_del_rel :: "sigil \<Rightarrow> rel \<Rightarrow> sigil \<Rightarrow> spec_delta \<Rightarrow> (world_error + unit) \<times> spec_delta" where
  "spec_del_rel a r b = spec_write [a, b] (del_rel a r b)"

text \<open>A constraint's identity need not be a locus, and its state is not a locus write.\<close>

definition spec_set_constraint :: "sigil \<Rightarrow> constraint_state \<Rightarrow> spec_delta \<Rightarrow> spec_delta" where
  "spec_set_constraint c st sd = sd\<lparr>sd_proj := set_constraint_state c st (sd_proj sd)\<rparr>"

definition spec_put_rite :: "sigil \<Rightarrow> nat \<Rightarrow> rite_machine \<Rightarrow> spec_delta \<Rightarrow> spec_delta" where
  "spec_put_rite a r m sd = (let sd = mark_written [a] sd in sd\<lparr>sd_proj := put_rite a r m (sd_proj sd)\<rparr>)"

definition spec_apply_place :: "place_snap \<Rightarrow> spec_delta \<Rightarrow> (world_error + nat) \<times> spec_delta" where
  "spec_apply_place snap sd =
     (case apply_place_snap snap (sd_proj sd) of
        Inl e \<Rightarrow> (Inl e, sd)
      | Inr (n, p) \<Rightarrow> (Inr n, spec_push \<lparr>ev_tick = sd_tick sd, ev_body = PlaceLoaded (ps_place snap) n\<rparr> (sd\<lparr>sd_proj := p\<rparr>)))"

definition spec_evict_place :: "sigil \<Rightarrow> spec_delta \<Rightarrow> (world_error + unit) \<times> spec_delta" where
  "spec_evict_place place sd =
     (case plan_place_evict (sd_proj sd) place of
        Inl e \<Rightarrow> (Inl e, sd)
      | Inr plan \<Rightarrow>
          let sd = fold (\<lambda>(a, r). spec_push \<lparr>ev_tick = sd_tick sd, ev_body = RiteEnded a r ReEvicted\<rparr>) (ep_rites plan) sd in
          (case drop_loci (ep_drop plan) (sd_proj sd) of
             Inl e \<Rightarrow> (Inl e, sd)
           | Inr p \<Rightarrow> (Inr (), spec_push \<lparr>ev_tick = sd_tick sd, ev_body = PlaceEvicted place\<rparr> (sd\<lparr>sd_proj := rebuild_space_ix p\<rparr>))))"

section \<open>The write handle\<close>

definition begin_spec :: "world \<Rightarrow> spec_delta" where
  "begin_spec w = \<lparr>sd_proj = wd_view w, sd_written = [], sd_events = [], sd_epoch = wd_epoch w, sd_tick = wd_tick w\<rparr>"

definition commit_spec :: "(byte list \<Rightarrow> digest) \<Rightarrow> spec_delta \<Rightarrow> world \<Rightarrow> world" where
  "commit_spec H sd w = w\<lparr>wd_view := sd_proj sd, wd_trace := fold (log_append H) (sd_events sd) (wd_trace w)\<rparr>"

definition world_append :: "(byte list \<Rightarrow> digest) \<Rightarrow> trace_event \<Rightarrow> world \<Rightarrow> world" where
  "world_append H e w =
     (let w = (if ev_tick e > wd_tick w then w\<lparr>wd_tick := ev_tick e\<rparr> else w)
      in w\<lparr>wd_view := apply_event e (wd_view w), wd_trace := log_append H e (wd_trace w)\<rparr>)"

definition apply_canon_epoch :: "canon \<Rightarrow> digest \<Rightarrow> nat \<Rightarrow> epoch_map \<Rightarrow> world \<Rightarrow> (sigil \<times> nat) list \<times> world" where
  "apply_canon_epoch c ch ep em w =
     (let (p, evicted) = remap_epoch em c (wd_view w) in (evicted, replace_canon c ch ep (w\<lparr>wd_view := p\<rparr>)))"

text \<open>A projection write through the handle; a refused one leaves the world alone.\<close>

definition world_write :: "(projection \<Rightarrow> world_error + projection) \<Rightarrow> world \<Rightarrow> (world_error + unit) \<times> world" where
  "world_write f w = (case f (wd_view w) of Inl e \<Rightarrow> (Inl e, w) | Inr p \<Rightarrow> (Inr (), w\<lparr>wd_view := p\<rparr>))"

definition world_insert_locus :: "sigil \<Rightarrow> locus_kind \<Rightarrow> world \<Rightarrow> (world_error + unit) \<times> world" where
  "world_insert_locus s k = world_write (\<lambda>p. rbind (insert_locus s k p) (\<lambda>(i, p). Inr p))"

definition world_place_snap :: "place_snap \<Rightarrow> world \<Rightarrow> (world_error + unit) \<times> world" where
  "world_place_snap snap = world_write (\<lambda>p. rbind (apply_place_snap snap p) (\<lambda>(n, p). Inr p))"

definition world_remove_locus :: "sigil \<Rightarrow> world \<Rightarrow> (world_error + unit) \<times> world" where
  "world_remove_locus s = world_write (\<lambda>p. rbind (remove_locus s p) (\<lambda>p. Inr (rebuild_space_ix p)))"

definition world_evict_place :: "sigil \<Rightarrow> world \<Rightarrow> (world_error + unit) \<times> world" where
  "world_evict_place place = world_write (evict_place place)"

definition push_intent :: "player_intent \<Rightarrow> world \<Rightarrow> world" where
  "push_intent i w = w\<lparr>wd_intents := wd_intents w @ [i]\<rparr>"

definition clear_intents :: "world \<Rightarrow> world" where
  "clear_intents w = w\<lparr>wd_intents := []\<rparr>"

definition set_tick :: "tick \<Rightarrow> world \<Rightarrow> world" where
  "set_tick t w = w\<lparr>wd_tick := t\<rparr>"

section \<open>The rewind ring\<close>

record rewind_ring =
  rr_cap :: nat
  rr_snaps :: "world_snapshot list"

definition ring_new :: "nat \<Rightarrow> rewind_ring" where
  "ring_new cap = \<lparr>rr_cap = cap, rr_snaps = []\<rparr>"

definition ring_trim :: "rewind_ring \<Rightarrow> rewind_ring" where
  "ring_trim r = r\<lparr>rr_snaps := drop (length (rr_snaps r) - rr_cap r) (rr_snaps r)\<rparr>"

definition ring_set_cap :: "nat \<Rightarrow> rewind_ring \<Rightarrow> rewind_ring" where
  "ring_set_cap cap r = ring_trim (r\<lparr>rr_cap := cap\<rparr>)"

definition ring_push :: "world_snapshot \<Rightarrow> rewind_ring \<Rightarrow> rewind_ring" where
  "ring_push s r = (if rr_cap r = 0 then r\<lparr>rr_snaps := []\<rparr> else ring_trim (r\<lparr>rr_snaps := rr_snaps r @ [s]\<rparr>))"

definition ring_get :: "rewind_ring \<Rightarrow> tick \<Rightarrow> world_snapshot option" where
  "ring_get r t = find (\<lambda>s. sn_tick s = t) (rr_snaps r)"

definition ring_lookup :: "rewind_ring \<Rightarrow> tick \<Rightarrow> tick \<Rightarrow> world_snapshot option" where
  "ring_lookup r now tick =
     (if rr_cap r = 0 then None
      else let lo = now - rr_cap r in
        if tick < lo \<or> tick > now then None
        else case ring_get r tick of
          Some s \<Rightarrow> Some s
        | None \<Rightarrow> find (\<lambda>s. sn_tick s \<le> tick \<and> sn_tick s \<ge> lo \<and> sn_tick s \<le> now) (rev (rr_snaps r)))"

end
