(* ===== verification/WorldView.thy ===== *)
theory WorldView
  imports WorldState
begin

text \<open>
  \<open>klotho-world/src/view.rs\<close>: the read view of a world, a snapshot or a speculation, its queries, and its
  implementation of the predicate store.  Queries that only forward to the projection are the projection's own.
\<close>

section \<open>Views\<close>

record world_view =
  vw_proj :: projection
  vw_canon :: "canon option"
  vw_epoch :: nat
  vw_tick :: tick

definition view_at_epoch :: "projection \<Rightarrow> nat \<Rightarrow> tick \<Rightarrow> world_view" where
  "view_at_epoch p ep t = \<lparr>vw_proj = p, vw_canon = None, vw_epoch = ep, vw_tick = t\<rparr>"

definition view_with_canon :: "projection \<Rightarrow> canon \<Rightarrow> nat \<Rightarrow> tick \<Rightarrow> world_view" where
  "view_with_canon p c ep t = \<lparr>vw_proj = p, vw_canon = Some c, vw_epoch = ep, vw_tick = t\<rparr>"

definition world_view_of :: "world \<Rightarrow> world_view" where
  "world_view_of w = view_with_canon (wd_view w) (wd_canon w) (wd_epoch w) (wd_tick w)"

definition snapshot_view :: "world_snapshot \<Rightarrow> world_view" where
  "snapshot_view s = view_with_canon (sn_blob s) (sn_canon s) (sn_epoch s) (sn_tick s)"

definition spec_view :: "spec_delta \<Rightarrow> world_view" where
  "spec_view sd = view_at_epoch (sd_proj sd) (sd_epoch sd) (sd_tick sd)"

section \<open>Space\<close>

definition space_candidates :: "projection \<Rightarrow> aabb \<Rightarrow> bool \<Rightarrow> sigil list" where
  "space_candidates p swept only = List.map_filter (\<lambda>(i, u). proj_sigil p i) (pix_candidates (p_space p) swept only)"

definition hitscan_range_mm :: int where
  "hitscan_range_mm = 50000"

definition hit_step :: "projection \<Rightarrow> ivec3 \<Rightarrow> ivec3 \<Rightarrow> sigil \<Rightarrow> nat \<Rightarrow> sigil \<Rightarrow> ((int \<times> int) \<times> sigil) option \<Rightarrow> ((int \<times> int) \<times> sigil) option" where
  "hit_step p origin dir skip hittable s best =
     (if s = skip \<or> \<not> proj_has_affordance p s hittable then best
      else case posed_hull p s of
        None \<Rightarrow> best
      | Some box \<Rightarrow> (case segment_hit box origin dir of
            None \<Rightarrow> best
          | Some t \<Rightarrow> (case best of
                None \<Rightarrow> Some (t, s)
              | Some (bt, b) \<Rightarrow> if frac_cmp (fst t) (snd t) (fst bt) (snd bt) = Less then Some (t, s) else best)))"

definition ray_box :: "ivec3 \<Rightarrow> ivec3 \<Rightarrow> aabb" where
  "ray_box origin dir =
     aabb_union (aabb_from_point origin)
       (aabb_from_point (ivec3 (wrap32 (vx origin + vx dir)) (wrap32 (vy origin + vy dir)) (wrap32 (vz origin + vz dir))))"

definition hitscan :: "projection \<Rightarrow> ivec3 \<Rightarrow> ivec3 \<Rightarrow> sigil \<Rightarrow> nat \<Rightarrow> sigil option" where
  "hitscan p origin dir skip hittable =
     map_option snd (fold (hit_step p origin dir skip hittable) (space_candidates p (ray_box origin dir) False) None)"

section \<open>Bodies, characters, vehicles\<close>

definition view_body_physics :: "world_view \<Rightarrow> sigil \<Rightarrow> body_physics" where
  "view_body_physics v s =
     (case Option.bind (vw_canon v) (\<lambda>c. bt_get (cn_physics c) s) of None \<Rightarrow> body_default | Some b \<Rightarrow> b)"

definition view_character_physics :: "world_view \<Rightarrow> sigil \<Rightarrow> character_physics option" where
  "view_character_physics v s =
     (if sigil_kind s \<noteq> Some Actor \<or> attach_parent (vw_proj v) s \<noteq> None then None
      else let body = view_body_physics v s in if body_valid body then character body else None)"

definition view_vehicle_physics :: "world_view \<Rightarrow> sigil \<Rightarrow> vehicle_physics option" where
  "view_vehicle_physics v s =
     (if attach_parent (vw_proj v) s \<noteq> None then None
      else let body = view_body_physics v s in if body_valid body then vehicle body else None)"

record vehicle_drive =
  vd_chassis :: sigil
  vd_throttle :: int
  vd_brake :: int
  vd_steer_md :: int

definition driver_request :: "projection \<Rightarrow> sigil \<Rightarrow> phys_request option" where
  "driver_request p s =
     (case proj_phys_req p s of
        Some r \<Rightarrow> Some r
      | None \<Rightarrow> nth_opt (List.map_filter (\<lambda>child. if attach_parent p child = Some s then proj_phys_req p child else None) (p_sigils p)) 0)"

definition view_vehicle_drive :: "world_view \<Rightarrow> sigil \<Rightarrow> vehicle_drive option" where
  "view_vehicle_drive v s =
     Option.bind (view_vehicle_physics v s) (\<lambda>policy.
       let req = (case driver_request (vw_proj v) s of None \<Rightarrow> \<lparr>pr_lin = ivec_zero, pr_ang = ivec_zero\<rparr> | Some r \<Rightarrow> r) in
       Some \<lparr>vd_chassis = s,
         vd_throttle = clamp (vz (pr_lin req)) (- drive_mm policy) (drive_mm policy),
         vd_brake = min (max (vy (pr_lin req)) 0) (brake_mm policy),
         vd_steer_md = clamp (vy (pr_ang req)) (- steer_md policy) (steer_md policy)\<rparr>)"

definition view_wheel_rate :: "world_view \<Rightarrow> sigil \<Rightarrow> int option" where
  "view_wheel_rate v s =
     Option.bind (view_vehicle_physics v s) (\<lambda>policy. Option.bind (proj_pose (vw_proj v) s) (\<lambda>q.
       let vel = (case proj_vel (vw_proj v) s of None \<Rightarrow> vel_zero | Some (u, y) \<Rightarrow> u) in
       Some (presented_wheel_rate_md policy vel (pyaw q))))"

section \<open>Rites and contact windows\<close>

text \<open>A machine that waits without a channel takes the channel of the \<open>Wait\<close> it stopped at.\<close>

definition wait_channel :: "canon \<Rightarrow> nat \<Rightarrow> nat \<Rightarrow> channel option" where
  "wait_channel c r pc =
     Option.bind (find (\<lambda>x. cr_id x = r) (cn_rites c)) (\<lambda>code.
       Option.bind (find_index (\<lambda>i. ri_pc i = pc) (rc_instrs (cr_chunk code))) (\<lambda>index.
         if index = 0 then None
         else Option.bind (nth_opt (rc_instrs (cr_chunk code)) (index - 1)) (\<lambda>prev.
           case ri_op prev of Wait t ch \<Rightarrow> ch | _ \<Rightarrow> None)))"

definition view_rite :: "world_view \<Rightarrow> sigil \<Rightarrow> nat \<Rightarrow> rite_machine option" where
  "view_rite v a r =
     Option.bind (proj_rite (vw_proj v) a r) (\<lambda>m.
       Some (if rm_wait_ch m = None \<and> rm_wait_left m > 0
             then m\<lparr>rm_wait_ch := Option.bind (vw_canon v) (\<lambda>c. wait_channel c r (rm_pc m))\<rparr> else m))"

definition view_first_rite :: "world_view \<Rightarrow> sigil \<Rightarrow> (nat \<times> rite_machine) option" where
  "view_first_rite v s =
     Option.bind (first_rite (vw_proj v) s) (\<lambda>(r, m). map_option (Pair r) (view_rite v s r))"

definition view_contact_track :: "world_view \<Rightarrow> sigil \<Rightarrow> contact_track option" where
  "view_contact_track v a = Option.bind (vw_canon v) (\<lambda>c. bt_get (cn_contact_tracks c) a)"

definition view_contact_window :: "world_view \<Rightarrow> sigil \<Rightarrow> (nat \<times> rite_machine) option" where
  "view_contact_window v a =
     Option.bind (view_contact_track v a) (\<lambda>track.
     Option.bind (Option.bind (vw_canon v) (\<lambda>c. find (\<lambda>x. cr_name x = track_rite track) (cn_rites c))) (\<lambda>rite.
     Option.bind (find_index (\<lambda>i. ri_pc i = wait_pc track) (rc_instrs (cr_chunk rite))) (\<lambda>index.
     Option.bind (view_rite v a (cr_id rite)) (\<lambda>m.
       if rm_contact_agency m = track_channel track \<and> \<not> rm_contact_hit m then
         Option.bind (nth_opt (rc_instrs (cr_chunk rite)) (index + 1)) (\<lambda>next_i.
           if rm_pc m = ri_pc next_i \<and> rm_wait_left m > 0 \<and> rm_wait_left m \<le> wait_ticks track
             \<and> vw_tick v - rm_wait_at m \<le> wait_ticks track
             \<and> (case rm_wait_ch m of None \<Rightarrow> False | Some ch \<Rightarrow> channel_as_u8 ch = track_channel track)
           then Some (cr_id rite, m) else None)
       else None))))"

definition view_contact_boundary :: "world_view \<Rightarrow> sigil \<Rightarrow> nat option" where
  "view_contact_boundary v a =
     map_option (\<lambda>(r, m). (vw_tick v - rm_wait_at m - 1) mod 65536) (view_contact_window v a)"

record character_drive =
  cd_actor :: sigil
  cd_root :: ivec3

text \<open>The sample of the contact artifact; a boundary past its roots would panic, and is None here.\<close>

definition contact_root :: "world_view \<Rightarrow> pose \<Rightarrow> sigil \<Rightarrow> ivec3 option" where
  "contact_root v q s =
     Option.bind (view_contact_track v s) (\<lambda>track. Option.bind (view_contact_boundary v s) (\<lambda>i.
       Option.bind (nth_opt (track_roots track) (i + 1)) (\<lambda>b. Option.bind (nth_opt (track_roots track) i) (\<lambda>a.
         Some (rotate_vec (ivec3 (wrap32 (vx b - vx a)) (wrap32 (vy b - vy a)) (wrap32 (vz b - vz a))) (pyaw q) (ppitch q) (proll q))))))"

definition view_character_drive :: "world_view \<Rightarrow> sigil \<Rightarrow> character_drive option" where
  "view_character_drive v s =
     Option.bind (view_character_physics v s) (\<lambda>policy. Option.bind (proj_pose (vw_proj v) s) (\<lambda>q.
       let moving = (case proj_vel (vw_proj v) s of None \<Rightarrow> False | Some (u, y) \<Rightarrow> v3x u \<noteq> 0 \<or> v3z u \<noteq> 0);
           root = (if view_contact_window v s \<noteq> None then contact_root v q s
                   else Some (character_sample policy (vw_tick v) moving (pyaw q)))
       in map_option (\<lambda>r. \<lparr>cd_actor = s, cd_root = r\<rparr>) root))"

section \<open>The predicate store\<close>

definition view_store :: "projection \<Rightarrow> pred_store" where
  "view_store p =
     \<lparr>has_affordance = proj_has_affordance p, has_rel = proj_has_rel p, related = related_slice p, qty = proj_qty p,
      aabb_at = posed_hull p, knows_fact = proj_knows p, rite_active = (\<lambda>a r. proj_rite p a r \<noteq> None),
      in_window = (\<lambda>r ch. \<exists>s \<in> set (p_sigils p). case proj_rite p s r of None \<Rightarrow> False | Some m \<Rightarrow> rm_wait_left m > 0),
      sleep_ticks = (\<lambda>s. map_option snd (proj_island p s)), sim_lod_of = proj_sim_lod p\<rparr>"

end
