(* ===== verification/WorldPlaceProps.thy ===== *)
theory WorldPlaceProps
  imports WorldPlace
begin

text \<open>
  Moving a Place.  Leaving: the members that are not carried by a host elsewhere disappear.  Loading: every
  row of the captured Place appears as it was captured, or nothing changes.  Capturing and loading are inverse
  on the rows, up to edge lists that are stored empty.
\<close>

section \<open>Leaving\<close>

definition row_edges :: "locus_row \<Rightarrow> rel \<Rightarrow> sigil list" where
  "row_edges v r = (if r = In then (case lr_in_place v of None \<Rightarrow> [] | Some b \<Rightarrow> [b])
     else (case lr_rels v (rel_as_u8 r) of None \<Rightarrow> [] | Some xs \<Rightarrow> xs))"

lemma in_place_at: "proj_ok p \<Longrightarrow> i < length (p_sigils p) \<Longrightarrow> nth_or None (p_in_place p) i = p_in_place p ! i"
  by (simp add: proj_ok_def cols_ok_def Let_def nth_or_def)

lemma related_view:
  assumes "proj_ok p"
  shows "related_slice p s r = (case proj_view p s of None \<Rightarrow> [] | Some v \<Rightarrow> row_edges v r)"
proof (cases "proj_packed p s")
  case (Some i)
  then show ?thesis using in_place_at[OF assms, of i] packed_range[OF assms Some]
    by (auto simp: related_slice_def proj_view_def row_edges_def row_view_def split: option.split)
qed (simp add: related_slice_def proj_view_def)

definition resident :: "(sigil \<Rightarrow> locus_row option) \<Rightarrow> sigil \<Rightarrow> sigil \<Rightarrow> bool" where
  "resident V place s \<longleftrightarrow> (\<exists>v. V s = Some v \<and> lr_in_place v = Some place)"

text \<open>A locus leaves with its Place unless it is attached to, or piloted by, something outside.\<close>

definition leaves :: "(sigil \<Rightarrow> locus_row option) \<Rightarrow> sigil \<Rightarrow> sigil \<Rightarrow> bool" where
  "leaves V place s \<longleftrightarrow> s \<noteq> place \<and> resident V place s
     \<and> (\<forall>v h. V s = Some v \<longrightarrow> h \<in> set (row_edges v AttachedTo) \<union> set (row_edges v PilotedBy) \<longrightarrow> h = place \<or> resident V place h)"

lemma packed_iff_sigil: "proj_ok p \<Longrightarrow> s \<in> set (p_sigils p) \<longleftrightarrow> proj_packed p s \<noteq> None"
  by (auto simp: proj_ok_def ids_ok_def proj_packed_def in_set_conv_nth nth_opt_Some_iff)

lemma members_view:
  assumes "proj_ok p"
  shows "s \<in> set (place_members p place) \<longleftrightarrow> s \<noteq> place \<and> resident (proj_view p) place s"
proof -
  have "proj_has_rel p s In place \<longleftrightarrow> resident (proj_view p) place s"
    by (cases "proj_view p s") (auto simp: proj_has_rel_def related_view[OF assms] resident_def row_edges_def split: option.splits)
  moreover have "resident (proj_view p) place s \<Longrightarrow> s \<in> set (p_sigils p)"
    by (auto simp: resident_def proj_view_def packed_iff_sigil[OF assms])
  ultimately show ?thesis by (auto simp: place_members_def)
qed

lemma leaves_iff:
  assumes "proj_ok p"
  shows "s \<in> set (filter (\<lambda>s. \<not> is_migrating p s (place # place_members p place)) (place_members p place)) \<longleftrightarrow> leaves (proj_view p) place s"
proof -
  have "is_migrating p s (place # place_members p place) \<longleftrightarrow>
      (\<exists>v h. proj_view p s = Some v \<and> h \<in> set (row_edges v AttachedTo) \<union> set (row_edges v PilotedBy) \<and> h \<noteq> place \<and> \<not> resident (proj_view p) place h)"
    by (cases "proj_view p s") (auto simp: is_migrating_def related_view[OF assms] members_view[OF assms])
  then show ?thesis using members_view[OF assms] by (auto simp: leaves_def)
qed

lemma evict_place_ok:
  assumes "proj_ok p"
  shows "if proj_packed p place = None then evict_place place p = Inl UnknownLocus
    else \<exists>q. evict_place place p = Inr q \<and> kept q \<and> p_locus_cap q = p_locus_cap p \<and> proj_view q = without {s. leaves (proj_view p) place s} (proj_view p)"
proof (cases "proj_packed p place")
  case (Some i)
  define gone where "gone = filter (\<lambda>s. \<not> is_migrating p s (place # place_members p place)) (place_members p place)"
  have set: "set gone = {s. leaves (proj_view p) place s}" using leaves_iff[OF assms] by (auto simp: gone_def)
  have "\<forall>s \<in> set gone. proj_packed p s \<noteq> None"
    by (auto simp: set leaves_def resident_def proj_view_def)
  then obtain q where q: "drop_loci gone p = Inr q" "proj_ok q" "p_locus_cap q = p_locus_cap p" "proj_view q = without (set gone) (proj_view p)"
    using drop_loci_ok[OF assms, of gone] by auto
  have "evict_place place p = Inr (rebuild_space_ix q)"
    using q(1) by (simp add: evict_place_def plan_place_evict_def require_def Some Let_def flip: gone_def)
  then show ?thesis using rebuild_space[OF q(2)] q(3,4) set Some by (simp add: kept_def) (simp add: rebuild_space_ix_def)
qed (simp add: evict_place_def plan_place_evict_def require_def)

section \<open>One row of a captured Place\<close>

text \<open>The edges a row's relation list describes.\<close>

definition add_edge :: "rel \<times> sigil \<Rightarrow> (nat \<Rightarrow> sigil list option) \<Rightarrow> nat \<Rightarrow> sigil list option" where
  "add_edge rb E = (let (r, b) = rb; xs = (case E (rel_as_u8 r) of None \<Rightarrow> [] | Some xs \<Rightarrow> xs) in
     if r = In then E else E(rel_as_u8 r := Some (if b \<in> set xs then xs else xs @ [b])))"

definition loaded_row :: "place_row \<Rightarrow> locus_row" where
  "loaded_row row =
     \<lparr>lr_kind = pw_kind row, lr_afford = pw_afford row, lr_hull = pw_hull row, lr_hull_id = pw_hull_id row, lr_pose = pw_pose row,
      lr_vel = pw_vel row, lr_yaw = pw_yaw_rate row, lr_pitch = pw_pitch_rate row, lr_roll = pw_roll_rate row,
      lr_island = pw_island row, lr_sleep = pw_sleep row, lr_lod = pw_lod row, lr_in_place = in_place_of row,
      lr_support = pw_support row, lr_attach = pw_attach row, lr_rels = fold add_edge (pw_rels row) (\<lambda>_. None),
      lr_qty = map_of (rev (pw_qty row)), lr_phys = pw_phys row, lr_rites = map_of (rev (pw_rites row)),
      lr_knows = (\<lambda>f. f \<in> set (pw_knows row))\<rparr>"

definition bare_loaded :: "place_row \<Rightarrow> locus_row" where
  "bare_loaded row = (loaded_row row)\<lparr>lr_rels := (\<lambda>_. None)\<rparr>"

lemma insert_row_entries:
  "bt_get (fold (\<lambda>(r, v) m. bt_insert (i, r) v m) kvs m) (j, x)
   = (case if j = i then map_of (rev kvs) x else None of None \<Rightarrow> bt_get m (j, x) | Some v \<Rightarrow> Some v)"
  by (induction kvs arbitrary: m) (auto simp: bt_get_insert map_add_def split: option.split)

lemma insert_row_entries_sorted: "bt_sorted m \<Longrightarrow> bt_sorted (fold (\<lambda>(r, v) m. bt_insert (i, r) v m) kvs m)"
  by (induction kvs arbitrary: m) auto

lemma insert_row_keys:
  "fold (\<lambda>f m. bt_insert (i, f) () m) fs m = fold (\<lambda>(r, v) m. bt_insert (i, r) v m) (map (\<lambda>f. (f, ())) fs) m"
  by (induction fs arbitrary: m) auto

lemma write_snap_row_maps:
  assumes "maps_sorted p"
  shows "maps_sorted (write_snap_row i row p)"
    "bt_get (p_rels (write_snap_row i row p)) (j, x) = (if j = i then None else bt_get (p_rels p) (j, x))"
    "bt_get (p_qty (write_snap_row i row p)) (j, x) = (if j = i then map_of (rev (pw_qty row)) x else bt_get (p_qty p) (j, x))"
    "bt_get (p_phys (write_snap_row i row p)) j = (if j = i then pw_phys row else bt_get (p_phys p) j)"
    "bt_get (p_rites (write_snap_row i row p)) (j, x) = (if j = i then map_of (rev (pw_rites row)) x else bt_get (p_rites p) (j, x))"
    "bt_get (p_knows (write_snap_row i row p)) (j, x) = (if j = i then (if x \<in> set (pw_knows row) then Some () else None) else bt_get (p_knows p) (j, x))"
proof -
  have g: "map_of (rev (map (\<lambda>f. (f, ())) fs)) x = (if x \<in> set fs then Some () else None)" for fs and x :: nat
    by (induction fs) (auto simp: map_add_def split: option.split)
  note d = write_snap_row_def drop_packed_maps_def strip_packed_maps_def insert_row_maps_def Let_def insert_row_keys
    insert_row_entries bt_get_filter
  show "maps_sorted (write_snap_row i row p)"
    using assms by (auto simp: d maps_sorted_def bt_sorted_filter insert_row_entries_sorted split: option.split)
  show "bt_get (p_rels (write_snap_row i row p)) (j, x) = (if j = i then None else bt_get (p_rels p) (j, x))"
    "bt_get (p_qty (write_snap_row i row p)) (j, x) = (if j = i then map_of (rev (pw_qty row)) x else bt_get (p_qty p) (j, x))"
    "bt_get (p_phys (write_snap_row i row p)) j = (if j = i then pw_phys row else bt_get (p_phys p) j)"
    "bt_get (p_rites (write_snap_row i row p)) (j, x) = (if j = i then map_of (rev (pw_rites row)) x else bt_get (p_rites p) (j, x))"
    by (auto simp: d bt_get_insert split: option.split)
  show "bt_get (p_knows (write_snap_row i row p)) (j, x) = (if j = i then (if x \<in> set (pw_knows row) then Some () else None) else bt_get (p_knows p) (j, x))"
    by (auto simp: d g split: option.split)
qed

lemma write_snap_row_cols:
  assumes "cols_ok p"
  shows "cols_ok (write_snap_row i row p)"
  using assms by (simp add: cols_ok_def write_snap_row_def drop_packed_maps_def strip_packed_maps_def insert_row_maps_def Let_def)

lemma write_snap_row_other:
  assumes "j \<noteq> i"
  shows "nth_opt (p_kinds (write_snap_row i row p)) j = nth_opt (p_kinds p) j"
    "nth_or None (p_hull (write_snap_row i row p)) j = nth_or None (p_hull p) j"
    "nth_or None (p_pose (write_snap_row i row p)) j = nth_or None (p_pose p) j"
    "nth_or 0 (p_afford (write_snap_row i row p)) j = nth_or 0 (p_afford p) j"
    "nth_or None (p_in_place (write_snap_row i row p)) j = nth_or None (p_in_place p) j"
  using assms
  by (simp_all add: write_snap_row_def drop_packed_maps_def strip_packed_maps_def insert_row_maps_def Let_def nth_opt_def)

lemma write_snap_row_keeps:
  "p_by_sigil (write_snap_row i row p) = p_by_sigil p" "p_sigils (write_snap_row i row p) = p_sigils p"
  "p_locus_cap (write_snap_row i row p) = p_locus_cap p" "p_opaque (write_snap_row i row p) = p_opaque p"
  "p_space (write_snap_row i row p) = p_space p" "p_constraints (write_snap_row i row p) = p_constraints p"
  by (simp_all add: write_snap_row_def drop_packed_maps_def strip_packed_maps_def insert_row_maps_def Let_def)

lemma write_snap_row_cell:
  "j \<noteq> i \<Longrightarrow> (p_kinds (write_snap_row i row p)) ! j = p_kinds p ! j \<and> p_afford (write_snap_row i row p) ! j = p_afford p ! j
    \<and> p_hull (write_snap_row i row p) ! j = p_hull p ! j \<and> p_hull_id (write_snap_row i row p) ! j = p_hull_id p ! j
    \<and> p_pose (write_snap_row i row p) ! j = p_pose p ! j \<and> p_vel (write_snap_row i row p) ! j = p_vel p ! j
    \<and> p_yaw_rate (write_snap_row i row p) ! j = p_yaw_rate p ! j \<and> p_pitch_rate (write_snap_row i row p) ! j = p_pitch_rate p ! j
    \<and> p_roll_rate (write_snap_row i row p) ! j = p_roll_rate p ! j \<and> p_island (write_snap_row i row p) ! j = p_island p ! j
    \<and> p_sleep (write_snap_row i row p) ! j = p_sleep p ! j \<and> p_lod (write_snap_row i row p) ! j = p_lod p ! j
    \<and> p_in_place (write_snap_row i row p) ! j = p_in_place p ! j \<and> p_support (write_snap_row i row p) ! j = p_support p ! j
    \<and> p_attach (write_snap_row i row p) ! j = p_attach p ! j"
  by (simp add: write_snap_row_def drop_packed_maps_def strip_packed_maps_def insert_row_maps_def Let_def)

lemma write_snap_row_writes:
  assumes "proj_ok p"
  shows "writes_row p i (write_snap_row i row p)"
proof -
  have maps: "maps_sorted p" using assms by (simp add: proj_ok_def)
  note m = write_snap_row_maps[OF maps]
  have "space_entry (write_snap_row i row p) j = space_entry p j" if "j \<noteq> i" for j
    using that by (intro space_entry_cong) (simp_all add: write_snap_row_other write_snap_row_keeps m)
  moreover have "row_view (write_snap_row i row p) j = row_view p j" if "j \<noteq> i" for j
    using that write_snap_row_cell[OF that] by (simp add: row_view_def m bt_has_def)
  moreover have "row_bare (write_snap_row i row p) j = row_bare p j" if "j \<noteq> i" for j
    using that by (simp add: row_bare_def m)
  ultimately show ?thesis
    by (simp add: writes_row_def write_snap_row_keeps write_snap_row_cols m)
qed

lemma write_snap_row_view:
  assumes "proj_ok p" "i < length (p_sigils p)"
  shows "row_view (write_snap_row i row p) i = bare_loaded row"
proof -
  have maps: "maps_sorted p" and cols: "cols_ok p" using assms(1) by (simp_all add: proj_ok_def)
  have "p_kinds (write_snap_row i row p) ! i = pw_kind row" "p_afford (write_snap_row i row p) ! i = pw_afford row"
    "p_hull (write_snap_row i row p) ! i = pw_hull row" "p_hull_id (write_snap_row i row p) ! i = pw_hull_id row"
    "p_pose (write_snap_row i row p) ! i = pw_pose row" "p_vel (write_snap_row i row p) ! i = pw_vel row"
    "p_yaw_rate (write_snap_row i row p) ! i = pw_yaw_rate row" "p_pitch_rate (write_snap_row i row p) ! i = pw_pitch_rate row"
    "p_roll_rate (write_snap_row i row p) ! i = pw_roll_rate row" "p_island (write_snap_row i row p) ! i = pw_island row"
    "p_sleep (write_snap_row i row p) ! i = pw_sleep row" "p_lod (write_snap_row i row p) ! i = pw_lod row"
    "p_in_place (write_snap_row i row p) ! i = in_place_of row" "p_support (write_snap_row i row p) ! i = pw_support row"
    "p_attach (write_snap_row i row p) ! i = pw_attach row"
    using assms(2) cols
    by (simp_all add: write_snap_row_def drop_packed_maps_def strip_packed_maps_def insert_row_maps_def Let_def cols_ok_def)
  then show ?thesis
    by (simp add: row_view_def bare_loaded_def loaded_row_def write_snap_row_maps[OF maps] bt_has_def)
qed

text \<open>Writing a captured row over a row that exists.\<close>

lemma write_snap_row_ok:
  assumes "proj_ok p" "proj_packed p (pw_sigil row) = Some i"
  shows "proj_ok (write_snap_row i row p) \<and> p_sigils (write_snap_row i row p) = p_sigils p
    \<and> p_locus_cap (write_snap_row i row p) = p_locus_cap p
    \<and> proj_view (write_snap_row i row p) = (proj_view p)(pw_sigil row := Some (bare_loaded row))"
  using writes_ok[OF write_snap_row_writes[OF assms(1)] assms(1)] packed_range[OF assms] write_snap_row_keeps
    writes_view[OF write_snap_row_writes[OF assms(1)] assms] write_snap_row_view[OF assms(1)] by simp

text \<open>A row that does not exist is a fresh row, written over.\<close>

lemma push_as_write:
  assumes ok: "proj_ok p" and new: "proj_packed p (pw_sigil row) = None" and room: "length (p_sigils p) < p_locus_cap p"
  shows "\<exists>q. insert_locus_at_end (pw_sigil row) (pw_kind row) p = Inr (length (p_sigils p), q)
    \<and> push_snap_row row p = write_snap_row (length (p_sigils p)) row q"
proof -
  let ?n = "length (p_sigils p)"
  have cols: "cols_ok p" and bare: "row_bare p ?n" using ok by (simp_all add: proj_ok_def)
  have keep: "filter (\<lambda>(k, v). fst k \<noteq> ?n) m = m" if "\<And>x. bt_get m (?n, x) = None" for m :: "(packed_ix \<times> nat, 'v) btree"
    using that by (force simp: filter_id_conv bt_get_None_iff)
  have keep': "filter (\<lambda>(k, v). k \<noteq> ?n) m = m" if "bt_get m ?n = None" for m :: "(packed_ix, 'v) btree"
    using that by (force simp: filter_id_conv bt_get_None_iff)
  have up: "(xs @ [d])[?n := v] = xs @ [v]" if "length xs = ?n" for xs :: "'x list" and d v
    using that by (simp add: list_update_append)
  have maps: "filter (\<lambda>(k, v). fst k \<noteq> ?n) (p_rels p) = p_rels p" "filter (\<lambda>(k, v). fst k \<noteq> ?n) (p_qty p) = p_qty p"
    "filter (\<lambda>(k, v). fst k \<noteq> ?n) (p_rites p) = p_rites p" "filter (\<lambda>(k, v). fst k \<noteq> ?n) (p_knows p) = p_knows p"
    "filter (\<lambda>(k, v). k \<noteq> ?n) (p_phys p) = p_phys p"
    using bare by (simp_all add: keep keep' row_bare_def)
  have len: "length (p_kinds p) = ?n" "length (p_afford p) = ?n" "length (p_hull p) = ?n" "length (p_hull_id p) = ?n"
    "length (p_pose p) = ?n" "length (p_vel p) = ?n" "length (p_yaw_rate p) = ?n" "length (p_pitch_rate p) = ?n"
    "length (p_roll_rate p) = ?n" "length (p_island p) = ?n" "length (p_sleep p) = ?n" "length (p_lod p) = ?n"
    "length (p_in_place p) = ?n" "length (p_support p) = ?n" "length (p_attach p) = ?n"
    using cols by (simp_all add: cols_ok_def Let_def)
  define q where "q = p\<lparr>p_by_sigil := bt_insert (pw_sigil row) ?n (p_by_sigil p), p_sigils := p_sigils p @ [pw_sigil row],
    p_kinds := p_kinds p @ [pw_kind row], p_afford := p_afford p @ [0], p_hull := p_hull p @ [None], p_hull_id := p_hull_id p @ [hash_zero],
    p_pose := p_pose p @ [None], p_vel := p_vel p @ [vel_zero], p_yaw_rate := p_yaw_rate p @ [0],
    p_pitch_rate := p_pitch_rate p @ [0], p_roll_rate := p_roll_rate p @ [0], p_island := p_island p @ [0],
    p_sleep := p_sleep p @ [0], p_lod := p_lod p @ [Full], p_in_place := p_in_place p @ [None],
    p_support := p_support p @ [None], p_attach := p_attach p @ [None]\<rparr>"
  have ins: "insert_locus_at_end (pw_sigil row) (pw_kind row) p = Inr (?n, q)"
    using new room by (simp add: insert_locus_at_end_def q_def Let_def)
  have "p_rels q = p_rels p" "p_qty q = p_qty p" "p_rites q = p_rites p" "p_knows q = p_knows p" "p_phys q = p_phys p"
    by (simp_all add: q_def)
  then have dq: "drop_packed_maps ?n q = q" by (simp add: drop_packed_maps_def strip_packed_maps_def maps)
  have "write_snap_row ?n row q = push_snap_row row p"
    unfolding write_snap_row_def push_snap_row_def dq Let_def
    by (rule arg_cong[where f = "insert_row_maps ?n row"], rule projection.equality) (simp_all add: q_def up len)
  then show ?thesis using ins by metis
qed

lemma push_snap_row_ok:
  assumes "proj_ok p" "proj_packed p (pw_sigil row) = None" "length (p_sigils p) < p_locus_cap p"
  shows "proj_ok (push_snap_row row p) \<and> p_sigils (push_snap_row row p) = p_sigils p @ [pw_sigil row]
    \<and> p_locus_cap (push_snap_row row p) = p_locus_cap p
    \<and> proj_view (push_snap_row row p) = (proj_view p)(pw_sigil row := Some (bare_loaded row))"
proof -
  let ?n = "length (p_sigils p)"
  obtain q where q: "insert_locus_at_end (pw_sigil row) (pw_kind row) p = Inr (?n, q)"
    "push_snap_row row p = write_snap_row ?n row q"
    using push_as_write[OF assms] by blast
  have cap: "p_locus_cap q = p_locus_cap p" using q(1) assms(2,3) by (auto simp: insert_locus_at_end_def Let_def)
  have k: "proj_ok q" "p_sigils q = p_sigils p @ [pw_sigil row]" "proj_packed q (pw_sigil row) = Some ?n"
    "proj_view q = (proj_view p)(pw_sigil row := Some (fresh_row (pw_kind row)))"
    using insert_at_end_ok[OF assms(1,2) q(1)] by simp_all
  show ?thesis using write_snap_row_ok[OF k(1,3)] k(2,4) cap q(2) by simp
qed

section \<open>All rows of a captured Place\<close>

text \<open>Writing an update per row, in order.\<close>

definition load_row :: "projection \<Rightarrow> place_row \<Rightarrow> projection" where
  "load_row p row = (case proj_packed p (pw_sigil row) of Some i \<Rightarrow> write_snap_row i row p | None \<Rightarrow> push_snap_row row p)"

lemma view_None: "proj_view p s = None \<longleftrightarrow> proj_packed p s = None"
  by (simp add: proj_view_def)

lemma fold_upd_other: "s \<notin> key ` set rows \<Longrightarrow> fold (\<lambda>row V. V(key row := g row)) rows V s = V s"
  by (induction rows arbitrary: V) auto

lemma fold_upd_in: "distinct (map key rows) \<Longrightarrow> row \<in> set rows \<Longrightarrow> fold (\<lambda>row V. V(key row := g row)) rows V (key row) = g row"
  by (induction rows arbitrary: V) (auto simp: fold_upd_other)

definition missing :: "projection \<Rightarrow> place_row list \<Rightarrow> nat" where
  "missing p rows = length (filter (\<lambda>row. proj_packed p (pw_sigil row) = None) rows)"

lemma missing_Cons: "missing p (row # rows) = missing p [row] + missing p rows"
  by (simp add: missing_def)

lemma load_row_ok:
  assumes "proj_ok p" "length (p_sigils p) + missing p [row] \<le> p_locus_cap p"
  shows "proj_ok (load_row p row)" "p_locus_cap (load_row p row) = p_locus_cap p"
    "length (p_sigils (load_row p row)) = length (p_sigils p) + missing p [row]"
    "proj_view (load_row p row) = (proj_view p)(pw_sigil row := Some (bare_loaded row))"
  using write_snap_row_ok[OF assms(1)] push_snap_row_ok[OF assms(1)] assms(2)
  by (auto simp: load_row_def missing_def split: option.split if_splits)

lemma load_row_packed:
  assumes "proj_ok p" "length (p_sigils p) + missing p [row] \<le> p_locus_cap p" "s \<noteq> pw_sigil row"
  shows "proj_packed (load_row p row) s = proj_packed p s"
proof (cases "proj_packed p (pw_sigil row)")
  case None
  then show ?thesis
    using assms(3) by (simp add: load_row_def push_snap_row_def insert_row_maps_def proj_packed_def bt_get_insert Let_def)
qed (simp add: load_row_def proj_packed_def write_snap_row_keeps)

lemma append_snap_rows_ok:
  assumes "proj_ok p" "distinct (map pw_sigil rows)" "length (p_sigils p) + missing p rows \<le> p_locus_cap p"
  shows "proj_ok (append_snap_rows (zip rows (map (\<lambda>row. proj_packed p (pw_sigil row)) rows)) p)
    \<and> proj_view (append_snap_rows (zip rows (map (\<lambda>row. proj_packed p (pw_sigil row)) rows)) p)
      = fold (\<lambda>row V. V(pw_sigil row := Some (bare_loaded row))) rows (proj_view p)"
  using assms
proof (induction rows arbitrary: p)
  case Nil
  then show ?case by (simp add: append_snap_rows_def)
next
  case (Cons row rows)
  have room: "length (p_sigils p) + missing p [row] \<le> p_locus_cap p"
    using Cons.prems(3) by (auto simp: missing_def split: if_splits)
  let ?q = "load_row p row"
  note q = load_row_ok[OF Cons.prems(1) room]
  have pk: "proj_packed ?q (pw_sigil r) = proj_packed p (pw_sigil r)" if "r \<in> set rows" for r
  proof -
    have "pw_sigil r \<noteq> pw_sigil row" using Cons.prems(2) that by (auto simp: image_iff)
    then show ?thesis by (rule load_row_packed[OF Cons.prems(1) room])
  qed
  have miss: "missing ?q rows = missing p rows"
    unfolding missing_def by (intro arg_cong[where f = length] filter_cong) (simp_all add: pk)
  have step: "append_snap_rows (zip (row # rows) (map (\<lambda>row. proj_packed p (pw_sigil row)) (row # rows))) p
    = append_snap_rows (zip rows (map (\<lambda>row. proj_packed ?q (pw_sigil row)) rows)) ?q"
    using pk by (simp add: append_snap_rows_def load_row_def cong: map_cong)
  have "length (p_sigils ?q) + missing ?q rows \<le> p_locus_cap ?q"
    using Cons.prems(3) missing_Cons[of p row rows] unfolding q(2,3) miss by simp
  then show ?case using Cons.IH[OF q(1)] Cons.prems(2) q(4) unfolding step by simp
qed

text \<open>The relations follow, once every row has its slot.\<close>

lemma row_view_rels:
  "row_view (p\<lparr>p_rels := m\<rparr>) i = (row_view p i)\<lparr>lr_rels := (\<lambda>r. map_option nb_slice (bt_get m (i, r)))\<rparr>"
  by (simp add: row_view_def)

lemma add_rel_raw_edge:
  assumes "proj_ok p" "proj_packed p s = Some i" "r \<noteq> In"
  shows "\<exists>q. add_rel_raw s r b p = Inr (i, q) \<and> proj_ok q \<and> p_by_sigil q = p_by_sigil p
    \<and> proj_view q = (proj_view p)(s := Some ((row_view p i)\<lparr>lr_rels := add_edge (r, b) (lr_rels (row_view p i))\<rparr>))"
proof -
  define n where "n = (case bt_get (p_rels p) (i, rel_as_u8 r) of None \<Rightarrow> nb_default | Some n \<Rightarrow> n)"
  define n' where "n' = (if b \<in> set (nb_slice n) then n else nb_push b n)"
  define q where "q = p\<lparr>p_rels := bt_insert (i, rel_as_u8 r) n' (p_rels p)\<rparr>"
  have raw: "add_rel_raw s r b p = Inr (i, q)"
    using assms(2,3) by (simp add: add_rel_raw_def require_def q_def n'_def n_def Let_def)
  have w: "writes_row p i q" using add_rel_raw_writes[OF assms(1) raw] by blast
  have nb: "nb_ok n" using proj_edge_ok[OF assms(1), of i "rel_as_u8 r"] by (auto simp: n_def edge_ok_def split: option.split)
  have sl: "nb_slice n = (case lr_rels (row_view p i) (rel_as_u8 r) of None \<Rightarrow> [] | Some xs \<Rightarrow> xs)"
    by (simp add: n_def row_view_def split: option.split)
  have "nb_slice n' = (if b \<in> set (nb_slice n) then nb_slice n else nb_slice n @ [b])"
    by (simp add: n'_def nb_push_slice[OF nb])
  then have "add_edge (r, b) (lr_rels (row_view p i)) = (lr_rels (row_view p i))(rel_as_u8 r := Some (nb_slice n'))"
    using assms(3) by (simp add: add_edge_def flip: sl)
  moreover have "(\<lambda>k. map_option nb_slice (bt_get (bt_insert (i, rel_as_u8 r) n' (p_rels p)) (i, k)))
      = (lr_rels (row_view p i))(rel_as_u8 r := Some (nb_slice n'))"
    by (simp add: row_view_def bt_get_insert fun_eq_iff)
  ultimately have "row_view q i = (row_view p i)\<lparr>lr_rels := add_edge (r, b) (lr_rels (row_view p i))\<rparr>"
    by (simp only: q_def row_view_rels)
  moreover have "i < length (p_sigils p)" using packed_range[OF assms(1,2)] by simp
  ultimately show ?thesis
    using raw writes_ok[OF w assms(1)] writes_view[OF w assms(1,2)] by (auto simp: q_def)
qed

lemma add_row_rels_ok:
  assumes "proj_ok p" "proj_packed p (pw_sigil row) = Some i"
  shows "\<exists>q. add_row_rels row p = Inr q \<and> proj_ok q \<and> p_by_sigil q = p_by_sigil p
    \<and> proj_view q = (proj_view p)(pw_sigil row := Some ((row_view p i)\<lparr>lr_rels := fold add_edge (pw_rels row) (lr_rels (row_view p i))\<rparr>))"
proof -
  let ?s = "pw_sigil row"
  have "\<exists>q. rfold (\<lambda>p (r, b). if r = In then Inr p else rbind (add_rel_raw ?s r b p) (\<lambda>(i, p). Inr p)) p es = Inr q
      \<and> proj_ok q \<and> p_by_sigil q = p_by_sigil p
      \<and> proj_view q = (proj_view p)(?s := Some ((row_view p i)\<lparr>lr_rels := fold add_edge es (lr_rels (row_view p i))\<rparr>))"
    if "proj_ok p" "proj_packed p ?s = Some i" for es
    using that
  proof (induction es arbitrary: p)
    case Nil
    then show ?case by (auto simp: proj_view_def fun_eq_iff)
  next
    case (Cons e es)
    obtain r b where e: "e = (r, b)" by (cases e)
    show ?case
    proof (cases "r = In")
      case True
      then show ?thesis using Cons.IH[OF Cons.prems] e by (simp add: add_edge_def)
    next
      case False
      obtain q where q: "add_rel_raw ?s r b p = Inr (i, q)" "proj_ok q" "p_by_sigil q = p_by_sigil p"
        "proj_view q = (proj_view p)(?s := Some ((row_view p i)\<lparr>lr_rels := add_edge (r, b) (lr_rels (row_view p i))\<rparr>))"
        using add_rel_raw_edge[OF Cons.prems False] by blast
      have i: "proj_packed q ?s = Some i" using Cons.prems(2) q(3) by (simp add: proj_packed_def)
      then have rv: "row_view q i = (row_view p i)\<lparr>lr_rels := add_edge (r, b) (lr_rels (row_view p i))\<rparr>"
        using fun_cong[OF q(4), of ?s] by (simp add: proj_view_def)
      obtain t where t: "rfold (\<lambda>p (r, b). if r = In then Inr p else rbind (add_rel_raw ?s r b p) (\<lambda>(i, p). Inr p)) q es = Inr t"
        "proj_ok t" "p_by_sigil t = p_by_sigil q"
        "proj_view t = (proj_view q)(?s := Some ((row_view q i)\<lparr>lr_rels := fold add_edge es (lr_rels (row_view q i))\<rparr>))"
        using Cons.IH[OF q(2) i] by blast
      have "proj_view t = (proj_view p)(?s := Some ((row_view p i)\<lparr>lr_rels := fold add_edge (e # es) (lr_rels (row_view p i))\<rparr>))"
        unfolding t(4) rv q(4) fun_upd_upd by (simp add: e)
      moreover have "rfold (\<lambda>p (r, b). if r = In then Inr p else rbind (add_rel_raw ?s r b p) (\<lambda>(i, p). Inr p)) p (e # es) = Inr t"
        using t(1) q(1) False e by simp
      ultimately show ?thesis using t(2,3) q(3) by metis
    qed
  qed
  then show ?thesis using assms by (simp add: add_row_rels_def)
qed

lemma add_all_rels_ok:
  assumes "proj_ok p" "distinct (map pw_sigil rows)" "\<forall>row \<in> set rows. proj_view p (pw_sigil row) = Some (bare_loaded row)"
  shows "\<exists>q. rfold (\<lambda>p row. add_row_rels row p) p rows = Inr q \<and> proj_ok q
    \<and> proj_view q = fold (\<lambda>row V. V(pw_sigil row := Some (loaded_row row))) rows (proj_view p)"
  using assms
proof (induction rows arbitrary: p)
  case (Cons row rows)
  obtain i where i: "proj_packed p (pw_sigil row) = Some i" "row_view p i = bare_loaded row"
    using Cons.prems(3) by (auto simp: proj_view_def)
  obtain q where q: "add_row_rels row p = Inr q" "proj_ok q"
    "proj_view q = (proj_view p)(pw_sigil row := Some ((row_view p i)\<lparr>lr_rels := fold add_edge (pw_rels row) (lr_rels (row_view p i))\<rparr>))"
    using add_row_rels_ok[OF Cons.prems(1) i(1)] by blast
  have "(row_view p i)\<lparr>lr_rels := fold add_edge (pw_rels row) (lr_rels (row_view p i))\<rparr> = loaded_row row"
    by (simp add: i(2) bare_loaded_def loaded_row_def)
  then have v: "proj_view q = (proj_view p)(pw_sigil row := Some (loaded_row row))" using q(3) by simp
  have "\<forall>r \<in> set rows. proj_view q (pw_sigil r) = Some (bare_loaded r)"
  proof
    fix r assume r: "r \<in> set rows"
    have "pw_sigil r \<noteq> pw_sigil row" using Cons.prems(2) r by (auto simp: image_iff)
    then show "proj_view q (pw_sigil r) = Some (bare_loaded r)" using Cons.prems(3) r by (simp add: v)
  qed
  then show ?case using Cons.IH[OF q(2)] Cons.prems(2) q(1) v by simp
qed simp

section \<open>Loading\<close>

definition one_place :: "place_row \<Rightarrow> bool" where
  "one_place row \<longleftrightarrow> length (filter (\<lambda>(r, b). r = In) (pw_rels row)) \<le> 1"

definition snap_valid :: "place_row list \<Rightarrow> bool" where
  "snap_valid rows \<longleftrightarrow> length rows \<le> max_place_rows \<and> distinct (map pw_sigil rows) \<and> (\<forall>row \<in> set rows. one_place row)"

lemma sorted_windows_distinct: "windows2 (\<noteq>) (sort xs) \<longleftrightarrow> distinct (xs :: sigil list)"
proof -
  have "sorted ys \<Longrightarrow> windows2 (\<noteq>) ys \<longleftrightarrow> distinct ys" for ys :: "sigil list"
  proof (induction "(\<noteq>) :: sigil \<Rightarrow> sigil \<Rightarrow> bool" ys rule: windows2.induct)
    case (1 a b xs)
    then show ?case by auto
  qed auto
  then show ?thesis by simp
qed

lemma row_in_place_spec:
  "row_in_place rels = (case map snd (filter (\<lambda>(r, b). r = In) rels) of [] \<Rightarrow> Inr None | [b] \<Rightarrow> Inr (Some b) | _ \<Rightarrow> Inl PlaceSnap)"
proof -
  have "rfold (\<lambda>found (r, b). if r \<noteq> In then Inr found else if found \<noteq> None then Inl PlaceSnap else Inr (Some b)) acc rels
    = (case (acc, map snd (filter (\<lambda>(r, b). r = In) rels)) of (_, []) \<Rightarrow> Inr acc | (None, [b]) \<Rightarrow> Inr (Some b) | _ \<Rightarrow> Inl PlaceSnap)" for acc
    by (induction rels arbitrary: acc) (auto split: option.splits list.splits)
  then show ?thesis by (simp add: row_in_place_def split: list.split)
qed

lemma row_in_place_ok: "if one_place row then row_in_place (pw_rels row) = Inr (in_place_of row) else row_in_place (pw_rels row) = Inl PlaceSnap"
proof -
  obtain xs where xs: "filter (\<lambda>(r, b). r = In) (pw_rels row) = xs" by blast
  show ?thesis
    by (cases xs; cases "tl xs") (auto simp: one_place_def in_place_of_def row_in_place_spec xs split: list.split)
qed

text \<open>The view a loaded Place leaves: its rows as captured, every other row as it was.\<close>

definition loaded_view :: "place_row list \<Rightarrow> (sigil \<Rightarrow> locus_row option) \<Rightarrow> sigil \<Rightarrow> locus_row option" where
  "loaded_view rows V s = (case find (\<lambda>row. pw_sigil row = s) rows of Some row \<Rightarrow> Some (loaded_row row) | None \<Rightarrow> V s)"

lemma loaded_view_in: "distinct (map pw_sigil rows) \<Longrightarrow> row \<in> set rows \<Longrightarrow> loaded_view rows V (pw_sigil row) = Some (loaded_row row)"
  by (induction rows) (auto simp: loaded_view_def)

lemma loaded_view_out: "s \<notin> pw_sigil ` set rows \<Longrightarrow> loaded_view rows V s = V s"
  by (induction rows) (auto simp: loaded_view_def)

lemma find_check:
  "rfold (\<lambda>(n, packed) row. rbind (row_in_place (pw_rels row)) (\<lambda>_.
       Inr (if proj_packed p (pw_sigil row) = None then n + 1 else n, packed @ [proj_packed p (pw_sigil row)]))) (n, packed) rows
   = (if \<forall>row \<in> set rows. one_place row then Inr (n + missing p rows, packed @ map (\<lambda>row. proj_packed p (pw_sigil row)) rows)
      else Inl PlaceSnap)"
proof (induction rows arbitrary: n packed)
  case (Cons row rows)
  have "row_in_place (pw_rels row) = (if one_place row then Inr (in_place_of row) else Inl PlaceSnap)"
    using row_in_place_ok[of row] by (simp split: if_splits)
  then show ?case using Cons.IH by (simp add: Let_def missing_def)
qed (simp add: missing_def)

lemma apply_place_snap_ok:
  assumes "proj_ok p"
  shows "if \<not> snap_valid (ps_rows snap) then apply_place_snap snap p = Inl PlaceSnap
    else if length (p_sigils p) + missing p (ps_rows snap) > p_locus_cap p then apply_place_snap snap p = Inl LocusCap
    else \<exists>q. apply_place_snap snap p = Inr (length (ps_rows snap), q) \<and> kept q
      \<and> proj_view q = loaded_view (ps_rows snap) (proj_view p)"
proof -
  let ?rows = "ps_rows snap"
  let ?packed = "map (\<lambda>row. proj_packed p (pw_sigil row)) ?rows"
  have ap: "apply_place_snap snap p = (if \<not> snap_valid ?rows then Inl PlaceSnap
      else if length (p_sigils p) + missing p ?rows > p_locus_cap p then Inl LocusCap
      else rbind (rfold (\<lambda>p row. add_row_rels row p) (append_snap_rows (zip ?rows ?packed) p) ?rows) (\<lambda>q. Inr (length ?rows, rebuild_space_ix q)))"
    unfolding apply_place_snap_def Let_def find_check by (simp add: snap_valid_def sorted_windows_distinct)
  show ?thesis
  proof (cases "snap_valid ?rows \<and> \<not> length (p_sigils p) + missing p ?rows > p_locus_cap p")
    case True
    then have d: "distinct (map pw_sigil ?rows)" and room: "length (p_sigils p) + missing p ?rows \<le> p_locus_cap p"
      by (simp_all add: snap_valid_def)
    let ?a = "append_snap_rows (zip ?rows ?packed) p"
    note a = append_snap_rows_ok[OF assms d room]
    have bare: "\<forall>row \<in> set ?rows. proj_view ?a (pw_sigil row) = Some (bare_loaded row)"
      unfolding conjunct2[OF a] using fold_upd_in[OF d, of _ "\<lambda>row. Some (bare_loaded row)"] by blast
    obtain q where q: "rfold (\<lambda>p row. add_row_rels row p) ?a ?rows = Inr q" "proj_ok q"
      "proj_view q = fold (\<lambda>row V. V(pw_sigil row := Some (loaded_row row))) ?rows (proj_view ?a)"
      using add_all_rels_ok[OF conjunct1[OF a] d bare] by blast
    have "proj_view q s = loaded_view ?rows (proj_view p) s" for s
    proof (cases "s \<in> pw_sigil ` set ?rows")
      case True
      then obtain row where "row \<in> set ?rows" "s = pw_sigil row" by blast
      then show ?thesis
        unfolding q(3) using fold_upd_in[OF d, of _ "\<lambda>row. Some (loaded_row row)"] loaded_view_in[OF d] by simp
    next
      case False
      then show ?thesis
        unfolding q(3) conjunct2[OF a] loaded_view_out[OF False]
        by (subst fold_upd_other[where key = pw_sigil], assumption)+ (rule refl)
    qed
    then have "proj_view q = loaded_view ?rows (proj_view p)" by blast
    then show ?thesis using rebuild_space[OF q(2)] q(1) True by (simp add: ap kept_def)
  qed (auto simp: ap)
qed

section \<open>Capturing\<close>

lemma at_row_keys: "bt_sorted m \<Longrightarrow> distinct (map fst (at_row i m))"
proof (induction m)
  case (Cons e m)
  obtain j x v where e: "e = ((j, x), v)" by (metis prod.exhaust)
  have "i = j \<Longrightarrow> x \<notin> fst ` set (at_row i m)"
    using Cons.prems by (force simp: e at_row_def)
  then show ?case using Cons by (auto simp: e at_row_def)
qed (simp add: at_row_def)

lemma at_row_get: "map_of (at_row i m) x = bt_get m (i, x)"
  by (induction m) (auto simp: at_row_def)

lemma map_of_rev_distinct: "distinct (map fst xs) \<Longrightarrow> map_of (rev xs) = map_of xs"
  by (subst map_of_inject_set) (simp_all add: rev_map[symmetric])

lemma at_row_spec: "bt_sorted m \<Longrightarrow> map_of (rev (at_row i m)) = (\<lambda>x. bt_get m (i, x))"
  by (simp add: map_of_rev_distinct at_row_keys at_row_get fun_eq_iff)

lemma at_row_rites: "proj_packed p s = Some i \<Longrightarrow> rites_of p s = at_row i (p_rites p)"
  by (simp add: rites_of_def at_row_def)

text \<open>A stored list that is empty is not captured; every reader treats both alike.\<close>

definition norm_row :: "locus_row \<Rightarrow> locus_row" where
  "norm_row v = v\<lparr>lr_rels := (\<lambda>k. if lr_rels v k = Some [] then None else lr_rels v k)\<rparr>"

lemma norm_row_edges [simp]: "row_edges (norm_row v) r = row_edges v r"
  by (simp add: row_edges_def norm_row_def split: option.split)

lemma add_edge_list:
  assumes "r \<noteq> In" "distinct (ys @ xs)" "E (rel_as_u8 r) = (if ys = [] then None else Some ys)"
  shows "fold add_edge (map (Pair r) xs) E = (if xs = [] then E else E(rel_as_u8 r := Some (ys @ xs)))"
  using assms(2,3)
proof (induction xs arbitrary: E ys)
  case (Cons x xs)
  have "add_edge (r, x) E = E(rel_as_u8 r := Some (ys @ [x]))"
    using Cons.prems assms(1) by (simp add: add_edge_def)
  then show ?case using Cons.IH[of "ys @ [x]" "E(rel_as_u8 r := Some (ys @ [x]))"] Cons.prems(1) by (simp add: fun_upd_def) auto
qed simp

lemma add_edge_lists:
  assumes "distinct (map fst kvs)" "\<forall>(k, n) \<in> set kvs. edge_ok k n \<and> E k = None"
  shows "fold add_edge (concat (map (\<lambda>(k, n). case rel_from_u8 k of None \<Rightarrow> [] | Some r \<Rightarrow> map (Pair r) (nb_slice n)) kvs)) E
    = (\<lambda>k. case map_of kvs k of None \<Rightarrow> E k | Some n \<Rightarrow> if nb_slice n = [] then None else Some (nb_slice n))"
  using assms
proof (induction kvs arbitrary: E)
  case (Cons kn kvs)
  obtain k n where kn: "kn = (k, n)" by (cases kn)
  obtain r where r: "r \<noteq> In" "k = rel_as_u8 r" and nb: "nb_ok n" using Cons.prems(2) by (auto simp: kn edge_ok_def)
  define E' where "E' = fold add_edge (map (Pair r) (nb_slice n)) E"
  have E': "E' = (if nb_slice n = [] then E else E(k := Some (nb_slice n)))"
    using add_edge_list[OF r(1), of "[]" "nb_slice n" E] Cons.prems(2) nb by (simp add: E'_def r(2) kn nb_ok_def)
  have fresh: "k \<notin> fst ` set kvs" using Cons.prems(1) by (simp add: kn)
  then have "\<forall>(j, m) \<in> set kvs. edge_ok j m \<and> E' j = None" using Cons.prems(2) by (force simp: E')
  then have "fold add_edge (concat (map (\<lambda>(k, n). case rel_from_u8 k of None \<Rightarrow> [] | Some r \<Rightarrow> map (Pair r) (nb_slice n)) kvs)) E'
      = (\<lambda>j. case map_of kvs j of None \<Rightarrow> E' j | Some n \<Rightarrow> if nb_slice n = [] then None else Some (nb_slice n))"
    using Cons.IH Cons.prems(1) by (simp add: kn)
  moreover have "map_of kvs k = None" using fresh by (simp add: map_of_eq_None_iff)
  moreover have "E k = None" using Cons.prems(2) by (simp add: kn)
  ultimately show ?case by (auto simp: kn r(2) E'_def[symmetric] E' fun_eq_iff split: option.split)
qed simp


text \<open>What one captured row restores.\<close>

lemma captured_rels_edges:
  assumes "proj_ok p" "i < length (p_sigils p)"
  shows "fold add_edge (captured_rels p i) (\<lambda>_. None) = lr_rels (norm_row (row_view p i))"
    "map snd (filter (\<lambda>(r, b). r = In) (captured_rels p i)) = (case p_in_place p ! i of None \<Rightarrow> [] | Some b \<Rightarrow> [b])"
proof -
  let ?kvs = "at_row i (p_rels p)"
  let ?F = "\<lambda>(k, n). case rel_from_u8 k of None \<Rightarrow> [] | Some r \<Rightarrow> map (Pair r) (nb_slice n)"
  have sorted: "bt_sorted (p_rels p)" using assms(1) by (simp add: proj_ok_def maps_sorted_def)
  have edges: "edge_ok k n" if "(k, n) \<in> set ?kvs" for k n
    using that proj_edge_ok[OF assms(1)] bt_get_in[OF sorted] by (force simp: at_row_def)
  have loc: "nth_or None (p_in_place p) i = p_in_place p ! i" using in_place_at[OF assms] .
  have tail: "fold add_edge (case x of None \<Rightarrow> [] | Some b \<Rightarrow> [(In, b)]) E = E" for x E
    by (simp add: add_edge_def split: option.split)
  have "fold add_edge (concat (map ?F ?kvs)) (\<lambda>_. None)
      = (\<lambda>k. case map_of ?kvs k of None \<Rightarrow> None | Some n \<Rightarrow> if nb_slice n = [] then None else Some (nb_slice n))"
    using edges by (intro add_edge_lists at_row_keys[OF sorted]) auto
  then show "fold add_edge (captured_rels p i) (\<lambda>_. None) = lr_rels (norm_row (row_view p i))"
    by (simp add: captured_rels_def tail at_row_get norm_row_def row_view_def fun_eq_iff split: option.split)
  have "filter (\<lambda>(r, b). r = In) (?F kv) = []" if "kv \<in> set ?kvs" for kv
    using edges[of "fst kv" "snd kv"] that by (force simp: edge_ok_def filter_empty_conv split: prod.split)
  then have "filter (\<lambda>(r, b). r = In) (concat (map ?F ?kvs)) = []" by (force simp: filter_empty_conv)
  then show "map snd (filter (\<lambda>(r, b). r = In) (captured_rels p i)) = (case p_in_place p ! i of None \<Rightarrow> [] | Some b \<Rightarrow> [b])"
    by (simp add: captured_rels_def loc split: option.split)
qed

lemma capture_row_ok:
  assumes "proj_ok p" "proj_packed p s = Some i"
  shows "\<exists>row. capture_row p s = Some row \<and> pw_sigil row = s \<and> one_place row \<and> loaded_row row = norm_row (row_view p i)"
proof -
  have i: "i < length (p_sigils p)" using packed_range[OF assms] by simp
  have cols: "cols_ok p" and maps: "maps_sorted p" using assms(1) by (simp_all add: proj_ok_def)
  have len: "length (p_kinds p) = length (p_sigils p)" using cols by (simp add: cols_ok_def Let_def)
  have kind: "nth_opt (p_kinds p) i = Some (p_kinds p ! i)" using i len by (simp add: nth_opt_Some_iff)
  note r = captured_rels_edges[OF assms(1) i]
  obtain row where row: "capture_row p s = Some row" using assms(2) kind by (simp add: capture_row_def)
  have f: "pw_sigil row = s" "pw_rels row = captured_rels p i" "pw_qty row = at_row i (p_qty p)" "pw_rites row = at_row i (p_rites p)"
    "pw_knows row = map fst (at_row i (p_knows p))" "pw_kind row = p_kinds p ! i" "pw_phys row = bt_get (p_phys p) i"
    using row assms(2) kind by (auto simp: capture_row_def at_row_rites)
  have one: "one_place row" and place: "in_place_of row = p_in_place p ! i"
  proof -
    have "length (filter (\<lambda>(r, b). r = In) (captured_rels p i)) = length (map snd (filter (\<lambda>(r, b). r = In) (captured_rels p i)))"
      by simp
    then show "one_place row" unfolding one_place_def f(2) r(2) by (simp split: option.split)
    show "in_place_of row = p_in_place p ! i"
      unfolding in_place_of_def row_in_place_spec f(2) r(2) by (simp split: option.split)
  qed
  have cell: "pw_pose row = p_pose p ! i \<and> pw_vel row = p_vel p ! i \<and> pw_yaw_rate row = p_yaw_rate p ! i \<and> pw_pitch_rate row = p_pitch_rate p ! i
      \<and> pw_roll_rate row = p_roll_rate p ! i \<and> pw_hull row = p_hull p ! i \<and> pw_hull_id row = p_hull_id p ! i
      \<and> pw_afford row = p_afford p ! i \<and> pw_island row = p_island p ! i \<and> pw_sleep row = p_sleep p ! i \<and> pw_lod row = p_lod p ! i
      \<and> pw_support row = p_support p ! i \<and> pw_attach row = p_attach p ! i"
    using row assms(2) kind i cols by (auto simp: capture_row_def cols_ok_def Let_def nth_or_def)
  have know: "(\<lambda>f. f \<in> fst ` set (at_row i (p_knows p))) = (\<lambda>f. bt_has (p_knows p) (i, f))"
  proof
    fix f
    have "f \<in> fst ` set (at_row i (p_knows p)) \<longleftrightarrow> map_of (at_row i (p_knows p)) f \<noteq> None" by (simp add: map_of_eq_None_iff)
    then show "f \<in> fst ` set (at_row i (p_knows p)) \<longleftrightarrow> bt_has (p_knows p) (i, f)" unfolding at_row_get bt_has_def .
  qed
  have "loaded_row row = norm_row (row_view p i)"
    using cell maps r(1) unfolding f(2)[symmetric]
    by (intro locus_row.equality) (simp_all add: loaded_row_def norm_row_def row_view_def f(3-7) at_row_spec know place maps_sorted_def)
  then show ?thesis using row f(1) one by blast
qed

lemma capture_rows_ok:
  assumes "proj_ok p" "\<forall>s \<in> set ss. proj_packed p s \<noteq> None"
  shows "\<exists>rows. capture_rows p ss = Some rows \<and> map pw_sigil rows = ss
    \<and> (\<forall>row \<in> set rows. one_place row \<and> proj_view p (pw_sigil row) \<noteq> None \<and> Some (loaded_row row) = map_option norm_row (proj_view p (pw_sigil row)))"
  using assms(2)
proof (induction ss)
  case (Cons s ss)
  then obtain i rows where i: "proj_packed p s = Some i" and rows: "capture_rows p ss = Some rows" "map pw_sigil rows = ss"
    "\<forall>row \<in> set rows. one_place row \<and> proj_view p (pw_sigil row) \<noteq> None \<and> Some (loaded_row row) = map_option norm_row (proj_view p (pw_sigil row))"
    by auto
  then show ?case using capture_row_ok[OF assms(1) i] by (fastforce simp: proj_view_def)
qed simp

lemma sigils_distinct: "proj_ok p \<Longrightarrow> distinct (p_sigils p)"
proof (rule distinct_conv_nth[THEN iffD2], intro allI impI)
  fix i j assume ok: "proj_ok p" and ij: "i < length (p_sigils p)" "j < length (p_sigils p)" "i \<noteq> j"
  have K: "bt_get (p_by_sigil p) s = Some i \<longleftrightarrow> i < length (p_sigils p) \<and> p_sigils p ! i = s" for s i
    using ok by (simp add: proj_ok_def ids_ok_def nth_opt_Some_iff)
  show "p_sigils p ! i \<noteq> p_sigils p ! j" using K[of "p_sigils p ! j" i] K[of "p_sigils p ! j" j] ij by auto
qed

lemma capture_place_ok:
  assumes "proj_ok p"
  shows "if proj_packed p place = None then capture_place p place ch pre = None
    else \<exists>snap. capture_place p place ch pre = Some snap \<and> distinct (map pw_sigil (ps_rows snap))
      \<and> pw_sigil ` set (ps_rows snap) = insert place {s. resident (proj_view p) place s}
      \<and> (\<forall>row \<in> set (ps_rows snap). one_place row \<and> Some (loaded_row row) = map_option norm_row (proj_view p (pw_sigil row)))"
proof (cases "proj_packed p place")
  case (Some i)
  let ?ss = "place # place_members p place"
  have known: "\<forall>s \<in> set ?ss. proj_packed p s \<noteq> None"
    using Some by (auto simp: members_view[OF assms] resident_def proj_view_def)
  obtain rows where rows: "capture_rows p ?ss = Some rows" "map pw_sigil rows = ?ss"
    "\<forall>row \<in> set rows. one_place row \<and> proj_view p (pw_sigil row) \<noteq> None \<and> Some (loaded_row row) = map_option norm_row (proj_view p (pw_sigil row))"
    using capture_rows_ok[OF assms known] by metis
  have "distinct ?ss" using sigils_distinct[OF assms] by (simp add: place_members_def)
  moreover have "pw_sigil ` set rows = insert place {s. resident (proj_view p) place s}"
    using arg_cong[OF rows(2), of set] members_view[OF assms] by auto
  ultimately show ?thesis using rows Some by (simp add: capture_place_def del: capture_rows.simps)
qed (simp add: capture_place_def)

lemma captured_loads:
  assumes "proj_ok p" "capture_place p place ch pre = Some snap" "length (ps_rows snap) \<le> max_place_rows"
  shows "pw_sigil ` set (ps_rows snap) = insert place {s. resident (proj_view p) place s}" "distinct (map pw_sigil (ps_rows snap))"
    "snap_valid (ps_rows snap)"
    "loaded_view (ps_rows snap) V = (\<lambda>s. if s = place \<or> resident (proj_view p) place s then map_option norm_row (proj_view p s) else V s)"
proof -
  have c: "distinct (map pw_sigil (ps_rows snap))" "pw_sigil ` set (ps_rows snap) = insert place {s. resident (proj_view p) place s}"
    "\<forall>row \<in> set (ps_rows snap). one_place row \<and> Some (loaded_row row) = map_option norm_row (proj_view p (pw_sigil row))"
    using capture_place_ok[OF assms(1), of place ch pre] assms(2) by (auto split: if_splits)
  show "pw_sigil ` set (ps_rows snap) = insert place {s. resident (proj_view p) place s}" "distinct (map pw_sigil (ps_rows snap))"
    "snap_valid (ps_rows snap)"
    using c assms(3) by (simp_all add: snap_valid_def)
  show "loaded_view (ps_rows snap) V = (\<lambda>s. if s = place \<or> resident (proj_view p) place s then map_option norm_row (proj_view p s) else V s)"
  proof
    fix s
    show "loaded_view (ps_rows snap) V s = (if s = place \<or> resident (proj_view p) place s then map_option norm_row (proj_view p s) else V s)"
    proof (cases "s \<in> pw_sigil ` set (ps_rows snap)")
      case True
      then obtain row where row: "row \<in> set (ps_rows snap)" "s = pw_sigil row" by blast
      have "s = place \<or> resident (proj_view p) place s" using True unfolding c(2) by blast
      then show ?thesis using loaded_view_in[OF c(1) row(1)] c(3) row by simp
    next
      case False
      then have "\<not> (s = place \<or> resident (proj_view p) place s)" unfolding c(2) by blast
      then show ?thesis using loaded_view_out[OF False] by simp
    qed
  qed
qed

lemma length_card: "proj_ok p \<Longrightarrow> length (p_sigils p) = card (dom (proj_view p))"
proof -
  assume ok: "proj_ok p"
  have "dom (proj_view p) = set (p_sigils p)" using packed_iff_sigil[OF ok] by (auto simp: proj_view_def)
  then show ?thesis using sigils_distinct[OF ok] by (simp add: distinct_card)
qed

lemma missing_card: "distinct (map pw_sigil rows) \<Longrightarrow> missing p rows = card {s \<in> pw_sigil ` set rows. proj_view p s = None}"
proof -
  assume "distinct (map pw_sigil rows)"
  then have d: "distinct (map pw_sigil (filter (\<lambda>row. proj_packed p (pw_sigil row) = None) rows))" by (rule distinct_map_filter)
  have "pw_sigil ` set (filter (\<lambda>row. proj_packed p (pw_sigil row) = None) rows) = {s \<in> pw_sigil ` set rows. proj_view p s = None}"
    by (auto simp: view_None)
  then show ?thesis using distinct_card[OF d] by (simp add: missing_def)
qed

text \<open>A captured Place loads into any world with room for it; the other rows of that world stay as they are.\<close>

lemma captured_place_loads:
  assumes "proj_ok p" "proj_ok q" "capture_place p place ch pre = Some snap" "length (ps_rows snap) \<le> max_place_rows"
    and "length (p_sigils q) + missing q (ps_rows snap) \<le> p_locus_cap q"
  shows "\<exists>r. apply_place_snap snap q = Inr (length (ps_rows snap), r) \<and> kept r
    \<and> proj_view r = (\<lambda>s. if s = place \<or> resident (proj_view p) place s then map_option norm_row (proj_view p s) else proj_view q s)"
  using captured_loads(3,4)[OF assms(1,3,4)] apply_place_snap_ok[OF assms(2), of snap] assms(5) by auto

text \<open>A Place with one locus in it.\<close>

definition demo_rows :: "place_row list" where
  "demo_rows = [place_row_new 1 Place, (place_row_new 2 Relic)\<lparr>pw_rels := [(In, 1)]\<rparr>]"

definition demo_house :: projection where
  "demo_house = (case apply_place_snap \<lparr>ps_place = 1, ps_canon_hash = hash_zero, ps_prefix = hash_zero, ps_rows = demo_rows\<rparr> (proj_new None) of
     Inl e \<Rightarrow> proj_new None | Inr (n, p) \<Rightarrow> p)"

lemma demo_house_view:
  "kept demo_house" "proj_view demo_house = loaded_view demo_rows (\<lambda>_. None)"
  "resident (proj_view demo_house) 1 s \<longleftrightarrow> s = 2" "proj_packed demo_house 1 \<noteq> None" "leaves (proj_view demo_house) 1 2"
proof -
  have new: "proj_ok (proj_new None)" using proj_new_ok by (simp add: proj_new_def)
  have empty: "proj_view (proj_new None) = (\<lambda>_. None)" "missing (proj_new None) demo_rows \<le> 2" "p_locus_cap (proj_new None) \<ge> 2" "p_sigils (proj_new None) = []"
    by (simp_all add: proj_view_def proj_packed_def proj_new_def proj_with_cap_def fun_eq_iff missing_def demo_rows_def
        max_loci_hearth_def max_loci_process_def)
  have valid: "snap_valid demo_rows" by (simp add: snap_valid_def demo_rows_def max_place_rows_def one_place_def place_row_new_def)
  show k: "kept demo_house" and v: "proj_view demo_house = loaded_view demo_rows (\<lambda>_. None)"
    using apply_place_snap_ok[OF new, of "\<lparr>ps_place = 1, ps_canon_hash = hash_zero, ps_prefix = hash_zero, ps_rows = demo_rows\<rparr>"] valid empty
    by (auto simp: demo_house_def)
  have row: "in_place_of (place_row_new 1 Place) = None" "in_place_of ((place_row_new 2 Relic)\<lparr>pw_rels := [(In, 1)]\<rparr>) = Some 1"
    by (simp_all add: in_place_of_def row_in_place_def place_row_new_def)
  show r: "resident (proj_view demo_house) 1 s \<longleftrightarrow> s = 2" for s
    using row by (auto simp: resident_def v loaded_view_def demo_rows_def loaded_row_def place_row_new_def)
  show "proj_packed demo_house 1 \<noteq> None"
    unfolding view_None[symmetric] by (simp add: v loaded_view_def demo_rows_def place_row_new_def)
  show "leaves (proj_view demo_house) 1 2"
    unfolding leaves_def r by (auto simp: v loaded_view_def demo_rows_def place_row_new_def loaded_row_def row_edges_def add_edge_def)
qed

text \<open>
  C20: a Place that leaves takes with it exactly its members that no host outside carries; the rows that stay
  lose their edges into it and keep everything else, and both invariants of the projection hold after.
\<close>
theorem evict_place_refines:
  assumes "proj_ok p"
  shows "if proj_packed p place = None then evict_place place p = Inl UnknownLocus
    else \<exists>q. evict_place place p = Inr q \<and> kept q \<and> p_locus_cap q = p_locus_cap p
      \<and> proj_view q = without {s. leaves (proj_view p) place s} (proj_view p)"
  using assms by (rule evict_place_ok)

theorem evict_place_refines_witness:
  "\<exists>q. evict_place 1 demo_house = Inr q \<and> proj_view q 2 = None \<and> proj_view demo_house 2 \<noteq> None"
  using evict_place_refines[OF keptD(1)[OF demo_house_view(1)], of 1] demo_house_view(3)[of 2] demo_house_view(4,5)
  by (auto simp: without_def resident_def)

text \<open>
  C21: loading a Place is all or nothing.  A payload that is too large, repeats a locus or puts a locus in
  two Places is refused before any write, and so is one that would pass the world's cap; otherwise every row
  appears exactly as the payload has it, every other row is untouched, and both invariants hold.
\<close>
theorem place_loads_whole:
  assumes "proj_ok p"
  shows "if \<not> snap_valid (ps_rows snap) then apply_place_snap snap p = Inl PlaceSnap
    else if length (p_sigils p) + missing p (ps_rows snap) > p_locus_cap p then apply_place_snap snap p = Inl LocusCap
    else \<exists>q. apply_place_snap snap p = Inr (length (ps_rows snap), q) \<and> kept q
      \<and> proj_view q = loaded_view (ps_rows snap) (proj_view p)"
  using assms by (rule apply_place_snap_ok)

theorem place_loads_whole_witness:
  "apply_place_snap \<lparr>ps_place = 1, ps_canon_hash = hash_zero, ps_prefix = hash_zero, ps_rows = demo_rows @ demo_rows\<rparr> demo_house = Inl PlaceSnap"
  using place_loads_whole[OF keptD(1)[OF demo_house_view(1)],
      of "\<lparr>ps_place = 1, ps_canon_hash = hash_zero, ps_prefix = hash_zero, ps_rows = demo_rows @ demo_rows\<rparr>"]
  by (simp add: snap_valid_def demo_rows_def)

text \<open>
  C27: evicting a Place and loading what was captured of it is the identity on the Place and its members, up
  to edge lists stored empty, when at most \<open>max_place_rows\<close> (100000) rows were captured: the load has room, and what
  stayed behind has lost its edges to what left.  A larger Place, which a world may hold, evicts but its snapshot is
  refused.
\<close>
theorem evict_then_load:
  assumes "proj_ok p" "capture_place p place ch pre = Some snap" and "evict_place place p = Inr q"
  shows "if length (ps_rows snap) \<le> max_place_rows
    then \<exists>r. apply_place_snap snap q = Inr (length (ps_rows snap), r) \<and> kept r
      \<and> proj_view r = (\<lambda>s. if s = place \<or> resident (proj_view p) place s then map_option norm_row (proj_view p s)
          else map_option (scrub {s. leaves (proj_view p) place s}) (proj_view p s))
    else apply_place_snap snap q = Inl PlaceSnap"
proof (cases "length (ps_rows snap) \<le> max_place_rows")
  case fits: True
  let ?V = "proj_view p" and ?L = "{s. leaves (proj_view p) place s}" and ?rows = "ps_rows snap"
  have pk: "proj_packed p place \<noteq> None" using assms(2) by (auto simp: capture_place_def Option.bind_eq_Some_conv)
  have q: "kept q" "p_locus_cap q = p_locus_cap p" "proj_view q = without ?L ?V"
    using evict_place_ok[OF assms(1), of place] assms(3) pk by auto
  note c = captured_loads[OF assms(1,2) fits]
  have L: "?L \<subseteq> dom ?V" "?L \<subseteq> pw_sigil ` set ?rows" "place \<notin> ?L"
    using c(1) by (auto simp: leaves_def resident_def)
  have V: "?V s \<noteq> None" if "s \<in> pw_sigil ` set ?rows" for s
    using that c(1) pk by (auto simp: resident_def proj_view_def)
  have gone: "proj_view q s = None \<longleftrightarrow> s \<in> ?L" if "s \<in> pw_sigil ` set ?rows" for s
  proof -
    from V[OF that] obtain v where "?V s = Some v" by blast
    then show ?thesis by (simp add: q(3) without_def)
  qed
  have "{s \<in> pw_sigil ` set ?rows. proj_view q s = None} = pw_sigil ` set ?rows \<inter> ?L"
    using gone by (simp add: set_eq_iff cong: conj_cong)
  also have "\<dots> = ?L" using L(2) by (rule Int_absorb1)
  finally have "{s \<in> pw_sigil ` set ?rows. proj_view q s = None} = ?L" .
  then have m: "missing q ?rows = card ?L" using missing_card[OF c(2), of q] by simp
  have fin: "finite (dom ?V)" using packed_iff_sigil[OF assms(1)] by (intro finite_subset[OF _ finite_set[of "p_sigils p"]]) (auto simp: proj_view_def)
  have "dom (proj_view q) = dom ?V - ?L" by (auto simp: q(3) without_def split: if_splits)
  then have "length (p_sigils q) = card (dom ?V) - card ?L"
    using length_card[OF keptD(1)[OF q(1)]] card_Diff_subset[OF finite_subset[OF L(1) fin] L(1)] by simp
  moreover have "card ?L \<le> card (dom ?V)" using card_mono[OF fin L(1)] .
  moreover have "card (dom ?V) \<le> p_locus_cap p" using assms(1) length_card[OF assms(1)] by (simp add: proj_ok_def)
  ultimately have "length (p_sigils q) + missing q ?rows \<le> p_locus_cap q" using m q(2) by simp
  then obtain r where r: "apply_place_snap snap q = Inr (length ?rows, r)" "kept r" "proj_view r = loaded_view ?rows (proj_view q)"
    using apply_place_snap_ok[OF keptD(1)[OF q(1)], of snap] c(3) by auto
  have "proj_view r s = (if s = place \<or> resident ?V place s then map_option norm_row (?V s) else map_option (scrub ?L) (?V s))" for s
    by (auto simp: r(3) c(4) q(3) without_def leaves_def)
  then show ?thesis using r(1,2) fits by (simp only: if_True) (intro exI[of _ r], auto)
qed (simp add: apply_place_snap_def)

theorem evict_then_load_witness:
  "\<exists>snap q r. capture_place demo_house 1 hash_zero hash_zero = Some snap \<and> evict_place 1 demo_house = Inr q \<and> proj_view q 2 = None
     \<and> apply_place_snap snap q = Inr (2, r) \<and> proj_view r 2 = map_option norm_row (proj_view demo_house 2) \<and> proj_view demo_house 2 \<noteq> None"
proof -
  have ok: "proj_ok demo_house" using demo_house_view(1) by (simp add: kept_def)
  obtain snap where snap: "capture_place demo_house 1 hash_zero hash_zero = Some snap" "distinct (map pw_sigil (ps_rows snap))"
    "pw_sigil ` set (ps_rows snap) = {1, 2}"
    using capture_place_ok[OF ok, of 1 hash_zero hash_zero] demo_house_view(3,4) by auto
  have len: "length (ps_rows snap) = 2" using distinct_card[OF snap(2)] snap(3) by simp
  obtain q where q: "evict_place 1 demo_house = Inr q" "proj_view q 2 = None"
    using evict_place_ok[OF ok, of 1] demo_house_view(4,5) by (auto simp: without_def)
  obtain r where "apply_place_snap snap q = Inr (2, r)" "proj_view r 2 = map_option norm_row (proj_view demo_house 2)"
    using evict_then_load[OF ok snap(1) q(1)] demo_house_view(3) by (auto simp: len max_place_rows_def)
  moreover have "proj_view demo_house 2 \<noteq> None" using demo_house_view(3)[of 2] by (auto simp: resident_def)
  ultimately show ?thesis using snap(1) q by blast
qed

end
