(* ===== verification/WorldStateProps.thy ===== *)
theory WorldStateProps
  imports WorldState WorldPlaceProps TraceLog
begin

text \<open>
  The invariants of a world under every call of the write handle and every speculation, what resuming a
  checkpoint recovers, and what the rewind ring remembers.
\<close>

section \<open>Epochs\<close>

lemma remap_fold:
  assumes "bt_sorted m"
  shows "bt_sorted (fold (\<lambda>((i, old), v) m. case f old of Some r \<Rightarrow> bt_insert (i, r) v m | None \<Rightarrow> m) es m)"
    "bt_get (fold (\<lambda>((i, old), v) m. case f old of Some r \<Rightarrow> bt_insert (i, r) v m | None \<Rightarrow> m) es m) (j, x) \<noteq> None
     \<Longrightarrow> bt_get m (j, x) \<noteq> None \<or> (\<exists>old v. ((j, old), v) \<in> set es)"
  using assms
proof (induction es arbitrary: m)
  case (Cons e es)
  obtain i old v where e: "e = ((i, old), v)" by (metis prod.exhaust)
  { case 1 then show ?case using Cons.IH(1)[of "case f old of Some r \<Rightarrow> bt_insert (i, r) v m | None \<Rightarrow> m"]
      by (simp add: e split: option.split) }
  { case 2 then show ?case using Cons.IH(2)[of "case f old of Some r \<Rightarrow> bt_insert (i, r) v m | None \<Rightarrow> m"]
      by (auto simp: e bt_get_insert split: option.splits if_splits) }
qed auto

lemma remap_rites_fold:
  assumes "bt_sorted (snd acc)"
  shows "bt_sorted (snd (fold (remap_machine em c p) es acc))"
    "bt_get (snd (fold (remap_machine em c p) es acc)) (j, x) \<noteq> None
     \<Longrightarrow> bt_get (snd acc) (j, x) \<noteq> None \<or> (\<exists>old v. ((j, old), v) \<in> set es)"
  using assms
proof (induction es arbitrary: acc)
  case (Cons e es)
  obtain i old v where e: "e = ((i, old), v)" by (metis prod.exhaust)
  have step: "snd (remap_machine em c p e acc) = (case epoch_rite em old of None \<Rightarrow> snd acc
      | Some r \<Rightarrow> if rite_resumable c r v then bt_insert (i, r) v (snd acc) else snd acc)" for acc
    by (cases acc) (simp add: e remap_machine_def Let_def split: option.split)
  { case 1
    then have "bt_sorted (snd (remap_machine em c p e acc))" by (simp add: step split: option.split)
    then show ?case using Cons.IH(1) by simp }
  { case 2
    have s: "bt_sorted (snd (remap_machine em c p e acc))" using 2(2) by (simp add: step split: option.split)
    have "bt_get (snd (remap_machine em c p e acc)) (j, x) \<noteq> None \<or> (\<exists>old v. ((j, old), v) \<in> set es)"
      using Cons.IH(2)[OF _ s] 2(1) by simp
    then show ?case unfolding step by (auto simp: e bt_get_insert split: option.splits if_splits) }
qed auto

lemma remap_epoch_kept:
  assumes "proj_ok p" "remap_epoch em c p = (q, evicted)"
  shows "kept q" "p_sigils q = p_sigils p" "p_locus_cap q = p_locus_cap p"
proof -
  define qty where "qty = fold (\<lambda>((i, old), v) m. case epoch_resource em old of Some r \<Rightarrow> bt_insert (i, r) v m | None \<Rightarrow> m) (p_qty p) []"
  define acc where "acc = fold (remap_machine em c p) (p_rites p) ([], [])"
  define knows where "knows = fold (\<lambda>((i, old), u) m. case epoch_fact em old of Some f \<Rightarrow> bt_insert (i, f) () m | None \<Rightarrow> m) (p_knows p) []"
  define r where "r = p\<lparr>p_afford := map (remap_bits em) (p_afford p), p_qty := qty, p_rites := snd acc, p_knows := knows,
    p_opaque := canon_affordance_id c ''Opaque''\<rparr>"
  have q: "q = rebuild_space_ix r"
    using assms(2) by (simp add: remap_epoch_def r_def qty_def acc_def knows_def Let_def split: prod.splits)
  have maps: "maps_sorted p" and cols: "cols_ok p" using assms(1) by (simp_all add: proj_ok_def)
  have know: "knows = fold (\<lambda>((i, old), v) m. case epoch_fact em old of Some r \<Rightarrow> bt_insert (i, r) v m | None \<Rightarrow> m) (p_knows p) []"
    unfolding knows_def by (intro fold_cong refl) (auto split: option.split)
  have bare: "row_bare r i" if i: "length (p_sigils p) \<le> i" for i
  proof -
    have none: "bt_get (p_qty p) (i, x) = None" "bt_get (p_rites p) (i, x) = None" "bt_get (p_knows p) (i, x) = None"
      "bt_get (p_rels p) (i, x) = None" "bt_get (p_phys p) i = None" for x
      using assms(1) i by (auto simp: proj_ok_def row_bare_def)
    have in_none: "((i, old), v) \<notin> set m" if "\<And>x. bt_get m (i, x) = None" for m :: "(packed_ix \<times> nat, 'v) btree" and old v
      using that[of old] by (force simp: bt_get_None_iff)
    have "bt_get qty (i, x) = None" for x
      using remap_fold(2)[OF bt_sorted_Nil, of "epoch_resource em" "p_qty p" i x] in_none[OF none(1)]
      unfolding qty_def[symmetric] by (cases "bt_get qty (i, x)") auto
    moreover have "bt_get (snd acc) (i, x) = None" for x
      using remap_rites_fold(2)[of "([], [])" em c p "p_rites p" i x] in_none[OF none(2)]
      unfolding acc_def[symmetric] by (cases "bt_get (snd acc) (i, x)") auto
    moreover have "bt_get knows (i, x) = None" for x
      using remap_fold(2)[OF bt_sorted_Nil, of "epoch_fact em" "p_knows p" i x] in_none[OF none(3)]
      unfolding know[symmetric] by (cases "bt_get knows (i, x)") auto
    ultimately show ?thesis using none(4,5) by (simp add: row_bare_def r_def)
  qed
  have "maps_sorted r"
    using maps remap_fold(1)[of "[]" "epoch_resource em" "p_qty p"] remap_rites_fold(1)[of "([], [])" em c p "p_rites p"]
      remap_fold(1)[of "[]" "epoch_fact em" "p_knows p"]
    by (simp add: maps_sorted_def r_def qty_def acc_def know)
  moreover have "cols_ok r" using cols by (simp add: cols_ok_def r_def)
  moreover have "ids_ok r" using assms(1) by (simp add: proj_ok_def ids_ok_def r_def)
  moreover have "\<forall>i k n. bt_get (p_rels r) (i, k) = Some n \<longrightarrow> edge_ok k n"
    using proj_edge_ok[OF assms(1)] by (simp add: r_def)
  ultimately have "proj_ok r" using bare assms(1) by (simp add: proj_ok_def) (simp add: r_def)
  then show "kept q" using rebuild_space by (simp add: q kept_def)
  show "p_sigils q = p_sigils p" "p_locus_cap q = p_locus_cap p" by (simp_all add: q rebuild_space_ix_def r_def)
qed

section \<open>Reachable speculations and worlds\<close>

inductive spec_step :: "spec_delta \<Rightarrow> spec_delta \<Rightarrow> bool" where
  Sp_push: "spec_step sd (spec_push e sd)"
| Sp_pose: "spec_step sd (snd (spec_set_pose s q sd))"
| Sp_vel: "spec_step sd (snd (spec_set_vel s v y sd))"
| Sp_rates: "spec_step sd (snd (spec_set_rates s y p r sd))"
| Sp_support: "spec_step sd (snd (spec_set_support s u sd))"
| Sp_attach: "spec_step sd (snd (spec_set_attach_local s l sd))"
| Sp_island: "spec_step sd (snd (spec_set_island s i t sd))"
| Sp_qty: "spec_step sd (snd (spec_set_qty s k w sd))"
| Sp_afford: "spec_step sd (snd (spec_set_affordance s a on sd))"
| Sp_phys: "spec_step sd (snd (spec_set_phys_req s x sd))"
| Sp_clear: "spec_step sd (snd (spec_clear_phys_req s sd))"
| Sp_hull: "spec_step sd (snd (spec_set_hull s h b sd))"
| Sp_add: "spec_step sd (snd (spec_add_rel a rel b' sd))"
| Sp_del: "spec_step sd (snd (spec_del_rel a rel b' sd))"
| Sp_constraint: "spec_step sd (spec_set_constraint c st sd)"
| Sp_rite: "spec_step sd (spec_put_rite a r' m sd)"
| Sp_load: "spec_step sd (snd (spec_apply_place snap sd))"
| Sp_evict: "spec_step sd (snd (spec_evict_place place sd))"

inductive world_reach :: "(byte list \<Rightarrow> digest) \<Rightarrow> world \<Rightarrow> bool" for H where
  W_new: "world_reach H (world_with_cap H c ch cap)"
| W_resume: "world_reach H w \<Longrightarrow> log_reachable H l \<Longrightarrow> resume c ch (snapshot_of w) l = Inr v \<Longrightarrow> world_reach H v"
| W_snapshot: "world_reach H w \<Longrightarrow> world_reach H (snd (take_snapshot w))"
| W_epoch: "world_reach H w \<Longrightarrow> world_reach H (snd (apply_canon_epoch c ch ep em w))"
| W_insert: "world_reach H w \<Longrightarrow> world_reach H (snd (world_insert_locus s k w))"
| W_afford: "world_reach H w \<Longrightarrow> world_reach H (snd (world_write (set_affordance s a on) w))"
| W_hull: "world_reach H w \<Longrightarrow> world_reach H (snd (world_write (set_hull s h b) w))"
| W_pose: "world_reach H w \<Longrightarrow> world_reach H (snd (world_write (set_pose s q) w))"
| W_vel: "world_reach H w \<Longrightarrow> world_reach H (snd (world_write (set_vel s u y) w))"
| W_rates: "world_reach H w \<Longrightarrow> world_reach H (snd (world_write (set_rates s y p r) w))"
| W_support: "world_reach H w \<Longrightarrow> world_reach H (snd (world_write (set_support s su) w))"
| W_attach: "world_reach H w \<Longrightarrow> world_reach H (snd (world_write (set_attach_local s loc) w))"
| W_island: "world_reach H w \<Longrightarrow> world_reach H (snd (world_write (set_island s i t) w))"
| W_lod: "world_reach H w \<Longrightarrow> world_reach H (snd (world_write (set_sim_lod s d) w))"
| W_qty: "world_reach H w \<Longrightarrow> world_reach H (snd (world_write (set_qty s res n) w))"
| W_phys: "world_reach H w \<Longrightarrow> world_reach H (snd (world_write (set_phys_req s x) w))"
| W_clear: "world_reach H w \<Longrightarrow> world_reach H (snd (world_write (clear_phys_req s) w))"
| W_constraint: "world_reach H w \<Longrightarrow> world_reach H (w\<lparr>wd_view := set_constraint_state cid st (wd_view w)\<rparr>)"
| W_add: "world_reach H w \<Longrightarrow> world_reach H (snd (world_write (add_rel s rel s') w))"
| W_del: "world_reach H w \<Longrightarrow> world_reach H (snd (world_write (del_rel s rel s') w))"
| W_append: "world_reach H w \<Longrightarrow> world_reach H (world_append H e w)"
| W_rebuild: "world_reach H w \<Longrightarrow> world_reach H (w\<lparr>wd_view := rebuild_space_ix (wd_view w)\<rparr>)"
| W_load: "world_reach H w \<Longrightarrow> world_reach H (snd (world_place_snap snap w))"
| W_evict: "world_reach H w \<Longrightarrow> world_reach H (snd (world_evict_place s w))"
| W_remove: "world_reach H w \<Longrightarrow> world_reach H (snd (world_remove_locus s w))"
| W_intent: "world_reach H w \<Longrightarrow> world_reach H (push_intent pin w)"
| W_clear_intents: "world_reach H w \<Longrightarrow> world_reach H (clear_intents w)"
| W_tick: "world_reach H w \<Longrightarrow> world_reach H (set_tick t w)"
| W_commit: "world_reach H w \<Longrightarrow> spec_step\<^sup>*\<^sup>* (begin_spec w) sd \<Longrightarrow> world_reach H (commit_spec H sd w)"

lemma mark_written_proj [simp]: "sd_proj (mark_written ss sd) = sd_proj sd"
  by (simp add: mark_written_def)

lemma spec_push_kept: "kept (sd_proj sd) \<Longrightarrow> kept (sd_proj (spec_push e sd))"
  by (simp add: spec_push_def Let_def apply_event_kept)

lemma spec_write_kept:
  "kept (sd_proj sd) \<Longrightarrow> (\<And>q. f (sd_proj sd) = Inr q \<Longrightarrow> kept q) \<Longrightarrow> kept (sd_proj (snd (spec_write ss f sd)))"
  by (simp add: spec_write_def Let_def split: sum.split)

lemma place_snap_kept: "kept p \<Longrightarrow> apply_place_snap snap p = Inr (n, q) \<Longrightarrow> kept q"
  using apply_place_snap_ok[OF keptD(1), of p snap] by (auto split: if_splits)

lemma evict_place_kept: "kept p \<Longrightarrow> evict_place place p = Inr q \<Longrightarrow> kept q"
  using evict_place_ok[OF keptD(1), of p place] by (auto split: if_splits)

lemma drop_then_rebuild: "kept p \<Longrightarrow> drop_loci gone p = Inr q \<Longrightarrow> kept (rebuild_space_ix q)"
  using drop_loci_ok[OF keptD(1), of p gone] rebuild_space[of q] by (auto simp: kept_def split: if_splits)

lemma spec_step_kept: "spec_step sd sd' \<Longrightarrow> kept (sd_proj sd) \<Longrightarrow> kept (sd_proj sd')"
proof (induction rule: spec_step.induct)
  case (Sp_load sd snap)
  then show ?case
    using place_snap_kept by (auto simp: spec_apply_place_def intro!: spec_push_kept split: sum.split)
next
  case (Sp_evict sd place)
  have "kept (sd_proj (fold (\<lambda>(a, r). spec_push (e a r)) rs sd))" if "kept (sd_proj sd)" for rs e sd
    using that by (induction rs arbitrary: sd) (auto simp: spec_push_kept)
  note k = this[OF Sp_evict]
  show ?case
    using Sp_evict k
    by (auto simp: spec_evict_place_def Let_def intro!: spec_push_kept drop_then_rebuild[OF k] split: sum.split)
next
  case (Sp_rite sd a r m)
  then show ?case by (simp add: spec_put_rite_def Let_def rite_writes_kept)
next
  case (Sp_constraint sd c st)
  then show ?case by (simp add: spec_set_constraint_def constraint_writes_kept)
qed (auto simp: spec_push_kept spec_set_pose_def spec_set_vel_def spec_set_rates_def spec_set_support_def spec_set_attach_local_def
    spec_set_island_def spec_set_qty_def spec_set_affordance_def spec_set_phys_req_def spec_clear_phys_req_def spec_set_hull_def
    spec_add_rel_def spec_del_rel_def intro!: spec_write_kept
    dest: quiet_writes_kept[rotated] indexed_writes_kept[rotated] add_rel_kept[rotated] del_rel_kept[rotated])

lemma specs_kept: "spec_step\<^sup>*\<^sup>* sd sd' \<Longrightarrow> kept (sd_proj sd) \<Longrightarrow> kept (sd_proj sd')"
  by (induction rule: rtranclp_induct) (auto intro: spec_step_kept)

lemma world_write_kept:
  "kept (wd_view w) \<Longrightarrow> (\<And>q. f (wd_view w) = Inr q \<Longrightarrow> kept q) \<Longrightarrow> kept (wd_view (snd (world_write f w)))"
  by (simp add: world_write_def split: sum.split)

lemma world_write_trace [simp]: "wd_trace (snd (world_write f w)) = wd_trace w"
  by (simp add: world_write_def split: sum.split)

lemma commit_log: "log_ok H l \<Longrightarrow> log_ok H (fold (log_append H) es l)"
  by (induction es arbitrary: l) (simp_all add: log_ok_def log_append_def)

lemma world_reach_ok:
  "world_reach H w \<Longrightarrow> kept (wd_view w) \<and> log_reachable H (wd_trace w)"
proof (induction rule: world_reach.induct)
  case (W_new c ch cap)
  then show ?case using proj_new_ok Rnew by (simp add: world_with_cap_def kept_def)
next
  case (W_resume w l c ch v)
  then show ?case by (auto simp: resume_def snapshot_of_def split: if_splits)
next
  case (W_snapshot w)
  then show ?case by (simp add: take_snapshot_def Let_def)
next
  case (W_epoch w c ch ep em)
  obtain q evicted where r: "remap_epoch em c (wd_view w) = (q, evicted)" by fastforce
  then have "kept q" using W_epoch remap_epoch_kept(1)[OF keptD(1) r] by blast
  then show ?case using W_epoch r by (simp add: apply_canon_epoch_def replace_canon_def)
next
  case (W_insert w s k)
  then show ?case using insert_locus_kept by (auto simp: world_insert_locus_def rbind_Inr_iff intro!: world_write_kept)
next
  case (W_constraint w cid st)
  then show ?case by (simp add: constraint_writes_kept)
next
  case (W_append w e)
  then show ?case using apply_event_kept Rappend by (simp add: world_append_def Let_def)
next
  case (W_rebuild w)
  then show ?case using rebuild_space by (simp add: kept_def)
next
  case (W_load w snap)
  then show ?case using place_snap_kept by (auto simp: world_place_snap_def rbind_Inr_iff intro!: world_write_kept)
next
  case (W_evict w s)
  then show ?case using evict_place_kept by (auto simp: world_evict_place_def intro!: world_write_kept)
next
  case (W_remove w s)
  then show ?case using drop_then_rebuild by (auto simp: world_remove_locus_def remove_locus_def rbind_Inr_iff intro!: world_write_kept)
next
  case (W_intent w pin)
  then show ?case by (simp add: push_intent_def)
next
  case (W_clear_intents w)
  then show ?case by (simp add: clear_intents_def)
next
  case (W_tick w t)
  then show ?case by (simp add: set_tick_def)
next
  case (W_commit w sd)
  have "log_reachable H (fold (log_append H) es l)" if "log_reachable H l" for es l
    using that by (induction es arbitrary: l) (auto intro: Rappend)
  then show ?case using W_commit specs_kept[of "begin_spec w" sd] by (simp add: commit_spec_def begin_spec_def)
qed (auto intro!: world_write_kept
    dest: quiet_writes_kept[rotated] indexed_writes_kept[rotated] add_rel_kept[rotated] del_rel_kept[rotated])

lemma world_index_exact:
  assumes "world_reach H w"
  shows "proj_ok (wd_view w) \<and> log_ok H (wd_trace w)
    \<and> pix_candidates (p_space (wd_view w)) swept only = pix_candidates (p_space (rebuild_space_ix (wd_view w))) swept only"
proof -
  have k: "kept (wd_view w)" "log_reachable H (wd_trace w)" using world_reach_ok[OF assms] by simp_all
  note r = rebuild_space(1)[OF keptD(1)[OF k(1)], unfolded space_ok_def]
  have "space_entry (rebuild_space_ix (wd_view w)) = space_entry (wd_view w)" by (simp add: rebuild_space_ix_def)
  then show ?thesis
    using k candidates_determined[of "p_space (wd_view w)" "space_entry (wd_view w)"] r log_reachable_ok
    by (simp add: kept_def space_ok_def)
qed

text \<open>
  C19: the spatial index is never stale.  In every world the write handle can produce (writes, events,
  speculations that commit, Places loaded and evicted, loci removed, new Canons, resumed checkpoints) the columns,
  maps and identities agree, and the incrementally maintained index answers every query exactly as the index
  rebuilt from the rows; the trace's prefix is the fold over its events.
\<close>
theorem space_index_never_stale:
  assumes "world_reach H w"
  shows "proj_ok (wd_view w) \<and> log_ok H (wd_trace w)
    \<and> pix_candidates (p_space (wd_view w)) swept only = pix_candidates (p_space (rebuild_space_ix (wd_view w))) swept only"
  using assms by (rule world_index_exact)

definition demo_world :: world where
  "demo_world = snd (world_write (set_pose 5 (pose_new 0 0 0 0)) (snd (world_write (set_hull 5 door_box hash_zero)
     (snd (world_insert_locus 5 Relic (world_with_cap length_hash canon_default hash_zero 100))))))"

lemma demo_world_reach: "world_reach length_hash demo_world"
  unfolding demo_world_def by (intro W_pose W_hull W_insert W_new)

theorem space_index_never_stale_witness:
  "pix_candidates (p_space (wd_view demo_world)) beam_box False = pix_candidates (p_space (rebuild_space_ix (wd_view demo_world))) beam_box False"
  using space_index_never_stale[OF demo_world_reach] by blast

section \<open>Resuming\<close>

text \<open>
  C29: a checkpoint resumes to exactly the world it was taken from, with no pending intents, and only to that one:
  with 32-byte digests and no collision among what the two logs hash, any Canon hash and trace it accepts are the
  world's own.  (The ticks are those of a trace that never ran ahead of its world.)
\<close>
theorem resume_exact:
  assumes "world_reach H w" "\<forall>e \<in> set (tl_events (wd_trace w)). ev_tick e \<le> wd_tick w"
    and "\<And>x. length (H x) = 32" "log_reachable H l" "list_all event_ok (tl_events l)" "list_all event_ok (tl_events (wd_trace w))"
    and "inj_on H (hashed H (tl_events l) \<union> hashed H (tl_events (wd_trace w)))"
  shows "resume c ch (fst (take_snapshot w)) l
    = (if ch \<noteq> wd_canon_hash w then Inl ResumeCanonMismatch
       else if l \<noteq> wd_trace w then Inl ResumeTraceMismatch
       else Inr (w\<lparr>wd_canon := c, wd_intents := [], wd_snaps := [None, None], wd_snap_i := 0\<rparr>))"
proof -
  have r: "log_reachable H (wd_trace w)" using world_reach_ok[OF assms(1)] by simp
  have "tl_prefix l = tl_prefix (wd_trace w) \<longleftrightarrow> l = wd_trace w"
  proof
    assume p: "tl_prefix l = tl_prefix (wd_trace w)"
    then have "tl_events l = tl_events (wd_trace w)"
      using assms(5,6) event_decodes log_reachable_ok[OF assms(4)] log_reachable_ok[OF r]
      by (intro prefix_commits[OF assms(3) assms(7)]) (auto simp: list_all_iff log_ok_def)
    with p show "l = wd_trace w" by simp
  qed simp
  then show ?thesis using assms(2) by (auto simp: resume_def take_snapshot_def snapshot_of_def Let_def)
qed

section \<open>Rewinding\<close>

lemma ring_pushes: "rr_cap r = cap \<Longrightarrow> length (rr_snaps r) \<le> cap \<Longrightarrow>
  fold ring_push ss r = \<lparr>rr_cap = cap, rr_snaps = drop (length (rr_snaps r @ ss) - cap) (rr_snaps r @ ss)\<rparr>"
proof (induction ss arbitrary: r)
  case (Cons s ss)
  have len: "length (rr_snaps (ring_push s r)) \<le> cap" "rr_cap (ring_push s r) = cap"
    using Cons.prems by (auto simp: ring_push_def ring_trim_def)
  show ?case
  proof (cases "cap = 0")
    case False
    show ?thesis
    proof (cases "length (rr_snaps r) < cap")
      case True
      then have "rr_snaps (ring_push s r) = rr_snaps r @ [s]"
        using Cons.prems False by (simp add: ring_push_def ring_trim_def)
      then show ?thesis using Cons.IH[OF len(2,1)] by simp
    next
      case full: False
      then obtain t ts where ts: "rr_snaps r = t # ts" "length ts = cap - 1" "0 < cap"
        using Cons.prems False by (cases "rr_snaps r") auto
      then have "rr_snaps (ring_push s r) = ts @ [s]"
        using Cons.prems by (simp add: ring_push_def ring_trim_def)
      then show ?thesis using Cons.IH[OF len(2,1)] ts by (simp add: Suc_diff_le)
    qed
  qed (use Cons.IH[OF len(2,1)] Cons.prems in \<open>simp add: ring_push_def\<close>)
qed (cases r, simp)

lemma strict_ticks_bound:
  "sorted_wrt (<) xs \<Longrightarrow> \<forall>x \<in> set xs. x < (now :: nat) \<Longrightarrow> i < length xs \<Longrightarrow> xs ! i + (length xs - i) \<le> now"
proof (induction xs arbitrary: i)
  case (Cons x xs)
  show ?case
  proof (cases i)
    case 0
    show ?thesis using Cons.prems Cons.IH[of 0] by (cases xs) (auto simp: 0)
  next
    case (Suc j)
    then show ?thesis using Cons.prems Cons.IH[of j] by simp
  qed
qed simp

lemma find_newest:
  "sorted_wrt (<) (map sn_tick xs) \<Longrightarrow> s \<in> set xs \<Longrightarrow> Q s \<Longrightarrow> find (\<lambda>x. sn_tick x \<le> sn_tick s \<and> Q x) (rev xs) = Some s"
proof (induction xs rule: rev_induct)
  case (snoc y xs)
  then show ?case by (cases "s = y") (auto simp: sorted_wrt_append)
qed simp

lemma find_Some_in: "find P xs = Some x \<Longrightarrow> x \<in> set xs \<and> P x"
  by (induction xs) (auto split: if_splits)

lemma find_append_none: "find P ys = None \<Longrightarrow> find P (xs @ ys) = find P xs"
  by (induction xs) auto


text \<open>
  C32: within its window the rewind ring answers as if every snapshot ever published had been kept: after
  pushing any history of increasing ticks, all before now (a tick looks up before it pushes its own snapshot), the snapshot found for a tick is the newest of the whole history at or before
  it and within \<open>cap\<close> ticks of now, exactly the one of that tick when there was one; a tick outside the
  window finds nothing.  It never holds more than \<open>cap\<close>.
\<close>
theorem rewind_as_full_history:
  assumes "sorted_wrt (<) (map sn_tick ss)" "\<forall>s \<in> set ss. sn_tick s < now" "0 < cap"
  defines "r \<equiv> fold ring_push ss (ring_new cap)"
  shows "length (rr_snaps r) \<le> cap
    \<and> ring_lookup r now t = (if t < now - cap \<or> t > now then None
        else find (\<lambda>s. sn_tick s \<le> t \<and> sn_tick s \<ge> now - cap) (rev ss))
    \<and> (s \<in> set ss \<and> now - cap \<le> sn_tick s \<longrightarrow> ring_lookup r now (sn_tick s) = Some s)"
proof -
  define k where "k = length ss - cap"
  have r: "r = \<lparr>rr_cap = cap, rr_snaps = drop k ss\<rparr>"
    using ring_pushes[of "ring_new cap" cap ss] by (simp add: r_def k_def ring_new_def)
  let ?Q = "\<lambda>s. sn_tick s \<ge> now - cap"
  have old: "\<not> ?Q x" if x: "x \<in> set (take k ss)" for x
  proof -
    obtain i where i: "i < length ss" "i < k" "x = ss ! i" using x by (auto simp: in_set_conv_nth)
    have "map sn_tick ss ! i + (length ss - i) \<le> now"
      using strict_ticks_bound[OF assms(1), of now i] assms(2) i(1) by simp
    then show ?thesis using i by (simp add: k_def)
  qed
  have tail: "find (\<lambda>s. sn_tick s \<le> t \<and> ?Q s) (rev ss) = find (\<lambda>s. sn_tick s \<le> t \<and> ?Q s) (rev (drop k ss))" for t
  proof -
    have "rev ss = rev (drop k ss) @ rev (take k ss)" by (simp flip: rev_append)
    moreover have "find (\<lambda>s. sn_tick s \<le> t \<and> ?Q s) (rev (take k ss)) = None" using old by (auto simp: find_None_iff)
    ultimately show ?thesis using find_append_none by metis
  qed
  have sd: "sorted_wrt (<) (map sn_tick (drop k ss))" using assms(1) by (simp add: sorted_wrt_drop flip: drop_map)
  have look: "ring_lookup r now t = find (\<lambda>s. sn_tick s \<le> t \<and> ?Q s) (rev ss)" if "\<not> (t < now - cap \<or> t > now)" for t
  proof (cases "ring_get r t")
    case None
    have "find (\<lambda>s. sn_tick s \<le> t \<and> ?Q s \<and> sn_tick s \<le> now) xs = find (\<lambda>s. sn_tick s \<le> t \<and> ?Q s) xs" for xs
      using that by (intro find_cong) auto
    then show ?thesis using None that assms(3) unfolding tail by (simp add: ring_lookup_def r Let_def)
  next
    case (Some x)
    then have x: "x \<in> set (drop k ss)" "sn_tick x = t" using find_Some_in[of _ "drop k ss" x] by (auto simp: ring_get_def r)
    then have "find (\<lambda>s. sn_tick s \<le> t \<and> ?Q s) (rev (drop k ss)) = Some x" using find_newest[OF sd x(1), of ?Q] that by simp
    then show ?thesis using Some that assms(3) unfolding tail by (simp add: ring_lookup_def r Let_def)
  qed
  have "ring_lookup r now (sn_tick s) = Some s" if "s \<in> set ss" "?Q s"
    using look[of "sn_tick s"] find_newest[OF assms(1) that(1), of ?Q] that assms(2) by auto
  moreover have "ring_lookup r now t = None" if "t < now - cap \<or> t > now" using that assms(3) by (auto simp: ring_lookup_def r Let_def)
  moreover have "length (rr_snaps r) \<le> cap" by (simp add: r k_def)
  ultimately show ?thesis using look by (simp split: if_split)
qed

definition snap_at :: "tick \<Rightarrow> world_snapshot" where
  "snap_at t = snapshot_of (set_tick t (world_with_cap length_hash canon_default hash_zero 100))"

theorem rewind_as_full_history_witness:
  "ring_lookup (fold ring_push (map snap_at [3, 5, 6, 8]) (ring_new 3)) 9 7 = Some (snap_at 6)"
proof -
  have t: "sn_tick (snap_at t) = t" for t by (simp add: snap_at_def snapshot_of_def set_tick_def)
  have "sorted_wrt (<) (map sn_tick (map snap_at [3, 5, 6, 8]))" "\<forall>s \<in> set (map snap_at [3, 5, 6, 8]). sn_tick s < 9"
    by (simp_all add: t)
  then show ?thesis using rewind_as_full_history[of "map snap_at [3, 5, 6, 8]" 9 3 7] by (simp add: t)
qed

theorem resume_exact_witness:
  "resume canon_default hash_zero (fst (take_snapshot demo_world)) (wd_trace demo_world)
    = Inr (demo_world\<lparr>wd_canon := canon_default, wd_intents := [], wd_snaps := [None, None], wd_snap_i := 0\<rparr>)"
proof -
  have l: "wd_trace demo_world = log_new length_hash" "wd_canon_hash demo_world = hash_zero"
    by (simp_all add: demo_world_def world_insert_locus_def world_with_cap_def) (simp_all add: world_write_def split: sum.split)
  have "length (length_hash x) = 32" for x by (simp add: length_hash_def)
  then show ?thesis
    using resume_exact[OF demo_world_reach, of "log_new length_hash" canon_default hash_zero] Rnew[of length_hash]
    by (simp add: l log_new_def hashed_def)
qed

end
