(* ===== verification/WorldViewProps.thy ===== *)
theory WorldViewProps
  imports WorldView WorldStateProps CanonStore
begin

text \<open>
  The view of a kept projection meets the store contract the predicate interpreter needs, and its hitscan
  finds the nearest hit among all loci, the spatial index notwithstanding.
\<close>

section \<open>The store contract\<close>

lemma edges_distinct: "proj_ok p \<Longrightarrow> distinct (related_slice p s r)"
  using proj_edge_ok[of p]
  by (auto simp: related_slice_def edge_ok_def nb_ok_def split: option.splits)

interpretation wv: pred_store_base view_store proj_ok
  by unfold_locales (simp_all add: view_store_def proj_has_rel_def edges_distinct)

section \<open>Candidates\<close>

lemma pix_candidates_complete:
  assumes "kept p" "world_hull p i = Some b" "aabb_intersects b swept" "i < length (p_sigils p)"
  shows "p_sigils p ! i \<in> set (space_candidates p swept False)"
proof -
  have r: "pix_rel (p_space p) (space_entry p)" using assms(1) by (simp add: kept_def space_ok_def)
  have "\<not> aabb_is_empty b" using assms(3) by (auto simp: aabb_intersects_def)
  then have e: "space_entry p i = Some (b, opaque_closed_ix p i, place_for p i)" using assms(2) by (simp add: space_entry_def)
  have "answers (space_entry p) swept False i"
    using e near_own_place[OF r e assms(3)] intersects_cells_meet[OF assms(3)] assms(3)
    by (auto simp: answers_def aabb_intersects_def)
  then have "bt_get (pix_candidates (p_space p) swept False) i \<noteq> None" using pix_candidates_iff[OF r] by blast
  then obtain u where "(i, u) \<in> set (pix_candidates (p_space p) swept False)" by (auto dest: bt_get_Some_in)
  moreover have "proj_sigil p i = Some (p_sigils p ! i)" using assms(4) by (simp add: proj_sigil_def nth_opt_Some_iff)
  ultimately show ?thesis by (force simp: space_candidates_def map_filter_def)
qed

lemma candidate_known: "s \<in> set (space_candidates p swept only) \<Longrightarrow> s \<in> set (p_sigils p)"
  by (auto simp: space_candidates_def map_filter_def proj_sigil_def nth_opt_def split: if_splits)

section \<open>Hitscan\<close>

definition ray_hit :: "projection \<Rightarrow> ivec3 \<Rightarrow> ivec3 \<Rightarrow> sigil \<Rightarrow> nat \<Rightarrow> sigil \<Rightarrow> (int \<times> int) option" where
  "ray_hit p origin dir skip hittable s =
     (if s = skip \<or> \<not> proj_has_affordance p s hittable then None
      else Option.bind (posed_hull p s) (\<lambda>b. segment_hit b origin dir))"

lemma hit_step_alt:
  "hit_step p origin dir skip h s best =
     (case ray_hit p origin dir skip h s of None \<Rightarrow> best
      | Some t \<Rightarrow> (case best of None \<Rightarrow> Some (t, s)
          | Some (bt, b) \<Rightarrow> if frac_cmp (fst t) (snd t) (fst bt) (snd bt) = Less then Some (t, s) else best))"
  by (auto simp: hit_step_def ray_hit_def split: option.split)

lemma ray_hit_pos: "ray_hit p origin dir skip h s = Some t \<Longrightarrow> 0 < snd t"
  using segment_hit_Some[of _ origin dir "fst t" "snd t"] by (auto simp: ray_hit_def Option.bind_eq_Some_conv split: if_splits)

definition at_ratio :: "int \<times> int \<Rightarrow> rat" where
  "at_ratio t = ratio (fst t) (snd t)"

definition nearest_of :: "(sigil \<Rightarrow> (int \<times> int) option) \<Rightarrow> sigil set \<Rightarrow> ((int \<times> int) \<times> sigil) option \<Rightarrow> bool" where
  "nearest_of hit S res \<longleftrightarrow> (case res of
      None \<Rightarrow> (\<forall>s \<in> S. hit s = None)
    | Some e \<Rightarrow> snd e \<in> S \<and> hit (snd e) = Some (fst e) \<and> (\<forall>s \<in> S. hit s \<noteq> None \<longrightarrow> at_ratio (fst e) \<le> at_ratio (the (hit s))))"

lemma nearest_step:
  assumes "nearest_of (ray_hit p origin dir skip h) S best"
  shows "nearest_of (ray_hit p origin dir skip h) (insert x S) (hit_step p origin dir skip h x best)"
proof (cases "ray_hit p origin dir skip h x")
  case None
  then have "hit_step p origin dir skip h x best = best" by (simp add: hit_step_alt)
  then show ?thesis using assms None by (auto simp: nearest_of_def split: option.splits)
next
  case (Some t)
  show ?thesis
  proof (cases best)
    case None
    then show ?thesis using assms Some by (simp add: nearest_of_def hit_step_alt)
  next
    case (Some e)
    then have e: "ray_hit p origin dir skip h (snd e) = Some (fst e)" "snd e \<in> S"
      "\<forall>s \<in> S. ray_hit p origin dir skip h s \<noteq> None \<longrightarrow> at_ratio (fst e) \<le> at_ratio (the (ray_hit p origin dir skip h s))"
      using assms by (simp_all add: nearest_of_def)
    have "frac_cmp (fst t) (snd t) (fst (fst e)) (snd (fst e)) = Less \<longleftrightarrow> at_ratio t < at_ratio (fst e)"
      using frac_cmp_Less[OF ray_hit_pos[OF \<open>ray_hit p origin dir skip h x = Some t\<close>] ray_hit_pos[OF e(1)]] by (simp add: at_ratio_def)
    then have step: "hit_step p origin dir skip h x best = (if at_ratio t < at_ratio (fst e) then Some (t, x) else Some e)"
      using Some \<open>ray_hit p origin dir skip h x = Some t\<close> by (cases e) (simp add: hit_step_alt)
    show ?thesis
    proof (cases "at_ratio t < at_ratio (fst e)")
      case True
      then have "at_ratio t \<le> at_ratio (the (ray_hit p origin dir skip h s))" if "s \<in> S" "ray_hit p origin dir skip h s \<noteq> None" for s
        using e(3) that by (meson le_less_trans less_imp_le order_less_le_trans)
      then show ?thesis using True \<open>ray_hit p origin dir skip h x = Some t\<close> by (simp add: nearest_of_def step)
    next
      case False
      then show ?thesis using e \<open>ray_hit p origin dir skip h x = Some t\<close> by (simp add: nearest_of_def step not_less)
    qed
  qed
qed

lemma nearest_univ:
  assumes "nearest_of hit S res" "\<And>s. hit s \<noteq> None \<Longrightarrow> s \<in> S"
  shows "nearest_of hit UNIV res"
proof (cases res)
  case None
  then have "hit s = None" for s using assms unfolding nearest_of_def None option.case by blast
  then show ?thesis using None by (simp add: nearest_of_def)
qed (use assms in \<open>simp add: nearest_of_def\<close>)

lemma nearest_fold:
  "nearest_of (ray_hit p origin dir skip h) S best \<Longrightarrow>
   nearest_of (ray_hit p origin dir skip h) (S \<union> set xs) (fold (hit_step p origin dir skip h) xs best)"
proof (induction xs arbitrary: S best)
  case (Cons x xs)
  then show ?case using Cons.IH[OF nearest_step[OF Cons.prems, of x]] by simp
qed simp

text \<open>The swept box of a ray holds every point of it, so a hull that is hit meets the box.\<close>

lemma ray_box_meets:
  assumes "segment_hit b origin dir = Some t"
    and "in_i32 (vx origin + vx dir)" "in_i32 (vy origin + vy dir)" "in_i32 (vz origin + vz dir)"
  shows "aabb_intersects b (ray_box origin dir)"
proof -
  have s: "0 \<le> at_ratio t" "at_ratio t \<le> 1" "segment_in b origin dir (at_ratio t)"
    using segment_hit_Some[of b origin dir "fst t" "snd t"] assms(1) by (simp_all add: at_ratio_def)
  have axis: "lo \<le> max o' (o' + d) \<and> min o' (o' + d) \<le> hi" if a: "axis_in o' d lo hi (at_ratio t)" for o' d lo hi
  proof -
    let ?x = "of_int o' + at_ratio t * of_int d :: rat"
    have "of_int (min o' (o' + d)) \<le> ?x \<and> ?x \<le> of_int (max o' (o' + d))"
    proof (cases "0 \<le> d")
      case True
      then have "0 \<le> at_ratio t * of_int d" "at_ratio t * of_int d \<le> 1 * of_int d"
        using s(1,2) by (simp, intro mult_right_mono) simp_all
      then show ?thesis using True by simp
    next
      case False
      then have "at_ratio t * of_int d \<le> 0" "1 * of_int d \<le> at_ratio t * of_int d"
        using s(1,2) by (simp add: mult_nonneg_nonpos, intro mult_right_mono_neg) simp_all
      then show ?thesis using False by simp
    qed
    then have "(of_int lo :: rat) \<le> of_int (max o' (o' + d))" "(of_int (min o' (o' + d)) :: rat) \<le> of_int hi"
      using a unfolding axis_in_def by (meson order_trans)+
    then show ?thesis by (simp only: of_int_le_iff)
  qed
  have ne: "\<not> aabb_is_empty b" using assms(1) by (auto simp: segment_hit_def split: if_splits)
  have "ray_box origin dir = aabb_new (ivec3 (min (vx origin) (vx origin + vx dir)) (min (vy origin) (vy origin + vy dir)) (min (vz origin) (vz origin + vz dir)))
      (ivec3 (max (vx origin) (vx origin + vx dir)) (max (vy origin) (vy origin + vy dir)) (max (vz origin) (vz origin + vz dir)))"
    using assms(2-4) by (auto simp: ray_box_def aabb_union_def box_simps wrap32_id min_def max_def)
  then show ?thesis
    using axis[of "vx origin" "vx dir"] axis[of "vy origin" "vy dir"] axis[of "vz origin" "vz dir"] s(3) ne
    by (auto simp: segment_in_def aabb_intersects_def aabb_is_empty_def aabb_new_def ivec3_def)
qed

lemma ray_hit_candidate:
  assumes "kept p" "ray_hit p origin dir skip h s = Some t"
    and "in_i32 (vx origin + vx dir)" "in_i32 (vy origin + vy dir)" "in_i32 (vz origin + vz dir)"
  shows "s \<in> set (space_candidates p (ray_box origin dir) False)"
proof -
  obtain i b where i: "proj_packed p s = Some i" "world_hull p i = Some b" "segment_hit b origin dir = Some t"
    using assms(2) by (auto simp: ray_hit_def posed_hull_def Option.bind_eq_Some_conv split: if_splits)
  have "i < length (p_sigils p)" "p_sigils p ! i = s" using packed_range[OF keptD(1)[OF assms(1)] i(1)] by simp_all
  then show ?thesis using pix_candidates_complete[OF assms(1) i(2) ray_box_meets[OF i(3) assms(3-5)]] by simp
qed

text \<open>
  C33: hitscan is exact.  For a ray whose end does not leave the coordinate range, the locus it returns can be
  hit, is not the shooter, is met by the ray, and no other such locus is met earlier; when it returns nothing, no
  locus of the world is met at all.  (The grid decides only which boxes are tested.)
\<close>
theorem hitscan_nearest:
  assumes "kept p" "in_i32 (vx origin + vx dir)" "in_i32 (vy origin + vy dir)" "in_i32 (vz origin + vz dir)"
  shows "case hitscan p origin dir skip hittable of
      None \<Rightarrow> (\<forall>s. ray_hit p origin dir skip hittable s = None)
    | Some s \<Rightarrow> \<exists>t. ray_hit p origin dir skip hittable s = Some t
        \<and> (\<forall>s' t'. ray_hit p origin dir skip hittable s' = Some t' \<longrightarrow> at_ratio t \<le> at_ratio t')"
proof -
  have all: "ray_hit p origin dir skip hittable s \<noteq> None \<Longrightarrow> s \<in> set (space_candidates p (ray_box origin dir) False)" for s
    using ray_hit_candidate[OF assms(1) _ assms(2-4)] by blast
  have "nearest_of (ray_hit p origin dir skip hittable) ({} \<union> set (space_candidates p (ray_box origin dir) False))
      (fold (hit_step p origin dir skip hittable) (space_candidates p (ray_box origin dir) False) None)"
    by (rule nearest_fold) (simp add: nearest_of_def)
  then have n: "nearest_of (ray_hit p origin dir skip hittable) UNIV
      (fold (hit_step p origin dir skip hittable) (space_candidates p (ray_box origin dir) False) None)"
    by (rule nearest_univ) (use all in blast)
  show ?thesis
  proof (cases "fold (hit_step p origin dir skip hittable) (space_candidates p (ray_box origin dir) False) None")
    case None
    then show ?thesis using n by (simp add: hitscan_def nearest_of_def)
  next
    case (Some e)
    then have h: "hitscan p origin dir skip hittable = Some (snd e)" by (simp add: hitscan_def)
    have "ray_hit p origin dir skip hittable (snd e) = Some (fst e)"
      "\<forall>s. ray_hit p origin dir skip hittable s \<noteq> None \<longrightarrow> at_ratio (fst e) \<le> at_ratio (the (ray_hit p origin dir skip hittable s))"
      using n Some by (simp_all add: nearest_of_def)
    then show ?thesis unfolding h option.case by (intro exI[of _ "fst e"]) (metis option.distinct(1) option.sel)
  qed
qed

theorem hitscan_nearest_witness:
  "case hitscan (wd_view demo_world) (ivec3 1000 500 (-5000)) (ivec3 0 0 9000) 7 0 of
      None \<Rightarrow> (\<forall>s. ray_hit (wd_view demo_world) (ivec3 1000 500 (-5000)) (ivec3 0 0 9000) 7 0 s = None)
    | Some s \<Rightarrow> \<exists>t. ray_hit (wd_view demo_world) (ivec3 1000 500 (-5000)) (ivec3 0 0 9000) 7 0 s = Some t
        \<and> (\<forall>s' t'. ray_hit (wd_view demo_world) (ivec3 1000 500 (-5000)) (ivec3 0 0 9000) 7 0 s' = Some t' \<longrightarrow> at_ratio t \<le> at_ratio t')"
  by (rule hitscan_nearest) (use world_reach_ok[OF demo_world_reach] in \<open>simp_all add: ivec3_def in_i32_def\<close>)

end
