(* ===== verification/CommitProposal.thy ===== *)
theory CommitProposal
  imports WorldView
begin

text \<open>
  \<open>klotho-commit/src/proposal.rs\<close>: the proposals, their order key, and the intents of
  \<open>klotho-ir\<close> (\<open>mind.rs\<close>, \<open>infer.rs\<close>) and witnesses of \<open>klotho-core\<close> they carry.
\<close>

section \<open>Intents of minds and models\<close>

record mind_intent =
  mi_locus :: sigil
  mi_verb :: verb
  mi_target :: intent_target
  mi_utility :: nat

definition mind_intent_validate :: "mind_intent \<Rightarrow> ir_error + unit" where
  "mind_intent_validate m = target_check (mi_target m)"

record infer_intent =
  ii_model :: string
  ii_locus :: "sigil option"
  ii_verb :: verb
  ii_target :: intent_target
  ii_claimed_facts :: "string list"

definition infer_intent_validate :: "infer_intent \<Rightarrow> ir_error + unit" where
  "infer_intent_validate i =
     rbind (name_check (ii_model i)) (\<lambda>_. rbind (target_check (ii_target i)) (\<lambda>_. check_all name_check (ii_claimed_facts i)))"

section \<open>Witnesses and claims\<close>

record quantized_contact =
  qc_point :: ivec3
  qc_normal :: "int \<times> int \<times> int"
  qc_depth_mm :: int
  qc_feature :: nat

record hull_witness =
  hw_mover :: sigil
  hw_proposed :: pose
  hw_overlaps :: bool
  hw_epoch :: nat
  hw_shape :: shape_kind
  hw_evidence :: "quantized_contact option"

definition hull_witness_new :: "sigil \<Rightarrow> pose \<Rightarrow> bool \<Rightarrow> hull_witness" where
  "hull_witness_new s q hint =
     \<lparr>hw_mover = s, hw_proposed = q, hw_overlaps = hint, hw_epoch = 0, hw_shape = OrientedBox, hw_evidence = None\<rparr>"

record body_delta =
  bd_mover :: sigil
  bd_pose :: pose
  bd_vel :: vel3
  bd_yaw_rate :: int
  bd_pitch_rate :: int
  bd_roll_rate :: int
  bd_sleep :: nat
  bd_hull :: blob_id
  bd_witness :: hull_witness
  bd_support :: "support option"

record contact_claim =
  ck_a :: sigil
  ck_b :: sigil
  ck_shape_a :: blob_id
  ck_shape_b :: blob_id
  ck_kind_a :: shape_kind
  ck_kind_b :: shape_kind
  ck_feature :: nat
  ck_witness :: hull_witness

definition contact_claim_key :: "contact_claim \<Rightarrow> sigil \<times> sigil \<times> blob_id \<times> blob_id \<times> nat" where
  "contact_claim_key c = (ck_a c, ck_b c, ck_shape_a c, ck_shape_b c, ck_feature c)"

record sweep_sample =
  ss_time :: nat
  ss_segment :: nat

record motion_contact =
  mc_actor :: sigil
  mc_instance :: tick
  mc_target :: sigil
  mc_track :: contact_track
  mc_sweep :: nat
  mc_boundary :: nat
  mc_witness :: sweep_sample

record constraint_ref =
  kr_constraint :: sigil
  kr_binding :: blob_id
  kr_impulse :: int

record constraint_break_claim =
  kb_constraint :: sigil
  kb_impulse :: int

definition max_phys_island_bodies :: nat where "max_phys_island_bodies = 256"
definition max_phys_island_members :: nat where "max_phys_island_members = 256"
definition max_phys_island_contacts :: nat where "max_phys_island_contacts = 1024"
definition max_phys_island_constraints :: nat where "max_phys_island_constraints = 512"
definition max_phys_island_breaks :: nat where "max_phys_island_breaks = 256"
definition max_phys_island_children :: nat where "max_phys_island_children = 256"
definition max_phys_island_write_loci :: nat where "max_phys_island_write_loci = 512"
definition max_motion_contacts :: nat where "max_motion_contacts = 8"

section \<open>Proposals\<close>

datatype residency_op = ResLoad | ResEvict

record phys_island =
  ph_epoch :: nat
  ph_tick :: tick
  ph_id :: nat
  ph_members :: "sigil list"
  ph_bodies :: "body_delta list"
  ph_contacts :: "contact_claim list"
  ph_motion :: "motion_contact list"
  ph_constraints :: "constraint_ref list"
  ph_breaks :: "constraint_break_claim list"

text \<open>The fields \<open>SpaceDelta\<close> and \<open>MotionDelta\<close> share.\<close>

record body_move =
  bm_mover :: sigil
  bm_pose :: pose
  bm_vel :: vel3
  bm_yaw_rate :: int
  bm_island :: nat
  bm_sleep :: nat
  bm_hull :: blob_id
  bm_witness :: hull_witness

datatype proposal =
    Player player_intent
  | Mind mind_intent
  | Infer infer_intent
  | PhysIsland phys_island
  | SpaceDelta body_move
  | MotionDelta body_move nat ivec3
  | Residency sigil residency_op digest digest place_snap

fun order_key :: "proposal \<Rightarrow> nat" where
  "order_key (Player _) = 0"
| "order_key (Residency _ _ _ _ _) = 1"
| "order_key (PhysIsland _) = 2"
| "order_key (SpaceDelta _) = 3"
| "order_key (MotionDelta _ _ _) = 4"
| "order_key (Mind _) = 5"
| "order_key (Infer _) = 6"

fun mover_raw :: "proposal \<Rightarrow> sigil" where
  "mover_raw (Player p) = of_nat (pi_player p)"
| "mover_raw (Mind m) = mi_locus m"
| "mover_raw (Infer i) = (case ii_locus i of None \<Rightarrow> 0 | Some s \<Rightarrow> s)"
| "mover_raw (PhysIsland p) = (case ph_members p of [] \<Rightarrow> 0 | s # _ \<Rightarrow> s)"
| "mover_raw (SpaceDelta m) = bm_mover m"
| "mover_raw (MotionDelta m _ _) = bm_mover m"
| "mover_raw (Residency place _ _ _ _) = place"

fun proposal_island :: "proposal \<Rightarrow> nat" where
  "proposal_island (PhysIsland p) = ph_id p"
| "proposal_island (SpaceDelta m) = bm_island m"
| "proposal_island (MotionDelta m _ _) = bm_island m"
| "proposal_island _ = 0"

definition admit_key :: "proposal \<times> nat \<Rightarrow> nat \<times> sigil \<times> nat \<times> nat" where
  "admit_key q = (order_key (fst q), mover_raw (fst q), proposal_island (fst q), snd q)"

fun kind_of :: "proposal \<Rightarrow> proposal_kind" where
  "kind_of (Player _) = PkPlayer"
| "kind_of (Mind _) = PkMind"
| "kind_of (Infer _) = PkInfer"
| "kind_of (PhysIsland _) = PkPhys"
| "kind_of (SpaceDelta _) = PkSpace"
| "kind_of (MotionDelta _ _ _) = PkMotion"
| "kind_of (Residency _ _ _ _ _) = PkResidency"

lemma same_class_kind: "admit_key p = admit_key q \<Longrightarrow> kind_of (fst p) = kind_of (fst q)"
  by (cases "fst p"; cases "fst q") (auto simp: admit_key_def)

end
