(* ===== verification/CommitLaws.thy ===== *)
theory CommitLaws
  imports CommitProposal
begin

text \<open>
  \<open>klotho-commit/src/laws.rs\<close> and \<open>swept.rs\<close>: the laws on a speculative post-state, and the kernel's own
  overlap checks.  A Rust function that takes \<open>&mut\<close> counters and may return early is an \<open>act\<close>: it maps
  the state to a result and the state as it was left, also when it fails.
\<close>

section \<open>Actions\<close>

type_synonym ('s, 'a) act = "'s \<Rightarrow> (reject_reason + 'a) \<times> 's"

definition act_ret :: "'a \<Rightarrow> ('s, 'a) act" where
  "act_ret x s = (Inr x, s)"

definition act_fail :: "reject_reason \<Rightarrow> ('s, 'a) act" where
  "act_fail e s = (Inl e, s)"

definition act_bind :: "('s, 'a) act \<Rightarrow> ('a \<Rightarrow> ('s, 'b) act) \<Rightarrow> ('s, 'b) act" where
  "act_bind m f s = (case m s of (Inl e, t) \<Rightarrow> (Inl e, t) | (Inr x, t) \<Rightarrow> f x t)"

definition act_some :: "reject_reason \<Rightarrow> 'a option \<Rightarrow> ('s, 'a) act" where
  "act_some e x = (case x of None \<Rightarrow> act_fail e | Some y \<Rightarrow> act_ret y)"

fun act_each :: "('a \<Rightarrow> ('s, unit) act) \<Rightarrow> 'a list \<Rightarrow> ('s, unit) act" where
  "act_each f [] = act_ret ()"
| "act_each f (x # xs) = act_bind (f x) (\<lambda>_. act_each f xs)"

named_theorems act_simps

lemma act_simps_basic [act_simps]:
  "act_ret x s = (Inr x, s)" "act_fail e s = (Inl e, s)"
  "act_bind m f s = (case m s of (Inl e, t) \<Rightarrow> (Inl e, t) | (Inr x, t) \<Rightarrow> f x t)"
  "act_some e None s = (Inl e, s)" "act_some e (Some y) s = (Inr y, s)"
  by (simp_all add: act_ret_def act_fail_def act_bind_def act_some_def)

lemma act_bind_Inr:
  "act_bind m f s = (Inr y, u) \<longleftrightarrow> (\<exists>x t. m s = (Inr x, t) \<and> f x t = (Inr y, u))"
  by (auto simp: act_bind_def split: prod.splits sum.splits)

lemma act_each_invariant:
  assumes "act_each f xs s = (r, t)" "P s" "\<And>x s r t. x \<in> set xs \<Longrightarrow> P s \<Longrightarrow> f x s = (r, t) \<Longrightarrow> P t"
  shows "P t"
  using assms
proof (induction xs arbitrary: s)
  case (Cons x xs)
  obtain q u where "f x s = (q, u)" by fastforce
  moreover have "P u" using Cons.prems(2,3) calculation by (meson list.set_intros(1))
  ultimately show ?case using Cons.prems Cons.IH[of u] by (cases q) (auto simp: act_bind_def)
qed (simp add: act_ret_def)

section \<open>Who acts\<close>

record agent =
  ag_actor :: sigil
  ag_target :: "sigil option"
  ag_verb :: verb
  ag_source :: source_kind
  ag_claimed :: "channel list"

definition agent_ctx :: "canon \<Rightarrow> projection \<Rightarrow> agent \<Rightarrow> bool \<Rightarrow> eval_ctx" where
  "agent_ctx c p ag swept =
     \<lparr>store = view_store p, ctx_this = ag_actor ag, ctx_target = ag_target ag, ctx_pins = cn_pin_sigils c,
      ctx_verb = ag_verb ag, ctx_source = ag_source ag, ctx_claimed = ag_claimed ag, ctx_swept = swept\<rparr>"

text \<open>A pooled predicate by id; the state is the tick's remaining operations.\<close>

definition run_pred :: "canon \<Rightarrow> nat \<Rightarrow> eval_ctx \<Rightarrow> (nat, bool) act" where
  "run_pred c i ctx ops = (case canon_pred c i of None \<Rightarrow> (Inl RBudget, ops) | Some prog \<Rightarrow> eval_pred prog ctx ops)"

section \<open>Laws\<close>

definition resolve_cap_slot :: "cooked_slot \<Rightarrow> agent \<Rightarrow> sigil option list \<Rightarrow> sigil option" where
  "resolve_cap_slot s ag ps =
     (case s of CThis \<Rightarrow> Some (ag_actor ag) | CTarget \<Rightarrow> ag_target ag | COther \<Rightarrow> None
      | CPin i \<Rightarrow> (case nth_opt ps i of Some x \<Rightarrow> x | None \<Rightarrow> None))"

definition conserve_holds :: "projection \<Rightarrow> sigil \<Rightarrow> nat \<Rightarrow> rel \<Rightarrow> bool" where
  "conserve_holds p actor res over \<longleftrightarrow>
     \<not> proj_qty p actor res < 0 \<and> list_all (\<lambda>s. \<not> proj_qty p s res < 0) (related_slice p actor over)"

definition cap_skips :: "canon \<Rightarrow> projection \<Rightarrow> agent \<Rightarrow> (rel \<times> cooked_slot) option \<Rightarrow> sigil \<Rightarrow> bool" where
  "cap_skips c p ag require_rel s =
     (case require_rel of
        None \<Rightarrow> False
      | Some (r, slot) \<Rightarrow>
          (case resolve_cap_slot slot ag (cn_pin_sigils c) of None \<Rightarrow> True | Some b \<Rightarrow> \<not> proj_has_rel p s r b))"

fun cap_loop :: "canon \<Rightarrow> projection \<Rightarrow> nat \<Rightarrow> (rel \<times> cooked_slot) option \<Rightarrow> agent \<Rightarrow> sigil list \<Rightarrow> nat \<Rightarrow> (nat, nat) act" where
  "cap_loop c p mark require_rel ag [] n = act_ret n"
| "cap_loop c p mark require_rel ag (s # ss) n =
     (if cap_skips c p ag require_rel s then cap_loop c p mark require_rel ag ss n
      else act_bind (run_pred c mark (agent_ctx c p (ag\<lparr>ag_actor := s\<rparr>) False)) (\<lambda>hit.
        cap_loop c p mark require_rel ag ss (if hit then min 65535 (n + 1) else n)))"

definition cap_count :: "canon \<Rightarrow> projection \<Rightarrow> nat \<Rightarrow> (rel \<times> cooked_slot) option \<Rightarrow> agent \<Rightarrow> (nat, nat) act" where
  "cap_count c p mark require_rel ag =
     act_bind (act_some RBudget (canon_pred c mark)) (\<lambda>_. cap_loop c p mark require_rel ag (p_sigils p) 0)"

definition admit_law :: "canon \<Rightarrow> projection \<Rightarrow> agent \<Rightarrow> bool \<Rightarrow> cooked_law \<Rightarrow> (nat, unit) act" where
  "admit_law c p ag swept law =
     act_bind (run_pred c (cl_when law) (agent_ctx c p ag swept)) (\<lambda>when_true.
       case cl_body law of
         CkPred must ought \<Rightarrow>
           if when_true
           then act_bind (run_pred c must (agent_ctx c p ag swept)) (\<lambda>b. if b then act_ret () else act_fail (RLaw (cl_id law)))
           else act_ret ()
       | CkConserve res over \<Rightarrow>
           if when_true \<and> \<not> conserve_holds p (ag_actor ag) res over then act_fail (RLaw (cl_id law)) else act_ret ()
       | CkCap mark n require_rel \<Rightarrow>
           act_bind (cap_count c p mark require_rel ag) (\<lambda>k. if k > n then act_fail (RLaw (cl_id law)) else act_ret ())
       | _ \<Rightarrow> act_ret ())"

definition admit_laws :: "canon \<Rightarrow> projection \<Rightarrow> agent \<Rightarrow> bool \<Rightarrow> (nat, unit) act" where
  "admit_laws c p ag swept = act_each (admit_law c p ag swept) (cn_laws c)"

definition phys_law :: "canon \<Rightarrow> projection \<Rightarrow> (sigil \<times> sigil \<times> nat) list \<Rightarrow> cooked_law \<Rightarrow> sigil \<times> bool \<Rightarrow> (nat, unit) act" where
  "phys_law c p contacts law body =
     act_bind (admit_law c p \<lparr>ag_actor = fst body, ag_target = None, ag_verb = Move, ag_source = SrcPhys, ag_claimed = []\<rparr> (snd body) law)
       (\<lambda>_. case find (\<lambda>k. fst k = fst body) contacts of
          None \<Rightarrow> act_ret ()
        | Some (_, target, channel) \<Rightarrow>
            act_bind (act_some RUnclaimedAgency (channel_from_u8 channel)) (\<lambda>ch.
              admit_law c p \<lparr>ag_actor = fst body, ag_target = Some target, ag_verb = Use, ag_source = SrcPlayer, ag_claimed = [ch]\<rparr>
                False law))"

definition admit_phys_laws :: "canon \<Rightarrow> projection \<Rightarrow> (sigil \<times> bool) list \<Rightarrow> (sigil \<times> sigil \<times> nat) list \<Rightarrow> (nat, unit) act" where
  "admit_phys_laws c p bodies contacts = act_each (\<lambda>law. act_each (phys_law c p contacts law) bodies) (cn_laws c)"

section \<open>Overlap with closed hulls\<close>

definition derived_swept :: "projection \<Rightarrow> sigil \<Rightarrow> pose \<Rightarrow> aabb option" where
  "derived_swept p mover proposed =
     Option.bind (proj_hull p mover) (\<lambda>local.
       let prev = (case proj_pose p mover of None \<Rightarrow> proposed | Some q \<Rightarrow> q) in
       Some (aabb_union (world_aabb local (pose_translation prev)) (world_aabb local (pose_translation proposed))))"

definition hits_opaque_closed :: "projection \<Rightarrow> sigil \<Rightarrow> aabb \<Rightarrow> bool" where
  "hits_opaque_closed p mover swept \<longleftrightarrow>
     list_ex (\<lambda>s. s \<noteq> mover \<and> (case posed_hull p s of None \<Rightarrow> False | Some h \<Rightarrow> aabb_intersects h swept))
       (space_candidates p swept True)"

definition wrong_hull :: "projection \<Rightarrow> sigil \<Rightarrow> blob_id \<Rightarrow> bool" where
  "wrong_hull p mover blob \<longleftrightarrow>
     (case proj_hull_id p mover of None \<Rightarrow> False | Some bound \<Rightarrow> bound \<noteq> hash_zero \<and> blob \<noteq> hash_zero \<and> bound \<noteq> blob)"

definition check_space :: "projection \<Rightarrow> sigil \<Rightarrow> pose \<Rightarrow> blob_id \<Rightarrow> bool \<Rightarrow> reject_reason + bool" where
  "check_space p mover proposed blob hint_overlap =
     (if wrong_hull p mover blob then Inl RWrongHull
      else case derived_swept p mover proposed of
        None \<Rightarrow> Inr False
      | Some swept \<Rightarrow>
          (let hits = hits_opaque_closed p mover swept in
           if hits \<and> \<not> hint_overlap then Inl RWitnessMismatch else Inr hits))"

end
