(* ===== verification/CommitRite.thy ===== *)
theory CommitRite
  imports CommitLaws
begin

text \<open>
  \<open>klotho-commit/src/rite.rs\<close>: the rite machine's burst, the choice of a rite, hits and collapse.  The
  state of the actions is \<open>cstate\<close>: the speculative delta and the tick's two counters.  A burst runs at
  most \<open>min cap_steps rite_steps\<close> instructions, so its loop recurses on that number.
\<close>

section \<open>The speculative state\<close>

record cstate =
  cs_spec :: spec_delta
  cs_steps :: nat
  cs_ops :: nat

definition spec_push_at :: "tick \<Rightarrow> trace_body \<Rightarrow> (cstate, unit) act" where
  "spec_push_at t b st = (Inr (), st\<lparr>cs_spec := spec_push \<lparr>ev_tick = t, ev_body = b\<rparr> (cs_spec st)\<rparr>)"

text \<open>\<open>map_err(|_| e)\<close> around a write of the delta.\<close>

definition spec_try :: "reject_reason \<Rightarrow> (spec_delta \<Rightarrow> (world_error + 'a) \<times> spec_delta) \<Rightarrow> (cstate, 'a) act" where
  "spec_try e f st =
     (let (r, sd) = f (cs_spec st); st = st\<lparr>cs_spec := sd\<rparr> in
      case r of Inl _ \<Rightarrow> (Inl e, st) | Inr x \<Rightarrow> (Inr x, st))"

definition spec_set :: "(spec_delta \<Rightarrow> spec_delta) \<Rightarrow> (cstate, unit) act" where
  "spec_set f st = (Inr (), st\<lparr>cs_spec := f (cs_spec st)\<rparr>)"

definition spec_see :: "(projection \<Rightarrow> 'a) \<Rightarrow> (cstate, 'a) act" where
  "spec_see f st = (Inr (f (sd_proj (cs_spec st))), st)"

definition spec_get :: "(cstate, spec_delta) act" where
  "spec_get st = (Inr (cs_spec st), st)"

definition steps_left :: "(cstate, nat) act" where
  "steps_left st = (Inr (cs_steps st), st)"

text \<open>One instruction of the tick's budget; False when there is none left.\<close>

definition take_step :: "(cstate, bool) act" where
  "take_step st = (if cs_steps st = 0 then (Inr False, st) else (Inr True, st\<lparr>cs_steps := cs_steps st - 1\<rparr>))"

text \<open>An action on the predicate budget alone, against the delta's view.\<close>

definition on_ops :: "(projection \<Rightarrow> (nat, 'a) act) \<Rightarrow> (cstate, 'a) act" where
  "on_ops f st = (let (r, ops) = f (sd_proj (cs_spec st)) (cs_ops st) in (r, st\<lparr>cs_ops := ops\<rparr>))"

section \<open>One burst\<close>

datatype burst = BurstHalt | BurstWait

text \<open>What an instruction does to control: it ends the burst, or goes on at a pc with a target.\<close>

datatype flow = Done burst | Goto nat "sigil option"

record drive =
  dr_canon :: canon
  dr_verb :: verb
  dr_source :: source_kind
  dr_claimed :: "channel list"
  dr_tick :: tick

definition drive_agent :: "drive \<Rightarrow> sigil \<Rightarrow> sigil option \<Rightarrow> agent" where
  "drive_agent d actor target =
     \<lparr>ag_actor = actor, ag_target = target, ag_verb = dr_verb d, ag_source = dr_source d, ag_claimed = dr_claimed d\<rparr>"

definition status_end :: "status \<Rightarrow> rite_end" where
  "status_end s = (case s of Success \<Rightarrow> ReSuccess | Fail \<Rightarrow> ReFail)"

definition next_pc :: "rite_instr list \<Rightarrow> nat \<Rightarrow> nat option" where
  "next_pc instrs pc = Option.bind (find_index (\<lambda>x. ri_pc x = pc) instrs) (\<lambda>i. map_option ri_pc (nth_opt instrs (i + 1)))"

definition resolve_slot :: "slot \<Rightarrow> sigil \<Rightarrow> sigil option \<Rightarrow> canon \<Rightarrow> sigil option" where
  "resolve_slot s actor target c =
     (case s of This \<Rightarrow> Some actor | Target \<Rightarrow> target | Other \<Rightarrow> None
      | NameSlot n \<Rightarrow> Option.bind (find_index (\<lambda>p. p = n) (cn_pin_names c)) (\<lambda>i.
          case nth_opt (cn_pin_sigils c) i of Some x \<Rightarrow> x | None \<Rightarrow> None))"

definition eval_guard :: "drive \<Rightarrow> cooked_rite \<Rightarrow> nat \<Rightarrow> sigil \<Rightarrow> sigil option \<Rightarrow> (cstate, bool) act" where
  "eval_guard d rite pc actor target =
     (case bt_get (cr_guards rite) pc of
        None \<Rightarrow> act_ret True
      | Some pid \<Rightarrow> on_ops (\<lambda>p. run_pred (dr_canon d) pid (agent_ctx (dr_canon d) p (drive_agent d actor target) False)))"

definition end_rite :: "drive \<Rightarrow> sigil \<Rightarrow> nat \<Rightarrow> rite_end \<Rightarrow> (cstate, flow) act" where
  "end_rite d actor rid st = act_bind (spec_push_at (dr_tick d) (RiteEnded actor rid st)) (\<lambda>_. act_ret (Done BurstHalt))"

text \<open>\<open>pc = next.ok_or(Budget)?\<close>\<close>

definition go_on :: "nat option \<Rightarrow> sigil option \<Rightarrow> (cstate, flow) act" where
  "go_on next target = act_bind (act_some RBudget next) (\<lambda>pc. act_ret (Goto pc target))"

text \<open>The machine that \<open>Wait\<close> and \<open>Bind\<close> store: the identity of the action is kept from the old one.\<close>

definition parked :: "projection \<Rightarrow> sigil \<Rightarrow> nat \<Rightarrow> tick \<Rightarrow> nat \<Rightarrow> nat \<Rightarrow> sigil option \<Rightarrow> channel option \<Rightarrow> rite_machine" where
  "parked p actor rid t pc wait target ch =
     (let m = proj_rite p actor rid in
      \<lparr>rm_started_at = (case m of None \<Rightarrow> t | Some m \<Rightarrow> rm_started_at m), rm_wait_at = t,
       rm_contact_hit = (case m of None \<Rightarrow> False | Some m \<Rightarrow> rm_contact_hit m),
       rm_contact_agency = (case m of None \<Rightarrow> 0 | Some m \<Rightarrow> rm_contact_agency m),
       rm_pc = pc, rm_wait_left = wait, rm_target = target, rm_wait_ch = ch\<rparr>)"

definition park :: "sigil \<Rightarrow> nat \<Rightarrow> tick \<Rightarrow> nat \<Rightarrow> nat \<Rightarrow> sigil option \<Rightarrow> channel option \<Rightarrow> (cstate, unit) act" where
  "park actor rid t pc wait target ch =
     act_bind (spec_see (\<lambda>p. proj_rite p actor rid)) (\<lambda>m.
       if (case m of None \<Rightarrow> False | Some m \<Rightarrow> rm_contact_hit m \<and> rm_target m \<noteq> target) then act_fail RWitnessMismatch
       else act_bind (spec_see (\<lambda>p. parked p actor rid t pc wait target ch)) (\<lambda>m. spec_set (spec_put_rite actor rid m)))"

text \<open>A \<open>Wait\<close> of a rite bound to the actor's contact track needs the player's channel.\<close>

definition authorize_wait :: "drive \<Rightarrow> cooked_rite \<Rightarrow> sigil \<Rightarrow> (cstate, unit) act" where
  "authorize_wait d rite actor =
     (case bt_get (cn_contact_tracks (dr_canon d)) actor of
        None \<Rightarrow> act_ret ()
      | Some track \<Rightarrow>
          if track_rite track \<noteq> cr_name rite then act_ret ()
          else if dr_source d \<noteq> SrcPlayer \<or> \<not> list_ex (\<lambda>c. channel_as_u8 c = track_channel track) (dr_claimed d)
          then act_fail RUnclaimedAgency
          else act_bind (spec_see (\<lambda>p. proj_rite p actor (cr_id rite))) (\<lambda>m.
            act_bind (act_some RUnclaimedAgency m) (\<lambda>m.
              if rm_contact_agency m = 0
              then spec_push_at (dr_tick d) (MotionActionAuthorized actor (cr_id rite) (rm_started_at m) (track_channel track))
              else act_ret ())))"

definition max_spawn_id :: "projection \<Rightarrow> sigil" where
  "max_spawn_id p = fold (\<lambda>s n. max n (if sigil_id s = - 1 then - 1 else sigil_id s + 1)) (p_sigils p) 0"

definition alloc_spawn_sigil :: "projection \<Rightarrow> reject_reason + sigil" where
  "alloc_spawn_sigil p = (case sigil_pack Relic 0 (max_spawn_id p) of None \<Rightarrow> Inl RBudget | Some s \<Rightarrow> Inr s)"

definition lift_result :: "reject_reason + 'a \<Rightarrow> (cstate, 'a) act" where
  "lift_result r st = (r, st)"

text \<open>\<open>let _ = spec.f()\<close>: the result is dropped, the marks stay.\<close>

definition spec_quiet :: "(spec_delta \<Rightarrow> (world_error + 'a) \<times> spec_delta) \<Rightarrow> (cstate, unit) act" where
  "spec_quiet f = spec_set (\<lambda>sd. snd (f sd))"

definition pose_default :: pose where
  "pose_default = pose_new 0 0 0 0"

definition res_id :: "canon \<Rightarrow> string \<Rightarrow> (cstate, nat) act" where
  "res_id c name = act_some (RResource 0) (canon_resource_id c name)"

definition slot_of :: "drive \<Rightarrow> sigil \<Rightarrow> sigil option \<Rightarrow> slot \<Rightarrow> (cstate, sigil) act" where
  "slot_of d actor target s = act_some RBudget (resolve_slot s actor target (dr_canon d))"

definition op_spend :: "drive \<Rightarrow> sigil \<Rightarrow> sigil option \<Rightarrow> nat option \<Rightarrow> string \<Rightarrow> int \<Rightarrow> nat \<Rightarrow> (cstate, flow) act" where
  "op_spend d actor target next res amount fail =
     act_bind (res_id (dr_canon d) res) (\<lambda>rid.
     act_bind (spec_see (\<lambda>p. proj_qty p actor rid)) (\<lambda>have.
       if have < amount then act_ret (Goto fail target)
       else act_bind (spec_push_at (dr_tick d) (QtyChanged actor rid (wrap32 (have - amount)) 1)) (\<lambda>_. go_on next target)))"

definition op_wait :: "drive \<Rightarrow> cooked_rite \<Rightarrow> sigil \<Rightarrow> sigil option \<Rightarrow> nat \<Rightarrow> nat option \<Rightarrow> nat \<Rightarrow> channel option \<Rightarrow> (cstate, flow) act" where
  "op_wait d rite actor target pc next ticks ch =
     act_bind (authorize_wait d rite actor) (\<lambda>_.
       let resume = (case next of None \<Rightarrow> pc | Some n \<Rightarrow> n) in
       act_bind (spec_push_at (dr_tick d) (RiteAdvanced actor (cr_id rite) resume ticks)) (\<lambda>_.
       act_bind (park actor (cr_id rite) (dr_tick d) resume ticks target ch) (\<lambda>_. act_ret (Done BurstWait))))"

definition bind_target :: "projection \<Rightarrow> sigil \<Rightarrow> sigil option \<Rightarrow> bind_src \<Rightarrow> sigil option" where
  "bind_target p actor target src =
     (case src of BindTarget \<Rightarrow> target | BindThis \<Rightarrow> Some actor | BindRelated r \<Rightarrow> nth_opt (related_slice p actor r) 0)"

definition op_bind :: "drive \<Rightarrow> cooked_rite \<Rightarrow> sigil \<Rightarrow> sigil option \<Rightarrow> nat \<Rightarrow> nat option \<Rightarrow> bind_src \<Rightarrow> (cstate, flow) act" where
  "op_bind d rite actor target pc next src =
     act_bind (spec_see (\<lambda>p. bind_target p actor target src)) (\<lambda>target.
       let resume = (case next of None \<Rightarrow> pc | Some n \<Rightarrow> n) in
       act_bind (park actor (cr_id rite) (dr_tick d) resume 0 target None) (\<lambda>_. go_on next target))"

definition op_spawn :: "drive \<Rightarrow> sigil \<Rightarrow> sigil option \<Rightarrow> nat option \<Rightarrow> string \<Rightarrow> (cstate, flow) act" where
  "op_spawn d actor target next name =
     act_bind (act_some RBudget (find_index (\<lambda>n. n = name) (cn_facts (dr_canon d)))) (\<lambda>i.
       let template = i mod 65536 in
       act_bind (act_bind (spec_see alloc_spawn_sigil) lift_result) (\<lambda>s.
       act_bind (spec_see (\<lambda>p. case proj_pose p actor of None \<Rightarrow> pose_default | Some q \<Rightarrow> q)) (\<lambda>q.
       act_bind (spec_push_at (dr_tick d) (Spawned template s q)) (\<lambda>_.
       act_bind (spec_see (\<lambda>p. proj_packed p s \<noteq> None)) (\<lambda>there.
         if \<not> there then act_fail RBudget
         else act_bind
           (case Option.bind (nth_opt (cn_facts (dr_canon d)) template) (canon_affordance_id (dr_canon d)) of
              None \<Rightarrow> act_ret () | Some aff \<Rightarrow> spec_try RBudget (spec_set_affordance s aff True))
           (\<lambda>_. go_on next target))))))"

definition op_rel :: "drive \<Rightarrow> sigil \<Rightarrow> sigil option \<Rightarrow> nat option \<Rightarrow> (sigil \<Rightarrow> nat \<Rightarrow> sigil \<Rightarrow> trace_body) \<Rightarrow> slot \<Rightarrow> rel \<Rightarrow> slot \<Rightarrow> (cstate, flow) act" where
  "op_rel d actor target next event a r b =
     act_bind (slot_of d actor target a) (\<lambda>sa. act_bind (slot_of d actor target b) (\<lambda>sb.
     act_bind (spec_push_at (dr_tick d) (event sa (rel_as_u8 r) sb)) (\<lambda>_. go_on next target)))"

definition op_awake :: "drive \<Rightarrow> sigil \<Rightarrow> sigil option \<Rightarrow> nat option \<Rightarrow> slot \<Rightarrow> (cstate, flow) act" where
  "op_awake d actor target next s =
     act_bind
       (case resolve_slot s actor target (dr_canon d) of
          None \<Rightarrow> act_ret ()
        | Some x \<Rightarrow> act_bind (spec_see (\<lambda>p. case proj_island p x of None \<Rightarrow> 0 | Some (i, sl) \<Rightarrow> i)) (\<lambda>island.
            spec_quiet (spec_set_island x island 0)))
       (\<lambda>_. go_on next target)"

definition run_op :: "drive \<Rightarrow> cooked_rite \<Rightarrow> sigil \<Rightarrow> sigil option \<Rightarrow> nat \<Rightarrow> rite_op \<Rightarrow> (cstate, flow) act" where
  "run_op d rite actor target pc op =
     (let next = next_pc (rc_instrs (cr_chunk rite)) pc in
      case op of
        Halt st \<Rightarrow> end_rite d actor (cr_id rite) (status_end st)
      | Complete st \<Rightarrow> end_rite d actor (cr_id rite) (status_end st)
      | Guard g fail \<Rightarrow> act_bind (eval_guard d rite pc actor target) (\<lambda>ok. if ok then go_on next target else act_ret (Goto fail target))
      | Spend res amount fail \<Rightarrow> op_spend d actor target next res amount fail
      | Wait ticks ch \<Rightarrow> op_wait d rite actor target pc next ticks ch
      | Emit k \<Rightarrow> act_bind (spec_push_at (dr_tick d) (Emitted 0 actor target)) (\<lambda>_. go_on next target)
      | Branch g yes no \<Rightarrow> act_bind (eval_guard d rite pc actor target) (\<lambda>ok. act_ret (Goto (if ok then yes else no) target))
      | Bind src \<Rightarrow> op_bind d rite actor target pc next src
      | Setq s res amount \<Rightarrow> act_bind (res_id (dr_canon d) res) (\<lambda>rid. act_bind (slot_of d actor target s) (\<lambda>x.
          act_bind (spec_push_at (dr_tick d) (QtyChanged x rid amount 1)) (\<lambda>_. go_on next target)))
      | RelAdd a r b \<Rightarrow> op_rel d actor target next RelAdded a r b
      | RelDel a r b \<Rightarrow> op_rel d actor target next RelDeleted a r b
      | Awake s \<Rightarrow> op_awake d actor target next s
      | Spawn name \<Rightarrow> op_spawn d actor target next name
      | PhysReq lin ang \<Rightarrow> act_bind (spec_try RBudget (spec_set_phys_req actor \<lparr>pr_lin = lin, pr_ang = ang\<rparr>)) (\<lambda>_. go_on next target))"

definition out_of_steps :: "drive \<Rightarrow> cooked_rite \<Rightarrow> sigil \<Rightarrow> (cstate, burst) act" where
  "out_of_steps d rite actor =
     act_bind (spec_push_at (dr_tick d) (RiteEnded actor (cr_id rite) ReFailBudget)) (\<lambda>_. act_ret BurstHalt)"

fun burst_loop :: "drive \<Rightarrow> cooked_rite \<Rightarrow> sigil \<Rightarrow> nat \<Rightarrow> nat \<Rightarrow> sigil option \<Rightarrow> (cstate, burst) act" where
  "burst_loop d rite actor 0 pc target = out_of_steps d rite actor"
| "burst_loop d rite actor (Suc left) pc target =
     act_bind take_step (\<lambda>more.
       if \<not> more then out_of_steps d rite actor
       else
         act_bind (act_some RBudget (find (\<lambda>i. ri_pc i = pc) (rc_instrs (cr_chunk rite)))) (\<lambda>instr.
         act_bind (run_op d rite actor target pc (ri_op instr)) (\<lambda>fl.
           case fl of Done b \<Rightarrow> act_ret b | Goto pc target \<Rightarrow> burst_loop d rite actor left pc target)))"

definition run_burst :: "drive \<Rightarrow> cooked_rite \<Rightarrow> sigil \<Rightarrow> sigil option \<Rightarrow> nat \<Rightarrow> (cstate, burst) act" where
  "run_burst d rite actor target start_pc =
     act_bind steps_left (\<lambda>n. burst_loop d rite actor (min (rc_cap_steps (cr_chunk rite)) n) start_pc target)"

section \<open>Choosing a rite\<close>

definition named_rite :: "canon \<Rightarrow> string \<Rightarrow> cooked_rite option" where
  "named_rite c n = find (\<lambda>r. cr_name r = n) (cn_rites c)"

definition or_else :: "'a option \<Rightarrow> 'a option \<Rightarrow> 'a option" where
  "or_else x y = (case x of None \<Rightarrow> y | Some v \<Rightarrow> Some v)"

definition rite_hittable :: "projection \<Rightarrow> canon \<Rightarrow> sigil \<Rightarrow> bool" where
  "rite_hittable p c t \<longleftrightarrow>
     (case canon_affordance_id c ''Hittable'' of
        None \<Rightarrow> False
      | Some i \<Rightarrow> proj_has_affordance p t i \<or> list_ex (\<lambda>q. proj_has_affordance p q i) (related_slice p t PartOf))"

definition burning :: "projection \<Rightarrow> canon \<Rightarrow> sigil \<Rightarrow> bool" where
  "burning p c s \<longleftrightarrow> (case canon_resource_id c ''heat'' of None \<Rightarrow> False | Some heat \<Rightarrow> proj_qty p s heat \<ge> ignite)"

definition has_named :: "projection \<Rightarrow> canon \<Rightarrow> sigil \<Rightarrow> string \<Rightarrow> bool" where
  "has_named p c t n \<longleftrightarrow> (case canon_affordance_id c n of None \<Rightarrow> False | Some i \<Rightarrow> proj_has_affordance p t i)"

definition pick_use_rite :: "projection \<Rightarrow> canon \<Rightarrow> sigil option \<Rightarrow> cooked_rite option" where
  "pick_use_rite p c target =
     (let plain = or_else (named_rite c ''lockpick'') (named_rite c ''ignite'') in
      case target of
        None \<Rightarrow> plain
      | Some t \<Rightarrow>
          if rite_hittable p c t \<and> named_rite c ''melee'' \<noteq> None then named_rite c ''melee''
          else if has_named p c t ''Driveable'' then named_rite c ''possess''
          else if has_named p c t ''Lockable'' then named_rite c ''lockpick''
          else if has_named p c t ''Flammable''
          then (if burning p c t then named_rite c ''douse'' else named_rite c ''ignite'')
          else plain)"

definition pick_start_rite :: "projection \<Rightarrow> canon \<Rightarrow> verb \<Rightarrow> sigil option \<Rightarrow> cooked_rite option" where
  "pick_start_rite p c v target =
     (let fallback = nth_opt (cn_rites c) 0 in
      case v of
        Carry \<Rightarrow> or_else (named_rite c ''carry.pick'') fallback
      | Talk \<Rightarrow> or_else (named_rite c ''trade.offer'') fallback
      | Pay \<Rightarrow> named_rite c ''trade.pay''
      | Fire \<Rightarrow> or_else (named_rite c ''fire'') fallback
      | Use \<Rightarrow> or_else (pick_use_rite p c target) fallback
      | Open \<Rightarrow> or_else (pick_use_rite p c target) fallback
      | Steer \<Rightarrow> named_rite c ''steer''
      | _ \<Rightarrow> None)"

section \<open>Hits and collapse\<close>

definition is_emitted :: "trace_event \<Rightarrow> bool" where
  "is_emitted e \<longleftrightarrow> (case ev_body e of Emitted k a b \<Rightarrow> True | _ \<Rightarrow> False)"

definition part_of_parent :: "projection \<Rightarrow> sigil \<Rightarrow> sigil option" where
  "part_of_parent p s = find (\<lambda>q. q \<noteq> s) (related_slice p s PartOf)"

definition may_collapse :: "projection \<Rightarrow> canon \<Rightarrow> sigil \<Rightarrow> bool" where
  "may_collapse p c victim \<longleftrightarrow> has_named p c victim ''Destructible'' \<and> related_slice p victim PartOf \<noteq> []"

definition begin_rite :: "drive \<Rightarrow> cooked_rite \<Rightarrow> sigil \<Rightarrow> (cstate, unit) act" where
  "begin_rite d rite victim =
     act_bind (spec_push_at (dr_tick d) (RiteBegan victim (cr_id rite) (Some victim))) (\<lambda>_.
     act_bind (run_burst d rite victim (Some victim) (rc_entry (cr_chunk rite))) (\<lambda>_. act_ret ()))"

definition drive_collapse :: "drive \<Rightarrow> sigil \<Rightarrow> (cstate, unit) act" where
  "drive_collapse d victim =
     (let c = dr_canon d in
      act_bind (spec_see (\<lambda>p. has_named p c victim ''Destructible''
          \<and> (case canon_resource_id c ''integrity'' of None \<Rightarrow> False | Some r \<Rightarrow> \<not> proj_qty p victim r > 0))) (\<lambda>falls.
        if \<not> falls then act_ret ()
        else case named_rite c ''collapse'' of None \<Rightarrow> act_ret () | Some rite \<Rightarrow> begin_rite d rite victim))"

definition drive_apply_hit :: "drive \<Rightarrow> sigil option \<Rightarrow> (cstate, unit) act" where
  "drive_apply_hit d target =
     (case target of
        None \<Rightarrow> act_ret ()
      | Some raw \<Rightarrow> act_bind spec_get (\<lambda>sd.
          if \<not> list_ex is_emitted (sd_events sd) then act_ret ()
          else
            let c = dr_canon d; p = sd_proj sd;
                victim = (case part_of_parent p raw of None \<Rightarrow> raw | Some q \<Rightarrow> q);
                collapse = may_collapse p c victim
            in act_bind (case named_rite c ''apply_hit'' of None \<Rightarrow> act_ret () | Some h \<Rightarrow> begin_rite d h victim)
                 (\<lambda>_. if collapse then drive_collapse d victim else act_ret ())))"

section \<open>Starting and resuming\<close>

definition check_wait_agency :: "rite_machine \<Rightarrow> source_kind \<Rightarrow> (cstate, unit) act" where
  "check_wait_agency m source = (if rm_wait_ch m \<noteq> None \<and> source \<noteq> SrcPlayer then act_fail RUnclaimedAgency else act_ret ())"

definition contact_bound :: "canon \<Rightarrow> sigil \<Rightarrow> nat \<Rightarrow> bool" where
  "contact_bound c actor rid \<longleftrightarrow>
     (case bt_get (cn_contact_tracks c) actor of
        None \<Rightarrow> False | Some track \<Rightarrow> list_ex (\<lambda>r. cr_id r = rid \<and> cr_name r = track_rite track) (cn_rites c))"

definition resume_rite :: "drive \<Rightarrow> sigil \<Rightarrow> sigil option \<Rightarrow> nat \<Rightarrow> rite_machine \<Rightarrow> (cstate, unit) act" where
  "resume_rite d actor target rid m =
     (if contact_bound (dr_canon d) actor rid then act_fail RUnclaimedAgency
      else act_bind (check_wait_agency m (dr_source d)) (\<lambda>_.
        act_bind (act_some RBudget (find (\<lambda>r. cr_id r = rid) (cn_rites (dr_canon d)))) (\<lambda>rite.
          let tgt = or_else (rm_target m) target in
          act_bind (run_burst d rite actor tgt (rm_pc m)) (\<lambda>_.
            if cr_name rite = ''melee'' then drive_apply_hit d tgt else act_ret ()))))"

definition driven_character :: "canon \<Rightarrow> sigil \<Rightarrow> bool" where
  "driven_character c actor \<longleftrightarrow> Option.bind (body_physics_of c actor) character \<noteq> None"

definition start_rite :: "drive \<Rightarrow> sigil \<Rightarrow> sigil option \<Rightarrow> cooked_rite \<Rightarrow> (cstate, unit) act" where
  "start_rite d actor target rite =
     (let c = dr_canon d; track = bt_get (cn_contact_tracks c) actor in
      if (case track of None \<Rightarrow> False | Some t \<Rightarrow> track_rite t = cr_name rite) \<and> \<not> driven_character c actor
      then act_fail RWrongHull
      else act_bind (spec_push_at (dr_tick d) (RiteBegan actor (cr_id rite) target)) (\<lambda>_.
        act_bind (run_burst d rite actor target (rc_entry (cr_chunk rite))) (\<lambda>_.
          if dr_verb d = Fire \<or> cr_name rite = ''melee'' \<and> track = None then drive_apply_hit d target else act_ret ())))"

definition drive_rite :: "drive \<Rightarrow> sigil \<Rightarrow> sigil option \<Rightarrow> (cstate, unit) act" where
  "drive_rite d actor target =
     act_bind (spec_see (\<lambda>p. first_rite p actor)) (\<lambda>running.
       case running of
         Some (rid, m) \<Rightarrow> resume_rite d actor target rid m
       | None \<Rightarrow> act_bind (spec_see (\<lambda>p. pick_start_rite p (dr_canon d) (dr_verb d) target)) (\<lambda>r.
           case r of None \<Rightarrow> act_ret () | Some rite \<Rightarrow> start_rite d actor target rite))"

section \<open>Contact-bound waits\<close>

text \<open>
  After a burst that is_emitted something: the hit tail, and the end of the action if it still runs.
  \<open>start\<close> is the number of events before the burst.
\<close>

definition hit_tail :: "drive \<Rightarrow> cooked_rite \<Rightarrow> sigil \<Rightarrow> sigil option \<Rightarrow> nat \<Rightarrow> (cstate, unit) act" where
  "hit_tail d rite mover target start =
     act_bind spec_get (\<lambda>sd.
       if \<not> list_ex is_emitted (drop start (sd_events sd)) then act_ret ()
       else act_bind (drive_apply_hit d target) (\<lambda>_.
         act_bind (spec_see (\<lambda>p. proj_rite p mover (cr_id rite))) (\<lambda>m.
           if m \<noteq> None then spec_push_at (dr_tick d) (RiteEnded mover (cr_id rite) ReSuccess) else act_ret ())))"

definition hit_burst :: "drive \<Rightarrow> cooked_rite \<Rightarrow> sigil \<Rightarrow> sigil option \<Rightarrow> nat \<Rightarrow> bool \<Rightarrow> (cstate, unit) act" where
  "hit_burst d rite mover target pc tail =
     act_bind spec_get (\<lambda>sd.
       act_bind (run_burst d rite mover target pc) (\<lambda>_. if tail then hit_tail d rite mover target (length (sd_events sd)) else act_ret ()))"

text \<open>A wait that is not the track's window runs on its own clock.\<close>

definition motion_recovery :: "drive \<Rightarrow> cooked_rite \<Rightarrow> contact_track \<Rightarrow> sigil \<Rightarrow> rite_machine \<Rightarrow> nat \<Rightarrow> (cstate, unit) act" where
  "motion_recovery d rite track mover m elapsed =
     (let instrs = rc_instrs (cr_chunk rite) in
      act_bind (act_some RWitnessMismatch (find_index (\<lambda>i. ri_pc i = rm_pc m) instrs)) (\<lambda>ix.
      act_bind (act_some RWitnessMismatch (if ix = 0 then None else nth_opt instrs (ix - 1))) (\<lambda>prev.
        case ri_op prev of
          Wait duration ch \<Rightarrow>
            if elapsed < duration
            then spec_push_at (dr_tick d) (RiteAdvanced mover (cr_id rite) (rm_pc m) (duration - elapsed mod 65536))
            else act_bind (act_some RUnclaimedAgency (channel_from_u8 (track_channel track))) (\<lambda>ch.
              hit_burst (d\<lparr>dr_claimed := [ch]\<rparr>) rite mover (rm_target m) (rm_pc m) (rm_contact_hit m))
        | _ \<Rightarrow> act_fail RWitnessMismatch)))"

definition motion_hit :: "drive \<Rightarrow> cooked_rite \<Rightarrow> contact_track \<Rightarrow> rite_machine \<Rightarrow> motion_contact \<Rightarrow> (cstate, unit) act" where
  "motion_hit d rite track m claim =
     (let mover = mc_actor claim in
      act_bind (spec_see (\<lambda>p. rite_hittable p (dr_canon d) (mc_target claim))) (\<lambda>ok.
        if \<not> ok then act_fail RWitnessMismatch
        else act_bind (act_some RUnclaimedAgency (channel_from_u8 (track_channel track))) (\<lambda>ch.
          act_bind (spec_push_at (dr_tick d)
              (MotionContactAdmitted mover (instrument track) (mc_target claim) (cr_id rite) (rm_started_at m) (track_channel track) (mc_boundary claim)))
            (\<lambda>_. hit_burst (d\<lparr>dr_claimed := [ch]\<rparr>) rite mover (Some (mc_target claim)) (rm_pc m) True))))"

text \<open>The window of one body: \<open>past\<close> is the pc after the track's wait.\<close>

definition motion_window :: "drive \<Rightarrow> cooked_rite \<Rightarrow> contact_track \<Rightarrow> sigil \<Rightarrow> motion_contact list \<Rightarrow> rite_machine \<Rightarrow> nat \<Rightarrow> (cstate, unit) act" where
  "motion_window d rite track mover claims m past =
     (let elapsed = dr_tick d - rm_wait_at m; rid = cr_id rite in
      if elapsed > wait_ticks track \<and> rm_pc m = past then spec_push_at (dr_tick d) (RiteEnded mover rid ReFail)
      else if rm_pc m \<noteq> past then motion_recovery d rite track mover m elapsed
      else case find (\<lambda>k. mc_actor k = mover) claims of
          Some claim \<Rightarrow> motion_hit d rite track m claim
        | None \<Rightarrow>
            if elapsed < wait_ticks track
            then spec_push_at (dr_tick d) (RiteAdvanced mover rid (rm_pc m) (wait_ticks track - elapsed mod 65536))
            else spec_push_at (dr_tick d) (RiteEnded mover rid ReFail))"

definition admit_motion_window :: "canon \<Rightarrow> tick \<Rightarrow> motion_contact list \<Rightarrow> body_delta \<Rightarrow> (cstate, unit) act" where
  "admit_motion_window c t claims body =
     (let mover = bd_mover body; d = \<lparr>dr_canon = c, dr_verb = Use, dr_source = SrcPlayer, dr_claimed = [], dr_tick = t\<rparr> in
      case bt_get (cn_contact_tracks c) mover of
        None \<Rightarrow> act_ret ()
      | Some track \<Rightarrow>
          act_bind (act_some RWitnessMismatch (find (\<lambda>r. cr_name r = track_rite track) (cn_rites c))) (\<lambda>rite.
          act_bind (spec_see (\<lambda>p. proj_rite p mover (cr_id rite))) (\<lambda>running.
            case running of
              None \<Rightarrow> act_ret ()
            | Some m \<Rightarrow>
                let instrs = rc_instrs (cr_chunk rite) in
                if rm_contact_agency m \<noteq> track_channel track then act_fail RUnclaimedAgency
                else act_bind (act_some RWitnessMismatch (find_index (\<lambda>i. ri_pc i = wait_pc track) instrs)) (\<lambda>index.
                  act_bind (act_some RWitnessMismatch (nth_opt instrs (index + 1))) (\<lambda>past.
                    motion_window d rite track mover claims m (ri_pc past))))))"

definition admit_motion_windows :: "canon \<Rightarrow> tick \<Rightarrow> body_delta list \<Rightarrow> motion_contact list \<Rightarrow> (cstate, unit) act" where
  "admit_motion_windows c t bodies claims = act_each (admit_motion_window c t claims) bodies"

end
