(* ===== verification/CommitPhys.thy ===== *)
theory CommitPhys
  imports CommitRite
begin

text \<open>
  The physical side of \<open>klotho-commit\<close>: \<open>swept.rs\<close> for island bodies, \<open>motion_contact.rs\<close>, \<open>breakage.rs\<close> and the
  island checks of \<open>kernel.rs\<close>.  \<open>klotho-geom\<close> is called through \<open>geometry\<close>, the record of its functions
  over a type of cooked shapes; its errors carry no information the kernel keeps, so they are None.
\<close>

section \<open>Breaks\<close>

text \<open>\<open>breakage.rs\<close>: an admitted break detaches the joint, spawns its fragments and leaves its event.\<close>

definition max_fragments_global :: nat where
  "max_fragments_global = 128"

definition no_island :: nat where
  "no_island = 65535"

definition fragment_half_mm :: int where
  "fragment_half_mm = 50"

definition fragment_hull :: aabb where
  "fragment_hull = aabb_new (ivec3 (- fragment_half_mm) 0 (- fragment_half_mm)) (ivec3 fragment_half_mm (fragment_half_mm * 2) fragment_half_mm)"

definition fragment_count :: "nat \<Rightarrow> projection \<Rightarrow> nat" where
  "fragment_count mark p = length (filter (\<lambda>s. proj_has_affordance p s mark) (p_sigils p)) mod 65536"

definition detach_edge :: "tick \<Rightarrow> sigil \<times> sigil \<Rightarrow> (cstate, unit) act" where
  "detach_edge t e =
     act_bind (spec_see (\<lambda>p. proj_has_rel p (fst e) PartOf (snd e))) (\<lambda>has.
       if has then spec_push_at t (RelDeleted (fst e) (rel_as_u8 PartOf) (snd e)) else act_ret ())"

definition spawn_fragment :: "tick \<Rightarrow> nat \<Rightarrow> nat \<Rightarrow> pose \<Rightarrow> blob_id \<Rightarrow> nat \<Rightarrow> (cstate, unit) act" where
  "spawn_fragment t template mark origin bid i =
     act_bind (act_bind (spec_see alloc_spawn_sigil) lift_result) (\<lambda>s.
     act_bind (spec_push_at t (Spawned template s (origin\<lparr>px := sat32 (px origin + sat32 (int i * 80))\<rparr>))) (\<lambda>_.
     act_bind (spec_try RBudget (spec_set_affordance s mark True)) (\<lambda>_.
     act_bind (spec_try RBudget (spec_set_hull s fragment_hull bid)) (\<lambda>_.
       spec_try RBudget (spec_set_island s no_island 0)))))"

definition bound_hull :: "projection \<Rightarrow> sigil \<Rightarrow> blob_id option" where
  "bound_hull p s = (case proj_hull_id p s of None \<Rightarrow> None | Some i \<Rightarrow> if i = hash_zero then None else Some i)"

definition spawn_fragments :: "canon \<Rightarrow> tick \<Rightarrow> constraint_physics \<Rightarrow> (cstate, nat) act" where
  "spawn_fragments c t joint =
     (if fragments joint = 0 then act_ret 0
      else if fragments joint > max_collapse_fragments then act_fail RWitnessMismatch
      else act_bind (act_some RWitnessMismatch (canon_affordance_id c ''Fragment'')) (\<lambda>mark.
        act_bind (spec_see (fragment_count mark)) (\<lambda>existing.
          if min 65535 (existing + fragments joint) > max_fragments_global then act_fail RBudget
          else act_bind (spec_see (\<lambda>p. case or_else (proj_pose p (con_a joint)) (proj_pose p (con_b joint)) of None \<Rightarrow> pose_default | Some q \<Rightarrow> q)) (\<lambda>origin.
            act_bind (spec_see (\<lambda>p. case or_else (bound_hull p (con_a joint)) (bound_hull p (con_b joint)) of None \<Rightarrow> con_binding joint | Some h \<Rightarrow> h)) (\<lambda>bid.
            let template = (case find_index (\<lambda>n. n = ''Fragment'') (cn_facts c) of None \<Rightarrow> 0 | Some i \<Rightarrow> i) mod 65536 in
            act_bind (act_each (spawn_fragment t template mark origin bid) [0..<fragments joint]) (\<lambda>_.
            act_bind (spec_see (fragment_count mark)) (\<lambda>after.
              if after > max_fragments_global then act_fail RBudget else act_ret (fragments joint))))))))"

definition apply_constraint_break :: "canon \<Rightarrow> tick \<Rightarrow> constraint_break_claim \<Rightarrow> (cstate, unit) act" where
  "apply_constraint_break c t brk =
     act_bind (act_some RWrongHull (constraint_of c (kb_constraint brk))) (\<lambda>joint.
     act_bind (act_each (detach_edge t) [(con_a joint, con_b joint), (con_b joint, con_a joint)]) (\<lambda>_.
     act_bind (spawn_fragments c t joint) (\<lambda>spawned.
       spec_push_at t (ConstraintBroken (kb_constraint brk) (con_a joint) (con_b joint) (kb_impulse brk) spawned))))"

definition apply_constraint_breaks :: "canon \<Rightarrow> tick \<Rightarrow> constraint_break_claim list \<Rightarrow> (cstate, unit) act" where
  "apply_constraint_breaks c t = act_each (apply_constraint_break c t)"


section \<open>The geometry of cooked shapes\<close>

record 'sh geometry =
  g_cooked_shape :: "shape_kind \<Rightarrow> aabb \<Rightarrow> 'sh option"
  g_bounds :: "'sh \<Rightarrow> pose \<Rightarrow> aabb option"
  g_swept_against :: "'sh \<Rightarrow> pose \<Rightarrow> pose \<Rightarrow> 'sh \<Rightarrow> pose \<Rightarrow> (bool \<times> int) option"
  g_penetration_mm :: "'sh \<Rightarrow> pose \<Rightarrow> 'sh \<Rightarrow> pose \<Rightarrow> int option option"
  g_resolve_character :: "'sh \<Rightarrow> pose \<Rightarrow> ivec3 \<Rightarrow> character_physics \<Rightarrow> ('sh \<times> pose) list \<Rightarrow> pose option"
  g_verify_cooked :: "hull_witness \<Rightarrow> nat \<Rightarrow> shape_kind \<Rightarrow> aabb \<Rightarrow> pose \<Rightarrow> shape_kind \<Rightarrow> aabb \<Rightarrow> pose \<Rightarrow> bool"
  g_verify_sweep :: "(ivec3 \<times> ivec3) \<times> ivec3 \<times> ivec3 \<Rightarrow> int \<Rightarrow> 'sh \<Rightarrow> pose \<Rightarrow> sweep_sample \<Rightarrow> bool option"

definition contact_slop_mm :: int where
  "contact_slop_mm = 2"

definition need :: "reject_reason \<Rightarrow> 'a option \<Rightarrow> reject_reason + 'a" where
  "need e x = (case x of None \<Rightarrow> Inl e | Some y \<Rightarrow> Inr y)"

definition check :: "bool \<Rightarrow> reject_reason \<Rightarrow> reject_reason + unit" where
  "check ok e = (if ok then Inr () else Inl e)"

lemma need_check_simps [simp]:
  "need e x = Inr y \<longleftrightarrow> x = Some y" "need e x = Inl r \<longleftrightarrow> x = None \<and> r = e"
  "check ok e = Inr u \<longleftrightarrow> ok" "check ok e = Inl r \<longleftrightarrow> \<not> ok \<and> r = e"
  by (auto simp: need_def check_def split: option.splits)

section \<open>A body against closed occupancy\<close>

text \<open>A character may step up onto a low obstacle: up first, then over.\<close>

definition legal_step :: "'sh geometry \<Rightarrow> world_view \<Rightarrow> sigil \<Rightarrow> 'sh \<Rightarrow> pose \<Rightarrow> pose \<Rightarrow> shape_kind \<Rightarrow> 'sh \<Rightarrow> pose \<Rightarrow> reject_reason + bool" where
  "legal_step G v mover shape prev proposed occ_kind occ opose =
     (case view_character_physics v mover of
        None \<Rightarrow> Inr False
      | Some policy \<Rightarrow>
          let dy = sat32 (py proposed - py prev) in
          if dy > 0 \<and> dy \<le> step_mm policy \<and> \<not> is_static_occupancy occ_kind then
            let up = prev\<lparr>py := py proposed\<rparr> in
            rbind (need RWitnessMismatch (g_swept_against G shape prev up occ opose)) (\<lambda>first.
            rbind (need RWitnessMismatch (g_swept_against G shape up proposed occ opose)) (\<lambda>second.
              Inr (\<not> fst first \<and> \<not> fst second \<and> snd first \<le> contact_slop_mm \<and> snd second \<le> contact_slop_mm)))
          else Inr False)"

definition check_occupant :: "'sh geometry \<Rightarrow> world_view \<Rightarrow> sigil \<Rightarrow> 'sh \<Rightarrow> pose \<Rightarrow> pose \<Rightarrow> sigil \<Rightarrow> reject_reason + unit" where
  "check_occupant G v mover shape prev proposed s =
     (let p = vw_proj v in
      if s = mover \<or> \<not> opaque_closed p s then Inr ()
      else case proj_hull p s of
        None \<Rightarrow> Inr ()
      | Some ol \<Rightarrow> (case proj_pose p s of
          None \<Rightarrow> Inr ()
        | Some opose \<Rightarrow>
            let occ_kind = body_shape (view_body_physics v s) in
            rbind (need RWitnessMismatch (g_cooked_shape G occ_kind ol)) (\<lambda>occ.
            rbind (need RWitnessMismatch (g_swept_against G shape prev proposed occ opose)) (\<lambda>hit.
            rbind (legal_step G v mover shape prev proposed occ_kind occ opose) (\<lambda>legal.
              check (\<not> (fst hit \<and> \<not> legal \<or> snd hit > contact_slop_mm)) RWitnessMismatch)))))"

definition check_phys_body :: "'sh geometry \<Rightarrow> world_view \<Rightarrow> sigil \<Rightarrow> pose \<Rightarrow> blob_id \<Rightarrow> hull_witness \<Rightarrow> reject_reason + bool" where
  "check_phys_body G v mover proposed bid w =
     (let p = vw_proj v in
      if wrong_hull p mover bid then Inl RWrongHull
      else if hw_epoch w \<noteq> vw_epoch v then Inl RStaleEpoch
      else if \<not> is_dynamic (hw_shape w) then Inl RWitnessMismatch
      else if hw_shape w \<noteq> body_shape (view_body_physics v mover) then Inl RWrongHull
      else case proj_hull p mover of
        None \<Rightarrow> Inr False
      | Some local \<Rightarrow>
          rbind (need RWitnessMismatch (g_cooked_shape G (hw_shape w) local)) (\<lambda>shape.
          let prev = (case proj_pose p mover of None \<Rightarrow> proposed | Some q \<Rightarrow> q) in
          rbind (need RWitnessMismatch (g_bounds G shape prev)) (\<lambda>start_b.
          rbind (need RWitnessMismatch (g_bounds G shape proposed)) (\<lambda>end_b.
          rbind (rfold (\<lambda>_ s. check_occupant G v mover shape prev proposed s) ()
                   (sort (space_candidates p (aabb_union start_b end_b) True))) (\<lambda>_. Inr False)))))"

section \<open>Motion contacts\<close>

definition body_pose :: "projection \<Rightarrow> body_delta list \<Rightarrow> sigil \<Rightarrow> pose option" where
  "body_pose p bodies actor =
     (case find (\<lambda>b. bd_mover b = actor) bodies of Some b \<Rightarrow> Some (bd_pose b) | None \<Rightarrow> proj_pose p actor)"

definition root_point :: "pose \<Rightarrow> ivec3 \<Rightarrow> ivec3 option" where
  "root_point base q =
     (let q = rotate_vec q (pyaw base) (ppitch base) (proll base);
          x = px base + vx q; y = py base + vy q; z = pz base + vz q
      in if in_i32 x \<and> in_i32 y \<and> in_i32 z then Some (ivec3 x y z) else None)"

definition motion_geometry :: "world_view \<Rightarrow> body_delta list \<Rightarrow> sigil \<Rightarrow> nat \<Rightarrow> (((ivec3 \<times> ivec3) \<times> ivec3 \<times> ivec3) \<times> int \<times> sigil) option" where
  "motion_geometry v bodies actor sweep =
     Option.bind (view_contact_track v actor) (\<lambda>track.
     Option.bind (view_contact_window v actor) (\<lambda>(rid, m).
     Option.bind (view_contact_boundary v actor) (\<lambda>boundary.
     Option.bind (nth_opt (sweeps track) sweep) (\<lambda>channel.
     Option.bind (proj_pose (vw_proj v) actor) (\<lambda>start.
     Option.bind (find (\<lambda>b. bd_mover b = actor) bodies) (\<lambda>body.
     Option.bind (nth_opt (sweep_samples channel) boundary) (\<lambda>a.
     Option.bind (nth_opt (sweep_samples channel) (boundary + 1)) (\<lambda>b.
     Option.bind (root_point start (fst a)) (\<lambda>a0. Option.bind (root_point start (snd a)) (\<lambda>a1.
     Option.bind (root_point (bd_pose body) (fst b)) (\<lambda>b0. Option.bind (root_point (bd_pose body) (snd b)) (\<lambda>b1.
     Option.bind (rm_target m) (\<lambda>target.
       Some (((a0, a1), b0, b1), sweep_radius_mm channel, target))))))))))))))"

definition validate_motion_contact :: "'sh geometry \<Rightarrow> world_view \<Rightarrow> body_delta list \<Rightarrow> motion_contact \<Rightarrow> reject_reason + unit" where
  "validate_motion_contact G v bodies claim =
     (let p = vw_proj v; actor = mc_actor claim in
      rbind (need RUnclaimedAgency (view_contact_window v actor)) (\<lambda>(rid, m).
      rbind (check (view_character_physics v actor \<noteq> None \<and> view_contact_track v actor = Some (mc_track claim)
          \<and> view_contact_boundary v actor = Some (mc_boundary claim) \<and> mc_instance claim = rm_started_at m
          \<and> rm_target m = Some (mc_target claim) \<and> actor \<noteq> mc_target claim) RWitnessMismatch) (\<lambda>_.
      rbind (need RWitnessMismatch (motion_geometry v bodies actor (mc_sweep claim))) (\<lambda>(ends, radius, target).
      rbind (need RWrongHull (proj_hull p target)) (\<lambda>local.
      rbind (need RWrongHull (g_cooked_shape G (body_shape (view_body_physics v target)) local)) (\<lambda>shape.
      rbind (need RWitnessMismatch (body_pose p bodies target)) (\<lambda>target_pose.
        check (g_verify_sweep G ends radius shape target_pose (mc_witness claim) = Some True) RWitnessMismatch)))))))"

definition validate_motion_contacts :: "'sh geometry \<Rightarrow> world_view \<Rightarrow> body_delta list \<Rightarrow> motion_contact list \<Rightarrow> reject_reason + unit" where
  "validate_motion_contacts G v bodies claims =
     (if length claims > max_motion_contacts then Inl RIslandTooLarge
      else if \<not> windows2 (\<lambda>a b. mc_actor a < mc_actor b) claims then Inl RWitnessMismatch
      else rfold (\<lambda>_ claim. validate_motion_contact G v bodies claim) () claims)"

section \<open>The checks of an island\<close>

definition strictly_increasing_by :: "('a \<Rightarrow> 'k::linorder) \<Rightarrow> 'a list \<Rightarrow> bool" where
  "strictly_increasing_by key xs = windows2 (\<lambda>a b. key a < key b) xs"

text \<open>The slices searched by \<open>binary_search\<close> passed \<open>strictly_increasing\<close>, so a search is a membership test.\<close>

definition check_constraint_header :: "world_view \<Rightarrow> sigil list \<Rightarrow> constraint_ref \<Rightarrow> reject_reason + unit" where
  "check_constraint_header v members claim =
     (let p = vw_proj v in
      rbind (need RWrongHull (Option.bind (vw_canon v) (\<lambda>c. constraint_of c (kr_constraint claim)))) (\<lambda>k.
      rbind (check (con_binding k = kr_binding claim \<and> kr_binding claim \<noteq> hash_zero) RWrongHull) (\<lambda>_.
      rbind (check (constraint_valid k) RWitnessMismatch) (\<lambda>_.
      rbind (check (case constraint_state_of p (kr_constraint claim) of None \<Rightarrow> True | Some s \<Rightarrow> \<not> cs_broken s) RWitnessMismatch) (\<lambda>_.
      rbind (check (con_a k \<in> set members \<or> con_b k \<in> set members) RWitnessMismatch) (\<lambda>_.
        check (proj_packed p (con_a k) \<noteq> None \<and> proj_packed p (con_b k) \<noteq> None) RWitnessMismatch))))))"

definition check_break_header :: "world_view \<Rightarrow> constraint_ref list \<Rightarrow> constraint_break_claim \<Rightarrow> reject_reason + unit" where
  "check_break_header v constraints brk =
     rbind (need RWitnessMismatch (find (\<lambda>c. kr_constraint c = kb_constraint brk) constraints)) (\<lambda>r.
     rbind (need RWrongHull (Option.bind (vw_canon v) (\<lambda>c. constraint_of c (kb_constraint brk)))) (\<lambda>k.
     rbind (check (\<not> (break_impulse k \<le> 0 \<or> kb_impulse brk < break_impulse k)) RWitnessMismatch) (\<lambda>_.
       check (kr_impulse r = kb_impulse brk) RWitnessMismatch)))"

definition validate_constraint_headers :: "world_view \<Rightarrow> sigil list \<Rightarrow> constraint_ref list \<Rightarrow> constraint_break_claim list \<Rightarrow> reject_reason + unit" where
  "validate_constraint_headers v members constraints breaks =
     rbind (rfold (\<lambda>_. check_constraint_header v members) () constraints) (\<lambda>_.
       rfold (\<lambda>_. check_break_header v constraints) () breaks)"

definition validate_contact_header :: "world_view \<Rightarrow> sigil list \<Rightarrow> body_delta list \<Rightarrow> contact_claim \<Rightarrow> reject_reason + unit" where
  "validate_contact_header v members bodies k =
     (let p = vw_proj v; w = ck_witness k in
      rbind (check (\<not> (ck_a k \<ge> ck_b k \<or> hw_mover w \<noteq> ck_a k \<or> proj_packed p (ck_a k) = None \<or> proj_packed p (ck_b k) = None
          \<or> ck_a k \<notin> set members \<and> ck_b k \<notin> set members)) RWitnessMismatch) (\<lambda>_.
      rbind (check (proj_hull_id p (ck_a k) = Some (ck_shape_a k) \<and> proj_hull_id p (ck_b k) = Some (ck_shape_b k)
          \<and> body_shape (view_body_physics v (ck_a k)) = ck_kind_a k \<and> body_shape (view_body_physics v (ck_b k)) = ck_kind_b k) RWrongHull) (\<lambda>_.
        check (body_pose p bodies (ck_a k) = Some (hw_proposed w)) RWitnessMismatch)))"

definition validate_contact_claim :: "'sh geometry \<Rightarrow> world_view \<Rightarrow> contact_claim \<Rightarrow> reject_reason + unit" where
  "validate_contact_claim G v k =
     (let p = vw_proj v; w = ck_witness k in
      rbind (check (hw_epoch w = vw_epoch v) RStaleEpoch) (\<lambda>_.
      rbind (check (hw_shape w = ck_kind_a k \<and> is_dynamic (ck_kind_a k) \<and> is_dynamic (ck_kind_b k) \<and> hw_evidence w \<noteq> None) RWitnessMismatch) (\<lambda>_.
      rbind (need RWrongHull (proj_hull p (ck_a k))) (\<lambda>la.
      rbind (need RWrongHull (proj_hull p (ck_b k))) (\<lambda>lb.
      rbind (need RWitnessMismatch (proj_pose p (ck_a k))) (\<lambda>qa.
      rbind (need RWitnessMismatch (proj_pose p (ck_b k))) (\<lambda>qb.
        check (g_verify_cooked G w (vw_epoch v) (ck_kind_a k) la qa (ck_kind_b k) lb qb) RWitnessMismatch)))))))"

definition check_island_body :: "'sh geometry \<Rightarrow> world_view \<Rightarrow> sigil list \<Rightarrow> body_delta \<Rightarrow> reject_reason + bool" where
  "check_island_body G v members body =
     (let w = bd_witness body; mover = bd_mover body in
      if attach_parent (vw_proj v) mover \<noteq> None \<or> mover \<notin> set members \<or> hw_mover w \<noteq> mover \<or> hw_proposed w \<noteq> bd_pose body
      then Inl RWitnessMismatch
      else check_phys_body G v mover (bd_pose body) (bd_hull body) w)"

text \<open>Every unattached relic and driven actor of the island must be solved.\<close>

definition member_solved :: "world_view \<Rightarrow> body_delta list \<Rightarrow> sigil \<Rightarrow> bool" where
  "member_solved v bodies m \<longleftrightarrow>
     ((proj_kind (vw_proj v) m = Some Relic \<or> view_character_physics v m \<noteq> None) \<and> attach_parent (vw_proj v) m = None
      \<longrightarrow> m \<in> bd_mover ` set bodies)"

definition island_members :: "projection \<Rightarrow> nat \<Rightarrow> sigil list" where
  "island_members p island = sort (filter (\<lambda>s. map_option fst (proj_island p s) = Some island) (p_sigils p))"

definition validate_phys_island :: "'sh geometry \<Rightarrow> world_view \<Rightarrow> tick \<Rightarrow> phys_island \<Rightarrow> reject_reason + bool list" where
  "validate_phys_island G v t ph =
     (if ph_epoch ph \<noteq> vw_epoch v \<or> ph_tick ph \<noteq> t then Inl REpochMismatch
      else if length (ph_members ph) > max_phys_island_members \<or> length (ph_bodies ph) > max_phys_island_bodies
        \<or> length (ph_contacts ph) > max_phys_island_contacts \<or> length (ph_constraints ph) > max_phys_island_constraints
        \<or> length (ph_breaks ph) > max_phys_island_breaks then Inl RIslandTooLarge
      else if ph_id ph = no_island \<or> ph_members ph = [] \<or> ph_bodies ph = [] then Inl RWitnessMismatch
      else if \<not> strictly_increasing_by (\<lambda>s. s) (ph_members ph) \<or> \<not> strictly_increasing_by bd_mover (ph_bodies ph)
        \<or> \<not> strictly_increasing_by contact_claim_key (ph_contacts ph) \<or> \<not> strictly_increasing_by kr_constraint (ph_constraints ph)
        \<or> \<not> strictly_increasing_by kb_constraint (ph_breaks ph) then Inl RWitnessMismatch
      else if island_members (vw_proj v) (ph_id ph) \<noteq> ph_members ph then Inl RWitnessMismatch
      else rbind (validate_constraint_headers v (ph_members ph) (ph_constraints ph) (ph_breaks ph)) (\<lambda>_.
        rbind (rfold (\<lambda>hs body. rbind (check_island_body G v (ph_members ph) body) (\<lambda>h. Inr (hs @ [h]))) [] (ph_bodies ph)) (\<lambda>hits.
        rbind (check (list_all (member_solved v (ph_bodies ph)) (ph_members ph)) RWitnessMismatch) (\<lambda>_.
        rbind (rfold (\<lambda>_. validate_contact_header v (ph_members ph) (ph_bodies ph)) () (ph_contacts ph)) (\<lambda>_. Inr hits)))))"

section \<open>What an island writes\<close>

definition attached_children :: "projection \<Rightarrow> sigil \<Rightarrow> sigil list" where
  "attached_children p parent =
     sort (filter (\<lambda>s. s \<noteq> parent \<and> (proj_has_rel p s PilotedBy parent \<or> proj_has_rel p s AttachedTo parent)) (p_sigils p))"

definition compose_yaw_only :: "pose \<Rightarrow> ivec3 \<Rightarrow> pose" where
  "compose_yaw_only parent local =
     (let r = rotate_xz local (pyaw parent) in
      parent\<lparr>px := wrap32 (px parent + vx r), py := wrap32 (py parent + vy r), pz := wrap32 (pz parent + vz r)\<rparr>)"

definition child_local :: "projection \<Rightarrow> sigil \<Rightarrow> sigil \<Rightarrow> ivec3" where
  "child_local p child parent =
     (let c = (case proj_pose p child of None \<Rightarrow> pose_default | Some q \<Rightarrow> q);
          r = (case proj_pose p parent of None \<Rightarrow> pose_default | Some q \<Rightarrow> q)
      in rotate_xz (ivec3 (wrap32 (px c - px r)) (wrap32 (py c - py r)) (wrap32 (pz c - pz r))) (yaw_wrapping_sub 0 (pyaw r)))"

definition claim_child :: "projection \<Rightarrow> sigil list \<Rightarrow> sigil \<Rightarrow> (sigil, sigil \<times> ivec3) btree \<Rightarrow> sigil \<Rightarrow> reject_reason + (sigil, sigil \<times> ivec3) btree" where
  "claim_child p body_ids mover m child =
     (if child \<in> set body_ids \<or> bt_has m child then Inl RWitnessMismatch
      else Inr (bt_insert child (mover, case proj_attach_local p child of None \<Rightarrow> child_local p child mover | Some l \<Rightarrow> l) m))"

definition phys_children :: "projection \<Rightarrow> body_delta list \<Rightarrow> reject_reason + (sigil, sigil \<times> ivec3) btree" where
  "phys_children p bodies =
     rfold (\<lambda>m body. rfold (claim_child p (map bd_mover bodies) (bd_mover body)) m (attached_children p (bd_mover body))) [] bodies"

definition phys_write_cells :: "projection \<Rightarrow> body_delta list \<Rightarrow> constraint_ref list \<Rightarrow> reject_reason + (sigil \<times> nat) list \<times> (sigil \<times> sigil \<times> ivec3) list" where
  "phys_write_cells p bodies constraints =
     rbind (phys_children p bodies) (\<lambda>children.
       if length children > max_phys_island_children
         \<or> length bodies + length children + length constraints > max_phys_island_write_loci then Inl RIslandTooLarge
       else Inr (map (\<lambda>b. (bd_mover b, 0)) bodies @ map (\<lambda>(c, _). (c, 0)) children @ map (\<lambda>k. (kr_constraint k, 1)) constraints,
                 children))"

definition apply_body_delta :: "nat \<Rightarrow> body_delta \<Rightarrow> (cstate, unit) act" where
  "apply_body_delta island b =
     act_each (spec_try RBudget)
       [spec_set_pose (bd_mover b) (bd_pose b), spec_set_vel (bd_mover b) (bd_vel b) (bd_yaw_rate b),
        spec_set_rates (bd_mover b) (bd_yaw_rate b) (bd_pitch_rate b) (bd_roll_rate b),
        spec_set_island (bd_mover b) island (bd_sleep b), spec_set_support (bd_mover b) (bd_support b),
        spec_clear_phys_req (bd_mover b)]"

definition apply_attachment :: "sigil \<times> sigil \<times> ivec3 \<Rightarrow> (cstate, unit) act" where
  "apply_attachment a =
     (let (child, parent, local) = a in
      act_bind (act_bind (spec_see (\<lambda>p. proj_pose p parent)) (act_some RWitnessMismatch)) (\<lambda>q.
      act_bind (spec_try RBudget (spec_set_pose child (compose_yaw_only q local))) (\<lambda>_.
        spec_try RBudget (spec_clear_phys_req child))))"

definition apply_constraint :: "constraint_break_claim list \<Rightarrow> constraint_ref \<Rightarrow> (cstate, unit) act" where
  "apply_constraint breaks k =
     spec_set (spec_set_constraint (kr_constraint k)
       \<lparr>cs_impulse = kr_impulse k, cs_broken = list_ex (\<lambda>b. kb_constraint b = kr_constraint k) breaks\<rparr>)"

section \<open>Driven characters\<close>

text \<open>
  The character sweep of one body: \<open>before\<close> is the live view with its canon, \<open>p\<close> the speculative
  projection.  \<open>posed_shape\<close> is a locus with both hull and pose.
\<close>

definition posed_shape :: "'sh geometry \<Rightarrow> world_view \<Rightarrow> projection \<Rightarrow> sigil \<Rightarrow> reject_reason + ('sh \<times> pose) option" where
  "posed_shape G before p s =
     (case (proj_hull p s, proj_pose p s) of
        (Some local, Some q) \<Rightarrow>
          rbind (need RWitnessMismatch (g_cooked_shape G (body_shape (view_body_physics before s)) local)) (\<lambda>sh. Inr (Some (sh, q)))
      | _ \<Rightarrow> Inr None)"

definition blocks_character :: "world_view \<Rightarrow> projection \<Rightarrow> sigil \<Rightarrow> sigil \<Rightarrow> bool" where
  "blocks_character before p mover s \<longleftrightarrow>
     (sigil_kind s = Some Place \<or> body_mode_of (view_body_physics before s) = Static \<or> opaque_closed p s) \<and> s \<noteq> mover"

definition gather_obstacle :: "'sh geometry \<Rightarrow> world_view \<Rightarrow> projection \<Rightarrow> sigil \<Rightarrow> aabb \<Rightarrow> ('sh \<times> pose) list \<Rightarrow> sigil \<Rightarrow> reject_reason + ('sh \<times> pose) list" where
  "gather_obstacle G before p mover sweep acc s =
     (if \<not> blocks_character before p mover s then Inr acc
      else rbind (posed_shape G before p s) (\<lambda>found.
        case found of
          None \<Rightarrow> Inr acc
        | Some (sh, q) \<Rightarrow> rbind (need RWitnessMismatch (g_bounds G sh q)) (\<lambda>b.
            Inr (if aabb_intersects b sweep then acc @ [(sh, q)] else acc))))"

definition character_sweep :: "aabb \<Rightarrow> aabb \<Rightarrow> aabb" where
  "character_sweep a b =
     (let u = aabb_union a b in
      u\<lparr>bmin := (bmin u)\<lparr>vy := sat32 (vy (bmin u) - 503)\<rparr>, bmax := (bmax u)\<lparr>vy := sat32 (vy (bmax u) + 503)\<rparr>\<rparr>)"

definition check_penetration :: "'sh geometry \<Rightarrow> world_view \<Rightarrow> projection \<Rightarrow> sigil \<Rightarrow> 'sh \<Rightarrow> pose \<Rightarrow> sigil \<Rightarrow> reject_reason + unit" where
  "check_penetration G before p mover shape q other =
     (if other = mover \<or> attach_parent p other = Some mover then Inr ()
      else rbind (posed_shape G before p other) (\<lambda>found.
        case found of
          None \<Rightarrow> Inr ()
        | Some (sh, oq) \<Rightarrow> rbind (need RWitnessMismatch (g_penetration_mm G shape q sh oq)) (\<lambda>d.
            check (\<not> (case d of None \<Rightarrow> 0 | Some x \<Rightarrow> x) > contact_slop_mm) RWitnessMismatch)))"

definition check_character :: "'sh geometry \<Rightarrow> world_view \<Rightarrow> projection \<Rightarrow> body_delta \<Rightarrow> reject_reason + unit" where
  "check_character G before p body =
     (let mover = bd_mover body; q = bd_pose body in
      case view_character_physics before mover of
        None \<Rightarrow> Inr ()
      | Some policy \<Rightarrow>
          rbind (need RWrongHull (proj_hull p mover)) (\<lambda>local.
          rbind (need RWitnessMismatch (g_cooked_shape G (hw_shape (bd_witness body)) local)) (\<lambda>shape.
          rbind (need RWitnessMismatch (proj_pose (vw_proj before) mover)) (\<lambda>previous.
          rbind (need RWitnessMismatch (g_bounds G shape previous)) (\<lambda>start_b.
          rbind (need RWitnessMismatch (g_bounds G shape q)) (\<lambda>end_b.
          let sweep = character_sweep start_b end_b in
          rbind (rfold (gather_obstacle G before p mover sweep) [] (sort (space_candidates p sweep False))) (\<lambda>obstacles.
          rbind (need RWitnessMismatch (g_resolve_character G shape previous
              (ivec3_wrapping_sub (pose_translation q) (pose_translation previous)) policy obstacles)) (\<lambda>reproduced.
          rbind (check (\<not> (\<bar>px reproduced - px q\<bar> > 2 \<or> \<bar>pz reproduced - pz q\<bar> > 2)) RWitnessMismatch) (\<lambda>_.
            rfold (\<lambda>_. check_penetration G before p mover shape q) () (sort (space_candidates p end_b False)))))))))))"

definition validate_character_geometry :: "'sh geometry \<Rightarrow> world_view \<Rightarrow> projection \<Rightarrow> body_delta list \<Rightarrow> reject_reason + unit" where
  "validate_character_geometry G before p bodies = rfold (\<lambda>_. check_character G before p) () bodies"

end
