(* ===== verification/CommitPartition.thy ===== *)
theory CommitPartition
  imports CommitPhys
begin

text \<open>
  \<open>klotho-commit/src/partition.rs\<close>: the islands of a tick.  Bodies are numbered in locus order; the flood
  pops its stack until it is empty, the joints are run until nothing more is reached, and a union-find keeps the
  groups.  \<open>find\<close> halves paths, so its loop is given the number of bodies as fuel.
\<close>

section \<open>Which bodies take part\<close>

definition resting :: "projection \<Rightarrow> sigil \<Rightarrow> bool" where
  "resting p s \<longleftrightarrow> (case proj_vel p s of None \<Rightarrow> True | Some (v, yaw) \<Rightarrow> v = vel_zero \<and> yaw = 0)"

definition sleep_of :: "projection \<Rightarrow> sigil \<Rightarrow> nat" where
  "sleep_of p s = (case proj_island p s of None \<Rightarrow> 0 | Some (i, t) \<Rightarrow> t)"

definition is_idle_scenery :: "projection \<Rightarrow> sigil \<Rightarrow> bool" where
  "is_idle_scenery p s \<longleftrightarrow> opaque_closed p s \<and> sleep_of p s = 0 \<and> proj_phys_req p s = None \<and> resting p s"

definition is_attach_node :: "projection \<Rightarrow> sigil \<Rightarrow> bool" where
  "is_attach_node p s \<longleftrightarrow> list_ex (\<lambda>r. related_slice p s r \<noteq> []) [PilotedBy, AttachedTo]"

definition is_phys_body :: "world_view \<Rightarrow> sigil \<Rightarrow> bool" where
  "is_phys_body v s \<longleftrightarrow>
     (let p = vw_proj v; mode = body_mode_of (view_body_physics v s) in
      mode \<noteq> Static \<and>
      (case sigil_kind s of
         Some Actor \<Rightarrow> True
       | Some Relic \<Rightarrow>
           (mode = Dynamic \<or> \<not> resting p s \<or> (case proj_rates p s of None \<Rightarrow> False | Some r \<Rightarrow> r \<noteq> (0, 0, 0)))
           \<and> (\<not> is_idle_scenery p s \<or> is_attach_node p s)
       | _ \<Rightarrow> False))"

definition attached_to_awake :: "projection \<Rightarrow> sigil \<Rightarrow> bool" where
  "attached_to_awake p s \<longleftrightarrow>
     list_ex (\<lambda>r. list_ex (\<lambda>q. is_phys_awake (sleep_of p q)) (related_slice p s r)) [PilotedBy, AttachedTo]"

definition is_seed :: "world_view \<Rightarrow> sigil \<Rightarrow> bool" where
  "is_seed v s \<longleftrightarrow>
     (let p = vw_proj v in
      proj_sim_lod p s = Full \<and> is_phys_body v s
      \<and> (is_phys_awake (sleep_of p s) \<or> \<not> resting p s \<or> proj_phys_req p s \<noteq> None \<or> attached_to_awake p s))"

text \<open>The bounds of a body; a driven character's are padded by its reach and its step.\<close>

definition pad_character :: "character_physics \<Rightarrow> aabb \<Rightarrow> aabb" where
  "pad_character c b =
     (let extent = Max (insert 0 (set (map (\<lambda>r. max \<bar>vx r\<bar> \<bar>vz r\<bar>) (roots c)))); pad = sat32 (wrap32 extent + 1000) in
      aabb_new
        (ivec3 (sat32 (vx (bmin b) - pad)) (sat32 (vy (bmin b) - wrap32 (step_mm c + 3))) (sat32 (vz (bmin b) - pad)))
        (ivec3 (sat32 (vx (bmax b) + pad)) (sat32 (vy (bmax b) + step_mm c)) (sat32 (vz (bmax b) + pad))))"

definition posed_bounds :: "'sh geometry \<Rightarrow> world_view \<Rightarrow> sigil \<Rightarrow> aabb option" where
  "posed_bounds G v s =
     (let p = vw_proj v in
      Option.bind (proj_hull p s) (\<lambda>local. Option.bind (proj_pose p s) (\<lambda>q.
      Option.bind (g_cooked_shape G (body_shape (view_body_physics v s)) local) (\<lambda>shape.
        map_option (\<lambda>b. case view_character_physics v s of None \<Rightarrow> b | Some c \<Rightarrow> pad_character c b) (g_bounds G shape q)))))"

definition body_hulls :: "'sh geometry \<Rightarrow> world_view \<Rightarrow> (sigil \<times> aabb) list" where
  "body_hulls G v =
     List.map_filter (\<lambda>s. if is_phys_body v s then map_option (Pair s) (posed_bounds G v s) else None) (p_sigils (vw_proj v))"

section \<open>Union-find\<close>

fun uf_find :: "nat \<Rightarrow> nat list \<Rightarrow> nat \<Rightarrow> nat \<times> nat list" where
  "uf_find 0 parent x = (x, parent)"
| "uf_find (Suc k) parent x =
     (if parent ! x = x then (x, parent)
      else let p = parent ! x in uf_find k (parent[x := parent ! p]) p)"

record forest =
  uf_parent :: "nat list"
  uf_rank :: "nat list"

definition uf_root :: "nat \<Rightarrow> forest \<Rightarrow> nat \<times> forest" where
  "uf_root x f = (let (r, ps) = uf_find (length (uf_parent f)) (uf_parent f) x in (r, f\<lparr>uf_parent := ps\<rparr>))"

definition uf_link :: "nat \<Rightarrow> nat \<Rightarrow> forest \<Rightarrow> forest" where
  "uf_link ra rb f =
     (let (ra, rb) = (if uf_rank f ! ra < uf_rank f ! rb then (rb, ra) else (ra, rb));
          f = f\<lparr>uf_parent := (uf_parent f)[rb := ra]\<rparr>
      in if uf_rank f ! ra = uf_rank f ! rb then f\<lparr>uf_rank := (uf_rank f)[ra := min 255 (uf_rank f ! ra + 1)]\<rparr> else f)"

definition uf_union :: "nat \<Rightarrow> nat \<Rightarrow> forest \<Rightarrow> forest" where
  "uf_union a b f =
     (let (ra, f) = uf_root a f; (rb, f) = uf_root b f in if ra = rb then f else uf_link ra rb f)"

section \<open>The flood\<close>

text \<open>The bodies a body touches, in the order of the space query.\<close>

definition touched :: "projection \<Rightarrow> (sigil \<times> aabb) list \<Rightarrow> nat \<Rightarrow> nat list" where
  "touched p hulls u =
     (let box = snd (hulls ! u) in
      filter (\<lambda>j. j \<noteq> u \<and> aabb_intersects box (snd (hulls ! j)))
        (List.map_filter (\<lambda>s. find_index (\<lambda>h. fst h = s) hulls) (space_candidates p box False)))"

definition flood_edge :: "nat \<Rightarrow> bool list \<Rightarrow> nat \<Rightarrow> forest \<times> nat list \<Rightarrow> forest \<times> nat list" where
  "flood_edge u reached j s = (uf_union u j (fst s), if reached ! j then snd s else j # snd s)"

text \<open>\<open>reached\<close> holds one flag per body; a body that is popped a second time is skipped.\<close>

function (sequential) flood :: "(nat \<Rightarrow> nat list) \<Rightarrow> nat list \<Rightarrow> bool list \<Rightarrow> forest \<Rightarrow> bool list \<times> forest" where
  "flood touch [] reached f = (reached, f)"
| "flood touch (u # stack) reached f =
     (if u \<ge> length reached \<or> reached ! u then flood touch stack reached f
      else let reached = reached[u := True]; (f, stack) = fold (flood_edge u reached) (touch u) (f, stack)
        in flood touch stack reached f)"
  by pat_completeness auto
termination
proof (relation "measures [\<lambda>(touch, stack, reached, f). length (filter Not reached), \<lambda>(touch, stack, reached, f). length stack]", goal_cases)
  case (3 touch u stack reached f x y a b)
  then have "u < length reached" "\<not> reached ! u" by auto
  then have "length (filter Not (reached[u := True])) < length (filter Not reached)"
  proof (induction reached arbitrary: u)
    case (Cons r rs)
    then show ?case by (cases u) auto
  qed simp
  then show ?case using 3 by simp
qed auto

definition flood_seeds :: "(nat \<Rightarrow> nat list) \<Rightarrow> nat list \<Rightarrow> bool list \<times> forest \<Rightarrow> bool list \<times> forest" where
  "flood_seeds touch seeds s = fold (\<lambda>i (reached, f). flood touch [i] reached f) seeds s"

section \<open>Joints\<close>

text \<open>One pass over the intact joints between bodies; the flag says that a body was newly reached.\<close>

definition joint_edge :: "nat \<times> nat \<Rightarrow> bool \<times> bool list \<times> forest \<Rightarrow> bool \<times> bool list \<times> forest" where
  "joint_edge e s =
     (let (progressed, reached, f) = s; (ia, ib) = e;
          f = (if reached ! ia \<or> reached ! ib then uf_union ia ib f else f);
          (progressed, reached) = (if reached ! ia \<and> \<not> reached ! ib then (True, reached[ib := True]) else (progressed, reached));
          (progressed, reached) = (if reached ! ib \<and> \<not> reached ! ia then (True, reached[ia := True]) else (progressed, reached))
      in (progressed, reached, f))"

definition joint_pass :: "(nat \<times> nat) list \<Rightarrow> bool list \<times> forest \<Rightarrow> bool \<times> bool list \<times> forest" where
  "joint_pass joints s = fold joint_edge joints (False, s)"

text \<open>Every pass that makes progress reaches a body, so one pass per body and a last one are enough.\<close>

fun joint_loop :: "nat \<Rightarrow> (nat \<times> nat) list \<Rightarrow> bool list \<times> forest \<Rightarrow> bool list \<times> forest" where
  "joint_loop 0 joints s = s"
| "joint_loop (Suc k) joints s =
     (let (progressed, s) = joint_pass joints s in if progressed then joint_loop k joints s else s)"

definition body_joints :: "world_view \<Rightarrow> (sigil \<times> aabb) list \<Rightarrow> (nat \<times> nat) list" where
  "body_joints v hulls =
     List.map_filter (\<lambda>(k, joint).
         if (case constraint_state_of (vw_proj v) k of None \<Rightarrow> False | Some st \<Rightarrow> cs_broken st) then None
         else Option.bind (find_index (\<lambda>h. fst h = con_a joint) hulls) (\<lambda>ia.
           map_option (Pair ia) (find_index (\<lambda>h. fst h = con_b joint) hulls)))
       (case vw_canon v of None \<Rightarrow> [] | Some c \<Rightarrow> cn_constraints c)"

section \<open>Groups\<close>

record partition =
  pt_islands :: "(nat \<times> sigil list) list"
  pt_too_large :: nat
  pt_too_many :: nat

definition group_step :: "(sigil \<times> aabb) list \<Rightarrow> bool list \<Rightarrow> nat \<Rightarrow> (nat, sigil list) btree \<times> forest \<Rightarrow> (nat, sigil list) btree \<times> forest" where
  "group_step hulls reached i s =
     (let (groups, f) = s in
      if \<not> reached ! i then s
      else let (root, f) = uf_root i f; old = (case bt_get groups root of None \<Rightarrow> [] | Some g \<Rightarrow> g)
        in (bt_insert root (old @ [fst (hulls ! i)]) groups, f))"

definition groups_of :: "(sigil \<times> aabb) list \<Rightarrow> bool list \<times> forest \<Rightarrow> sigil list list" where
  "groups_of hulls s = map snd (fst (fold (group_step hulls (fst s)) [0..<length hulls] ([], snd s)))"

definition rank_groups :: "nat \<Rightarrow> nat \<Rightarrow> sigil list list \<Rightarrow> partition" where
  "rank_groups max_islands max_size groups =
     (let sorted = map sort groups;
          fits = sort_key hd (filter (\<lambda>g. length g \<le> max_size) sorted)
      in \<lparr>pt_islands = enumerate 0 (take max_islands fits),
          pt_too_large = min (2 ^ 32 - 1) (length (filter (\<lambda>g. \<not> length g \<le> max_size) sorted)),
          pt_too_many = min (2 ^ 32 - 1) (length fits - max_islands)\<rparr>)"

definition partition_with_caps :: "'sh geometry \<Rightarrow> world_view \<Rightarrow> nat \<Rightarrow> nat \<Rightarrow> partition" where
  "partition_with_caps G v max_islands max_size =
     (let hulls = body_hulls G v; n = length hulls;
          seeds = filter (\<lambda>i. is_seed v (fst (hulls ! i))) [0..<n];
          start = (replicate n False, \<lparr>uf_parent = [0..<n], uf_rank = replicate n 0\<rparr>);
          flooded = flood_seeds (touched (vw_proj v) hulls) seeds start
      in rank_groups max_islands max_size (groups_of hulls (joint_loop (Suc n) (body_joints v hulls) flooded)))"

definition max_islands :: nat where
  "max_islands = 65535"

definition max_island_size :: nat where
  "max_island_size = 256"

definition partition_islands :: "'sh geometry \<Rightarrow> world_view \<Rightarrow> partition" where
  "partition_islands G v = partition_with_caps G v max_islands max_island_size"

end
