(* ===== verification/CommitKernel.thy ===== *)
theory CommitKernel
  imports CommitPartition
begin

text \<open>
  \<open>klotho-commit/src/kernel.rs\<close> and \<open>admit.rs\<close>: ingest, the order of a batch, the admission of one proposal as
  one transaction, and the tick.  \<open>H\<close> is blake3, \<open>G\<close> the geometry.  \<open>approx_bytes\<close>, an estimate of memory that only
  goes into the reported delta, is the argument \<open>B\<close>.  A synchronous proposer is a function of the view and \<open>dt\<close>.
\<close>

record kernel =
  k_world :: world
  k_heap :: "(proposal \<times> nat) list"
  k_players :: "(nat, sigil) btree"
  k_partition_rejects :: "(proposal_kind \<times> reject_reason) list"
  k_ring :: rewind_ring
  k_rewind_used :: nat

type_synonym write_cell = "sigil \<times> nat"
type_synonym written = "(write_cell, unit) btree"

definition kernel_new :: "world \<Rightarrow> kernel" where
  "kernel_new w = \<lparr>k_world = w, k_heap = [], k_players = [], k_partition_rejects = [], k_ring = ring_new 0, k_rewind_used = 0\<rparr>"

definition bind_player :: "nat \<Rightarrow> sigil \<Rightarrow> kernel \<Rightarrow> kernel" where
  "bind_player i s k = k\<lparr>k_players := bt_insert i s (k_players k)\<rparr>"

definition ingest_from :: "proposal \<Rightarrow> nat \<Rightarrow> kernel \<Rightarrow> kernel" where
  "ingest_from p ix k = k\<lparr>k_heap := k_heap k @ [(p, ix)]\<rparr>"

definition ingest :: "proposal \<Rightarrow> kernel \<Rightarrow> kernel" where
  "ingest p = ingest_from p 0"

section \<open>Preflight\<close>

fun resolve_target :: "intent_target \<Rightarrow> canon \<Rightarrow> sigil option" where
  "resolve_target NoIntent c = None"
| "resolve_target (AtSigil s) c = Some s"
| "resolve_target (AtName n) c = canon_pin c n"

definition hittable_target :: "projection \<Rightarrow> canon \<Rightarrow> sigil \<Rightarrow> bool" where
  "hittable_target p c t \<longleftrightarrow> has_named p c t ''Hittable''"

text \<open>The agent of a proposal and whether its sweep met a closed hull.\<close>

definition preflight_player :: "kernel \<Rightarrow> tick \<Rightarrow> budget \<Rightarrow> player_intent \<Rightarrow> reject_reason + agent \<times> bool" where
  "preflight_player k t b q =
     (let w = k_world k; c = wd_canon w in
      rbind (need RBudget (bt_get (k_players k) (pi_player q))) (\<lambda>actor.
      let target = resolve_target (pi_target q) c;
          age = t - pi_at q;
          combat = pi_verb q = Fire \<or> pi_verb q = Use \<and> (case target of None \<Rightarrow> False | Some x \<Rightarrow> hittable_target (wd_view w) c x)
      in rbind (check (\<not> (if rewind_ticks b > 0 \<and> combat then age > rewind_ticks b else age > eval_slo_ticks b)) RStaleEpoch) (\<lambda>_.
         rbind (check (\<not> (pi_verb q = Time \<and> pi_claimed q = [])) RUnclaimedAgency) (\<lambda>_.
           Inr (\<lparr>ag_actor = actor, ag_target = target, ag_verb = pi_verb q, ag_source = SrcPlayer, ag_claimed = pi_claimed q\<rparr>, False)))))"

definition preflight_mind :: "canon \<Rightarrow> mind_intent \<Rightarrow> reject_reason + agent \<times> bool" where
  "preflight_mind c m =
     (if mi_verb m = Time then Inl RUnclaimedAgency
      else Inr (\<lparr>ag_actor = mi_locus m, ag_target = resolve_target (mi_target m) c, ag_verb = mi_verb m, ag_source = SrcMind, ag_claimed = []\<rparr>, False))"

definition preflight_infer :: "canon \<Rightarrow> infer_intent \<Rightarrow> reject_reason + agent \<times> bool" where
  "preflight_infer c i =
     (if ii_verb i = Time then Inl RUnclaimedAgency
      else rbind (need RHallucinatedFact (ii_locus i)) (\<lambda>actor.
        if ii_claimed_facts i \<noteq> [] then Inl RHallucinatedFact
        else Inr (\<lparr>ag_actor = actor, ag_target = resolve_target (ii_target i) c, ag_verb = ii_verb i, ag_source = SrcInfer, ag_claimed = []\<rparr>, False)))"

definition preflight_move :: "world \<Rightarrow> source_kind \<Rightarrow> body_move \<Rightarrow> reject_reason + agent \<times> bool" where
  "preflight_move w source m =
     (let hw = bm_witness m in
      if hw_mover hw \<noteq> bm_mover m then Inl RWrongHull
      else if view_character_physics (world_view_of w) (bm_mover m) \<noteq> None then Inl RConflict
      else rbind (check_space (wd_view w) (bm_mover m) (bm_pose m) (bm_hull m) (hw_overlaps hw)) (\<lambda>hits.
        Inr (\<lparr>ag_actor = bm_mover m, ag_target = None, ag_verb = Move, ag_source = source, ag_claimed = []\<rparr>, hits)))"

definition preflight_residency :: "world \<Rightarrow> sigil \<Rightarrow> residency_op \<Rightarrow> digest \<Rightarrow> digest \<Rightarrow> place_snap \<Rightarrow> reject_reason + agent \<times> bool" where
  "preflight_residency w place rop prefix ch snap =
     (if ch \<noteq> wd_canon_hash w \<or> prefix \<noteq> tl_prefix (wd_trace w) then Inl REpochMismatch
      else if ps_place snap \<noteq> place \<or> ps_canon_hash snap \<noteq> ch then Inl RResidency
      else if length (ps_rows snap) > max_place_rows then Inl RResidency
      else if rop = ResEvict \<and> proj_packed (wd_view w) place = None then Inl RResidency
      else Inr (\<lparr>ag_actor = place, ag_target = None, ag_verb = Look, ag_source = SrcResidency, ag_claimed = []\<rparr>, False))"

text \<open>Physical islands are admitted as a batch and never get here; the code has \<open>unreachable!\<close>.\<close>

fun preflight :: "kernel \<Rightarrow> tick \<Rightarrow> budget \<Rightarrow> proposal \<Rightarrow> reject_reason + agent \<times> bool" where
  "preflight k t b (Player q) = preflight_player k t b q"
| "preflight k t b (Mind m) = preflight_mind (wd_canon (k_world k)) m"
| "preflight k t b (Infer i) = preflight_infer (wd_canon (k_world k)) i"
| "preflight k t b (PhysIsland ph) = Inl RBudget"
| "preflight k t b (SpaceDelta m) = preflight_move (k_world k) SrcSpace m"
| "preflight k t b (MotionDelta m clip rt) = preflight_move (k_world k) SrcMotion m"
| "preflight k t b (Residency place rop prefix ch snap) = preflight_residency (k_world k) place rop prefix ch snap"

section \<open>Rewound fire\<close>

definition hitscan_fire :: "projection \<Rightarrow> canon \<Rightarrow> player_intent \<Rightarrow> sigil \<Rightarrow> sigil option" where
  "hitscan_fire p c q actor =
     Option.bind (canon_affordance_id c ''Hittable'') (\<lambda>hittable.
       let here = (case proj_pose p actor of None \<Rightarrow> pose_default | Some x \<Rightarrow> x);
           yaw = yaw_wrapping_add (pyaw here) (an_look_yaw (pi_analog q));
           pitch = sat32 (ppitch here + an_look_pitch (pi_analog q))
       in hitscan p (pose_translation here) (look_offset yaw pitch hitscan_range_mm) actor hittable)"

definition rewind_hitscan :: "kernel \<Rightarrow> player_intent \<Rightarrow> sigil \<Rightarrow> tick \<Rightarrow> reject_reason + sigil option" where
  "rewind_hitscan k q actor t =
     (let w = k_world k in
      if t - pi_at q = 0 then Inr (hitscan_fire (wd_view w) (wd_canon w) q actor)
      else rbind (need RStaleEpoch (ring_lookup (k_ring k) t (pi_at q))) (\<lambda>snap.
        Inr (hitscan_fire (sn_blob snap) (wd_canon w) q actor)))"

section \<open>The write cells\<close>

fun write_cells :: "proposal \<Rightarrow> sigil \<Rightarrow> projection \<Rightarrow> write_cell list" where
  "write_cells (SpaceDelta m) actor p = (bm_mover m, 0) # map (\<lambda>c. (c, 0)) (attached_children p (bm_mover m))"
| "write_cells (MotionDelta m clip rt) actor p = (bm_mover m, 0) # map (\<lambda>c. (c, 0)) (attached_children p (bm_mover m))"
| "write_cells (Residency place rop prefix ch snap) actor p =
     (place, 0) # map (\<lambda>r. (pw_sigil r, 0)) (ps_rows snap)
       @ (if rop = ResEvict then map (\<lambda>s. (s, 0)) (filter (\<lambda>s. proj_has_rel p s In place) (p_sigils p)) else [])"
| "write_cells (PhysIsland ph) actor p =
     dedup (sort (concat (map (\<lambda>b. (bd_mover b, 0) # map (\<lambda>c. (c, 0)) (attached_children p (bd_mover b))) (ph_bodies ph))))"
| "write_cells _ actor p = [(actor, 1)]"

definition claim_cells :: "write_cell list \<Rightarrow> written \<Rightarrow> written" where
  "claim_cells cells w = fold (\<lambda>c. bt_insert c ()) cells w"

definition cell_conflict :: "write_cell list \<Rightarrow> written \<Rightarrow> bool" where
  "cell_conflict cells w \<longleftrightarrow> list_ex (bt_has w) cells"

section \<open>One proposal, one transaction\<close>

record tick_state =
  ts_kernel :: kernel
  ts_ops :: nat
  ts_steps :: nat
  ts_written :: written

text \<open>The write of a proposal into its delta.\<close>

definition drive_of :: "canon \<Rightarrow> tick \<Rightarrow> agent \<Rightarrow> drive" where
  "drive_of c t ag = \<lparr>dr_canon = c, dr_verb = ag_verb ag, dr_source = ag_source ag, dr_claimed = ag_claimed ag, dr_tick = t\<rparr>"

definition write_move :: "body_move \<Rightarrow> (cstate, unit) act" where
  "write_move m =
     act_each (spec_try RBudget)
       [spec_set_pose (bm_mover m) (bm_pose m), spec_set_vel (bm_mover m) (bm_vel m) (bm_yaw_rate m),
        spec_set_island (bm_mover m) (bm_island m) (bm_sleep m)]"

fun fill_spec :: "canon \<Rightarrow> tick \<Rightarrow> agent \<Rightarrow> proposal \<Rightarrow> (cstate, unit) act" where
  "fill_spec c t ag (SpaceDelta m) = write_move m"
| "fill_spec c t ag (MotionDelta m clip rt) = write_move m"
| "fill_spec c t ag (Residency place ResLoad prefix ch snap) = act_bind (spec_try RResidency (spec_apply_place snap)) (\<lambda>_. act_ret ())"
| "fill_spec c t ag (Residency place ResEvict prefix ch snap) = spec_try RResidency (spec_evict_place place)"
| "fill_spec c t ag _ = drive_rite (drive_of c t ag) (ag_actor ag) (ag_target ag)"

definition run_spec :: "(cstate, 'a) act \<Rightarrow> tick_state \<Rightarrow> (reject_reason + 'a \<times> spec_delta) \<times> tick_state" where
  "run_spec f ts =
     (let (r, st) = f \<lparr>cs_spec = begin_spec (k_world (ts_kernel ts)), cs_steps = ts_steps ts, cs_ops = ts_ops ts\<rparr>;
          ts = ts\<lparr>ts_ops := cs_ops st, ts_steps := cs_steps st\<rparr>
      in case r of Inl e \<Rightarrow> (Inl e, ts) | Inr x \<Rightarrow> (Inr (x, cs_spec st), ts))"

definition publish :: "(byte list \<Rightarrow> digest) \<Rightarrow> write_cell list \<Rightarrow> spec_delta \<Rightarrow> tick_state \<Rightarrow> (reject_reason + trace_event list) \<times> tick_state" where
  "publish H cells sd ts =
     (Inr (sd_events sd),
      ts\<lparr>ts_kernel := (ts_kernel ts)\<lparr>k_world := commit_spec H sd (k_world (ts_kernel ts))\<rparr>, ts_written := claim_cells cells (ts_written ts)\<rparr>)"

text \<open>A player's fire takes its target from the ring when rewind is on; the second result is the age it used.\<close>

fun rewound :: "kernel \<Rightarrow> tick \<Rightarrow> budget \<Rightarrow> proposal \<Rightarrow> agent \<Rightarrow> reject_reason + agent \<times> nat option" where
  "rewound k t b (Player q) ag =
     (if rewind_ticks b > 0 \<and> pi_verb q = Fire
      then rbind (rewind_hitscan k q (ag_actor ag) t) (\<lambda>target. Inr (ag\<lparr>ag_target := target\<rparr>, Some (min 65535 (t - pi_at q))))
      else Inr (ag, None))"
| "rewound k t b p ag = Inr (ag, None)"

definition note_rewind :: "nat option \<Rightarrow> tick_state \<Rightarrow> tick_state" where
  "note_rewind used ts =
     (case used of None \<Rightarrow> ts | Some n \<Rightarrow> ts\<lparr>ts_kernel := (ts_kernel ts)\<lparr>k_rewind_used := n\<rparr>\<rparr>)"

definition admit_plain :: "(byte list \<Rightarrow> digest) \<Rightarrow> tick \<Rightarrow> budget \<Rightarrow> proposal \<Rightarrow> tick_state \<Rightarrow> (reject_reason + trace_event list) \<times> tick_state" where
  "admit_plain H t b p ts =
     (let k = ts_kernel ts; c = wd_canon (k_world k) in
      case preflight k t b p of
        Inl e \<Rightarrow> (Inl e, ts)
      | Inr (ag, swept) \<Rightarrow> (case rewound k t b p ag of
          Inl e \<Rightarrow> (Inl e, ts)
        | Inr (ag, used) \<Rightarrow>
            let ts = note_rewind used ts; cells = write_cells p (ag_actor ag) (wd_view (k_world k)) in
            if cell_conflict cells (ts_written ts) then (Inl RConflict, ts)
            else case run_spec (act_bind (fill_spec c t ag p) (\<lambda>_. on_ops (\<lambda>q. admit_laws c q ag swept))) ts of
                (Inl e, ts) \<Rightarrow> (Inl e, ts)
              | (Inr (_, sd), ts) \<Rightarrow> publish H cells sd ts))"

section \<open>One island, one transaction\<close>

definition contact_law_context :: "world_view \<Rightarrow> canon \<Rightarrow> motion_contact list \<Rightarrow> body_delta \<Rightarrow> (sigil \<times> sigil \<times> nat) option" where
  "contact_law_context v c claims body =
     (let mover = bd_mover body in
      case find (\<lambda>k. mc_actor k = mover) claims of
        Some k \<Rightarrow> Some (mc_actor k, mc_target k, track_channel (mc_track k))
      | None \<Rightarrow>
          Option.bind (view_contact_track v mover) (\<lambda>track.
          Option.bind (find (\<lambda>r. cr_name r = track_rite track) (cn_rites c)) (\<lambda>rite.
          Option.bind (view_rite v mover (cr_id rite)) (\<lambda>m.
            if rm_contact_hit m then map_option (\<lambda>target. (mover, target, rm_contact_agency m)) (rm_target m) else None))))"

definition fill_island :: "'sh geometry \<Rightarrow> world_view \<Rightarrow> canon \<Rightarrow> tick \<Rightarrow> phys_island \<Rightarrow> bool list \<Rightarrow> (sigil \<times> sigil \<times> ivec3) list \<Rightarrow> (cstate, unit) act" where
  "fill_island G v c t ph hits attachments =
     act_bind (act_each (apply_body_delta (ph_id ph)) (ph_bodies ph)) (\<lambda>_.
     act_bind (act_each apply_attachment attachments) (\<lambda>_.
     act_bind (act_each (apply_constraint (ph_breaks ph)) (ph_constraints ph)) (\<lambda>_.
     act_bind (apply_constraint_breaks c t (ph_breaks ph)) (\<lambda>_.
     act_bind (act_bind (spec_see (\<lambda>p. rfold (\<lambda>_. validate_contact_claim G (view_at_epoch p (vw_epoch v) (vw_tick v))) () (ph_contacts ph))) lift_result) (\<lambda>_.
     act_bind (act_bind (spec_see (\<lambda>p. validate_character_geometry G v p (ph_bodies ph))) lift_result) (\<lambda>_.
     act_bind (admit_motion_windows c t (ph_bodies ph) (ph_motion ph)) (\<lambda>_.
       on_ops (\<lambda>p. admit_phys_laws c p (zip (map bd_mover (ph_bodies ph)) hits)
         (List.map_filter (contact_law_context v c (ph_motion ph)) (ph_bodies ph))))))))))"

text \<open>The cells of an island before its transaction, and with everything the transaction wrote.\<close>

definition window_cells :: "world_view \<Rightarrow> body_delta list \<Rightarrow> write_cell list" where
  "window_cells v bodies = map (\<lambda>b. (bd_mover b, 1)) (filter (\<lambda>b. view_contact_window v (bd_mover b) \<noteq> None) bodies)"

definition island_cells :: "world_view \<Rightarrow> body_delta list \<Rightarrow> write_cell list \<Rightarrow> sigil list \<Rightarrow> write_cell list" where
  "island_cells v bodies cells loci =
     dedup (sort (cells @ map (\<lambda>s. (s, 0)) loci
       @ (if list_ex (\<lambda>b. view_contact_track v (bd_mover b) \<noteq> None) bodies then map (\<lambda>s. (s, 1)) loci else [])))"

definition admit_phys_island :: "(byte list \<Rightarrow> digest) \<Rightarrow> 'sh geometry \<Rightarrow> tick \<Rightarrow> phys_island \<Rightarrow> tick_state \<Rightarrow> (reject_reason + trace_event list) \<times> tick_state" where
  "admit_phys_island H G t ph ts =
     (let w = k_world (ts_kernel ts); v = world_view_of w; c = wd_canon w; bodies = ph_bodies ph in
      case validate_phys_island G v t ph of
        Inl e \<Rightarrow> (Inl e, ts)
      | Inr hits \<Rightarrow> (case phys_write_cells (wd_view w) bodies (ph_constraints ph) of
          Inl e \<Rightarrow> (Inl e, ts)
        | Inr (cells, attachments) \<Rightarrow>
            if cell_conflict cells (ts_written ts) then (Inl RConflict, ts)
            else (case validate_motion_contacts G v bodies (ph_motion ph) of
                Inl e \<Rightarrow> (Inl e, ts)
              | Inr _ \<Rightarrow>
                  let cells = cells @ window_cells v bodies in
                  if cell_conflict cells (ts_written ts) then (Inl RConflict, ts)
                  else case run_spec (fill_island G v c t ph hits attachments) ts of
                      (Inl e, ts) \<Rightarrow> (Inl e, ts)
                    | (Inr (_, sd), ts) \<Rightarrow>
                        let cells = island_cells v bodies cells (map fst (sd_written sd)) in
                        if length (dedup (map fst cells)) > max_phys_island_write_loci then (Inl RIslandTooLarge, ts)
                        else if cell_conflict cells (ts_written ts) then (Inl RConflict, ts)
                        else publish H cells sd ts)))"

fun admit_one :: "(byte list \<Rightarrow> digest) \<Rightarrow> 'sh geometry \<Rightarrow> tick \<Rightarrow> budget \<Rightarrow> proposal \<Rightarrow> tick_state \<Rightarrow> (reject_reason + trace_event list) \<times> tick_state" where
  "admit_one H G t b (PhysIsland ph) ts = admit_phys_island H G t ph ts"
| "admit_one H G t b p ts = admit_plain H t b p ts"

section \<open>The batch\<close>

text \<open>
  Consecutive proposals with one key form a class.  A class of different proposals is refused as a whole;
  a class of equal ones is admitted once.
\<close>

fun classes :: "(proposal \<times> nat) list \<Rightarrow> (proposal \<times> nat) list list" where
  "classes [] = []"
| "classes (p # ps) =
     (case classes ps of
        (q # qs) # rest \<Rightarrow> (if admit_key p = admit_key q then (p # q # qs) # rest else [p] # (q # qs) # rest)
      | _ \<Rightarrow> [[p]])"

definition admit_class :: "(byte list \<Rightarrow> digest) \<Rightarrow> 'sh geometry \<Rightarrow> tick \<Rightarrow> budget \<Rightarrow> (proposal \<times> nat) list \<Rightarrow> tick_state \<times> trace_delta \<Rightarrow> tick_state \<times> trace_delta" where
  "admit_class H G t b cls s =
     (let (ts, delta) = s in
      case cls of
        [] \<Rightarrow> s
      | (p, ix) # rest \<Rightarrow>
          if list_ex (\<lambda>(q, _). q \<noteq> p) rest
          then (ts, delta\<lparr>td_rejects := td_rejects delta @ map (\<lambda>(q, _). (kind_of q, RConflict)) cls\<rparr>)
          else (case admit_one H G t b p ts of
              (Inr events, ts) \<Rightarrow> (ts, delta\<lparr>td_events := td_events delta @ events\<rparr>)
            | (Inl r, ts) \<Rightarrow> (ts, delta\<lparr>td_rejects := td_rejects delta @ [(kind_of p, r)]\<rparr>)))"

definition admit_batch :: "(byte list \<Rightarrow> digest) \<Rightarrow> 'sh geometry \<Rightarrow> tick \<Rightarrow> budget \<Rightarrow> (proposal \<times> nat) list \<Rightarrow> tick_state \<times> trace_delta \<Rightarrow> tick_state \<times> trace_delta" where
  "admit_batch H G t b batch = fold (admit_class H G t b) (classes (sort_key admit_key batch))"

section \<open>Island snapshots\<close>

definition island_snap_period_ticks :: nat where
  "island_snap_period_ticks = 30"

definition snap_member :: "projection \<Rightarrow> sigil \<Rightarrow> (nat, island_snap) btree \<Rightarrow> (nat, island_snap) btree" where
  "snap_member p s m =
     (case proj_island p s of
        None \<Rightarrow> m
      | Some (island, sleep) \<Rightarrow>
          if island = no_island \<or> sleep \<noteq> 0 then m
          else case proj_pose p s of
            None \<Rightarrow> m
          | Some q \<Rightarrow>
              let (vel, yaw) = (case proj_vel p s of None \<Rightarrow> (vel_zero, 0) | Some u \<Rightarrow> u);
                  sn = (case bt_get m island of
                          None \<Rightarrow> \<lparr>is_island = island, is_members = [], is_poses = [], is_vels = [], is_yaw_rates = [], is_sleep = []\<rparr>
                        | Some sn \<Rightarrow> sn)
              in bt_insert island
                   \<lparr>is_island = is_island sn, is_members = is_members sn @ [s], is_poses = is_poses sn @ [q],
                    is_vels = is_vels sn @ [vel], is_yaw_rates = is_yaw_rates sn @ [yaw], is_sleep = is_sleep sn @ [0]\<rparr> m)"

definition island_snaps :: "projection \<Rightarrow> tick \<Rightarrow> trace_event list" where
  "island_snaps p t = map (\<lambda>(i, sn). \<lparr>ev_tick = t, ev_body = IslandSnap sn\<rparr>) (fold (snap_member p) (p_sigils p) [])"

section \<open>The tick\<close>

type_synonym proposer = "world_view \<Rightarrow> nat \<Rightarrow> proposal list"

text \<open>A registration index that does not fit \<open>u8\<close> stops the loop over the proposers.\<close>

definition gather :: "world_view \<Rightarrow> nat \<Rightarrow> proposer list \<Rightarrow> (proposal \<times> nat) list" where
  "gather v dt sync = concat (map (\<lambda>(ix, f). map (\<lambda>p. (p, ix)) (f v dt)) (enumerate 0 (take 256 sync)))"

definition publish_snapshot :: "(world_snapshot \<Rightarrow> nat) \<Rightarrow> kernel \<times> trace_delta \<Rightarrow> kernel \<times> trace_delta" where
  "publish_snapshot B s =
     (let (k, delta) = s; (snap, w) = take_snapshot (k_world k) in
      (k\<lparr>k_world := w, k_ring := ring_push snap (k_ring k)\<rparr>, delta\<lparr>td_snap_bytes := min (2 ^ 32 - 1) (B snap)\<rparr>))"

definition append_events :: "(byte list \<Rightarrow> digest) \<Rightarrow> trace_event list \<Rightarrow> kernel \<times> trace_delta \<Rightarrow> kernel \<times> trace_delta" where
  "append_events H es s =
     (let (k, delta) = s in
      (k\<lparr>k_world := fold (world_append H) es (k_world k)\<rparr>, delta\<lparr>td_events := td_events delta @ es\<rparr>))"

definition step_begin :: "nat \<Rightarrow> budget \<Rightarrow> kernel \<Rightarrow> kernel" where
  "step_begin dt b k =
     k\<lparr>k_world := set_tick (tick_saturating_add (wd_tick (k_world k)) (max dt 1)) (k_world k),
       k_ring := ring_set_cap (rewind_ticks b) (k_ring k), k_rewind_used := 0\<rparr>"

text \<open>\<open>step\<close> has a fault type, but every path returns a delta.\<close>

definition kernel_step :: "(byte list \<Rightarrow> digest) \<Rightarrow> 'sh geometry \<Rightarrow> (world_snapshot \<Rightarrow> nat) \<Rightarrow> nat \<Rightarrow> budget \<Rightarrow> proposer list \<Rightarrow> kernel \<Rightarrow> kernel \<times> trace_delta" where
  "kernel_step H G B dt b sync k =
     (let k = step_begin dt b k;
          t = wd_tick (k_world k);
          batch = k_heap k @ gather (world_view_of (k_world k)) dt sync;
          delta = (delta_empty t)\<lparr>td_rejects := k_partition_rejects k\<rparr>;
          ts = \<lparr>ts_kernel = k\<lparr>k_heap := [], k_partition_rejects := []\<rparr>, ts_ops = pred_ops b, ts_steps = rite_steps b, ts_written = []\<rparr>;
          (ts, delta) = admit_batch H G t b batch (ts, delta);
          k = ts_kernel ts;
          s = (if t mod island_snap_period_ticks = 0 then append_events H (island_snaps (wd_view (k_world k)) t) (k, delta) else (k, delta))
      in publish_snapshot B s)"

section \<open>A new canon\<close>

datatype epoch_apply_error = CanonMismatch | EpochMismatch | UnchangedCanon

definition kernel_apply_epoch :: "(byte list \<Rightarrow> digest) \<Rightarrow> (world_snapshot \<Rightarrow> nat) \<Rightarrow> digest \<Rightarrow> nat \<Rightarrow> digest \<Rightarrow> nat \<Rightarrow> canon \<Rightarrow> epoch_map \<Rightarrow> kernel \<Rightarrow> epoch_apply_error + kernel \<times> trace_delta" where
  "kernel_apply_epoch H B from_hash from_epoch ch ep c em k =
     (let w = k_world k in
      if wd_canon_hash w \<noteq> from_hash then Inl CanonMismatch
      else if wd_epoch w + 1 > u64_max then Inl EpochMismatch
      else if wd_epoch w \<noteq> from_epoch \<or> ep \<noteq> wd_epoch w + 1 then Inl EpochMismatch
      else if ch = from_hash then Inl UnchangedCanon
      else
        let (evicted, w) = apply_canon_epoch c ch ep em w; t = wd_tick w;
            k = k\<lparr>k_world := w, k_heap := [], k_partition_rejects := []\<rparr>;
            (k, delta) = append_events H (map (\<lambda>(a, r). \<lparr>ev_tick = t, ev_body = RiteEnded a r ReEvicted\<rparr>) evicted) (k, delta_empty t);
            k = k\<lparr>k_ring := ring_new (rr_cap (k_ring k))\<rparr>
        in Inr (publish_snapshot B (k, delta)))"

section \<open>The partition of a tick\<close>

definition partition_writes :: "projection \<Rightarrow> (nat \<times> sigil list) list \<Rightarrow> (sigil \<times> nat \<times> nat) list" where
  "partition_writes p islands =
     (let assigned = fold (\<lambda>(i, members) m. fold (\<lambda>s. bt_insert s i) members m) islands [] in
      map (\<lambda>s. (s, case bt_get assigned s of None \<Rightarrow> no_island | Some i \<Rightarrow> i, sleep_of p s)) (p_sigils p))"

text \<open>A locus of the view is packed, so the \<open>expect\<close> of the write loop never fires.\<close>

definition kernel_partition :: "'sh geometry \<Rightarrow> kernel \<Rightarrow> (nat \<times> sigil list) list \<times> kernel" where
  "kernel_partition G k =
     (let w = k_world k; part = partition_islands G (world_view_of w);
          rejects = (if pt_too_large part > 0 then [(PkPhys, RIslandTooLarge)] else [])
            @ (if pt_too_many part > 0 then [(PkPhys, RTooManyIslands)] else [])
      in (pt_islands part,
          k\<lparr>k_partition_rejects := rejects,
            k_world := fold (\<lambda>(s, i, t) w. snd (world_write (set_island s i t) w))
              (partition_writes (wd_view w) (pt_islands part)) w\<rparr>))"

end
