(* ===== verification/CommitBatch.thy ===== *)
theory CommitBatch
  imports CommitKernel
begin

text \<open>
  The batch of a tick: its classes are the groups of equal keys in key order, so what a step does depends on
  the multiset of the ingested proposals and not on their order, and a retried proposal has no effect.
\<close>

section \<open>Classes\<close>

lemma filter_set_mem: "q \<in> set (filter P xs) \<Longrightarrow> P q"
  by simp

lemma classes_cons: "classes (p # ps) =
    (case classes ps of (q # qs) # rest \<Rightarrow> if admit_key p = admit_key q then (p # q # qs) # rest else [p] # classes ps | _ \<Rightarrow> [[p]])"
  by (auto split: list.split)

lemma filter_same_hd: "sorted (map f (q # qs)) \<Longrightarrow> filter (\<lambda>x. f x = f q) (q # qs) = q # filter (\<lambda>x. f x = f q) qs"
  by simp

lemma classes_sorted:
  "sorted (map admit_key ps) \<Longrightarrow>
    classes ps = map (\<lambda>k. filter (\<lambda>q. admit_key q = k) ps) (sorted_list_of_set (admit_key ` set ps))"
proof (induction ps)
  case (Cons p ps)
  show ?case
  proof (cases ps)
    case Nil
    then show ?thesis by simp
  next
    case (Cons q qs)
    let ?S = "admit_key ` set ps"
    have sorted_ps: "sorted (map admit_key ps)" using Cons.prems by simp
    have lo: "\<And>k. k \<in> ?S \<Longrightarrow> admit_key q \<le> k" "admit_key q \<in> ?S" "admit_key p \<le> admit_key q"
      using Cons.prems Cons by auto
    obtain ks where ks: "sorted_list_of_set ?S = admit_key q # ks"
      using lo by (metis List.finite_set Min_eqI finite_imageI sorted_list_of_set_nonempty empty_iff)
    have ih: "classes ps = filter (\<lambda>x. admit_key x = admit_key q) ps # map (\<lambda>k. filter (\<lambda>x. admit_key x = k) ps) ks"
      using Cons.IH Cons.prems ks by simp
    have hd: "filter (\<lambda>x. admit_key x = admit_key q) ps = q # filter (\<lambda>x. admit_key x = admit_key q) qs"
      by (simp add: Cons)
    have notin: "admit_key q \<notin> set ks"
      using ks by (metis distinct.simps(2) sorted_list_of_set.distinct_sorted_key_list_of_set map_ident)
    show ?thesis
    proof (cases "admit_key p = admit_key q")
      case True
      have "insert (admit_key p) ?S = ?S" using True lo(2) by auto
      then show ?thesis using True notin by (auto simp: classes_cons ih hd ks)
    next
      case False
      have less: "admit_key p < k" if "k \<in> ?S" for k using lo(1)[OF that] lo(3) False by order
      have keys: "sorted_list_of_set (admit_key ` set (p # ps)) = admit_key p # sorted_list_of_set ?S"
      proof -
        have "admit_key p \<notin> ?S" using less by blast
        moreover have "insort (admit_key p) (sorted_list_of_set ?S) = admit_key p # sorted_list_of_set ?S"
          by (rule insort_is_Cons) (use less in \<open>simp add: less_imp_le\<close>)
        ultimately show ?thesis by simp
      qed
      have "filter (\<lambda>x. admit_key x = admit_key p) (p # ps) = [p]"
      proof -
        have "admit_key x \<noteq> admit_key p" if "x \<in> set ps" for x using less[OF imageI[OF that]] by simp
        then show ?thesis by (simp add: filter_empty_conv)
      qed
      moreover have "map (\<lambda>k. filter (\<lambda>x. admit_key x = k) (p # ps)) (sorted_list_of_set ?S) = classes ps"
        unfolding Cons.IH[OF sorted_ps]
      proof (rule map_cong)
        fix k assume "k \<in> set (sorted_list_of_set ?S)"
        then have "admit_key p \<noteq> k" using less[of k] by simp
        then show "filter (\<lambda>x. admit_key x = k) (p # ps) = filter (\<lambda>x. admit_key x = k) ps" by simp
      qed simp
      moreover have "classes (p # ps) = [p] # classes ps" using False by (simp add: classes_cons ih hd)
      ultimately show ?thesis unfolding keys list.map by simp
    qed
  qed
qed simp

lemma batch_classes:
  "classes (sort_key admit_key ps) =
    map (\<lambda>k. filter (\<lambda>q. admit_key q = k) (sort_key admit_key ps)) (sorted_list_of_set (admit_key ` set ps))"
  by (rule classes_sorted[OF sorted_sort_key, unfolded set_sort])

definition uniform :: "(proposal \<times> nat) list \<Rightarrow> bool" where
  "uniform cls \<longleftrightarrow> (\<forall>p \<in> set cls. \<forall>q \<in> set cls. fst p = fst q)"

text \<open>What a class does depends on its members as a multiset; a uniform class does what one member does.\<close>

lemma admit_class_alt:
  assumes "cls \<noteq> []" and "\<And>q. q \<in> set cls \<Longrightarrow> admit_key q = k" and "p \<in> set cls"
  shows "admit_class H G t b cls (ts, delta) =
    (if uniform cls then admit_class H G t b [p] (ts, delta)
     else (ts, delta\<lparr>td_rejects := td_rejects delta @ replicate (length cls) (kind_of (fst p), RConflict)\<rparr>))"
proof -
  obtain x ix rest where cls: "cls = (x, ix) # rest" using assms(1) by (cases cls) auto
  have u: "list_ex (\<lambda>(q, _). q \<noteq> x) rest \<longleftrightarrow> \<not> uniform cls"
  proof
    assume "list_ex (\<lambda>(q, _). q \<noteq> x) rest"
    then obtain q where "q \<in> set cls" "fst q \<noteq> fst (x, ix)" unfolding list_ex_iff by (auto simp: cls)
    moreover have "(x, ix) \<in> set cls" by (simp add: cls)
    ultimately show "\<not> uniform cls" unfolding uniform_def by blast
  next
    assume "\<not> uniform cls"
    then obtain q where "q \<in> set cls" "fst q \<noteq> x" unfolding uniform_def by metis
    then show "list_ex (\<lambda>(q, _). q \<noteq> x) rest" unfolding list_ex_iff by (auto simp: cls case_prod_beta)
  qed
  have same: "kind_of (fst q) = kind_of (fst p)" if "q \<in> set cls" for q
    using same_class_kind[of q p] assms(2)[OF that] assms(2)[OF assms(3)] by simp
  have "map (\<lambda>(q, _). (kind_of q, RConflict)) cls = map (\<lambda>_. (kind_of (fst p), RConflict)) cls"
  proof (rule map_cong)
    fix q assume "q \<in> set cls"
    from same[OF this] show "(\<lambda>(q, _). (kind_of q, RConflict)) q = (kind_of (fst p), RConflict)" by (simp add: case_prod_beta)
  qed simp
  then have kinds: "map (\<lambda>(q, _). (kind_of q, RConflict)) cls = replicate (length cls) (kind_of (fst p), RConflict)"
    by (simp add: map_replicate_const)
  show ?thesis
  proof (cases "uniform cls")
    case True
    then have "fst p = x" using assms(3) by (auto simp: uniform_def cls)
    then show ?thesis using True u by (cases p) (simp add: admit_class_def cls)
  next
    case False
    then show ?thesis using u kinds by (simp add: admit_class_def cls)
  qed
qed

lemma admit_class_uniform:
  assumes "uniform cls" and "p \<in> set cls" and "\<And>q. q \<in> set cls \<Longrightarrow> admit_key q = k"
  shows "admit_class H G t b cls s = admit_class H G t b [p] s"
proof -
  have "cls \<noteq> []" using assms(2) by auto
  from trans[OF admit_class_alt[OF this assms(3,2)] if_P[OF assms(1)]]
  have "admit_class H G t b cls (fst s, snd s) = admit_class H G t b [p] (fst s, snd s)" .
  then show ?thesis by simp
qed

lemma admit_class_mset:
  assumes "mset cls = mset cls'" and "\<And>q. q \<in> set cls \<Longrightarrow> admit_key q = k"
  shows "admit_class H G t b cls s = admit_class H G t b cls' s"
proof (cases "cls = []")
  case False
  have eq: "set cls = set cls'" "length cls = length cls'" using assms(1) by (auto dest: mset_eq_setD mset_eq_length)
  obtain p where p: "p \<in> set cls" using False by (cases cls) auto
  have u: "uniform cls = uniform cls'" by (simp add: uniform_def eq)
  obtain ts delta where s: "s = (ts, delta)" by (cases s) auto
  have "cls' \<noteq> []" using False eq(2) by auto
  moreover have "\<And>q. q \<in> set cls' \<Longrightarrow> admit_key q = k" "p \<in> set cls'" using assms(2) p by (simp_all add: eq(1)[symmetric])
  ultimately have "admit_class H G t b cls' s = (if uniform cls then admit_class H G t b [p] (ts, delta)
     else (ts, delta\<lparr>td_rejects := td_rejects delta @ replicate (length cls) (kind_of (fst p), RConflict)\<rparr>))"
    unfolding s by (subst admit_class_alt[where k = k and p = p]) (simp_all add: u eq)
  moreover have "admit_class H G t b cls s = (if uniform cls then admit_class H G t b [p] (ts, delta)
     else (ts, delta\<lparr>td_rejects := td_rejects delta @ replicate (length cls) (kind_of (fst p), RConflict)\<rparr>))"
    unfolding s by (rule admit_class_alt[OF False assms(2) p])
  ultimately show ?thesis by (rule trans[OF _ sym, rotated])
qed (use assms in simp)

text \<open>The batch as a fold over its keys.\<close>

lemma admit_batch_keys:
  "admit_batch H G t b ps s = fold (\<lambda>k. admit_class H G t b (filter (\<lambda>q. admit_key q = k) ps)) (sorted_list_of_set (admit_key ` set ps)) s"
proof -
  have "fold (admit_class H G t b) (map (\<lambda>k. filter (\<lambda>q. admit_key q = k) (sort_key admit_key ps)) ks) s
      = fold (\<lambda>k. admit_class H G t b (filter (\<lambda>q. admit_key q = k) ps)) ks s" for ks
  proof (induction ks arbitrary: s)
    case (Cons k ks)
    have "admit_class H G t b (filter (\<lambda>q. admit_key q = k) (sort_key admit_key ps)) s = admit_class H G t b (filter (\<lambda>q. admit_key q = k) ps) s"
      by (rule admit_class_mset[where k = k]) auto
    then show ?case using Cons.IH by simp
  qed simp
  then show ?thesis by (simp add: admit_batch_def batch_classes)
qed

lemma admit_batch_mset:
  assumes "mset ps = mset qs"
  shows "admit_batch H G t b ps s = admit_batch H G t b qs s"
proof -
  have "admit_class H G t b (filter (\<lambda>q. admit_key q = k) ps) = admit_class H G t b (filter (\<lambda>q. admit_key q = k) qs)" for k
    by (rule ext, rule admit_class_mset[where k = k]) (simp_all add: assms)
  then show ?thesis using mset_eq_setD[OF assms] by (simp add: admit_batch_keys)
qed

lemma admit_batch_retry:
  assumes p: "p \<in> set ps" and alone: "\<And>q. q \<in> set ps \<Longrightarrow> admit_key q = admit_key p \<Longrightarrow> fst q = fst p"
  shows "admit_batch H G t b (p # ps) s = admit_batch H G t b ps s"
proof -
  have eq: "(\<lambda>k. admit_class H G t b (filter (\<lambda>q. admit_key q = k) (p # ps))) = (\<lambda>k. admit_class H G t b (filter (\<lambda>q. admit_key q = k) ps))"
  proof (intro ext)
    fix k s show "admit_class H G t b (filter (\<lambda>q. admit_key q = k) (p # ps)) s = admit_class H G t b (filter (\<lambda>q. admit_key q = k) ps) s"
  proof (cases "k = admit_key p")
    case True
    let ?c = "filter (\<lambda>q. admit_key q = k)"
    have mem: "p \<in> set (?c ps)" "p \<in> set (?c (p # ps))" using p True by simp_all
    have same: "uniform (?c (p # ps))" "uniform (?c ps)" using alone True by (auto simp: uniform_def)
    have "admit_class H G t b (?c ps) s = admit_class H G t b [p] s"
      by (rule admit_class_uniform[OF same(2) mem(1)]) (erule filter_set_mem)
    moreover have "admit_class H G t b (?c (p # ps)) s = admit_class H G t b [p] s"
      by (rule admit_class_uniform[OF same(1) mem(2)]) (erule filter_set_mem)
    ultimately show ?thesis by (rule trans[OF _ sym, rotated])
  next
    case False
    then show ?thesis by simp
  qed
  qed
  have "admit_key ` set (p # ps) = admit_key ` set ps" using p by auto
  then show ?thesis unfolding admit_batch_keys eq by simp
qed

end
