(* ===== verification/CommitSafe.thy ===== *)
theory CommitSafe
  imports CommitBatch WorldStateProps
begin

text \<open>
  What every transaction keeps: it changes its speculative delta by the write operations of \<open>spec.rs\<close> only, and
  never raises a counter.  \<open>safe\<close> says both, and is closed under the composition of actions.
\<close>

section \<open>Safe actions\<close>

definition safe :: "(cstate, 'a) act \<Rightarrow> bool" where
  "safe f \<longleftrightarrow> (\<forall>st r u. f st = (r, u) \<longrightarrow>
     spec_step\<^sup>*\<^sup>* (cs_spec st) (cs_spec u) \<and> cs_steps u \<le> cs_steps st \<and> cs_ops u \<le> cs_ops st)"

named_theorems safe_intros

lemma safeD:
  assumes "safe f" "f st = (r, u)"
  shows "spec_step\<^sup>*\<^sup>* (cs_spec st) (cs_spec u)" "cs_steps u \<le> cs_steps st" "cs_ops u \<le> cs_ops st"
  using assms by (auto simp: safe_def)

lemma safe_ret [safe_intros]: "safe (act_ret x)"
  by (simp add: safe_def act_ret_def)

lemma safe_fail [safe_intros]: "safe (act_fail e)"
  by (simp add: safe_def act_fail_def)

lemma safe_some [safe_intros]: "safe (act_some e x)"
  by (cases x) (simp_all add: act_some_def safe_intros)

lemma safe_result [safe_intros]: "safe (lift_result r)"
  by (simp add: safe_def lift_result_def)

lemma safe_see [safe_intros]: "safe (spec_see f)"
  by (simp add: safe_def spec_see_def)

lemma safe_get [safe_intros]: "safe spec_get" "safe steps_left" "safe take_step"
  by (simp_all add: safe_def spec_get_def steps_left_def take_step_def)

lemma safe_bind [safe_intros]:
  assumes "safe f" "\<And>x. safe (g x)"
  shows "safe (act_bind f g)"
  unfolding safe_def
proof (intro allI impI)
  fix st r u assume run: "act_bind f g st = (r, u)"
  obtain q v where f: "f st = (q, v)" by fastforce
  note sf = safeD[OF assms(1) f]
  show "spec_step\<^sup>*\<^sup>* (cs_spec st) (cs_spec u) \<and> cs_steps u \<le> cs_steps st \<and> cs_ops u \<le> cs_ops st"
  proof (cases q)
    case (Inl e)
    then show ?thesis using run f sf by (simp add: act_bind_def)
  next
    case (Inr x)
    then have "g x v = (r, u)" using run f by (simp add: act_bind_def)
    note sg = safeD[OF assms(2) this]
    show ?thesis using rtranclp_trans[OF sf(1) sg(1)] sf sg by simp
  qed
qed

lemma safe_each [safe_intros]: "(\<And>x. x \<in> set xs \<Longrightarrow> safe (f x)) \<Longrightarrow> safe (act_each f xs)"
  by (induction xs) (auto intro!: safe_intros)

lemma safe_if [safe_intros]: "(b \<Longrightarrow> safe f) \<Longrightarrow> (\<not> b \<Longrightarrow> safe g) \<Longrightarrow> safe (if b then f else g)"
  by simp

lemma safe_option [safe_intros]: "(x = None \<Longrightarrow> safe f) \<Longrightarrow> (\<And>y. x = Some y \<Longrightarrow> safe (g y)) \<Longrightarrow> safe (case x of None \<Rightarrow> f | Some y \<Rightarrow> g y)"
  by (cases x) auto

lemma safe_push [safe_intros]: "safe (spec_push_at t b)"
  by (auto simp: safe_def spec_push_at_def intro: Sp_push)

lemma safe_put_rite [safe_intros]: "safe (spec_set (spec_put_rite a r m))"
  by (auto simp: safe_def spec_set_def intro: Sp_rite)

lemma safe_constraint [safe_intros]: "safe (spec_set (spec_set_constraint c s))"
  by (auto simp: safe_def spec_set_def intro: Sp_constraint)

lemma safe_try: "(\<And>sd. spec_step sd (snd (f sd))) \<Longrightarrow> safe (spec_try e f)"
  by (auto simp: safe_def spec_try_def Let_def split: prod.splits sum.splits) (metis r_into_rtranclp snd_conv)+

lemma safe_quiet: "(\<And>sd. spec_step sd (snd (f sd))) \<Longrightarrow> safe (spec_quiet f)"
  by (auto simp: safe_def spec_quiet_def spec_set_def)

lemmas safe_writes [safe_intros] =
  safe_try[OF Sp_pose] safe_try[OF Sp_vel] safe_try[OF Sp_rates] safe_try[OF Sp_support] safe_try[OF Sp_island]
  safe_try[OF Sp_afford] safe_try[OF Sp_phys] safe_try[OF Sp_clear] safe_try[OF Sp_hull] safe_try[OF Sp_load]
  safe_try[OF Sp_evict] safe_quiet[OF Sp_island]

text \<open>An action on the operations alone only spends them.\<close>

definition spends :: "(nat, 'a) act \<Rightarrow> bool" where
  "spends f \<longleftrightarrow> (\<forall>n r m. f n = (r, m) \<longrightarrow> m \<le> n)"

lemma safe_ops [safe_intros]: "(\<And>p. spends (f p)) \<Longrightarrow> safe (on_ops f)"
  by (auto simp: safe_def spends_def on_ops_def Let_def split: prod.splits)

lemma spends_basic [safe_intros]:
  "spends (act_ret x)" "spends (act_fail e)" "spends (act_some e y)"
  by (auto simp: spends_def act_ret_def act_fail_def act_some_def split: option.split)

lemma spends_bind [safe_intros]:
  assumes "spends f" "\<And>x. spends (g x)"
  shows "spends (act_bind f g)"
  using assms unfolding spends_def act_bind_def by (auto split: prod.splits sum.splits) (meson order_trans)+

lemma spends_each [safe_intros]: "(\<And>x. x \<in> set xs \<Longrightarrow> spends (f x)) \<Longrightarrow> spends (act_each f xs)"
  by (induction xs) (auto intro!: safe_intros)

lemma spends_if [safe_intros]: "spends f \<Longrightarrow> spends g \<Longrightarrow> spends (if b then f else g)"
  by simp

lemma spends_option [safe_intros]: "spends f \<Longrightarrow> (\<And>y. spends (g y)) \<Longrightarrow> spends (case x of None \<Rightarrow> f | Some y \<Rightarrow> g y)"
  by (cases x) auto

lemma spends_pred [safe_intros]: "spends (run_pred c i ctx)"
  using eval_pred_bounded by (fastforce simp: spends_def run_pred_def split: option.splits)

lemma spends_cap_loop [safe_intros]: "spends (cap_loop c p mark rr ag ss n)"
  by (induction ss arbitrary: n) (auto intro!: safe_intros)

lemma spends_law [safe_intros]: "spends (admit_law c p ag swept law)"
  unfolding admit_law_def cap_count_def by (intro safe_intros) (auto intro!: safe_intros split: cooked_law_body.split)

lemma spends_laws [safe_intros]: "spends (admit_laws c p ag swept)" "spends (admit_phys_laws c p bodies contacts)"
  unfolding admit_laws_def admit_phys_laws_def phys_law_def
  by (auto intro!: safe_intros split: option.split)

section \<open>Rites\<close>

lemma safe_park [safe_intros]: "safe (park actor rid t pc wait target ch)"
  unfolding park_def by (auto intro!: safe_intros)

lemma safe_guard [safe_intros]: "safe (eval_guard d rite pc actor target)"
  unfolding eval_guard_def by (auto intro!: safe_intros)

lemma safe_go_on [safe_intros]: "safe (go_on next target)"
  unfolding go_on_def by (auto intro!: safe_intros)

lemma safe_end [safe_intros]: "safe (end_rite d actor rid st)"
  unfolding end_rite_def by (auto intro!: safe_intros)

lemma safe_op [safe_intros]: "safe (run_op d rite actor target pc op)"
  by (cases op)
    (auto simp: run_op_def op_spend_def op_wait_def op_bind_def op_spawn_def op_rel_def op_awake_def res_id_def slot_of_def
      authorize_wait_def Let_def intro!: safe_intros split: option.split)

lemma safe_burst_loop [safe_intros]: "safe (burst_loop d rite actor left pc target)"
  by (induction left arbitrary: pc target) (auto simp: out_of_steps_def intro!: safe_intros split: flow.split)

lemma safe_burst [safe_intros]: "safe (run_burst d rite actor target pc)"
  unfolding run_burst_def by (auto intro!: safe_intros)

lemma safe_begin [safe_intros]: "safe (begin_rite d rite victim)"
  unfolding begin_rite_def by (auto intro!: safe_intros)

lemma safe_collapse [safe_intros]: "safe (drive_collapse d victim)"
  unfolding drive_collapse_def by (auto simp: Let_def intro!: safe_intros)

lemma safe_apply_hit [safe_intros]: "safe (drive_apply_hit d target)"
  unfolding drive_apply_hit_def by (auto simp: Let_def intro!: safe_intros)

lemma safe_resume [safe_intros]: "safe (resume_rite d actor target rid m)"
  unfolding resume_rite_def check_wait_agency_def by (auto simp: Let_def intro!: safe_intros)

lemma safe_start [safe_intros]: "safe (start_rite d actor target rite)"
  unfolding start_rite_def by (auto simp: Let_def intro!: safe_intros)

lemma safe_drive [safe_intros]: "safe (drive_rite d actor target)"
  unfolding drive_rite_def by (auto intro!: safe_intros split: option.split)

lemma safe_hit_burst [safe_intros]: "safe (hit_burst d rite mover target pc tail)"
  unfolding hit_burst_def hit_tail_def by (auto intro!: safe_intros)

lemma safe_window [safe_intros]: "safe (motion_window d rite track mover claims m past)"
  unfolding motion_window_def motion_recovery_def motion_hit_def Let_def
  by (auto intro!: safe_intros split: rite_op.split option.split)

lemma safe_windows [safe_intros]: "safe (admit_motion_windows c t bodies claims)"
  unfolding admit_motion_windows_def admit_motion_window_def Let_def
  by (auto intro!: safe_intros split: option.split)

section \<open>Transactions\<close>

lemma safe_fragments [safe_intros]: "safe (spawn_fragments c t joint)"
  unfolding spawn_fragments_def spawn_fragment_def Let_def by (auto intro!: safe_intros)

lemma safe_breaks [safe_intros]: "safe (apply_constraint_breaks c t breaks)"
  unfolding apply_constraint_breaks_def apply_constraint_break_def detach_edge_def by (auto intro!: safe_intros)

lemma safe_fill [safe_intros]: "safe (fill_spec c t ag p)"
  by (induction c t ag p rule: fill_spec.induct) (auto simp: write_move_def intro!: safe_intros)

lemma safe_island [safe_intros]: "safe (fill_island G v c t ph hits attachments)"
  unfolding fill_island_def apply_body_delta_def apply_attachment_def apply_constraint_def Let_def
  by (auto intro!: safe_intros)

end
