(* ===== verification/CommitAtomic.thy ===== *)
theory CommitAtomic
  imports CommitSafe
begin

text \<open>
  Admission is atomic: a refused proposal leaves the world and the claimed cells as they were, an admitted one
  publishes a speculation of its own, logs exactly its events and claims cells that were free.
\<close>

lemma run_spec_outcome:
  assumes "safe f" and "run_spec f ts = (r, ts')"
  shows "\<exists>ops steps. ts' = ts\<lparr>ts_ops := ops, ts_steps := steps\<rparr> \<and> ops \<le> ts_ops ts \<and> steps \<le> ts_steps ts"
    and "r = Inr (x, sd) \<Longrightarrow> spec_step\<^sup>*\<^sup>* (begin_spec (k_world (ts_kernel ts))) sd"
    and "r = Inr (x, sd) \<Longrightarrow> \<exists>u. f \<lparr>cs_spec = begin_spec (k_world (ts_kernel ts)), cs_steps = ts_steps ts, cs_ops = ts_ops ts\<rparr> = (Inr x, u) \<and> cs_spec u = sd"
proof -
  let ?st = "\<lparr>cs_spec = begin_spec (k_world (ts_kernel ts)), cs_steps = ts_steps ts, cs_ops = ts_ops ts\<rparr>"
  obtain q u where f: "f ?st = (q, u)" by fastforce
  have "ts' = ts\<lparr>ts_ops := cs_ops u, ts_steps := cs_steps u\<rparr>" "r = (case q of Inl e \<Rightarrow> Inl e | Inr x \<Rightarrow> Inr (x, cs_spec u))"
    using assms(2) f by (auto simp: run_spec_def Let_def split: sum.splits)
  moreover note safeD[OF assms(1) f]
  ultimately show "\<exists>ops steps. ts' = ts\<lparr>ts_ops := ops, ts_steps := steps\<rparr> \<and> ops \<le> ts_ops ts \<and> steps \<le> ts_steps ts"
    and "r = Inr (x, sd) \<Longrightarrow> spec_step\<^sup>*\<^sup>* (begin_spec (k_world (ts_kernel ts))) sd"
    and "r = Inr (x, sd) \<Longrightarrow> \<exists>u. f ?st = (Inr x, u) \<and> cs_spec u = sd"
    using f by (fastforce split: sum.splits)+
qed

text \<open>
  What an admission does to the tick: \<open>refused\<close> keeps the world and the cells, \<open>admitted\<close> publishes \<open>sd\<close>.
\<close>

definition refused :: "tick_state \<Rightarrow> tick_state \<Rightarrow> bool" where
  "refused ts ts' \<longleftrightarrow> k_world (ts_kernel ts') = k_world (ts_kernel ts) \<and> ts_written ts' = ts_written ts"

definition published :: "(byte list \<Rightarrow> digest) \<Rightarrow> tick_state \<Rightarrow> spec_delta \<Rightarrow> write_cell list \<Rightarrow> tick_state \<Rightarrow> bool" where
  "published H ts sd cells ts' \<longleftrightarrow>
     spec_step\<^sup>*\<^sup>* (begin_spec (k_world (ts_kernel ts))) sd
     \<and> k_world (ts_kernel ts') = commit_spec H sd (k_world (ts_kernel ts))
     \<and> \<not> cell_conflict cells (ts_written ts) \<and> ts_written ts' = claim_cells cells (ts_written ts)"

definition settled :: "tick_state \<Rightarrow> tick_state \<Rightarrow> bool" where
  "settled ts ts' \<longleftrightarrow> ts_ops ts' \<le> ts_ops ts \<and> ts_steps ts' \<le> ts_steps ts
     \<and> k_heap (ts_kernel ts') = k_heap (ts_kernel ts) \<and> k_players (ts_kernel ts') = k_players (ts_kernel ts)
     \<and> k_ring (ts_kernel ts') = k_ring (ts_kernel ts) \<and> k_partition_rejects (ts_kernel ts') = k_partition_rejects (ts_kernel ts)"

lemma note_rewind_simps [simp]:
  "k_world (ts_kernel (note_rewind u ts)) = k_world (ts_kernel ts)" "ts_written (note_rewind u ts) = ts_written ts"
  "ts_ops (note_rewind u ts) = ts_ops ts" "ts_steps (note_rewind u ts) = ts_steps ts"
  "k_heap (ts_kernel (note_rewind u ts)) = k_heap (ts_kernel ts)" "k_players (ts_kernel (note_rewind u ts)) = k_players (ts_kernel ts)"
  "k_ring (ts_kernel (note_rewind u ts)) = k_ring (ts_kernel ts)"
  "k_partition_rejects (ts_kernel (note_rewind u ts)) = k_partition_rejects (ts_kernel ts)"
  by (cases u; simp add: note_rewind_def)+

lemma transact:
  assumes "safe f" and "run_spec f ts = (r, ts1)"
  shows "settled ts ts1" "refused ts ts1" "r = Inr (x, sd) \<Longrightarrow> \<not> cell_conflict cells (ts_written ts) \<Longrightarrow>
      publish H cells sd ts1 = (Inr (sd_events sd), ts2) \<Longrightarrow> settled ts ts2 \<and> published H ts sd cells ts2"
  using run_spec_outcome[OF assms] by (auto simp: settled_def refused_def published_def publish_def)

text \<open>
  The cells that an admission claims, in the state it is made in: the mover and what is attached to it, or the actor's
  action, or the rows of a Place; for an island also the open windows of its bodies and every locus the delta wrote.
\<close>

definition claim :: "kernel \<Rightarrow> tick \<Rightarrow> budget \<Rightarrow> proposal \<Rightarrow> spec_delta \<Rightarrow> write_cell list" where
  "claim k t b p sd = (let w = k_world k in case p of
     PhysIsland ph \<Rightarrow> (case phys_write_cells (wd_view w) (ph_bodies ph) (ph_constraints ph) of
         Inl e \<Rightarrow> []
       | Inr (cells, attachments) \<Rightarrow> island_cells (world_view_of w) (ph_bodies ph)
           (cells @ window_cells (world_view_of w) (ph_bodies ph)) (map fst (sd_written sd)))
   | _ \<Rightarrow> (case preflight k t b p of Inl e \<Rightarrow> [] | Inr (ag, swept) \<Rightarrow> write_cells p (ag_actor ag) (wd_view w)))"

text \<open>A proposal that moves bodies claims every locus it writes; a rite claims its actor's action only.\<close>

fun moves_bodies :: "proposal \<Rightarrow> bool" where
  "moves_bodies (SpaceDelta m) \<longleftrightarrow> True"
| "moves_bodies (MotionDelta m clip rt) \<longleftrightarrow> True"
| "moves_bodies (PhysIsland ph) \<longleftrightarrow> True"
| "moves_bodies _ \<longleftrightarrow> False"

definition writes_claimed :: "proposal \<Rightarrow> spec_delta \<Rightarrow> write_cell list \<Rightarrow> bool" where
  "writes_claimed p sd cells \<longleftrightarrow> (moves_bodies p \<longrightarrow> (\<forall>s \<in> fst ` set (sd_written sd). (s, 0) \<in> set cells))"

definition commits :: "(byte list \<Rightarrow> digest) \<Rightarrow> tick \<Rightarrow> budget \<Rightarrow> proposal \<Rightarrow> tick_state \<Rightarrow> reject_reason + trace_event list \<Rightarrow> tick_state \<Rightarrow> bool" where
  "commits H t b p ts r ts' \<longleftrightarrow> settled ts ts' \<and> (case r of Inl e \<Rightarrow> refused ts ts'
     | Inr es \<Rightarrow> \<exists>sd. es = sd_events sd \<and> published H ts sd (claim (ts_kernel ts) t b p sd) ts'
         \<and> writes_claimed p sd (claim (ts_kernel ts) t b p sd))"

lemma rewound_actor: "rewound k t b p ag = Inr (ag', used) \<Longrightarrow> ag_actor ag' = ag_actor ag"
  by (cases "(k, t, b, p, ag)" rule: rewound.cases) (auto simp: rbind_Inr_iff split: if_splits)

lemma claim_plain: "preflight k t b p = Inr (ag, swept) \<Longrightarrow> claim k t b p sd = write_cells p (ag_actor ag) (wd_view (k_world k))"
  by (cases p) (simp_all add: claim_def Let_def)

lemma claim_island:
  "phys_write_cells (wd_view (k_world k)) (ph_bodies ph) (ph_constraints ph) = Inr (cells, attachments) \<Longrightarrow>
   claim k t b (PhysIsland ph) sd = island_cells (world_view_of (k_world k)) (ph_bodies ph)
     (cells @ window_cells (world_view_of (k_world k)) (ph_bodies ph)) (map fst (sd_written sd))"
  by (simp add: claim_def Let_def)

section \<open>The loci a move writes\<close>

definition writes_in :: "sigil set \<Rightarrow> (cstate, 'a) act \<Rightarrow> bool" where
  "writes_in S f \<longleftrightarrow> (\<forall>st r u. f st = (r, u) \<longrightarrow> fst ` set (sd_written (cs_spec st)) \<subseteq> S \<longrightarrow> fst ` set (sd_written (cs_spec u)) \<subseteq> S)"

lemma writes_in_bind:
  assumes "writes_in S f" "\<And>x. writes_in S (g x)"
  shows "writes_in S (act_bind f g)"
  unfolding writes_in_def
proof (intro allI impI)
  fix st r u assume run: "act_bind f g st = (r, u)" and W: "fst ` set (sd_written (cs_spec st)) \<subseteq> S"
  obtain q v where f: "f st = (q, v)" by fastforce
  have v: "fst ` set (sd_written (cs_spec v)) \<subseteq> S" using assms(1) f W unfolding writes_in_def by blast
  show "fst ` set (sd_written (cs_spec u)) \<subseteq> S"
  proof (cases q)
    case (Inl e)
    then show ?thesis using run f v by (simp add: act_bind_def)
  next
    case (Inr x)
    then have "g x v = (r, u)" using run f by (simp add: act_bind_def)
    then show ?thesis using assms(2)[of x] v unfolding writes_in_def by blast
  qed
qed

lemma writes_in_each: "(\<And>x. x \<in> set xs \<Longrightarrow> writes_in S (f x)) \<Longrightarrow> writes_in S (act_each f xs)"
  by (induction xs) (auto simp: writes_in_bind, simp add: writes_in_def act_ret_def)

lemma writes_in_ops: "writes_in S (on_ops f)"
  by (auto simp: writes_in_def on_ops_def Let_def split: prod.splits)

lemma marks_mem: "fst ` set (fold (\<lambda>s m. bt_insert s () m) ss m) = fst ` set m \<union> set ss"
  by (induction ss arbitrary: m) auto

lemma writes_in_write: "set ss \<subseteq> S \<Longrightarrow> writes_in S (spec_try e (spec_write ss f))"
  by (auto simp: writes_in_def spec_try_def spec_write_def mark_written_def marks_mem Let_def split: sum.splits prod.splits)

lemma writes_in_move: "writes_in {bm_mover m} (write_move m)"
  unfolding write_move_def
  by (rule writes_in_each) (auto simp: spec_set_pose_def[abs_def] spec_set_vel_def[abs_def] spec_set_island_def[abs_def] intro: writes_in_write)

lemma move_claimed:
  assumes "preflight k t b p = Inr (ag, swept)" "act_bind (fill_spec c t ag' p) (\<lambda>_. on_ops f) st = (r, u)" "sd_written (cs_spec st) = []"
  shows "writes_claimed p (cs_spec u) (claim k t b p (cs_spec u))"
proof -
  have sub: "fst ` set (sd_written (cs_spec u)) \<subseteq> {bm_mover m}" if "act_bind (write_move m) (\<lambda>_. on_ops f) st = (r, u)" for m
    using writes_in_bind[OF writes_in_move writes_in_ops, of m "\<lambda>_. f"] assms(3) that unfolding writes_in_def by fastforce
  show ?thesis
  proof (cases "\<exists>m. fill_spec c t ag' p = write_move m \<and> (bm_mover m, 0) \<in> set (claim k t b p (cs_spec u))")
    case True
    then obtain m where m: "fill_spec c t ag' p = write_move m" "(bm_mover m, 0) \<in> set (claim k t b p (cs_spec u))" by blast
    have "fst ` set (sd_written (cs_spec u)) \<subseteq> {bm_mover m}" using sub assms(2) m(1) by simp
    then show ?thesis using m(2) unfolding writes_claimed_def by auto
  next
    case False
    have "\<not> moves_bodies p"
    proof
      assume "moves_bodies p"
      then show False using False assms(1) unfolding claim_plain[OF assms(1)] by (cases p) auto
    qed
    then show ?thesis by (simp add: writes_claimed_def)
  qed
qed

lemma island_claimed: "s \<in> set ss \<Longrightarrow> (s, 0) \<in> set (island_cells v bodies cells ss)"
  by (auto simp: island_cells_def)

section \<open>One admission\<close>

lemma admit_plain_atomic:
  assumes "admit_plain H t b p ts = (r, ts')"
  shows "commits H t b p ts r ts'"
proof -
  let ?k = "ts_kernel ts" let ?c = "wd_canon (k_world ?k)"
  show ?thesis
  proof (cases "\<exists>ag swept ag' used. preflight ?k t b p = Inr (ag, swept) \<and> rewound ?k t b p ag = Inr (ag', used)")
    case False
    then have "ts' = ts" "\<exists>e. r = Inl e"
      using assms by (auto simp: admit_plain_def Let_def split: sum.splits)
    then show ?thesis by (auto simp: commits_def settled_def refused_def)
  next
    case True
    then obtain ag swept ag' used where pf: "preflight ?k t b p = Inr (ag, swept)" "rewound ?k t b p ag = Inr (ag', used)" by blast
    let ?ts = "note_rewind used ts" let ?cells = "write_cells p (ag_actor ag') (wd_view (k_world ?k))"
    let ?f = "act_bind (fill_spec ?c t ag' p) (\<lambda>_. on_ops (\<lambda>q. admit_laws ?c q ag' swept))"
    have safe: "safe ?f" by (auto intro!: safe_intros)
    obtain q ts1 where run: "run_spec ?f ?ts = (q, ts1)" by fastforce
    note tr = transact[OF safe run]
    show ?thesis
    proof (cases "cell_conflict ?cells (ts_written ts)")
      case True
      then show ?thesis using assms pf by (auto simp: commits_def admit_plain_def Let_def settled_def refused_def)
    next
      case False
      note F = False
      show ?thesis
      proof (cases q)
        case (Inl e)
        then show ?thesis using assms pf F run tr(1,2) by (auto simp: commits_def admit_plain_def Let_def settled_def refused_def)
      next
        case (Inr y)
        obtain sd where y: "y = ((), sd)" by (cases y) auto
        then have "publish H ?cells sd ts1 = (r, ts')" using assms pf F run Inr by (auto simp: admit_plain_def Let_def)
        moreover from this have "r = Inr (sd_events sd)" by (simp add: publish_def)
        ultimately have "settled ?ts ts' \<and> published H ?ts sd ?cells ts'" using tr(3)[of "()" sd ?cells H ts'] F Inr y by simp
        moreover have "writes_claimed p sd (claim ?k t b p sd)"
        proof -
          obtain u where "?f \<lparr>cs_spec = begin_spec (k_world (ts_kernel ?ts)), cs_steps = ts_steps ?ts, cs_ops = ts_ops ?ts\<rparr> = (Inr (), u)" "cs_spec u = sd"
            using run_spec_outcome(3)[OF safe run] Inr y by auto
          from move_claimed[OF pf(1) this(1)] this(2) show ?thesis by (simp add: begin_spec_def)
        qed
        moreover have "claim ?k t b p sd = ?cells" by (simp add: claim_plain[OF pf(1)] rewound_actor[OF pf(2)])
        ultimately show ?thesis using \<open>r = Inr (sd_events sd)\<close> by (auto simp: commits_def settled_def published_def)
      qed
    qed
  qed
qed

lemma admit_island_atomic:
  assumes "admit_phys_island H G t ph ts = (r, ts')"
  shows "commits H t b (PhysIsland ph) ts r ts'"
proof -
  let ?w = "k_world (ts_kernel ts)" let ?v = "world_view_of ?w"
  have same: ?thesis if "ts' = ts" "\<exists>e. r = Inl e" using that by (auto simp: commits_def settled_def refused_def)
  show ?thesis
  proof (cases "\<exists>hits cells attachments. validate_phys_island G ?v t ph = Inr hits
      \<and> phys_write_cells (wd_view ?w) (ph_bodies ph) (ph_constraints ph) = Inr (cells, attachments)
      \<and> \<not> cell_conflict cells (ts_written ts) \<and> is_ok (validate_motion_contacts G ?v (ph_bodies ph) (ph_motion ph))
      \<and> \<not> cell_conflict (cells @ window_cells ?v (ph_bodies ph)) (ts_written ts)")
    case False
    then have "ts' = ts" "\<exists>e. r = Inl e"
      using assms by (auto simp: admit_phys_island_def Let_def is_ok_iff split: sum.splits if_splits prod.splits)
    then show ?thesis by (rule same)
  next
    case True
    then obtain hits cells attachments where v: "validate_phys_island G ?v t ph = Inr hits"
      "phys_write_cells (wd_view ?w) (ph_bodies ph) (ph_constraints ph) = Inr (cells, attachments)"
      "\<not> cell_conflict cells (ts_written ts)" "is_ok (validate_motion_contacts G ?v (ph_bodies ph) (ph_motion ph))"
      "\<not> cell_conflict (cells @ window_cells ?v (ph_bodies ph)) (ts_written ts)" by blast
    let ?f = "fill_island G ?v (wd_canon ?w) t ph hits attachments"
    have safe: "safe ?f" by (rule safe_island)
    obtain q ts1 where run: "run_spec ?f ts = (q, ts1)" by fastforce
    note tr = transact[OF safe run]
    show ?thesis
    proof (cases q)
      case (Inl e)
      then show ?thesis using assms v run tr(1,2) by (auto simp: commits_def admit_phys_island_def Let_def is_ok_iff)
    next
      case (Inr y)
      obtain sd where y: "y = ((), sd)" by (cases y) auto
      let ?cells = "island_cells ?v (ph_bodies ph) (cells @ window_cells ?v (ph_bodies ph)) (map fst (sd_written sd))"
      have w: "ts_written ts1 = ts_written ts" using tr(2) by (simp add: refused_def)
      show ?thesis
      proof (cases "length (dedup (map fst ?cells)) > max_phys_island_write_loci \<or> cell_conflict ?cells (ts_written ts)")
        case True
        then show ?thesis using assms v run tr(1,2) Inr y w by (auto simp: commits_def admit_phys_island_def Let_def is_ok_iff split: if_splits)
      next
        case False
        then have "publish H ?cells sd ts1 = (r, ts')" using assms v run Inr y w by (auto simp: admit_phys_island_def Let_def is_ok_iff)
        moreover from this have "r = Inr (sd_events sd)" by (simp add: publish_def)
        ultimately have "settled ts ts' \<and> published H ts sd ?cells ts'" using tr(3)[of "()" sd ?cells H ts'] False Inr y by simp
        moreover have "writes_claimed (PhysIsland ph) sd ?cells" unfolding writes_claimed_def by (intro impI ballI island_claimed) auto
        ultimately show ?thesis using \<open>r = Inr (sd_events sd)\<close> by (auto simp: commits_def claim_island[OF v(2)])
      qed
    qed
  qed
qed

lemma admit_one_atomic:
  assumes "admit_one H G t b p ts = (r, ts')"
  shows "commits H t b p ts r ts'"
  using assms by (cases p) (auto dest: admit_plain_atomic admit_island_atomic)

end
