(* ===== verification/CommitTick.thy ===== *)
theory CommitTick
  imports CommitAtomic
begin

text \<open>
  A tick as a whole: the journal of its batch, one entry per class of equal keys, which says what became of the class,
  in which state, and what it claimed and wrote; and the worlds a kernel can reach.
\<close>

section \<open>The journal of a batch\<close>

text \<open>
  A class is contended when its members differ; otherwise its proposal is refused, or admitted with a speculation and the
  cells claimed for it.
\<close>

datatype answer = Contended | Refused reject_reason | Admitted spec_delta "write_cell list"

type_synonym entry = "(proposal \<times> nat) list \<times> answer"

fun entry_rejects :: "entry \<Rightarrow> (proposal_kind \<times> reject_reason) list" where
  "entry_rejects (cls, Contended) = map (\<lambda>(q, ix). (kind_of q, RConflict)) cls"
| "entry_rejects (cls, Refused r) = [(kind_of (fst (hd cls)), r)]"
| "entry_rejects (cls, Admitted sd cells) = []"

fun entry_events :: "entry \<Rightarrow> trace_event list" where
  "entry_events (cls, Admitted sd cells) = sd_events sd"
| "entry_events (cls, a) = []"

fun entry_cells :: "entry \<Rightarrow> write_cell list" where
  "entry_cells (cls, Admitted sd cells) = cells"
| "entry_cells (cls, a) = []"

text \<open>
  What an answer is between two states of the tick.  A refusal changes nothing but the counters.  An admission publishes
  a speculation begun in the world it found, claims the cells of its proposal, and those cells were free.
\<close>

fun answers :: "(byte list \<Rightarrow> digest) \<Rightarrow> 'sh geometry \<Rightarrow> tick \<Rightarrow> budget \<Rightarrow> entry \<Rightarrow> tick_state \<Rightarrow> tick_state \<Rightarrow> bool" where
  "answers H G t b (cls, Contended) ts u \<longleftrightarrow> \<not> uniform cls \<and> u = ts"
| "answers H G t b (cls, Refused r) ts u \<longleftrightarrow>
     uniform cls \<and> admit_one H G t b (fst (hd cls)) ts = (Inl r, u) \<and> settled ts u \<and> refused ts u"
| "answers H G t b (cls, Admitted sd cells) ts u \<longleftrightarrow>
     uniform cls \<and> admit_one H G t b (fst (hd cls)) ts = (Inr (sd_events sd), u) \<and> settled ts u
     \<and> cells = claim (ts_kernel ts) t b (fst (hd cls)) sd \<and> writes_claimed (fst (hd cls)) sd cells \<and> published H ts sd cells u"

fun journal :: "(byte list \<Rightarrow> digest) \<Rightarrow> 'sh geometry \<Rightarrow> tick \<Rightarrow> budget \<Rightarrow> tick_state \<Rightarrow> entry list \<Rightarrow> tick_state \<Rightarrow> bool" where
  "journal H G t b ts [] v \<longleftrightarrow> v = ts"
| "journal H G t b ts (e # j) v \<longleftrightarrow> (\<exists>u. answers H G t b e ts u \<and> journal H G t b u j v)"

definition disjoint_claims :: "entry list \<Rightarrow> bool" where
  "disjoint_claims j \<longleftrightarrow> sorted_wrt (\<lambda>x y. set (entry_cells x) \<inter> set (entry_cells y) = {}) j"

lemma journal_append: "journal H G t b ts (i @ j) v \<longleftrightarrow> (\<exists>u. journal H G t b ts i u \<and> journal H G t b u j v)"
  by (induction i arbitrary: ts) auto

section \<open>What a journal keeps\<close>

lemma settled_refl: "settled ts ts"
  by (simp add: settled_def)

lemma settled_trans: "settled a b \<Longrightarrow> settled b c \<Longrightarrow> settled a c"
  by (simp add: settled_def)

lemma journal_settled: "journal H G t b ts j v \<Longrightarrow> settled ts v"
proof (induction j arbitrary: ts)
  case (Cons e j)
  then obtain u where u: "answers H G t b e ts u" "settled u v" by auto
  have "settled ts u" using u(1) by (cases "(H, G, t, b, e, ts, u)" rule: answers.cases) (auto simp: settled_refl)
  then show ?case using u(2) by (rule settled_trans)
qed (simp add: settled_refl)

text \<open>The effect of an answer on the world: the commit of an admission, or none.\<close>

lemma answer_world:
  assumes "answers H G t b e ts u"
  obtains "entry_events e = []" "entry_cells e = []" "k_world (ts_kernel u) = k_world (ts_kernel ts)" "ts_written u = ts_written ts"
  | sd where "entry_events e = sd_events sd" "published H ts sd (entry_cells e) u"
  using assms by (cases "(H, G, t, b, e, ts, u)" rule: answers.cases) (auto simp: refused_def)

lemma logged_all: "tl_events (fold (log_append H) es l) = tl_events l @ es"
  by (induction es arbitrary: l) (simp_all add: log_append_def)

lemma journal_log:
  "journal H G t b ts j v \<Longrightarrow>
    tl_events (wd_trace (k_world (ts_kernel v))) = tl_events (wd_trace (k_world (ts_kernel ts))) @ concat (map entry_events j)"
proof (induction j arbitrary: ts)
  case (Cons e j)
  then obtain u where u: "answers H G t b e ts u" "journal H G t b u j v" by auto
  show ?case using Cons.IH[OF u(2)]
    by (cases rule: answer_world[OF u(1)]) (simp_all add: published_def commit_spec_def logged_all)
qed simp

lemma journal_reach: "journal H G t b ts j v \<Longrightarrow> world_reach H (k_world (ts_kernel ts)) \<Longrightarrow> world_reach H (k_world (ts_kernel v))"
proof (induction j arbitrary: ts)
  case (Cons e j)
  then obtain u where u: "answers H G t b e ts u" "journal H G t b u j v" by auto
  have "world_reach H (k_world (ts_kernel u))" using Cons.prems(2)
    by (cases rule: answer_world[OF u(1)]) (auto simp: published_def intro: W_commit)
  then show ?case by (rule Cons.IH[OF u(2)])
qed simp

lemma journal_same: "journal H G t b ts j v \<Longrightarrow> wd_tick (k_world (ts_kernel v)) = wd_tick (k_world (ts_kernel ts))"
proof (induction j arbitrary: ts)
  case (Cons e j)
  then obtain u where u: "answers H G t b e ts u" "journal H G t b u j v" by auto
  show ?case using Cons.IH[OF u(2)] by (cases rule: answer_world[OF u(1)]) (simp_all add: published_def commit_spec_def)
qed simp

section \<open>Cells\<close>

definition cells_of_written :: "written \<Rightarrow> write_cell set" where
  "cells_of_written w = fst ` set w"

lemma claim_cells_of: "cells_of_written (claim_cells cells w) = cells_of_written w \<union> set cells"
  by (induction cells arbitrary: w) (auto simp: claim_cells_def cells_of_written_def)

lemma cell_conflict_iff: "cell_conflict cells w \<longleftrightarrow> set cells \<inter> cells_of_written w \<noteq> {}"
  by (auto simp: cell_conflict_def list_ex_iff bt_has_def bt_get_None_iff cells_of_written_def)

lemma answer_cells:
  "answers H G t b e ts u \<Longrightarrow>
    set (entry_cells e) \<inter> cells_of_written (ts_written ts) = {}
    \<and> cells_of_written (ts_written u) = cells_of_written (ts_written ts) \<union> set (entry_cells e)"
  by (erule answer_world) (auto simp: published_def cell_conflict_iff claim_cells_of)

lemma journal_disjoint:
  "journal H G t b ts j v \<Longrightarrow>
    disjoint_claims j \<and> (\<forall>e \<in> set j. set (entry_cells e) \<inter> cells_of_written (ts_written ts) = {})"
proof (induction j arbitrary: ts)
  case (Cons e j)
  then obtain u where u: "answers H G t b e ts u" "journal H G t b u j v" by auto
  show ?case using Cons.IH[OF u(2)] answer_cells[OF u(1)] by (auto simp: disjoint_claims_def)
qed (simp add: disjoint_claims_def)

text \<open>An admission that moves bodies wrote only loci whose body lane it claims.\<close>

definition moves_claimed :: "entry list \<Rightarrow> bool" where
  "moves_claimed j \<longleftrightarrow> (\<forall>cls sd cells. (cls, Admitted sd cells) \<in> set j \<longrightarrow> writes_claimed (fst (hd cls)) sd cells)"

lemma journal_claimed: "journal H G t b ts j v \<Longrightarrow> moves_claimed j"
proof (induction j arbitrary: ts)
  case (Cons e j)
  then have "moves_claimed j" by auto
  then show ?case using Cons.prems unfolding moves_claimed_def by auto
qed (simp add: moves_claimed_def)

section \<open>The batch writes a journal\<close>

definition journaled :: "(byte list \<Rightarrow> digest) \<Rightarrow> 'sh geometry \<Rightarrow> tick \<Rightarrow> budget \<Rightarrow> tick_state \<times> trace_delta \<Rightarrow> entry list \<Rightarrow> tick_state \<times> trace_delta \<Rightarrow> bool" where
  "journaled H G t b s j u \<longleftrightarrow> journal H G t b (fst s) j (fst u)
     \<and> snd u = (snd s)\<lparr>td_rejects := td_rejects (snd s) @ concat (map entry_rejects j),
         td_events := td_events (snd s) @ concat (map entry_events j)\<rparr>"

lemma journaled_trans: "journaled H G t b s i u \<Longrightarrow> journaled H G t b u j v \<Longrightarrow> journaled H G t b s (i @ j) v"
  by (auto simp: journaled_def journal_append)

lemma class_journal:
  assumes "cls \<noteq> []"
  shows "\<exists>a. journaled H G t b (ts, d) [(cls, a)] (admit_class H G t b cls (ts, d))"
proof -
  obtain p ix rest where cls: "cls = (p, ix) # rest" using assms by (cases cls) auto
  have u: "list_ex (\<lambda>(q, _). q \<noteq> p) rest \<longleftrightarrow> \<not> uniform cls"
    by (auto simp: list_ex_iff uniform_def cls case_prod_beta)
  show ?thesis
  proof (cases "uniform cls")
    case False
    then have "journaled H G t b (ts, d) [(cls, Contended)] (admit_class H G t b cls (ts, d))"
      using u by (simp add: journaled_def admit_class_def cls)
    then show ?thesis ..
  next
    case True
    obtain r ts' where run: "admit_one H G t b p ts = (r, ts')" by fastforce
    note A = admit_one_atomic[OF run, unfolded commits_def]
    show ?thesis
    proof (cases r)
      case (Inl e)
      then have "journaled H G t b (ts, d) [(cls, Refused e)] (admit_class H G t b cls (ts, d))"
        using True u run A by (simp add: journaled_def admit_class_def cls)
      then show ?thesis ..
    next
      case (Inr es)
      then obtain sd where "es = sd_events sd" "published H ts sd (claim (ts_kernel ts) t b p sd) ts'"
        "writes_claimed p sd (claim (ts_kernel ts) t b p sd)" using A by auto
      then have "journaled H G t b (ts, d) [(cls, Admitted sd (claim (ts_kernel ts) t b p sd))] (admit_class H G t b cls (ts, d))"
        using True u run A Inr by (simp add: journaled_def admit_class_def cls)
      then show ?thesis ..
    qed
  qed
qed

lemma classes_journal:
  "[] \<notin> set cs \<Longrightarrow> \<exists>j. map fst j = cs \<and> journaled H G t b s j (fold (admit_class H G t b) cs s)"
proof (induction cs arbitrary: s)
  case Nil
  show ?case by (rule exI[of _ "[]"]) (simp add: journaled_def)
next
  case (Cons c cs)
  obtain a where a: "journaled H G t b s [(c, a)] (admit_class H G t b c s)"
    using class_journal[of c H G t b "fst s" "snd s"] Cons.prems by auto
  obtain j where j: "map fst j = cs" "journaled H G t b (admit_class H G t b c s) j (fold (admit_class H G t b) cs (admit_class H G t b c s))"
    using Cons.IH Cons.prems by fastforce
  then show ?case using journaled_trans[OF a j(2)] by (intro exI[of _ "(c, a) # j"]) simp
qed

text \<open>The classes of a batch: its members grouped by key, in the order of the keys.\<close>

definition key_classes :: "(proposal \<times> nat) list \<Rightarrow> (proposal \<times> nat) list list" where
  "key_classes ps = map (\<lambda>k. filter (\<lambda>q. admit_key q = k) (sort_key admit_key ps)) (sorted_list_of_set (admit_key ` set ps))"

lemma key_classes_nonempty: "[] \<notin> set (key_classes ps)"
  by (auto simp: key_classes_def filter_empty_conv dest!: sym[of "[]"])

lemma batch_journal: "\<exists>j. map fst j = key_classes ps \<and> journaled H G t b s j (admit_batch H G t b ps s)"
  unfolding admit_batch_def batch_classes key_classes_def[symmetric] by (rule classes_journal[OF key_classes_nonempty])

text \<open>A member is in exactly one class, with all members of its key.\<close>

lemma key_class_split:
  assumes "q \<in> set ps"
  obtains pre post where "key_classes ps = pre @ filter (\<lambda>x. admit_key x = admit_key q) (sort_key admit_key ps) # post"
    "\<forall>cls \<in> set pre \<union> set post. q \<notin> set cls"
proof -
  let ?ks = "sorted_list_of_set (admit_key ` set ps)"
  have "admit_key q \<in> set ?ks" using assms by simp
  then obtain xs ys where ks: "?ks = xs @ admit_key q # ys" using split_list by metis
  have "distinct ?ks" by simp
  then have "admit_key q \<notin> set xs \<union> set ys" unfolding ks by auto
  then have "\<forall>cls \<in> set (map (\<lambda>k. filter (\<lambda>x. admit_key x = k) (sort_key admit_key ps)) xs)
      \<union> set (map (\<lambda>k. filter (\<lambda>x. admit_key x = k) (sort_key admit_key ps)) ys). q \<notin> set cls" by auto
  then show thesis by (rule that[rotated]) (simp add: key_classes_def ks)
qed

lemma entry_of:
  assumes "map fst j = key_classes ps" "q \<in> set ps"
  obtains pre cls a post where "j = pre @ (cls, a) # post" "q \<in> set cls" "cls = filter (\<lambda>x. admit_key x = admit_key q) (sort_key admit_key ps)"
    "\<forall>e \<in> set (pre @ post). q \<notin> set (fst e)"
proof -
  obtain xs ys where k: "key_classes ps = xs @ filter (\<lambda>x. admit_key x = admit_key q) (sort_key admit_key ps) # ys"
    "\<forall>cls \<in> set xs \<union> set ys. q \<notin> set cls" by (rule key_class_split[OF assms(2)])
  obtain pre e post where j: "j = pre @ e # post" "map fst pre = xs" "map fst post = ys"
    "fst e = filter (\<lambda>x. admit_key x = admit_key q) (sort_key admit_key ps)"
    using assms(1) k(1) by (auto simp: map_eq_append_conv map_eq_Cons_conv)
  have notin: "q \<notin> set (fst x)" if "x \<in> set (pre @ post)" for x using k(2) that j(2,3) by auto
  obtain cls a where e: "e = (cls, a)" by fastforce
  have mem: "q \<in> set cls" "cls = filter (\<lambda>x. admit_key x = admit_key q) (sort_key admit_key ps)" using j(4) assms(2) by (auto simp: e)
  show thesis by (rule that[OF j(1)[unfolded e] mem]) (use notin in blast)
qed

text \<open>The rejects and events of an entry in terms of one member.\<close>

lemma contended_rejects:
  assumes "\<And>q. q \<in> set cls \<Longrightarrow> kind_of (fst q) = k"
  shows "entry_rejects (cls, Contended) = replicate (length cls) (k, RConflict)"
proof -
  have "map (\<lambda>(q, ix). (kind_of q, RConflict)) cls = map (\<lambda>_. (k, RConflict)) cls"
    by (rule map_cong) (use assms in \<open>auto simp: case_prod_beta\<close>)
  then show ?thesis by (simp add: map_replicate_const)
qed

section \<open>One tick\<close>

definition step_batch :: "nat \<Rightarrow> budget \<Rightarrow> proposer list \<Rightarrow> kernel \<Rightarrow> (proposal \<times> nat) list" where
  "step_batch dt b sync k = k_heap k @ gather (world_view_of (k_world (step_begin dt b k))) dt sync"

text \<open>The state a tick starts in: the whole budget and no claimed cell.\<close>

definition step_start :: "budget \<Rightarrow> kernel \<Rightarrow> tick_state" where
  "step_start b k = \<lparr>ts_kernel = k\<lparr>k_heap := [], k_partition_rejects := []\<rparr>, ts_ops = pred_ops b, ts_steps = rite_steps b, ts_written = []\<rparr>"

definition tick_snaps :: "world \<Rightarrow> trace_event list" where
  "tick_snaps w = (if wd_tick w mod island_snap_period_ticks = 0 then island_snaps (wd_view w) (wd_tick w) else [])"

lemma append_all:
  "\<forall>e \<in> set es. ev_tick e \<le> wd_tick w \<Longrightarrow> let v = fold (world_append H) es w in
    tl_events (wd_trace v) = tl_events (wd_trace w) @ es \<and> wd_tick v = wd_tick w \<and> wd_canon v = wd_canon w \<and> wd_epoch v = wd_epoch w"
  by (induction es arbitrary: w) (auto simp: world_append_def log_append_def Let_def)

lemma append_reach: "world_reach H w \<Longrightarrow> world_reach H (fold (world_append H) es w)"
  by (induction es arbitrary: w) (auto intro: W_append)

lemma snapshot_same [simp]:
  "wd_trace (snd (take_snapshot w)) = wd_trace w" "wd_tick (snd (take_snapshot w)) = wd_tick w"
  "wd_view (snd (take_snapshot w)) = wd_view w" "fst (take_snapshot w) = snapshot_of w"
  by (simp_all add: take_snapshot_def Let_def)

text \<open>The pieces of a step.\<close>

lemma kernel_step_split:
  assumes "kernel_step H G B dt b sync k = (k', delta)"
  obtains j ts where
    "journal H G (wd_tick (k_world (step_begin dt b k))) b (step_start b (step_begin dt b k)) j ts"
    "k_world k' = snd (take_snapshot (fold (world_append H) (tick_snaps (k_world (ts_kernel ts))) (k_world (ts_kernel ts))))"
    "k_ring k' = ring_push (snapshot_of (k_world k')) (ring_set_cap (rewind_ticks b) (k_ring k))"
    "map fst j = key_classes (step_batch dt b sync k)"
    "td_rejects delta = k_partition_rejects k @ concat (map entry_rejects j)"
    "td_events delta = concat (map entry_events j) @ tick_snaps (k_world (ts_kernel ts))"
    "td_tick delta = wd_tick (k_world (step_begin dt b k))" "wd_tick (k_world (ts_kernel ts)) = td_tick delta"
    "k_heap k' = []" "k_players k' = k_players k"
proof -
  let ?k = "step_begin dt b k" let ?t = "wd_tick (k_world ?k)"
  let ?s = "(step_start b ?k, (delta_empty ?t)\<lparr>td_rejects := k_partition_rejects ?k\<rparr>)"
  have heap: "step_batch dt b sync k = k_heap ?k @ gather (world_view_of (k_world ?k)) dt sync" by (simp add: step_batch_def step_begin_def)
  obtain ts d where r: "admit_batch H G ?t b (step_batch dt b sync k) ?s = (ts, d)" by fastforce
  obtain j where j: "map fst j = key_classes (step_batch dt b sync k)" "journaled H G ?t b ?s j (ts, d)"
    using batch_journal[of "step_batch dt b sync k" H G ?t b ?s] r by auto
  let ?w = "k_world (ts_kernel ts)"
  have J: "journal H G ?t b (step_start b ?k) j ts" using j(2) by (simp add: journaled_def)
  have same: "wd_tick ?w = ?t" using journal_same[OF J] by (simp add: step_start_def)
  have step: "k' = (ts_kernel ts)\<lparr>k_world := snd (take_snapshot (fold (world_append H) (tick_snaps ?w) ?w)),
        k_ring := ring_push (snapshot_of (fold (world_append H) (tick_snaps ?w) ?w)) (k_ring (ts_kernel ts))\<rparr>"
      "td_events delta = td_events d @ tick_snaps ?w" "td_tick delta = td_tick d" "td_rejects delta = td_rejects d"
    using assms r[unfolded heap step_start_def] same
    by (auto simp: kernel_step_def Let_def publish_snapshot_def append_events_def take_snapshot_def tick_snaps_def split: if_splits)
  have snap: "snapshot_of (snd (take_snapshot v)) = snapshot_of v" for v by (simp add: take_snapshot_def Let_def snapshot_of_def)
  have S: "settled (step_start b ?k) ts" by (rule journal_settled[OF J])
  show thesis
    by (rule that[of j ts, OF J])
      (use S j step same snap in \<open>simp_all add: settled_def step_start_def step_begin_def journaled_def delta_empty_def\<close>)
qed

section \<open>Reachable kernels\<close>

inductive kernel_reach :: "(byte list \<Rightarrow> digest) \<Rightarrow> 'sh geometry \<Rightarrow> (world_snapshot \<Rightarrow> nat) \<Rightarrow> kernel \<Rightarrow> bool" for H G B where
  K_new: "world_reach H w \<Longrightarrow> kernel_reach H G B (kernel_new w)"
| K_bind: "kernel_reach H G B k \<Longrightarrow> kernel_reach H G B (bind_player i s k)"
| K_ingest: "kernel_reach H G B k \<Longrightarrow> kernel_reach H G B (ingest_from p ix k)"
| K_partition: "kernel_reach H G B k \<Longrightarrow> kernel_reach H G B (snd (kernel_partition G k))"
| K_step: "kernel_reach H G B k \<Longrightarrow> kernel_reach H G B (fst (kernel_step H G B dt b sync k))"
| K_epoch: "kernel_reach H G B k \<Longrightarrow> kernel_apply_epoch H B fh fe ch ep c em k = Inr (k', d) \<Longrightarrow> kernel_reach H G B k'"

lemma fold_islands_reach: "world_reach H w \<Longrightarrow> world_reach H (fold (\<lambda>(s, i, t) w. snd (world_write (set_island s i t) w)) xs w)"
  by (induction xs arbitrary: w) (auto intro: W_island)

definition ring_bounded :: "rewind_ring \<Rightarrow> bool" where
  "ring_bounded r \<longleftrightarrow> length (rr_snaps r) \<le> rr_cap r"

lemma ring_bounded_ops: "ring_bounded (ring_new n)" "ring_bounded (ring_set_cap n r)" "ring_bounded r \<Longrightarrow> ring_bounded (ring_push sn r)"
  by (auto simp: ring_bounded_def ring_new_def ring_set_cap_def ring_push_def ring_trim_def Let_def)

lemma kernel_reach_ok: "kernel_reach H G B k \<Longrightarrow> world_reach H (k_world k) \<and> ring_bounded (k_ring k)"
proof (induction rule: kernel_reach.induct)
  case (K_new w)
  then show ?case by (simp add: kernel_new_def ring_bounded_ops)
next
  case (K_partition k)
  then show ?case by (simp add: kernel_partition_def Let_def fold_islands_reach)
next
  case (K_step k dt b sync)
  obtain k' d where r: "kernel_step H G B dt b sync k = (k', d)" by fastforce
  obtain j ts where s: "journal H G (wd_tick (k_world (step_begin dt b k))) b (step_start b (step_begin dt b k)) j ts"
    "k_world k' = snd (take_snapshot (fold (world_append H) (tick_snaps (k_world (ts_kernel ts))) (k_world (ts_kernel ts))))"
    "k_ring k' = ring_push (snapshot_of (k_world k')) (ring_set_cap (rewind_ticks b) (k_ring k))"
    by (rule kernel_step_split[OF r])
  have "world_reach H (k_world (step_begin dt b k))" using K_step by (simp add: step_begin_def W_tick)
  then have "world_reach H (k_world (ts_kernel ts))" using journal_reach[OF s(1)] by (simp add: step_start_def)
  then have "world_reach H (k_world k')" unfolding s(2) by (intro append_reach W_snapshot)
  then show ?case using s(3) r by (simp add: ring_bounded_ops)
next
  case (K_epoch k fh fe ch ep c em k' d)
  obtain evicted w where a: "apply_canon_epoch c ch ep em (k_world k) = (evicted, w)" by fastforce
  have "world_reach H w" using W_epoch[of H "k_world k" c ch ep em] K_epoch.IH a by simp
  then have reach: "world_reach H (snd (take_snapshot (fold (world_append H) es w)))" for es using W_snapshot append_reach by blast
  let ?es = "map (\<lambda>(a, r). \<lparr>ev_tick = wd_tick w, ev_body = RiteEnded a r ReEvicted\<rparr>) evicted"
  have "k_world k' = snd (take_snapshot (fold (world_append H) ?es w))" "\<exists>sn. k_ring k' = ring_push sn (ring_new (rr_cap (k_ring k)))"
    using K_epoch.hyps(2) a
    by (auto simp: kernel_apply_epoch_def Let_def publish_snapshot_def append_events_def case_prod_beta split: if_splits)
  then show ?case using reach by (auto simp: ring_bounded_ops)
qed (auto simp: bind_player_def ingest_from_def)

end
