(* ===== verification/CommitLawful.thy ===== *)
theory CommitLawful
  imports CommitTick CanonCooked
begin

text \<open>
  The laws of a document on the state an admission publishes: the cooked programs that \<open>admit_laws\<close> runs
  decide the authored predicates, so its verdict is the authored one.
\<close>

section \<open>What a law asks of a state\<close>

definition plain_law :: "law \<Rightarrow> bool" where
  "plain_law l \<longleftrightarrow> opaque_outside (law_when l) \<and> (\<forall>p. body_pred (law_body_of l) = Some p \<longrightarrow> opaque_outside p)"

definition marked :: "canon \<Rightarrow> interner \<Rightarrow> projection \<Rightarrow> agent \<Rightarrow> pred \<Rightarrow> (rel \<times> cooked_slot) option \<Rightarrow> sigil list" where
  "marked c J q ag mark rq =
     filter (\<lambda>s. \<not> cap_skips c q ag rq s \<and> sem J (agent_ctx c q (ag\<lparr>ag_actor := s\<rparr>) False) None mark) (p_sigils q)"

definition upholds :: "canon \<Rightarrow> interner \<Rightarrow> projection \<Rightarrow> agent \<Rightarrow> bool \<Rightarrow> law \<Rightarrow> cooked_law \<Rightarrow> bool" where
  "upholds c J q ag swept l row =
     (let ctx = agent_ctx c q ag swept; applies = sem J ctx None (law_when l) in
      case law_body_of l of
        LbPred must ought \<Rightarrow> applies \<longrightarrow> sem J ctx None must
      | LbConserve res over \<Rightarrow> applies \<longrightarrow> (\<exists>r. canon_resource_id c res = Some r \<and> conserve_holds q (ag_actor ag) r over)
      | LbCap mark n rq \<Rightarrow> (\<exists>m rq'. cl_body row = CkCap m n rq' \<and> min 65535 (length (marked c J q ag mark rq')) \<le> n)
      | _ \<Rightarrow> True)"

definition law_row :: "canon \<Rightarrow> interner \<Rightarrow> string \<times> law \<Rightarrow> cooked_law \<Rightarrow> bool" where
  "law_row c J nl row \<longleftrightarrow> law_decided c J nl row \<and> law_cooked (J, cn_preds c) nl row"

lemma cook_law_rows:
  assumes "cook doc = Inr c"
  obtains d J where "draft_apply (canon_diffs doc) = Inr d" "names_of c J" "list_all2 (law_row c J) (d_laws d) (cn_laws c)"
proof -
  note v = cook_cases[OF assms]
  obtain d I J affs where s: "draft_apply (canon_diffs doc) = Inr d" "draft_ok d" "intern_seed d (doc_seed doc) = Inr I"
    "intern_grows I J" "tables_of d J affs c"
    using cook_inner_step[OF v(2)] by blast
  have "\<forall>nl \<in> set (d_laws d). is_ok (law_check (snd nl))"
    using draft_from_diffs[OF s(1)] validated_diff[OF v(1)] unfolding from_diffs_def by fastforce
  then have "list_all2 (law_row c J) (d_laws d) (cn_laws c)"
    using s(5) law_decided_cooked by (auto simp: tables_of_def list_all2_conv_all_nth law_row_def)
  moreover have "names_of c J"
    using s(5) s(4) intern_seed_step(1)[OF s(3,2)] by (simp add: names_of_def tables_of_def intern_grows_def)
  ultimately show thesis using that s(1) by blast
qed

section \<open>The verdict of one law\<close>

lemma run_pred_decides:
  assumes "decides c J i p" "opaque_outside p" "run_pred c i ctx ops = (r, ops')"
  shows "r = Inl RBudget \<or> r = Inr (sem J ctx None p)"
proof -
  obtain prog where prog: "canon_pred c i = Some prog" "\<And>ctx t. eval_pred prog ctx t = (if cost J ctx None p + 1 \<le> min t pred_ops_per_eval
       then (Inr (sem J ctx None p), t - (cost J ctx None p + 1)) else (Inl RBudget, t - min t pred_ops_per_eval))"
    using assms(1,2) unfolding decides_def by blast
  then have "eval_pred prog ctx ops = (r, ops')" using assms(3) by (simp add: run_pred_def)
  then show ?thesis unfolding prog(2) by (auto split: if_splits)
qed

lemma cap_loop_counts:
  assumes m: "decides c J m mark" "opaque_outside mark"
  shows "cap_loop c q m rq ag ss n ops = (r, ops') \<Longrightarrow> n \<le> 65535 \<Longrightarrow> r = Inl RBudget \<or>
    r = Inr (min 65535 (n + length (filter (\<lambda>s. \<not> cap_skips c q ag rq s \<and> sem J (agent_ctx c q (ag\<lparr>ag_actor := s\<rparr>) False) None mark) ss)))"
proof (induction ss arbitrary: n ops)
  case Nil
  then show ?case by (simp add: act_simps)
next
  case (Cons s ss)
  show ?case
  proof (cases "cap_skips c q ag rq s")
    case True
    then show ?thesis using Cons by simp
  next
    case False
    obtain h ops1 where h: "run_pred c m (agent_ctx c q (ag\<lparr>ag_actor := s\<rparr>) False) ops = (h, ops1)" by fastforce
    show ?thesis
    proof (cases "h = Inl RBudget")
      case True
      then show ?thesis using Cons.prems(1) False h by (simp add: act_simps)
    next
      case F: False
      let ?b = "sem J (agent_ctx c q (ag\<lparr>ag_actor := s\<rparr>) False) None mark"
      have "h = Inr ?b" using run_pred_decides[OF m h] F by blast
      then have "cap_loop c q m rq ag ss (if ?b then min 65535 (n + 1) else n) ops1 = (r, ops')"
        using Cons.prems(1) False h by (simp add: act_simps)
      note ih = Cons.IH[OF this]
      have sat: "min 65535 ((if b then min 65535 (n + 1) else n) + k) = min 65535 (n + (if b then Suc k else k))" for k :: nat and b
        by (auto simp: min_def)
      have "(if ?b then min 65535 (n + 1) else n) \<le> 65535" using Cons.prems(2) by simp
      from ih[OF this] show ?thesis unfolding sat using False by (cases ?b) simp_all
    qed
  qed
qed

lemma law_verdict_one:
  assumes row: "law_row c J nl row" and J: "names_of c J" and plain: "plain_law (snd nl)"
    and run: "admit_law c q ag swept row ops = (r, ops')"
  shows "r = Inl RBudget \<or> r = Inr () \<and> upholds c J q ag swept (snd nl) row
    \<or> r = Inl (RLaw (cl_id row)) \<and> \<not> upholds c J q ag swept (snd nl) row"
proof -
  let ?l = "snd nl" let ?ctx = "agent_ctx c q ag swept"
  have app: "decides c J (cl_when row) (law_when ?l)" "opaque_outside (law_when ?l)"
    using row plain by (auto simp: law_row_def law_decided_def plain_law_def)
  have body: "body_cooked (J, cn_preds c) (law_body_of ?l) (cl_body row)"
    using row by (auto simp: law_row_def law_cooked_def)
  have pred: "\<exists>i. cooked_body_pred (cl_body row) = Some i \<and> decides c J i p \<and> opaque_outside p"
    if "body_pred (law_body_of ?l) = Some p" for p
    using row plain that by (auto simp: law_row_def law_decided_def plain_law_def)
  have res: "bt_get (resources J) n = canon_resource_id c n" for n
    using J by (simp add: names_of_def canon_resource_id_def)
  obtain w ops1 where w: "run_pred c (cl_when row) ?ctx ops = (w, ops1)" by fastforce
  show ?thesis
  proof (cases "w = Inl RBudget")
    case True
    then show ?thesis using run w by (simp add: admit_law_def act_simps)
  next
    case False
    then have wv: "w = Inr (sem J ?ctx None (law_when ?l))" using run_pred_decides[OF app w] by blast
    show ?thesis
    proof (cases "law_body_of ?l")
      case (LbPred must ought)
      then obtain i oi where i: "cl_body row = CkPred i oi" using body by (cases "cl_body row") auto
      then have d: "decides c J i must" "opaque_outside must" using pred[of must] LbPred by auto
      obtain m ops2 where m: "run_pred c i ?ctx ops1 = (m, ops2)" by fastforce
      show ?thesis using run_pred_decides[OF d m] run w wv i m LbPred
        by (auto simp: admit_law_def act_simps upholds_def Let_def split: if_splits)
    next
      case (LbConserve n over)
      then obtain k where "cl_body row = CkConserve k over" "bt_get (resources J) n = Some k"
        using body by (cases "cl_body row") (auto simp: names_resource_def)
      then show ?thesis using run w wv LbConserve
        by (auto simp: admit_law_def act_simps upholds_def Let_def res split: if_splits)
    next
      case (LbCap mark n rq)
      then obtain m rq' where m: "cl_body row = CkCap m n rq'" using body by (cases "cl_body row") auto
      then have d: "decides c J m mark" "opaque_outside mark" using pred[of mark] LbCap by auto
      obtain k ops2 where k: "cap_count c q m rq' ag ops1 = (k, ops2)" by fastforce
      have "k = Inl RBudget \<or> k = Inr (min 65535 (length (marked c J q ag mark rq')))"
      proof (cases "canon_pred c m")
        case None
        then show ?thesis using k by (simp add: cap_count_def act_simps)
      next
        case (Some prog)
        then have "cap_loop c q m rq' ag (p_sigils q) 0 ops1 = (k, ops2)" using k by (simp add: cap_count_def act_simps)
        from cap_loop_counts[OF d this] show ?thesis by (simp add: marked_def)
      qed
      then show ?thesis using run w wv LbCap m k
        by (auto simp: admit_law_def act_simps upholds_def Let_def split: if_splits)
    next
      case (LbRamp a1 a2 a3 a4)
      then have "\<exists>x1 x2 x3 x4. cl_body row = CkRamp x1 x2 x3 x4" using body by (cases "cl_body row") auto
      then show ?thesis using run w wv LbRamp by (auto simp: admit_law_def act_simps upholds_def Let_def)
    next
      case (LbSpread a1 a2 a3 a4 a5)
      then have "\<exists>x1 x2 x3 x4 x5. cl_body row = CkSpread x1 x2 x3 x4 x5" using body by (cases "cl_body row") auto
      then show ?thesis using run w wv LbSpread by (auto simp: admit_law_def act_simps upholds_def Let_def)
    qed
  qed
qed

section \<open>All laws\<close>

lemma act_each_all:
  "act_each f xs s = (Inr u, t) \<Longrightarrow> x \<in> set xs \<Longrightarrow> \<exists>u v. f x u = (Inr (), v)"
  by (induction xs arbitrary: s) (auto simp: act_bind_def split: prod.splits sum.splits)

text \<open>Every plain law of a document holds of \<open>q\<close>, for the agent.\<close>

definition lawful :: "canon \<Rightarrow> interner \<Rightarrow> (string \<times> law) list \<Rightarrow> projection \<Rightarrow> agent \<Rightarrow> bool \<Rightarrow> bool" where
  "lawful c J laws q ag swept \<longleftrightarrow>
     list_all2 (\<lambda>nl row. plain_law (snd nl) \<longrightarrow> upholds c J q ag swept (snd nl) row) laws (cn_laws c)"

lemma lawful_if_each:
  assumes rows: "list_all2 (law_row c J) laws (cn_laws c)" and J: "names_of c J"
    and each: "\<And>row. row \<in> set (cn_laws c) \<Longrightarrow> \<exists>u v. admit_law c q ag swept row u = (Inr (), v)"
  shows "lawful c J laws q ag swept"
  unfolding lawful_def
proof (rule list_all2_all_nthI)
  show "length laws = length (cn_laws c)" using rows by (rule list_all2_lengthD)
  fix i assume i: "i < length laws"
  have row: "law_row c J (laws ! i) (cn_laws c ! i)" using rows i by (rule list_all2_nthD)
  have "cn_laws c ! i \<in> set (cn_laws c)" using i rows by (simp add: list_all2_lengthD[symmetric])
  then obtain u v where run: "admit_law c q ag swept (cn_laws c ! i) u = (Inr (), v)" using each by blast
  from law_verdict_one[OF row J _ run] show "plain_law (snd (laws ! i)) \<longrightarrow> upholds c J q ag swept (snd (laws ! i)) (cn_laws c ! i)"
    by auto
qed

lemma admit_laws_lawful:
  assumes "list_all2 (law_row c J) laws (cn_laws c)" "names_of c J" "admit_laws c q ag swept ops = (Inr (), ops')"
  shows "lawful c J laws q ag swept"
  using lawful_if_each[OF assms(1,2)] act_each_all[OF assms(3)[unfolded admit_laws_def]] by blast

definition mover_agent :: "sigil \<Rightarrow> agent" where
  "mover_agent s = \<lparr>ag_actor = s, ag_target = None, ag_verb = Move, ag_source = SrcPhys, ag_claimed = []\<rparr>"

lemma phys_laws_lawful:
  assumes "list_all2 (law_row c J) laws (cn_laws c)" "names_of c J"
    and run: "admit_phys_laws c q bodies contacts ops = (Inr (), ops')" and mem: "(s, hit) \<in> set bodies"
  shows "lawful c J laws q (mover_agent s) hit"
proof (rule lawful_if_each[OF assms(1,2)])
  fix row assume "row \<in> set (cn_laws c)"
  then obtain u v where "act_each (phys_law c q contacts row) bodies u = (Inr (), v)"
    using act_each_all[OF run[unfolded admit_phys_laws_def]] by blast
  from act_each_all[OF this mem] obtain u v where "phys_law c q contacts row (s, hit) u = (Inr (), v)" by blast
  then show "\<exists>u v. admit_law c q (mover_agent s) hit row u = (Inr (), v)"
    by (auto simp: phys_law_def act_bind_Inr mover_agent_def)
qed

section \<open>The verdict on all laws\<close>

lemma act_each_first:
  "act_each f xs s = (Inl e, t) \<Longrightarrow>
    \<exists>i < length xs. (\<forall>j < i. \<exists>u v. f (xs ! j) u = (Inr (), v)) \<and> (\<exists>u. f (xs ! i) u = (Inl e, t))"
proof (induction xs arbitrary: s)
  case (Cons x xs)
  obtain q u where x: "f x s = (q, u)" by fastforce
  show ?case
  proof (cases q)
    case (Inl e')
    then show ?thesis using Cons.prems x by (intro exI[of _ 0]) (auto simp: act_bind_def)
  next
    case (Inr y)
    then have "act_each f xs u = (Inl e, t)" using Cons.prems x by (simp add: act_bind_def)
    from Cons.IH[OF this] obtain i where i: "i < length xs" "\<forall>j < i. \<exists>u v. f (xs ! j) u = (Inr (), v)" "\<exists>u. f (xs ! i) u = (Inl e, t)"
      by blast
    have "\<exists>u v. f ((x # xs) ! j) u = (Inr (), v)" if "j < Suc i" for j
      using that i(2) x Inr by (cases j) auto
    then show ?thesis using i(1,3) by (intro exI[of _ "Suc i"]) simp
  qed
qed (simp add: act_ret_def)

lemma law_verdict_all:
  assumes rows: "list_all2 (law_row c J) laws (cn_laws c)" and J: "names_of c J"
    and ids: "map cl_id (cn_laws c) = [0..<length (cn_laws c)]" and plain: "\<forall>nl \<in> set laws. plain_law (snd nl)"
    and run: "admit_laws c q ag swept ops = (r, ops')"
  shows "r = Inl RBudget
    \<or> r = Inr () \<and> (\<forall>i < length laws. upholds c J q ag swept (snd (laws ! i)) (cn_laws c ! i))
    \<or> (\<exists>i < length laws. r = Inl (RLaw i) \<and> \<not> upholds c J q ag swept (snd (laws ! i)) (cn_laws c ! i)
         \<and> (\<forall>j < i. upholds c J q ag swept (snd (laws ! j)) (cn_laws c ! j)))"
proof -
  have len: "length (cn_laws c) = length laws" using rows by (simp add: list_all2_lengthD)
  have one: "v = Inl RBudget \<or> v = Inr () \<and> upholds c J q ag swept (snd (laws ! i)) (cn_laws c ! i)
      \<or> v = Inl (RLaw i) \<and> \<not> upholds c J q ag swept (snd (laws ! i)) (cn_laws c ! i)"
    if "i < length laws" "admit_law c q ag swept (cn_laws c ! i) u = (v, u')" for i u v u'
  proof -
    have "cl_id (cn_laws c ! i) = i" using arg_cong[OF ids, of "\<lambda>xs. xs ! i"] that(1) len by simp
    then show ?thesis using law_verdict_one[OF list_all2_nthD[OF rows that(1)] J _ that(2)] plain that(1) by simp
  qed
  show ?thesis
  proof (cases r)
    case (Inl e)
    then obtain i where i: "i < length laws" "\<forall>j < i. \<exists>u v. admit_law c q ag swept (cn_laws c ! j) u = (Inr (), v)"
      "\<exists>u. admit_law c q ag swept (cn_laws c ! i) u = (Inl e, ops')"
      using act_each_first[of "admit_law c q ag swept" "cn_laws c" ops e ops'] run by (auto simp: admit_laws_def len)
    have "upholds c J q ag swept (snd (laws ! j)) (cn_laws c ! j)" if "j < i" for j
      using one[of j] i(1,2) that by (metis Inl_Inr_False order.strict_trans)
    then show ?thesis using one[OF i(1)] i Inl by blast
  next
    case (Inr u)
    have "upholds c J q ag swept (snd (laws ! i)) (cn_laws c ! i)" if "i < length laws" for i
    proof -
      have "cn_laws c ! i \<in> set (cn_laws c)" using that len by simp
      then obtain u v where "admit_law c q ag swept (cn_laws c ! i) u = (Inr (), v)"
        using act_each_all[OF run[unfolded admit_laws_def Inr]] by blast
      from one[OF that this] show ?thesis by simp
    qed
    then show ?thesis using Inr by simp
  qed
qed

section \<open>A broken law\<close>

text \<open>
  The kernel's reading of the laws, said outright.  A \<open>Pred\<close> law is broken when its \<open>when\<close> holds and its \<open>must\<close> fails;
  a \<open>Conserve\<close> law when its \<open>when\<close> holds and the agent, or a locus it is related to, is left with a negative quantity;
  a \<open>Cap\<close> law when more than its number of loci carry the mark, whether or not its \<open>when\<close> holds.  \<open>Ramp\<close> and
  \<open>Spread\<close> laws drive the simulation and are never broken.
\<close>

definition law_broken :: "canon \<Rightarrow> interner \<Rightarrow> projection \<Rightarrow> agent \<Rightarrow> bool \<Rightarrow> law \<Rightarrow> cooked_law \<Rightarrow> bool" where
  "law_broken c J q ag swept l row \<longleftrightarrow>
     (let ctx = agent_ctx c q ag swept; applies = sem J ctx None (law_when l) in
      case law_body_of l of
        LbPred must ought \<Rightarrow> applies \<and> \<not> sem J ctx None must
      | LbConserve res over \<Rightarrow> applies \<and> (\<exists>r. canon_resource_id c res = Some r
          \<and> (\<exists>s. (s = ag_actor ag \<or> proj_has_rel q (ag_actor ag) over s) \<and> proj_qty q s r < 0))
      | LbCap mark n rq \<Rightarrow> \<exists>m rq'. cl_body row = CkCap m n rq' \<and> n < min 65535 (length (marked c J q ag mark rq'))
      | _ \<Rightarrow> False)"

lemma broken_iff:
  assumes "law_row c J nl row" and J: "names_of c J"
  shows "law_broken c J q ag swept (snd nl) row \<longleftrightarrow> \<not> upholds c J q ag swept (snd nl) row"
proof -
  have body: "body_cooked (J, cn_preds c) (law_body_of (snd nl)) (cl_body row)"
    using assms(1) by (auto simp: law_row_def law_cooked_def)
  have res: "bt_get (resources J) n = canon_resource_id c n" for n
    using J by (simp add: names_of_def canon_resource_id_def)
  show ?thesis
  proof (cases "law_body_of (snd nl)")
    case (LbConserve n over)
    then obtain k where "canon_resource_id c n = Some k"
      using body res by (cases "cl_body row") (auto simp: names_resource_def)
    then show ?thesis using LbConserve
      by (auto simp: law_broken_def upholds_def Let_def conserve_holds_def proj_has_rel_def list_all_iff)
  next
    case (LbCap mark n rq)
    then obtain m rq' where "cl_body row = CkCap m n rq'" using body by (cases "cl_body row") auto
    then show ?thesis using LbCap by (auto simp: law_broken_def upholds_def Let_def)
  qed (auto simp: law_broken_def upholds_def Let_def)
qed

section \<open>What a commit answers for\<close>

text \<open>The agents on whose behalf a proposal is judged, and whether their sweep met a closed hull.\<close>

fun answerable :: "'sh geometry \<Rightarrow> tick \<Rightarrow> budget \<Rightarrow> proposal \<Rightarrow> kernel \<Rightarrow> (agent \<times> bool) list" where
  "answerable G t b (PhysIsland ph) k =
     (case validate_phys_island G (world_view_of (k_world k)) t ph of
        Inl e \<Rightarrow> []
      | Inr hits \<Rightarrow> map (\<lambda>(s, hit). (mover_agent s, hit)) (zip (map bd_mover (ph_bodies ph)) hits))"
| "answerable G t b p k =
     (case preflight k t b p of
        Inl e \<Rightarrow> []
      | Inr (ag, swept) \<Rightarrow> (case rewound k t b p ag of Inl e \<Rightarrow> [] | Inr (ag', used) \<Rightarrow> [(ag', swept)]))"

lemma rfold_collect:
  "rfold (\<lambda>hs x. rbind (f x) (\<lambda>h. Inr (hs @ [h]))) acc xs = Inr hits \<Longrightarrow> length hits = length acc + length xs"
proof (induction xs arbitrary: acc)
  case (Cons x xs)
  then obtain h where "f x = Inr h" "rfold (\<lambda>hs x. rbind (f x) (\<lambda>h. Inr (hs @ [h]))) (acc @ [h]) xs = Inr hits"
    by (auto simp: rbind_Inr_iff)
  from Cons.IH[OF this(2)] show ?case by simp
qed simp

lemma validated_hits: "validate_phys_island G v t ph = Inr hits \<Longrightarrow> length hits = length (ph_bodies ph)"
  by (auto simp: validate_phys_island_def rbind_Inr_iff dest!: rfold_collect split: if_splits)

lemma on_ops_Inr: "on_ops f st = (Inr x, u) \<Longrightarrow> \<exists>ops'. f (sd_proj (cs_spec u)) (cs_ops st) = (Inr x, ops')"
  by (auto simp: on_ops_def split: prod.splits)

lemma plain_commit:
  assumes "admit_plain H t b p ts = (Inr es, ts')"
  obtains ag swept ag' used ops ops' where "preflight (ts_kernel ts) t b p = Inr (ag, swept)" "rewound (ts_kernel ts) t b p ag = Inr (ag', used)"
    "admit_laws (wd_canon (k_world (ts_kernel ts))) (wd_view (k_world (ts_kernel ts'))) ag' swept ops = (Inr (), ops')"
proof -
  let ?k = "ts_kernel ts" let ?c = "wd_canon (k_world ?k)"
  obtain ag swept where a: "preflight ?k t b p = Inr (ag, swept)" using assms by (auto simp: admit_plain_def Let_def split: sum.splits)
  obtain ag' used where b: "rewound ?k t b p ag = Inr (ag', used)" using assms a by (auto simp: admit_plain_def Let_def split: sum.splits)
  let ?f = "act_bind (fill_spec ?c t ag' p) (\<lambda>_. on_ops (\<lambda>q. admit_laws ?c q ag' swept))" let ?ts = "note_rewind used ts"
  have safe: "safe ?f" by (auto intro!: safe_intros)
  obtain x sd ts1 where run: "run_spec ?f ?ts = (Inr (x, sd), ts1)" and pub: "k_world (ts_kernel ts') = commit_spec H sd (k_world (ts_kernel ts1))"
    using assms a b by (auto simp: admit_plain_def Let_def publish_def split: if_splits sum.splits prod.splits)
  obtain st u where "?f st = (Inr x, u)" "cs_spec u = sd" using run_spec_outcome(3)[OF safe run] by blast
  then obtain ta where "on_ops (\<lambda>q. admit_laws ?c q ag' swept) ta = (Inr x, u)" unfolding act_bind_Inr by blast
  then obtain ops ops' where "admit_laws ?c (sd_proj sd) ag' swept ops = (Inr (), ops')"
    using on_ops_Inr \<open>cs_spec u = sd\<close> by fastforce
  then show thesis using that a b by (simp add: pub commit_spec_def)
qed

lemma island_commit:
  assumes "admit_phys_island H G t ph ts = (Inr es, ts')"
  obtains hits contacts ops ops' where "validate_phys_island G (world_view_of (k_world (ts_kernel ts))) t ph = Inr hits"
    "admit_phys_laws (wd_canon (k_world (ts_kernel ts))) (wd_view (k_world (ts_kernel ts'))) (zip (map bd_mover (ph_bodies ph)) hits) contacts ops = (Inr (), ops')"
proof -
  let ?w = "k_world (ts_kernel ts)" let ?v = "world_view_of ?w"
  obtain hits where h: "validate_phys_island G ?v t ph = Inr hits"
    using assms by (auto simp: admit_phys_island_def Let_def split: sum.splits)
  obtain cells attachments where w: "phys_write_cells (wd_view ?w) (ph_bodies ph) (ph_constraints ph) = Inr (cells, attachments)"
    using assms h by (auto simp: admit_phys_island_def Let_def split: sum.splits)
  let ?f = "fill_island G ?v (wd_canon ?w) t ph hits attachments"
  have safe: "safe ?f" by (rule safe_island)
  obtain x sd ts1 where run: "run_spec ?f ts = (Inr (x, sd), ts1)" and pub: "k_world (ts_kernel ts') = commit_spec H sd (k_world (ts_kernel ts1))"
    using assms h w by (auto simp: admit_phys_island_def Let_def publish_def split: if_splits sum.splits prod.splits)
  obtain st u where "?f st = (Inr x, u)" "cs_spec u = sd" using run_spec_outcome(3)[OF safe run] by blast
  then obtain ta contacts where "on_ops (\<lambda>p. admit_phys_laws (wd_canon ?w) p (zip (map bd_mover (ph_bodies ph)) hits) contacts) ta = (Inr x, u)"
    unfolding fill_island_def act_bind_Inr by blast
  then obtain contacts ops ops' where
      "admit_phys_laws (wd_canon ?w) (sd_proj sd) (zip (map bd_mover (ph_bodies ph)) hits) contacts ops = (Inr (), ops')"
    using on_ops_Inr \<open>cs_spec u = sd\<close> by fastforce
  then show thesis using that h by (simp add: pub commit_spec_def)
qed

lemma not_island:
  "\<forall>ph. p \<noteq> PhysIsland ph \<Longrightarrow> admit_one H G t b p ts = admit_plain H t b p ts \<and> answerable G t b p k =
     (case preflight k t b p of Inl e \<Rightarrow> [] | Inr (ag, swept) \<Rightarrow>
        (case rewound k t b p ag of Inl e \<Rightarrow> [] | Inr (ag', used) \<Rightarrow> [(ag', swept)]))"
  by (induction p) simp_all

lemma commit_lawful:
  assumes rows: "list_all2 (law_row c J) laws (cn_laws c)" "names_of c J"
    and run: "admit_one H G t b p ts = (Inr es, ts')" and canon: "wd_canon (k_world (ts_kernel ts)) = c"
  shows "length (answerable G t b p (ts_kernel ts)) = (case p of PhysIsland ph \<Rightarrow> length (ph_bodies ph) | _ \<Rightarrow> 1)
    \<and> (\<forall>(ag, swept) \<in> set (answerable G t b p (ts_kernel ts)). lawful c J laws (wd_view (k_world (ts_kernel ts'))) ag swept)"
proof -
  show ?thesis
  proof (cases "\<forall>ph. p \<noteq> PhysIsland ph")
    case True
    note N = not_island[OF True, where H = H and G = G and t = t and b = b and ts = ts and k = "ts_kernel ts"]
    have "admit_plain H t b p ts = (Inr es, ts')" using run N by simp
    from plain_commit[OF this] obtain ag swept ag' used ops ops' where
      a: "preflight (ts_kernel ts) t b p = Inr (ag, swept)" "rewound (ts_kernel ts) t b p ag = Inr (ag', used)"
      "admit_laws c (wd_view (k_world (ts_kernel ts'))) ag' swept ops = (Inr (), ops')"
      unfolding canon by blast
    have "answerable G t b p (ts_kernel ts) = [(ag', swept)]" using N a(1,2) by simp
    then show ?thesis using admit_laws_lawful[OF rows a(3)] True by (cases p) simp_all
  next
    case False
    then obtain ph where p: "p = PhysIsland ph" by blast
    then have "admit_phys_island H G t ph ts = (Inr es, ts')" using run by simp
    from island_commit[OF this] obtain hits contacts ops ops' where h: "validate_phys_island G (world_view_of (k_world (ts_kernel ts))) t ph = Inr hits"
      "admit_phys_laws c (wd_view (k_world (ts_kernel ts'))) (zip (map bd_mover (ph_bodies ph)) hits) contacts ops = (Inr (), ops')"
      unfolding canon by blast
    then show ?thesis using phys_laws_lawful[OF rows h(2)] validated_hits[OF h(1)] p by auto
  qed
qed

end
