(* ===== verification/CommitProps.thy ===== *)
theory CommitProps
  imports CommitLawful
begin

text \<open>
  What the kernel guarantees: lawful commits, exact law verdicts, order independence, idempotent retries, serial ticks,
  an answer to every proposal, and the worlds it can reach.
\<close>

section \<open>A small world\<close>

definition no_geometry :: "unit geometry" where
  "no_geometry = \<lparr>g_cooked_shape = \<lambda>_ _. None, g_bounds = \<lambda>_ _. None, g_swept_against = \<lambda>_ _ _ _ _. None,
     g_penetration_mm = \<lambda>_ _ _ _. None, g_resolve_character = \<lambda>_ _ _ _ _. None, g_verify_cooked = \<lambda>_ _ _ _ _ _ _ _. False,
     g_verify_sweep = \<lambda>_ _ _ _ _. None\<rparr>"

definition door_canon :: canon where
  "door_canon = (case cook door_doc of Inr c \<Rightarrow> c | Inl _ \<Rightarrow> canon_default)"

lemma door_cooks: "cook door_doc = Inr door_canon"
  by (simp add: door_canon_def door_doc_def key_law_def cook_run canon_run)

definition door_kernel :: kernel where
  "door_kernel = kernel_new (world_with_cap length_hash door_canon hash_zero 4)"

definition glance :: "sigil \<Rightarrow> proposal" where
  "glance s = Mind \<lparr>mi_locus = s, mi_verb = Look, mi_target = NoIntent, mi_utility = 0\<rparr>"

definition door_tick :: tick_state where
  "door_tick = \<lparr>ts_kernel = door_kernel, ts_ops = 8192, ts_steps = 2000, ts_written = []\<rparr>"

lemma door_reach: "kernel_reach length_hash no_geometry (\<lambda>_. 0) door_kernel"
  unfolding door_kernel_def by (intro K_new W_new)

lemma door_laws: "draft_apply (canon_diffs door_doc) = Inr d \<Longrightarrow> d_laws d = [(''keyed'', key_law)]"
  by (auto simp: door_doc_def draft_apply_def draft_new_def bt_has_def key_law_def)

lemma door_law_rows:
  obtains J row where "names_of door_canon J" "cn_laws door_canon = [row]" "law_row door_canon J (''keyed'', key_law) row"
proof -
  obtain d J where d: "draft_apply (canon_diffs door_doc) = Inr d" "names_of door_canon J"
    "list_all2 (law_row door_canon J) (d_laws d) (cn_laws door_canon)"
    by (rule cook_law_rows[OF door_cooks])
  show thesis using that d(2,3) unfolding door_laws[OF d(1)] by (auto simp: list_all2_Cons1)
qed

lemma glance_admitted: "\<exists>ts'. admit_one length_hash no_geometry 0 budget_hearth (glance 1) door_tick = (Inr [], ts')"
proof -
  obtain J row where r: "cn_laws door_canon = [row]" "law_row door_canon J (''keyed'', key_law) row"
    by (rule door_law_rows)
  have when_false: "run_pred door_canon (cl_when row) ctx 8192 = (Inr False, 8190)" if "ctx_verb ctx = Look" for ctx
  proof -
    have d: "decides door_canon J (cl_when row) (PEqVerb Use)"
      using r(2) by (simp add: law_row_def law_decided_def key_law_def)
    then show ?thesis using that by (auto simp: decides_def run_pred_def pred_ops_per_eval_def)
  qed
  obtain must oi where b: "cl_body row = CkPred must oi"
    using r(2) by (cases "cl_body row") (auto simp: law_row_def law_cooked_def key_law_def)
  have none: "first_rite (sd_proj (begin_spec (k_world door_kernel))) 1 = None"
    by (simp add: first_rite_def begin_spec_def door_kernel_def kernel_new_def world_with_cap_def proj_with_cap_def rites_of_def nth_opt_def split: option.split)
  have idle: "drive_rite d 1 None \<lparr>cs_spec = begin_spec (k_world door_kernel), cs_steps = 2000, cs_ops = 8192\<rparr>
      = (Inr (), \<lparr>cs_spec = begin_spec (k_world door_kernel), cs_steps = 2000, cs_ops = 8192\<rparr>)" if "dr_verb d = Look" for d
    using that by (simp add: drive_rite_def act_simps spec_see_def none pick_start_rite_def)
  have laws: "admit_laws door_canon q ag False 8192 = (Inr (), 8190)" if "ag_verb ag = Look" for q ag
    using that by (simp add: admit_laws_def r(1) act_simps admit_law_def when_false agent_ctx_def b)
  have kernel: "wd_canon (k_world door_kernel) = door_canon" "sd_events (begin_spec (k_world door_kernel)) = []"
    by (simp_all add: door_kernel_def kernel_new_def world_with_cap_def begin_spec_def)
  show ?thesis
    by (simp add: glance_def admit_plain_def preflight_mind_def door_tick_def note_rewind_def cell_conflict_def bt_has_def
        run_spec_def act_simps Let_def idle on_ops_def laws publish_def drive_of_def kernel)
qed

section \<open>Laws\<close>

text \<open>
  C2: Commits are lawful.  When a proposal is admitted in a world whose tables were cooked from a document, every
  law of the document holds of the state that the commit leaves, for every agent the proposal acts for: the actor of
  an intent or a move, each body of a physical island.  A \<open>must\<close> holds where its \<open>when\<close> does, a \<open>Conserve\<close> leaves no
  negative quantity, a \<open>Cap\<close> is not exceeded.  (Laws with \<open>OpaqueClosed\<close> below a quantifier are excluded.)
\<close>

theorem commits_are_lawful:
  assumes "cook doc = Inr c" and "wd_canon (k_world (ts_kernel ts)) = c" and "admit_one H G t b p ts = (Inr es, ts')"
  shows "\<exists>d J. draft_apply (canon_diffs doc) = Inr d \<and> names_of c J
    \<and> length (answerable G t b p (ts_kernel ts)) = (case p of PhysIsland ph \<Rightarrow> length (ph_bodies ph) | _ \<Rightarrow> 1)
    \<and> (\<forall>(ag, swept) \<in> set (answerable G t b p (ts_kernel ts)). lawful c J (d_laws d) (wd_view (k_world (ts_kernel ts'))) ag swept)"
proof -
  obtain d J where d: "draft_apply (canon_diffs doc) = Inr d" "names_of c J" "list_all2 (law_row c J) (d_laws d) (cn_laws c)"
    by (rule cook_law_rows[OF assms(1)])
  show ?thesis using commit_lawful[OF d(3,2) assms(3,2)] d(1,2) by blast
qed

theorem commits_are_lawful_witness:
  "\<exists>ts' d J. admit_one length_hash no_geometry 0 budget_hearth (glance 1) door_tick = (Inr [], ts')
     \<and> draft_apply (canon_diffs door_doc) = Inr d
     \<and> (\<forall>(ag, swept) \<in> set (answerable no_geometry 0 budget_hearth (glance 1) door_kernel).
          lawful door_canon J (d_laws d) (wd_view (k_world (ts_kernel ts'))) ag swept)"
proof -
  obtain ts' where run: "admit_one length_hash no_geometry 0 budget_hearth (glance 1) door_tick = (Inr [], ts')"
    using glance_admitted by blast
  have "wd_canon (k_world (ts_kernel door_tick)) = door_canon"
    by (simp add: door_tick_def door_kernel_def kernel_new_def world_with_cap_def)
  from commits_are_lawful[OF door_cooks this run] show ?thesis using run by (auto simp: door_tick_def)
qed

text \<open>
  C10: The first broken law is named.  Take tables cooked from a document none of whose laws has \<open>OpaqueClosed\<close> below a
  quantifier.  For every state, agent and budget, checking the laws either runs out of the budget, or succeeds and no law
  is broken, or names the first law that is broken.  Broken is meant as the kernel reads the laws, which for \<open>Pred\<close> is
  the documented rule (\<open>when\<close> holds and \<open>must\<close> fails); a \<open>Cap\<close> counts whether or not its \<open>when\<close> holds, and a
  \<open>Conserve\<close> only forbids negative quantities.
\<close>

theorem law_verdict:
  assumes "cook doc = Inr c" and "draft_apply (canon_diffs doc) = Inr d" and "\<And>nl. nl \<in> set (d_laws d) \<Longrightarrow> plain_law (snd nl)"
  shows "\<exists>J. names_of c J \<and> (\<forall>q ag swept ops r ops'. admit_laws c q ag swept ops = (r, ops') \<longrightarrow>
      r = Inl RBudget
      \<or> r = Inr () \<and> (\<forall>i < length (d_laws d). \<not> law_broken c J q ag swept (snd (d_laws d ! i)) (cn_laws c ! i))
      \<or> (\<exists>i < length (d_laws d). r = Inl (RLaw i) \<and> law_broken c J q ag swept (snd (d_laws d ! i)) (cn_laws c ! i)
           \<and> (\<forall>j < i. \<not> law_broken c J q ag swept (snd (d_laws d ! j)) (cn_laws c ! j))))"
proof -
  obtain J where d: "names_of c J" "list_all2 (law_row c J) (d_laws d) (cn_laws c)"
    using cook_law_rows[OF assms(1)] assms(2) by (metis sum.inject(2))
  have ids: "map cl_id (cn_laws c) = [0..<length (cn_laws c)]" using cooked_ids[OF assms(1)] by blast
  have plain: "\<forall>nl \<in> set (d_laws d). plain_law (snd nl)" using assms(3) by blast
  have broken: "law_broken c J q ag swept (snd (d_laws d ! i)) (cn_laws c ! i)
      \<longleftrightarrow> \<not> upholds c J q ag swept (snd (d_laws d ! i)) (cn_laws c ! i)" if "i < length (d_laws d)" for q ag swept i
    by (rule broken_iff[OF list_all2_nthD[OF d(2) that] d(1)])
  show ?thesis
  proof (intro exI[of _ J] conjI allI impI)
    fix q ag swept ops r ops' assume "admit_laws c q ag swept ops = (r, ops')"
    from law_verdict_all[OF d(2,1) ids plain this]
    consider "r = Inl RBudget" | "r = Inr ()" "\<forall>i < length (d_laws d). upholds c J q ag swept (snd (d_laws d ! i)) (cn_laws c ! i)"
      | i where "i < length (d_laws d)" "r = Inl (RLaw i)" "\<not> upholds c J q ag swept (snd (d_laws d ! i)) (cn_laws c ! i)"
          "\<forall>j < i. upholds c J q ag swept (snd (d_laws d ! j)) (cn_laws c ! j)" by blast
    then show "r = Inl RBudget
      \<or> r = Inr () \<and> (\<forall>i < length (d_laws d). \<not> law_broken c J q ag swept (snd (d_laws d ! i)) (cn_laws c ! i))
      \<or> (\<exists>i < length (d_laws d). r = Inl (RLaw i) \<and> law_broken c J q ag swept (snd (d_laws d ! i)) (cn_laws c ! i)
           \<and> (\<forall>j < i. \<not> law_broken c J q ag swept (snd (d_laws d ! j)) (cn_laws c ! j)))"
    proof cases
      case 2
      then show ?thesis by (simp add: broken)
    next
      case (3 i)
      then show ?thesis by (intro disjI2 exI[of _ i]) (simp add: broken)
    qed simp
  qed (rule d(1))
qed

theorem law_verdict_witness:
  "\<exists>J row. names_of door_canon J \<and> cn_laws door_canon = [row] \<and> (\<forall>q ag swept ops r ops'. admit_laws door_canon q ag swept ops = (r, ops') \<longrightarrow>
      r = Inl RBudget \<or> r = Inr () \<and> \<not> law_broken door_canon J q ag swept key_law row \<or> r = Inl (RLaw 0) \<and> law_broken door_canon J q ag swept key_law row)"
proof -
  obtain d where d: "draft_apply (canon_diffs door_doc) = Inr d" using cook_law_rows[OF door_cooks] by metis
  have "plain_law (snd nl)" if "nl \<in> set (d_laws d)" for nl
    using that unfolding door_laws[OF d] by (simp add: plain_law_def key_law_def)
  from law_verdict[OF door_cooks d this] obtain J where J: "names_of door_canon J"
    "\<forall>q ag swept ops r ops'. admit_laws door_canon q ag swept ops = (r, ops') \<longrightarrow>
      r = Inl RBudget
      \<or> r = Inr () \<and> (\<forall>i < length (d_laws d). \<not> law_broken door_canon J q ag swept (snd (d_laws d ! i)) (cn_laws door_canon ! i))
      \<or> (\<exists>i < length (d_laws d). r = Inl (RLaw i) \<and> law_broken door_canon J q ag swept (snd (d_laws d ! i)) (cn_laws door_canon ! i)
           \<and> (\<forall>j < i. \<not> law_broken door_canon J q ag swept (snd (d_laws d ! j)) (cn_laws door_canon ! j)))" by blast
  obtain row where "cn_laws door_canon = [row]" by (rule door_law_rows)
  then show ?thesis using J unfolding door_laws[OF d] by auto
qed

section \<open>The batch\<close>

definition ingest_all :: "(proposal \<times> nat) list \<Rightarrow> kernel \<Rightarrow> kernel" where
  "ingest_all ps k = fold (\<lambda>(p, ix). ingest_from p ix) ps k"

lemma ingest_all_heap: "ingest_all ps k = k\<lparr>k_heap := k_heap k @ ps\<rparr>"
  unfolding ingest_all_def by (induction ps arbitrary: k) (auto simp: ingest_from_def)

text \<open>A step in terms of its batch alone.\<close>

definition step_from :: "(byte list \<Rightarrow> digest) \<Rightarrow> 'sh geometry \<Rightarrow> budget \<Rightarrow> kernel \<Rightarrow> (proposal \<times> nat) list \<Rightarrow> tick_state \<times> trace_delta" where
  "step_from H G b k batch = admit_batch H G (wd_tick (k_world k)) b batch
     (\<lparr>ts_kernel = k\<lparr>k_heap := [], k_partition_rejects := []\<rparr>, ts_ops = pred_ops b, ts_steps = rite_steps b, ts_written = []\<rparr>,
      (delta_empty (wd_tick (k_world k)))\<lparr>td_rejects := k_partition_rejects k\<rparr>)"

lemma kernel_step_cong:
  assumes "step_from H G b (step_begin dt b k) (step_batch dt b sync k) = step_from H G b (step_begin dt b k) (step_batch dt b sync k')"
    and "k' = k\<lparr>k_heap := h\<rparr>"
  shows "kernel_step H G B dt b sync k' = kernel_step H G B dt b sync k"
proof -
  have "step_begin dt b k' = (step_begin dt b k)\<lparr>k_heap := h\<rparr>" by (simp add: assms(2) step_begin_def)
  then show ?thesis using assms(1)
    by (simp add: kernel_step_def step_from_def step_batch_def assms(2)) (simp add: step_begin_def)
qed

text \<open>
  C5: The order in which proposals arrive does not matter.  Ingesting the same proposals in any order gives the same step:
  the same world, log, ring, events and rejects.
\<close>

theorem step_order_independent:
  assumes "mset ps = mset qs"
  shows "kernel_step H G B dt b sync (ingest_all ps k) = kernel_step H G B dt b sync (ingest_all qs k)"
  by (rule kernel_step_cong[where h = "k_heap k @ ps"])
    (simp_all add: ingest_all_heap step_batch_def step_from_def step_begin_def assms admit_batch_mset[of "k_heap k @ qs @ x" "k_heap k @ ps @ x" for x])

theorem step_order_independent_witness:
  "kernel_step length_hash no_geometry (\<lambda>_. 0) 1 budget_hearth [] (ingest_all [(glance 1, 0), (glance 2, 0)] door_kernel)
    = kernel_step length_hash no_geometry (\<lambda>_. 0) 1 budget_hearth [] (ingest_all [(glance 2, 0), (glance 1, 0)] door_kernel)"
  by (rule step_order_independent) simp

text \<open>
  C16: A retry has no effect.  Ingesting a proposal once more, from the same source, changes nothing in the step when no
  different proposal contends with it; so a client may send again what it does not know to have arrived.
\<close>

theorem retry_has_no_effect:
  assumes "(p, ix) \<in> set (step_batch dt b sync k)"
    and "\<And>q. q \<in> set (step_batch dt b sync k) \<Longrightarrow> admit_key q = admit_key (p, ix) \<Longrightarrow> fst q = p"
  shows "kernel_step H G B dt b sync (ingest_from p ix k) = kernel_step H G B dt b sync k"
proof (rule kernel_step_cong[where h = "k_heap k @ [(p, ix)]"])
  let ?k = "step_begin dt b k" let ?batch = "step_batch dt b sync k"
  have "mset (step_batch dt b sync (ingest_from p ix k)) = mset ((p, ix) # ?batch)"
    by (simp add: step_batch_def ingest_from_def step_begin_def)
  then have "step_from H G b ?k (step_batch dt b sync (ingest_from p ix k)) = step_from H G b ?k ((p, ix) # ?batch)"
    unfolding step_from_def by (rule admit_batch_mset)
  also have "\<dots> = step_from H G b ?k ?batch" unfolding step_from_def by (rule admit_batch_retry) (use assms in auto)
  finally show "step_from H G b ?k ?batch = step_from H G b ?k (step_batch dt b sync (ingest_from p ix k))" by simp
qed (simp add: ingest_from_def)

theorem retry_has_no_effect_witness:
  "kernel_step length_hash no_geometry (\<lambda>_. 0) 1 budget_hearth [] (ingest_from (glance 1) 0 (ingest_all [(glance 1, 0), (glance 2, 0)] door_kernel))
    = kernel_step length_hash no_geometry (\<lambda>_. 0) 1 budget_hearth [] (ingest_all [(glance 1, 0), (glance 2, 0)] door_kernel)"
  by (rule retry_has_no_effect)
    (auto simp: step_batch_def ingest_all_heap door_kernel_def kernel_new_def gather_def glance_def admit_key_def)

section \<open>The tick\<close>

text \<open>
  C4: A tick is serial.  The batch is admitted class by class, in key order: the journal of the tick has one entry per class
  of equal keys, each entry made in the state that the previous one left.  A refused class leaves the world and the
  claimed cells alone; an admitted one publishes a speculation begun in the world it found (\<open>published\<close>) and claims
  the cells that \<open>claim\<close> computes from its proposal.  No two admissions claim a common cell; an admission that moves
  bodies wrote no locus it did not claim, so no locus was written by two of those (a rite claims its actor's action lane
  only).  The delta's events are exactly those of the admissions in that order, then the tick's island snapshots;
  exactly these were appended to the log, and the heap is empty.
\<close>

theorem tick_is_serial:
  "case kernel_step H G B dt b sync k of (k', delta) \<Rightarrow> \<exists>j ts.
     journal H G (td_tick delta) b (step_start b (step_begin dt b k)) j ts
     \<and> map fst j = key_classes (step_batch dt b sync k) \<and> disjoint_claims j \<and> moves_claimed j
     \<and> td_events delta = concat (map entry_events j) @ tick_snaps (k_world (ts_kernel ts))
     \<and> k_world k' = snd (take_snapshot (fold (world_append H) (tick_snaps (k_world (ts_kernel ts))) (k_world (ts_kernel ts))))
     \<and> tl_events (wd_trace (k_world k')) = tl_events (wd_trace (k_world k)) @ td_events delta
     \<and> wd_tick (k_world k') = td_tick delta \<and> td_tick delta = tick_saturating_add (wd_tick (k_world k)) (max dt 1)
     \<and> k_heap k' = []"
proof -
  obtain k' delta where run: "kernel_step H G B dt b sync k = (k', delta)" by fastforce
  obtain j ts where s: "journal H G (wd_tick (k_world (step_begin dt b k))) b (step_start b (step_begin dt b k)) j ts"
    "k_world k' = snd (take_snapshot (fold (world_append H) (tick_snaps (k_world (ts_kernel ts))) (k_world (ts_kernel ts))))"
    "map fst j = key_classes (step_batch dt b sync k)"
    "td_events delta = concat (map entry_events j) @ tick_snaps (k_world (ts_kernel ts))"
    "td_tick delta = wd_tick (k_world (step_begin dt b k))" "wd_tick (k_world (ts_kernel ts)) = td_tick delta" "k_heap k' = []"
    by (rule kernel_step_split[OF run])
  let ?w = "k_world (ts_kernel ts)"
  have log: "tl_events (wd_trace ?w) = tl_events (wd_trace (k_world k)) @ concat (map entry_events j)"
    using journal_log[OF s(1)] by (simp add: step_start_def step_begin_def set_tick_def)
  have "\<forall>e \<in> set (tick_snaps ?w). ev_tick e \<le> wd_tick ?w" by (auto simp: tick_snaps_def island_snaps_def)
  from append_all[OF this, of H] have end_log: "tl_events (wd_trace (k_world k')) = tl_events (wd_trace (k_world k)) @ td_events delta"
    "wd_tick (k_world k') = td_tick delta"
    unfolding s(2,4) by (simp_all add: Let_def log s(6))
  show ?thesis unfolding run case_prod_conv
  proof (intro exI[of _ j] exI[of _ ts] conjI allI impI)
    show "td_tick delta = tick_saturating_add (wd_tick (k_world k)) (max dt 1)" by (simp add: s(5) step_begin_def set_tick_def)
    show "disjoint_claims j" using journal_disjoint[OF s(1)] by blast
    show "moves_claimed j" by (rule journal_claimed[OF s(1)])
  qed (use s end_log in \<open>simp_all del: snapshot_same\<close>)
qed

text \<open>
  C13: Every proposal is answered once.  A proposal in the batch of a tick is in exactly one entry of the journal, with all
  proposals of its key, at a point of the serial order that the rest of the batch leads to and goes on from.  The delta's
  rejects are those of the partition and then those of the entries, its events those of the entries, in order; and the
  entry is the answer: when the class disagrees each of its members is rejected as a conflict, otherwise the proposal was
  tried in the state it stands in, and either its reject is listed or its commit is the world that the next entry finds.
\<close>

theorem every_proposal_answered:
  assumes "(p, ix) \<in> set (step_batch dt b sync k)" and "kernel_step H G B dt b sync k = (k', delta)"
  shows "\<exists>pre cls a post ts u v.
     journal H G (td_tick delta) b (step_start b (step_begin dt b k)) pre ts
     \<and> answers H G (td_tick delta) b (cls, a) ts u
     \<and> journal H G (td_tick delta) b u post v
     \<and> (p, ix) \<in> set cls \<and> cls = filter (\<lambda>q. admit_key q = admit_key (p, ix)) (sort_key admit_key (step_batch dt b sync k))
     \<and> (\<forall>e \<in> set (pre @ post). (p, ix) \<notin> set (fst e))
     \<and> (case a of Contended \<Rightarrow> \<not> uniform cls | Refused r \<Rightarrow> admit_one H G (td_tick delta) b p ts = (Inl r, u)
         | Admitted sd cells \<Rightarrow> admit_one H G (td_tick delta) b p ts = (Inr (sd_events sd), u))
     \<and> td_rejects delta = k_partition_rejects k @ concat (map entry_rejects pre)
         @ (case a of Contended \<Rightarrow> replicate (length cls) (kind_of p, RConflict) | Refused r \<Rightarrow> [(kind_of p, r)] | Admitted sd cells \<Rightarrow> [])
         @ concat (map entry_rejects post)
     \<and> td_events delta = concat (map entry_events pre) @ (case a of Admitted sd cells \<Rightarrow> sd_events sd | _ \<Rightarrow> [])
         @ concat (map entry_events post) @ tick_snaps (k_world (ts_kernel v))
     \<and> k_world k' = snd (take_snapshot (fold (world_append H) (tick_snaps (k_world (ts_kernel v))) (k_world (ts_kernel v))))"
proof -
  obtain j v where s: "journal H G (wd_tick (k_world (step_begin dt b k))) b (step_start b (step_begin dt b k)) j v"
    "k_world k' = snd (take_snapshot (fold (world_append H) (tick_snaps (k_world (ts_kernel v))) (k_world (ts_kernel v))))"
    "map fst j = key_classes (step_batch dt b sync k)"
    "td_rejects delta = k_partition_rejects k @ concat (map entry_rejects j)"
    "td_events delta = concat (map entry_events j) @ tick_snaps (k_world (ts_kernel v))"
    "td_tick delta = wd_tick (k_world (step_begin dt b k))"
    by (rule kernel_step_split[OF assms(2)])
  obtain pre cls a post where e: "j = pre @ (cls, a) # post" "(p, ix) \<in> set cls"
    "cls = filter (\<lambda>q. admit_key q = admit_key (p, ix)) (sort_key admit_key (step_batch dt b sync k))" "\<forall>e \<in> set (pre @ post). (p, ix) \<notin> set (fst e)"
    by (rule entry_of[OF s(3) assms(1)])
  obtain ts u where run: "journal H G (td_tick delta) b (step_start b (step_begin dt b k)) pre ts"
    "answers H G (td_tick delta) b (cls, a) ts u" "journal H G (td_tick delta) b u post v"
    using s(1) unfolding s(6)[symmetric] e(1) journal_append by auto
  have kinds: "kind_of (fst q) = kind_of p" if "q \<in> set cls" for q
    using same_class_kind[of q "(p, ix)"] that unfolding e(3) by simp
  have same: "fst (hd cls) = p" if "uniform cls" using that e(2) unfolding uniform_def by (cases cls) auto
  have answer: "case a of Contended \<Rightarrow> \<not> uniform cls | Refused r \<Rightarrow> admit_one H G (td_tick delta) b p ts = (Inl r, u)
         | Admitted sd cells \<Rightarrow> admit_one H G (td_tick delta) b p ts = (Inr (sd_events sd), u)"
    using run(2) same by (cases a) auto
  have rejects: "entry_rejects (cls, a) = (case a of Contended \<Rightarrow> replicate (length cls) (kind_of p, RConflict)
      | Refused r \<Rightarrow> [(kind_of p, r)] | Admitted sd cells \<Rightarrow> [])"
  proof (cases a)
    case Contended
    then show ?thesis using contended_rejects[of cls "kind_of p"] kinds by simp
  qed (use run(2) same in auto)
  have events: "entry_events (cls, a) = (case a of Admitted sd cells \<Rightarrow> sd_events sd | _ \<Rightarrow> [])" by (cases a) simp_all
  have outs: "concat (map f j) = concat (map f pre) @ f (cls, a) @ concat (map f post)" for f :: "entry \<Rightarrow> 'x list" by (simp add: e(1))
  show ?thesis
    by (intro exI[of _ pre] exI[of _ cls] exI[of _ a] exI[of _ post] exI[of _ ts] exI[of _ u] exI[of _ v] conjI run e(2,3,4) answer s(2))
      (simp_all only: s(4,5) outs rejects events append_assoc)
qed

theorem every_proposal_answered_witness:
  "case kernel_step length_hash no_geometry (\<lambda>_. 0) 1 budget_hearth [] (ingest_all [(glance 1, 0), (glance 2, 0)] door_kernel) of (k', delta) \<Rightarrow>
     \<exists>pre ts a u. journal length_hash no_geometry (td_tick delta) budget_hearth
         (step_start budget_hearth (step_begin 1 budget_hearth (ingest_all [(glance 1, 0), (glance 2, 0)] door_kernel))) pre ts
       \<and> answers length_hash no_geometry (td_tick delta) budget_hearth ([(glance 2, 0)], a) ts u"
proof -
  let ?k = "ingest_all [(glance 1, 0), (glance 2, 0)] door_kernel"
  obtain k' delta where run: "kernel_step length_hash no_geometry (\<lambda>_. 0) 1 budget_hearth [] ?k = (k', delta)" by fastforce
  have batch: "step_batch 1 budget_hearth [] ?k = [(glance 1, 0), (glance 2, 0)]"
    by (simp add: step_batch_def ingest_all_heap door_kernel_def kernel_new_def gather_def)
  have "(glance 2, 0) \<in> set (step_batch 1 budget_hearth [] ?k)" unfolding batch by simp
  moreover have "filter (\<lambda>q. admit_key q = admit_key (glance 2, 0)) (sort_key admit_key (step_batch 1 budget_hearth [] ?k)) = [(glance 2, 0)]"
    unfolding batch by (simp add: glance_def admit_key_def)
  ultimately show ?thesis using every_proposal_answered[OF _ run, of "glance 2" 0] unfolding run case_prod_conv by metis
qed

text \<open>
  C14: What a kernel can reach is well formed.  However a kernel is driven, by ingests, steps, partitions and changes of
  canon, the projection of its world keeps its invariant and an exact spatial index, its log's prefix hash is that of its
  events, and its rewind ring holds no more snapshots than its capacity.
\<close>

theorem kernels_stay_well_formed:
  assumes "kernel_reach H G B k"
  shows "proj_ok (wd_view (k_world k)) \<and> log_ok H (wd_trace (k_world k))
    \<and> pix_candidates (p_space (wd_view (k_world k))) swept only = pix_candidates (p_space (rebuild_space_ix (wd_view (k_world k)))) swept only
    \<and> length (rr_snaps (k_ring k)) \<le> rr_cap (k_ring k)"
proof -
  have "world_reach H (k_world k)" "ring_bounded (k_ring k)" using kernel_reach_ok[OF assms] by simp_all
  then show ?thesis using world_index_exact by (simp add: ring_bounded_def)
qed

theorem kernels_stay_well_formed_witness:
  "pix_candidates (p_space (wd_view (k_world (fst (kernel_step length_hash no_geometry (\<lambda>_. 0) 1 budget_hearth [] (ingest_from (glance 1) 0 door_kernel)))))) beam_box True
    = pix_candidates (p_space (rebuild_space_ix (wd_view (k_world (fst (kernel_step length_hash no_geometry (\<lambda>_. 0) 1 budget_hearth [] (ingest_from (glance 1) 0 door_kernel))))))) beam_box True"
  using kernels_stay_well_formed[OF K_step[OF K_ingest[OF door_reach]]] by blast

end
