(* ===== verification/CommitBurst.thy ===== *)
theory CommitBurst
  imports CommitLawful
begin

text \<open>
  A burst follows the control flow that the cook has checked: an accepted rite halts or waits within as many
  instructions as it has, and never ends for lack of steps when it is given that many.
\<close>

section \<open>Cooked instructions and the checked flow\<close>

definition flows :: "rite_instr list \<Rightarrow> op_map \<Rightarrow> bool" where
  "flows instrs ops \<longleftrightarrow> (let order = map ri_pc instrs in
     order \<noteq> [] \<and> distinct order \<and> (\<forall>x \<in> set instrs. bt_get ops (ri_pc x) = Some (ri_op x)) \<and> fst ` set ops = set order
     \<and> (\<forall>p \<in> set order. is_ok (flow_edges order ops p)) \<and> acyclic (flow order ops))"

lemma assign_labeled_get:
  "assign_labeled ns order ops = Inr (order', ops') \<Longrightarrow>
   (\<forall>x \<in> set (map2 node_pc [i..<i + length ns] ns). bt_get ops' (fst x) = Some (snd x)) \<and> (\<forall>k v. bt_get ops k = Some v \<longrightarrow> bt_get ops' k = Some v)"
proof (induction ns order ops arbitrary: i rule: assign_labeled.induct)
  case (2 pc op ns order ops)
  have n: "\<not> bt_has ops pc" "assign_labeled ns (order @ [pc]) (bt_insert pc op ops) = Inr (order', ops')"
    using "2.prems"(1) by (auto split: if_splits)
  have up: "[i..<i + length (NodeLabeled pc op # ns)] = i # [Suc i..<Suc i + length ns]"
    by (simp add: upt_conv_Cons del: upt_Suc)
  have keep: "bt_get ops k = Some v \<Longrightarrow> k \<noteq> pc" for k v using n(1) by (auto simp: bt_has_def)
  show ?case using "2.IH"[OF n, of "Suc i"] keep unfolding up by (auto simp: node_pc_def bt_get_insert simp del: upt_Suc)
qed simp_all

lemma assign_ops_get:
  "assign_ops ns i order ops = Inr (order', ops') \<Longrightarrow> i + length ns \<le> 65536 \<Longrightarrow>
   order' = order @ map fst (map2 node_pc [i..<i + length ns] ns)
   \<and> (\<forall>x \<in> set (map2 node_pc [i..<i + length ns] ns). bt_get ops' (fst x) = Some (snd x))
   \<and> (\<forall>k v. k < i \<longrightarrow> bt_get ops k = Some v \<longrightarrow> bt_get ops' k = Some v)"
proof (induction ns i order ops rule: assign_ops.induct)
  case (2 op ns i order ops)
  have up: "[i..<i + length (NodeOp op # ns)] = i # [Suc i..<Suc i + length ns]"
    by (simp add: upt_conv_Cons del: upt_Suc)
  have pc: "i mod 65536 = i" using "2.prems"(2) by simp
  have "assign_ops ns (Suc i) (order @ [i]) (bt_insert i op ops) = Inr (order', ops')" using "2.prems"(1) pc by (simp add: Let_def)
  then have "order' = (order @ [i]) @ map fst (map2 node_pc [Suc i..<Suc i + length ns] ns)"
    "\<forall>x \<in> set (map2 node_pc [Suc i..<Suc i + length ns] ns). bt_get ops' (fst x) = Some (snd x)"
    "\<forall>k v. k < Suc i \<longrightarrow> bt_get (bt_insert i op ops) k = Some v \<longrightarrow> bt_get ops' k = Some v"
    using "2.IH"[OF refl] "2.prems"(2) pc by simp_all
  then show ?case unfolding up by (auto simp: node_pc_def bt_get_insert pc simp del: upt_Suc)
qed simp_all

lemma assigned_nodes:
  assumes "assign_pcs ns = Inr (order, ops)" "length ns \<le> 65536"
  shows "order = map fst (map2 node_pc [0..<length ns] ns) \<and> (\<forall>x \<in> set (map2 node_pc [0..<length ns] ns). bt_get ops (fst x) = Some (snd x))"
proof (cases "\<exists>n \<in> set ns. is_labeled n")
  case True
  then have l: "assign_labeled ns [] [] = Inr (order, ops)" using assms(1) by (auto simp: assign_pcs_def Let_def split: if_splits)
  show ?thesis using assign_labeled_get[OF l, of 0] assign_labeled_pcs[OF l, of 0] by simp
next
  case False
  then have "assign_ops ns 0 [] [] = Inr (order, ops)" using assms(1) by (auto simp: assign_pcs_def Let_def split: if_splits)
  from assign_ops_get[OF this] assms(2) show ?thesis by simp
qed

lemma rite_flows:
  assumes "rite_cooked st g row" and "length (rc_instrs (cr_chunk row)) \<le> 65536"
  shows "\<exists>ops. flows (rc_instrs (cr_chunk row)) ops"
proof -
  let ?instrs = "rc_instrs (cr_chunk row)"
  have m: "map (\<lambda>x. (ri_pc x, ri_op x)) ?instrs = map2 node_pc [0..<length (rite_nodes g)] (rite_nodes g)"
    using assms(1) by (simp add: rite_cooked_def)
  have len: "length (rite_nodes g) \<le> 65536" using arg_cong[OF m, of length] assms(2) by simp
  obtain ops where cfg: "check_rite_cfg g = Inr ops" using assms(1) by (auto simp: rite_cooked_def is_ok_iff)
  then obtain order where o: "assign_pcs (rite_nodes g) = Inr (order, ops)" "\<forall>p \<in> set order. is_ok (flow_edges order ops p)"
    "acyclic (flow order ops)" "rite_entry g \<in> set order" unfolding check_rite_cfg_iff by blast
  note A = assigned_nodes[OF o(1) len]
  have order: "order = map ri_pc ?instrs" using A unfolding m[symmetric] by (simp add: comp_def)
  have "distinct order" using cfg_pcs_distinct[OF cfg len] A by simp
  moreover have "\<forall>x \<in> set ?instrs. bt_get ops (ri_pc x) = Some (ri_op x)" using conjunct2[OF A] unfolding m[symmetric] by auto
  ultimately show ?thesis using o(2-4) conjunct1[OF assign_pcs_keys[OF o(1)]] by (auto simp: flows_def Let_def order)
qed

lemma next_pc_order: "next_pc instrs pc = next_in_order (map ri_pc instrs) pc"
proof -
  have "find_index (\<lambda>p. p = pc) (map ri_pc instrs) = find_index (\<lambda>x. ri_pc x = pc) instrs" by (induction instrs) auto
  then show ?thesis by (auto simp: next_pc_def next_in_order_def nth_opt_def split: option.split)
qed

section \<open>Tame instructions\<close>

definition budget_end :: "trace_event \<Rightarrow> bool" where
  "budget_end e \<longleftrightarrow> (\<exists>a r. ev_body e = RiteEnded a r ReFailBudget)"

definition tame :: "(cstate, 'a) act \<Rightarrow> bool" where
  "tame f \<longleftrightarrow> (\<forall>st r u. f st = (r, u) \<longrightarrow> cs_steps u = cs_steps st
     \<and> (\<exists>es. sd_events (cs_spec u) = sd_events (cs_spec st) @ es \<and> (\<forall>e \<in> set es. \<not> budget_end e)))"

named_theorems tame_intros

lemma tameD:
  assumes "tame f" "f st = (r, u)"
  shows "cs_steps u = cs_steps st" "\<exists>es. sd_events (cs_spec u) = sd_events (cs_spec st) @ es \<and> (\<forall>e \<in> set es. \<not> budget_end e)"
  using assms unfolding tame_def by blast+

lemma tame_basic [tame_intros]: "tame (act_ret x)" "tame (act_fail e)" "tame (act_some e y)" "tame (lift_result r)" "tame (spec_see f)"
  by (auto simp: tame_def act_ret_def act_fail_def act_some_def lift_result_def spec_see_def split: option.split)

lemma tame_bind [tame_intros]:
  assumes "tame f" "\<And>x. tame (g x)"
  shows "tame (act_bind f g)"
  unfolding tame_def
proof (intro allI impI)
  fix st r u assume run: "act_bind f g st = (r, u)"
  obtain q v where f: "f st = (q, v)" by fastforce
  note tf = tameD[OF assms(1) f]
  show "cs_steps u = cs_steps st \<and> (\<exists>es. sd_events (cs_spec u) = sd_events (cs_spec st) @ es \<and> (\<forall>e \<in> set es. \<not> budget_end e))"
  proof (cases q)
    case (Inl e)
    then show ?thesis using run f tf by (simp add: act_bind_def)
  next
    case (Inr x)
    then have "g x v = (r, u)" using run f by (simp add: act_bind_def)
    note tg = tameD[OF assms(2) this]
    obtain es where es: "sd_events (cs_spec v) = sd_events (cs_spec st) @ es" "\<forall>e \<in> set es. \<not> budget_end e" using tf(2) by blast
    obtain fs where fs: "sd_events (cs_spec u) = sd_events (cs_spec v) @ fs" "\<forall>e \<in> set fs. \<not> budget_end e" using tg(2) by blast
    have "sd_events (cs_spec u) = sd_events (cs_spec st) @ (es @ fs)" "\<forall>e \<in> set (es @ fs). \<not> budget_end e" using es fs by auto
    then show ?thesis using tf(1) tg(1) by metis
  qed
qed

lemma tame_if [tame_intros]: "tame f \<Longrightarrow> tame g \<Longrightarrow> tame (if b then f else g)"
  by simp

lemma tame_option [tame_intros]: "tame f \<Longrightarrow> (\<And>y. tame (g y)) \<Longrightarrow> tame (case x of None \<Rightarrow> f | Some y \<Rightarrow> g y)"
  by (cases x) auto

lemma tame_push [tame_intros]: "(\<And>a r. b \<noteq> RiteEnded a r ReFailBudget) \<Longrightarrow> tame (spec_push_at t b)"
  by (auto simp: tame_def spec_push_at_def budget_end_def spec_push_def mark_written_def Let_def)

lemma tame_set: "(\<And>sd. sd_events (f sd) = sd_events sd) \<Longrightarrow> tame (spec_set f)"
  by (auto simp: tame_def spec_set_def)

lemma tame_try: "(\<And>sd. sd_events (snd (f sd)) = sd_events sd) \<Longrightarrow> tame (spec_try e f)"
  by (force simp: tame_def spec_try_def Let_def case_prod_beta split: sum.splits)

lemma tame_ops [tame_intros]: "tame (on_ops f)"
  by (auto simp: tame_def on_ops_def Let_def split: prod.splits)

lemma write_events: "sd_events (snd (spec_write ss f sd)) = sd_events sd"
  by (simp add: spec_write_def mark_written_def Let_def split: sum.split)

lemma tame_writes [tame_intros]:
  "tame (spec_set (spec_put_rite a r m))" "tame (spec_try e (spec_set_affordance s i on))" "tame (spec_try e (spec_set_phys_req s q))"
  "tame (spec_quiet (spec_set_island s k t))"
  unfolding spec_quiet_def
  by (intro tame_set tame_try; simp add: spec_put_rite_def mark_written_def Let_def spec_set_affordance_def spec_set_phys_req_def
      spec_set_island_def write_events)+

lemma tame_steps [tame_intros]: "tame (park actor rid t pc wait target ch)" "tame (eval_guard d rite pc actor target)" "tame (go_on next target)"
    "tame (end_rite d actor rid (status_end s))"
  unfolding park_def eval_guard_def go_on_def end_rite_def
  by (auto simp: status_end_def intro!: tame_intros split: status.split)

lemma tame_op: "tame (run_op d rite actor target pc op)"
  by (cases op)
    (auto simp: run_op_def op_spend_def op_wait_def op_bind_def op_spawn_def op_rel_def op_awake_def res_id_def slot_of_def
      authorize_wait_def Let_def intro!: tame_intros split: option.split)

section \<open>A burst follows the flow\<close>

lemma go_on_Goto: "go_on next target st = (Inr (Goto q t), u) \<longleftrightarrow> next = Some q \<and> t = target \<and> u = st"
  by (auto simp: go_on_def act_simps act_some_def split: option.split)

lemma op_goto:
  assumes run: "run_op d rite actor target pc op st = (Inr (Goto q t), u)"
    and succ: "successors pc op (next_pc (rc_instrs (cr_chunk rite)) pc) ops = Inr es"
  shows "q \<in> set es"
proof -
  let ?n = "next_pc (rc_instrs (cr_chunk rite)) pc"
  have next_in: "?n = Some q \<Longrightarrow> (\<And>s. op \<noteq> Halt s) \<Longrightarrow> (\<And>s. op \<noteq> Complete s) \<Longrightarrow> (\<And>g a b. op \<noteq> Branch g a b) \<Longrightarrow> q \<in> set es"
    using succ by (cases op) (auto simp: successors_def succ_fail_def require_target_def require_next_def rbind_Inr_iff split: if_splits)
  show ?thesis
  proof (cases op)
    case (Guard g fail)
    then have "q = fail \<or> ?n = Some q" using run by (auto simp: run_op_def act_bind_Inr go_on_Goto act_ret_def split: if_splits)
    then show ?thesis using next_in succ Guard by (auto simp: successors_def succ_fail_def require_target_def rbind_Inr_iff split: if_splits)
  next
    case (Spend res amount fail)
    then have "q = fail \<or> ?n = Some q" using run by (auto simp: run_op_def op_spend_def act_bind_Inr go_on_Goto act_ret_def split: if_splits)
    then show ?thesis using next_in succ Spend by (auto simp: successors_def succ_fail_def require_target_def rbind_Inr_iff split: if_splits)
  next
    case (Branch g yes no)
    then have "q = yes \<or> q = no" using run by (auto simp: run_op_def act_bind_Inr act_ret_def split: if_splits)
    then show ?thesis using succ Branch by (auto simp: successors_def require_target_def rbind_Inr_iff split: if_splits)
  next
    case (Spawn name)
    then have "?n = Some q" using run by (fastforce simp: run_op_def op_spawn_def Let_def act_bind_Inr go_on_Goto act_fail_def split: if_splits)
    then show ?thesis using next_in Spawn by simp
  qed (use run next_in in \<open>auto simp: run_op_def Let_def end_rite_def op_wait_def op_bind_def op_rel_def op_awake_def act_bind_Inr go_on_Goto act_ret_def
      split: if_splits\<close>)
qed

lemma flows_edge:
  assumes "flows instrs ops" "instrs = rc_instrs (cr_chunk rite)" "find (\<lambda>i. ri_pc i = pc) instrs = Some x"
    and run: "run_op d rite actor target pc (ri_op x) st = (Inr (Goto q t), u)"
  shows "pc \<in> set (map ri_pc instrs)" "(pc, q) \<in> flow (map ri_pc instrs) ops" "q \<in> set (map ri_pc instrs)"
proof -
  have x: "x \<in> set instrs" "ri_pc x = pc" using assms(3) by (auto simp: find_Some_iff in_set_conv_nth)
  have "\<forall>x \<in> set instrs. bt_get ops (ri_pc x) = Some (ri_op x)" "\<forall>p \<in> set (map ri_pc instrs). is_ok (flow_edges (map ri_pc instrs) ops p)"
    and keys: "fst ` set ops = set (map ri_pc instrs)" using assms(1) unfolding flows_def Let_def by blast+
  then have op: "bt_get ops pc = Some (ri_op x)" and ok: "\<forall>p \<in> set (map ri_pc instrs). is_ok (flow_edges (map ri_pc instrs) ops p)"
    using x by auto
  show mem: "pc \<in> set (map ri_pc instrs)" using x by auto
  then obtain es where es: "flow_edges (map ri_pc instrs) ops pc = Inr es"
    using ok unfolding is_ok_iff by blast
  then have "successors pc (ri_op x) (next_pc (rc_instrs (cr_chunk rite)) pc) ops = Inr es"
    by (simp add: flow_edges_def op next_pc_order assms(2))
  from op_goto[OF run this] es mem show e: "(pc, q) \<in> flow (map ri_pc instrs) ops" by (auto simp: flow_def)
  from conjunct2[OF flow_closed[OF keys e]] show "q \<in> set (map ri_pc instrs)" .
qed

text \<open>\<open>vs\<close> are the program counters the burst has left behind.\<close>

lemma burst_path:
  assumes F: "flows instrs ops" "instrs = rc_instrs (cr_chunk rite)" and ac: "acyclic (flow (map ri_pc instrs) ops)"
  shows "burst_loop d rite actor left pc target st = (r, u) \<Longrightarrow> successively (\<lambda>p q. (p, q) \<in> flow (map ri_pc instrs) ops) (vs @ [pc]) \<Longrightarrow>
    set (vs @ [pc]) \<subseteq> set (map ri_pc instrs) \<Longrightarrow> length instrs \<le> left + length vs \<Longrightarrow> left \<le> cs_steps st \<Longrightarrow>
    cs_steps st + length vs \<le> cs_steps u + length instrs
    \<and> (\<exists>es. sd_events (cs_spec u) = sd_events (cs_spec st) @ es \<and> (\<forall>e \<in> set es. \<not> budget_end e))"
proof (induction left arbitrary: vs pc target st)
  case 0
  have "distinct (vs @ [pc])" by (rule acyclic_path_distinct[OF ac 0(2)])
  then have "length (vs @ [pc]) \<le> length instrs" using 0(3) by (metis card_mono distinct_card finite_set length_map card_length order_trans)
  then show ?case using 0(4) by simp
next
  case (Suc left)
  have "distinct (vs @ [pc])" by (rule acyclic_path_distinct[OF ac Suc.prems(2)])
  then have len: "length vs < length instrs" using Suc.prems(3) by (metis card_mono distinct_card finite_set length_map card_length order_trans length_append_singleton Suc_le_eq)
  let ?st = "st\<lparr>cs_steps := cs_steps st - 1\<rparr>"
  have more: "take_step st = (Inr True, ?st)" using Suc.prems(5) by (simp add: take_step_def)
  show ?case
  proof (cases "find (\<lambda>i. ri_pc i = pc) instrs")
    case None
    then have "u = ?st" using Suc.prems(1) more F(2) by (simp add: act_simps)
    then show ?thesis using len by auto
  next
    case (Some x)
    obtain q v where op: "run_op d rite actor target pc (ri_op x) ?st = (q, v)" by fastforce
    note t = tameD[OF tame_op op]
    then obtain es where es: "sd_events (cs_spec v) = sd_events (cs_spec st) @ es" "\<forall>e \<in> set es. \<not> budget_end e" by auto
    have steps: "cs_steps v = cs_steps st - 1" using t(1) by simp
    consider "u = v" | pc' tg where "q = Inr (Goto pc' tg)" "burst_loop d rite actor left pc' tg v = (r, u)"
      using Suc.prems(1) more op Some F(2) by (cases q rule: sum.exhaust) (auto simp: act_simps split: flow.splits)
    then show ?thesis
    proof cases
      case 1
      then show ?thesis using es steps len Suc.prems(5) by auto
    next
      case 2
      note E = flows_edge[OF F Some op[unfolded 2(1)]]
      have path: "successively (\<lambda>p q. (p, q) \<in> flow (map ri_pc instrs) ops) ((vs @ [pc]) @ [pc'])"
        using Suc.prems(2) E(2) by (simp add: successively_append_iff)
      have "cs_steps v + length (vs @ [pc]) \<le> cs_steps u + length instrs
        \<and> (\<exists>es. sd_events (cs_spec u) = sd_events (cs_spec v) @ es \<and> (\<forall>e \<in> set es. \<not> budget_end e))"
        by (rule Suc.IH[OF 2(2) path]) (use E(3) Suc.prems(3-5) steps in auto)
      then show ?thesis using es steps Suc.prems(5) by auto
    qed
  qed
qed

lemma burst_enough:
  assumes F: "flows (rc_instrs (cr_chunk rite)) ops"
    and len: "length (rc_instrs (cr_chunk rite)) \<le> rc_cap_steps (cr_chunk rite)" "length (rc_instrs (cr_chunk rite)) \<le> cs_steps st"
    and run: "run_burst d rite actor target pc st = (r, u)"
  shows "cs_steps st \<le> cs_steps u + length (rc_instrs (cr_chunk rite))
    \<and> (\<exists>es. sd_events (cs_spec u) = sd_events (cs_spec st) @ es \<and> (\<forall>e \<in> set es. \<not> budget_end e))"
proof -
  let ?instrs = "rc_instrs (cr_chunk rite)" let ?n = "min (rc_cap_steps (cr_chunk rite)) (cs_steps st)"
  have loop: "burst_loop d rite actor ?n pc target st = (r, u)" using run by (simp add: run_burst_def act_simps steps_left_def)
  have "pc \<in> set (map ri_pc ?instrs) \<or> find (\<lambda>i. ri_pc i = pc) ?instrs = None" by (auto simp: find_None_iff)
  then show ?thesis
  proof
    assume "pc \<in> set (map ri_pc ?instrs)"
    then show ?thesis using burst_path[OF F refl _ loop, of "[]"] F len by (auto simp: flows_def Let_def)
  next
    assume none: "find (\<lambda>i. ri_pc i = pc) ?instrs = None"
    have ne: "0 < length ?instrs" using F by (auto simp: flows_def Let_def)
    then have "0 < ?n" unfolding min_less_iff_conj using len by linarith
    then obtain m where m: "?n = Suc m" using gr0_implies_Suc by blast
    have "cs_steps st \<noteq> 0" using ne len(2) by linarith
    then have "u = st\<lparr>cs_steps := cs_steps st - 1\<rparr>" using loop none m by (simp add: act_simps take_step_def)
    then show ?thesis using ne by (simp add: Suc_le_eq del: length_greater_0_conv)
  qed
qed

section \<open>How a burst ends\<close>

definition burst_end :: "drive \<Rightarrow> cooked_rite \<Rightarrow> sigil \<Rightarrow> burst \<Rightarrow> cstate \<Rightarrow> bool" where
  "burst_end d rite actor b u \<longleftrightarrow> (let p = sd_proj (cs_spec u); m = proj_rite p actor (cr_id rite) in
     case b of
       BurstHalt \<Rightarrow> m = None \<and> (\<exists>es st. sd_events (cs_spec u) = es @ [\<lparr>ev_tick = dr_tick d, ev_body = RiteEnded actor (cr_id rite) st\<rparr>])
     | BurstWait \<Rightarrow> \<exists>es pc n. sd_events (cs_spec u) = es @ [\<lparr>ev_tick = dr_tick d, ev_body = RiteAdvanced actor (cr_id rite) pc n\<rparr>]
         \<and> (if proj_packed p actor = None then m = None
             else \<exists>m'. m = Some m' \<and> rm_wait_at m' = dr_tick d \<and> rm_pc m' = pc \<and> rm_wait_left m' = n))"

lemma ended_gone: "kept p \<Longrightarrow> proj_rite (apply_body t (RiteEnded a r st) p) a r = None"
  by (auto simp: proj_rite_def proj_packed_def bt_get_remove kept_def proj_ok_def maps_sorted_def split: option.split)

lemma push_ended:
  "kept (sd_proj (cs_spec v)) \<Longrightarrow> spec_push_at (dr_tick d) (RiteEnded actor (cr_id rite) st) v = (Inr (), u) \<Longrightarrow> burst_end d rite actor BurstHalt u"
  using ended_gone[of "sd_proj (cs_spec v)" "dr_tick d" actor "cr_id rite" st]
  by (auto simp: burst_end_def spec_push_at_def spec_push_def mark_written_def apply_event_def Let_def simp del: apply_body.simps)

lemma put_rite_get: "proj_packed p a \<noteq> None \<Longrightarrow> proj_rite (put_rite a r m p) a r = Some m"
  by (auto simp: put_rite_def proj_rite_def bt_get_insert proj_packed_def)

lemma put_rite_rows: "proj_packed (put_rite a r m p) s = proj_packed p s"
  by (simp add: put_rite_def proj_packed_def split: option.split)

lemma park_puts:
  assumes "park actor rid t pc wait target ch v = (Inr (), u)"
  shows "sd_events (cs_spec u) = sd_events (cs_spec v)"
    and "sd_proj (cs_spec u) = put_rite actor rid (parked (sd_proj (cs_spec v)) actor rid t pc wait target ch) (sd_proj (cs_spec v))"
  using assms by (auto simp: park_def act_bind_Inr spec_see_def spec_set_def spec_put_rite_def mark_written_def Let_def act_fail_def
      split: if_splits)

lemma park_parks:
  assumes "park actor (cr_id rite) (dr_tick d) pc wait target ch v = (Inr (), u)"
    and "sd_events (cs_spec v) = es @ [\<lparr>ev_tick = dr_tick d, ev_body = RiteAdvanced actor (cr_id rite) pc wait\<rparr>]"
  shows "burst_end d rite actor BurstWait u"
proof -
  let ?p = "sd_proj (cs_spec v)"
  let ?m = "parked ?p actor (cr_id rite) (dr_tick d) pc wait target ch"
  note put = park_puts[OF assms(1)]
  have "proj_rite (sd_proj (cs_spec u)) actor (cr_id rite) = (if proj_packed ?p actor = None then None else Some ?m)"
    using put_rite_get[of ?p actor] by (auto simp: put(2) proj_rite_def put_rite_rows split: option.split)
  then show ?thesis by (auto simp: burst_end_def Let_def put(1,2) put_rite_rows assms(2) parked_def)
qed

lemma op_done:
  assumes "kept (sd_proj (cs_spec st))" "run_op d rite actor target pc op st = (Inr (Done b), u)"
  shows "burst_end d rite actor b u"
proof (cases op)
  case (Wait n ch)
  let ?next = "next_pc (rc_instrs (cr_chunk rite)) pc"
  let ?pc = "case ?next of None \<Rightarrow> pc | Some k \<Rightarrow> k"
  obtain v w where v: "spec_push_at (dr_tick d) (RiteAdvanced actor (cr_id rite) ?pc n) v = (Inr (), w)"
    "park actor (cr_id rite) (dr_tick d) ?pc n target ch w = (Inr (), u)" "b = BurstWait"
    using assms(2) Wait by (auto simp: run_op_def op_wait_def Let_def act_bind_Inr act_ret_def)
  have "\<exists>es. sd_events (cs_spec w) = es @ [\<lparr>ev_tick = dr_tick d, ev_body = RiteAdvanced actor (cr_id rite) ?pc n\<rparr>]"
    using v(1) by (auto simp: spec_push_at_def spec_push_def mark_written_def Let_def)
  then show ?thesis using park_parks[OF v(2)] v(3) by auto
qed (use assms push_ended in \<open>fastforce simp: run_op_def Let_def end_rite_def op_spend_def op_bind_def op_rel_def op_awake_def op_spawn_def act_bind_Inr go_on_def
    act_ret_def act_fail_def split: if_splits\<close>)+

lemma burst_loop_end:
  "burst_loop d rite actor left pc target st = (Inr b, u) \<Longrightarrow> kept (sd_proj (cs_spec st)) \<Longrightarrow> burst_end d rite actor b u"
proof (induction left arbitrary: pc target st)
  case 0
  then show ?case using push_ended[of st d actor rite ReFailBudget u] by (auto simp: out_of_steps_def act_bind_Inr act_ret_def)
next
  case (Suc left)
  show ?case
  proof (cases "cs_steps st = 0")
    case True
    then show ?thesis using Suc.prems push_ended[of st d actor rite ReFailBudget u]
      by (auto simp: out_of_steps_def act_bind_Inr act_ret_def take_step_def)
  next
    case False
    let ?st = "st\<lparr>cs_steps := cs_steps st - 1\<rparr>"
    have "act_bind (act_some RBudget (find (\<lambda>i. ri_pc i = pc) (rc_instrs (cr_chunk rite)))) (\<lambda>instr.
        act_bind (run_op d rite actor target pc (ri_op instr)) (\<lambda>fl.
          case fl of Done b \<Rightarrow> act_ret b | Goto pc target \<Rightarrow> burst_loop d rite actor left pc target)) ?st = (Inr b, u)"
      using Suc.prems(1) False by (simp add: act_bind_def take_step_def)
    then obtain instr :: rite_instr and fl v where op: "run_op d rite actor target pc (ri_op instr) ?st = (Inr fl, v)"
      and rest: "(case fl of Done b \<Rightarrow> act_ret b | Goto pc target \<Rightarrow> burst_loop d rite actor left pc target) v = (Inr b, u)"
      unfolding act_bind_Inr by (auto simp: act_some_def act_ret_def act_fail_def split: option.splits)
    have k: "kept (sd_proj (cs_spec ?st))" using Suc.prems(2) by simp
    have kv: "kept (sd_proj (cs_spec v))" using specs_kept[OF safeD(1)[OF safe_op op]] k by blast
    show ?thesis
    proof (cases fl)
      case (Done b')
      then show ?thesis using op_done[OF k op[unfolded Done]] rest by (simp add: act_ret_def)
    next
      case (Goto pc' tg)
      then show ?thesis using Suc.IH[OF _ kv] rest by simp
    qed
  qed
qed

section \<open>A rite that halts\<close>

definition nap_doc :: intent_doc where
  "nap_doc = \<lparr>doc_style = \<lparr>style_notes = ''x'', palettes = [], kitbash_tags = []\<rparr>,
     canon_diffs = [AddRite \<lparr>rite_ident = ''nap'', cap_steps = 4, cap_ticks = 4, rite_entry = 0, rite_nodes = [NodeOp (Halt Success)]\<rparr>],
     doc_seed = [], doc_minds = []\<rparr>"

definition nap_rite :: cooked_rite where
  "nap_rite = \<lparr>cr_id = 0, cr_name = ''nap'', cr_chunk = \<lparr>rc_entry = 0, rc_cap_steps = 4, rc_cap_ticks = 4,
     rc_instrs = [\<lparr>ri_pc = 0, ri_op = Halt Success\<rparr>]\<rparr>, cr_guards = []\<rparr>"

lemma nap_cooks: "\<exists>c. cook nap_doc = Inr c \<and> cn_rites c = [nap_rite]"
  by (simp add: nap_doc_def nap_rite_def cook_run canon_run cfg_run)

definition nap_state :: cstate where
  "nap_state = \<lparr>cs_spec = begin_spec (world_with_cap length_hash canon_default hash_zero 4), cs_steps = 9, cs_ops = 0\<rparr>"

definition nap_drive :: drive where
  "nap_drive = \<lparr>dr_canon = canon_default, dr_verb = Use, dr_source = SrcMind, dr_claimed = [], dr_tick = 0\<rparr>"

lemma nap_kept: "kept (sd_proj (cs_spec nap_state))"
  using world_reach_ok[OF W_new] by (simp add: nap_state_def begin_spec_def)

lemma nap_halts: "\<exists>u. run_burst nap_drive nap_rite 1 None 0 nap_state = (Inr BurstHalt, u)"
  by (simp add: run_burst_def act_simps steps_left_def nap_state_def nap_rite_def eval_nat_numeral take_step_def run_op_def end_rite_def spec_push_at_def)

section \<open>Properties\<close>

text \<open>
  C7: An accepted rite is never cut short.  When a document cooks, a burst of any of its rites, started anywhere and in any
  state, takes at most as many instructions as the rite has; so with a \<open>cap_steps\<close> and a tick budget of that many it
  never ends in \<open>FailBudget\<close>: it halts, waits, or is refused for another reason.
\<close>

theorem cooked_rite_never_starves:
  assumes "cook doc = Inr c" and "rite \<in> set (cn_rites c)" and "length (rc_instrs (cr_chunk rite)) \<le> 65536"
    and "length (rc_instrs (cr_chunk rite)) \<le> rc_cap_steps (cr_chunk rite)" and "length (rc_instrs (cr_chunk rite)) \<le> cs_steps st"
    and "run_burst d rite actor target pc st = (r, u)"
  shows "cs_steps st \<le> cs_steps u + length (rc_instrs (cr_chunk rite))
    \<and> (\<exists>es. sd_events (cs_spec u) = sd_events (cs_spec st) @ es \<and> (\<forall>e \<in> set es. \<not> budget_end e))"
proof -
  obtain d' J affs where "tables_of d' J affs c" using cook_inner_step[OF cook_cases(2)[OF assms(1)]] by blast
  then have "list_all2 (rite_cooked (J, cn_preds c)) (d_rites d') (cn_rites c)" unfolding tables_of_def by blast
  then obtain g where "rite_cooked (J, cn_preds c) g rite" using assms(2) by (metis in_set_conv_nth list_all2_conv_all_nth)
  from rite_flows[OF this assms(3)] obtain ops where "flows (rc_instrs (cr_chunk rite)) ops" by blast
  from burst_enough[OF this assms(4-6)] show ?thesis .
qed

theorem cooked_rite_never_starves_witness:
  "\<exists>u. run_burst nap_drive nap_rite 1 None 0 nap_state = (Inr BurstHalt, u) \<and> 9 \<le> cs_steps u + 1
     \<and> (\<exists>es. sd_events (cs_spec u) = sd_events (cs_spec nap_state) @ es \<and> (\<forall>e \<in> set es. \<not> budget_end e))"
proof -
  obtain c where c: "cook nap_doc = Inr c" "nap_rite \<in> set (cn_rites c)" using nap_cooks by auto
  obtain u where u: "run_burst nap_drive nap_rite 1 None 0 nap_state = (Inr BurstHalt, u)" using nap_halts by blast
  from cooked_rite_never_starves[OF c _ _ _ u] u show ?thesis by (simp add: nap_rite_def nap_state_def)
qed

text \<open>
  C17: A burst ends or parks.  After a burst that is not refused, either its last event says that the rite has ended and the
  actor has no such machine any more, or its last event says that the rite waits, and for how long and to go on where,
  and the actor's machine is there, with that wait and that instruction and with the clock of this tick.  An actor that
  has no row is the one exception: its wait is logged and no machine is stored, so the rite is never resumed.
\<close>

theorem burst_ends_or_parks:
  assumes "kept (sd_proj (cs_spec st))" and "run_burst d rite actor target pc st = (Inr b, u)"
  shows "case b of
      BurstHalt \<Rightarrow> proj_rite (sd_proj (cs_spec u)) actor (cr_id rite) = None
        \<and> (\<exists>es st. sd_events (cs_spec u) = es @ [\<lparr>ev_tick = dr_tick d, ev_body = RiteEnded actor (cr_id rite) st\<rparr>])
    | BurstWait \<Rightarrow> \<exists>es pc n. sd_events (cs_spec u) = es @ [\<lparr>ev_tick = dr_tick d, ev_body = RiteAdvanced actor (cr_id rite) pc n\<rparr>]
        \<and> (if proj_packed (sd_proj (cs_spec u)) actor = None then proj_rite (sd_proj (cs_spec u)) actor (cr_id rite) = None
            else \<exists>m. proj_rite (sd_proj (cs_spec u)) actor (cr_id rite) = Some m \<and> rm_wait_at m = dr_tick d
              \<and> rm_pc m = pc \<and> rm_wait_left m = n)"
proof -
  have "burst_loop d rite actor (min (rc_cap_steps (cr_chunk rite)) (cs_steps st)) pc target st = (Inr b, u)"
    using assms(2) by (simp add: run_burst_def act_simps steps_left_def)
  from burst_loop_end[OF this assms(1)] show ?thesis by (simp add: burst_end_def Let_def split: burst.splits)
qed

theorem burst_ends_or_parks_witness:
  "\<exists>u es st. run_burst nap_drive nap_rite 1 None 0 nap_state = (Inr BurstHalt, u)
     \<and> proj_rite (sd_proj (cs_spec u)) 1 0 = None \<and> sd_events (cs_spec u) = es @ [\<lparr>ev_tick = 0, ev_body = RiteEnded 1 0 st\<rparr>]"
proof -
  obtain u where u: "run_burst nap_drive nap_rite 1 None 0 nap_state = (Inr BurstHalt, u)" using nap_halts by blast
  from burst_ends_or_parks[OF nap_kept u] u show ?thesis by (simp add: nap_rite_def nap_drive_def)
qed

end
