(* ===== verification/MindSearch.thy ===== *)
theory MindSearch
  imports IrMind
begin

text \<open>
  \<open>klotho-mind/src/lib.rs\<close>, the bounded cheapest-first search of the planner.  A planner state is the 64-bit mask
  of the facts that hold.  \<open>visited\<close> is only looked up and overwritten, so the \<open>BTreeMap\<close> is a function.
\<close>

section \<open>The search\<close>

type_synonym facts = "64 word"

record compiled_operator =
  cop_requires :: facts
  cop_sets :: facts
  cop_clears :: facts
  cop_cost :: nat
  cop_verb :: verb
  cop_target :: mind_target

record node =
  nd_state :: facts
  nd_cost :: nat
  nd_depth :: nat
  nd_first :: nat

datatype search_result = Found nat nat nat | Capped nat | NoPlan nat

definition max_search_depth :: nat where
  "max_search_depth = 8"

definition max_expanded_nodes :: nat where
  "max_expanded_nodes = 128"

definition all_set :: "facts \<Rightarrow> facts \<Rightarrow> bool" where
  "all_set m w \<longleftrightarrow> and w m = m"

definition op_effect :: "compiled_operator \<Rightarrow> facts \<Rightarrow> facts" where
  "op_effect p w = or (and w (not (cop_clears p))) (cop_sets p)"

definition first_node :: "facts \<Rightarrow> compiled_operator \<Rightarrow> nat \<Rightarrow> nat \<Rightarrow> node" where
  "first_node w p i d = \<lparr>nd_state = op_effect p w, nd_cost = cop_cost p, nd_depth = d, nd_first = i\<rparr>"

definition next_node :: "node \<Rightarrow> compiled_operator \<Rightarrow> node" where
  "next_node n p =
     \<lparr>nd_state = op_effect p (nd_state n), nd_cost = min 65535 (nd_cost n + cop_cost p),
      nd_depth = nd_depth n + 1, nd_first = nd_first n\<rparr>"

text \<open>\<open>pop_cheapest\<close>: the least \<open>(cost, depth, position)\<close> leaves the queue, the others keep their order.\<close>

definition cheaper_eq :: "node \<Rightarrow> node \<Rightarrow> bool" where
  "cheaper_eq n m \<longleftrightarrow> nd_cost n < nd_cost m \<or> nd_cost n = nd_cost m \<and> nd_depth n \<le> nd_depth m"

fun pop_cheapest :: "node list \<Rightarrow> (node \<times> node list) option" where
  "pop_cheapest [] = None"
| "pop_cheapest (n # ns) =
     (case pop_cheapest ns of
        None \<Rightarrow> Some (n, [])
      | Some (m, rest) \<Rightarrow> if cheaper_eq n m then Some (n, ns) else Some (m, n # rest))"

fun push_next :: "node \<Rightarrow> compiled_operator list \<Rightarrow> node list \<Rightarrow> node list option" where
  "push_next n [] queue = Some queue"
| "push_next n (p # ps) queue =
     (if all_set (cop_requires p) (nd_state n)
      then if length queue = max_expanded_nodes then None
           else push_next n ps (queue @ [next_node n p])
      else push_next n ps queue)"

definition start_queue :: "facts \<Rightarrow> compiled_operator list \<Rightarrow> node list" where
  "start_queue w ps = map (\<lambda>(i, p). first_node w p i 1) (filter (\<lambda>(i, p). all_set (cop_requires p) w) (enumerate 0 ps))"

lemma pop_cheapest_None: "pop_cheapest q = None \<longleftrightarrow> q = []"
  by (cases q) (auto split: option.splits if_splits)

lemma pop_cheapest_length: "pop_cheapest q = Some (n, r) \<Longrightarrow> length q = Suc (length r)"
  by (induction q arbitrary: n r) (auto simp: pop_cheapest_None split: option.splits if_splits)

text \<open>The counter starts at 0 and grows by one, so the test for equality with the cap is the test for reaching it.\<close>

function search_loop :: "compiled_operator list \<Rightarrow> facts \<Rightarrow> node list \<Rightarrow> (facts \<Rightarrow> nat option) \<Rightarrow> nat \<Rightarrow> search_result" where
  "search_loop ps desired queue visited expanded =
     (case pop_cheapest queue of
        None \<Rightarrow> NoPlan expanded
      | Some (n, rest) \<Rightarrow>
          if max_expanded_nodes \<le> expanded then Capped expanded
          else if (case visited (nd_state n) of None \<Rightarrow> False | Some cost \<Rightarrow> cost \<le> nd_cost n)
          then search_loop ps desired rest visited expanded
          else let visited = visited(nd_state n \<mapsto> nd_cost n); expanded = expanded + 1 in
            if all_set desired (nd_state n) then Found (nd_first n) (nd_cost n) expanded
            else if max_search_depth \<le> nd_depth n then search_loop ps desired rest visited expanded
            else case push_next n ps rest of
                None \<Rightarrow> Capped expanded
              | Some queue \<Rightarrow> search_loop ps desired queue visited expanded)"
  by pat_completeness auto
termination
  by (relation "measures [\<lambda>(ps, d, q, v, e). max_expanded_nodes - e, \<lambda>(ps, d, q, v, e). length q]")
    (auto dest: pop_cheapest_length)

declare search_loop.simps [simp del]

definition search :: "facts \<Rightarrow> facts \<Rightarrow> compiled_operator list \<Rightarrow> search_result" where
  "search initial desired ps = search_loop ps desired (start_queue initial ps) (\<lambda>_. None) 0"

text \<open>The induction rule of the proofs: one case per way a round of the loop ends.\<close>

definition dominated :: "(facts \<Rightarrow> nat option) \<Rightarrow> node \<Rightarrow> bool" where
  "dominated visited n \<longleftrightarrow> (\<exists>cost. visited (nd_state n) = Some cost \<and> cost \<le> nd_cost n)"

lemma search_loop_step:
  "pop_cheapest q = None \<Longrightarrow> search_loop ps d q vis e = NoPlan e"
  "pop_cheapest q = Some (n, r) \<Longrightarrow> max_expanded_nodes \<le> e \<Longrightarrow> search_loop ps d q vis e = Capped e"
  "pop_cheapest q = Some (n, r) \<Longrightarrow> \<not> max_expanded_nodes \<le> e \<Longrightarrow> dominated vis n \<Longrightarrow>
   search_loop ps d q vis e = search_loop ps d r vis e"
  "pop_cheapest q = Some (n, r) \<Longrightarrow> \<not> max_expanded_nodes \<le> e \<Longrightarrow> \<not> dominated vis n \<Longrightarrow> all_set d (nd_state n) \<Longrightarrow>
   search_loop ps d q vis e = Found (nd_first n) (nd_cost n) (e + 1)"
  "pop_cheapest q = Some (n, r) \<Longrightarrow> \<not> max_expanded_nodes \<le> e \<Longrightarrow> \<not> dominated vis n \<Longrightarrow> \<not> all_set d (nd_state n) \<Longrightarrow>
   max_search_depth \<le> nd_depth n \<Longrightarrow> search_loop ps d q vis e = search_loop ps d r (vis(nd_state n \<mapsto> nd_cost n)) (e + 1)"
  "pop_cheapest q = Some (n, r) \<Longrightarrow> \<not> max_expanded_nodes \<le> e \<Longrightarrow> \<not> dominated vis n \<Longrightarrow> \<not> all_set d (nd_state n) \<Longrightarrow>
   \<not> max_search_depth \<le> nd_depth n \<Longrightarrow> search_loop ps d q vis e =
     (case push_next n ps r of None \<Rightarrow> Capped (e + 1) | Some q' \<Rightarrow> search_loop ps d q' (vis(nd_state n \<mapsto> nd_cost n)) (e + 1))"
  by (subst search_loop.simps, auto simp: dominated_def Let_def split: option.splits)+

lemma search_loop_rule [case_names empty full old hit deep clog grow]:
  fixes P :: "node list \<Rightarrow> (facts \<Rightarrow> nat option) \<Rightarrow> nat \<Rightarrow> search_result \<Rightarrow> bool"
  assumes "\<And>vis e. P [] vis e (NoPlan e)"
    and "\<And>q n r vis e. pop_cheapest q = Some (n, r) \<Longrightarrow> max_expanded_nodes \<le> e \<Longrightarrow> P q vis e (Capped e)"
    and "\<And>q n r vis e x. pop_cheapest q = Some (n, r) \<Longrightarrow> e < max_expanded_nodes \<Longrightarrow> dominated vis n \<Longrightarrow> P r vis e x \<Longrightarrow> P q vis e x"
    and "\<And>q n r vis e. pop_cheapest q = Some (n, r) \<Longrightarrow> e < max_expanded_nodes \<Longrightarrow> \<not> dominated vis n \<Longrightarrow> all_set d (nd_state n) \<Longrightarrow>
      P q vis e (Found (nd_first n) (nd_cost n) (e + 1))"
    and "\<And>q n r vis e x. pop_cheapest q = Some (n, r) \<Longrightarrow> e < max_expanded_nodes \<Longrightarrow> \<not> dominated vis n \<Longrightarrow> \<not> all_set d (nd_state n) \<Longrightarrow>
      max_search_depth \<le> nd_depth n \<Longrightarrow> P r (vis(nd_state n \<mapsto> nd_cost n)) (e + 1) x \<Longrightarrow> P q vis e x"
    and "\<And>q n r vis e. pop_cheapest q = Some (n, r) \<Longrightarrow> e < max_expanded_nodes \<Longrightarrow> P q vis e (Capped (e + 1))"
    and "\<And>q n r q' vis e x. pop_cheapest q = Some (n, r) \<Longrightarrow> e < max_expanded_nodes \<Longrightarrow> \<not> dominated vis n \<Longrightarrow> \<not> all_set d (nd_state n) \<Longrightarrow>
      nd_depth n < max_search_depth \<Longrightarrow> push_next n ps r = Some q' \<Longrightarrow> P q' (vis(nd_state n \<mapsto> nd_cost n)) (e + 1) x \<Longrightarrow> P q vis e x"
  shows "P q vis e (search_loop ps d q vis e)"
proof (induction "max_expanded_nodes - e" arbitrary: q vis e rule: less_induct)
  case less
  note smaller = less
  show ?case
  proof (induction "length q" arbitrary: q rule: less_induct)
    case less
    show ?case
    proof (cases "pop_cheapest q")
      case None
      then show ?thesis using assms(1)[of vis e] by (simp add: search_loop_step(1) pop_cheapest_None)
    next
      case (Some nr)
      then obtain n r where pop: "pop_cheapest q = Some (n, r)" by (cases nr) simp
      show ?thesis
      proof (cases "max_expanded_nodes \<le> e")
        case True
        then show ?thesis using assms(2)[OF pop True] by (simp add: search_loop_step(2)[OF pop])
      next
        case e: False
        have old: "P r vis e (search_loop ps d r vis e)" using less pop_cheapest_length[OF pop] by simp
        have new: "P q' vis' (e + 1) (search_loop ps d q' vis' (e + 1))" for q' vis'
          by (rule smaller) (use e in simp)
        note step = search_loop_step(2-6)[OF pop]
        have lt: "e < max_expanded_nodes" using e by simp
        show ?thesis
        proof (cases "dominated vis n")
          case True
          then show ?thesis using assms(3)[OF pop lt True old] step(2)[OF e True] by simp
        next
          case fresh: False
          show ?thesis
          proof (cases "all_set d (nd_state n)")
            case True
            then show ?thesis using assms(4)[OF pop lt fresh True] step(3)[OF e fresh True] by simp
          next
            case unmet: False
            show ?thesis
            proof (cases "max_search_depth \<le> nd_depth n")
              case True
              then show ?thesis using assms(5)[OF pop lt fresh unmet True new] step(4)[OF e fresh unmet True] by simp
            next
              case False
              then show ?thesis
                using assms(6)[OF pop lt] assms(7)[OF pop lt fresh unmet _ _ new] step(5)[OF e fresh unmet False]
                by (cases "push_next n ps r") simp_all
            qed
          qed
        qed
      qed
    qed
  qed
qed

section \<open>The cheapest node\<close>

lemma cheaper_eq_trans: "cheaper_eq a b \<Longrightarrow> cheaper_eq b c \<Longrightarrow> cheaper_eq a c"
  by (auto simp: cheaper_eq_def)

lemma cheaper_eq_total: "\<not> cheaper_eq a b \<Longrightarrow> cheaper_eq b a"
  by (auto simp: cheaper_eq_def)

lemma pop_cheapest_set: "pop_cheapest q = Some (n, r) \<Longrightarrow> set q = insert n (set r)"
  by (induction q arbitrary: n r) (auto simp: pop_cheapest_None split: option.splits if_splits)

lemma pop_cheapest_least: "pop_cheapest q = Some (n, r) \<Longrightarrow> m \<in> set q \<Longrightarrow> nd_cost n \<le> nd_cost m"
proof -
  have "pop_cheapest q = Some (n, r) \<Longrightarrow> m \<in> set q \<Longrightarrow> cheaper_eq n m"
  proof (induction q arbitrary: n r)
    case (Cons a q)
    then show ?case
      by (auto simp: cheaper_eq_def pop_cheapest_None split: option.splits if_splits)
  qed simp
  then show "pop_cheapest q = Some (n, r) \<Longrightarrow> m \<in> set q \<Longrightarrow> nd_cost n \<le> nd_cost m"
    by (auto simp: cheaper_eq_def)
qed

lemma push_next_set:
  "push_next n ps q = Some q' \<Longrightarrow>
   set q' = set q \<union> {next_node n p | p. p \<in> set ps \<and> all_set (cop_requires p) (nd_state n)}"
  by (induction n ps q rule: push_next.induct) (auto split: if_splits)

lemma push_next_length: "push_next n ps q = Some q' \<Longrightarrow> length q \<le> max_expanded_nodes \<Longrightarrow> length q' \<le> max_expanded_nodes"
  by (induction n ps q rule: push_next.induct) (auto split: if_splits)

lemma start_queue_set:
  "set (start_queue w ps) = {first_node w (ps ! i) i 1 | i. i < length ps \<and> all_set (cop_requires (ps ! i)) w}"
  (is "_ = ?R")
proof (rule set_eqI)
  fix n
  have "n \<in> set (start_queue w ps) \<longleftrightarrow>
    (\<exists>i p. (i, p) \<in> set (enumerate 0 ps) \<and> all_set (cop_requires p) w \<and> n = first_node w p i 1)"
    by (auto simp: start_queue_def image_iff)
  then show "n \<in> set (start_queue w ps) \<longleftrightarrow> n \<in> ?R"
    by (auto simp: in_set_enumerate_eq)
qed

end
