(* ===== verification/MindPlan.thy ===== *)
theory MindPlan
  imports MindSearch CommitKernel
begin

text \<open>
  \<open>klotho-mind/src/lib.rs\<close>: compiling and binding mind programs, evaluating their facts on a view, the Full and Far
  planners, and the proposer.  The content id of a program (blake3 of its RON text) is the argument \<open>pid\<close>; the
  telemetry of \<open>MindMetrics\<close> other than the count of programs is left out.
\<close>

section \<open>Compiled programs\<close>

record compiled_goal =
  cg_desired :: facts
  cg_utility :: nat

record compiled_far =
  cf_requires :: facts
  cf_verb :: verb
  cf_target :: mind_target
  cf_utility :: nat

record compiled_program =
  cp_id :: digest
  cp_facts :: "mind_query list"
  cp_operators :: "compiled_operator list"
  cp_goals :: "compiled_goal list"
  cp_far :: "compiled_far list"

text \<open>
  The map \<open>ix\<close> keeps the last position of an id.  An unknown name or a position past the mask would panic, and is
  None; the validated programs have neither.
\<close>

definition fact_index :: "mind_fact list \<Rightarrow> string \<Rightarrow> nat option" where
  "fact_index fs n = fold (\<lambda>(i, f) r. if fact_ident f = n then Some i else r) (enumerate 0 fs) None"

fun mask_from :: "mind_fact list \<Rightarrow> string list \<Rightarrow> facts \<Rightarrow> facts option" where
  "mask_from fs [] bits = Some bits"
| "mask_from fs (n # ns) bits =
     (case fact_index fs n of
        None \<Rightarrow> None
      | Some i \<Rightarrow> if i < 64 then mask_from fs ns (or bits (push_bit i 1)) else None)"

definition fact_bits :: "mind_fact list \<Rightarrow> string list \<Rightarrow> facts option" where
  "fact_bits fs ns = mask_from fs ns 0"

fun opt_all :: "('a \<Rightarrow> 'b option) \<Rightarrow> 'a list \<Rightarrow> 'b list option" where
  "opt_all f [] = Some []"
| "opt_all f (x # xs) = Option.bind (f x) (\<lambda>y. map_option (Cons y) (opt_all f xs))"

definition compile_operator :: "mind_fact list \<Rightarrow> mind_operator \<Rightarrow> compiled_operator option" where
  "compile_operator fs p =
     Option.bind (fact_bits fs (op_requires p)) (\<lambda>r. Option.bind (fact_bits fs (op_sets p)) (\<lambda>s.
     Option.bind (fact_bits fs (op_clears p)) (\<lambda>c.
       Some \<lparr>cop_requires = r, cop_sets = s, cop_clears = c, cop_cost = op_cost p, cop_verb = op_verb p, cop_target = op_target p\<rparr>)))"

definition compile_goal :: "mind_fact list \<Rightarrow> mind_goal \<Rightarrow> compiled_goal option" where
  "compile_goal fs g = map_option (\<lambda>d. \<lparr>cg_desired = d, cg_utility = goal_utility g\<rparr>) (fact_bits fs (goal_desired g))"

definition compile_far :: "mind_fact list \<Rightarrow> far_rule \<Rightarrow> compiled_far option" where
  "compile_far fs row =
     map_option (\<lambda>r. \<lparr>cf_requires = r, cf_verb = far_verb row, cf_target = far_target row, cf_utility = far_utility row\<rparr>)
       (fact_bits fs (far_requires row))"

definition compile_program :: "digest \<Rightarrow> mind_program \<Rightarrow> compiled_program option" where
  "compile_program i p =
     (let fs = mp_facts p in
      Option.bind (opt_all (compile_operator fs) (mp_operators p)) (\<lambda>ops.
      Option.bind (opt_all (compile_goal fs) (mp_goals p)) (\<lambda>goals.
      Option.bind (opt_all (compile_far fs) (mp_far p)) (\<lambda>far.
        Some \<lparr>cp_id = i, cp_facts = map fact_query fs, cp_operators = ops, cp_goals = goals, cp_far = far\<rparr>))))"

section \<open>Binding\<close>

record resolution =
  rs_pins :: "(string, sigil) btree"
  rs_resources :: "(string, nat) btree"

record bound_agent =
  ba_locus :: sigil
  ba_program :: compiled_program
  ba_templates :: "string list"

record mind =
  mn_agents :: "bound_agent list"
  mn_unique :: nat
  mn_resolution :: resolution

definition mind_new :: mind where
  "mind_new = \<lparr>mn_agents = [], mn_unique = 0, mn_resolution = \<lparr>rs_pins = [], rs_resources = []\<rparr>\<rparr>"

fun collect_ref :: "(string \<Rightarrow> sigil option) \<Rightarrow> mind_ref \<Rightarrow> resolution \<Rightarrow> resolution" where
  "collect_ref pin (RefPin n) r =
     (case pin n of None \<Rightarrow> r | Some s \<Rightarrow> r\<lparr>rs_pins := bt_insert n s (rs_pins r)\<rparr>)"
| "collect_ref pin _ r = r"

definition collect_resource :: "(string \<Rightarrow> nat option) \<Rightarrow> string \<Rightarrow> resolution \<Rightarrow> resolution" where
  "collect_resource resource n r =
     (case resource n of None \<Rightarrow> r | Some i \<Rightarrow> r\<lparr>rs_resources := bt_insert n i (rs_resources r)\<rparr>)"

fun collect_query :: "(string \<Rightarrow> sigil option) \<Rightarrow> (string \<Rightarrow> nat option) \<Rightarrow> mind_query \<Rightarrow> resolution \<Rightarrow> resolution" where
  "collect_query pin res (Related a _ b) r = collect_ref pin b (collect_ref pin a r)"
| "collect_query pin res (Near a b _) r = collect_ref pin b (collect_ref pin a r)"
| "collect_query pin res (QtyAtLeast a n _) r = collect_resource res n (collect_ref pin a r)"
| "collect_query pin res (AnyQtyAtLeast n _) r = collect_resource res n r"
| "collect_query pin res _ r = r"

fun collect_target :: "(string \<Rightarrow> sigil option) \<Rightarrow> mind_target \<Rightarrow> resolution \<Rightarrow> resolution" where
  "collect_target pin (TargetRef a) r = collect_ref pin a r"
| "collect_target pin NoTarget r = r"

definition collect_names :: "(string \<Rightarrow> sigil option) \<Rightarrow> (string \<Rightarrow> nat option) \<Rightarrow> mind_program \<Rightarrow> resolution \<Rightarrow> resolution" where
  "collect_names pin res p r =
     fold (collect_target pin) (map op_target (mp_operators p) @ map far_target (mp_far p))
       (fold (collect_query pin res) (map fact_query (mp_facts p)) r)"

text \<open>One spec of the binding loop: agents, interned programs and pins; None if the compiler would panic.\<close>

definition bind_spec :: "(mind_program \<Rightarrow> digest) \<Rightarrow> (string \<Rightarrow> sigil option) \<Rightarrow> mind_spec
    \<Rightarrow> bound_agent list \<times> (digest, compiled_program) btree \<times> resolution
    \<Rightarrow> (bound_agent list \<times> (digest, compiled_program) btree \<times> resolution) option" where
  "bind_spec pid pin spec s =
     (let (agents, interned, r) = s in
      case pin (ms_locus spec) of
        None \<Rightarrow> Some s
      | Some locus \<Rightarrow>
          if sigil_kind locus \<noteq> Some Actor then Some s
          else let i = pid (ms_program spec); r = r\<lparr>rs_pins := bt_insert (ms_locus spec) locus (rs_pins r)\<rparr> in
            map_option (\<lambda>c. (agents @ [\<lparr>ba_locus = locus, ba_program = c, ba_templates = ms_templates spec\<rparr>], bt_insert i c interned, r))
              (case bt_get interned i of Some c \<Rightarrow> Some c | None \<Rightarrow> compile_program i (ms_program spec)))"

fun bind_specs :: "(mind_program \<Rightarrow> digest) \<Rightarrow> (string \<Rightarrow> sigil option) \<Rightarrow> mind_spec list
    \<Rightarrow> bound_agent list \<times> (digest, compiled_program) btree \<times> resolution
    \<Rightarrow> (bound_agent list \<times> (digest, compiled_program) btree \<times> resolution) option" where
  "bind_specs pid pin [] s = Some s"
| "bind_specs pid pin (x # xs) s = Option.bind (bind_spec pid pin x s) (bind_specs pid pin xs)"

text \<open>\<open>try_bind_with\<close>: every error of every spec, or the mind; the inner None is a panic of the compiler.\<close>

definition try_bind_with :: "(mind_program \<Rightarrow> digest) \<Rightarrow> mind_spec list \<Rightarrow> (string \<Rightarrow> sigil option) \<Rightarrow> (string \<Rightarrow> nat option)
    \<Rightarrow> ir_error list + mind option" where
  "try_bind_with pid specs pin res =
     (let errors = List.map_filter (\<lambda>m. case mind_spec_check m of Inl e \<Rightarrow> Some e | Inr _ \<Rightarrow> None) specs in
      if errors \<noteq> [] then Inl errors
      else let r = fold (\<lambda>m. collect_names pin res (ms_program m)) specs \<lparr>rs_pins = [], rs_resources = []\<rparr> in
        Inr (map_option (\<lambda>(agents, interned, r). \<lparr>mn_agents = sort_key ba_locus agents, mn_unique = length interned, mn_resolution = r\<rparr>)
          (bind_specs pid pin specs ([], [], r))))"

definition bind_with :: "(mind_program \<Rightarrow> digest) \<Rightarrow> mind_spec list \<Rightarrow> (string \<Rightarrow> sigil option) \<Rightarrow> (string \<Rightarrow> nat option) \<Rightarrow> mind option" where
  "bind_with pid specs pin res = (case try_bind_with pid specs pin res of Inl _ \<Rightarrow> Some mind_new | Inr m \<Rightarrow> m)"

definition mind_bind :: "(mind_program \<Rightarrow> digest) \<Rightarrow> mind_spec list \<Rightarrow> (string \<Rightarrow> sigil option) \<Rightarrow> nat option \<Rightarrow> mind option" where
  "mind_bind pid specs pin heat = bind_with pid specs pin (\<lambda>n. if n = ''heat'' then heat else None)"

definition mind_program_id :: "mind \<Rightarrow> sigil \<Rightarrow> digest option" where
  "mind_program_id m s = map_option (\<lambda>a. cp_id (ba_program a)) (find (\<lambda>a. ba_locus a = s) (mn_agents m))"

definition canned_line :: "mind \<Rightarrow> sigil \<Rightarrow> string option" where
  "canned_line m s = Option.bind (find (\<lambda>a. ba_locus a = s) (mn_agents m)) (\<lambda>a. nth_opt (ba_templates a) 0)"

section \<open>Facts\<close>

definition resolve_ref :: "mind_ref \<Rightarrow> sigil \<Rightarrow> world_view \<Rightarrow> resolution \<Rightarrow> string + sigil" where
  "resolve_ref a actor v r =
     (case a of
        RefThis \<Rightarrow> Inr actor
      | RefPin n \<Rightarrow> (case bt_get (rs_pins r) n of None \<Rightarrow> Inl n | Some s \<Rightarrow> Inr s)
      | RefRelated rl \<Rightarrow> (case related_slice (vw_proj v) actor rl of [] \<Rightarrow> Inl (rel_as_str rl) | s # _ \<Rightarrow> Inr s))"

definition resolve_mind_target :: "mind_target \<Rightarrow> sigil \<Rightarrow> world_view \<Rightarrow> resolution \<Rightarrow> string + intent_target" where
  "resolve_mind_target t actor v r =
     (case t of NoTarget \<Rightarrow> Inr NoIntent | TargetRef a \<Rightarrow> rbind (resolve_ref a actor v r) (\<lambda>s. Inr (AtSigil s)))"

text \<open>The distance is an unsigned 32-bit number read back as \<open>i32\<close>.\<close>

definition xz_chebyshev :: "mm \<Rightarrow> mm \<Rightarrow> mm \<Rightarrow> mm \<Rightarrow> int" where
  "xz_chebyshev ax az bx bz = wrap32 (max \<bar>wrap32 (ax - bx)\<bar> \<bar>wrap32 (az - bz)\<bar>)"

definition resource_of :: "resolution \<Rightarrow> string \<Rightarrow> string + nat" where
  "resource_of r n = (case bt_get (rs_resources r) n of None \<Rightarrow> Inl n | Some i \<Rightarrow> Inr i)"

definition eval_query :: "mind_query \<Rightarrow> sigil \<Rightarrow> world_view \<Rightarrow> resolution \<Rightarrow> string + bool" where
  "eval_query q actor v r =
     (case q of
        Never \<Rightarrow> Inr False
      | Always \<Rightarrow> Inr True
      | Related a rl b \<Rightarrow>
          rbind (resolve_ref a actor v r) (\<lambda>sa. rbind (resolve_ref b actor v r) (\<lambda>sb. Inr (proj_has_rel (vw_proj v) sa rl sb)))
      | QtyAtLeast a n lo \<Rightarrow>
          rbind (resource_of r n) (\<lambda>i. rbind (resolve_ref a actor v r) (\<lambda>s. Inr (lo \<le> proj_qty (vw_proj v) s i)))
      | AnyQtyAtLeast n lo \<Rightarrow>
          rbind (resource_of r n) (\<lambda>i. Inr (list_ex (\<lambda>s. lo \<le> proj_qty (vw_proj v) s i) (p_sigils (vw_proj v))))
      | Near a b range_mm \<Rightarrow>
          rbind (resolve_ref a actor v r) (\<lambda>sa. (case proj_pose (vw_proj v) sa of None \<Rightarrow> Inr False | Some pa \<Rightarrow>
          rbind (resolve_ref b actor v r) (\<lambda>sb. (case proj_pose (vw_proj v) sb of None \<Rightarrow> Inr False | Some pb \<Rightarrow>
            Inr (xz_chebyshev (px pa) (pz pa) (px pb) (pz pb) \<le> range_mm)))))
      | TickModulo period phase \<Rightarrow> Inr (vw_tick v mod period = phase))"

fun mask_facts :: "(nat \<times> mind_query) list \<Rightarrow> sigil \<Rightarrow> world_view \<Rightarrow> resolution \<Rightarrow> facts \<Rightarrow> string + facts" where
  "mask_facts [] actor v r bits = Inr bits"
| "mask_facts ((i, q) # qs) actor v r bits =
     rbind (eval_query q actor v r) (\<lambda>b. mask_facts qs actor v r (if b then or bits (push_bit i 1) else bits))"

definition fact_mask :: "bound_agent \<Rightarrow> world_view \<Rightarrow> resolution \<Rightarrow> string + facts" where
  "fact_mask a v r = mask_facts (enumerate 0 (cp_facts (ba_program a))) (ba_locus a) v r 0"

section \<open>Planning\<close>

datatype mind_diagnostic = Unbound sigil string | PlannerCap sigil digest nat

record outcome =
  oc_intent :: "mind_intent option"
  oc_diagnostic :: "mind_diagnostic option"
  oc_expanded :: nat

definition outcome_default :: outcome where
  "outcome_default = \<lparr>oc_intent = None, oc_diagnostic = None, oc_expanded = 0\<rparr>"

definition unbound :: "sigil \<Rightarrow> string \<Rightarrow> outcome" where
  "unbound s n = outcome_default\<lparr>oc_diagnostic := Some (Unbound s n)\<rparr>"

definition lod_period :: nat where
  "lod_period = 6"

definition inactive :: "sigil \<Rightarrow> world_view \<Rightarrow> bool" where
  "inactive s v \<longleftrightarrow> view_first_rite v s \<noteq> None \<or> proj_has_rel (vw_proj v) s Dead s
     \<or> (proj_sim_lod (vw_proj v) s = Far \<and> vw_tick v mod lod_period \<noteq> 0)"

text \<open>The loop over the goals; a capped search ends it with the number of nodes that search expanded.\<close>

definition better :: "nat \<times> nat \<times> nat \<Rightarrow> (nat \<times> nat \<times> nat) option \<Rightarrow> bool" where
  "better c b = (case b of None \<Rightarrow> True | Some (u, k, f) \<Rightarrow> u < fst c \<or> fst c = u \<and> fst (snd c) < k)"

fun best_goal :: "facts \<Rightarrow> compiled_operator list \<Rightarrow> compiled_goal list \<Rightarrow> (nat \<times> nat \<times> nat) option \<Rightarrow> nat
    \<Rightarrow> nat + ((nat \<times> nat \<times> nat) option \<times> nat)" where
  "best_goal w ps [] best spent = Inr (best, spent)"
| "best_goal w ps (g # gs) best spent =
     (if all_set (cg_desired g) w then best_goal w ps gs best spent
      else case search w (cg_desired g) ps of
          Found first price e \<Rightarrow>
            (let c = (cg_utility g, price, first) in best_goal w ps gs (if better c best then Some c else best) (spent + e))
        | Capped e \<Rightarrow> Inl e
        | NoPlan e \<Rightarrow> best_goal w ps gs best (spent + e))"

definition plan_full :: "bound_agent \<Rightarrow> world_view \<Rightarrow> resolution \<Rightarrow> outcome" where
  "plan_full a v r =
     (case fact_mask a v r of
        Inl n \<Rightarrow> unbound (ba_locus a) n
      | Inr w \<Rightarrow>
          (case best_goal w (cp_operators (ba_program a)) (cp_goals (ba_program a)) None 0 of
             Inl e \<Rightarrow> \<lparr>oc_intent = None, oc_diagnostic = Some (PlannerCap (ba_locus a) (cp_id (ba_program a)) e), oc_expanded = e\<rparr>
           | Inr (None, spent) \<Rightarrow> outcome_default\<lparr>oc_expanded := spent\<rparr>
           | Inr (Some (utility, price, ix), spent) \<Rightarrow>
               (let p = cp_operators (ba_program a) ! ix in
                case resolve_mind_target (cop_target p) (ba_locus a) v r of
                  Inl n \<Rightarrow> unbound (ba_locus a) n
                | Inr t \<Rightarrow> \<lparr>oc_intent = Some \<lparr>mi_locus = ba_locus a, mi_verb = cop_verb p, mi_target = t, mi_utility = utility\<rparr>,
                    oc_diagnostic = None, oc_expanded = spent\<rparr>)))"

text \<open>\<open>max_by_key\<close> on \<open>(utility, Reverse(index))\<close>: the first row among those of the greatest utility.\<close>

fun pick_far :: "facts \<Rightarrow> compiled_far list \<Rightarrow> compiled_far option" where
  "pick_far w [] = None"
| "pick_far w (row # rows) =
     (if all_set (cf_requires row) w
      then case pick_far w rows of
          None \<Rightarrow> Some row
        | Some best \<Rightarrow> if cf_utility best \<le> cf_utility row then Some row else Some best
      else pick_far w rows)"

definition plan_far :: "bound_agent \<Rightarrow> world_view \<Rightarrow> resolution \<Rightarrow> outcome" where
  "plan_far a v r =
     (case fact_mask a v r of
        Inl n \<Rightarrow> unbound (ba_locus a) n
      | Inr w \<Rightarrow>
          (case pick_far w (cp_far (ba_program a)) of
             None \<Rightarrow> outcome_default
           | Some row \<Rightarrow>
               (case resolve_mind_target (cf_target row) (ba_locus a) v r of
                  Inl n \<Rightarrow> unbound (ba_locus a) n
                | Inr t \<Rightarrow> outcome_default\<lparr>oc_intent :=
                    Some \<lparr>mi_locus = ba_locus a, mi_verb = cf_verb row, mi_target = t, mi_utility = cf_utility row\<rparr>\<rparr>)))"

section \<open>The proposer\<close>

record plan_report =
  rp_intents :: "mind_intent list"
  rp_diagnostics :: "mind_diagnostic list"
  rp_expanded :: nat

definition agent_outcome :: "resolution \<Rightarrow> world_view \<Rightarrow> bound_agent \<Rightarrow> outcome option" where
  "agent_outcome r v a =
     (if inactive (ba_locus a) v then None
      else case proj_sim_lod (vw_proj v) (ba_locus a) of
          Dormant \<Rightarrow> None
        | Far \<Rightarrow> Some (plan_far a v r)
        | Full \<Rightarrow> Some (plan_full a v r))"

definition report_step :: "resolution \<Rightarrow> world_view \<Rightarrow> bound_agent \<Rightarrow> plan_report \<Rightarrow> plan_report" where
  "report_step r v a rep =
     (case agent_outcome r v a of
        None \<Rightarrow> rep
      | Some x \<Rightarrow>
          (let rep = rep\<lparr>rp_expanded := rp_expanded rep + oc_expanded x\<rparr> in
           case oc_diagnostic x of
             Some d \<Rightarrow> rep\<lparr>rp_diagnostics := rp_diagnostics rep @ [d]\<rparr>
           | None \<Rightarrow> (case oc_intent x of
                 Some m \<Rightarrow> rep\<lparr>rp_intents := rp_intents rep @ [m]\<rparr>
               | None \<Rightarrow> rep)))"

definition mind_plan_report :: "mind \<Rightarrow> world_view \<Rightarrow> plan_report" where
  "mind_plan_report m v =
     fold (report_step (mn_resolution m) v) (mn_agents m) \<lparr>rp_intents = [], rp_diagnostics = [], rp_expanded = 0\<rparr>"

definition mind_plan :: "mind \<Rightarrow> world_view \<Rightarrow> mind_intent list" where
  "mind_plan m v = rp_intents (mind_plan_report m v)"

definition mind_propose :: "mind \<Rightarrow> proposer" where
  "mind_propose m v dt = map Mind (mind_plan m v)"

definition mind_propose_island :: "mind \<Rightarrow> nat \<Rightarrow> world_view \<Rightarrow> proposal list" where
  "mind_propose_island m island v =
     map Mind (filter (\<lambda>x. map_option fst (proj_island (vw_proj v) (mi_locus x)) = Some island) (mind_plan m v))"

end
