(* ===== verification/MindSearchProps.thy ===== *)
theory MindSearchProps
  imports MindSearch
begin

text \<open>
  What the search returns, on masks: at most \<open>max_expanded_nodes\<close> expansions, a \<open>Found\<close> is a plan of the reported
  cost, and no plan within \<open>max_search_depth\<close> times the cheapest operator is missed or beaten.
\<close>

section \<open>Plans\<close>

fun run_ops :: "compiled_operator list \<Rightarrow> facts \<Rightarrow> nat list \<Rightarrow> facts option" where
  "run_ops ps w [] = Some w"
| "run_ops ps w (i # is) =
     (if i < length ps \<and> all_set (cop_requires (ps ! i)) w then run_ops ps (op_effect (ps ! i) w) is else None)"

definition ops_cost :: "compiled_operator list \<Rightarrow> nat list \<Rightarrow> nat" where
  "ops_cost ps is = sum_list (map (\<lambda>i. cop_cost (ps ! i)) is)"

definition u16_costs :: "compiled_operator list \<Rightarrow> bool" where
  "u16_costs ps \<longleftrightarrow> (\<forall>p \<in> set ps. cop_cost p \<le> 65535)"

lemma ops_cost_simps [simp]:
  "ops_cost ps [] = 0" "ops_cost ps (i # is) = cop_cost (ps ! i) + ops_cost ps is"
  "ops_cost ps (is @ js) = ops_cost ps is + ops_cost ps js"
  by (simp_all add: ops_cost_def)

lemma run_ops_append:
  "run_ops ps w (is @ js) = (case run_ops ps w is of None \<Rightarrow> None | Some v \<Rightarrow> run_ops ps v js)"
  by (induction "is" arbitrary: w) auto

definition node_plan :: "compiled_operator list \<Rightarrow> facts \<Rightarrow> node \<Rightarrow> nat list \<Rightarrow> bool" where
  "node_plan ps w n is \<longleftrightarrow> is \<noteq> [] \<and> hd is = nd_first n \<and> length is = nd_depth n \<and> length is \<le> max_search_depth
     \<and> run_ops ps w is = Some (nd_state n) \<and> nd_cost n = min 65535 (ops_cost ps is)"

lemma start_queue_plans:
  assumes "u16_costs ps" "n \<in> set (start_queue w ps)"
  shows "\<exists>is. node_plan ps w n is"
proof -
  obtain i where i: "i < length ps" "all_set (cop_requires (ps ! i)) w" "n = first_node w (ps ! i) i 1"
    using assms(2) by (auto simp: start_queue_set)
  moreover have "cop_cost (ps ! i) \<le> 65535" using assms(1) i(1) by (simp add: u16_costs_def)
  ultimately have "node_plan ps w n [i]"
    by (simp add: node_plan_def first_node_def max_search_depth_def)
  then show ?thesis ..
qed

lemma next_node_plan:
  assumes "node_plan ps w n is" "nd_depth n < max_search_depth" "p \<in> set ps" "all_set (cop_requires p) (nd_state n)"
  shows "\<exists>is. node_plan ps w (next_node n p) is"
proof -
  obtain i where i: "i < length ps" "p = ps ! i" using assms(3) by (metis in_set_conv_nth)
  have "node_plan ps w (next_node n p) (is @ [i])"
    using assms i by (auto simp: node_plan_def next_node_def run_ops_append)
  then show ?thesis ..
qed

section \<open>Soundness and the bound\<close>

lemma search_loop_sound:
  "(\<forall>n \<in> set q. \<exists>is. node_plan ps w n is) \<longrightarrow> search_loop ps d q vis e = Found f c x \<longrightarrow>
   (\<exists>n is. node_plan ps w n is \<and> all_set d (nd_state n) \<and> nd_first n = f \<and> nd_cost n = c)"
proof (rule search_loop_rule[where P = "\<lambda>q vis e res. (\<forall>n \<in> set q. \<exists>is. node_plan ps w n is) \<longrightarrow> res = Found f c x \<longrightarrow>
    (\<exists>n is. node_plan ps w n is \<and> all_set d (nd_state n) \<and> nd_first n = f \<and> nd_cost n = c)"], goal_cases)
  case (7 q n r q' vis e res)
  have "\<forall>n \<in> set q'. \<exists>is. node_plan ps w n is" if "\<forall>n \<in> set q. \<exists>is. node_plan ps w n is"
    using that next_node_plan[of ps w n] 7 pop_cheapest_set[OF 7(1)] by (auto simp: push_next_set[OF 7(6)])
  then show ?case using 7(7) by blast
next
  case (4 q n r vis e)
  then show ?case using pop_cheapest_set[OF 4(1)] by blast
qed (auto dest: pop_cheapest_set)

lemma search_sound:
  assumes "u16_costs ps" "search w d ps = Found f c x"
  shows "\<exists>is s. is \<noteq> [] \<and> hd is = f \<and> length is \<le> max_search_depth \<and> run_ops ps w is = Some s \<and> all_set d s
    \<and> c = min 65535 (ops_cost ps is)"
  using search_loop_sound[of "start_queue w ps" ps w d "\<lambda>_. None" 0 f c x] assms start_queue_plans[of ps _ w]
  by (fastforce simp: search_def node_plan_def)

fun expansions :: "search_result \<Rightarrow> nat" where
  "expansions (Found f c e) = e"
| "expansions (Capped e) = e"
| "expansions (NoPlan e) = e"

lemma search_loop_bound: "e \<le> max_expanded_nodes \<longrightarrow> expansions (search_loop ps d q vis e) \<le> max_expanded_nodes"
  by (rule search_loop_rule[where P = "\<lambda>q vis e res. e \<le> max_expanded_nodes \<longrightarrow> expansions res \<le> max_expanded_nodes"])
    auto

lemma search_bound: "expansions (search w d ps) \<le> max_expanded_nodes"
  by (simp add: search_def search_loop_bound)

section \<open>Completeness below the depth limit\<close>

definition covered :: "node list \<Rightarrow> (facts \<Rightarrow> nat option) \<Rightarrow> facts \<Rightarrow> nat \<Rightarrow> bool" where
  "covered q vis t k \<longleftrightarrow> (\<exists>j \<le> k. vis t = Some j) \<or> (\<exists>n \<in> set q. nd_state n = t \<and> nd_cost n \<le> k)"

definition frontier :: "compiled_operator list \<Rightarrow> facts \<Rightarrow> facts \<Rightarrow> nat \<Rightarrow> node list \<Rightarrow> (facts \<Rightarrow> nat option) \<Rightarrow> bool" where
  "frontier ps w d b q vis \<longleftrightarrow>
     (\<forall>p \<in> set ps. all_set (cop_requires p) w \<longrightarrow> covered q vis (op_effect p w) (cop_cost p))
     \<and> (\<forall>s k. vis s = Some k \<longrightarrow> \<not> all_set d s \<and>
         (b \<le> k \<or> (\<forall>p \<in> set ps. all_set (cop_requires p) s \<longrightarrow> covered q vis (op_effect p s) (k + cop_cost p))))"

lemma covered_mono:
  assumes "covered q vis t k" "set q \<subseteq> insert n (set q')" "\<exists>j \<le> nd_cost n. vis' (nd_state n) = Some j"
    and "\<And>s k. vis s = Some k \<Longrightarrow> \<exists>j \<le> k. vis' s = Some j"
  shows "covered q' vis' t k"
proof -
  consider j where "j \<le> k" "vis t = Some j" | "nd_state n = t" "nd_cost n \<le> k"
    | m where "m \<in> set q'" "nd_state m = t" "nd_cost m \<le> k"
    using assms(1,2) by (auto simp: covered_def)
  then show ?thesis
  proof cases
    case 1
    then show ?thesis using assms(4)[of t j] by (auto simp: covered_def intro: order_trans)
  next
    case 2
    then show ?thesis using assms(3) by (auto simp: covered_def intro: order_trans)
  next
    case 3
    then show ?thesis by (auto simp: covered_def)
  qed
qed

lemma frontierD:
  assumes "frontier ps w d b q vis"
  shows "p \<in> set ps \<Longrightarrow> all_set (cop_requires p) w \<Longrightarrow> covered q vis (op_effect p w) (cop_cost p)"
    and "vis s = Some k \<Longrightarrow> \<not> all_set d s"
    and "vis s = Some k \<Longrightarrow> \<not> b \<le> k \<Longrightarrow> p \<in> set ps \<Longrightarrow> all_set (cop_requires p) s \<Longrightarrow>
      covered q vis (op_effect p s) (k + cop_cost p)"
  using assms unfolding frontier_def by blast+

lemma frontier_skip:
  assumes "frontier ps w d b q vis" "pop_cheapest q = Some (n, r)" "dominated vis n"
  shows "frontier ps w d b r vis"
proof -
  have "covered q vis t k \<Longrightarrow> covered r vis t k" for t k
    by (rule covered_mono[of q vis t k n]) (use assms(3) pop_cheapest_set[OF assms(2)] in \<open>auto simp: dominated_def\<close>)
  then show ?thesis using assms(1) by (simp add: frontier_def) blast
qed

lemma frontier_visit:
  assumes "frontier ps w d b q vis" "pop_cheapest q = Some (n, r)" "\<not> dominated vis n" "\<not> all_set d (nd_state n)"
    and "set r \<subseteq> set q'"
    and "b \<le> nd_cost n \<or> (\<forall>p \<in> set ps. all_set (cop_requires p) (nd_state n) \<longrightarrow> next_node n p \<in> set q')"
  shows "frontier ps w d b q' (vis(nd_state n \<mapsto> nd_cost n))"
proof -
  let ?vis = "vis(nd_state n \<mapsto> nd_cost n)"
  have *: "covered q vis t k \<Longrightarrow> covered q' ?vis t k" for t k
    by (rule covered_mono[of q vis t k n])
      (use assms(3,5) pop_cheapest_set[OF assms(2)] in \<open>auto simp: dominated_def not_le\<close>)
  have new: "covered q' ?vis (op_effect p (nd_state n)) (nd_cost n + cop_cost p)" if "next_node n p \<in> set q'" for p
    using that by (auto simp: covered_def next_node_def intro!: bexI[of _ "next_node n p"])
  show ?thesis
    unfolding frontier_def
  proof (intro conjI allI impI ballI)
    fix p assume "p \<in> set ps" "all_set (cop_requires p) w"
    then show "covered q' ?vis (op_effect p w) (cop_cost p)" using frontierD(1)[OF assms(1)] * by blast
  next
    fix s k assume k: "?vis s = Some k"
    show "\<not> all_set d s" using k frontierD(2)[OF assms(1)] assms(4) by (cases "s = nd_state n") auto
    show "b \<le> k \<or> (\<forall>p \<in> set ps. all_set (cop_requires p) s \<longrightarrow> covered q' ?vis (op_effect p s) (k + cop_cost p))"
    proof (cases "s = nd_state n")
      case True
      then show ?thesis using k assms(6) new by auto
    next
      case False
      then have "vis s = Some k" using k by simp
      then show ?thesis using frontierD(3)[OF assms(1)] * by blast
    qed
  qed
qed

lemma frontier_plan:
  assumes "frontier ps w d b q vis" "\<forall>p \<in> set ps. 0 < cop_cost p"
  shows "run_ops ps w is = Some s \<Longrightarrow> is \<noteq> [] \<Longrightarrow> ops_cost ps is \<le> b \<Longrightarrow> \<forall>n \<in> set q. ops_cost ps is < nd_cost n \<Longrightarrow>
    \<exists>k \<le> ops_cost ps is. vis s = Some k"
proof (induction "is" arbitrary: s rule: rev_induct)
  case (snoc i js)
  obtain v where v: "run_ops ps w js = Some v" and i: "i < length ps" "all_set (cop_requires (ps ! i)) v" "s = op_effect (ps ! i) v"
    using snoc.prems(1) by (auto simp: run_ops_append split: option.splits if_splits)
  have pos: "0 < cop_cost (ps ! i)" using assms(2) i(1) by simp
  have "covered q vis s (ops_cost ps (js @ [i]))"
  proof (cases "js = []")
    case True
    then show ?thesis using frontierD(1)[OF assms(1), of "ps ! i"] i v by simp
  next
    case False
    obtain k where k: "vis v = Some k" "k \<le> ops_cost ps js"
      using snoc.IH[OF v False] snoc.prems(3,4) by fastforce
    then have "\<not> b \<le> k" using snoc.prems(3) pos by simp
    then have "covered q vis s (k + cop_cost (ps ! i))" using frontierD(3)[OF assms(1) k(1)] i by simp
    then show ?thesis using k(2) by (auto simp: covered_def intro: order_trans)
  qed
  then show ?case using snoc.prems(4) by (auto simp: covered_def)
qed simp

text \<open>Every queued node costs at least its depth times the cheapest operator.\<close>

definition deep_cost :: "nat \<Rightarrow> node list \<Rightarrow> bool" where
  "deep_cost m q \<longleftrightarrow> (\<forall>n \<in> set q. min 65535 (nd_depth n * m) \<le> nd_cost n)"

fun no_cheaper :: "nat \<Rightarrow> search_result \<Rightarrow> bool" where
  "no_cheaper k (Found f c e) = (c \<le> k)"
| "no_cheaper k (Capped e) = True"
| "no_cheaper k (NoPlan e) = False"

lemma search_loop_complete:
  assumes m: "0 < m" "\<forall>p \<in> set ps. m \<le> cop_cost p"
    and plan: "run_ops ps w is = Some s" "is \<noteq> []" "all_set d s" "ops_cost ps is \<le> min 65535 (max_search_depth * m)"
  shows "frontier ps w d (min 65535 (max_search_depth * m)) q vis \<longrightarrow> deep_cost m q \<longrightarrow>
    no_cheaper (ops_cost ps is) (search_loop ps d q vis e)"
proof (rule search_loop_rule[where P = "\<lambda>q vis e res. frontier ps w d (min 65535 (max_search_depth * m)) q vis \<longrightarrow> deep_cost m q \<longrightarrow>
    no_cheaper (ops_cost ps is) res"], goal_cases)
  let ?b = "min 65535 (max_search_depth * m)"
  have pos: "\<forall>p \<in> set ps. 0 < cop_cost p" using m by fastforce
  have out: "\<not> frontier ps w d ?b q vis" if "\<forall>n \<in> set q. ops_cost ps is < nd_cost n" for q vis
    using frontier_plan[of ps w d ?b q vis "is" s] pos plan that frontierD(2)[of ps w d ?b q vis s] by blast
  {
    case (1 vis e)
    then show ?case using out[of "[]" vis] by simp
  next
    case (4 q n r vis e)
    then show ?case using out[of q vis] pop_cheapest_least[OF 4(1)] by (fastforce simp: not_le)
  next
    case (3 q n r vis e x)
    then show ?case using frontier_skip[OF _ 3(1,3)] pop_cheapest_set[OF 3(1)] by (auto simp: deep_cost_def)
  next
    case (5 q n r vis e x)
    have "?b \<le> nd_cost n" if "deep_cost m q"
    proof -
      have "min 65535 (nd_depth n * m) \<le> nd_cost n" using that pop_cheapest_set[OF 5(1)] by (simp add: deep_cost_def)
      moreover have "max_search_depth * m \<le> nd_depth n * m" using 5(5) by simp
      ultimately show ?thesis by linarith
    qed
    then show ?case using 5(6) frontier_visit[OF _ 5(1,3,4) subset_refl] pop_cheapest_set[OF 5(1)]
      by (auto simp: deep_cost_def)
  next
    case (7 q n r q' vis e x)
    have set_q': "set q' = set r \<union> {next_node n p | p. p \<in> set ps \<and> all_set (cop_requires p) (nd_state n)}"
      by (rule push_next_set[OF 7(6)])
    have "deep_cost m q'" if "deep_cost m q"
    proof -
      have "min 65535 ((nd_depth n + 1) * m) \<le> nd_cost (next_node n p)" if "p \<in> set ps" for p
        using \<open>deep_cost m q\<close> that m(2) pop_cheapest_set[OF 7(1)] by (fastforce simp: deep_cost_def next_node_def)
      then show ?thesis using that pop_cheapest_set[OF 7(1)] unfolding deep_cost_def set_q'
        by (auto simp: next_node_def)
    qed
    moreover have "frontier ps w d ?b q vis \<Longrightarrow> frontier ps w d ?b q' (vis(nd_state n \<mapsto> nd_cost n))"
      by (rule frontier_visit[OF _ 7(1,3,4)]) (auto simp: set_q')
    ultimately show ?case using 7(7) by blast
  }
qed simp_all

lemma search_complete:
  assumes "0 < m" "\<forall>p \<in> set ps. m \<le> cop_cost p \<and> cop_cost p \<le> 65535"
    and "run_ops ps w is = Some s" "is \<noteq> []" "all_set d s" "ops_cost ps is \<le> min 65535 (max_search_depth * m)"
  shows "no_cheaper (ops_cost ps is) (search w d ps)"
proof -
  have "frontier ps w d (min 65535 (max_search_depth * m)) (start_queue w ps) (\<lambda>_. None)"
    by (fastforce simp: frontier_def covered_def start_queue_set first_node_def in_set_conv_nth)
  moreover have "deep_cost m (start_queue w ps)"
    using assms(2) by (auto simp: deep_cost_def start_queue_set first_node_def intro!: min.coboundedI2)
  ultimately show ?thesis
    using search_loop_complete[of m ps w "is" s d "start_queue w ps" "\<lambda>_. None" 0] assms by (simp add: search_def)
qed

end
