(* ===== verification/MindStrips.thy ===== *)
theory MindStrips
  imports MindPlan MindSearchProps
begin

text \<open>
  The meaning of a mind program on named facts, and that its compiled form implements it: masks are sets of facts,
  compiled operators are the authored ones, runs of the search are runs of the authored operators.
\<close>

section \<open>Programs on named facts\<close>

fun author_run :: "mind_operator list \<Rightarrow> string set \<Rightarrow> nat list \<Rightarrow> string set option" where
  "author_run ps S [] = Some S"
| "author_run ps S (i # is) =
     (if i < length ps \<and> set (op_requires (ps ! i)) \<subseteq> S
      then author_run ps (S - set (op_clears (ps ! i)) \<union> set (op_sets (ps ! i))) is else None)"

definition author_cost :: "mind_operator list \<Rightarrow> nat list \<Rightarrow> nat" where
  "author_cost ps is = sum_list (map (\<lambda>i. op_cost (ps ! i)) is)"

definition named :: "mind_fact list \<Rightarrow> facts \<Rightarrow> string set" where
  "named fs w = {fact_ident (fs ! i) | i. i < length fs \<and> bit w i}"

definition facts_now :: "mind_program \<Rightarrow> sigil \<Rightarrow> world_view \<Rightarrow> resolution \<Rightarrow> string set" where
  "facts_now p actor v r = {fact_ident f | f. f \<in> set (mp_facts p) \<and> eval_query (fact_query f) actor v r = Inr True}"

section \<open>Masks\<close>

lemma bit_push_one: "bit (2 ^ i :: facts) j \<longleftrightarrow> i = j \<and> j < 64"
  by (auto simp: bit_exp_iff possible_bit_word)

lemma fact_index_snoc:
  "fact_index (fs @ [f]) n = (if fact_ident f = n then Some (length fs) else fact_index fs n)"
  by (simp add: fact_index_def enumerate_append_eq)

lemma fact_index_Some:
  "fact_index fs n = Some i \<Longrightarrow> i < length fs \<and> fact_ident (fs ! i) = n"
  by (induction fs rule: rev_induct) (auto simp: fact_index_snoc nth_append split: if_splits, simp add: fact_index_def)

lemma fact_index_None: "fact_index fs n = None \<longleftrightarrow> n \<notin> fact_ident ` set fs"
  by (induction fs rule: rev_induct) (auto simp: fact_index_snoc, simp add: fact_index_def)

lemma mask_from_bit:
  assumes "distinct (map fact_ident fs)"
  shows "mask_from fs ns b = Some m \<Longrightarrow> bit m i \<longleftrightarrow> bit b i \<or> (i < length fs \<and> i < 64 \<and> fact_ident (fs ! i) \<in> set ns)"
proof (induction ns arbitrary: b)
  case (Cons n ns)
  then obtain j where j: "fact_index fs n = Some j" "j < 64" "mask_from fs ns (or b (push_bit j 1)) = Some m"
    by (auto split: option.splits if_splits)
  have nj: "j < length fs" "fact_ident (fs ! j) = n" using fact_index_Some[OF j(1)] by auto
  have "i < length fs \<Longrightarrow> fact_ident (fs ! i) = n \<longleftrightarrow> i = j"
    using assms nj by (metis length_map nth_eq_iff_index_eq nth_map)
  moreover have "bit m i \<longleftrightarrow> bit b i \<or> i = j \<or> (i < length fs \<and> i < 64 \<and> fact_ident (fs ! i) \<in> set ns)"
    using Cons.IH[OF j(3)] j(2) by (auto simp: bit_or_iff bit_push_one)
  ultimately show ?case using nj j(2) by auto
qed simp

lemma mask_from_known:
  "mask_from fs ns b = Some m \<Longrightarrow> set ns \<subseteq> fact_ident ` set fs"
  by (induction fs ns b rule: mask_from.induct)
    (auto simp: fact_index_None split: option.splits if_splits dest!: fact_index_Some)

lemma mask_from_ok: "length fs \<le> 64 \<Longrightarrow> set ns \<subseteq> fact_ident ` set fs \<Longrightarrow> \<exists>m. mask_from fs ns b = Some m"
proof (induction ns arbitrary: b)
  case (Cons n ns)
  then obtain i where "fact_index fs n = Some i" using fact_index_None[of fs n] by fastforce
  then show ?case using Cons fact_index_Some[of fs n i] by auto
qed simp

text \<open>The premises on a program that its check gives.\<close>

definition facts_ok :: "mind_fact list \<Rightarrow> bool" where
  "facts_ok fs \<longleftrightarrow> distinct (map fact_ident fs) \<and> length fs \<le> 64"

lemma fact_bits_bit:
  "facts_ok fs \<Longrightarrow> fact_bits fs ns = Some m \<Longrightarrow> bit m i \<longleftrightarrow> i < length fs \<and> fact_ident (fs ! i) \<in> set ns"
  using mask_from_bit[of fs ns 0 m i] by (auto simp: facts_ok_def fact_bits_def)

lemma all_set_iff: "all_set m w \<longleftrightarrow> (\<forall>i. bit m i \<longrightarrow> bit w i)"
proof
  assume "all_set m w"
  then show "\<forall>i. bit m i \<longrightarrow> bit w i" by (metis all_set_def bit_and_iff)
next
  assume "\<forall>i. bit m i \<longrightarrow> bit w i"
  then have "and w m = m" by (intro bit_eqI) (auto simp: bit_and_iff)
  then show "all_set m w" by (simp add: all_set_def)
qed

lemma named_mem: "facts_ok fs \<Longrightarrow> i < length fs \<Longrightarrow> fact_ident (fs ! i) \<in> named fs w \<longleftrightarrow> bit w i"
  by (auto simp: named_def facts_ok_def distinct_conv_nth)

lemma named_known: "named fs w \<subseteq> fact_ident ` set fs"
  by (auto simp: named_def)

lemma fact_bits_known: "fact_bits fs ns = Some m \<Longrightarrow> set ns \<subseteq> fact_ident ` set fs"
  using mask_from_known by (auto simp: fact_bits_def)

lemma known_all: "(\<forall>n \<in> fact_ident ` set fs. P n) \<longleftrightarrow> (\<forall>i < length fs. P (fact_ident (fs ! i)))"
  by (metis (no_types, lifting) image_iff in_set_conv_nth)

lemma named_all_set:
  assumes "facts_ok fs" "fact_bits fs ns = Some m"
  shows "all_set m w \<longleftrightarrow> set ns \<subseteq> named fs w"
proof -
  have "set ns \<subseteq> named fs w \<longleftrightarrow> (\<forall>n \<in> fact_ident ` set fs. n \<in> set ns \<longrightarrow> n \<in> named fs w)"
    using fact_bits_known[OF assms(2)] by blast
  also have "\<dots> \<longleftrightarrow> (\<forall>i < length fs. fact_ident (fs ! i) \<in> set ns \<longrightarrow> bit w i)"
    unfolding known_all using named_mem[OF assms(1)] by simp
  finally show ?thesis by (auto simp: all_set_iff fact_bits_bit[OF assms])
qed

lemma named_effect:
  assumes "facts_ok fs" "fact_bits fs ss = Some s" "fact_bits fs cs = Some c"
  shows "named fs (or (and w (not c)) s) = named fs w - set cs \<union> set ss"
proof -
  have bits: "bit (or (and w (not c)) s) i \<longleftrightarrow> bit w i \<and> fact_ident (fs ! i) \<notin> set cs \<or> fact_ident (fs ! i) \<in> set ss"
    if "i < length fs" for i
    using that assms(1)
    by (auto simp: bit_or_iff bit_and_iff bit_not_iff facts_ok_def fact_bits_bit[OF assms(1,2)] fact_bits_bit[OF assms(1,3)])
  have "\<forall>n \<in> fact_ident ` set fs. n \<in> named fs (or (and w (not c)) s) \<longleftrightarrow> n \<in> named fs w - set cs \<union> set ss"
    unfolding known_all using named_mem[OF assms(1)] bits by simp
  then show ?thesis
    using named_known[of fs "or (and w (not c)) s"] named_known[of fs w] fact_bits_known[OF assms(2)] by blast
qed

section \<open>Compiled operators\<close>

definition same_operator :: "mind_fact list \<Rightarrow> mind_operator \<Rightarrow> compiled_operator \<Rightarrow> bool" where
  "same_operator fs p c \<longleftrightarrow> fact_bits fs (op_requires p) = Some (cop_requires c) \<and> fact_bits fs (op_sets p) = Some (cop_sets c)
     \<and> fact_bits fs (op_clears p) = Some (cop_clears c) \<and> cop_cost c = op_cost p \<and> cop_verb c = op_verb p
     \<and> cop_target c = op_target p"

lemma list_all2_partner:
  assumes "list_all2 R xs ys"
  shows "y \<in> set ys \<Longrightarrow> \<exists>x \<in> set xs. R x y" and "x \<in> set xs \<Longrightarrow> \<exists>y \<in> set ys. R x y"
  using assms by (induction rule: list_all2_induct) auto

lemma opt_all_Some: "opt_all f xs = Some ys \<longleftrightarrow> list_all2 (\<lambda>x y. f x = Some y) xs ys"
  by (induction xs arbitrary: ys) (auto simp: bind_eq_Some_conv list_all2_Cons1)

lemma compile_operator_same: "compile_operator fs p = Some c \<Longrightarrow> same_operator fs p c"
  by (auto simp: compile_operator_def same_operator_def bind_eq_Some_conv)

lemma compile_program_parts:
  assumes "compile_program i p = Some c"
  shows "cp_id c = i" "cp_facts c = map fact_query (mp_facts p)"
    and "list_all2 (same_operator (mp_facts p)) (mp_operators p) (cp_operators c)"
    and "list_all2 (\<lambda>g k. fact_bits (mp_facts p) (goal_desired g) = Some (cg_desired k) \<and> cg_utility k = goal_utility g) (mp_goals p) (cp_goals c)"
    and "list_all2 (\<lambda>f k. fact_bits (mp_facts p) (far_requires f) = Some (cf_requires k) \<and> cf_utility k = far_utility f
      \<and> cf_verb k = far_verb f \<and> cf_target k = far_target f) (mp_far p) (cp_far c)"
  using assms
  by (auto simp: compile_program_def Let_def bind_eq_Some_conv opt_all_Some compile_goal_def compile_far_def
      elim!: list.rel_mono_strong intro: compile_operator_same)

lemma same_costs:
  "list_all2 (same_operator fs) ps cs \<Longrightarrow> (\<forall>c \<in> set cs. P (cop_cost c)) \<longleftrightarrow> (\<forall>p \<in> set ps. P (op_cost p))"
  by (induction rule: list_all2_induct) (auto simp: same_operator_def)

lemma same_enabled:
  "facts_ok fs \<Longrightarrow> same_operator fs p c \<Longrightarrow> all_set (cop_requires c) w \<longleftrightarrow> set (op_requires p) \<subseteq> named fs w"
  by (rule named_all_set) (auto simp: same_operator_def)

lemma same_effect:
  "facts_ok fs \<Longrightarrow> same_operator fs p c \<Longrightarrow>
   named fs (op_effect c w) = named fs w - set (op_clears p) \<union> set (op_sets p)"
  unfolding op_effect_def by (rule named_effect) (auto simp: same_operator_def)

lemma author_run_refines:
  assumes "facts_ok fs" "list_all2 (same_operator fs) ps cs"
  shows "author_run ps (named fs w) is = map_option (named fs) (run_ops cs w is)"
proof (induction "is" arbitrary: w)
  case (Cons i "is")
  have "length cs = length ps" using assms(2) by (simp add: list_all2_lengthD)
  moreover have "i < length ps \<Longrightarrow> same_operator fs (ps ! i) (cs ! i)" using assms(2) by (simp add: list_all2_nthD)
  ultimately show ?case
    using Cons[of "op_effect (cs ! i) w"] same_enabled[OF assms(1), of "ps ! i" "cs ! i" w]
      same_effect[OF assms(1), of "ps ! i" "cs ! i" w] by auto
qed simp

lemma author_cost_same:
  assumes "list_all2 (same_operator fs) ps cs" "\<forall>i \<in> set is. i < length ps"
  shows "ops_cost cs is = author_cost ps is"
  unfolding ops_cost_def author_cost_def
  using assms by (intro arg_cong[of _ _ sum_list] map_cong) (auto simp: same_operator_def dest!: list_all2_nthD)

lemma run_ops_indices: "run_ops ps w is = Some s \<Longrightarrow> \<forall>i \<in> set is. i < length ps"
  by (induction "is" arbitrary: w) (auto split: if_splits)

section \<open>Facts of the view\<close>

lemma mask_facts_bit:
  "mask_facts qs actor v r b = Inr w \<Longrightarrow>
   bit w i \<longleftrightarrow> bit b i \<or> (\<exists>q. (i, q) \<in> set qs \<and> i < 64 \<and> eval_query q actor v r = Inr True)"
proof (induction qs actor v r b arbitrary: w rule: mask_facts.induct)
  case (2 j q qs actor v r b)
  then obtain e where e: "eval_query q actor v r = Inr e"
    and rest: "mask_facts qs actor v r (if e then or b (push_bit j 1) else b) = Inr w"
    by (auto simp: rbind_Inr_iff)
  then show ?case using "2.IH"[OF e rest] by (auto simp: bit_or_iff bit_push_one)
qed simp

lemma named_facts_now:
  assumes "facts_ok (mp_facts p)" "cp_facts (ba_program a) = map fact_query (mp_facts p)" "fact_mask a v r = Inr w"
  shows "named (mp_facts p) w = facts_now p (ba_locus a) v r"
proof -
  have "bit w i \<longleftrightarrow> eval_query (fact_query (mp_facts p ! i)) (ba_locus a) v r = Inr True" if "i < length (mp_facts p)" for i
    using mask_facts_bit[OF assms(3)[unfolded fact_mask_def], of i] that assms(1,2)
    by (auto simp: in_set_enumerate_eq facts_ok_def)
  then show ?thesis
    by (auto simp: named_def facts_now_def in_set_conv_nth)
qed

section \<open>What the check of a program gives\<close>

lemma check_refs_known: "check_refs l fs ns = Inr () \<Longrightarrow> set ns \<subseteq> set fs"
proof
  fix n assume "check_refs l fs ns = Inr ()" "n \<in> set ns"
  then have "is_ok (rbind (name_check n) (\<lambda>_. if n \<notin> set fs then Inl (mind_invalid l ''unknown fact'' n) else Inr ()))"
    unfolding check_refs_def using check_all_ok by (metis (no_types, lifting) is_ok.simps(2))
  then show "n \<in> set fs" by (auto simp: is_ok_iff rbind_Inr_iff split: if_splits)
qed

lemma rfold_each: "rfold f s xs = Inr t \<Longrightarrow> x \<in> set xs \<Longrightarrow> \<exists>u u'. f u x = Inr u'"
  by (induction xs arbitrary: s) (auto simp: rbind_Inr_iff)

lemma check_fact_idents:
  "rfold (check_fact l) seen fs = Inr ids \<Longrightarrow> distinct seen \<Longrightarrow> ids = seen @ map fact_ident fs \<and> distinct ids"
proof (induction fs arbitrary: seen)
  case (Cons f fs)
  from Cons.prems obtain t where t: "check_fact l seen f = Inr t" "rfold (check_fact l) t fs = Inr ids"
    by (auto simp: rbind_Inr_iff)
  then have "t = seen @ [fact_ident f]" "distinct t"
    using Cons.prems(2) by (auto simp: check_fact_def rbind_Inr_iff split: if_splits)
  then have "ids = t @ map fact_ident fs" "distinct ids" using Cons.IH[OF t(2)] by blast+
  then have "ids = seen @ map fact_ident (f # fs)" using \<open>t = _\<close> by simp
  then show ?case using \<open>distinct ids\<close> by (rule conjI)
qed simp

lemma checked_program:
  assumes "mind_program_check p l = Inr ()"
  shows "facts_ok (mp_facts p)" "length (mp_goals p) \<le> 4" "length (mp_operators p) \<le> 32"
    and "f \<in> set (mp_operators p) \<Longrightarrow> 0 < op_cost f \<and>
      set (op_requires f) \<union> set (op_sets f) \<union> set (op_clears f) \<subseteq> fact_ident ` set (mp_facts p)"
    and "g \<in> set (mp_goals p) \<Longrightarrow> set (goal_desired g) \<subseteq> fact_ident ` set (mp_facts p)"
    and "row \<in> set (mp_far p) \<Longrightarrow> set (far_requires row) \<subseteq> fact_ident ` set (mp_facts p) \<and> far_target row = NoTarget
      \<and> far_verb row \<in> {Look, Move, Investigate}"
proof -
  obtain ids us vs ws where run: "rfold (check_fact l) [] (mp_facts p) = Inr ids"
    "rfold (check_operator l ids) [] (mp_operators p) = Inr us" "rfold (check_goal l ids) [] (mp_goals p) = Inr vs"
    "rfold (check_far l p ids) [] (mp_far p) = Inr ws"
    using assms by (auto simp: mind_program_check_def rbind_Inr_iff split: if_splits)
  have ids: "ids = map fact_ident (mp_facts p)" "distinct ids" using check_fact_idents[OF run(1)] by auto
  then show "facts_ok (mp_facts p)"
    using assms by (auto simp: facts_ok_def mind_program_check_def max_mind_facts_def split: if_splits)
  show "length (mp_goals p) \<le> 4" "length (mp_operators p) \<le> 32"
    using assms by (auto simp: mind_program_check_def max_mind_goals_def max_mind_operators_def split: if_splits)
  show "0 < op_cost f \<and> set (op_requires f) \<union> set (op_sets f) \<union> set (op_clears f) \<subseteq> fact_ident ` set (mp_facts p)"
    if "f \<in> set (mp_operators p)"
    using rfold_each[OF run(2) that] ids(1)
    by (auto simp: check_operator_def rbind_Inr_iff split: if_splits dest!: check_refs_known)
  show "set (goal_desired g) \<subseteq> fact_ident ` set (mp_facts p)" if "g \<in> set (mp_goals p)"
    using rfold_each[OF run(3) that] ids(1)
    by (auto simp: check_goal_def rbind_Inr_iff split: if_splits dest!: check_refs_known)
  show "set (far_requires row) \<subseteq> fact_ident ` set (mp_facts p) \<and> far_target row = NoTarget \<and> far_verb row \<in> {Look, Move, Investigate}"
    if "row \<in> set (mp_far p)"
    using rfold_each[OF run(4) that] ids(1)
    by (auto simp: check_far_def Let_def rbind_Inr_iff split: if_splits dest!: check_refs_known)
qed

lemma opt_all_total: "\<forall>x \<in> set xs. f x \<noteq> None \<Longrightarrow> opt_all f xs \<noteq> None"
  by (induction xs) auto

lemma fact_bits_total: "facts_ok fs \<Longrightarrow> set ns \<subseteq> fact_ident ` set fs \<Longrightarrow> fact_bits fs ns \<noteq> None"
  using mask_from_ok[of fs ns 0] by (simp add: fact_bits_def facts_ok_def)

lemma checked_program_compiles:
  assumes "mind_program_check p l = Inr ()"
  shows "compile_program i p \<noteq> None"
proof -
  note chk = checked_program[OF assms]
  note bits = fact_bits_total[OF chk(1)]
  have ops: "compile_operator (mp_facts p) f \<noteq> None" if f: "f \<in> set (mp_operators p)" for f
  proof -
    obtain a b c where "fact_bits (mp_facts p) (op_requires f) = Some a" "fact_bits (mp_facts p) (op_sets f) = Some b"
      "fact_bits (mp_facts p) (op_clears f) = Some c"
      using bits chk(4)[OF f] by (metis le_sup_iff not_None_eq)
    then show ?thesis by (simp add: compile_operator_def)
  qed
  have "opt_all (compile_operator (mp_facts p)) (mp_operators p) \<noteq> None" using ops by (intro opt_all_total) blast
  moreover have "opt_all (compile_goal (mp_facts p)) (mp_goals p) \<noteq> None"
    using chk(5) bits by (intro opt_all_total) (simp add: compile_goal_def)
  moreover have "opt_all (compile_far (mp_facts p)) (mp_far p) \<noteq> None"
    using chk(6) bits by (intro opt_all_total) (simp add: compile_far_def)
  ultimately show ?thesis by (auto simp: compile_program_def Let_def)
qed

end
