(* ===== verification/MindProps.thy ===== *)
theory MindProps
  imports MindStrips
begin

text \<open>
  What the planner guarantees: an emitted intent starts a cheapest plan of the most useful reachable goal, silence
  means that no goal is within reach, the work is bounded, and binding a checked document cannot fail.
\<close>

section \<open>The goal loop\<close>

text \<open>A goal the loop has dealt with: already met, found at a price, or out of the reach of the search.\<close>

definition reachable_at :: "facts \<Rightarrow> compiled_operator list \<Rightarrow> compiled_goal \<Rightarrow> nat \<Rightarrow> nat \<Rightarrow> bool" where
  "reachable_at w ps g k f \<longleftrightarrow> \<not> all_set (cg_desired g) w \<and> (\<exists>e. search w (cg_desired g) ps = Found f k e)"

definition best_so_far :: "facts \<Rightarrow> compiled_operator list \<Rightarrow> compiled_goal list \<Rightarrow> (nat \<times> nat \<times> nat) option \<Rightarrow> bool" where
  "best_so_far w ps gs best \<longleftrightarrow>
     (case best of
        None \<Rightarrow> \<forall>g \<in> set gs. \<forall>k f. \<not> reachable_at w ps g k f
      | Some (u, k, f) \<Rightarrow> (\<exists>g \<in> set gs. cg_utility g = u \<and> reachable_at w ps g k f)
          \<and> (\<forall>g \<in> set gs. \<forall>k' f'. reachable_at w ps g k' f' \<longrightarrow> cg_utility g < u \<or> cg_utility g = u \<and> k \<le> k'))"

lemma best_so_far_skip:
  "best_so_far w ps seen best \<Longrightarrow> \<forall>k f. \<not> reachable_at w ps g k f \<Longrightarrow> best_so_far w ps (seen @ [g]) best"
  by (auto simp: best_so_far_def split: option.splits prod.splits)

lemma best_so_far_found:
  assumes "best_so_far w ps seen best" and only: "\<And>k' f'. reachable_at w ps g k' f' \<longleftrightarrow> k' = k \<and> f' = f"
  shows "best_so_far w ps (seen @ [g]) (if better (cg_utility g, k, f) best then Some (cg_utility g, k, f) else best)"
proof (cases best)
  case None
  then show ?thesis using assms(1) by (auto simp: best_so_far_def better_def only)
next
  case (Some b)
  obtain u j h where b: "best = Some (u, j, h)" using Some by (cases b) auto
  have old: "\<exists>g \<in> set seen. cg_utility g = u \<and> reachable_at w ps g j h"
    "\<And>g k' f'. g \<in> set seen \<Longrightarrow> reachable_at w ps g k' f' \<Longrightarrow> cg_utility g < u \<or> cg_utility g = u \<and> j \<le> k'"
    using assms(1) by (auto simp: best_so_far_def b)
  show ?thesis
  proof (cases "better (cg_utility g, k, f) best")
    case True
    then have "u < cg_utility g \<or> cg_utility g = u \<and> k < j" by (simp add: better_def b)
    then show ?thesis using True only old(2) by (fastforce simp: best_so_far_def)
  next
    case False
    then have "cg_utility g < u \<or> cg_utility g = u \<and> j \<le> k" by (auto simp: better_def b)
    then show ?thesis using False only old(1) by (auto simp: best_so_far_def b dest: old(2))
  qed
qed

lemma best_goal_best:
  "best_goal w ps gs best spent = Inr (res, e) \<Longrightarrow> best_so_far w ps seen best \<Longrightarrow>
   best_so_far w ps (seen @ gs) res \<and> (\<forall>g \<in> set gs. all_set (cg_desired g) w \<or> (\<forall>x. search w (cg_desired g) ps \<noteq> Capped x))"
proof (induction gs arbitrary: best spent seen)
  case (Cons g gs)
  consider (met) "all_set (cg_desired g) w" | (none) x where "\<not> all_set (cg_desired g) w" "search w (cg_desired g) ps = NoPlan x"
    | (found) f k x where "\<not> all_set (cg_desired g) w" "search w (cg_desired g) ps = Found f k x"
    using Cons.prems(1) by (cases "search w (cg_desired g) ps") (auto split: if_splits)
  then show ?case
  proof cases
    case met
    then have "best_so_far w ps (seen @ [g]) best" by (intro best_so_far_skip Cons.prems(2)) (simp add: reachable_at_def)
    then show ?thesis using Cons.IH[of best spent "seen @ [g]"] Cons.prems(1) met by simp
  next
    case none
    then have "best_so_far w ps (seen @ [g]) best" by (intro best_so_far_skip Cons.prems(2)) (simp add: reachable_at_def)
    then show ?thesis using Cons.IH[of best "spent + x" "seen @ [g]"] Cons.prems(1) none by simp
  next
    case found
    then have "best_so_far w ps (seen @ [g]) (if better (cg_utility g, k, f) best then Some (cg_utility g, k, f) else best)"
      by (intro best_so_far_found Cons.prems(2)) (auto simp: reachable_at_def)
    then show ?thesis
      using Cons.IH[of "if better (cg_utility g, k, f) best then Some (cg_utility g, k, f) else best" "spent + x" "seen @ [g]"]
        Cons.prems(1) found by (simp add: Let_def)
  qed
qed simp

text \<open>The nodes that all searches of one Full call expand; a search that hits its cap is the last.\<close>

fun goals_work :: "facts \<Rightarrow> compiled_operator list \<Rightarrow> compiled_goal list \<Rightarrow> nat" where
  "goals_work w ps [] = 0"
| "goals_work w ps (g # gs) =
     (if all_set (cg_desired g) w then goals_work w ps gs
      else case search w (cg_desired g) ps of Capped e \<Rightarrow> e | res \<Rightarrow> expansions res + goals_work w ps gs)"

definition plan_work :: "bound_agent \<Rightarrow> world_view \<Rightarrow> resolution \<Rightarrow> nat" where
  "plan_work a v r =
     (case fact_mask a v r of Inl n \<Rightarrow> 0 | Inr w \<Rightarrow> goals_work w (cp_operators (ba_program a)) (cp_goals (ba_program a)))"

lemma goals_work_bound: "goals_work w ps gs \<le> length gs * max_expanded_nodes"
proof (induction gs)
  case (Cons g gs)
  then show ?case using search_bound[of w "cg_desired g" ps] by (cases "search w (cg_desired g) ps") simp_all
qed simp

lemma best_goal_work:
  "best_goal w ps gs best spent = Inr (b, e) \<Longrightarrow> e = spent + goals_work w ps gs"
  "best_goal w ps gs best spent = Inl e \<Longrightarrow> e \<le> goals_work w ps gs"
  by (induction gs arbitrary: best spent) (fastforce simp: Let_def split: if_splits search_result.splits)+

lemma plan_reports_work:
  "oc_expanded (plan_full a v r) \<le> plan_work a v r
   \<and> (oc_diagnostic (plan_full a v r) = None \<longrightarrow> oc_expanded (plan_full a v r) = plan_work a v r)"
  by (auto simp: plan_full_def plan_work_def unbound_def outcome_default_def Let_def dest: best_goal_work
      split: sum.splits prod.splits option.splits)

section \<open>Intents\<close>

lemma reachable_at_sound:
  assumes "facts_ok fs" "list_all2 (same_operator fs) ps cs" "\<forall>p \<in> set ps. op_cost p \<le> 65535"
    and "fact_bits fs (goal_desired g) = Some (cg_desired c)" "reachable_at w cs c k i"
  shows "\<exists>is T. is \<noteq> [] \<and> hd is = i \<and> length is \<le> max_search_depth \<and> author_run ps (named fs w) is = Some T
    \<and> set (goal_desired g) \<subseteq> T \<and> k = min 65535 (author_cost ps is)"
proof -
  have "u16_costs cs"
    unfolding u16_costs_def using same_costs[OF assms(2), of "\<lambda>k. k \<le> 65535"] assms(3) by simp
  then obtain "is" s where run: "is \<noteq> []" "hd is = i" "length is \<le> max_search_depth" "run_ops cs w is = Some s"
    "all_set (cg_desired c) s" "k = min 65535 (ops_cost cs is)"
    using assms(5) search_sound by (auto simp: reachable_at_def) blast
  have "length cs = length ps" using assms(2) by (simp add: list_all2_lengthD)
  then have "ops_cost cs is = author_cost ps is"
    by (intro author_cost_same[OF assms(2)]) (use run_ops_indices[OF run(4)] in simp)
  then show ?thesis
    using run author_run_refines[OF assms(1,2), of w "is"] named_all_set[OF assms(1,4)] by auto
qed

lemma reachable_at_complete:
  assumes "facts_ok fs" "list_all2 (same_operator fs) ps cs" "0 < m" "\<forall>p \<in> set ps. m \<le> op_cost p \<and> op_cost p \<le> 65535"
    and "fact_bits fs (goal_desired g) = Some (cg_desired c)"
    and "\<not> set (goal_desired g) \<subseteq> named fs w" "author_run ps (named fs w) is = Some T" "set (goal_desired g) \<subseteq> T"
    and "author_cost ps is \<le> min 65535 (max_search_depth * m)" "\<And>x. search w (cg_desired c) cs \<noteq> Capped x"
  shows "\<exists>k i. reachable_at w cs c k i \<and> k \<le> author_cost ps is"
proof -
  have len: "length cs = length ps" using assms(2) by (simp add: list_all2_lengthD)
  obtain s where s: "run_ops cs w is = Some s" "T = named fs s"
    using assms(7) author_run_refines[OF assms(1,2), of w "is"] by auto
  have cost: "ops_cost cs is = author_cost ps is"
    by (intro author_cost_same[OF assms(2)]) (use run_ops_indices[OF s(1)] len in simp)
  have "no_cheaper (ops_cost cs is) (search w (cg_desired c) cs)"
  proof (rule search_complete[of m])
    show "\<forall>p \<in> set cs. m \<le> cop_cost p \<and> cop_cost p \<le> 65535"
      using same_costs[OF assms(2), of "\<lambda>k. m \<le> k \<and> k \<le> 65535"] assms(4) by simp
    show "is \<noteq> []" using assms(6,7,8) by auto
    show "all_set (cg_desired c) s" using assms(8) named_all_set[OF assms(1,5)] s(2) by simp
  qed (use assms(3,9) s(1) cost in simp_all)
  moreover have "\<not> all_set (cg_desired c) w" using assms(6) named_all_set[OF assms(1,5)] by simp
  ultimately show ?thesis
    using assms(10) cost by (cases "search w (cg_desired c) cs") (auto simp: reachable_at_def)
qed

text \<open>A plan for an unmet goal, on the facts that hold now.\<close>

definition plans_for :: "mind_program \<Rightarrow> string set \<Rightarrow> mind_goal \<Rightarrow> nat list \<Rightarrow> bool" where
  "plans_for p S g is \<longleftrightarrow> \<not> set (goal_desired g) \<subseteq> S
     \<and> (case author_run (mp_operators p) S is of None \<Rightarrow> False | Some T \<Rightarrow> set (goal_desired g) \<subseteq> T)"

definition reach_budget :: "mind_program \<Rightarrow> nat" where
  "reach_budget p = min 65535 (max_search_depth * Min (op_cost ` set (mp_operators p)))"

lemma plan_needs_operator: "plans_for p S g is \<Longrightarrow> mp_operators p \<noteq> []"
  by (cases "is") (auto simp: plans_for_def split: option.splits if_splits)

text \<open>An agent bound to the compiled form of a checked program, whose facts are the mask \<open>w\<close>.\<close>

definition compiled_agent :: "mind_program \<Rightarrow> bound_agent \<Rightarrow> world_view \<Rightarrow> resolution \<Rightarrow> facts \<Rightarrow> bool" where
  "compiled_agent p a v r w \<longleftrightarrow> (\<exists>l. mind_program_check p l = Inr ()) \<and> (\<forall>q \<in> set (mp_operators p). op_cost q \<le> 65535)
     \<and> (\<exists>i. compile_program i p = Some (ba_program a)) \<and> fact_mask a v r = Inr w"

lemma agent_facts_ok: "compiled_agent p a v r w \<Longrightarrow> facts_ok (mp_facts p)"
  by (auto simp: compiled_agent_def intro: checked_program(1))

lemma agent_parts:
  assumes "compiled_agent p a v r w"
  shows "cp_facts (ba_program a) = map fact_query (mp_facts p)"
  "list_all2 (same_operator (mp_facts p)) (mp_operators p) (cp_operators (ba_program a))"
  "list_all2 (\<lambda>g k. fact_bits (mp_facts p) (goal_desired g) = Some (cg_desired k) \<and> cg_utility k = goal_utility g) (mp_goals p) (cp_goals (ba_program a))"
  "list_all2 (\<lambda>f k. fact_bits (mp_facts p) (far_requires f) = Some (cf_requires k) \<and> cf_utility k = far_utility f
      \<and> cf_verb k = far_verb f \<and> cf_target k = far_target f) (mp_far p) (cp_far (ba_program a))"
  using assms compile_program_parts unfolding compiled_agent_def by blast+

lemma named_now:
  assumes "compiled_agent p a v r w"
  shows "named (mp_facts p) w = facts_now p (ba_locus a) v r"
  by (rule named_facts_now[OF agent_facts_ok[OF assms] agent_parts(1)[OF assms]]) (use assms in \<open>simp add: compiled_agent_def\<close>)

lemma goal_of:
  "compiled_agent p a v r w \<Longrightarrow> c \<in> set (cp_goals (ba_program a)) \<Longrightarrow>
   \<exists>g \<in> set (mp_goals p). fact_bits (mp_facts p) (goal_desired g) = Some (cg_desired c) \<and> cg_utility c = goal_utility g"
  using list_all2_partner(1)[OF agent_parts(3)] by blast

lemma goal_to:
  "compiled_agent p a v r w \<Longrightarrow> g \<in> set (mp_goals p) \<Longrightarrow>
   \<exists>c \<in> set (cp_goals (ba_program a)). fact_bits (mp_facts p) (goal_desired g) = Some (cg_desired c) \<and> cg_utility c = goal_utility g"
  using list_all2_partner(2)[OF agent_parts(3)] by blast

lemma found_plan:
  assumes A: "compiled_agent p a v r w" and hyp: "reachable_at w (cp_operators (ba_program a)) c k i" "fact_bits (mp_facts p) (goal_desired g) = Some (cg_desired c)"
  shows "\<exists>is. plans_for p (facts_now p (ba_locus a) v r) g is \<and> is \<noteq> [] \<and> hd is = i \<and> i < length (mp_operators p) \<and> length is \<le> max_search_depth
    \<and> k = min 65535 (author_cost (mp_operators p) is)"
proof -
  have cst: "\<forall>q \<in> set (mp_operators p). op_cost q \<le> 65535" using A by (simp add: compiled_agent_def)
  obtain "is" T where h: "is \<noteq> []" "hd is = i" "length is \<le> max_search_depth" "author_run (mp_operators p) (facts_now p (ba_locus a) v r) is = Some T"
    "set (goal_desired g) \<subseteq> T" "k = min 65535 (author_cost (mp_operators p) is)"
    using reachable_at_sound[OF agent_facts_ok[OF A] agent_parts(2)[OF A] cst hyp(2,1)] by (auto simp: named_now[OF A])
  have "\<not> set (goal_desired g) \<subseteq> (facts_now p (ba_locus a) v r)"
    using hyp(1) named_all_set[OF agent_facts_ok[OF A] hyp(2), of w] by (simp add: reachable_at_def named_now[OF A])
  moreover have "i < length (mp_operators p)" using h(1,2,4) by (cases "is") (auto split: if_splits)
  ultimately show ?thesis using h unfolding plans_for_def by (intro exI[of _ "is"]) simp
qed

lemma plan_found:
  assumes A: "compiled_agent p a v r w" and hyp: "plans_for p (facts_now p (ba_locus a) v r) g is" "author_cost (mp_operators p) is \<le> reach_budget p"
    "fact_bits (mp_facts p) (goal_desired g) = Some (cg_desired c)" "\<And>x. search w (cg_desired c) (cp_operators (ba_program a)) \<noteq> Capped x"
  shows "\<exists>k i. reachable_at w (cp_operators (ba_program a)) c k i \<and> k \<le> author_cost (mp_operators p) is"
proof -
  let ?m = "Min (op_cost ` set (mp_operators p))"
  obtain T where T: "author_run (mp_operators p) (named (mp_facts p) w) is = Some T" "set (goal_desired g) \<subseteq> T"
    "\<not> set (goal_desired g) \<subseteq> named (mp_facts p) w"
    using hyp(1) by (auto simp: plans_for_def named_now[OF A] split: option.splits)
  have "?m \<in> op_cost ` set (mp_operators p)" using plan_needs_operator[OF hyp(1)] by (intro Min_in) auto
  then have pos: "0 < ?m" using checked_program(4) A by (fastforce simp: compiled_agent_def)
  have low: "\<forall>q \<in> set (mp_operators p). ?m \<le> op_cost q \<and> op_cost q \<le> 65535" using A by (simp add: compiled_agent_def)
  show ?thesis
    by (rule reachable_at_complete[OF agent_facts_ok[OF A] agent_parts(2)[OF A] pos low hyp(3) T(3,1,2) _ hyp(4)]) (use hyp(2) in \<open>simp add: reach_budget_def\<close>)
qed

lemma best_plan:
  assumes A: "compiled_agent p a v r w" and hyp: "best_goal w (cp_operators (ba_program a)) (cp_goals (ba_program a)) None 0 = Inr (Some (u, k, i), e)"
  shows "\<exists>g \<in> set (mp_goals p). \<exists>is. plans_for p (facts_now p (ba_locus a) v r) g is \<and> is \<noteq> [] \<and> hd is = i \<and> i < length (mp_operators p)
    \<and> length is \<le> max_search_depth \<and> u = goal_utility g
    \<and> (\<forall>h \<in> set (mp_goals p). \<forall>js. plans_for p (facts_now p (ba_locus a) v r) h js \<longrightarrow> author_cost (mp_operators p) js \<le> reach_budget p \<longrightarrow>
        goal_utility h < u \<or> goal_utility h = u \<and> min 65535 (author_cost (mp_operators p) is) \<le> author_cost (mp_operators p) js)"
proof -
  note b = best_goal_best[OF hyp, of "[]"]
  have best: "best_so_far w (cp_operators (ba_program a)) (cp_goals (ba_program a)) (Some (u, k, i))"
    and nocap: "\<forall>g \<in> set (cp_goals (ba_program a)). all_set (cg_desired g) w \<or> (\<forall>x. search w (cg_desired g) (cp_operators (ba_program a)) \<noteq> Capped x)"
    using b by (simp_all add: best_so_far_def)
  obtain c where c: "c \<in> set (cp_goals (ba_program a))" "cg_utility c = u" "reachable_at w (cp_operators (ba_program a)) c k i"
    using best by (auto simp: best_so_far_def)
  obtain g where g: "g \<in> set (mp_goals p)" "fact_bits (mp_facts p) (goal_desired g) = Some (cg_desired c)" "cg_utility c = goal_utility g"
    using goal_of[OF A c(1)] by blast
  obtain "is" where "is": "plans_for p (facts_now p (ba_locus a) v r) g is" "is \<noteq> []" "hd is = i" "i < length (mp_operators p)" "length is \<le> max_search_depth"
    "k = min 65535 (author_cost (mp_operators p) is)"
    using found_plan[OF A c(3) g(2)] by blast
  have "goal_utility h < u \<or> goal_utility h = u \<and> k \<le> author_cost (mp_operators p) js"
    if h: "h \<in> set (mp_goals p)" "plans_for p (facts_now p (ba_locus a) v r) h js" "author_cost (mp_operators p) js \<le> reach_budget p" for h js
  proof -
    obtain d where d: "d \<in> set (cp_goals (ba_program a))" "fact_bits (mp_facts p) (goal_desired h) = Some (cg_desired d)"
      "cg_utility d = goal_utility h" using goal_to[OF A h(1)] by blast
    have "\<not> all_set (cg_desired d) w" using h(2) named_all_set[OF agent_facts_ok[OF A] d(2), of w] by (simp add: plans_for_def named_now[OF A])
    then have "\<And>x. search w (cg_desired d) (cp_operators (ba_program a)) \<noteq> Capped x" using nocap d(1) by blast
    then obtain k' i' where "reachable_at w (cp_operators (ba_program a)) d k' i'" "k' \<le> author_cost (mp_operators p) js"
      using plan_found[OF A h(2,3) d(2)] by blast
    then show ?thesis using best d(1,3) by (fastforce simp: best_so_far_def)
  qed
  then show ?thesis using g "is" c(2) by metis
qed

lemma nothing_found:
  assumes A: "compiled_agent p a v r w" and hyp: "best_goal w (cp_operators (ba_program a)) (cp_goals (ba_program a)) None 0 = Inr (None, e)" "h \<in> set (mp_goals p)" "plans_for p (facts_now p (ba_locus a) v r) h js"
  shows "reach_budget p < author_cost (mp_operators p) js"
proof (rule ccontr)
  assume "\<not> reach_budget p < author_cost (mp_operators p) js"
  obtain d where d: "d \<in> set (cp_goals (ba_program a))" "fact_bits (mp_facts p) (goal_desired h) = Some (cg_desired d)"
    using goal_to[OF A hyp(2)] by blast
  note b = best_goal_best[OF hyp(1), of "[]"]
  have "\<not> all_set (cg_desired d) w" using hyp(3) named_all_set[OF agent_facts_ok[OF A] d(2), of w] by (simp add: plans_for_def named_now[OF A])
  then have "\<And>x. search w (cg_desired d) (cp_operators (ba_program a)) \<noteq> Capped x" using b d(1) by (auto simp: best_so_far_def)
  then obtain k' i' where "reachable_at w (cp_operators (ba_program a)) d k' i'"
    using plan_found[OF A hyp(3) _ d(2)] \<open>\<not> reach_budget p < _\<close> by (metis not_le)
  then show False using b d(1) by (auto simp: best_so_far_def)
qed

section \<open>Far rows\<close>

lemma pick_far_None: "pick_far w rows = None \<Longrightarrow> c \<in> set rows \<Longrightarrow> \<not> all_set (cf_requires c) w"
  by (induction rows) (auto split: if_splits option.splits)

lemma pick_far_best:
  "pick_far w rows = Some row \<Longrightarrow> row \<in> set rows \<and> all_set (cf_requires row) w
    \<and> (\<forall>c \<in> set rows. all_set (cf_requires c) w \<longrightarrow> cf_utility c \<le> cf_utility row)"
proof (induction rows arbitrary: row)
  case (Cons c rows)
  show ?case
  proof (cases "pick_far w rows")
    case None
    then show ?thesis using Cons.prems pick_far_None[OF None] by (auto split: if_splits)
  next
    case (Some d)
    then show ?thesis using Cons.prems Cons.IH[OF Some] by (auto split: if_splits)
  qed
qed simp

section \<open>Binding\<close>

definition agent_of :: "(mind_program \<Rightarrow> digest) \<Rightarrow> (string \<Rightarrow> sigil option) \<Rightarrow> mind_spec \<Rightarrow> bound_agent option" where
  "agent_of pid pin m =
     (case pin (ms_locus m) of
        None \<Rightarrow> None
      | Some s \<Rightarrow> if sigil_kind s \<noteq> Some Actor then None
          else map_option (\<lambda>c. \<lparr>ba_locus = s, ba_program = c, ba_templates = ms_templates m\<rparr>)
            (compile_program (pid (ms_program m)) (ms_program m)))"

definition interned_ok :: "(mind_program \<Rightarrow> digest) \<Rightarrow> mind_program set \<Rightarrow> (digest, compiled_program) btree \<Rightarrow> bool" where
  "interned_ok pid P t \<longleftrightarrow> (\<forall>i c. bt_get t i = Some c \<longrightarrow> (\<exists>p \<in> P. i = pid p \<and> compile_program i p = Some c))"

lemma bind_specs_agents:
  assumes "inj_on pid (insert_progs \<union> ms_program ` set specs)" "interned_ok pid insert_progs t"
    and "\<forall>m \<in> set specs. \<exists>l. mind_program_check (ms_program m) l = Inr ()"
  shows "\<exists>t' r'. bind_specs pid pin specs (as, t, r) = Some (as @ List.map_filter (agent_of pid pin) specs, t', r')"
  using assms
proof (induction specs arbitrary: as t r insert_progs)
  case Nil
  then show ?case by (simp add: map_filter_def)
next
  case (Cons m specs)
  let ?p = "ms_program m"
  have inj: "inj_on pid (insert ?p insert_progs \<union> ms_program ` set specs)" 
  proof -
    have "insert ?p insert_progs \<union> ms_program ` set specs = insert_progs \<union> ms_program ` set (m # specs)" by auto
    then show ?thesis using Cons.prems(1) by (simp only:)
  qed
  have chk: "\<forall>m \<in> set specs. \<exists>l. mind_program_check (ms_program m) l = Inr ()" using Cons.prems(3) by simp
  have mono: "interned_ok pid (insert ?p insert_progs) t" using Cons.prems(2) by (auto simp: interned_ok_def)
  show ?case
  proof (cases "\<exists>s. pin (ms_locus m) = Some s \<and> sigil_kind s = Some Actor")
    case False
    then have "bind_spec pid pin m (as, t, r) = Some (as, t, r)" "agent_of pid pin m = None"
      by (auto simp: bind_spec_def agent_of_def split: option.splits)
    then show ?thesis using Cons.IH[OF inj mono chk, of as r] by (simp add: map_filter_simps)
  next
    case True
    then obtain s where s: "pin (ms_locus m) = Some s" "sigil_kind s = Some Actor" by blast
    obtain c where c: "compile_program (pid ?p) ?p = Some c"
      using Cons.prems(3) checked_program_compiles by (metis list.set_intros(1) not_None_eq)
    have hit: "d = c" if old: "bt_get t (pid ?p) = Some d" for d
    proof -
      obtain q where "q \<in> insert_progs" "pid ?p = pid q" "compile_program (pid ?p) q = Some d"
        using old Cons.prems(2) unfolding interned_ok_def by metis
      then show ?thesis using c inj_onD[OF Cons.prems(1), of ?p q] by simp
    qed
    have next_ok: "interned_ok pid (insert ?p insert_progs) (bt_insert (pid ?p) c t)"
      using mono c by (auto simp: interned_ok_def bt_get_insert)
    have "bind_spec pid pin m (as, t, r) =
        Some (as @ [\<lparr>ba_locus = s, ba_program = c, ba_templates = ms_templates m\<rparr>], bt_insert (pid ?p) c t,
          r\<lparr>rs_pins := bt_insert (ms_locus m) s (rs_pins r)\<rparr>)"
      using s c hit by (auto simp: bind_spec_def Let_def split: option.splits)
    moreover have "agent_of pid pin m = Some \<lparr>ba_locus = s, ba_program = c, ba_templates = ms_templates m\<rparr>"
      using s c by (simp add: agent_of_def)
    ultimately show ?thesis
      using Cons.IH[OF inj next_ok chk, of "as @ [\<lparr>ba_locus = s, ba_program = c, ba_templates = ms_templates m\<rparr>]"
          "r\<lparr>rs_pins := bt_insert (ms_locus m) s (rs_pins r)\<rparr>"]
      by (simp add: map_filter_simps)
  qed
qed

end
