(* ===== verification/MindClaims.thy ===== *)
theory MindClaims
  imports MindProps
begin

text \<open>The properties of the mind planner, with the sample program the witnesses run.\<close>

section \<open>A sample program\<close>

definition sample_mind :: mind_program where
  "sample_mind =
     \<lparr>mp_beat = None,
      mp_facts = [\<lparr>fact_ident = ''ready'', fact_query = Always, far_safe = True\<rparr>, \<lparr>fact_ident = ''done'', fact_query = Never, far_safe = True\<rparr>],
      mp_operators = [\<lparr>op_ident = ''act'', op_requires = [''ready''], op_sets = [''done''], op_clears = [], op_cost = 2,
        op_verb = Investigate, op_target = NoTarget\<rparr>],
      mp_goals = [\<lparr>goal_ident = ''finish'', goal_desired = [''done''], goal_utility = 10\<rparr>],
      mp_far = [\<lparr>far_requires = [''ready''], far_effects = [''done''], far_verb = Look, far_target = NoTarget, far_utility = 3\<rparr>]\<rparr>"

definition sample_compiled :: compiled_program where
  "sample_compiled =
     \<lparr>cp_id = [7], cp_facts = [Always, Never],
      cp_operators = [\<lparr>cop_requires = 1, cop_sets = 2, cop_clears = 0, cop_cost = 2, cop_verb = Investigate, cop_target = NoTarget\<rparr>],
      cp_goals = [\<lparr>cg_desired = 2, cg_utility = 10\<rparr>], cp_far = [\<lparr>cf_requires = 1, cf_verb = Look, cf_target = NoTarget, cf_utility = 3\<rparr>]\<rparr>"

definition sample_agent :: bound_agent where
  "sample_agent = \<lparr>ba_locus = 5, ba_program = sample_compiled, ba_templates = [''hm'']\<rparr>"

definition no_names :: resolution where
  "no_names = \<lparr>rs_pins = [], rs_resources = []\<rparr>"

definition idle_view :: world_view where
  "idle_view = view_at_epoch (proj_new None) 0 0"

lemma sample_checked: "mind_program_check sample_mind ''a'' = Inr ()"
  by (simp add: mind_program_check_def sample_mind_def max_mind_facts_def max_mind_operators_def max_mind_goals_def max_far_inputs_def
      check_fact_def check_operator_def check_goal_def check_far_def check_refs_def far_name_check_def far_safe_query_def Let_def)

lemma sample_compiles: "compile_program [7] sample_mind = Some (ba_program sample_agent)"
  by (simp add: compile_program_def sample_mind_def sample_agent_def sample_compiled_def compile_operator_def compile_goal_def
      compile_far_def fact_bits_def fact_index_def Let_def)

lemma sample_mask: "fact_mask sample_agent idle_view no_names = Inr 1"
  by (simp add: fact_mask_def sample_agent_def sample_compiled_def eval_query_def)

lemma sample_full:
  "plan_full sample_agent idle_view no_names =
   \<lparr>oc_intent = Some \<lparr>mi_locus = 5, mi_verb = Investigate, mi_target = NoIntent, mi_utility = 10\<rparr>, oc_diagnostic = None, oc_expanded = 1\<rparr>"
  unfolding plan_full_def sample_mask
  by (simp add: sample_agent_def sample_compiled_def search_def start_queue_def search_loop.simps first_node_def all_set_def
      op_effect_def better_def resolve_mind_target_def max_expanded_nodes_def Let_def)

lemma sample_is_compiled: "compiled_agent sample_mind sample_agent idle_view no_names 1"
  using sample_checked sample_compiles sample_mask by (auto simp: compiled_agent_def sample_mind_def)

section \<open>Planning\<close>

text \<open>
  C34: an intent of the Full planner is the first step of a plan over the facts that hold in the view: it leads to an
  unmet goal of the program, has at most \<open>max_search_depth\<close> steps, and no plan within the reach of the search serves
  a more useful goal, or the same use for less.
\<close>

theorem intent_starts_best_plan:
  assumes "compiled_agent p a v r w" and "oc_intent (plan_full a v r) = Some m"
  shows "\<exists>g \<in> set (mp_goals p). \<exists>is. plans_for p (facts_now p (ba_locus a) v r) g is \<and> is \<noteq> [] \<and> length is \<le> max_search_depth
    \<and> mi_locus m = ba_locus a \<and> mi_utility m = goal_utility g \<and> mi_verb m = op_verb (mp_operators p ! hd is)
    \<and> resolve_mind_target (op_target (mp_operators p ! hd is)) (ba_locus a) v r = Inr (mi_target m)
    \<and> (\<forall>h \<in> set (mp_goals p). \<forall>js. plans_for p (facts_now p (ba_locus a) v r) h js
        \<longrightarrow> author_cost (mp_operators p) js \<le> reach_budget p
        \<longrightarrow> goal_utility h < goal_utility g
          \<or> goal_utility h = goal_utility g \<and> min 65535 (author_cost (mp_operators p) is) \<le> author_cost (mp_operators p) js)"
proof -
  have w: "fact_mask a v r = Inr w" using assms(1) by (simp add: compiled_agent_def)
  obtain u k i e where best: "best_goal w (cp_operators (ba_program a)) (cp_goals (ba_program a)) None 0 = Inr (Some (u, k, i), e)"
    and m: "mi_locus m = ba_locus a" "mi_utility m = u" "mi_verb m = cop_verb (cp_operators (ba_program a) ! i)"
      "resolve_mind_target (cop_target (cp_operators (ba_program a) ! i)) (ba_locus a) v r = Inr (mi_target m)"
    using assms(2) by (auto simp: plan_full_def w unbound_def outcome_default_def Let_def split: sum.splits prod.splits option.splits)
  obtain g "is" where g: "g \<in> set (mp_goals p)" "plans_for p (facts_now p (ba_locus a) v r) g is" "is \<noteq> []" "hd is = i"
    "i < length (mp_operators p)" "length is \<le> max_search_depth" "u = goal_utility g"
    "\<forall>h \<in> set (mp_goals p). \<forall>js. plans_for p (facts_now p (ba_locus a) v r) h js \<longrightarrow> author_cost (mp_operators p) js \<le> reach_budget p \<longrightarrow>
        goal_utility h < u \<or> goal_utility h = u \<and> min 65535 (author_cost (mp_operators p) is) \<le> author_cost (mp_operators p) js"
    using best_plan[OF assms(1) best] by blast
  have "same_operator (mp_facts p) (mp_operators p ! i) (cp_operators (ba_program a) ! i)"
    using list_all2_nthD[OF agent_parts(2)[OF assms(1)] g(5)] .
  then have "mi_verb m = op_verb (mp_operators p ! hd is)"
    "resolve_mind_target (op_target (mp_operators p ! hd is)) (ba_locus a) v r = Inr (mi_target m)"
    using m(3,4) g(4) by (simp_all add: same_operator_def)
  then show ?thesis using g m(1,2) by blast
qed

lemma intent_starts_best_plan_witness:
  "\<exists>g \<in> set (mp_goals sample_mind). \<exists>is. plans_for sample_mind (facts_now sample_mind 5 idle_view no_names) g is \<and> is \<noteq> []
    \<and> length is \<le> 8 \<and> goal_utility g = 10 \<and> op_verb (mp_operators sample_mind ! hd is) = Investigate"
proof -
  have "oc_intent (plan_full sample_agent idle_view no_names) =
      Some \<lparr>mi_locus = 5, mi_verb = Investigate, mi_target = NoIntent, mi_utility = 10\<rparr>" by (simp add: sample_full)
  from intent_starts_best_plan[OF sample_is_compiled this] show ?thesis
    by (fastforce simp: sample_agent_def max_search_depth_def)
qed

text \<open>
  C35: a Full planner that says nothing, neither an intent nor a diagnostic, has no unmet goal within reach: every plan
  for a goal costs more than the reach of the search, which is the depth limit, 8, times the cheapest operator, but no
  more than the 65535 that a cost saturates at (\<open>reach_budget\<close>).  A dearer plan may be missed, however short.
\<close>

theorem silence_means_no_plan:
  assumes "compiled_agent p a v r w" and "oc_intent (plan_full a v r) = None" and "oc_diagnostic (plan_full a v r) = None"
    and "h \<in> set (mp_goals p)" and "plans_for p (facts_now p (ba_locus a) v r) h js"
  shows "reach_budget p < author_cost (mp_operators p) js"
proof -
  have w: "fact_mask a v r = Inr w" using assms(1) by (simp add: compiled_agent_def)
  obtain e where "best_goal w (cp_operators (ba_program a)) (cp_goals (ba_program a)) None 0 = Inr (None, e)"
    using assms(2,3) by (auto simp: plan_full_def w unbound_def outcome_default_def Let_def split: sum.splits prod.splits option.splits)
  then show ?thesis using nothing_found[OF assms(1) _ assms(4,5)] by blast
qed

text \<open>
  A chain of eight cheap hops \<open>a, b, \<dots>, i\<close>, a dear hop straight from \<open>a\<close> to \<open>i\<close>, and a last hop from \<open>i\<close> to the goal \<open>j\<close>.
\<close>

definition hop :: "string \<Rightarrow> string \<Rightarrow> nat \<Rightarrow> mind_operator" where
  "hop x y k = \<lparr>op_ident = x @ y, op_requires = [x], op_sets = [y], op_clears = [x], op_cost = k, op_verb = Move, op_target = NoTarget\<rparr>"

definition never :: "string \<Rightarrow> mind_fact" where
  "never x = \<lparr>fact_ident = x, fact_query = Never, far_safe = True\<rparr>"

definition detour_mind :: mind_program where
  "detour_mind =
     \<lparr>mp_beat = None,
      mp_facts = \<lparr>fact_ident = ''a'', fact_query = Always, far_safe = True\<rparr> #
        map never [''b'', ''c'', ''d'', ''e'', ''f'', ''g'', ''h'', ''i'', ''j''],
      mp_operators = [hop ''a'' ''b'' 1, hop ''b'' ''c'' 1, hop ''c'' ''d'' 1, hop ''d'' ''e'' 1, hop ''e'' ''f'' 1, hop ''f'' ''g'' 1,
        hop ''g'' ''h'' 1, hop ''h'' ''i'' 1, hop ''a'' ''i'' 20, hop ''i'' ''j'' 1],
      mp_goals = [\<lparr>goal_ident = ''arrive'', goal_desired = [''j''], goal_utility = 5\<rparr>], mp_far = []\<rparr>"

definition mask_hop :: "facts \<Rightarrow> facts \<Rightarrow> nat \<Rightarrow> compiled_operator" where
  "mask_hop x y k = \<lparr>cop_requires = x, cop_sets = y, cop_clears = x, cop_cost = k, cop_verb = Move, cop_target = NoTarget\<rparr>"

definition detour_agent :: bound_agent where
  "detour_agent =
     \<lparr>ba_locus = 5, ba_program = \<lparr>cp_id = [8], cp_facts = [Always, Never, Never, Never, Never, Never, Never, Never, Never, Never],
        cp_operators = [mask_hop 1 2 1, mask_hop 2 4 1, mask_hop 4 8 1, mask_hop 8 16 1, mask_hop 16 32 1, mask_hop 32 64 1,
          mask_hop 64 128 1, mask_hop 128 256 1, mask_hop 1 256 20, mask_hop 256 512 1],
        cp_goals = [\<lparr>cg_desired = 512, cg_utility = 5\<rparr>], cp_far = []\<rparr>, ba_templates = []\<rparr>"

lemma detour_checked: "mind_program_check detour_mind ''a'' = Inr ()"
  by (simp add: mind_program_check_def detour_mind_def max_mind_facts_def max_mind_operators_def max_mind_goals_def max_far_inputs_def
      check_fact_def check_operator_def check_goal_def check_refs_def far_safe_query_def never_def hop_def Let_def)

lemma detour_compiles: "compile_program [8] detour_mind = Some (ba_program detour_agent)"
  by (simp add: compile_program_def detour_mind_def detour_agent_def compile_operator_def compile_goal_def mask_hop_def
      fact_bits_def fact_index_def never_def hop_def Let_def)

lemma detour_is_compiled: "compiled_agent detour_mind detour_agent idle_view no_names 1"
proof -
  have "fact_mask detour_agent idle_view no_names = Inr 1"
    by (simp add: fact_mask_def detour_agent_def eval_query_def)
  then show ?thesis using detour_checked detour_compiles by (auto simp: compiled_agent_def detour_mind_def hop_def)
qed

lemma detour_search: "search 1 512 (cp_operators (ba_program detour_agent)) = NoPlan 8"
  by (simp add: search_def start_queue_def detour_agent_def mask_hop_def search_loop.simps first_node_def next_node_def all_set_def
      op_effect_def max_expanded_nodes_def max_search_depth_def cheaper_eq_def Let_def)

lemma detour_full: "plan_full detour_agent idle_view no_names = \<lparr>oc_intent = None, oc_diagnostic = None, oc_expanded = 8\<rparr>"
proof -
  have "fact_mask detour_agent idle_view no_names = Inr 1" using detour_is_compiled by (simp add: compiled_agent_def)
  then show ?thesis
    using detour_search by (simp add: plan_full_def detour_agent_def all_set_def outcome_default_def)
qed

lemma detour_now: "facts_now detour_mind 5 idle_view no_names = {''a''}"
proof -
  have "facts_now detour_mind 5 idle_view no_names =
      fact_ident ` set (filter (\<lambda>f. eval_query (fact_query f) 5 idle_view no_names = Inr True) (mp_facts detour_mind))"
    by (auto simp: facts_now_def)
  then show ?thesis by (simp add: detour_mind_def never_def eval_query_def)
qed

lemma detour_goal: "mp_goals detour_mind = [\<lparr>goal_ident = ''arrive'', goal_desired = [''j''], goal_utility = 5\<rparr>]"
  by (simp add: detour_mind_def)

lemma detour_locus: "ba_locus detour_agent = 5"
  by (simp add: detour_agent_def)

lemma detour_plan:
  "plans_for detour_mind (facts_now detour_mind 5 idle_view no_names) \<lparr>goal_ident = ''arrive'', goal_desired = [''j''], goal_utility = 5\<rparr> [8, 9]"
  unfolding detour_now by (simp add: plans_for_def detour_mind_def hop_def)

lemma silence_means_no_plan_witness:
  "reach_budget detour_mind < author_cost (mp_operators detour_mind) [8, 9]"
  by (rule silence_means_no_plan[OF detour_is_compiled, of "\<lparr>goal_ident = ''arrive'', goal_desired = [''j''], goal_utility = 5\<rparr>"])
    (use detour_plan in \<open>simp_all add: detour_full detour_goal detour_locus\<close>)

text \<open>
  C40: the work of the planner is bounded.  A Full call searches once for each unmet goal, and all its searches together
  expand at most \<open>max_expanded_nodes\<close> nodes per goal, so at most 512 for the four goals a checked program may have:
  the bound is per goal, not 128 per call as the constant's comment says.  What a call reports is never more than this
  work, and exactly it when the call ends without a diagnostic.
\<close>

theorem planning_is_bounded:
  assumes "mind_program_check p l = Inr ()" and "compile_program i p = Some (ba_program a)"
  shows "plan_work a v r \<le> length (mp_goals p) * max_expanded_nodes \<and> plan_work a v r \<le> 512
    \<and> oc_expanded (plan_full a v r) \<le> plan_work a v r
    \<and> (oc_diagnostic (plan_full a v r) = None \<longrightarrow> oc_expanded (plan_full a v r) = plan_work a v r)"
proof -
  have len: "length (cp_goals (ba_program a)) = length (mp_goals p)"
    using compile_program_parts(4)[OF assms(2)] by (simp add: list_all2_lengthD)
  have "plan_work a v r \<le> length (mp_goals p) * max_expanded_nodes"
    using goals_work_bound[where gs = "cp_goals (ba_program a)"] len by (simp add: plan_work_def split: sum.split)
  moreover have "length (mp_goals p) * max_expanded_nodes \<le> 4 * 128"
    using checked_program(2)[OF assms(1)] by (simp add: max_expanded_nodes_def)
  ultimately show ?thesis using plan_reports_work[of a v r] by simp
qed

lemma planning_is_bounded_witness:
  "plan_work detour_agent idle_view no_names \<le> 128 \<and> oc_expanded (plan_full detour_agent idle_view no_names) = plan_work detour_agent idle_view no_names"
  using planning_is_bounded[OF detour_checked detour_compiles, of idle_view no_names]
  by (simp add: detour_full detour_goal max_expanded_nodes_def)

section \<open>Far rows\<close>

text \<open>
  the Far planner of a checked program only looks, moves or investigates without a target; the row it acts on has
  all its required facts in the view and the greatest utility among such rows.
\<close>

theorem far_intents_are_tame:
  assumes "compiled_agent p a v r w" and "oc_intent (plan_far a v r) = Some m"
  shows "mi_locus m = ba_locus a \<and> mi_target m = NoIntent
    \<and> (\<exists>row \<in> set (mp_far p). mi_verb m = far_verb row \<and> far_verb row \<in> {Look, Move, Investigate} \<and> mi_utility m = far_utility row
        \<and> set (far_requires row) \<subseteq> facts_now p (ba_locus a) v r
        \<and> (\<forall>row' \<in> set (mp_far p). set (far_requires row') \<subseteq> facts_now p (ba_locus a) v r \<longrightarrow> far_utility row' \<le> far_utility row))"
proof -
  have w: "fact_mask a v r = Inr w" using assms(1) by (simp add: compiled_agent_def)
  obtain c t where pick: "pick_far w (cp_far (ba_program a)) = Some c" and t: "resolve_mind_target (cf_target c) (ba_locus a) v r = Inr t"
    and m: "m = \<lparr>mi_locus = ba_locus a, mi_verb = cf_verb c, mi_target = t, mi_utility = cf_utility c\<rparr>"
    using assms(2) by (auto simp: plan_far_def w unbound_def outcome_default_def split: option.splits sum.splits)
  note best = pick_far_best[OF pick]
  obtain row where row: "row \<in> set (mp_far p)" "fact_bits (mp_facts p) (far_requires row) = Some (cf_requires c)"
    "cf_utility c = far_utility row" "cf_verb c = far_verb row" "cf_target c = far_target row"
    using list_all2_partner(1)[OF agent_parts(4)[OF assms(1)]] best by blast
  obtain l where "mind_program_check p l = Inr ()" using assms(1) by (auto simp: compiled_agent_def)
  then have tame: "far_target row = NoTarget" "far_verb row \<in> {Look, Move, Investigate}"
    using checked_program(6) row(1) by blast+
  have sub: "all_set (cf_requires d) w \<longleftrightarrow> set (far_requires f) \<subseteq> facts_now p (ba_locus a) v r"
    if "fact_bits (mp_facts p) (far_requires f) = Some (cf_requires d)" for d f
    using named_all_set[OF agent_facts_ok[OF assms(1)] that, of w] by (simp add: named_now[OF assms(1)])
  have "far_utility row' \<le> far_utility row"
    if "row' \<in> set (mp_far p)" "set (far_requires row') \<subseteq> facts_now p (ba_locus a) v r" for row'
    using list_all2_partner(2)[OF agent_parts(4)[OF assms(1)] that(1)] best sub that(2) row(3) by metis
  then show ?thesis
    using row(1,3,4) tame best sub[OF row(2)] t m row(5) by (auto simp: resolve_mind_target_def)
qed

lemma sample_far:
  "plan_far sample_agent idle_view no_names =
   \<lparr>oc_intent = Some \<lparr>mi_locus = 5, mi_verb = Look, mi_target = NoIntent, mi_utility = 3\<rparr>, oc_diagnostic = None, oc_expanded = 0\<rparr>"
  unfolding plan_far_def sample_mask
  by (simp add: sample_agent_def sample_compiled_def all_set_def resolve_mind_target_def outcome_default_def)

lemma far_intents_are_tame_witness:
  "\<exists>row \<in> set (mp_far sample_mind). far_verb row = Look \<and> far_utility row = 3"
proof -
  have "oc_intent (plan_far sample_agent idle_view no_names) =
      Some \<lparr>mi_locus = 5, mi_verb = Look, mi_target = NoIntent, mi_utility = 3\<rparr>" by (simp add: sample_far)
  from far_intents_are_tame[OF sample_is_compiled this] show ?thesis by (auto simp: sample_mind_def)
qed

section \<open>Binding\<close>

text \<open>
  binding succeeds exactly on specs that all pass their check, and never panics on them; when distinct programs
  have distinct ids, interning is invisible: the agents are those of the specs whose pin is an actor, each with its own
  program compiled, in the order of their loci.
\<close>

theorem checked_minds_bind:
  assumes "inj_on pid (ms_program ` set specs)"
  shows "if \<forall>m \<in> set specs. mind_spec_check m = Inr ()
    then \<exists>x. try_bind_with pid specs pin res = Inr (Some x)
      \<and> mn_agents x = sort_key ba_locus (List.map_filter (agent_of pid pin) specs)
    else \<exists>es. try_bind_with pid specs pin res = Inl es \<and> es \<noteq> [] \<and> set es = {e. \<exists>m \<in> set specs. mind_spec_check m = Inl e}"
proof (cases "\<forall>m \<in> set specs. mind_spec_check m = Inr ()")
  case True
  have errs: "List.map_filter (\<lambda>m. case mind_spec_check m of Inl e \<Rightarrow> Some e | Inr _ \<Rightarrow> None) specs = []"
    using True by (induction specs) (auto simp: map_filter_simps)
  have "\<forall>m \<in> set specs. \<exists>l. mind_program_check (ms_program m) l = Inr ()"
    using True by (auto simp: mind_spec_check_def rbind_Inr_iff)
  moreover have "interned_ok pid {} []" by (simp add: interned_ok_def)
  ultimately obtain t r where "bind_specs pid pin specs
      ([], [], fold (\<lambda>m. collect_names pin res (ms_program m)) specs \<lparr>rs_pins = [], rs_resources = []\<rparr>) =
      Some (List.map_filter (agent_of pid pin) specs, t, r)"
    using bind_specs_agents[of pid "{}" specs "[]" pin "[]"] assms by fastforce
  then show ?thesis using True errs by (simp add: try_bind_with_def)
next
  case False
  let ?es = "List.map_filter (\<lambda>m. case mind_spec_check m of Inl e \<Rightarrow> Some e | Inr _ \<Rightarrow> None) specs"
  have es: "set ?es = {e. \<exists>m \<in> set specs. mind_spec_check m = Inl e}"
    by (induction specs) (auto simp: map_filter_simps split: sum.splits)
  obtain m e where "m \<in> set specs" "mind_spec_check m = Inl e"
    using False by (metis old.unit.exhaust sum.exhaust)
  then have "?es \<noteq> []" using es by fastforce
  then show ?thesis using False es by (auto simp: try_bind_with_def)
qed

definition sample_spec :: mind_spec where
  "sample_spec = \<lparr>ms_locus = ''a'', ms_program = sample_mind, ms_templates = [''hm'']\<rparr>"

lemma checked_minds_bind_witness:
  "\<exists>x. try_bind_with (\<lambda>p. [7]) [sample_spec] (\<lambda>n. None) (\<lambda>n. None) = Inr (Some x) \<and> mn_agents x = []"
proof -
  have "mind_spec_check sample_spec = Inr ()" using sample_checked by (simp add: mind_spec_check_def sample_spec_def)
  then show ?thesis
    using checked_minds_bind[of "\<lambda>p. [7]" "[sample_spec]" "\<lambda>n. None" "\<lambda>n. None"]
    by (simp add: agent_of_def map_filter_simps)
qed

end
