(* ===== verification/ProveDag.thy ===== *)
theory ProveDag
  imports Codec
begin

text \<open>
  \<open>klotho-prove\<close>: licenses, the content-addressed store, the provenance graph, evidence seals and release rights.
  \<open>H\<close> is blake3.
\<close>

section \<open>Errors, licenses, artifacts\<close>

datatype prove_error =
    UnknownLicense
  | InvalidLicense
  | MissingParent digest
  | MissingBlob digest
  | BlobTooLarge nat
  | CasFull

datatype license = LicUnknown | LicSpdx string string | LicCommissioned string digest

definition license_spdx :: "string \<Rightarrow> string \<Rightarrow> prove_error + license" where
  "license_spdx i c = (if i = [] then Inl InvalidLicense else Inr (LicSpdx i c))"

definition license_commissioned :: "string \<Rightarrow> digest \<Rightarrow> prove_error + license" where
  "license_commissioned holder h = (if holder = [] then Inl InvalidLicense else Inr (LicCommissioned holder h))"

definition is_exportable :: "license \<Rightarrow> bool" where
  "is_exportable l \<longleftrightarrow> l \<noteq> LicUnknown"

definition wash :: "license \<Rightarrow> license \<Rightarrow> license" where
  "wash l parent = (if l = LicUnknown \<or> parent = LicUnknown then LicUnknown else l)"

datatype artifact_kind =
    ClusteredMesh | ArtHull | Texture | Grain | ClipSet | RiteChunk | AffordanceGraph | Embedding | SkinnedMesh
  | Evidence | ProbeGrid | ArtContactTrack

definition artifact_kinds :: "artifact_kind list" where
  "artifact_kinds = [ClusteredMesh, ArtHull, Texture, Grain, ClipSet, RiteChunk, AffordanceGraph, Embedding, SkinnedMesh,
     Evidence, ProbeGrid, ArtContactTrack]"

definition artifact_from_u8 :: "nat \<Rightarrow> artifact_kind option" where
  "artifact_from_u8 v = nth_opt artifact_kinds v"

fun artifact_u8 :: "artifact_kind \<Rightarrow> nat" where
  "artifact_u8 ClusteredMesh = 0"
| "artifact_u8 ArtHull = 1"
| "artifact_u8 Texture = 2"
| "artifact_u8 Grain = 3"
| "artifact_u8 ClipSet = 4"
| "artifact_u8 RiteChunk = 5"
| "artifact_u8 AffordanceGraph = 6"
| "artifact_u8 Embedding = 7"
| "artifact_u8 SkinnedMesh = 8"
| "artifact_u8 Evidence = 9"
| "artifact_u8 ProbeGrid = 10"
| "artifact_u8 ArtContactTrack = 11"

lemma artifact_round_trip [simp]: "artifact_from_u8 (artifact_u8 k) = Some k"
  by (cases k) (simp_all add: artifact_from_u8_def artifact_kinds_def nth_opt_def)

section \<open>Canonical bytes\<close>

definition text_bytes :: "string \<Rightarrow> byte list" where
  "text_bytes s = map (\<lambda>c. of_nat (of_char c)) s"

definition put_bytes :: "byte list \<Rightarrow> byte list" where
  "put_bytes b = put_u32 (length b mod 2 ^ 32) @ b"

fun encode_license :: "license \<Rightarrow> byte list" where
  "encode_license LicUnknown = [0]"
| "encode_license (LicSpdx i c) = 1 # put_bytes (text_bytes i) @ put_bytes (text_bytes c)"
| "encode_license (LicCommissioned holder h) = 2 # put_bytes (text_bytes holder) @ h"

section \<open>The content-addressed store\<close>

definition max_blobs :: nat where "max_blobs = 16384"
definition max_blob_bytes :: nat where "max_blob_bytes = 33554432"

type_synonym cas = "(digest, byte list) btree"

definition check_blob_len :: "nat \<Rightarrow> prove_error + unit" where
  "check_blob_len n = (if n > max_blob_bytes then Inl (BlobTooLarge n) else Inr ())"

definition cas_put :: "(byte list \<Rightarrow> digest) \<Rightarrow> byte list \<Rightarrow> cas \<Rightarrow> prove_error + digest \<times> cas" where
  "cas_put H b c =
     rbind (check_blob_len (length b)) (\<lambda>_.
       let i = H b in
       if bt_has c i then Inr (i, c)
       else if length c \<ge> max_blobs then Inl CasFull
       else Inr (i, bt_insert i b c))"

definition cas_get :: "cas \<Rightarrow> digest \<Rightarrow> byte list option" where
  "cas_get c i = bt_get c i"

section \<open>The provenance graph\<close>

datatype activity = ActCook | ActPin | ActCommit | ActEval

fun activity_u8 :: "activity \<Rightarrow> nat" where
  "activity_u8 ActCook = 0"
| "activity_u8 ActPin = 1"
| "activity_u8 ActCommit = 2"
| "activity_u8 ActEval = 3"

datatype prov_agent = Author | Compiler nat | Kitbash | Model

datatype prov_kind =
    ProvArtifact digest artifact_kind
  | ProvIntent digest
  | ProvActivity activity
  | ProvAgent prov_agent
  | ProvTrace digest

record prov_node =
  pn_id :: digest
  pn_kind :: prov_kind
  pn_license :: license
  pn_parents :: "digest list"

type_synonym dag = "(digest, prov_node) btree"

fun encode_agent :: "prov_agent \<Rightarrow> byte list" where
  "encode_agent Author = [0]"
| "encode_agent (Compiler v) = 1 # put_u32 v"
| "encode_agent Kitbash = [2]"
| "encode_agent Model = [3]"

fun encode_kind :: "prov_kind \<Rightarrow> byte list" where
  "encode_kind (ProvArtifact b k) = 0 # b @ put_u8 (artifact_u8 k)"
| "encode_kind (ProvIntent h) = 1 # h"
| "encode_kind (ProvActivity a) = 2 # put_u8 (activity_u8 a)"
| "encode_kind (ProvAgent a) = 3 # encode_agent a"
| "encode_kind (ProvTrace h) = 4 # h"

definition encode_node :: "prov_kind \<Rightarrow> license \<Rightarrow> digest list \<Rightarrow> byte list" where
  "encode_node k l ps = 1 # encode_kind k @ encode_license l @ put_u32 (length ps mod 2 ^ 32) @ concat ps"

definition hash_node :: "(byte list \<Rightarrow> digest) \<Rightarrow> prov_kind \<Rightarrow> license \<Rightarrow> digest list \<Rightarrow> digest" where
  "hash_node H k l ps = H (encode_node k l ps)"

definition wash_parent :: "dag \<Rightarrow> license \<Rightarrow> digest \<Rightarrow> prove_error + license" where
  "wash_parent d l p = (case bt_get d p of None \<Rightarrow> Inl (MissingParent p) | Some n \<Rightarrow> Inr (wash l (pn_license n)))"

definition dag_insert :: "(byte list \<Rightarrow> digest) \<Rightarrow> prov_kind \<Rightarrow> license \<Rightarrow> digest list \<Rightarrow> dag \<Rightarrow> prove_error + digest \<times> dag" where
  "dag_insert H k l parents d =
     (let ps = remdups_adj (sort parents) in
      rbind (rfold (wash_parent d) l ps) (\<lambda>eff.
        let i = hash_node H k eff ps in
        if bt_has d i then Inr (i, d)
        else Inr (i, bt_insert i \<lparr>pn_id = i, pn_kind = k, pn_license = eff, pn_parents = ps\<rparr> d)))"

definition dag_exportable :: "dag \<Rightarrow> prove_error + unit" where
  "dag_exportable d = (if list_all (\<lambda>(i, n). is_exportable (pn_license n)) d then Inr () else Inl UnknownLicense)"

fun blobs_present :: "dag \<Rightarrow> cas \<Rightarrow> prove_error + unit" where
  "blobs_present [] c = Inr ()"
| "blobs_present ((i, n) # d) c =
     (case pn_kind n of
        ProvArtifact b k \<Rightarrow> if bt_has c b then blobs_present d c else Inl (MissingBlob b)
      | _ \<Rightarrow> blobs_present d c)"

section \<open>Evidence and release rights\<close>

definition evidence_domain :: "byte list" where
  "evidence_domain = text_bytes ''klotho-evidence-v1''"

definition evidence_signature :: "(byte list \<Rightarrow> digest) \<Rightarrow> byte list \<Rightarrow> digest" where
  "evidence_signature H payload = H (evidence_domain @ put_u32 (length payload mod 2 ^ 32) @ payload)"

definition evidence_matches :: "(byte list \<Rightarrow> digest) \<Rightarrow> byte list \<Rightarrow> digest \<Rightarrow> bool" where
  "evidence_matches H payload s \<longleftrightarrow> evidence_signature H payload = s"

datatype rights_route = RouteRetrieval | RouteGenerated | RouteVendor | RouteCommissioned

record release_rights =
  rr_route :: rights_route
  rr_origin :: digest
  rr_terms :: digest
  rr_ownership :: digest
  rr_indemnity :: digest
  rr_source_permission :: digest
  rr_consent :: digest
  rr_restrictions :: digest
  rr_approved_by :: string
  rr_approval :: digest

text \<open>A string of the white space of Unicode, in UTF-8.\<close>

fun blank_bytes :: "byte list \<Rightarrow> bool" where
  "blank_bytes [] = True"
| "blank_bytes (b # bs) =
     (if b = 32 \<or> 9 \<le> b \<and> b \<le> 13 then blank_bytes bs
      else case bs of
          [] \<Rightarrow> False
        | c # cs \<Rightarrow>
            if b = 0xC2 \<and> (c = 0x85 \<or> c = 0xA0) then blank_bytes cs
            else case cs of
                [] \<Rightarrow> False
              | e # es \<Rightarrow>
                  (b = 0xE1 \<and> c = 0x9A \<and> e = 0x80 \<or> b = 0xE2 \<and> c = 0x80 \<and> (0x80 \<le> e \<and> e \<le> 0x8A \<or> e = 0xA8 \<or> e = 0xA9 \<or> e = 0xAF)
                    \<or> b = 0xE2 \<and> c = 0x81 \<and> e = 0x9F \<or> b = 0xE3 \<and> c = 0x80 \<and> e = 0x80) \<and> blank_bytes es)"

definition rights_fields :: "release_rights \<Rightarrow> (string \<times> digest) list" where
  "rights_fields r =
     [(''origin'', rr_origin r), (''terms'', rr_terms r), (''ownership'', rr_ownership r), (''indemnity'', rr_indemnity r),
      (''source_permission'', rr_source_permission r), (''consent'', rr_consent r), (''restrictions'', rr_restrictions r),
      (''approval'', rr_approval r)]"

text \<open>The error is the name of the missing field.\<close>

definition rights_validate :: "release_rights \<Rightarrow> string + unit" where
  "rights_validate r =
     (case find (\<lambda>(f, h). h = hash_zero) (rights_fields r) of
        Some (f, h) \<Rightarrow> Inl f
      | None \<Rightarrow> if blank_bytes (text_bytes (rr_approved_by r)) then Inl ''approved_by'' else Inr ())"

section \<open>The encoding is injective\<close>

definition license_ok :: "license \<Rightarrow> bool" where
  "license_ok l = (case l of LicUnknown \<Rightarrow> True | LicSpdx i c \<Rightarrow> length i < 2 ^ 32 \<and> length c < 2 ^ 32
     | LicCommissioned s h \<Rightarrow> length s < 2 ^ 32 \<and> length h = 32)"

definition kind_ok :: "prov_kind \<Rightarrow> bool" where
  "kind_ok k = (case k of ProvArtifact b a \<Rightarrow> length b = 32 | ProvIntent h \<Rightarrow> length h = 32 | ProvTrace h \<Rightarrow> length h = 32
     | ProvAgent (Compiler v) \<Rightarrow> v < 2 ^ 32 | _ \<Rightarrow> True)"

lemma char_byte_inj: "(of_nat (of_char a) :: byte) = of_nat (of_char b) \<longleftrightarrow> a = b"
proof -
  have "take_bit 8 (of_char c :: nat) = of_char c" for c
    using range_nat_of_char by (intro take_bit_nat_eq_self) auto
  then show ?thesis by (simp add: word_of_nat_eq_iff)
qed

lemma text_bytes_inj: "text_bytes a = text_bytes b \<longleftrightarrow> a = b"
  unfolding text_bytes_def by (rule inj_map_eq_map) (simp add: inj_def char_byte_inj)

lemma length_text_bytes [simp]: "length (text_bytes s) = length s"
  by (simp add: text_bytes_def)

lemma put_u32_inj: "m < 2 ^ 32 \<Longrightarrow> n < 2 ^ 32 \<Longrightarrow> put_u32 m @ x = put_u32 n @ y \<longleftrightarrow> m = n \<and> x = y"
  using c_u32.put_inj[of m n x y] by auto

lemma put_bytes_inj:
  assumes "length a < 2 ^ 32" "length b < 2 ^ 32" "put_bytes a @ x = put_bytes b @ y"
  shows "a = b \<and> x = y"
proof -
  have "put_u32 (length a) @ a @ x = put_u32 (length b) @ b @ y" using assms by (simp add: put_bytes_def)
  then have "length a = length b" "a @ x = b @ y" using put_u32_inj assms(1,2) by blast+
  then show ?thesis by simp
qed

lemma encode_license_inj:
  assumes "license_ok a" "license_ok b" "encode_license a @ x = encode_license b @ y"
  shows "a = b \<and> x = y"
proof (cases a)
  case LicUnknown
  then show ?thesis using assms by (cases b) auto
next
  case (LicSpdx i c)
  then obtain j e where b: "b = LicSpdx j e" using assms(3) by (cases b) auto
  have len: "length (text_bytes i) < 2 ^ 32" "length (text_bytes c) < 2 ^ 32" "length (text_bytes j) < 2 ^ 32" "length (text_bytes e) < 2 ^ 32"
    using assms(1,2) LicSpdx b by (simp_all add: license_ok_def)
  have "put_bytes (text_bytes i) @ (put_bytes (text_bytes c) @ x) = put_bytes (text_bytes j) @ (put_bytes (text_bytes e) @ y)"
    using assms(3) LicSpdx b by simp
  from put_bytes_inj[OF len(1,3) this]
  have i: "text_bytes i = text_bytes j" and "put_bytes (text_bytes c) @ x = put_bytes (text_bytes e) @ y" by auto
  from put_bytes_inj[OF len(2,4) this(2)] i show ?thesis using LicSpdx b by (simp add: text_bytes_inj)
next
  case (LicCommissioned s h)
  then obtain t g where b: "b = LicCommissioned t g" using assms(3) by (cases b) auto
  have "put_bytes (text_bytes s) @ (h @ x) = put_bytes (text_bytes t) @ (g @ y)"
    using assms(3) LicCommissioned b by simp
  then have "text_bytes s = text_bytes t \<and> h @ x = g @ y"
    by (rule put_bytes_inj[rotated 2]) (use assms(1,2) LicCommissioned b in \<open>simp_all add: license_ok_def\<close>)
  then show ?thesis using assms(1,2) LicCommissioned b by (simp add: license_ok_def text_bytes_inj)
qed

lemma activity_u8_inj: "put_u8 (activity_u8 a) @ x = put_u8 (activity_u8 b) @ y \<Longrightarrow> a = b \<and> x = y"
  by (cases a; cases b) (simp_all add: put_u8_def put_uint_def)

lemma artifact_u8_inj:
  assumes "put_u8 (artifact_u8 a) @ x = put_u8 (artifact_u8 b) @ y"
  shows "a = b \<and> x = y"
proof -
  have "artifact_u8 k < 256" for k by (cases k) simp_all
  then have "artifact_u8 a = artifact_u8 b \<and> x = y" using c_u8.put_inj assms by blast
  then show ?thesis using artifact_round_trip[of a] artifact_round_trip[of b] by (metis option.inject)
qed

lemma encode_agent_inj:
  assumes "kind_ok (ProvAgent a)" "kind_ok (ProvAgent b)" "encode_agent a @ x = encode_agent b @ y"
  shows "a = b \<and> x = y"
  using assms put_u32_inj by (cases a; cases b) (auto simp: kind_ok_def)

lemma encode_kind_inj:
  assumes "kind_ok a" "kind_ok b" "encode_kind a @ x = encode_kind b @ y"
  shows "a = b \<and> x = y"
proof (cases a)
  case (ProvArtifact h k)
  then obtain g j where b: "b = ProvArtifact g j" using assms(3) by (cases b) auto
  have "h @ put_u8 (artifact_u8 k) @ x = g @ put_u8 (artifact_u8 j) @ y" "length h = length g"
    using assms ProvArtifact b by (simp_all add: kind_ok_def)
  then show ?thesis using artifact_u8_inj[of k x j y] ProvArtifact b by simp
next
  case (ProvActivity v)
  then obtain u where "b = ProvActivity u" using assms(3) by (cases b) auto
  then show ?thesis using assms(3) ProvActivity activity_u8_inj[of v x u y] by simp
next
  case (ProvAgent v)
  then obtain u where "b = ProvAgent u" using assms(3) by (cases b) auto
  then show ?thesis using assms ProvAgent encode_agent_inj[of v u x y] by simp
next
  case (ProvIntent h)
  then obtain g where "b = ProvIntent g" using assms(3) by (cases b) auto
  then show ?thesis using assms ProvIntent by (simp add: kind_ok_def)
next
  case (ProvTrace h)
  then obtain g where "b = ProvTrace g" using assms(3) by (cases b) auto
  then show ?thesis using assms ProvTrace by (simp add: kind_ok_def)
qed

lemma concat_digests_inj:
  "length ps = length qs \<Longrightarrow> \<forall>p \<in> set ps. length p = n \<Longrightarrow> \<forall>p \<in> set qs. length p = n \<Longrightarrow> concat ps = concat qs \<Longrightarrow> ps = qs"
  by (induction ps qs rule: list_induct2) auto

text \<open>The bytes a node is hashed from say what the node is.\<close>

definition node_ok :: "prov_kind \<Rightarrow> license \<Rightarrow> digest list \<Rightarrow> bool" where
  "node_ok k l ps \<longleftrightarrow> kind_ok k \<and> license_ok l \<and> length ps < 2 ^ 32 \<and> (\<forall>p \<in> set ps. length p = 32)"

lemma encode_node_inj:
  assumes "node_ok k l ps" "node_ok k' l' qs" "encode_node k l ps = encode_node k' l' qs"
  shows "k = k' \<and> l = l' \<and> ps = qs"
proof -
  have k: "k = k' \<and> encode_license l @ put_u32 (length ps) @ concat ps = encode_license l' @ put_u32 (length qs) @ concat qs"
    using assms encode_kind_inj[of k k'] by (auto simp: encode_node_def node_ok_def)
  then have l: "l = l' \<and> put_u32 (length ps) @ concat ps = put_u32 (length qs) @ concat qs"
    using assms(1,2) encode_license_inj[of l l'] by (auto simp: node_ok_def)
  then have "length ps = length qs \<and> concat ps = concat qs" using assms(1,2) put_u32_inj by (simp add: node_ok_def)
  then show ?thesis using k l assms(1,2) concat_digests_inj[of ps qs 32] by (simp add: node_ok_def)
qed

end
