(* ===== verification/ProveProps.thy ===== *)
theory ProveProps
  imports ProveDag
begin

text \<open>
  What the provenance store promises: the graph is closed and acyclic, an unknown license reaches every descendant,
  an id commits to the whole ancestry, and the blob store returns what was put under its hash.
\<close>

section \<open>Graphs that can be built\<close>

definition args_ok :: "prov_kind \<Rightarrow> license \<Rightarrow> digest list \<Rightarrow> bool" where
  "args_ok k l ps \<longleftrightarrow> kind_ok k \<and> license_ok l \<and> length ps < 2 ^ 32 \<and> (\<forall>p \<in> set ps. length p = 32)"

inductive dag_built :: "(byte list \<Rightarrow> digest) \<Rightarrow> dag \<Rightarrow> bool" for H where
  built_new: "dag_built H []"
| built_insert: "dag_built H d \<Longrightarrow> args_ok k l ps \<Longrightarrow> dag_insert H k l ps d = Inr (i, d') \<Longrightarrow> dag_built H d'"

inductive_cases dag_built_cases: "dag_built H d"

definition parent_rel :: "dag \<Rightarrow> (digest \<times> digest) set" where
  "parent_rel d = {(p, i). \<exists>n. bt_get d i = Some n \<and> p \<in> set (pn_parents n)}"

definition node_bytes :: "prov_node \<Rightarrow> byte list" where
  "node_bytes n = encode_node (pn_kind n) (pn_license n) (pn_parents n)"

definition node_sound :: "(byte list \<Rightarrow> digest) \<Rightarrow> dag \<Rightarrow> digest \<Rightarrow> prov_node \<Rightarrow> bool" where
  "node_sound H d i n \<longleftrightarrow> pn_id n = i \<and> H (node_bytes n) = i \<and> node_ok (pn_kind n) (pn_license n) (pn_parents n)
     \<and> sorted (pn_parents n) \<and> distinct (pn_parents n)
     \<and> (\<forall>p \<in> set (pn_parents n). \<exists>m. bt_get d p = Some m \<and> (pn_license m = LicUnknown \<longrightarrow> pn_license n = LicUnknown))"

definition dag_sound :: "(byte list \<Rightarrow> digest) \<Rightarrow> dag \<Rightarrow> bool" where
  "dag_sound H d \<longleftrightarrow> bt_sorted d \<and> (\<forall>i n. bt_get d i = Some n \<longrightarrow> node_sound H d i n) \<and> acyclic (parent_rel d)"

section \<open>One insertion\<close>

definition washed :: "dag \<Rightarrow> license \<Rightarrow> digest list \<Rightarrow> license" where
  "washed d l ps = (if \<exists>p \<in> set ps. \<exists>m. bt_get d p = Some m \<and> pn_license m = LicUnknown then LicUnknown else l)"

lemma wash_fold:
  "rfold (wash_parent d) l ps =
   (case find (\<lambda>p. \<not> bt_has d p) ps of Some p \<Rightarrow> Inl (MissingParent p) | None \<Rightarrow> Inr (washed d l ps))"
proof (induction ps arbitrary: l)
  case (Cons p ps)
  show ?case
  proof (cases "bt_get d p")
    case (Some n)
    have "washed d (wash l (pn_license n)) ps = washed d l (p # ps)"
      using Some by (auto simp: washed_def wash_def)
    moreover have "rfold (wash_parent d) l (p # ps) = rfold (wash_parent d) (wash l (pn_license n)) ps"
      using Some by (simp add: wash_parent_def)
    moreover have "bt_has d p" using Some by (simp add: bt_has_def)
    ultimately show ?thesis by (simp add: Cons split: option.split)
  qed (simp add: wash_parent_def bt_has_def)
qed (simp add: washed_def)

definition parent_list :: "digest list \<Rightarrow> digest list" where
  "parent_list ps = remdups_adj (sort ps)"

lemma sorted_remdups_distinct: "sorted xs \<Longrightarrow> distinct (remdups_adj xs)"
  by (induction xs rule: remdups_adj.induct) (auto simp: remdups_adj_set)

lemma parent_list_facts [simp]: "set (parent_list ps) = set ps" "sorted (parent_list ps)" "distinct (parent_list ps)"
  by (simp_all add: parent_list_def sorted_remdups_adj sorted_remdups_distinct)

lemma parent_list_cong: "set ps = set qs \<Longrightarrow> parent_list ps = parent_list qs"
  by (rule sorted_distinct_set_unique) simp_all

lemma length_parent_list: "length (parent_list ps) \<le> length ps"
  unfolding parent_list_def by (metis length_sort remdups_adj_length)

definition new_node :: "(byte list \<Rightarrow> digest) \<Rightarrow> prov_kind \<Rightarrow> license \<Rightarrow> digest list \<Rightarrow> dag \<Rightarrow> prov_node" where
  "new_node H k l ps d =
     (let qs = parent_list ps; eff = washed d l qs in
      \<lparr>pn_id = hash_node H k eff qs, pn_kind = k, pn_license = eff, pn_parents = qs\<rparr>)"

lemma dag_insert_eq:
  "dag_insert H k l ps d =
   (case find (\<lambda>p. \<not> bt_has d p) (parent_list ps) of
      Some p \<Rightarrow> Inl (MissingParent p)
    | None \<Rightarrow> (let n = new_node H k l ps d in
        Inr (pn_id n, if bt_has d (pn_id n) then d else bt_insert (pn_id n) n d)))"
  unfolding dag_insert_def parent_list_def[symmetric] Let_def wash_fold new_node_def
  by (simp split: option.split)

lemma dag_insert_Inr:
  assumes "dag_insert H k l ps d = Inr (i, d')"
  shows "\<forall>p \<in> set ps. bt_has d p" "i = pn_id (new_node H k l ps d)"
    "d' = (if bt_has d i then d else bt_insert i (new_node H k l ps d) d)"
proof -
  have none: "find (\<lambda>p. \<not> bt_has d p) (parent_list ps) = None"
    using assms by (auto simp: dag_insert_eq split: option.splits)
  then show "\<forall>p \<in> set ps. bt_has d p" by (auto simp: find_None_iff)
  show "i = pn_id (new_node H k l ps d)" "d' = (if bt_has d i then d else bt_insert i (new_node H k l ps d) d)"
    using assms none by (auto simp: dag_insert_eq Let_def)
qed

lemma new_node_simps [simp]:
  "pn_kind (new_node H k l ps d) = k" "pn_parents (new_node H k l ps d) = parent_list ps"
  "pn_license (new_node H k l ps d) = washed d l (parent_list ps)"
  "H (node_bytes (new_node H k l ps d)) = pn_id (new_node H k l ps d)"
  by (simp_all add: new_node_def Let_def node_bytes_def hash_node_def)

lemma washed_ok: "license_ok l \<Longrightarrow> license_ok (washed d l ps)"
  by (simp add: washed_def license_ok_def)

lemma acyclic_leaf:
  assumes "acyclic r" "\<And>j. (i, j) \<notin> r" "finite A" "i \<notin> A"
  shows "acyclic (r \<union> (\<lambda>p. (p, i)) ` A)"
  using assms(3,4)
proof (induction A rule: finite_induct)
  case (insert p A)
  have "(i, p) \<notin> (r \<union> (\<lambda>p. (p, i)) ` A)\<^sup>*"

  proof
    assume "(i, p) \<in> (r \<union> (\<lambda>p. (p, i)) ` A)\<^sup>*"
    then show False
    proof (cases rule: converse_rtranclE)
      case base
      then show ?thesis using insert.prems by simp
    next
      case (step j)
      then show ?thesis using insert.prems assms(2) by auto
    qed
  qed
  then show ?case using insert.IH insert.prems by (simp add: acyclic_insert)
qed (simp add: assms(1))

lemma dag_sound_insert:
  assumes "dag_sound H d" "args_ok k l ps" "dag_insert H k l ps d = Inr (i, d')"
  shows "dag_sound H d'"
proof (cases "bt_has d i")
  case True
  then show ?thesis using assms(1) dag_insert_Inr(3)[OF assms(3)] by simp
next
  case False
  let ?n = "new_node H k l ps d"
  have parents: "\<forall>p \<in> set ps. bt_has d p" by (rule dag_insert_Inr(1)[OF assms(3)])
  have i: "pn_id ?n = i" using dag_insert_Inr(2)[OF assms(3)] by simp
  have d': "d' = bt_insert i ?n d" using dag_insert_Inr(3)[OF assms(3)] False by simp
  have get: "bt_get d' j = (if j = i then Some ?n else bt_get d j)" for j by (simp add: d' bt_get_insert)
  have fresh: "bt_get d i = None" using False by (simp add: bt_has_def)
  have keep: "bt_get d j = Some m \<Longrightarrow> bt_get d' j = Some m" for j m using fresh by (auto simp: get)
  have "node_sound H d' i ?n"
  proof -
    have "node_ok k (washed d l (parent_list ps)) (parent_list ps)"
      using assms(2) washed_ok length_parent_list[of ps] by (simp add: node_ok_def args_ok_def)
    moreover have "\<exists>m. bt_get d' p = Some m \<and> (pn_license m = LicUnknown \<longrightarrow> washed d l (parent_list ps) = LicUnknown)"
      if p: "p \<in> set ps" for p
    proof -
      obtain m where m: "bt_get d p = Some m" using parents p by (auto simp: bt_has_def)
      then have "pn_license m = LicUnknown \<longrightarrow> washed d l (parent_list ps) = LicUnknown" using p by (auto simp: washed_def)
      then show ?thesis using keep[OF m] by blast
    qed
    ultimately show ?thesis using i by (simp add: node_sound_def)
  qed
  moreover have "node_sound H d' j m" if j: "bt_get d j = Some m" for j m
  proof -
    have "node_sound H d j m" using assms(1) j by (simp add: dag_sound_def)
    then show ?thesis using keep by (simp add: node_sound_def) blast
  qed
  moreover have "acyclic (parent_rel d')"
  proof -
    have rel: "parent_rel d' = parent_rel d \<union> (\<lambda>p. (p, i)) ` set ps"
      by (auto simp: parent_rel_def get fresh)
    have no_child: "(i, j) \<notin> parent_rel d" for j
    proof
      assume "(i, j) \<in> parent_rel d"
      then obtain m where m: "bt_get d j = Some m" "i \<in> set (pn_parents m)" by (auto simp: parent_rel_def)
      then have "node_sound H d j m" using assms(1) by (simp add: dag_sound_def)
      then show False using m(2) fresh by (auto simp: node_sound_def)
    qed
    have "i \<notin> set ps" using parents fresh by (auto simp: bt_has_def)
    moreover have "acyclic (parent_rel d)" using assms(1) by (simp add: dag_sound_def)
    ultimately show ?thesis using acyclic_leaf[of "parent_rel d" i "set ps"] no_child by (simp add: rel)
  qed
  moreover have "bt_sorted d'" using assms(1) by (simp add: dag_sound_def d')
  ultimately show ?thesis by (auto simp: dag_sound_def get split: if_splits)
qed

lemma dag_built_sound: "dag_built H d \<Longrightarrow> dag_sound H d"
proof (induction rule: dag_built.induct)
  case built_new
  then show ?case by (simp add: dag_sound_def parent_rel_def acyclic_def)
next
  case built_insert
  then show ?case using dag_sound_insert by blast
qed

section \<open>What an insertion returns\<close>

definition stored_bytes :: "dag \<Rightarrow> byte list set" where
  "stored_bytes d = {node_bytes n | i n. bt_get d i = Some n}"

lemma same_bytes:
  assumes "node_sound H d i n" "node_ok (pn_kind m) (pn_license m) (pn_parents m)" "pn_id m = i" "node_bytes n = node_bytes m"
  shows "n = m"
  using assms encode_node_inj[of "pn_kind n" "pn_license n" "pn_parents n" "pn_kind m" "pn_license m" "pn_parents m"]
  by (simp add: node_sound_def node_bytes_def)

lemma same_node:
  assumes "dag_sound H d" "dag_sound H e" "inj_on H (stored_bytes d \<union> stored_bytes e)" "bt_get d i = Some n" "bt_get e i = Some m"
  shows "n = m"
proof -
  have s: "node_sound H d i n" "node_sound H e i m" using assms by (auto simp: dag_sound_def)
  then have "H (node_bytes n) = H (node_bytes m)" by (simp add: node_sound_def)
  moreover have "node_bytes n \<in> stored_bytes d" "node_bytes m \<in> stored_bytes e" using assms(4,5) by (auto simp: stored_bytes_def)
  ultimately have "node_bytes n = node_bytes m" using inj_onD[OF assms(3)] by blast
  then show ?thesis using same_bytes[OF s(1)] s(2) by (simp add: node_sound_def)
qed

lemma new_node_ok: "args_ok k l ps \<Longrightarrow> node_ok k (washed d l (parent_list ps)) (parent_list ps)"
  using washed_ok length_parent_list[of ps] by (simp add: node_ok_def args_ok_def)

lemma washed_cong: "(\<And>p. p \<in> set ps \<Longrightarrow> bt_get d p = bt_get e p) \<Longrightarrow> set ps = set qs \<Longrightarrow> washed d l ps = washed e l qs"
  by (simp add: washed_def)

lemma insert_stores:
  assumes "dag_sound H d" "inj_on H (insert (node_bytes (new_node H k l ps d)) (stored_bytes d))" "args_ok k l ps"
    and "\<forall>p \<in> set ps. bt_has d p"
  shows "\<exists>i d'. dag_insert H k l ps d = Inr (i, d')
    \<and> bt_get d' i = Some \<lparr>pn_id = i, pn_kind = k, pn_license = washed d l ps, pn_parents = parent_list ps\<rparr>
    \<and> (\<forall>j n. bt_get d j = Some n \<longrightarrow> bt_get d' j = Some n) \<and> dag_insert H k l ps d' = Inr (i, d')"
proof -
  let ?n = "new_node H k l ps d"
  let ?i = "pn_id ?n"
  let ?d = "if bt_has d ?i then d else bt_insert ?i ?n d"
  have none: "find (\<lambda>p. \<not> bt_has d p) (parent_list ps) = None" using assms(4) by (auto simp: find_None_iff)
  then have run: "dag_insert H k l ps d = Inr (?i, ?d)" by (simp add: dag_insert_eq Let_def)
  have got: "bt_get ?d ?i = Some ?n"
  proof (cases "bt_has d ?i")
    case True
    then obtain m where m: "bt_get d ?i = Some m" by (auto simp: bt_has_def)
    have s: "node_sound H d ?i m" using assms(1) m by (simp add: dag_sound_def)
    then have "H (node_bytes m) = H (node_bytes ?n)" by (simp add: node_sound_def)
    moreover have "node_bytes m \<in> stored_bytes d" using m by (auto simp: stored_bytes_def)
    ultimately have "node_bytes m = node_bytes ?n" using inj_onD[OF assms(2)] by blast
    then have "m = ?n" by (intro same_bytes[OF s]) (use new_node_ok[OF assms(3)] in simp_all)
    then show ?thesis using True m by simp
  qed (simp add: bt_get_insert)
  have keep: "bt_get d j = Some n \<Longrightarrow> bt_get ?d j = Some n" for j n by (auto simp: bt_get_insert bt_has_def)
  have same: "bt_get d p = bt_get ?d p" if "p \<in> set ps" for p
    using assms(4) that keep by (auto simp: bt_has_def)
  have eff: "washed ?d l (parent_list ps) = washed d l (parent_list ps)"
    by (rule washed_cong) (use same in auto)
  then have "new_node H k l ps ?d = ?n" by (simp only: new_node_def Let_def)
  moreover have "find (\<lambda>p. \<not> bt_has ?d p) (parent_list ps) = None"
    using assms(4) keep by (auto simp: find_None_iff bt_has_def)
  ultimately have again: "dag_insert H k l ps ?d = Inr (?i, ?d)"
    using got by (simp only: dag_insert_eq Let_def option.case bt_has_def) simp
  have "?n = \<lparr>pn_id = ?i, pn_kind = k, pn_license = washed d l ps, pn_parents = parent_list ps\<rparr>"
    using washed_cong[of "parent_list ps" d d ps l] by (simp add: new_node_def Let_def)
  then show ?thesis using run got keep again by metis
qed

lemma insert_refused:
  assumes "\<not> (\<forall>p \<in> set ps. bt_has d p)"
  shows "dag_insert H k l ps d = Inl (MissingParent (Min {p \<in> set ps. \<not> bt_has d p}))"
proof -
  have first: "find Q xs = Some (Min {p \<in> set xs. Q p})" if "sorted xs" "\<exists>p \<in> set xs. Q p" for Q and xs :: "digest list"
    using that
  proof (induction xs)
    case (Cons x xs)
    show ?case
    proof (cases "Q x")
      case True
      have "Min {p \<in> set (x # xs). Q p} = x" by (rule Min_eqI) (use True Cons.prems(1) in auto)
      then show ?thesis using True by simp
    next
      case False
      then have "{p \<in> set (x # xs). Q p} = {p \<in> set xs. Q p}" by auto
      then show ?thesis using False Cons by simp
    qed
  qed simp
  have "find (\<lambda>p. \<not> bt_has d p) (parent_list ps) = Some (Min {p \<in> set (parent_list ps). \<not> bt_has d p})"
    by (rule first) (use assms in auto)
  then show ?thesis by (simp add: dag_insert_eq)
qed

section \<open>The blob store\<close>

inductive cas_built :: "(byte list \<Rightarrow> digest) \<Rightarrow> cas \<Rightarrow> bool" for H where
  cas_built_new: "cas_built H []"
| cas_built_put: "cas_built H c \<Longrightarrow> cas_put H b c = Inr (i, c') \<Longrightarrow> cas_built H c'"

definition cas_sound :: "(byte list \<Rightarrow> digest) \<Rightarrow> cas \<Rightarrow> bool" where
  "cas_sound H c \<longleftrightarrow> bt_sorted c \<and> length c \<le> max_blobs \<and> (\<forall>i b. bt_get c i = Some b \<longrightarrow> H b = i \<and> length b \<le> max_blob_bytes)"

lemma cas_built_sound: "cas_built H c \<Longrightarrow> cas_sound H c"
proof (induction rule: cas_built.induct)
  case (cas_built_put c b i c')
  then show ?case
    by (auto simp: cas_sound_def cas_put_def check_blob_len_def rbind_Inr_iff Let_def bt_get_insert length_bt_insert bt_has_def
        split: if_splits)
qed (simp add: cas_sound_def)

end
