(* ===== verification/ProveClaims.thy ===== *)
theory ProveClaims
  imports ProveProps
begin

text \<open>The properties of the provenance store, with the two-node graph the witnesses use.\<close>

section \<open>A sample graph\<close>

declare le_bytes.simps [simp del]

definition size_hash :: "byte list \<Rightarrow> digest" where
  "size_hash b = le_bytes 32 (length b)"

definition mit :: license where
  "mit = LicSpdx ''MIT'' []"

definition author_node :: prov_node where
  "author_node = new_node size_hash (ProvAgent Author) mit [] []"

definition author_dag :: dag where
  "author_dag = [(pn_id author_node, author_node)]"

definition intent_node :: prov_node where
  "intent_node = new_node size_hash (ProvIntent hash_zero) mit [pn_id author_node] author_dag"

definition intent_dag :: dag where
  "intent_dag = bt_insert (pn_id intent_node) intent_node author_dag"

lemma length_size_hash [simp]: "length (size_hash b) = 32"
  unfolding size_hash_def by (rule length_le_bytes)

lemma mit_bytes: "length (encode_license mit) = 12"
  by (simp add: mit_def put_bytes_def put_u32_def)

lemma author_node_bytes: "node_bytes author_node = encode_node (ProvAgent Author) mit []"
  by (simp add: author_node_def node_bytes_def washed_def parent_list_def)

lemma author_bytes: "length (node_bytes author_node) = 19"
  by (simp add: author_node_bytes encode_node_def put_u32_def mit_bytes)

lemma author_id: "pn_id author_node = le_bytes 32 19"
proof -
  have "pn_id author_node = size_hash (node_bytes author_node)" by (simp add: author_node_def)
  then show ?thesis by (simp add: size_hash_def author_bytes)
qed

lemma author_license: "pn_license author_node = mit"
  by (simp add: author_node_def washed_def)

lemma intent_license: "pn_license intent_node = mit"
  by (simp add: intent_node_def washed_def author_dag_def author_license mit_def)

lemma intent_node_bytes: "node_bytes intent_node = encode_node (ProvIntent hash_zero) mit [pn_id author_node]"
  using intent_license by (simp add: intent_node_def node_bytes_def parent_list_def)

lemma intent_bytes: "length (node_bytes intent_node) = 82"
  by (simp add: intent_node_bytes encode_node_def put_u32_def mit_bytes hash_zero_def author_id length_le_bytes del: le_bytes.simps)

lemma intent_id: "pn_id intent_node = le_bytes 32 82"
proof -
  have "pn_id intent_node = size_hash (node_bytes intent_node)" by (simp add: intent_node_def)
  then show ?thesis by (simp add: size_hash_def intent_bytes)
qed

lemma ids_differ: "(le_bytes 32 82 :: digest) \<noteq> le_bytes 32 19"
proof
  assume "(le_bytes 32 82 :: digest) = le_bytes 32 19"
  then have "le_value (le_bytes 32 82) = le_value (le_bytes 32 19)" by (rule arg_cong)
  then show False using le_value_bytes[of 82 32] le_value_bytes[of 19 32] by (simp del: le_bytes.simps)
qed

lemma ids_apart: "pn_id intent_node \<noteq> pn_id author_node"
  unfolding intent_id author_id by (rule ids_differ)

lemma author_built: "dag_built size_hash author_dag"
proof -
  have "dag_insert size_hash (ProvAgent Author) mit [] [] = Inr (pn_id author_node, author_dag)"
    unfolding dag_insert_eq author_node_def[symmetric] by (simp add: parent_list_def bt_has_def author_dag_def Let_def)
  then show ?thesis
    by (rule built_insert[OF built_new, rotated]) (simp add: args_ok_def kind_ok_def license_ok_def mit_def)
qed

lemma intent_insert: "dag_insert size_hash (ProvIntent hash_zero) mit [pn_id author_node] author_dag = Inr (pn_id intent_node, intent_dag)"
proof -
  have "\<not> bt_has author_dag (pn_id intent_node)" using ids_differ by (simp add: bt_has_def author_dag_def author_id intent_id)
  moreover have "bt_has author_dag (pn_id author_node)" by (simp add: bt_has_def author_dag_def)
  ultimately show ?thesis
    unfolding dag_insert_eq intent_node_def[symmetric] intent_dag_def by (simp add: parent_list_def Let_def)
qed

lemma intent_args: "args_ok (ProvIntent hash_zero) mit [pn_id author_node]"
  by (simp add: args_ok_def kind_ok_def license_ok_def mit_def hash_zero_def author_id)

lemma intent_built: "dag_built size_hash intent_dag"
  by (rule built_insert[OF author_built intent_args intent_insert])

lemma intent_get:
  "bt_get intent_dag i = (if i = pn_id intent_node then Some intent_node else if i = pn_id author_node then Some author_node else None)"
  by (auto simp: intent_dag_def bt_get_insert author_dag_def)

section \<open>The graph\<close>

text \<open>
  C36: every graph built by insertion is a directed acyclic graph of content-addressed nodes: each node stands under the
  hash of its own bytes, its parents are listed once, in order, and are nodes of the graph.
\<close>

theorem provenance_is_a_dag:
  assumes "dag_built H d"
  shows "acyclic (parent_rel d) \<and> (\<forall>i n. bt_get d i = Some n \<longrightarrow> pn_id n = i \<and> H (node_bytes n) = i
    \<and> sorted (pn_parents n) \<and> distinct (pn_parents n) \<and> (\<forall>p \<in> set (pn_parents n). bt_has d p))"
  using dag_built_sound[OF assms] unfolding dag_sound_def node_sound_def bt_has_def by fastforce

lemma provenance_is_a_dag_witness: "acyclic (parent_rel intent_dag) \<and> size_hash (node_bytes intent_node) = pn_id intent_node"
  using provenance_is_a_dag[OF intent_built] by (metis intent_get)

text \<open>
  an unknown license cannot be laundered: a node whose license is exportable has only exportable ancestors, however
  long the derivation; so the export gate, which looks at each node alone, passes exactly the graphs without one.
\<close>

theorem unknown_license_spreads:
  assumes "dag_built H d" and "(j, i) \<in> (parent_rel d)\<^sup>*" and "bt_get d i = Some n" and "is_exportable (pn_license n)"
  shows "\<exists>m. bt_get d j = Some m \<and> is_exportable (pn_license m)"
  using assms(2)
proof (induction rule: converse_rtrancl_induct)
  case base
  then show ?case using assms(3,4) by blast
next
  case (step k j)
  then obtain m where m: "bt_get d j = Some m" "is_exportable (pn_license m)" by blast
  have "node_sound H d j m" using dag_built_sound[OF assms(1)] m(1) by (simp add: dag_sound_def)
  moreover have "k \<in> set (pn_parents m)" using step.hyps(1) m(1) by (auto simp: parent_rel_def)
  ultimately show ?case using m(2) by (auto simp: node_sound_def is_exportable_def)
qed

lemma unknown_license_spreads_witness: "\<exists>m. bt_get intent_dag (pn_id author_node) = Some m \<and> is_exportable (pn_license m)"
proof (rule unknown_license_spreads[OF intent_built])
  show "bt_get intent_dag (pn_id intent_node) = Some intent_node" by (simp add: intent_get)
  moreover have "pn_parents intent_node = [pn_id author_node]" by (simp add: intent_node_def parent_list_def)
  ultimately show "(pn_id author_node, pn_id intent_node) \<in> (parent_rel intent_dag)\<^sup>*"
    by (auto simp: parent_rel_def intro!: r_into_rtrancl)
  show "is_exportable (pn_license intent_node)" by (simp add: intent_license is_exportable_def mit_def)
qed

text \<open>
  C37: an id commits to the whole history: when the hash does not collide on the nodes two graphs store, a node both
  hold under one id has the same ancestors in both, with the same kinds, licenses and parents.
\<close>

theorem provenance_commits:
  assumes "dag_built H d" and "dag_built H e" and "inj_on H (stored_bytes d \<union> stored_bytes e)"
    and "bt_has d i" and "bt_has e i" and "(j, i) \<in> (parent_rel d)\<^sup>*"
  shows "bt_has d j \<and> bt_get e j = bt_get d j"
  using assms(6)
proof (induction rule: converse_rtrancl_induct)
  case base
  then show ?case
    using same_node[OF dag_built_sound[OF assms(1)] dag_built_sound[OF assms(2)] assms(3)] assms(4,5)
    unfolding bt_has_def by (metis not_None_eq)
next
  case (step k j)
  then obtain n where n: "bt_get d j = Some n" "bt_get e j = Some n" by (auto simp: bt_has_def)
  then have k: "k \<in> set (pn_parents n)" using step.hyps(1) by (auto simp: parent_rel_def)
  have "node_sound H d j n" "node_sound H e j n"
    using dag_built_sound[OF assms(1)] dag_built_sound[OF assms(2)] n by (simp_all add: dag_sound_def)
  then have "bt_has d k" "bt_has e k" using k by (auto simp: node_sound_def bt_has_def)
  then show ?case
    using same_node[OF dag_built_sound[OF assms(1)] dag_built_sound[OF assms(2)] assms(3)]
    unfolding bt_has_def by (metis not_None_eq)
qed

lemma intent_stored: "stored_bytes intent_dag = {node_bytes intent_node, node_bytes author_node}"
proof (intro set_eqI iffI)
  fix x assume "x \<in> stored_bytes intent_dag"
  then show "x \<in> {node_bytes intent_node, node_bytes author_node}" by (auto simp: stored_bytes_def intent_get split: if_splits)
next
  fix x assume "x \<in> {node_bytes intent_node, node_bytes author_node}"
  moreover have "bt_get intent_dag (pn_id intent_node) = Some intent_node" "bt_get intent_dag (pn_id author_node) = Some author_node"
    using ids_apart by (simp_all add: intent_get)
  ultimately show "x \<in> stored_bytes intent_dag" unfolding stored_bytes_def by blast
qed

lemma size_hash_inj: "inj_on size_hash (stored_bytes intent_dag)"
proof -
  note intent_stored
  moreover have "size_hash (node_bytes intent_node) \<noteq> size_hash (node_bytes author_node)"
    unfolding size_hash_def author_bytes intent_bytes by (rule ids_differ)
  ultimately show ?thesis by (auto simp: inj_on_def)
qed

lemma provenance_commits_witness: "bt_has intent_dag (pn_id intent_node) \<and> bt_get intent_dag (pn_id intent_node) = Some intent_node"
proof -
  have h: "bt_has intent_dag (pn_id intent_node)" by (simp add: bt_has_def intent_get)
  have "inj_on size_hash (stored_bytes intent_dag \<union> stored_bytes intent_dag)" using size_hash_inj by simp
  from provenance_commits[OF intent_built intent_built this h h rtrancl_refl]
  show ?thesis by (simp add: intent_get)
qed

text \<open>
  insertion is by content.  With every parent present and no collision it stores the node it describes under the
  returned id and keeps every other node; the parents count as a set; doing it again changes nothing.  With a parent
  missing it is refused, naming the least one.
\<close>

theorem insertion_is_by_content:
  assumes "dag_built H d" and "inj_on H (insert (node_bytes (new_node H k l ps d)) (stored_bytes d))" and "args_ok k l ps"
  shows "(if \<forall>p \<in> set ps. bt_has d p
      then \<exists>i d'. dag_insert H k l ps d = Inr (i, d')
        \<and> bt_get d' i = Some \<lparr>pn_id = i, pn_kind = k, pn_license = washed d l ps, pn_parents = parent_list ps\<rparr>
        \<and> (\<forall>j n. bt_get d j = Some n \<longrightarrow> bt_get d' j = Some n)
        \<and> dag_insert H k l ps d' = Inr (i, d')
      else dag_insert H k l ps d = Inl (MissingParent (Min {p \<in> set ps. \<not> bt_has d p})))
    \<and> (\<forall>qs. set qs = set ps \<longrightarrow> dag_insert H k l qs d = dag_insert H k l ps d)"
proof (intro conjI allI impI)
  fix qs assume "set qs = set ps"
  then have same: "parent_list qs = parent_list ps" by (rule parent_list_cong)
  then have "new_node H k l qs d = new_node H k l ps d" by (simp only: new_node_def)
  then show "dag_insert H k l qs d = dag_insert H k l ps d" by (simp only: dag_insert_eq same)
next
  show "if \<forall>p \<in> set ps. bt_has d p
      then \<exists>i d'. dag_insert H k l ps d = Inr (i, d')
        \<and> bt_get d' i = Some \<lparr>pn_id = i, pn_kind = k, pn_license = washed d l ps, pn_parents = parent_list ps\<rparr>
        \<and> (\<forall>j n. bt_get d j = Some n \<longrightarrow> bt_get d' j = Some n)
        \<and> dag_insert H k l ps d' = Inr (i, d')
      else dag_insert H k l ps d = Inl (MissingParent (Min {p \<in> set ps. \<not> bt_has d p}))"
  proof (cases "\<forall>p \<in> set ps. bt_has d p")
    case True
    then show ?thesis using insert_stores[OF dag_built_sound[OF assms(1)] assms(2) assms(3)] by simp
  next
    case False
    then show ?thesis using insert_refused[of ps d H k l] by simp
  qed
qed

lemma insertion_is_by_content_witness:
  "\<exists>i d'. dag_insert size_hash (ProvIntent hash_zero) mit [pn_id author_node] author_dag = Inr (i, d')
    \<and> dag_insert size_hash (ProvIntent hash_zero) mit [pn_id author_node] d' = Inr (i, d')"
proof -
  have "stored_bytes author_dag = {node_bytes author_node}" by (auto simp: stored_bytes_def author_dag_def)
  moreover have "node_bytes (new_node size_hash (ProvIntent hash_zero) mit [pn_id author_node] author_dag) = node_bytes intent_node"
    by (simp add: intent_node_def)
  moreover note intent_stored
  ultimately have "inj_on size_hash (insert (node_bytes (new_node size_hash (ProvIntent hash_zero) mit [pn_id author_node] author_dag))
      (stored_bytes author_dag))" using size_hash_inj by simp
  moreover have "\<forall>p \<in> set [pn_id author_node]. bt_has author_dag p" by (simp add: bt_has_def author_dag_def)
  ultimately show ?thesis using insertion_is_by_content[OF author_built _ intent_args] by (metis (no_types, lifting))
qed

section \<open>The blob store\<close>

text \<open>
  the blob store is content-addressed and bounded: every stored blob stands under its own hash and is at most 32
  MiB, there are at most 16384, and without a collision what is put is read back under the returned id while every
  other blob stays; putting it again is free.
\<close>

theorem cas_returns_what_was_put:
  assumes "cas_built H c" and "cas_put H b c = Inr (i, c')" and "\<And>j x. cas_get c j = Some x \<Longrightarrow> H x = H b \<Longrightarrow> x = b"
  shows "i = H b \<and> cas_get c' i = Some b \<and> (\<forall>j x. cas_get c j = Some x \<longrightarrow> cas_get c' j = Some x)
    \<and> (\<forall>j x. cas_get c' j = Some x \<longrightarrow> H x = j \<and> length x \<le> max_blob_bytes) \<and> length c' \<le> max_blobs
    \<and> cas_put H b c' = Inr (i, c')"
proof -
  have len: "length b \<le> max_blob_bytes"
    using assms(2) by (auto simp: cas_put_def check_blob_len_def rbind_Inr_iff split: if_splits)
  have i: "i = H b" and c': "c' = (if bt_has c (H b) then c else bt_insert (H b) b c)"
    using assms(2) by (auto simp: cas_put_def check_blob_len_def rbind_Inr_iff Let_def split: if_splits)
  note sound = cas_built_sound[OF assms(1)] cas_built_sound[OF cas_built_put[OF assms(1,2)]]
  have got: "cas_get c' (H b) = Some b"
  proof (cases "bt_has c (H b)")
    case True
    then obtain x where x: "bt_get c (H b) = Some x" by (auto simp: bt_has_def)
    then have "H x = H b" using sound(1) by (auto simp: cas_sound_def)
    then show ?thesis using assms(3)[of "H b" x] x True c' by (simp add: cas_get_def)
  qed (simp add: c' cas_get_def bt_get_insert)
  moreover have "\<forall>j x. cas_get c j = Some x \<longrightarrow> cas_get c' j = Some x"
    by (auto simp: c' cas_get_def bt_get_insert bt_has_def)
  moreover have "cas_put H b c' = Inr (i, c')"
  proof -
    have "check_blob_len (length b) = Inr ()" using len by (simp add: check_blob_len_def)
    moreover have "bt_has c' (H b)" using got by (simp add: bt_has_def cas_get_def)
    ultimately show ?thesis by (simp add: cas_put_def i Let_def)
  qed
  moreover have "(\<forall>j x. cas_get c' j = Some x \<longrightarrow> H x = j \<and> length x \<le> max_blob_bytes) \<and> length c' \<le> max_blobs"
    using sound(2) unfolding cas_sound_def cas_get_def by blast
  ultimately show ?thesis using i by blast
qed

lemma cas_returns_what_was_put_witness:
  "\<exists>i c'. cas_put size_hash [1, 2, 3] [] = Inr (i, c') \<and> cas_get c' i = Some [1, 2, 3]"
proof -
  have put: "cas_put size_hash [1, 2, 3] [] = Inr (size_hash [1, 2, 3], [(size_hash [1, 2, 3], [1, 2, 3])])"
    by (simp add: cas_put_def check_blob_len_def max_blob_bytes_def max_blobs_def bt_has_def Let_def)
  have "cas_get [(size_hash [1, 2, 3], [1, 2, 3])] (size_hash [1, 2, 3]) = Some [1, 2, 3]"
    by (rule cas_returns_what_was_put[OF cas_built_new put, THEN conjunct2, THEN conjunct1]) (simp add: cas_get_def)
  then show ?thesis using put by blast
qed

end
