(* ===== verification/NetPacket.thy ===== *)
theory NetPacket
  imports ProveDag TraceEvent IrIntent
begin

text \<open>
  \<open>klotho-net/src/packet.rs\<close> and \<open>error.rs\<close>: the frozen packets, their little-endian payloads and the length-prefixed
  frames.  A reader gets the unread suffix; \<open>Reader.take\<close> past the end is \<open>NetTruncated\<close>.
\<close>

section \<open>Errors and packets\<close>

datatype net_error =
    NetTruncated | NetOversize | NetUnknownTag | NetBadIntent | NetBadEvent | NetBadSignature | NetBadKey | NetKeygen
  | NetHelloMismatch | NetThirdPlayer | NetServerFull | NetDesync | NetHostOnly | NetNotJoined | NetDisconnected
  | NetIo string | NetReplay string

definition max_packet :: nat where "max_packet = 2 ^ 20"
definition max_events :: nat where "max_events = 4096"
definition max_net_blob :: nat where "max_net_blob = max_packet - 256"
definition max_intent :: nat where "max_intent = 64 * 1024"
definition max_pose_delta :: nat where "max_pose_delta = 64 * 1024"
definition max_interest :: nat where "max_interest = 65535"

definition stamp_token :: "byte list" where
  "stamp_token = text_bytes ''klotho-net/0.2.0''"

definition compiler_stamp :: "(byte list \<Rightarrow> digest) \<Rightarrow> digest" where
  "compiler_stamp H = H stamp_token"

record interest_dict =
  id_gen :: nat
  id_places :: "sigil list"
  id_sigils :: "sigil list"

record pose_full =
  pf_ix :: nat
  pf_pose :: pose
  pf_vel :: vel3

record pose_delta_entry =
  pe_ix :: nat
  pe_dpose :: "int list"

datatype pose_block = FullBlock "pose_full list" | DeltaBlock "pose_delta_entry list"

record signed_intent =
  si_signature :: "byte list"
  si_value :: player_intent

datatype packet =
    Hello digest nat digest "byte list" nat nat
  | IntentPkt signed_intent
  | TraceDelta tick nat "trace_event list"
  | Nack tick reject_reason
  | Snapshot tick nat digest digest "sigil option" "byte list"
  | InterestPkt interest_dict
  | PoseDelta tick nat pose_block
  | Resync tick nat digest

section \<open>Frames\<close>

definition encode_frame :: "byte list \<Rightarrow> net_error + byte list" where
  "encode_frame payload = (if length payload > max_packet then Inl NetOversize else Inr (put_u32 (length payload) @ payload))"

definition decode_frame :: "byte list \<Rightarrow> net_error + byte list" where
  "decode_frame bs =
     rbind (get_u32 NetTruncated bs) (\<lambda>(n, rest).
       if n > max_packet then Inl NetOversize
       else if length rest \<noteq> n then Inl NetTruncated
       else Inr rest)"

section \<open>Fields\<close>

definition get_capped :: "nat \<Rightarrow> (net_error, nat) reader" where
  "get_capped cap = andthen (get_u32 NetTruncated) (\<lambda>n. if n > cap then refuse NetOversize else give n)"

definition net_put_pose :: "pose \<Rightarrow> byte list" where
  "net_put_pose p = put_i32 (px p) @ put_i32 (py p) @ put_i32 (pz p) @ put_i32 (pyaw p) @ put_i32 (ppitch p) @ put_i32 (proll p)"

definition net_get_pose :: "(net_error, pose) reader" where
  "net_get_pose =
     andthen (get_i32 NetTruncated) (\<lambda>x. andthen (get_i32 NetTruncated) (\<lambda>y. andthen (get_i32 NetTruncated) (\<lambda>z.
     andthen (get_i32 NetTruncated) (\<lambda>w. andthen (get_i32 NetTruncated) (\<lambda>p. andthen (get_i32 NetTruncated) (\<lambda>r.
       give \<lparr>px = x, py = y, pz = z, pyaw = w, ppitch = p, proll = r\<rparr>))))))"

definition net_put_vel :: "vel3 \<Rightarrow> byte list" where
  "net_put_vel v = put_i32 (v3x v) @ put_i32 (v3y v) @ put_i32 (v3z v)"

definition net_get_vel :: "(net_error, vel3) reader" where
  "net_get_vel =
     andthen (get_i32 NetTruncated) (\<lambda>x. andthen (get_i32 NetTruncated) (\<lambda>y. andthen (get_i32 NetTruncated) (\<lambda>z.
       give \<lparr>v3x = x, v3y = y, v3z = z\<rparr>)))"

definition put_pose_full :: "pose_full \<Rightarrow> byte list" where
  "put_pose_full e = put_u16 (pf_ix e) @ net_put_pose (pf_pose e) @ net_put_vel (pf_vel e)"

definition get_pose_full :: "(net_error, pose_full) reader" where
  "get_pose_full = andthen (get_u16 NetTruncated) (\<lambda>i. andthen net_get_pose (\<lambda>p. andthen net_get_vel (\<lambda>v.
     give \<lparr>pf_ix = i, pf_pose = p, pf_vel = v\<rparr>)))"

definition put_pose_entry :: "pose_delta_entry \<Rightarrow> byte list" where
  "put_pose_entry e = put_u16 (pe_ix e) @ concat (map put_i16 (pe_dpose e))"

definition get_pose_entry :: "(net_error, pose_delta_entry) reader" where
  "get_pose_entry = andthen (get_u16 NetTruncated) (\<lambda>i. andthen (get_n 6 (get_i16 NetTruncated)) (\<lambda>d.
     give \<lparr>pe_ix = i, pe_dpose = d\<rparr>))"

fun encode_pose_block :: "pose_block \<Rightarrow> net_error + byte list" where
  "encode_pose_block (FullBlock es) =
     (if length es > 65535 then Inl NetOversize
      else Inr (put_u8 0 @ put_u16 (length es) @ concat (map put_pose_full es)))"
| "encode_pose_block (DeltaBlock es) =
     (if length es > 65535 then Inl NetOversize
      else Inr (put_u8 1 @ put_u16 (length es) @ concat (map put_pose_entry es)))"

definition decode_pose_block :: "(net_error, pose_block) reader" where
  "decode_pose_block = andthen (get_u8 NetTruncated) (\<lambda>k.
     if k = 0 then andthen (get_u16 NetTruncated) (\<lambda>n. andthen (get_n n get_pose_full) (\<lambda>es. give (FullBlock es)))
     else if k = 1 then andthen (get_u16 NetTruncated) (\<lambda>n. andthen (get_n n get_pose_entry) (\<lambda>es. give (DeltaBlock es)))
     else refuse NetUnknownTag)"

section \<open>Reject reasons\<close>

fun encode_reject :: "reject_reason \<Rightarrow> byte list" where
  "encode_reject (RLaw i) = put_u8 1 @ put_u16 i"
| "encode_reject (RMissingAffordance i) = put_u8 2 @ put_u16 i"
| "encode_reject RTimingMiss = put_u8 3"
| "encode_reject (RResource i) = put_u8 4 @ put_u8 i"
| "encode_reject RHallucinatedFact = put_u8 5"
| "encode_reject RStaleEpoch = put_u8 6"
| "encode_reject RUnclaimedAgency = put_u8 7"
| "encode_reject RWitnessMismatch = put_u8 8"
| "encode_reject RWrongHull = put_u8 9"
| "encode_reject RConflict = put_u8 10"
| "encode_reject RBudget = put_u8 11"
| "encode_reject RTooManyIslands = put_u8 12"
| "encode_reject RIslandTooLarge = put_u8 13"
| "encode_reject RResidency = put_u8 14"
| "encode_reject REpochMismatch = put_u8 15"

definition decode_reject :: "(net_error, reject_reason) reader" where
  "decode_reject = andthen (get_u8 NetTruncated) (\<lambda>t.
     if t = 1 then andthen (get_u16 NetTruncated) (\<lambda>i. give (RLaw i))
     else if t = 2 then andthen (get_u16 NetTruncated) (\<lambda>i. give (RMissingAffordance i))
     else if t = 3 then give RTimingMiss
     else if t = 4 then andthen (get_u8 NetTruncated) (\<lambda>i. give (RResource i))
     else if t = 5 then give RHallucinatedFact
     else if t = 6 then give RStaleEpoch
     else if t = 7 then give RUnclaimedAgency
     else if t = 8 then give RWitnessMismatch
     else if t = 9 then give RWrongHull
     else if t = 10 then give RConflict
     else if t = 11 then give RBudget
     else if t = 12 then give RTooManyIslands
     else if t = 13 then give RIslandTooLarge
     else if t = 14 then give RResidency
     else if t = 15 then give REpochMismatch
     else refuse NetUnknownTag)"

section \<open>Player intents\<close>

text \<open>A name is a Rust string, kept as its UTF-8 bytes; \<open>core::str::from_utf8\<close> refuses any other bytes.\<close>

definition utf8_cont :: "byte \<Rightarrow> bool" where
  "utf8_cont b \<longleftrightarrow> 0x80 \<le> b \<and> b \<le> 0xBF"

fun valid_utf8 :: "byte list \<Rightarrow> bool" where
  "valid_utf8 [] = True"
| "valid_utf8 (a # bs) =
     (if a \<le> 0x7F then valid_utf8 bs
      else if 0xC2 \<le> a \<and> a \<le> 0xDF then (case bs of b # r \<Rightarrow> utf8_cont b \<and> valid_utf8 r | _ \<Rightarrow> False)
      else if 0xE0 \<le> a \<and> a \<le> 0xEF then
        (case bs of b # c # r \<Rightarrow>
            (if a = 0xE0 then 0xA0 \<le> b \<and> b \<le> 0xBF else if a = 0xED then 0x80 \<le> b \<and> b \<le> 0x9F else utf8_cont b)
            \<and> utf8_cont c \<and> valid_utf8 r
          | _ \<Rightarrow> False)
      else if 0xF0 \<le> a \<and> a \<le> 0xF4 then
        (case bs of b # c # d # r \<Rightarrow>
            (if a = 0xF0 then 0x90 \<le> b \<and> b \<le> 0xBF else if a = 0xF4 then 0x80 \<le> b \<and> b \<le> 0x8F else utf8_cont b)
            \<and> utf8_cont c \<and> utf8_cont d \<and> valid_utf8 r
          | _ \<Rightarrow> False)
      else False)"

definition bytes_text :: "byte list \<Rightarrow> string" where
  "bytes_text b = map (\<lambda>w. char_of (unat w)) b"

fun encode_target :: "intent_target \<Rightarrow> net_error + byte list" where
  "encode_target NoIntent = Inr (put_u8 0)"
| "encode_target (AtSigil s) = Inr (put_u8 1 @ put_sigil s)"
| "encode_target (AtName n) =
     (let b = text_bytes n in
      if length b > max_intent then Inl NetOversize else Inr (put_u8 2 @ put_u32 (length b) @ b))"

definition decode_target :: "(net_error, intent_target) reader" where
  "decode_target = andthen (get_u8 NetTruncated) (\<lambda>t.
     if t = 0 then give NoIntent
     else if t = 1 then andthen (get_sigil NetTruncated) (\<lambda>s. give (AtSigil s))
     else if t = 2 then andthen (get_capped max_intent) (\<lambda>n. andthen (take_bytes NetTruncated n) (\<lambda>b.
       if valid_utf8 b then give (AtName (bytes_text b)) else refuse NetBadIntent))
     else refuse NetBadIntent)"

definition put_analog :: "analog \<Rightarrow> byte list" where
  "put_analog a = put_u16 (an_phase a) @ put_i16 (an_stick_x a) @ put_i16 (an_stick_z a) @ put_i32 (an_look_yaw a) @ put_i32 (an_look_pitch a)"

definition get_analog :: "(net_error, analog) reader" where
  "get_analog = andthen (get_u16 NetTruncated) (\<lambda>p. andthen (get_i16 NetTruncated) (\<lambda>x. andthen (get_i16 NetTruncated) (\<lambda>z.
     andthen (get_i32 NetTruncated) (\<lambda>y. andthen (get_i32 NetTruncated) (\<lambda>l.
       give \<lparr>an_phase = p, an_stick_x = x, an_stick_z = z, an_look_yaw = y, an_look_pitch = l\<rparr>)))))"

definition encode_player_intent :: "player_intent \<Rightarrow> net_error + byte list" where
  "encode_player_intent p =
     rbind (encode_target (pi_target p)) (\<lambda>t.
       if length (pi_claimed p) > 16 then Inl NetOversize
       else let b = put_u8 1 @ put_u8 (pi_player p) @ put_u64 (pi_at p) @ put_u8 (verb_as_u8 (pi_verb p)) @ t
               @ put_analog (pi_analog p) @ put_u8 (length (pi_claimed p))
               @ concat (map (\<lambda>c. put_u8 (channel_as_u8 c)) (pi_claimed p)) @ put_u8 0 in
         if length b > max_intent then Inl NetOversize else Inr b)"

definition need_intent :: "'a option \<Rightarrow> (net_error, 'a) reader" where
  "need_intent x = (case x of Some y \<Rightarrow> give y | None \<Rightarrow> refuse NetBadIntent)"

definition get_channel :: "(net_error, channel) reader" where
  "get_channel = andthen (get_u8 NetTruncated) (\<lambda>c. need_intent (channel_from_u8 c))"

definition read_player_intent :: "(net_error, player_intent) reader" where
  "read_player_intent =
     andthen (get_u8 NetTruncated) (\<lambda>v. if v \<noteq> 1 then refuse NetBadIntent else
     andthen (get_u8 NetTruncated) (\<lambda>player. andthen (get_u64 NetTruncated) (\<lambda>t.
     andthen (get_u8 NetTruncated) (\<lambda>vb. andthen (need_intent (verb_from_u8 vb)) (\<lambda>verb.
     andthen decode_target (\<lambda>target. andthen get_analog (\<lambda>analog.
     andthen (get_u8 NetTruncated) (\<lambda>n. if n > 16 then refuse NetOversize else
     andthen (get_n n get_channel) (\<lambda>claimed.
     andthen (get_u8 NetTruncated) (\<lambda>assist. if assist \<noteq> 0 then refuse NetBadIntent else
       give \<lparr>pi_player = player, pi_at = t, pi_verb = verb, pi_target = target, pi_analog = analog, pi_claimed = claimed\<rparr>))))))))))"

definition decode_player_intent :: "byte list \<Rightarrow> net_error + player_intent" where
  "decode_player_intent bs =
     (if length bs > max_intent then Inl NetOversize
      else rbind (read_player_intent bs) (\<lambda>(p, rest). if rest \<noteq> [] then Inl NetBadIntent else Inr p))"

section \<open>Packets\<close>

definition put_event :: "trace_event \<Rightarrow> byte list" where
  "put_event e = put_u32 (length (encode_event e) mod 2 ^ 32) @ encode_event e"

definition get_event :: "(net_error, trace_event) reader" where
  "get_event = andthen (get_capped max_packet) (\<lambda>m. andthen (take_bytes NetTruncated m) (\<lambda>b.
     case decode_event b of Inl _ \<Rightarrow> refuse NetBadEvent | Inr e \<Rightarrow> give e))"

fun encode_payload :: "packet \<Rightarrow> net_error + byte list" where
  "encode_payload (Hello canon epoch build key slot hz) =
     Inr (put_u8 1 @ canon @ put_u64 epoch @ build @ key @ put_u8 slot @ put_u8 hz)"
| "encode_payload (IntentPkt s) =
     rbind (encode_player_intent (si_value s)) (\<lambda>p.
       if length p > max_intent then Inl NetOversize
       else Inr (put_u8 2 @ si_signature s @ put_u32 (length p) @ p))"
| "encode_payload (TraceDelta since g es) =
     (if length es > max_events then Inl NetOversize
      else Inr (put_u8 3 @ put_u64 since @ put_u16 g @ put_u32 (length es) @ concat (map put_event es)))"
| "encode_payload (Nack t r) = Inr (put_u8 4 @ put_u64 t @ encode_reject r)"
| "encode_payload (Snapshot t epoch canon prefix place blob) =
     (if length blob > max_net_blob then Inl NetOversize
      else Inr (put_u8 5 @ put_u64 t @ put_u64 epoch @ canon @ prefix @ put_opt_sigil place @ put_u32 (length blob) @ blob))"
| "encode_payload (InterestPkt d) =
     (if length (id_places d) > max_interest \<or> length (id_sigils d) > max_interest then Inl NetOversize
      else Inr (put_u8 6 @ put_u16 (id_gen d) @ put_u32 (length (id_places d)) @ concat (map put_sigil (id_places d))
        @ put_u32 (length (id_sigils d)) @ concat (map put_sigil (id_sigils d))))"
| "encode_payload (PoseDelta t g block) =
     rbind (encode_pose_block block) (\<lambda>p.
       let b = put_u8 7 @ put_u64 t @ put_u16 g @ p in
       if length b > max_pose_delta then Inl NetOversize else Inr b)"
| "encode_payload (Resync t epoch prefix) = Inr (put_u8 8 @ put_u64 t @ put_u64 epoch @ prefix)"

definition encode_packet :: "packet \<Rightarrow> net_error + byte list" where
  "encode_packet p = rbind (encode_payload p) (\<lambda>b. if length b > max_packet then Inl NetOversize else Inr b)"

definition get_hello :: "(net_error, packet) reader" where
  "get_hello = andthen (take_bytes NetTruncated 32) (\<lambda>canon. andthen (get_u64 NetTruncated) (\<lambda>epoch.
     andthen (take_bytes NetTruncated 32) (\<lambda>build. andthen (take_bytes NetTruncated 32) (\<lambda>key.
     andthen (get_u8 NetTruncated) (\<lambda>slot. andthen (get_u8 NetTruncated) (\<lambda>hz.
       give (Hello canon epoch build key slot hz)))))))"

definition get_intent :: "(net_error, packet) reader" where
  "get_intent = andthen (take_bytes NetTruncated 64) (\<lambda>s. andthen (get_capped max_intent) (\<lambda>n.
     andthen (take_bytes NetTruncated n) (\<lambda>b. case decode_player_intent b of
         Inl e \<Rightarrow> refuse e
       | Inr v \<Rightarrow> give (IntentPkt \<lparr>si_signature = s, si_value = v\<rparr>))))"

definition get_trace_delta :: "(net_error, packet) reader" where
  "get_trace_delta = andthen (get_u64 NetTruncated) (\<lambda>since. andthen (get_u16 NetTruncated) (\<lambda>g.
     andthen (get_capped max_events) (\<lambda>n. andthen (get_n n get_event) (\<lambda>es. give (TraceDelta since g es)))))"

definition get_place :: "(net_error, sigil option) reader" where
  "get_place = andthen (get_u8 NetTruncated) (\<lambda>k.
     if k = 0 then give None
     else if k = 1 then andthen (get_sigil NetTruncated) (\<lambda>s. give (Some s))
     else refuse NetUnknownTag)"

definition get_snapshot :: "(net_error, packet) reader" where
  "get_snapshot = andthen (get_u64 NetTruncated) (\<lambda>t. andthen (get_u64 NetTruncated) (\<lambda>epoch.
     andthen (take_bytes NetTruncated 32) (\<lambda>canon. andthen (take_bytes NetTruncated 32) (\<lambda>prefix.
     andthen get_place (\<lambda>place.
     andthen (get_capped max_net_blob) (\<lambda>n. andthen (take_bytes NetTruncated n) (\<lambda>blob.
       give (Snapshot t epoch canon prefix place blob))))))))"

definition get_interest :: "(net_error, packet) reader" where
  "get_interest = andthen (get_u16 NetTruncated) (\<lambda>g.
     andthen (get_capped max_interest) (\<lambda>np. andthen (get_n np (get_sigil NetTruncated)) (\<lambda>places.
     andthen (get_capped max_interest) (\<lambda>ns. andthen (get_n ns (get_sigil NetTruncated)) (\<lambda>sigils.
       give (InterestPkt \<lparr>id_gen = g, id_places = places, id_sigils = sigils\<rparr>))))))"

definition get_payload :: "nat \<Rightarrow> nat \<Rightarrow> (net_error, packet) reader" where
  "get_payload len tag =
    (if tag = 1 then get_hello
     else if tag = 2 then get_intent
     else if tag = 3 then get_trace_delta
     else if tag = 4 then andthen (get_u64 NetTruncated) (\<lambda>t. andthen decode_reject (\<lambda>r. give (Nack t r)))
     else if tag = 5 then get_snapshot
     else if tag = 6 then get_interest
     else if tag = 7 then
       (if len > max_pose_delta then refuse NetOversize
        else andthen (get_u64 NetTruncated) (\<lambda>t. andthen (get_u16 NetTruncated) (\<lambda>g. andthen decode_pose_block (\<lambda>b.
          give (PoseDelta t g b)))))
     else if tag = 8 then andthen (get_u64 NetTruncated) (\<lambda>t. andthen (get_u64 NetTruncated) (\<lambda>epoch.
       andthen (take_bytes NetTruncated 32) (\<lambda>prefix. give (Resync t epoch prefix))))
     else refuse NetUnknownTag)"

definition decode_packet :: "byte list \<Rightarrow> net_error + packet" where
  "decode_packet bs =
     (if length bs > max_packet then Inl NetOversize
      else rbind (andthen (get_u8 NetTruncated) (get_payload (length bs)) bs)
        (\<lambda>(p, rest). if rest \<noteq> [] then Inl NetTruncated else Inr p))"

end
