(* ===== verification/NetPacketProps.thy ===== *)
theory NetPacketProps
  imports NetPacket TraceProps
begin

text \<open>
  Every field of a packet has a codec; their composition gives the round trip of packets and, but for events of the
  first snapshot layout, that each packet has one wire form.
\<close>

section \<open>Fields\<close>

lemma get_capped_put: "n \<le> cap \<Longrightarrow> n < 2 ^ 32 \<Longrightarrow> get_capped cap (put_u32 n @ rest) = Inr (n, rest)"
  by (simp add: get_capped_def andthen_def give_def codec_simps)

lemma get_capped_sound: "get_capped cap bs = Inr (n, rest) \<Longrightarrow> n \<le> cap \<and> n < 2 ^ 32 \<and> bs = put_u32 n @ rest"
  by (auto simp: get_capped_def andthen_Inr_iff give_def refuse_def split: if_splits dest!: codec_dests)

lemmas [codec_simps] = get_capped_put
lemmas [codec_dests] = get_capped_sound

interpretation c_pose: codec pose_ok net_put_pose net_get_pose
  by unfold_locales (auto simp: pose_ok_def net_put_pose_def net_get_pose_def andthen_def give_def codec_simps rbind_Inr_iff
      dest!: codec_dests)

interpretation c_vel: codec vel_ok net_put_vel net_get_vel
  by unfold_locales (auto simp: vel_ok_def net_put_vel_def net_get_vel_def andthen_def give_def codec_simps rbind_Inr_iff
      dest!: codec_dests)

lemmas [codec_simps] = c_pose.get_put c_vel.get_put
lemmas [codec_dests] = c_pose.get_sound c_vel.get_sound

definition full_ok :: "pose_full \<Rightarrow> bool" where
  "full_ok e \<longleftrightarrow> pf_ix e < 65536 \<and> pose_ok (pf_pose e) \<and> vel_ok (pf_vel e)"

definition entry_ok :: "pose_delta_entry \<Rightarrow> bool" where
  "entry_ok e \<longleftrightarrow> pe_ix e < 65536 \<and> length (pe_dpose e) = 6 \<and> list_all in_i16 (pe_dpose e)"

interpretation c_full: codec full_ok put_pose_full get_pose_full
  by unfold_locales (auto simp: full_ok_def put_pose_full_def get_pose_full_def andthen_def give_def codec_simps rbind_Inr_iff
      dest!: codec_dests)

interpretation c_entry: codec entry_ok put_pose_entry get_pose_entry
proof unfold_locales
  fix x rest assume "entry_ok x"
  then show "get_pose_entry (put_pose_entry x @ rest) = Inr (x, rest)"
    using c_i16.get_n_put[of "pe_dpose x" NetTruncated rest]
    by (simp add: entry_ok_def put_pose_entry_def get_pose_entry_def andthen_def give_def codec_simps list_all_iff del: get_n.simps)
next
  fix bs x rest assume "get_pose_entry bs = Inr (x, rest)"
  then show "entry_ok x \<and> bs = put_pose_entry x @ rest"
    by (auto simp: entry_ok_def put_pose_entry_def get_pose_entry_def andthen_Inr_iff give_def list_all_iff dest!: codec_dests)
qed

lemmas [codec_simps] = c_full.get_n_put c_entry.get_n_put
lemmas [codec_dests] = c_full.get_n_sound c_entry.get_n_sound

text \<open>The total writers, without the size checks.\<close>

fun block_bytes :: "pose_block \<Rightarrow> byte list" where
  "block_bytes (FullBlock es) = put_u8 0 @ put_u16 (length es) @ concat (map put_pose_full es)"
| "block_bytes (DeltaBlock es) = put_u8 1 @ put_u16 (length es) @ concat (map put_pose_entry es)"

fun block_ok :: "pose_block \<Rightarrow> bool" where
  "block_ok (FullBlock es) \<longleftrightarrow> length es \<le> 65535 \<and> list_all full_ok es"
| "block_ok (DeltaBlock es) \<longleftrightarrow> length es \<le> 65535 \<and> list_all entry_ok es"

interpretation c_block: codec block_ok block_bytes decode_pose_block
proof unfold_locales
  fix x rest assume "block_ok x"
  then show "decode_pose_block (block_bytes x @ rest) = Inr (x, rest)"
    by (cases x) (simp_all add: decode_pose_block_def andthen_def give_def codec_simps list_all_iff)
next
  fix bs x rest assume "decode_pose_block bs = Inr (x, rest)"
  then show "block_ok x \<and> bs = block_bytes x @ rest"
    by (auto simp: decode_pose_block_def andthen_Inr_iff give_def refuse_def list_all_iff split: if_splits dest!: codec_dests)
qed

definition reject_ok :: "reject_reason \<Rightarrow> bool" where
  "reject_ok r = (case r of RLaw i \<Rightarrow> i < 65536 | RMissingAffordance i \<Rightarrow> i < 65536 | RResource i \<Rightarrow> i < 256 | _ \<Rightarrow> True)"

interpretation c_reject: codec reject_ok encode_reject decode_reject
proof unfold_locales
  fix x rest assume "reject_ok x"
  then show "decode_reject (encode_reject x @ rest) = Inr (x, rest)"
    by (cases x) (simp_all add: reject_ok_def decode_reject_def andthen_def give_def codec_simps)
next
  fix bs x rest assume "decode_reject bs = Inr (x, rest)"
  then show "reject_ok x \<and> bs = encode_reject x @ rest"
    by (auto simp: reject_ok_def decode_reject_def andthen_Inr_iff give_def refuse_def split: if_splits dest!: codec_dests)
qed

interpretation c_place: codec "\<lambda>_. True" put_opt_sigil get_place
proof unfold_locales
  have t: "get_u8 NetTruncated (0 # r) = Inr (0, r)" "get_u8 NetTruncated (1 # r) = Inr (1, r)" for r
    using c_u8.get_put[of 0 NetTruncated r] c_u8.get_put[of 1 NetTruncated r] by (simp_all add: put_u8_def put_uint_def)
  fix x rest
  show "get_place (put_opt_sigil x @ rest) = Inr (x, rest)"
    by (cases x) (simp_all add: get_place_def put_opt_sigil_def andthen_def give_def t c_sigil.get_put)
next
  fix bs x rest assume "get_place bs = Inr (x, rest)"
  then show "True \<and> bs = put_opt_sigil x @ rest"
    by (auto simp: put_u8_def put_uint_def get_place_def andthen_Inr_iff give_def refuse_def put_opt_sigil_def split: if_splits
        dest!: c_u8.get_sound c_sigil.get_sound)
qed

lemmas [codec_simps] = c_block.get_put c_reject.get_put c_place.get_put
lemmas [codec_dests] = c_block.get_sound c_reject.get_sound c_place.get_sound

section \<open>Player intents\<close>

fun target_bytes :: "intent_target \<Rightarrow> byte list" where
  "target_bytes NoIntent = put_u8 0"
| "target_bytes (AtSigil s) = put_u8 1 @ put_sigil s"
| "target_bytes (AtName n) = put_u8 2 @ put_u32 (length n) @ text_bytes n"

definition target_ok :: "intent_target \<Rightarrow> bool" where
  "target_ok t = (case t of AtName n \<Rightarrow> valid_utf8 (text_bytes n) \<and> length n \<le> max_intent | _ \<Rightarrow> True)"

lemma bytes_text_id [simp]: "bytes_text (text_bytes n) = n"
proof -
  have "unat (of_nat (of_char c) :: byte) = of_char c" for c
    using range_nat_of_char by (simp add: unat_of_nat)
  then show ?thesis by (simp add: bytes_text_def text_bytes_def comp_def)
qed

lemma text_bytes_id [simp]: "text_bytes (bytes_text b) = b"
proof -
  have "(of_nat (of_char (char_of (unat w) :: char)) :: byte) = w" for w
  proof -
    have "unat w < 2 ^ LENGTH(8)" by (rule unsigned_less)
    then show ?thesis by (simp add: take_bit_nat_eq_self del: unsigned_less)
  qed
  then show ?thesis by (simp add: bytes_text_def text_bytes_def comp_def)
qed

lemma length_bytes_text [simp]: "length (bytes_text b) = length b"
  by (simp add: bytes_text_def)

lemma max_intent_u32: "n \<le> max_intent \<Longrightarrow> n < 2 ^ 32"
  by (simp add: max_intent_def)

interpretation c_target: codec target_ok target_bytes decode_target
proof unfold_locales
  fix x rest assume "target_ok x"
  then show "decode_target (target_bytes x @ rest) = Inr (x, rest)"
    using max_intent_u32 by (cases x) (simp_all add: target_ok_def decode_target_def andthen_def give_def codec_simps)
next
  fix bs x rest assume "decode_target bs = Inr (x, rest)"
  then show "target_ok x \<and> bs = target_bytes x @ rest"
    by (auto simp: target_ok_def decode_target_def andthen_Inr_iff give_def refuse_def split: if_splits dest!: codec_dests)
qed

definition analog_ok :: "analog \<Rightarrow> bool" where
  "analog_ok a \<longleftrightarrow> an_phase a < 65536 \<and> in_i16 (an_stick_x a) \<and> in_i16 (an_stick_z a) \<and> in_i32 (an_look_yaw a) \<and> in_i32 (an_look_pitch a)"

interpretation c_analog: codec analog_ok put_analog get_analog
  by unfold_locales (auto simp: analog_ok_def put_analog_def get_analog_def andthen_def give_def codec_simps rbind_Inr_iff
      dest!: codec_dests)

lemma channel_byte: "channel_as_u8 c < 256"
  by (cases c) simp_all

lemma channel_from_u8_eq: "channel_from_u8 v = Some c \<Longrightarrow> v = channel_as_u8 c"
  by (auto simp: channel_from_u8_def split: if_splits)

lemma verb_from_u8_eq: "verb_from_u8 v = Some c \<Longrightarrow> v = verb_as_u8 c"
  by (auto simp: verb_from_u8_def nth_opt_def nth_Cons' numeral_eq_Suc split: if_splits)

lemma verb_byte: "verb_as_u8 v < 256"
  by (cases v) simp_all

interpretation c_channel: codec "\<lambda>_. True" "\<lambda>c. put_u8 (channel_as_u8 c)" get_channel
  by unfold_locales (auto simp: get_channel_def need_intent_def andthen_def give_def refuse_def codec_simps rbind_Inr_iff channel_byte
      split: option.splits dest!: codec_dests channel_from_u8_eq)

lemmas [codec_simps] = c_target.get_put c_analog.get_put c_channel.get_n_put
lemmas [codec_dests] = c_target.get_sound c_analog.get_sound c_channel.get_n_sound

definition intent_bytes :: "player_intent \<Rightarrow> byte list" where
  "intent_bytes p = put_u8 1 @ put_u8 (pi_player p) @ put_u64 (pi_at p) @ put_u8 (verb_as_u8 (pi_verb p)) @ target_bytes (pi_target p)
     @ put_analog (pi_analog p) @ put_u8 (length (pi_claimed p)) @ concat (map (\<lambda>c. put_u8 (channel_as_u8 c)) (pi_claimed p)) @ put_u8 0"

definition intent_ok :: "player_intent \<Rightarrow> bool" where
  "intent_ok p \<longleftrightarrow> pi_player p < 256 \<and> pi_at p < 2 ^ 64 \<and> target_ok (pi_target p) \<and> analog_ok (pi_analog p) \<and> length (pi_claimed p) \<le> 16"

interpretation c_intent: codec intent_ok intent_bytes read_player_intent
proof unfold_locales
  fix x rest assume "intent_ok x"
  then show "read_player_intent (intent_bytes x @ rest) = Inr (x, rest)"
    by (simp add: intent_ok_def intent_bytes_def read_player_intent_def need_intent_def andthen_def give_def codec_simps verb_byte)
next
  fix bs x rest assume "read_player_intent bs = Inr (x, rest)"
  then show "intent_ok x \<and> bs = intent_bytes x @ rest"
    by (auto simp: intent_ok_def intent_bytes_def read_player_intent_def need_intent_def andthen_Inr_iff give_def refuse_def
        split: if_splits option.splits dest!: codec_dests verb_from_u8_eq)
qed

lemma encode_target_eq: "target_ok t \<Longrightarrow> encode_target t = Inr (target_bytes t)"
  by (cases t) (simp_all add: target_ok_def)

lemma encode_target_Inr: "encode_target t = Inr b \<Longrightarrow> b = target_bytes t"
  by (cases t) (auto simp: Let_def split: if_splits)

lemma encode_intent_Inr: "encode_player_intent p = Inr b \<Longrightarrow> b = intent_bytes p \<and> length b \<le> max_intent"
  by (auto simp: encode_player_intent_def intent_bytes_def rbind_Inr_iff Let_def split: if_splits dest!: encode_target_Inr)

lemma encode_intent_eq: "intent_ok p \<Longrightarrow> length (intent_bytes p) \<le> max_intent \<Longrightarrow> encode_player_intent p = Inr (intent_bytes p)"
  by (simp add: encode_player_intent_def intent_ok_def encode_target_eq Let_def intent_bytes_def)

lemma decode_intent_iff: "decode_player_intent b = Inr p \<longleftrightarrow> intent_ok p \<and> encode_player_intent p = Inr b"
proof
  assume "decode_player_intent b = Inr p"
  then have "length b \<le> max_intent" "read_player_intent b = Inr (p, [])"
    by (auto simp: decode_player_intent_def rbind_Inr_iff split: if_splits)
  then show "intent_ok p \<and> encode_player_intent p = Inr b"
    using c_intent.get_sound[of b p "[]"] encode_intent_eq[of p] by auto
next
  assume "intent_ok p \<and> encode_player_intent p = Inr b"
  then show "decode_player_intent b = Inr p"
    using encode_intent_Inr[of p b] c_intent.get_put_end[of p] by (auto simp: decode_player_intent_def)
qed

section \<open>Packets\<close>

definition delta_events_ok :: "trace_event list \<Rightarrow> bool" where
  "delta_events_ok es \<longleftrightarrow> length es \<le> max_events \<and> list_all event_ok es"

fun packet_ok :: "packet \<Rightarrow> bool" where
  "packet_ok (Hello canon epoch build key slot hz) \<longleftrightarrow>
     length canon = 32 \<and> epoch < 2 ^ 64 \<and> length build = 32 \<and> length key = 32 \<and> slot < 256 \<and> hz < 256"
| "packet_ok (IntentPkt s) \<longleftrightarrow> length (si_signature s) = 64 \<and> intent_ok (si_value s)"
| "packet_ok (TraceDelta since g es) \<longleftrightarrow> since < 2 ^ 64 \<and> g < 65536 \<and> delta_events_ok es"
| "packet_ok (Nack t r) \<longleftrightarrow> t < 2 ^ 64 \<and> reject_ok r"
| "packet_ok (Snapshot t epoch canon prefix place blob) \<longleftrightarrow>
     t < 2 ^ 64 \<and> epoch < 2 ^ 64 \<and> length canon = 32 \<and> length prefix = 32 \<and> length blob \<le> max_net_blob"
| "packet_ok (InterestPkt d) \<longleftrightarrow> id_gen d < 65536 \<and> length (id_places d) \<le> max_interest \<and> length (id_sigils d) \<le> max_interest"
| "packet_ok (PoseDelta t g b) \<longleftrightarrow> t < 2 ^ 64 \<and> g < 65536 \<and> block_ok b"
| "packet_ok (Resync t epoch prefix) \<longleftrightarrow> t < 2 ^ 64 \<and> epoch < 2 ^ 64 \<and> length prefix = 32"

lemma block_encode_Inr: "encode_pose_block b = Inr x \<Longrightarrow> x = block_bytes b"
  by (cases b) (auto split: if_splits)

lemma block_encode_eq: "block_ok b \<Longrightarrow> encode_pose_block b = Inr (block_bytes b)"
  by (cases b) auto

lemma caps_u32: "n \<le> max_packet \<Longrightarrow> n < 2 ^ 32" "n \<le> max_events \<Longrightarrow> n < 2 ^ 32" "n \<le> max_net_blob \<Longrightarrow> n < 2 ^ 32"
    "n \<le> max_interest \<Longrightarrow> n < 2 ^ 32" "n \<le> max_intent \<Longrightarrow> n < 2 ^ 32"
  by (simp_all add: max_packet_def max_events_def max_net_blob_def max_interest_def max_intent_def)

lemma get_event_put:
  "event_ok e \<Longrightarrow> length (encode_event e) \<le> max_packet \<Longrightarrow> get_event (put_event e @ rest) = Inr (e, rest)"
  using caps_u32(1)[of "length (encode_event e)"]
  by (simp add: get_event_def put_event_def andthen_def give_def codec_simps event_decodes)

lemma get_events_put:
  "\<forall>e \<in> set es. event_ok e \<and> length (encode_event e) \<le> max_packet \<Longrightarrow>
   get_n (length es) get_event (concat (map put_event es) @ rest) = Inr (es, rest)"
  by (induction es) (simp_all add: andthen_def give_def get_event_put)

lemma checked_iff:
  "(case x of Inl a \<Rightarrow> refuse (g a) | Inr y \<Rightarrow> give (h y)) bs = Inr (z, rest) \<longleftrightarrow> (\<exists>y. x = Inr y \<and> h y = z \<and> bs = rest)"
  by (cases x) (auto simp: refuse_def give_def)

lemma get_event_sound:
  assumes "get_event bs = Inr (e, rest)"
  shows "event_ok e"
proof -
  obtain b where "decode_event b = Inr e"
    using assms by (auto simp: get_event_def andthen_Inr_iff checked_iff)
  then show ?thesis using decoded_event_canonical by blast
qed

lemma get_events_sound: "get_n n get_event bs = Inr (es, rest) \<Longrightarrow> list_all event_ok es \<and> length es = n"
  by (induction n arbitrary: bs es) (auto simp: andthen_Inr_iff give_def dest!: get_event_sound)

lemma event_fits: "e \<in> set es \<Longrightarrow> length (encode_event e) \<le> length (concat (map put_event es))"
  by (induction es) (auto simp: put_event_def)

lemma payload_tag:
  "encode_payload p = Inr b \<Longrightarrow> packet_ok p \<Longrightarrow> length b \<le> max_packet \<Longrightarrow>
   andthen (get_u8 NetTruncated) (get_payload (length b)) b = Inr (p, [])"
proof (cases p)
  case (Hello canon epoch build key slot hz)
  assume "encode_payload p = Inr b" "packet_ok p"
  then show ?thesis using Hello
    by (auto simp: andthen_def get_payload_def get_hello_def give_def codec_simps)
next
  case (IntentPkt s)
  assume "encode_payload p = Inr b" "packet_ok p"
  moreover then obtain x where "encode_player_intent (si_value s) = Inr x" "length x \<le> max_intent"
    using encode_intent_Inr by (auto simp: IntentPkt rbind_Inr_iff)
  ultimately show ?thesis using IntentPkt caps_u32(5)[of "length x"] decode_intent_iff[of x "si_value s"]
    by (auto simp: andthen_def get_payload_def get_intent_def give_def codec_simps take_bytes_append[where rest = "[]", simplified])
next
  case (TraceDelta since g es)
  assume a: "encode_payload p = Inr b" "packet_ok p" "length b \<le> max_packet"
  have "length (concat (map put_event es)) \<le> length b" using a(1) TraceDelta by (auto split: if_splits)
  then have "\<forall>e \<in> set es. length (encode_event e) \<le> max_packet" using event_fits[of _ es] a(3) by fastforce
  then have "get_n (length es) get_event (concat (map put_event es)) = Inr (es, [])"
    using get_events_put[of es "[]"] a(2) TraceDelta by (auto simp: delta_events_ok_def list_all_iff)
  then show ?thesis using a(1,2) TraceDelta caps_u32(2)[of "length es"]
    by (auto simp: andthen_def get_payload_def get_trace_delta_def give_def codec_simps delta_events_ok_def)
next
  case (Nack t r)
  assume "encode_payload p = Inr b" "packet_ok p"
  then show ?thesis using Nack c_reject.get_put_end[of r]
    by (auto simp: andthen_def get_payload_def give_def codec_simps)
next
  case (Snapshot t epoch canon prefix place blob)
  assume "encode_payload p = Inr b" "packet_ok p"
  then show ?thesis using Snapshot caps_u32(3)[of "length blob"]
    by (auto simp: andthen_def get_payload_def get_snapshot_def give_def codec_simps take_bytes_append[where rest = "[]", simplified])
next
  case (InterestPkt d)
  assume "encode_payload p = Inr b" "packet_ok p"
  then show ?thesis using InterestPkt caps_u32(4)[of "length (id_places d)"] caps_u32(4)[of "length (id_sigils d)"]
    c_sigil.get_n_put_end[of "id_sigils d" NetTruncated]
    by (auto simp: andthen_def get_payload_def get_interest_def give_def codec_simps split: if_splits)
next
  case (PoseDelta t g k)
  assume "encode_payload p = Inr b" "packet_ok p"
  then show ?thesis using PoseDelta c_block.get_put_end[of k]
    by (auto simp: andthen_def get_payload_def give_def codec_simps block_encode_eq Let_def refuse_def split: if_splits)
next
  case (Resync t epoch prefix)
  assume "encode_payload p = Inr b" "packet_ok p"
  then show ?thesis using Resync
    by (auto simp: andthen_def get_payload_def give_def codec_simps take_bytes_append[where rest = "[]", simplified])
qed

lemma payload_sound:
  assumes "get_payload len tag bs = Inr (p, [])" and "get_u8 NetTruncated all = Inr (tag, bs)" and "len = length all"
  shows "packet_ok p \<and> ((\<forall>since g es. p \<noteq> TraceDelta since g es) \<longrightarrow> encode_payload p = Inr all)"
proof -
  have all: "all = put_u8 tag @ bs" using assms(2) by (auto dest!: codec_dests)
  consider "tag = 1" | "tag = 2" | "tag = 3" | "tag = 4" | "tag = 5" | "tag = 6" | "tag = 7" | "tag = 8"
    using assms(1) by (auto simp: get_payload_def refuse_def split: if_splits)
  then show ?thesis
  proof cases
    case 1
    then show ?thesis using assms(1) by (auto simp: all get_payload_def get_hello_def andthen_Inr_iff give_def dest!: codec_dests)
  next
    case 2
    then obtain s b v where b: "decode_player_intent b = Inr v" "length s = 64" "length b \<le> max_intent"
      "bs = s @ put_u32 (length b) @ b" "p = IntentPkt \<lparr>si_signature = s, si_value = v\<rparr>"
      using assms(1) by (auto simp: get_payload_def get_intent_def andthen_Inr_iff checked_iff dest!: codec_dests)
    then show ?thesis using decode_intent_iff[of b v] by (simp add: all 2)
  next
    case 3
    then show ?thesis using assms(1)
      by (auto simp: get_payload_def get_trace_delta_def andthen_Inr_iff give_def delta_events_ok_def
          dest!: codec_dests get_events_sound)
  next
    case 4
    then show ?thesis using assms(1) by (auto simp: all get_payload_def andthen_Inr_iff give_def dest!: codec_dests)
  next
    case 5
    then show ?thesis using assms(1) by (auto simp: all get_payload_def get_snapshot_def andthen_Inr_iff give_def dest!: codec_dests)
  next
    case 6
    then show ?thesis using assms(1) by (auto simp: all get_payload_def get_interest_def andthen_Inr_iff give_def dest!: codec_dests)
  next
    case 7
    then obtain t g k where k: "t < 2 ^ 64" "g < 65536" "block_ok k" "bs = put_u64 t @ put_u16 g @ block_bytes k" "p = PoseDelta t g k"
      "length all \<le> max_pose_delta"
      using assms(1,3) by (auto simp: get_payload_def andthen_Inr_iff give_def refuse_def split: if_splits dest!: codec_dests)
    then show ?thesis by (simp add: all 7 block_encode_eq)
  next
    case 8
    then show ?thesis using assms(1) by (auto simp: all get_payload_def andthen_Inr_iff give_def dest!: codec_dests)
  qed
qed

section \<open>The wire\<close>

lemma packet_reads:
  assumes "packet_ok p" and "encode_packet p = Inr b"
  shows "decode_packet b = Inr p" and "\<exists>f. encode_frame b = Inr f \<and> decode_frame f = Inr b"
proof -
  have b: "encode_payload p = Inr b" "length b \<le> max_packet"
    using assms(2) by (auto simp: encode_packet_def rbind_Inr_iff split: if_splits)
  show "decode_packet b = Inr p" using payload_tag[OF b(1) assms(1) b(2)] b(2) by (simp add: decode_packet_def)
  have "decode_frame (put_u32 (length b) @ b) = Inr b"
    using b(2) caps_u32(1)[OF b(2)] by (simp add: decode_frame_def codec_simps)
  then show "\<exists>f. encode_frame b = Inr f \<and> decode_frame f = Inr b" using b(2) by (simp add: encode_frame_def)
qed

text \<open>
  C23: packets survive the wire.  A packet whose fields fit their types is either refused as oversize or framed to bytes
  that unframe and decode to it.
\<close>

theorem packet_round_trip:
  assumes "packet_ok p"
  shows "encode_packet p = Inl NetOversize
    \<or> (\<exists>b f. encode_packet p = Inr b \<and> encode_frame b = Inr f \<and> decode_frame f = Inr b \<and> decode_packet b = Inr p)"
proof (cases "encode_packet p")
  case (Inl e)
  have "encode_payload p = Inl e \<Longrightarrow> e = NetOversize" for e
    using assms by (cases p) (auto simp: encode_player_intent_def intent_ok_def encode_target_eq block_encode_eq rbind_Inl_iff
        Let_def split: if_splits)
  then have "e = NetOversize" using Inl by (auto simp: encode_packet_def rbind_Inl_iff split: if_splits)
  then show ?thesis using Inl by simp
next
  case (Inr b)
  then show ?thesis using packet_reads[OF assms Inr] by blast
qed

definition join_snapshot :: packet where
  "join_snapshot = Snapshot 9 1 (replicate 32 7) (replicate 32 8) (Some 5) [1, 2, 3]"

theorem packet_round_trip_witness: "\<exists>b. encode_packet join_snapshot = Inr b \<and> decode_packet b = Inr join_snapshot"
proof -
  have "packet_ok join_snapshot" by (simp add: join_snapshot_def max_net_blob_def max_packet_def)
  moreover have "encode_packet join_snapshot \<noteq> Inl NetOversize"
    by (simp add: join_snapshot_def encode_packet_def max_net_blob_def max_packet_def put_opt_sigil_def)
  ultimately show ?thesis using packet_round_trip[of join_snapshot] by blast
qed

text \<open>
  C24: a packet has one wire form.  Whatever decodes is a packet whose fields fit their types and, if it is not a trace
  delta, the bytes are exactly those its encoder writes; so two different payloads never carry the same signed intent.
\<close>

theorem packet_wire_canonical:
  assumes "decode_packet b = Inr p"
  shows "packet_ok p \<and> ((\<forall>since g es. p \<noteq> TraceDelta since g es) \<longrightarrow> encode_packet p = Inr b)"
proof -
  obtain tag bs where t: "get_u8 NetTruncated b = Inr (tag, bs)" "get_payload (length b) tag bs = Inr (p, [])" "length b \<le> max_packet"
    using assms by (auto simp: decode_packet_def rbind_Inr_iff andthen_Inr_iff split: if_splits)
  then show ?thesis using payload_sound[OF t(2,1) refl] by (auto simp: encode_packet_def)
qed

definition nack_payload :: "byte list" where
  "nack_payload = put_u8 4 @ put_u64 7 @ put_u8 10"

theorem packet_wire_canonical_witness:
  "decode_packet nack_payload = Inr (Nack 7 RConflict) \<and> encode_packet (Nack 7 RConflict) = Inr nack_payload"
proof -
  have "decode_packet nack_payload = Inr (Nack 7 RConflict)"
    by (simp add: nack_payload_def decode_packet_def max_packet_def get_payload_def decode_reject_def andthen_def give_def codec_simps)
  from packet_wire_canonical[OF this] this show ?thesis by simp
qed

end
