(* ===== verification/NetOverlay.thy ===== *)
theory NetOverlay
  imports NetPacket
begin

text \<open>
  \<open>klotho-net/src/overlay.rs\<close> and \<open>sidecar.rs\<close>: the poses a client shows, and the dedicated server's look at the rate
  and range of intents.
\<close>

section \<open>The overlay\<close>

definition default_overlay_snap_mm :: int where "default_overlay_snap_mm = 250"
definition local_blend_permille :: nat where "local_blend_permille = 500"

record overlay =
  ov_current :: "(sigil, pose) btree"
  ov_previous :: "(sigil, pose) btree"
  ov_applied :: "(sigil, pose) btree"
  ov_base :: "(sigil, pose) btree"
  ov_local :: "sigil option"
  ov_snap_mm :: int

definition overlay_new :: overlay where
  "overlay_new = \<lparr>ov_current = [], ov_previous = [], ov_applied = [], ov_base = [], ov_local = None,
     ov_snap_mm = default_overlay_snap_mm\<rparr>"

definition set_local :: "sigil option \<Rightarrow> overlay \<Rightarrow> overlay" where
  "set_local s v = v\<lparr>ov_local := s\<rparr>"

definition set_snap_mm :: "int \<Rightarrow> overlay \<Rightarrow> overlay" where
  "set_snap_mm k v = v\<lparr>ov_snap_mm := k\<rparr>"

definition lerp_i32 :: "int \<Rightarrow> int \<Rightarrow> nat \<Rightarrow> int" where
  "lerp_i32 a b t = wrap32 (a + trunc_div ((b - a) * int t) 1000)"

definition lerp_pose :: "pose \<Rightarrow> pose \<Rightarrow> nat \<Rightarrow> pose" where
  "lerp_pose a b t_permille =
     (let t = min t_permille 1000 in
      \<lparr>px = lerp_i32 (px a) (px b) t, py = lerp_i32 (py a) (py b) t, pz = lerp_i32 (pz a) (pz b) t,
       pyaw = lerp_i32 (pyaw a) (pyaw b) t, ppitch = lerp_i32 (ppitch a) (ppitch b) t, proll = lerp_i32 (proll a) (proll b) t\<rparr>)"

definition pose_gap :: "pose \<Rightarrow> pose \<Rightarrow> int" where
  "pose_gap a b = min (max (max \<bar>px a - px b\<bar> \<bar>py a - py b\<bar>) \<bar>pz a - pz b\<bar>) 2147483647"

definition correct_local :: "sigil \<Rightarrow> pose \<Rightarrow> int \<Rightarrow> overlay \<Rightarrow> overlay" where
  "correct_local s server snap v =
     (case bt_get (ov_current v) s of
        None \<Rightarrow> v\<lparr>ov_current := bt_insert s server (ov_current v)\<rparr>
      | Some cur \<Rightarrow>
          if pose_gap cur server > snap then v\<lparr>ov_current := bt_insert s server (ov_current v)\<rparr>
          else v\<lparr>ov_current := bt_insert s (lerp_pose cur server local_blend_permille) (ov_current v)\<rparr>)"

definition commit_server_pose :: "sigil \<Rightarrow> pose \<Rightarrow> overlay \<Rightarrow> overlay" where
  "commit_server_pose s server v =
     (let v = v\<lparr>ov_applied := bt_insert s server (ov_applied v)\<rparr> in
      if ov_local v = Some s \<and> bt_has (ov_current v) s then correct_local s server (ov_snap_mm v) v
      else v\<lparr>ov_current := bt_insert s server (ov_current v)\<rparr>)"

definition shift_pose :: "pose \<Rightarrow> int list \<Rightarrow> pose" where
  "shift_pose b d =
     \<lparr>px = wrap32 (px b + d ! 0), py = wrap32 (py b + d ! 1), pz = wrap32 (pz b + d ! 2),
      pyaw = wrap32 (pyaw b + d ! 3), ppitch = wrap32 (ppitch b + d ! 4), proll = wrap32 (proll b + d ! 5)\<rparr>"

definition apply_full_row :: "sigil list \<Rightarrow> pose_full \<Rightarrow> overlay \<Rightarrow> overlay" where
  "apply_full_row dict e v =
     (case nth_opt dict (pf_ix e) of
        None \<Rightarrow> v
      | Some s \<Rightarrow> commit_server_pose s (pf_pose e) (v\<lparr>ov_base := bt_insert s (pf_pose e) (ov_base v)\<rparr>))"

definition apply_delta_row :: "sigil list \<Rightarrow> pose_delta_entry \<Rightarrow> overlay \<Rightarrow> overlay" where
  "apply_delta_row dict e v =
     (case nth_opt dict (pe_ix e) of
        None \<Rightarrow> v
      | Some s \<Rightarrow> (case bt_get (ov_base v) s of
            None \<Rightarrow> v
          | Some b \<Rightarrow> commit_server_pose s (shift_pose b (pe_dpose e)) v))"

fun apply_pose_delta :: "sigil list \<Rightarrow> pose_block \<Rightarrow> overlay \<Rightarrow> overlay" where
  "apply_pose_delta dict (FullBlock es) v =
     (if es = [] then v else fold (apply_full_row dict) es (v\<lparr>ov_previous := ov_current v\<rparr>))"
| "apply_pose_delta dict (DeltaBlock es) v =
     (if es = [] then v else fold (apply_delta_row dict) es (v\<lparr>ov_previous := ov_current v\<rparr>))"

definition overlay_pose :: "overlay \<Rightarrow> sigil \<Rightarrow> pose option" where
  "overlay_pose v s = bt_get (ov_current v) s"

definition overlay_interpolate :: "overlay \<Rightarrow> sigil \<Rightarrow> nat \<Rightarrow> pose option" where
  "overlay_interpolate v s t =
     (case bt_get (ov_current v) s of
        None \<Rightarrow> None
      | Some cur \<Rightarrow> (case bt_get (ov_previous v) s of None \<Rightarrow> Some cur | Some prev \<Rightarrow> Some (lerp_pose prev cur t)))"

definition keep_rows :: "sigil list \<Rightarrow> (sigil, pose) btree \<Rightarrow> (sigil, pose) btree" where
  "keep_rows keep m = filter (\<lambda>(s, _). s \<in> set keep) m"

definition overlay_retain :: "sigil list \<Rightarrow> overlay \<Rightarrow> overlay" where
  "overlay_retain keep v =
     v\<lparr>ov_current := keep_rows keep (ov_current v), ov_previous := keep_rows keep (ov_previous v),
       ov_applied := keep_rows keep (ov_applied v), ov_base := keep_rows keep (ov_base v)\<rparr>"

section \<open>The sidecar\<close>

definition stick_max :: int where "stick_max = 1000"
definition look_yaw_max_md :: int where "look_yaw_max_md = 180000"
definition look_pitch_max_md :: int where "look_pitch_max_md = 70000"
definition cmd_window_ticks :: nat where "cmd_window_ticks = 60"

datatype sidecar_flag = FlagNone | FlagAnalogRange | FlagCmdRate | FlagStaleFire

record sidecar_report =
  sr_analog :: analog
  sr_flag :: sidecar_flag

definition recommend_disconnect :: "sidecar_report \<Rightarrow> bool" where
  "recommend_disconnect r \<longleftrightarrow> sr_flag r = FlagAnalogRange \<or> sr_flag r = FlagCmdRate"

record sidecar =
  sc_intent_hz :: nat
  sc_rewind_ticks :: nat
  sc_recent :: "(nat, tick list) btree"

definition sidecar_new :: "nat \<Rightarrow> nat \<Rightarrow> sidecar" where
  "sidecar_new hz rewind = \<lparr>sc_intent_hz = max hz 1, sc_rewind_ticks = rewind, sc_recent = []\<rparr>"

definition clamp_analog :: "analog \<Rightarrow> analog" where
  "clamp_analog a =
     \<lparr>an_phase = an_phase a, an_stick_x = clamp (an_stick_x a) (- stick_max) stick_max,
      an_stick_z = clamp (an_stick_z a) (- stick_max) stick_max,
      an_look_yaw = clamp (an_look_yaw a) (- look_yaw_max_md) look_yaw_max_md,
      an_look_pitch = clamp (an_look_pitch a) (- look_pitch_max_md) look_pitch_max_md\<rparr>"

definition inspect :: "player_intent \<Rightarrow> tick \<Rightarrow> sidecar \<Rightarrow> sidecar_report \<times> sidecar" where
  "inspect p now sc =
     (let analog = clamp_analog (pi_analog p);
          old = (case bt_get (sc_recent sc) (pi_player p) of None \<Rightarrow> [] | Some q \<Rightarrow> q);
          q = dropWhile (\<lambda>t. t < now - (cmd_window_ticks - 1)) (old @ [now]);
          stale = sc_rewind_ticks sc > 0 \<and> pi_verb p = Fire \<and> now - pi_at p > sc_rewind_ticks sc;
          flag = (if length q > sc_intent_hz sc then FlagCmdRate
                  else if analog \<noteq> pi_analog p then FlagAnalogRange
                  else if stale then FlagStaleFire else FlagNone)
      in (\<lparr>sr_analog = analog, sr_flag = flag\<rparr>, sc\<lparr>sc_recent := bt_insert (pi_player p) q (sc_recent sc)\<rparr>))"

end
