(* ===== verification/NetSession.thy ===== *)
theory NetSession
  imports NetOverlay TraceLog
begin

text \<open>
  \<open>klotho-net/src/sign.rs\<close> and \<open>session.rs\<close>: signed intents, the in-memory wire, the listen host and the client.
  Ed25519 is outside the repository: the record \<open>ed25519\<close> holds the parts of it that are called.  \<open>H\<close> is blake3.  A wire
  end is a queue of frames; an operation that sends appends to the queue it was given, and frames sent before a failing
  one stay sent.
\<close>

section \<open>Signatures\<close>

record 'k ed25519 =
  ed_from_bytes :: "byte list \<Rightarrow> 'k option"
  ed_is_weak :: "'k \<Rightarrow> bool"
  ed_verify_strict :: "'k \<Rightarrow> byte list \<Rightarrow> byte list \<Rightarrow> bool"

record 'k keypair =
  kp_sign :: "byte list \<Rightarrow> byte list"
  kp_verifying :: 'k
  kp_bytes :: "byte list"

definition verifying_key_from_bytes :: "'k ed25519 \<Rightarrow> byte list \<Rightarrow> net_error + 'k" where
  "verifying_key_from_bytes E b =
     (if length b \<noteq> 32 then Inl NetBadKey
      else case ed_from_bytes E b of
          None \<Rightarrow> Inl NetBadKey
        | Some k \<Rightarrow> if ed_is_weak E k then Inl NetBadKey else Inr k)"

definition sign_intent :: "'k keypair \<Rightarrow> player_intent \<Rightarrow> net_error + signed_intent" where
  "sign_intent kp p = rbind (encode_player_intent p) (\<lambda>b. Inr \<lparr>si_signature = kp_sign kp b, si_value = p\<rparr>)"

definition verify_bytes :: "'k ed25519 \<Rightarrow> 'k \<Rightarrow> byte list \<Rightarrow> byte list \<Rightarrow> net_error + unit" where
  "verify_bytes E k s msg = (if ed_verify_strict E k msg s then Inr () else Inl NetBadSignature)"

definition verify_intent :: "'k ed25519 \<Rightarrow> 'k \<Rightarrow> signed_intent \<Rightarrow> net_error + player_intent" where
  "verify_intent E k s =
     rbind (encode_player_intent (si_value s)) (\<lambda>b.
     rbind (verify_bytes E k (si_signature s) b) (\<lambda>_. decode_player_intent b))"

section \<open>The wire\<close>

type_synonym frames = "byte list list"

datatype disconnect_reason = GoneHello | GoneDesync

datatype role = HostRole | ServerRole | ClientRole

definition allows_mind :: "role \<Rightarrow> bool" where
  "allows_mind r \<longleftrightarrow> r = HostRole \<or> r = ServerRole"

definition allows_infer :: "role \<Rightarrow> bool" where
  "allows_infer r \<longleftrightarrow> r = HostRole \<or> r = ServerRole"

definition wire_send :: "packet \<Rightarrow> frames \<Rightarrow> net_error + frames" where
  "wire_send p q = rbind (encode_packet p) (\<lambda>b. rbind (encode_frame b) (\<lambda>f. Inr (q @ [f])))"

fun wire_send_all :: "packet list \<Rightarrow> frames \<Rightarrow> frames \<times> (net_error + unit)" where
  "wire_send_all [] q = (q, Inr ())"
| "wire_send_all (p # ps) q = (case wire_send p q of Inl e \<Rightarrow> (q, Inl e) | Inr q' \<Rightarrow> wire_send_all ps q')"

definition wire_recv :: "frames \<Rightarrow> frames \<times> (net_error + packet option)" where
  "wire_recv q =
     (case q of
        [] \<Rightarrow> ([], Inr None)
      | f # rest \<Rightarrow> (rest, rbind (decode_frame f) (\<lambda>b. rbind (decode_packet b) (\<lambda>p. Inr (Some p)))))"

text \<open>An attached wire end, if any.\<close>

definition send_out :: "packet list \<Rightarrow> frames option \<Rightarrow> frames option \<times> (net_error + unit)" where
  "send_out ps out =
     (case out of None \<Rightarrow> (None, Inr ()) | Some q \<Rightarrow> (let (q', r) = wire_send_all ps q in (Some q', r)))"

section \<open>The listen host\<close>

definition listen_intent_hz :: nat where "listen_intent_hz = 20"

record 'k host =
  ho_canon :: digest
  ho_epoch :: nat
  ho_intent_hz :: nat
  ho_stamp :: digest
  ho_keys :: "(nat, 'k) btree"
  ho_slots :: "(nat, player_intent option) btree"
  ho_ingested :: "player_intent list"
  ho_dropped_older :: "player_intent list"
  ho_dropped_verify :: nat
  ho_remote :: "nat option"
  ho_kp :: "'k keypair"
  ho_out :: "frames option"
  ho_disconnected :: bool
  ho_reason :: "disconnect_reason option"
  ho_tick :: tick
  ho_prefix :: digest
  ho_gen :: nat

definition host_new :: "(byte list \<Rightarrow> digest) \<Rightarrow> 'k keypair \<Rightarrow> digest \<Rightarrow> 'k host" where
  "host_new H kp canon =
     \<lparr>ho_canon = canon, ho_epoch = 0, ho_intent_hz = listen_intent_hz, ho_stamp = compiler_stamp H,
      ho_keys = [(0, kp_verifying kp)], ho_slots = [(0, None)], ho_ingested = [], ho_dropped_older = [],
      ho_dropped_verify = 0, ho_remote = None, ho_kp = kp, ho_out = None, ho_disconnected = False, ho_reason = None,
      ho_tick = 0, ho_prefix = genesis_hash H, ho_gen = 0\<rparr>"

definition host_attach :: "frames \<Rightarrow> 'k host \<Rightarrow> 'k host" where
  "host_attach q h = h\<lparr>ho_out := Some q\<rparr>"

text \<open>\<open>checked_add(1)\<close> fails at the greatest epoch.\<close>

definition next_epoch_ok :: "nat \<Rightarrow> nat \<Rightarrow> bool" where
  "next_epoch_ok old new \<longleftrightarrow> old < u64_max \<and> new = old + 1"

definition host_install_epoch :: "digest \<Rightarrow> nat \<Rightarrow> 'k host \<Rightarrow> net_error + 'k host" where
  "host_install_epoch canon epoch h =
     (if \<not> next_epoch_ok (ho_epoch h) epoch \<or> canon = ho_canon h then Inl NetHelloMismatch
      else Inr (h\<lparr>ho_canon := canon, ho_epoch := epoch, ho_remote := None,
        ho_keys := filter (\<lambda>(p, _). p = 0) (ho_keys h), ho_slots := filter (\<lambda>(p, _). p = 0) (ho_slots h)\<rparr>))"

definition host_set_prefix :: "digest \<Rightarrow> 'k host \<Rightarrow> 'k host" where
  "host_set_prefix p h = h\<lparr>ho_prefix := p\<rparr>"

definition host_accept_join :: "'k ed25519 \<Rightarrow> byte list \<Rightarrow> 'k host \<Rightarrow> net_error + nat \<times> 'k host" where
  "host_accept_join E b h =
     (if ho_disconnected h then Inl NetDisconnected
      else if ho_remote h \<noteq> None then Inl NetThirdPlayer
      else rbind (verifying_key_from_bytes E b) (\<lambda>k.
        Inr (1, h\<lparr>ho_keys := bt_insert 1 k (ho_keys h), ho_slots := bt_insert 1 None (ho_slots h), ho_remote := Some 1\<rparr>)))"

definition host_queue :: "nat \<Rightarrow> player_intent \<Rightarrow> 'k host \<Rightarrow> 'k host" where
  "host_queue p i h =
     h\<lparr>ho_slots := bt_insert p (Some i) (ho_slots h),
       ho_dropped_older := ho_dropped_older h @ (case bt_get (ho_slots h) p of Some (Some old) \<Rightarrow> [old] | _ \<Rightarrow> [])\<rparr>"

definition host_submit_local :: "player_intent \<Rightarrow> 'k host \<Rightarrow> 'k host" where
  "host_submit_local i h = host_queue 0 (i\<lparr>pi_player := 0\<rparr>) h"

definition host_ingest_signed :: "'k ed25519 \<Rightarrow> nat \<Rightarrow> signed_intent \<Rightarrow> 'k host \<Rightarrow> 'k host \<times> (net_error + bool)" where
  "host_ingest_signed E p s h =
     (if ho_disconnected h then (h, Inl NetDisconnected)
      else case bt_get (ho_keys h) p of
          None \<Rightarrow> (h\<lparr>ho_dropped_verify := ho_dropped_verify h + 1\<rparr>, Inr False)
        | Some k \<Rightarrow> (case verify_intent E k s of
              Inr i \<Rightarrow> (host_queue p (i\<lparr>pi_player := p, pi_analog := clamp_analog (pi_analog i)\<rparr>) h, Inr True)
            | Inl e \<Rightarrow> (h\<lparr>ho_dropped_verify := ho_dropped_verify h + 1\<rparr>, if e = NetBadSignature then Inr False else Inl e)))"

text \<open>\<open>consume\<close>: the slots are emptied in key order, which visits each once.\<close>

definition host_consume :: "'k host \<Rightarrow> player_intent list \<times> 'k host" where
  "host_consume h =
     (let got = List.map_filter snd (ho_slots h) in
      (got, h\<lparr>ho_slots := map (\<lambda>(p, _). (p, None)) (ho_slots h), ho_ingested := ho_ingested h @ got\<rparr>))"

definition delta_packets :: "tick \<Rightarrow> nat \<Rightarrow> trace_event list \<Rightarrow> tick \<Rightarrow> (proposal_kind \<times> reject_reason) list \<Rightarrow> packet list" where
  "delta_packets since g es now rejects = TraceDelta since g es # map (\<lambda>(_, r). Nack now r) rejects"

definition host_flush_delta :: "(byte list \<Rightarrow> digest) \<Rightarrow> tick \<Rightarrow> trace_event list \<Rightarrow> (proposal_kind \<times> reject_reason) list
    \<Rightarrow> 'k host \<Rightarrow> 'k host \<times> (net_error + packet list)" where
  "host_flush_delta H since es rejects h =
     (let h = h\<lparr>ho_prefix := fold_prefix H (ho_prefix h) es, ho_tick := tick_saturating_add since 1\<rparr>;
          ps = delta_packets since (ho_gen h) es (ho_tick h) rejects;
          (out, r) = send_out ps (ho_out h)
      in (h\<lparr>ho_out := out\<rparr>, rbind r (\<lambda>_. Inr ps)))"

definition host_flush_pose :: "tick \<Rightarrow> (sigil \<times> pose \<times> vel3) list \<Rightarrow> 'k host \<Rightarrow> 'k host \<times> (net_error + packet list)" where
  "host_flush_pose t poses h =
     (if length poses > 65535 then (h, Inl NetOversize)
      else let ps = [InterestPkt \<lparr>id_gen = ho_gen h, id_places = [], id_sigils = map fst poses\<rparr>,
                PoseDelta t (ho_gen h) (FullBlock (map (\<lambda>(i, _, p, v). \<lparr>pf_ix = i, pf_pose = p, pf_vel = v\<rparr>) (enumerate 0 poses)))];
               (out, r) = send_out ps (ho_out h)
           in (h\<lparr>ho_out := out\<rparr>, rbind r (\<lambda>_. Inr ps)))"

definition host_snapshot_packet :: "byte list \<Rightarrow> 'k host \<Rightarrow> packet" where
  "host_snapshot_packet blob h = Snapshot (ho_tick h) (ho_epoch h) (ho_canon h) (ho_prefix h) None blob"

definition host_disconnect :: "disconnect_reason \<Rightarrow> 'k host \<Rightarrow> 'k host" where
  "host_disconnect r h = h\<lparr>ho_disconnected := True, ho_reason := Some r\<rparr>"

definition host_record_desync :: "'k host \<Rightarrow> 'k host" where
  "host_record_desync h = host_disconnect GoneDesync h"

fun host_handle :: "'k ed25519 \<Rightarrow> packet \<Rightarrow> 'k host \<Rightarrow> 'k host \<times> (net_error + packet list)" where
  "host_handle E pkt h =
     (if ho_disconnected h then (h, Inl NetDisconnected)
      else case pkt of
          Hello canon epoch build key slot hz \<Rightarrow>
            if canon \<noteq> ho_canon h \<or> epoch \<noteq> ho_epoch h \<or> build \<noteq> ho_stamp h
            then (host_disconnect GoneHello h, Inl NetHelloMismatch)
            else (case host_accept_join E key h of
                Inl e \<Rightarrow> (h, Inl e)
              | Inr (i, h') \<Rightarrow> (h', Inr
                  [Hello (ho_canon h') (ho_epoch h') (ho_stamp h') (kp_bytes (ho_kp h')) i (ho_intent_hz h'),
                   host_snapshot_packet [] h']))
        | IntentPkt s \<Rightarrow>
            (case ho_remote h of
               None \<Rightarrow> (h, Inl NetNotJoined)
             | Some p \<Rightarrow> (let (h', r) = host_ingest_signed E p s h in (h', rbind r (\<lambda>_. Inr []))))
        | _ \<Rightarrow> (h, Inr []))"

text \<open>\<open>pump\<close>: the frames waiting for the host, and what is left of them.\<close>

fun host_pump :: "'k ed25519 \<Rightarrow> frames \<Rightarrow> 'k host \<Rightarrow> 'k host \<times> frames \<times> (net_error + unit)" where
  "host_pump E [] h = (h, [], Inr ())"
| "host_pump E (f # fs) h =
     (if ho_out h = None then (h, f # fs, Inr ())
      else case rbind (decode_frame f) decode_packet of
          Inl e \<Rightarrow> (h, fs, Inl e)
        | Inr p \<Rightarrow>
            (let (h', r) = host_handle E p h in
             case r of
               Inr replies \<Rightarrow>
                 (let (out, s) = send_out replies (ho_out h'); h'' = h'\<lparr>ho_out := out\<rparr> in
                  case s of Inl e \<Rightarrow> (h'', fs, Inl e) | Inr _ \<Rightarrow> host_pump E fs h'')
             | Inl e \<Rightarrow> if e = NetHelloMismatch \<or> e = NetThirdPlayer then host_pump E fs h' else (h', fs, Inl e)))"

section \<open>The client\<close>

record 'k client =
  cl_canon :: digest
  cl_epoch :: nat
  cl_intent_hz :: nat
  cl_stamp :: digest
  cl_kp :: "'k keypair"
  cl_player :: "nat option"
  cl_overlay :: overlay
  cl_prefix :: digest
  cl_tick :: tick
  cl_saw_snapshot :: bool
  cl_out :: "frames option"
  cl_disconnected :: bool
  cl_reason :: "disconnect_reason option"
  cl_gen :: nat
  cl_sigils :: "sigil list"
  cl_needs_resync :: bool
  cl_awaiting :: bool

definition client_with_join :: "(byte list \<Rightarrow> digest) \<Rightarrow> 'k keypair \<Rightarrow> digest \<Rightarrow> nat \<Rightarrow> nat \<Rightarrow> 'k client" where
  "client_with_join H kp canon epoch hz =
     \<lparr>cl_canon = canon, cl_epoch = epoch, cl_intent_hz = hz, cl_stamp = compiler_stamp H, cl_kp = kp, cl_player = None,
      cl_overlay = overlay_new, cl_prefix = genesis_hash H, cl_tick = 0, cl_saw_snapshot = False, cl_out = None,
      cl_disconnected = False, cl_reason = None, cl_gen = 0, cl_sigils = [], cl_needs_resync = False, cl_awaiting = False\<rparr>"

definition client_new :: "(byte list \<Rightarrow> digest) \<Rightarrow> 'k keypair \<Rightarrow> digest \<Rightarrow> 'k client" where
  "client_new H kp canon = client_with_join H kp canon 0 listen_intent_hz"

definition client_install_epoch :: "(byte list \<Rightarrow> digest) \<Rightarrow> digest \<Rightarrow> nat \<Rightarrow> 'k client \<Rightarrow> net_error + 'k client" where
  "client_install_epoch H canon epoch c =
     (if \<not> next_epoch_ok (cl_epoch c) epoch \<or> canon = cl_canon c then Inl NetHelloMismatch
      else Inr (c\<lparr>cl_canon := canon, cl_epoch := epoch, cl_player := None, cl_overlay := overlay_new,
        cl_prefix := genesis_hash H, cl_tick := 0, cl_saw_snapshot := False, cl_disconnected := False, cl_reason := None,
        cl_gen := 0, cl_sigils := [], cl_needs_resync := False, cl_awaiting := False\<rparr>))"

definition ingest_kind :: "proposal_kind \<Rightarrow> net_error + unit" where
  "ingest_kind k = (if k = PkPlayer then Inr () else Inl NetHostOnly)"

definition hello_packet :: "'k client \<Rightarrow> packet" where
  "hello_packet c = Hello (cl_canon c) (cl_epoch c) (cl_stamp c) (kp_bytes (cl_kp c)) 0 (cl_intent_hz c)"

definition send_intent :: "player_intent \<Rightarrow> 'k client \<Rightarrow> 'k client \<times> (net_error + packet)" where
  "send_intent i c =
     (if cl_disconnected c then (c, Inl NetDisconnected)
      else case cl_player c of
          None \<Rightarrow> (c, Inl NetNotJoined)
        | Some p \<Rightarrow> (case sign_intent (cl_kp c) (i\<lparr>pi_player := p\<rparr>) of
              Inl e \<Rightarrow> (c, Inl e)
            | Inr s \<Rightarrow> (let (out, r) = send_out [IntentPkt s] (cl_out c) in (c\<lparr>cl_out := out\<rparr>, rbind r (\<lambda>_. Inr (IntentPkt s))))))"

definition gen_ok :: "nat \<Rightarrow> nat \<Rightarrow> bool" where
  "gen_ok client_gen packet_gen \<longleftrightarrow> packet_gen = client_gen \<or> packet_gen = (client_gen + 1) mod 65536"

definition gen_forward :: "nat \<Rightarrow> nat \<Rightarrow> nat" where
  "gen_forward client_gen packet_gen = nat ((int packet_gen - int client_gen) mod 65536)"

definition client_disconnect :: "disconnect_reason \<Rightarrow> 'k client \<Rightarrow> 'k client" where
  "client_disconnect r c = c\<lparr>cl_disconnected := True, cl_reason := Some r\<rparr>"

fun client_handle :: "(byte list \<Rightarrow> digest) \<Rightarrow> packet \<Rightarrow> 'k client \<Rightarrow> 'k client \<times> (net_error + unit)" where
  "client_handle H pkt c =
     (if cl_disconnected c then (c, Inl NetDisconnected)
      else case pkt of
          Hello canon epoch build key slot hz \<Rightarrow>
            if canon \<noteq> cl_canon c \<or> epoch \<noteq> cl_epoch c \<or> build \<noteq> cl_stamp c
            then (client_disconnect GoneHello c, Inl NetHelloMismatch)
            else (c\<lparr>cl_player := Some slot, cl_intent_hz := hz\<rparr>, Inr ())
        | Snapshot t epoch canon prefix place blob \<Rightarrow>
            if canon \<noteq> cl_canon c \<or> epoch \<noteq> cl_epoch c then (client_disconnect GoneDesync c, Inl NetDesync)
            else if cl_saw_snapshot c \<and> prefix \<noteq> cl_prefix c then (client_disconnect GoneDesync c, Inl NetDesync)
            else (c\<lparr>cl_prefix := prefix, cl_tick := t, cl_saw_snapshot := True\<rparr>, Inr ())
        | TraceDelta since g es \<Rightarrow>
            if since \<noteq> cl_tick c then (client_disconnect GoneDesync c, Inl NetDesync)
            else if \<not> gen_ok (cl_gen c) g then (c\<lparr>cl_needs_resync := True\<rparr>, Inr ())
            else (c\<lparr>cl_prefix := fold_prefix H (cl_prefix c) es, cl_tick := tick_saturating_add since 1\<rparr>, Inr ())
        | InterestPkt d \<Rightarrow>
            (let forward = gen_forward (cl_gen c) (id_gen d);
                 accept = gen_ok (cl_gen c) (id_gen d) \<or> cl_awaiting c \<and> forward \<noteq> 0 \<and> forward < 0x8000 in
             if \<not> accept then (c\<lparr>cl_needs_resync := True\<rparr>, Inr ())
             else (c\<lparr>cl_awaiting := False, cl_gen := id_gen d, cl_overlay := overlay_retain (id_sigils d) (cl_overlay c),
                cl_sigils := id_sigils d\<rparr>, Inr ()))
        | PoseDelta t g block \<Rightarrow>
            if g \<noteq> cl_gen c
            then (if \<not> cl_awaiting c \<and> \<not> gen_ok (cl_gen c) g then c\<lparr>cl_needs_resync := True\<rparr> else c, Inr ())
            else (c\<lparr>cl_overlay := apply_pose_delta (cl_sigils c) block (cl_overlay c)\<rparr>, Inr ())
        | Resync t epoch prefix \<Rightarrow>
            if epoch \<noteq> cl_epoch c then (client_disconnect GoneDesync c, Inl NetDesync)
            else (c\<lparr>cl_tick := t, cl_prefix := prefix, cl_needs_resync := False, cl_awaiting := True\<rparr>, Inr ())
        | _ \<Rightarrow> (c, Inr ()))"

fun client_pump :: "(byte list \<Rightarrow> digest) \<Rightarrow> frames \<Rightarrow> 'k client \<Rightarrow> 'k client \<times> frames \<times> (net_error + unit)" where
  "client_pump H [] c = (c, [], Inr ())"
| "client_pump H (f # fs) c =
     (if cl_out c = None then (c, f # fs, Inr ())
      else case rbind (decode_frame f) decode_packet of
          Inl e \<Rightarrow> (c, fs, Inl e)
        | Inr p \<Rightarrow> (let (c', r) = client_handle H p c in
            case r of Inl e \<Rightarrow> (c', fs, Inl e) | Inr _ \<Rightarrow> client_pump H fs c'))"

text \<open>
  \<open>memory_session\<close>: the two wires are the queues the frames are handed over in; each end keeps its own outbound queue,
  which the other end has read to its end.
\<close>

definition memory_session :: "(byte list \<Rightarrow> digest) \<Rightarrow> 'k ed25519 \<Rightarrow> 'k keypair \<Rightarrow> 'k keypair \<Rightarrow> digest \<Rightarrow> net_error + 'k host \<times> 'k client" where
  "memory_session H E hkp ckp canon =
     (let h = host_attach [] (host_new H hkp canon); c = (client_new H ckp canon)\<lparr>cl_out := Some []\<rparr> in
      rbind (wire_send (hello_packet c) []) (\<lambda>q.
      let (h, _, r) = host_pump E q h in
      rbind r (\<lambda>_.
      let (c, _, r) = client_pump H (the (ho_out h)) c in
      rbind r (\<lambda>_.
      if cl_player c \<noteq> Some 1 then Inl NetNotJoined else Inr (h\<lparr>ho_out := Some []\<rparr>, c)))))"

section \<open>Replays\<close>

record replay_file =
  rf_canon :: digest
  rf_prefix :: digest
  rf_intents :: "player_intent list"

definition host_desync_replay :: "'k host \<Rightarrow> net_error + replay_file" where
  "host_desync_replay h =
     (if ho_reason h \<noteq> Some GoneDesync then Inl NetDisconnected
      else Inr \<lparr>rf_canon = ho_canon h, rf_prefix = ho_prefix h, rf_intents = ho_ingested h\<rparr>)"

end
