(* ===== verification/NetServer.thy ===== *)
theory NetServer
  imports NetSession
begin

text \<open>
  \<open>klotho-net/src/server.rs\<close>: the dedicated server.  The one attached wire belongs to the first player who joins
  after it; packets for the others are only returned.
\<close>

definition max_dedicated_players :: nat where "max_dedicated_players = 32"
definition pose_full_refresh_ticks :: nat where "pose_full_refresh_ticks = 30"

record 'k joined =
  jn_vk :: 'k
  jn_intent :: "player_intent option"
  jn_interest :: interest_dict
  jn_base :: "(nat, pose \<times> vel3) btree"
  jn_full_at :: "tick option"
  jn_send_full :: bool

record 'k server =
  sv_canon :: digest
  sv_epoch :: nat
  sv_intent_hz :: nat
  sv_stamp :: digest
  sv_joined :: "(nat, 'k joined) btree"
  sv_ingested :: "player_intent list"
  sv_dropped_older :: "player_intent list"
  sv_dropped_verify :: nat
  sv_next_slot :: nat
  sv_kp :: "'k keypair"
  sv_out :: "frames option"
  sv_wire_player :: "nat option"
  sv_disconnected :: bool
  sv_reason :: "disconnect_reason option"
  sv_tick :: tick
  sv_prefix :: digest
  sv_sidecar :: sidecar
  sv_flag :: sidecar_flag

definition server_new :: "(byte list \<Rightarrow> digest) \<Rightarrow> 'k keypair \<Rightarrow> digest \<Rightarrow> nat \<Rightarrow> nat \<Rightarrow> 'k server" where
  "server_new H kp canon epoch hz =
     \<lparr>sv_canon = canon, sv_epoch = epoch, sv_intent_hz = hz, sv_stamp = compiler_stamp H, sv_joined = [],
      sv_ingested = [], sv_dropped_older = [], sv_dropped_verify = 0, sv_next_slot = 0, sv_kp = kp, sv_out = None,
      sv_wire_player = None, sv_disconnected = False, sv_reason = None, sv_tick = 0, sv_prefix = genesis_hash H,
      sv_sidecar = sidecar_new hz 0, sv_flag = FlagNone\<rparr>"

definition server_attach :: "frames \<Rightarrow> 'k server \<Rightarrow> 'k server" where
  "server_attach q v = v\<lparr>sv_out := Some q\<rparr>"

definition server_install_epoch :: "digest \<Rightarrow> nat \<Rightarrow> 'k server \<Rightarrow> net_error + 'k server" where
  "server_install_epoch canon epoch v =
     (if \<not> next_epoch_ok (sv_epoch v) epoch \<or> canon = sv_canon v then Inl NetHelloMismatch
      else Inr (v\<lparr>sv_canon := canon, sv_epoch := epoch, sv_joined := [], sv_wire_player := None, sv_next_slot := 0\<rparr>))"

definition server_set_prefix :: "digest \<Rightarrow> 'k server \<Rightarrow> 'k server" where
  "server_set_prefix p v = v\<lparr>sv_prefix := p\<rparr>"

definition empty_dict :: interest_dict where
  "empty_dict = \<lparr>id_gen = 0, id_places = [], id_sigils = []\<rparr>"

definition server_accept_join :: "'k ed25519 \<Rightarrow> byte list \<Rightarrow> 'k server \<Rightarrow> net_error + nat \<times> 'k server" where
  "server_accept_join E b v =
     (if sv_disconnected v then Inl NetDisconnected
      else if length (sv_joined v) \<ge> max_dedicated_players then Inl NetServerFull
      else rbind (verifying_key_from_bytes E b) (\<lambda>k.
        let i = sv_next_slot v;
            j = \<lparr>jn_vk = k, jn_intent = None, jn_interest = empty_dict, jn_base = [], jn_full_at = None, jn_send_full = True\<rparr>
        in Inr (i, v\<lparr>sv_next_slot := min 255 (sv_next_slot v + 1), sv_joined := bt_insert i j (sv_joined v),
          sv_wire_player := if sv_out v \<noteq> None \<and> sv_wire_player v = None then Some i else sv_wire_player v\<rparr>)))"

text \<open>\<open>send_if_wire\<close>, for a list of packets.\<close>

definition send_to :: "nat \<Rightarrow> packet list \<Rightarrow> 'k server \<Rightarrow> 'k server \<times> (net_error + unit)" where
  "send_to p ps v =
     (if sv_wire_player v = Some p then (let (out, r) = send_out ps (sv_out v) in (v\<lparr>sv_out := out\<rparr>, r)) else (v, Inr ()))"

definition server_set_interest :: "nat \<Rightarrow> interest_dict \<Rightarrow> 'k server \<Rightarrow> 'k server \<times> (net_error + packet)" where
  "server_set_interest p d v =
     (case bt_get (sv_joined v) p of
        None \<Rightarrow> (v, Inl NetNotJoined)
      | Some j \<Rightarrow>
          if length (id_places d) > max_interest \<or> length (id_sigils d) > max_interest then (v, Inl NetOversize)
          else (let j' = j\<lparr>jn_send_full := True, jn_base := [], jn_full_at := None, jn_interest := d\<rparr>;
                    (v', r) = send_to p [InterestPkt d] (v\<lparr>sv_joined := bt_insert p j' (sv_joined v)\<rparr>)
                in (v', rbind r (\<lambda>_. Inr (InterestPkt d)))))"

definition server_queue :: "nat \<Rightarrow> player_intent \<Rightarrow> 'k server \<Rightarrow> 'k server" where
  "server_queue p i v =
     (case bt_get (sv_joined v) p of
        None \<Rightarrow> v
      | Some j \<Rightarrow> v\<lparr>sv_joined := bt_insert p (j\<lparr>jn_intent := Some i\<rparr>) (sv_joined v),
          sv_dropped_older := sv_dropped_older v @ (case jn_intent j of Some old \<Rightarrow> [old] | None \<Rightarrow> [])\<rparr>)"

definition server_ingest_signed :: "'k ed25519 \<Rightarrow> nat \<Rightarrow> signed_intent \<Rightarrow> 'k server \<Rightarrow> 'k server \<times> (net_error + bool)" where
  "server_ingest_signed E p s v =
     (if sv_disconnected v then (v, Inl NetDisconnected)
      else case bt_get (sv_joined v) p of
          None \<Rightarrow> (v\<lparr>sv_dropped_verify := sv_dropped_verify v + 1\<rparr>, Inr False)
        | Some j \<Rightarrow> (case verify_intent E (jn_vk j) s of
              Inr i \<Rightarrow>
                (let i = i\<lparr>pi_player := p\<rparr>; (rep, sc) = inspect i (sv_tick v) (sv_sidecar v) in
                 (server_queue p (i\<lparr>pi_analog := sr_analog rep\<rparr>) (v\<lparr>sv_sidecar := sc, sv_flag := sr_flag rep\<rparr>), Inr True))
            | Inl e \<Rightarrow> (v\<lparr>sv_dropped_verify := sv_dropped_verify v + 1\<rparr>, if e = NetBadSignature then Inr False else Inl e)))"

definition server_consume :: "'k server \<Rightarrow> player_intent list \<times> 'k server" where
  "server_consume v =
     (let got = List.map_filter (\<lambda>(_, j). jn_intent j) (sv_joined v) in
      (got, v\<lparr>sv_joined := map (\<lambda>(p, j). (p, j\<lparr>jn_intent := None\<rparr>)) (sv_joined v), sv_ingested := sv_ingested v @ got\<rparr>))"

fun flush_to :: "(nat \<times> 'k joined) list \<Rightarrow> tick \<Rightarrow> trace_event list \<Rightarrow> (proposal_kind \<times> reject_reason) list
    \<Rightarrow> 'k server \<Rightarrow> packet list \<Rightarrow> 'k server \<times> (net_error + packet list)" where
  "flush_to [] since es rejects v all = (v, Inr all)"
| "flush_to ((p, j) # js) since es rejects v all =
     (let ps = delta_packets since (id_gen (jn_interest j)) es (sv_tick v) rejects;
          (v', r) = send_to p ps v
      in case r of Inl e \<Rightarrow> (v', Inl e) | Inr _ \<Rightarrow> flush_to js since es rejects v' (all @ ps))"

definition server_flush_delta :: "(byte list \<Rightarrow> digest) \<Rightarrow> tick \<Rightarrow> trace_event list \<Rightarrow> (proposal_kind \<times> reject_reason) list
    \<Rightarrow> 'k server \<Rightarrow> 'k server \<times> (net_error + packet list)" where
  "server_flush_delta H since es rejects v =
     flush_to (sv_joined v) since es rejects
       (v\<lparr>sv_prefix := fold_prefix H (sv_prefix v) es, sv_tick := tick_saturating_add since 1\<rparr>) []"

section \<open>Pose blocks\<close>

type_synonym mover = "nat \<times> pose \<times> vel3"

fun first_ix :: "sigil list \<Rightarrow> sigil \<Rightarrow> nat option" where
  "first_ix [] s = None"
| "first_ix (d # ds) s = (if d = s then Some 0 else map_option Suc (first_ix ds s))"

definition map_poses :: "sigil list \<Rightarrow> (sigil \<times> pose \<times> vel3) list \<Rightarrow> mover list" where
  "map_poses dict poses =
     List.map_filter (\<lambda>(s, p, v). map_option (\<lambda>i. (i mod 65536, p, v)) (first_ix dict s)) poses"

definition full_block :: "mover list \<Rightarrow> pose_block" where
  "full_block ms = FullBlock (map (\<lambda>(i, p, v). \<lparr>pf_ix = i, pf_pose = p, pf_vel = v\<rparr>) ms)"

definition axis_delta :: "int \<Rightarrow> int \<Rightarrow> int option" where
  "axis_delta a b = (let d = wrap32 (b - a) in if - 32768 \<le> d \<and> d < 32768 then Some d else None)"

definition dpose6 :: "pose \<Rightarrow> pose \<Rightarrow> int list option" where
  "dpose6 a b =
     Option.bind (axis_delta (px a) (px b)) (\<lambda>x. Option.bind (axis_delta (py a) (py b)) (\<lambda>y.
     Option.bind (axis_delta (pz a) (pz b)) (\<lambda>z. Option.bind (axis_delta (pyaw a) (pyaw b)) (\<lambda>w.
     Option.bind (axis_delta (ppitch a) (ppitch b)) (\<lambda>p. Option.bind (axis_delta (proll a) (proll b)) (\<lambda>r.
       Some [x, y, z, w, p, r]))))))"

text \<open>None: some row needs a Full block.\<close>

fun delta_rows :: "(nat, pose \<times> vel3) btree \<Rightarrow> mover list \<Rightarrow> pose_delta_entry list option" where
  "delta_rows bs [] = Some []"
| "delta_rows bs ((i, p, v) # ms) =
     (case bt_get bs i of
        None \<Rightarrow> None
      | Some (lp, _) \<Rightarrow>
          if lp = p then delta_rows bs ms
          else Option.bind (dpose6 lp p) (\<lambda>d. map_option (Cons \<lparr>pe_ix = i, pe_dpose = d\<rparr>) (delta_rows bs ms)))"

definition build_pose_block :: "'k joined \<Rightarrow> (sigil \<times> pose \<times> vel3) list \<Rightarrow> tick \<Rightarrow> pose_block" where
  "build_pose_block j poses t =
     (let ms = map_poses (id_sigils (jn_interest j)) poses;
          refresh = (case jn_full_at j of None \<Rightarrow> False | Some t0 \<Rightarrow> t - t0 \<ge> pose_full_refresh_ticks) in
      if jn_send_full j \<or> jn_base j = [] \<or> refresh then full_block ms
      else case delta_rows (jn_base j) ms of None \<Rightarrow> full_block ms | Some es \<Rightarrow> DeltaBlock es)"

definition update_full_base :: "(sigil \<times> pose \<times> vel3) list \<Rightarrow> 'k joined \<Rightarrow> 'k joined" where
  "update_full_base poses j =
     j\<lparr>jn_base := fold (\<lambda>(i, p, v). bt_insert i (p, v)) (map_poses (id_sigils (jn_interest j)) poses) (jn_base j)\<rparr>"

text \<open>The slot after a pose flush, with the block that is sent.\<close>

definition flush_slot :: "(sigil \<times> pose \<times> vel3) list \<Rightarrow> tick \<Rightarrow> 'k joined \<Rightarrow> pose_block \<times> 'k joined" where
  "flush_slot poses t j =
     (let b = build_pose_block j poses t;
          j = (case b of FullBlock _ \<Rightarrow> (update_full_base poses j)\<lparr>jn_full_at := Some t\<rparr> | DeltaBlock _ \<Rightarrow> j)
      in (b, j\<lparr>jn_send_full := False\<rparr>))"

definition server_flush_pose :: "nat \<Rightarrow> tick \<Rightarrow> (sigil \<times> pose \<times> vel3) list \<Rightarrow> 'k server \<Rightarrow> 'k server \<times> (net_error + packet)" where
  "server_flush_pose p t poses v =
     (case bt_get (sv_joined v) p of
        None \<Rightarrow> (v, Inl NetNotJoined)
      | Some j \<Rightarrow>
          (let (b, j') = flush_slot poses t j;
               pkt = PoseDelta t (id_gen (jn_interest j')) b;
               (v', r) = send_to p [pkt] (v\<lparr>sv_joined := bt_insert p j' (sv_joined v)\<rparr>)
           in (v', rbind r (\<lambda>_. Inr pkt))))"

definition server_resync :: "nat \<Rightarrow> 'k server \<Rightarrow> 'k server \<times> (net_error + packet list)" where
  "server_resync p v =
     (case bt_get (sv_joined v) p of
        None \<Rightarrow> (v, Inl NetNotJoined)
      | Some j \<Rightarrow>
          (let j' = j\<lparr>jn_send_full := True, jn_base := [], jn_full_at := None\<rparr>;
               ps = [Resync (sv_tick v) (sv_epoch v) (sv_prefix v), InterestPkt (jn_interest j')];
               (v', r) = send_to p ps (v\<lparr>sv_joined := bt_insert p j' (sv_joined v)\<rparr>)
           in (v', rbind r (\<lambda>_. Inr ps))))"

section \<open>Packets in\<close>

definition server_snapshot_packet :: "byte list \<Rightarrow> 'k server \<Rightarrow> packet" where
  "server_snapshot_packet blob v = Snapshot (sv_tick v) (sv_epoch v) (sv_canon v) (sv_prefix v) None blob"

definition server_disconnect :: "disconnect_reason \<Rightarrow> 'k server \<Rightarrow> 'k server" where
  "server_disconnect r v = v\<lparr>sv_disconnected := True, sv_reason := Some r\<rparr>"

definition server_record_desync :: "'k server \<Rightarrow> 'k server" where
  "server_record_desync v = server_disconnect GoneDesync v"

definition server_desync_replay :: "'k server \<Rightarrow> net_error + replay_file" where
  "server_desync_replay v =
     (if sv_reason v \<noteq> Some GoneDesync then Inl NetDisconnected
      else Inr \<lparr>rf_canon = sv_canon v, rf_prefix = sv_prefix v, rf_intents = sv_ingested v\<rparr>)"

fun server_handle :: "'k ed25519 \<Rightarrow> packet \<Rightarrow> 'k server \<Rightarrow> 'k server \<times> (net_error + packet list)" where
  "server_handle E pkt v =
     (if sv_disconnected v then (v, Inl NetDisconnected)
      else case pkt of
          Hello canon epoch build key slot hz \<Rightarrow>
            if canon \<noteq> sv_canon v \<or> epoch \<noteq> sv_epoch v \<or> build \<noteq> sv_stamp v then (v, Inl NetHelloMismatch)
            else (case server_accept_join E key v of
                Inl e \<Rightarrow> (v, Inl e)
              | Inr (i, v') \<Rightarrow> (v', Inr
                  [Hello (sv_canon v') (sv_epoch v') (sv_stamp v') (kp_bytes (sv_kp v')) i (sv_intent_hz v'),
                   server_snapshot_packet [] v', InterestPkt empty_dict]))
        | IntentPkt s \<Rightarrow>
            (case sv_wire_player v of
               None \<Rightarrow> (v, Inl NetNotJoined)
             | Some p \<Rightarrow> (let (v', r) = server_ingest_signed E p s v in (v', rbind r (\<lambda>_. Inr []))))
        | _ \<Rightarrow> (v, Inr []))"

fun server_pump :: "'k ed25519 \<Rightarrow> frames \<Rightarrow> 'k server \<Rightarrow> 'k server \<times> frames \<times> (net_error + unit)" where
  "server_pump E [] v = (v, [], Inr ())"
| "server_pump E (f # fs) v =
     (if sv_out v = None then (v, f # fs, Inr ())
      else case rbind (decode_frame f) decode_packet of
          Inl e \<Rightarrow> (v, fs, Inl e)
        | Inr p \<Rightarrow>
            (let (v', r) = server_handle E p v in
             case r of
               Inr replies \<Rightarrow>
                 (let (out, s) = send_out replies (sv_out v'); v'' = v'\<lparr>sv_out := out\<rparr> in
                  case s of Inl e \<Rightarrow> (v'', fs, Inl e) | Inr _ \<Rightarrow> server_pump E fs v'')
             | Inl e \<Rightarrow> if e = NetHelloMismatch \<or> e = NetServerFull then server_pump E fs v' else (v', fs, Inl e)))"

definition dedicated_session_at :: "(byte list \<Rightarrow> digest) \<Rightarrow> 'k ed25519 \<Rightarrow> 'k keypair \<Rightarrow> 'k keypair \<Rightarrow> digest \<Rightarrow> nat \<Rightarrow> nat
    \<Rightarrow> net_error + 'k server \<times> 'k client" where
  "dedicated_session_at H E skp ckp canon epoch hz =
     (let v = server_attach [] (server_new H skp canon epoch hz);
          c = (client_with_join H ckp canon epoch listen_intent_hz)\<lparr>cl_out := Some []\<rparr> in
      rbind (wire_send (hello_packet c) []) (\<lambda>q.
      let (v, _, r) = server_pump E q v in
      rbind r (\<lambda>_.
      let (c, _, r) = client_pump H (the (sv_out v)) c in
      rbind r (\<lambda>_.
      if cl_player c = None then Inl NetNotJoined else Inr (v\<lparr>sv_out := Some []\<rparr>, c)))))"

definition dedicated_session :: "(byte list \<Rightarrow> digest) \<Rightarrow> 'k ed25519 \<Rightarrow> 'k keypair \<Rightarrow> 'k keypair \<Rightarrow> digest \<Rightarrow> net_error + 'k server \<times> 'k client" where
  "dedicated_session H E skp ckp canon = dedicated_session_at H E skp ckp canon 0 30"

end
