(* ===== verification/NetSessionProps.thy ===== *)
theory NetSessionProps
  imports NetPacketProps NetServer
begin

text \<open>
  The session: a client that follows its host over the wire, what a checkpoint proves, and where intents come from.
\<close>

section \<open>Deliveries\<close>

fun deliver :: "(byte list \<Rightarrow> digest) \<Rightarrow> packet list \<Rightarrow> 'k client \<Rightarrow> 'k client \<times> (net_error + unit)" where
  "deliver H [] c = (c, Inr ())"
| "deliver H (p # ps) c =
     (case client_handle H p c of (c', Inl e) \<Rightarrow> (c', Inl e) | (c', Inr _) \<Rightarrow> deliver H ps c')"

lemma client_handle_out: "cl_out (fst (client_handle H p c)) = cl_out c"
  by (cases p) (auto simp: client_disconnect_def Let_def)

declare client_handle.simps [simp del]

lemma deliver_out: "cl_out (fst (deliver H ps c)) = cl_out c"
proof (induction ps arbitrary: c)
  case (Cons p ps)
  then show ?case using client_handle_out[of H p c] by (auto split: prod.splits sum.splits)
qed simp

lemma wire_send_read:
  assumes "wire_send p q = Inr q'" and "packet_ok p"
  shows "\<exists>f. q' = q @ [f] \<and> rbind (decode_frame f) decode_packet = Inr p"
proof -
  obtain b f where b: "encode_packet p = Inr b" "encode_frame b = Inr f" "q' = q @ [f]"
    using assms(1) by (auto simp: wire_send_def rbind_Inr_iff)
  then show ?thesis using packet_reads[OF assms(2) b(1)] by auto
qed

lemma send_all_read:
  "wire_send_all ps q = (q', Inr ()) \<Longrightarrow> list_all packet_ok ps \<Longrightarrow>
   \<exists>fs. q' = q @ fs \<and> list_all2 (\<lambda>p f. rbind (decode_frame f) decode_packet = Inr p) ps fs"
proof (induction ps arbitrary: q)
  case (Cons p ps)
  obtain q1 where q1: "wire_send p q = Inr q1" "wire_send_all ps q1 = (q', Inr ())"
    using Cons.prems(1) by (auto split: sum.splits)
  obtain f where "q1 = q @ [f]" "rbind (decode_frame f) decode_packet = Inr p"
    using wire_send_read[OF q1(1)] Cons.prems(2) by auto
  moreover obtain fs where "q' = q1 @ fs" "list_all2 (\<lambda>p f. rbind (decode_frame f) decode_packet = Inr p) ps fs"
    using Cons.IH[OF q1(2)] Cons.prems(2) by auto
  ultimately show ?case by (intro exI[of _ "f # fs"]) simp
qed simp

lemma pump_deliver:
  "list_all2 (\<lambda>p f. rbind (decode_frame f) decode_packet = Inr p) ps fs \<Longrightarrow> cl_out c \<noteq> None \<Longrightarrow>
   deliver H ps c = (c', Inr ()) \<Longrightarrow> client_pump H fs c = (c', [], Inr ())"
proof (induction arbitrary: c rule: list_all2_induct)
  case (Cons p ps f fs)
  obtain c1 where c1: "client_handle H p c = (c1, Inr ())" "deliver H ps c1 = (c', Inr ())"
    using Cons.prems(2) by (auto split: prod.splits sum.splits)
  have "cl_out c1 \<noteq> None" using client_handle_out[of H p c] Cons.prems(1) c1(1) by simp
  then have "client_pump H fs c1 = (c', [], Inr ())" using Cons.IH c1(2) by blast
  then show ?case using Cons.hyps(1) Cons.prems(1) c1(1) by simp
qed simp

section \<open>Host and client in step\<close>

definition host_ok :: "'k host \<Rightarrow> bool" where
  "host_ok h \<longleftrightarrow> length (ho_canon h) = 32 \<and> ho_epoch h < 2 ^ 64 \<and> ho_intent_hz h < 256 \<and> length (ho_stamp h) = 32
     \<and> length (kp_bytes (ho_kp h)) = 32 \<and> ho_tick h < 2 ^ 64 \<and> length (ho_prefix h) = 32 \<and> ho_gen h < 65536"

definition client_ok :: "'k client \<Rightarrow> bool" where
  "client_ok c \<longleftrightarrow> length (cl_canon c) = 32 \<and> cl_epoch c < 2 ^ 64 \<and> length (cl_stamp c) = 32 \<and> length (kp_bytes (cl_kp c)) = 32
     \<and> cl_intent_hz c < 256"

text \<open>
  A listen session over the wire: the client's Hello is pumped into the host and the replies into the client; then the
  host's ticks, each flushed and pumped, and anything else either end does in between.
\<close>

inductive linked :: "(byte list \<Rightarrow> digest) \<Rightarrow> 'k ed25519 \<Rightarrow> 'k host \<Rightarrow> 'k client \<Rightarrow> bool" for H E where
  Join: "host_ok h \<Longrightarrow> client_ok c \<Longrightarrow> ho_out h = Some [] \<Longrightarrow> ho_remote h = None \<Longrightarrow> cl_out c \<noteq> None \<Longrightarrow> \<not> cl_disconnected c
    \<Longrightarrow> \<not> cl_saw_snapshot c \<Longrightarrow> \<not> cl_needs_resync c \<Longrightarrow> cl_gen c = ho_gen h \<Longrightarrow> wire_send (hello_packet c) [] = Inr q
    \<Longrightarrow> host_pump E q h = (h', rest, r) \<Longrightarrow> ho_remote h' \<noteq> None \<Longrightarrow> r = Inr ()
    \<Longrightarrow> client_pump H (the (ho_out h')) c = (c', rest', r') \<Longrightarrow> linked H E (h'\<lparr>ho_out := Some []\<rparr>) c'"
| Delta: "linked H E h c \<Longrightarrow> list_all event_ok es \<Longrightarrow> list_all (\<lambda>(_, x). reject_ok x) rejects
    \<Longrightarrow> host_flush_delta H (ho_tick h) es rejects h = (h', Inr ps) \<Longrightarrow> client_pump H (the (ho_out h')) c = (c', rest, r)
    \<Longrightarrow> linked H E (h'\<lparr>ho_out := Some []\<rparr>) c'"
| Poses: "linked H E h c \<Longrightarrow> t < 2 ^ 64 \<Longrightarrow> \<forall>(s, p, v) \<in> set poses. pose_ok p \<and> vel_ok v
    \<Longrightarrow> host_flush_pose t poses h = (h', Inr ps) \<Longrightarrow> client_pump H (the (ho_out h')) c = (c', rest, r)
    \<Longrightarrow> linked H E (h'\<lparr>ho_out := Some []\<rparr>) c'"
| Ingest: "linked H E h c \<Longrightarrow> linked H E (fst (host_ingest_signed E p s h)) c"
| Submit: "linked H E h c \<Longrightarrow> linked H E (host_submit_local i h) c"
| Consume: "linked H E h c \<Longrightarrow> linked H E (snd (host_consume h)) c"
| Speak: "linked H E h c \<Longrightarrow> linked H E h (fst (send_intent i c))"
| Pawn: "linked H E h c \<Longrightarrow> linked H E h (c\<lparr>cl_overlay := set_local s (cl_overlay c)\<rparr>)"

definition in_step :: "'k host \<Rightarrow> 'k client \<Rightarrow> bool" where
  "in_step h c \<longleftrightarrow> host_ok h \<and> ho_out h = Some [] \<and> cl_out c \<noteq> None \<and> cl_player c = Some 1
     \<and> cl_prefix c = ho_prefix h \<and> cl_tick c = ho_tick h \<and> cl_gen c = ho_gen h \<and> \<not> cl_disconnected c \<and> \<not> cl_needs_resync c"

lemma fold_prefix_length: "\<forall>x. length (H x) = 32 \<Longrightarrow> length p = 32 \<Longrightarrow> length (fold_prefix H p es) = 32"
  by (induction es arbitrary: p) (simp_all add: mix_def)

lemma tick_add_less: "tick_saturating_add t n < 2 ^ 64"
  by (simp add: tick_saturating_add_def u64_max_def)

lemma deliver_nacks:
  "\<not> cl_disconnected c \<Longrightarrow> deliver H (map (\<lambda>(_, x). Nack t x) rejects) c = (c, Inr ())"
  by (induction rejects) (auto simp: client_handle.simps)

lemma send_out_sent: "send_out ps (Some q) = (out, Inr ()) \<Longrightarrow> \<exists>q'. out = Some q' \<and> wire_send_all ps q = (q', Inr ())"
  by (auto simp: send_out_def split: prod.splits)

lemma pumped:
  assumes "send_out ps (Some []) = (out, Inr ())" and "list_all packet_ok ps" and "cl_out c \<noteq> None"
    and "deliver H ps c = (c1, Inr ())" and "client_pump H (the out) c = (c', rest, r)"
  shows "c' = c1 \<and> r = Inr ()"
proof -
  obtain q where q: "out = Some q" "wire_send_all ps [] = (q, Inr ())" using send_out_sent[OF assms(1)] by blast
  then have "list_all2 (\<lambda>p f. rbind (decode_frame f) decode_packet = Inr p) ps q" using send_all_read[OF q(2) assms(2)] by simp
  from pump_deliver[OF this assms(3,4)] show ?thesis using assms(5) q(1) by simp
qed

lemma sent_first: "send_out (p # ps) (Some q) = (out, Inr ()) \<Longrightarrow> \<exists>b. encode_packet p = Inr b"
  by (auto simp: send_out_def wire_send_def rbind_Inr_iff split: prod.splits sum.splits)

lemma delta_in_step:
  assumes "in_step h c" and "list_all event_ok es" and "list_all (\<lambda>(_, x). reject_ok x) rejects" and "\<forall>x. length (H x) = 32"
    and "host_flush_delta H (ho_tick h) es rejects h = (h', Inr ps)" and "client_pump H (the (ho_out h')) c = (c', rest, r)"
  shows "in_step (h'\<lparr>ho_out := Some []\<rparr>) c' \<and> r = Inr ()"
proof -
  let ?t = "tick_saturating_add (ho_tick h) 1"
  let ?c = "c\<lparr>cl_prefix := fold_prefix H (cl_prefix c) es, cl_tick := ?t\<rparr>"
  obtain out where ps: "ps = delta_packets (ho_tick h) (ho_gen h) es ?t rejects" and sent: "send_out ps (Some []) = (out, Inr ())"
    and h': "h' = h\<lparr>ho_prefix := fold_prefix H (ho_prefix h) es, ho_tick := ?t, ho_out := out\<rparr>"
    using assms(1,5) by (auto simp: host_flush_delta_def in_step_def Let_def rbind_Inr_iff split: prod.splits)
  have "length es \<le> max_events"
    using sent_first[OF sent[unfolded ps delta_packets_def]] by (auto simp: encode_packet_def rbind_Inr_iff split: if_splits)
  then have ok: "list_all packet_ok ps"
    using assms(1,2,3) tick_add_less[of "ho_tick h" 1]
    by (auto simp: ps delta_packets_def delta_events_ok_def in_step_def host_ok_def list_all_iff)
  have "deliver H ps c = (?c, Inr ())"
    using assms(1) deliver_nacks[of ?c H ?t rejects] by (simp add: ps delta_packets_def client_handle.simps in_step_def gen_ok_def)
  then have "c' = ?c" "r = Inr ()"
    using pumped[OF sent ok, of c H ?c c' rest r] assms(1,6) by (auto simp: h' in_step_def)
  then show ?thesis using assms(1,4) fold_prefix_length tick_add_less by (auto simp: in_step_def host_ok_def h')
qed

lemma poses_in_step:
  assumes "in_step h c" and "t < 2 ^ 64" and "\<forall>(s, p, v) \<in> set poses. pose_ok p \<and> vel_ok v"
    and "host_flush_pose t poses h = (h', Inr ps)" and "client_pump H (the (ho_out h')) c = (c', rest, r)"
  shows "in_step (h'\<lparr>ho_out := Some []\<rparr>) c' \<and> r = Inr ()"
proof -
  let ?d = "\<lparr>id_gen = ho_gen h, id_places = [], id_sigils = map fst poses\<rparr>"
  let ?fs = "map (\<lambda>(i, _, p, v). \<lparr>pf_ix = i, pf_pose = p, pf_vel = v\<rparr>) (enumerate 0 poses)"
  let ?c0 = "c\<lparr>cl_awaiting := False, cl_gen := ho_gen h, cl_overlay := overlay_retain (map fst poses) (cl_overlay c), cl_sigils := map fst poses\<rparr>"
  let ?c = "?c0\<lparr>cl_overlay := apply_pose_delta (map fst poses) (FullBlock ?fs) (cl_overlay ?c0)\<rparr>"
  obtain out where len: "length poses \<le> 65535" and ps: "ps = [InterestPkt ?d, PoseDelta t (ho_gen h) (FullBlock ?fs)]"
    and sent: "send_out ps (Some []) = (out, Inr ())" and h': "h' = h\<lparr>ho_out := out\<rparr>"
    using assms(1,4) by (auto simp: host_flush_pose_def in_step_def Let_def rbind_Inr_iff split: prod.splits if_splits)
  have "list_all full_ok ?fs"
  proof -
    have "i < 65536 \<and> pose_ok p \<and> vel_ok v" if mem: "(i, s, p, v) \<in> set (enumerate 0 poses)" for i s p v
    proof -
      have "i < length poses" "poses ! i = (s, p, v)" using mem by (auto simp: in_set_enumerate_eq)
      then have "(s, p, v) \<in> set poses" by (metis nth_mem)
      then show ?thesis using assms(3) len \<open>i < length poses\<close> by auto
    qed
    then show ?thesis by (auto simp: list_all_iff full_ok_def simp del: enumerate_simps)
  qed
  then have ok: "list_all packet_ok ps"
    using assms(1,2) len by (simp add: ps in_step_def host_ok_def max_interest_def del: enumerate_simps)
  have "deliver H ps c = (?c, Inr ())"
    using assms(1) by (simp add: ps client_handle.simps in_step_def gen_ok_def del: apply_pose_delta.simps)
  then have "c' = ?c" "r = Inr ()"
    using pumped[OF sent ok, of c H ?c c' rest r] assms(1,5) by (auto simp: h' in_step_def)
  then show ?thesis using assms(1) by (auto simp: in_step_def host_ok_def h')
qed

lemma pump_one:
  assumes "rbind (decode_frame f) decode_packet = Inr p" and "ho_out h \<noteq> None"
  shows "host_pump E [f] h = (case host_handle E p h of
      (h', Inr replies) \<Rightarrow> (let (out, s) = send_out replies (ho_out h') in (h'\<lparr>ho_out := out\<rparr>, [], s))
    | (h', Inl e) \<Rightarrow> (h', [], if e = NetHelloMismatch \<or> e = NetThirdPlayer then Inr () else Inl e))"
  using assms by (auto simp: Let_def simp del: host_handle.simps split: prod.splits sum.splits)

lemma join_in_step:
  assumes "host_ok h" and "client_ok c" and "ho_out h = Some []" and "ho_remote h = None" and "cl_out c \<noteq> None" and "\<not> cl_disconnected c"
    and "\<not> cl_saw_snapshot c" and "\<not> cl_needs_resync c" and "cl_gen c = ho_gen h" and "wire_send (hello_packet c) [] = Inr q"
    and "host_pump E q h = (h', rest, r)" and "ho_remote h' \<noteq> None" and "r = Inr ()"
    and "client_pump H (the (ho_out h')) c = (c', rest', r')"
  shows "in_step (h'\<lparr>ho_out := Some []\<rparr>) c' \<and> r' = Inr ()"
proof -
  obtain f where f: "q = [f]" "rbind (decode_frame f) decode_packet = Inr (hello_packet c)"
    using wire_send_read[OF assms(10)] assms(2) by (auto simp: client_ok_def hello_packet_def)
  note pump = pump_one[OF f(2), of h E] assms(11)[unfolded f(1)]
  obtain h1 replies where hh: "host_handle E (hello_packet c) h = (h1, Inr replies)"
  proof (cases "host_handle E (hello_packet c) h")
    case (Pair h1 x)
    show ?thesis
    proof (cases x)
      case (Inl e)
      then have "h' = h1" using pump assms(3) Pair by simp
      moreover have "ho_remote h1 = None"
        using Pair Inl assms(4) by (auto simp: hello_packet_def host_disconnect_def split: if_splits sum.splits)
      ultimately show ?thesis using assms(12) by simp
    qed (use that Pair in simp)
  qed
  then obtain k where h1: "h1 = h\<lparr>ho_keys := bt_insert 1 k (ho_keys h), ho_slots := bt_insert 1 None (ho_slots h), ho_remote := Some 1\<rparr>"
    and same: "\<not> ho_disconnected h" "cl_canon c = ho_canon h" "cl_epoch c = ho_epoch h" "cl_stamp c = ho_stamp h"
    and replies: "replies = [Hello (ho_canon h) (ho_epoch h) (ho_stamp h) (kp_bytes (ho_kp h)) 1 (ho_intent_hz h),
       Snapshot (ho_tick h) (ho_epoch h) (ho_canon h) (ho_prefix h) None []]"
    by (auto simp: hello_packet_def host_accept_join_def host_snapshot_packet_def rbind_Inr_iff split: if_splits sum.splits)
  obtain out where sent: "send_out replies (Some []) = (out, Inr ())" and h': "h' = h1\<lparr>ho_out := out\<rparr>"
    using pump assms(3,13) hh h1 by (auto simp: Let_def split: prod.splits)
  have ok: "list_all packet_ok replies" using assms(1) by (simp add: replies host_ok_def max_net_blob_def max_packet_def)
  let ?c = "c\<lparr>cl_player := Some 1, cl_intent_hz := ho_intent_hz h, cl_prefix := ho_prefix h, cl_tick := ho_tick h, cl_saw_snapshot := True\<rparr>"
  have "deliver H replies c = (?c, Inr ())" using same assms(6,7) by (simp add: replies client_handle.simps)
  then have "c' = ?c" "r' = Inr ()" using pumped[OF sent ok assms(5), of H ?c c' rest' r'] assms(14) h' by auto
  then show ?thesis using assms(1,5,6,8,9) by (auto simp: in_step_def host_ok_def h' h1)
qed

lemma linked_in_step:
  assumes "linked H E h c" and "\<forall>x. length (H x) = 32"
  shows "in_step h c"
  using assms(1)
proof (induction rule: linked.induct)
  case (Join h c q h' rest r c' rest' r')
  then show ?case using join_in_step by blast
next
  case (Delta h c es rejects h' ps c' rest r)
  then show ?case using delta_in_step assms(2) by blast
next
  case (Poses h c t poses h' ps c' rest r)
  then show ?case using poses_in_step by blast
next
  case (Ingest h c p s)
  then show ?case by (auto simp: in_step_def host_ok_def host_ingest_signed_def host_queue_def split: option.splits sum.splits)
next
  case (Submit h c i)
  then show ?case by (auto simp: in_step_def host_ok_def host_submit_local_def host_queue_def)
next
  case (Consume h c)
  then show ?case by (auto simp: in_step_def host_ok_def host_consume_def Let_def)
next
  case (Speak h c i)
  then show ?case
    by (auto simp: in_step_def send_intent_def send_out_def Let_def split: option.splits sum.splits prod.splits)
next
  case (Pawn h c s)
  then show ?case by (simp add: in_step_def)
qed

text \<open>
  C9: a client that joined follows its host.  In a session over the wire, after any number of ticks, pose flushes, intents
  and consumes, the client holds the host's tick and trace prefix and is still connected; and the next tick's packets,
  encoded, framed, pumped and decoded, are accepted without an error.
\<close>

theorem client_follows_host:
  assumes "linked H E h c" and "\<forall>x. length (H x) = 32"
  shows "cl_prefix c = ho_prefix h \<and> cl_tick c = ho_tick h \<and> \<not> cl_disconnected c \<and> \<not> cl_needs_resync c
    \<and> (\<forall>es rejects h' ps. list_all event_ok es \<and> list_all (\<lambda>(_, x). reject_ok x) rejects
        \<and> host_flush_delta H (ho_tick h) es rejects h = (h', Inr ps)
        \<longrightarrow> (\<exists>c'. client_pump H (the (ho_out h')) c = (c', [], Inr ()) \<and> cl_prefix c' = ho_prefix h' \<and> cl_tick c' = ho_tick h'))"
proof -
  note step = linked_in_step[OF assms]
  have "\<exists>c'. client_pump H (the (ho_out h')) c = (c', [], Inr ()) \<and> cl_prefix c' = ho_prefix h' \<and> cl_tick c' = ho_tick h'"
    if "list_all event_ok es" "list_all (\<lambda>(_, x). reject_ok x) rejects" "host_flush_delta H (ho_tick h) es rejects h = (h', Inr ps)"
    for es rejects h' ps
  proof -
    obtain c' rest r where p: "client_pump H (the (ho_out h')) c = (c', rest, r)" by (cases "client_pump H (the (ho_out h')) c")
    note d = delta_in_step[OF step that(1,2) assms(2) that(3) p]
    have "rest = []" if "client_pump H fs c = (c', rest, Inr ())" "cl_out c \<noteq> None" for fs :: frames and c
      using that
    proof (induction fs arbitrary: c)
      case (Cons f fs)
      then obtain p c1 where "client_handle H p c = (c1, Inr ())" "client_pump H fs c1 = (c', rest, Inr ())"
        by (auto split: sum.splits prod.splits)
      then show ?case using Cons.IH client_handle_out[of H p c] Cons.prems(2) by simp
    qed simp
    then have "rest = []" using p d step by (auto simp: in_step_def)
    then show ?thesis using p d by (auto simp: in_step_def)
  qed
  then show ?thesis using step by (auto simp: in_step_def)
qed

definition demo_hash :: "byte list \<Rightarrow> digest" where
  "demo_hash x = replicate 32 9"

definition demo_ed :: "unit ed25519" where
  "demo_ed = \<lparr>ed_from_bytes = \<lambda>_. Some (), ed_is_weak = \<lambda>_. False, ed_verify_strict = \<lambda>_ _ _. True\<rparr>"

definition demo_kp :: "unit keypair" where
  "demo_kp = \<lparr>kp_sign = \<lambda>_. replicate 64 5, kp_verifying = (), kp_bytes = replicate 32 2\<rparr>"

definition demo_host :: "unit host" where
  "demo_host = host_attach [] (host_new demo_hash demo_kp (replicate 32 1))"

definition demo_client :: "unit client" where
  "demo_client = (client_new demo_hash demo_kp (replicate 32 1))\<lparr>cl_out := Some []\<rparr>"

lemma small_sends: "encode_payload p = Inr b \<Longrightarrow> length b \<le> max_packet \<Longrightarrow> \<exists>f. wire_send p q = Inr (q @ [f])"
  by (simp add: wire_send_def encode_packet_def encode_frame_def)

lemma demo_linked: "\<exists>h c. linked demo_hash demo_ed h c"
proof -
  let ?h = demo_host and ?c = demo_client
  note defs = demo_host_def demo_client_def host_attach_def host_new_def client_new_def client_with_join_def demo_kp_def
    demo_hash_def compiler_stamp_def genesis_hash_def listen_intent_hz_def
  let ?hello = "hello_packet ?c"
  have ok: "host_ok ?h" "client_ok ?c" by (simp_all add: defs host_ok_def client_ok_def)
  obtain f where f: "wire_send ?hello [] = Inr [f]"
    using small_sends[of ?hello _ "[]"] by (fastforce simp: hello_packet_def defs max_packet_def)
  have read: "rbind (decode_frame f) decode_packet = Inr ?hello"
    using wire_send_read[OF f] ok(2) by (auto simp: client_ok_def hello_packet_def)
  define h1 where "h1 = ?h\<lparr>ho_keys := bt_insert 1 () (ho_keys ?h), ho_slots := bt_insert 1 None (ho_slots ?h), ho_remote := Some 1\<rparr>"
  define r1 where "r1 = Hello (replicate 32 1) 0 (replicate 32 9) (replicate 32 2) 1 20"
  define r2 where "r2 = Snapshot 0 0 (replicate 32 1) (replicate 32 9) None []"
  have handled: "host_handle demo_ed ?hello ?h = (h1, Inr [r1, r2])"
    by (simp add: hello_packet_def host_accept_join_def verifying_key_from_bytes_def demo_ed_def defs h1_def r1_def r2_def
        host_snapshot_packet_def)
  obtain g1 where g1: "wire_send r1 [] = Inr [g1]"
    using small_sends[of r1 _ "[]"] by (fastforce simp: r1_def max_packet_def)
  obtain g2 where g2: "wire_send r2 [g1] = Inr ([g1] @ [g2])"
    using small_sends[of r2 _ "[g1]"] by (fastforce simp: r2_def max_packet_def max_net_blob_def put_opt_sigil_def)
  have sent: "send_out [r1, r2] (ho_out h1) = (Some [g1, g2], Inr ())"
    using g1 g2 by (simp add: h1_def defs send_out_def)
  have pump: "host_pump demo_ed [f] ?h = (h1\<lparr>ho_out := Some [g1, g2]\<rparr>, [], Inr ())"
    using pump_one[OF read, of ?h demo_ed] handled sent by (simp add: defs)
  obtain c' rest r where c: "client_pump demo_hash (the (ho_out (h1\<lparr>ho_out := Some [g1, g2]\<rparr>))) ?c = (c', rest, r)"
    by (cases "client_pump demo_hash (the (ho_out (h1\<lparr>ho_out := Some [g1, g2]\<rparr>))) ?c")
  show ?thesis
    using linked.Join[OF ok _ _ _ _ _ _ _ f pump _ refl c] by (fastforce simp: defs h1_def)
qed

theorem client_follows_host_witness:
  "\<exists>h c. linked demo_hash demo_ed h c \<and> cl_prefix c = ho_prefix h \<and> cl_tick c = ho_tick h \<and> \<not> cl_disconnected c"
proof -
  obtain h c where "linked demo_hash demo_ed h c" using demo_linked by blast
  then show ?thesis using client_follows_host[of demo_hash demo_ed h c] by (auto simp: demo_hash_def)
qed

section \<open>Checkpoints\<close>

text \<open>The events a client takes from a sequence of packets.\<close>

fun taken :: "(byte list \<Rightarrow> digest) \<Rightarrow> packet list \<Rightarrow> 'k client \<Rightarrow> trace_event list" where
  "taken H [] c = []"
| "taken H (p # ps) c =
     (case p of TraceDelta since g es \<Rightarrow> if gen_ok (cl_gen c) g then es else [] | _ \<Rightarrow> []) @ taken H ps (fst (client_handle H p c))"

lemma taken_prefix:
  assumes "deliver H ps c = (c', Inr ())" and "cl_saw_snapshot c" and "\<forall>t e x. Resync t e x \<notin> set ps"
  shows "cl_prefix c' = fold_prefix H (cl_prefix c) (taken H ps c) \<and> cl_saw_snapshot c'"
  using assms
proof (induction ps arbitrary: c)
  case (Cons p ps)
  obtain c1 where c1: "client_handle H p c = (c1, Inr ())" "deliver H ps c1 = (c', Inr ())"
    using Cons.prems(1) by (auto split: prod.splits sum.splits)
  have "cl_saw_snapshot c1 \<and> cl_prefix c1 = fold_prefix H (cl_prefix c)
      (case p of TraceDelta since g es \<Rightarrow> if gen_ok (cl_gen c) g then es else [] | _ \<Rightarrow> [])"
    using c1(1) Cons.prems(2,3) by (cases p) (auto simp: client_handle.simps Let_def split: if_splits)
  moreover from this have "cl_prefix c' = fold_prefix H (cl_prefix c1) (taken H ps c1) \<and> cl_saw_snapshot c'"
    using Cons.IH[OF c1(2)] Cons.prems(3) by simp
  ultimately show ?case using c1(1) by simp
qed simp

text \<open>
  C11: a checkpoint proves the history.  A client that has seen its join snapshot and takes any packets but a resync, sent
  by whom they may be, accepts a snapshot that carries the prefix of the host's log only if the events it took are
  exactly the host's, in order; a changed, dropped, repeated or reordered event disconnects it.
\<close>

theorem checkpoint_proves_history:
  assumes "deliver H (ps @ [Snapshot t epoch canon (fold_prefix H (genesis_hash H) hist) place blob]) c = (c', Inr ())"
    and "cl_saw_snapshot c" and "cl_prefix c = fold_prefix H (genesis_hash H) past" and "\<forall>t e x. Resync t e x \<notin> set ps"
    and "\<forall>x. length (H x) = 32" and "list_all event_ok hist" and "list_all event_ok (past @ taken H ps c)"
    and "inj_on H (hashed H hist \<union> hashed H (past @ taken H ps c))"
  shows "past @ taken H ps c = hist"
proof -
  have split: "deliver H (ps @ qs) c = (c', Inr ()) \<Longrightarrow> \<exists>c1. deliver H ps c = (c1, Inr ()) \<and> deliver H qs c1 = (c', Inr ())" for qs
  proof (induction ps arbitrary: c)
    case (Cons p ps)
    then show ?case by (auto split: prod.splits sum.splits)
  qed simp
  obtain c1 where c1: "deliver H ps c = (c1, Inr ())"
    "deliver H [Snapshot t epoch canon (fold_prefix H (genesis_hash H) hist) place blob] c1 = (c', Inr ())"
    using split[OF assms(1)] by blast
  note t = taken_prefix[OF c1(1) assms(2,4)]
  have "fold_prefix H (genesis_hash H) hist = cl_prefix c1"
    using c1(2) t by (auto simp: client_handle.simps split: if_splits prod.splits sum.splits)
  then have "fold_prefix H (genesis_hash H) hist = fold_prefix H (genesis_hash H) (past @ taken H ps c)"
    using t assms(3) by simp
  moreover have "\<forall>e \<in> set hist \<union> set (past @ taken H ps c). decode_event (encode_event e) = Inr e"
    using assms(6,7) event_decodes by (auto simp: list_all_iff)
  ultimately show ?thesis using prefix_commits[of H hist "past @ taken H ps c"] assms(5,8) by auto
qed

end
