(* ===== verification/NetPoseProps.thy ===== *)
theory NetPoseProps
  imports NetServer TraceProps
begin

text \<open>
  Pose packets: the client's Full baseline is the server's as long as Full blocks arrive, so that any Delta can be
  decoded without the Deltas before it.
\<close>

section \<open>The codebook\<close>

lemma first_ix_Some: "first_ix ds s = Some i \<Longrightarrow> i < length ds \<and> ds ! i = s"
  by (induction ds arbitrary: i) (auto split: if_splits)

lemma first_ix_ex: "s \<in> set ds \<Longrightarrow> \<exists>i. first_ix ds s = Some i"
  by (induction ds) auto

lemma first_ix_inj: "first_ix ds s = Some i \<Longrightarrow> first_ix ds t = Some i \<Longrightarrow> s = t"
  using first_ix_Some by metis

lemma map_poses_set:
  assumes "length ds \<le> 65535"
  shows "(i, p, v) \<in> set (map_poses ds poses) \<longleftrightarrow> (\<exists>s. (s, p, v) \<in> set poses \<and> first_ix ds s = Some i)"
proof -
  have "first_ix ds s = Some k \<Longrightarrow> k mod 65536 = k" for s k using first_ix_Some[of ds s k] assms by simp
  then show ?thesis by (force simp: map_poses_def List.map_filter_def)
qed

lemma map_poses_ix: "length ds \<le> 65535 \<Longrightarrow> (i, p, v) \<in> set (map_poses ds poses) \<Longrightarrow> \<exists>s. first_ix ds s = Some i"
  using map_poses_set by blast

lemma map_poses_distinct:
  assumes "length ds \<le> 65535" "distinct (map fst poses)"
  shows "distinct (map fst (map_poses ds poses))"
  using assms(2)
proof (induction poses)
  case (Cons x poses)
  obtain s p v where x: "x = (s, p, v)" by (cases x)
  show ?case
  proof (cases "first_ix ds s")
    case None
    then show ?thesis using Cons by (simp add: x map_poses_def map_filter_simps)
  next
    case (Some i)
    have i: "i mod 65536 = i" using first_ix_Some[OF Some] assms(1) by simp
    have "i \<notin> fst ` set (map_poses ds poses)"
    proof
      assume "i \<in> fst ` set (map_poses ds poses)"
      then obtain q w where "(i, q, w) \<in> set (map_poses ds poses)" by force
      then obtain t where "(t, q, w) \<in> set poses" "first_ix ds t = Some i" using map_poses_set[OF assms(1)] by blast
      then show False using first_ix_inj[OF Some, of t] Cons.prems x by force
    qed
    moreover have "map_poses ds (x # poses) = (i, p, v) # map_poses ds poses" by (simp add: map_poses_def map_filter_simps x Some i)
    ultimately show ?thesis using Cons.IH Cons.prems by simp
  qed
qed (simp add: map_poses_def map_filter_simps)

section \<open>Deltas\<close>

lemma axis_delta_back: "axis_delta a b = Some d \<Longrightarrow> in_i32 b \<Longrightarrow> wrap32 (a + d) = b"
proof -
  assume "axis_delta a b = Some d" "in_i32 b"
  then have "take_bit 32 (a + d) = take_bit 32 (a + wrap32 (b - a))" by (auto simp: axis_delta_def Let_def split: if_splits)
  also have "\<dots> = take_bit 32 (take_bit 32 a + take_bit 32 (wrap32 (b - a)))" by (simp only: take_bit_add)
  also have "\<dots> = take_bit 32 (take_bit 32 a + take_bit 32 (b - a))" by (simp add: wrap32_def take_bit_signed_take_bit)
  also have "\<dots> = take_bit 32 b" by (simp only: take_bit_add) simp
  finally have "wrap32 (a + d) = wrap32 b" by (simp add: wrap32_def signed_take_bit_eq_iff_take_bit_eq)
  then show ?thesis using \<open>in_i32 b\<close> by (simp add: wrap32_id)
qed

lemma dpose6_back:
  assumes "dpose6 a b = Some d" and "pose_ok b"
  shows "shift_pose a d = b"
proof -
  obtain x y z w p r where d: "axis_delta (px a) (px b) = Some x" "axis_delta (py a) (py b) = Some y" "axis_delta (pz a) (pz b) = Some z"
    "axis_delta (pyaw a) (pyaw b) = Some w" "axis_delta (ppitch a) (ppitch b) = Some p" "axis_delta (proll a) (proll b) = Some r"
    "d = [x, y, z, w, p, r]"
    using assms(1) by (auto simp: dpose6_def Option.bind_eq_Some_conv)
  then show ?thesis
    using assms(2) axis_delta_back by (auto simp: shift_pose_def pose_ok_def)
qed

section \<open>The baseline\<close>

text \<open>Every row of the server's baseline is the row of the locus it indexes in the client's.\<close>

definition base_synced :: "sigil list \<Rightarrow> (nat, pose \<times> vel3) btree \<Rightarrow> overlay \<Rightarrow> bool" where
  "base_synced ds bs ov \<longleftrightarrow>
     (\<forall>i p v. bt_get bs i = Some (p, v) \<longrightarrow> (\<exists>s. first_ix ds s = Some i \<and> bt_get (ov_base ov) s = Some p))"

lemma commit_base [simp]: "ov_base (commit_server_pose s p v) = ov_base v"
  by (simp add: commit_server_pose_def correct_local_def Let_def split: option.splits)

lemma commit_local [simp]: "ov_local (commit_server_pose s p v) = ov_local v"
  by (simp add: commit_server_pose_def correct_local_def Let_def split: option.splits)

lemma commit_shown:
  "overlay_pose (commit_server_pose s p v) t =
     (if t \<noteq> s then overlay_pose v t else if ov_local v = Some s then overlay_pose (commit_server_pose s p v) s else Some p)"
  by (simp add: commit_server_pose_def correct_local_def overlay_pose_def Let_def bt_get_insert split: option.splits)

lemma shown_base [simp]: "overlay_pose (ov\<lparr>ov_base := b\<rparr>) = overlay_pose ov"
  by (simp add: overlay_pose_def fun_eq_iff)

lemma full_row:
  assumes "first_ix ds s = Some i"
  shows "apply_full_row ds \<lparr>pf_ix = i, pf_pose = p, pf_vel = v\<rparr> ov = commit_server_pose s p (ov\<lparr>ov_base := bt_insert s p (ov_base ov)\<rparr>)"
  using first_ix_Some[OF assms] by (simp add: apply_full_row_def nth_opt_def)

lemma full_rows:
  assumes "\<forall>(i, p, v) \<in> set ms. \<exists>s. first_ix ds s = Some i" and "base_synced ds bs ov"
  shows "base_synced ds (fold (\<lambda>(i, p, v). bt_insert i (p, v)) ms bs)
      (fold (apply_full_row ds) (map (\<lambda>(i, p, v). \<lparr>pf_ix = i, pf_pose = p, pf_vel = v\<rparr>) ms) ov)"
  using assms
proof (induction ms arbitrary: bs ov)
  case (Cons m ms)
  obtain i p v where m: "m = (i, p, v)" by (cases m)
  obtain s where s: "first_ix ds s = Some i" using Cons.prems(1) m by auto
  let ?ov = "commit_server_pose s p (ov\<lparr>ov_base := bt_insert s p (ov_base ov)\<rparr>)"
  have "base_synced ds (bt_insert i (p, v) bs) ?ov"
    unfolding base_synced_def
  proof (intro allI impI)
    fix k q w assume k: "bt_get (bt_insert i (p, v) bs) k = Some (q, w)"
    show "\<exists>t. first_ix ds t = Some k \<and> bt_get (ov_base ?ov) t = Some q"
    proof (cases "k = i")
      case True
      then show ?thesis using k s by (auto simp: bt_get_insert)
    next
      case False
      then obtain t where "first_ix ds t = Some k" "bt_get (ov_base ov) t = Some q"
        using k Cons.prems(2) by (auto simp: bt_get_insert base_synced_def)
      moreover then have "t \<noteq> s" using False s by auto
      ultimately show ?thesis by (auto simp: bt_get_insert)
    qed
  qed
  then have "base_synced ds (fold (\<lambda>(i, p, v). bt_insert i (p, v)) ms (bt_insert i (p, v) bs))
      (fold (apply_full_row ds) (map (\<lambda>(i, p, v). \<lparr>pf_ix = i, pf_pose = p, pf_vel = v\<rparr>) ms) ?ov)"
    using Cons.IH[of "bt_insert i (p, v) bs" ?ov] Cons.prems(1) by simp
  then show ?case by (simp add: m full_row[OF s])
qed simp

lemma full_rows_local: "ov_local (fold (apply_full_row ds) es ov) = ov_local ov"
  by (induction es arbitrary: ov) (simp_all add: apply_full_row_def split: option.splits)




section \<open>Delta rows\<close>

lemma delta_row:
  assumes "first_ix ds s = Some i" and "bt_get (ov_base ov) s = Some b"
  shows "apply_delta_row ds \<lparr>pe_ix = i, pe_dpose = d\<rparr> ov = commit_server_pose s (shift_pose b d) ov"
  using first_ix_Some[OF assms(1)] assms(2) by (simp add: apply_delta_row_def nth_opt_def)

lemma delta_row_keeps [simp]:
  "ov_base (apply_delta_row ds e ov) = ov_base ov" "ov_local (apply_delta_row ds e ov) = ov_local ov"
  by (simp_all add: apply_delta_row_def split: option.splits)

lemma delta_rows_keep [simp]:
  "ov_base (fold (apply_delta_row ds) es ov) = ov_base ov" "ov_local (fold (apply_delta_row ds) es ov) = ov_local ov"
  by (induction es arbitrary: ov) simp_all

lemma delta_row_shown: "nth_opt ds (pe_ix e) \<noteq> Some s \<Longrightarrow> overlay_pose (apply_delta_row ds e ov) s = overlay_pose ov s"
  by (auto simp: apply_delta_row_def commit_shown split: option.splits)

lemma delta_rows_shown_other:
  "\<forall>e \<in> set es. nth_opt ds (pe_ix e) \<noteq> Some s \<Longrightarrow> overlay_pose (fold (apply_delta_row ds) es ov) s = overlay_pose ov s"
  by (induction es arbitrary: ov) (simp_all add: delta_row_shown)

text \<open>What the rows are: one for each mover that is not at its base pose.\<close>

lemma delta_rows_Cons:
  "delta_rows bs ((i, p, v) # ms) = Some es \<longleftrightarrow>
   (\<exists>lp w fs. bt_get bs i = Some (lp, w) \<and> delta_rows bs ms = Some fs
     \<and> (if lp = p then es = fs else \<exists>d. dpose6 lp p = Some d \<and> es = \<lparr>pe_ix = i, pe_dpose = d\<rparr> # fs))"
  by (auto simp: Option.bind_eq_Some_conv split: option.splits)

lemma delta_rows_from:
  "delta_rows bs ms = Some es \<Longrightarrow> e \<in> set es \<Longrightarrow>
   \<exists>p v lp w. (pe_ix e, p, v) \<in> set ms \<and> bt_get bs (pe_ix e) = Some (lp, w) \<and> lp \<noteq> p"
proof (induction ms arbitrary: es)
  case (Cons m ms)
  obtain i p v where m: "m = (i, p, v)" by (cases m)
  obtain lp w fs where r: "bt_get bs i = Some (lp, w)" "delta_rows bs ms = Some fs"
    "if lp = p then es = fs else \<exists>d. dpose6 lp p = Some d \<and> es = \<lparr>pe_ix = i, pe_dpose = d\<rparr> # fs"
    using Cons.prems(1) unfolding m delta_rows_Cons by blast
  consider "e \<in> set fs" | "pe_ix e = i" "lp \<noteq> p" using r(3) Cons.prems(2) by (auto split: if_splits)
  then show ?case
  proof cases
    case 1
    then show ?thesis using Cons.IH[OF r(2)] by fastforce
  next
    case 2
    then show ?thesis using r(1) m by auto
  qed
qed simp

lemma delta_rows_for:
  "delta_rows bs ms = Some es \<Longrightarrow> (i, p, v) \<in> set ms \<Longrightarrow>
   \<exists>lp w. bt_get bs i = Some (lp, w) \<and> (lp = p \<or> (\<exists>d. dpose6 lp p = Some d \<and> \<lparr>pe_ix = i, pe_dpose = d\<rparr> \<in> set es))"
proof (induction ms arbitrary: es)
  case (Cons m ms)
  obtain k q u where m: "m = (k, q, u)" by (cases m)
  obtain lp w fs where r: "bt_get bs k = Some (lp, w)" "delta_rows bs ms = Some fs"
    "if lp = q then es = fs else \<exists>d. dpose6 lp q = Some d \<and> es = \<lparr>pe_ix = k, pe_dpose = d\<rparr> # fs"
    using Cons.prems(1) unfolding m delta_rows_Cons by blast
  show ?case
  proof (cases "(i, p, v) \<in> set ms")
    case True
    then show ?thesis using Cons.IH[OF r(2)] r(3) by (fastforce split: if_splits)
  next
    case False
    then show ?thesis using Cons.prems(2) m r(1,3) by (auto split: if_splits)
  qed
qed simp

lemma delta_rows_distinct: "delta_rows bs ms = Some es \<Longrightarrow> distinct (map fst ms) \<Longrightarrow> distinct (map pe_ix es)"
proof (induction ms arbitrary: es)
  case (Cons m ms)
  obtain i p v where m: "m = (i, p, v)" by (cases m)
  obtain lp w fs where r: "delta_rows bs ms = Some fs"
    "if lp = p then es = fs else \<exists>d. dpose6 lp p = Some d \<and> es = \<lparr>pe_ix = i, pe_dpose = d\<rparr> # fs"
    using Cons.prems(1) unfolding m delta_rows_Cons by blast
  have "i \<notin> pe_ix ` set fs" using delta_rows_from[OF r(1)] Cons.prems(2) m by force
  then show ?case using Cons.IH[OF r(1)] r(2) Cons.prems(2) m by (auto split: if_splits)
qed simp

section \<open>A server slot and the overlay it feeds\<close>

text \<open>
  From a fresh slot on (a join, a new codebook or a resync empties its baseline), the packets of each pose flush arrive,
  or are lost if they are Deltas; the client may change its local pawn and its snap distance at any time.
\<close>

inductive pose_link :: "sigil list \<Rightarrow> 'k joined \<Rightarrow> overlay \<Rightarrow> bool" for ds where
  Fresh: "id_sigils (jn_interest j) = ds \<Longrightarrow> jn_base j = [] \<Longrightarrow> pose_link ds j ov"
| Arrives: "pose_link ds j ov \<Longrightarrow> flush_slot poses t j = (b, j') \<Longrightarrow> pose_link ds j' (apply_pose_delta ds b ov)"
| Lost: "pose_link ds j ov \<Longrightarrow> flush_slot poses t j = (DeltaBlock es, j') \<Longrightarrow> pose_link ds j' ov"
| Pawn: "pose_link ds j ov \<Longrightarrow> pose_link ds j (set_local s ov)"
| Snap: "pose_link ds j ov \<Longrightarrow> pose_link ds j (set_snap_mm k ov)"

lemma flush_slot_full:
  assumes "flush_slot poses t j = (FullBlock fs, j')" and "ds = id_sigils (jn_interest j)"
  shows "fs = map (\<lambda>(i, p, v). \<lparr>pf_ix = i, pf_pose = p, pf_vel = v\<rparr>) (map_poses ds poses)"
    and "jn_base j' = fold (\<lambda>(i, p, v). bt_insert i (p, v)) (map_poses ds poses) (jn_base j)"
    and "jn_interest j' = jn_interest j"
  using assms by (auto simp: flush_slot_def build_pose_block_def full_block_def update_full_base_def Let_def
      split: if_splits option.splits)

lemma flush_slot_delta:
  assumes "flush_slot poses t j = (DeltaBlock es, j')" and "ds = id_sigils (jn_interest j)"
  shows "delta_rows (jn_base j) (map_poses ds poses) = Some es" and "jn_base j' = jn_base j" and "jn_interest j' = jn_interest j"
  using assms by (auto simp: flush_slot_def build_pose_block_def full_block_def Let_def split: if_splits option.splits)

lemma base_synced_previous [simp]: "base_synced ds bs (ov\<lparr>ov_previous := m\<rparr>) = base_synced ds bs ov"
  by (simp add: base_synced_def)

lemma apply_full:
  "apply_pose_delta ds (FullBlock fs) ov
     = (if fs = [] then ov else fold (apply_full_row ds) fs (ov\<lparr>ov_previous := ov_current ov\<rparr>))"
  by simp

lemma link_synced:
  assumes "pose_link ds j ov" and "length ds \<le> 65535"
  shows "id_sigils (jn_interest j) = ds \<and> base_synced ds (jn_base j) ov"
  using assms(1)
proof (induction rule: pose_link.induct)
  case (Arrives j ov poses t b j')
  show ?case
  proof (cases b)
    case (FullBlock fs)
    note f = flush_slot_full[OF Arrives.hyps(2)[unfolded FullBlock] refl]
    have "\<forall>(i, p, v) \<in> set (map_poses ds poses). \<exists>s. first_ix ds s = Some i"
      using map_poses_ix[OF assms(2)] by blast
    then show ?thesis
      using full_rows[of "map_poses ds poses" ds "jn_base j" "ov\<lparr>ov_previous := ov_current ov\<rparr>"] Arrives.IH f FullBlock by auto
  next
    case (DeltaBlock es)
    then show ?thesis using flush_slot_delta[OF Arrives.hyps(2)[unfolded DeltaBlock] refl] Arrives.IH
      by (auto simp: base_synced_def)
  qed
next
  case (Lost j ov poses t es j')
  then show ?case using flush_slot_delta[OF Lost.hyps(2) refl] by (auto simp: base_synced_def)
qed (simp_all add: base_synced_def set_local_def set_snap_mm_def)

lemma shown_previous [simp]: "overlay_pose (ov\<lparr>ov_previous := m\<rparr>) = overlay_pose ov"
  by (simp add: overlay_pose_def fun_eq_iff)

lemma delta_shown:
  assumes "base_synced ds bs ov" and "delta_rows bs ms = Some es" and "distinct (map fst ms)" and "(i, p, v) \<in> set ms"
    and "first_ix ds s = Some i" and "ov_local ov \<noteq> Some s" and "pose_ok p" and "\<forall>(i, p, v) \<in> set ms. \<exists>s. first_ix ds s = Some i"
  shows "overlay_pose (fold (apply_delta_row ds) es ov) s = (if \<exists>w. bt_get bs i = Some (p, w) then overlay_pose ov s else Some p)"
proof -
  obtain lp w where b: "bt_get bs i = Some (lp, w)" "lp = p \<or> (\<exists>d. dpose6 lp p = Some d \<and> \<lparr>pe_ix = i, pe_dpose = d\<rparr> \<in> set es)"
    using delta_rows_for[OF assms(2,4)] by blast
  obtain s' where "first_ix ds s' = Some i" "bt_get (ov_base ov) s' = Some lp" using assms(1) b(1) unfolding base_synced_def by blast
  then have base: "bt_get (ov_base ov) s = Some lp" using first_ix_inj[OF assms(5)] by blast
  have ix: "pe_ix e = i" if mem: "e \<in> set es" and at: "nth_opt ds (pe_ix e) = Some s" for e
  proof -
    obtain q u where "(pe_ix e, q, u) \<in> set ms" using delta_rows_from[OF assms(2) mem] by blast
    then obtain t where t: "first_ix ds t = Some (pe_ix e)" using assms(8) by blast
    then have "t = s" using first_ix_Some[OF t] at by (simp add: nth_opt_def split: if_splits)
    then show ?thesis using t assms(5) by simp
  qed
  show ?thesis
  proof (cases "lp = p")
    case True
    have "i \<notin> pe_ix ` set es"
    proof
      assume "i \<in> pe_ix ` set es"
      then obtain e where e: "e \<in> set es" "pe_ix e = i" by auto
      obtain q u where "(i, q, u) \<in> set ms" "q \<noteq> lp" using delta_rows_from[OF assms(2) e(1)] b(1) e(2) by auto
      then show False using assms(3,4) True by (auto dest: eq_key_imp_eq_value)
    qed
    then show ?thesis using ix delta_rows_shown_other[of es ds s ov] b(1) True by fastforce
  next
    case False
    then obtain d where d: "dpose6 lp p = Some d" "\<lparr>pe_ix = i, pe_dpose = d\<rparr> \<in> set es" using b(2) by blast
    then obtain as cs where es: "es = as @ \<lparr>pe_ix = i, pe_dpose = d\<rparr> # cs" by (meson split_list)
    have "distinct (map pe_ix es)" by (rule delta_rows_distinct[OF assms(2,3)])
    then have "i \<notin> pe_ix ` set cs" using es by auto
    then have "\<forall>e \<in> set cs. nth_opt ds (pe_ix e) \<noteq> Some s" using ix es by fastforce
    then have "overlay_pose (fold (apply_delta_row ds) es ov) s = Some p"
      using dpose6_back[OF d(1) assms(7)] assms(6)
      by (simp add: es delta_rows_shown_other delta_row[OF assms(5)] base commit_shown)
    then show ?thesis using b(1) False by auto
  qed
qed

lemma apply_local: "ov_local (apply_pose_delta ds b ov) = ov_local ov"
  by (cases b) (simp_all add: full_rows_local)

lemma flush_delta_shown:
  assumes "pose_link ds j ov" and "length ds \<le> 65535" and "distinct (map fst poses)" and "\<forall>(s, p, v) \<in> set poses. pose_ok p"
    and "flush_slot poses t j = (DeltaBlock es, j')" and "(s, p, v) \<in> set poses" and "first_ix ds s = Some i" and "ov_local ov \<noteq> Some s"
  shows "overlay_pose (apply_pose_delta ds (DeltaBlock es) ov) s
    = (if \<exists>w. bt_get (jn_base j) i = Some (p, w) then overlay_pose ov s else Some p)"
proof -
  note synced = link_synced[OF assms(1,2)]
  let ?ms = "map_poses ds poses" let ?ov = "ov\<lparr>ov_previous := ov_current ov\<rparr>"
  have mem: "(i, p, v) \<in> set ?ms" using map_poses_set[OF assms(2)] assms(6,7) by blast
  have ix: "\<forall>(i, p, v) \<in> set ?ms. \<exists>s. first_ix ds s = Some i" using map_poses_ix[OF assms(2)] by blast
  have rows: "delta_rows (jn_base j) ?ms = Some es" using flush_slot_delta(1)[OF assms(5), of ds] synced by simp
  have "overlay_pose (fold (apply_delta_row ds) es ?ov) s = (if \<exists>w. bt_get (jn_base j) i = Some (p, w) then overlay_pose ov s else Some p)"
    using delta_shown[OF _ rows map_poses_distinct[OF assms(2,3)] mem assms(7) _ _ ix, of ?ov] synced assms(4,6,8) by auto
  moreover have "es = [] \<Longrightarrow> \<exists>w. bt_get (jn_base j) i = Some (p, w)" using delta_rows_for[OF rows mem] by auto
  ultimately show ?thesis by auto
qed

lemma full_base:
  fixes ms :: "mover list"
  shows "distinct (map fst ms) \<Longrightarrow> (i, p, v) \<in> set ms \<Longrightarrow> bt_get (fold (\<lambda>(i, p, v). bt_insert i (p, v)) ms bs) i = Some (p, v)"
proof (induction ms arbitrary: bs)
  case (Cons m ms)
  obtain k q u where m: "m = (k, q, u)" by (cases m)
  have keep: "k \<notin> fst ` set ms \<Longrightarrow> bt_get (fold (\<lambda>(i, p, v). bt_insert i (p, v)) ms bs) k = bt_get bs k" for bs :: "(nat, pose \<times> vel3) btree"
    by (induction ms arbitrary: bs) (auto simp: bt_get_insert)
  show ?case using Cons keep by (auto simp: m bt_get_insert)
qed simp

section \<open>What the client shows\<close>


definition at_x :: "int \<Rightarrow> pose" where
  "at_x x = pose_new x 0 0 0"

definition still :: vel3 where
  "still = \<lparr>v3x = 0, v3y = 0, v3z = 0\<rparr>"

definition fresh_slot :: "unit joined" where
  "fresh_slot = \<lparr>jn_vk = (), jn_intent = None, jn_interest = \<lparr>id_gen = 1, id_places = [], id_sigils = [7]\<rparr>, jn_base = [],
     jn_full_at = None, jn_send_full = True\<rparr>"

definition based_slot :: "unit joined" where
  "based_slot = fresh_slot\<lparr>jn_base := [(0, at_x 0, still)], jn_full_at := Some 0, jn_send_full := False\<rparr>"

lemmas slot_defs = flush_slot_def build_pose_block_def map_poses_def map_filter_simps full_block_def update_full_base_def
  fresh_slot_def based_slot_def Let_def pose_full_refresh_ticks_def

lemma first_flush: "flush_slot [(7, at_x 0, still)] 0 fresh_slot = (FullBlock [\<lparr>pf_ix = 0, pf_pose = at_x 0, pf_vel = still\<rparr>], based_slot)"
  by (simp add: slot_defs)

lemma moved_flush: "flush_slot [(7, at_x 5, still)] 1 based_slot = (DeltaBlock [\<lparr>pe_ix = 0, pe_dpose = [5, 0, 0, 0, 0, 0]\<rparr>], based_slot)"
  by (simp add: slot_defs at_x_def pose_new_def dpose6_def axis_delta_def wrap32_id in_i32_def)

lemma back_flush: "flush_slot [(7, at_x 0, still)] 2 based_slot = (DeltaBlock [], based_slot)"
  by (simp add: slot_defs)


text \<open>
  C38: A mover that returns to its baseline stays displaced.  Take any mover that a Full block sent at \<open>P\<close> and that a Delta
  then showed at another pose \<open>Q\<close>: when it is back at \<open>P\<close> and the next packet is a Delta, as it is within the 30 ticks of
  a refresh unless another mover forces a Full block, the client has received every packet and shows it at \<open>Q\<close>.
\<close>

theorem returned_mover_displaced:
  assumes "pose_link ds j ov" and "length ds \<le> 65535" and "s \<in> set ds" and "ov_local ov \<noteq> Some s"
    and "\<And>poses. poses \<in> {ps, ps', ps''} \<Longrightarrow> distinct (map fst poses) \<and> (\<forall>(s, p, v) \<in> set poses. pose_ok p)"
    and "flush_slot ps t j = (FullBlock fs, j1)" and "(s, P, v) \<in> set ps"
    and "flush_slot ps' t' j1 = (DeltaBlock es, j2)" and "(s, Q, v') \<in> set ps'" and "Q \<noteq> P"
    and "flush_slot ps'' t'' j2 = (DeltaBlock es', j3)" and "(s, P, v'') \<in> set ps''"
  shows "overlay_pose (fold (apply_pose_delta ds) [FullBlock fs, DeltaBlock es, DeltaBlock es'] ov) s = Some Q"
proof -
  let ?ov1 = "apply_pose_delta ds (FullBlock fs) ov" let ?ov2 = "apply_pose_delta ds (DeltaBlock es) ?ov1"
  have l1: "pose_link ds j1 ?ov1" by (rule Arrives[OF assms(1,6)])
  have l2: "pose_link ds j2 ?ov2" by (rule Arrives[OF l1 assms(8)])
  obtain i where i: "first_ix ds s = Some i" using first_ix_ex[OF assms(3)] by blast
  have local: "ov_local ?ov1 \<noteq> Some s" "ov_local ?ov2 \<noteq> Some s" unfolding apply_local by (rule assms(4))+
  have ok: "distinct (map fst ps) \<and> (\<forall>(s, p, v) \<in> set ps. pose_ok p)" "distinct (map fst ps') \<and> (\<forall>(s, p, v) \<in> set ps'. pose_ok p)"
    "distinct (map fst ps'') \<and> (\<forall>(s, p, v) \<in> set ps''. pose_ok p)" by (intro assms(5); simp)+
  have ds: "ds = id_sigils (jn_interest j)" using link_synced[OF assms(1,2)] by simp
  have "(i, P, v) \<in> set (map_poses ds ps)" using map_poses_set[OF assms(2)] assms(7) i by blast
  then have base: "bt_get (jn_base j1) i = Some (P, v)"
    using flush_slot_full(2)[OF assms(6) ds] full_base map_poses_distinct[OF assms(2)] ok(1) by metis
  have same: "jn_base j2 = jn_base j1" using flush_slot_delta(2)[OF assms(8) refl] .
  have "overlay_pose ?ov2 s = Some Q"
    using flush_delta_shown[OF l1 assms(2) _ _ assms(8,9) i local(1)] ok(2) base assms(10) by auto
  moreover have "overlay_pose (apply_pose_delta ds (DeltaBlock es') ?ov2) s = overlay_pose ?ov2 s"
    using flush_delta_shown[OF l2 assms(2) _ _ assms(11,12) i local(2)] ok(3) base same by auto
  ultimately show ?thesis by simp
qed

theorem returned_mover_displaced_witness:
  "at_x 5 \<noteq> at_x 0 \<and> flush_slot [(7, at_x 0, still)] 2 based_slot = (DeltaBlock [], based_slot)
   \<and> overlay_pose (fold (apply_pose_delta [7]) [FullBlock [\<lparr>pf_ix = 0, pf_pose = at_x 0, pf_vel = still\<rparr>],
        DeltaBlock [\<lparr>pe_ix = 0, pe_dpose = [5, 0, 0, 0, 0, 0]\<rparr>], DeltaBlock []] overlay_new) 7 = Some (at_x 5)"
proof -
  have link: "pose_link [7] fresh_slot overlay_new" by (rule Fresh) (simp_all add: fresh_slot_def)
  have moved: "at_x 5 \<noteq> at_x 0" by (simp add: at_x_def pose_new_def)
  have ok: "pose_ok (at_x 5)" "pose_ok (at_x 0)" by (simp_all add: pose_ok_def at_x_def pose_new_def in_i32_def)
  have "overlay_pose (fold (apply_pose_delta [7]) [FullBlock [\<lparr>pf_ix = 0, pf_pose = at_x 0, pf_vel = still\<rparr>],
        DeltaBlock [\<lparr>pe_ix = 0, pe_dpose = [5, 0, 0, 0, 0, 0]\<rparr>], DeltaBlock []] overlay_new) 7 = Some (at_x 5)"
    by (rule returned_mover_displaced[OF link _ _ _ _ first_flush _ moved_flush _ moved back_flush])
      (use ok in \<open>auto simp: overlay_new_def\<close>)
  then show ?thesis using moved back_flush by blast
qed

end
