(* ===== verification/NetClaims.thy ===== *)
theory NetClaims
  imports NetSessionProps NetPoseProps
begin

text \<open>
  Checkpoints at work, the authenticity of the intents a dedicated server hands out, and a session that a skipped
  codebook generation ends.
\<close>

section \<open>A checkpoint\<close>

definition watching_client :: "unit client" where
  "watching_client = demo_client\<lparr>cl_prefix := genesis_hash length_hash, cl_saw_snapshot := True\<rparr>"

theorem checkpoint_proves_history_witness:
  "\<exists>c'. deliver length_hash ([TraceDelta 0 0 [save_event 3]]
      @ [Snapshot 1 0 (cl_canon watching_client) (fold_prefix length_hash (genesis_hash length_hash) [save_event 3]) None []])
      watching_client = (c', Inr ()) \<and> [] @ taken length_hash [TraceDelta 0 0 [save_event 3]] watching_client = [save_event 3]"
proof -
  have gen: "taken length_hash [TraceDelta 0 0 [save_event 3]] watching_client = [save_event 3]"
    by (simp add: watching_client_def demo_client_def client_new_def client_with_join_def gen_ok_def)
  have "\<exists>c'. deliver length_hash ([TraceDelta 0 0 [save_event 3]]
      @ [Snapshot 1 0 (cl_canon watching_client) (fold_prefix length_hash (genesis_hash length_hash) [save_event 3]) None []])
      watching_client = (c', Inr ())"
    by (simp add: watching_client_def demo_client_def client_new_def client_with_join_def gen_ok_def client_handle.simps)
  then obtain c' where c': "deliver length_hash ([TraceDelta 0 0 [save_event 3]]
      @ [Snapshot 1 0 (cl_canon watching_client) (fold_prefix length_hash (genesis_hash length_hash) [save_event 3]) None []])
      watching_client = (c', Inr ())" by blast
  have ok: "list_all event_ok [save_event 3]" by (simp add: save_event_def event_ok_def range_defs)
  have "[] @ taken length_hash [TraceDelta 0 0 [save_event 3]] watching_client = [save_event 3]"
    by (rule checkpoint_proves_history[OF c']) (use gen ok length_hash_inj in \<open>simp_all add: watching_client_def length_hash_def\<close>)
  then show ?thesis using c' by blast
qed

section \<open>Where intents come from\<close>

text \<open>Some signed packet for which the key vouches carries the intent, but for the slot and the clamped sticks.\<close>

definition authentic :: "'k ed25519 \<Rightarrow> 'k \<Rightarrow> nat \<Rightarrow> player_intent \<Rightarrow> bool" where
  "authentic E k p i \<longleftrightarrow> (\<exists>x b s. intent_ok x \<and> encode_player_intent x = Inr b \<and> ed_verify_strict E k b s
     \<and> i = x\<lparr>pi_player := p, pi_analog := clamp_analog (pi_analog x)\<rparr>)"

lemma authentic_analog: "authentic E k p i \<Longrightarrow> \<exists>a. pi_analog i = clamp_analog a"
  by (auto simp: authentic_def)

lemma verify_intent_Inr:
  "verify_intent E k s = Inr x \<Longrightarrow> \<exists>b. intent_ok x \<and> encode_player_intent x = Inr b \<and> ed_verify_strict E k b (si_signature s)"
  by (auto simp: verify_intent_def verify_bytes_def rbind_Inr_iff decode_intent_iff split: if_splits)

text \<open>A key that joined.\<close>

definition joined_ok :: "'k ed25519 \<Rightarrow> nat \<Rightarrow> 'k joined \<Rightarrow> bool" where
  "joined_ok E p j \<longleftrightarrow> (\<exists>b. verifying_key_from_bytes E b = Inr (jn_vk j)) \<and> (\<forall>i. jn_intent j = Some i \<longrightarrow> authentic E (jn_vk j) p i)"

lemma joined_ok_player: "joined_ok E p j \<Longrightarrow> jn_intent j = Some i \<Longrightarrow> pi_player i = p"
  by (auto simp: joined_ok_def authentic_def)

definition slots_ok :: "'k ed25519 \<Rightarrow> (nat, 'k joined) btree \<Rightarrow> bool" where
  "slots_ok E m \<longleftrightarrow> bt_sorted m \<and> (\<forall>(p, j) \<in> set m. joined_ok E p j)"

definition server_ok :: "'k ed25519 \<Rightarrow> 'k server \<Rightarrow> bool" where
  "server_ok E v \<longleftrightarrow> slots_ok E (sv_joined v) \<and> length (sv_joined v) = sv_next_slot v \<and> sv_next_slot v \<le> max_dedicated_players
     \<and> fst ` set (sv_joined v) \<subseteq> {..<sv_next_slot v}"

text \<open>What can be done to a dedicated server.\<close>

inductive server_run :: "(byte list \<Rightarrow> digest) \<Rightarrow> 'k ed25519 \<Rightarrow> 'k server \<Rightarrow> bool" for H E where
  New: "server_run H E (server_new H kp canon epoch hz)"
| Attach: "server_run H E v \<Longrightarrow> server_run H E (server_attach q v)"
| Install: "server_run H E v \<Longrightarrow> server_install_epoch canon epoch v = Inr v' \<Longrightarrow> server_run H E v'"
| SetPrefix: "server_run H E v \<Longrightarrow> server_run H E (server_set_prefix p v)"
| JoinS: "server_run H E v \<Longrightarrow> server_accept_join E b v = Inr (i, v') \<Longrightarrow> server_run H E v'"
| SetInterest: "server_run H E v \<Longrightarrow> server_run H E (fst (server_set_interest p d v))"
| IngestS: "server_run H E v \<Longrightarrow> server_run H E (fst (server_ingest_signed E p s v))"
| ConsumeS: "server_run H E v \<Longrightarrow> server_run H E (snd (server_consume v))"
| FlushDelta: "server_run H E v \<Longrightarrow> server_run H E (fst (server_flush_delta H t es rejects v))"
| FlushPose: "server_run H E v \<Longrightarrow> server_run H E (fst (server_flush_pose p t poses v))"
| ResyncS: "server_run H E v \<Longrightarrow> server_run H E (fst (server_resync p v))"
| DesyncS: "server_run H E v \<Longrightarrow> server_run H E (server_record_desync v)"
| Handle: "server_run H E v \<Longrightarrow> server_run H E (fst (server_handle E pkt v))"
| PumpS: "server_run H E v \<Longrightarrow> server_run H E (fst (server_pump E fs v))"

lemma send_to_slots [simp]:
  "sv_joined (fst (send_to p ps v)) = sv_joined v" "sv_next_slot (fst (send_to p ps v)) = sv_next_slot v"
  by (simp_all add: send_to_def split: prod.splits)

lemma flush_to_slots [simp]:
  "sv_joined (fst (flush_to js t es rejects v all)) = sv_joined v" "sv_next_slot (fst (flush_to js t es rejects v all)) = sv_next_slot v"
proof (induction js t es rejects v all rule: flush_to.induct)
  case (2 p j js since es rejects v all)
  let ?x = "send_to p (delta_packets since (id_gen (jn_interest j)) es (sv_tick v) rejects) v"
  obtain v' r where x: "?x = (v', r)" by (cases ?x)
  then have "sv_joined v' = sv_joined v" "sv_next_slot v' = sv_next_slot v" using send_to_slots by (metis fst_conv)+
  then show "sv_joined (fst (flush_to ((p, j) # js) since es rejects v all)) = sv_joined v"
    "sv_next_slot (fst (flush_to ((p, j) # js) since es rejects v all)) = sv_next_slot v"
    using 2 x by (auto simp: Let_def split: sum.splits)
qed simp_all

lemma slots_insert: "slots_ok E m \<Longrightarrow> joined_ok E p j \<Longrightarrow> slots_ok E (bt_insert p j m)"
proof -
  assume m: "slots_ok E m" and j: "joined_ok E p j"
  have "joined_ok E q x" if "(q, x) \<in> set (bt_insert p j m)" for q x
    using that m j bt_get_in[of "bt_insert p j m" q x] bt_get_Some_in[of m q x]
    by (auto simp: slots_ok_def bt_get_insert split: if_splits)
  then show ?thesis using m by (auto simp: slots_ok_def)
qed

lemma server_ok_replace:
  assumes "server_ok E v" and "bt_get (sv_joined v) p = Some j" and "joined_ok E p j'"
    and "sv_joined v' = bt_insert p j' (sv_joined v)" and "sv_next_slot v' = sv_next_slot v"
  shows "server_ok E v'"
proof -
  have sorted: "bt_sorted (sv_joined v)" using assms(1) by (simp add: server_ok_def slots_ok_def)
  have "fst ` set (bt_insert p j' (sv_joined v)) = fst ` set (sv_joined v)"
    using bt_get_Some_in[OF assms(2)] by force
  moreover have "length (bt_insert p j' (sv_joined v)) = length (sv_joined v)"
    using length_bt_insert[OF sorted, of p j'] assms(2) by simp
  moreover have "slots_ok E (bt_insert p j' (sv_joined v))"
    using slots_insert[OF _ assms(3)] assms(1) by (simp add: server_ok_def)
  ultimately show ?thesis using assms(1,4,5) by (simp add: server_ok_def)
qed

lemma joined_of: "server_ok E v \<Longrightarrow> bt_get (sv_joined v) p = Some j \<Longrightarrow> joined_ok E p j"
  using bt_get_Some_in[of "sv_joined v" p j] by (auto simp: server_ok_def slots_ok_def)

lemma server_ok_same: "server_ok E v \<Longrightarrow> sv_joined v' = sv_joined v \<Longrightarrow> sv_next_slot v' = sv_next_slot v \<Longrightarrow> server_ok E v'"
  by (simp add: server_ok_def)

lemma ok_join:
  assumes "server_ok E v" and "server_accept_join E b v = Inr (i, v')"
  shows "server_ok E v'"
proof -
  obtain k where k: "verifying_key_from_bytes E b = Inr k" "length (sv_joined v) < max_dedicated_players" "i = sv_next_slot v"
    "sv_next_slot v' = min 255 (sv_next_slot v + 1)"
    "sv_joined v' = bt_insert i \<lparr>jn_vk = k, jn_intent = None, jn_interest = empty_dict, jn_base = [], jn_full_at = None, jn_send_full = True\<rparr> (sv_joined v)"
    using assms(2) by (auto simp: server_accept_join_def rbind_Inr_iff Let_def split: if_splits)
  let ?j = "\<lparr>jn_vk = k, jn_intent = None, jn_interest = empty_dict, jn_base = [], jn_full_at = None, jn_send_full = True\<rparr>"
  have sorted: "bt_sorted (sv_joined v)" using assms(1) by (simp add: server_ok_def slots_ok_def)
  have "bt_get (sv_joined v) i = None" using assms(1) k(3) by (auto simp: bt_get_None_iff server_ok_def)
  then have "length (bt_insert i ?j (sv_joined v)) = Suc (length (sv_joined v))" using length_bt_insert[OF sorted, of i ?j] by simp
  moreover have "slots_ok E (bt_insert i ?j (sv_joined v))"
    using slots_insert[of E "sv_joined v" i ?j] assms(1) k(1) by (auto simp: server_ok_def joined_ok_def)
  moreover have "fst ` set (sv_joined v) \<subseteq> {..<sv_next_slot v}" using assms(1) by (simp add: server_ok_def)
  then have "fst ` set (bt_insert i ?j (sv_joined v)) \<subseteq> {..<Suc (sv_next_slot v)}"
    by (simp only: keys_bt_insert lessThan_Suc k(3)) blast
  moreover have "sv_next_slot v' = Suc (sv_next_slot v)" using assms(1) k(2,4) by (simp add: server_ok_def max_dedicated_players_def)
  ultimately show ?thesis using assms(1) k(2,5) by (simp add: server_ok_def)
qed

lemma ok_ingest: "server_ok E v \<Longrightarrow> server_ok E (fst (server_ingest_signed E p s v))"
proof (cases "bt_get (sv_joined v) p")
  case (Some j)
  assume ok: "server_ok E v"
  show ?thesis
  proof (cases "verify_intent E (jn_vk j) s")
    case (Inr x)
    have "authentic E (jn_vk j) p (x\<lparr>pi_player := p, pi_analog := clamp_analog (pi_analog x)\<rparr>)"
      using verify_intent_Inr[OF Inr] unfolding authentic_def by blast
    then have new: "joined_ok E p (j\<lparr>jn_intent := Some (x\<lparr>pi_player := p, pi_analog := clamp_analog (pi_analog x)\<rparr>)\<rparr>)"
      using joined_of[OF ok Some] by (auto simp: joined_ok_def)
    show ?thesis
    proof (cases "sv_disconnected v")
      case False
      then show ?thesis
        using Some Inr
        by (intro server_ok_replace[OF ok Some new]) (simp_all add: server_ingest_signed_def server_queue_def inspect_def Let_def)
    qed (use ok in \<open>simp add: server_ingest_signed_def\<close>)
  qed (use ok Some in \<open>auto simp: server_ingest_signed_def intro: server_ok_same\<close>)
qed (auto simp: server_ingest_signed_def intro: server_ok_same)

lemma ok_handle: "server_ok E v \<Longrightarrow> server_ok E (fst (server_handle E pkt v))"
proof (cases pkt)
  case (Hello canon epoch build key slot hz)
  assume "server_ok E v"
  then show ?thesis using Hello ok_join by (fastforce split: sum.splits)
next
  case (IntentPkt s)
  assume "server_ok E v"
  then show ?thesis using IntentPkt ok_ingest by (auto simp: split_beta Let_def split: option.splits)
qed simp_all

declare server_handle.simps [simp del]

lemma ok_pump: "server_ok E v \<Longrightarrow> server_ok E (fst (server_pump E fs v))"
proof (induction fs arbitrary: v)
  case (Cons f fs)
  show ?case
  proof (cases "sv_out v = None \<or> (\<exists>e. rbind (decode_frame f) decode_packet = Inl e)")
    case False
    then obtain p where p: "rbind (decode_frame f) decode_packet = Inr p" "sv_out v \<noteq> None"
      by (cases "rbind (decode_frame f) decode_packet") auto
    obtain v1 r where h: "server_handle E p v = (v1, r)" by (cases "server_handle E p v")
    then have ok: "server_ok E v1" using ok_handle[OF Cons.prems, of p] by simp
    show ?thesis
    proof (cases r)
      case (Inl e)
      then show ?thesis using Cons.IH[OF ok] ok p h by auto
    next
      case (Inr replies)
      obtain out s where o: "send_out replies (sv_out v1) = (out, s)" by (cases "send_out replies (sv_out v1)")
      have ok': "server_ok E (v1\<lparr>sv_out := out\<rparr>)" using ok by (simp add: server_ok_def)
      show ?thesis using Cons.IH[OF ok'] ok' p h o Inr by (cases s) auto
    qed
  qed (use Cons.prems in auto)
qed simp

lemma server_run_ok: "server_run H E v \<Longrightarrow> server_ok E v"
proof (induction rule: server_run.induct)
  case (Install v canon epoch v')
  then show ?case by (auto simp: server_install_epoch_def server_ok_def slots_ok_def split: if_splits)
next
  case (JoinS v b i v')
  then show ?case using ok_join by blast
next
  case (SetInterest v p d)
  show ?case
  proof (cases "bt_get (sv_joined v) p")
    case (Some j)
    have "joined_ok E p (j\<lparr>jn_send_full := True, jn_base := [], jn_full_at := None, jn_interest := d\<rparr>)"
      using joined_of[OF SetInterest.IH Some] by (simp add: joined_ok_def)
    then show ?thesis using SetInterest.IH Some
      by (auto simp: server_set_interest_def Let_def split_beta intro: server_ok_replace[OF SetInterest.IH Some])
  qed (use SetInterest.IH in \<open>simp add: server_set_interest_def\<close>)
next
  case (ConsumeS v)
  have "fst ` set (map (\<lambda>(p, j). (p, j\<lparr>jn_intent := None\<rparr>)) (sv_joined v)) = fst ` set (sv_joined v)" by force
  then show ?case using ConsumeS.IH
    by (auto simp: server_consume_def Let_def server_ok_def slots_ok_def joined_ok_def bt_sorted_def comp_def case_prod_beta)
next
  case (FlushPose v p t poses)
  show ?case
  proof (cases "bt_get (sv_joined v) p")
    case (Some j)
    obtain b j' where b: "flush_slot poses t j = (b, j')" by (cases "flush_slot poses t j")
    then have "jn_vk j' = jn_vk j \<and> jn_intent j' = jn_intent j"
      by (auto simp: flush_slot_def update_full_base_def Let_def split: pose_block.splits)
    then have "joined_ok E p j'" using joined_of[OF FlushPose.IH Some] by (simp add: joined_ok_def)
    then show ?thesis using Some b
      by (auto simp: server_flush_pose_def Let_def split_beta intro: server_ok_replace[OF FlushPose.IH Some])
  qed (use FlushPose.IH in \<open>simp add: server_flush_pose_def\<close>)
next
  case (ResyncS v p)
  show ?case
  proof (cases "bt_get (sv_joined v) p")
    case (Some j)
    have "joined_ok E p (j\<lparr>jn_send_full := True, jn_base := [], jn_full_at := None\<rparr>)"
      using joined_of[OF ResyncS.IH Some] by (simp add: joined_ok_def)
    then show ?thesis using Some
      by (auto simp: server_resync_def Let_def split_beta intro: server_ok_replace[OF ResyncS.IH Some])
  qed (use ResyncS.IH in \<open>simp add: server_resync_def\<close>)
next
  case (IngestS v p s)
  then show ?case using ok_ingest by blast
next
  case (Handle v pkt)
  then show ?case using ok_handle by blast
next
  case (PumpS v fs)
  then show ?case using ok_pump by blast
qed (auto simp: server_new_def server_attach_def server_set_prefix_def server_flush_delta_def server_record_desync_def
    server_disconnect_def server_ok_def slots_ok_def)

lemma in_map_filter: "x \<in> set (List.map_filter f xs) \<longleftrightarrow> (\<exists>y \<in> set xs. f y = Some x)"
  by (induction xs) (auto simp: map_filter_simps split: option.splits)

lemma taken_once:
  assumes "distinct (map fst m)" and "\<forall>(p, j) \<in> set m. joined_ok E p j"
  shows "distinct (map pi_player (List.map_filter (\<lambda>(_, j). jn_intent j) m)) \<and> length (List.map_filter (\<lambda>(_, j). jn_intent j) m) \<le> length m"
  using assms
proof (induction m)
  case (Cons x m)
  obtain p j where x: "x = (p, j)" by (cases x)
  have "pi_player i \<in> fst ` set m" if mem: "i \<in> set (List.map_filter (\<lambda>(_, j). jn_intent j) m)" for i
  proof -
    obtain q k where k: "(q, k) \<in> set m" "jn_intent k = Some i" using mem by (auto simp: in_map_filter)
    moreover have "joined_ok E q k" using Cons.prems(2) k(1) by auto
    ultimately have "pi_player i = q" using joined_ok_player by blast
    then show ?thesis using k(1) by force
  qed
  moreover have "jn_intent j = Some i \<Longrightarrow> pi_player i = p" for i using Cons.prems(2) x joined_ok_player[of E p j i] by simp
  ultimately show ?case using Cons x by (auto simp: map_filter_simps split: option.splits)
qed (simp add: map_filter_simps)

text \<open>
  C12: consumed intents are authentic.  However a dedicated server is driven, by any packets and frames, a tick consumes at
  most one intent per player, each under the slot of a key that joined, carried by a packet that key signed, with the
  sticks and the look within their bounds; and consuming empties the queues, so no queued intent is handed out twice.
  (A packet that is sent again is queued again.)
\<close>

theorem consumed_intents_authentic:
  assumes "server_run H E v" and "server_consume v = (got, v')"
  shows "distinct (map pi_player got) \<and> length got \<le> 32 \<and> fst (server_consume v') = []
    \<and> (\<forall>i \<in> set got. \<exists>j b. bt_get (sv_joined v) (pi_player i) = Some j \<and> verifying_key_from_bytes E b = Inr (jn_vk j)
        \<and> authentic E (jn_vk j) (pi_player i) i
        \<and> \<bar>an_stick_x (pi_analog i)\<bar> \<le> 1000 \<and> \<bar>an_stick_z (pi_analog i)\<bar> \<le> 1000
        \<and> \<bar>an_look_yaw (pi_analog i)\<bar> \<le> 180000 \<and> \<bar>an_look_pitch (pi_analog i)\<bar> \<le> 70000)"
proof -
  have ok: "server_ok E v" by (rule server_run_ok[OF assms(1)])
  have got: "got = List.map_filter (\<lambda>(_, j). jn_intent j) (sv_joined v)" and v': "sv_joined v' = map (\<lambda>(p, j). (p, j\<lparr>jn_intent := None\<rparr>)) (sv_joined v)"
    using assms(2) by (auto simp: server_consume_def Let_def)
  have source: "\<exists>j b. (pi_player i, j) \<in> set (sv_joined v) \<and> verifying_key_from_bytes E b = Inr (jn_vk j) \<and> jn_intent j = Some i
      \<and> authentic E (jn_vk j) (pi_player i) i" if mem: "i \<in> set got" for i
  proof -
    obtain p j where j: "(p, j) \<in> set (sv_joined v)" "jn_intent j = Some i"
      using mem by (auto simp: got in_map_filter)
    then have "joined_ok E p j" using ok by (auto simp: server_ok_def slots_ok_def)
    moreover from this have "pi_player i = p" using j(2) by (rule joined_ok_player)
    ultimately show ?thesis using j by (auto simp: joined_ok_def)
  qed
  have "distinct (map fst (sv_joined v))"
    using ok by (auto simp: server_ok_def slots_ok_def bt_sorted_def strict_sorted_iff)
  then have "distinct (map pi_player got) \<and> length got \<le> 32"
    using taken_once[of "sv_joined v" E] ok by (auto simp: got server_ok_def slots_ok_def max_dedicated_players_def)
  moreover have "List.map_filter (\<lambda>(_, j). jn_intent j) (map (\<lambda>(p, j). (p, j\<lparr>jn_intent := None\<rparr>)) m) = []" for m :: "(nat \<times> 'a joined) list"
    by (induction m) (auto simp: map_filter_simps)
  then have "fst (server_consume v') = []" by (simp add: server_consume_def v' Let_def)
  moreover have "\<exists>j b. bt_get (sv_joined v) (pi_player i) = Some j \<and> verifying_key_from_bytes E b = Inr (jn_vk j)
        \<and> authentic E (jn_vk j) (pi_player i) i
        \<and> \<bar>an_stick_x (pi_analog i)\<bar> \<le> 1000 \<and> \<bar>an_stick_z (pi_analog i)\<bar> \<le> 1000
        \<and> \<bar>an_look_yaw (pi_analog i)\<bar> \<le> 180000 \<and> \<bar>an_look_pitch (pi_analog i)\<bar> \<le> 70000" if mem: "i \<in> set got" for i
  proof -
    obtain j b where j: "(pi_player i, j) \<in> set (sv_joined v)" "verifying_key_from_bytes E b = Inr (jn_vk j)" "authentic E (jn_vk j) (pi_player i) i"
      using source[OF mem] by blast
    have "bt_get (sv_joined v) (pi_player i) = Some j" using bt_get_in[OF _ j(1)] ok by (simp add: server_ok_def slots_ok_def)
    moreover obtain a where "pi_analog i = clamp_analog a" using authentic_analog[OF j(3)] by blast
    ultimately show ?thesis using j(2,3)
      by (auto simp: clamp_analog_def clamp_def stick_max_def look_yaw_max_md_def look_pitch_max_md_def)
  qed
  ultimately show ?thesis by blast
qed

definition steer_intent :: player_intent where
  "steer_intent = \<lparr>pi_player = 9, pi_at = 3, pi_verb = Steer, pi_target = NoIntent,
     pi_analog = \<lparr>an_phase = 10, an_stick_x = 5000, an_stick_z = - 4, an_look_yaw = 100, an_look_pitch = - 50\<rparr>, pi_claimed = []\<rparr>"

definition joined_server :: "unit server" where
  "joined_server = snd (projr (server_accept_join demo_ed (replicate 32 2) (server_new demo_hash demo_kp (replicate 32 1) 0 30)))"

definition asked_server :: "unit server" where
  "asked_server = fst (server_ingest_signed demo_ed 0 \<lparr>si_signature = replicate 64 5, si_value = steer_intent\<rparr> joined_server)"

lemma steer_verified:
  "verify_intent demo_ed () \<lparr>si_signature = replicate 64 5, si_value = steer_intent\<rparr> = Inr steer_intent"
proof -
  have ok: "intent_ok steer_intent"
    by (simp add: steer_intent_def intent_ok_def target_ok_def analog_ok_def in_i16_def in_i32_def)
  have "length (intent_bytes steer_intent) \<le> max_intent"
    by (simp add: intent_bytes_def steer_intent_def max_intent_def put_analog_def put_i16_def)
  note enc = encode_intent_eq[OF ok this]
  then show ?thesis using decode_intent_iff[of "intent_bytes steer_intent" steer_intent] ok
    by (simp add: verify_intent_def verify_bytes_def demo_ed_def)
qed

lemma asked_run: "server_run demo_hash demo_ed asked_server"
proof -
  have "\<exists>i v. server_accept_join demo_ed (replicate 32 2) (server_new demo_hash demo_kp (replicate 32 1) 0 30) = Inr (i, v)"
    by (simp add: server_accept_join_def server_new_def max_dedicated_players_def verifying_key_from_bytes_def demo_ed_def Let_def)
  then obtain i v where v: "server_accept_join demo_ed (replicate 32 2) (server_new demo_hash demo_kp (replicate 32 1) 0 30) = Inr (i, v)"
    by blast
  then have "server_run demo_hash demo_ed joined_server" using JoinS[OF New v] by (simp add: joined_server_def)
  then show ?thesis unfolding asked_server_def by (rule IngestS)
qed

lemma asked_consumed: "fst (server_consume asked_server) = [steer_intent\<lparr>pi_player := 0, pi_analog := clamp_analog (pi_analog steer_intent)\<rparr>]"
proof -
  have j: "sv_joined joined_server = [(0, \<lparr>jn_vk = (), jn_intent = None, jn_interest = empty_dict, jn_base = [], jn_full_at = None, jn_send_full = True\<rparr>)]"
    "\<not> sv_disconnected joined_server"
    by (simp_all add: joined_server_def server_accept_join_def server_new_def max_dedicated_players_def verifying_key_from_bytes_def demo_ed_def Let_def)
  show ?thesis
    using steer_verified j
    by (simp add: asked_server_def server_ingest_signed_def server_queue_def inspect_def Let_def server_consume_def map_filter_simps)
qed

theorem consumed_intents_authentic_witness:
  "let i = steer_intent\<lparr>pi_player := 0, pi_analog := clamp_analog (pi_analog steer_intent)\<rparr> in
   fst (server_consume asked_server) = [i] \<and> authentic demo_ed () 0 i \<and> an_stick_x (pi_analog i) = 1000"
proof -
  let ?i = "steer_intent\<lparr>pi_player := 0, pi_analog := clamp_analog (pi_analog steer_intent)\<rparr>"
  obtain got v' where g: "server_consume asked_server = (got, v')" by (cases "server_consume asked_server")
  then have "?i \<in> set got" using asked_consumed by simp
  then have "\<exists>k. authentic demo_ed k (pi_player ?i) ?i" using consumed_intents_authentic[OF asked_run g] by blast
  then show ?thesis using asked_consumed by (auto simp: Let_def steer_intent_def clamp_analog_def clamp_def stick_max_def)
qed

section \<open>A replayed packet\<close>

definition queued :: "player_intent \<Rightarrow> nat \<Rightarrow> sidecar \<Rightarrow> tick \<Rightarrow> player_intent" where
  "queued i p sc t = i\<lparr>pi_player := p, pi_analog := sr_analog (fst (inspect (i\<lparr>pi_player := p\<rparr>) t sc))\<rparr>"

lemma ingest_queues:
  assumes "\<not> sv_disconnected v" and "bt_get (sv_joined v) p = Some j" and "verify_intent E (jn_vk j) s = Inr i"
  defines "u \<equiv> fst (server_ingest_signed E p s v)"
  shows "snd (server_ingest_signed E p s v) = Inr True" and "\<not> sv_disconnected u" and "sv_tick u = sv_tick v"
    and "bt_get (sv_joined u) p = Some (j\<lparr>jn_intent := Some (queued i p (sv_sidecar v) (sv_tick v))\<rparr>)"
  using assms by (auto simp: server_ingest_signed_def server_queue_def queued_def Let_def bt_get_insert split: prod.splits)

lemma consume_clears:
  assumes "bt_get (sv_joined u) p = Some j"
  shows "bt_get (sv_joined (snd (server_consume u))) p = Some (j\<lparr>jn_intent := None\<rparr>)"
    and "sv_disconnected (snd (server_consume u)) = sv_disconnected u" and "sv_tick (snd (server_consume u)) = sv_tick u"
    and "\<And>i. jn_intent j = Some i \<Longrightarrow> i \<in> set (fst (server_consume u))"
proof -
  have "(p, j) \<in> set (sv_joined u)" using assms by (rule bt_get_Some_in)
  then show "\<And>i. jn_intent j = Some i \<Longrightarrow> i \<in> set (fst (server_consume u))" by (force simp: server_consume_def Let_def in_map_filter)
qed (simp_all add: server_consume_def Let_def bt_get_map[of "\<lambda>j. j\<lparr>jn_intent := None\<rparr>"] assms)

text \<open>
  A replayed packet is consumed again.  Whatever player and signed packet: when the packet is accepted and consumed, the
  same packet sent again is accepted again, and the next tick consumes its intent a second time, the same but for the
  sidecar's clamp.  Nothing in the server makes a packet good for one use; only the age that the kernel allows an intent bounds it.
\<close>

theorem replayed_packet_consumed_again:
  assumes "\<not> sv_disconnected v" and "bt_get (sv_joined v) p = Some j" and "verify_intent E (jn_vk j) s = Inr i"
    and "server_ingest_signed E p s v = (v1, r1)" and "server_consume v1 = (got1, v2)"
    and "server_ingest_signed E p s v2 = (v3, r3)" and "server_consume v3 = (got2, v4)"
  shows "r1 = Inr True \<and> r3 = Inr True
    \<and> (\<exists>a. i\<lparr>pi_player := p, pi_analog := a\<rparr> \<in> set got1) \<and> (\<exists>a. i\<lparr>pi_player := p, pi_analog := a\<rparr> \<in> set got2)"
proof -
  note q1 = ingest_queues[OF assms(1-3), unfolded assms(4) fst_conv snd_conv]
  note c1 = consume_clears[OF q1(4), unfolded assms(5) fst_conv snd_conv]
  have "\<not> sv_disconnected v2" using c1(2) q1(2) by simp
  moreover have "verify_intent E (jn_vk (j\<lparr>jn_intent := Some (queued i p (sv_sidecar v) (sv_tick v)), jn_intent := None\<rparr>)) s = Inr i"
    using assms(3) by simp
  ultimately have q2: "r3 = Inr True" "bt_get (sv_joined v3) p = Some (j\<lparr>jn_intent := Some (queued i p (sv_sidecar v2) (sv_tick v2))\<rparr>)"
    using ingest_queues[OF _ c1(1), of E s i] assms(6) by simp_all
  note c2 = consume_clears[OF q2(2), unfolded assms(7) fst_conv snd_conv]
  have "queued i p (sv_sidecar v) (sv_tick v) \<in> set got1" "queued i p (sv_sidecar v2) (sv_tick v2) \<in> set got2"
    using c1(4) c2(4) by simp_all
  then show ?thesis using q1(1) q2(1) unfolding queued_def by blast
qed

theorem replayed_packet_consumed_again_witness:
  "let s = \<lparr>si_signature = replicate 64 5, si_value = steer_intent\<rparr>; v2 = snd (server_consume asked_server) in
   \<exists>a. steer_intent\<lparr>pi_player := 0, pi_analog := a\<rparr> \<in> set (fst (server_consume (fst (server_ingest_signed demo_ed 0 s v2))))"
proof -
  let ?s = "\<lparr>si_signature = replicate 64 5, si_value = steer_intent\<rparr>"
  let ?j = "\<lparr>jn_vk = (), jn_intent = None, jn_interest = empty_dict, jn_base = [], jn_full_at = None, jn_send_full = True\<rparr>"
  have j: "bt_get (sv_joined joined_server) 0 = Some ?j" "\<not> sv_disconnected joined_server"
    by (simp_all add: joined_server_def server_accept_join_def server_new_def max_dedicated_players_def verifying_key_from_bytes_def demo_ed_def Let_def)
  have v: "verify_intent demo_ed (jn_vk ?j) ?s = Inr steer_intent" using steer_verified by simp
  show ?thesis
    using replayed_packet_consumed_again[OF j(2,1) v prod.collapse[symmetric] prod.collapse[symmetric] prod.collapse[symmetric] prod.collapse[symmetric]]
    unfolding asked_server_def[symmetric] by (simp add: Let_def)
qed

section \<open>A skipped generation\<close>

text \<open>
  C39: a skipped codebook generation ends the session.  A client that gets a codebook two or more generations ahead waits for a
  resync but drops the tick's delta without advancing its tick; if the next delta arrives before the resync, the client
  disconnects for a desync although every packet came, unchanged and in order.
\<close>

theorem skipped_generation_disconnects:
  assumes "\<not> cl_disconnected c" and "\<not> cl_awaiting c" and "\<not> gen_ok (cl_gen c) (id_gen d)" and "cl_tick c < u64_max"
  shows "\<exists>c'. deliver H [InterestPkt d, TraceDelta (cl_tick c) (id_gen d) es, TraceDelta (tick_saturating_add (cl_tick c) 1) (id_gen d) fs] c
      = (c', Inl NetDesync) \<and> cl_disconnected c' \<and> cl_reason c' = Some GoneDesync \<and> cl_needs_resync c' \<and> cl_prefix c' = cl_prefix c"
  using assms by (simp add: client_handle.simps client_disconnect_def tick_saturating_add_def)

theorem skipped_generation_disconnects_witness:
  "\<exists>c'. deliver demo_hash [InterestPkt \<lparr>id_gen = 2, id_places = [], id_sigils = [7]\<rparr>, TraceDelta 0 2 [], TraceDelta (tick_saturating_add 0 1) 2 []] demo_client
      = (c', Inl NetDesync) \<and> cl_reason c' = Some GoneDesync"
  using skipped_generation_disconnects[of demo_client "\<lparr>id_gen = 2, id_places = [], id_sigils = [7]\<rparr>" demo_hash "[]" "[]"]
  by (auto simp: demo_client_def client_new_def client_with_join_def gen_ok_def u64_max_def simp del: deliver.simps)

end
