(* ===== verification/SnapBlob.thy ===== *)
theory SnapBlob
  imports WorldPlace WorldState
begin

text \<open>
  \<open>klotho-world/src/snap_blob.rs\<close> and the parts of \<open>proj.rs\<close> and \<open>world.rs\<close> it drives: the little-endian blob of a
  projection snapshot (three versions are read, the last is written), its rows, and the projection rebuilt from them.
  The codecs of \<open>Codec\<close> are used with the errors of this crate.
\<close>

section \<open>Rows\<close>

datatype snap_error =
    SnapMagic
  | SnapVersion nat
  | SnapPad
  | SnapTruncated
  | SnapOversize nat nat
  | SnapTrailing
  | SnapKind
  | SnapDuplicate

definition snap_magic :: "byte list" where
  "snap_magic = [75, 83, 78, 80]"

definition snap_version :: nat where
  "snap_version = 3"

definition snap_version_min :: nat where
  "snap_version_min = 1"

definition max_snap_constraints :: nat where
  "max_snap_constraints = 512"

definition snap_blob_cap :: nat where
  "snap_blob_cap = 64 * 1024 * 1024"

definition max_snap_rows :: nat where
  "max_snap_rows = max_loci_process"

definition max_row_qty :: nat where
  "max_row_qty = 1024"

definition max_row_rels :: nat where
  "max_row_rels = 1024"

definition max_row_knows :: nat where
  "max_row_knows = 1024"

definition max_row_rites :: nat where
  "max_row_rites = 1024"

record snap_row =
  sr_sigil :: sigil
  sr_kind :: locus_kind
  sr_pose :: "pose option"
  sr_vel :: vel3
  sr_yaw_rate :: int
  sr_pitch_rate :: int
  sr_roll_rate :: int
  sr_sleep :: nat
  sr_island :: nat
  sr_support :: "support option"
  sr_phys :: "phys_request option"
  sr_attach :: "ivec3 option"
  sr_rels :: "(rel \<times> sigil) list"
  sr_qty :: "(nat \<times> int) list"
  sr_rites :: "(nat \<times> rite_machine) list"
  sr_knows :: "nat list"
  sr_hull :: "aabb option"
  sr_hull_id :: blob_id
  sr_afford :: "64 word"
  sr_lod :: sim_lod

record snap_parts =
  sp_epoch :: nat
  sp_tick :: tick
  sp_canon_hash :: digest
  sp_prefix :: digest
  sp_opaque :: "nat option"
  sp_rows :: "snap_row list"
  sp_constraints :: "(sigil \<times> constraint_state) list"

definition check_cap :: "nat \<Rightarrow> nat \<Rightarrow> snap_error + unit" where
  "check_cap n cap = (if n > cap then Inl (SnapOversize n cap) else Inr ())"

definition check_snap_size :: "nat \<Rightarrow> snap_error + unit" where
  "check_snap_size n = check_cap n snap_blob_cap"

definition check_row_caps :: "snap_row \<Rightarrow> snap_error + unit" where
  "check_row_caps row =
     rbind (check_cap (length (sr_qty row)) max_row_qty) (\<lambda>_.
     rbind (check_cap (length (sr_rels row)) max_row_rels) (\<lambda>_.
     rbind (check_cap (length (sr_knows row)) max_row_knows) (\<lambda>_.
       check_cap (length (sr_rites row)) max_row_rites)))"

section \<open>Writing\<close>

definition u32_len :: "nat \<Rightarrow> snap_error + nat" where
  "u32_len n = (if n < 2 ^ 32 then Inr n else Inl (SnapOversize n (2 ^ 32 - 1)))"

definition put_ivec3 :: "ivec3 \<Rightarrow> byte list" where
  "put_ivec3 v = put_i32 (vx v) @ put_i32 (vy v) @ put_i32 (vz v)"

definition put_pose :: "pose \<Rightarrow> byte list" where
  "put_pose p = put_i32 (px p) @ put_i32 (py p) @ put_i32 (pz p) @ put_i32 (pyaw p) @ put_i32 (ppitch p) @ put_i32 (proll p)"

definition put_aabb :: "aabb \<Rightarrow> byte list" where
  "put_aabb a = put_ivec3 (bmin a) @ put_ivec3 (bmax a)"

definition put_support :: "support \<Rightarrow> byte list" where
  "put_support s = (case s of (nx, ny, nz, depth) \<Rightarrow> put_i16 nx @ put_i16 ny @ put_i16 nz @ put_i32 depth)"

definition put_phys :: "phys_request \<Rightarrow> byte list" where
  "put_phys r = put_ivec3 (pr_lin r) @ put_ivec3 (pr_ang r)"

definition put_rel :: "rel \<times> sigil \<Rightarrow> byte list" where
  "put_rel e = put_u8 (rel_as_u8 (fst e)) @ put_sigil (snd e)"

definition put_qty :: "nat \<times> int \<Rightarrow> byte list" where
  "put_qty e = put_u8 (fst e) @ put_i32 (snd e)"

definition put_wait_ch :: "channel option \<Rightarrow> byte list" where
  "put_wait_ch c = (case c of None \<Rightarrow> put_u8 0 | Some ch \<Rightarrow> put_u8 (channel_as_u8 ch))"

definition put_machine :: "nat \<times> rite_machine \<Rightarrow> byte list" where
  "put_machine e = (case e of (rite, m) \<Rightarrow>
     put_u16 rite @ put_u16 (rm_pc m) @ put_u16 (rm_wait_left m) @ put_u64 (rm_started_at m) @ put_u64 (rm_wait_at m)
     @ put_bool (rm_contact_hit m) @ put_u8 (rm_contact_agency m) @ put_option put_sigil (rm_target m) @ put_wait_ch (rm_wait_ch m))"

definition put_counted :: "('a \<Rightarrow> byte list) \<Rightarrow> 'a list \<Rightarrow> snap_error + byte list" where
  "put_counted put xs = rbind (u32_len (length xs)) (\<lambda>n. Inr (put_u32 n @ concat (map put xs)))"

definition put_row_head :: "snap_row \<Rightarrow> byte list" where
  "put_row_head row =
     put_sigil (sr_sigil row) @ [locus_kind_as_u8 (sr_kind row)] @ put_option put_pose (sr_pose row)
     @ put_i32 (v3x (sr_vel row)) @ put_i32 (v3y (sr_vel row)) @ put_i32 (v3z (sr_vel row))
     @ put_i32 (sr_yaw_rate row) @ put_i32 (sr_pitch_rate row) @ put_i32 (sr_roll_rate row)
     @ put_u16 (sr_sleep row) @ put_u16 (sr_island row) @ put_option put_support (sr_support row)
     @ put_option put_phys (sr_phys row) @ put_option put_ivec3 (sr_attach row)"

definition put_row_tail :: "snap_row \<Rightarrow> byte list" where
  "put_row_tail row =
     put_option put_aabb (sr_hull row) @ sr_hull_id row @ put_u64 (unat (sr_afford row)) @ [sim_lod_as_u8 (sr_lod row)]"

definition encode_row :: "snap_row \<Rightarrow> snap_error + byte list" where
  "encode_row row =
     rbind (check_row_caps row) (\<lambda>_.
     rbind (put_counted put_rel (sr_rels row)) (\<lambda>rels.
     rbind (put_counted put_qty (sr_qty row)) (\<lambda>qty.
     rbind (put_counted put_machine (sr_rites row)) (\<lambda>rites.
     rbind (put_counted put_u16 (sr_knows row)) (\<lambda>knows.
       Inr (put_row_head row @ rels @ qty @ rites @ knows @ put_row_tail row))))))"

definition put_constraint :: "sigil \<times> constraint_state \<Rightarrow> byte list" where
  "put_constraint e = put_sigil (fst e) @ put_i32 (cs_impulse (snd e)) @ put_bool (cs_broken (snd e))"

definition put_opaque :: "nat option \<Rightarrow> byte list" where
  "put_opaque x = (case x of None \<Rightarrow> put_u8 0 @ put_u16 0 | Some a \<Rightarrow> put_u8 1 @ put_u16 a)"

text \<open>Appending, then \<open>check_snap_size(buf.len())?\<close>.\<close>

definition extend_checked :: "byte list \<Rightarrow> byte list \<Rightarrow> snap_error + byte list" where
  "extend_checked buf b = rbind (check_snap_size (length (buf @ b))) (\<lambda>_. Inr (buf @ b))"

definition encode_parts :: "snap_parts \<Rightarrow> snap_error + byte list" where
  "encode_parts s =
     rbind (check_cap (length (sp_rows s)) max_snap_rows) (\<lambda>_.
     rbind (check_cap (length (sp_constraints s)) max_snap_constraints) (\<lambda>_.
     rbind (u32_len (length (sp_rows s))) (\<lambda>n.
     rbind (rfold (\<lambda>buf row. rbind (encode_row row) (extend_checked buf))
       (snap_magic @ put_u8 snap_version @ [0, 0, 0] @ put_u64 (sp_epoch s) @ put_u64 (sp_tick s)
        @ sp_canon_hash s @ sp_prefix s @ put_opaque (sp_opaque s) @ put_u32 n) (sp_rows s)) (\<lambda>buf.
     rbind (u32_len (length (sp_constraints s))) (\<lambda>m.
     rbind (rfold (\<lambda>buf c. extend_checked buf (put_constraint c)) (buf @ put_u32 m) (sp_constraints s)) (\<lambda>buf.
     rbind (check_snap_size (length buf)) (\<lambda>_. Inr buf)))))))"

section \<open>Reading\<close>

abbreviation snap_u8 :: "(snap_error, nat) reader" where
  "snap_u8 \<equiv> get_u8 SnapTruncated"

abbreviation snap_u16 :: "(snap_error, nat) reader" where
  "snap_u16 \<equiv> get_u16 SnapTruncated"

abbreviation snap_u64 :: "(snap_error, nat) reader" where
  "snap_u64 \<equiv> get_u64 SnapTruncated"

abbreviation snap_i32 :: "(snap_error, int) reader" where
  "snap_i32 \<equiv> get_i32 SnapTruncated"

abbreviation snap_sigil :: "(snap_error, sigil) reader" where
  "snap_sigil \<equiv> get_sigil SnapTruncated"

abbreviation snap_option :: "(snap_error, 'a) reader \<Rightarrow> (snap_error, 'a option) reader" where
  "snap_option \<equiv> get_option SnapTruncated SnapKind"

definition take_capped_count :: "nat \<Rightarrow> (snap_error, nat) reader" where
  "take_capped_count cap = andthen (get_u32 SnapTruncated) (\<lambda>n. if n > cap then refuse (SnapOversize n cap) else give n)"

definition get_counted :: "nat \<Rightarrow> (snap_error, 'a) reader \<Rightarrow> (snap_error, 'a list) reader" where
  "get_counted cap r = andthen (take_capped_count cap) (\<lambda>n. get_n n r)"

text \<open>\<open>from_u8(..).ok_or(SnapError::Kind)\<close>\<close>

definition need_kind :: "'a option \<Rightarrow> (snap_error, 'a) reader" where
  "need_kind x = (case x of None \<Rightarrow> refuse SnapKind | Some v \<Rightarrow> give v)"

definition get_ivec3 :: "(snap_error, ivec3) reader" where
  "get_ivec3 = andthen snap_i32 (\<lambda>x. andthen snap_i32 (\<lambda>y. andthen snap_i32 (\<lambda>z. give (ivec3 x y z))))"

definition get_pose :: "(snap_error, pose) reader" where
  "get_pose = andthen snap_i32 (\<lambda>x. andthen snap_i32 (\<lambda>y. andthen snap_i32 (\<lambda>z.
     andthen snap_i32 (\<lambda>yaw. andthen snap_i32 (\<lambda>pitch. andthen snap_i32 (\<lambda>roll.
       give \<lparr>px = x, py = y, pz = z, pyaw = yaw, ppitch = pitch, proll = roll\<rparr>))))))"

definition get_vel :: "(snap_error, vel3) reader" where
  "get_vel = andthen snap_i32 (\<lambda>x. andthen snap_i32 (\<lambda>y. andthen snap_i32 (\<lambda>z. give \<lparr>v3x = x, v3y = y, v3z = z\<rparr>)))"

definition get_aabb :: "(snap_error, aabb) reader" where
  "get_aabb = andthen get_ivec3 (\<lambda>a. andthen get_ivec3 (\<lambda>b. give (aabb_new a b)))"

definition get_support :: "(snap_error, support) reader" where
  "get_support = andthen (get_i16 SnapTruncated) (\<lambda>x. andthen (get_i16 SnapTruncated) (\<lambda>y.
     andthen (get_i16 SnapTruncated) (\<lambda>z. andthen snap_i32 (\<lambda>d. give (x, y, z, d)))))"

definition get_phys :: "(snap_error, phys_request) reader" where
  "get_phys = andthen get_ivec3 (\<lambda>l. andthen get_ivec3 (\<lambda>a. give \<lparr>pr_lin = l, pr_ang = a\<rparr>))"

definition get_rel :: "(snap_error, rel \<times> sigil) reader" where
  "get_rel = andthen snap_u8 (\<lambda>v. andthen (need_kind (rel_from_u8 v)) (\<lambda>r. andthen snap_sigil (\<lambda>s. give (r, s))))"

definition get_qty :: "(snap_error, nat \<times> int) reader" where
  "get_qty = andthen snap_u8 (\<lambda>r. andthen snap_i32 (\<lambda>v. give (r, v)))"

definition get_wait_ch :: "(snap_error, channel option) reader" where
  "get_wait_ch = andthen snap_u8 (\<lambda>v.
     if v = 0 then give None else andthen (need_kind (channel_from_u8 v)) (\<lambda>c. give (Some c)))"

definition get_agency :: "(snap_error, nat) reader" where
  "get_agency = andthen snap_u8 (\<lambda>v. if v > 4 then refuse SnapKind else give v)"

text \<open>The action identity, the wait clock and the contact ledger are stored from version 3 on.\<close>

definition since_v3 :: "nat \<Rightarrow> 'a \<Rightarrow> (snap_error, 'a) reader \<Rightarrow> (snap_error, 'a) reader" where
  "since_v3 version d r = (if version \<ge> 3 then r else give d)"

definition get_machine :: "nat \<Rightarrow> (snap_error, nat \<times> rite_machine) reader" where
  "get_machine version =
     andthen snap_u16 (\<lambda>rite. andthen snap_u16 (\<lambda>pc. andthen snap_u16 (\<lambda>wait.
     andthen (since_v3 version 0 snap_u64) (\<lambda>started. andthen (since_v3 version 0 snap_u64) (\<lambda>wait_at.
     andthen (since_v3 version False (get_bool SnapTruncated SnapKind)) (\<lambda>hit.
     andthen (since_v3 version 0 get_agency) (\<lambda>agency.
     andthen (snap_option snap_sigil) (\<lambda>target. andthen get_wait_ch (\<lambda>ch.
       give (rite, \<lparr>rm_started_at = started, rm_wait_at = wait_at, rm_contact_hit = hit, rm_contact_agency = agency,
         rm_pc = pc, rm_wait_left = wait, rm_target = target, rm_wait_ch = ch\<rparr>))))))))))"

definition get_byte :: "(snap_error, byte) reader" where
  "get_byte = andthen (take_bytes SnapTruncated 1) (\<lambda>b. give (hd b))"

definition decode_row :: "nat \<Rightarrow> (snap_error, snap_row) reader" where
  "decode_row version =
     andthen snap_sigil (\<lambda>sigil. andthen get_byte (\<lambda>k. andthen (need_kind (locus_kind_from_u8 k)) (\<lambda>kind.
     andthen (snap_option get_pose) (\<lambda>pose. andthen get_vel (\<lambda>vel.
     andthen snap_i32 (\<lambda>yaw. andthen snap_i32 (\<lambda>pitch. andthen snap_i32 (\<lambda>roll.
     andthen snap_u16 (\<lambda>sleep. andthen snap_u16 (\<lambda>island.
     andthen (snap_option get_support) (\<lambda>support. andthen (snap_option get_phys) (\<lambda>phys. andthen (snap_option get_ivec3) (\<lambda>attach.
     andthen (get_counted max_row_rels get_rel) (\<lambda>rels. andthen (get_counted max_row_qty get_qty) (\<lambda>qty.
     andthen (get_counted max_row_rites (get_machine version)) (\<lambda>rites. andthen (get_counted max_row_knows snap_u16) (\<lambda>knows.
     andthen (snap_option get_aabb) (\<lambda>box. andthen (take_bytes SnapTruncated 32) (\<lambda>hull_id. andthen snap_u64 (\<lambda>afford.
     andthen get_byte (\<lambda>l. andthen (need_kind (sim_lod_from_u8 l)) (\<lambda>lod.
       give \<lparr>sr_sigil = sigil, sr_kind = kind, sr_pose = pose, sr_vel = vel, sr_yaw_rate = yaw, sr_pitch_rate = pitch,
         sr_roll_rate = roll, sr_sleep = sleep, sr_island = island, sr_support = support, sr_phys = phys, sr_attach = attach,
         sr_rels = rels, sr_qty = qty, sr_rites = rites, sr_knows = knows, sr_hull = box, sr_hull_id = hull_id,
         sr_afford = word_of_nat afford, sr_lod = lod\<rparr>))))))))))))))))))))))"

definition get_constraint :: "(snap_error, sigil \<times> constraint_state) reader" where
  "get_constraint = andthen snap_sigil (\<lambda>s. andthen snap_i32 (\<lambda>i. andthen (get_bool SnapTruncated SnapKind) (\<lambda>b.
     give (s, \<lparr>cs_impulse = i, cs_broken = b\<rparr>))))"

definition get_opaque :: "(snap_error, nat option) reader" where
  "get_opaque = andthen snap_u8 (\<lambda>t.
     if t = 0 then andthen snap_u16 (\<lambda>_. give None)
     else if t = 1 then andthen snap_u16 (\<lambda>a. give (Some a))
     else refuse SnapKind)"

definition get_parts :: "(snap_error, snap_parts) reader" where
  "get_parts =
     andthen (take_bytes SnapTruncated 4) (\<lambda>magic. if magic \<noteq> snap_magic then refuse SnapMagic else
     andthen snap_u8 (\<lambda>version. if \<not> (snap_version_min \<le> version \<and> version \<le> snap_version) then refuse (SnapVersion version) else
     andthen (take_bytes SnapTruncated 3) (\<lambda>pad. if pad \<noteq> [0, 0, 0] then refuse SnapPad else
     andthen snap_u64 (\<lambda>epoch. andthen snap_u64 (\<lambda>tick.
     andthen (take_bytes SnapTruncated 32) (\<lambda>canon. andthen (take_bytes SnapTruncated 32) (\<lambda>prefix.
     andthen get_opaque (\<lambda>opaque. andthen (get_counted max_snap_rows (decode_row version)) (\<lambda>rows.
     andthen (if version \<ge> 2 then get_counted max_snap_constraints get_constraint else give []) (\<lambda>cs.
       give \<lparr>sp_epoch = epoch, sp_tick = tick, sp_canon_hash = canon, sp_prefix = prefix, sp_opaque = opaque,
         sp_rows = rows, sp_constraints = cs\<rparr>))))))))))"

definition decode_parts :: "byte list \<Rightarrow> snap_error + snap_parts" where
  "decode_parts bytes =
     rbind (check_cap (length bytes) snap_blob_cap) (\<lambda>_.
     rbind (get_parts bytes) (\<lambda>(s, rest). if rest \<noteq> [] then Inl SnapTrailing else Inr s))"

section \<open>The projection\<close>

definition capture_snap_row :: "projection \<Rightarrow> sigil \<Rightarrow> snap_row option" where
  "capture_snap_row p s =
     Option.bind (proj_packed p s) (\<lambda>i. Option.bind (nth_opt (p_kinds p) i) (\<lambda>kind.
       Some \<lparr>sr_sigil = s, sr_kind = kind, sr_pose = nth_or None (p_pose p) i, sr_vel = nth_or vel_zero (p_vel p) i,
         sr_yaw_rate = nth_or 0 (p_yaw_rate p) i, sr_pitch_rate = nth_or 0 (p_pitch_rate p) i,
         sr_roll_rate = nth_or 0 (p_roll_rate p) i, sr_sleep = nth_or 0 (p_sleep p) i, sr_island = nth_or 0 (p_island p) i,
         sr_support = nth_or None (p_support p) i, sr_phys = bt_get (p_phys p) i, sr_attach = nth_or None (p_attach p) i,
         sr_rels = captured_rels p i, sr_qty = at_row i (p_qty p), sr_rites = rites_of p s,
         sr_knows = map fst (at_row i (p_knows p)), sr_hull = nth_or None (p_hull p) i,
         sr_hull_id = nth_or hash_zero (p_hull_id p) i, sr_afford = nth_or 0 (p_afford p) i, sr_lod = nth_or Full (p_lod p) i\<rparr>))"

definition capture_snap_rows :: "projection \<Rightarrow> snap_row list" where
  "capture_snap_rows p = List.map_filter (capture_snap_row p) (p_sigils p)"

definition snap_row_in_place :: "(rel \<times> sigil) list \<Rightarrow> snap_error + sigil option" where
  "snap_row_in_place rels =
     rfold (\<lambda>found (r, b). if r \<noteq> In then Inr found else if found \<noteq> None then Inl SnapDuplicate else Inr (Some b)) None rels"

text \<open>The place is validated before, so \<open>expect\<close> does not panic.\<close>

definition push_row :: "snap_row \<Rightarrow> projection \<Rightarrow> projection" where
  "push_row row p =
     (let i = length (p_sigils p) in
      p\<lparr>p_by_sigil := bt_insert (sr_sigil row) i (p_by_sigil p), p_sigils := p_sigils p @ [sr_sigil row],
        p_kinds := p_kinds p @ [sr_kind row], p_afford := p_afford p @ [sr_afford row], p_hull := p_hull p @ [sr_hull row],
        p_hull_id := p_hull_id p @ [sr_hull_id row], p_pose := p_pose p @ [sr_pose row], p_vel := p_vel p @ [sr_vel row],
        p_yaw_rate := p_yaw_rate p @ [sr_yaw_rate row], p_pitch_rate := p_pitch_rate p @ [sr_pitch_rate row],
        p_roll_rate := p_roll_rate p @ [sr_roll_rate row], p_island := p_island p @ [sr_island row],
        p_sleep := p_sleep p @ [sr_sleep row], p_lod := p_lod p @ [sr_lod row],
        p_in_place := p_in_place p @ [case snap_row_in_place (sr_rels row) of Inl _ \<Rightarrow> None | Inr x \<Rightarrow> x],
        p_support := p_support p @ [sr_support row], p_attach := p_attach p @ [sr_attach row],
        p_qty := fold (\<lambda>(r, v) m. bt_insert (i, r) v m) (sr_qty row) (p_qty p),
        p_phys := (case sr_phys row of None \<Rightarrow> p_phys p | Some q \<Rightarrow> bt_insert i q (p_phys p)),
        p_knows := fold (\<lambda>f m. bt_insert (i, f) () m) (sr_knows row) (p_knows p)\<rparr>)"

definition link_row :: "snap_row \<Rightarrow> projection \<Rightarrow> snap_error + projection" where
  "link_row row p =
     rfold (\<lambda>p (r, b). if r = In then Inr p
       else case add_rel_raw (sr_sigil row) r b p of Inl _ \<Rightarrow> Inl SnapKind | Inr (i, q) \<Rightarrow> Inr q) p (sr_rels row)"

definition start_row :: "snap_row \<Rightarrow> projection \<Rightarrow> projection" where
  "start_row row p = fold (\<lambda>(rite, m) p. put_rite (sr_sigil row) rite m p) (sr_rites row) p"

definition from_snap_rows :: "nat option \<Rightarrow> snap_row list \<Rightarrow> snap_error + projection" where
  "from_snap_rows opaque rows =
     rbind (check_cap (length rows) max_snap_rows) (\<lambda>_.
     if \<not> windows2 (\<noteq>) (sort (map sr_sigil rows)) then Inl SnapDuplicate else
     rbind (rfold (\<lambda>_ row. rbind (check_row_caps row) (\<lambda>_. rbind (snap_row_in_place (sr_rels row)) (\<lambda>_. Inr ()))) () rows) (\<lambda>_.
     rbind (rfold (\<lambda>p row. link_row row p) (fold push_row rows (proj_with_cap opaque max_loci_process)) rows) (\<lambda>p.
       Inr (rebuild_space_ix (fold start_row rows p)))))"

section \<open>Snapshots\<close>

definition snap_to_parts :: "world_snapshot \<Rightarrow> snap_parts" where
  "snap_to_parts s =
     \<lparr>sp_epoch = sn_epoch s, sp_tick = sn_tick s, sp_canon_hash = sn_canon_hash s, sp_prefix = sn_prefix s,
      sp_opaque = p_opaque (sn_blob s), sp_rows = capture_snap_rows (sn_blob s), sp_constraints = p_constraints (sn_blob s)\<rparr>"

definition snap_from_parts :: "snap_parts \<Rightarrow> snap_error + world_snapshot" where
  "snap_from_parts s =
     rbind (from_snap_rows (sp_opaque s) (sp_rows s)) (\<lambda>p. Inr
       \<lparr>sn_epoch = sp_epoch s, sn_tick = sp_tick s, sn_canon_hash = sp_canon_hash s, sn_prefix = sp_prefix s,
        sn_blob = restore_constraint_states (sp_constraints s) p, sn_canon = canon_default\<rparr>)"

definition encode_snapshot :: "world_snapshot \<Rightarrow> snap_error + byte list" where
  "encode_snapshot s = encode_parts (snap_to_parts s)"

definition decode_snapshot :: "byte list \<Rightarrow> snap_error + world_snapshot" where
  "decode_snapshot bytes = rbind (decode_parts bytes) snap_from_parts"

end
