(* ===== verification/SnapBlobProps.thy ===== *)
theory SnapBlobProps
  imports SnapBlob WorldStateProps TraceProps
begin

text \<open>
  The bytes of a snapshot.  Each field of a row has a codec; together they read a written blob back (\<open>parts_read\<close>).
\<close>

section \<open>Fields\<close>

definition ivec3_ok :: "ivec3 \<Rightarrow> bool" where
  "ivec3_ok v \<longleftrightarrow> in_i32 (vx v) \<and> in_i32 (vy v) \<and> in_i32 (vz v)"

definition aabb_ok :: "aabb \<Rightarrow> bool" where
  "aabb_ok b \<longleftrightarrow> ivec3_ok (bmin b) \<and> ivec3_ok (bmax b)"

definition support_ok :: "support \<Rightarrow> bool" where
  "support_ok s \<longleftrightarrow> (case s of (x, y, z, d) \<Rightarrow> in_i16 x \<and> in_i16 y \<and> in_i16 z \<and> in_i32 d)"

definition phys_ok :: "phys_request \<Rightarrow> bool" where
  "phys_ok r \<longleftrightarrow> ivec3_ok (pr_lin r) \<and> ivec3_ok (pr_ang r)"

definition qty_ok :: "nat \<times> int \<Rightarrow> bool" where
  "qty_ok e \<longleftrightarrow> fst e < 256 \<and> in_i32 (snd e)"

definition machine_ok :: "nat \<times> rite_machine \<Rightarrow> bool" where
  "machine_ok e \<longleftrightarrow> (case e of (rite, m) \<Rightarrow> rite < 65536 \<and> rm_pc m < 65536 \<and> rm_wait_left m < 65536
     \<and> rm_started_at m < 2 ^ 64 \<and> rm_wait_at m < 2 ^ 64 \<and> rm_contact_agency m \<le> 4)"

definition constraint_ok :: "sigil \<times> constraint_state \<Rightarrow> bool" where
  "constraint_ok e \<longleftrightarrow> in_i32 (cs_impulse (snd e))"

lemmas snap_run = andthen_def give_def refuse_def need_kind_def rbind_Inr_iff

interpretation c_ivec3: codec ivec3_ok put_ivec3 get_ivec3
  by unfold_locales (auto simp: ivec3_ok_def put_ivec3_def get_ivec3_def ivec3_def snap_run codec_simps dest!: codec_dests)

interpretation c_snap_pose: codec pose_ok put_pose get_pose
  by unfold_locales (auto simp: pose_ok_def put_pose_def get_pose_def snap_run codec_simps dest!: codec_dests)

interpretation c_snap_vel: codec vel_ok "\<lambda>v. put_i32 (v3x v) @ put_i32 (v3y v) @ put_i32 (v3z v)" get_vel
  by unfold_locales (auto simp: vel_ok_def get_vel_def snap_run codec_simps dest!: codec_dests)

lemmas [codec_simps] = c_ivec3.get_put c_snap_pose.get_put c_snap_vel.get_put[simplified]
lemmas [codec_dests] = c_ivec3.get_sound c_snap_pose.get_sound c_snap_vel.get_sound

interpretation c_aabb: codec aabb_ok put_aabb get_aabb
  by unfold_locales (auto simp: aabb_ok_def put_aabb_def get_aabb_def aabb_new_def snap_run codec_simps dest!: codec_dests)

interpretation c_phys: codec phys_ok put_phys get_phys
  by unfold_locales (auto simp: phys_ok_def put_phys_def get_phys_def snap_run codec_simps dest!: codec_dests)

interpretation c_support: codec support_ok put_support get_support
  by unfold_locales (auto simp: support_ok_def put_support_def get_support_def snap_run codec_simps dest!: codec_dests)

interpretation c_pose_opt: codec "case_option True pose_ok" "put_option put_pose" "get_option SnapTruncated SnapKind get_pose"
  by (rule c_snap_pose.option_codec)

interpretation c_aabb_opt: codec "case_option True aabb_ok" "put_option put_aabb" "get_option SnapTruncated SnapKind get_aabb"
  by (rule c_aabb.option_codec)

interpretation c_phys_opt: codec "case_option True phys_ok" "put_option put_phys" "get_option SnapTruncated SnapKind get_phys"
  by (rule c_phys.option_codec)

interpretation c_support_opt: codec "case_option True support_ok" "put_option put_support" "get_option SnapTruncated SnapKind get_support"
  by (rule c_support.option_codec)

interpretation c_ivec3_opt: codec "case_option True ivec3_ok" "put_option put_ivec3" "get_option SnapTruncated SnapKind get_ivec3"
  by (rule c_ivec3.option_codec)

lemma option_true [simp]: "(case x of None \<Rightarrow> True | Some v \<Rightarrow> True)"
  by (simp split: option.split)

interpretation c_sigil_opt: codec "case_option True (\<lambda>_. True)" "put_option put_sigil" "get_option SnapTruncated SnapKind (get_sigil SnapTruncated)"
  by (rule c_sigil.option_codec)

lemmas [codec_simps] = c_pose_opt.get_put c_aabb_opt.get_put c_phys_opt.get_put c_support_opt.get_put c_ivec3_opt.get_put c_sigil_opt.get_put c_bool.get_put
lemmas [codec_dests] = c_pose_opt.get_sound c_aabb_opt.get_sound c_phys_opt.get_sound c_support_opt.get_sound c_ivec3_opt.get_sound c_sigil_opt.get_sound c_bool.get_sound

lemma rel_byte [simp]: "rel_as_u8 r < 256"
  by (cases r) simp_all

lemma rel_from_u8_eq: "rel_from_u8 v = Some r \<Longrightarrow> v = rel_as_u8 r"
  by (auto simp: rel_from_u8_def nth_opt_def nth_Cons' numeral_eq_Suc split: if_splits)

interpretation c_rel: codec "\<lambda>_. True" put_rel get_rel
  by unfold_locales (auto simp: put_rel_def get_rel_def snap_run codec_simps split: option.splits dest!: codec_dests rel_from_u8_eq)

interpretation c_qty: codec qty_ok put_qty get_qty
  by unfold_locales (auto simp: qty_ok_def put_qty_def get_qty_def snap_run codec_simps dest!: codec_dests)

interpretation c_wait: codec "\<lambda>_. True" put_wait_ch get_wait_ch
proof unfold_locales
  have b: "channel_as_u8 c < 256" "channel_as_u8 c \<noteq> 0" for c by (cases c; simp)+
  fix x :: "channel option" and rest
  show "get_wait_ch (put_wait_ch x @ rest) = Inr (x, rest)"
    by (cases x) (simp_all add: put_wait_ch_def get_wait_ch_def snap_run codec_simps b)
next
  fix bs x rest assume "get_wait_ch bs = Inr (x, rest)"
  then show "True \<and> bs = put_wait_ch x @ rest"
    by (auto simp: channel_from_u8_def put_wait_ch_def get_wait_ch_def snap_run codec_simps split: if_splits option.splits dest!: codec_dests)
qed

interpretation c_agency: codec "\<lambda>v. v \<le> 4" put_u8 get_agency
proof unfold_locales
  fix bs x rest assume "get_agency bs = Inr (x, rest)"
  then show "x \<le> 4 \<and> bs = put_u8 x @ rest" by (auto simp: get_agency_def snap_run split: if_splits dest!: codec_dests)
qed (simp add: get_agency_def snap_run codec_simps)

lemma sim_lod_from_u8_Some: "sim_lod_from_u8 v = Some l \<Longrightarrow> v = sim_lod_as_u8 l"
  by (auto simp: sim_lod_from_u8_def sim_lod_as_u8_def split: if_splits)

interpretation c_byte: codec "\<lambda>_. True" "\<lambda>b. [b]" get_byte
proof unfold_locales
  fix bs x rest assume "get_byte bs = Inr (x, rest)"
  then show "True \<and> bs = [x] @ rest"
    by (cases bs) (auto simp: get_byte_def take_bytes_def snap_run split: if_splits)
qed (simp add: get_byte_def take_bytes_def snap_run)

lemmas [codec_simps] = c_rel.get_n_put c_qty.get_n_put c_wait.get_put c_agency.get_put c_byte.get_put[simplified] c_aabb.get_put
lemmas [codec_dests] = c_rel.get_n_sound c_qty.get_n_sound c_wait.get_sound c_agency.get_sound c_byte.get_sound

interpretation c_machine: codec machine_ok put_machine "get_machine 3"
  by unfold_locales (auto simp: machine_ok_def put_machine_def get_machine_def since_v3_def snap_run codec_simps dest!: codec_dests)

interpretation c_constraint: codec constraint_ok put_constraint get_constraint
  by unfold_locales (auto simp: constraint_ok_def put_constraint_def get_constraint_def snap_run codec_simps dest!: codec_dests)

text \<open>A counted list, within its cap.\<close>

lemma capped_put: "n \<le> cap \<Longrightarrow> n < 2 ^ 32 \<Longrightarrow> take_capped_count cap (put_u32 n @ rest) = Inr (n, rest)"
  by (simp add: take_capped_count_def snap_run codec_simps)

lemma capped_sound: "take_capped_count cap bs = Inr (n, rest) \<Longrightarrow> n \<le> cap \<and> n < 2 ^ 32 \<and> bs = put_u32 n @ rest"
  by (auto simp: take_capped_count_def snap_run split: if_splits dest!: codec_dests)

lemma counted_codec:
  assumes c: "codec ok put get" and cap: "cap < 2 ^ 32"
  shows "codec (\<lambda>xs. (\<forall>x \<in> set xs. ok x) \<and> length xs \<le> cap) (\<lambda>xs. put_u32 (length xs) @ concat (map put xs)) (get_counted cap get)"
proof unfold_locales
  fix xs rest assume "(\<forall>x \<in> set xs. ok x) \<and> length xs \<le> cap"
  then show "get_counted cap get ((put_u32 (length xs) @ concat (map put xs)) @ rest) = Inr (xs, rest)"
    using cap codec.get_n_put[OF c] by (simp add: get_counted_def andthen_def capped_put)
next
  fix bs xs rest assume "get_counted cap get bs = Inr (xs, rest)"
  then show "((\<forall>x \<in> set xs. ok x) \<and> length xs \<le> cap) \<and> bs = (put_u32 (length xs) @ concat (map put xs)) @ rest"
    by (auto simp: get_counted_def andthen_def rbind_Inr_iff dest!: capped_sound codec.get_n_sound[OF c])
qed


lemma row_caps: "max_row_rels < 2 ^ 32" "max_row_qty < 2 ^ 32" "max_row_rites < 2 ^ 32" "max_row_knows < 2 ^ 32"
    "max_snap_rows < 2 ^ 32" "max_snap_constraints < 2 ^ 32"
  by (simp_all add: max_row_rels_def max_row_qty_def max_row_rites_def max_row_knows_def max_snap_rows_def max_loci_process_def
      max_snap_constraints_def)

interpretation c_rels: codec "\<lambda>xs. (\<forall>x \<in> set xs. True) \<and> length xs \<le> max_row_rels"
    "\<lambda>xs. put_u32 (length xs) @ concat (map put_rel xs)" "get_counted max_row_rels get_rel"
  by (rule counted_codec[OF c_rel.codec_axioms row_caps(1)])

interpretation c_qtys: codec "\<lambda>xs. (\<forall>x \<in> set xs. qty_ok x) \<and> length xs \<le> max_row_qty"
    "\<lambda>xs. put_u32 (length xs) @ concat (map put_qty xs)" "get_counted max_row_qty get_qty"
  by (rule counted_codec[OF c_qty.codec_axioms row_caps(2)])

interpretation c_machines: codec "\<lambda>xs. (\<forall>x \<in> set xs. machine_ok x) \<and> length xs \<le> max_row_rites"
    "\<lambda>xs. put_u32 (length xs) @ concat (map put_machine xs)" "get_counted max_row_rites (get_machine 3)"
  by (rule counted_codec[OF c_machine.codec_axioms row_caps(3)])

interpretation c_facts: codec "\<lambda>xs. (\<forall>x \<in> set xs. x < 65536) \<and> length xs \<le> max_row_knows"
    "\<lambda>xs. put_u32 (length xs) @ concat (map put_u16 xs)" "get_counted max_row_knows (get_u16 SnapTruncated)"
  by (rule counted_codec[OF c_u16.codec_axioms row_caps(4)])

lemmas [codec_simps] = c_rels.get_put[simplified] c_qtys.get_put[simplified] c_machines.get_put[simplified] c_facts.get_put[simplified]
lemmas [codec_dests] = c_rels.get_sound c_qtys.get_sound c_machines.get_sound c_facts.get_sound

definition row_caps_ok :: "snap_row \<Rightarrow> bool" where
  "row_caps_ok row \<longleftrightarrow> length (sr_qty row) \<le> max_row_qty \<and> length (sr_rels row) \<le> max_row_rels
     \<and> length (sr_knows row) \<le> max_row_knows \<and> length (sr_rites row) \<le> max_row_rites"

definition row_values_ok :: "snap_row \<Rightarrow> bool" where
  "row_values_ok row \<longleftrightarrow> case_option True pose_ok (sr_pose row) \<and> vel_ok (sr_vel row) \<and> in_i32 (sr_yaw_rate row)
     \<and> in_i32 (sr_pitch_rate row) \<and> in_i32 (sr_roll_rate row) \<and> sr_sleep row < 65536 \<and> sr_island row < 65536
     \<and> case_option True support_ok (sr_support row) \<and> case_option True phys_ok (sr_phys row)
     \<and> case_option True ivec3_ok (sr_attach row) \<and> (\<forall>e \<in> set (sr_qty row). qty_ok e) \<and> (\<forall>e \<in> set (sr_rites row). machine_ok e)
     \<and> (\<forall>f \<in> set (sr_knows row). f < 65536) \<and> case_option True aabb_ok (sr_hull row) \<and> length (sr_hull_id row) = 32"

text \<open>The bytes of a row, without the checks of its writer.\<close>

definition row_bytes :: "snap_row \<Rightarrow> byte list" where
  "row_bytes row = put_row_head row
     @ (put_u32 (length (sr_rels row)) @ concat (map put_rel (sr_rels row)))
     @ (put_u32 (length (sr_qty row)) @ concat (map put_qty (sr_qty row)))
     @ (put_u32 (length (sr_rites row)) @ concat (map put_machine (sr_rites row)))
     @ (put_u32 (length (sr_knows row)) @ concat (map put_u16 (sr_knows row))) @ put_row_tail row"

lemma afford_bytes: "get_u64 e (put_u64 (unat (w :: 64 word)) @ rest) = Inr (unat w, rest)"
proof -
  have "unat w < 2 ^ LENGTH(64)" by (rule unsigned_less)
  then show ?thesis by (simp add: codec_simps del: unsigned_less)
qed

lemma afford_sound: "get_u64 e bs = Inr (n, rest) \<Longrightarrow> bs = put_u64 (unat (word_of_nat n :: 64 word)) @ rest"
  by (auto simp: unat_of_nat dest!: codec_dests)

lemma row_written: "encode_row row = Inr b \<Longrightarrow> row_caps_ok row \<and> b = row_bytes row"
  by (auto simp: encode_row_def row_caps_ok_def check_row_caps_def check_cap_def put_counted_def u32_len_def row_bytes_def rbind_Inr_iff
      split: if_splits)

lemma row_read: "row_values_ok row \<Longrightarrow> row_caps_ok row \<Longrightarrow> decode_row 3 (row_bytes row @ rest) = Inr (row, rest)"
  by (simp add: row_values_ok_def row_caps_ok_def row_bytes_def put_row_head_def put_row_tail_def decode_row_def
      andthen_def give_def need_kind_def codec_simps afford_bytes take_bytes_append)

lemma rows_read:
  "\<forall>row \<in> set rows. row_values_ok row \<and> row_caps_ok row \<Longrightarrow>
   get_n (length rows) (decode_row 3) (concat (map row_bytes rows) @ rest) = Inr (rows, rest)"
  by (induction rows) (simp_all add: andthen_def give_def row_read)

section \<open>Blobs\<close>

definition parts_ok :: "snap_parts \<Rightarrow> bool" where
  "parts_ok s \<longleftrightarrow> sp_epoch s < 2 ^ 64 \<and> sp_tick s < 2 ^ 64 \<and> length (sp_canon_hash s) = 32 \<and> length (sp_prefix s) = 32
     \<and> case_option True (\<lambda>a. a < 65536) (sp_opaque s) \<and> (\<forall>row \<in> set (sp_rows s). row_values_ok row)
     \<and> (\<forall>c \<in> set (sp_constraints s). constraint_ok c)"

definition parts_bytes :: "snap_parts \<Rightarrow> byte list" where
  "parts_bytes s = snap_magic @ put_u8 snap_version @ [0, 0, 0] @ put_u64 (sp_epoch s) @ put_u64 (sp_tick s)
     @ sp_canon_hash s @ sp_prefix s @ put_opaque (sp_opaque s) @ put_u32 (length (sp_rows s)) @ concat (map row_bytes (sp_rows s))
     @ put_u32 (length (sp_constraints s)) @ concat (map put_constraint (sp_constraints s))"

lemma extended: "extend_checked buf b = Inr out \<Longrightarrow> out = buf @ b"
  by (simp add: extend_checked_def rbind_Inr_iff)

lemma rows_written:
  "rfold (\<lambda>buf row. rbind (encode_row row) (extend_checked buf)) buf rows = Inr out \<Longrightarrow>
   out = buf @ concat (map row_bytes rows) \<and> (\<forall>row \<in> set rows. row_caps_ok row)"
proof (induction rows arbitrary: buf)
  case (Cons row rows)
  then obtain b mid where "encode_row row = Inr b" "extend_checked buf b = Inr mid"
    "rfold (\<lambda>buf row. rbind (encode_row row) (extend_checked buf)) mid rows = Inr out"
    by (auto simp: rbind_Inr_iff)
  then show ?case using Cons.IH row_written extended by fastforce
qed simp

lemma constraints_written:
  "rfold (\<lambda>buf c. extend_checked buf (put_constraint c)) buf cs = Inr out \<Longrightarrow> out = buf @ concat (map put_constraint cs)"
proof (induction cs arbitrary: buf)
  case (Cons c cs)
  then obtain mid where "extend_checked buf (put_constraint c) = Inr mid"
    "rfold (\<lambda>buf c. extend_checked buf (put_constraint c)) mid cs = Inr out"
    by (auto simp: rbind_Inr_iff)
  then show ?case using Cons.IH extended by fastforce
qed simp

lemma parts_written:
  assumes "encode_parts s = Inr bs"
  shows "bs = parts_bytes s \<and> length bs \<le> snap_blob_cap \<and> length (sp_rows s) \<le> max_snap_rows
    \<and> length (sp_constraints s) \<le> max_snap_constraints \<and> (\<forall>row \<in> set (sp_rows s). row_caps_ok row)"
proof -
  obtain n buf m where "length (sp_rows s) \<le> max_snap_rows" "length (sp_constraints s) \<le> max_snap_constraints"
    "u32_len (length (sp_rows s)) = Inr n" "u32_len (length (sp_constraints s)) = Inr m"
    "rfold (\<lambda>buf row. rbind (encode_row row) (extend_checked buf)) (snap_magic @ put_u8 snap_version @ [0, 0, 0] @ put_u64 (sp_epoch s)
       @ put_u64 (sp_tick s) @ sp_canon_hash s @ sp_prefix s @ put_opaque (sp_opaque s) @ put_u32 n) (sp_rows s) = Inr buf"
    "rfold (\<lambda>buf c. extend_checked buf (put_constraint c)) (buf @ put_u32 m) (sp_constraints s) = Inr bs" "check_snap_size (length bs) = Inr ()"
    using assms by (auto simp: encode_parts_def rbind_Inr_iff check_cap_def split: if_splits)
  with rows_written constraints_written show ?thesis
    by (fastforce simp: u32_len_def parts_bytes_def check_snap_size_def check_cap_def split: if_splits)
qed

lemma parts_read:
  assumes "parts_ok s" "encode_parts s = Inr bs"
  shows "decode_parts bs = Inr s"
proof -
  note w = parts_written[OF assms(2)]
  have "get_counted max_snap_rows (decode_row 3) (put_u32 (length (sp_rows s)) @ concat (map row_bytes (sp_rows s)) @ rest) = Inr (sp_rows s, rest)" for rest
    using w assms(1) row_caps(5) by (simp add: get_counted_def andthen_def capped_put rows_read parts_ok_def)
  moreover have "get_counted max_snap_constraints get_constraint (put_u32 (length (sp_constraints s)) @ concat (map put_constraint (sp_constraints s))) = Inr (sp_constraints s, [])"
    using w assms(1) row_caps(6) c_constraint.get_n_put[of "sp_constraints s" "[]"] by (simp add: get_counted_def andthen_def capped_put parts_ok_def)
  moreover have "get_opaque (put_opaque x @ rest) = Inr (x, rest)" if "case_option True (\<lambda>a. a < 65536) x" for x rest
    using that by (cases x) (simp_all add: get_opaque_def put_opaque_def andthen_def give_def codec_simps)
  ultimately have "get_parts (parts_bytes s) = Inr (s, [])"
    using assms(1)
    by (simp add: get_parts_def parts_bytes_def parts_ok_def andthen_def give_def codec_simps take_bytes_append snap_magic_def
        snap_version_def snap_version_min_def take_bytes_def[of _ 3] take_bytes_def[of _ 4] del: append_assoc)
  moreover have "length (parts_bytes s) \<le> snap_blob_cap" "bs = parts_bytes s" using w by auto
  ultimately show ?thesis by (simp add: decode_parts_def check_cap_def)
qed

end
