(* ===== verification/SnapRebuild.thy ===== *)
theory SnapRebuild
  imports SnapBlobProps
begin

text \<open>
  The projection rebuilt from captured rows.  A snapshot row and a Place row have the same columns, so the rows pushed
  and linked here are related to those of \<open>WorldPlaceProps\<close>; the rites, which come last, are added on top.
\<close>

section \<open>Rows as Place rows\<close>

definition row_of :: "snap_row \<Rightarrow> place_row" where
  "row_of r =
     \<lparr>pw_sigil = sr_sigil r, pw_kind = sr_kind r, pw_pose = sr_pose r, pw_vel = sr_vel r, pw_yaw_rate = sr_yaw_rate r,
      pw_pitch_rate = sr_pitch_rate r, pw_roll_rate = sr_roll_rate r, pw_hull = sr_hull r, pw_hull_id = sr_hull_id r,
      pw_afford = sr_afford r, pw_qty = sr_qty r, pw_rels = sr_rels r, pw_island = sr_island r, pw_sleep = sr_sleep r,
      pw_lod = sr_lod r, pw_phys = sr_phys r, pw_support = sr_support r, pw_attach = sr_attach r, pw_rites = sr_rites r,
      pw_knows = sr_knows r\<rparr>"

definition idle_row :: "snap_row \<Rightarrow> place_row" where
  "idle_row r = (row_of r)\<lparr>pw_rites := []\<rparr>"

lemma row_of_sigil [simp]: "pw_sigil (row_of r) = sr_sigil r" "pw_sigil (idle_row r) = sr_sigil r" "pw_rels (idle_row r) = sr_rels r"
    "pw_rels (row_of r) = sr_rels r"
  by (simp_all add: row_of_def idle_row_def)

lemma row_of_captured: "map_option row_of (capture_snap_row p s) = capture_row p s"
  by (cases "proj_packed p s") (auto simp: capture_snap_row_def capture_row_def row_of_def split: option.split bind_split)

lemma in_place_same:
  "rfold (\<lambda>found (r, b). if r \<noteq> In then Inr found else if found \<noteq> None then Inl SnapDuplicate else Inr (Some b)) acc rels
   = (case rfold (\<lambda>found (r, b). if r \<noteq> In then Inr found else if found \<noteq> None then Inl PlaceSnap else Inr (Some b)) acc rels of
        Inl _ \<Rightarrow> Inl SnapDuplicate | Inr x \<Rightarrow> Inr x)"
  by (induction rels arbitrary: acc) auto

lemma snap_in_place: "snap_row_in_place rels = (case row_in_place rels of Inl _ \<Rightarrow> Inl SnapDuplicate | Inr x \<Rightarrow> Inr x)"
  unfolding snap_row_in_place_def row_in_place_def by (rule in_place_same)

lemma push_row_same: "push_row r p = push_snap_row (idle_row r) p"
proof -
  have "(case snap_row_in_place (sr_rels r) of Inl _ \<Rightarrow> None | Inr x \<Rightarrow> x) = in_place_of (idle_row r)"
    by (simp add: in_place_of_def snap_in_place split: sum.split)
  then show ?thesis
    by (cases "sr_phys r") (simp_all add: push_row_def push_snap_row_def insert_row_maps_def idle_row_def row_of_def Let_def)
qed

lemma link_row_same: "link_row r p = (case add_row_rels (row_of r) p of Inl _ \<Rightarrow> Inl SnapKind | Inr q \<Rightarrow> Inr q)"
proof -
  have "rfold (\<lambda>p (rl, b). if rl = In then Inr p
       else case add_rel_raw s rl b p of Inl _ \<Rightarrow> Inl SnapKind | Inr (i, q) \<Rightarrow> Inr q) p es
    = (case rfold (\<lambda>p (rl, b). if rl = In then Inr p else rbind (add_rel_raw s rl b p) (\<lambda>(i, p). Inr p)) p es of
        Inl _ \<Rightarrow> Inl SnapKind | Inr q \<Rightarrow> Inr q)" for s es
  proof (induction es arbitrary: p)
    case (Cons e es)
    then show ?case by (cases e; cases "fst e = In"; cases "add_rel_raw s (fst e) (snd e) p") auto
  qed simp
  then show ?thesis unfolding link_row_def add_row_rels_def row_of_sigil .
qed

section \<open>What each phase keeps\<close>

definition proj_frame :: "projection \<Rightarrow> nat option \<times> nat \<times> sigil list \<times> (sigil, constraint_state) btree" where
  "proj_frame p = (p_opaque p, p_locus_cap p, p_sigils p, p_constraints p)"

lemma push_frame:
  "proj_frame (fold push_row rows p) = (p_opaque p, p_locus_cap p, p_sigils p @ map sr_sigil rows, p_constraints p)"
proof (induction rows arbitrary: p)
  case (Cons row rows)
  have "proj_frame (push_row row p) = (p_opaque p, p_locus_cap p, p_sigils p @ [sr_sigil row], p_constraints p)"
    by (simp add: proj_frame_def push_row_def Let_def)
  then show ?case using Cons[of "push_row row p"] by (simp add: proj_frame_def)
qed (simp add: proj_frame_def)

lemma add_rel_raw_frame:
  assumes "add_rel_raw a r b p = Inr (i, q)"
  shows "proj_frame q = proj_frame p"
proof -
  obtain x where "q = p\<lparr>p_in_place := x\<rparr> \<or> (\<exists>m. q = p\<lparr>p_rels := m\<rparr>)"
    using assms unfolding add_rel_raw_def Let_def rbind_Inr_iff by (cases "r = In") force+
  then show ?thesis by (auto simp: proj_frame_def)
qed

lemma link_frame:
  assumes "link_row row p = Inr q"
  shows "proj_frame q = proj_frame p"
proof (rule rfold_invariant[where P = "\<lambda>q. proj_frame q = proj_frame p", OF _ _ assms[unfolded link_row_def]])
  fix s e s' assume "proj_frame s = proj_frame p"
    "(case e of (r, b) \<Rightarrow> if r = In then Inr s else case add_rel_raw (sr_sigil row) r b s of Inl _ \<Rightarrow> Inl SnapKind | Inr (i, q) \<Rightarrow> Inr q) = Inr s'"
  then show "proj_frame s' = proj_frame p" by (auto split: if_splits sum.splits prod.splits dest: add_rel_raw_frame)
qed simp

lemma links_frame:
  assumes "rfold (\<lambda>p row. link_row row p) p rows = Inr q"
  shows "proj_frame q = proj_frame p"
proof (rule rfold_invariant[where P = "\<lambda>q. proj_frame q = proj_frame p", OF _ _ assms])
  fix s row s' assume "proj_frame s = proj_frame p" "link_row row s = Inr s'"
  then show "proj_frame s' = proj_frame p" using link_frame by simp
qed simp

lemma starts_frame: "proj_frame (fold start_row rows p) = proj_frame p"
proof (induction rows arbitrary: p)
  case (Cons row rows)
  have "proj_frame (fold (\<lambda>(rite, m) p. put_rite a rite m p) es p) = proj_frame p" for a es
    by (induction es arbitrary: p) (auto simp: put_rite_def proj_frame_def split: option.split)
  then show ?case using Cons by (simp add: start_row_def)
qed simp

section \<open>The rites\<close>

lemma put_rite_view:
  assumes "proj_ok p" "proj_packed p a = Some i"
  shows "proj_ok (put_rite a r m p)" "p_by_sigil (put_rite a r m p) = p_by_sigil p"
    "proj_view (put_rite a r m p) = (proj_view p)(a := Some ((row_view p i)\<lparr>lr_rites := (lr_rites (row_view p i))(r \<mapsto> m)\<rparr>))"
proof -
  have q: "put_rite a r m p = p\<lparr>p_rites := bt_insert (i, r) m (p_rites p)\<rparr>" using assms(2) by (simp add: put_rite_def)
  have w: "writes_row p i (put_rite a r m p)" unfolding q by (rule writes_maps)
  have "row_view (put_rite a r m p) i = (row_view p i)\<lparr>lr_rites := (lr_rites (row_view p i))(r \<mapsto> m)\<rparr>"
    by (simp add: q row_view_def bt_get_insert fun_eq_iff)
  then show "proj_view (put_rite a r m p) = (proj_view p)(a := Some ((row_view p i)\<lparr>lr_rites := (lr_rites (row_view p i))(r \<mapsto> m)\<rparr>))"
    using writes_view[OF w assms] by simp
  show "proj_ok (put_rite a r m p)" using writes_ok[OF w assms(1)] packed_range[OF assms] by simp
  show "p_by_sigil (put_rite a r m p) = p_by_sigil p" by (simp add: q)
qed

lemma start_row_view:
  assumes "proj_ok p" "proj_packed p (sr_sigil row) = Some i"
  shows "proj_ok (start_row row p) \<and> p_by_sigil (start_row row p) = p_by_sigil p
    \<and> proj_view (start_row row p) = (proj_view p)(sr_sigil row :=
        Some ((row_view p i)\<lparr>lr_rites := lr_rites (row_view p i) ++ map_of (rev (sr_rites row))\<rparr>))"
proof -
  let ?a = "sr_sigil row"
  have "proj_ok (fold (\<lambda>(rite, m) p. put_rite ?a rite m p) es p) \<and> p_by_sigil (fold (\<lambda>(rite, m) p. put_rite ?a rite m p) es p) = p_by_sigil p
    \<and> proj_view (fold (\<lambda>(rite, m) p. put_rite ?a rite m p) es p) = (proj_view p)(?a :=
        Some ((row_view p i)\<lparr>lr_rites := lr_rites (row_view p i) ++ map_of (rev es)\<rparr>))" for es
    using assms
  proof (induction es arbitrary: p)
    case Nil
    then show ?case by (auto simp: proj_view_def fun_eq_iff)
  next
    case (Cons e es)
    obtain r m where e: "e = (r, m)" by (cases e)
    let ?q = "put_rite ?a r m p"
    note q = put_rite_view[OF Cons.prems, of r m]
    have i: "proj_packed ?q ?a = Some i" using Cons.prems(2) q(2) by (simp add: proj_packed_def)
    have rv: "row_view ?q i = (row_view p i)\<lparr>lr_rites := (lr_rites (row_view p i))(r \<mapsto> m)\<rparr>"
      using fun_cong[OF q(3), of ?a] i by (simp add: proj_view_def)
    have "(lr_rites (row_view p i))(r \<mapsto> m) ++ map_of (rev es) = lr_rites (row_view p i) ++ map_of (rev (e # es))"
      by (simp add: e)
    then show ?case using Cons.IH[OF q(1) i] q(2) unfolding q(3) rv fun_upd_upd by (simp add: e)
  qed
  then show ?thesis by (simp add: start_row_def)
qed

lemma start_rows_view:
  assumes "proj_ok p" "distinct (map sr_sigil rows)" "\<forall>row \<in> set rows. proj_view p (sr_sigil row) = Some (loaded_row (idle_row row))"
  shows "proj_ok (fold start_row rows p)
    \<and> proj_view (fold start_row rows p) = fold (\<lambda>row V. V(sr_sigil row := Some (loaded_row (row_of row)))) rows (proj_view p)"
  using assms
proof (induction rows arbitrary: p)
  case (Cons row rows)
  obtain i where i: "proj_packed p (sr_sigil row) = Some i" "row_view p i = loaded_row (idle_row row)"
    using Cons.prems(3) by (auto simp: proj_view_def)
  note q = start_row_view[OF Cons.prems(1) i(1)]
  have "(row_view p i)\<lparr>lr_rites := lr_rites (row_view p i) ++ map_of (rev (sr_rites row))\<rparr> = loaded_row (row_of row)"
    by (simp add: i(2) loaded_row_def idle_row_def row_of_def in_place_of_def)
  then have v: "proj_view (start_row row p) = (proj_view p)(sr_sigil row := Some (loaded_row (row_of row)))" using q by simp
  have "\<forall>r \<in> set rows. proj_view (start_row row p) (sr_sigil r) = Some (loaded_row (idle_row r))"
  proof
    fix r assume r: "r \<in> set rows"
    have "sr_sigil r \<noteq> sr_sigil row" using Cons.prems(2) r by (auto simp: image_iff)
    then show "proj_view (start_row row p) (sr_sigil r) = Some (loaded_row (idle_row r))" using Cons.prems(3) r by (simp add: v)
  qed
  then show ?case using Cons.IH[of "start_row row p"] Cons.prems(2) q by (simp add: v)
qed simp

end
